(* ===== verification/Prelude.thy ===== *)
theory Prelude
  imports Main "HOL-Library.List_Lexorder" "HOL-Library.Char_ord"
begin

text \<open>
  Shared vocabulary of the development: the names of the program's basic types, the error monad
  in which every Python function that may raise is written, Python's dictionary and sorting
  idioms, and the generic lemmas about them.

  Python values are represented as follows.  A \<^verbatim>\<open>UUID\<close> is its canonical text (equality of UUIDs
  and \<^verbatim>\<open>key=str\<close> orderings are decided on that text), a \<^verbatim>\<open>datetime\<close> is an integer number of
  microseconds (the resolution of the type), a \<^verbatim>\<open>timedelta\<close> likewise, Python's unbounded
  integers are \<^typ>\<open>int\<close>, and a function that may raise returns a value of a sum type whose left
  component is the exception.
\<close>

type_synonym uuid = string
type_synonym tenant = string
type_synonym digest = string
type_synonym timestamp = int

named_theorems result_simps "evaluation of the error monad"
named_theorems inv_intros "preservation of component invariants"

subsection \<open>Errors as values\<close>

definition rbind :: "'err + 'val \<Rightarrow> ('val \<Rightarrow> 'err + 'res) \<Rightarrow> 'err + 'res" where
  "rbind r f = (case r of Inl e \<Rightarrow> Inl e | Inr x \<Rightarrow> f x)"

definition guard :: "bool \<Rightarrow> 'err \<Rightarrow> 'err + unit" where
  "guard b e = (if b then Inr () else Inl e)"

lemma rbind_simps [simp, result_simps]:
  "rbind (Inl e) f = Inl e" "rbind (Inr x) f = f x"
  by (simp_all add: rbind_def)

lemma rbind_Inr_iff: "rbind r f = Inr y \<longleftrightarrow> (\<exists>x. r = Inr x \<and> f x = Inr y)"
  by (cases r) auto

lemma rbind_InrE:
  assumes "rbind r f = Inr y"
  obtains x where "r = Inr x" "f x = Inr y"
  using assms by (cases r) auto

lemma rbind_Inl_iff: "rbind r f = Inl e \<longleftrightarrow> r = Inl e \<or> (\<exists>x. r = Inr x \<and> f x = Inl e)"
  by (cases r) auto

lemma guard_simps [simp, result_simps]:
  "guard True e = Inr ()" "guard False e = Inl e"
  by (simp_all add: guard_def)

lemma guard_Inr_iff: "guard b e = Inr u \<longleftrightarrow> b"
  by (simp add: guard_def)

lemma guard_Inl_iff: "guard b e = Inl e' \<longleftrightarrow> \<not> b \<and> e = e'"
  by (auto simp: guard_def)

lemmas result_iffs = rbind_Inr_iff rbind_Inl_iff guard_Inr_iff guard_Inl_iff

text \<open>A list comprehension whose element expression may raise: the first error wins.\<close>

fun map_ok :: "('item \<Rightarrow> 'err + 'val) \<Rightarrow> 'item list \<Rightarrow> 'err + 'val list" where
  "map_ok body [] = Inr []"
| "map_ok body (x # xs) = rbind (body x) (\<lambda>y. rbind (map_ok body xs) (\<lambda>ys. Inr (y # ys)))"

lemma map_ok_Inr_iff: "map_ok f xs = Inr ys \<longleftrightarrow> list_all2 (\<lambda>x y. f x = Inr y) xs ys"
proof (induction xs arbitrary: ys)
  case Nil
  then show ?case by auto
next
  case (Cons x xs)
  then show ?case by (cases ys) (auto simp: rbind_Inr_iff)
qed

lemma map_ok_length: "map_ok f xs = Inr ys \<Longrightarrow> length ys = length xs"
  by (simp add: map_ok_Inr_iff list_all2_lengthD)

lemma map_ok_total: "(\<And>x. x \<in> set xs \<Longrightarrow> f x = Inr (g x)) \<Longrightarrow> map_ok f xs = Inr (map g xs)"
  by (induction xs) auto

lemma rbind_total:
  "\<exists>x. r = Inr x \<Longrightarrow> (\<And>x. \<exists>y. f x = Inr y) \<Longrightarrow> \<exists>y. rbind r f = Inr y"
  by auto

lemma map_ok_Inr_map:
  assumes "map_ok f xs = Inr ys"
  shows "\<exists>g. (\<forall>x\<in>set xs. f x = Inr (g x)) \<and> ys = map g xs"
proof -
  define g where "g x = (case f x of Inr y \<Rightarrow> y | Inl e \<Rightarrow> undefined)" for x
  from assms have "list_all2 (\<lambda>x y. f x = Inr y) xs ys" by (simp add: map_ok_Inr_iff)
  then have "(\<forall>x\<in>set xs. f x = Inr (g x)) \<and> ys = map g xs"
    by (induction rule: list_all2_induct) (simp_all add: g_def)
  then show ?thesis by blast
qed

lemma map_ok_total_ex:
  assumes "\<And>x. x \<in> set xs \<Longrightarrow> \<exists>y. f x = Inr y"
  shows "\<exists>ys. map_ok f xs = Inr ys"
  using assms by (induction xs) (auto, metis rbind_simps(2))

lemma map_ok_set:
  assumes "map_ok f xs = Inr ys" and "y \<in> set ys"
  shows "\<exists>x\<in>set xs. f x = Inr y"
proof -
  from assms(1) have "list_all2 (\<lambda>x y. f x = Inr y) xs ys"
    by (simp add: map_ok_Inr_iff)
  then show ?thesis
    using assms(2) by (induction rule: list_all2_induct) auto
qed

lemma list_all2_ex:
  "list_all2 P xs ys \<Longrightarrow> x \<in> set xs \<Longrightarrow> \<exists>y. y \<in> set ys \<and> P x y"
  by (induction rule: list_all2_induct) auto

subsection \<open>Python collections\<close>

text \<open>
  \<^verbatim>\<open>{key(x): x for x in xs}\<close>: later items overwrite earlier ones.
\<close>

definition dict_by :: "('a \<Rightarrow> 'k) \<Rightarrow> 'a list \<Rightarrow> ('k \<rightharpoonup> 'a)" where
  "dict_by key xs = map_of (rev (map (\<lambda>x. (key x, x)) xs))"

lemma dict_by_Nil [simp]: "dict_by key [] = Map.empty"
  by (simp add: dict_by_def)

lemma dict_by_snoc: "dict_by key (xs @ [x]) = (dict_by key xs)(key x \<mapsto> x)"
  by (simp add: dict_by_def)

lemma dom_dict_by [simp]: "dom (dict_by key xs) = key ` set xs"
  by (simp add: dict_by_def dom_map_of_conv_image_fst image_image)

lemma dict_by_SomeD: "dict_by key xs k = Some x \<Longrightarrow> x \<in> set xs \<and> key x = k"
  by (auto simp: dict_by_def dest!: map_of_SomeD)

lemma dict_by_ex: "k \<in> key ` set xs \<Longrightarrow> \<exists>x. dict_by key xs k = Some x \<and> x \<in> set xs \<and> key x = k"
proof -
  assume "k \<in> key ` set xs"
  then have "k \<in> dom (dict_by key xs)" by simp
  then obtain x where "dict_by key xs k = Some x" by blast
  with dict_by_SomeD [OF this] show ?thesis by blast
qed

lemma dict_by_distinct:
  assumes "distinct (map key xs)" and "x \<in> set xs"
  shows "dict_by key xs (key x) = Some x"
proof -
  have "map fst (rev (map (\<lambda>x. (key x, x)) xs)) = rev (map key xs)"
    by (induction xs) simp_all
  then have "distinct (map fst (rev (map (\<lambda>x. (key x, x)) xs)))"
    using assms(1) by (simp only: distinct_rev)
  moreover have "(key x, x) \<in> set (rev (map (\<lambda>x. (key x, x)) xs))"
    using assms(2) by simp
  ultimately show ?thesis
    unfolding dict_by_def by (rule map_of_is_SomeI)
qed

text \<open>\<^verbatim>\<open>sorted(set)\<close> of the elements of a list.\<close>

definition sorted_set :: "('a::linorder) list \<Rightarrow> 'a list" where
  "sorted_set xs = sort (remdups xs)"

lemma set_sorted_set [simp]: "set (sorted_set xs) = set xs"
  by (simp add: sorted_set_def)

lemma distinct_sorted_set [simp]: "distinct (sorted_set xs)"
  by (simp add: sorted_set_def)

lemma sorted_sorted_set [simp]: "sorted (sorted_set xs)"
  by (simp add: sorted_set_def)

lemma sorted_set_Nil_iff [simp]: "sorted_set xs = [] \<longleftrightarrow> xs = []"
  by (metis set_empty set_sorted_set)

lemma sorted_set_cong: "set xs = set ys \<Longrightarrow> sorted_set xs = sorted_set ys"
  by (simp add: sorted_distinct_set_unique)

text \<open>\<^verbatim>\<open>len(set(xs)) == len(xs)\<close> is the usual duplicate test of the source.\<close>

lemma length_remdups_eq_iff: "length (remdups xs) = length xs \<longleftrightarrow> distinct xs"
  by simp

subsection \<open>Rendering of numbers in f-strings\<close>

fun digits_of :: "nat \<Rightarrow> string" where
  "digits_of n = (if n < 10 then [char_of (n + 48)]
                  else digits_of (n div 10) @ [char_of (n mod 10 + 48)])"

declare digits_of.simps [simp del]

definition str_of_int :: "int \<Rightarrow> string" where
  "str_of_int i = (if i < 0 then ''-'' @ digits_of (nat (- i)) else digits_of (nat i))"

end
