(* ===== verification/VerificationState.thy ===== *)
theory VerificationState
  imports Prelude
begin

text \<open>
  The verification state machine: the states of \<^verbatim>\<open>VerificationState\<close>, the transition table, and
  \<^verbatim>\<open>VerificationStateMachine.transition\<close> of
  \<^verbatim>\<open>backend/src/liyans/domains/verification/state_machine.py\<close>.
  The lemmas establish the invariant of every reachable state, the bound on the length of a run
  and that nothing is released without aggregation or review.
\<close>

subsection \<open>States and transitions\<close>

datatype verification_state =
  VS_ACCEPTED | VS_SNAPSHOT_VALIDATING | VS_CLAIM_EXTRACTING | VS_CLAIMS_READY
| VS_MODULE_DISPATCHING | VS_VERIFYING | VS_AGGREGATING | VS_REVISION_PLANNING
| VS_REVISION_WAITING | VS_REVERIFYING | VS_RELEASE_PENDING | VS_RELEASED | VS_BLOCKED
| VS_REVIEW_REQUIRED | VS_FAILED | VS_EXPIRED | VS_CANCELLED

definition terminal_states :: "verification_state list" where
  "terminal_states = [VS_RELEASED, VS_BLOCKED, VS_FAILED, VS_EXPIRED, VS_CANCELLED]"

text \<open>The table, with \<^verbatim>\<open>.get(current, frozenset())\<close> for the states that have no row.\<close>

fun allowed_transitions :: "verification_state \<Rightarrow> verification_state list" where
  "allowed_transitions VS_ACCEPTED =
     [VS_SNAPSHOT_VALIDATING, VS_CANCELLED, VS_EXPIRED, VS_FAILED]"
| "allowed_transitions VS_SNAPSHOT_VALIDATING =
     [VS_CLAIM_EXTRACTING, VS_REVIEW_REQUIRED, VS_BLOCKED, VS_EXPIRED, VS_FAILED, VS_CANCELLED]"
| "allowed_transitions VS_CLAIM_EXTRACTING =
     [VS_CLAIMS_READY, VS_REVIEW_REQUIRED, VS_BLOCKED, VS_EXPIRED, VS_FAILED, VS_CANCELLED]"
| "allowed_transitions VS_CLAIMS_READY =
     [VS_MODULE_DISPATCHING, VS_REVIEW_REQUIRED, VS_BLOCKED, VS_EXPIRED, VS_FAILED, VS_CANCELLED]"
| "allowed_transitions VS_MODULE_DISPATCHING =
     [VS_VERIFYING, VS_REVIEW_REQUIRED, VS_BLOCKED, VS_EXPIRED, VS_FAILED, VS_CANCELLED]"
| "allowed_transitions VS_VERIFYING =
     [VS_AGGREGATING, VS_REVIEW_REQUIRED, VS_BLOCKED, VS_EXPIRED, VS_FAILED, VS_CANCELLED]"
| "allowed_transitions VS_AGGREGATING =
     [VS_RELEASE_PENDING, VS_REVISION_PLANNING, VS_REVIEW_REQUIRED, VS_BLOCKED, VS_EXPIRED,
      VS_FAILED, VS_CANCELLED]"
| "allowed_transitions VS_REVISION_PLANNING =
     [VS_REVISION_WAITING, VS_REVIEW_REQUIRED, VS_BLOCKED, VS_EXPIRED, VS_FAILED, VS_CANCELLED]"
| "allowed_transitions VS_REVISION_WAITING =
     [VS_REVERIFYING, VS_REVIEW_REQUIRED, VS_BLOCKED, VS_EXPIRED, VS_FAILED, VS_CANCELLED]"
| "allowed_transitions VS_REVERIFYING =
     [VS_SNAPSHOT_VALIDATING, VS_REVIEW_REQUIRED, VS_BLOCKED, VS_EXPIRED, VS_FAILED, VS_CANCELLED]"
| "allowed_transitions VS_RELEASE_PENDING =
     [VS_RELEASED, VS_REVIEW_REQUIRED, VS_BLOCKED, VS_EXPIRED, VS_FAILED, VS_CANCELLED]"
| "allowed_transitions VS_REVIEW_REQUIRED =
     [VS_RELEASE_PENDING, VS_REVISION_PLANNING, VS_BLOCKED, VS_EXPIRED, VS_CANCELLED]"
| "allowed_transitions _ = []"

record transition_decision =
  td_previous_state :: verification_state
  td_current_state :: verification_state
  td_revision_round :: int

datatype transition_error =
  Terminal_state verification_state
| Transition_not_allowed verification_state verification_state
| Revision_budget_exhausted
| Reverification_requires_round

definition vs_transition ::
  "verification_state \<Rightarrow> verification_state \<Rightarrow> int \<Rightarrow> transition_error + transition_decision" where
  "vs_transition current target revision_round =
     (if current \<in> set terminal_states then Inl (Terminal_state current)
      else if target \<notin> set (allowed_transitions current)
        then Inl (Transition_not_allowed current target)
      else
        (let next_round = (if target = VS_REVISION_PLANNING then revision_round + 1
                           else revision_round)
         in if target = VS_REVISION_PLANNING \<and> next_round > 2
              then Inl Revision_budget_exhausted
            else if current = VS_REVERIFYING \<and> revision_round = 0
              then Inl Reverification_requires_round
            else Inr \<lparr>td_previous_state = current, td_current_state = target,
                      td_revision_round = next_round\<rparr>))"

subsection \<open>Runs\<close>

text \<open>One accepted transition of a verification with its revision round.\<close>

inductive vs_step :: "verification_state \<times> int \<Rightarrow> verification_state \<times> int \<Rightarrow> bool" where
  vs_step: "vs_transition s t r = Inr d \<Longrightarrow> vs_step (s, r) (t, td_revision_round d)"

inductive_cases vs_stepE: "vs_step (s, r) (t, r')"

text \<open>\<open>vs_run c cs\<close>: the configurations \<open>cs\<close> follow one another from \<open>c\<close>.\<close>

fun vs_run :: "verification_state \<times> int \<Rightarrow> (verification_state \<times> int) list \<Rightarrow> bool" where
  "vs_run c [] = True"
| "vs_run c (d # ds) = (vs_step c d \<and> vs_run d ds)"

lemma vs_run_append: "vs_run c (ds @ es) \<longleftrightarrow> vs_run c ds \<and> vs_run (last (c # ds)) es"
  by (induction ds arbitrary: c) auto

lemma vs_step_iff:
  "vs_step (s, r) (t, r') \<longleftrightarrow>
     t \<in> set (allowed_transitions s)
     \<and> (t = VS_REVISION_PLANNING \<longrightarrow> r < 2)
     \<and> (s = VS_REVERIFYING \<longrightarrow> r \<noteq> 0)
     \<and> r' = (if t = VS_REVISION_PLANNING then r + 1 else r)"
proof
  assume "vs_step (s, r) (t, r')"
  then show "t \<in> set (allowed_transitions s)
     \<and> (t = VS_REVISION_PLANNING \<longrightarrow> r < 2)
     \<and> (s = VS_REVERIFYING \<longrightarrow> r \<noteq> 0)
     \<and> r' = (if t = VS_REVISION_PLANNING then r + 1 else r)"
    by (auto elim!: vs_stepE simp: vs_transition_def Let_def split: if_splits)
next
  assume *: "t \<in> set (allowed_transitions s)
     \<and> (t = VS_REVISION_PLANNING \<longrightarrow> r < 2)
     \<and> (s = VS_REVERIFYING \<longrightarrow> r \<noteq> 0)
     \<and> r' = (if t = VS_REVISION_PLANNING then r + 1 else r)"
  then have "s \<notin> set terminal_states"
    by (cases s) (auto simp: terminal_states_def)
  with * have "vs_transition s t r =
      Inr \<lparr>td_previous_state = s, td_current_state = t, td_revision_round = r'\<rparr>"
    by (auto simp: vs_transition_def Let_def)
  then show "vs_step (s, r) (t, r')"
    using vs_step [of s t r] by fastforce
qed

subsection \<open>The invariant of reachable states\<close>

definition vs_inv :: "verification_state \<times> int \<Rightarrow> bool" where
  "vs_inv c \<longleftrightarrow> 0 \<le> snd c \<and> snd c \<le> 2
     \<and> (fst c \<in> {VS_REVISION_PLANNING, VS_REVISION_WAITING, VS_REVERIFYING} \<longrightarrow> 1 \<le> snd c)
     \<and> (fst c = VS_ACCEPTED \<longrightarrow> snd c = 0)"

lemma vs_step_inv [inv_intros]:
  assumes "vs_step c d" and "vs_inv c"
  shows "vs_inv d"
proof -
  obtain s r where c: "c = (s, r)" by force
  obtain t r' where d: "d = (t, r')" by force
  show ?thesis
    using assms unfolding c d vs_step_iff vs_inv_def
    by (cases s) (auto split: if_splits)
qed

lemma vs_run_inv: "vs_inv c \<Longrightarrow> vs_run c ds \<Longrightarrow> d \<in> set ds \<Longrightarrow> vs_inv d"
  by (induction ds arbitrary: c) (auto intro: vs_step_inv)

lemma vs_inv_initial: "vs_inv (VS_ACCEPTED, 0)"
  by (simp add: vs_inv_def)

subsection \<open>A potential that bounds the length of runs\<close>

text \<open>
  Every step decreases the potential by at least one, except a step into review, which may
  increase it by one (from \<^const>\<open>VS_RELEASE_PENDING\<close>) or leave it as it is.
\<close>

fun vs_rank :: "verification_state \<Rightarrow> int" where
  "vs_rank VS_REVISION_PLANNING = 10"
| "vs_rank VS_REVISION_WAITING = 9"
| "vs_rank VS_REVERIFYING = 8"
| "vs_rank VS_ACCEPTED = 8"
| "vs_rank VS_SNAPSHOT_VALIDATING = 7"
| "vs_rank VS_CLAIM_EXTRACTING = 6"
| "vs_rank VS_CLAIMS_READY = 5"
| "vs_rank VS_MODULE_DISPATCHING = 4"
| "vs_rank VS_VERIFYING = 3"
| "vs_rank VS_AGGREGATING = 2"
| "vs_rank VS_REVIEW_REQUIRED = 2"
| "vs_rank VS_RELEASE_PENDING = 1"
| "vs_rank _ = 0"

definition vs_potential :: "verification_state \<times> int \<Rightarrow> int" where
  "vs_potential c = 10 * (2 - snd c) + vs_rank (fst c)"

lemma vs_potential_step:
  assumes "vs_step c d"
  shows "vs_potential d + 1 \<le> vs_potential c + (if fst d = VS_REVIEW_REQUIRED then 2 else 0)"
proof -
  obtain s r where c: "c = (s, r)" by force
  obtain t r' where d: "d = (t, r')" by force
  show ?thesis
    using assms unfolding c d vs_step_iff vs_potential_def
    by (cases s) (auto split: if_splits)
qed

lemma vs_potential_nonneg: "vs_inv c \<Longrightarrow> 0 \<le> vs_potential c"
  unfolding vs_potential_def vs_inv_def by (cases "fst c") auto

definition review_entries :: "(verification_state \<times> int) list \<Rightarrow> int" where
  "review_entries cs = int (length (filter (\<lambda>c. fst c = VS_REVIEW_REQUIRED) cs))"

lemma vs_run_potential:
  "vs_run c ds \<Longrightarrow> vs_inv c \<Longrightarrow>
     int (length ds) + vs_potential (last (c # ds)) \<le> vs_potential c + 2 * review_entries ds"
proof (induction ds arbitrary: c)
  case Nil
  then show ?case by (simp add: review_entries_def)
next
  case (Cons d ds)
  then have step: "vs_step c d" and run: "vs_run d ds" by simp_all
  from step Cons.prems(2) have "vs_inv d" by (rule vs_step_inv)
  with run have "int (length ds) + vs_potential (last (d # ds))
      \<le> vs_potential d + 2 * review_entries ds"
    by (rule Cons.IH)
  with vs_potential_step [OF step] show ?case
    by (simp add: review_entries_def split: if_splits)
qed

subsection \<open>Properties\<close>

text \<open>
  C1.  In every run from the initial configuration the revision round stays between zero and
  two, the revision states are only entered with a round of at least one, and a state is never
  stuck: from each non-terminal configuration of the run cancellation is accepted, while a
  terminal one accepts no target at all.
\<close>

theorem verification_run_safe:
  assumes "vs_run (VS_ACCEPTED, 0) cs" and "(s, r) \<in> set cs"
  shows "0 \<le> r \<and> r \<le> 2
     \<and> (s \<in> {VS_REVISION_PLANNING, VS_REVISION_WAITING, VS_REVERIFYING} \<longrightarrow> 1 \<le> r)
     \<and> (if s \<in> set terminal_states then (\<forall>t. vs_transition s t r = Inl (Terminal_state s))
        else vs_step (s, r) (VS_CANCELLED, r))"
proof -
  from vs_run_inv [OF vs_inv_initial assms] have inv: "vs_inv (s, r)" .
  have "s \<notin> set terminal_states \<Longrightarrow> VS_CANCELLED \<in> set (allowed_transitions s)"
    by (cases s) (simp_all add: terminal_states_def)
  with inv show ?thesis
    by (auto simp: vs_inv_def vs_step_iff vs_transition_def)
qed

theorem verification_run_safe_witness:
  "\<exists>cs. vs_run (VS_ACCEPTED, 0) cs
     \<and> (if VS_SNAPSHOT_VALIDATING \<in> set terminal_states
        then (\<forall>t. vs_transition VS_SNAPSHOT_VALIDATING t 0
                = Inl (Terminal_state VS_SNAPSHOT_VALIDATING))
        else vs_step (VS_SNAPSHOT_VALIDATING, 0) (VS_CANCELLED, 0))"
proof -
  let ?cs = "[(VS_SNAPSHOT_VALIDATING, 0 :: int)]"
  have run: "vs_run (VS_ACCEPTED, 0) ?cs" by (simp add: vs_step_iff)
  have mem: "(VS_SNAPSHOT_VALIDATING, 0) \<in> set ?cs" by simp
  from run verification_run_safe [OF run mem] show ?thesis by blast
qed

text \<open>
  Runs are bounded: a run from the initial configuration that enters review \<open>k\<close> times makes
  at most \<open>28 + 2 * k\<close> transitions, so the only way a verification can go on for ever is through
  repeated manual reviews.
\<close>

theorem verification_run_bounded:
  assumes "vs_run (VS_ACCEPTED, 0) cs"
  shows "int (length cs) \<le> 28 + 2 * review_entries cs"
proof -
  have "vs_inv (last ((VS_ACCEPTED, 0) # cs))"
    using vs_run_inv [OF vs_inv_initial assms] vs_inv_initial by (cases cs rule: rev_cases) auto
  then have "0 \<le> vs_potential (last ((VS_ACCEPTED, 0) # cs))"
    by (rule vs_potential_nonneg)
  with vs_run_potential [OF assms vs_inv_initial] show ?thesis
    by (simp add: vs_potential_def)
qed

theorem verification_run_bounded_witness:
  "int (length [(VS_SNAPSHOT_VALIDATING, 0 :: int), (VS_REVIEW_REQUIRED, 0)])
     \<le> 28 + 2 * review_entries [(VS_SNAPSHOT_VALIDATING, 0), (VS_REVIEW_REQUIRED, 0)]"
  by (rule verification_run_bounded) (simp add: vs_step_iff)

lemma released_predecessor:
  "vs_step (s, r) (VS_RELEASED, r') \<Longrightarrow> s = VS_RELEASE_PENDING"
  by (cases s) (simp_all add: vs_step_iff)

lemma release_pending_predecessor:
  "vs_step (s, r) (VS_RELEASE_PENDING, r') \<Longrightarrow> s = VS_AGGREGATING \<or> s = VS_REVIEW_REQUIRED"
  by (cases s) (simp_all add: vs_step_iff)

text \<open>
  Nothing is released without a decision: the two states before \<open>RELEASED\<close> in a run are
  \<open>RELEASE_PENDING\<close> and, before it, aggregation or review, all in the same revision round.
\<close>

theorem release_requires_decision:
  assumes "vs_run (VS_ACCEPTED, 0) (cs @ [(VS_RELEASED, r)])"
  shows "\<exists>ds s. cs = ds @ [(s, r), (VS_RELEASE_PENDING, r)]
     \<and> (s = VS_AGGREGATING \<or> s = VS_REVIEW_REQUIRED)"
proof -
  from assms have run: "vs_run (VS_ACCEPTED, 0) cs"
    and last: "vs_step (last ((VS_ACCEPTED, 0) # cs)) (VS_RELEASED, r)"
    by (simp_all add: vs_run_append)
  from last have cs: "cs \<noteq> []" by (auto simp: vs_step_iff)
  then obtain es p q where es: "cs = es @ [(p, q)]"
    by (metis append_butlast_last_id surj_pair)
  with last have step: "vs_step (p, q) (VS_RELEASED, r)" by simp
  from released_predecessor [OF step] have p: "p = VS_RELEASE_PENDING" .
  from step have q: "q = r" by (simp add: vs_step_iff)
  from run es p q have pending: "vs_step (last ((VS_ACCEPTED, 0) # es)) (VS_RELEASE_PENDING, r)"
    by (simp add: vs_run_append)
  then have "es \<noteq> []" by (auto simp: vs_step_iff)
  then obtain ds s t where ds: "es = ds @ [(s, t)]"
    by (metis append_butlast_last_id surj_pair)
  with pending have pending': "vs_step (s, t) (VS_RELEASE_PENDING, r)" by simp
  from release_pending_predecessor [OF pending']
  have "s = VS_AGGREGATING \<or> s = VS_REVIEW_REQUIRED" .
  moreover from pending' have "t = r" by (simp add: vs_step_iff)
  ultimately show ?thesis using es ds p q by auto
qed

theorem release_requires_decision_witness:
  "\<exists>ds s. [(VS_SNAPSHOT_VALIDATING, 0 :: int), (VS_REVIEW_REQUIRED, 0), (VS_RELEASE_PENDING, 0)]
        = ds @ [(s, 0), (VS_RELEASE_PENDING, 0)]
     \<and> (s = VS_AGGREGATING \<or> s = VS_REVIEW_REQUIRED)"
  by (rule release_requires_decision) (simp add: vs_step_iff)

end
