(* ===== verification/PyFloat.thy ===== *)
theory PyFloat
  imports Prelude Complex_Main "HOL-Library.Log_Nat"
begin

text \<open>
  Python's \<^verbatim>\<open>float\<close>: a finite double is the rational number it denotes, and every arithmetic
  operation is the exact operation followed by rounding to nearest, ties to even, with a 53-bit
  significand and gradual underflow (\<^const>\<open>round\<close> of the library rounds ties up and is not used).
  Overflow to infinity and NaN are outside the model: the code modelled here keeps its values
  far below \<^verbatim>\<open>2**1024\<close> and tests for them where it can meet them.

  The rounding function is used through the interface \<open>rounding\<close> below, whose laws are the ones a
  bound on a computed float rests on.
\<close>

subsection \<open>Rounding to the nearest integer, ties to even\<close>

definition rhe :: "rat \<Rightarrow> int" where
  "rhe x = (let f = \<lfloor>x\<rfloor>; d = x - of_int f
            in if d < 1/2 then f else if 1/2 < d then f + 1 else if even f then f else f + 1)"

lemma rhe_of_int [simp]: "rhe (of_int n) = n"
  by (simp add: rhe_def)

lemma rhe_bounds: "\<lfloor>x\<rfloor> \<le> rhe x" "rhe x \<le> \<lfloor>x\<rfloor> + 1"
  by (simp_all add: rhe_def Let_def)

lemma rhe_mono:
  assumes "x \<le> y"
  shows "rhe x \<le> rhe y"
proof (cases "\<lfloor>x\<rfloor> = \<lfloor>y\<rfloor>")
  case True
  with assms show ?thesis by (auto simp: rhe_def Let_def)
next
  case False
  with floor_mono [OF assms] have "\<lfloor>x\<rfloor> + 1 \<le> \<lfloor>y\<rfloor>" by linarith
  with rhe_bounds(2) [of x] rhe_bounds(1) [of y] show ?thesis by linarith
qed

lemma rhe_minus: "rhe (- x) = - rhe x"
proof (cases "x = of_int \<lfloor>x\<rfloor>")
  case True
  then show ?thesis by (metis of_int_minus rhe_of_int)
next
  case False
  have "of_int \<lfloor>x\<rfloor> \<le> x" "x < of_int \<lfloor>x\<rfloor> + 1" by linarith+
  with False have *: "of_int \<lfloor>x\<rfloor> < x" "x < of_int \<lfloor>x\<rfloor> + 1" by linarith+
  have fl: "\<lfloor>- x\<rfloor> = - \<lfloor>x\<rfloor> - 1"
    by (rule floor_unique) (use * in simp_all)
  show ?thesis
    using * by (simp add: rhe_def Let_def fl)
qed

subsection \<open>The binary exponent\<close>

definition fexp :: "rat \<Rightarrow> int" where
  "fexp x = (let (n, d) = quotient_of \<bar>x\<bar>; k = bitlen n - bitlen d
             in if 2 powi k \<le> \<bar>x\<bar> then k else k - 1)"

lemma bitlen_powi:
  assumes "0 < n"
  shows "(2::rat) powi (bitlen n - 1) \<le> of_int n" "of_int n < (2::rat) powi bitlen n"
proof -
  have pos: "1 \<le> bitlen n" using assms by (simp add: bitlen_def floorlog_def)
  have "2 ^ nat (bitlen n - 1) \<le> n" "n < 2 ^ nat (bitlen n)"
    using bitlen_bounds [OF assms] by simp_all
  then have "(2::rat) ^ nat (bitlen n - 1) \<le> of_int n" "of_int n < (2::rat) ^ nat (bitlen n)"
    by (metis of_int_le_iff of_int_numeral of_int_power,
        metis of_int_less_iff of_int_numeral of_int_power)
  with pos show "(2::rat) powi (bitlen n - 1) \<le> of_int n" "of_int n < (2::rat) powi bitlen n"
    by (simp_all add: power_int_def)
qed

lemma fexp_bounds:
  assumes "x \<noteq> 0"
  shows "2 powi fexp x \<le> \<bar>x\<bar>" "\<bar>x\<bar> < 2 powi (fexp x + 1)"
proof -
  obtain n d where q: "quotient_of \<bar>x\<bar> = (n, d)" by force
  have d: "0 < d" using q by (rule quotient_of_denom_pos)
  have x: "\<bar>x\<bar> = of_int n / of_int d" using q by (rule quotient_of_div)
  have "0 < \<bar>x\<bar>" using assms by simp
  with x d have n: "0 < n" by (simp add: zero_less_divide_iff)
  let ?k = "bitlen n - bitlen d"
  note bn = bitlen_powi [OF n] and bd = bitlen_powi [OF d]
  have "\<bar>x\<bar> < 2 powi bitlen n / 2 powi (bitlen d - 1)"
    unfolding x using bn(2) bd(1) d n
    by (intro frac_less) auto
  also have "\<dots> = 2 powi (bitlen n - (bitlen d - 1))"
    by (simp add: power_int_diff)
  also have "bitlen n - (bitlen d - 1) = ?k + 1" by simp
  finally have up: "\<bar>x\<bar> < 2 powi (?k + 1)" .
  have "2 powi (bitlen n - 1) / 2 powi bitlen d \<le> of_int n / (of_int d :: rat)"
    using bn(1) bd(2) d n by (intro frac_le) auto
  then have lo: "2 powi (?k - 1) \<le> \<bar>x\<bar>"
    unfolding x by (simp add: power_int_diff [symmetric] algebra_simps)
  show "2 powi fexp x \<le> \<bar>x\<bar>" "\<bar>x\<bar> < 2 powi (fexp x + 1)"
    using up lo by (auto simp: fexp_def q Let_def)
qed

lemma powi2_le_iff: "(2::rat) powi a \<le> 2 powi b \<longleftrightarrow> a \<le> b"
proof
  assume "(2::rat) powi a \<le> 2 powi b"
  then show "a \<le> b"
    using power_int_strict_increasing [of b a "2::rat"] by (cases "a \<le> b") auto
qed (simp add: power_int_increasing)

lemma powi2_less_iff: "(2::rat) powi a < 2 powi b \<longleftrightarrow> a < b"
  by (metis linorder_not_less powi2_le_iff)

lemma fexp_mono:
  assumes "0 < x" "x \<le> y"
  shows "fexp x \<le> fexp y"
proof -
  have "2 powi fexp x \<le> x" using fexp_bounds(1) [of x] assms by simp
  also have "\<dots> \<le> y" by fact
  also have "\<dots> < 2 powi (fexp y + 1)" using fexp_bounds(2) [of y] assms by simp
  finally show ?thesis by (simp add: powi2_less_iff)
qed

subsection \<open>Rounding to a double\<close>

definition ulp_exp :: "rat \<Rightarrow> int" where
  "ulp_exp x = max (fexp x - 52) (- 1074)"

definition fl :: "rat \<Rightarrow> rat" where
  "fl x = (if x = 0 then 0
           else of_int (rhe (x / 2 powi ulp_exp x)) * 2 powi ulp_exp x)"

lemma fexp_minus [simp]: "fexp (- x) = fexp x"
  by (simp add: fexp_def)

lemma fl_minus: "fl (- x) = - fl x"
  by (simp add: fl_def ulp_exp_def rhe_minus)

lemma fl_0 [simp]: "fl 0 = 0"
  by (simp add: fl_def)

text \<open>A multiple of the unit in the last place bounds the rounded value.\<close>

lemma fl_le_grid:
  assumes "x \<noteq> 0" "x \<le> of_int m * 2 powi ulp_exp x"
  shows "fl x \<le> of_int m * 2 powi ulp_exp x"
proof -
  have "x / 2 powi ulp_exp x \<le> of_int m" using assms(2) by (simp add: divide_le_eq)
  then have "rhe (x / 2 powi ulp_exp x) \<le> m"
    using rhe_mono by fastforce
  then show ?thesis using assms(1) by (simp add: fl_def)
qed

lemma fl_ge_grid:
  assumes "x \<noteq> 0" "of_int m * 2 powi ulp_exp x \<le> x"
  shows "of_int m * 2 powi ulp_exp x \<le> fl x"
  using fl_le_grid [of "- x" "- m"] assms by (simp add: fl_minus ulp_exp_def)

lemma powi_on_grid:
  assumes "ulp_exp x \<le> k"
  shows "(2::rat) powi k = of_int (2 ^ nat (k - ulp_exp x)) * 2 powi ulp_exp x"
proof -
  have "(2::rat) powi k = 2 powi (k - ulp_exp x) * 2 powi ulp_exp x"
    by (simp add: power_int_diff)
  then show ?thesis using assms by (simp add: power_int_def)
qed

lemma fl_nonneg: "0 \<le> x \<Longrightarrow> 0 \<le> fl x"
  using fl_ge_grid [of x 0] by (cases "x = 0") simp_all

lemma fl_mono_pos:
  assumes "0 < x" "x \<le> y"
  shows "fl x \<le> fl y"
proof (cases "ulp_exp x = ulp_exp y")
  case True
  have "rhe (x / 2 powi ulp_exp y) \<le> rhe (y / 2 powi ulp_exp y)"
    using assms by (intro rhe_mono divide_right_mono) simp_all
  with True assms show ?thesis by (simp add: fl_def)
next
  case False
  from fexp_mono [OF assms] False
  have lt: "ulp_exp x < ulp_exp y" "fexp x < fexp y" "ulp_exp y = fexp y - 52"
    by (auto simp: ulp_exp_def)
  have "x \<le> 2 powi (fexp x + 1)" using fexp_bounds(2) [of x] assms by simp
  also have "\<dots> \<le> 2 powi fexp y" using lt by (simp add: powi2_le_iff)
  finally have "x \<le> 2 powi fexp y" .
  with lt assms(1) have "fl x \<le> 2 powi fexp y"
    using fl_le_grid [of x "2 ^ nat (fexp y - ulp_exp x)"]
    by (simp only: powi_on_grid [of x "fexp y"])
  also have "\<dots> \<le> fl y"
    using fl_ge_grid [of y "2 ^ nat (fexp y - ulp_exp y)"] fexp_bounds(1) [of y] lt assms
    by (simp only: powi_on_grid [of y "fexp y"]) simp
  finally show ?thesis .
qed

lemma fl_mono:
  assumes "x \<le> y"
  shows "fl x \<le> fl y"
proof -
  consider "0 < x" | "x = 0" | "x < 0" "y \<le> 0" | "x < 0" "0 < y" by linarith
  then show ?thesis
  proof cases
    case 1
    then show ?thesis using assms by (rule fl_mono_pos)
  next
    case 2
    then show ?thesis using assms fl_nonneg by simp
  next
    case 3
    show ?thesis
    proof (cases "y = 0")
      case True
      then show ?thesis using 3 fl_nonneg [of "- x"] by (simp add: fl_minus)
    next
      case False
      then show ?thesis using 3 assms fl_mono_pos [of "- y" "- x"] by (simp add: fl_minus)
    qed
  next
    case 4
    then show ?thesis using fl_nonneg [of y] fl_nonneg [of "- x"] by (simp add: fl_minus)
  qed
qed

lemma fl_on_grid:
  assumes "x = of_int m * 2 powi k" "ulp_exp x \<le> k"
  shows "fl x = x"
proof (cases "x = 0")
  case False
  have "x = of_int (m * 2 ^ nat (k - ulp_exp x)) * 2 powi ulp_exp x"
    using assms powi_on_grid [OF assms(2)] by simp
  then show ?thesis
    using fl_le_grid [OF False] fl_ge_grid [OF False] by (metis order_antisym order_refl)
qed simp

text \<open>The doubles: a significand of at most 53 bits and an exponent in range.\<close>

lemma fl_double_lt:
  assumes "\<bar>m\<bar> < 2 ^ 53" "- 1074 \<le> k" "x = of_int m * 2 powi k"
  shows "fl x = x"
proof (cases "x = 0")
  case False
  have "of_int \<bar>m\<bar> < (of_int (2 ^ 53) :: rat)" using assms(1) by (simp only: of_int_less_iff)
  then have "\<bar>of_int m\<bar> < (2 powi 53 :: rat)" by (simp add: power_int_def)
  then have "\<bar>x\<bar> < 2 powi 53 * 2 powi k"
    by (simp add: assms(3) abs_mult power_int_abs)
  also have "\<dots> = 2 powi (53 + k)" by (simp add: power_int_add)
  finally have "2 powi fexp x < (2::rat) powi (53 + k)"
    using fexp_bounds(1) [OF False] by simp
  then have "ulp_exp x \<le> k" using assms(2) by (simp add: ulp_exp_def powi2_less_iff)
  with assms(3) show ?thesis by (rule fl_on_grid)
qed simp

lemma fl_double:
  assumes "\<bar>m\<bar> \<le> 2 ^ 53" "- 1074 \<le> k"
  shows "fl (of_int m * 2 powi k) = of_int m * 2 powi k"
proof (cases "\<bar>m\<bar> = 2 ^ 53")
  case True
  then have "m = 2 ^ 53 * sgn m" by (metis abs_mult_sgn)
  then have "of_int m = (2 powi 53 * of_int (sgn m) :: rat)"
    by (metis of_int_mult of_int_numeral of_int_power power_int_numeral)
  then have "of_int m * 2 powi k = (of_int (sgn m) * 2 powi (53 + k) :: rat)"
    by (simp add: power_int_add)
  moreover have "fl (of_int (sgn m) * 2 powi (53 + k)) = of_int (sgn m) * 2 powi (53 + k)"
    using assms(2) by (intro fl_double_lt [of "sgn m" "53 + k"]) (auto simp: sgn_if)
  ultimately show ?thesis by simp
next
  case False
  with assms show ?thesis by (intro fl_double_lt [of m k]) auto
qed

lemma fl_significand:
  assumes "x \<noteq> 0"
  shows "\<bar>rhe (x / 2 powi ulp_exp x)\<bar> \<le> 2 ^ 53"
proof -
  let ?q = "x / 2 powi ulp_exp x"
  have e: "fexp x + 1 - ulp_exp x \<le> 53" by (simp add: ulp_exp_def)
  have "\<bar>?q\<bar> = \<bar>x\<bar> / 2 powi ulp_exp x" by (simp add: abs_divide power_int_abs)
  also have "\<dots> \<le> 2 powi (fexp x + 1) / 2 powi ulp_exp x"
    using fexp_bounds(2) [OF assms] by (intro divide_right_mono) simp_all
  also have "\<dots> = 2 powi (fexp x + 1 - ulp_exp x)" by (simp add: power_int_diff)
  also have "\<dots> \<le> 2 powi 53" using e by (simp only: powi2_le_iff)
  finally have "\<bar>?q\<bar> \<le> of_int (2 ^ 53)" by simp
  then have "- of_int (2 ^ 53) \<le> ?q" "?q \<le> of_int (2 ^ 53)" by linarith+
  then have "rhe (of_int (- (2 ^ 53))) \<le> rhe ?q" "rhe ?q \<le> rhe (of_int (2 ^ 53))"
    by (intro rhe_mono, simp)+
  then show ?thesis unfolding rhe_of_int by linarith
qed

lemma fl_idem [simp]: "fl (fl x) = fl x"
proof (cases "x = 0")
  case False
  show ?thesis
    using fl_double [OF fl_significand [OF False], of "ulp_exp x"] False
    by (simp add: fl_def [of x] ulp_exp_def)
qed simp

lemma fl_of_int [simp]: "\<bar>n\<bar> \<le> 2 ^ 53 \<Longrightarrow> fl (of_int n) = of_int n"
  using fl_double [of n 0] by simp

lemma fl_1 [simp]: "fl 1 = 1"
  using fl_of_int [of 1] by simp

subsection \<open>The interface\<close>

text \<open>
  What the float code relies on: rounding is monotone, idempotent, odd, and keeps zero and one.
\<close>

locale rounding =
  fixes rnd :: "rat \<Rightarrow> rat"
  assumes rnd_mono: "x \<le> y \<Longrightarrow> rnd x \<le> rnd y"
    and rnd_idem: "rnd (rnd x) = rnd x"
    and rnd_minus: "rnd (- x) = - rnd x"
    and rnd_one: "rnd 1 = 1"
begin

lemma rnd_zero: "rnd 0 = 0"
  using rnd_minus [of 0] by simp

lemma rnd_nonneg: "0 \<le> x \<Longrightarrow> 0 \<le> rnd x"
  using rnd_mono [of 0 x] rnd_zero by simp

lemma rnd_le_one: "x \<le> 1 \<Longrightarrow> rnd x \<le> 1"
  using rnd_mono [of x 1] rnd_one by simp

lemma rnd_unit: "0 \<le> x \<Longrightarrow> x \<le> 1 \<Longrightarrow> 0 \<le> rnd x \<and> rnd x \<le> 1"
  by (simp add: rnd_nonneg rnd_le_one)

text \<open>A float times a factor in the unit interval does not exceed the float.\<close>

lemma rnd_mult_le:
  assumes "rnd w = w" "0 \<le> w" "c \<le> 1"
  shows "rnd (c * w) \<le> w"
proof -
  have "c * w \<le> 1 * w" using assms by (intro mult_right_mono) auto
  then have "rnd (c * w) \<le> rnd w" by (intro rnd_mono) simp
  with assms(1) show ?thesis by simp
qed

text \<open>\<^verbatim>\<open>sum\<close> of a list of floats, from the left, rounding after every addition.\<close>

lemma rnd_sum_mono:
  assumes "list_all2 (\<le>) xs ys" "a \<le> b"
  shows "foldl (\<lambda>s x. rnd (s + x)) a xs \<le> foldl (\<lambda>s x. rnd (s + x)) b ys"
  using assms
  by (induction xs ys arbitrary: a b rule: list_all2_induct) (simp_all add: rnd_mono add_mono)

lemma rnd_sum_nonneg:
  assumes "\<forall>x\<in>set xs. 0 \<le> x" "0 \<le> a"
  shows "0 \<le> foldl (\<lambda>s x. rnd (s + x)) a xs"
  using assms by (induction xs arbitrary: a) (simp_all add: rnd_nonneg)

lemma rnd_sum_ge:
  assumes "\<forall>x\<in>set xs. 0 \<le> x" "rnd a = a"
  shows "a \<le> foldl (\<lambda>s x. rnd (s + x)) a xs"
  using assms
proof (induction xs arbitrary: a)
  case (Cons x xs)
  have "a \<le> rnd (a + x)" using rnd_mono [of a "a + x"] Cons.prems by simp
  also have "\<dots> \<le> foldl (\<lambda>s x. rnd (s + x)) (rnd (a + x)) xs"
    using Cons.prems by (intro Cons.IH) (simp_all add: rnd_idem)
  finally show ?case by simp
qed simp

end

interpretation double: rounding fl
  by unfold_locales (simp_all add: fl_mono fl_minus)

lemmas fl_unit_simps = double.rnd_nonneg double.rnd_le_one

subsection \<open>The operations of the source\<close>

definition fadd :: "rat \<Rightarrow> rat \<Rightarrow> rat" where "fadd x y = fl (x + y)"
definition fsub :: "rat \<Rightarrow> rat \<Rightarrow> rat" where "fsub x y = fl (x - y)"
definition fmul :: "rat \<Rightarrow> rat \<Rightarrow> rat" where "fmul x y = fl (x * y)"
definition fdiv :: "rat \<Rightarrow> rat \<Rightarrow> rat" where "fdiv x y = fl (x / y)"

text \<open>The builtin \<^verbatim>\<open>sum\<close> (a left fold from the integer 0) and \<^verbatim>\<open>round(x, n)\<close>.\<close>

definition fsum :: "rat list \<Rightarrow> rat" where
  "fsum xs = foldl fadd 0 xs"

definition py_round :: "rat \<Rightarrow> nat \<Rightarrow> rat" where
  "py_round x n = fl (of_int (rhe (x * 10 ^ n)) / 10 ^ n)"

lemma fsum_fold: "fsum xs = foldl (\<lambda>s x. fl (s + x)) 0 xs"
  by (simp add: fsum_def fadd_def [abs_def])

lemma fsum_nonneg: "\<forall>x\<in>set xs. 0 \<le> x \<Longrightarrow> 0 \<le> fsum xs"
  unfolding fsum_fold by (rule double.rnd_sum_nonneg) auto

lemma fsum_mono: "list_all2 (\<le>) xs ys \<Longrightarrow> fsum xs \<le> fsum ys"
  unfolding fsum_fold by (rule double.rnd_sum_mono) auto

lemma fsum_ge_first:
  assumes "\<forall>x\<in>set xs. 0 \<le> x" "fl x = x"
  shows "x \<le> fsum (x # xs)"
  using double.rnd_sum_ge [OF assms] assms(2) by (simp add: fsum_fold)

lemma py_round_mono: "x \<le> y \<Longrightarrow> py_round x n \<le> py_round y n"
  unfolding py_round_def
  by (intro fl_mono divide_right_mono) (simp_all add: rhe_mono mult_right_mono)

lemma py_round_of_int: "\<bar>k\<bar> \<le> 2 ^ 53 \<Longrightarrow> py_round (of_int k) n = of_int k"
proof -
  assume k: "\<bar>k\<bar> \<le> 2 ^ 53"
  have "rhe (of_int k * 10 ^ n) = k * 10 ^ n"
    using rhe_of_int [of "k * 10 ^ n"] by simp
  with k show ?thesis by (simp add: py_round_def)
qed

lemma py_round_unit:
  assumes "0 \<le> x" "x \<le> 1"
  shows "0 \<le> py_round x n" "py_round x n \<le> 1"
  using py_round_mono [OF assms(1), of n] py_round_mono [OF assms(2), of n]
    py_round_of_int [of 0 n] py_round_of_int [of 1 n] by simp_all

end
