(* ===== verification/Contracts.thy ===== *)
theory Contracts
  imports PyFloat
begin

text \<open>
  The wire records of the verification pipeline
  (\<^verbatim>\<open>packages/contracts-python/src/liyans_contracts\<close>: \<^verbatim>\<open>topic4_common.py\<close>, \<^verbatim>\<open>topic4_c1.py\<close>,
  \<^verbatim>\<open>artifacts.py\<close>, \<^verbatim>\<open>common.py\<close>) with their field constraints and model validators as executable
  predicates, the canonical documents that are hashed, and the sealing of records
  (\<^verbatim>\<open>backend/src/liyans/domains/verification/records.py\<close>).

  The hash functions are parameters (\<open>hash_env\<close>): SHA-256 over the canonical JSON text of a
  document, and UUID version 5.  The literal \<^verbatim>\<open>schema_version\<close> and \<^verbatim>\<open>immutable\<close> fields are constants
  of a record type; they appear in its document.  Strings are the values after pydantic's
  whitespace stripping.
\<close>

subsection \<open>Constrained strings\<close>

definition char_in :: "char \<Rightarrow> char \<Rightarrow> char \<Rightarrow> bool" where
  "char_in lo hi c \<longleftrightarrow> lo \<le> c \<and> c \<le> hi"

definition is_lower_hex :: "char \<Rightarrow> bool" where
  "is_lower_hex c \<longleftrightarrow> char_in (CHR ''0'') (CHR ''9'') c \<or> char_in (CHR ''a'') (CHR ''f'') c"

definition is_alnum :: "char \<Rightarrow> bool" where
  "is_alnum c \<longleftrightarrow> char_in (CHR ''0'') (CHR ''9'') c \<or> char_in (CHR ''a'') (CHR ''z'') c
     \<or> char_in (CHR ''A'') (CHR ''Z'') c"

definition len_between :: "nat \<Rightarrow> nat \<Rightarrow> 'a list \<Rightarrow> bool" where
  "len_between lo hi xs \<longleftrightarrow> lo \<le> length xs \<and> length xs \<le> hi"

text \<open>The white space of the pattern language and of \<^verbatim>\<open>str_strip_whitespace\<close>, among the characters of a \<^typ>\<open>string\<close>.\<close>

definition is_space :: "char \<Rightarrow> bool" where
  "is_space c \<longleftrightarrow> (9 \<le> (of_char c :: nat) \<and> (of_char c :: nat) \<le> 13) \<or> (of_char c :: nat) \<in> {32, 133, 160}"

text \<open>\<^verbatim>\<open>Sha256Hex\<close>, \<^verbatim>\<open>VersionString\<close>, \<^verbatim>\<open>OpaqueObjectKey\<close> of \<^verbatim>\<open>common.py\<close>.\<close>

definition is_sha256_hex :: "string \<Rightarrow> bool" where
  "is_sha256_hex s \<longleftrightarrow> length s = 64 \<and> list_all is_lower_hex s"

definition is_version_string :: "string \<Rightarrow> bool" where
  "is_version_string s \<longleftrightarrow> len_between 1 128 s \<and> is_alnum (hd s)
     \<and> list_all (\<lambda>c. is_alnum c \<or> c \<in> set ''._/+:-'') (tl s)"

definition is_object_key :: "string \<Rightarrow> bool" where
  "is_object_key s \<longleftrightarrow> len_between 1 512 s \<and> is_alnum (hd s)
     \<and> list_all (\<lambda>c. is_alnum c \<or> c \<in> set ''/_-.'') (tl s)"

text \<open>\<^verbatim>\<open>TraceId\<close>, \<^verbatim>\<open>TenantId\<close>, \<^verbatim>\<open>BlockId\<close> and \<^verbatim>\<open>ReasonCode\<close> of \<^verbatim>\<open>topic4_common.py\<close>.\<close>

definition is_trace_id :: "string \<Rightarrow> bool" where
  "is_trace_id s \<longleftrightarrow> len_between 16 64 s
     \<and> list_all (\<lambda>c. is_lower_hex c \<or> char_in (CHR ''A'') (CHR ''F'') c) s"

definition is_tenant_id :: "string \<Rightarrow> bool" where
  "is_tenant_id s \<longleftrightarrow> len_between 1 128 s"

definition is_block_id :: "string \<Rightarrow> bool" where
  "is_block_id s \<longleftrightarrow> len_between 1 128 s"

definition is_reason_code :: "string \<Rightarrow> bool" where
  "is_reason_code s \<longleftrightarrow> len_between 1 128 s \<and> char_in (CHR ''A'') (CHR ''Z'') (hd s)
     \<and> list_all (\<lambda>c. char_in (CHR ''A'') (CHR ''Z'') c \<or> char_in (CHR ''0'') (CHR ''9'') c
          \<or> c \<in> set ''_.-'') (tl s)"

subsection \<open>Canonical documents and hashing\<close>

datatype doc =
  DNull
| DBool bool
| DInt int
| DFloat rat
| DStr string
| DTime timestamp
| DList "doc list"
| DObj "(string \<times> doc) list"

record hash_env =
  c_sha :: "doc \<Rightarrow> digest"
  c_uuid5 :: "uuid \<Rightarrow> string \<Rightarrow> uuid"

text \<open>The name space constant \<^verbatim>\<open>uuid.NAMESPACE_URL\<close>.\<close>

definition namespace_url :: uuid where
  "namespace_url = ''6ba7b811-9dad-11d1-80b4-00c04fd430c8''"

definition opt_doc :: "('a \<Rightarrow> doc) \<Rightarrow> 'a option \<Rightarrow> doc" where
  "opt_doc f x = (case x of None \<Rightarrow> DNull | Some y \<Rightarrow> f y)"

text \<open>The number of a document value for Python's \<^verbatim>\<open>==\<close>, and the value of a key (\<^verbatim>\<open>None\<close> when it is missing).\<close>

fun number_of :: "doc \<Rightarrow> rat option" where
  "number_of (DInt i) = Some (of_int i)"
| "number_of (DFloat x) = Some x"
| "number_of (DBool b) = Some (if b then 1 else 0)"
| "number_of d = None"

definition field :: "string \<Rightarrow> (string \<times> doc) list \<Rightarrow> doc" where
  "field name kvs = (case map_of kvs name of None \<Rightarrow> DNull | Some d \<Rightarrow> d)"

subsection \<open>The common record header and sealing\<close>

record topic4_record =
  t4_trace_id :: string
  t4_tenant_id :: tenant
  t4_version_cas :: int
  t4_record_sha256 :: digest
  t4_created_at :: timestamp

definition valid_topic4_record :: "'a topic4_record_scheme \<Rightarrow> bool" where
  "valid_topic4_record r \<longleftrightarrow> is_trace_id (t4_trace_id r) \<and> is_tenant_id (t4_tenant_id r)
     \<and> 1 \<le> t4_version_cas r \<and> is_sha256_hex (t4_record_sha256 r)"

text \<open>The header part of \<^verbatim>\<open>model_dump(mode="json", exclude={"record_sha256"})\<close>.\<close>

definition header_doc :: "'a topic4_record_scheme \<Rightarrow> (string \<times> doc) list" where
  "header_doc r =
     [(''trace_id'', DStr (t4_trace_id r)), (''tenant_id'', DStr (t4_tenant_id r)),
      (''version_cas'', DInt (t4_version_cas r)), (''created_at'', DTime (t4_created_at r)),
      (''immutable'', DBool True)]"

text \<open>\<^verbatim>\<open>model_dump(mode="json")\<close>, the seal included (object keys are unordered).\<close>

definition full_doc :: "('a topic4_record_scheme \<Rightarrow> doc) \<Rightarrow> 'a topic4_record_scheme \<Rightarrow> doc" where
  "full_doc document r =
     (case document r of
        DObj kvs \<Rightarrow> DObj (kvs @ [(''record_sha256'', DStr (t4_record_sha256 r))])
      | d \<Rightarrow> d)"

datatype contract_error = Validation_error

definition build_topic4_record ::
  "hash_env \<Rightarrow> ('a topic4_record_scheme \<Rightarrow> doc) \<Rightarrow> ('a topic4_record_scheme \<Rightarrow> bool)
     \<Rightarrow> 'a topic4_record_scheme \<Rightarrow> contract_error + 'a topic4_record_scheme" where
  "build_topic4_record h document valid values =
     (let draft = values\<lparr>t4_record_sha256 := replicate 64 (CHR ''0'')\<rparr>;
          digest = c_sha h (document draft);
          r = values\<lparr>t4_record_sha256 := digest\<rparr>
      in if valid r then Inr r else Inl Validation_error)"

definition record_integrity_valid ::
  "hash_env \<Rightarrow> ('a topic4_record_scheme \<Rightarrow> doc) \<Rightarrow> 'a topic4_record_scheme \<Rightarrow> bool" where
  "record_integrity_valid h document r \<longleftrightarrow> t4_record_sha256 r = c_sha h (document r)"

text \<open>
  The interface of a sealed record type: its document leaves the seal out.  What the rest of
  the pipeline uses of sealing is proved from that alone.
\<close>

locale sealed_document =
  fixes document :: "'a topic4_record_scheme \<Rightarrow> doc"
  assumes document_without_seal: "document (r\<lparr>t4_record_sha256 := d\<rparr>) = document r"
begin

lemma build_seals:
  assumes "build_topic4_record h document valid values = Inr r"
  shows "record_integrity_valid h document r" and "valid r"
    and "r = values\<lparr>t4_record_sha256 := c_sha h (document values)\<rparr>"
  using assms
  by (auto simp: build_topic4_record_def record_integrity_valid_def Let_def
      document_without_seal split: if_splits)

lemma build_succeeds_iff:
  "build_topic4_record h document valid values = Inr r \<longleftrightarrow>
     r = values\<lparr>t4_record_sha256 := c_sha h (document values)\<rparr> \<and> valid r"
  by (auto simp: build_topic4_record_def Let_def document_without_seal)

text \<open>A sealed record whose content is altered without re-sealing is detected.\<close>

lemma tampering_detected:
  assumes "record_integrity_valid h document r" and "t4_record_sha256 r' = t4_record_sha256 r"
    and "document r' \<noteq> document r"
    and "c_sha h (document r') = c_sha h (document r) \<Longrightarrow> document r' = document r"
  shows "\<not> record_integrity_valid h document r'"
  using assms by (auto simp: record_integrity_valid_def)

end

subsection \<open>Enumerations\<close>

datatype claim_kind = CK_TEXT | CK_FORMULA | CK_GRAPH | CK_QUIZ | CK_CODE | CK_EXTENSION

datatype risk_level = RL_LOW | RL_MEDIUM | RL_HIGH | RL_CRITICAL

datatype verification_verdict =
  VV_SUPPORTED | VV_PARTIALLY_SUPPORTED | VV_CONTRADICTED | VV_INSUFFICIENT_EVIDENCE
| VV_UNSAFE | VV_NOT_APPLICABLE | VV_ERROR

datatype aggregate_decision =
  AD_RELEASE | AD_RELEASE_WITH_DISCLOSURE | AD_REVISE | AD_REVIEW_REQUIRED | AD_BLOCK

datatype verification_module =
  C2_RAG | C3_ACADEMIC | C4_GRAPH | C5_QUIZ | C6_CODE | C7_EXTENSION
| C9_SECURITY | C10_PRIVACY | C11_COMPLIANCE

datatype module_run_state =
  MR_PENDING | MR_RUNNING | MR_SUCCEEDED | MR_FAILED | MR_TIMED_OUT | MR_SKIPPED | MR_CANCELLED

datatype verification_profile = VP_STANDARD | VP_STRICT | VP_CODE_STRICT

datatype extraction_method = EM_DETERMINISTIC | EM_SPARK_STRUCTURED | EM_HYBRID

fun claim_kind_value :: "claim_kind \<Rightarrow> string" where
  "claim_kind_value CK_TEXT = ''TEXT''"
| "claim_kind_value CK_FORMULA = ''FORMULA''"
| "claim_kind_value CK_GRAPH = ''GRAPH''"
| "claim_kind_value CK_QUIZ = ''QUIZ''"
| "claim_kind_value CK_CODE = ''CODE''"
| "claim_kind_value CK_EXTENSION = ''EXTENSION''"

fun risk_level_value :: "risk_level \<Rightarrow> string" where
  "risk_level_value RL_LOW = ''LOW''"
| "risk_level_value RL_MEDIUM = ''MEDIUM''"
| "risk_level_value RL_HIGH = ''HIGH''"
| "risk_level_value RL_CRITICAL = ''CRITICAL''"

fun verdict_value :: "verification_verdict \<Rightarrow> string" where
  "verdict_value VV_SUPPORTED = ''SUPPORTED''"
| "verdict_value VV_PARTIALLY_SUPPORTED = ''PARTIALLY_SUPPORTED''"
| "verdict_value VV_CONTRADICTED = ''CONTRADICTED''"
| "verdict_value VV_INSUFFICIENT_EVIDENCE = ''INSUFFICIENT_EVIDENCE''"
| "verdict_value VV_UNSAFE = ''UNSAFE''"
| "verdict_value VV_NOT_APPLICABLE = ''NOT_APPLICABLE''"
| "verdict_value VV_ERROR = ''ERROR''"

fun decision_value :: "aggregate_decision \<Rightarrow> string" where
  "decision_value AD_RELEASE = ''RELEASE''"
| "decision_value AD_RELEASE_WITH_DISCLOSURE = ''RELEASE_WITH_DISCLOSURE''"
| "decision_value AD_REVISE = ''REVISE''"
| "decision_value AD_REVIEW_REQUIRED = ''REVIEW_REQUIRED''"
| "decision_value AD_BLOCK = ''BLOCK''"

fun module_value :: "verification_module \<Rightarrow> string" where
  "module_value C2_RAG = ''C2_RAG''"
| "module_value C3_ACADEMIC = ''C3_ACADEMIC''"
| "module_value C4_GRAPH = ''C4_GRAPH''"
| "module_value C5_QUIZ = ''C5_QUIZ''"
| "module_value C6_CODE = ''C6_CODE''"
| "module_value C7_EXTENSION = ''C7_EXTENSION''"
| "module_value C9_SECURITY = ''C9_SECURITY''"
| "module_value C10_PRIVACY = ''C10_PRIVACY''"
| "module_value C11_COMPLIANCE = ''C11_COMPLIANCE''"

fun run_state_value :: "module_run_state \<Rightarrow> string" where
  "run_state_value MR_PENDING = ''PENDING''"
| "run_state_value MR_RUNNING = ''RUNNING''"
| "run_state_value MR_SUCCEEDED = ''SUCCEEDED''"
| "run_state_value MR_FAILED = ''FAILED''"
| "run_state_value MR_TIMED_OUT = ''TIMED_OUT''"
| "run_state_value MR_SKIPPED = ''SKIPPED''"
| "run_state_value MR_CANCELLED = ''CANCELLED''"

fun profile_value :: "verification_profile \<Rightarrow> string" where
  "profile_value VP_STANDARD = ''STANDARD''"
| "profile_value VP_STRICT = ''STRICT''"
| "profile_value VP_CODE_STRICT = ''CODE_STRICT''"

text \<open>The modules are ordered as the enumeration declares them.\<close>

fun module_index :: "verification_module \<Rightarrow> nat" where
  "module_index C2_RAG = 0"
| "module_index C3_ACADEMIC = 1"
| "module_index C4_GRAPH = 2"
| "module_index C5_QUIZ = 3"
| "module_index C6_CODE = 4"
| "module_index C7_EXTENSION = 5"
| "module_index C9_SECURITY = 6"
| "module_index C10_PRIVACY = 7"
| "module_index C11_COMPLIANCE = 8"

lemma module_index_inj: "module_index a = module_index b \<longleftrightarrow> a = b"
  by (cases a; cases b) simp_all

instantiation verification_module :: linorder
begin

definition less_eq_verification_module :: "verification_module \<Rightarrow> verification_module \<Rightarrow> bool" where
  "less_eq_verification_module a b \<longleftrightarrow> module_index a \<le> module_index b"

definition less_verification_module :: "verification_module \<Rightarrow> verification_module \<Rightarrow> bool" where
  "less_verification_module a b \<longleftrightarrow> module_index a < module_index b"

instance
  by standard
    (auto simp: less_eq_verification_module_def less_verification_module_def
      module_index_inj [symmetric])

end

subsection \<open>Artifact references\<close>

datatype media_type =
  MT_json | MT_ndjson | MT_markdown | MT_plain | MT_octet_stream

fun media_type_value :: "media_type \<Rightarrow> string" where
  "media_type_value MT_json = ''application/json''"
| "media_type_value MT_ndjson = ''application/x-ndjson''"
| "media_type_value MT_markdown = ''text/markdown''"
| "media_type_value MT_plain = ''text/plain''"
| "media_type_value MT_octet_stream = ''application/octet-stream''"

datatype content_encoding = CE_identity | CE_gzip

record artifact_ref =
  af_object_key :: string
  af_media_type :: media_type
  af_content_encoding :: content_encoding
  af_byte_size :: int
  af_sha256 :: digest
  af_created_at :: timestamp

text \<open>\<^verbatim>\<open>str.split("/")\<close> and substring search.\<close>

fun split_slash :: "string \<Rightarrow> string list" where
  "split_slash [] = [[]]"
| "split_slash (c # cs) =
     (if c = CHR ''/'' then [] # split_slash cs
      else (case split_slash cs of [] \<Rightarrow> [[c]] | w # ws \<Rightarrow> (c # w) # ws))"

definition starts_with :: "string \<Rightarrow> string \<Rightarrow> bool" where
  "starts_with needle s \<longleftrightarrow> take (length needle) s = needle"

fun contains_substring :: "string \<Rightarrow> string \<Rightarrow> bool" where
  "contains_substring needle [] = (needle = [])"
| "contains_substring needle (c # cs) =
     (starts_with needle (c # cs) \<or> contains_substring needle cs)"

definition valid_artifact_ref :: "artifact_ref \<Rightarrow> bool" where
  "valid_artifact_ref a \<longleftrightarrow> is_object_key (af_object_key a)
     \<and> 1 \<le> af_byte_size a \<and> af_byte_size a \<le> 33554432 \<and> is_sha256_hex (af_sha256 a)
     \<and> \<not> (''..'' \<in> set (split_slash (af_object_key a))
          \<or> CHR 0x5C \<in> set (af_object_key a)
          \<or> contains_substring ''://'' (af_object_key a))"

definition artifact_ref_doc :: "artifact_ref \<Rightarrow> doc" where
  "artifact_ref_doc a = DObj
     [(''schema_version'', DStr ''artifact.object.ref.v1''),
      (''storage_namespace'', DStr ''verification-artifacts''),
      (''object_key'', DStr (af_object_key a)),
      (''media_type'', DStr (media_type_value (af_media_type a))),
      (''content_encoding'', DStr (case af_content_encoding a of
           CE_identity \<Rightarrow> ''identity'' | CE_gzip \<Rightarrow> ''gzip'')),
      (''byte_size'', DInt (af_byte_size a)), (''sha256'', DStr (af_sha256 a)),
      (''created_at'', DTime (af_created_at a))]"

end
