(* ===== verification/ContractsC1.thy ===== *)
theory ContractsC1
  imports Contracts
begin

text \<open>
  The Topic 4 C1 records of \<^verbatim>\<open>topic4_c1.py\<close>: claims, risks, dispatch items and plans, module runs
  and results, claim verdicts, aggregation results and evidence chains.  For each record type:
  the fields, the field constraints and model validator as one predicate (a failure is pydantic's
  \<^verbatim>\<open>ValidationError\<close>), and the document that its seal covers.
\<close>

subsection \<open>Claims and risks\<close>

record claim = topic4_record +
  cl_claim_id :: uuid
  cl_verification_id :: uuid
  cl_candidate_id :: uuid
  cl_candidate_version :: int
  cl_candidate_sha256 :: digest
  cl_block_id :: string
  cl_claim_kind :: claim_kind
  cl_claim_subtype :: string
  cl_statement :: string
  cl_normalized_statement :: string
  cl_json_pointer :: string
  cl_ordinal :: int
  cl_source_span_start :: int
  cl_source_span_end :: int
  cl_claim_sha256 :: digest
  cl_extraction_method :: extraction_method
  cl_dependent_claim_ids :: "uuid list"

definition valid_claim :: "claim \<Rightarrow> bool" where
  "valid_claim c \<longleftrightarrow> valid_topic4_record c
     \<and> 1 \<le> cl_candidate_version c \<and> is_sha256_hex (cl_candidate_sha256 c)
     \<and> is_block_id (cl_block_id c) \<and> len_between 1 128 (cl_claim_subtype c)
     \<and> len_between 1 32768 (cl_statement c) \<and> len_between 1 32768 (cl_normalized_statement c)
     \<and> len_between 1 1024 (cl_json_pointer c) \<and> 0 \<le> cl_ordinal c
     \<and> 0 \<le> cl_source_span_start c \<and> 0 < cl_source_span_end c
     \<and> is_sha256_hex (cl_claim_sha256 c) \<and> length (cl_dependent_claim_ids c) \<le> 128
     \<and> cl_source_span_start c < cl_source_span_end c
     \<and> cl_claim_id c \<notin> set (cl_dependent_claim_ids c)
     \<and> distinct (cl_dependent_claim_ids c)"

definition unit_interval :: "rat \<Rightarrow> bool" where
  "unit_interval x \<longleftrightarrow> 0 \<le> x \<and> x \<le> 1"

record claim_risk = topic4_record +
  rk_risk_id :: uuid
  rk_verification_id :: uuid
  rk_claim_id :: uuid
  rk_level :: risk_level
  rk_score :: rat
  rk_academic_impact :: rat
  rk_learner_harm :: rat
  rk_uncertainty :: rat
  rk_irreversibility :: rat
  rk_external_action :: rat
  rk_mandatory_modules :: "verification_module list"
  rk_reason_codes :: "string list"
  rk_policy_version :: string

definition valid_claim_risk :: "claim_risk \<Rightarrow> bool" where
  "valid_claim_risk r \<longleftrightarrow> valid_topic4_record r
     \<and> unit_interval (rk_score r) \<and> unit_interval (rk_academic_impact r)
     \<and> unit_interval (rk_learner_harm r) \<and> unit_interval (rk_uncertainty r)
     \<and> unit_interval (rk_irreversibility r) \<and> unit_interval (rk_external_action r)
     \<and> len_between 1 9 (rk_mandatory_modules r)
     \<and> len_between 1 32 (rk_reason_codes r) \<and> list_all is_reason_code (rk_reason_codes r)
     \<and> is_version_string (rk_policy_version r)
     \<and> distinct (rk_mandatory_modules r)
     \<and> \<not> (rk_level r = RL_CRITICAL \<and> rk_score r < fl (75/100))"

definition claim_risk_doc :: "claim_risk \<Rightarrow> doc" where
  "claim_risk_doc r = DObj (header_doc r @
     [(''schema_version'', DStr ''claim.risk.v1''), (''risk_id'', DStr (rk_risk_id r)),
      (''verification_id'', DStr (rk_verification_id r)), (''claim_id'', DStr (rk_claim_id r)),
      (''level'', DStr (risk_level_value (rk_level r))), (''score'', DFloat (rk_score r)),
      (''academic_impact'', DFloat (rk_academic_impact r)),
      (''learner_harm'', DFloat (rk_learner_harm r)),
      (''uncertainty'', DFloat (rk_uncertainty r)),
      (''irreversibility'', DFloat (rk_irreversibility r)),
      (''external_action'', DFloat (rk_external_action r)),
      (''mandatory_modules'', DList (map (\<lambda>m. DStr (module_value m)) (rk_mandatory_modules r))),
      (''reason_codes'', DList (map DStr (rk_reason_codes r))),
      (''policy_version'', DStr (rk_policy_version r))])"

subsection \<open>Dispatch items and plans\<close>

record dispatch_item = topic4_record +
  di_dispatch_item_id :: uuid
  di_claim_id :: uuid
  di_module :: verification_module
  di_required :: bool
  di_priority :: int
  di_dependency_item_ids :: "uuid list"
  di_timeout_ms :: int
  di_max_attempts :: int

definition valid_dispatch_item :: "dispatch_item \<Rightarrow> bool" where
  "valid_dispatch_item i \<longleftrightarrow> valid_topic4_record i
     \<and> 0 \<le> di_priority i \<and> di_priority i \<le> 1000 \<and> length (di_dependency_item_ids i) \<le> 16
     \<and> 100 \<le> di_timeout_ms i \<and> di_timeout_ms i \<le> 120000
     \<and> 1 \<le> di_max_attempts i \<and> di_max_attempts i \<le> 5
     \<and> di_dispatch_item_id i \<notin> set (di_dependency_item_ids i)
     \<and> distinct (di_dependency_item_ids i)"

definition dispatch_item_doc :: "dispatch_item \<Rightarrow> doc" where
  "dispatch_item_doc i = DObj (header_doc i @
     [(''schema_version'', DStr ''module-dispatch-item.v1''),
      (''dispatch_item_id'', DStr (di_dispatch_item_id i)), (''claim_id'', DStr (di_claim_id i)),
      (''module'', DStr (module_value (di_module i))), (''required'', DBool (di_required i)),
      (''priority'', DInt (di_priority i)),
      (''dependency_item_ids'', DList (map DStr (di_dependency_item_ids i))),
      (''timeout_ms'', DInt (di_timeout_ms i)), (''max_attempts'', DInt (di_max_attempts i))])"

record dispatch_plan = topic4_record +
  dp_dispatch_plan_id :: uuid
  dp_verification_id :: uuid
  dp_claim_ids :: "uuid list"
  dp_items :: "dispatch_item list"
  dp_max_parallelism :: int
  dp_policy_version :: string
  dp_plan_sha256 :: digest

definition valid_dispatch_plan :: "dispatch_plan \<Rightarrow> bool" where
  "valid_dispatch_plan p \<longleftrightarrow> valid_topic4_record p
     \<and> len_between 1 4096 (dp_claim_ids p) \<and> len_between 1 36864 (dp_items p)
     \<and> 1 \<le> dp_max_parallelism p \<and> dp_max_parallelism p \<le> 32
     \<and> is_version_string (dp_policy_version p) \<and> is_sha256_hex (dp_plan_sha256 p)
     \<and> distinct (dp_claim_ids p) \<and> distinct (map di_dispatch_item_id (dp_items p))
     \<and> list_all (\<lambda>i. di_claim_id i \<in> set (dp_claim_ids p)) (dp_items p)
     \<and> list_all (\<lambda>i. set (di_dependency_item_ids i)
           \<subseteq> set (map di_dispatch_item_id (dp_items p))) (dp_items p)"

definition dispatch_plan_doc :: "dispatch_plan \<Rightarrow> doc" where
  "dispatch_plan_doc p = DObj (header_doc p @
     [(''schema_version'', DStr ''module-dispatch-plan.v1''),
      (''dispatch_plan_id'', DStr (dp_dispatch_plan_id p)),
      (''verification_id'', DStr (dp_verification_id p)),
      (''claim_ids'', DList (map DStr (dp_claim_ids p))),
      (''items'', DList (map (full_doc dispatch_item_doc) (dp_items p))),
      (''max_parallelism'', DInt (dp_max_parallelism p)),
      (''policy_version'', DStr (dp_policy_version p)),
      (''plan_sha256'', DStr (dp_plan_sha256 p))])"

subsection \<open>Module runs and their results\<close>

record module_run = topic4_record +
  mr_module_run_id :: uuid
  mr_verification_id :: uuid
  mr_dispatch_plan_id :: uuid
  mr_dispatch_item_id :: uuid
  mr_claim_id :: uuid
  mr_module :: verification_module
  mr_state :: module_run_state
  mr_attempt :: int
  mr_max_attempts :: int
  mr_input_sha256 :: digest
  mr_worker_instance_id :: "string option"
  mr_started_at :: "timestamp option"
  mr_completed_at :: "timestamp option"
  mr_error_code :: "string option"

definition run_terminal :: "module_run_state list" where
  "run_terminal = [MR_SUCCEEDED, MR_FAILED, MR_TIMED_OUT, MR_SKIPPED, MR_CANCELLED]"

definition valid_module_run :: "module_run \<Rightarrow> bool" where
  "valid_module_run r \<longleftrightarrow> valid_topic4_record r
     \<and> 0 \<le> mr_attempt r \<and> mr_attempt r \<le> 5 \<and> 1 \<le> mr_max_attempts r \<and> mr_max_attempts r \<le> 5
     \<and> is_sha256_hex (mr_input_sha256 r)
     \<and> (case mr_worker_instance_id r of None \<Rightarrow> True | Some w \<Rightarrow> len_between 1 128 w)
     \<and> (case mr_error_code r of None \<Rightarrow> True | Some e \<Rightarrow> is_reason_code e)
     \<and> mr_attempt r \<le> mr_max_attempts r
     \<and> \<not> (mr_state r \<in> set run_terminal \<and> mr_completed_at r = None)
     \<and> \<not> (mr_completed_at r \<noteq> None \<and> mr_started_at r = None)
     \<and> (case (mr_started_at r, mr_completed_at r) of
          (Some s, Some c) \<Rightarrow> \<not> c < s | _ \<Rightarrow> True)"

definition module_run_doc :: "module_run \<Rightarrow> doc" where
  "module_run_doc r = DObj (header_doc r @
     [(''schema_version'', DStr ''module-run.v1''),
      (''module_run_id'', DStr (mr_module_run_id r)),
      (''verification_id'', DStr (mr_verification_id r)),
      (''dispatch_plan_id'', DStr (mr_dispatch_plan_id r)),
      (''dispatch_item_id'', DStr (mr_dispatch_item_id r)), (''claim_id'', DStr (mr_claim_id r)),
      (''module'', DStr (module_value (mr_module r))),
      (''state'', DStr (run_state_value (mr_state r))), (''attempt'', DInt (mr_attempt r)),
      (''max_attempts'', DInt (mr_max_attempts r)), (''input_sha256'', DStr (mr_input_sha256 r)),
      (''worker_instance_id'', opt_doc DStr (mr_worker_instance_id r)),
      (''started_at'', opt_doc DTime (mr_started_at r)),
      (''completed_at'', opt_doc DTime (mr_completed_at r)),
      (''error_code'', opt_doc DStr (mr_error_code r))])"

record module_result = topic4_record +
  rr_module_result_id :: uuid
  rr_module_run_id :: uuid
  rr_verification_id :: uuid
  rr_claim_id :: uuid
  rr_module :: verification_module
  rr_verdict :: verification_verdict
  rr_confidence :: rat
  rr_evidence_ref_ids :: "uuid list"
  rr_finding_codes :: "string list"
  rr_result_artifact :: artifact_ref
  rr_result_sha256 :: digest
  rr_deterministic :: bool

definition valid_module_result :: "module_result \<Rightarrow> bool" where
  "valid_module_result r \<longleftrightarrow> valid_topic4_record r
     \<and> unit_interval (rr_confidence r) \<and> length (rr_evidence_ref_ids r) \<le> 512
     \<and> length (rr_finding_codes r) \<le> 128 \<and> list_all is_reason_code (rr_finding_codes r)
     \<and> valid_artifact_ref (rr_result_artifact r) \<and> is_sha256_hex (rr_result_sha256 r)
     \<and> \<not> (rr_verdict r = VV_SUPPORTED \<and> rr_evidence_ref_ids r = [])"

definition module_result_doc :: "module_result \<Rightarrow> doc" where
  "module_result_doc r = DObj (header_doc r @
     [(''schema_version'', DStr ''module-run.result.v1''),
      (''module_result_id'', DStr (rr_module_result_id r)),
      (''module_run_id'', DStr (rr_module_run_id r)),
      (''verification_id'', DStr (rr_verification_id r)), (''claim_id'', DStr (rr_claim_id r)),
      (''module'', DStr (module_value (rr_module r))),
      (''verdict'', DStr (verdict_value (rr_verdict r))),
      (''confidence'', DFloat (rr_confidence r)),
      (''evidence_ref_ids'', DList (map DStr (rr_evidence_ref_ids r))),
      (''finding_codes'', DList (map DStr (rr_finding_codes r))),
      (''result_artifact'', artifact_ref_doc (rr_result_artifact r)),
      (''result_sha256'', DStr (rr_result_sha256 r)),
      (''deterministic'', DBool (rr_deterministic r))])"

subsection \<open>Verdicts and the aggregation result\<close>

record claim_verdict = topic4_record +
  cv_claim_verdict_id :: uuid
  cv_verification_id :: uuid
  cv_claim_id :: uuid
  cv_verdict :: verification_verdict
  cv_confidence :: rat
  cv_module_result_ids :: "uuid list"
  cv_evidence_ref_ids :: "uuid list"
  cv_reason_codes :: "string list"
  cv_disclosure_codes :: "string list"
  cv_non_waivable :: bool

definition valid_claim_verdict :: "claim_verdict \<Rightarrow> bool" where
  "valid_claim_verdict v \<longleftrightarrow> valid_topic4_record v
     \<and> unit_interval (cv_confidence v) \<and> len_between 1 32 (cv_module_result_ids v)
     \<and> length (cv_evidence_ref_ids v) \<le> 1024
     \<and> length (cv_reason_codes v) \<le> 128 \<and> list_all is_reason_code (cv_reason_codes v)
     \<and> length (cv_disclosure_codes v) \<le> 32 \<and> list_all is_reason_code (cv_disclosure_codes v)"

definition claim_verdict_doc :: "claim_verdict \<Rightarrow> doc" where
  "claim_verdict_doc v = DObj (header_doc v @
     [(''schema_version'', DStr ''claim.verdict.v1''),
      (''claim_verdict_id'', DStr (cv_claim_verdict_id v)),
      (''verification_id'', DStr (cv_verification_id v)), (''claim_id'', DStr (cv_claim_id v)),
      (''verdict'', DStr (verdict_value (cv_verdict v))),
      (''confidence'', DFloat (cv_confidence v)),
      (''module_result_ids'', DList (map DStr (cv_module_result_ids v))),
      (''evidence_ref_ids'', DList (map DStr (cv_evidence_ref_ids v))),
      (''reason_codes'', DList (map DStr (cv_reason_codes v))),
      (''disclosure_codes'', DList (map DStr (cv_disclosure_codes v))),
      (''non_waivable'', DBool (cv_non_waivable v))])"

record aggregation_result = topic4_record +
  ar_aggregation_result_id :: uuid
  ar_verification_id :: uuid
  ar_candidate_id :: uuid
  ar_candidate_version :: int
  ar_candidate_sha256 :: digest
  ar_decision :: aggregate_decision
  ar_claim_verdict_ids :: "uuid list"
  ar_supported_count :: int
  ar_contradicted_count :: int
  ar_insufficient_count :: int
  ar_unsafe_count :: int
  ar_overall_confidence :: rat
  ar_revision_block_ids :: "string list"
  ar_disclosure_codes :: "string list"
  ar_policy_version :: string

definition valid_aggregation_result :: "aggregation_result \<Rightarrow> bool" where
  "valid_aggregation_result a \<longleftrightarrow> valid_topic4_record a
     \<and> 1 \<le> ar_candidate_version a \<and> is_sha256_hex (ar_candidate_sha256 a)
     \<and> len_between 1 4096 (ar_claim_verdict_ids a)
     \<and> 0 \<le> ar_supported_count a \<and> 0 \<le> ar_contradicted_count a
     \<and> 0 \<le> ar_insufficient_count a \<and> 0 \<le> ar_unsafe_count a
     \<and> unit_interval (ar_overall_confidence a)
     \<and> length (ar_revision_block_ids a) \<le> 2048 \<and> list_all is_block_id (ar_revision_block_ids a)
     \<and> length (ar_disclosure_codes a) \<le> 32 \<and> list_all is_reason_code (ar_disclosure_codes a)
     \<and> is_version_string (ar_policy_version a)
     \<and> \<not> (ar_decision a = AD_REVISE \<and> ar_revision_block_ids a = [])
     \<and> \<not> (ar_decision a = AD_RELEASE_WITH_DISCLOSURE \<and> ar_disclosure_codes a = [])
     \<and> \<not> (ar_decision a = AD_RELEASE \<and> ar_unsafe_count a \<noteq> 0)"

definition aggregation_result_doc :: "aggregation_result \<Rightarrow> doc" where
  "aggregation_result_doc a = DObj (header_doc a @
     [(''schema_version'', DStr ''aggregation.result.v1''),
      (''aggregation_result_id'', DStr (ar_aggregation_result_id a)),
      (''verification_id'', DStr (ar_verification_id a)),
      (''candidate_id'', DStr (ar_candidate_id a)),
      (''candidate_version'', DInt (ar_candidate_version a)),
      (''candidate_sha256'', DStr (ar_candidate_sha256 a)),
      (''decision'', DStr (decision_value (ar_decision a))),
      (''claim_verdict_ids'', DList (map DStr (ar_claim_verdict_ids a))),
      (''supported_count'', DInt (ar_supported_count a)),
      (''contradicted_count'', DInt (ar_contradicted_count a)),
      (''insufficient_count'', DInt (ar_insufficient_count a)),
      (''unsafe_count'', DInt (ar_unsafe_count a)),
      (''overall_confidence'', DFloat (ar_overall_confidence a)),
      (''revision_block_ids'', DList (map DStr (ar_revision_block_ids a))),
      (''disclosure_codes'', DList (map DStr (ar_disclosure_codes a))),
      (''policy_version'', DStr (ar_policy_version a))])"

subsection \<open>Evidence chains\<close>

record chain_item = topic4_record +
  ci_evidence_ref_id :: uuid
  ci_sequence :: int
  ci_evidence_sha256 :: digest
  ci_previous_chain_sha256 :: "digest option"
  ci_chain_sha256 :: digest

definition valid_chain_item :: "chain_item \<Rightarrow> bool" where
  "valid_chain_item i \<longleftrightarrow> valid_topic4_record i \<and> 0 \<le> ci_sequence i
     \<and> is_sha256_hex (ci_evidence_sha256 i)
     \<and> (case ci_previous_chain_sha256 i of None \<Rightarrow> True | Some p \<Rightarrow> is_sha256_hex p)
     \<and> is_sha256_hex (ci_chain_sha256 i)"

definition chain_item_doc :: "chain_item \<Rightarrow> doc" where
  "chain_item_doc i = DObj (header_doc i @
     [(''schema_version'', DStr ''evidence-chain-item.v1''),
      (''evidence_ref_id'', DStr (ci_evidence_ref_id i)), (''sequence'', DInt (ci_sequence i)),
      (''evidence_sha256'', DStr (ci_evidence_sha256 i)),
      (''previous_chain_sha256'', opt_doc DStr (ci_previous_chain_sha256 i)),
      (''chain_sha256'', DStr (ci_chain_sha256 i))])"

record chain_manifest = topic4_record +
  cm_evidence_chain_manifest_id :: uuid
  cm_verification_id :: uuid
  cm_report_id :: uuid
  cm_items :: "chain_item list"
  cm_root_chain_sha256 :: digest

definition valid_chain_manifest :: "chain_manifest \<Rightarrow> bool" where
  "valid_chain_manifest m \<longleftrightarrow> valid_topic4_record m
     \<and> len_between 1 16384 (cm_items m) \<and> is_sha256_hex (cm_root_chain_sha256 m)
     \<and> map ci_sequence (cm_items m) = map int [0..<length (cm_items m)]
     \<and> ci_chain_sha256 (last (cm_items m)) = cm_root_chain_sha256 m"

definition chain_manifest_doc :: "chain_manifest \<Rightarrow> doc" where
  "chain_manifest_doc m = DObj (header_doc m @
     [(''schema_version'', DStr ''evidence-chain-manifest.v1''),
      (''evidence_chain_manifest_id'', DStr (cm_evidence_chain_manifest_id m)),
      (''verification_id'', DStr (cm_verification_id m)), (''report_id'', DStr (cm_report_id m)),
      (''items'', DList (map (full_doc chain_item_doc) (cm_items m))),
      (''root_chain_sha256'', DStr (cm_root_chain_sha256 m))])"

subsection \<open>Every record type is a sealed document\<close>

interpretation claim_risk_seal: sealed_document claim_risk_doc
  by unfold_locales (simp add: claim_risk_doc_def header_doc_def)

interpretation dispatch_item_seal: sealed_document dispatch_item_doc
  by unfold_locales (simp add: dispatch_item_doc_def header_doc_def)

interpretation dispatch_plan_seal: sealed_document dispatch_plan_doc
  by unfold_locales (simp add: dispatch_plan_doc_def header_doc_def)

interpretation module_run_seal: sealed_document module_run_doc
  by unfold_locales (simp add: module_run_doc_def header_doc_def)

interpretation module_result_seal: sealed_document module_result_doc
  by unfold_locales (simp add: module_result_doc_def header_doc_def)

interpretation claim_verdict_seal: sealed_document claim_verdict_doc
  by unfold_locales (simp add: claim_verdict_doc_def header_doc_def)

interpretation aggregation_result_seal: sealed_document aggregation_result_doc
  by unfold_locales (simp add: aggregation_result_doc_def header_doc_def)

interpretation chain_item_seal: sealed_document chain_item_doc
  by unfold_locales (simp add: chain_item_doc_def header_doc_def)

interpretation chain_manifest_seal: sealed_document chain_manifest_doc
  by unfold_locales (simp add: chain_manifest_doc_def header_doc_def)

subsection \<open>Sample values for the witnesses\<close>

definition sample_hash_env :: hash_env where
  "sample_hash_env = \<lparr>c_sha = (\<lambda>_. replicate 64 (CHR ''a'')), c_uuid5 = (\<lambda>ns name. ns @ name)\<rparr>"

lemma sample_hash_env_hex: "is_sha256_hex (c_sha sample_hash_env d)"
  by (simp add: sample_hash_env_def is_sha256_hex_def is_lower_hex_def char_in_def list_all_iff)

definition sample_claim :: "claim_kind \<Rightarrow> claim" where
  "sample_claim kind =
     \<lparr>t4_trace_id = replicate 16 (CHR ''a''), t4_tenant_id = ''tenant-1'', t4_version_cas = 1,
      t4_record_sha256 = replicate 64 (CHR ''a''), t4_created_at = 0,
      cl_claim_id = ''claim-1'', cl_verification_id = ''verification-1'',
      cl_candidate_id = ''candidate-1'', cl_candidate_version = 1,
      cl_candidate_sha256 = replicate 64 (CHR ''b''), cl_block_id = ''block-1'',
      cl_claim_kind = kind, cl_claim_subtype = ''statement'',
      cl_statement = ''the loop is stable'', cl_normalized_statement = ''the loop is stable'',
      cl_json_pointer = ''/body'', cl_ordinal = 0, cl_source_span_start = 0,
      cl_source_span_end = 18, cl_claim_sha256 = replicate 64 (CHR ''c''),
      cl_extraction_method = EM_DETERMINISTIC, cl_dependent_claim_ids = []\<rparr>"

lemma sample_claim_valid: "valid_claim (sample_claim k)"
  by (simp add: sample_claim_def valid_claim_def valid_topic4_record_def len_between_def
      is_sha256_hex_def is_trace_id_def is_tenant_id_def is_block_id_def is_lower_hex_def
      is_alnum_def char_in_def list_all_iff)

end
