(* ===== verification/RiskScoring.thy ===== *)
theory RiskScoring
  imports ContractsC1
begin

text \<open>
  Claim risk scoring, \<^verbatim>\<open>backend/src/liyans/domains/verification/risk_scoring.py\<close>: the base
  dimensions, the policy and its validation, the raising of dimensions, the weighted score, the
  level and the mandatory modules.  The regular-expression searches on the statement are a
  parameter \<open>search :: signal \<Rightarrow> string \<Rightarrow> bool\<close> (\<^verbatim>\<open>_ABSOLUTE_ASSERTION.search\<close> and its
  siblings); every statement below holds for all of its values.
\<close>

subsection \<open>Tables and policy\<close>

datatype signal =
  SG_ABSOLUTE | SG_STABILITY | SG_NUMERIC | SG_CITATION | SG_DESTRUCTIVE | SG_INJECTION | SG_PII

text \<open>The five dimensions: academic, learner, uncertainty, irreversibility, external action.\<close>

fun base_dimensions :: "claim_kind \<Rightarrow> rat list" where
  "base_dimensions CK_TEXT = map fl [42/100, 38/100, 34/100, 22/100, 8/100]"
| "base_dimensions CK_FORMULA = map fl [76/100, 68/100, 42/100, 34/100, 8/100]"
| "base_dimensions CK_GRAPH = map fl [58/100, 52/100, 38/100, 30/100, 8/100]"
| "base_dimensions CK_QUIZ = map fl [72/100, 76/100, 42/100, 42/100, 10/100]"
| "base_dimensions CK_CODE = map fl [78/100, 80/100, 46/100, 64/100, 76/100]"
| "base_dimensions CK_EXTENSION = map fl [60/100, 44/100, 66/100, 28/100, 24/100]"

fun vertical_module :: "claim_kind \<Rightarrow> verification_module" where
  "vertical_module CK_TEXT = C3_ACADEMIC"
| "vertical_module CK_FORMULA = C3_ACADEMIC"
| "vertical_module CK_GRAPH = C4_GRAPH"
| "vertical_module CK_QUIZ = C5_QUIZ"
| "vertical_module CK_CODE = C6_CODE"
| "vertical_module CK_EXTENSION = C7_EXTENSION"

record risk_policy =
  rp_policy_version :: string
  rp_low_ceiling :: rat
  rp_medium_ceiling :: rat
  rp_high_ceiling :: rat

text \<open>\<^verbatim>\<open>RiskScoringPolicy.__post_init__\<close>: what a constructed policy satisfies.\<close>

definition valid_risk_policy :: "risk_policy \<Rightarrow> bool" where
  "valid_risk_policy p \<longleftrightarrow> len_between 1 128 (rp_policy_version p)
     \<and> 0 < rp_low_ceiling p \<and> rp_low_ceiling p < rp_medium_ceiling p
     \<and> rp_medium_ceiling p < rp_high_ceiling p \<and> rp_high_ceiling p \<le> 1"

definition default_risk_policy :: "string \<Rightarrow> risk_policy" where
  "default_risk_policy version =
     \<lparr>rp_policy_version = version, rp_low_ceiling = fl (35/100),
      rp_medium_ceiling = fl (60/100), rp_high_ceiling = fl (78/100)\<rparr>"

subsection \<open>The scorer\<close>

text \<open>\<^verbatim>\<open>_raise_dimensions\<close>: the increments are given in the order of the dimensions.\<close>

definition raise_dimensions :: "rat list \<Rightarrow> rat list \<Rightarrow> rat list" where
  "raise_dimensions increments dimensions =
     map (\<lambda>(d, i). min 1 (fadd d (fl i))) (zip dimensions increments)"

definition weighted_score :: "rat list \<Rightarrow> rat" where
  "weighted_score dimensions =
     fsum (map (\<lambda>(v, w). fmul v w)
       (zip dimensions (map fl [30/100, 25/100, 20/100, 15/100, 10/100])))"

definition risk_level_of :: "risk_policy \<Rightarrow> rat \<Rightarrow> risk_level" where
  "risk_level_of p score =
     (if score < rp_low_ceiling p then RL_LOW
      else if score < rp_medium_ceiling p then RL_MEDIUM
      else if score < rp_high_ceiling p then RL_HIGH
      else RL_CRITICAL)"

definition mandatory_modules :: "claim_kind \<Rightarrow> verification_module list" where
  "mandatory_modules kind =
     [C2_RAG, vertical_module kind, C9_SECURITY, C10_PRIVACY, C11_COMPLIANCE]"

text \<open>One \<^verbatim>\<open>if pattern.search(statement): raise; append reason\<close> block of \<^verbatim>\<open>score\<close>.\<close>

definition apply_signal ::
  "bool \<Rightarrow> rat list \<Rightarrow> string \<Rightarrow> rat list \<times> string list \<Rightarrow> rat list \<times> string list" where
  "apply_signal found increments reason st =
     (if found then (raise_dimensions increments (fst st), snd st @ [reason]) else st)"

definition mark_reason ::
  "bool \<Rightarrow> string \<Rightarrow> rat list \<times> string list \<Rightarrow> rat list \<times> string list" where
  "mark_reason b reason st = (if b then (fst st, snd st @ [reason]) else st)"

definition scored_dimensions ::
  "(signal \<Rightarrow> string \<Rightarrow> bool) \<Rightarrow> claim \<Rightarrow> rat list \<times> string list" where
  "scored_dimensions search claim =
     (let statement = cl_normalized_statement claim;
          st0 = (base_dimensions (cl_claim_kind claim),
                 [''CLAIM_KIND_'' @ claim_kind_value (cl_claim_kind claim)]);
          st1 = apply_signal (search SG_ABSOLUTE statement)
                  [12/100, 10/100, 14/100, 0, 0] ''ABSOLUTE_ASSERTION'' st0;
          st2 = apply_signal (search SG_STABILITY statement)
                  [10/100, 10/100, 0, 8/100, 0] ''STABILITY_ASSERTION'' st1;
          st3 = apply_signal (search SG_NUMERIC statement)
                  [8/100, 6/100, 8/100, 0, 0] ''NUMERIC_ASSERTION'' st2;
          st4 = apply_signal (search SG_CITATION statement
                    \<or> cl_claim_subtype claim = ''extension_citation'')
                  [8/100, 0, 16/100, 0, 0] ''EXTERNAL_CITATION'' st3;
          st5 = mark_reason (cl_claim_kind claim = CK_CODE) ''EXECUTABLE_CONTENT'' st4;
          st6 = apply_signal (search SG_DESTRUCTIVE statement)
                  [0, 18/100, 12/100, 30/100, 24/100] ''DESTRUCTIVE_CODE_SIGNAL'' st5;
          st7 = apply_signal (search SG_INJECTION statement)
                  [0, 0, 34/100, 24/100, 24/100] ''PROMPT_INJECTION_SIGNAL'' st6
      in apply_signal (search SG_PII statement)
           [0, 18/100, 0, 32/100, 20/100] ''PII_SIGNAL'' st7)"

definition profile_factor :: "verification_profile \<Rightarrow> claim_kind \<Rightarrow> rat" where
  "profile_factor profile kind =
     (case profile of
        VP_STANDARD \<Rightarrow> 1
      | VP_STRICT \<Rightarrow> fl (108/100)
      | VP_CODE_STRICT \<Rightarrow> if kind = CK_CODE then fl (112/100) else fl (105/100))"

definition danger_reasons :: "string list" where
  "danger_reasons = [''PROMPT_INJECTION_SIGNAL'', ''DESTRUCTIVE_CODE_SIGNAL'', ''PII_SIGNAL'']"

definition final_dimensions ::
  "(signal \<Rightarrow> string \<Rightarrow> bool) \<Rightarrow> verification_profile \<Rightarrow> claim \<Rightarrow> rat list" where
  "final_dimensions search profile claim =
     map (\<lambda>v. min 1 (fmul v (profile_factor profile (cl_claim_kind claim))))
       (fst (scored_dimensions search claim))"

definition final_score ::
  "(signal \<Rightarrow> string \<Rightarrow> bool) \<Rightarrow> verification_profile \<Rightarrow> claim \<Rightarrow> rat" where
  "final_score search profile claim =
     (let weighted = weighted_score (final_dimensions search profile claim)
      in if list_ex (\<lambda>r. r \<in> set (snd (scored_dimensions search claim))) danger_reasons
         then max weighted (fl (82/100)) else weighted)"

definition risk_id_of :: "hash_env \<Rightarrow> risk_policy \<Rightarrow> tenant \<Rightarrow> claim \<Rightarrow> uuid" where
  "risk_id_of h p tenant_id claim =
     c_uuid5 h namespace_url
       (''liyans:topic4:risk:'' @ tenant_id @ '':'' @ cl_verification_id claim @ '':''
          @ cl_claim_id claim @ '':'' @ rp_policy_version p)"

definition score_claim ::
  "hash_env \<Rightarrow> (signal \<Rightarrow> string \<Rightarrow> bool) \<Rightarrow> risk_policy \<Rightarrow> verification_profile
     \<Rightarrow> string \<Rightarrow> tenant \<Rightarrow> timestamp \<Rightarrow> claim \<Rightarrow> contract_error + claim_risk" where
  "score_claim h search p profile trace_id tenant_id created_at claim =
     (let dimensions = final_dimensions search profile claim;
          score = final_score search profile claim
      in build_topic4_record h claim_risk_doc valid_claim_risk
           \<lparr>t4_trace_id = trace_id, t4_tenant_id = tenant_id, t4_version_cas = 1,
            t4_record_sha256 = [], t4_created_at = created_at,
            rk_risk_id = risk_id_of h p tenant_id claim,
            rk_verification_id = cl_verification_id claim, rk_claim_id = cl_claim_id claim,
            rk_level = risk_level_of p score, rk_score = py_round score 6,
            rk_academic_impact = py_round (dimensions ! 0) 6,
            rk_learner_harm = py_round (dimensions ! 1) 6,
            rk_uncertainty = py_round (dimensions ! 2) 6,
            rk_irreversibility = py_round (dimensions ! 3) 6,
            rk_external_action = py_round (dimensions ! 4) 6,
            rk_mandatory_modules = mandatory_modules (cl_claim_kind claim),
            rk_reason_codes = snd (scored_dimensions search claim),
            rk_policy_version = rp_policy_version p\<rparr>)"

definition score_all ::
  "hash_env \<Rightarrow> (signal \<Rightarrow> string \<Rightarrow> bool) \<Rightarrow> risk_policy \<Rightarrow> verification_profile
     \<Rightarrow> string \<Rightarrow> tenant \<Rightarrow> timestamp \<Rightarrow> claim list \<Rightarrow> contract_error + claim_risk list" where
  "score_all h search p profile trace_id tenant_id created_at claims =
     map_ok (score_claim h search p profile trace_id tenant_id created_at) claims"

subsection \<open>Dimensions and scores stay in the unit interval\<close>

definition unit_dims :: "rat list \<Rightarrow> bool" where
  "unit_dims ds \<longleftrightarrow> length ds = 5 \<and> list_all unit_interval ds"

lemma unit_interval_fl: "unit_interval x \<Longrightarrow> unit_interval (fl x)"
  using double.rnd_unit [of x] by (simp add: unit_interval_def)

lemma unit_dims_base [inv_intros]: "unit_dims (base_dimensions k)"
  by (cases k) (simp_all add: unit_dims_def unit_interval_def fl_unit_simps)

lemma raise_dimensions_unit [inv_intros]:
  assumes "unit_dims ds" "length is = 5" "list_all (\<lambda>i. 0 \<le> i) is"
  shows "unit_dims (raise_dimensions is ds)"
proof -
  have "unit_interval (min 1 (fadd d (fl i)))" if "unit_interval d" "0 \<le> i" for d i
    using that double.rnd_nonneg [of i] double.rnd_nonneg [of "d + fl i"]
    by (simp add: unit_interval_def fadd_def)
  moreover have "unit_interval d" "0 \<le> i" if "(d, i) \<in> set (zip ds is)" for d i
    using that assms by (auto simp: unit_dims_def list_all_iff dest: set_zip_leftD set_zip_rightD)
  ultimately show ?thesis
    using assms by (auto simp: unit_dims_def raise_dimensions_def list_all_iff)
qed

lemma apply_signal_unit [inv_intros]:
  assumes "unit_dims (fst st)" "length is = 5" "list_all (\<lambda>i. 0 \<le> i) is"
  shows "unit_dims (fst (apply_signal b is reason st))"
  using assms by (simp add: apply_signal_def raise_dimensions_unit)

lemma mark_reason_unit [inv_intros]:
  "unit_dims (fst st) \<Longrightarrow> unit_dims (fst (mark_reason b r st))"
  by (simp add: mark_reason_def)

lemma scored_dimensions_unit: "unit_dims (fst (scored_dimensions search claim))"
  unfolding scored_dimensions_def Let_def
  by (intro apply_signal_unit mark_reason_unit) (simp_all add: unit_dims_base)

lemma final_dimensions_unit: "unit_dims (final_dimensions search profile claim)"
proof -
  have "0 \<le> profile_factor profile (cl_claim_kind claim)"
    by (auto simp: profile_factor_def double.rnd_nonneg split: verification_profile.split)
  then have "unit_interval (min 1 (fmul v (profile_factor profile (cl_claim_kind claim))))"
    if "unit_interval v" for v
    using that by (simp add: unit_interval_def fmul_def double.rnd_nonneg)
  with scored_dimensions_unit [of search claim] show ?thesis
    by (simp add: unit_dims_def final_dimensions_def list_all_iff)
qed

text \<open>The weights add up to exactly one, in floating point as well.\<close>

lemma weights_sum: "fsum (map fl [30/100, 25/100, 20/100, 15/100, 10/100]) = 1"
  by code_simp

lemma weighted_score_unit:
  assumes "unit_dims ds"
  shows "unit_interval (weighted_score ds)"
proof -
  let ?ws = "map fl [30/100, 25/100, 20/100, 15/100, 10/100 :: rat]"
  have w: "0 \<le> w \<and> fl w = w" if "w \<in> set ?ws" for w
    using that by (auto simp: double.rnd_nonneg)
  have d: "unit_interval v" if "v \<in> set ds" for v
    using that assms by (simp add: unit_dims_def list_all_iff)
  have prod: "0 \<le> fmul v w \<and> fmul v w \<le> w" if "(v, w) \<in> set (zip ds ?ws)" for v w
  proof -
    have "unit_interval v" "0 \<le> w \<and> fl w = w"
      using that d w by (blast dest: set_zip_leftD set_zip_rightD)+
    then show ?thesis
      using double.rnd_mult_le [of w v] by (simp add: fmul_def unit_interval_def double.rnd_nonneg)
  qed
  have "length ds = 5" using assms by (simp add: unit_dims_def)
  with prod have "list_all2 (\<le>) (map (\<lambda>(v, w). fmul v w) (zip ds ?ws)) ?ws"
    by (auto simp: list_all2_conv_all_nth set_zip)
  then have "weighted_score ds \<le> 1"
    using fsum_mono weights_sum by (metis weighted_score_def)
  moreover have "0 \<le> weighted_score ds"
    unfolding weighted_score_def using prod by (intro fsum_nonneg) auto
  ultimately show ?thesis by (simp add: unit_interval_def)
qed

lemma final_score_unit: "unit_interval (final_score search profile claim)"
  using weighted_score_unit [OF final_dimensions_unit, of search profile claim]
    double.rnd_unit [of "82/100"]
  by (auto simp: final_score_def Let_def unit_interval_def)

subsection \<open>Reason codes\<close>

definition all_reasons :: "claim_kind \<Rightarrow> string list" where
  "all_reasons k =
     [''CLAIM_KIND_'' @ claim_kind_value k, ''ABSOLUTE_ASSERTION'', ''STABILITY_ASSERTION'',
      ''NUMERIC_ASSERTION'', ''EXTERNAL_CITATION'', ''EXECUTABLE_CONTENT'',
      ''DESTRUCTIVE_CODE_SIGNAL'', ''PROMPT_INJECTION_SIGNAL'', ''PII_SIGNAL'']"

lemma all_reasons_valid: "list_all is_reason_code (all_reasons k)"
  by (cases k; hypsubst; code_simp)

lemma reason_steps:
  "snd (apply_signal b is reason st) = snd st @ (if b then [reason] else [])"
  "snd (mark_reason b reason st) = snd st @ (if b then [reason] else [])"
  by (simp_all add: apply_signal_def mark_reason_def)

lemma scored_reasons:
  "snd (scored_dimensions search claim) =
     (let s = cl_normalized_statement claim in
      [''CLAIM_KIND_'' @ claim_kind_value (cl_claim_kind claim)]
      @ (if search SG_ABSOLUTE s then [''ABSOLUTE_ASSERTION''] else [])
      @ (if search SG_STABILITY s then [''STABILITY_ASSERTION''] else [])
      @ (if search SG_NUMERIC s then [''NUMERIC_ASSERTION''] else [])
      @ (if search SG_CITATION s \<or> cl_claim_subtype claim = ''extension_citation''
         then [''EXTERNAL_CITATION''] else [])
      @ (if cl_claim_kind claim = CK_CODE then [''EXECUTABLE_CONTENT''] else [])
      @ (if search SG_DESTRUCTIVE s then [''DESTRUCTIVE_CODE_SIGNAL''] else [])
      @ (if search SG_INJECTION s then [''PROMPT_INJECTION_SIGNAL''] else [])
      @ (if search SG_PII s then [''PII_SIGNAL''] else []))"
  by (simp only: scored_dimensions_def Let_def reason_steps snd_conv append_assoc)

lemma scored_reasons_subset:
  "set (snd (scored_dimensions search claim)) \<subseteq> set (all_reasons (cl_claim_kind claim))"
  unfolding scored_reasons Let_def all_reasons_def by (auto split: if_splits)

lemma scored_reasons_length:
  "len_between 1 32 (snd (scored_dimensions search claim))"
  unfolding scored_reasons Let_def len_between_def by simp

subsection \<open>Properties\<close>

lemma mandatory_modules_distinct: "distinct (mandatory_modules k)"
  by (cases k) (simp_all add: mandatory_modules_def)

lemma risk_level_critical: "risk_level_of p s = RL_CRITICAL \<Longrightarrow> rp_high_ceiling p \<le> s"
  by (auto simp: risk_level_of_def split: if_splits)

lemma round_075: "py_round (fl (75/100)) 6 = fl (75/100)"
  by code_simp

text \<open>What the contract asks of a risk record, beyond what the scorer always delivers.\<close>

lemma score_claim_succeeds_iff:
  assumes "valid_risk_policy p" "is_trace_id trace" "is_tenant_id tenant"
    and "\<And>d. is_sha256_hex (c_sha h d)"
  shows "(\<exists>r. score_claim h search p profile trace tenant now claim = Inr r) \<longleftrightarrow>
     is_version_string (rp_policy_version p)
     \<and> \<not> (risk_level_of p (final_score search profile claim) = RL_CRITICAL
          \<and> py_round (final_score search profile claim) 6 < fl (75/100))"
proof -
  have ds: "unit_interval (py_round (final_dimensions search profile claim ! i) 6)" if "i < 5" for i
    using that final_dimensions_unit [of search profile claim] py_round_unit
    by (simp add: unit_dims_def unit_interval_def list_all_length)
  have sc: "unit_interval (py_round (final_score search profile claim) 6)"
    using final_score_unit [of search profile claim] py_round_unit by (simp add: unit_interval_def)
  have rs: "list_all is_reason_code (snd (scored_dimensions search claim))"
    using all_reasons_valid scored_reasons_subset [of search claim]
    by (auto simp: list_all_iff)
  show ?thesis
    using assms(2-4) ds [of 0] ds [of 1] ds [of 2] ds [of 3] ds [of 4] sc rs
      scored_reasons_length [of search claim] mandatory_modules_distinct
    by (simp add: score_claim_def Let_def claim_risk_seal.build_succeeds_iff valid_claim_risk_def
        valid_topic4_record_def) (simp add: len_between_def mandatory_modules_def)
qed

text \<open>
  C2.  Scoring never fails for a policy whose version is a contract version string and whose
  critical threshold is at least 0.75, whatever the claim and whatever its statement triggers:
  the dimensions and the score, computed in double precision, stay within the contract's bounds,
  the record is sealed, carries the policy's level of its score, and demands the retrieval,
  vertical, security, privacy and compliance modules.
\<close>

theorem risk_scoring_total:
  assumes "valid_risk_policy p" "is_version_string (rp_policy_version p)"
    and "fl (75/100) \<le> rp_high_ceiling p" "is_trace_id trace" "is_tenant_id tenant"
    and "\<And>d. is_sha256_hex (c_sha h d)"
  shows "\<exists>r. score_claim h search p profile trace tenant now claim = Inr r
     \<and> valid_claim_risk r \<and> record_integrity_valid h claim_risk_doc r
     \<and> rk_claim_id r = cl_claim_id claim
     \<and> rk_level r = risk_level_of p (final_score search profile claim)
     \<and> set (rk_mandatory_modules r)
         = {C2_RAG, vertical_module (cl_claim_kind claim), C9_SECURITY, C10_PRIVACY, C11_COMPLIANCE}"
proof -
  have "\<not> (risk_level_of p (final_score search profile claim) = RL_CRITICAL
          \<and> py_round (final_score search profile claim) 6 < fl (75/100))"
  proof
    assume *: "risk_level_of p (final_score search profile claim) = RL_CRITICAL
          \<and> py_round (final_score search profile claim) 6 < fl (75/100)"
    then have "fl (75/100) \<le> final_score search profile claim"
      using risk_level_critical assms(3) by fastforce
    from py_round_mono [OF this, of 6] * show False unfolding round_075 by linarith
  qed
  with assms obtain r where r: "score_claim h search p profile trace tenant now claim = Inr r"
    using score_claim_succeeds_iff by blast
  then show ?thesis
    using claim_risk_seal.build_seals [OF r [unfolded score_claim_def Let_def]] r
    by (auto simp: mandatory_modules_def)
qed

theorem risk_scoring_total_witness:
  "\<exists>r. score_claim sample_hash_env (\<lambda>_ _. True) (default_risk_policy ''risk-v1'') VP_CODE_STRICT
       (replicate 16 (CHR ''a'')) ''tenant-1'' 0 (sample_claim CK_CODE) = Inr r
     \<and> valid_claim_risk r \<and> record_integrity_valid sample_hash_env claim_risk_doc r
     \<and> rk_claim_id r = cl_claim_id (sample_claim CK_CODE)
     \<and> rk_level r = risk_level_of (default_risk_policy ''risk-v1'')
          (final_score (\<lambda>_ _. True) VP_CODE_STRICT (sample_claim CK_CODE))
     \<and> set (rk_mandatory_modules r)
         = {C2_RAG, vertical_module (cl_claim_kind (sample_claim CK_CODE)), C9_SECURITY,
            C10_PRIVACY, C11_COMPLIANCE}"
proof (rule risk_scoring_total)
  show "valid_risk_policy (default_risk_policy ''risk-v1'')" by code_simp
  show "is_version_string (rp_policy_version (default_risk_policy ''risk-v1''))" by code_simp
  show "fl (75/100) \<le> rp_high_ceiling (default_risk_policy ''risk-v1'')" by code_simp
  show "is_trace_id (replicate 16 (CHR ''a''))" by code_simp
  show "is_tenant_id ''tenant-1''" by code_simp
  show "is_sha256_hex (c_sha sample_hash_env d)" for d by (rule sample_hash_env_hex)
qed

lemma round_082: "py_round (fl (82/100)) 6 = fl (82/100)"
  by code_simp

lemma danger_score:
  assumes "sg \<in> {SG_DESTRUCTIVE, SG_INJECTION, SG_PII}"
    and "search sg (cl_normalized_statement claim)"
  shows "fl (82/100) \<le> final_score search profile claim"
proof -
  have "list_ex (\<lambda>r. r \<in> set (snd (scored_dimensions search claim))) danger_reasons"
    using assms unfolding scored_reasons danger_reasons_def by (auto simp: Let_def)
  then show ?thesis by (simp add: final_score_def Let_def)
qed

text \<open>
  C3.  Dangerous content cannot be scored down: when the statement matches the destructive-code,
  prompt-injection or personal-data pattern, the stored score is at least 0.82 and, under every
  policy whose critical threshold does not exceed 0.82, the claim is \<open>CRITICAL\<close>.
\<close>

theorem danger_signals_critical:
  assumes "score_claim h search p profile trace tenant now claim = Inr r"
    and "sg \<in> {SG_DESTRUCTIVE, SG_INJECTION, SG_PII}"
    and "search sg (cl_normalized_statement claim)"
    and "valid_risk_policy p" "rp_high_ceiling p \<le> fl (82/100)"
  shows "rk_level r = RL_CRITICAL \<and> fl (82/100) \<le> rk_score r"
proof -
  have score: "fl (82/100) \<le> final_score search profile claim"
    using danger_score [of sg search claim] assms(2,3) by blast
  have r: "rk_level r = risk_level_of p (final_score search profile claim)"
      "rk_score r = py_round (final_score search profile claim) 6"
    using claim_risk_seal.build_seals(3) [OF assms(1) [unfolded score_claim_def Let_def]]
    by simp_all
  from score assms(4,5) have "risk_level_of p (final_score search profile claim) = RL_CRITICAL"
    by (simp add: risk_level_of_def valid_risk_policy_def)
  moreover from py_round_mono [OF score, of 6] have "fl (82/100) \<le> rk_score r"
    unfolding round_082 r .
  ultimately show ?thesis by (simp add: r)
qed

theorem danger_signals_critical_witness:
  "\<exists>r. score_claim sample_hash_env (\<lambda>_ _. True) (default_risk_policy ''risk-v1'') VP_STRICT
       (replicate 16 (CHR ''a'')) ''tenant-1'' 0 (sample_claim CK_TEXT) = Inr r
     \<and> rk_level r = RL_CRITICAL \<and> fl (82/100) \<le> rk_score r"
proof -
  let ?p = "default_risk_policy ''risk-v1''"
  have p: "valid_risk_policy ?p" "is_version_string (rp_policy_version ?p)"
      "rp_high_ceiling ?p \<le> fl (82/100)" "is_trace_id (replicate 16 (CHR ''a''))"
      "is_tenant_id ''tenant-1''"
    by code_simp+
  have "fl (82/100) \<le> final_score (\<lambda>_ _. True) VP_STRICT (sample_claim CK_TEXT)"
    using danger_score [of SG_PII "\<lambda>_ _. True"] by simp
  from py_round_mono [OF this, of 6] fl_mono [of "75/100" "82/100"]
  have "\<not> py_round (final_score (\<lambda>_ _. True) VP_STRICT (sample_claim CK_TEXT)) 6 < fl (75/100)"
    unfolding round_082 by linarith
  with p sample_hash_env_hex obtain r
    where r: "score_claim sample_hash_env (\<lambda>_ _. True) ?p VP_STRICT
       (replicate 16 (CHR ''a'')) ''tenant-1'' 0 (sample_claim CK_TEXT) = Inr r"
    using score_claim_succeeds_iff by blast
  have "rk_level r = RL_CRITICAL \<and> fl (82/100) \<le> rk_score r"
    by (rule danger_signals_critical [OF r, of SG_PII]) (use p in simp_all)
  with r show ?thesis by blast
qed

text \<open>
  The policy accepts critical thresholds below the contract's own bound of 0.75.  With such a
  policy a claim rated \<open>CRITICAL\<close> at a rounded score below 0.75 is exactly what makes scoring fail
  with a validation error instead of producing a risk record; the witness is a plain text claim
  under a policy whose thresholds are 1/64, 1/32 and 1/16.
\<close>

theorem critical_below_contract_rejected:
  assumes "valid_risk_policy p" "is_version_string (rp_policy_version p)"
    and "is_trace_id trace" "is_tenant_id tenant" "\<And>d. is_sha256_hex (c_sha h d)"
  shows "score_claim h search p profile trace tenant now claim = Inl Validation_error \<longleftrightarrow>
     rp_high_ceiling p \<le> final_score search profile claim
     \<and> py_round (final_score search profile claim) 6 < fl (75/100)"
proof -
  have "risk_level_of p s = RL_CRITICAL \<longleftrightarrow> rp_high_ceiling p \<le> s" for s
    using assms(1) by (auto simp: risk_level_of_def valid_risk_policy_def)
  moreover have "x = Inl Validation_error \<longleftrightarrow> \<not> (\<exists>r. x = Inr r)" for x :: "contract_error + claim_risk"
    by (metis contract_error.exhaust old.sum.exhaust sum.distinct(1))
  ultimately show ?thesis
    using score_claim_succeeds_iff [OF assms(1,3-5), of search profile now claim] assms(2) by blast
qed

definition lenient_risk_policy :: risk_policy where
  "lenient_risk_policy =
     \<lparr>rp_policy_version = ''risk-lenient'', rp_low_ceiling = 1/64, rp_medium_ceiling = 1/32,
      rp_high_ceiling = 1/16\<rparr>"

lemma lenient_score:
  "1/16 \<le> final_score (\<lambda>_ _. False) VP_STANDARD (sample_claim CK_TEXT)
   \<and> py_round (final_score (\<lambda>_ _. False) VP_STANDARD (sample_claim CK_TEXT)) 6 < fl (75/100)"
proof -
  let ?vs = "[42/100, 38/100, 34/100, 22/100, 8/100 :: rat]"
  let ?ws = "[30/100, 25/100, 20/100, 15/100, 10/100 :: rat]"
  let ?prods = "map (\<lambda>(v, w). fmul (fl v) (fl w)) (zip ?vs ?ws)"
  have dims: "final_dimensions (\<lambda>_ _. False) VP_STANDARD (sample_claim CK_TEXT) = map fl ?vs"
    by (simp add: final_dimensions_def scored_dimensions_def apply_signal_def mark_reason_def
        sample_claim_def profile_factor_def fmul_def fl_unit_simps)
  have score: "final_score (\<lambda>_ _. False) VP_STANDARD (sample_claim CK_TEXT) = fsum ?prods"
    unfolding final_score_def dims
    by (simp add: weighted_score_def scored_reasons danger_reasons_def sample_claim_def)
  have small: "fl (1/4) = 1/4" "fl (3/8) = 3/8" "fl (1/2) = 1/2" "fl (5/16) = 5/16"
      "fl (7/32) = 7/32" "fl (5/32) = 5/32" "fl (1/8) = 1/8" "fl (3/32) = 3/32"
      "fl (7/64) = 7/64" "fl (5/64) = 5/64" "fl (1/16) = 1/16" "fl (3/4) = 3/4"
    by code_simp+
  have up: "fmul (fl v) (fl w) \<le> c" if "v \<le> 1/2" "0 \<le> w" "w \<le> 2 * c" "fl (2 * c) = 2 * c" "fl c = c"
    for v w c
  proof -
    have "fl v \<le> 1/2" "fl w \<le> 2 * c" "0 \<le> fl w"
      using fl_mono [OF that(1)] fl_mono [OF that(3)] that small by (simp_all add: fl_nonneg)
    then have "fl v * fl w \<le> 1/2 * (2 * c)" by (intro mult_mono) auto
    from fl_mono [OF this] that show ?thesis by (simp add: fmul_def)
  qed
  have "fmul (fl (42/100)) (fl (30/100)) \<le> 5/32" "fmul (fl (38/100)) (fl (25/100)) \<le> 1/8"
      "fmul (fl (34/100)) (fl (20/100)) \<le> 7/64" "fmul (fl (22/100)) (fl (15/100)) \<le> 5/64"
      "fmul (fl (8/100)) (fl (10/100)) \<le> 1/16"
    by (rule up; simp add: small)+
  then have "list_all2 (\<le>) ?prods [5/32, 1/8, 7/64, 5/64, 1/16]" by simp
  from fsum_mono [OF this] have "fsum ?prods \<le> fsum [5/32, 1/8, 7/64, 5/64, 1/16]" .
  also have "fsum [5/32, 1/8, 7/64, 5/64, 1/16] = 17/32" by code_simp
  finally have "py_round (fsum ?prods) 6 \<le> py_round (17/32) 6" by (rule py_round_mono)
  also have "py_round (17/32) 6 < 3/4" by code_simp
  also have "3/4 = fl (75/100)" using small by simp
  finally have hi: "py_round (fsum ?prods) 6 < fl (75/100)" .
  have "3/8 \<le> fl (42/100)" "1/4 \<le> fl (30/100)"
    using fl_mono [of "3/8" "42/100"] fl_mono [of "1/4" "30/100"] small by simp_all
  then have "3/8 * (1/4) \<le> fl (42/100) * fl (30/100)" by (intro mult_mono) auto
  from fl_mono [OF this] have "3/32 \<le> fmul (fl (42/100)) (fl (30/100))"
    by (simp add: fmul_def small)
  also have "\<dots> \<le> fsum ?prods"
    using fsum_ge_first [of "map (\<lambda>(v, w). fmul (fl v) (fl w)) (zip (tl ?vs) (tl ?ws))"
        "fmul (fl (42/100)) (fl (30/100))"]
    by (simp add: fmul_def fl_nonneg)
  finally show ?thesis using hi unfolding score by simp
qed

theorem critical_below_contract_rejected_witness:
  "valid_risk_policy lenient_risk_policy \<and> valid_claim (sample_claim CK_TEXT)
   \<and> score_claim sample_hash_env (\<lambda>_ _. False) lenient_risk_policy VP_STANDARD
       (replicate 16 (CHR ''a'')) ''tenant-1'' 0 (sample_claim CK_TEXT) = Inl Validation_error"
proof -
  have p: "valid_risk_policy lenient_risk_policy"
      "is_version_string (rp_policy_version lenient_risk_policy)"
      "is_trace_id (replicate 16 (CHR ''a''))" "is_tenant_id ''tenant-1''"
    by code_simp+
  have "rp_high_ceiling lenient_risk_policy = 1/16" by (simp add: lenient_risk_policy_def)
  then show ?thesis
    using critical_below_contract_rejected [OF p(1-4) sample_hash_env_hex,
        of "\<lambda>_ _. False" VP_STANDARD 0 "sample_claim CK_TEXT"] lenient_score p(1) sample_claim_valid by simp
qed

end
