(* ===== verification/Dispatch.thy ===== *)
theory Dispatch
  imports RiskScoring "HOL-Library.Product_Lexorder" "HOL-Library.Multiset"
begin

text \<open>
  The module dispatch planner, \<^verbatim>\<open>backend/src/liyans/domains/verification/dispatch.py\<close>: the policy,
  the items planned for one claim (identifiers, dependencies, priorities, time-outs), the ordered
  and sealed plan, and \<^verbatim>\<open>execution_waves\<close>, the layering of the dependency graph that both the
  planner and the executor rely on.
\<close>

subsection \<open>Policy and tables\<close>

datatype dispatch_error =
    Dispatch_plan_error string
  | Record_error contract_error

fun module_timeout_ms :: "verification_module \<Rightarrow> int" where
  "module_timeout_ms C2_RAG = 8000"
| "module_timeout_ms C3_ACADEMIC = 8000"
| "module_timeout_ms C4_GRAPH = 3000"
| "module_timeout_ms C5_QUIZ = 8000"
| "module_timeout_ms C6_CODE = 30000"
| "module_timeout_ms C7_EXTENSION = 8000"
| "module_timeout_ms C9_SECURITY = 2000"
| "module_timeout_ms C10_PRIVACY = 2000"
| "module_timeout_ms C11_COMPLIANCE = 8000"

record dispatch_policy =
  dy_policy_version :: string
  dy_standard_parallelism :: int
  dy_strict_parallelism :: int
  dy_code_parallelism :: int

definition valid_dispatch_policy :: "dispatch_policy \<Rightarrow> bool" where
  "valid_dispatch_policy p \<longleftrightarrow> len_between 1 128 (dy_policy_version p)
     \<and> list_all (\<lambda>v. 1 \<le> v \<and> v \<le> 32)
         [dy_standard_parallelism p, dy_strict_parallelism p, dy_code_parallelism p]"

definition parallelism_of :: "dispatch_policy \<Rightarrow> verification_profile \<Rightarrow> int" where
  "parallelism_of p profile =
     (case profile of
        VP_STANDARD \<Rightarrow> dy_standard_parallelism p
      | VP_STRICT \<Rightarrow> dy_strict_parallelism p
      | VP_CODE_STRICT \<Rightarrow> dy_code_parallelism p)"

definition priority_of :: "risk_level \<Rightarrow> verification_module \<Rightarrow> int" where
  "priority_of level modul =
     (let risk_priority = (case level of RL_LOW \<Rightarrow> 400 | RL_MEDIUM \<Rightarrow> 550 | RL_HIGH \<Rightarrow> 750
                                       | RL_CRITICAL \<Rightarrow> 900);
          module_priority = (if modul = C9_SECURITY then 50 else if modul = C10_PRIVACY then 40
                             else if modul = C2_RAG then 30 else if modul = C11_COMPLIANCE then 20
                             else 10)
      in min 1000 (risk_priority + module_priority))"

subsection \<open>Items of one claim\<close>

definition item_id_of :: "hash_env \<Rightarrow> tenant \<Rightarrow> uuid \<Rightarrow> uuid \<Rightarrow> verification_module \<Rightarrow> uuid" where
  "item_id_of h tenant_id plan_id claim_id modul =
     c_uuid5 h namespace_url
       (''liyans:topic4:dispatch-item:'' @ tenant_id @ '':'' @ plan_id @ '':'' @ claim_id @ '':''
          @ module_value modul)"

definition dependencies_of ::
  "verification_module \<Rightarrow> (verification_module \<rightharpoonup> uuid) \<Rightarrow> uuid list" where
  "dependencies_of modul item_ids =
     (if modul \<in> set [C3_ACADEMIC, C4_GRAPH, C5_QUIZ, C6_CODE, C7_EXTENSION, C9_SECURITY,
                       C10_PRIVACY, C11_COMPLIANCE]
      then (case item_ids C2_RAG of None \<Rightarrow> [] | Some rag_item_id \<Rightarrow> [rag_item_id])
      else [])"

definition claim_item ::
  "hash_env \<Rightarrow> uuid \<Rightarrow> string \<Rightarrow> tenant \<Rightarrow> timestamp \<Rightarrow> claim \<Rightarrow> claim_risk
     \<Rightarrow> (verification_module \<rightharpoonup> uuid) \<Rightarrow> verification_module \<Rightarrow> contract_error + dispatch_item" where
  "claim_item h plan_id trace_id tenant_id created_at claim risk item_ids modul =
     build_topic4_record h dispatch_item_doc valid_dispatch_item
       \<lparr>t4_trace_id = trace_id, t4_tenant_id = tenant_id, t4_version_cas = 1,
        t4_record_sha256 = [], t4_created_at = created_at,
        di_dispatch_item_id = item_id_of h tenant_id plan_id (cl_claim_id claim) modul,
        di_claim_id = cl_claim_id claim, di_module = modul, di_required = True,
        di_priority = priority_of (rk_level risk) modul,
        di_dependency_item_ids = dependencies_of modul item_ids,
        di_timeout_ms = module_timeout_ms modul, di_max_attempts = 2\<rparr>"

definition claim_items ::
  "hash_env \<Rightarrow> uuid \<Rightarrow> string \<Rightarrow> tenant \<Rightarrow> timestamp \<Rightarrow> claim \<Rightarrow> claim_risk
     \<Rightarrow> contract_error + dispatch_item list" where
  "claim_items h plan_id trace_id tenant_id created_at claim risk =
     (let item_ids = map_of (map (\<lambda>m. (m, item_id_of h tenant_id plan_id (cl_claim_id claim) m))
                              (rk_mandatory_modules risk))
      in map_ok (claim_item h plan_id trace_id tenant_id created_at claim risk item_ids)
           (rk_mandatory_modules risk))"

subsection \<open>Execution waves\<close>

definition cycle_error :: dispatch_error where
  "cycle_error = Dispatch_plan_error ''dispatch plan contains a dependency cycle''"

definition duplicate_error :: dispatch_error where
  "duplicate_error = Dispatch_plan_error ''dispatch item identifiers must be unique''"

definition unknown_error :: dispatch_error where
  "unknown_error = Dispatch_plan_error ''dispatch plan references an unknown dependency''"

text \<open>
  The \<^verbatim>\<open>while remaining\<close> loop on identifiers; \<open>deps\<close> looks up the dependencies of an item, and the
  sets \<^verbatim>\<open>remaining\<close> and \<^verbatim>\<open>completed\<close> are lists whose order never shows, since \<^verbatim>\<open>ready_ids\<close> is sorted.
\<close>

function wave_ids ::
  "(uuid \<Rightarrow> uuid list) \<Rightarrow> uuid list \<Rightarrow> uuid list \<Rightarrow> dispatch_error + uuid list list" where
  "wave_ids deps remaining completed =
     (if remaining = [] then Inr []
      else let ready_ids = sort (filter (\<lambda>i. list_all (\<lambda>d. d \<in> set completed) (deps i)) remaining)
           in if ready_ids = [] then Inl cycle_error
              else rbind (wave_ids deps (filter (\<lambda>i. i \<notin> set ready_ids) remaining)
                            (completed @ ready_ids))
                     (\<lambda>waves. Inr (ready_ids # waves)))"
  by pat_completeness auto

termination
proof (relation "measure (\<lambda>(_, remaining, _). length remaining)")
  fix deps :: "uuid \<Rightarrow> uuid list" and remaining completed ready_ids :: "uuid list"
  assume ready: "ready_ids = sort (filter (\<lambda>i. list_all (\<lambda>d. d \<in> set completed) (deps i)) remaining)"
    and ne: "ready_ids \<noteq> []"
  from ne have "hd ready_ids \<in> set ready_ids" by (rule hd_in_set)
  moreover have "set ready_ids \<subseteq> set remaining" by (auto simp: ready)
  ultimately have "length (filter (\<lambda>i. i \<notin> set ready_ids) remaining) < length remaining"
    by (intro length_filter_less) auto
  then show "((deps, filter (\<lambda>i. i \<notin> set ready_ids) remaining, completed @ ready_ids),
      (deps, remaining, completed)) \<in> measure (\<lambda>(_, remaining, _). length remaining)"
    by simp
qed simp

declare wave_ids.simps [simp del]

lemma wave_ids_Nil [simp]: "wave_ids deps [] completed = Inr []"
  by (simp add: wave_ids.simps)

definition execution_waves :: "dispatch_item list \<Rightarrow> dispatch_error + dispatch_item list list" where
  "execution_waves items =
     (let item_by_id = dict_by di_dispatch_item_id items;
          ids = map di_dispatch_item_id items
      in rbind (guard (card (set ids) = length items) duplicate_error) (\<lambda>_.
         rbind (guard (list_all (\<lambda>item. list_all (\<lambda>d. d \<in> set ids) (di_dependency_item_ids item)) items)
                  unknown_error) (\<lambda>_.
         rbind (wave_ids (\<lambda>i. di_dependency_item_ids (the (item_by_id i))) (remdups ids) []) (\<lambda>waves.
         Inr (map (map (\<lambda>i. the (item_by_id i))) waves)))))"

subsection \<open>The plan\<close>

definition item_key :: "dispatch_item \<Rightarrow> int \<times> uuid \<times> nat" where
  "item_key item = (- di_priority item, di_claim_id item, module_index (di_module item))"

definition plan_id_of ::
  "hash_env \<Rightarrow> dispatch_policy \<Rightarrow> verification_profile \<Rightarrow> tenant \<Rightarrow> claim list \<Rightarrow> uuid" where
  "plan_id_of h p profile tenant_id claims =
     (let plan_seed = c_sha h (DObj
            [(''verification_id'', DStr (cl_verification_id (hd claims))),
             (''claim_ids'', DList (map (\<lambda>c. DStr (cl_claim_id c)) claims)),
             (''policy_version'', DStr (dy_policy_version p)),
             (''profile'', DStr (profile_value profile))])
      in c_uuid5 h namespace_url (''liyans:topic4:dispatch-plan:'' @ tenant_id @ '':'' @ plan_seed))"

text \<open>\<open>planned_items\<close> is the loop over the claims followed by the sort.\<close>

definition planned_items ::
  "hash_env \<Rightarrow> uuid \<Rightarrow> string \<Rightarrow> tenant \<Rightarrow> timestamp \<Rightarrow> claim list \<Rightarrow> claim_risk list
     \<Rightarrow> contract_error + dispatch_item list" where
  "planned_items h plan_id trace_id tenant_id created_at claims risks =
     (let risk_by_claim = dict_by rk_claim_id risks
      in rbind (map_ok (\<lambda>claim. claim_items h plan_id trace_id tenant_id created_at claim
                               (the (risk_by_claim (cl_claim_id claim)))) claims)
           (\<lambda>groups. Inr (sort_key item_key (concat groups))))"

definition lift_record_error :: "contract_error + 'a \<Rightarrow> dispatch_error + 'a" where
  "lift_record_error r = (case r of Inl e \<Rightarrow> Inl (Record_error e) | Inr x \<Rightarrow> Inr x)"

definition plan_values ::
  "hash_env \<Rightarrow> dispatch_policy \<Rightarrow> verification_profile \<Rightarrow> string \<Rightarrow> tenant \<Rightarrow> timestamp
     \<Rightarrow> claim list \<Rightarrow> uuid \<Rightarrow> dispatch_item list \<Rightarrow> dispatch_plan" where
  "plan_values h p profile trace_id tenant_id created_at claims plan_id items =
     \<lparr>t4_trace_id = trace_id, t4_tenant_id = tenant_id, t4_version_cas = 1,
      t4_record_sha256 = [], t4_created_at = created_at,
      dp_dispatch_plan_id = plan_id, dp_verification_id = cl_verification_id (hd claims),
      dp_claim_ids = map cl_claim_id claims, dp_items = items,
      dp_max_parallelism = parallelism_of p profile,
      dp_policy_version = dy_policy_version p,
      dp_plan_sha256 = c_sha h (DObj
        [(''dispatch_plan_id'', DStr plan_id),
         (''verification_id'', DStr (cl_verification_id (hd claims))),
         (''claim_ids'', DList (map (\<lambda>c. DStr (cl_claim_id c)) claims)),
         (''items'', DList (map (full_doc dispatch_item_doc) items)),
         (''max_parallelism'', DInt (parallelism_of p profile)),
         (''policy_version'', DStr (dy_policy_version p))])\<rparr>"

definition dispatch_plan_of ::
  "hash_env \<Rightarrow> dispatch_policy \<Rightarrow> verification_profile \<Rightarrow> string \<Rightarrow> tenant \<Rightarrow> timestamp
     \<Rightarrow> claim list \<Rightarrow> claim_risk list \<Rightarrow> dispatch_error + dispatch_plan" where
  "dispatch_plan_of h p profile trace_id tenant_id created_at claims risks =
     (let plan_id = plan_id_of h p profile tenant_id claims
      in rbind (guard (claims \<noteq> []) (Dispatch_plan_error ''dispatch requires at least one claim''))
           (\<lambda>_.
         rbind (guard (set (map rk_claim_id risks) = set (map cl_claim_id claims))
           (Dispatch_plan_error ''every claim must have exactly one risk assessment'')) (\<lambda>_.
         rbind (lift_record_error
             (planned_items h plan_id trace_id tenant_id created_at claims risks)) (\<lambda>items.
         rbind (execution_waves items) (\<lambda>_.
         lift_record_error (build_topic4_record h dispatch_plan_doc valid_dispatch_plan
           (plan_values h p profile trace_id tenant_id created_at claims plan_id items)))))))"

subsection \<open>Layering the dependency graph\<close>

text \<open>
  What a list of waves is: every item of a wave depends on earlier ones only, and no later item
  could have been in it.
\<close>

fun wave_order :: "(uuid \<Rightarrow> uuid list) \<Rightarrow> uuid set \<Rightarrow> uuid list list \<Rightarrow> bool" where
  "wave_order deps done [] = True"
| "wave_order deps done (w # ws) =
     (w \<noteq> [] \<and> sorted w \<and> (\<forall>i\<in>set w. set (deps i) \<subseteq> done)
      \<and> (\<forall>i\<in>set (concat ws). \<not> set (deps i) \<subseteq> done) \<and> wave_order deps (done \<union> set w) ws)"

lemma wave_ids_sound:
  assumes "wave_ids deps remaining completed = Inr ws" "distinct remaining"
  shows "distinct (concat ws) \<and> set (concat ws) = set remaining
     \<and> wave_order deps (set completed) ws"
  using assms
proof (induction deps remaining completed arbitrary: ws rule: wave_ids.induct)
  case (1 deps remaining completed)
  show ?case
  proof (cases "remaining = []")
    case True
    then show ?thesis using "1.prems" by auto
  next
    case False
    let ?ready = "sort (filter (\<lambda>i. list_all (\<lambda>d. d \<in> set completed) (deps i)) remaining)"
    let ?rest = "filter (\<lambda>i. i \<notin> set ?ready) remaining"
    from "1.prems"(1) False have ready: "?ready \<noteq> []"
      by (auto simp: wave_ids.simps [of deps remaining completed] Let_def split: if_splits)
    with "1.prems"(1) False obtain us
      where us: "wave_ids deps ?rest (completed @ ?ready) = Inr us" and ws: "ws = ?ready # us"
      by (simp add: wave_ids.simps [of deps remaining completed] Let_def rbind_Inr_iff) blast
    from "1.IH" [OF False refl ready us] "1.prems"(2)
    have IH: "distinct (concat us)" "set (concat us) = set ?rest"
        "wave_order deps (set (completed @ ?ready)) us"
      by simp_all
    have "distinct ?ready" using "1.prems"(2) by simp
    moreover have "set ?ready \<inter> set (concat us) = {}" using IH(2) by auto
    moreover have "\<forall>i\<in>set ?ready. set (deps i) \<subseteq> set completed"
      by (auto simp: list_all_iff)
    moreover have "\<forall>i\<in>set (concat us). \<not> set (deps i) \<subseteq> set completed"
      unfolding IH(2) by (auto simp: list_all_iff)
    moreover have "set ?ready \<union> set ?rest = set remaining" by auto
    ultimately show ?thesis
      using IH ready unfolding ws by (simp only: concat.simps set_append distinct_append
          wave_order.simps sorted_sort) simp
  qed
qed

lemma wave_ids_complete:
  assumes "\<forall>i\<in>set remaining. set (deps i) \<subseteq> set remaining \<union> set completed"
    and "acyclic {(d, i). i \<in> set remaining \<and> d \<in> set (deps i)}"
  shows "\<exists>ws. wave_ids deps remaining completed = Inr ws"
  using assms
proof (induction deps remaining completed rule: wave_ids.induct)
  case (1 deps remaining completed)
  show ?case
  proof (cases "remaining = []")
    case True
    then show ?thesis by simp
  next
    case False
    let ?rel = "{(d, i). i \<in> set remaining \<and> d \<in> set (deps i)}"
    let ?ready = "sort (filter (\<lambda>i. list_all (\<lambda>d. d \<in> set completed) (deps i)) remaining)"
    let ?rest = "filter (\<lambda>i. i \<notin> set ?ready) remaining"
    have "?rel \<subseteq> (\<Union>i\<in>set remaining. set (deps i) \<times> {i})" by auto
    moreover have "finite (\<Union>i\<in>set remaining. set (deps i) \<times> {i})" by simp
    ultimately have "finite ?rel" by (rule finite_subset)
    with "1.prems"(2) have "wf ?rel" by (simp add: finite_acyclic_wf)
    moreover have "hd remaining \<in> set remaining" using False by simp
    ultimately obtain z where z: "z \<in> set remaining" "\<forall>y. (y, z) \<in> ?rel \<longrightarrow> y \<notin> set remaining"
      by (rule wfE_min) blast
    then have "set (deps z) \<subseteq> set completed" using "1.prems"(1) by blast
    with z(1) have "z \<in> set ?ready" by (simp add: list_all_iff subset_iff)
    then have ready: "?ready \<noteq> []" by (metis empty_iff empty_set)
    have "\<forall>i\<in>set ?rest. set (deps i) \<subseteq> set ?rest \<union> set (completed @ ?ready)"
      using "1.prems"(1) by auto
    moreover have "acyclic {(d, i). i \<in> set ?rest \<and> d \<in> set (deps i)}"
      using "1.prems"(2) by (rule acyclic_subset) auto
    ultimately obtain us where "wave_ids deps ?rest (completed @ ?ready) = Inr us"
      using "1.IH" [OF False refl ready] by blast
    then show ?thesis using False ready by (simp add: wave_ids.simps [of deps remaining completed] Let_def)
  qed
qed

lemma wave_ids_errors: "wave_ids deps remaining completed = Inl e \<Longrightarrow> e = cycle_error"
proof (induction deps remaining completed rule: wave_ids.induct)
  case (1 deps remaining completed)
  let ?ready = "sort (filter (\<lambda>i. list_all (\<lambda>d. d \<in> set completed) (deps i)) remaining)"
  show ?case
  proof (cases "remaining = [] \<or> ?ready = []")
    case True
    then show ?thesis
      using "1.prems" by (auto simp: wave_ids.simps [of deps remaining completed] Let_def split: if_splits)
  next
    case False
    then have "wave_ids deps (filter (\<lambda>i. i \<notin> set ?ready) remaining) (completed @ ?ready) = Inl e"
      using "1.prems" by (simp add: wave_ids.simps [of deps remaining completed] Let_def rbind_Inl_iff)
    with False show ?thesis using "1.IH" [OF _ refl] by blast
  qed
qed

text \<open>A set of items that all wait for one another is never scheduled.\<close>

lemma wave_ids_stuck:
  assumes "S \<noteq> {}" "S \<subseteq> set remaining" "S \<inter> set completed = {}"
    and "\<forall>i\<in>S. \<exists>d\<in>set (deps i). d \<in> S"
  shows "\<exists>e. wave_ids deps remaining completed = Inl e"
  using assms
proof (induction deps remaining completed rule: wave_ids.induct)
  case (1 deps remaining completed)
  let ?ready = "sort (filter (\<lambda>i. list_all (\<lambda>d. d \<in> set completed) (deps i)) remaining)"
  from "1.prems" have ne: "remaining \<noteq> []" by auto
  show ?case
  proof (cases "?ready = []")
    case True
    then show ?thesis using ne by (simp add: wave_ids.simps [of deps remaining completed])
  next
    case False
    have disj: "S \<inter> set ?ready = {}"
    proof -
      have "i \<notin> set ?ready" if "i \<in> S" for i
        using that "1.prems"(3,4) by (simp add: list_all_iff) blast
      then show ?thesis by blast
    qed
    then have "S \<subseteq> set (filter (\<lambda>i. i \<notin> set ?ready) remaining)"
      using "1.prems"(2) by auto
    moreover have "S \<inter> set (completed @ ?ready) = {}" using disj "1.prems"(3) by auto
    ultimately obtain e where
        "wave_ids deps (filter (\<lambda>i. i \<notin> set ?ready) remaining) (completed @ ?ready) = Inl e"
      using "1.IH" [OF ne refl False "1.prems"(1)] "1.prems"(4) by blast
    then show ?thesis using ne False by (simp add: wave_ids.simps [of deps remaining completed] Let_def)
  qed
qed

lemma cyclic_set:
  assumes "\<not> acyclic {(d, i). i \<in> A \<and> d \<in> f i}"
  shows "\<exists>S. S \<noteq> {} \<and> S \<subseteq> A \<and> (\<forall>i\<in>S. \<exists>d\<in>f i. d \<in> S)"
proof -
  let ?r = "{(d, i). i \<in> A \<and> d \<in> f i}"
  define S where "S = {y. (y, y) \<in> ?r\<^sup>+}"
  have S: "(\<exists>d\<in>f i. d \<in> S) \<and> i \<in> A" if "i \<in> S" for i
  proof -
    from that have "(i, i) \<in> ?r\<^sup>+" by (simp add: S_def)
    then obtain d where d: "(i, d) \<in> ?r\<^sup>*" "(d, i) \<in> ?r" by (meson tranclD2)
    then have "(d, d) \<in> ?r\<^sup>+" by (meson rtrancl_into_trancl2)
    then have "d \<in> S" by (simp add: S_def)
    with d(2) show ?thesis by blast
  qed
  have "S \<noteq> {}" using assms unfolding acyclic_def S_def by blast
  with S show ?thesis by blast
qed

lemma wave_order_split:
  assumes "wave_order deps D (us @ w # vs)"
  shows "w \<noteq> [] \<and> sorted w \<and> (\<forall>i\<in>set w. set (deps i) \<subseteq> D \<union> set (concat us))
     \<and> (\<forall>i\<in>set (concat vs). \<not> set (deps i) \<subseteq> D \<union> set (concat us))"
  using assms
proof (induction us arbitrary: D)
  case (Cons u us)
  then have "wave_order deps (D \<union> set u) (us @ w # vs)" by simp
  from Cons.IH [OF this] show ?case by (simp add: Un_assoc)
qed auto

subsection \<open>Correctness of the waves\<close>

abbreviation item_ids :: "dispatch_item list \<Rightarrow> uuid set" where
  "item_ids items \<equiv> set (map di_dispatch_item_id items)"

text \<open>The edges of the dependency graph, from a dependency to the item that needs it.\<close>

definition dependency_edges :: "dispatch_item list \<Rightarrow> (uuid \<times> uuid) set" where
  "dependency_edges items =
     {(d, i). \<exists>item\<in>set items. i = di_dispatch_item_id item \<and> d \<in> set (di_dependency_item_ids item)}"

definition dependencies_known :: "dispatch_item list \<Rightarrow> bool" where
  "dependencies_known items \<longleftrightarrow>
     list_all (\<lambda>item. set (di_dependency_item_ids item) \<subseteq> item_ids items) items"

definition item_deps :: "dispatch_item list \<Rightarrow> uuid \<Rightarrow> uuid list" where
  "item_deps items i = di_dependency_item_ids (the (dict_by di_dispatch_item_id items i))"

lemma card_ids_iff:
  "card (item_ids items) = length items \<longleftrightarrow> distinct (map di_dispatch_item_id items)"
  using card_distinct [of "map di_dispatch_item_id items"]
    distinct_card [of "map di_dispatch_item_id items"] by auto

lemma execution_waves_alt:
  "execution_waves items =
     (if \<not> distinct (map di_dispatch_item_id items) then Inl duplicate_error
      else if \<not> dependencies_known items then Inl unknown_error
      else rbind (wave_ids (item_deps items) (map di_dispatch_item_id items) [])
             (\<lambda>waves. Inr (map (map (\<lambda>i. the (dict_by di_dispatch_item_id items i))) waves)))"
proof -
  have "list_all (\<lambda>item. list_all (\<lambda>d. d \<in> item_ids items) (di_dependency_item_ids item)) items
      = dependencies_known items"
    by (simp add: dependencies_known_def list_all_iff subset_eq)
  then show ?thesis
    unfolding execution_waves_def Let_def item_deps_def [abs_def]
    by (simp add: card_ids_iff guard_def distinct_remdups_id del: set_map)
qed

lemma item_deps_edges:
  assumes "distinct (map di_dispatch_item_id items)" "item \<in> set items"
  shows "item_deps items (di_dispatch_item_id item) = di_dependency_item_ids item"
  using dict_by_distinct [OF assms] by (simp add: item_deps_def)

lemma edges_of_deps:
  assumes "distinct (map di_dispatch_item_id items)"
  shows "dependency_edges items = {(d, i). i \<in> item_ids items \<and> d \<in> set (item_deps items i)}"
  using item_deps_edges [OF assms] by (force simp: dependency_edges_def)

lemma waves_sound:
  assumes "execution_waves items = Inr ws"
  shows "mset (concat ws) = mset items"
    and "ws = us @ w # vs \<Longrightarrow> w \<noteq> [] \<and> sorted (map di_dispatch_item_id w)
      \<and> (\<forall>i\<in>set w. set (di_dependency_item_ids i) \<subseteq> item_ids (concat us))
      \<and> (\<forall>i\<in>set (concat vs). \<not> set (di_dependency_item_ids i) \<subseteq> item_ids (concat us))"
proof -
  let ?pick = "\<lambda>i. the (dict_by di_dispatch_item_id items i)"
  from assms obtain ids where dist: "distinct (map di_dispatch_item_id items)"
    and ids: "wave_ids (item_deps items) (map di_dispatch_item_id items) [] = Inr ids"
    and ws: "ws = map (map ?pick) ids"
    by (auto simp: execution_waves_alt rbind_Inr_iff split: if_splits)
  from wave_ids_sound [OF ids dist] have snd: "distinct (concat ids)"
      "set (concat ids) = item_ids items" "wave_order (item_deps items) {} ids"
    by simp_all
  have pick: "?pick i \<in> set items \<and> di_dispatch_item_id (?pick i) = i" if "i \<in> item_ids items" for i
    using that dict_by_ex [of i di_dispatch_item_id items] by auto
  have unpick: "map di_dispatch_item_id (map ?pick js) = js" if "set js \<subseteq> item_ids items" for js
    using that pick by (simp add: map_idI subset_iff)
  have sub: "set js \<subseteq> item_ids items" if "js \<in> set ids" for js
    using that snd(2) by auto
  have cunpick: "map di_dispatch_item_id (concat (map (map ?pick) jss)) = concat jss"
    if "set jss \<subseteq> set ids" for jss
    using that sub by (induction jss) (simp_all add: unpick [simplified])
  have cw: "map di_dispatch_item_id (concat ws) = concat ids"
    unfolding ws by (rule cunpick) simp
  have "set (concat ws) = set items"
  proof
    have "?pick i \<in> set items" if "i \<in> set (concat ids)" for i
      using that snd(2) pick by blast
    then show "set (concat ws) \<subseteq> set items" by (auto simp: ws)
    have "item \<in> set (concat ws)" if "item \<in> set items" for item
    proof -
      have "?pick (di_dispatch_item_id item) = item"
        using dict_by_distinct [OF dist that] by simp
      moreover have "di_dispatch_item_id item \<in> set (concat ids)" using that snd(2) by simp
      then have "?pick (di_dispatch_item_id item) \<in> ?pick ` set (concat ids)" by (rule imageI)
      moreover have "?pick ` set (concat ids) = set (concat ws)" by (simp add: ws image_UN)
      ultimately show ?thesis by simp
    qed
    then show "set items \<subseteq> set (concat ws)" by blast
  qed
  moreover have "distinct (concat ws)" using snd(1) cw distinct_map [of di_dispatch_item_id "concat ws"] by simp
  moreover have "distinct items" using dist by (simp add: distinct_map)
  ultimately show mset: "mset (concat ws) = mset items"
    using set_eq_iff_mset_eq_distinct by blast
  show "w \<noteq> [] \<and> sorted (map di_dispatch_item_id w)
      \<and> (\<forall>i\<in>set w. set (di_dependency_item_ids i) \<subseteq> item_ids (concat us))
      \<and> (\<forall>i\<in>set (concat vs). \<not> set (di_dependency_item_ids i) \<subseteq> item_ids (concat us))"
    if split: "ws = us @ w # vs"
  proof -
    from split obtain us' w' vs' where s: "ids = us' @ w' # vs'"
        "us = map (map ?pick) us'" "w = map ?pick w'" "vs = map (map ?pick) vs'"
      unfolding ws by (auto simp: map_eq_append_conv map_eq_Cons_conv)
    from wave_order_split [OF snd(3) [unfolded s(1)]]
    have o: "w' \<noteq> [] \<and> sorted w' \<and> (\<forall>i\<in>set w'. set (item_deps items i) \<subseteq> set (concat us'))
       \<and> (\<forall>i\<in>set (concat vs'). \<not> set (item_deps items i) \<subseteq> set (concat us'))"
      by simp
    have b1: "map di_dispatch_item_id w = w'"
      using unpick [OF sub [of w']] s by simp
    have "map di_dispatch_item_id (concat us) = concat us'"
      unfolding s(2) by (rule cunpick) (auto simp: s(1))
    then have b2: "item_ids (concat us) = set (concat us')" by (simp only:)
    have d: "di_dependency_item_ids (?pick i) = item_deps items i" for i
      by (simp add: item_deps_def)
    have "set (concat vs) = ?pick ` set (concat vs')" by (simp add: s(4) image_UN)
    then show ?thesis using o b1 unfolding b2 s(3) by (auto simp: d)
  qed
qed

text \<open>
  C4.  \<^verbatim>\<open>execution_waves\<close> returns a permutation of the items cut into non-empty waves sorted by
  identifier, such that every dependency of an item lies in an earlier wave, and every item that
  comes later than a wave had to: some dependency of it is not among the waves before that one.
\<close>

theorem execution_waves_correct:
  assumes "execution_waves items = Inr ws"
  shows "mset (concat ws) = mset items
     \<and> (\<forall>us w vs. ws = us @ w # vs \<longrightarrow> w \<noteq> [] \<and> sorted (map di_dispatch_item_id w)
          \<and> (\<forall>i\<in>set w. set (di_dependency_item_ids i) \<subseteq> item_ids (concat us))
          \<and> (\<forall>i\<in>set (concat vs). \<not> set (di_dependency_item_ids i) \<subseteq> item_ids (concat us)))"
  using waves_sound(1) [OF assms] waves_sound(2) [OF assms] by blast

definition sample_item :: "uuid \<Rightarrow> verification_module \<Rightarrow> uuid list \<Rightarrow> dispatch_item" where
  "sample_item i m ds =
     \<lparr>t4_trace_id = replicate 16 (CHR ''a''), t4_tenant_id = ''tenant-1'', t4_version_cas = 1,
      t4_record_sha256 = replicate 64 (CHR ''a''), t4_created_at = 0, di_dispatch_item_id = i,
      di_claim_id = ''claim-1'', di_module = m, di_required = True, di_priority = 500,
      di_dependency_item_ids = ds, di_timeout_ms = 2000, di_max_attempts = 2\<rparr>"

lemma sample_waves:
  "execution_waves [sample_item ''b'' C9_SECURITY [''a''], sample_item ''a'' C2_RAG []]
     = Inr [[sample_item ''a'' C2_RAG []], [sample_item ''b'' C9_SECURITY [''a'']]]"
  by code_simp

theorem execution_waves_correct_witness:
  "mset (concat [[sample_item ''a'' C2_RAG []], [sample_item ''b'' C9_SECURITY [''a'']]])
     = mset [sample_item ''b'' C9_SECURITY [''a''], sample_item ''a'' C2_RAG []]"
  using execution_waves_correct [OF sample_waves] by blast

lemma waves_exist_iff:
  assumes "distinct (map di_dispatch_item_id items)" "dependencies_known items"
  shows "(\<exists>ws. execution_waves items = Inr ws) \<longleftrightarrow> acyclic (dependency_edges items)"
proof
  assume a: "acyclic (dependency_edges items)"
  have "set (item_deps items i) \<subseteq> item_ids items" if "i \<in> item_ids items" for i
    using that assms item_deps_edges [OF assms(1)]
    by (fastforce simp: dependencies_known_def list_all_iff)
  with a show "\<exists>ws. execution_waves items = Inr ws"
    using wave_ids_complete [of "map di_dispatch_item_id items" "item_deps items" "[]"] assms
    by (auto simp: edges_of_deps execution_waves_alt)
next
  assume "\<exists>ws. execution_waves items = Inr ws"
  then obtain ids where "wave_ids (item_deps items) (map di_dispatch_item_id items) [] = Inr ids"
    using assms by (auto simp: execution_waves_alt rbind_Inr_iff)
  then have none: False
    if "S \<noteq> {}" "S \<subseteq> item_ids items" "\<forall>i\<in>S. \<exists>d\<in>set (item_deps items i). d \<in> S" for S
    using wave_ids_stuck [OF that(1) that(2) _ that(3), of "[]"] by simp
  show "acyclic (dependency_edges items)"
  proof (rule ccontr)
    assume "\<not> acyclic (dependency_edges items)"
    from cyclic_set [OF this [unfolded edges_of_deps [OF assms(1)]]] show False using none by blast
  qed
qed

text \<open>
  \<^verbatim>\<open>execution_waves\<close> always returns, and its outcome is decided by the graph alone: a repeated
  identifier, an unknown dependency and a cycle give their own errors, in this order, and every
  other plan has waves.
\<close>

theorem execution_waves_outcome:
  "(if \<not> distinct (map di_dispatch_item_id items) then execution_waves items = Inl duplicate_error
    else if \<not> dependencies_known items then execution_waves items = Inl unknown_error
    else if \<not> acyclic (dependency_edges items) then execution_waves items = Inl cycle_error
    else \<exists>ws. execution_waves items = Inr ws)"
proof -
  have "\<exists>e. execution_waves items = Inl e \<and> e = cycle_error"
    if "distinct (map di_dispatch_item_id items)" "dependencies_known items"
      "\<not> acyclic (dependency_edges items)"
  proof -
    from waves_exist_iff [OF that(1,2)] that(3) obtain e where e: "execution_waves items = Inl e"
      by (cases "execution_waves items") auto
    then have "wave_ids (item_deps items) (map di_dispatch_item_id items) [] = Inl e"
      using that(1,2) by (simp add: execution_waves_alt rbind_Inl_iff)
    with wave_ids_errors e show ?thesis by blast
  qed
  then show ?thesis
    using waves_exist_iff [of items] by (auto simp: execution_waves_alt)
qed

subsection \<open>The planned items\<close>

lemma item_id_deps:
  "dependencies_of m (map_of (map (\<lambda>m. (m, f m)) ms)) =
     (if m = C2_RAG \<or> C2_RAG \<notin> set ms then [] else [f C2_RAG])"
proof -
  have "map_of (map (\<lambda>m. (m, f m)) ms) C2_RAG = (if C2_RAG \<in> set ms then Some (f C2_RAG) else None)"
    by (induction ms) auto
  then show ?thesis by (cases m) (simp_all add: dependencies_of_def)
qed

lemma priority_bounds: "410 \<le> priority_of l m \<and> priority_of l m \<le> 950"
  by (auto simp: priority_of_def Let_def split: risk_level.split)

lemma claim_item_fields:
  assumes "claim_item h plan_id trace tenant now claim risk ids m = Inr i"
  shows "di_dispatch_item_id i = item_id_of h tenant plan_id (cl_claim_id claim) m"
    and "di_claim_id i = cl_claim_id claim" and "di_module i = m"
    and "di_dependency_item_ids i = dependencies_of m ids"
    and "di_priority i = priority_of (rk_level risk) m"
    and "valid_dispatch_item i" and "record_integrity_valid h dispatch_item_doc i"
  using dispatch_item_seal.build_seals [OF assms [unfolded claim_item_def]] by simp_all

lemma claim_items_fields:
  assumes "claim_items h plan_id trace tenant now claim risk = Inr is"
  shows "map di_module is = rk_mandatory_modules risk"
    and "i \<in> set is \<Longrightarrow> di_claim_id i = cl_claim_id claim
      \<and> di_dispatch_item_id i = item_id_of h tenant plan_id (cl_claim_id claim) (di_module i)
      \<and> di_dependency_item_ids i =
          (if di_module i = C2_RAG \<or> C2_RAG \<notin> set (rk_mandatory_modules risk) then []
           else [item_id_of h tenant plan_id (cl_claim_id claim) C2_RAG])
      \<and> di_priority i = priority_of (rk_level risk) (di_module i)"
proof -
  let ?ids = "map_of (map (\<lambda>m. (m, item_id_of h tenant plan_id (cl_claim_id claim) m))
                              (rk_mandatory_modules risk))"
  have mm: "map_ok (claim_item h plan_id trace tenant now claim risk ?ids)
      (rk_mandatory_modules risk) = Inr is"
    using assms by (simp add: claim_items_def Let_def)
  then have "list_all2 (\<lambda>m i. claim_item h plan_id trace tenant now claim risk ?ids m = Inr i)
      (rk_mandatory_modules risk) is"
    by (simp add: map_ok_Inr_iff)
  then show "map di_module is = rk_mandatory_modules risk"
    by (induction rule: list_all2_induct) (simp_all add: claim_item_fields(3))
  assume "i \<in> set is"
  from map_ok_set [OF mm this] obtain m
    where i: "claim_item h plan_id trace tenant now claim risk ?ids m = Inr i" by blast
  show "di_claim_id i = cl_claim_id claim
      \<and> di_dispatch_item_id i = item_id_of h tenant plan_id (cl_claim_id claim) (di_module i)
      \<and> di_dependency_item_ids i =
          (if di_module i = C2_RAG \<or> C2_RAG \<notin> set (rk_mandatory_modules risk) then []
           else [item_id_of h tenant plan_id (cl_claim_id claim) C2_RAG])
      \<and> di_priority i = priority_of (rk_level risk) (di_module i)"
    using claim_item_fields [OF i] by (simp add: item_id_deps)
qed

text \<open>The risk that the planner looks up for a claim is the one the scorer made for it.\<close>

lemma scored_fields:
  assumes "score_claim h search p profile trace tenant now claim = Inr r"
  shows "rk_claim_id r = cl_claim_id claim"
    and "rk_mandatory_modules r = mandatory_modules (cl_claim_kind claim)"
  using claim_risk_seal.build_seals(3) [OF assms [unfolded score_claim_def Let_def]] by simp_all

lemma scored_lookup:
  assumes "score_all h search p profile trace tenant now claims = Inr risks"
    and "distinct (map cl_claim_id claims)" and "claim \<in> set claims"
  shows "\<exists>r. dict_by rk_claim_id risks (cl_claim_id claim) = Some r
     \<and> score_claim h search p profile trace tenant now claim = Inr r"
proof -
  have l: "list_all2 (\<lambda>c r. score_claim h search p profile trace tenant now c = Inr r) claims risks"
    using assms(1) by (simp add: score_all_def map_ok_Inr_iff)
  then have ids: "map rk_claim_id risks = map cl_claim_id claims"
    by (induction rule: list_all2_induct) (simp_all add: scored_fields)
  from l assms(3) obtain r
    where r: "r \<in> set risks" "score_claim h search p profile trace tenant now claim = Inr r"
    by (induction rule: list_all2_induct) auto
  have "distinct (map rk_claim_id risks)" using ids assms(2) by simp
  from dict_by_distinct [OF this r(1)] have "dict_by rk_claim_id risks (cl_claim_id claim) = Some r"
    by (simp add: scored_fields [OF r(2)])
  with r(2) show ?thesis by blast
qed

lemma scored_risk:
  assumes "score_all h search p profile trace tenant now claims = Inr risks"
    and "distinct (map cl_claim_id claims)" and "claim \<in> set claims"
  shows "rk_mandatory_modules (the (dict_by rk_claim_id risks (cl_claim_id claim)))
     = mandatory_modules (cl_claim_kind claim)"
  using scored_lookup [OF assms] scored_fields(2) by fastforce

text \<open>What the planned items of scored claims look like, before any wave is computed.\<close>

definition planned_shape :: "hash_env \<Rightarrow> tenant \<Rightarrow> uuid \<Rightarrow> claim list \<Rightarrow> dispatch_item list \<Rightarrow> bool" where
  "planned_shape h tenant plan_id claims items \<longleftrightarrow>
     mset (map (\<lambda>i. (di_claim_id i, di_module i)) items)
       = mset (concat (map (\<lambda>c. map (\<lambda>m. (cl_claim_id c, m)) (mandatory_modules (cl_claim_kind c))) claims))
     \<and> list_all (\<lambda>i. di_dispatch_item_id i = item_id_of h tenant plan_id (di_claim_id i) (di_module i)
          \<and> di_dependency_item_ids i =
             (if di_module i = C2_RAG then [] else [item_id_of h tenant plan_id (di_claim_id i) C2_RAG]))
         items"

lemma C2_mandatory: "C2_RAG \<in> set (mandatory_modules k)"
  by (simp add: mandatory_modules_def)

lemma planned_items_shape:
  assumes "planned_items h plan_id trace tenant now claims risks = Inr items"
    and "\<forall>c\<in>set claims. rk_mandatory_modules (the (dict_by rk_claim_id risks (cl_claim_id c)))
           = mandatory_modules (cl_claim_kind c)"
  shows "planned_shape h tenant plan_id claims items" and "sorted (map item_key items)"
proof -
  let ?step = "\<lambda>c. claim_items h plan_id trace tenant now c
                  (the (dict_by rk_claim_id risks (cl_claim_id c)))"
  from assms(1) obtain groups where groups: "map_ok ?step claims = Inr groups"
    and items: "items = sort_key item_key (concat groups)"
    by (auto simp: planned_items_def Let_def rbind_Inr_iff)
  show "sorted (map item_key items)" by (simp add: items)
  from groups have l2: "list_all2 (\<lambda>c g. ?step c = Inr g) claims groups"
    by (simp add: map_ok_Inr_iff)
  have "list_all2 (\<lambda>c g. map (\<lambda>i. (di_claim_id i, di_module i)) g
      = map (\<lambda>m. (cl_claim_id c, m)) (mandatory_modules (cl_claim_kind c))) claims groups"
    using l2
  proof (rule list_all2_mono [OF list.rel_mono_strong])
    fix c g assume "c \<in> set claims" "g \<in> set groups" and g: "?step c = Inr g"
    have "map (\<lambda>i. (di_claim_id i, di_module i)) g = map (\<lambda>i. (cl_claim_id c, di_module i)) g"
      using claim_items_fields(2) [OF g] by simp
    also have "\<dots> = map (\<lambda>m. (cl_claim_id c, m)) (map di_module g)" by simp
    finally show "map (\<lambda>i. (di_claim_id i, di_module i)) g
      = map (\<lambda>m. (cl_claim_id c, m)) (mandatory_modules (cl_claim_kind c))"
      using claim_items_fields(1) [OF g] assms(2) \<open>c \<in> set claims\<close> by simp
  qed simp
  then have pairs: "map (\<lambda>i. (di_claim_id i, di_module i)) (concat groups)
      = concat (map (\<lambda>c. map (\<lambda>m. (cl_claim_id c, m)) (mandatory_modules (cl_claim_kind c))) claims)"
    by (induction rule: list_all2_induct) simp_all
  have "di_dispatch_item_id i = item_id_of h tenant plan_id (di_claim_id i) (di_module i)
      \<and> di_dependency_item_ids i = (if di_module i = C2_RAG then []
          else [item_id_of h tenant plan_id (di_claim_id i) C2_RAG])" if "i \<in> set items" for i
  proof -
    from that obtain g where "g \<in> set groups" "i \<in> set g" by (auto simp: items)
    moreover from map_ok_set [OF groups this(1)] obtain c where "c \<in> set claims" "?step c = Inr g"
      by blast
    ultimately show ?thesis
      using claim_items_fields(2) [of h plan_id trace tenant now c _ g i] assms(2) C2_mandatory by simp
  qed
  moreover have "mset (map (\<lambda>i. (di_claim_id i, di_module i)) items)
      = mset (map (\<lambda>i. (di_claim_id i, di_module i)) (concat groups))"
    by (simp add: items)
  ultimately show "planned_shape h tenant plan_id claims items"
    by (simp only: planned_shape_def list_all_iff pairs) simp
qed

text \<open>Items of this shape have two waves: retrieval, then everything else.\<close>

lemma shape_mem:
  assumes "planned_shape h tenant plan_id claims items"
  shows "(\<exists>i\<in>set items. di_claim_id i = c \<and> di_module i = m)
     \<longleftrightarrow> (\<exists>claim\<in>set claims. c = cl_claim_id claim \<and> m \<in> set (mandatory_modules (cl_claim_kind claim)))"
proof -
  have "set (map (\<lambda>i. (di_claim_id i, di_module i)) items)
     = set (concat (map (\<lambda>c. map (\<lambda>m. (cl_claim_id c, m)) (mandatory_modules (cl_claim_kind c))) claims))"
    using assms unfolding planned_shape_def by (intro mset_eq_setD) blast
  then have "(c, m) \<in> set (map (\<lambda>i. (di_claim_id i, di_module i)) items) \<longleftrightarrow>
     (c, m) \<in> set (concat (map (\<lambda>c. map (\<lambda>m. (cl_claim_id c, m))
        (mandatory_modules (cl_claim_kind c))) claims))"
    by (rule arg_cong)
  then show ?thesis by (auto simp: image_iff)
qed

lemma shape_two_waves:
  assumes shape: "planned_shape h tenant plan_id claims items" and "claims \<noteq> []"
    and waves: "execution_waves items = Inr ws"
  shows "\<exists>rag rest. ws = [rag, rest] \<and> set rag = {i \<in> set items. di_module i = C2_RAG}
     \<and> set rest = {i \<in> set items. di_module i \<noteq> C2_RAG}"
proof -
  have deps: "di_dependency_item_ids i = (if di_module i = C2_RAG then []
      else [item_id_of h tenant plan_id (di_claim_id i) C2_RAG])"
    and ident: "di_dispatch_item_id i = item_id_of h tenant plan_id (di_claim_id i) (di_module i)"
    if "i \<in> set items" for i
    using shape that by (simp_all add: planned_shape_def list_all_iff)
  have rag_of: "\<exists>j\<in>set items. di_module j = C2_RAG \<and> di_claim_id j = di_claim_id i"
    if "i \<in> set items" for i
    using shape_mem [OF shape] that C2_mandatory by blast
  have "C9_SECURITY \<in> set (mandatory_modules (cl_claim_kind (hd claims)))"
    by (simp add: mandatory_modules_def)
  then have "\<exists>i\<in>set items. di_claim_id i = cl_claim_id (hd claims) \<and> di_module i = C9_SECURITY"
    using shape_mem [OF shape] hd_in_set [OF assms(2)] by blast
  then obtain b where ab: "b \<in> set items" "di_module b \<noteq> C2_RAG" by auto
  have all: "set (concat ws) = set items"
    using waves_sound(1) [OF waves] by (metis set_mset_mset)
  with ab obtain rag vs where ws: "ws = rag # vs" by (cases ws) auto
  from waves_sound(2) [OF waves, of "[]" rag vs] ws
  have first: "\<forall>i\<in>set rag. di_dependency_item_ids i = []"
      "\<forall>i\<in>set (concat vs). di_dependency_item_ids i \<noteq> []"
    by auto
  have rag: "set rag = {i \<in> set items. di_module i = C2_RAG}"
    and rest: "set (concat vs) = {i \<in> set items. di_module i \<noteq> C2_RAG}"
  proof -
    have empty: "di_dependency_item_ids i = [] \<longleftrightarrow> di_module i = C2_RAG" if "i \<in> set items" for i
      using deps [OF that] by simp
    have mem: "set items = set rag \<union> set (concat vs)" using all by (simp add: ws)
    show "set rag = {i \<in> set items. di_module i = C2_RAG}"
      "set (concat vs) = {i \<in> set items. di_module i \<noteq> C2_RAG}"
      using first empty mem by blast+
  qed
  with ab obtain rest' us where vs: "vs = rest' # us" by (cases vs) auto
  have "us = []"
  proof (cases us)
    case (Cons u us')
    have late: "\<forall>i\<in>set (concat us). \<not> set (di_dependency_item_ids i) \<subseteq> item_ids (concat [rag])"
      using waves_sound(2) [OF waves, of "[rag]" rest' us] ws vs by simp
    have "u \<noteq> []" using waves_sound(2) [OF waves, of "[rag, rest']" u us'] ws vs Cons by simp
    then obtain i where i: "i \<in> set (concat us)" by (cases u) (auto simp: Cons)
    then have mem: "i \<in> set items" "di_module i \<noteq> C2_RAG" using rest by (auto simp: vs)
    from rag_of [OF mem(1)] obtain j where "j \<in> set rag" "di_claim_id j = di_claim_id i"
        "di_module j = C2_RAG" "j \<in> set items"
      using rag by auto
    then have "di_dependency_item_ids i = [di_dispatch_item_id j]" "j \<in> set rag"
      using deps [OF mem(1)] mem(2) ident [of j] by simp_all
    then have "set (di_dependency_item_ids i) \<subseteq> item_ids (concat [rag])" by simp
    with late i show ?thesis by blast
  qed
  with rag rest show ?thesis unfolding ws vs by simp
qed

lemma plan_parts:
  assumes "dispatch_plan_of h q profile trace tenant now claims risks = Inr plan"
  shows "claims \<noteq> []" "distinct (map cl_claim_id claims)"
    and "planned_items h (plan_id_of h q profile tenant claims) trace tenant now claims risks
           = Inr (dp_items plan)"
    and "\<exists>ws. execution_waves (dp_items plan) = Inr ws"
    and "valid_dispatch_plan plan" "record_integrity_valid h dispatch_plan_doc plan"
proof -
  from assms obtain items ws where *: "claims \<noteq> []"
      "planned_items h (plan_id_of h q profile tenant claims) trace tenant now claims risks = Inr items"
      "execution_waves items = Inr ws"
    and build: "build_topic4_record h dispatch_plan_doc valid_dispatch_plan
        (plan_values h q profile trace tenant now claims (plan_id_of h q profile tenant claims) items)
        = Inr plan"
    by (auto simp: dispatch_plan_of_def Let_def result_iffs lift_record_error_def split: sum.splits)
  note seal = dispatch_plan_seal.build_seals [OF build]
  have f: "dp_items plan = items" "dp_claim_ids plan = map cl_claim_id claims"
    using seal(3) by (simp_all add: plan_values_def)
  show "distinct (map cl_claim_id claims)" using seal(2) f by (simp add: valid_dispatch_plan_def)
  show "claims \<noteq> []" "\<exists>ws. execution_waves (dp_items plan) = Inr ws"
      "planned_items h (plan_id_of h q profile tenant claims) trace tenant now claims risks
           = Inr (dp_items plan)"
      "valid_dispatch_plan plan" "record_integrity_valid h dispatch_plan_doc plan"
    using * f seal by auto
qed

text \<open>
  C5.  A plan made from the scored claims is a valid, sealed contract record; it holds exactly one
  item per claim and mandatory module, ordered by falling priority, then claim, then module; and
  the executor needs two waves for it, all retrieval items first and everything else second.
\<close>

theorem dispatch_plan_sound:
  assumes "score_all h search p prof trace' tenant' now' claims = Inr risks"
    and "dispatch_plan_of h q profile trace tenant now claims risks = Inr plan"
  shows "valid_dispatch_plan plan \<and> record_integrity_valid h dispatch_plan_doc plan
     \<and> sorted (map item_key (dp_items plan))
     \<and> mset (map (\<lambda>i. (di_claim_id i, di_module i)) (dp_items plan))
         = mset (concat (map (\<lambda>c. map (\<lambda>m. (cl_claim_id c, m)) (mandatory_modules (cl_claim_kind c)))
             claims))
     \<and> (\<exists>rag rest. execution_waves (dp_items plan) = Inr [rag, rest]
          \<and> set rag = {i \<in> set (dp_items plan). di_module i = C2_RAG}
          \<and> set rest = {i \<in> set (dp_items plan). di_module i \<noteq> C2_RAG})"
proof -
  note plan = plan_parts [OF assms(2)]
  from planned_items_shape [OF plan(3)] scored_risk [OF assms(1) plan(2)]
  have shape: "planned_shape h tenant (plan_id_of h q profile tenant claims) claims (dp_items plan)"
    and sorted: "sorted (map item_key (dp_items plan))"
    by blast+
  from plan(4) obtain ws where ws: "execution_waves (dp_items plan) = Inr ws" ..
  from shape_two_waves [OF shape plan(1) ws] ws shape sorted plan(5,6) show ?thesis
    unfolding planned_shape_def by blast
qed

lemma module_value_no_colon: "CHR '':'' \<notin> set (module_value m)"
  by (cases m) simp_all

lemma module_value_inj: "module_value m = module_value m' \<Longrightarrow> m = m'"
  by (cases m; cases m') simp_all

lemma split_last_colon:
  assumes "a @ CHR '':'' # s = b @ CHR '':'' # t" "CHR '':'' \<notin> set s" "CHR '':'' \<notin> set t"
  shows "a = b \<and> s = t"
proof -
  have eq: "rev s @ CHR '':'' # rev a = rev t @ CHR '':'' # rev b"
    using arg_cong [OF assms(1), of rev] by simp
  have "takeWhile (\<lambda>c. c \<noteq> CHR '':'') (rev s @ CHR '':'' # rev a) = rev s"
      "takeWhile (\<lambda>c. c \<noteq> CHR '':'') (rev t @ CHR '':'' # rev b) = rev t"
    using assms(2,3) by (subst takeWhile_append2; auto)+
  with eq have "s = t" by simp
  with assms(1) show ?thesis by simp
qed

lemma item_id_inj:
  assumes "inj (c_uuid5 h namespace_url)"
    and "item_id_of h tenant plan_id c m = item_id_of h tenant plan_id c' m'"
  shows "c = c' \<and> m = m'"
proof -
  from assms have "c @ CHR '':'' # module_value m = c' @ CHR '':'' # module_value m'"
    unfolding item_id_of_def by (auto dest: injD)
  from split_last_colon [OF this module_value_no_colon module_value_no_colon] show ?thesis
    using module_value_inj by blast
qed

lemma claim_items_total:
  assumes "inj (c_uuid5 h namespace_url)" "is_trace_id trace" "is_tenant_id tenant"
    and "\<And>d. is_sha256_hex (c_sha h d)"
  shows "\<exists>is. claim_items h plan_id trace tenant now claim risk = Inr is"
proof -
  let ?ids = "map_of (map (\<lambda>m. (m, item_id_of h tenant plan_id (cl_claim_id claim) m))
                              (rk_mandatory_modules risk))"
  have "\<exists>i. claim_item h plan_id trace tenant now claim risk ?ids m = Inr i" for m
  proof -
    let ?id = "item_id_of h tenant plan_id (cl_claim_id claim)"
    have "m \<noteq> C2_RAG \<Longrightarrow> ?id m \<noteq> ?id C2_RAG" using item_id_inj [OF assms(1)] by blast
    moreover have "100 \<le> module_timeout_ms m \<and> module_timeout_ms m \<le> 120000" by (cases m) simp_all
    ultimately show ?thesis
      unfolding claim_item_def dispatch_item_seal.build_succeeds_iff item_id_deps
      using assms(2-4) priority_bounds [of "rk_level risk" m]
      by (simp add: valid_dispatch_item_def valid_topic4_record_def)
  qed
  then have "\<exists>f. \<forall>m. claim_item h plan_id trace tenant now claim risk ?ids m = Inr (f m)"
    by (intro choice) blast
  then show ?thesis unfolding claim_items_def Let_def by (metis map_ok_total)
qed

lemma shape_ids_distinct:
  assumes "planned_shape h tenant plan_id claims items" "inj (c_uuid5 h namespace_url)"
    and "distinct (map cl_claim_id claims)"
  shows "distinct (map di_dispatch_item_id items)"
proof -
  let ?pair = "\<lambda>i. (di_claim_id i, di_module i)"
  have "distinct (concat (map (\<lambda>c. map (\<lambda>m. (cl_claim_id c, m)) (mandatory_modules (cl_claim_kind c)))
      claims))"
    using assms(3)
    by (induction claims) (auto simp: distinct_map mandatory_modules_distinct inj_on_def)
  then have "distinct (map ?pair items)"
    using assms(1) unfolding planned_shape_def by (blast dest: mset_eq_imp_distinct_iff)
  moreover have "map di_dispatch_item_id items
      = map (\<lambda>p. item_id_of h tenant plan_id (fst p) (snd p)) (map ?pair items)"
    using assms(1) by (simp add: planned_shape_def list_all_iff)
  moreover have "inj (\<lambda>p. item_id_of h tenant plan_id (fst p) (snd p))"
    using item_id_inj [OF assms(2)] by (auto simp: inj_def)
  ultimately show ?thesis by (simp only: distinct_map) (blast intro: inj_on_subset)
qed

lemma shape_waves_exist:
  assumes shape: "planned_shape h tenant plan_id claims items"
    and inj: "inj (c_uuid5 h namespace_url)" and "distinct (map cl_claim_id claims)"
  shows "\<exists>ws. execution_waves items = Inr ws"
proof -
  let ?id = "item_id_of h tenant plan_id"
  have item: "di_dispatch_item_id i = ?id (di_claim_id i) (di_module i)"
      "di_dependency_item_ids i = (if di_module i = C2_RAG then [] else [?id (di_claim_id i) C2_RAG])"
    if "i \<in> set items" for i
    using shape that by (simp_all add: planned_shape_def list_all_iff)
  have "set (di_dependency_item_ids i) \<subseteq> item_ids items" if "i \<in> set items" for i
  proof -
    have "\<exists>j\<in>set items. di_claim_id j = di_claim_id i \<and> di_module j = C2_RAG"
      using shape_mem [OF shape] that C2_mandatory by blast
    then obtain j where "j \<in> set items" "di_dispatch_item_id j = ?id (di_claim_id i) C2_RAG"
      using item(1) by auto
    then have "?id (di_claim_id i) C2_RAG \<in> item_ids items" by (metis image_eqI set_map)
    then show ?thesis using item(2) [OF that] by simp
  qed
  then have known: "dependencies_known items" by (simp add: dependencies_known_def list_all_iff)
  define level where "level d = (if \<exists>c. d = ?id c C2_RAG then 0 else 1 :: nat)" for d
  have "(d, i) \<in> measure level" if "(d, i) \<in> dependency_edges items" for d i
  proof -
    from that obtain it where it: "it \<in> set items" "i = di_dispatch_item_id it"
        "d \<in> set (di_dependency_item_ids it)"
      by (auto simp: dependency_edges_def)
    then have "di_module it \<noteq> C2_RAG" "d = ?id (di_claim_id it) C2_RAG"
      using item(2) [OF it(1)] by (auto split: if_splits)
    moreover have "i = ?id (di_claim_id it) (di_module it)" using item(1) it by simp
    ultimately show ?thesis using item_id_inj [OF inj] by (auto simp: level_def)
  qed
  then have "dependency_edges items \<subseteq> measure level" by auto
  then have "acyclic (dependency_edges items)"
    by (meson acyclic_subset wf_acyclic wf_measure)
  with waves_exist_iff [OF shape_ids_distinct [OF assms] known] show ?thesis by blast
qed

lemma planned_valid:
  assumes "planned_items h plan_id trace tenant now claims risks = Inr items"
    and shape: "planned_shape h tenant plan_id claims items"
  shows "length items = 5 * length claims"
    and "list_all (\<lambda>i. di_claim_id i \<in> set (map cl_claim_id claims)) items"
proof -
  let ?pair = "\<lambda>i. (di_claim_id i, di_module i)"
  let ?ps = "concat (map (\<lambda>c. map (\<lambda>m. (cl_claim_id c, m)) (mandatory_modules (cl_claim_kind c)))
      claims)"
  have m: "mset (map ?pair items) = mset ?ps" using shape by (simp add: planned_shape_def)
  have "length (map ?pair items) = length ?ps" by (rule mset_eq_length [OF m])
  moreover have "length ?ps = 5 * length claims"
    by (induction claims) (simp_all add: mandatory_modules_def)
  ultimately show "length items = 5 * length claims" by simp
  have "set (map ?pair items) = set ?ps" by (rule mset_eq_setD [OF m])
  then show "list_all (\<lambda>i. di_claim_id i \<in> set (map cl_claim_id claims)) items"
    unfolding list_all_iff by force
qed

lemma planning_succeeds:
  assumes "claims \<noteq> []" "length claims \<le> 4096" "distinct (map cl_claim_id claims)"
    and "score_all h search p prof trace' tenant' now' claims = Inr risks"
    and "valid_dispatch_policy q" "is_version_string (dy_policy_version q)"
    and "is_trace_id trace" "is_tenant_id tenant"
    and "\<And>d. is_sha256_hex (c_sha h d)" and "inj (c_uuid5 h namespace_url)"
  shows "\<exists>plan. dispatch_plan_of h q profile trace tenant now claims risks = Inr plan
     \<and> length (dp_items plan) = 5 * length claims"
proof -
  let ?plan_id = "plan_id_of h q profile tenant claims"
  have ids: "set (map rk_claim_id risks) = set (map cl_claim_id claims)"
  proof -
    have "list_all2 (\<lambda>c r. score_claim h search p prof trace' tenant' now' c = Inr r) claims risks"
      using assms(4) by (simp add: score_all_def map_ok_Inr_iff)
    then have "map rk_claim_id risks = map cl_claim_id claims"
      by (induction rule: list_all2_induct) (simp_all add: scored_fields)
    then show ?thesis by (rule arg_cong)
  qed
  have "\<exists>groups. map_ok (\<lambda>claim. claim_items h ?plan_id trace tenant now claim
          (the (dict_by rk_claim_id risks (cl_claim_id claim)))) claims = Inr groups"
    using claim_items_total [OF assms(10,7,8,9)] by (intro map_ok_total_ex) blast
  then obtain items where items: "planned_items h ?plan_id trace tenant now claims risks = Inr items"
    by (auto simp: planned_items_def Let_def)
  from planned_items_shape(1) [OF items] scored_risk [OF assms(4,3)]
  have shape: "planned_shape h tenant ?plan_id claims items" by blast
  from shape_waves_exist [OF shape assms(10,3)] obtain ws where ws: "execution_waves items = Inr ws" ..
  then have known: "dependencies_known items" and dist: "distinct (map di_dispatch_item_id items)"
    by (auto simp: execution_waves_alt split: if_splits)
  note pv = planned_valid [OF items shape]
  have par: "1 \<le> parallelism_of q profile \<and> parallelism_of q profile \<le> 32"
    using assms(5) by (cases profile) (simp_all add: parallelism_of_def valid_dispatch_policy_def)
  let ?vals = "plan_values h q profile trace tenant now claims ?plan_id items"
  have "1 \<le> length claims" using assms(1) by (cases claims) simp_all
  then have "\<exists>plan. build_topic4_record h dispatch_plan_doc valid_dispatch_plan ?vals = Inr plan
      \<and> dp_items plan = items"
    unfolding dispatch_plan_seal.build_succeeds_iff
    using assms(2,3,6-9) pv known dist par
    by (simp add: plan_values_def valid_dispatch_plan_def valid_topic4_record_def len_between_def
        dependencies_known_def)
  with assms(1) ids items ws pv(1) show ?thesis
    by (auto simp: dispatch_plan_of_def Let_def lift_record_error_def simp del: set_map)
qed

text \<open>
  Planning succeeds on scored claims: between one and 4096 claims with distinct identifiers
  always get a plan, because the identifiers derived for different claims and modules differ
  (as long as name-based UUIDs do not collide) and the two-level graph has no cycle.
\<close>

theorem planning_total:
  assumes "claims \<noteq> []" "length claims \<le> 4096" "distinct (map cl_claim_id claims)"
    and "score_all h search p prof trace' tenant' now' claims = Inr risks"
    and "valid_dispatch_policy q" "is_version_string (dy_policy_version q)"
    and "is_trace_id trace" "is_tenant_id tenant"
    and "\<And>d. is_sha256_hex (c_sha h d)" and "inj (c_uuid5 h namespace_url)"
  shows "\<exists>plan. dispatch_plan_of h q profile trace tenant now claims risks = Inr plan
     \<and> length (dp_items plan) = 5 * length claims"
  using assms by (rule planning_succeeds)

subsection \<open>A concrete plan\<close>

definition sample_dispatch_policy :: dispatch_policy where
  "sample_dispatch_policy =
     \<lparr>dy_policy_version = ''dispatch-v1'', dy_standard_parallelism = 16,
      dy_strict_parallelism = 8, dy_code_parallelism = 6\<rparr>"

lemma sample_dispatch_ok:
  "valid_dispatch_policy sample_dispatch_policy"
  "is_version_string (dy_policy_version sample_dispatch_policy)"
  "is_trace_id (replicate 16 (CHR ''a''))" "is_tenant_id ''tenant-1''"
  by code_simp+

lemma sample_inj: "inj (c_uuid5 sample_hash_env namespace_url)"
  by (simp add: sample_hash_env_def inj_def)

lemma sample_scored:
  "\<exists>risks. score_all sample_hash_env (\<lambda>_ _. True) (default_risk_policy ''risk-v1'') VP_STRICT
     (replicate 16 (CHR ''a'')) ''tenant-1'' 0 [sample_claim CK_TEXT] = Inr risks"
proof -
  let ?p = "default_risk_policy ''risk-v1''"
  have "valid_risk_policy ?p" "is_version_string (rp_policy_version ?p)"
      "is_trace_id (replicate 16 (CHR ''a''))" "is_tenant_id ''tenant-1''"
    by code_simp+
  moreover have "fl (82/100) \<le> final_score (\<lambda>_ _. True) VP_STRICT (sample_claim CK_TEXT)"
    using danger_score [of SG_PII "\<lambda>_ _. True"] by simp
  from py_round_mono [OF this, of 6] fl_mono [of "75/100" "82/100"]
  have "\<not> py_round (final_score (\<lambda>_ _. True) VP_STRICT (sample_claim CK_TEXT)) 6 < fl (75/100)"
    unfolding round_082 by linarith
  ultimately obtain r where "score_claim sample_hash_env (\<lambda>_ _. True) ?p VP_STRICT
       (replicate 16 (CHR ''a'')) ''tenant-1'' 0 (sample_claim CK_TEXT) = Inr r"
    using score_claim_succeeds_iff [of ?p "replicate 16 (CHR ''a'')" "''tenant-1''" sample_hash_env]
      sample_hash_env_hex by blast
  then show ?thesis by (simp add: score_all_def)
qed

theorem planning_total_witness:
  "\<exists>risks plan. score_all sample_hash_env (\<lambda>_ _. True) (default_risk_policy ''risk-v1'') VP_STRICT
       (replicate 16 (CHR ''a'')) ''tenant-1'' 0 [sample_claim CK_TEXT] = Inr risks
     \<and> dispatch_plan_of sample_hash_env sample_dispatch_policy VP_STRICT (replicate 16 (CHR ''a''))
         ''tenant-1'' 1 [sample_claim CK_TEXT] risks = Inr plan
     \<and> length (dp_items plan) = 5"
proof -
  from sample_scored obtain risks
    where risks: "score_all sample_hash_env (\<lambda>_ _. True) (default_risk_policy ''risk-v1'') VP_STRICT
     (replicate 16 (CHR ''a'')) ''tenant-1'' 0 [sample_claim CK_TEXT] = Inr risks" ..
  from planning_total [OF _ _ _ risks sample_dispatch_ok sample_hash_env_hex sample_inj, of VP_STRICT 1] risks
  show ?thesis by auto
qed

lemma sample_planned:
  "\<exists>risks plan. score_all sample_hash_env (\<lambda>_ _. True) (default_risk_policy ''risk-v1'') VP_STRICT
       (replicate 16 (CHR ''a'')) ''tenant-1'' 0 [sample_claim CK_TEXT] = Inr risks
     \<and> dispatch_plan_of sample_hash_env sample_dispatch_policy VP_STRICT (replicate 16 (CHR ''a''))
         ''tenant-1'' 1 [sample_claim CK_TEXT] risks = Inr plan"
proof -
  from sample_scored obtain risks
    where risks: "score_all sample_hash_env (\<lambda>_ _. True) (default_risk_policy ''risk-v1'') VP_STRICT
     (replicate 16 (CHR ''a'')) ''tenant-1'' 0 [sample_claim CK_TEXT] = Inr risks" ..
  from planning_succeeds [OF _ _ _ risks sample_dispatch_ok sample_hash_env_hex sample_inj,
      of VP_STRICT 1] risks
  show ?thesis by auto
qed

theorem dispatch_plan_sound_witness:
  "\<exists>risks plan rag rest. score_all sample_hash_env (\<lambda>_ _. True) (default_risk_policy ''risk-v1'')
       VP_STRICT (replicate 16 (CHR ''a'')) ''tenant-1'' 0 [sample_claim CK_TEXT] = Inr risks
     \<and> dispatch_plan_of sample_hash_env sample_dispatch_policy VP_STRICT (replicate 16 (CHR ''a''))
         ''tenant-1'' 1 [sample_claim CK_TEXT] risks = Inr plan
     \<and> valid_dispatch_plan plan \<and> execution_waves (dp_items plan) = Inr [rag, rest]"
proof -
  from sample_planned obtain risks plan
    where p: "score_all sample_hash_env (\<lambda>_ _. True) (default_risk_policy ''risk-v1'') VP_STRICT
       (replicate 16 (CHR ''a'')) ''tenant-1'' 0 [sample_claim CK_TEXT] = Inr risks"
      "dispatch_plan_of sample_hash_env sample_dispatch_policy VP_STRICT (replicate 16 (CHR ''a''))
         ''tenant-1'' 1 [sample_claim CK_TEXT] risks = Inr plan" by blast
  from dispatch_plan_sound [OF p] p show ?thesis by blast
qed

end
