(* ===== verification/Execution.thy ===== *)
theory Execution
  imports Dispatch
begin

text \<open>
  The module executor, \<^verbatim>\<open>backend/src/liyans/domains/verification/execution.py\<close>: waves of items,
  the attempts of one item, the outcome of one handler call and the run and result records.

  What the executor does not decide is an environment \<^verbatim>\<open>exec_env\<close>: the handlers (whose calls may
  answer, time out or raise) and the clock, read once for every point of the code where
  \<^verbatim>\<open>datetime.now\<close> is called.  Readings are indexed by item, attempt and point instead of being
  threaded through the run, so nothing is assumed about how \<^verbatim>\<open>asyncio.gather\<close> interleaves the
  items of a wave.  When several items of one wave raise, the model reports the first one in wave
  order.  \<^verbatim>\<open>asyncio.sleep\<close> between attempts only takes time and has no counterpart.
\<close>

subsection \<open>Findings, handlers and the environment\<close>

record module_finding =
  mf_verdict :: verification_verdict
  mf_confidence :: rat
  mf_evidence_ref_ids :: "uuid list"
  mf_finding_codes :: "string list"
  mf_result_artifact :: artifact_ref
  mf_result_sha256 :: digest
  mf_deterministic :: bool

definition valid_finding :: "module_finding \<Rightarrow> bool" where
  "valid_finding f \<longleftrightarrow> 0 \<le> mf_confidence f \<and> mf_confidence f \<le> 1
     \<and> af_sha256 (mf_result_artifact f) = mf_result_sha256 f
     \<and> \<not> (mf_verdict f = VV_SUPPORTED \<and> mf_evidence_ref_ids f = [])"

record execution_context =
  ec_verification_id :: uuid
  ec_dispatch_plan_id :: uuid
  ec_dispatch_item :: dispatch_item
  ec_claim :: claim
  ec_module_run_id :: uuid
  ec_attempt :: int
  ec_deadline_at :: timestamp

text \<open>A handler call: a finding (whose construction may raise), a \<^verbatim>\<open>TimeoutError\<close>, another exception.\<close>

datatype handler_outcome = Returned module_finding | Timed_out | Raised

datatype clock_point = At_start | At_invoke | At_completion | At_skip

record exec_env =
  ee_handlers :: "verification_module \<rightharpoonup> (execution_context \<Rightarrow> handler_outcome)"
  ee_now :: "uuid \<Rightarrow> int \<Rightarrow> clock_point \<Rightarrow> timestamp"
  ee_worker_instance_id :: string
  ee_retry_backoff_ms :: int

definition valid_exec_env :: "exec_env \<Rightarrow> bool" where
  "valid_exec_env env \<longleftrightarrow> len_between 1 128 (ee_worker_instance_id env)
     \<and> 0 \<le> ee_retry_backoff_ms env \<and> ee_retry_backoff_ms env \<le> 5000"

datatype exec_error =
    Plan_claims_differ
  | Unknown_claim uuid
  | Waves_error dispatch_error
  | Invalid_exec_record contract_error
  | Result_integrity_error

definition lift_error :: "('err \<Rightarrow> 'f) \<Rightarrow> 'err + 'a \<Rightarrow> 'f + 'a" where
  "lift_error f r = (case r of Inl e \<Rightarrow> Inl (f e) | Inr x \<Rightarrow> Inr x)"

lemma lift_error_Inr_iff [simp]: "lift_error f r = Inr x \<longleftrightarrow> r = Inr x"
  by (simp add: lift_error_def split: sum.split)

record item_outcome =
  oc_dispatch_item_id :: uuid
  oc_runs :: "module_run list"
  oc_result :: "module_result option"

record execution_bundle =
  eb_run_snapshots :: "module_run list"
  eb_results :: "module_result list"

subsection \<open>Run and result records\<close>

definition run_record ::
  "hash_env \<Rightarrow> exec_env \<Rightarrow> dispatch_plan \<Rightarrow> dispatch_item \<Rightarrow> claim \<Rightarrow> uuid \<Rightarrow> int \<Rightarrow> int
     \<Rightarrow> module_run_state \<Rightarrow> timestamp option \<Rightarrow> timestamp option \<Rightarrow> string option
     \<Rightarrow> exec_error + module_run" where
  "run_record h env plan item claim run_id version attempt state started_at completed_at error_code =
     lift_error Invalid_exec_record (build_topic4_record h module_run_doc valid_module_run
       \<lparr>t4_trace_id = t4_trace_id plan, t4_tenant_id = t4_tenant_id plan, t4_version_cas = version,
        t4_record_sha256 = [],
        t4_created_at = (case started_at of Some t \<Rightarrow> t | None \<Rightarrow> t4_created_at plan),
        mr_module_run_id = run_id, mr_verification_id = dp_verification_id plan,
        mr_dispatch_plan_id = dp_dispatch_plan_id plan,
        mr_dispatch_item_id = di_dispatch_item_id item, mr_claim_id = cl_claim_id claim,
        mr_module = di_module item, mr_state = state, mr_attempt = attempt,
        mr_max_attempts = di_max_attempts item,
        mr_input_sha256 = c_sha h (DObj [(''claim_sha256'', DStr (cl_claim_sha256 claim)),
                                         (''dispatch_item_sha256'', DStr (t4_record_sha256 item))]),
        mr_worker_instance_id = Some (ee_worker_instance_id env), mr_started_at = started_at,
        mr_completed_at = completed_at, mr_error_code = error_code\<rparr>)"

definition result_record ::
  "hash_env \<Rightarrow> module_run \<Rightarrow> module_finding \<Rightarrow> exec_error + module_result" where
  "result_record h run finding =
     rbind (lift_error Invalid_exec_record (build_topic4_record h module_result_doc valid_module_result
       \<lparr>t4_trace_id = t4_trace_id run, t4_tenant_id = t4_tenant_id run,
        t4_version_cas = t4_version_cas run, t4_record_sha256 = [],
        t4_created_at = the (mr_completed_at run),
        rr_module_result_id = c_uuid5 h (mr_module_run_id run) ''result'',
        rr_module_run_id = mr_module_run_id run, rr_verification_id = mr_verification_id run,
        rr_claim_id = mr_claim_id run, rr_module = mr_module run,
        rr_verdict = mf_verdict finding, rr_confidence = mf_confidence finding,
        rr_evidence_ref_ids = mf_evidence_ref_ids finding,
        rr_finding_codes = mf_finding_codes finding,
        rr_result_artifact = mf_result_artifact finding,
        rr_result_sha256 = mf_result_sha256 finding,
        rr_deterministic = mf_deterministic finding\<rparr>)) (\<lambda>result.
     rbind (guard (record_integrity_valid h module_result_doc result) Result_integrity_error) (\<lambda>_.
     Inr result))"

subsection \<open>One handler call, one item\<close>

text \<open>\<^verbatim>\<open>timedelta.total_seconds\<close> and \<^verbatim>\<open>timeout_ms / 1000\<close> are rounded divisions of integers.\<close>

definition invoke ::
  "exec_env \<Rightarrow> (execution_context \<Rightarrow> handler_outcome) \<Rightarrow> execution_context \<Rightarrow> int \<Rightarrow> timestamp
     \<Rightarrow> module_finding option \<times> string option \<times> module_run_state" where
  "invoke env handler ctx timeout_ms deadline_at =
     (let now = ee_now env (di_dispatch_item_id (ec_dispatch_item ctx)) (ec_attempt ctx) At_invoke;
          remaining = fl (of_int (deadline_at - now) / 1000000);
          timeout_seconds = min (fl (of_int timeout_ms / 1000)) remaining
      in if timeout_seconds \<le> 0
         then (None, Some ''VERIFICATION_DEADLINE_EXPIRED'', MR_TIMED_OUT)
         else (case handler ctx of
             Returned finding \<Rightarrow>
               if valid_finding finding then (Some finding, None, MR_SUCCEEDED)
               else (None, Some ''MODULE_HANDLER_ERROR'', MR_FAILED)
           | Timed_out \<Rightarrow> (None, Some ''MODULE_TIMEOUT'', MR_TIMED_OUT)
           | Raised \<Rightarrow> (None, Some ''MODULE_HANDLER_ERROR'', MR_FAILED)))"

definition skipped ::
  "hash_env \<Rightarrow> exec_env \<Rightarrow> dispatch_plan \<Rightarrow> dispatch_item \<Rightarrow> claim \<Rightarrow> timestamp
     \<Rightarrow> exec_error + item_outcome" where
  "skipped h env plan item claim deadline_at =
     (let now = min (ee_now env (di_dispatch_item_id item) 0 At_skip) deadline_at
      in rbind (run_record h env plan item claim
             (c_uuid5 h (di_dispatch_item_id item) ''dependency-skipped'') 1 0 MR_SKIPPED
             (Some now) (Some now) (Some ''MODULE_DEPENDENCY_FAILED'')) (\<lambda>run.
         Inr \<lparr>oc_dispatch_item_id = di_dispatch_item_id item, oc_runs = [run], oc_result = None\<rparr>))"

definition handler_missing ::
  "hash_env \<Rightarrow> exec_env \<Rightarrow> dispatch_plan \<Rightarrow> dispatch_item \<Rightarrow> claim \<Rightarrow> timestamp
     \<Rightarrow> exec_error + item_outcome" where
  "handler_missing h env plan item claim deadline_at =
     (let now = min (ee_now env (di_dispatch_item_id item) 0 At_skip) deadline_at
      in rbind (run_record h env plan item claim
             (c_uuid5 h (di_dispatch_item_id item) ''handler-missing'') 1 0 MR_FAILED
             (Some now) (Some now) (Some ''MODULE_HANDLER_MISSING'')) (\<lambda>run.
         Inr \<lparr>oc_dispatch_item_id = di_dispatch_item_id item, oc_runs = [run], oc_result = None\<rparr>))"

text \<open>The body of the attempt loop: the three run records of one attempt and its finding.\<close>

definition attempt_once ::
  "hash_env \<Rightarrow> exec_env \<Rightarrow> (execution_context \<Rightarrow> handler_outcome) \<Rightarrow> dispatch_plan
     \<Rightarrow> dispatch_item \<Rightarrow> claim \<Rightarrow> timestamp \<Rightarrow> int
     \<Rightarrow> exec_error + (module_run list \<times> module_run \<times> module_finding option)" where
  "attempt_once h env handler plan item claim deadline_at attempt =
     (let item_id = di_dispatch_item_id item;
          run_id = c_uuid5 h item_id (''attempt:'' @ str_of_int attempt);
          started_at = ee_now env item_id attempt At_start;
          completed_at = ee_now env item_id attempt At_completion
      in rbind (run_record h env plan item claim run_id 1 attempt MR_PENDING None None None)
           (\<lambda>pending.
         rbind (run_record h env plan item claim run_id 2 attempt MR_RUNNING
                  (Some started_at) None None) (\<lambda>running.
         (case invoke env handler
                 \<lparr>ec_verification_id = dp_verification_id plan,
                  ec_dispatch_plan_id = dp_dispatch_plan_id plan, ec_dispatch_item = item,
                  ec_claim = claim, ec_module_run_id = run_id, ec_attempt = attempt,
                  ec_deadline_at = deadline_at\<rparr>
                 (di_timeout_ms item) deadline_at of
            (finding, error_code, terminal_state) \<Rightarrow>
              rbind (run_record h env plan item claim run_id 3 attempt terminal_state
                       (Some started_at) (Some completed_at) error_code) (\<lambda>terminal.
              Inr ([pending, running, terminal], terminal, finding))))))"

function attempt_loop ::
  "hash_env \<Rightarrow> exec_env \<Rightarrow> (execution_context \<Rightarrow> handler_outcome) \<Rightarrow> dispatch_plan
     \<Rightarrow> dispatch_item \<Rightarrow> claim \<Rightarrow> timestamp \<Rightarrow> int \<Rightarrow> module_run list
     \<Rightarrow> exec_error + item_outcome" where
  "attempt_loop h env handler plan item claim deadline_at attempt runs =
     (if di_max_attempts item < attempt
      then Inr \<lparr>oc_dispatch_item_id = di_dispatch_item_id item, oc_runs = runs, oc_result = None\<rparr>
      else rbind (attempt_once h env handler plan item claim deadline_at attempt)
        (\<lambda>(new_runs, terminal, finding).
          (case finding of
             Some f \<Rightarrow> rbind (result_record h terminal f) (\<lambda>result.
               Inr \<lparr>oc_dispatch_item_id = di_dispatch_item_id item, oc_runs = runs @ new_runs,
                    oc_result = Some result\<rparr>)
           | None \<Rightarrow> attempt_loop h env handler plan item claim deadline_at (attempt + 1)
                      (runs @ new_runs))))"
  by pat_completeness auto

termination
  by (relation "measure (\<lambda>(_, _, _, _, item, _, _, attempt, _).
        nat (di_max_attempts item + 1 - attempt))") auto

declare attempt_loop.simps [simp del]

definition execute_item ::
  "hash_env \<Rightarrow> exec_env \<Rightarrow> dispatch_plan \<Rightarrow> dispatch_item \<Rightarrow> claim \<Rightarrow> timestamp
     \<Rightarrow> exec_error + item_outcome" where
  "execute_item h env plan item claim deadline_at =
     (case ee_handlers env (di_module item) of
        None \<Rightarrow> handler_missing h env plan item claim deadline_at
      | Some handler \<Rightarrow> attempt_loop h env handler plan item claim deadline_at 1 [])"

definition execute_or_skip ::
  "hash_env \<Rightarrow> exec_env \<Rightarrow> dispatch_plan \<Rightarrow> (uuid \<rightharpoonup> claim) \<Rightarrow> timestamp \<Rightarrow> uuid set
     \<Rightarrow> dispatch_item \<Rightarrow> exec_error + item_outcome" where
  "execute_or_skip h env plan claim_by_id deadline_at successful_items item =
     (case claim_by_id (di_claim_id item) of
        None \<Rightarrow> Inl (Unknown_claim (di_claim_id item))
      | Some claim \<Rightarrow>
          if \<not> set (di_dependency_item_ids item) \<subseteq> successful_items
          then skipped h env plan item claim deadline_at
          else execute_item h env plan item claim deadline_at)"

subsection \<open>The whole plan\<close>

definition successes :: "item_outcome list \<Rightarrow> uuid set" where
  "successes outcomes = set (map oc_dispatch_item_id (filter (\<lambda>o'. oc_result o' \<noteq> None) outcomes))"

fun run_waves ::
  "(uuid set \<Rightarrow> dispatch_item \<Rightarrow> exec_error + item_outcome) \<Rightarrow> dispatch_item list list
     \<Rightarrow> uuid set \<Rightarrow> item_outcome list \<Rightarrow> exec_error + item_outcome list" where
  "run_waves step [] successful_items outcomes = Inr outcomes"
| "run_waves step (wave # waves) successful_items outcomes =
     rbind (map_ok (step successful_items) wave) (\<lambda>wave_outcomes.
       run_waves step waves (successful_items \<union> successes wave_outcomes)
         (outcomes @ wave_outcomes))"

definition plan_position :: "dispatch_plan \<Rightarrow> uuid \<Rightarrow> nat" where
  "plan_position plan i =
     the (map_of (rev (zip (map di_dispatch_item_id (dp_items plan)) [0..<length (dp_items plan)])) i)"

definition execute_outcomes ::
  "hash_env \<Rightarrow> exec_env \<Rightarrow> dispatch_plan \<Rightarrow> claim list \<Rightarrow> timestamp
     \<Rightarrow> exec_error + item_outcome list" where
  "execute_outcomes h env plan claims deadline_at =
     (let claim_by_id = dict_by cl_claim_id claims
      in rbind (guard (set (dp_claim_ids plan) = set (map cl_claim_id claims)) Plan_claims_differ)
           (\<lambda>_.
         rbind (lift_error Waves_error (execution_waves (dp_items plan))) (\<lambda>waves.
         rbind (run_waves (execute_or_skip h env plan claim_by_id deadline_at) waves {} [])
           (\<lambda>outcomes.
         Inr (sort_key (\<lambda>o'. plan_position plan (oc_dispatch_item_id o')) outcomes)))))"

definition execute_plan ::
  "hash_env \<Rightarrow> exec_env \<Rightarrow> dispatch_plan \<Rightarrow> claim list \<Rightarrow> timestamp
     \<Rightarrow> exec_error + execution_bundle" where
  "execute_plan h env plan claims deadline_at =
     rbind (execute_outcomes h env plan claims deadline_at) (\<lambda>outcomes.
       Inr \<lparr>eb_run_snapshots = concat (map oc_runs outcomes),
            eb_results = List.map_filter oc_result outcomes\<rparr>)"

subsection \<open>The attempts of one item\<close>





lemma invoke_result:
  assumes "invoke env handler ctx timeout deadline = (finding, code, state)"
  shows "state \<in> {MR_SUCCEEDED, MR_FAILED, MR_TIMED_OUT}"
    and "finding \<noteq> None \<longleftrightarrow> state = MR_SUCCEEDED"
    and "finding = Some f \<Longrightarrow> handler ctx = Returned f \<and> valid_finding f"
  using assms by (auto simp: invoke_def Let_def split: if_splits handler_outcome.splits)







subsection \<open>The whole plan\<close>








subsection \<open>The executor contains every failure\<close>

text \<open>What the handlers may return: a finding that fits the result contract.\<close>

definition contract_finding :: "module_finding \<Rightarrow> bool" where
  "contract_finding f \<longleftrightarrow> length (mf_evidence_ref_ids f) \<le> 512
     \<and> length (mf_finding_codes f) \<le> 128 \<and> list_all is_reason_code (mf_finding_codes f)
     \<and> valid_artifact_ref (mf_result_artifact f)"

definition handlers_conform :: "exec_env \<Rightarrow> bool" where
  "handlers_conform env \<longleftrightarrow>
     (\<forall>m handler ctx f. ee_handlers env m = Some handler \<and> handler ctx = Returned f
        \<longrightarrow> contract_finding f)"

definition clock_monotone :: "exec_env \<Rightarrow> bool" where
  "clock_monotone env \<longleftrightarrow> (\<forall>i a. ee_now env i a At_start \<le> ee_now env i a At_completion)"

lemma error_codes_valid:
  "is_reason_code ''MODULE_DEPENDENCY_FAILED''" "is_reason_code ''MODULE_HANDLER_MISSING''"
  "is_reason_code ''VERIFICATION_DEADLINE_EXPIRED''" "is_reason_code ''MODULE_TIMEOUT''"
  "is_reason_code ''MODULE_HANDLER_ERROR''"
  by code_simp+

lemma run_record_total:
  assumes "valid_dispatch_plan plan" "valid_dispatch_item item" "valid_exec_env env"
    and "\<And>d. is_sha256_hex (c_sha h d)" "1 \<le> version" "0 \<le> attempt" "attempt \<le> di_max_attempts item"
    and "case code of None \<Rightarrow> True | Some e \<Rightarrow> is_reason_code e"
    and "state \<in> set run_terminal \<Longrightarrow> completed \<noteq> None"
    and "\<And>c. completed = Some c \<Longrightarrow> \<exists>s. started = Some s \<and> s \<le> c"
  shows "\<exists>r. run_record h env plan item claim run_id version attempt state started completed code = Inr r"
proof (cases completed)
  case None
  then have "state \<notin> set run_terminal" using assms(9) by blast
  with None assms(1-8) show ?thesis
    unfolding run_record_def lift_error_Inr_iff module_run_seal.build_succeeds_iff
    by (cases started) (auto simp: valid_module_run_def valid_topic4_record_def
        valid_dispatch_plan_def valid_dispatch_item_def valid_exec_env_def)
next
  case (Some c)
  then obtain s where "started = Some s" "s \<le> c" using assms(10) by blast
  with Some assms(1-8) show ?thesis
    unfolding run_record_def lift_error_Inr_iff module_run_seal.build_succeeds_iff
    by (auto simp: valid_module_run_def valid_topic4_record_def
        valid_dispatch_plan_def valid_dispatch_item_def valid_exec_env_def)
qed

lemma run_record_header:
  assumes "run_record h env plan item claim run_id version attempt state started completed code = Inr r"
  shows "t4_trace_id r = t4_trace_id plan" "t4_tenant_id r = t4_tenant_id plan"
    and "t4_version_cas r = version"
proof -
  from assms obtain vals where "build_topic4_record h module_run_doc valid_module_run vals = Inr r"
    and v: "t4_trace_id vals = t4_trace_id plan" "t4_tenant_id vals = t4_tenant_id plan"
      "t4_version_cas vals = version"
    unfolding run_record_def lift_error_Inr_iff by (rule that) simp_all
  from module_run_seal.build_seals(3) [OF this(1)] v show "t4_trace_id r = t4_trace_id plan"
      "t4_tenant_id r = t4_tenant_id plan" "t4_version_cas r = version"
    by simp_all
qed

lemma result_record_total:
  assumes "is_trace_id (t4_trace_id run)" "is_tenant_id (t4_tenant_id run)"
    "1 \<le> t4_version_cas run" "valid_finding f" "contract_finding f" "\<And>d. is_sha256_hex (c_sha h d)"
  shows "\<exists>r. result_record h run f = Inr r"
proof -
  let ?build = "build_topic4_record h module_result_doc valid_module_result
       \<lparr>t4_trace_id = t4_trace_id run, t4_tenant_id = t4_tenant_id run,
        t4_version_cas = t4_version_cas run, t4_record_sha256 = [],
        t4_created_at = the (mr_completed_at run),
        rr_module_result_id = c_uuid5 h (mr_module_run_id run) ''result'',
        rr_module_run_id = mr_module_run_id run, rr_verification_id = mr_verification_id run,
        rr_claim_id = mr_claim_id run, rr_module = mr_module run,
        rr_verdict = mf_verdict f, rr_confidence = mf_confidence f,
        rr_evidence_ref_ids = mf_evidence_ref_ids f, rr_finding_codes = mf_finding_codes f,
        rr_result_artifact = mf_result_artifact f, rr_result_sha256 = mf_result_sha256 f,
        rr_deterministic = mf_deterministic f\<rparr>"
  have "is_sha256_hex (mf_result_sha256 f)"
    using assms(4,5) by (auto simp: valid_finding_def contract_finding_def valid_artifact_ref_def)
  then have "\<exists>r. ?build = Inr r"
    unfolding module_result_seal.build_succeeds_iff
    using assms by (auto simp: valid_module_result_def valid_topic4_record_def unit_interval_def
        valid_finding_def contract_finding_def)
  then obtain r where r: "?build = Inr r" ..
  from module_result_seal.build_seals(1) [OF r] r show ?thesis
    by (simp add: result_record_def lift_error_def)
qed

text \<open>The circumstances under which no branch of the executor can raise.\<close>

definition execution_ready :: "hash_env \<Rightarrow> exec_env \<Rightarrow> dispatch_plan \<Rightarrow> bool" where
  "execution_ready h env plan \<longleftrightarrow> valid_dispatch_plan plan
     \<and> list_all valid_dispatch_item (dp_items plan) \<and> valid_exec_env env \<and> handlers_conform env
     \<and> clock_monotone env \<and> (\<forall>d. is_sha256_hex (c_sha h d))"

lemma attempt_once_total:
  assumes ready: "execution_ready h env plan" and item: "valid_dispatch_item item"
    and "0 \<le> attempt" "attempt \<le> di_max_attempts item"
    and "ee_handlers env m = Some handler"
  shows "\<exists>runs t finding. attempt_once h env handler plan item claim deadline attempt
     = Inr (runs, t, finding) \<and> is_trace_id (t4_trace_id t) \<and> is_tenant_id (t4_tenant_id t)
     \<and> 1 \<le> t4_version_cas t
     \<and> (case finding of None \<Rightarrow> True | Some f \<Rightarrow> valid_finding f \<and> contract_finding f)"
proof -
  let ?id = "c_uuid5 h (di_dispatch_item_id item) (''attempt:'' @ str_of_int attempt)"
  let ?now = "ee_now env (di_dispatch_item_id item) attempt"
  let ?ctx = "\<lparr>ec_verification_id = dp_verification_id plan,
               ec_dispatch_plan_id = dp_dispatch_plan_id plan, ec_dispatch_item = item,
               ec_claim = claim, ec_module_run_id = ?id, ec_attempt = attempt,
               ec_deadline_at = deadline\<rparr>"
  obtain finding code state
    where i: "invoke env handler ?ctx (di_timeout_ms item) deadline = (finding, code, state)"
    by (rule prod_cases3)
  have code: "case code of None \<Rightarrow> True | Some e \<Rightarrow> is_reason_code e"
    using i error_codes_valid by (auto simp: invoke_def Let_def split: if_splits handler_outcome.splits)
  note r = ready [unfolded execution_ready_def]
  have h: "\<And>d. is_sha256_hex (c_sha h d)" using r by blast
  have mono: "?now At_start \<le> ?now At_completion" using r by (simp add: clock_monotone_def)
  have rec: "\<exists>r. run_record h env plan item claim ?id version attempt st started completed cd = Inr r"
    if "1 \<le> version" "case cd of None \<Rightarrow> True | Some e \<Rightarrow> is_reason_code e"
      "st \<in> set run_terminal \<Longrightarrow> completed \<noteq> None"
      "\<And>c. completed = Some c \<Longrightarrow> \<exists>s. started = Some s \<and> s \<le> c" for version st started completed cd
    using r h item assms(3,4) that by (intro run_record_total) auto
  obtain p q t where
      "run_record h env plan item claim ?id 1 attempt MR_PENDING None None None = Inr p"
      "run_record h env plan item claim ?id 2 attempt MR_RUNNING (Some (?now At_start)) None None = Inr q"
    and t: "run_record h env plan item claim ?id 3 attempt state (Some (?now At_start))
        (Some (?now At_completion)) code = Inr t"
    using rec [of 1 None MR_PENDING None None] rec [of 2 None MR_RUNNING None "Some (?now At_start)"]
      rec [of 3 code state "Some (?now At_completion)" "Some (?now At_start)"] code mono
    by (auto simp: run_terminal_def)
  moreover have "case finding of None \<Rightarrow> True | Some f \<Rightarrow> valid_finding f \<and> contract_finding f"
  proof (cases finding)
    case (Some f)
    from invoke_result(3) [OF i Some] have "handler ?ctx = Returned f" "valid_finding f" by simp_all
    moreover from this assms(5) r have "contract_finding f" unfolding handlers_conform_def by blast
    ultimately show ?thesis by (simp add: Some)
  qed simp
  moreover have "is_trace_id (t4_trace_id t)" "is_tenant_id (t4_tenant_id t)" "1 \<le> t4_version_cas t"
    using run_record_header [OF t] r by (auto simp: valid_dispatch_plan_def valid_topic4_record_def)
  ultimately show ?thesis unfolding attempt_once_def Let_def i by simp
qed

lemma attempt_loop_total:
  assumes "execution_ready h env plan" "valid_dispatch_item item" "0 \<le> attempt"
    and "ee_handlers env m = Some handler"
  shows "\<exists>out. attempt_loop h env handler plan item claim deadline attempt runs = Inr out"
  using assms
proof (induction h env handler plan item claim deadline attempt runs rule: attempt_loop.induct)
  case (1 h env handler plan item claim deadline attempt runs)
  note unfold = attempt_loop.simps [of h env handler plan item claim deadline attempt runs]
  show ?case
  proof (cases "di_max_attempts item < attempt")
    case False
    from attempt_once_total [OF "1.prems"(1,2,3) _ "1.prems"(4), of claim deadline] False
    obtain rs t finding where once:
        "attempt_once h env handler plan item claim deadline attempt = Inr (rs, t, finding)"
      and t: "is_trace_id (t4_trace_id t)" "is_tenant_id (t4_tenant_id t)" "1 \<le> t4_version_cas t"
        "case finding of None \<Rightarrow> True | Some f \<Rightarrow> valid_finding f \<and> contract_finding f"
      by fastforce
    show ?thesis
    proof (cases finding)
      case None
      have "\<exists>out. attempt_loop h env handler plan item claim deadline (attempt + 1) (runs @ rs) = Inr out"
        using "1.prems" by (intro "1.IH" [OF False]) simp_all
      then show ?thesis using False once None unfolding unfold by simp
    next
      case (Some f)
      then obtain res where "result_record h t f = Inr res"
        using result_record_total [of t f h] t "1.prems"(1) by (auto simp: execution_ready_def)
      then show ?thesis using False once Some unfolding unfold by simp
    qed
  qed (simp add: unfold)
qed

lemma execute_or_skip_total:
  assumes "execution_ready h env plan" "valid_dispatch_item item" "di_claim_id item \<in> dom claims"
  shows "\<exists>out. execute_or_skip h env plan claims deadline S item = Inr out"
proof -
  from assms(3) obtain claim where c: "claims (di_claim_id item) = Some claim" by blast
  let ?now = "min (ee_now env (di_dispatch_item_id item) 0 At_skip) deadline"
  have rec: "\<exists>r. run_record h env plan item claim run_id 1 0 st (Some ?now) (Some ?now) (Some code) = Inr r"
    if "is_reason_code code" for run_id st code
    using assms(1,2) that
    by (intro run_record_total) (auto simp: execution_ready_def valid_dispatch_item_def)
  have "\<exists>out. skipped h env plan item claim deadline = Inr out"
    unfolding skipped_def Let_def by (rule rbind_total [OF rec [OF error_codes_valid(1)]]) simp
  moreover have "\<exists>out. handler_missing h env plan item claim deadline = Inr out"
    unfolding handler_missing_def Let_def by (rule rbind_total [OF rec [OF error_codes_valid(2)]]) simp
  ultimately show ?thesis
    using c attempt_loop_total [OF assms(1,2), of 1 "di_module item" _ claim deadline "[]"]
    by (auto simp: execute_or_skip_def execute_item_def split: option.split)
qed

lemma run_waves_total:
  assumes "\<And>S i. i \<in> set (concat waves) \<Longrightarrow> \<exists>out. step S i = Inr out"
  shows "\<exists>res. run_waves step waves S outs = Inr res"
  using assms
proof (induction waves arbitrary: S outs)
  case (Cons w ws)
  have "\<exists>os. map_ok (step S) w = Inr os" using Cons.prems by (intro map_ok_total_ex) simp
  then obtain os where "map_ok (step S) w = Inr os" ..
  moreover have "\<exists>res. run_waves step ws (S \<union> successes os) (outs @ os) = Inr res"
    using Cons.prems by (intro Cons.IH) simp
  ultimately show ?case by simp
qed simp

lemma execution_returns:
  assumes "execution_ready h env plan" "execution_waves (dp_items plan) = Inr waves"
    and "set (dp_claim_ids plan) = set (map cl_claim_id claims)"
  shows "\<exists>b. execute_plan h env plan claims deadline = Inr b"
proof -
  have items: "set (concat waves) = set (dp_items plan)"
    using waves_sound(1) [OF assms(2)] by (rule mset_eq_setD)
  have "\<exists>out. execute_or_skip h env plan (dict_by cl_claim_id claims) deadline S i = Inr out"
    if "i \<in> set (concat waves)" for S i
  proof (rule execute_or_skip_total [OF assms(1)])
    show "valid_dispatch_item i"
      using that items assms(1) by (simp add: execution_ready_def list_all_iff del: set_concat)
    show "di_claim_id i \<in> dom (dict_by cl_claim_id claims)"
      using that items assms(1,3)
      by (simp add: execution_ready_def valid_dispatch_plan_def list_all_iff del: set_concat)
  qed
  then have "\<exists>res. run_waves (execute_or_skip h env plan (dict_by cl_claim_id claims) deadline)
      waves {} [] = Inr res"
    by (rule run_waves_total)
  then show ?thesis
    using assms(2,3) by (auto simp: execute_plan_def execute_outcomes_def Let_def lift_error_def)
qed

text \<open>
  No handler failure aborts an execution: on a valid plan whose graph has waves and whose
  claims are given, the executor returns a bundle although handlers may time out, raise, be
  missing or return findings that fail their own checks, and although the deadline may pass.
\<close>

theorem execution_total:
  assumes "execution_ready h env plan" "execution_waves (dp_items plan) = Inr waves"
    and "set (dp_claim_ids plan) = set (map cl_claim_id claims)"
  shows "\<exists>b. execute_plan h env plan claims deadline = Inr b"
  using assms by (rule execution_returns)

subsection \<open>A concrete execution\<close>

text \<open>A retrieval item whose handler raises, and a security item that depends on it.\<close>

definition sample_plan :: dispatch_plan where
  "sample_plan =
     \<lparr>t4_trace_id = replicate 16 (CHR ''a''), t4_tenant_id = ''tenant-1'', t4_version_cas = 1,
      t4_record_sha256 = replicate 64 (CHR ''a''), t4_created_at = 0,
      dp_dispatch_plan_id = ''plan-1'', dp_verification_id = ''verification-1'',
      dp_claim_ids = [''claim-1''],
      dp_items = [sample_item ''b'' C9_SECURITY [''a''], sample_item ''a'' C2_RAG []],
      dp_max_parallelism = 4, dp_policy_version = ''dispatch-v1'',
      dp_plan_sha256 = replicate 64 (CHR ''a'')\<rparr>"

definition failing_env :: exec_env where
  "failing_env =
     \<lparr>ee_handlers = [C2_RAG \<mapsto> (\<lambda>_. Raised), C9_SECURITY \<mapsto> (\<lambda>_. Timed_out)],
      ee_now = (\<lambda>_ _ _. 0), ee_worker_instance_id = ''worker-1'', ee_retry_backoff_ms = 25\<rparr>"

lemma sample_execution_ready:
  "execution_ready sample_hash_env failing_env sample_plan"
proof -
  have "valid_dispatch_plan sample_plan"
    using sample_dispatch_ok
    by (simp add: sample_plan_def sample_item_def valid_dispatch_plan_def valid_topic4_record_def
        len_between_def is_version_string_def is_sha256_hex_def is_lower_hex_def char_in_def
        list_all_iff sample_dispatch_policy_def)
  moreover have "list_all valid_dispatch_item (dp_items sample_plan)"
    using sample_dispatch_ok
    by (simp add: sample_plan_def sample_item_def valid_dispatch_item_def valid_topic4_record_def
        is_sha256_hex_def is_lower_hex_def char_in_def list_all_iff)
  moreover have "valid_exec_env failing_env"
    by (simp add: valid_exec_env_def failing_env_def len_between_def)
  moreover have "handlers_conform failing_env" "clock_monotone failing_env"
    by (simp_all add: handlers_conform_def clock_monotone_def failing_env_def)
  ultimately show ?thesis using sample_hash_env_hex by (simp add: execution_ready_def)
qed

lemma sample_plan_waves:
  "execution_waves (dp_items sample_plan)
     = Inr [[sample_item ''a'' C2_RAG []], [sample_item ''b'' C9_SECURITY [''a'']]]"
  using sample_waves by (simp add: sample_plan_def)

lemma sample_plan_claims:
  "set (dp_claim_ids sample_plan) = set (map cl_claim_id [sample_claim CK_TEXT])"
  by (simp add: sample_plan_def sample_claim_def)

theorem execution_total_witness:
  "\<exists>b. execute_plan sample_hash_env failing_env sample_plan [sample_claim CK_TEXT] 60000000 = Inr b"
  by (rule execution_total [OF sample_execution_ready sample_plan_waves sample_plan_claims])


end
