(* ===== verification/Aggregation.thy ===== *)
theory Aggregation
  imports Dispatch
begin

text \<open>
  Verdict aggregation, \<^verbatim>\<open>backend/src/liyans/domains/verification/aggregation.py\<close>: the verdict of one
  claim from its module results, the release decision for the candidate, and the hash chain over
  the evidence.  Confidence values are floats and are computed with the rounded operations of
  \<^verbatim>\<open>PyFloat\<close>.
\<close>

subsection \<open>Tables and policy\<close>

datatype aggregation_error =
    Aggregation_error string
  | Invalid_aggregation contract_error

definition lift_aggregation :: "contract_error + 'a \<Rightarrow> aggregation_error + 'a" where
  "lift_aggregation r = (case r of Inl e \<Rightarrow> Inl (Invalid_aggregation e) | Inr x \<Rightarrow> Inr x)"

lemma lift_aggregation_Inr_iff [simp]: "lift_aggregation r = Inr x \<longleftrightarrow> r = Inr x"
  by (simp add: lift_aggregation_def split: sum.split)

fun module_weight :: "verification_module \<Rightarrow> rat" where
  "module_weight C2_RAG = fl (115/100)"
| "module_weight C3_ACADEMIC = fl (125/100)"
| "module_weight C4_GRAPH = fl (115/100)"
| "module_weight C5_QUIZ = fl (125/100)"
| "module_weight C6_CODE = fl (125/100)"
| "module_weight C7_EXTENSION = fl (110/100)"
| "module_weight C9_SECURITY = fl (140/100)"
| "module_weight C10_PRIVACY = fl (140/100)"
| "module_weight C11_COMPLIANCE = fl (130/100)"

definition non_waivable_modules :: "verification_module list" where
  "non_waivable_modules = [C9_SECURITY, C10_PRIVACY, C11_COMPLIANCE]"

record aggregation_policy =
  ay_policy_version :: string
  ay_partial_release_max_risk :: risk_level

definition valid_aggregation_policy :: "aggregation_policy \<Rightarrow> bool" where
  "valid_aggregation_policy p \<longleftrightarrow> len_between 1 128 (ay_policy_version p)"

subsection \<open>The verdict of one claim\<close>

text \<open>\<^verbatim>\<open>datetime.min\<close> in microseconds since the epoch.\<close>

definition datetime_min :: timestamp where
  "datetime_min = - 62135596800000000"

definition result_order :: "module_result \<Rightarrow> int \<times> timestamp \<times> uuid" where
  "result_order r = (t4_version_cas r, t4_created_at r, rr_module_result_id r)"

definition keep_latest ::
  "(verification_module \<rightharpoonup> module_result) \<Rightarrow> module_result \<Rightarrow> (verification_module \<rightharpoonup> module_result)"
where
  "keep_latest latest r =
     (let current_order = (case latest (rr_module r) of
            None \<Rightarrow> (- 1, datetime_min, [])
          | Some current \<Rightarrow> result_order current)
      in if current_order < result_order r then latest(rr_module r \<mapsto> r) else latest)"

definition latest_by_module :: "module_result list \<Rightarrow> (verification_module \<rightharpoonup> module_result)" where
  "latest_by_module results = foldl keep_latest Map.empty results"

definition resolve_verdict :: "verification_verdict set \<Rightarrow> bool \<Rightarrow> verification_verdict" where
  "resolve_verdict verdicts missing =
     (if VV_UNSAFE \<in> verdicts then VV_UNSAFE
      else if VV_ERROR \<in> verdicts \<or> missing then VV_ERROR
      else if VV_CONTRADICTED \<in> verdicts then VV_CONTRADICTED
      else if VV_INSUFFICIENT_EVIDENCE \<in> verdicts then VV_INSUFFICIENT_EVIDENCE
      else if VV_PARTIALLY_SUPPORTED \<in> verdicts then VV_PARTIALLY_SUPPORTED
      else if verdicts = {VV_NOT_APPLICABLE} then VV_NOT_APPLICABLE
      else if verdicts \<subseteq> {VV_SUPPORTED, VV_NOT_APPLICABLE} then VV_SUPPORTED
      else VV_ERROR)"

definition confidence_of :: "module_result list \<Rightarrow> nat \<Rightarrow> rat" where
  "confidence_of results missing_count =
     (if results = [] then 0
      else let weighted = fsum (map (\<lambda>r. fmul (rr_confidence r) (module_weight (rr_module r))) results);
               total_weight = fsum (map (\<lambda>r. module_weight (rr_module r)) results);
               confidence = fdiv weighted total_weight;
               discounted =
                 (if missing_count = 0 then confidence
                  else fmul confidence
                    (max 0 (fsub 1 (min (fl (75/100)) (fmul (of_nat missing_count) (fl (15/100)))))))
           in max 0 (min 1 discounted))"

definition verdict_reasons ::
  "module_result list \<Rightarrow> module_result list \<Rightarrow> verification_module list \<Rightarrow> string list" where
  "verdict_reasons results selected missing =
     (let verdict_values = set (map rr_verdict selected)
      in sorted_set (concat (map rr_finding_codes selected))
         @ (if missing \<noteq> [] then [''MODULE_RESULT_MISSING''] else [])
         @ (if length selected < length results then [''MODULE_RESULT_SUPERSEDED''] else [])
         @ (if VV_SUPPORTED \<in> verdict_values
               \<and> (VV_CONTRADICTED \<in> verdict_values \<or> VV_UNSAFE \<in> verdict_values)
            then [''EVIDENCE_CONFLICT''] else []))"

definition verdict_disclosures :: "verification_verdict \<Rightarrow> string list" where
  "verdict_disclosures verdict =
     (if verdict = VV_PARTIALLY_SUPPORTED then [''PARTIAL_SUPPORT_DISCLOSURE''] else [])
     @ (if verdict = VV_INSUFFICIENT_EVIDENCE then [''INSUFFICIENT_EVIDENCE_DISCLOSURE''] else [])"

definition is_non_waivable :: "verification_verdict \<Rightarrow> module_result list \<Rightarrow> bool" where
  "is_non_waivable verdict selected \<longleftrightarrow> verdict = VV_UNSAFE
     \<or> list_ex (\<lambda>r. rr_module r \<in> set non_waivable_modules
          \<and> (rr_verdict r = VV_UNSAFE \<or> rr_verdict r = VV_CONTRADICTED)) selected"

definition claim_verdict_of ::
  "hash_env \<Rightarrow> aggregation_policy \<Rightarrow> string \<Rightarrow> tenant \<Rightarrow> timestamp \<Rightarrow> claim \<Rightarrow> claim_risk
     \<Rightarrow> module_result list \<Rightarrow> aggregation_error + claim_verdict" where
  "claim_verdict_of h p trace_id tenant_id created_at claim risk results =
     (let latest = latest_by_module results;
          missing = filter (\<lambda>m. latest m = None) (rk_mandatory_modules risk);
          selected = List.map_filter latest (rk_mandatory_modules risk);
          verdict = resolve_verdict (set (map rr_verdict selected)) (missing \<noteq> []);
          seed = c_sha h (DObj
            [(''claim_id'', DStr (cl_claim_id claim)),
             (''module_result_ids'', DList (map (\<lambda>r. DStr (rr_module_result_id r)) selected)),
             (''missing_modules'', DList (map (\<lambda>m. DStr (module_value m)) missing)),
             (''policy_version'', DStr (ay_policy_version p))])
      in rbind (guard (selected \<noteq> []) (Aggregation_error
             (''claim '' @ cl_claim_id claim @ '' has no completed module result to aggregate'')))
           (\<lambda>_. lift_aggregation (build_topic4_record h claim_verdict_doc valid_claim_verdict
             \<lparr>t4_trace_id = trace_id, t4_tenant_id = tenant_id, t4_version_cas = 1,
              t4_record_sha256 = [], t4_created_at = created_at,
              cv_claim_verdict_id = c_uuid5 h namespace_url
                (''liyans:topic4:claim-verdict:'' @ tenant_id @ '':'' @ seed),
              cv_verification_id = cl_verification_id claim, cv_claim_id = cl_claim_id claim,
              cv_verdict = verdict,
              cv_confidence = py_round (confidence_of selected (length missing)) 6,
              cv_module_result_ids = map rr_module_result_id selected,
              cv_evidence_ref_ids = sorted_set (concat (map rr_evidence_ref_ids selected)),
              cv_reason_codes = sorted_set (verdict_reasons results selected missing),
              cv_disclosure_codes = verdict_disclosures verdict,
              cv_non_waivable = is_non_waivable verdict selected\<rparr>)))"

subsection \<open>The decision for the candidate\<close>

definition settled :: "verification_verdict \<Rightarrow> bool" where
  "settled v \<longleftrightarrow> v = VV_SUPPORTED \<or> v = VV_NOT_APPLICABLE"

definition insufficient :: "verification_verdict \<Rightarrow> bool" where
  "insufficient v \<longleftrightarrow> v = VV_INSUFFICIENT_EVIDENCE \<or> v = VV_ERROR"

definition count_verdicts :: "(verification_verdict \<Rightarrow> bool) \<Rightarrow> claim_verdict list \<Rightarrow> int" where
  "count_verdicts P verdicts = int (length (filter (\<lambda>v. P (cv_verdict v)) verdicts))"

definition decide ::
  "aggregation_policy \<Rightarrow> int \<Rightarrow> int \<Rightarrow> int \<Rightarrow> claim_verdict list \<Rightarrow> bool \<Rightarrow> bool \<Rightarrow> int
     \<Rightarrow> (uuid \<rightharpoonup> claim_risk) \<Rightarrow> aggregate_decision" where
  "decide p unsafe_count contradicted_count insufficient_count partials non_waivable
     critical_unresolved revision_round risk_by_claim =
     (if unsafe_count \<noteq> 0 \<or> non_waivable then AD_BLOCK
      else if critical_unresolved then AD_REVIEW_REQUIRED
      else if contradicted_count \<noteq> 0 \<or> insufficient_count \<noteq> 0
           then (if revision_round < 2 then AD_REVISE else AD_REVIEW_REQUIRED)
      else if partials \<noteq> [] then
           (if list_all (\<lambda>v. rk_level (the (risk_by_claim (cv_claim_id v)))
                 \<in> {RL_LOW, ay_partial_release_max_risk p}) partials
            then AD_RELEASE_WITH_DISCLOSURE
            else if revision_round < 2 then AD_REVISE else AD_REVIEW_REQUIRED)
      else AD_RELEASE)"

definition decision_for ::
  "aggregation_policy \<Rightarrow> (uuid \<rightharpoonup> claim_risk) \<Rightarrow> claim_verdict list \<Rightarrow> int \<Rightarrow> aggregate_decision"
where
  "decision_for p risk_by_claim verdicts revision_round =
     decide p (count_verdicts (\<lambda>v. v = VV_UNSAFE) verdicts)
       (count_verdicts (\<lambda>v. v = VV_CONTRADICTED) verdicts) (count_verdicts insufficient verdicts)
       (filter (\<lambda>v. cv_verdict v = VV_PARTIALLY_SUPPORTED) verdicts)
       (list_ex cv_non_waivable verdicts)
       (list_ex (\<lambda>v. rk_level (the (risk_by_claim (cv_claim_id v))) = RL_CRITICAL
            \<and> \<not> settled (cv_verdict v)) verdicts)
       revision_round risk_by_claim"

definition revision_blocks :: "(uuid \<rightharpoonup> claim) \<Rightarrow> claim_verdict list \<Rightarrow> string list" where
  "revision_blocks claim_by_id verdicts =
     sorted_set (map (\<lambda>v. cl_block_id (the (claim_by_id (cv_claim_id v))))
       (filter (\<lambda>v. cv_verdict v = VV_PARTIALLY_SUPPORTED \<or> cv_verdict v = VV_CONTRADICTED
            \<or> insufficient (cv_verdict v)) verdicts))"

definition overall_confidence :: "claim_verdict list \<Rightarrow> (uuid \<rightharpoonup> claim_risk) \<Rightarrow> rat" where
  "overall_confidence verdicts risk_by_claim =
     (let weights = map (\<lambda>v. fadd 1 (rk_score (the (risk_by_claim (cv_claim_id v))))) verdicts;
          total = fsum weights
      in fdiv (fsum (map (\<lambda>(v, w). fmul (cv_confidence v) w) (zip verdicts weights))) total)"

definition disclosures_for :: "aggregate_decision \<Rightarrow> claim_verdict list \<Rightarrow> string list" where
  "disclosures_for decision verdicts =
     (let codes = sorted_set (concat (map cv_disclosure_codes verdicts))
      in if decision = AD_RELEASE_WITH_DISCLOSURE \<and> codes = []
         then codes @ [''PARTIAL_SUPPORT_DISCLOSURE''] else codes)"

definition candidate_decision ::
  "hash_env \<Rightarrow> aggregation_policy \<Rightarrow> string \<Rightarrow> tenant \<Rightarrow> timestamp \<Rightarrow> claim list \<Rightarrow> claim_risk list
     \<Rightarrow> claim_verdict list \<Rightarrow> int \<Rightarrow> contract_error + aggregation_result" where
  "candidate_decision h p trace_id tenant_id created_at claims risks verdicts revision_round =
     (let claim_by_id = dict_by cl_claim_id claims;
          risk_by_claim = dict_by rk_claim_id risks;
          decision = decision_for p risk_by_claim verdicts revision_round;
          candidate = hd claims;
          seed = c_sha h (DObj
            [(''verification_id'', DStr (cl_verification_id candidate)),
             (''claim_verdict_ids'', DList (map (\<lambda>v. DStr (cv_claim_verdict_id v)) verdicts)),
             (''decision'', DStr (decision_value decision)),
             (''revision_round'', DInt revision_round),
             (''policy_version'', DStr (ay_policy_version p))])
      in build_topic4_record h aggregation_result_doc valid_aggregation_result
        \<lparr>t4_trace_id = trace_id, t4_tenant_id = tenant_id, t4_version_cas = revision_round + 1,
         t4_record_sha256 = [], t4_created_at = created_at,
         ar_aggregation_result_id = c_uuid5 h namespace_url
           (''liyans:topic4:aggregation:'' @ tenant_id @ '':'' @ seed),
         ar_verification_id = cl_verification_id candidate,
         ar_candidate_id = cl_candidate_id candidate,
         ar_candidate_version = cl_candidate_version candidate,
         ar_candidate_sha256 = cl_candidate_sha256 candidate, ar_decision = decision,
         ar_claim_verdict_ids = map cv_claim_verdict_id verdicts,
         ar_supported_count = count_verdicts settled verdicts,
         ar_contradicted_count = count_verdicts (\<lambda>v. v = VV_CONTRADICTED) verdicts,
         ar_insufficient_count = count_verdicts insufficient verdicts,
         ar_unsafe_count = count_verdicts (\<lambda>v. v = VV_UNSAFE) verdicts,
         ar_overall_confidence = py_round (overall_confidence verdicts risk_by_claim) 6,
         ar_revision_block_ids = revision_blocks claim_by_id verdicts,
         ar_disclosure_codes = disclosures_for decision verdicts,
         ar_policy_version = ay_policy_version p\<rparr>)"

text \<open>The loop that groups the results by claim raises on the first foreign one.\<close>

fun check_results :: "uuid set \<Rightarrow> uuid \<Rightarrow> module_result list \<Rightarrow> aggregation_error + unit" where
  "check_results known verification_id [] = Inr ()"
| "check_results known verification_id (r # rs) =
     (if rr_claim_id r \<notin> known
      then Inl (Aggregation_error ''module result references an unknown claim'')
      else if rr_verification_id r \<noteq> verification_id
      then Inl (Aggregation_error ''module result belongs to a different verification'')
      else check_results known verification_id rs)"

definition aggregate ::
  "hash_env \<Rightarrow> aggregation_policy \<Rightarrow> string \<Rightarrow> tenant \<Rightarrow> timestamp \<Rightarrow> claim list \<Rightarrow> claim_risk list
     \<Rightarrow> module_result list \<Rightarrow> int \<Rightarrow> aggregation_error + claim_verdict list \<times> aggregation_result"
where
  "aggregate h p trace_id tenant_id created_at claims risks results revision_round =
     rbind (guard (claims \<noteq> []) (Aggregation_error ''aggregation requires at least one claim'')) (\<lambda>_.
     rbind (guard (\<not> (revision_round < 0 \<or> 2 < revision_round))
       (Aggregation_error ''revision_round must be between zero and two'')) (\<lambda>_.
     rbind (guard (set (map rk_claim_id risks) = set (map cl_claim_id claims))
       (Aggregation_error ''every claim must have exactly one risk assessment'')) (\<lambda>_.
     rbind (check_results (set (map rk_claim_id risks)) (cl_verification_id (hd claims)) results) (\<lambda>_.
     rbind (map_ok (\<lambda>claim. claim_verdict_of h p trace_id tenant_id created_at claim
         (the (dict_by rk_claim_id risks (cl_claim_id claim)))
         (filter (\<lambda>r. rr_claim_id r = cl_claim_id claim) results)) claims) (\<lambda>verdicts.
     rbind (lift_aggregation (candidate_decision h p trace_id tenant_id created_at claims risks
         verdicts revision_round)) (\<lambda>aggregation.
     Inr (verdicts, aggregation)))))))"

subsection \<open>The evidence chain\<close>

definition chain_hash :: "hash_env \<Rightarrow> int \<Rightarrow> uuid \<Rightarrow> digest \<Rightarrow> digest option \<Rightarrow> digest" where
  "chain_hash h sequence evidence_ref_id digest previous_hash =
     c_sha h (DObj [(''sequence'', DInt sequence), (''evidence_ref_id'', DStr evidence_ref_id),
                    (''evidence_sha256'', DStr digest),
                    (''previous_chain_sha256'', opt_doc DStr previous_hash)])"

fun chain_items ::
  "hash_env \<Rightarrow> string \<Rightarrow> tenant \<Rightarrow> timestamp \<Rightarrow> int \<Rightarrow> digest option \<Rightarrow> (uuid \<times> digest) list
     \<Rightarrow> contract_error + chain_item list \<times> digest option" where
  "chain_items h trace_id tenant_id created_at sequence previous_hash [] = Inr ([], previous_hash)"
| "chain_items h trace_id tenant_id created_at sequence previous_hash ((ref, digest) # evidence) =
     (let chain_sha256 = chain_hash h sequence ref digest previous_hash
      in rbind (build_topic4_record h chain_item_doc valid_chain_item
             \<lparr>t4_trace_id = trace_id, t4_tenant_id = tenant_id, t4_version_cas = 1,
              t4_record_sha256 = [], t4_created_at = created_at, ci_evidence_ref_id = ref,
              ci_sequence = sequence, ci_evidence_sha256 = digest,
              ci_previous_chain_sha256 = previous_hash, ci_chain_sha256 = chain_sha256\<rparr>) (\<lambda>item.
         rbind (chain_items h trace_id tenant_id created_at (sequence + 1) (Some chain_sha256) evidence)
           (\<lambda>(items, head). Inr (item # items, head))))"

definition chain_evidence ::
  "(uuid \<rightharpoonup> digest) \<Rightarrow> module_result list \<Rightarrow> aggregation_error + (uuid \<times> digest) list" where
  "chain_evidence evidence_digests module_results =
     (let referenced_ids = sorted_set (concat (map rr_evidence_ref_ids module_results))
      in if referenced_ids \<noteq> []
         then rbind (guard (list_all (\<lambda>i. evidence_digests i \<noteq> None) referenced_ids)
                (Aggregation_error ''evidence digest lookup is incomplete'')) (\<lambda>_.
              Inr (map (\<lambda>i. (i, the (evidence_digests i))) referenced_ids))
         else Inr (sort_key fst (map (\<lambda>r. (rr_module_result_id r, rr_result_sha256 r)) module_results)))"

definition evidence_chain_manifest ::
  "hash_env \<Rightarrow> uuid \<Rightarrow> uuid \<Rightarrow> (uuid \<rightharpoonup> digest) \<Rightarrow> module_result list \<Rightarrow> string \<Rightarrow> tenant
     \<Rightarrow> timestamp \<Rightarrow> aggregation_error + chain_manifest" where
  "evidence_chain_manifest h verification_id report_id evidence_digests module_results trace_id
     tenant_id created_at =
     rbind (chain_evidence evidence_digests module_results) (\<lambda>evidence.
     rbind (guard (evidence \<noteq> []) (Aggregation_error
       ''verification report requires at least one evidence-chain item'')) (\<lambda>_.
     rbind (lift_aggregation (chain_items h trace_id tenant_id created_at 0 None evidence))
       (\<lambda>(items, previous_hash).
     (let manifest_seed = c_sha h (DObj [(''verification_id'', DStr verification_id),
            (''report_id'', DStr report_id), (''root_chain_sha256'', opt_doc DStr previous_hash)])
      in lift_aggregation (build_topic4_record h chain_manifest_doc valid_chain_manifest
        \<lparr>t4_trace_id = trace_id, t4_tenant_id = tenant_id, t4_version_cas = 1,
         t4_record_sha256 = [], t4_created_at = created_at,
         cm_evidence_chain_manifest_id = c_uuid5 h namespace_url
           (''liyans:topic4:evidence-chain:'' @ tenant_id @ '':'' @ manifest_seed),
         cm_verification_id = verification_id, cm_report_id = report_id, cm_items = items,
         cm_root_chain_sha256 = the previous_hash\<rparr>)))))"

subsection \<open>The latest result of a module\<close>

definition initial_order :: "int \<times> timestamp \<times> uuid" where
  "initial_order = (- 1, datetime_min, [])"

definition latest_result :: "module_result list \<Rightarrow> verification_module \<Rightarrow> module_result \<Rightarrow> bool" where
  "latest_result results m r \<longleftrightarrow> r \<in> set results \<and> rr_module r = m \<and> initial_order < result_order r
     \<and> (\<forall>q\<in>set results. rr_module q = m \<longrightarrow> result_order q \<le> result_order r)"

lemma keep_latest_alt:
  "keep_latest latest r = (if (case latest (rr_module r) of None \<Rightarrow> initial_order
      | Some c \<Rightarrow> result_order c) < result_order r then latest(rr_module r \<mapsto> r) else latest)"
  unfolding keep_latest_def Let_def initial_order_def by (rule refl)

lemma latest_by_module_spec:
  "case latest_by_module results m of
     None \<Rightarrow> (\<forall>q\<in>set results. rr_module q = m \<longrightarrow> \<not> initial_order < result_order q)
   | Some r \<Rightarrow> latest_result results m r"
proof (induction results rule: rev_induct)
  case Nil
  then show ?case by (simp add: latest_by_module_def)
next
  case (snoc x xs)
  have step: "latest_by_module (xs @ [x]) = keep_latest (latest_by_module xs) x"
    by (simp add: latest_by_module_def)
  show ?case
  proof (cases "rr_module x = m")
    case False
    then show ?thesis
      using snoc.IH by (auto simp: step keep_latest_alt latest_result_def split: option.splits)
  next
    case True
    show ?thesis
    proof (cases "latest_by_module xs m")
      case None
      with snoc.IH True show ?thesis
        by (auto simp: step keep_latest_alt latest_result_def not_less)
    next
      case (Some c)
      with snoc.IH have c: "latest_result xs m c" by simp
      show ?thesis
      proof (cases "result_order c < result_order x")
        case True': True
        then have "latest_by_module (xs @ [x]) m = Some x"
          using True Some by (simp add: step keep_latest_alt)
        moreover have "latest_result (xs @ [x]) m x"
          unfolding latest_result_def
        proof (intro conjI ballI impI)
          show "initial_order < result_order x"
            using c True' by (auto simp: latest_result_def)
          show "result_order q \<le> result_order x" if "q \<in> set (xs @ [x])" "rr_module q = m" for q
            using that c True' by (force simp: latest_result_def)
        qed (simp_all add: True)
        ultimately show ?thesis by simp
      next
        case False
        then have "latest_by_module (xs @ [x]) m = Some c"
          using True Some by (simp add: step keep_latest_alt)
        moreover have "latest_result (xs @ [x]) m c"
          using c False by (auto simp: latest_result_def)
        ultimately show ?thesis by simp
      qed
    qed
  qed
qed

lemma latest_SomeD: "latest_by_module results m = Some r \<Longrightarrow> latest_result results m r"
  using latest_by_module_spec [of results m] by simp

lemma latest_NoneD:
  "latest_by_module results m = None \<Longrightarrow> q \<in> set results \<Longrightarrow> rr_module q = m
     \<Longrightarrow> \<not> initial_order < result_order q"
  using latest_by_module_spec [of results m] by simp

lemma latest_unique:
  assumes "latest_result results m r" "latest_result results m r'"
    and "distinct (map rr_module_result_id results)"
  shows "r = r'"
proof -
  have "result_order r = result_order r'"
    using assms(1,2) by (intro order_antisym) (auto simp: latest_result_def)
  then have "rr_module_result_id r = rr_module_result_id r'" by (simp add: result_order_def)
  with assms show ?thesis
    by (auto simp: latest_result_def distinct_map dest: inj_onD)
qed

lemma latest_perm:
  assumes "mset results = mset results'" "distinct (map rr_module_result_id results)"
  shows "latest_by_module results = latest_by_module results'"
proof
  fix m
  have same: "set results = set results'" using assms(1) by (rule mset_eq_setD)
  then have lr: "latest_result results' m r \<longleftrightarrow> latest_result results m r" for r
    by (simp add: latest_result_def)
  show "latest_by_module results m = latest_by_module results' m"
  proof (cases "latest_by_module results m")
    case None
    have "latest_by_module results' m = None"
    proof (rule ccontr)
      assume "latest_by_module results' m \<noteq> None"
      then obtain r where "latest_by_module results' m = Some r" by blast
      from latest_SomeD [OF this] have "r \<in> set results" "rr_module r = m"
          "initial_order < result_order r"
        by (auto simp: latest_result_def same)
      with latest_NoneD [OF None] show False by blast
    qed
    with None show ?thesis by simp
  next
    case (Some r)
    from latest_SomeD [OF Some] have r: "latest_result results m r" .
    have "latest_by_module results' m \<noteq> None"
      using latest_NoneD [of results' m r] r by (auto simp: latest_result_def same)
    then obtain r' where r': "latest_by_module results' m = Some r'" by blast
    from latest_SomeD [OF this] have "latest_result results m r'" by (simp add: lr)
    from latest_unique [OF r this assms(2)] Some r' show ?thesis by simp
  qed
qed

text \<open>
  C18.  A verdict does not depend on the order in which the module results were collected: any
  two orderings of the same results, which have distinct identifiers, give the same record.
\<close>

theorem verdict_order_independent:
  assumes "mset results = mset results'" "distinct (map rr_module_result_id results)"
  shows "claim_verdict_of h p trace tenant now claim risk results
     = claim_verdict_of h p trace tenant now claim risk results'"
proof -
  have "length results = length results'" using assms(1) by (rule mset_eq_length)
  then show ?thesis
    using latest_perm [OF assms] by (simp add: claim_verdict_of_def verdict_reasons_def Let_def)
qed

subsection \<open>What a verdict says about the results\<close>

lemma in_map_filter: "x \<in> set (List.map_filter f xs) \<longleftrightarrow> (\<exists>y\<in>set xs. f y = Some x)"
  by (induction xs) (auto simp: map_filter_simps split: option.split)

lemma subset_pair: "vs \<subseteq> {a, b} \<Longrightarrow> vs \<noteq> {b} \<Longrightarrow> vs \<noteq> {} \<Longrightarrow> a \<in> vs"
  by blast

lemma resolve_supported:
  assumes "resolve_verdict vs missing = VV_SUPPORTED"
  shows "\<not> missing \<and> vs \<subseteq> {VV_SUPPORTED, VV_NOT_APPLICABLE}"
  using assms by (auto simp: resolve_verdict_def split: if_splits)

lemma resolve_releasable:
  assumes "resolve_verdict vs missing \<in> {VV_SUPPORTED, VV_NOT_APPLICABLE, VV_PARTIALLY_SUPPORTED}"
  shows "\<not> missing \<and> vs \<subseteq> {VV_SUPPORTED, VV_NOT_APPLICABLE, VV_PARTIALLY_SUPPORTED}"
proof -
  have "v \<in> {VV_SUPPORTED, VV_NOT_APPLICABLE, VV_PARTIALLY_SUPPORTED}" if "v \<in> vs" for v
    using assms that by (cases v) (auto simp: resolve_verdict_def split: if_splits)
  moreover have "\<not> missing" using assms by (auto simp: resolve_verdict_def split: if_splits)
  ultimately show ?thesis by blast
qed

lemma resolve_settled:
  assumes "settled (resolve_verdict vs missing)"
  shows "vs \<subseteq> {VV_SUPPORTED, VV_NOT_APPLICABLE}"
  using assms by (auto simp: resolve_verdict_def settled_def split: if_splits)

lemma resolve_unsafe: "resolve_verdict vs missing = VV_UNSAFE \<longleftrightarrow> VV_UNSAFE \<in> vs"
  by (auto simp: resolve_verdict_def)

lemma claim_verdict_parts:
  assumes "claim_verdict_of h p trace tenant now claim risk results = Inr v"
  defines "selected \<equiv> List.map_filter (latest_by_module results) (rk_mandatory_modules risk)"
    and "missing \<equiv> filter (\<lambda>m. latest_by_module results m = None) (rk_mandatory_modules risk)"
  shows "cv_claim_id v = cl_claim_id claim" "selected \<noteq> []"
    and "cv_verdict v = resolve_verdict (set (map rr_verdict selected)) (missing \<noteq> [])"
    and "cv_non_waivable v = is_non_waivable (cv_verdict v) selected"
    and "set (cv_evidence_ref_ids v) = (\<Union>r\<in>set selected. set (rr_evidence_ref_ids r))"
    and "cv_disclosure_codes v = verdict_disclosures (cv_verdict v)"
    and "valid_claim_verdict v" "record_integrity_valid h claim_verdict_doc v"
proof -
  from assms(1) obtain vals
    where b: "build_topic4_record h claim_verdict_doc valid_claim_verdict vals = Inr v"
    and sel: "selected \<noteq> []"
    and f: "cv_claim_id vals = cl_claim_id claim"
      "cv_verdict vals = resolve_verdict (set (map rr_verdict selected)) (missing \<noteq> [])"
      "cv_non_waivable vals = is_non_waivable (cv_verdict vals) selected"
      "set (cv_evidence_ref_ids vals) = (\<Union>r\<in>set selected. set (rr_evidence_ref_ids r))"
      "cv_disclosure_codes vals = verdict_disclosures (cv_verdict vals)"
    unfolding claim_verdict_of_def Let_def selected_def [symmetric] missing_def [symmetric]
    by (elim rbind_InrE) (simp only: lift_aggregation_Inr_iff guard_Inr_iff, rule that, assumption, simp_all)
  note seal = claim_verdict_seal.build_seals [OF b]
  show "selected \<noteq> []" by (rule sel)
  from f seal show "cv_claim_id v = cl_claim_id claim"
      "cv_verdict v = resolve_verdict (set (map rr_verdict selected)) (missing \<noteq> [])"
      "cv_non_waivable v = is_non_waivable (cv_verdict v) selected"
      "set (cv_evidence_ref_ids v) = (\<Union>r\<in>set selected. set (rr_evidence_ref_ids r))"
      "cv_disclosure_codes v = verdict_disclosures (cv_verdict v)"
      "valid_claim_verdict v" "record_integrity_valid h claim_verdict_doc v"
    by simp_all
qed

lemma covered_results:
  assumes "filter (\<lambda>m. latest_by_module results m = None) ms = []" "m \<in> set ms"
    and "set (map rr_verdict (List.map_filter (latest_by_module results) ms)) \<subseteq> V"
  shows "\<exists>r. latest_result results m r \<and> rr_verdict r \<in> V"
proof -
  from assms(1,2) obtain r where r: "latest_by_module results m = Some r"
    by (auto simp: filter_empty_conv)
  then have "r \<in> set (List.map_filter (latest_by_module results) ms)"
    using assms(2) by (auto simp: in_map_filter)
  with assms(3) have "rr_verdict r \<in> V" by auto
  with latest_SomeD [OF r] show ?thesis by blast
qed

text \<open>
  A verdict is never better than the evidence: \<open>SUPPORTED\<close> means that every mandatory module has
  a result and the latest one supports the claim or does not apply to it, with at least one piece
  of evidence on record; a missing module leaves only \<open>UNSAFE\<close> or \<open>ERROR\<close>; and the verdict is \<open>UNSAFE\<close>
  exactly if the latest result of some mandatory module is.
\<close>

theorem verdict_sound:
  assumes "claim_verdict_of h p trace tenant now claim risk results = Inr v"
    and "list_all valid_module_result results"
  shows "(cv_verdict v = VV_SUPPORTED \<longrightarrow> cv_evidence_ref_ids v \<noteq> []
       \<and> (\<forall>m\<in>set (rk_mandatory_modules risk). \<exists>r. latest_result results m r
            \<and> rr_verdict r \<in> {VV_SUPPORTED, VV_NOT_APPLICABLE}))
     \<and> ((\<exists>m\<in>set (rk_mandatory_modules risk). \<nexists>r. latest_result results m r)
          \<longrightarrow> cv_verdict v \<in> {VV_UNSAFE, VV_ERROR})
     \<and> (cv_verdict v = VV_UNSAFE \<longleftrightarrow>
          (\<exists>m\<in>set (rk_mandatory_modules risk). \<exists>r. latest_by_module results m = Some r
             \<and> rr_verdict r = VV_UNSAFE))"
proof -
  let ?latest = "latest_by_module results"
  let ?sel = "List.map_filter ?latest (rk_mandatory_modules risk)"
  let ?missing = "filter (\<lambda>m. ?latest m = None) (rk_mandatory_modules risk)"
  note parts = claim_verdict_parts [OF assms(1)]
  have supported: "cv_evidence_ref_ids v \<noteq> [] \<and> (\<forall>m\<in>set (rk_mandatory_modules risk).
      \<exists>r. latest_result results m r \<and> rr_verdict r \<in> {VV_SUPPORTED, VV_NOT_APPLICABLE})"
    if "cv_verdict v = VV_SUPPORTED"
  proof -
    let ?vs = "set (map rr_verdict ?sel)"
    from that parts(3) have res: "resolve_verdict ?vs (?missing \<noteq> []) = VV_SUPPORTED" by simp
    from resolve_supported [OF this] have vs: "?missing = []" "?vs \<subseteq> {VV_SUPPORTED, VV_NOT_APPLICABLE}"
      by auto
    from res have "?vs \<noteq> {VV_NOT_APPLICABLE}"
      by (auto simp: resolve_verdict_def split: if_splits)
    moreover have "?vs \<noteq> {}" using parts(2) by simp
    ultimately have "VV_SUPPORTED \<in> ?vs"
      using vs(2) by (intro subset_pair [of ?vs])
    then obtain r where r: "r \<in> set ?sel" "rr_verdict r = VV_SUPPORTED" by auto
    then have "latest_result results (rr_module r) r"
      using latest_SomeD by (fastforce simp: in_map_filter latest_result_def)
    then have "valid_module_result r"
      using assms(2) by (auto simp: latest_result_def list_all_iff)
    then have "rr_evidence_ref_ids r \<noteq> []" using r(2) by (auto simp: valid_module_result_def)
    then have "set (cv_evidence_ref_ids v) \<noteq> {}" using parts(5) r(1) by auto
    then have "cv_evidence_ref_ids v \<noteq> []" by auto
    with covered_results [OF vs(1) _ vs(2)] show ?thesis by blast
  qed
  have missing: "cv_verdict v \<in> {VV_UNSAFE, VV_ERROR}"
    if "m \<in> set (rk_mandatory_modules risk)" "\<nexists>r. latest_result results m r" for m
  proof -
    have "?latest m = None" using that(2) latest_SomeD by (cases "?latest m") auto
    with that(1) have "?missing \<noteq> []" by (auto simp: filter_empty_conv)
    with parts(3) show ?thesis by (simp add: resolve_verdict_def)
  qed
  have "cv_verdict v = VV_UNSAFE \<longleftrightarrow> (\<exists>m\<in>set (rk_mandatory_modules risk). \<exists>r. ?latest m = Some r
             \<and> rr_verdict r = VV_UNSAFE)"
    unfolding parts(3) resolve_unsafe by (force simp: in_map_filter image_iff)
  with supported missing show ?thesis by blast
qed

subsection \<open>The decision\<close>

lemma count_zero: "count_verdicts P verdicts = 0 \<longleftrightarrow> (\<forall>v\<in>set verdicts. \<not> P (cv_verdict v))"
  by (auto simp: count_verdicts_def filter_empty_conv)

lemma count_nonneg [simp]: "0 \<le> count_verdicts P verdicts"
  by (simp add: count_verdicts_def)

lemma decision_block:
  "decision_for p risks verdicts n = AD_BLOCK \<longleftrightarrow>
     (\<exists>v\<in>set verdicts. cv_verdict v = VV_UNSAFE \<or> cv_non_waivable v)"
  by (auto simp: decision_for_def decide_def count_zero list_ex_iff)

lemma decision_release:
  assumes "decision_for p risks verdicts n = AD_RELEASE" "v \<in> set verdicts"
  shows "settled (cv_verdict v)"
proof -
  from assms have "cv_verdict v \<notin> {VV_UNSAFE, VV_CONTRADICTED, VV_INSUFFICIENT_EVIDENCE, VV_ERROR,
      VV_PARTIALLY_SUPPORTED}"
    by (auto simp: decision_for_def decide_def count_zero list_ex_iff insufficient_def
        filter_empty_conv split: if_splits)
  then show ?thesis by (cases "cv_verdict v") (simp_all add: settled_def)
qed

lemma decision_disclosure:
  assumes "decision_for p risks verdicts n = AD_RELEASE_WITH_DISCLOSURE" "v \<in> set verdicts"
  shows "settled (cv_verdict v) \<or> cv_verdict v = VV_PARTIALLY_SUPPORTED
     \<and> rk_level (the (risks (cv_claim_id v))) \<in> {RL_LOW, ay_partial_release_max_risk p}
     \<and> rk_level (the (risks (cv_claim_id v))) \<noteq> RL_CRITICAL"
proof (cases "cv_verdict v = VV_PARTIALLY_SUPPORTED")
  case True
  with assms show ?thesis
    by (auto simp: decision_for_def decide_def list_all_iff list_ex_iff settled_def split: if_splits)
next
  case False
  with assms have "cv_verdict v \<notin> {VV_UNSAFE, VV_CONTRADICTED, VV_INSUFFICIENT_EVIDENCE, VV_ERROR,
      VV_PARTIALLY_SUPPORTED}"
    by (auto simp: decision_for_def decide_def count_zero list_ex_iff insufficient_def split: if_splits)
  then show ?thesis by (cases "cv_verdict v") (simp_all add: settled_def)
qed

lemma decision_revise:
  assumes "decision_for p risks verdicts n = AD_REVISE"
  shows "n < 2 \<and> (\<exists>v\<in>set verdicts. cv_verdict v = VV_PARTIALLY_SUPPORTED
     \<or> cv_verdict v = VV_CONTRADICTED \<or> insufficient (cv_verdict v))"
proof -
  have "n < 2" using assms by (auto simp: decision_for_def decide_def split: if_splits)
  moreover have "count_verdicts (\<lambda>v. v = VV_CONTRADICTED) verdicts \<noteq> 0
      \<or> count_verdicts insufficient verdicts \<noteq> 0
      \<or> filter (\<lambda>v. cv_verdict v = VV_PARTIALLY_SUPPORTED) verdicts \<noteq> []"
    using assms by (auto simp: decision_for_def decide_def split: if_splits)
  ultimately show ?thesis by (auto simp: count_zero filter_empty_conv)
qed

lemma candidate_parts:
  assumes "candidate_decision h p trace tenant now claims risks verdicts n = Inr agg"
  shows "ar_decision agg = decision_for p (dict_by rk_claim_id risks) verdicts n"
    and "ar_revision_block_ids agg = revision_blocks (dict_by cl_claim_id claims) verdicts"
    and "ar_claim_verdict_ids agg = map cv_claim_verdict_id verdicts"
    and "valid_aggregation_result agg" "record_integrity_valid h aggregation_result_doc agg"
  using aggregation_result_seal.build_seals [OF assms [unfolded candidate_decision_def Let_def]]
  by simp_all

lemma aggregate_parts:
  assumes "aggregate h p trace tenant now claims risks results n = Inr (verdicts, agg)"
  shows "claims \<noteq> []" "0 \<le> n" "n \<le> 2" "rk_claim_id ` set risks = cl_claim_id ` set claims"
    and "list_all2 (\<lambda>claim v. claim_verdict_of h p trace tenant now claim
         (the (dict_by rk_claim_id risks (cl_claim_id claim)))
         (filter (\<lambda>r. rr_claim_id r = cl_claim_id claim) results) = Inr v) claims verdicts"
    and "candidate_decision h p trace tenant now claims risks verdicts n = Inr agg"
  using assms unfolding aggregate_def
  by (elim rbind_InrE; auto simp: guard_Inr_iff map_ok_Inr_iff)+

text \<open>
  C17.  The release gate.  A candidate is only released, with or without disclosure, when every
  mandatory module of every claim has delivered and its latest result is \<open>SUPPORTED\<close>,
  \<open>NOT_APPLICABLE\<close> or (with disclosure, for claims whose risk the policy admits and that are not
  critical) \<open>PARTIALLY_SUPPORTED\<close>; one unsafe or non-waivable verdict blocks; a revision is only asked
  for in the first two rounds and names the blocks to revise; the record is sealed and valid.
\<close>

theorem release_gate:
  assumes "aggregate h p trace tenant now claims risks results n = Inr (verdicts, agg)"
  shows "valid_aggregation_result agg \<and> record_integrity_valid h aggregation_result_doc agg
     \<and> map cv_claim_id verdicts = map cl_claim_id claims
     \<and> (ar_decision agg = AD_BLOCK \<longleftrightarrow>
          (\<exists>v\<in>set verdicts. cv_verdict v = VV_UNSAFE \<or> cv_non_waivable v))
     \<and> (ar_decision agg = AD_REVISE \<longrightarrow> n < 2 \<and> ar_revision_block_ids agg \<noteq> [])
     \<and> (ar_decision agg \<in> {AD_RELEASE, AD_RELEASE_WITH_DISCLOSURE} \<longrightarrow>
          (\<forall>claim\<in>set claims. let risk = the (dict_by rk_claim_id risks (cl_claim_id claim)) in
             \<forall>m\<in>set (rk_mandatory_modules risk). \<exists>r.
               latest_result (filter (\<lambda>r. rr_claim_id r = cl_claim_id claim) results) m r
               \<and> (rr_verdict r \<in> {VV_SUPPORTED, VV_NOT_APPLICABLE}
                  \<or> rr_verdict r = VV_PARTIALLY_SUPPORTED
                    \<and> ar_decision agg = AD_RELEASE_WITH_DISCLOSURE
                    \<and> rk_level risk \<in> {RL_LOW, ay_partial_release_max_risk p}
                    \<and> rk_level risk \<noteq> RL_CRITICAL)))"
proof -
  note parts = aggregate_parts [OF assms]
  note cand = candidate_parts [OF parts(6)]
  have "map cv_claim_id verdicts = map cl_claim_id claims"
    using parts(5) by (induction rule: list_all2_induct) (simp_all add: claim_verdict_parts(1))
  moreover have "ar_decision agg = AD_REVISE \<longrightarrow> n < 2 \<and> ar_revision_block_ids agg \<noteq> []"
    using decision_revise [of p "dict_by rk_claim_id risks" verdicts n] cand(1,2)
    by (auto simp: revision_blocks_def filter_empty_conv)
  moreover have "let risk = the (dict_by rk_claim_id risks (cl_claim_id claim)) in
             \<forall>m\<in>set (rk_mandatory_modules risk). \<exists>r.
               latest_result (filter (\<lambda>r. rr_claim_id r = cl_claim_id claim) results) m r
               \<and> (rr_verdict r \<in> {VV_SUPPORTED, VV_NOT_APPLICABLE}
                  \<or> rr_verdict r = VV_PARTIALLY_SUPPORTED
                    \<and> ar_decision agg = AD_RELEASE_WITH_DISCLOSURE
                    \<and> rk_level risk \<in> {RL_LOW, ay_partial_release_max_risk p}
                    \<and> rk_level risk \<noteq> RL_CRITICAL)"
    if rel: "ar_decision agg \<in> {AD_RELEASE, AD_RELEASE_WITH_DISCLOSURE}" and c: "claim \<in> set claims"
    for claim
  proof -
    let ?risk = "the (dict_by rk_claim_id risks (cl_claim_id claim))"
    let ?rs = "filter (\<lambda>r. rr_claim_id r = cl_claim_id claim) results"
    from list_all2_ex [OF parts(5) c] obtain v where v: "v \<in> set verdicts"
        "claim_verdict_of h p trace tenant now claim ?risk ?rs = Inr v"
      by blast
    note vp = claim_verdict_parts [OF v(2)]
    let ?vs = "set (map rr_verdict (List.map_filter (latest_by_module ?rs) (rk_mandatory_modules ?risk)))"
    from rel decision_release [of p _ verdicts n v] decision_disclosure [of p _ verdicts n v] cand(1) v(1)
      vp(1)
    have d: "settled (cv_verdict v) \<or> cv_verdict v = VV_PARTIALLY_SUPPORTED
        \<and> ar_decision agg = AD_RELEASE_WITH_DISCLOSURE
        \<and> rk_level ?risk \<in> {RL_LOW, ay_partial_release_max_risk p} \<and> rk_level ?risk \<noteq> RL_CRITICAL"
      by auto
    then have "cv_verdict v \<in> {VV_SUPPORTED, VV_NOT_APPLICABLE, VV_PARTIALLY_SUPPORTED}"
      by (auto simp: settled_def)
    from resolve_releasable [OF this [unfolded vp(3)]]
    have none: "filter (\<lambda>m. latest_by_module ?rs m = None) (rk_mandatory_modules ?risk) = []"
      and vs: "?vs \<subseteq> {VV_SUPPORTED, VV_NOT_APPLICABLE, VV_PARTIALLY_SUPPORTED}"
      by blast+
    have "?vs \<subseteq> {VV_SUPPORTED, VV_NOT_APPLICABLE}" if "settled (cv_verdict v)"
      using resolve_settled that unfolding vp(3) by blast
    with d covered_results [OF none] vs show ?thesis unfolding Let_def by blast
  qed
  ultimately show ?thesis
    using cand(4,5) decision_block [of p "dict_by rk_claim_id risks" verdicts n] by (simp add: cand(1))
qed

subsection \<open>Confidence and totality\<close>

text \<open>Rounded weighted means of values in the unit interval stay in the unit interval.\<close>

lemma weighted_mean_unit:
  assumes "\<forall>(x, w)\<in>set xws. 0 \<le> x \<and> x \<le> 1 \<and> 0 \<le> w \<and> fl w = w"
  shows "unit_interval (fdiv (fsum (map (\<lambda>(x, w). fmul x w) xws)) (fsum (map snd xws)))"
proof -
  have "list_all2 (\<le>) (map (\<lambda>(x, w). fmul x w) xws) (map snd xws)"
    using assms double.rnd_mult_le
    by (induction xws) (auto simp: fmul_def)
  then have le: "fsum (map (\<lambda>(x, w). fmul x w) xws) \<le> fsum (map snd xws)" by (rule fsum_mono)
  have "0 \<le> fsum (map (\<lambda>(x, w). fmul x w) xws)"
    using assms by (intro fsum_nonneg) (auto simp: fmul_def fl_nonneg)
  with le have "0 \<le> fsum (map (\<lambda>(x, w). fmul x w) xws) / fsum (map snd xws)
      \<and> fsum (map (\<lambda>(x, w). fmul x w) xws) / fsum (map snd xws) \<le> 1"
    by (auto simp: divide_le_eq_1 zero_le_divide_iff)
  then show ?thesis by (simp add: unit_interval_def fdiv_def double.rnd_unit)
qed

lemma overall_confidence_unit:
  assumes "\<forall>v\<in>set verdicts. unit_interval (cv_confidence v)
      \<and> unit_interval (rk_score (the (risks (cv_claim_id v))))"
  shows "unit_interval (overall_confidence verdicts risks)"
proof -
  let ?w = "\<lambda>v. fadd 1 (rk_score (the (risks (cv_claim_id v))))"
  let ?xws = "map (\<lambda>v. (cv_confidence v, ?w v)) verdicts"
  have "\<forall>(x, w)\<in>set ?xws. 0 \<le> x \<and> x \<le> 1 \<and> 0 \<le> w \<and> fl w = w"
    using assms by (auto simp: unit_interval_def fadd_def fl_nonneg)
  from weighted_mean_unit [OF this] show ?thesis
    by (simp add: overall_confidence_def Let_def zip_map2 zip_same_conv_map comp_def)
qed

lemma confidence_unit: "unit_interval (confidence_of rs k)"
  by (simp add: confidence_of_def Let_def unit_interval_def)

lemma claim_verdict_total:
  assumes "is_trace_id trace" "is_tenant_id tenant" "\<And>d. is_sha256_hex (c_sha h d)"
    and "list_all valid_module_result results" "length (rk_mandatory_modules risk) \<le> 32"
    and "List.map_filter (latest_by_module results) (rk_mandatory_modules risk) \<noteq> []"
    and "card (\<Union>r\<in>set results. set (rr_finding_codes r)) \<le> 125"
    and "card (\<Union>r\<in>set results. set (rr_evidence_ref_ids r)) \<le> 1024"
  shows "\<exists>v. claim_verdict_of h p trace tenant now claim risk results = Inr v"
proof -
  let ?sel = "List.map_filter (latest_by_module results) (rk_mandatory_modules risk)"
  let ?missing = "filter (\<lambda>m. latest_by_module results m = None) (rk_mandatory_modules risk)"
  have sel: "set ?sel \<subseteq> set results"
    using latest_SomeD by (auto simp: in_map_filter latest_result_def)
  let ?codes = "\<Union>r\<in>set results. set (rr_finding_codes r)"
  let ?extra = "{''MODULE_RESULT_MISSING'', ''MODULE_RESULT_SUPERSEDED'', ''EVIDENCE_CONFLICT''}"
  have len: "length (sorted_set xs) = card (set xs)" for xs :: "string list"
    by (simp add: sorted_set_def length_remdups_card_conv)
  have reasons: "set (verdict_reasons results ?sel ?missing) \<subseteq> ?codes \<union> ?extra"
    using sel by (auto simp: verdict_reasons_def Let_def)
  have "card (set (verdict_reasons results ?sel ?missing)) \<le> card (?codes \<union> ?extra)"
    by (intro card_mono reasons) simp
  also have "\<dots> \<le> card ?codes + card ?extra" by (rule card_Un_le)
  also have "\<dots> \<le> 128" using assms(7) by simp
  finally have r128: "length (sorted_set (verdict_reasons results ?sel ?missing)) \<le> 128"
    by (simp only: len)
  have "is_reason_code c" if "c \<in> ?extra" for c
    using that by (elim insertE emptyE; hypsubst; code_simp)
  moreover have "is_reason_code c" if "c \<in> ?codes" for c
    using that assms(4) by (auto simp: list_all_iff valid_module_result_def)
  ultimately have ok: "is_reason_code c" if "c \<in> ?codes \<union> ?extra" for c
    using that by (elim UnE)
  have codes: "list_all is_reason_code (sorted_set (verdict_reasons results ?sel ?missing))"
    unfolding list_all_iff set_sorted_set by (intro ballI ok) (rule subsetD [OF reasons])
  have "card (set (concat (map rr_evidence_ref_ids ?sel))) \<le> card (\<Union>r\<in>set results. set (rr_evidence_ref_ids r))"
    using sel by (intro card_mono) auto
  then have ev: "length (sorted_set (concat (map rr_evidence_ref_ids ?sel))) \<le> 1024"
    using assms(8) by (simp only: len)
  have "length ?sel \<le> length (rk_mandatory_modules risk)" by (simp add: map_filter_def)
  then have n: "len_between 1 32 (map rr_module_result_id ?sel)"
    using assms(5,6) by (cases ?sel) (auto simp: len_between_def)
  have disc: "length (verdict_disclosures vd) \<le> 32 \<and> list_all is_reason_code (verdict_disclosures vd)" for vd
  proof -
    have "is_reason_code ''PARTIAL_SUPPORT_DISCLOSURE''" "is_reason_code ''INSUFFICIENT_EVIDENCE_DISCLOSURE''"
      by code_simp+
    then show ?thesis by (auto simp: verdict_disclosures_def)
  qed
  have conf: "unit_interval (py_round (confidence_of ?sel k) 6)" for k
    using confidence_unit [of ?sel k] py_round_unit by (simp add: unit_interval_def)
  show ?thesis
    unfolding claim_verdict_of_def Let_def rbind_Inr_iff lift_aggregation_Inr_iff guard_Inr_iff
      claim_verdict_seal.build_succeeds_iff
    using assms(1-3,6) r128 codes ev n disc conf
    by (simp add: valid_claim_verdict_def valid_topic4_record_def)
qed


text \<open>What the aggregator may assume of its inputs, and the size limits of the contract.\<close>

definition aggregation_ready ::
  "claim list \<Rightarrow> claim_risk list \<Rightarrow> module_result list \<Rightarrow> bool" where
  "aggregation_ready claims risks results \<longleftrightarrow>
     claims \<noteq> [] \<and> length claims \<le> 4096 \<and> list_all valid_claim claims
     \<and> list_all valid_claim_risk risks \<and> list_all valid_module_result results
     \<and> set (map rk_claim_id risks) = set (map cl_claim_id claims)
     \<and> card (cl_block_id ` set claims) \<le> 2048
     \<and> list_all (\<lambda>r. rr_claim_id r \<in> set (map cl_claim_id claims)
          \<and> rr_verification_id r = cl_verification_id (hd claims)) results
     \<and> list_all (\<lambda>claim. let own = filter (\<lambda>r. rr_claim_id r = cl_claim_id claim) results;
              risk = the (dict_by rk_claim_id risks (cl_claim_id claim))
          in list_ex (\<lambda>m. latest_by_module own m \<noteq> None) (rk_mandatory_modules risk)
             \<and> card (\<Union>r\<in>set own. set (rr_finding_codes r)) \<le> 125
             \<and> card (\<Union>r\<in>set own. set (rr_evidence_ref_ids r)) \<le> 1024) claims"

lemma check_results_ok:
  assumes "list_all (\<lambda>r. rr_claim_id r \<in> known \<and> rr_verification_id r = vid) results"
  shows "check_results known vid results = Inr ()"
  using assms by (induction results) auto

lemma candidate_decision_total:
  assumes "is_trace_id trace" "is_tenant_id tenant" "\<And>d. is_sha256_hex (c_sha h d)"
    and "is_version_string (ay_policy_version p)" "aggregation_ready claims risks results"
    and "map cv_claim_id verdicts = map cl_claim_id claims" "0 \<le> n"
    and "\<forall>v\<in>set verdicts. unit_interval (cv_confidence v)
           \<and> cv_disclosure_codes v = verdict_disclosures (cv_verdict v)"
  shows "\<exists>agg. candidate_decision h p trace tenant now claims risks verdicts n = Inr agg"
proof -
  note ready = assms(5) [unfolded aggregation_ready_def]
  let ?risks = "dict_by rk_claim_id risks" and ?claims = "dict_by cl_claim_id claims"
  let ?d = "decision_for p ?risks verdicts n"
  have ids: "cv_claim_id v \<in> cl_claim_id ` set claims" if "v \<in> set verdicts" for v
    using that arg_cong [OF assms(6), of set] by auto
  have risk: "valid_claim_risk (the (?risks (cv_claim_id v)))" if "v \<in> set verdicts" for v
    using dict_by_ex [of "cv_claim_id v" rk_claim_id risks] ids [OF that] ready
    by (auto simp: list_all_iff)
  have claim: "the (?claims (cv_claim_id v)) \<in> set claims" if "v \<in> set verdicts" for v
    using dict_by_ex [of "cv_claim_id v" cl_claim_id claims] ids [OF that] by auto
  have len: "length verdicts = length claims" using arg_cong [OF assms(6), of length] by simp
  have "1 \<le> length claims" "length claims \<le> 4096" using ready by (cases claims; simp)+
  then have n: "len_between 1 4096 (map cv_claim_verdict_id verdicts)"
    using len by (simp add: len_between_def)
  have "unit_interval (overall_confidence verdicts ?risks)"
    using assms(8) risk by (intro overall_confidence_unit) (auto simp: valid_claim_risk_def)
  then have conf: "unit_interval (py_round (overall_confidence verdicts ?risks) 6)"
    using py_round_unit by (simp add: unit_interval_def)
  have blocks_sub: "set (revision_blocks ?claims verdicts) \<subseteq> cl_block_id ` set claims"
    using claim by (auto simp: revision_blocks_def)
  have "distinct (revision_blocks ?claims verdicts)" by (simp add: revision_blocks_def)
  then have "length (revision_blocks ?claims verdicts) = card (set (revision_blocks ?claims verdicts))"
    by (simp add: distinct_card)
  also have "\<dots> \<le> card (cl_block_id ` set claims)" by (intro card_mono blocks_sub) simp
  finally have blocks: "length (revision_blocks ?claims verdicts) \<le> 2048"
    using ready by linarith
  have "list_all is_block_id (revision_blocks ?claims verdicts)"
    using blocks_sub ready by (auto simp: list_all_iff valid_claim_def)
  note blocks = blocks this
  let ?two = "{''PARTIAL_SUPPORT_DISCLOSURE'', ''INSUFFICIENT_EVIDENCE_DISCLOSURE''}"
  have two: "is_reason_code c" if "c \<in> ?two" for c
    using that by (elim insertE emptyE; hypsubst; code_simp)
  have disc_sub: "set (disclosures_for ?d verdicts) \<subseteq> ?two"
    using assms(8) by (auto simp: disclosures_for_def Let_def verdict_disclosures_def split: if_splits)
  have "distinct (disclosures_for ?d verdicts)" by (simp add: disclosures_for_def Let_def)
  then have "length (disclosures_for ?d verdicts) = card (set (disclosures_for ?d verdicts))"
    by (simp add: distinct_card)
  also have "\<dots> \<le> card ?two" by (intro card_mono disc_sub) simp
  finally have disc: "length (disclosures_for ?d verdicts) \<le> 32" by simp
  have "list_all is_reason_code (disclosures_for ?d verdicts)"
    using disc_sub two by (auto simp: list_all_iff)
  note disc = disc this
  have hd: "valid_claim (hd claims)" using ready by (auto simp: list_all_iff)
  have revise: "?d = AD_REVISE \<Longrightarrow> revision_blocks ?claims verdicts \<noteq> []"
    using decision_revise [of p ?risks verdicts n] by (auto simp: revision_blocks_def filter_empty_conv)
  have disclose: "?d = AD_RELEASE_WITH_DISCLOSURE \<Longrightarrow> disclosures_for ?d verdicts \<noteq> []"
    by (simp add: disclosures_for_def Let_def)
  have "?d = AD_RELEASE \<Longrightarrow> count_verdicts (\<lambda>v. v = VV_UNSAFE) verdicts = 0"
    using decision_release [of p ?risks verdicts n] by (force simp: count_zero settled_def)
  then show ?thesis
    unfolding candidate_decision_def Let_def aggregation_result_seal.build_succeeds_iff
    using assms(1-4,7) n conf blocks disc hd revise disclose
    by (simp add: valid_aggregation_result_def valid_topic4_record_def valid_claim_def)
qed

lemma aggregation_succeeds:
  assumes "is_trace_id trace" "is_tenant_id tenant" "\<And>d. is_sha256_hex (c_sha h d)"
    and "is_version_string (ay_policy_version p)" "aggregation_ready claims risks results"
    and "0 \<le> n" "n \<le> 2"
  shows "\<exists>verdicts agg. aggregate h p trace tenant now claims risks results n = Inr (verdicts, agg)
     \<and> unit_interval (ar_overall_confidence agg)"
proof -
  note ready = assms(5) [unfolded aggregation_ready_def]
  let ?step = "\<lambda>claim. claim_verdict_of h p trace tenant now claim
         (the (dict_by rk_claim_id risks (cl_claim_id claim)))
         (filter (\<lambda>r. rr_claim_id r = cl_claim_id claim) results)"
  have "\<exists>v. ?step c = Inr v" if c: "c \<in> set claims" for c
  proof -
    let ?own = "filter (\<lambda>r. rr_claim_id r = cl_claim_id c) results"
    let ?risk = "the (dict_by rk_claim_id risks (cl_claim_id c))"
    from ready c have own: "list_ex (\<lambda>m. latest_by_module ?own m \<noteq> None) (rk_mandatory_modules ?risk)"
        "card (\<Union>r\<in>set ?own. set (rr_finding_codes r)) \<le> 125"
        "card (\<Union>r\<in>set ?own. set (rr_evidence_ref_ids r)) \<le> 1024"
      by (auto simp: list_all_iff Let_def)
    have "valid_claim_risk ?risk"
      using dict_by_ex [of "cl_claim_id c" rk_claim_id risks] ready c by (auto simp: list_all_iff)
    then have "length (rk_mandatory_modules ?risk) \<le> 32"
      by (auto simp: valid_claim_risk_def len_between_def)
    moreover have "List.map_filter (latest_by_module ?own) (rk_mandatory_modules ?risk) \<noteq> []"
      using own(1) by (auto simp: map_filter_def filter_empty_conv list_ex_iff)
    moreover have "list_all valid_module_result ?own" using ready by (simp add: list_all_iff)
    ultimately show ?thesis using own(2,3) by (intro claim_verdict_total assms(1-3))
  qed
  then have "\<exists>vs. map_ok ?step claims = Inr vs" by (intro map_ok_total_ex)
  then obtain vs where vs: "map_ok ?step claims = Inr vs" ..
  then have l2: "list_all2 (\<lambda>c v. ?step c = Inr v) claims vs" by (simp add: map_ok_Inr_iff)
  then have ids: "map cv_claim_id vs = map cl_claim_id claims"
    by (induction rule: list_all2_induct) (simp_all add: claim_verdict_parts(1))
  have "\<forall>v\<in>set vs. unit_interval (cv_confidence v)
           \<and> cv_disclosure_codes v = verdict_disclosures (cv_verdict v)"
    using map_ok_set [OF vs] claim_verdict_parts(6,7) by (fastforce simp: valid_claim_verdict_def)
  from candidate_decision_total [OF assms(1-5) ids assms(6) this] obtain agg
    where agg: "candidate_decision h p trace tenant now claims risks vs n = Inr agg" by blast
  have "check_results (set (map rk_claim_id risks)) (cl_verification_id (hd claims)) results = Inr ()"
    using ready by (intro check_results_ok) auto
  then have "aggregate h p trace tenant now claims risks results n = Inr (vs, agg)"
    using ready assms(6,7) vs agg by (simp add: aggregate_def lift_aggregation_def)
  with candidate_parts(4) [OF agg] show ?thesis by (auto simp: valid_aggregation_result_def)
qed

text \<open>
  Aggregation always reaches a decision: for valid claims, risks and results within the
  contract's size limits, of which every claim has at least one for a mandatory module, no
  contract rule can reject the verdicts or the decision that the aggregator builds, and the
  overall confidence, a weighted mean computed in double precision, lies between zero and one.
\<close>

theorem aggregation_total:
  assumes "is_trace_id trace" "is_tenant_id tenant" "\<And>d. is_sha256_hex (c_sha h d)"
    and "is_version_string (ay_policy_version p)" "aggregation_ready claims risks results"
    and "0 \<le> n" "n \<le> 2"
  shows "\<exists>verdicts agg. aggregate h p trace tenant now claims risks results n = Inr (verdicts, agg)
     \<and> unit_interval (ar_overall_confidence agg)"
  using assms by (rule aggregation_succeeds)


subsection \<open>The evidence chain binds its root to the evidence\<close>

definition item_hash_doc :: "chain_item \<Rightarrow> doc" where
  "item_hash_doc i = DObj [(''sequence'', DInt (ci_sequence i)),
     (''evidence_ref_id'', DStr (ci_evidence_ref_id i)),
     (''evidence_sha256'', DStr (ci_evidence_sha256 i)),
     (''previous_chain_sha256'', opt_doc DStr (ci_previous_chain_sha256 i))]"

definition item_evidence :: "chain_item \<Rightarrow> uuid \<times> digest" where
  "item_evidence i = (ci_evidence_ref_id i, ci_evidence_sha256 i)"

text \<open>The hash under which the next item is chained.\<close>

definition chain_root :: "chain_item list \<Rightarrow> digest option" where
  "chain_root items = (if items = [] then None else Some (ci_chain_sha256 (last items)))"

text \<open>Every item hashes its position, its evidence and its predecessor's hash.\<close>

definition chain_linked :: "hash_env \<Rightarrow> chain_item list \<Rightarrow> bool" where
  "chain_linked h items \<longleftrightarrow> (\<forall>before i after. items = before @ i # after \<longrightarrow>
     ci_sequence i = int (length before) \<and> ci_previous_chain_sha256 i = chain_root before
     \<and> ci_chain_sha256 i = c_sha h (item_hash_doc i)
     \<and> valid_chain_item i \<and> record_integrity_valid h chain_item_doc i)"

lemma chain_linked_snoc:
  "chain_linked h (items @ [i]) \<longleftrightarrow> chain_linked h items
     \<and> ci_sequence i = int (length items) \<and> ci_previous_chain_sha256 i = chain_root items
     \<and> ci_chain_sha256 i = c_sha h (item_hash_doc i)
     \<and> valid_chain_item i \<and> record_integrity_valid h chain_item_doc i"
proof
  assume l: "chain_linked h (items @ [i])"
  have "items = before @ j # after \<Longrightarrow> items @ [i] = before @ j # (after @ [i])" for before j after
    by simp
  with l have "chain_linked h items" unfolding chain_linked_def by blast
  with l show "chain_linked h items
     \<and> ci_sequence i = int (length items) \<and> ci_previous_chain_sha256 i = chain_root items
     \<and> ci_chain_sha256 i = c_sha h (item_hash_doc i)
     \<and> valid_chain_item i \<and> record_integrity_valid h chain_item_doc i"
    unfolding chain_linked_def by blast
next
  assume r: "chain_linked h items
     \<and> ci_sequence i = int (length items) \<and> ci_previous_chain_sha256 i = chain_root items
     \<and> ci_chain_sha256 i = c_sha h (item_hash_doc i)
     \<and> valid_chain_item i \<and> record_integrity_valid h chain_item_doc i"
  show "chain_linked h (items @ [i])"
    unfolding chain_linked_def
  proof (intro allI impI)
    fix before j after assume split: "items @ [i] = before @ j # after"
    show "ci_sequence j = int (length before) \<and> ci_previous_chain_sha256 j = chain_root before
     \<and> ci_chain_sha256 j = c_sha h (item_hash_doc j)
     \<and> valid_chain_item j \<and> record_integrity_valid h chain_item_doc j"
    proof (cases after rule: rev_cases)
      case Nil
      with split r show ?thesis by simp
    next
      case (snoc rest z)
      with split have "items = before @ j # rest" by simp
      with r show ?thesis unfolding chain_linked_def by blast
    qed
  qed
qed

lemma chain_items_linked:
  assumes "chain_items h trace tenant now (int (length pre)) (chain_root pre) evidence = Inr (items, head)"
    and "chain_linked h pre"
  shows "chain_linked h (pre @ items) \<and> map item_evidence items = evidence
     \<and> head = chain_root (pre @ items)"
  using assms
proof (induction evidence arbitrary: pre items head)
  case Nil
  then show ?case by simp
next
  case (Cons e evidence)
  obtain ref digest where e: "e = (ref, digest)" by fastforce
  let ?vals = "\<lparr>t4_trace_id = trace, t4_tenant_id = tenant, t4_version_cas = 1,
      t4_record_sha256 = [], t4_created_at = now, ci_evidence_ref_id = ref,
      ci_sequence = int (length pre), ci_evidence_sha256 = digest,
      ci_previous_chain_sha256 = chain_root pre,
      ci_chain_sha256 = chain_hash h (int (length pre)) ref digest (chain_root pre)\<rparr>"
  from Cons.prems(1) [unfolded e chain_items.simps Let_def] obtain i rest
    where i: "build_topic4_record h chain_item_doc valid_chain_item ?vals = Inr i"
    and rest: "chain_items h trace tenant now (int (length pre) + 1)
        (Some (chain_hash h (int (length pre)) ref digest (chain_root pre))) evidence = Inr (rest, head)"
    and items: "items = i # rest"
    by (elim rbind_InrE) (simp split: prod.splits)
  note seal = chain_item_seal.build_seals [OF i]
  have f: "ci_sequence i = int (length pre)" "ci_evidence_ref_id i = ref"
      "ci_evidence_sha256 i = digest" "ci_previous_chain_sha256 i = chain_root pre"
      "ci_chain_sha256 i = chain_hash h (int (length pre)) ref digest (chain_root pre)"
    using seal(3) by simp_all
  have "chain_linked h (pre @ [i])"
    using Cons.prems(2) seal(1,2) f by (simp add: chain_linked_snoc chain_hash_def item_hash_doc_def)
  moreover have "chain_items h trace tenant now (int (length (pre @ [i]))) (chain_root (pre @ [i]))
      evidence = Inr (rest, head)"
    using rest f(5) by (simp add: chain_root_def add.commute)
  ultimately show ?case
    using Cons.IH [of "pre @ [i]" rest head] by (simp add: items e item_evidence_def f)
qed

lemma manifest_parts:
  assumes "evidence_chain_manifest h vid rid digests results trace tenant now = Inr m"
  shows "chain_linked h (cm_items m)"
    and "chain_evidence digests results = Inr (map item_evidence (cm_items m))"
    and "chain_root (cm_items m) = Some (cm_root_chain_sha256 m)"
    and "valid_chain_manifest m" "record_integrity_valid h chain_manifest_doc m"
proof -
  from assms [unfolded evidence_chain_manifest_def Let_def] obtain ev items head vals
    where ev: "chain_evidence digests results = Inr ev"
    and items: "chain_items h trace tenant now 0 None ev = Inr (items, head)"
    and b: "build_topic4_record h chain_manifest_doc valid_chain_manifest vals = Inr m"
    and v: "cm_items vals = items" "cm_root_chain_sha256 vals = the head"
    by (elim rbind_InrE)
      (auto simp: lift_aggregation_def split: prod.splits sum.splits intro: that)
  note seal = chain_manifest_seal.build_seals [OF b]
  have f: "cm_items m = items" "cm_root_chain_sha256 m = the head"
    using seal(3) v by simp_all
  have "chain_linked h ([] @ items) \<and> map item_evidence items = ev \<and> head = chain_root ([] @ items)"
    using items by (intro chain_items_linked) (simp_all add: chain_root_def chain_linked_def)
  moreover have "items \<noteq> []" using seal(2) f by (auto simp: valid_chain_manifest_def len_between_def)
  ultimately show "chain_linked h (cm_items m)"
      "chain_evidence digests results = Inr (map item_evidence (cm_items m))"
      "chain_root (cm_items m) = Some (cm_root_chain_sha256 m)"
      "valid_chain_manifest m" "record_integrity_valid h chain_manifest_doc m"
    using ev seal f by (auto simp: chain_root_def)
qed

lemma linked_root_inj:
  assumes "chain_linked h xs" "chain_linked h ys" "chain_root xs = chain_root ys"
    and "inj_on (c_sha h) (item_hash_doc ` (set xs \<union> set ys))"
  shows "map item_evidence xs = map item_evidence ys"
  using assms
proof (induction xs arbitrary: ys rule: rev_induct)
  case Nil
  then show ?case by (simp add: chain_root_def split: if_splits)
next
  case (snoc x xs)
  then obtain y ys' where ys: "ys = ys' @ [y]"
    by (cases ys rule: rev_cases) (auto simp: chain_root_def)
  note lx = snoc.prems(1) [unfolded chain_linked_snoc]
  note ly = snoc.prems(2) [unfolded ys chain_linked_snoc]
  have "c_sha h (item_hash_doc x) = c_sha h (item_hash_doc y)"
    using snoc.prems(3) lx ly by (simp add: chain_root_def ys)
  then have doc: "item_hash_doc x = item_hash_doc y"
    by (rule inj_onD [OF snoc.prems(4)]) (simp_all add: ys)
  then have e: "item_evidence x = item_evidence y" by (simp add: item_hash_doc_def item_evidence_def)
  have "ci_previous_chain_sha256 x = ci_previous_chain_sha256 y"
    using doc by (auto simp: item_hash_doc_def opt_doc_def split: option.splits)
  then have "chain_root xs = chain_root ys'" using lx ly by simp
  moreover have "inj_on (c_sha h) (item_hash_doc ` (set xs \<union> set ys'))"
    using snoc.prems(4) by (rule inj_on_subset) (auto simp: ys)
  ultimately have "map item_evidence xs = map item_evidence ys'"
    using snoc.IH lx ly by blast
  with e show ?case by (simp add: ys)
qed

text \<open>
  The evidence chain is a commitment to the evidence.  A manifest lists the evidence in
  order, each item hashing its position, its evidence and the previous hash, and it is valid
  and sealed; and if the hash function does not collide on the hashed items of two manifests, equal
  roots mean the same evidence in the same order.
\<close>

theorem evidence_root_binding:
  assumes "evidence_chain_manifest h vid rid digests results trace tenant now = Inr m"
    and "evidence_chain_manifest h vid' rid' digests' results' trace' tenant' now' = Inr m'"
    and "inj_on (c_sha h) (item_hash_doc ` (set (cm_items m) \<union> set (cm_items m')))"
  shows "chain_linked h (cm_items m) \<and> valid_chain_manifest m
     \<and> record_integrity_valid h chain_manifest_doc m
     \<and> chain_evidence digests results = Inr (map item_evidence (cm_items m))
     \<and> (cm_root_chain_sha256 m = cm_root_chain_sha256 m' \<longrightarrow>
          chain_evidence digests results = chain_evidence digests' results')"
proof -
  note p = manifest_parts [OF assms(1)] and q = manifest_parts [OF assms(2)]
  have "map item_evidence (cm_items m) = map item_evidence (cm_items m')"
    if "cm_root_chain_sha256 m = cm_root_chain_sha256 m'"
    using linked_root_inj [OF p(1) q(1) _ assms(3)] p(3) q(3) that by simp
  with p q show ?thesis by auto
qed

subsection \<open>A concrete aggregation\<close>

definition sample_artifact :: artifact_ref where
  "sample_artifact =
     \<lparr>af_object_key = ''topic4/results/one'', af_media_type = MT_json,
      af_content_encoding = CE_identity, af_byte_size = 10,
      af_sha256 = replicate 64 (CHR ''d''), af_created_at = 0\<rparr>"

definition sample_result :: "uuid \<Rightarrow> verification_module \<Rightarrow> verification_verdict \<Rightarrow> module_result" where
  "sample_result i m vd =
     \<lparr>t4_trace_id = replicate 16 (CHR ''a''), t4_tenant_id = ''tenant-1'', t4_version_cas = 3,
      t4_record_sha256 = replicate 64 (CHR ''a''), t4_created_at = 0,
      rr_module_result_id = i, rr_module_run_id = ''run-1'', rr_verification_id = ''verification-1'',
      rr_claim_id = ''claim-1'', rr_module = m, rr_verdict = vd, rr_confidence = 1/2,
      rr_evidence_ref_ids = [''evidence-1''], rr_finding_codes = [],
      rr_result_artifact = sample_artifact, rr_result_sha256 = replicate 64 (CHR ''d''),
      rr_deterministic = True\<rparr>"

definition sample_risk :: claim_risk where
  "sample_risk =
     \<lparr>t4_trace_id = replicate 16 (CHR ''a''), t4_tenant_id = ''tenant-1'', t4_version_cas = 1,
      t4_record_sha256 = replicate 64 (CHR ''a''), t4_created_at = 0, rk_risk_id = ''risk-1'',
      rk_verification_id = ''verification-1'', rk_claim_id = ''claim-1'', rk_level = RL_LOW,
      rk_score = 1/4, rk_academic_impact = 1/4, rk_learner_harm = 1/4, rk_uncertainty = 1/4,
      rk_irreversibility = 1/4, rk_external_action = 1/4,
      rk_mandatory_modules = [C2_RAG, C9_SECURITY], rk_reason_codes = [''CLAIM_KIND_TEXT''],
      rk_policy_version = ''risk-v1''\<rparr>"

definition sample_results :: "module_result list" where
  "sample_results =
     [sample_result ''r1'' C2_RAG VV_SUPPORTED, sample_result ''r2'' C9_SECURITY VV_NOT_APPLICABLE]"

definition sample_aggregation_policy :: aggregation_policy where
  "sample_aggregation_policy =
     \<lparr>ay_policy_version = ''aggregation-v1'', ay_partial_release_max_risk = RL_MEDIUM\<rparr>"

lemma sample_result_valid: "valid_module_result (sample_result i m vd)"
proof -
  have "valid_artifact_ref sample_artifact" "is_trace_id (replicate 16 (CHR ''a''))"
      "is_tenant_id ''tenant-1''" "is_sha256_hex (replicate 64 (CHR ''a''))"
      "is_sha256_hex (replicate 64 (CHR ''d''))"
    by code_simp+
  then show ?thesis
    by (simp add: sample_result_def valid_module_result_def valid_topic4_record_def unit_interval_def)
qed

lemma sample_latest:
  "latest_by_module sample_results C2_RAG = Some (sample_result ''r1'' C2_RAG VV_SUPPORTED)"
  by (simp add: sample_results_def latest_by_module_def keep_latest_def result_order_def
      sample_result_def Let_def)

lemma sample_aggregation_ready:
  "aggregation_ready [sample_claim CK_TEXT] [sample_risk] sample_results"
proof -
  have "valid_claim (sample_claim CK_TEXT)" by (rule sample_claim_valid)
  moreover have "is_version_string ''risk-v1''" "is_reason_code ''CLAIM_KIND_TEXT''"
      "is_trace_id (replicate 16 (CHR ''a''))" "is_tenant_id ''tenant-1''"
      "is_sha256_hex (replicate 64 (CHR ''a''))"
    by code_simp+
  then have "valid_claim_risk sample_risk"
    by (simp add: sample_risk_def valid_claim_risk_def valid_topic4_record_def unit_interval_def
        len_between_def)
  moreover have "list_all valid_module_result sample_results"
    by (simp add: sample_results_def sample_result_valid)
  moreover have "cl_claim_id (sample_claim CK_TEXT) = ''claim-1''"
      "cl_verification_id (sample_claim CK_TEXT) = ''verification-1''" "rk_claim_id sample_risk = ''claim-1''"
    by (simp_all add: sample_claim_def sample_risk_def)
  moreover have "filter (\<lambda>r. rr_claim_id r = ''claim-1'') sample_results = sample_results"
      "list_all (\<lambda>r. rr_claim_id r = ''claim-1'' \<and> rr_verification_id r = ''verification-1'') sample_results"
      "(\<Union>r\<in>set sample_results. set (rr_finding_codes r)) = {}"
      "(\<Union>r\<in>set sample_results. set (rr_evidence_ref_ids r)) = {''evidence-1''}"
    by (simp_all add: sample_results_def sample_result_def)
  moreover have "dict_by rk_claim_id [sample_risk] ''claim-1'' = Some sample_risk"
    by (simp add: dict_by_def sample_risk_def)
  moreover have "rk_mandatory_modules sample_risk = [C2_RAG, C9_SECURITY]"
    by (simp add: sample_risk_def)
  ultimately show ?thesis
    using sample_latest by (simp add: aggregation_ready_def Let_def del: set_filter)
qed

lemma sample_aggregation_env:
  "is_trace_id (replicate 16 (CHR ''a''))" "is_tenant_id ''tenant-1''"
  "is_version_string (ay_policy_version sample_aggregation_policy)"
  by code_simp+

theorem aggregation_total_witness:
  "\<exists>verdicts agg. aggregate sample_hash_env sample_aggregation_policy (replicate 16 (CHR ''a''))
       ''tenant-1'' 0 [sample_claim CK_TEXT] [sample_risk] sample_results 0 = Inr (verdicts, agg)
     \<and> unit_interval (ar_overall_confidence agg)"
  by (rule aggregation_total [OF sample_aggregation_env(1,2) sample_hash_env_hex
        sample_aggregation_env(3) sample_aggregation_ready]) simp_all

theorem release_gate_witness:
  "\<exists>verdicts agg. aggregate sample_hash_env sample_aggregation_policy (replicate 16 (CHR ''a''))
       ''tenant-1'' 0 [sample_claim CK_TEXT] [sample_risk] sample_results 0 = Inr (verdicts, agg)
     \<and> valid_aggregation_result agg
     \<and> (ar_decision agg = AD_BLOCK \<longleftrightarrow>
          (\<exists>v\<in>set verdicts. cv_verdict v = VV_UNSAFE \<or> cv_non_waivable v))"
proof -
  obtain verdicts agg where a: "aggregate sample_hash_env sample_aggregation_policy
       (replicate 16 (CHR ''a'')) ''tenant-1'' 0 [sample_claim CK_TEXT] [sample_risk] sample_results 0
       = Inr (verdicts, agg)"
    using aggregation_succeeds [OF sample_aggregation_env(1,2) sample_hash_env_hex
        sample_aggregation_env(3) sample_aggregation_ready, where n = 0 and now = 0] by auto
  from release_gate [OF a] a show ?thesis by blast
qed

lemma sample_verdict:
  "\<exists>v. claim_verdict_of sample_hash_env sample_aggregation_policy (replicate 16 (CHR ''a''))
       ''tenant-1'' 0 (sample_claim CK_TEXT) sample_risk sample_results = Inr v"
proof (rule claim_verdict_total [OF sample_aggregation_env(1,2) sample_hash_env_hex])
  show "list_all valid_module_result sample_results"
    by (simp add: sample_results_def sample_result_valid)
  show "List.map_filter (latest_by_module sample_results) (rk_mandatory_modules sample_risk) \<noteq> []"
    using sample_latest by (simp add: sample_risk_def map_filter_simps)
qed (simp_all add: sample_risk_def sample_results_def sample_result_def)

theorem verdict_sound_witness:
  "\<exists>v. claim_verdict_of sample_hash_env sample_aggregation_policy (replicate 16 (CHR ''a''))
       ''tenant-1'' 0 (sample_claim CK_TEXT) sample_risk sample_results = Inr v
     \<and> (cv_verdict v = VV_UNSAFE \<longleftrightarrow> (\<exists>m\<in>set (rk_mandatory_modules sample_risk).
          \<exists>r. latest_by_module sample_results m = Some r \<and> rr_verdict r = VV_UNSAFE))"
proof -
  obtain v where v: "claim_verdict_of sample_hash_env sample_aggregation_policy
       (replicate 16 (CHR ''a'')) ''tenant-1'' 0 (sample_claim CK_TEXT) sample_risk sample_results = Inr v"
    using sample_verdict by blast
  have "list_all valid_module_result sample_results"
    by (simp add: sample_results_def sample_result_valid)
  from verdict_sound [OF v this] v show ?thesis by blast
qed

theorem verdict_order_independent_witness:
  "claim_verdict_of sample_hash_env sample_aggregation_policy (replicate 16 (CHR ''a''))
       ''tenant-1'' 0 (sample_claim CK_TEXT) sample_risk
       [sample_result ''r1'' C2_RAG VV_UNSAFE, sample_result ''r2'' C2_RAG VV_SUPPORTED]
   = claim_verdict_of sample_hash_env sample_aggregation_policy (replicate 16 (CHR ''a''))
       ''tenant-1'' 0 (sample_claim CK_TEXT) sample_risk
       [sample_result ''r2'' C2_RAG VV_SUPPORTED, sample_result ''r1'' C2_RAG VV_UNSAFE]"
  by (rule verdict_order_independent) (simp_all add: sample_result_def)

lemma sample_manifest:
  "\<exists>m. evidence_chain_manifest sample_hash_env ''verification-1'' ''report-1''
       [''evidence-1'' \<mapsto> replicate 64 (CHR ''e'')] sample_results (replicate 16 (CHR ''a''))
       ''tenant-1'' 0 = Inr m \<and> length (cm_items m) = 1"
proof -
  have "is_sha256_hex (replicate 64 (CHR ''e''))" by code_simp
  moreover have "chain_evidence [''evidence-1'' \<mapsto> replicate 64 (CHR ''e'')] sample_results
      = Inr [(''evidence-1'', replicate 64 (CHR ''e''))]"
    by (simp add: chain_evidence_def Let_def sample_results_def sample_result_def sorted_set_def)
  ultimately show ?thesis
    using sample_aggregation_env(1,2) sample_hash_env_hex
    by (simp add: evidence_chain_manifest_def chain_hash_def chain_item_seal.build_succeeds_iff
        build_topic4_record_def valid_chain_item_def valid_topic4_record_def Let_def
        lift_aggregation_def valid_chain_manifest_def len_between_def)
qed

theorem evidence_root_binding_witness:
  "\<exists>m. evidence_chain_manifest sample_hash_env ''verification-1'' ''report-1''
       [''evidence-1'' \<mapsto> replicate 64 (CHR ''e'')] sample_results (replicate 16 (CHR ''a''))
       ''tenant-1'' 0 = Inr m \<and> chain_linked sample_hash_env (cm_items m)"
proof -
  obtain m where m: "evidence_chain_manifest sample_hash_env ''verification-1'' ''report-1''
       [''evidence-1'' \<mapsto> replicate 64 (CHR ''e'')] sample_results (replicate 16 (CHR ''a''))
       ''tenant-1'' 0 = Inr m" "length (cm_items m) = 1"
    using sample_manifest by blast
  then obtain i where "cm_items m = [i]" by (cases "cm_items m") auto
  then have "inj_on (c_sha sample_hash_env) (item_hash_doc ` (set (cm_items m) \<union> set (cm_items m)))"
    by simp
  from evidence_root_binding [OF m(1) m(1) this] m(1) show ?thesis by blast
qed

end
