(* ===== verification/CoreErrors.thy ===== *)
theory CoreErrors
  imports Prelude
begin

text \<open>
  The application errors of \<^verbatim>\<open>backend/src/liyans/core/errors.py\<close>: a \<^verbatim>\<open>LiyanError\<close> carries a code, a
  category, a retriable flag and an HTTP status; every other exception is foreign to the error
  taxonomy.  Messages and detail dictionaries are not represented.
\<close>

datatype error_category =
    EC_CONTRACT | EC_AUTH | EC_TENANT | EC_MESSAGING | EC_TASK | EC_TIMEOUT | EC_RATE_LIMIT
  | EC_CIRCUIT | EC_PROVIDER | EC_AUDIT | EC_CONFIG | EC_DATABASE | EC_INTERNAL

record liyan_error =
  le_code :: string
  le_category :: error_category
  le_retriable :: bool
  le_status_code :: int

datatype app_error = Liyan liyan_error | Foreign_error string

definition liyan :: "string \<Rightarrow> error_category \<Rightarrow> bool \<Rightarrow> int \<Rightarrow> app_error" where
  "liyan code category retriable status =
     Liyan \<lparr>le_code = code, le_category = category, le_retriable = retriable, le_status_code = status\<rparr>"

text \<open>\<^verbatim>\<open>isinstance(exc, LiyanError) and exc.retriable\<close>\<close>

definition is_retriable :: "app_error \<Rightarrow> bool" where
  "is_retriable e = (case e of Liyan l \<Rightarrow> le_retriable l | Foreign_error _ \<Rightarrow> False)"

definition message_sequence_error :: "string \<Rightarrow> app_error" where
  "message_sequence_error code = liyan code EC_MESSAGING False 409"

definition message_conflict_error :: app_error where
  "message_conflict_error = liyan ''LIYAN-MESSAGE-DUPLICATE-CONFLICT'' EC_MESSAGING False 409"

definition rate_limit_exceeded :: app_error where
  "rate_limit_exceeded = liyan ''LIYAN-RATE-LIMITED'' EC_RATE_LIMIT True 429"

definition circuit_open_error :: app_error where
  "circuit_open_error = liyan ''LIYAN-CIRCUIT-OPEN'' EC_CIRCUIT True 503"

definition operation_timeout_error :: app_error where
  "operation_timeout_error = liyan ''LIYAN-TIMEOUT'' EC_TIMEOUT True 504"

lemma is_retriable_liyan [simp]: "is_retriable (liyan c k r s) = r"
  by (simp add: is_retriable_def liyan_def)

end
