(* ===== verification/Resilience.thy ===== *)
theory Resilience
  imports PyFloat
begin

text \<open>
  \<^verbatim>\<open>backend/src/liyans/infrastructure/resilience.py\<close>: the retry loop, the circuit breaker and the
  token bucket.  \<^verbatim>\<open>time.monotonic\<close> readings and the random jitter are arguments; times and token
  counts are floats.  The breaker's two critical sections are separate operations, because
  other calls run between them; \<open>breaker_step\<close> interleaves them freely.
\<close>

subsection \<open>Retry\<close>

record retry_policy =
  ry_max_attempts :: int
  ry_base_delay_seconds :: rat
  ry_max_delay_seconds :: rat
  ry_jitter_seconds :: rat

definition delay_for :: "retry_policy \<Rightarrow> rat \<Rightarrow> int \<Rightarrow> rat" where
  "delay_for p jitter attempt =
     (let exponential = fmul (ry_base_delay_seconds p) (fl (2 ^ nat (max 0 (attempt - 1))))
      in fadd (min (ry_max_delay_seconds p) exponential) jitter)"

datatype 'err retry_error = Raised_error 'err | Retry_incomplete

text \<open>
  \<^verbatim>\<open>retry_async\<close> threading a state through the attempts; the second result counts them.
\<close>

function retry_loop ::
  "(int \<Rightarrow> 'state \<Rightarrow> ('err + 'val) \<times> 'state) \<Rightarrow> ('err \<Rightarrow> bool) \<Rightarrow> int \<Rightarrow> int \<Rightarrow> 'err option \<Rightarrow> 'state
     \<Rightarrow> ('err retry_error + 'val) \<times> int \<times> 'state" where
  "retry_loop operation retryable max_attempts attempt last_error st =
     (if max_attempts < attempt
      then ((case last_error of None \<Rightarrow> Inl Retry_incomplete | Some e \<Rightarrow> Inl (Raised_error e)),
            attempt - 1, st)
      else (case operation attempt st of
          (Inr v, st') \<Rightarrow> (Inr v, attempt, st')
        | (Inl e, st') \<Rightarrow>
            if max_attempts \<le> attempt \<or> \<not> retryable e then (Inl (Raised_error e), attempt, st')
            else retry_loop operation retryable max_attempts (attempt + 1) (Some e) st'))"
  by pat_completeness auto

termination
  by (relation "measure (\<lambda>(_, _, max_attempts, attempt, _). nat (max_attempts + 1 - attempt))") auto

declare retry_loop.simps [simp del]

definition retry_async ::
  "(int \<Rightarrow> 'state \<Rightarrow> ('err + 'val) \<times> 'state) \<Rightarrow> retry_policy \<Rightarrow> ('err \<Rightarrow> bool) \<Rightarrow> 'state
     \<Rightarrow> ('err retry_error + 'val) \<times> int \<times> 'state" where
  "retry_async operation policy retryable st =
     retry_loop operation retryable (ry_max_attempts policy) 1 None st"

subsection \<open>Circuit breaker\<close>

datatype circuit_state = CB_CLOSED | CB_OPEN | CB_HALF_OPEN

record breaker =
  cb_failure_threshold :: int
  cb_reset_timeout_seconds :: rat
  cb_state :: circuit_state
  cb_failures :: int
  cb_opened_at :: rat
  cb_half_open_probe_in_flight :: bool

definition new_breaker :: "int \<Rightarrow> rat \<Rightarrow> breaker" where
  "new_breaker threshold reset_timeout =
     \<lparr>cb_failure_threshold = threshold, cb_reset_timeout_seconds = reset_timeout,
      cb_state = CB_CLOSED, cb_failures = 0, cb_opened_at = 0,
      cb_half_open_probe_in_flight = False\<rparr>"

text \<open>The critical section before the operation; the flag says whether the call goes ahead.\<close>

definition breaker_enter :: "rat \<Rightarrow> breaker \<Rightarrow> bool \<times> breaker" where
  "breaker_enter now b =
     (if cb_state b = CB_OPEN \<and> fsub now (cb_opened_at b) < cb_reset_timeout_seconds b then (False, b)
      else let b1 = (if cb_state b = CB_OPEN then b\<lparr>cb_state := CB_HALF_OPEN\<rparr> else b)
           in if cb_state b1 = CB_HALF_OPEN
              then if cb_half_open_probe_in_flight b1 then (False, b1)
                   else (True, b1\<lparr>cb_half_open_probe_in_flight := True\<rparr>)
              else (True, b1))"

definition breaker_failure :: "rat \<Rightarrow> breaker \<Rightarrow> breaker" where
  "breaker_failure now b =
     (let b1 = b\<lparr>cb_failures := cb_failures b + 1, cb_half_open_probe_in_flight := False\<rparr>
      in if cb_state b1 = CB_HALF_OPEN \<or> cb_failure_threshold b1 \<le> cb_failures b1
         then b1\<lparr>cb_state := CB_OPEN, cb_opened_at := now\<rparr> else b1)"

definition breaker_success :: "breaker \<Rightarrow> breaker" where
  "breaker_success b =
     b\<lparr>cb_state := CB_CLOSED, cb_failures := 0, cb_half_open_probe_in_flight := False\<rparr>"

text \<open>
  A call is rejected, or admitted and later ends in success, in an \<^verbatim>\<open>Exception\<close>, or in a
  \<^verbatim>\<open>CancelledError\<close>, which is not an \<^verbatim>\<open>Exception\<close> and runs neither critical section.  The second
  component counts the admitted calls that have not ended.
\<close>

datatype breaker_event =
    Admit rat | Reject rat | Succeed | Fail rat | Cancel

inductive breaker_step ::
  "breaker \<times> nat \<Rightarrow> breaker_event \<Rightarrow> breaker \<times> nat \<Rightarrow> bool" where
  admit: "breaker_enter now b = (True, b') \<Longrightarrow> breaker_step (b, n) (Admit now) (b', Suc n)"
| reject: "breaker_enter now b = (False, b') \<Longrightarrow> breaker_step (b, n) (Reject now) (b', n)"
| succeed: "breaker_step (b, Suc n) Succeed (breaker_success b, n)"
| fail: "breaker_step (b, Suc n) (Fail now) (breaker_failure now b, n)"
| cancel: "breaker_step (b, Suc n) Cancel (b, n)"

inductive_cases breaker_stepE: "breaker_step (b, n) e (b', n')"

inductive_simps breaker_step_simps:
  "breaker_step (b, n) (Admit now) (b', n')" "breaker_step (b, n) (Reject now) (b', n')"
  "breaker_step (b, n) Succeed (b', n')" "breaker_step (b, n) (Fail now) (b', n')"
  "breaker_step (b, n) Cancel (b', n')"

inductive breaker_run :: "breaker \<times> nat \<Rightarrow> breaker_event list \<Rightarrow> breaker \<times> nat \<Rightarrow> bool" where
  breaker_run_Nil: "breaker_run s [] s"
| breaker_run_snoc: "breaker_run s es t \<Longrightarrow> breaker_step t e u \<Longrightarrow> breaker_run s (es @ [e]) u"

subsection \<open>Token bucket\<close>

record bucket =
  tb_capacity :: rat
  tb_refill_rate_per_second :: rat
  tb_tokens :: rat
  tb_updated_at :: rat

definition new_bucket :: "rat \<Rightarrow> rat \<Rightarrow> rat \<Rightarrow> bucket option" where
  "new_bucket capacity refill now =
     (if capacity \<le> 0 \<or> refill \<le> 0 then None
      else Some \<lparr>tb_capacity = capacity, tb_refill_rate_per_second = refill, tb_tokens = capacity,
                 tb_updated_at = now\<rparr>)"

text \<open>\<^verbatim>\<open>acquire\<close>: \<open>Inl\<close> is \<^verbatim>\<open>RateLimitExceeded\<close> with the time to wait.\<close>

definition bucket_acquire :: "rat \<Rightarrow> rat \<Rightarrow> bucket \<Rightarrow> (rat + unit) \<times> bucket" where
  "bucket_acquire now tokens b =
     (let elapsed = fsub now (tb_updated_at b);
          available = min (tb_capacity b)
            (fadd (tb_tokens b) (fmul elapsed (tb_refill_rate_per_second b)));
          b1 = b\<lparr>tb_tokens := available, tb_updated_at := now\<rparr>
      in if tokens \<le> tb_tokens b1 then (Inr (), b1\<lparr>tb_tokens := fsub (tb_tokens b1) tokens\<rparr>)
         else (Inl (fdiv (fsub tokens (tb_tokens b1)) (tb_refill_rate_per_second b1)), b1))"

subsection \<open>The retry loop\<close>

text \<open>What the operation did at the attempts up to \<open>n\<close>, all of which failed retryably.\<close>

fun failed_prefix ::
  "(int \<Rightarrow> 'state \<Rightarrow> ('err + 'val) \<times> 'state) \<Rightarrow> ('err \<Rightarrow> bool) \<Rightarrow> int \<Rightarrow> nat \<Rightarrow> 'state \<Rightarrow> 'state \<Rightarrow> bool"
where
  "failed_prefix operation retryable attempt 0 st st' = (st = st')"
| "failed_prefix operation retryable attempt (Suc k) st st' =
     (case operation attempt st of
        (Inl e, st1) \<Rightarrow> retryable e \<and> failed_prefix operation retryable (attempt + 1) k st1 st'
      | (Inr v, st1) \<Rightarrow> False)"

lemma retry_loop_spec:
  assumes "retry_loop operation retryable max_attempts attempt last_error st = (r, n, st')"
    and "attempt \<le> max_attempts"
  shows "attempt \<le> n \<and> n \<le> max_attempts
     \<and> (\<exists>st1. failed_prefix operation retryable attempt (nat (n - attempt)) st st1
          \<and> (case r of
               Inr v \<Rightarrow> operation n st1 = (Inr v, st')
             | Inl (Raised_error e) \<Rightarrow> operation n st1 = (Inl e, st')
                 \<and> (n = max_attempts \<or> \<not> retryable e)
             | Inl Retry_incomplete \<Rightarrow> False))"
  using assms
proof (induction operation retryable max_attempts attempt last_error st rule: retry_loop.induct)
  case (1 operation retryable max_attempts attempt last_error st)
  note unfold = retry_loop.simps [of operation retryable max_attempts attempt last_error st]
  obtain out st1 where op: "operation attempt st = (out, st1)" by fastforce
  show ?case
  proof (cases out)
    case (Inr v)
    with "1.prems" op show ?thesis by (auto simp: unfold)
  next
    case (Inl e)
    show ?thesis
    proof (cases "max_attempts \<le> attempt \<or> \<not> retryable e")
      case True
      with "1.prems" op Inl show ?thesis by (auto simp: unfold)
    next
      case False
      then have "retry_loop operation retryable max_attempts (attempt + 1) (Some e) st1 = (r, n, st')"
        using "1.prems" op Inl by (simp add: unfold)
      from "1.IH" [OF _ op [symmetric] Inl _ this] False "1.prems"(2) obtain st2
        where IH: "attempt + 1 \<le> n" "n \<le> max_attempts"
          "failed_prefix operation retryable (attempt + 1) (nat (n - (attempt + 1))) st1 st2"
          "case r of
               Inr v \<Rightarrow> operation n st2 = (Inr v, st')
             | Inl (Raised_error e) \<Rightarrow> operation n st2 = (Inl e, st')
                 \<and> (n = max_attempts \<or> \<not> retryable e)
             | Inl Retry_incomplete \<Rightarrow> False"
        by auto
      have "nat (n - attempt) = Suc (nat (n - (attempt + 1)))" using IH(1) by simp
      then have "failed_prefix operation retryable attempt (nat (n - attempt)) st st2"
        using IH(3) op Inl False by simp
      with IH show ?thesis by (intro conjI exI [of _ st2]) auto
    qed
  qed
qed

text \<open>
  \<^verbatim>\<open>retry_async\<close> with at least one attempt calls the operation \<open>n\<close> times with
  \<open>1 \<le> n \<le> max_attempts\<close>: all calls before the last failed with a retryable error, and the result is
  the last call's; an error is only raised when the attempts are used up or it is not retryable.
\<close>

theorem retry_sound:
  assumes "retry_async operation policy retryable st = (r, n, st')" "1 \<le> ry_max_attempts policy"
  shows "1 \<le> n \<and> n \<le> ry_max_attempts policy
     \<and> (\<exists>st1. failed_prefix operation retryable 1 (nat (n - 1)) st st1
          \<and> (case r of
               Inr v \<Rightarrow> operation n st1 = (Inr v, st')
             | Inl (Raised_error e) \<Rightarrow> operation n st1 = (Inl e, st')
                 \<and> (n = ry_max_attempts policy \<or> \<not> retryable e)
             | Inl Retry_incomplete \<Rightarrow> False))"
  using retry_loop_spec [OF assms(1) [unfolded retry_async_def] assms(2)] by simp

definition default_retry_policy :: retry_policy where
  "default_retry_policy =
     \<lparr>ry_max_attempts = 3, ry_base_delay_seconds = fl (2/10), ry_max_delay_seconds = 5,
      ry_jitter_seconds = fl (1/10)\<rparr>"

definition fail_twice :: "int \<Rightarrow> unit \<Rightarrow> (string + int) \<times> unit" where
  "fail_twice n u = (if n < 3 then (Inl ''again'', u) else (Inr n, u))"

theorem retry_sound_witness:
  "retry_async fail_twice default_retry_policy (\<lambda>_. True) () = (Inr 3, 3, ())
   \<and> failed_prefix fail_twice (\<lambda>_. True) 1 2 () ()"
proof -
  have r: "retry_async fail_twice default_retry_policy (\<lambda>_. True) () = (Inr 3, 3, ())"
    by (simp add: retry_async_def default_retry_policy_def retry_loop.simps fail_twice_def)
  have "1 \<le> ry_max_attempts default_retry_policy" by (simp add: default_retry_policy_def)
  from retry_sound [OF r this] show ?thesis using r by (auto simp: fail_twice_def)
qed

subsection \<open>The circuit breaker\<close>

text \<open>The failures since the last success, as the event trace shows them.\<close>

definition failure_streak :: "breaker_event list \<Rightarrow> int" where
  "failure_streak es = foldl (\<lambda>c e. case e of Succeed \<Rightarrow> 0 | Fail _ \<Rightarrow> c + 1 | _ \<Rightarrow> c) 0 es"

lemma failure_streak_snoc [simp]:
  "failure_streak (es @ [e]) =
     (case e of Succeed \<Rightarrow> 0 | Fail _ \<Rightarrow> failure_streak es + 1 | _ \<Rightarrow> failure_streak es)"
  by (simp add: failure_streak_def split: breaker_event.split)

definition breaker_tracks :: "int \<Rightarrow> rat \<Rightarrow> breaker_event list \<Rightarrow> breaker \<Rightarrow> bool" where
  "breaker_tracks threshold reset_timeout es b \<longleftrightarrow>
     cb_failure_threshold b = threshold \<and> cb_reset_timeout_seconds b = reset_timeout
     \<and> cb_failures b = failure_streak es \<and> 0 \<le> failure_streak es
     \<and> (cb_state b = CB_CLOSED \<longleftrightarrow> failure_streak es < threshold)
     \<and> (cb_half_open_probe_in_flight b \<longleftrightarrow> cb_state b = CB_HALF_OPEN)
     \<and> (cb_state b \<noteq> CB_CLOSED \<longrightarrow>
          (\<exists>us vs. es = us @ Fail (cb_opened_at b) # vs \<and> (\<forall>t. Fail t \<notin> set vs)))"

lemma tracks_extend:
  assumes "\<exists>us vs. es = us @ Fail t # vs \<and> (\<forall>t. Fail t \<notin> set vs)" "\<forall>t. e \<noteq> Fail t"
  shows "\<exists>us vs. es @ [e] = us @ Fail t # vs \<and> (\<forall>t. Fail t \<notin> set vs)"
proof -
  from assms(1) obtain us vs where "es = us @ Fail t # vs" "\<forall>t. Fail t \<notin> set vs" by blast
  with assms(2) show ?thesis by (intro exI [of _ us] exI [of _ "vs @ [e]"]) auto
qed

lemma breaker_enter_cases:
  assumes "breaker_enter now b = (admitted, b')"
    and "cb_half_open_probe_in_flight b \<longleftrightarrow> cb_state b = CB_HALF_OPEN"
  shows "admitted \<longleftrightarrow> cb_state b = CB_CLOSED
       \<or> cb_state b = CB_OPEN \<and> cb_reset_timeout_seconds b \<le> fsub now (cb_opened_at b)"
    and "b' = (if admitted \<and> cb_state b = CB_OPEN
        then b\<lparr>cb_state := CB_HALF_OPEN, cb_half_open_probe_in_flight := True\<rparr> else b)"
  using assms by (cases "cb_state b"; auto simp: breaker_enter_def Let_def not_less split: if_splits)+

lemma breaker_tracks_step:
  assumes "breaker_step (b, n) e (b', n')" "breaker_tracks threshold reset_timeout es b" "0 < threshold"
  shows "breaker_tracks threshold reset_timeout (es @ [e]) b'"
proof -
  note tr = assms(2) [unfolded breaker_tracks_def]
  have keep: "\<exists>us vs. es @ [e] = us @ Fail (cb_opened_at b) # vs \<and> (\<forall>t. Fail t \<notin> set vs)"
    if "cb_state b \<noteq> CB_CLOSED" "\<forall>t. e \<noteq> Fail t"
    using that tr by (intro tracks_extend) auto
  from assms(1) consider (admit) now where "e = Admit now" "breaker_enter now b = (True, b')"
    | (reject) now where "e = Reject now" "breaker_enter now b = (False, b')"
    | (succeed) "e = Succeed" "b' = breaker_success b"
    | (fail) now where "e = Fail now" "b' = breaker_failure now b"
    | (cancel) "e = Cancel" "b' = b"
    by (auto elim: breaker_stepE)
  then show ?thesis
  proof cases
    case admit
    with tr breaker_enter_cases [OF admit(2)] keep show ?thesis
      by (cases "cb_state b") (auto simp: breaker_tracks_def)
  next
    case reject
    with tr breaker_enter_cases [OF reject(2)] keep show ?thesis
      by (cases "cb_state b") (auto simp: breaker_tracks_def)
  next
    case succeed
    with tr assms(3) show ?thesis by (simp add: breaker_tracks_def breaker_success_def)
  next
    case (fail now)
    have "\<exists>us vs. es @ [Fail now] = us @ Fail now # vs \<and> (\<forall>t. Fail t \<notin> set vs)"
      by (intro exI [of _ es] exI [of _ "[]"]) simp
    with tr fail show ?thesis
      by (cases "cb_state b") (auto simp: breaker_tracks_def breaker_failure_def Let_def)
  next
    case cancel
    with tr keep show ?thesis by (cases "cb_state b") (auto simp: breaker_tracks_def)
  qed
qed

lemma breaker_tracks_run:
  assumes "breaker_run s es t" "s = (new_breaker threshold reset_timeout, 0)" "0 < threshold"
  shows "breaker_tracks threshold reset_timeout es (fst t)"
  using assms
proof (induction rule: breaker_run.induct)
  case (breaker_run_Nil s)
  then show ?case by (simp add: breaker_tracks_def new_breaker_def failure_streak_def)
next
  case (breaker_run_snoc s es t e u)
  obtain b n b' n' where "t = (b, n)" "u = (b', n')" by fastforce
  with breaker_run_snoc breaker_tracks_step [of b n e b' n'] show ?case by simp
qed

text \<open>A run up to a point of its trace.\<close>

lemma breaker_run_split: "breaker_run s (us @ vs) t \<Longrightarrow> \<exists>r. breaker_run s us r \<and> breaker_run r vs t"
proof (induction vs arbitrary: t rule: rev_induct)
  case Nil
  then show ?case by (metis append_Nil2 breaker_run_Nil)
next
  case (snoc e vs)
  from snoc.prems have "breaker_run s ((us @ vs) @ [e]) t" by simp
  then obtain u where u: "breaker_run s (us @ vs) u" "breaker_step u e t" by (cases rule: breaker_run.cases) simp_all
  from snoc.IH [OF u(1)] u(2) show ?case by (metis breaker_run_snoc)
qed

lemma breaker_run_step:
  assumes "breaker_run s [e] t"
  shows "breaker_step s e t"
  using assms
proof (cases rule: breaker_run.cases)
  case (breaker_run_snoc es u)
  then have "breaker_run s [] u" by simp
  then have "u = s" by (cases rule: breaker_run.cases) simp_all
  with breaker_run_snoc show ?thesis by simp
qed

text \<open>While no call ends in success or failure, a half-open breaker stays as it is and admits nothing.\<close>

lemma half_open_stays:
  assumes "breaker_run s vs t" "s = (b, n)" "cb_state b = CB_HALF_OPEN" "cb_half_open_probe_in_flight b"
    and "Succeed \<notin> set vs" "\<forall>now. Fail now \<notin> set vs"
  shows "fst t = b \<and> (\<forall>now. Admit now \<notin> set vs)"
  using assms
proof (induction rule: breaker_run.induct)
  case (breaker_run_snoc s es t e u)
  then have t: "fst t = b" "\<forall>now. Admit now \<notin> set es" by auto
  obtain n' b' m where u: "t = (b, n')" "u = (b', m)" using t(1) by (metis prod.collapse)
  have enter: "breaker_enter now b = (a, b'') \<Longrightarrow> \<not> a \<and> b'' = b" for now a b''
    using breaker_run_snoc.prems(2,3) breaker_enter_cases [of now b a b''] by auto
  from breaker_run_snoc.hyps(2) have "b' = b \<and> (\<forall>now. e \<noteq> Admit now)"
    unfolding u using breaker_run_snoc.prems(4,5) by (auto elim!: breaker_stepE dest: enter)
  with t u show ?case by auto
qed auto

text \<open>
  C19.  The breaker protects the operation.  After any interleaving of calls the circuit is closed
  exactly while fewer than \<^verbatim>\<open>failure_threshold\<close> failures have happened since the last success; a new
  call is admitted exactly if the circuit is closed or it is open and the reset time has passed
  since the last failure, and none while the probe flag is set.  After a call was admitted while the circuit was not closed,
  the next one is admitted only after some call has ended in success or failure.  That may be another call than the
  probe (\<open>stale_call_releases_probe\<close>).
\<close>

theorem breaker_protects:
  assumes "breaker_run (new_breaker threshold reset_timeout, 0) es (b, n)" "0 < threshold"
  shows "(cb_state b = CB_CLOSED \<longleftrightarrow> failure_streak es < threshold)
     \<and> (fst (breaker_enter now b) \<longleftrightarrow> failure_streak es < threshold
          \<or> cb_state b = CB_OPEN \<and> reset_timeout \<le> fsub now (cb_opened_at b))
     \<and> (cb_state b = CB_OPEN \<longrightarrow>
          (\<exists>us vs. es = us @ Fail (cb_opened_at b) # vs \<and> (\<forall>t. Fail t \<notin> set vs)))
     \<and> (cb_half_open_probe_in_flight b \<longrightarrow> \<not> fst (breaker_enter now b))
     \<and> (\<forall>us probe vs later ws. es = us @ Admit probe # vs @ Admit later # ws \<and> threshold \<le> failure_streak us
          \<longrightarrow> Succeed \<in> set vs \<or> (\<exists>t. Fail t \<in> set vs))"
proof -
  have t: "breaker_tracks threshold reset_timeout es b"
    using breaker_tracks_run [OF assms(1) refl assms(2)] by simp
  obtain a b' where "breaker_enter now b = (a, b')" by fastforce
  note now = t breaker_enter_cases [OF this] this
  have "Succeed \<in> set vs \<or> (\<exists>t. Fail t \<in> set vs)"
    if es: "es = us @ Admit probe # vs @ Admit later # ws" and streak: "threshold \<le> failure_streak us" for us probe vs later ws
  proof (rule ccontr)
    assume quiet: "\<not> ?thesis"
    have "es = (us @ [Admit probe] @ (vs @ [Admit later])) @ ws" using es by simp
    then obtain u b1 n1 b2 n2 where run: "breaker_run (new_breaker threshold reset_timeout, 0) us (b1, n1)"
        "breaker_step (b1, n1) (Admit probe) (b2, n2)" "breaker_run (b2, n2) (vs @ [Admit later]) u"
      using assms(1) breaker_run_split breaker_run_step by (metis prod.exhaust)
    have "breaker_tracks threshold reset_timeout us b1" using breaker_tracks_run [OF run(1) refl assms(2)] by simp
    moreover from run(2) have "breaker_enter probe b1 = (True, b2)" by (simp add: breaker_step_simps)
    ultimately have "cb_state b2 = CB_HALF_OPEN" "cb_half_open_probe_in_flight b2"
      using breaker_enter_cases [of probe b1 True b2] streak by (auto simp: breaker_tracks_def)
    from half_open_stays [OF run(3) refl this] quiet show False by auto
  qed
  moreover from now have "(cb_state b = CB_CLOSED \<longleftrightarrow> failure_streak es < threshold)
     \<and> (fst (breaker_enter now b) \<longleftrightarrow> failure_streak es < threshold
          \<or> cb_state b = CB_OPEN \<and> reset_timeout \<le> fsub now (cb_opened_at b))
     \<and> (cb_state b = CB_OPEN \<longrightarrow>
          (\<exists>us vs. es = us @ Fail (cb_opened_at b) # vs \<and> (\<forall>t. Fail t \<notin> set vs)))
     \<and> (cb_half_open_probe_in_flight b \<longrightarrow> \<not> fst (breaker_enter now b))"
    by (auto simp: breaker_tracks_def)
  ultimately show ?thesis by blast
qed

text \<open>
  Two probes at once.  The flag says that some probe is in flight, but any call that ends clears it: two calls are admitted, the first
  failure opens the circuit, a probe is admitted, the second old call fails and clears the flag, and after the reset time another probe
  is admitted while the first one is still in flight.
\<close>

lemma stale_call_releases_probe:
  "\<exists>b. breaker_run (new_breaker 1 30, 0) [Admit 0, Admit 0, Fail 1, Admit 40, Fail 41, Admit 80] (b, 2) \<and> cb_state b = CB_HALF_OPEN"
proof -
  let ?b0 = "new_breaker 1 30"
  have sub: "fsub 40 1 = 39" "fsub 80 41 = 39" using fl_of_int [of 39] by (simp_all add: fsub_def)
  let ?run = "breaker_run (?b0, 0)"
  define b2 where "b2 = snd (breaker_enter 40 (breaker_failure 1 ?b0))"
  define b4 where "b4 = snd (breaker_enter 80 (breaker_failure 41 b2))"
  have enter: "breaker_enter 0 ?b0 = (True, ?b0)" "breaker_enter 40 (breaker_failure 1 ?b0) = (True, b2)"
      "breaker_enter 80 (breaker_failure 41 b2) = (True, b4)" "cb_state b4 = CB_HALF_OPEN"
    by (simp_all add: b2_def b4_def sub breaker_enter_def breaker_failure_def new_breaker_def Let_def)
  have "?run ([] @ [Admit 0]) (?b0, Suc 0)" by (rule breaker_run_snoc [OF breaker_run_Nil breaker_step.admit [OF enter(1)]])
  then have "?run (([] @ [Admit 0]) @ [Admit 0]) (?b0, Suc (Suc 0))" by (rule breaker_run_snoc [OF _ breaker_step.admit [OF enter(1)]])
  then have "?run ((([] @ [Admit 0]) @ [Admit 0]) @ [Fail 1]) (breaker_failure 1 ?b0, Suc 0)" by (rule breaker_run_snoc [OF _ breaker_step.fail])
  then have "?run (((([] @ [Admit 0]) @ [Admit 0]) @ [Fail 1]) @ [Admit 40]) (b2, Suc (Suc 0))"
    by (rule breaker_run_snoc [OF _ breaker_step.admit [OF enter(2)]])
  then have "?run ((((([] @ [Admit 0]) @ [Admit 0]) @ [Fail 1]) @ [Admit 40]) @ [Fail 41]) (breaker_failure 41 b2, Suc 0)"
    by (rule breaker_run_snoc [OF _ breaker_step.fail])
  then have "?run (((((([] @ [Admit 0]) @ [Admit 0]) @ [Fail 1]) @ [Admit 40]) @ [Fail 41]) @ [Admit 80]) (b4, Suc (Suc 0))"
    by (rule breaker_run_snoc [OF _ breaker_step.admit [OF enter(3)]])
  with enter(4) show ?thesis by (auto simp: numeral_2_eq_2)
qed

text \<open>A breaker with threshold one: a failing call, the probe after the reset time, its cancellation.\<close>

lemma sample_breaker_run:
  "breaker_run (new_breaker 1 30, 0) [Admit 0, Fail 1, Admit 40, Cancel]
     ((snd (breaker_enter 40 (breaker_failure 1 (new_breaker 1 30)))), 0)"
proof -
  let ?b0 = "new_breaker 1 30"
  let ?b1 = "breaker_failure 1 ?b0"
  have e0: "breaker_enter 0 ?b0 = (True, ?b0)"
    by (simp add: breaker_enter_def new_breaker_def Let_def)
  have "fsub 40 1 = 39" using fl_of_int [of 39] by (simp add: fsub_def)
  then have e1: "breaker_enter 40 ?b1 = (True, snd (breaker_enter 40 ?b1))"
    by (simp add: breaker_enter_def breaker_failure_def new_breaker_def Let_def)
  have "breaker_run (?b0, 0) ([] @ [Admit 0]) (?b0, Suc 0)"
    by (rule breaker_run_snoc [OF breaker_run_Nil breaker_step.admit [OF e0]])
  then have "breaker_run (?b0, 0) ([Admit 0] @ [Fail 1]) (?b1, 0)"
    by (intro breaker_run_snoc [OF _ breaker_step.fail]) simp
  then have "breaker_run (?b0, 0) ([Admit 0, Fail 1] @ [Admit 40]) (snd (breaker_enter 40 ?b1), Suc 0)"
    by (intro breaker_run_snoc [OF _ breaker_step.admit [OF e1]]) simp
  then have "breaker_run (?b0, 0) ([Admit 0, Fail 1, Admit 40] @ [Cancel]) (snd (breaker_enter 40 ?b1), 0)"
    by (intro breaker_run_snoc [OF _ breaker_step.cancel]) simp
  then show ?thesis by simp
qed

lemma sample_breaker_half_open:
  "cb_state (snd (breaker_enter 40 (breaker_failure 1 (new_breaker 1 30)))) = CB_HALF_OPEN"
proof -
  have "fsub 40 1 = 39" using fl_of_int [of 39] by (simp add: fsub_def)
  then show ?thesis by (simp add: breaker_enter_def breaker_failure_def new_breaker_def Let_def)
qed

theorem breaker_protects_witness:
  "\<not> fst (breaker_enter 1000 (snd (breaker_enter 40 (breaker_failure 1 (new_breaker 1 30)))))"
  using breaker_protects [OF sample_breaker_run, of 1000] sample_breaker_half_open
  by (simp add: failure_streak_def)

text \<open>
  A cancelled probe wedges the breaker.  When the last call in flight is the half-open probe
  and it ends in a cancellation, the breaker stays as it is for ever: every later call, at whatever
  time, is rejected, because cancellation passes both critical sections by.
\<close>

theorem cancelled_probe_wedges_breaker:
  assumes "breaker_run (new_breaker threshold reset_timeout, 0) es (b, 0)" "0 < threshold"
    and "cb_state b = CB_HALF_OPEN" "breaker_run (b, 0) es' t"
  shows "t = (b, 0) \<and> set es' \<subseteq> range Reject"
proof -
  have tr: "breaker_tracks threshold reset_timeout es b"
    using breaker_tracks_run [OF assms(1) refl assms(2)] by simp
  have step: "u = (b, 0) \<and> e \<in> range Reject" if "breaker_step (b, 0) e u" for e u
  proof -
    obtain b' n' where u: "u = (b', n')" by fastforce
    from that [unfolded u] consider (admit) now where "breaker_enter now b = (True, b')"
      | (reject) now where "e = Reject now" "breaker_enter now b = (False, b')" "n' = 0"
      by (auto elim: breaker_stepE)
    then show ?thesis
    proof cases
      case admit
      from breaker_enter_cases(1) [OF this] tr assms(3) show ?thesis
        by (simp add: breaker_tracks_def)
    next
      case reject
      from breaker_enter_cases [OF reject(2)] tr assms(3) reject show ?thesis
        by (simp add: breaker_tracks_def u)
    qed
  qed
  have "t = (b, 0) \<and> set es' \<subseteq> range Reject" if "breaker_run s es' t" "s = (b, 0)" for s
    using that
  proof (induction rule: breaker_run.induct)
    case (breaker_run_snoc s es t e u)
    with step show ?case by auto
  qed simp
  with assms(4) show ?thesis by blast
qed

theorem cancelled_probe_wedges_breaker_witness:
  "let b = snd (breaker_enter 40 (breaker_failure 1 (new_breaker 1 30)))
   in breaker_run (b, 0) [Reject 1000000] (b, 0)"
proof -
  let ?b = "snd (breaker_enter 40 (breaker_failure 1 (new_breaker 1 30)))"
  obtain a b' where e: "breaker_enter 1000000 ?b = (a, b')" by fastforce
  have run: "breaker_run (?b, 0) [if a then Admit 1000000 else Reject 1000000]
      (b', if a then Suc 0 else 0)"
    using breaker_run_snoc [OF breaker_run_Nil, of "(?b, 0)"] breaker_step.admit breaker_step.reject e
    by (cases a) fastforce+
  from cancelled_probe_wedges_breaker [OF sample_breaker_run _ sample_breaker_half_open run] run
  show ?thesis by (cases a) (auto simp: Let_def)
qed

subsection \<open>The token bucket\<close>

definition bucket_inv :: "bucket \<Rightarrow> bool" where
  "bucket_inv b \<longleftrightarrow> 0 < tb_capacity b \<and> fl (tb_capacity b) = tb_capacity b
     \<and> 0 < tb_refill_rate_per_second b \<and> 0 \<le> tb_tokens b \<and> tb_tokens b \<le> tb_capacity b
     \<and> fl (tb_tokens b) = tb_tokens b"

lemma new_bucket_inv:
  "new_bucket capacity refill now = Some b \<Longrightarrow> fl capacity = capacity \<Longrightarrow> bucket_inv b"
  by (auto simp: new_bucket_def bucket_inv_def split: if_splits)

text \<open>
  A token bucket never holds less than zero nor more than its capacity, in floating point: on
  a clock that does not go backwards every \<^verbatim>\<open>acquire\<close> keeps these bounds; it only grants a request
  that fits the capacity, never adds tokens beyond the refill, and a refused caller is told a
  non-negative time to wait and finds the bucket with fewer tokens than it asked for.
\<close>

theorem bucket_bounds:
  assumes "bucket_inv b" "tb_updated_at b \<le> now" "0 \<le> tokens"
    and "bucket_acquire now tokens b = (r, b')"
  shows "bucket_inv b' \<and> tb_capacity b' = tb_capacity b \<and> tb_updated_at b' = now
     \<and> tb_tokens b' \<le> fadd (tb_tokens b) (fmul (fsub now (tb_updated_at b)) (tb_refill_rate_per_second b))
     \<and> (case r of Inr _ \<Rightarrow> tokens \<le> tb_capacity b | Inl wait \<Rightarrow> 0 \<le> wait \<and> tb_tokens b' < tokens)"
proof -
  let ?gain = "fadd (tb_tokens b) (fmul (fsub now (tb_updated_at b)) (tb_refill_rate_per_second b))"
  let ?av = "min (tb_capacity b) ?gain"
  note inv = assms(1) [unfolded bucket_inv_def]
  have gain: "0 \<le> ?gain"
    using inv assms(2) by (simp add: fadd_def fmul_def fsub_def fl_nonneg)
  have av: "0 \<le> ?av" "?av \<le> tb_capacity b" "?av \<le> ?gain" "fl ?av = ?av"
    using gain inv by (auto simp: min_def fadd_def)
  show ?thesis
  proof (cases "tokens \<le> ?av")
    case True
    then have b': "b' = b\<lparr>tb_tokens := fsub ?av tokens, tb_updated_at := now\<rparr>" "r = Inr ()"
      using assms(4) by (auto simp: bucket_acquire_def Let_def)
    have "0 \<le> fsub ?av tokens" using True by (simp add: fsub_def fl_nonneg)
    moreover have "fl (?av - tokens) \<le> fl ?av"
      by (rule fl_mono) (use assms(3) in linarith)
    then have "fsub ?av tokens \<le> ?av" unfolding av(4) fsub_def [of ?av] .
    ultimately have "0 \<le> fsub ?av tokens \<and> fsub ?av tokens \<le> tb_capacity b \<and> fsub ?av tokens \<le> ?gain
        \<and> tokens \<le> tb_capacity b"
      using av True by linarith
    moreover have "fl (fsub ?av tokens) = fsub ?av tokens" by (simp add: fsub_def)
    ultimately show ?thesis using b' inv \<open>0 \<le> fsub ?av tokens\<close> by (simp add: bucket_inv_def)
  next
    case False
    then have b': "b' = b\<lparr>tb_tokens := ?av, tb_updated_at := now\<rparr>"
        "r = Inl (fdiv (fsub tokens ?av) (tb_refill_rate_per_second b))"
      using assms(4) by (auto simp: bucket_acquire_def Let_def)
    have "0 \<le> fdiv (fsub tokens ?av) (tb_refill_rate_per_second b)"
      unfolding fdiv_def fsub_def [of tokens]
      by (intro fl_nonneg divide_nonneg_nonneg) (use False inv in \<open>auto simp: not_le\<close>)
    moreover have "?av < tokens" using False by (simp only: not_le)
    ultimately show ?thesis using b' inv av by (simp add: bucket_inv_def)
  qed
qed

theorem bucket_bounds_witness:
  "case bucket_acquire 1 3 \<lparr>tb_capacity = 2, tb_refill_rate_per_second = 1, tb_tokens = 0,
      tb_updated_at = 0\<rparr> of (r, b') \<Rightarrow> bucket_inv b' \<and> tb_updated_at b' = 1"
proof -
  let ?b = "\<lparr>tb_capacity = 2, tb_refill_rate_per_second = 1, tb_tokens = 0, tb_updated_at = 0\<rparr> :: bucket"
  obtain r b' where r: "bucket_acquire 1 3 ?b = (r, b')" by fastforce
  have "fl 2 = 2" using fl_of_int [of 2] by simp
  then have "bucket_inv ?b" by (simp add: bucket_inv_def)
  from bucket_bounds [OF this _ _ r] show ?thesis using r by simp
qed

end
