(* ===== verification/TaskQueue.thy ===== *)
theory TaskQueue
  imports CoreErrors Contracts Resilience "HOL-Library.Product_Lexorder" "HOL-Library.Multiset"
begin

text \<open>
  The task queue, \<^verbatim>\<open>backend/src/liyans/infrastructure/tasks/queue.py\<close>: requests and their validation,
  registration, admission to the priority queue, and the worker that executes one item through
  the tenant's rate limiter, the circuit breaker of the task type and the retry loop, and that
  compensates and dead-letters what fails.

  Handlers and compensations belong to the caller: a handler is a function of the request and the
  attempt number, a compensation of the request and the error.  Clock readings are arguments.
  The model runs the items one after the other, the schedule of a single worker; several workers
  interleave inside the limiter and the breaker, whose interleavings are the subject of
  \<^verbatim>\<open>Resilience\<close>.  \<^verbatim>\<open>AsyncBulkhead\<close> only delays and is not represented.
\<close>

subsection \<open>Requests and results\<close>

datatype task_priority = TP_CRITICAL | TP_HIGH | TP_NORMAL | TP_LOW

fun priority_value :: "task_priority \<Rightarrow> int" where
  "priority_value TP_CRITICAL = 0"
| "priority_value TP_HIGH = 10"
| "priority_value TP_NORMAL = 20"
| "priority_value TP_LOW = 30"

record task_request =
  tr_task_type :: string
  tr_tenant_id :: tenant
  tr_payload :: doc
  tr_priority :: task_priority
  tr_task_id :: uuid
  tr_timeout_seconds :: rat
  tr_max_attempts :: int
  tr_expires_at :: "timestamp option"

definition valid_request :: "task_request \<Rightarrow> bool" where
  "valid_request r \<longleftrightarrow> tr_task_type r \<noteq> [] \<and> tr_tenant_id r \<noteq> [] \<and> 0 < tr_timeout_seconds r
     \<and> 1 \<le> tr_max_attempts r \<and> tr_max_attempts r \<le> 16"

record task_result =
  ts_task_id :: uuid
  ts_succeeded :: bool
  ts_attempts :: int
  ts_output :: "doc option"
  ts_error_code :: "string option"
  ts_completed_at :: timestamp

text \<open>How one handler call ends: an output, a \<^verbatim>\<open>TimeoutError\<close> or another exception.\<close>

datatype handler_end = Output doc | Handler_timeout | Handler_error app_error

record queue_item =
  qi_priority :: int
  qi_ordinal :: nat
  qi_request :: task_request

definition item_order :: "queue_item \<Rightarrow> int \<times> nat" where
  "item_order i = (qi_priority i, qi_ordinal i)"

record task_queue =
  tq_capacity :: int
  tq_limiter_capacity :: rat
  tq_limiter_refill :: rat
  tq_items :: "queue_item list"
  tq_handlers :: "string \<rightharpoonup> (task_request \<Rightarrow> int \<Rightarrow> handler_end)"
  tq_compensators :: "string \<rightharpoonup> (task_request \<Rightarrow> app_error \<Rightarrow> bool)"
  tq_breakers :: "string \<rightharpoonup> breaker"
  tq_limiters :: "tenant \<rightharpoonup> bucket"
  tq_next_ordinal :: nat
  tq_closed :: bool
  tq_dead_letters :: "task_result list"
  tq_futures :: "nat \<rightharpoonup> task_result"

definition new_queue :: "int \<Rightarrow> int \<Rightarrow> rat \<Rightarrow> rat \<Rightarrow> task_queue option" where
  "new_queue worker_count queue_capacity capacity refill =
     (if worker_count < 1 \<or> queue_capacity < 1 then None
      else Some \<lparr>tq_capacity = queue_capacity, tq_limiter_capacity = capacity,
                 tq_limiter_refill = refill, tq_items = [], tq_handlers = Map.empty,
                 tq_compensators = Map.empty, tq_breakers = Map.empty, tq_limiters = Map.empty,
                 tq_next_ordinal = 0, tq_closed = False, tq_dead_letters = [],
                 tq_futures = Map.empty\<rparr>)"

subsection \<open>Registration and admission\<close>

definition register_task ::
  "string \<Rightarrow> (task_request \<Rightarrow> int \<Rightarrow> handler_end) \<Rightarrow> (task_request \<Rightarrow> app_error \<Rightarrow> bool) option \<Rightarrow> int
     \<Rightarrow> task_queue \<Rightarrow> app_error + task_queue" where
  "register_task task_type handler compensation threshold q =
     (if tq_handlers q task_type \<noteq> None
      then Inl (Foreign_error ''task handler already registered'')
      else Inr (q\<lparr>tq_handlers := (tq_handlers q)(task_type \<mapsto> handler),
                  tq_compensators := (case compensation of None \<Rightarrow> tq_compensators q
                                      | Some c \<Rightarrow> (tq_compensators q)(task_type \<mapsto> c)),
                  tq_breakers := (tq_breakers q)(task_type \<mapsto> new_breaker threshold 30)\<rparr>))"

text \<open>
  \<^verbatim>\<open>enqueue\<close>; a full queue makes \<^verbatim>\<open>put\<close> wait, which the model shows as \<open>Inr None\<close>.  The future of an
  item is known by the item's ordinal.
\<close>

definition enqueue_task :: "task_request \<Rightarrow> task_queue \<Rightarrow> app_error + (nat \<times> task_queue) option" where
  "enqueue_task r q =
     (if tq_closed q then Inl (liyan ''LIYAN-TASK-QUEUE-CLOSED'' EC_TASK False 503)
      else if tq_capacity q \<le> int (length (tq_items q)) then Inr None
      else Inr (Some (tq_next_ordinal q,
        q\<lparr>tq_items := tq_items q @ [\<lparr>qi_priority = priority_value (tr_priority r),
                                       qi_ordinal = tq_next_ordinal q, qi_request = r\<rparr>],
          tq_next_ordinal := Suc (tq_next_ordinal q)\<rparr>)))"

subsection \<open>Execution of one request\<close>

text \<open>
  One attempt on the pair of limiter and breaker.  \<open>reading n p\<close> is the \<^verbatim>\<open>monotonic()\<close> reading of
  attempt \<open>n\<close> at point \<open>p\<close>: 0 in the limiter, 1 when entering and 2 when leaving the breaker.
\<close>

definition attempt_task ::
  "(task_request \<Rightarrow> int \<Rightarrow> handler_end) \<Rightarrow> (int \<Rightarrow> nat \<Rightarrow> rat) \<Rightarrow> task_request \<Rightarrow> int
     \<Rightarrow> bucket \<times> breaker \<Rightarrow> (app_error + doc) \<times> bucket \<times> breaker" where
  "attempt_task handler reading r attempt st =
     (case bucket_acquire (reading attempt 0) 1 (fst st) of
        (Inl wait, limiter) \<Rightarrow> (Inl rate_limit_exceeded, limiter, snd st)
      | (Inr _, limiter) \<Rightarrow>
         (case breaker_enter (reading attempt 1) (snd st) of
            (False, b) \<Rightarrow> (Inl circuit_open_error, limiter, b)
          | (True, b) \<Rightarrow>
             (case handler r attempt of
                Output out \<Rightarrow> (Inr out, limiter, breaker_success b)
              | Handler_timeout \<Rightarrow>
                  (Inl operation_timeout_error, limiter, breaker_failure (reading attempt 2) b)
              | Handler_error e \<Rightarrow> (Inl e, limiter, breaker_failure (reading attempt 2) b))))"

definition task_policy :: "task_request \<Rightarrow> retry_policy" where
  "task_policy r = default_retry_policy\<lparr>ry_max_attempts := tr_max_attempts r\<rparr>"

text \<open>\<^verbatim>\<open>_execute\<close>: the outcome with the number of attempts that the exception or the result carries.\<close>

definition execute_task ::
  "timestamp \<Rightarrow> rat \<Rightarrow> (int \<Rightarrow> nat \<Rightarrow> rat) \<Rightarrow> timestamp \<Rightarrow> task_request \<Rightarrow> task_queue
     \<Rightarrow> (app_error \<times> int + task_result) \<times> task_queue" where
  "execute_task now created reading completed_at r q =
     (if (case tr_expires_at r of None \<Rightarrow> False | Some t \<Rightarrow> t \<le> now)
      then (Inl (liyan ''LIYAN-MESSAGE-EXPIRED'' EC_TASK False 410, 0), q)
      else case (tq_handlers q (tr_task_type r), tq_breakers q (tr_task_type r)) of
        (Some handler, Some b) \<Rightarrow>
          (case new_bucket (tq_limiter_capacity q) (tq_limiter_refill q) created of
             None \<Rightarrow> (Inl (Foreign_error ''capacity and refill_rate_per_second must be positive'', 0), q)
           | Some fresh \<Rightarrow>
               (let limiter = (case tq_limiters q (tr_tenant_id r) of None \<Rightarrow> fresh | Some l \<Rightarrow> l)
                in case retry_async (attempt_task handler reading r) (task_policy r) is_retriable
                          (limiter, b) of
                  (out, n, l', b') \<Rightarrow>
                    (let q' = q\<lparr>tq_limiters := (tq_limiters q)(tr_tenant_id r \<mapsto> l'),
                                tq_breakers := (tq_breakers q)(tr_task_type r \<mapsto> b')\<rparr>
                     in case out of
                          Inr output \<Rightarrow>
                            (Inr \<lparr>ts_task_id = tr_task_id r, ts_succeeded = True, ts_attempts = n,
                                  ts_output = Some output, ts_error_code = None,
                                  ts_completed_at = completed_at\<rparr>, q')
                        | Inl (Raised_error e) \<Rightarrow> (Inl (e, n), q')
                        | Inl Retry_incomplete \<Rightarrow>
                            (Inl (Foreign_error ''retry loop completed without a result or exception'', n), q'))))
      | _ \<Rightarrow> (Inl (liyan ''LIYAN-TASK-HANDLER-MISSING'' EC_TASK False 422, 0), q))"

definition error_code_of :: "app_error \<Rightarrow> string" where
  "error_code_of e = (case e of Liyan l \<Rightarrow> le_code l | Foreign_error _ \<Rightarrow> ''LIYAN-TASK-FAILED'')"

text \<open>
  \<^verbatim>\<open>_compensate\<close>: what the compensation does or raises does not change the result; the flag says
  whether one was called.
\<close>

definition compensate :: "task_request \<Rightarrow> app_error \<Rightarrow> int \<Rightarrow> timestamp \<Rightarrow> task_queue \<Rightarrow> task_result \<times> bool" where
  "compensate r e attempts completed_at q =
     (\<lparr>ts_task_id = tr_task_id r, ts_succeeded = False, ts_attempts = attempts, ts_output = None,
       ts_error_code = Some (error_code_of e), ts_completed_at = completed_at\<rparr>,
      tq_compensators q (tr_task_type r) \<noteq> None)"

subsection \<open>The worker\<close>

text \<open>What a worker meets while it processes the item with a given ordinal.\<close>

record worker_clock =
  wc_now :: "nat \<Rightarrow> timestamp"
  wc_created :: "nat \<Rightarrow> rat"
  wc_mono :: "nat \<Rightarrow> int \<Rightarrow> nat \<Rightarrow> rat"
  wc_completed :: "nat \<Rightarrow> timestamp"

text \<open>\<^verbatim>\<open>PriorityQueue.get\<close> takes the smallest item; the flag says whether a compensation ran.\<close>

definition next_item :: "task_queue \<Rightarrow> queue_item option" where
  "next_item q = (case sort_key item_order (tq_items q) of [] \<Rightarrow> None | i # _ \<Rightarrow> Some i)"

definition worker_step :: "worker_clock \<Rightarrow> task_queue \<Rightarrow> (queue_item \<times> task_result \<times> bool \<times> task_queue) option"
where
  "worker_step clk q =
     (case next_item q of
        None \<Rightarrow> None
      | Some item \<Rightarrow>
         (let n = qi_ordinal item; r = qi_request item;
              q1 = q\<lparr>tq_items := remove1 item (tq_items q)\<rparr>
          in case execute_task (wc_now clk n) (wc_created clk n) (wc_mono clk n) (wc_completed clk n) r q1 of
               (Inr result, q2) \<Rightarrow>
                 Some (item, result, False, q2\<lparr>tq_futures := (tq_futures q2)(n \<mapsto> result)\<rparr>)
             | (Inl (e, attempts), q2) \<Rightarrow>
                 (case compensate r e attempts (wc_completed clk n) q2 of (result, called) \<Rightarrow>
                    Some (item, result, called,
                      q2\<lparr>tq_dead_letters := tq_dead_letters q2 @ [result],
                         tq_futures := (tq_futures q2)(n \<mapsto> result)\<rparr>))))"

text \<open>The worker loop until the queue is empty, as \<^verbatim>\<open>close\<close> waits for it with \<^verbatim>\<open>join\<close>.\<close>

lemma next_item_mem: "next_item q = Some i \<Longrightarrow> i \<in> set (tq_items q)"
  by (auto simp: next_item_def split: list.splits) (metis list.set_intros(1) set_sort)

text \<open>Executing a request touches the limiters and the breakers only.\<close>

lemma execute_task_frame:
  assumes "execute_task now c m t r q = (out, q')"
  shows "q' = q\<lparr>tq_limiters := tq_limiters q', tq_breakers := tq_breakers q'\<rparr>"
  using assms
  by (auto simp: execute_task_def Let_def split: option.splits prod.splits sum.splits retry_error.splits
      if_splits)

definition finished ::
  "queue_item \<Rightarrow> task_result \<Rightarrow> bool \<Rightarrow> task_queue \<Rightarrow> task_queue \<Rightarrow> bool" where
  "finished item result called q q' \<longleftrightarrow>
     tq_items q' = remove1 item (tq_items q)
     \<and> tq_futures q' = (tq_futures q)(qi_ordinal item \<mapsto> result)
     \<and> tq_compensators q' = tq_compensators q \<and> tq_handlers q' = tq_handlers q
     \<and> tq_dead_letters q' = tq_dead_letters q @ (if ts_succeeded result then [] else [result])
     \<and> ts_task_id result = tr_task_id (qi_request item)
     \<and> (if ts_succeeded result then ts_output result \<noteq> None \<and> ts_error_code result = None \<and> \<not> called
        else ts_output result = None \<and> ts_error_code result \<noteq> None
          \<and> (called \<longleftrightarrow> tq_compensators q (tr_task_type (qi_request item)) \<noteq> None))"

lemma execute_task_success:
  assumes "execute_task now c m t r q = (Inr result, q')"
  shows "ts_succeeded result \<and> ts_task_id result = tr_task_id r \<and> ts_output result \<noteq> None
     \<and> ts_error_code result = None"
  using assms
  by (auto simp: execute_task_def Let_def split: option.splits prod.splits sum.splits retry_error.splits
      if_splits)

lemma execute_task_attempts:
  assumes "execute_task now c m t r q = (out, q')" "1 \<le> tr_max_attempts r"
  shows "case out of Inr result \<Rightarrow> 1 \<le> ts_attempts result \<and> ts_attempts result \<le> tr_max_attempts r
     | Inl (e, n) \<Rightarrow> 0 \<le> n \<and> n \<le> tr_max_attempts r"
proof -
  have "1 \<le> n \<and> n \<le> tr_max_attempts r"
    if "retry_async op (task_policy r) is_retriable st = (o', n, st')"
    for op :: "int \<Rightarrow> bucket \<times> breaker \<Rightarrow> (app_error + doc) \<times> bucket \<times> breaker" and st o' n st'
    using retry_loop_spec [OF that [unfolded retry_async_def]] assms(2)
    by (simp add: task_policy_def)
  then show ?thesis
    using assms by (fastforce simp: execute_task_def Let_def
        split: option.splits prod.splits sum.splits retry_error.splits if_splits)
qed

lemma execute_task_refused:
  assumes "execute_task now c m t r q = (out, q')"
    and "tq_handlers q (tr_task_type r) = None \<or> (\<exists>e. tr_expires_at r = Some e \<and> e \<le> now)"
  shows "\<exists>e. out = Inl (e, 0)"
  using assms by (auto simp: execute_task_def split: option.splits if_splits)

lemma worker_step_parts:
  assumes "worker_step clk q = Some (item, result, called, q')"
  shows "next_item q = Some item" "finished item result called q q'"
    and "1 \<le> tr_max_attempts (qi_request item) \<Longrightarrow>
       0 \<le> ts_attempts result \<and> ts_attempts result \<le> tr_max_attempts (qi_request item)
       \<and> (ts_succeeded result \<longrightarrow> 1 \<le> ts_attempts result)"
    and "tq_handlers q (tr_task_type (qi_request item)) = None
       \<or> (\<exists>e. tr_expires_at (qi_request item) = Some e \<and> e \<le> wc_now clk (qi_ordinal item))
       \<Longrightarrow> \<not> ts_succeeded result \<and> ts_attempts result = 0"
proof -
  from assms show n: "next_item q = Some item"
    by (auto simp: worker_step_def Let_def split: option.splits prod.splits sum.splits)
  let ?n = "qi_ordinal item" and ?r = "qi_request item"
  let ?q1 = "q\<lparr>tq_items := remove1 item (tq_items q)\<rparr>"
  obtain out q2 where ex: "execute_task (wc_now clk ?n) (wc_created clk ?n) (wc_mono clk ?n)
      (wc_completed clk ?n) ?r ?q1 = (out, q2)" by fastforce
  have step: "worker_step clk q = (case out of
        Inr result \<Rightarrow> Some (item, result, False, q2\<lparr>tq_futures := (tq_futures q2)(?n \<mapsto> result)\<rparr>)
      | Inl (e, attempts) \<Rightarrow> (case compensate ?r e attempts (wc_completed clk ?n) q2 of (result, called) \<Rightarrow>
          Some (item, result, called, q2\<lparr>tq_dead_letters := tq_dead_letters q2 @ [result],
                         tq_futures := (tq_futures q2)(?n \<mapsto> result)\<rparr>)))"
    by (simp add: worker_step_def n Let_def ex split: sum.split)
  obtain l b where q2: "q2 = ?q1\<lparr>tq_limiters := l, tq_breakers := b\<rparr>"
    using execute_task_frame [OF ex] by blast
  show "finished item result called q q'"
  proof (cases out)
    case (Inr res)
    with assms step execute_task_success [of _ _ _ _ ?r ?q1 res q2] ex show ?thesis
      by (auto simp: finished_def q2)
  next
    case (Inl en)
    with assms step show ?thesis
      by (cases en) (auto simp: finished_def compensate_def q2)
  qed
  show "0 \<le> ts_attempts result \<and> ts_attempts result \<le> tr_max_attempts ?r
       \<and> (ts_succeeded result \<longrightarrow> 1 \<le> ts_attempts result)" if "1 \<le> tr_max_attempts ?r"
    using execute_task_attempts [OF ex that] assms step
    by (cases out) (auto simp: compensate_def split: prod.splits)
  show "\<not> ts_succeeded result \<and> ts_attempts result = 0"
    if "tq_handlers q (tr_task_type ?r) = None
       \<or> (\<exists>e. tr_expires_at ?r = Some e \<and> e \<le> wc_now clk ?n)"
  proof -
    have "\<exists>e. out = Inl (e, 0)" using execute_task_refused [OF ex] that by simp
    with assms step show ?thesis by (auto simp: compensate_def)
  qed
qed

function drain :: "worker_clock \<Rightarrow> task_queue \<Rightarrow> (queue_item \<times> task_result) list \<times> task_queue" where
  "drain clk q =
     (case worker_step clk q of
        None \<Rightarrow> ([], q)
      | Some (item, result, called, q') \<Rightarrow>
          (case drain clk q' of (rest, q'') \<Rightarrow> ((item, result) # rest, q'')))"
  by pat_completeness auto

termination
proof (relation "measure (\<lambda>(_, q). length (tq_items q))")
  fix clk q a item y result ya called q'
  assume "worker_step clk q = Some a" "(item, y) = a" "(result, ya) = y" "(called, q') = ya"
  then have step: "worker_step clk q = Some (item, result, called, q')" by simp
  have "item \<in> set (tq_items q)" by (rule next_item_mem [OF worker_step_parts(1) [OF step]])
  then have "length (tq_items q) - 1 < length (tq_items q)" "item \<in> set (tq_items q)"
    by (auto dest: length_pos_if_in_set)
  moreover have "tq_items q' = remove1 item (tq_items q)"
    using worker_step_parts(2) [OF step] by (simp add: finished_def)
  ultimately show "((clk, q'), (clk, q)) \<in> measure (\<lambda>(_, q). length (tq_items q))"
    by (simp add: length_remove1)
qed simp

declare drain.simps [simp del]

text \<open>
  Every item a worker takes is settled exactly once.  It is the item with the smallest priority
  and, among those, the oldest; its future receives a result of its task; a success carries an
  output after 1 to \<^verbatim>\<open>max_attempts\<close> attempts; any failure (expired, unregistered, rate-limited, circuit
  open, timed out, raised) is compensated if a compensation is registered, dead-lettered once,
  and carries an error code.
\<close>

theorem task_settled_once:
  assumes "worker_step clk q = Some (item, result, called, q')"
    and "valid_request (qi_request item)"
  shows "item \<in> set (tq_items q) \<and> list_all (\<lambda>j. item_order item \<le> item_order j) (tq_items q)
     \<and> finished item result called q q'
     \<and> 0 \<le> ts_attempts result \<and> ts_attempts result \<le> tr_max_attempts (qi_request item)
     \<and> (ts_succeeded result \<longrightarrow> 1 \<le> ts_attempts result)
     \<and> (tq_handlers q (tr_task_type (qi_request item)) = None
        \<or> (\<exists>e. tr_expires_at (qi_request item) = Some e \<and> e \<le> wc_now clk (qi_ordinal item))
        \<longrightarrow> \<not> ts_succeeded result \<and> ts_attempts result = 0)"
proof -
  note parts = worker_step_parts [OF assms(1)]
  from parts(1) obtain rest where "sort_key item_order (tq_items q) = item # rest"
    by (auto simp: next_item_def split: list.splits)
  then have "sorted (map item_order (item # rest))" "set (tq_items q) = set (item # rest)"
    by (metis sorted_sort_key, metis set_sort)
  then have "list_all (\<lambda>j. item_order item \<le> item_order j) (tq_items q)"
    by (auto simp: list_all_iff)
  moreover have "1 \<le> tr_max_attempts (qi_request item)" using assms(2) by (simp add: valid_request_def)
  ultimately show ?thesis using next_item_mem [OF parts(1)] parts(2-) by blast
qed

subsection \<open>Draining the queue\<close>

lemma sort_remove_min:
  assumes "sort_key item_order xs = i # rest" "distinct (map qi_ordinal xs)"
  shows "sort_key item_order (remove1 i xs) = rest"
proof (rule sort_key_inj_key_eq)
  have m: "mset xs = mset (i # rest)" using assms(1) by (metis mset_sort)
  then show "mset (remove1 i xs) = mset rest" by simp
  have "inj_on qi_ordinal (set (remove1 i xs))"
    using assms(2) set_remove1_subset [of i xs] by (metis distinct_map inj_on_subset)
  then show "inj_on item_order (set (remove1 i xs))"
    by (auto simp: inj_on_def item_order_def)
  have "sorted (map item_order (i # rest))" using assms(1) by (metis sorted_sort_key)
  then show "sorted (map item_order rest)" by simp
qed

lemma drain_spec:
  assumes "drain clk q = (settled, q')" "distinct (map qi_ordinal (tq_items q))"
  shows "map fst settled = sort_key item_order (tq_items q) \<and> tq_items q' = []
     \<and> tq_dead_letters q' = tq_dead_letters q
         @ map snd (filter (\<lambda>(i, res). \<not> ts_succeeded res) settled)
     \<and> tq_futures q' = tq_futures q ++ map_of (map (\<lambda>(i, res). (qi_ordinal i, res)) settled)"
  using assms
proof (induction clk q arbitrary: settled q' rule: drain.induct)
  case (1 clk q)
  show ?case
  proof (cases "worker_step clk q")
    case None
    then have "next_item q = None"
      by (auto simp: worker_step_def compensate_def Let_def split: option.splits prod.splits sum.splits)
    then have "sort_key item_order (tq_items q) = []" by (auto simp: next_item_def split: list.splits)
    moreover from this have "tq_items q = []" by (metis set_empty set_sort)
    ultimately show ?thesis using "1.prems" None by (simp add: drain.simps [of clk q])
  next
    case (Some a)
    then obtain i res called q1 where a: "a = (i, res, called, q1)" by (cases a) auto
    obtain rest q2 where rec: "drain clk q1 = (rest, q2)" by fastforce
    have settled: "settled = (i, res) # rest" "q' = q2"
      using "1.prems"(1) Some a rec by (auto simp: drain.simps [of clk q])
    note parts = worker_step_parts [OF Some [unfolded a]]
    have fin: "tq_items q1 = remove1 i (tq_items q)"
        "tq_futures q1 = (tq_futures q)(qi_ordinal i \<mapsto> res)"
        "tq_dead_letters q1 = tq_dead_letters q @ (if ts_succeeded res then [] else [res])"
      using parts(2) by (simp_all add: finished_def)
    from parts(1) obtain tl where tl: "sort_key item_order (tq_items q) = i # tl"
      by (auto simp: next_item_def split: list.splits)
    have dist: "distinct (map qi_ordinal (tq_items q1))"
      unfolding fin(1) using "1.prems"(2)
      by (metis distinct_map distinct_remove1 inj_on_subset set_remove1_subset)
    from "1.IH" [OF Some a [symmetric] refl refl rec dist]
    have IH: "map fst rest = sort_key item_order (tq_items q1)" "tq_items q2 = []"
        "tq_dead_letters q2 = tq_dead_letters q1
           @ map snd (filter (\<lambda>(i, res). \<not> ts_succeeded res) rest)"
        "tq_futures q2 = tq_futures q1 ++ map_of (map (\<lambda>(i, res). (qi_ordinal i, res)) rest)"
      by auto
    have order: "map fst rest = tl"
      using IH(1) sort_remove_min [OF tl "1.prems"(2)] by (simp add: fin(1))
    have fresh: "qi_ordinal i \<notin> dom (map_of (map (\<lambda>(i, res). (qi_ordinal i, res)) rest))"
    proof -
      have "mset (map qi_ordinal (i # tl)) = mset (map qi_ordinal (tq_items q))"
        using tl by (metis mset_map mset_sort)
      then have "distinct (map qi_ordinal (i # tl))"
        using "1.prems"(2) by (metis mset_eq_imp_distinct_iff)
      moreover have "fst ` set (map (\<lambda>(i, res). (qi_ordinal i, res)) rest) = qi_ordinal ` set (map fst rest)"
        by (force simp: image_iff)
      ultimately show ?thesis by (simp add: dom_map_of_conv_image_fst order)
    qed
    have "tq_futures q2 = tq_futures q ++ map_of (map (\<lambda>(i, res). (qi_ordinal i, res)) settled)"
      unfolding IH(4) fin(2) settled(1) using fresh
      by (auto simp: map_add_def fun_eq_iff split: option.split)
    moreover have "tq_dead_letters q2 = tq_dead_letters q
        @ map snd (filter (\<lambda>(i, res). \<not> ts_succeeded res) settled)"
      unfolding IH(3) fin(3) by (simp add: settled(1))
    moreover have "map fst settled = sort_key item_order (tq_items q)"
      using order by (simp add: settled(1) tl)
    ultimately show ?thesis unfolding settled(2) using IH(2) by blast
  qed
qed

text \<open>
  C20.  A worker that drains the queue settles every queued task exactly once, by rising priority value and
  first in, first out within a priority, leaves the queue empty, puts exactly the failed results into
  the dead letters in that order, and fulfils exactly the futures of the queued items.
\<close>

theorem queue_drains_in_order:
  assumes "drain clk q = (settled, q')" "distinct (map qi_ordinal (tq_items q))"
  shows "map fst settled = sort_key item_order (tq_items q) \<and> tq_items q' = []
     \<and> tq_dead_letters q' = tq_dead_letters q
         @ map snd (filter (\<lambda>(i, res). \<not> ts_succeeded res) settled)
     \<and> tq_futures q' = tq_futures q ++ map_of (map (\<lambda>(i, res). (qi_ordinal i, res)) settled)"
  using assms by (rule drain_spec)

subsection \<open>A concrete queue\<close>

definition sample_request :: "uuid \<Rightarrow> task_priority \<Rightarrow> task_request" where
  "sample_request i p =
     \<lparr>tr_task_type = ''render'', tr_tenant_id = ''tenant-1'', tr_payload = DObj [], tr_priority = p,
      tr_task_id = i, tr_timeout_seconds = 30, tr_max_attempts = 3, tr_expires_at = None\<rparr>"

definition sample_queue :: task_queue where
  "sample_queue =
     \<lparr>tq_capacity = 8, tq_limiter_capacity = 20, tq_limiter_refill = 10,
      tq_items = [\<lparr>qi_priority = 20, qi_ordinal = 0, qi_request = sample_request ''a'' TP_NORMAL\<rparr>,
                  \<lparr>qi_priority = 0, qi_ordinal = 1, qi_request = sample_request ''b'' TP_CRITICAL\<rparr>],
      tq_handlers = Map.empty, tq_compensators = Map.empty, tq_breakers = Map.empty,
      tq_limiters = Map.empty, tq_next_ordinal = 2, tq_closed = False, tq_dead_letters = [],
      tq_futures = Map.empty\<rparr>"

definition sample_worker_clock :: worker_clock where
  "sample_worker_clock =
     \<lparr>wc_now = (\<lambda>_. 0), wc_created = (\<lambda>_. 0), wc_mono = (\<lambda>_ _ _. 0), wc_completed = (\<lambda>_. 1)\<rparr>"

theorem queue_drains_in_order_witness:
  "map (\<lambda>(i, _). qi_ordinal i) (fst (drain sample_worker_clock sample_queue)) = [1, 0]"
proof -
  obtain settled q' where d: "drain sample_worker_clock sample_queue = (settled, q')" by fastforce
  have "distinct (map qi_ordinal (tq_items sample_queue))" by (simp add: sample_queue_def)
  from queue_drains_in_order [OF d this]
  have "map fst settled = sort_key item_order (tq_items sample_queue)" by blast
  then have "map qi_ordinal (map fst settled) = [1, 0]"
    by (simp add: sample_queue_def item_order_def)
  then show ?thesis by (simp add: d comp_def case_prod_unfold)
qed

theorem task_settled_once_witness:
  "\<exists>result q'. worker_step sample_worker_clock sample_queue
       = Some (\<lparr>qi_priority = 0, qi_ordinal = 1, qi_request = sample_request ''b'' TP_CRITICAL\<rparr>,
           result, False, q')
     \<and> \<not> ts_succeeded result \<and> ts_attempts result = 0 \<and> tq_dead_letters q' = [result]"
proof -
  let ?i = "\<lparr>qi_priority = 0, qi_ordinal = 1, qi_request = sample_request ''b'' TP_CRITICAL\<rparr>"
  have "next_item sample_queue = Some ?i"
    by (simp add: next_item_def sample_queue_def item_order_def)
  moreover from this have "worker_step sample_worker_clock sample_queue \<noteq> None"
    by (auto simp: worker_step_def compensate_def Let_def split: option.splits prod.splits sum.splits)
  then obtain i result called q' where
      step': "worker_step sample_worker_clock sample_queue = Some (i, result, called, q')"
    by (cases "worker_step sample_worker_clock sample_queue") auto
  ultimately have step: "worker_step sample_worker_clock sample_queue = Some (?i, result, called, q')"
    using worker_step_parts(1) [OF step'] by simp
  have "valid_request (qi_request ?i)" by (simp add: valid_request_def sample_request_def)
  from task_settled_once [OF step this] step show ?thesis
    by (auto simp: finished_def sample_queue_def)
qed

end
