(* ===== verification/Envelope.thy ===== *)
theory Envelope
  imports CoreErrors Contracts
begin

text \<open>
  The message envelope of
  \<^verbatim>\<open>packages/contracts-python/src/liyans_contracts/envelope.py\<close> with its field constraints and
  validators, and the delivery digest of \<^verbatim>\<open>backend/src/liyans/infrastructure/messaging/bus.py\<close>.
  The literal \<^verbatim>\<open>schema_version\<close> and \<^verbatim>\<open>mode\<close> fields are constants that appear in the document.
\<close>

datatype message_kind = MK_COMMAND | MK_EVENT | MK_RESULT | MK_ERROR

datatype message_priority = MP_CRITICAL | MP_HIGH | MP_NORMAL | MP_LOW

datatype error_severity = ES_WARNING | ES_ERROR | ES_CRITICAL

datatype source_agent = SA_LECTURER | SA_MIND_MAP | SA_TESTER | SA_CODE_SANDBOX | SA_EXTENSION

datatype resource_type =
  RT_LECTURER_DOC | RT_MIND_MAP | RT_GRADIENT_QUIZ | RT_SIMULATION_CODE | RT_EXTENSION_MATERIAL

fun message_kind_value :: "message_kind \<Rightarrow> string" where
  "message_kind_value MK_COMMAND = ''COMMAND''"
| "message_kind_value MK_EVENT = ''EVENT''"
| "message_kind_value MK_RESULT = ''RESULT''"
| "message_kind_value MK_ERROR = ''ERROR''"

fun message_priority_value :: "message_priority \<Rightarrow> string" where
  "message_priority_value MP_CRITICAL = ''CRITICAL''"
| "message_priority_value MP_HIGH = ''HIGH''"
| "message_priority_value MP_NORMAL = ''NORMAL''"
| "message_priority_value MP_LOW = ''LOW''"

fun error_severity_value :: "error_severity \<Rightarrow> string" where
  "error_severity_value ES_WARNING = ''WARNING''"
| "error_severity_value ES_ERROR = ''ERROR''"
| "error_severity_value ES_CRITICAL = ''CRITICAL''"

fun source_agent_value :: "source_agent \<Rightarrow> string" where
  "source_agent_value SA_LECTURER = ''Lecturer''"
| "source_agent_value SA_MIND_MAP = ''MindMap''"
| "source_agent_value SA_TESTER = ''Tester''"
| "source_agent_value SA_CODE_SANDBOX = ''CodeSandbox''"
| "source_agent_value SA_EXTENSION = ''Extension''"

fun resource_type_value :: "resource_type \<Rightarrow> string" where
  "resource_type_value RT_LECTURER_DOC = ''Lecturer_Doc''"
| "resource_type_value RT_MIND_MAP = ''MindMap''"
| "resource_type_value RT_GRADIENT_QUIZ = ''Gradient_Quiz''"
| "resource_type_value RT_SIMULATION_CODE = ''Simulation_Code''"
| "resource_type_value RT_EXTENSION_MATERIAL = ''Extension_Material''"

record producer_metadata =
  pm_agent :: "source_agent option"
  pm_service :: string
  pm_instance_id :: string
  pm_build_version :: string

record delivery_metadata =
  dm_idempotency_key :: string
  dm_attempt :: int
  dm_max_attempts :: int
  dm_priority :: message_priority
  dm_available_at :: timestamp
  dm_expires_at :: "timestamp option"

record resource_metadata =
  rm_resource_type :: resource_type
  rm_blueprint_id :: uuid
  rm_blueprint_version :: string
  rm_candidate_id :: "uuid option"
  rm_candidate_version :: "int option"
  rm_block_id :: "string option"

record error_receipt =
  er_error_code :: string
  er_category :: string
  er_severity :: error_severity
  er_retriable :: bool
  er_safe_message :: string
  er_details_ref :: "doc option"
  er_occurred_at :: timestamp

record envelope =
  en_envelope_id :: uuid
  en_event_type :: string
  en_message_kind :: message_kind
  en_tenant_id :: tenant
  en_session_id :: uuid
  en_subject_ref :: string
  en_correlation_id :: uuid
  en_causation_id :: "uuid option"
  en_sequence :: int
  en_partition_key :: string
  en_producer :: producer_metadata
  en_delivery :: delivery_metadata
  en_resource :: "resource_metadata option"
  en_trace_id :: string
  en_span_id :: "string option"
  en_created_at :: timestamp
  en_error :: "error_receipt option"
  en_payload :: doc

definition is_any_hex :: "char \<Rightarrow> bool" where
  "is_any_hex c \<longleftrightarrow> is_lower_hex c \<or> char_in (CHR ''A'') (CHR ''F'') c"

definition valid_producer :: "producer_metadata \<Rightarrow> bool" where
  "valid_producer p \<longleftrightarrow> len_between 1 128 (pm_service p) \<and> len_between 1 128 (pm_instance_id p)
     \<and> is_version_string (pm_build_version p)"

definition valid_delivery :: "delivery_metadata \<Rightarrow> bool" where
  "valid_delivery d \<longleftrightarrow>
     len_between 16 160 (dm_idempotency_key d)
     \<and> list_all (\<lambda>c. is_alnum c \<or> c \<in> set '':_-.'') (dm_idempotency_key d)
     \<and> 1 \<le> dm_attempt d \<and> dm_attempt d \<le> 16
     \<and> 1 \<le> dm_max_attempts d \<and> dm_max_attempts d \<le> 16
     \<and> dm_attempt d \<le> dm_max_attempts d
     \<and> (case dm_expires_at d of None \<Rightarrow> True | Some t \<Rightarrow> dm_available_at d < t)"

definition valid_resource :: "resource_metadata \<Rightarrow> bool" where
  "valid_resource r \<longleftrightarrow>
     is_version_string (rm_blueprint_version r)
     \<and> (case rm_candidate_version r of None \<Rightarrow> True | Some v \<Rightarrow> 1 \<le> v)
     \<and> (case rm_block_id r of None \<Rightarrow> True | Some b \<Rightarrow> len_between 1 128 b)
     \<and> (rm_candidate_id r = None \<longleftrightarrow> rm_candidate_version r = None)"

definition valid_error_receipt :: "error_receipt \<Rightarrow> bool" where
  "valid_error_receipt e \<longleftrightarrow>
     len_between 2 128 (er_error_code e)
     \<and> char_in (CHR ''A'') (CHR ''Z'') (hd (er_error_code e))
     \<and> list_all (\<lambda>c. char_in (CHR ''A'') (CHR ''Z'') c \<or> char_in (CHR ''0'') (CHR ''9'') c
          \<or> c \<in> set ''_-'') (tl (er_error_code e))
     \<and> len_between 1 64 (er_category e) \<and> len_between 1 512 (er_safe_message e)"

definition valid_envelope :: "envelope \<Rightarrow> bool" where
  "valid_envelope e \<longleftrightarrow>
     len_between 2 128 (en_event_type e)
     \<and> char_in (CHR ''a'') (CHR ''z'') (hd (en_event_type e))
     \<and> list_all (\<lambda>c. char_in (CHR ''a'') (CHR ''z'') c \<or> char_in (CHR ''0'') (CHR ''9'') c
          \<or> c \<in> set ''_.-'') (tl (en_event_type e))
     \<and> len_between 1 128 (en_tenant_id e) \<and> len_between 1 256 (en_subject_ref e)
     \<and> 0 \<le> en_sequence e \<and> len_between 1 256 (en_partition_key e)
     \<and> valid_producer (en_producer e) \<and> valid_delivery (en_delivery e)
     \<and> (case en_resource e of None \<Rightarrow> True | Some r \<Rightarrow> valid_resource r)
     \<and> len_between 16 64 (en_trace_id e) \<and> list_all is_any_hex (en_trace_id e)
     \<and> (case en_span_id e of None \<Rightarrow> True | Some s \<Rightarrow> len_between 8 32 s \<and> list_all is_any_hex s)
     \<and> (case en_error e of None \<Rightarrow> True | Some r \<Rightarrow> valid_error_receipt r)
     \<and> (en_message_kind e = MK_ERROR \<longleftrightarrow> en_error e \<noteq> None)
     \<and> en_created_at e \<le> dm_available_at (en_delivery e)"

subsection \<open>The document and the delivery digest\<close>

definition producer_doc :: "producer_metadata \<Rightarrow> doc" where
  "producer_doc p = DObj
     [(''agent'', opt_doc (DStr \<circ> source_agent_value) (pm_agent p)),
      (''service'', DStr (pm_service p)), (''instance_id'', DStr (pm_instance_id p)),
      (''build_version'', DStr (pm_build_version p))]"

definition delivery_doc :: "delivery_metadata \<Rightarrow> doc" where
  "delivery_doc d = DObj
     [(''mode'', DStr ''AT_LEAST_ONCE''), (''idempotency_key'', DStr (dm_idempotency_key d)),
      (''attempt'', DInt (dm_attempt d)), (''max_attempts'', DInt (dm_max_attempts d)),
      (''priority'', DStr (message_priority_value (dm_priority d))),
      (''available_at'', DTime (dm_available_at d)), (''expires_at'', opt_doc DTime (dm_expires_at d))]"

definition resource_doc :: "resource_metadata \<Rightarrow> doc" where
  "resource_doc r = DObj
     [(''resource_type'', DStr (resource_type_value (rm_resource_type r))),
      (''blueprint_id'', DStr (rm_blueprint_id r)),
      (''blueprint_version'', DStr (rm_blueprint_version r)),
      (''candidate_id'', opt_doc DStr (rm_candidate_id r)),
      (''candidate_version'', opt_doc DInt (rm_candidate_version r)),
      (''block_id'', opt_doc DStr (rm_block_id r))]"

definition receipt_doc :: "error_receipt \<Rightarrow> doc" where
  "receipt_doc e = DObj
     [(''schema_version'', DStr ''topic3.error-receipt.v1''), (''error_code'', DStr (er_error_code e)),
      (''category'', DStr (er_category e)), (''severity'', DStr (error_severity_value (er_severity e))),
      (''retriable'', DBool (er_retriable e)), (''safe_message'', DStr (er_safe_message e)),
      (''details_ref'', opt_doc id (er_details_ref e)), (''occurred_at'', DTime (er_occurred_at e))]"

definition envelope_doc :: "envelope \<Rightarrow> doc" where
  "envelope_doc e = DObj
     [(''schema_version'', DStr ''topic3.envelope.v1''), (''envelope_id'', DStr (en_envelope_id e)),
      (''event_type'', DStr (en_event_type e)),
      (''message_kind'', DStr (message_kind_value (en_message_kind e))),
      (''tenant_id'', DStr (en_tenant_id e)), (''session_id'', DStr (en_session_id e)),
      (''subject_ref'', DStr (en_subject_ref e)), (''correlation_id'', DStr (en_correlation_id e)),
      (''causation_id'', opt_doc DStr (en_causation_id e)), (''sequence'', DInt (en_sequence e)),
      (''partition_key'', DStr (en_partition_key e)), (''producer'', producer_doc (en_producer e)),
      (''delivery'', delivery_doc (en_delivery e)),
      (''resource'', opt_doc resource_doc (en_resource e)), (''trace_id'', DStr (en_trace_id e)),
      (''span_id'', opt_doc DStr (en_span_id e)), (''created_at'', DTime (en_created_at e)),
      (''error'', opt_doc receipt_doc (en_error e)), (''payload'', en_payload e)]"

text \<open>
  \<^verbatim>\<open>delivery_digest\<close> overwrites the two delivery fields that a redelivery changes before hashing.
\<close>

definition redelivered :: "int \<Rightarrow> timestamp \<Rightarrow> envelope \<Rightarrow> envelope" where
  "redelivered attempt available_at e =
     e\<lparr>en_delivery := (en_delivery e)\<lparr>dm_attempt := attempt, dm_available_at := available_at\<rparr>\<rparr>"

definition delivery_digest :: "hash_env \<Rightarrow> envelope \<Rightarrow> digest" where
  "delivery_digest h e = c_sha h (envelope_doc (redelivered 1 (en_created_at e) e))"

lemma redelivered_fields [simp]:
  "en_sequence (redelivered a t e) = en_sequence e"
  "en_tenant_id (redelivered a t e) = en_tenant_id e"
  "en_partition_key (redelivered a t e) = en_partition_key e"
  "en_created_at (redelivered a t e) = en_created_at e"
  "en_event_type (redelivered a t e) = en_event_type e"
  "dm_idempotency_key (en_delivery (redelivered a t e)) = dm_idempotency_key (en_delivery e)"
  "dm_expires_at (en_delivery (redelivered a t e)) = dm_expires_at (en_delivery e)"
  by (simp_all add: redelivered_def)

lemma redelivered_twice [simp]: "redelivered a t (redelivered a' t' e) = redelivered a t e"
  by (simp add: redelivered_def)

lemma delivery_digest_redelivered [simp]: "delivery_digest h (redelivered a t e) = delivery_digest h e"
  by (simp add: delivery_digest_def)

subsection \<open>Tenant context\<close>

text \<open>\<^verbatim>\<open>core/tenant.py\<close>: the current tenant is a context variable, \<open>None\<close> when unset.\<close>

definition current_tenant :: "tenant option \<Rightarrow> app_error + tenant" where
  "current_tenant ctx =
     (case ctx of None \<Rightarrow> Inl (liyan ''LIYAN-TENANT-CONTEXT-MISSING'' EC_TENANT False 403)
      | Some t \<Rightarrow> Inr t)"

definition assert_tenant :: "tenant option \<Rightarrow> tenant \<Rightarrow> app_error + tenant" where
  "assert_tenant ctx t =
     rbind (current_tenant ctx) (\<lambda>c.
       if c \<noteq> t then Inl (liyan ''LIYAN-TENANT-MISMATCH'' EC_TENANT False 403) else Inr c)"

end
