(* ===== verification/Idempotency.thy ===== *)
theory Idempotency
  imports Envelope
begin

text \<open>
  The idempotency stores of \<^verbatim>\<open>backend/src/liyans/infrastructure/messaging\<close>: the protocol
  \<^verbatim>\<open>IdempotencyStore\<close> as a record of operations, the in-memory store of \<^verbatim>\<open>idempotency.py\<close>, the
  PostgreSQL store of \<^verbatim>\<open>postgres_idempotency.py\<close> over its table, and the locale of laws that a
  client of either store relies on.  An operation returns its result or error and the new store; an
  operation that raises inside a database transaction leaves the table as it was.
\<close>

subsection \<open>States and decisions\<close>

datatype idempotency_state = IS_BUFFERED | IS_PROCESSING | IS_COMPLETED

datatype reservation_decision =
  RESERVED | DUPLICATE_BUFFERED | DUPLICATE_PROCESSING | DUPLICATE_COMPLETED

text \<open>\<^verbatim>\<open>ReservationDecision(f"DUPLICATE_{existing.state.value}")\<close>\<close>

fun duplicate_of :: "idempotency_state \<Rightarrow> reservation_decision" where
  "duplicate_of IS_BUFFERED = DUPLICATE_BUFFERED"
| "duplicate_of IS_PROCESSING = DUPLICATE_PROCESSING"
| "duplicate_of IS_COMPLETED = DUPLICATE_COMPLETED"

lemma duplicate_of_simps [simp]:
  "duplicate_of s \<noteq> RESERVED" "RESERVED \<noteq> duplicate_of s" "duplicate_of s = DUPLICATE_COMPLETED \<longleftrightarrow> s = IS_COMPLETED"
  by (cases s; simp)+

record 's idempotency =
  io_reserve :: "string \<Rightarrow> digest \<Rightarrow> 's \<Rightarrow> (app_error + reservation_decision) \<times> 's"
  io_mark_processing :: "string \<Rightarrow> digest \<Rightarrow> 's \<Rightarrow> (app_error + unit) \<times> 's"
  io_complete :: "string \<Rightarrow> digest \<Rightarrow> 's \<Rightarrow> (app_error + unit) \<times> 's"
  io_abort :: "string \<Rightarrow> digest \<Rightarrow> 's \<Rightarrow> (app_error + unit) \<times> 's"

text \<open>
  The contract, stated on a view of the store: a partial map from keys to the digest and state
  of their reservation.  It is promised while the store is \<open>live\<close>.
\<close>

locale idempotency_store =
  fixes ops :: "'s idempotency"
    and view :: "'s \<Rightarrow> string \<rightharpoonup> digest \<times> idempotency_state"
    and live :: "'s \<Rightarrow> bool"
  assumes reserve_new: "live s \<Longrightarrow> view s k = None \<Longrightarrow>
      \<exists>s'. io_reserve ops k d s = (Inr RESERVED, s') \<and> live s' \<and> view s' = (view s)(k \<mapsto> (d, IS_BUFFERED))"
    and reserve_old: "live s \<Longrightarrow> view s k = Some (d', st) \<Longrightarrow>
      io_reserve ops k d s = (if d' = d then Inr (duplicate_of st) else Inl message_conflict_error, s)"
    and mark_law: "live s \<Longrightarrow> view s k = Some (d, st) \<Longrightarrow> st \<noteq> IS_COMPLETED \<Longrightarrow>
      \<exists>s'. io_mark_processing ops k d s = (Inr (), s') \<and> live s'
         \<and> view s' = (view s)(k \<mapsto> (d, IS_PROCESSING))"
    and complete_law: "live s \<Longrightarrow> view s k = Some (d, IS_PROCESSING) \<Longrightarrow>
      \<exists>s'. io_complete ops k d s = (Inr (), s') \<and> live s' \<and> view s' = (view s)(k \<mapsto> (d, IS_COMPLETED))"
    and abort_law: "live s \<Longrightarrow> view s k = Some (d, st) \<Longrightarrow> st \<noteq> IS_COMPLETED \<Longrightarrow>
      \<exists>s'. io_abort ops k d s = (Inr (), s') \<and> live s' \<and> view s' = (view s)(k := None)"
begin

text \<open>A second reservation of a key never succeeds, whatever it carries.\<close>

lemma reserve_once:
  assumes "live s" "io_reserve ops k d s = (Inr RESERVED, s')"
  shows "view s k = None \<and> live s' \<and> view s' = (view s)(k \<mapsto> (d, IS_BUFFERED))"
  using assms reserve_new [of s k d] reserve_old [of s k _ _ d]
  by (cases "view s k") (auto split: if_splits)

lemma reserve_refused:
  assumes "live s" "io_reserve ops k d s = (r, s')" "r \<noteq> Inr RESERVED"
  shows "\<exists>d' st. view s k = Some (d', st) \<and> s' = s
     \<and> r = (if d' = d then Inr (duplicate_of st) else Inl message_conflict_error)"
  using assms reserve_new [of s k d] reserve_old [of s k _ _ d] by (cases "view s k") auto

end

subsection \<open>The in-memory store\<close>

record idempotency_record =
  ir_key :: string
  ir_digest :: digest
  ir_state :: idempotency_state

type_synonym memory_store = "string \<rightharpoonup> idempotency_record"

definition mem_reserve :: "string \<Rightarrow> digest \<Rightarrow> memory_store \<Rightarrow> (app_error + reservation_decision) \<times> memory_store"
where
  "mem_reserve key d s =
     (case s key of
        None \<Rightarrow> (Inr RESERVED, s(key \<mapsto> \<lparr>ir_key = key, ir_digest = d, ir_state = IS_BUFFERED\<rparr>))
      | Some existing \<Rightarrow>
          if ir_digest existing \<noteq> d then (Inl message_conflict_error, s)
          else (Inr (duplicate_of (ir_state existing)), s))"

definition mem_transition ::
  "idempotency_state \<Rightarrow> string \<Rightarrow> digest \<Rightarrow> memory_store \<Rightarrow> (app_error + unit) \<times> memory_store" where
  "mem_transition st key d s =
     (case s key of
        None \<Rightarrow> (Inl (Foreign_error ''idempotency reservation is missing''), s)
      | Some existing \<Rightarrow>
          if ir_digest existing \<noteq> d then (Inl message_conflict_error, s)
          else (Inr (), s(key \<mapsto> \<lparr>ir_key = key, ir_digest = d, ir_state = st\<rparr>)))"

definition mem_abort :: "string \<Rightarrow> digest \<Rightarrow> memory_store \<Rightarrow> (app_error + unit) \<times> memory_store" where
  "mem_abort key d s =
     (case s key of
        None \<Rightarrow> (Inr (), s)
      | Some existing \<Rightarrow>
          if ir_digest existing \<noteq> d then (Inl message_conflict_error, s)
          else if ir_state existing \<noteq> IS_COMPLETED then (Inr (), s(key := None))
          else (Inr (), s))"

definition mem_ops :: "memory_store idempotency" where
  "mem_ops = \<lparr>io_reserve = mem_reserve, io_mark_processing = mem_transition IS_PROCESSING,
              io_complete = mem_transition IS_COMPLETED, io_abort = mem_abort\<rparr>"

definition mem_view :: "memory_store \<Rightarrow> string \<rightharpoonup> digest \<times> idempotency_state" where
  "mem_view s k = map_option (\<lambda>r. (ir_digest r, ir_state r)) (s k)"

lemma mem_view_upd [simp]:
  "mem_view (s(k \<mapsto> r)) = (mem_view s)(k \<mapsto> (ir_digest r, ir_state r))"
  "mem_view (s(k := None)) = (mem_view s)(k := None)"
  by (auto simp: mem_view_def fun_eq_iff)

lemma mem_view_iff:
  "mem_view s k = None \<longleftrightarrow> s k = None"
  "mem_view s k = Some (d, st) \<longleftrightarrow> (\<exists>r. s k = Some r \<and> ir_digest r = d \<and> ir_state r = st)"
  by (auto simp: mem_view_def)

interpretation mem: idempotency_store mem_ops mem_view "\<lambda>_. True"
  by unfold_locales
    (auto simp: mem_ops_def mem_view_iff mem_reserve_def mem_transition_def mem_abort_def)

subsection \<open>The PostgreSQL store\<close>

record idempotency_row =
  iw_operation :: string
  iw_request_digest :: digest
  iw_state :: idempotency_state
  iw_lease_owner :: "string option"
  iw_lease_expires_at :: "timestamp option"
  iw_response_status_code :: "int option"
  iw_result_payload :: "doc option"
  iw_expires_at :: timestamp
  iw_created_at :: timestamp
  iw_updated_at :: timestamp

text \<open>The primary key is the tenant with the idempotency key.\<close>

type_synonym idempotency_table = "tenant \<times> string \<rightharpoonup> idempotency_row"

record pg_store =
  pg_instance_id :: string
  pg_retention :: int
  pg_processing_lease :: int

definition valid_pg_store :: "pg_store \<Rightarrow> bool" where
  "valid_pg_store c \<longleftrightarrow> len_between 1 128 (pg_instance_id c) \<and> 0 < pg_retention c
     \<and> 0 < pg_processing_lease c"

text \<open>\<^verbatim>\<open>_locked_record\<close> and \<^verbatim>\<open>_assert_digest\<close>\<close>

definition locked_record :: "tenant \<Rightarrow> string \<Rightarrow> idempotency_table \<Rightarrow> app_error + idempotency_row" where
  "locked_record tenant_id key tbl =
     (case tbl (tenant_id, key) of None \<Rightarrow> Inl (liyan ''LIYAN-INTERNAL'' EC_MESSAGING False 500)
      | Some r \<Rightarrow> Inr r)"

definition assert_digest :: "idempotency_row \<Rightarrow> digest \<Rightarrow> app_error + unit" where
  "assert_digest r d = guard (iw_request_digest r = d) message_conflict_error"

definition lease_conflict :: "bool \<Rightarrow> app_error" where
  "lease_conflict retriable = liyan ''LIYAN-MESSAGE-DUPLICATE-CONFLICT'' EC_MESSAGING retriable 409"

text \<open>A transaction that raises is rolled back.\<close>

definition transaction :: "'t \<Rightarrow> app_error + ('a \<times> 't) \<Rightarrow> (app_error + 'a) \<times> 't" where
  "transaction tbl r = (case r of Inl e \<Rightarrow> (Inl e, tbl) | Inr (x, tbl') \<Rightarrow> (Inr x, tbl'))"

lemma transaction_simps [simp]:
  "transaction tbl (Inl e) = (Inl e, tbl)" "transaction tbl (Inr (x, tbl')) = (Inr x, tbl')"
  by (simp_all add: transaction_def)

definition pg_reserve ::
  "pg_store \<Rightarrow> tenant option \<Rightarrow> timestamp \<Rightarrow> string \<Rightarrow> digest \<Rightarrow> idempotency_table
     \<Rightarrow> (app_error + reservation_decision) \<times> idempotency_table" where
  "pg_reserve c ctx now key d tbl = transaction tbl
     (rbind (current_tenant ctx) (\<lambda>tenant_id.
        case tbl (tenant_id, key) of
          None \<Rightarrow> Inr (RESERVED, tbl((tenant_id, key) \<mapsto>
            \<lparr>iw_operation = ''topic3.message'', iw_request_digest = d, iw_state = IS_BUFFERED,
             iw_lease_owner = Some (pg_instance_id c),
             iw_lease_expires_at = Some (now + pg_processing_lease c),
             iw_response_status_code = None, iw_result_payload = None,
             iw_expires_at = now + pg_retention c, iw_created_at = now, iw_updated_at = now\<rparr>))
        | Some r \<Rightarrow>
            if iw_expires_at r \<le> now
            then Inr (RESERVED, tbl((tenant_id, key) \<mapsto>
              r\<lparr>iw_operation := ''topic3.message'', iw_request_digest := d, iw_state := IS_BUFFERED,
                iw_lease_owner := Some (pg_instance_id c),
                iw_lease_expires_at := Some (now + pg_processing_lease c),
                iw_response_status_code := None, iw_result_payload := None,
                iw_expires_at := now + pg_retention c, iw_created_at := now, iw_updated_at := now\<rparr>))
            else rbind (assert_digest r d) (\<lambda>_.
              if iw_state r \<in> {IS_BUFFERED, IS_PROCESSING}
                 \<and> (case iw_lease_expires_at r of None \<Rightarrow> False | Some l \<Rightarrow> l \<le> now)
              then Inr (RESERVED, tbl((tenant_id, key) \<mapsto>
                r\<lparr>iw_state := IS_BUFFERED, iw_lease_owner := Some (pg_instance_id c),
                  iw_lease_expires_at := Some (now + pg_processing_lease c), iw_updated_at := now\<rparr>))
              else Inr (duplicate_of (iw_state r), tbl))))"

definition pg_mark_processing ::
  "pg_store \<Rightarrow> tenant option \<Rightarrow> timestamp \<Rightarrow> string \<Rightarrow> digest \<Rightarrow> idempotency_table
     \<Rightarrow> (app_error + unit) \<times> idempotency_table" where
  "pg_mark_processing c ctx now key d tbl = transaction tbl
     (rbind (current_tenant ctx) (\<lambda>tenant_id. rbind (locked_record tenant_id key tbl) (\<lambda>r.
        rbind (assert_digest r d) (\<lambda>_.
          if iw_state r = IS_COMPLETED then Inl (lease_conflict False)
          else if iw_lease_owner r \<noteq> Some (pg_instance_id c)
                  \<and> (case iw_lease_expires_at r of None \<Rightarrow> False | Some l \<Rightarrow> now < l)
          then Inl (lease_conflict True)
          else Inr ((), tbl((tenant_id, key) \<mapsto>
            r\<lparr>iw_state := IS_PROCESSING, iw_lease_owner := Some (pg_instance_id c),
              iw_lease_expires_at := Some (now + pg_processing_lease c), iw_updated_at := now\<rparr>))))))"

definition pg_complete ::
  "pg_store \<Rightarrow> tenant option \<Rightarrow> timestamp \<Rightarrow> string \<Rightarrow> digest \<Rightarrow> idempotency_table
     \<Rightarrow> (app_error + unit) \<times> idempotency_table" where
  "pg_complete c ctx now key d tbl = transaction tbl
     (rbind (current_tenant ctx) (\<lambda>tenant_id. rbind (locked_record tenant_id key tbl) (\<lambda>r.
        rbind (assert_digest r d) (\<lambda>_.
          if iw_state r = IS_COMPLETED then Inr ((), tbl)
          else if iw_state r \<noteq> IS_PROCESSING \<or> iw_lease_owner r \<noteq> Some (pg_instance_id c)
          then Inl (lease_conflict True)
          else Inr ((), tbl((tenant_id, key) \<mapsto>
            r\<lparr>iw_state := IS_COMPLETED, iw_lease_owner := None, iw_lease_expires_at := None,
              iw_updated_at := now\<rparr>))))))"

definition pg_abort ::
  "pg_store \<Rightarrow> tenant option \<Rightarrow> string \<Rightarrow> digest \<Rightarrow> idempotency_table
     \<Rightarrow> (app_error + unit) \<times> idempotency_table" where
  "pg_abort c ctx key d tbl = transaction tbl
     (rbind (current_tenant ctx) (\<lambda>tenant_id.
        case tbl (tenant_id, key) of
          None \<Rightarrow> Inr ((), tbl)
        | Some r \<Rightarrow> rbind (assert_digest r d) (\<lambda>_.
            if iw_state r = IS_PROCESSING \<and> iw_lease_owner r \<noteq> Some (pg_instance_id c)
            then Inl (lease_conflict True)
            else if iw_state r \<noteq> IS_COMPLETED then Inr ((), tbl((tenant_id, key) := None))
            else Inr ((), tbl))))"

definition pg_get :: "tenant option \<Rightarrow> string \<Rightarrow> idempotency_table \<Rightarrow> app_error + idempotency_record option" where
  "pg_get ctx key tbl =
     rbind (current_tenant ctx) (\<lambda>tenant_id.
       Inr (map_option (\<lambda>r. \<lparr>ir_key = key, ir_digest = iw_request_digest r, ir_state = iw_state r\<rparr>)
         (tbl (tenant_id, key))))"

text \<open>One store instance in the context of one tenant, at one reading of the clock.\<close>

definition pg_ops :: "pg_store \<Rightarrow> tenant option \<Rightarrow> timestamp \<Rightarrow> idempotency_table idempotency" where
  "pg_ops c ctx now =
     \<lparr>io_reserve = pg_reserve c ctx now, io_mark_processing = pg_mark_processing c ctx now,
      io_complete = pg_complete c ctx now, io_abort = pg_abort c ctx\<rparr>"

definition pg_view :: "tenant \<Rightarrow> idempotency_table \<Rightarrow> string \<rightharpoonup> digest \<times> idempotency_state" where
  "pg_view tenant_id tbl k = map_option (\<lambda>r. (iw_request_digest r, iw_state r)) (tbl (tenant_id, k))"

text \<open>
  The laws hold while every open reservation of the tenant is leased to this instance and no
  lease or retention period has run out.
\<close>

definition live_row :: "pg_store \<Rightarrow> timestamp \<Rightarrow> idempotency_row \<Rightarrow> bool" where
  "live_row c now r \<longleftrightarrow> now < iw_expires_at r
     \<and> (iw_state r \<noteq> IS_COMPLETED \<longrightarrow> iw_lease_owner r = Some (pg_instance_id c)
          \<and> (\<exists>l. iw_lease_expires_at r = Some l \<and> now < l))"

definition pg_live :: "pg_store \<Rightarrow> tenant \<Rightarrow> timestamp \<Rightarrow> idempotency_table \<Rightarrow> bool" where
  "pg_live c tenant_id now tbl \<longleftrightarrow> valid_pg_store c
     \<and> (\<forall>k r. tbl (tenant_id, k) = Some r \<longrightarrow> live_row c now r)"

lemma pg_liveD: "pg_live c t now tbl \<Longrightarrow> tbl (t, k) = Some r \<Longrightarrow> live_row c now r"
  by (simp add: pg_live_def)

lemma pg_live_upd: "pg_live c t now tbl \<Longrightarrow> live_row c now r \<Longrightarrow> pg_live c t now (tbl((t, k) \<mapsto> r))"
  by (simp add: pg_live_def)

lemma pg_live_del: "pg_live c t now tbl \<Longrightarrow> pg_live c t now (tbl((t, k) := None))"
  by (simp add: pg_live_def)

lemma pg_view_upd:
  "pg_view t (tbl((t, k) \<mapsto> r)) = (pg_view t tbl)(k \<mapsto> (iw_request_digest r, iw_state r))"
  "pg_view t (tbl((t, k) := None)) = (pg_view t tbl)(k := None)"
  by (auto simp: pg_view_def fun_eq_iff)

lemma pg_view_Some:
  "pg_view t tbl k = Some (d, st) \<longleftrightarrow>
     (\<exists>r. tbl (t, k) = Some r \<and> iw_request_digest r = d \<and> iw_state r = st)"
  by (auto simp: pg_view_def)

lemma pg_view_None: "pg_view t tbl k = None \<longleftrightarrow> tbl (t, k) = None"
  by (simp add: pg_view_def)

lemmas pg_ops_defs = pg_ops_def pg_reserve_def pg_mark_processing_def pg_complete_def pg_abort_def
  current_tenant_def locked_record_def assert_digest_def

lemma current_tenant_Some [simp]: "current_tenant (Some t) = Inr t"
  by (simp add: current_tenant_def)

interpretation pg: idempotency_store "pg_ops c (Some t) now" "pg_view t" "pg_live c t now" for c t now
proof
  fix s :: idempotency_table and k d
  assume live: "pg_live c t now s" and "pg_view t s k = None"
  then have "s (t, k) = None" by (simp add: pg_view_None)
  moreover have "0 < pg_processing_lease c" "0 < pg_retention c"
    using live by (simp_all add: pg_live_def valid_pg_store_def)
  ultimately show "\<exists>s'. io_reserve (pg_ops c (Some t) now) k d s = (Inr RESERVED, s')
      \<and> pg_live c t now s' \<and> pg_view t s' = (pg_view t s)(k \<mapsto> (d, IS_BUFFERED))"
    using live by (simp add: pg_ops_defs pg_view_upd pg_live_upd live_row_def)
next
  fix s :: idempotency_table and k d d' st
  assume live: "pg_live c t now s" and "pg_view t s k = Some (d', st)"
  then obtain r where r: "s (t, k) = Some r" "iw_request_digest r = d'" "iw_state r = st"
    by (auto simp: pg_view_Some)
  show "io_reserve (pg_ops c (Some t) now) k d s
      = (if d' = d then Inr (duplicate_of st) else Inl message_conflict_error, s)"
    using pg_liveD [OF live r(1)] r by (cases st) (auto simp: pg_ops_defs live_row_def guard_def)
next
  fix s :: idempotency_table and k d st
  assume live: "pg_live c t now s" and "pg_view t s k = Some (d, st)" and st: "st \<noteq> IS_COMPLETED"
  then obtain r where r: "s (t, k) = Some r" "iw_request_digest r = d" "iw_state r = st"
    by (auto simp: pg_view_Some)
  have lease: "0 < pg_processing_lease c" using live by (simp add: pg_live_def valid_pg_store_def)
  show "\<exists>s'. io_mark_processing (pg_ops c (Some t) now) k d s = (Inr (), s') \<and> pg_live c t now s'
      \<and> pg_view t s' = (pg_view t s)(k \<mapsto> (d, IS_PROCESSING))"
    using pg_liveD [OF live r(1)] r st live lease
    by (auto simp: pg_ops_defs live_row_def pg_view_upd intro!: pg_live_upd)
  show "\<exists>s'. io_abort (pg_ops c (Some t) now) k d s = (Inr (), s') \<and> pg_live c t now s'
      \<and> pg_view t s' = (pg_view t s)(k := None)"
    using pg_liveD [OF live r(1)] r st live
    by (auto simp: pg_ops_defs live_row_def pg_view_upd intro!: pg_live_del)
next
  fix s :: idempotency_table and k d
  assume live: "pg_live c t now s" and "pg_view t s k = Some (d, IS_PROCESSING)"
  then obtain r where r: "s (t, k) = Some r" "iw_request_digest r = d" "iw_state r = IS_PROCESSING"
    by (auto simp: pg_view_Some)
  show "\<exists>s'. io_complete (pg_ops c (Some t) now) k d s = (Inr (), s') \<and> pg_live c t now s'
      \<and> pg_view t s' = (pg_view t s)(k \<mapsto> (d, IS_COMPLETED))"
    using pg_liveD [OF live r(1)] r live
    by (auto simp: pg_ops_defs live_row_def pg_view_upd intro!: pg_live_upd)
qed

subsection \<open>Several instances on one table\<close>

text \<open>
  Calls of any instances, tenants and keys in the order in which their transactions commit.  A
  call is granted when it reserves, or when it returns without an error.
\<close>

datatype store_call = Reserve_call | Mark_call | Complete_call | Abort_call

record pg_call =
  pc_store :: pg_store
  pc_tenant :: "tenant option"
  pc_now :: timestamp
  pc_key :: string
  pc_call :: store_call
  pc_digest :: digest

definition pg_step :: "pg_call \<Rightarrow> idempotency_table \<Rightarrow> bool \<times> idempotency_table" where
  "pg_step c tbl =
     (case pc_call c of
        Reserve_call \<Rightarrow> (case pg_reserve (pc_store c) (pc_tenant c) (pc_now c) (pc_key c) (pc_digest c) tbl of
            (r, tbl') \<Rightarrow> (r = Inr RESERVED, tbl'))
      | Mark_call \<Rightarrow> (case pg_mark_processing (pc_store c) (pc_tenant c) (pc_now c) (pc_key c) (pc_digest c) tbl of
            (r, tbl') \<Rightarrow> (r = Inr (), tbl'))
      | Complete_call \<Rightarrow> (case pg_complete (pc_store c) (pc_tenant c) (pc_now c) (pc_key c) (pc_digest c) tbl of
            (r, tbl') \<Rightarrow> (r = Inr (), tbl'))
      | Abort_call \<Rightarrow> (case pg_abort (pc_store c) (pc_tenant c) (pc_key c) (pc_digest c) tbl of
            (r, tbl') \<Rightarrow> (r = Inr (), tbl')))"

fun pg_trace :: "pg_call list \<Rightarrow> idempotency_table \<Rightarrow> (pg_call \<times> bool) list \<times> idempotency_table" where
  "pg_trace [] tbl = ([], tbl)"
| "pg_trace (c # cs) tbl =
     (case pg_step c tbl of (granted, tbl1) \<Rightarrow>
        (case pg_trace cs tbl1 of (rest, tbl2) \<Rightarrow> ((c, granted) # rest, tbl2)))"

definition addresses :: "tenant \<Rightarrow> string \<Rightarrow> pg_call \<Rightarrow> bool" where
  "addresses t k c \<longleftrightarrow> pc_tenant c = Some t \<and> pc_key c = k"

lemma pg_step_frame:
  assumes "\<not> addresses t k c" "pg_step c tbl = (granted, tbl')"
  shows "tbl' (t, k) = tbl (t, k)"
  using assms
  by (auto simp: addresses_def pg_step_def pg_ops_defs rbind_def guard_def transaction_def
      split: store_call.splits option.splits if_splits sum.splits prod.splits)

text \<open>A row that no addressed call can change is found unchanged after any number of calls.\<close>

lemma pg_trace_stable:
  assumes step: "\<And>c tbl granted tbl'. c \<in> set cs \<Longrightarrow> addresses t k c \<Longrightarrow> tbl (t, k) = Some r \<Longrightarrow>
      pg_step c tbl = (granted, tbl') \<Longrightarrow> tbl' (t, k) = Some r \<and> P c granted"
    and "tbl (t, k) = Some r" "pg_trace cs tbl = (tr, tbl')"
  shows "tbl' (t, k) = Some r \<and> (\<forall>(c, granted)\<in>set tr. addresses t k c \<longrightarrow> P c granted)"
  using assms
proof (induction cs arbitrary: tbl tr)
  case Nil
  then show ?case by simp
next
  case (Cons c cs)
  obtain granted tbl1 where st: "pg_step c tbl = (granted, tbl1)" by fastforce
  obtain rest tbl2 where rec: "pg_trace cs tbl1 = (rest, tbl2)" by fastforce
  from Cons.prems(3) have tr: "tr = (c, granted) # rest" "tbl' = tbl2" by (auto simp: st rec)
  have here: "tbl1 (t, k) = Some r \<and> (addresses t k c \<longrightarrow> P c granted)"
    using Cons.prems(1) [OF _ _ Cons.prems(2) st] pg_step_frame [OF _ st] Cons.prems(2) by force
  have "tbl' (t, k) = Some r \<and> (\<forall>(c, granted)\<in>set rest. addresses t k c \<longrightarrow> P c granted)"
  proof (rule Cons.IH)
    show "tbl1 (t, k) = Some r" using here by blast
    show "pg_trace cs tbl1 = (rest, tbl')" using rec tr by simp
  qed (use Cons.prems(1) tr in auto)
  with here show ?case by (simp add: tr)
qed

lemma pg_step_fenced:
  assumes "addresses t k c" "tbl (t, k) = Some r" "pg_step c tbl = (granted, tbl')"
    and "iw_state r = IS_PROCESSING" "iw_lease_owner r = Some b" "iw_lease_expires_at r = Some l"
    and "pg_instance_id (pc_store c) \<noteq> b" "pc_now c < l" "pc_now c < iw_expires_at r"
  shows "tbl' (t, k) = Some r \<and> \<not> granted"
  using assms
  by (auto simp: addresses_def pg_step_def pg_ops_defs rbind_def guard_def transaction_def
      split: store_call.splits if_splits)

lemma pg_step_completed:
  assumes "addresses t k c" "tbl (t, k) = Some r" "pg_step c tbl = (granted, tbl')"
    and "iw_state r = IS_COMPLETED" "pc_now c < iw_expires_at r"
  shows "tbl' (t, k) = Some r \<and> (granted \<longrightarrow> pc_call c = Complete_call \<or> pc_call c = Abort_call)"
  using assms
  by (auto simp: addresses_def pg_step_def pg_ops_defs rbind_def guard_def transaction_def
      split: store_call.splits if_splits)

text \<open>
  C22.  A processing lease fences the other instances.  While one instance holds an unexpired
  lease on a message it is processing (and the retention period lasts), no sequence of calls of other
  instances reserves, marks, completes or aborts that message or changes its row.
\<close>

theorem lease_fences:
  assumes "tbl (t, k) = Some r" "iw_state r = IS_PROCESSING" "iw_lease_owner r = Some b"
    and "iw_lease_expires_at r = Some l"
    and "\<forall>c\<in>set cs. addresses t k c \<longrightarrow>
       pg_instance_id (pc_store c) \<noteq> b \<and> pc_now c < l \<and> pc_now c < iw_expires_at r"
    and "pg_trace cs tbl = (tr, tbl')"
  shows "tbl' (t, k) = Some r \<and> (\<forall>(c, granted)\<in>set tr. addresses t k c \<longrightarrow> \<not> granted)"
proof (rule pg_trace_stable [where P = "\<lambda>_ granted. \<not> granted", OF _ assms(1, 6)])
  fix c tbl1 granted tbl2
  assume c: "c \<in> set cs" "addresses t k c" and st: "tbl1 (t, k) = Some r" "pg_step c tbl1 = (granted, tbl2)"
  from assms(5) c have "pg_instance_id (pc_store c) \<noteq> b" "pc_now c < l" "pc_now c < iw_expires_at r"
    by simp_all
  from pg_step_fenced [OF c(2) st assms(2-4) this]
  show "tbl2 (t, k) = Some r \<and> \<not> granted" .
qed

text \<open>
  Completion is final.  A completed message is not reserved or processed again by any
  instance before its retention period ends, and its row does not change.
\<close>

theorem completion_final:
  assumes "tbl (t, k) = Some r" "iw_state r = IS_COMPLETED"
    and "\<forall>c\<in>set cs. addresses t k c \<longrightarrow> pc_now c < iw_expires_at r"
    and "pg_trace cs tbl = (tr, tbl')"
  shows "tbl' (t, k) = Some r
     \<and> (\<forall>(c, granted)\<in>set tr. addresses t k c \<longrightarrow> granted \<longrightarrow>
          pc_call c = Complete_call \<or> pc_call c = Abort_call)"
proof (rule pg_trace_stable [where P = "\<lambda>c granted. granted \<longrightarrow>
      pc_call c = Complete_call \<or> pc_call c = Abort_call", OF _ assms(1, 4)])
  fix c tbl1 granted tbl2
  assume c: "c \<in> set cs" "addresses t k c" and st: "tbl1 (t, k) = Some r" "pg_step c tbl1 = (granted, tbl2)"
  from assms(3) c have "pc_now c < iw_expires_at r" by simp
  from pg_step_completed [OF c(2) st assms(2) this]
  show "tbl2 (t, k) = Some r \<and> (granted \<longrightarrow> pc_call c = Complete_call \<or> pc_call c = Abort_call)" .
qed

text \<open>
  A stale owner can destroy a successor's reservation.  Instance \<open>b\<close> takes over a message
  whose lease has run out; the abort of the former owner \<open>a\<close>, which checks the owner of processing rows
  only, deletes the row that \<open>b\<close> just reserved, and \<open>b\<close> fails to start processing.
\<close>

theorem stale_abort_deletes_reservation:
  assumes "tbl (t, k) = Some r" "iw_request_digest r = d" "iw_state r \<noteq> IS_COMPLETED"
    and "iw_lease_expires_at r = Some l" "l \<le> now" "now < iw_expires_at r"
    and "pg_instance_id a \<noteq> pg_instance_id b"
  shows "\<exists>tbl1 tbl2. pg_reserve b (Some t) now k d tbl = (Inr RESERVED, tbl1)
     \<and> pg_view t tbl1 k = Some (d, IS_BUFFERED)
     \<and> pg_abort a (Some t) k d tbl1 = (Inr (), tbl2) \<and> pg_view t tbl2 k = None
     \<and> pg_mark_processing b (Some t) now' k d tbl2
         = (Inl (liyan ''LIYAN-INTERNAL'' EC_MESSAGING False 500), tbl2)"
proof -
  have "iw_state r = IS_BUFFERED \<or> iw_state r = IS_PROCESSING"
    using assms(3) by (cases "iw_state r") auto
  with assms show ?thesis by (auto simp: pg_ops_defs pg_view_def)
qed

subsection \<open>Concrete instances\<close>

definition sample_store :: "string \<Rightarrow> pg_store" where
  "sample_store i = \<lparr>pg_instance_id = i, pg_retention = 86400, pg_processing_lease = 120\<rparr>"

definition sample_row :: "idempotency_state \<Rightarrow> idempotency_row" where
  "sample_row st =
     \<lparr>iw_operation = ''topic3.message'', iw_request_digest = ''d'', iw_state = st,
      iw_lease_owner = Some ''node-a'', iw_lease_expires_at = Some 120,
      iw_response_status_code = None, iw_result_payload = None, iw_expires_at = 86400,
      iw_created_at = 0, iw_updated_at = 0\<rparr>"

definition sample_calls :: "pg_call list" where
  "sample_calls = map (\<lambda>op. \<lparr>pc_store = sample_store ''node-b'', pc_tenant = Some ''tenant-1'',
      pc_now = 60, pc_key = ''key-1'', pc_call = op, pc_digest = ''d''\<rparr>)
     [Reserve_call, Mark_call, Complete_call, Abort_call]"

definition sample_table :: "idempotency_state \<Rightarrow> idempotency_table" where
  "sample_table st = [(''tenant-1'', ''key-1'') \<mapsto> sample_row st]"

lemmas sample_idempotency_defs = sample_store_def sample_row_def sample_calls_def sample_table_def
  addresses_def

theorem lease_fences_witness:
  "snd (pg_trace sample_calls (sample_table IS_PROCESSING)) (''tenant-1'', ''key-1'')
     = Some (sample_row IS_PROCESSING)"
  using lease_fences [of "sample_table IS_PROCESSING" "''tenant-1''" "''key-1''"
      "sample_row IS_PROCESSING" "''node-a''" 120 sample_calls
      "fst (pg_trace sample_calls (sample_table IS_PROCESSING))"
      "snd (pg_trace sample_calls (sample_table IS_PROCESSING))"]
  by (simp add: sample_idempotency_defs)

theorem completion_final_witness:
  "snd (pg_trace sample_calls (sample_table IS_COMPLETED)) (''tenant-1'', ''key-1'')
     = Some (sample_row IS_COMPLETED)"
  using completion_final [of "sample_table IS_COMPLETED" "''tenant-1''" "''key-1''"
      "sample_row IS_COMPLETED" sample_calls
      "fst (pg_trace sample_calls (sample_table IS_COMPLETED))"
      "snd (pg_trace sample_calls (sample_table IS_COMPLETED))"]
  by (simp add: sample_idempotency_defs)

theorem stale_abort_deletes_reservation_witness:
  "\<exists>tbl1 tbl2. pg_reserve (sample_store ''node-b'') (Some ''tenant-1'') 200 ''key-1'' ''d''
        (sample_table IS_PROCESSING) = (Inr RESERVED, tbl1)
     \<and> pg_view ''tenant-1'' tbl1 ''key-1'' = Some (''d'', IS_BUFFERED)
     \<and> pg_abort (sample_store ''node-a'') (Some ''tenant-1'') ''key-1'' ''d'' tbl1 = (Inr (), tbl2)
     \<and> pg_view ''tenant-1'' tbl2 ''key-1'' = None
     \<and> pg_mark_processing (sample_store ''node-b'') (Some ''tenant-1'') 201 ''key-1'' ''d'' tbl2
         = (Inl (liyan ''LIYAN-INTERNAL'' EC_MESSAGING False 500), tbl2)"
  by (rule stale_abort_deletes_reservation [where r = "sample_row IS_PROCESSING" and l = 120])
    (simp_all add: sample_idempotency_defs)

end
