(* ===== verification/MessageBus.thy ===== *)
theory MessageBus
  imports Idempotency ContractsC1
begin

text \<open>
  The message bus of \<^verbatim>\<open>backend/src/liyans/infrastructure/messaging/bus.py\<close> with the middleware
  composition of \<^verbatim>\<open>middleware.py\<close>: deduplication through an idempotency store, ordering of each
  partition with a bounded buffer for messages that arrive early, and draining of the buffer.

  Handlers and middleware act on an abstract world; a handler that is cancelled ends in
  \<open>Cancelled\<close>, which Python's \<^verbatim>\<open>except Exception\<close> does not catch.  A partition's lock makes the
  publishes of one partition run one after another, and the model runs all publishes one after
  another.  The field \<open>bs_executed\<close> is a ghost: the envelopes given to the handlers,
  in order, and whether their processing completed.
\<close>

subsection \<open>State\<close>

datatype dispatch_status = DS_PROCESSED | DS_BUFFERED | DS_DUPLICATE | DS_IN_FLIGHT

record dispatch_result =
  dr_status :: dispatch_status
  dr_partition_key :: string
  dr_sequence :: int
  dr_next_expected_sequence :: int

datatype bus_exit = Raised app_error | Cancelled

type_synonym 'w message_handler = "envelope \<Rightarrow> 'w \<Rightarrow> (bus_exit + unit) \<times> 'w"
type_synonym 'w middleware = "envelope \<Rightarrow> 'w message_handler \<Rightarrow> 'w \<Rightarrow> (bus_exit + unit) \<times> 'w"
type_synonym bus_partition = "tenant \<times> string"

record ('s, 'w) bus =
  bs_store :: 's
  bs_world :: 'w
  bs_middleware :: "'w middleware list"
  bs_max_gap_buffer :: int
  bs_failure_handler :: "(envelope \<Rightarrow> bus_exit \<Rightarrow> 'w \<Rightarrow> 'w) option"
  bs_handlers :: "string \<Rightarrow> (string \<times> 'w message_handler) list"
  bs_expected :: "bus_partition \<Rightarrow> int"
  bs_pending :: "bus_partition \<Rightarrow> (int \<times> envelope \<times> digest) list"
  bs_closed :: bool
  bs_executed :: "(envelope \<times> bool) list"

definition partition_of :: "envelope \<Rightarrow> bus_partition" where
  "partition_of e = (en_tenant_id e, en_partition_key e)"

definition key_of :: "envelope \<Rightarrow> string" where
  "key_of e = dm_idempotency_key (en_delivery e)"

lemma redelivered_keys [simp]:
  "partition_of (redelivered a t e) = partition_of e" "key_of (redelivered a t e) = key_of e"
  by (simp_all add: partition_of_def key_of_def)

definition new_bus ::
  "'s \<Rightarrow> 'w \<Rightarrow> 'w middleware list \<Rightarrow> int \<Rightarrow> (envelope \<Rightarrow> bus_exit \<Rightarrow> 'w \<Rightarrow> 'w) option
     \<Rightarrow> app_error + ('s, 'w) bus" where
  "new_bus store world mws max_gap failure_handler =
     (if max_gap < 1 then Inl (Foreign_error ''max_gap_buffer_per_partition must be positive'')
      else Inr \<lparr>bs_store = store, bs_world = world, bs_middleware = mws, bs_max_gap_buffer = max_gap,
                bs_failure_handler = failure_handler, bs_handlers = (\<lambda>_. []), bs_expected = (\<lambda>_. 0),
                bs_pending = (\<lambda>_. []), bs_closed = False, bs_executed = []\<rparr>)"

text \<open>A handler is known by a name, which stands for the identity of the Python function.\<close>

definition register_handler ::
  "string \<Rightarrow> string \<times> 'w message_handler \<Rightarrow> ('s, 'w) bus \<Rightarrow> app_error + ('s, 'w) bus" where
  "register_handler event_type handler b =
     (if bs_closed b then Inl (Foreign_error ''message bus is closed'')
      else if fst handler \<in> fst ` set (bs_handlers b event_type)
      then Inl (Foreign_error ''handler already registered'')
      else Inr (b\<lparr>bs_handlers := (bs_handlers b)(event_type := bs_handlers b event_type @ [handler])\<rparr>))"

definition restore_partition_cursor ::
  "tenant \<Rightarrow> string \<Rightarrow> int \<Rightarrow> ('s, 'w) bus \<Rightarrow> app_error + ('s, 'w) bus" where
  "restore_partition_cursor tenant_id partition_key next_expected b =
     (if tenant_id = [] \<or> partition_key = []
      then Inl (Foreign_error ''tenant_id and partition_key are required'')
      else if next_expected < 0
      then Inl (Foreign_error ''next_expected_sequence cannot be negative'')
      else if bs_pending b (tenant_id, partition_key) \<noteq> []
      then Inl (Foreign_error ''cannot restore a partition while gap-buffered messages exist'')
      else if next_expected < bs_expected b (tenant_id, partition_key)
      then Inl (Foreign_error ''cannot move a partition cursor backwards'')
      else Inr (b\<lparr>bs_expected := (bs_expected b)((tenant_id, partition_key) := next_expected)\<rparr>))"

definition close_bus :: "('s, 'w) bus \<Rightarrow> ('s, 'w) bus" where
  "close_bus b = b\<lparr>bs_closed := True\<rparr>"

subsection \<open>Handlers\<close>

text \<open>\<^verbatim>\<open>compose_middleware\<close>: the first middleware of the list is the outermost.\<close>

definition compose_middleware :: "'w middleware list \<Rightarrow> 'w message_handler \<Rightarrow> 'w message_handler" where
  "compose_middleware mws terminal = foldr (\<lambda>current next_handler e. current e next_handler) mws terminal"

definition tenant_boundary :: "('w \<Rightarrow> tenant option) \<Rightarrow> 'w middleware" where
  "tenant_boundary context e call_next w =
     (case assert_tenant (context w) (en_tenant_id e) of
        Inl err \<Rightarrow> (Inl (Raised err), w)
      | Inr _ \<Rightarrow> call_next e w)"

fun run_handlers :: "'w message_handler list \<Rightarrow> 'w message_handler" where
  "run_handlers [] e w = (Inr (), w)"
| "run_handlers (handler # rest) e w =
     (case handler e w of (Inl x, w') \<Rightarrow> (Inl x, w') | (Inr _, w') \<Rightarrow> run_handlers rest e w')"

definition dispatch_handlers :: "('s, 'w) bus \<Rightarrow> 'w message_handler" where
  "dispatch_handlers b e w =
     (let handlers = bs_handlers b (en_event_type e)
      in if handlers = [] then (Inl (Raised (liyan ''LIYAN-MESSAGE-HANDLER-MISSING'' EC_MESSAGING False 422)), w)
         else run_handlers (map snd handlers) e w)"

definition execute_reserved ::
  "'s idempotency \<Rightarrow> envelope \<Rightarrow> digest \<Rightarrow> ('s, 'w) bus \<Rightarrow> (bus_exit + unit) \<times> ('s, 'w) bus" where
  "execute_reserved ops e d b =
     (let key = key_of e
      in case io_mark_processing ops key d (bs_store b) of
           (Inl err, s1) \<Rightarrow> (Inl (Raised err), b\<lparr>bs_store := s1\<rparr>)
         | (Inr _, s1) \<Rightarrow>
            (case compose_middleware (bs_middleware b) (dispatch_handlers b) e (bs_world b) of
               (Inl (Raised exc), w) \<Rightarrow>
                 (case io_abort ops key d s1 of
                    (Inl err, s2) \<Rightarrow>
                      (Inl (Raised err), b\<lparr>bs_store := s2, bs_world := w,
                                             bs_executed := bs_executed b @ [(e, False)]\<rparr>)
                  | (Inr _, s2) \<Rightarrow>
                      (Inl (Raised exc), b\<lparr>bs_store := s2,
                         bs_world := (case bs_failure_handler b of None \<Rightarrow> w
                                      | Some f \<Rightarrow> f e (Raised exc) w),
                         bs_executed := bs_executed b @ [(e, False)]\<rparr>))
             | (Inl Cancelled, w) \<Rightarrow>
                 (Inl Cancelled, b\<lparr>bs_store := s1, bs_world := w,
                                   bs_executed := bs_executed b @ [(e, False)]\<rparr>)
             | (Inr _, w) \<Rightarrow>
                 (case io_complete ops key d s1 of
                    (Inl err, s2) \<Rightarrow> (Inl (Raised err), b\<lparr>bs_store := s2, bs_world := w,
                                        bs_executed := bs_executed b @ [(e, False)]\<rparr>)
                  | (Inr _, s2) \<Rightarrow> (Inr (), b\<lparr>bs_store := s2, bs_world := w,
                                        bs_executed := bs_executed b @ [(e, True)]\<rparr>))))"

lemma execute_reserved_frame:
  assumes "execute_reserved ops e d b = (r, b')"
  shows "bs_pending b' = bs_pending b" "bs_expected b' = bs_expected b"
    "bs_max_gap_buffer b' = bs_max_gap_buffer b" "bs_closed b' = bs_closed b"
    "bs_handlers b' = bs_handlers b"
  using assms
  by (auto simp: execute_reserved_def Let_def split: prod.splits sum.splits bus_exit.splits)

subsection \<open>Draining and publishing\<close>

definition take_pending :: "bus_partition \<Rightarrow> int \<Rightarrow> ('s, 'w) bus \<Rightarrow> ('s, 'w) bus" where
  "take_pending p n b =
     b\<lparr>bs_pending := (bs_pending b)(p := filter (\<lambda>x. fst x \<noteq> n) (bs_pending b p))\<rparr>"

definition advance :: "bus_partition \<Rightarrow> ('s, 'w) bus \<Rightarrow> ('s, 'w) bus" where
  "advance p b = b\<lparr>bs_expected := (bs_expected b)(p := bs_expected b p + 1)\<rparr>"

lemma drain_decreases:
  assumes "map_of (bs_pending b p) (bs_expected b p) = Some (e, d)"
    and "execute_reserved ops e d (take_pending p (bs_expected b p) b) = (r, b')"
  shows "length (bs_pending (advance p b') p) < length (bs_pending b p)"
proof -
  from assms(1) have "(bs_expected b p, e, d) \<in> set (bs_pending b p)" by (auto dest: map_of_SomeD)
  then have "length (filter (\<lambda>x. fst x \<noteq> bs_expected b p) (bs_pending b p)) < length (bs_pending b p)"
    by (rule length_filter_less) simp
  with execute_reserved_frame(1) [OF assms(2)] show ?thesis
    by (simp add: advance_def take_pending_def)
qed

function drain_partition ::
  "'s idempotency \<Rightarrow> bus_partition \<Rightarrow> ('s, 'w) bus \<Rightarrow> (bus_exit + unit) \<times> ('s, 'w) bus" where
  "drain_partition ops p b =
     (case map_of (bs_pending b p) (bs_expected b p) of
        None \<Rightarrow> (Inr (), b)
      | Some (e, d) \<Rightarrow>
          (case execute_reserved ops e d (take_pending p (bs_expected b p) b) of
             (Inl (Raised _), b') \<Rightarrow> (Inr (), b')
           | (Inl Cancelled, b') \<Rightarrow> (Inl Cancelled, b')
           | (Inr _, b') \<Rightarrow> drain_partition ops p (advance p b')))"
  by pat_completeness auto

termination
  by (relation "measure (\<lambda>(_, p, b). length (bs_pending b p))")
    (auto simp: drain_decreases [OF _ sym])

declare drain_partition.simps [simp del]

definition assert_not_expired :: "timestamp \<Rightarrow> envelope \<Rightarrow> app_error + unit" where
  "assert_not_expired now e =
     guard (case dm_expires_at (en_delivery e) of None \<Rightarrow> True | Some t \<Rightarrow> now < t)
       (liyan ''LIYAN-MESSAGE-EXPIRED'' EC_MESSAGING False 410)"

text \<open>Withdraw the reservation, then raise; an error of the withdrawal replaces the other one.\<close>

definition abort_and_raise ::
  "'s idempotency \<Rightarrow> envelope \<Rightarrow> digest \<Rightarrow> app_error \<Rightarrow> ('s, 'w) bus
     \<Rightarrow> (bus_exit + dispatch_result) \<times> ('s, 'w) bus" where
  "abort_and_raise ops e d err b =
     (case io_abort ops (key_of e) d (bs_store b) of
        (Inl err', s) \<Rightarrow> (Inl (Raised err'), b\<lparr>bs_store := s\<rparr>)
      | (Inr _, s) \<Rightarrow> (Inl (Raised err), b\<lparr>bs_store := s\<rparr>))"

definition dispatch_result_of :: "dispatch_status \<Rightarrow> envelope \<Rightarrow> int \<Rightarrow> dispatch_result" where
  "dispatch_result_of status e expected =
     \<lparr>dr_status = status, dr_partition_key = en_partition_key e, dr_sequence = en_sequence e,
      dr_next_expected_sequence = expected\<rparr>"

definition publish ::
  "'s idempotency \<Rightarrow> hash_env \<Rightarrow> timestamp \<Rightarrow> envelope \<Rightarrow> ('s, 'w) bus
     \<Rightarrow> (bus_exit + dispatch_result) \<times> ('s, 'w) bus" where
  "publish ops h now e b =
     (if bs_closed b then (Inl (Raised (liyan ''LIYAN-INTERNAL'' EC_MESSAGING False 503)), b)
      else case assert_not_expired now e of Inl err \<Rightarrow> (Inl (Raised err), b) | Inr _ \<Rightarrow>
        (let d = delivery_digest h e; p = partition_of e; expected = bs_expected b p
         in case io_reserve ops (key_of e) d (bs_store b) of
              (Inl err, s) \<Rightarrow> (Inl (Raised err), b\<lparr>bs_store := s\<rparr>)
            | (Inr decision, s) \<Rightarrow>
               (let b1 = b\<lparr>bs_store := s\<rparr>
                in if decision \<noteq> RESERVED
                   then (Inr (dispatch_result_of
                      (if decision = DUPLICATE_COMPLETED then DS_DUPLICATE else DS_IN_FLIGHT) e expected), b1)
                   else if en_sequence e < expected
                   then abort_and_raise ops e d (message_sequence_error ''LIYAN-MESSAGE-SEQUENCE-STALE'') b1
                   else if expected < en_sequence e
                   then if bs_max_gap_buffer b1 \<le> int (length (bs_pending b1 p))
                        then abort_and_raise ops e d
                          (liyan ''LIYAN-MESSAGE-BUFFER-FULL'' EC_MESSAGING True 503) b1
                        else if map_of (bs_pending b1 p) (en_sequence e) \<noteq> None
                        then abort_and_raise ops e d (message_sequence_error ''LIYAN-MESSAGE-SEQUENCE-GAP'') b1
                        else (Inr (dispatch_result_of DS_BUFFERED e expected),
                              b1\<lparr>bs_pending := (bs_pending b1)(p := bs_pending b1 p @ [(en_sequence e, e, d)])\<rparr>)
                   else (case execute_reserved ops e d b1 of
                           (Inl x, b2) \<Rightarrow> (Inl x, b2)
                         | (Inr _, b2) \<Rightarrow>
                            (case drain_partition ops p (advance p b2) of
                               (Inl x, b3) \<Rightarrow> (Inl x, b3)
                             | (Inr _, b3) \<Rightarrow>
                                 (Inr (dispatch_result_of DS_PROCESSED e (bs_expected b3 p)), b3))))))"

subsection \<open>Invariant\<close>

definition completed :: "('s, 'w) bus \<Rightarrow> envelope list" where
  "completed b = map fst (filter snd (bs_executed b))"

definition completed_in :: "bus_partition \<Rightarrow> ('s, 'w) bus \<Rightarrow> envelope list" where
  "completed_in p b = filter (\<lambda>e. partition_of e = p) (completed b)"

type_synonym 's store_view = "'s \<Rightarrow> string \<rightharpoonup> digest \<times> idempotency_state"

definition pending_ok :: "hash_env \<Rightarrow> 's store_view \<Rightarrow> ('s, 'w) bus \<Rightarrow> bool" where
  "pending_ok h view b \<longleftrightarrow>
     (\<forall>p. distinct (map fst (bs_pending b p)) \<and> int (length (bs_pending b p)) \<le> bs_max_gap_buffer b)
     \<and> (\<forall>p n e d. (n, e, d) \<in> set (bs_pending b p) \<longrightarrow>
          bs_expected b p \<le> n \<and> en_sequence e = n \<and> partition_of e = p \<and> d = delivery_digest h e
          \<and> view (bs_store b) (key_of e) = Some (d, IS_BUFFERED))
     \<and> (\<forall>p n e d p' n' e' d'. (n, e, d) \<in> set (bs_pending b p) \<longrightarrow> (n', e', d') \<in> set (bs_pending b p')
          \<longrightarrow> key_of e = key_of e' \<longrightarrow> e = e')"

definition completed_ok :: "hash_env \<Rightarrow> 's store_view \<Rightarrow> ('s, 'w) bus \<Rightarrow> bool" where
  "completed_ok h view b \<longleftrightarrow>
     (\<forall>e\<in>set (completed b). view (bs_store b) (key_of e) = Some (delivery_digest h e, IS_COMPLETED)
        \<and> en_sequence e < bs_expected b (partition_of e))
     \<and> distinct (map key_of (completed b))
     \<and> (\<forall>p. sorted_wrt (<) (map en_sequence (completed_in p b)))"

definition no_ready :: "bus_partition \<Rightarrow> ('s, 'w) bus \<Rightarrow> bool" where
  "no_ready p b \<longleftrightarrow> bs_expected b p \<notin> fst ` set (bs_pending b p)"

text \<open>An envelope that holds its reservation, is next in its partition, and is not buffered.\<close>

definition reserved_next :: "hash_env \<Rightarrow> 's store_view \<Rightarrow> envelope \<Rightarrow> ('s, 'w) bus \<Rightarrow> bool" where
  "reserved_next h view e b \<longleftrightarrow>
     view (bs_store b) (key_of e) = Some (delivery_digest h e, IS_BUFFERED)
     \<and> en_sequence e = bs_expected b (partition_of e) \<and> no_ready (partition_of e) b
     \<and> (\<forall>p n e' d'. (n, e', d') \<in> set (bs_pending b p) \<longrightarrow> key_of e' \<noteq> key_of e)"

text \<open>The completed sequences of a partition grow by the interval its cursor passes.\<close>

definition advances :: "bus_partition \<Rightarrow> ('s, 'w) bus \<Rightarrow> ('s, 'w) bus \<Rightarrow> bool" where
  "advances p b b' \<longleftrightarrow> bs_expected b p \<le> bs_expected b' p
     \<and> map en_sequence (completed_in p b')
         = map en_sequence (completed_in p b) @ [bs_expected b p .. bs_expected b' p - 1]"

lemma advances_refl:
  "completed b' = completed b \<Longrightarrow> bs_expected b' p = bs_expected b p \<Longrightarrow> advances p b b'"
  by (simp add: advances_def completed_in_def)

lemma upto_join: "i \<le> j \<Longrightarrow> j \<le> k \<Longrightarrow> [i .. j - 1] @ [j .. k - 1] = [i .. k - (1 :: int)]"
  by (cases "j = k") (simp_all add: upto_split1 [of i j "k - 1"])

lemma advances_trans: "advances p b b' \<Longrightarrow> advances p b' b'' \<Longrightarrow> advances p b b''"
  by (auto simp: advances_def upto_join)

lemma completed_snoc [simp]:
  "completed (b\<lparr>bs_store := s, bs_world := w, bs_executed := bs_executed b @ [(e, True)]\<rparr>) = completed b @ [e]"
  "completed (b\<lparr>bs_store := s, bs_world := w, bs_executed := bs_executed b @ [(e, False)]\<rparr>) = completed b"
  by (simp_all add: completed_def)

lemma bus_updates [simp]:
  "completed (advance p b) = completed b" "completed (take_pending p n b) = completed b"
  "completed (b\<lparr>bs_store := s\<rparr>) = completed b" "completed (b\<lparr>bs_pending := q\<rparr>) = completed b"
  "completed (b\<lparr>bs_expected := x\<rparr>) = completed b"
  "bs_store (advance p b) = bs_store b" "bs_pending (advance p b) = bs_pending b"
  "bs_expected (advance p b) = (bs_expected b)(p := bs_expected b p + 1)"
  "bs_store (take_pending p n b) = bs_store b" "bs_expected (take_pending p n b) = bs_expected b"
  "bs_pending (take_pending p n b)
     = (bs_pending b)(p := filter (\<lambda>x. fst x \<noteq> n) (bs_pending b p))"
  "bs_max_gap_buffer (take_pending p n b) = bs_max_gap_buffer b"
  "bs_max_gap_buffer (advance p b) = bs_max_gap_buffer b"
  by (simp_all add: completed_def advance_def take_pending_def)

definition bus_inv :: "hash_env \<Rightarrow> 's store_view \<Rightarrow> ('s \<Rightarrow> bool) \<Rightarrow> ('s, 'w) bus \<Rightarrow> bool" where
  "bus_inv h view live b \<longleftrightarrow> live (bs_store b) \<and> pending_ok h view b \<and> completed_ok h view b
     \<and> (\<forall>p. no_ready p b)"

text \<open>Nothing but the representation of the store has changed.\<close>

definition untouched :: "'s store_view \<Rightarrow> ('s, 'w) bus \<Rightarrow> ('s, 'w) bus \<Rightarrow> bool" where
  "untouched view b b' \<longleftrightarrow> view (bs_store b') = view (bs_store b) \<and> b' = b\<lparr>bs_store := bs_store b'\<rparr>"

text \<open>What a result of \<^verbatim>\<open>publish\<close> tells its caller.\<close>

definition publish_meaning ::
  "hash_env \<Rightarrow> 's store_view \<Rightarrow> envelope \<Rightarrow> dispatch_result \<Rightarrow> ('s, 'w) bus \<Rightarrow> ('s, 'w) bus \<Rightarrow> bool" where
  "publish_meaning h view e res b b' \<longleftrightarrow>
     dr_sequence res = en_sequence e \<and> dr_partition_key res = en_partition_key e
     \<and> dr_next_expected_sequence res = bs_expected b' (partition_of e)
     \<and> (case dr_status res of
          DS_PROCESSED \<Rightarrow> en_sequence e = bs_expected b (partition_of e) \<and> e \<in> set (completed b')
            \<and> e \<notin> set (completed b)
        | DS_BUFFERED \<Rightarrow> bs_expected b (partition_of e) < en_sequence e \<and> completed b' = completed b
            \<and> (en_sequence e, e, delivery_digest h e) \<in> set (bs_pending b' (partition_of e))
        | DS_DUPLICATE \<Rightarrow> b' = b
            \<and> view (bs_store b) (key_of e) = Some (delivery_digest h e, IS_COMPLETED)
        | DS_IN_FLIGHT \<Rightarrow> b' = b \<and> (\<exists>st. view (bs_store b) (key_of e) = Some (delivery_digest h e, st)
            \<and> st \<noteq> IS_COMPLETED))"

lemma untouched_keeps:
  assumes "bus_inv h view live b" "untouched view b b'" "live (bs_store b')"
  shows "bus_inv h view live b' \<and> (\<forall>q. advances q b b') \<and> bs_executed b' = bs_executed b"
proof -
  from assms(2) have v: "view (bs_store b') = view (bs_store b)"
    and b': "b' = b\<lparr>bs_store := bs_store b'\<rparr>" by (simp_all add: untouched_def)
  have f: "bs_pending b' = bs_pending b" "bs_expected b' = bs_expected b"
      "bs_max_gap_buffer b' = bs_max_gap_buffer b" "bs_executed b' = bs_executed b"
    by (subst b', simp)+
  then have c: "completed b' = completed b" by (simp add: completed_def)
  then have "completed_in q b' = completed_in q b" for q by (simp add: completed_in_def)
  with assms c f v show ?thesis
    by (simp add: bus_inv_def pending_ok_def completed_ok_def no_ready_def advances_def)
qed

lemma pending_okD:
  assumes "pending_ok h view b"
  shows "distinct (map fst (bs_pending b p))" "int (length (bs_pending b p)) \<le> bs_max_gap_buffer b"
    and "(n, e, d) \<in> set (bs_pending b p) \<Longrightarrow>
      bs_expected b p \<le> n \<and> en_sequence e = n \<and> partition_of e = p \<and> d = delivery_digest h e
          \<and> view (bs_store b) (key_of e) = Some (d, IS_BUFFERED)"
    and "(n, e, d) \<in> set (bs_pending b p) \<Longrightarrow> (n', e', d') \<in> set (bs_pending b p') \<Longrightarrow>
      key_of e = key_of e' \<Longrightarrow> e = e'"
  using assms unfolding pending_ok_def by blast+

lemma pending_okI:
  assumes "\<And>p. distinct (map fst (bs_pending b p)) \<and> int (length (bs_pending b p)) \<le> bs_max_gap_buffer b"
    and "\<And>p n e d. (n, e, d) \<in> set (bs_pending b p) \<Longrightarrow>
      bs_expected b p \<le> n \<and> en_sequence e = n \<and> partition_of e = p \<and> d = delivery_digest h e
          \<and> view (bs_store b) (key_of e) = Some (d, IS_BUFFERED)"
    and "\<And>p n e d p' n' e' d'. (n, e, d) \<in> set (bs_pending b p) \<Longrightarrow>
      (n', e', d') \<in> set (bs_pending b p') \<Longrightarrow> key_of e = key_of e' \<Longrightarrow> e = e'"
  shows "pending_ok h view b"
  unfolding pending_ok_def using assms by (intro conjI allI impI) blast+

lemma pending_ok_update:
  assumes "pending_ok h view b" "bs_pending b' = bs_pending b"
    and "bs_max_gap_buffer b' = bs_max_gap_buffer b"
    and "\<And>p n e d. (n, e, d) \<in> set (bs_pending b p) \<Longrightarrow> bs_expected b' p \<le> n
      \<and> view (bs_store b') (key_of e) = view (bs_store b) (key_of e)"
  shows "pending_ok h view b'"
  unfolding pending_ok_def assms(2,3)
proof (intro conjI allI impI)
  note keep = pending_okD [OF assms(1)]
  fix p
  show "distinct (map fst (bs_pending b p))" "int (length (bs_pending b p)) \<le> bs_max_gap_buffer b"
    by (rule keep)+
  fix n e d
  assume mem: "(n, e, d) \<in> set (bs_pending b p)"
  show "bs_expected b' p \<le> n" using assms(4) [OF mem] by blast
  show "view (bs_store b') (key_of e) = Some (d, IS_BUFFERED)"
    using assms(4) [OF mem] keep(3) [OF mem] by simp
  show "en_sequence e = n" "partition_of e = p" "d = delivery_digest h e"
    using keep(3) [OF mem] by blast+
  fix p' n' e' d'
  assume "(n', e', d') \<in> set (bs_pending b p')" "key_of e = key_of e'"
  then show "e = e'" using keep(4) [OF mem] by blast
qed

context idempotency_store
begin

text \<open>The three ways in which an execution that holds its reservation ends.\<close>

lemma execute_reserved_ends:
  assumes live: "live (bs_store b)" and res: "view (bs_store b) (key_of e) = Some (d, IS_BUFFERED)"
    and ex: "execute_reserved ops e d b = (r, b')"
  shows "\<exists>s w ok st. b' = b\<lparr>bs_store := s, bs_world := w, bs_executed := bs_executed b @ [(e, ok)]\<rparr>
     \<and> live s \<and> view s = (view (bs_store b))(key_of e := st)
     \<and> (case r of Inr _ \<Rightarrow> ok \<and> st = Some (d, IS_COMPLETED)
        | Inl (Raised _) \<Rightarrow> \<not> ok \<and> st = None
        | Inl Cancelled \<Rightarrow> \<not> ok \<and> st = Some (d, IS_PROCESSING))"
proof -
  from mark_law [OF live res] obtain s1 where
    s1: "io_mark_processing ops (key_of e) d (bs_store b) = (Inr (), s1)" "live s1"
      "view s1 = (view (bs_store b))(key_of e \<mapsto> (d, IS_PROCESSING))" by auto
  then have v: "view s1 (key_of e) = Some (d, IS_PROCESSING)" by simp
  from abort_law [OF s1(2) v] obtain s2 where
    s2: "io_abort ops (key_of e) d s1 = (Inr (), s2)" "live s2" "view s2 = (view s1)(key_of e := None)"
    by auto
  from complete_law [OF s1(2) v] obtain s3 where
    s3: "io_complete ops (key_of e) d s1 = (Inr (), s3)" "live s3"
      "view s3 = (view s1)(key_of e \<mapsto> (d, IS_COMPLETED))" by auto
  show ?thesis
    using ex s1 s2 s3
    by (auto simp: execute_reserved_def Let_def split: prod.splits sum.splits bus_exit.splits)
qed

lemma execute_reserved_keeps:
  assumes live: "live (bs_store b)" and pend: "pending_ok h view b" and compl: "completed_ok h view b"
    and turn: "reserved_next h view e b"
    and ex: "execute_reserved ops e (delivery_digest h e) b = (r, b')"
  shows "live (bs_store b')"
    and "r = Inr () \<Longrightarrow> pending_ok h view (advance (partition_of e) b')
       \<and> completed_ok h view (advance (partition_of e) b')
       \<and> (\<forall>p. advances p b (advance (partition_of e) b'))"
    and "r \<noteq> Inr () \<Longrightarrow> pending_ok h view b' \<and> completed_ok h view b' \<and> no_ready (partition_of e) b'
       \<and> (\<forall>p. advances p b b')"
proof -
  have res: "view (bs_store b) (key_of e) = Some (delivery_digest h e, IS_BUFFERED)"
    and sequence: "en_sequence e = bs_expected b (partition_of e)"
    using turn by (simp_all add: reserved_next_def)
  have fresh: "key_of e' \<noteq> key_of e" if "(n, e', d') \<in> set (bs_pending b p)" for p n e' d'
    using turn that unfolding reserved_next_def by blast
  have ready: "n \<noteq> bs_expected b (partition_of e)"
    if "(n, e', d') \<in> set (bs_pending b (partition_of e))" for n e' d'
    using turn that by (force simp: reserved_next_def no_ready_def)
  from execute_reserved_ends [OF live res ex] obtain s w ok st where
    b': "b' = b\<lparr>bs_store := s, bs_world := w, bs_executed := bs_executed b @ [(e, ok)]\<rparr>"
    and s: "live s" "view s = (view (bs_store b))(key_of e := st)"
    and ends: "case r of Inr _ \<Rightarrow> ok \<and> st = Some (delivery_digest h e, IS_COMPLETED)
        | Inl (Raised _) \<Rightarrow> \<not> ok \<and> st = None
        | Inl Cancelled \<Rightarrow> \<not> ok \<and> st = Some (delivery_digest h e, IS_PROCESSING)" by auto
  show "live (bs_store b')" using b' s by simp
  have other: "key_of e' \<noteq> key_of e" if "e' \<in> set (completed b)" for e'
    using compl that res by (auto simp: completed_ok_def)
  then have fresh_key: "key_of e \<notin> key_of ` set (completed b)" by (metis imageE)
  show "pending_ok h view (advance (partition_of e) b')
       \<and> completed_ok h view (advance (partition_of e) b')
       \<and> (\<forall>p. advances p b (advance (partition_of e) b'))" if "r = Inr ()"
  proof (intro conjI allI)
    from that ends have ok: "ok" "st = Some (delivery_digest h e, IS_COMPLETED)" by simp_all
    then have added: "completed b' = completed b @ [e]" by (simp add: b')
    show "pending_ok h view (advance (partition_of e) b')"
    proof (rule pending_ok_update [OF pend])
      fix p n e' d'
      assume mem: "(n, e', d') \<in> set (bs_pending b p)"
      from pending_okD(3) [OF pend mem] have "bs_expected b p \<le> n" by blast
      with mem fresh [OF mem] ready
      show "bs_expected (advance (partition_of e) b') p \<le> n
          \<and> view (bs_store (advance (partition_of e) b')) (key_of e') = view (bs_store b) (key_of e')"
        by (cases "p = partition_of e") (force simp: b' s)+
    qed (simp_all add: b')
    have "sorted_wrt (<) (map en_sequence (completed_in p b'))" for p
      using compl sequence
      by (auto simp: completed_in_def added completed_ok_def sorted_wrt_append simp del: split_paired_All)
    then show "completed_ok h view (advance (partition_of e) b')"
      using compl other fresh_key sequence ok
      by (auto simp: completed_ok_def added completed_in_def b' s)
    show "advances p b (advance (partition_of e) b')" for p
      using sequence by (auto simp: advances_def completed_in_def added) (simp_all add: b')
  qed
  show "pending_ok h view b' \<and> completed_ok h view b' \<and> no_ready (partition_of e) b'
       \<and> (\<forall>p. advances p b b')" if "r \<noteq> Inr ()"
  proof (intro conjI allI)
    from that ends have ok: "\<not> ok" by (cases r) (auto split: bus_exit.splits)
    then have same: "completed b' = completed b" by (simp add: b')
    show "pending_ok h view b'"
    proof (rule pending_ok_update [OF pend])
      fix p n e' d'
      assume mem: "(n, e', d') \<in> set (bs_pending b p)"
      show "bs_expected b' p \<le> n \<and> view (bs_store b') (key_of e') = view (bs_store b) (key_of e')"
        using pending_okD(3) [OF pend mem] fresh [OF mem] by (simp add: b' s)
    qed (simp_all add: b')
    show "completed_ok h view b'"
      using compl other by (auto simp: completed_ok_def same completed_in_def) (auto simp: b' s)
    show "no_ready (partition_of e) b'" using turn by (simp add: reserved_next_def no_ready_def b')
    show "advances p b b'" for p by (rule advances_refl) (use same b' in auto)
  qed
qed

lemma take_pending_ready:
  assumes pend: "pending_ok h view b" and m: "map_of (bs_pending b p) (bs_expected b p) = Some (e, d)"
  shows "d = delivery_digest h e" "partition_of e = p"
    and "pending_ok h view (take_pending p (bs_expected b p) b)"
    and "reserved_next h view e (take_pending p (bs_expected b p) b)"
proof -
  from m have mem: "(bs_expected b p, e, d) \<in> set (bs_pending b p)" by (rule map_of_SomeD)
  note keep = pending_okD [OF pend]
  from keep(3) [OF mem] show d: "d = delivery_digest h e" and p: "partition_of e = p" by blast+
  let ?b = "take_pending p (bs_expected b p) b"
  have sub: "set (bs_pending ?b q) \<subseteq> set (bs_pending b q)" for q by auto
  have "distinct (map fst (bs_pending ?b q)) \<and> int (length (bs_pending ?b q)) \<le> bs_max_gap_buffer ?b" for q
  proof -
    have "length (bs_pending ?b q) \<le> length (bs_pending b q)" by (simp add: length_filter_le)
    then have "int (length (bs_pending ?b q)) \<le> bs_max_gap_buffer b" using keep(2) [of q] by linarith
    then show ?thesis using keep(1) [of q] by (cases "q = p") (simp_all add: distinct_map_filter)
  qed
  moreover have "bs_expected b q \<le> n \<and> en_sequence e' = n \<and> partition_of e' = q
      \<and> d' = delivery_digest h e' \<and> view (bs_store b) (key_of e') = Some (d', IS_BUFFERED)"
    if "(n, e', d') \<in> set (bs_pending ?b q)" for q n e' d'
    using keep(3) sub that by blast
  moreover have "e1 = e2"
    if "(n1, e1, d1) \<in> set (bs_pending ?b q1)" "(n2, e2, d2) \<in> set (bs_pending ?b q2)"
      "key_of e1 = key_of e2" for q1 n1 e1 d1 q2 n2 e2 d2
    using keep(4) sub that by blast
  ultimately show "pending_ok h view ?b" unfolding pending_ok_def
    by (simp only: bus_updates(9,10)) blast
  have "key_of e' \<noteq> key_of e" if m': "(n, e', d') \<in> set (bs_pending ?b q)" for q n e' d'
  proof
    assume k: "key_of e' = key_of e"
    from m' sub have m0: "(n, e', d') \<in> set (bs_pending b q)" by blast
    from keep(4) [OF m0 mem k] have "e' = e" .
    with keep(3) [OF m0] keep(3) [OF mem] have "q = p" "n = bs_expected b p" by blast+
    with m' show False by simp
  qed
  with keep(3) [OF mem] show "reserved_next h view e ?b"
    by (auto simp: reserved_next_def no_ready_def p)
qed

lemma completed_ok_take: "completed_ok h view (take_pending p n b) = completed_ok h view b"
  by (simp add: completed_ok_def completed_in_def)

lemma drain_keeps:
  assumes "live (bs_store b)" "pending_ok h view b" "completed_ok h view b"
    and "drain_partition ops p b = (r, b')"
  shows "live (bs_store b') \<and> pending_ok h view b' \<and> completed_ok h view b' \<and> no_ready p b'
     \<and> (\<forall>q. advances q b b') \<and> (\<forall>q. q \<noteq> p \<longrightarrow> bs_pending b' q = bs_pending b q
          \<and> bs_expected b' q = bs_expected b q)"
  using assms
proof (induction "length (bs_pending b p)" arbitrary: b rule: less_induct)
  case less
  show ?case
  proof (cases "map_of (bs_pending b p) (bs_expected b p)")
    case None
    then have "no_ready p b" by (simp add: no_ready_def map_of_eq_None_iff)
    with None less.prems show ?thesis by (auto simp: drain_partition.simps [of ops p b] advances_refl)
  next
    case (Some ed)
    obtain e d where ed: "ed = (e, d)" by fastforce
    let ?b = "take_pending p (bs_expected b p) b"
    note take = take_pending_ready [OF less.prems(2) Some [unfolded ed]]
    obtain r1 b1 where ex: "execute_reserved ops e d ?b = (r1, b1)" by fastforce
    have pre: "live (bs_store ?b)" "completed_ok h view ?b"
      using less.prems by (simp_all add: completed_ok_take)
    have ex': "execute_reserved ops e (delivery_digest h e) ?b = (r1, b1)" using ex take(1) by simp
    note k = execute_reserved_keeps [OF pre(1) take(3) pre(2) take(4) ex', unfolded take(2)]
    have adv: "advances q ?b b'' = advances q b b''" for q b''
      by (simp add: advances_def completed_in_def)
    note frame = execute_reserved_frame [OF ex]
    show ?thesis
    proof (cases "r1 = Inr ()")
      case True
      have dr: "drain_partition ops p (advance p b1) = (r, b')"
        using less.prems(4) Some ed ex True by (simp add: drain_partition.simps [of ops p b])
      have "length (bs_pending (advance p b1) p) < length (bs_pending b p)"
        by (rule drain_decreases [OF Some [unfolded ed] ex])
      from less.hyps [OF this _ _ _ dr] k(1) k(2) [OF True]
      have IH: "live (bs_store b') \<and> pending_ok h view b' \<and> completed_ok h view b' \<and> no_ready p b'
         \<and> (\<forall>q. advances q (advance p b1) b')
         \<and> (\<forall>q. q \<noteq> p \<longrightarrow> bs_pending b' q = bs_pending (advance p b1) q
              \<and> bs_expected b' q = bs_expected (advance p b1) q)" by simp
      have "advances q b (advance p b1)" for q using k(2) [OF True] adv by blast
      then have "advances q b b'" for q using IH advances_trans by blast
      then show ?thesis using IH frame by simp
    next
      case False
      then have "b' = b1"
        using less.prems(4) Some ed ex
        by (auto simp: drain_partition.simps [of ops p b] split: sum.splits bus_exit.splits)
      with k(1) k(3) [OF False] adv frame show ?thesis by simp
    qed
  qed
qed

lemma pending_ok_push:
  assumes pend: "pending_ok h view b" and res: "view (bs_store b) (key_of e) = Some (delivery_digest h e, IS_BUFFERED)"
    and fresh: "\<And>p n e' d'. (n, e', d') \<in> set (bs_pending b p) \<Longrightarrow> key_of e' \<noteq> key_of e"
    and room: "int (length (bs_pending b (partition_of e))) < bs_max_gap_buffer b"
    and free: "map_of (bs_pending b (partition_of e)) (en_sequence e) = None"
    and ahead: "bs_expected b (partition_of e) \<le> en_sequence e"
  shows "pending_ok h view (b\<lparr>bs_pending := (bs_pending b)(partition_of e :=
      bs_pending b (partition_of e) @ [(en_sequence e, e, delivery_digest h e)])\<rparr>)"
proof -
  let ?p = "partition_of e" and ?x = "(en_sequence e, e, delivery_digest h e)"
  let ?b = "b\<lparr>bs_pending := (bs_pending b)(?p := bs_pending b ?p @ [?x])\<rparr>"
  note keep = pending_okD [OF pend]
  have mem: "x \<in> set (bs_pending ?b q) \<longleftrightarrow> x \<in> set (bs_pending b q) \<or> q = ?p \<and> x = ?x" for x q
    by auto
  have "en_sequence e \<notin> fst ` set (bs_pending b ?p)" using free by (simp add: map_of_eq_None_iff)
  then have P1: "distinct (map fst (bs_pending ?b q)) \<and> int (length (bs_pending ?b q)) \<le> bs_max_gap_buffer ?b" for q
    using keep(1,2) [of q] room by auto
  have P2: "bs_expected b q \<le> n \<and> en_sequence e' = n \<and> partition_of e' = q
      \<and> d' = delivery_digest h e' \<and> view (bs_store b) (key_of e') = Some (d', IS_BUFFERED)"
    if "(n, e', d') \<in> set (bs_pending ?b q)" for q n e' d'
  proof (cases "(n, e', d') \<in> set (bs_pending b q)")
    case True
    then show ?thesis by (rule keep(3))
  next
    case False
    with mem [of "(n, e', d')" q] that have "q = ?p" "n = en_sequence e" "e' = e" "d' = delivery_digest h e"
      by simp_all
    with res ahead show ?thesis by simp
  qed
  have P3: "e1 = e2"
    if "(n1, e1, d1) \<in> set (bs_pending ?b q1)" "(n2, e2, d2) \<in> set (bs_pending ?b q2)"
      "key_of e1 = key_of e2" for q1 n1 e1 d1 q2 n2 e2 d2
  proof -
    have D1: "(n1, e1, d1) \<in> set (bs_pending b q1) \<or> e1 = e" using that(1) unfolding mem by blast
    have D2: "(n2, e2, d2) \<in> set (bs_pending b q2) \<or> e2 = e" using that(2) unfolding mem by blast
    from D1 show ?thesis
    proof
      assume A: "(n1, e1, d1) \<in> set (bs_pending b q1)"
      from D2 show ?thesis
      proof
        assume "(n2, e2, d2) \<in> set (bs_pending b q2)"
        with A show ?thesis using that(3) by (rule keep(4))
      next
        assume "e2 = e"
        with fresh [OF A] that(3) show ?thesis by simp
      qed
    next
      assume 1: "e1 = e"
      from D2 show ?thesis
      proof
        assume "(n2, e2, d2) \<in> set (bs_pending b q2)"
        from fresh [OF this] 1 that(3) show ?thesis by simp
      next
        assume "e2 = e"
        with 1 show ?thesis by simp
      qed
    qed
  qed
  show ?thesis
  proof (rule pending_okI)
    fix q n e' d'
    assume "(n, e', d') \<in> set (bs_pending ?b q)"
    from P2 [OF this] show "bs_expected ?b q \<le> n \<and> en_sequence e' = n \<and> partition_of e' = q
      \<and> d' = delivery_digest h e' \<and> view (bs_store ?b) (key_of e') = Some (d', IS_BUFFERED)" by simp
  qed (rule P1, rule P3)
qed

lemma reserved_store:
  assumes inv: "bus_inv h view live b" and k: "view (bs_store b) (key_of e) = None"
    and s: "view s = (view (bs_store b))(key_of e \<mapsto> (delivery_digest h e, IS_BUFFERED))"
  shows "pending_ok h view (b\<lparr>bs_store := s\<rparr>)" "completed_ok h view (b\<lparr>bs_store := s\<rparr>)"
    and "\<And>p n e' d'. (n, e', d') \<in> set (bs_pending b p) \<Longrightarrow> key_of e' \<noteq> key_of e"
    and "e \<notin> set (completed b)"
proof -
  have pend: "pending_ok h view b" and compl: "completed_ok h view b" using inv by (simp_all add: bus_inv_def)
  show fresh: "key_of e' \<noteq> key_of e" if "(n, e', d') \<in> set (bs_pending b p)" for p n e' d'
    using pending_okD(3) [OF pend that] k by force
  show "pending_ok h view (b\<lparr>bs_store := s\<rparr>)"
  proof (rule pending_ok_update [OF pend])
    fix p n e' d'
    assume mem: "(n, e', d') \<in> set (bs_pending b p)"
    show "bs_expected (b\<lparr>bs_store := s\<rparr>) p \<le> n
        \<and> view (bs_store (b\<lparr>bs_store := s\<rparr>)) (key_of e') = view (bs_store b) (key_of e')"
      using pending_okD(3) [OF pend mem] fresh [OF mem] by (simp add: s)
  qed simp_all
  have other: "key_of e' \<noteq> key_of e" if "e' \<in> set (completed b)" for e'
    using compl that k by (auto simp: completed_ok_def)
  then show "completed_ok h view (b\<lparr>bs_store := s\<rparr>)"
    using compl by (simp add: completed_ok_def completed_in_def s)
  show "e \<notin> set (completed b)" using other by blast
qed

lemma abort_and_raise_untouched:
  assumes k: "view (bs_store b) (key_of e) = None" and s: "live s"
      "view s = (view (bs_store b))(key_of e \<mapsto> (d, IS_BUFFERED))"
    and ab: "abort_and_raise ops e d err (b\<lparr>bs_store := s\<rparr>) = (r, b')"
  shows "r = Inl (Raised err) \<and> untouched view b b' \<and> live (bs_store b')"
proof -
  from s have "view s (key_of e) = Some (d, IS_BUFFERED)" by simp
  from abort_law [OF s(1) this] obtain s' where
    "io_abort ops (key_of e) d s = (Inr (), s')" "live s'" "view s' = (view s)(key_of e := None)" by auto
  with ab show ?thesis using k by (auto simp: abort_and_raise_def untouched_def s fun_eq_iff)
qed

text \<open>The branch of \<^verbatim>\<open>publish\<close> for the message that is next in its partition.\<close>

lemma publish_next:
  assumes inv: "bus_inv h view live b" and k: "view (bs_store b) (key_of e) = None" and s: "live s"
      "view s = (view (bs_store b))(key_of e \<mapsto> (delivery_digest h e, IS_BUFFERED))"
    and sequence: "en_sequence e = bs_expected b (partition_of e)"
    and ex: "execute_reserved ops e (delivery_digest h e) (b\<lparr>bs_store := s\<rparr>) = (r1, b2)"
  shows "r1 = Inl x \<Longrightarrow> bus_inv h view live b2 \<and> (\<forall>q. advances q b b2)"
    and "r1 = Inr () \<Longrightarrow> drain_partition ops (partition_of e) (advance (partition_of e) b2) = (r2, b3) \<Longrightarrow>
       bus_inv h view live b3 \<and> (\<forall>q. advances q b b3)"
proof -
  let ?b1 = "b\<lparr>bs_store := s\<rparr>"
  have ready: "no_ready q b" for q using inv unfolding bus_inv_def by blast
  note reserved = reserved_store [OF inv k s(2)]
  have "reserved_next h view e ?b1"
    using reserved(3) sequence ready by (simp add: reserved_next_def s no_ready_def)
  note keeps = execute_reserved_keeps [OF _ reserved(1,2) this ex]
  have live: "live (bs_store ?b1)" using s by simp
  have adv: "advances q ?b1 b'' = advances q b b''" for q b''
    by (simp add: advances_def completed_in_def)
  note frame = execute_reserved_frame [OF ex]
  show "bus_inv h view live b2 \<and> (\<forall>q. advances q b b2)" if "r1 = Inl x"
  proof -
    have "no_ready q b2" for q using ready frame by (simp add: no_ready_def)
    with keeps(1,3) [OF live] that adv show ?thesis by (simp add: bus_inv_def)
  qed
  show "bus_inv h view live b3 \<and> (\<forall>q. advances q b b3)"
    if ok: "r1 = Inr ()" and dr: "drain_partition ops (partition_of e) (advance (partition_of e) b2) = (r2, b3)"
  proof -
    let ?b3 = "advance (partition_of e) b2"
    have "live (bs_store ?b3)" "pending_ok h view ?b3" "completed_ok h view ?b3"
      using keeps(1) [OF live] keeps(2) [OF live ok] by simp_all
    have first: "advances q b ?b3" for q using keeps(2) [OF live ok] adv by blast
    note D = drain_keeps [OF \<open>live (bs_store ?b3)\<close> \<open>pending_ok h view ?b3\<close>
        \<open>completed_ok h view ?b3\<close> dr]
    have "advances q b b3" for q using advances_trans [OF first] D by blast
    moreover have "no_ready q b3" for q
    proof (cases "q = partition_of e")
      case True
      with D show ?thesis by simp
    next
      case False
      with D have "bs_pending b3 q = bs_pending b q" "bs_expected b3 q = bs_expected b q"
        using frame by (simp_all del: split_paired_All)
      with ready [of q] show ?thesis by (simp add: no_ready_def)
    qed
    ultimately show ?thesis using D by (simp add: bus_inv_def)
  qed
qed

lemma completed_execute_Inr:
  assumes "execute_reserved ops e d b = (Inr u, b')"
  shows "e \<in> set (completed b') \<and> bs_executed b' = bs_executed b @ [(e, True)]"
  using assms
  by (auto simp: execute_reserved_def Let_def completed_def image_iff
      split: prod.splits sum.splits bus_exit.splits)

lemma execute_reserved_log:
  assumes live: "live (bs_store b)" "view (bs_store b) (key_of e) = Some (d, IS_BUFFERED)"
    and ex: "execute_reserved ops e d b = (r, b')"
  shows "\<exists>ok. bs_executed b' = bs_executed b @ [(e, ok)]"
  using execute_reserved_ends [OF live ex] by auto

lemma completed_drain:
  assumes "drain_partition ops p b = (r, b')"
  shows "\<exists>xs. bs_executed b' = bs_executed b @ xs"
  using assms
proof (induction ops p b arbitrary: r b' rule: drain_partition.induct)
  case (1 ops p b)
  show ?case
  proof (cases "map_of (bs_pending b p) (bs_expected b p)")
    case None
    with "1.prems" show ?thesis by (simp add: drain_partition.simps [of ops p b])
  next
    case (Some ed)
    obtain e d where ed: "ed = (e, d)" by fastforce
    obtain r1 b1 where ex: "execute_reserved ops e d (take_pending p (bs_expected b p) b) = (r1, b1)"
      by fastforce
    have log: "\<exists>xs. bs_executed b1 = bs_executed b @ xs"
      using ex by (auto simp: execute_reserved_def Let_def take_pending_def
          split: prod.splits sum.splits bus_exit.splits)
    show ?thesis
    proof (cases r1)
      case (Inl x)
      with "1.prems" Some ed ex have "b' = b1"
        by (auto simp: drain_partition.simps [of ops p b] split: bus_exit.splits)
      with log show ?thesis by simp
    next
      case (Inr u)
      then have dr: "drain_partition ops p (advance p b1) = (r, b')"
        using "1.prems" Some ed ex by (simp add: drain_partition.simps [of ops p b])
      from "1.IH" [OF Some ed [symmetric] ex [symmetric] Inr dr]
      have "\<exists>xs. bs_executed b' = bs_executed (advance p b1) @ xs" by simp
      with log show ?thesis by (auto simp: advance_def)
    qed
  qed
qed

lemma drain_completed_mono:
  "drain_partition ops p b = (r, b') \<Longrightarrow> set (completed b) \<subseteq> set (completed b')"
  using completed_drain [of p b r b'] by (auto simp: completed_def)

lemma publish_keeps:
  assumes inv: "bus_inv h view live b" and pub: "publish ops h now e b = (r, b')"
  shows "bus_inv h view live b' \<and> (\<forall>q. advances q b b')
     \<and> (bs_executed b' = bs_executed b \<and> (\<exists>x. r = Inl x) \<longrightarrow> untouched view b b')
     \<and> (case r of Inl _ \<Rightarrow> True | Inr res \<Rightarrow> publish_meaning h view e res b b')"
proof -
  let ?p = "partition_of e" and ?k = "key_of e" and ?d = "delivery_digest h e"
  have live: "live (bs_store b)" using inv by (simp add: bus_inv_def)
  have quiet: ?thesis if "untouched view b b'" "live (bs_store b')" "r = Inl x" for x
    using that untouched_keeps [OF inv] by simp
  have same: "untouched view b b" by (simp add: untouched_def)
  show ?thesis
  proof (cases "bs_closed b \<or> (\<exists>err. assert_not_expired now e = Inl err)")
    case True
    then obtain x where "r = Inl x" "b' = b" using pub by (auto simp: publish_def split: if_splits)
    with same live show ?thesis by (intro quiet) simp_all
  next
    case False
    then have pub': "\<not> bs_closed b" "\<exists>u. assert_not_expired now e = Inr u"
      by (auto, cases "assert_not_expired now e", auto)
    show ?thesis
    proof (cases "view (bs_store b) ?k")
      case (Some v)
      obtain d' st where v: "v = (d', st)" by fastforce
      from reserve_old [OF live Some [unfolded v], of ?d] pub pub'
      consider "d' \<noteq> ?d" "\<exists>x. r = Inl x" "b' = b"
        | "d' = ?d" "b' = b" "r = Inr (dispatch_result_of
             (if st = IS_COMPLETED then DS_DUPLICATE else DS_IN_FLIGHT) e (bs_expected b ?p))"
        by (auto simp: publish_def Let_def split: if_splits)
      then show ?thesis
      proof cases
        case 1
        with same live show ?thesis by (elim exE) (intro quiet, simp_all)
      next
        case 2
        with Some v inv show ?thesis
          by (auto simp: publish_meaning_def dispatch_result_of_def advances_refl)
      qed
    next
      case None
      from reserve_new [OF live None, of ?d] obtain s where
        s: "io_reserve ops ?k ?d (bs_store b) = (Inr RESERVED, s)" "live s"
          "view s = (view (bs_store b))(?k \<mapsto> (?d, IS_BUFFERED))" by auto
      let ?b1 = "b\<lparr>bs_store := s\<rparr>"
      have abort: ?thesis if "abort_and_raise ops e ?d err ?b1 = (r, b')" for err
        using abort_and_raise_untouched [OF None s(2,3) that] by (intro quiet) auto
      note reserved = reserved_store [OF inv None s(3)]
      have ready: "no_ready q b" for q using inv unfolding bus_inv_def by blast
      consider (stale) "en_sequence e < bs_expected b ?p"
        | (ahead) "bs_expected b ?p < en_sequence e"
        | (turn) "en_sequence e = bs_expected b ?p" by linarith
      then show ?thesis
      proof cases
        case stale
        then have "abort_and_raise ops e ?d (message_sequence_error ''LIYAN-MESSAGE-SEQUENCE-STALE'') ?b1 = (r, b')"
          using pub pub' s(1) by (auto simp: publish_def)
        then show ?thesis by (rule abort)
      next
        case ahead
        show ?thesis
        proof (cases "bs_max_gap_buffer b \<le> int (length (bs_pending b ?p))
            \<or> map_of (bs_pending b ?p) (en_sequence e) \<noteq> None")
          case True
          then have "\<exists>err. abort_and_raise ops e ?d err ?b1 = (r, b')"
            using pub pub' s(1) ahead by (auto simp: publish_def Let_def split: if_splits)
          then show ?thesis using abort by blast
        next
          case room: False
          let ?b2 = "?b1\<lparr>bs_pending := (bs_pending ?b1)(?p := bs_pending ?b1 ?p @ [(en_sequence e, e, ?d)])\<rparr>"
          have res: "r = Inr (dispatch_result_of DS_BUFFERED e (bs_expected b ?p))" "b' = ?b2"
            using pub pub' s(1) ahead room by (auto simp: publish_def Let_def split: if_splits)
          have pend: "pending_ok h view ?b2"
          proof (rule pending_ok_push [OF reserved(1)])
            show "int (length (bs_pending ?b1 ?p)) < bs_max_gap_buffer ?b1" using room by simp
            show "map_of (bs_pending ?b1 ?p) (en_sequence e) = None" using room by (simp del: not_None_eq)
          qed (use ahead s(3) reserved(3) in auto)
          have compl: "completed_ok h view ?b2"
            using reserved(2) by (simp add: completed_ok_def completed_in_def)
          have "no_ready q ?b2" for q using ready [of q] ahead by (auto simp: no_ready_def)
          with pend compl s(2) have "bus_inv h view live b'" by (simp add: bus_inv_def res)
          moreover have "advances q b b'" for q by (rule advances_refl) (simp_all add: res)
          ultimately show ?thesis
            using ahead by (simp add: res publish_meaning_def dispatch_result_of_def)
        qed
      next
        case turn
        obtain r1 b2 where ex: "execute_reserved ops e ?d ?b1 = (r1, b2)" by fastforce
        note next_step = publish_next [OF inv None s(2,3) turn ex]
        have "view (bs_store ?b1) ?k = Some (?d, IS_BUFFERED)" "live (bs_store ?b1)" using s by simp_all
        from execute_reserved_log [OF this(2,1) ex] obtain ok
          where log: "bs_executed b2 = bs_executed b @ [(e, ok)]" by auto
        show ?thesis
        proof (cases r1)
          case (Inl x)
          then have "r = Inl x" "b' = b2" using pub pub' s(1) turn ex by (auto simp: publish_def Let_def)
          with next_step(1) [OF Inl] log show ?thesis by simp
        next
          case (Inr u)
          obtain r2 b3 where dr: "drain_partition ops ?p (advance ?p b2) = (r2, b3)" by fastforce
          have res: "b' = b3" "r = (case r2 of Inl x \<Rightarrow> Inl x
              | Inr _ \<Rightarrow> Inr (dispatch_result_of DS_PROCESSED e (bs_expected b3 ?p)))"
            using pub pub' s(1) turn ex Inr dr by (auto simp: publish_def Let_def split: sum.splits)
          have more: "bs_executed b' \<noteq> bs_executed b"
            using completed_drain [OF dr] log by (auto simp: res advance_def)
          have "e \<in> set (completed b')"
            using completed_execute_Inr [OF ex [unfolded Inr]] drain_completed_mono [OF dr]
            by (auto simp: res)
          with reserved(4) more next_step(2) [OF _ dr] Inr turn show ?thesis
            by (simp add: res publish_meaning_def dispatch_result_of_def split: sum.split)
        qed
      qed
    qed
  qed
qed

end

subsection \<open>Runs\<close>

text \<open>A bus in use: the calls of its interface, with rejected calls leaving the bus as it was.\<close>

datatype 'w bus_operation =
    Publish timestamp envelope
  | Restore tenant string int
  | Register string "string \<times> 'w message_handler"
  | Close

fun bus_call :: "'s idempotency \<Rightarrow> hash_env \<Rightarrow> 'w bus_operation \<Rightarrow> ('s, 'w) bus \<Rightarrow> ('s, 'w) bus" where
  "bus_call ops h (Publish now e) b = snd (publish ops h now e b)"
| "bus_call ops h (Restore t k n) b =
     (case restore_partition_cursor t k n b of Inl _ \<Rightarrow> b | Inr b' \<Rightarrow> b')"
| "bus_call ops h (Register ev handler) b =
     (case register_handler ev handler b of Inl _ \<Rightarrow> b | Inr b' \<Rightarrow> b')"
| "bus_call ops h Close b = close_bus b"

definition bus_run :: "'s idempotency \<Rightarrow> hash_env \<Rightarrow> 'w bus_operation list \<Rightarrow> ('s, 'w) bus \<Rightarrow> ('s, 'w) bus" where
  "bus_run ops h calls b = fold (bus_call ops h) calls b"

fun is_restore :: "'w bus_operation \<Rightarrow> bool" where
  "is_restore (Restore _ _ _) = True"
| "is_restore _ = False"

lemma completed_in_cong: "completed b' = completed b \<Longrightarrow> completed_in p b' = completed_in p b"
  by (simp add: completed_in_def)

lemma bus_inv_frame:
  assumes "bus_inv h view live b" "bs_store b' = bs_store b" "bs_pending b' = bs_pending b"
    and "bs_max_gap_buffer b' = bs_max_gap_buffer b" "bs_executed b' = bs_executed b"
    and "\<And>p. bs_expected b p \<le> bs_expected b' p"
    and "\<And>p. bs_pending b p \<noteq> [] \<Longrightarrow> bs_expected b' p = bs_expected b p"
  shows "bus_inv h view live b'"
proof -
  have c: "completed b' = completed b" using assms(5) by (simp add: completed_def)
  have pend: "pending_ok h view b" and compl: "completed_ok h view b" and ready: "\<And>p. no_ready p b"
    using assms(1) unfolding bus_inv_def by blast+
  have "pending_ok h view b'"
  proof (rule pending_ok_update [OF pend assms(3,4)])
    fix p n e d
    assume mem: "(n, e, d) \<in> set (bs_pending b p)"
    then have "bs_pending b p \<noteq> []" by auto
    with assms(7) pending_okD(3) [OF pend mem] assms(2)
    show "bs_expected b' p \<le> n \<and> view (bs_store b') (key_of e) = view (bs_store b) (key_of e)" by simp
  qed
  moreover have "completed_ok h view b'"
    using compl assms(2,6) unfolding completed_ok_def c completed_in_cong [OF c]
    by (fastforce intro: less_le_trans)
  moreover have "no_ready p b'" for p
    using ready [of p] assms(3) assms(7) [of p] by (cases "bs_pending b p = []") (simp_all add: no_ready_def)
  ultimately show ?thesis using assms(1,2) unfolding bus_inv_def by simp
qed

context idempotency_store
begin

lemma bus_call_keeps:
  assumes inv: "bus_inv h view live b"
  shows "bus_inv h view live (bus_call ops h call b)
     \<and> (\<not> is_restore call \<longrightarrow> (\<forall>q. advances q b (bus_call ops h call b)))"
proof (cases call)
  case (Publish now e)
  then show ?thesis
    using publish_keeps [OF inv, of now e "fst (publish ops h now e b)" "snd (publish ops h now e b)"]
    by simp
next
  case (Restore t k n)
  have "bus_inv h view live b'" if "restore_partition_cursor t k n b = Inr b'" for b'
    by (rule bus_inv_frame [OF inv])
      (use that in \<open>auto simp: restore_partition_cursor_def split: if_splits\<close>)
  with inv Restore show ?thesis by (simp split: sum.split)
next
  case (Register ev handler)
  have "bus_inv h view live b' \<and> (\<forall>q. advances q b b')" if "register_handler ev handler b = Inr b'" for b'
  proof (intro conjI allI)
    from that have b': "b' = b\<lparr>bs_handlers := (bs_handlers b)(ev := bs_handlers b ev @ [handler])\<rparr>"
      by (auto simp: register_handler_def split: if_splits)
    show "bus_inv h view live b'" by (rule bus_inv_frame [OF inv]) (simp_all add: b')
    show "advances q b b'" for q by (rule advances_refl) (simp_all add: b' completed_def)
  qed
  with inv Register show ?thesis by (simp add: advances_refl split: sum.split)
next
  case Close
  have "bus_inv h view live (close_bus b)"
    by (rule bus_inv_frame [OF inv]) (simp_all add: close_bus_def)
  moreover have "advances q b (close_bus b)" for q
    by (rule advances_refl) (simp_all add: close_bus_def completed_def)
  ultimately show ?thesis using Close by simp
qed

lemma bus_run_keeps:
  assumes "bus_inv h view live b"
  shows "bus_inv h view live (bus_run ops h calls b)
     \<and> (list_all (\<lambda>c. \<not> is_restore c) calls \<longrightarrow> (\<forall>q. advances q b (bus_run ops h calls b)))"
  using assms
proof (induction calls arbitrary: b)
  case Nil
  then show ?case by (simp add: bus_run_def advances_refl)
next
  case (Cons c calls)
  note first = bus_call_keeps [OF Cons.prems, of c]
  then have "bus_inv h view live (bus_call ops h c b)" by blast
  note rest = Cons.IH [OF this]
  have run: "bus_run ops h (c # calls) b = bus_run ops h calls (bus_call ops h c b)"
    by (simp add: bus_run_def)
  have "advances q b (bus_run ops h calls (bus_call ops h c b))"
    if "list_all (\<lambda>c. \<not> is_restore c) (c # calls)" for q
    using advances_trans [of q b "bus_call ops h c b"] first rest that
    by (simp del: split_paired_All)
  with rest show ?case unfolding run by blast
qed

text \<open>Only a restored cursor passes over a sequence that was not completed.\<close>

lemma bus_call_advances:
  assumes "bus_inv h view live b" "\<And>t k n. call = Restore t k n \<Longrightarrow> p \<noteq> (t, k)"
  shows "advances p b (bus_call ops h call b)"
proof (cases "is_restore call")
  case True
  then obtain t k n where "call = Restore t k n" by (cases call) auto
  with assms(2) show ?thesis
    by (intro advances_refl) (auto simp: restore_partition_cursor_def completed_def split: sum.splits if_splits)
qed (use bus_call_keeps [OF assms(1)] in blast)

lemma bus_run_gaps:
  assumes "bus_inv h view live b" "bs_expected b p \<le> n" "n < bs_expected (bus_run ops h calls b) p"
  shows "n \<in> en_sequence ` set (completed_in p (bus_run ops h calls b))
    \<or> (\<exists>pre m post. calls = pre @ Restore (fst p) (snd p) m # post \<and> bs_expected (bus_run ops h pre b) p \<le> n \<and> n < m)"
  using assms(3)
proof (induction calls rule: rev_induct)
  case Nil
  with assms(2) show ?case by (simp add: bus_run_def)
next
  case (snoc c calls)
  let ?b1 = "bus_run ops h calls b" and ?b2 = "bus_run ops h (calls @ [c]) b"
  have b2: "?b2 = bus_call ops h c ?b1" by (simp add: bus_run_def)
  have inv: "bus_inv h view live ?b1" using bus_run_keeps [OF assms(1)] by blast
  let ?skipped = "\<lambda>cs. \<exists>pre m post. cs = pre @ Restore (fst p) (snd p) m # post \<and> bs_expected (bus_run ops h pre b) p \<le> n \<and> n < m"
  have longer: "?skipped (calls @ [c])" if skipped: "?skipped calls"
  proof -
    obtain pre m post where "calls = pre @ Restore (fst p) (snd p) m # post" "bs_expected (bus_run ops h pre b) p \<le> n" "n < m"
      using skipped by blast
    then show ?thesis by (intro exI [of _ pre] exI [of _ m] exI [of _ "post @ [c]"]) simp
  qed
  show ?case
  proof (cases "\<exists>m. c = Restore (fst p) (snd p) m")
    case False
    then have "advances p ?b1 ?b2" unfolding b2 by (intro bus_call_advances [OF inv]) auto
    then have seqs: "en_sequence ` set (completed_in p ?b2)
        = en_sequence ` set (completed_in p ?b1) \<union> {bs_expected ?b1 p .. bs_expected ?b2 p - 1}"
      unfolding advances_def by (metis set_append set_map set_upto)
    show ?thesis
    proof (cases "n < bs_expected ?b1 p")
      case True
      from snoc.IH [OF True] longer show ?thesis unfolding seqs by blast
    qed (use snoc.prems seqs in auto)
  next
    case True
    then obtain m where c: "c = Restore (fst p) (snd p) m" by blast
    have b2': "completed ?b2 = completed ?b1" "bs_expected ?b2 p \<in> {bs_expected ?b1 p, m}"
      unfolding b2 unfolding c by (auto simp: restore_partition_cursor_def completed_def split: sum.splits if_splits)
    show ?thesis
    proof (cases "n < bs_expected ?b1 p")
      case True
      from snoc.IH [OF True] longer show ?thesis unfolding completed_in_cong [OF b2'(1)] by blast
    qed (use snoc.prems b2'(2) c in force)
  qed
qed

lemma new_bus_inv:
  assumes "new_bus store world mws gap fh = Inr b" "live store"
  shows "bus_inv h view live b"
proof -
  from assms(1) have b: "b = \<lparr>bs_store = store, bs_world = world, bs_middleware = mws, bs_max_gap_buffer = gap,
      bs_failure_handler = fh, bs_handlers = (\<lambda>_. []), bs_expected = (\<lambda>_. 0),
      bs_pending = (\<lambda>_. []), bs_closed = False, bs_executed = []\<rparr>" and "\<not> gap < 1"
    by (auto simp: new_bus_def split: if_splits)
  with assms(2) show ?thesis
    by (simp add: bus_inv_def pending_ok_def completed_ok_def completed_def completed_in_def no_ready_def)
qed

text \<open>A completed message is a duplicate however it is delivered again.\<close>

lemma redelivery_duplicate:
  assumes inv: "bus_inv h view live b" and "e \<in> set (completed b)" "\<not> bs_closed b"
    and "assert_not_expired now e = Inr ()"
  shows "publish ops h now (redelivered a t e) b
     = (Inr (dispatch_result_of DS_DUPLICATE e (bs_expected b (partition_of e))), b)"
proof -
  have live: "live (bs_store b)" using inv by (simp add: bus_inv_def)
  have "view (bs_store b) (key_of e) = Some (delivery_digest h e, IS_COMPLETED)"
    using inv assms(2) by (simp add: bus_inv_def completed_ok_def)
  from reserve_old [OF live this, of "delivery_digest h e"] assms(3,4)
  show ?thesis by (simp add: publish_def dispatch_result_of_def assert_not_expired_def)
qed

end

subsection \<open>The bus over its stores\<close>

text \<open>
  C21.  Ordered, exactly-once processing.  However a bus over the in-memory store is used, no
  idempotency key is completed twice; the completed sequences of each partition are strictly rising
  and below its cursor; a sequence below the cursor is completed unless a call that restored the cursor of the
  partition passed over it, so that without restored cursors they are 0, 1, 2, ... without a gap; the buffer
  of a partition stays within its bound and holds messages ahead of the cursor only.
\<close>

theorem bus_in_order_exactly_once:
  assumes "new_bus Map.empty world mws gap fh = Inr b0" "b = bus_run mem_ops h calls b0"
  shows "distinct (map key_of (completed b))
     \<and> (\<forall>p. sorted_wrt (<) (map en_sequence (completed_in p b)))
     \<and> (\<forall>e\<in>set (completed b). en_sequence e < bs_expected b (partition_of e))
     \<and> (list_all (\<lambda>c. \<not> is_restore c) calls \<longrightarrow>
          (\<forall>p. map en_sequence (completed_in p b) = [0 .. bs_expected b p - 1]))
     \<and> (\<forall>p n. 0 \<le> n \<and> n < bs_expected b p \<longrightarrow> n \<in> en_sequence ` set (completed_in p b)
          \<or> (\<exists>pre m post. calls = pre @ Restore (fst p) (snd p) m # post
               \<and> bs_expected (bus_run mem_ops h pre b0) p \<le> n \<and> n < m))
     \<and> (\<forall>p. int (length (bs_pending b p)) \<le> bs_max_gap_buffer b
          \<and> (\<forall>(n, e, d)\<in>set (bs_pending b p). bs_expected b p < n))"
proof (intro conjI impI)
  note start = mem.new_bus_inv [OF assms(1) TrueI, of h]
  note run = mem.bus_run_keeps [OF start, of calls, folded assms(2)]
  then have pend: "pending_ok h mem_view b" and compl: "completed_ok h mem_view b"
    and ready: "\<And>p. no_ready p b" unfolding bus_inv_def by blast+
  from compl show "distinct (map key_of (completed b))"
      "\<forall>p. sorted_wrt (<) (map en_sequence (completed_in p b))"
      "\<forall>e\<in>set (completed b). en_sequence e < bs_expected b (partition_of e)"
    unfolding completed_ok_def by blast+
  show "\<forall>p. map en_sequence (completed_in p b) = [0 .. bs_expected b p - 1]"
    if "list_all (\<lambda>c. \<not> is_restore c) calls"
  proof
    fix p
    have "advances p b0 b" using run that by blast
    moreover have "completed_in p b0 = []" "bs_expected b0 p = 0"
      using assms(1) by (auto simp: new_bus_def completed_in_def completed_def split: if_splits)
    ultimately show "map en_sequence (completed_in p b) = [0 .. bs_expected b p - 1]"
      by (simp add: advances_def)
  qed
  show "\<forall>p n. 0 \<le> n \<and> n < bs_expected b p \<longrightarrow> n \<in> en_sequence ` set (completed_in p b)
      \<or> (\<exists>pre m post. calls = pre @ Restore (fst p) (snd p) m # post \<and> bs_expected (bus_run mem_ops h pre b0) p \<le> n \<and> n < m)"
  proof (intro allI impI, elim conjE)
    fix p n assume n: "0 \<le> n" "n < bs_expected b p"
    have "bs_expected b0 p = 0" using assms(1) by (auto simp: new_bus_def split: if_splits)
    with mem.bus_run_gaps [OF start, of p n calls, folded assms(2)] n
    show "n \<in> en_sequence ` set (completed_in p b)
      \<or> (\<exists>pre m post. calls = pre @ Restore (fst p) (snd p) m # post \<and> bs_expected (bus_run mem_ops h pre b0) p \<le> n \<and> n < m)"
      by simp
  qed
  show "\<forall>p. int (length (bs_pending b p)) \<le> bs_max_gap_buffer b
          \<and> (\<forall>(n, e, d)\<in>set (bs_pending b p). bs_expected b p < n)"
  proof (intro allI conjI ballI)
    fix p x
    show "int (length (bs_pending b p)) \<le> bs_max_gap_buffer b" by (rule pending_okD(2) [OF pend])
    assume "x \<in> set (bs_pending b p)"
    moreover obtain n e d where x: "x = (n, e, d)" by (cases x)
    ultimately have mem: "(n, e, d) \<in> set (bs_pending b p)" by simp
    then have "n \<in> fst ` set (bs_pending b p)" by force
    with pending_okD(3) [OF pend mem] ready [of p] have "bs_expected b p < n"
      unfolding no_ready_def by (metis order_le_less)
    then show "case x of (n, e, d) \<Rightarrow> bs_expected b p < n" by (simp add: x)
  qed
qed

text \<open>
  Every publish is accounted for.  Over the PostgreSQL store, while its leases live, a publish
  keeps the invariants of the bus; its result means what it says (processed now and never before,
  buffered ahead of the cursor, completed earlier, or reserved elsewhere); and a publish that raises
  without having called a handler leaves no reservation, buffer entry or cursor move behind.
\<close>

theorem publish_accounted:
  assumes "bus_inv h (pg_view t) (pg_live c t now) b" "publish (pg_ops c (Some t) now) h now e b = (r, b')"
  shows "bus_inv h (pg_view t) (pg_live c t now) b'
     \<and> (bs_executed b' = bs_executed b \<and> (\<exists>x. r = Inl x) \<longrightarrow> untouched (pg_view t) b b')
     \<and> (case r of Inl _ \<Rightarrow> True | Inr res \<Rightarrow> publish_meaning h (pg_view t) e res b b')"
  using pg.publish_keeps [OF assms] by blast

text \<open>
  Redelivery is harmless.  Once a message has been completed in a run of the bus, every
  later delivery of it, whatever its attempt number and availability time, is reported as a duplicate
  and changes nothing, as long as the bus is open and the message has not expired.
\<close>

theorem redelivery_is_duplicate:
  assumes "new_bus Map.empty world mws gap fh = Inr b0" "b = bus_run mem_ops h calls b0"
    and "e \<in> set (completed b)" "\<not> bs_closed b" "assert_not_expired now e = Inr ()"
  shows "publish mem_ops h now (redelivered attempt available_at e) b
     = (Inr (dispatch_result_of DS_DUPLICATE e (bs_expected b (partition_of e))), b)"
proof -
  have "bus_inv h mem_view (\<lambda>_. True) b"
    unfolding assms(2) using mem.bus_run_keeps mem.new_bus_inv [OF assms(1) TrueI] by blast
  then show ?thesis using assms(3-5) by (rule mem.redelivery_duplicate)
qed

subsection \<open>A concrete bus\<close>

definition sample_envelope :: "int \<Rightarrow> string \<Rightarrow> envelope" where
  "sample_envelope n key =
     \<lparr>en_envelope_id = key, en_event_type = ''demo.event'', en_message_kind = MK_EVENT,
      en_tenant_id = ''tenant-1'', en_session_id = ''s'', en_subject_ref = ''subject'',
      en_correlation_id = ''c'', en_causation_id = None, en_sequence = n, en_partition_key = ''p'',
      en_producer = \<lparr>pm_agent = None, pm_service = ''svc'', pm_instance_id = ''i'', pm_build_version = ''v1''\<rparr>,
      en_delivery = \<lparr>dm_idempotency_key = key, dm_attempt = 1, dm_max_attempts = 3,
                     dm_priority = MP_NORMAL, dm_available_at = 0, dm_expires_at = None\<rparr>,
      en_resource = None, en_trace_id = replicate 16 (CHR ''a''), en_span_id = None, en_created_at = 0,
      en_error = None, en_payload = DObj []\<rparr>"

definition sample_bus_calls :: "unit bus_operation list" where
  "sample_bus_calls = [Register ''demo.event'' (''ok'', \<lambda>_ w. (Inr (), w)),
     Publish 0 (sample_envelope 1 ''key-000000000001''), Publish 0 (sample_envelope 0 ''key-000000000000'')]"

definition sample_bus :: "(memory_store, unit) bus" where
  "sample_bus = projr (new_bus Map.empty () [] 4 None)"

definition sample_pg_bus :: "(idempotency_table, unit) bus" where
  "sample_pg_bus = projr (new_bus Map.empty () [] 4 None)"

lemma sample_bus_result:
  "map en_sequence (completed (bus_run mem_ops sample_hash_env sample_bus_calls sample_bus)) = [0, 1]"
  by code_simp

lemma sample_bus_open:
  "map (\<lambda>e. (en_sequence e, key_of e)) (completed (bus_run mem_ops sample_hash_env sample_bus_calls sample_bus))
     = [(0, ''key-000000000000''), (1, ''key-000000000001'')]
   \<and> \<not> bs_closed (bus_run mem_ops sample_hash_env sample_bus_calls sample_bus)
   \<and> list_all (\<lambda>e. dm_expires_at (en_delivery e) = None)
       (completed (bus_run mem_ops sample_hash_env sample_bus_calls sample_bus))"
  by code_simp

lemma sample_bus_new:
  "new_bus Map.empty () [] 4 None = Inr sample_bus" "new_bus Map.empty () [] 4 None = Inr sample_pg_bus"
  by (simp_all add: sample_bus_def sample_pg_bus_def new_bus_def)

theorem bus_in_order_exactly_once_witness:
  "map en_sequence (completed (bus_run mem_ops sample_hash_env sample_bus_calls sample_bus)) = [0, 1]
     \<and> distinct (map key_of (completed (bus_run mem_ops sample_hash_env sample_bus_calls sample_bus)))"
  using bus_in_order_exactly_once [OF sample_bus_new(1) refl, of sample_hash_env sample_bus_calls]
    sample_bus_result by blast

theorem publish_accounted_witness:
  "bus_inv sample_hash_env (pg_view ''tenant-1'') (pg_live (sample_store ''node-a'') ''tenant-1'' 0)
     (snd (publish (pg_ops (sample_store ''node-a'') (Some ''tenant-1'') 0) sample_hash_env 0
        (sample_envelope 1 ''key-000000000001'') sample_pg_bus))"
proof -
  have "pg_live (sample_store ''node-a'') ''tenant-1'' 0 Map.empty"
    by (simp add: pg_live_def valid_pg_store_def sample_store_def len_between_def)
  from pg.new_bus_inv [OF sample_bus_new(2) this, of sample_hash_env]
  show ?thesis
    using publish_accounted [of sample_hash_env "''tenant-1''" "sample_store ''node-a''" 0 sample_pg_bus
        "sample_envelope 1 ''key-000000000001''"
        "fst (publish (pg_ops (sample_store ''node-a'') (Some ''tenant-1'') 0) sample_hash_env 0
           (sample_envelope 1 ''key-000000000001'') sample_pg_bus)"] by simp
qed

theorem redelivery_is_duplicate_witness:
  "\<exists>e. key_of e = ''key-000000000000''
     \<and> dr_status (projr (fst (publish mem_ops sample_hash_env 60 (redelivered 2 30 e)
           (bus_run mem_ops sample_hash_env sample_bus_calls sample_bus)))) = DS_DUPLICATE"
proof -
  let ?b = "bus_run mem_ops sample_hash_env sample_bus_calls sample_bus"
  note facts = sample_bus_open
  then obtain e where e: "e \<in> set (completed ?b)" "key_of e = ''key-000000000000''"
    by (cases "completed ?b") auto
  have "assert_not_expired 60 e = Inr ()" using facts e(1) by (simp add: assert_not_expired_def list_all_iff)
  moreover have "\<not> bs_closed ?b" using facts by blast
  ultimately show ?thesis
    using redelivery_is_duplicate [OF sample_bus_new(1) refl e(1), of 60 2 30] e(2)
    by (auto simp: dispatch_result_of_def)
qed

end
