(* ===== verification/Outbox.thy ===== *)
theory Outbox
  imports Envelope "HOL-Library.Product_Lexorder"
begin

text \<open>
  The dispatcher's access to the transactional outbox
  (\<^verbatim>\<open>backend/src/liyans/infrastructure/persistence/postgres_outbox_dispatcher.py\<close>, the message record of
  \<^verbatim>\<open>outbox.py\<close>): claiming a batch, marking, releasing and renewing claims, recovery of expired claims
  and the published cursor of a partition.  The table is a list of rows with distinct identifiers; one
  operation is one transaction.  Rows that a concurrent transaction has locked, which
  \<^verbatim>\<open>FOR UPDATE SKIP LOCKED\<close> passes over, are a parameter of the claim.  Clock readings are arguments.
\<close>

subsection \<open>Rows and messages\<close>

datatype outbox_status = OS_PENDING | OS_CLAIMED | OS_PUBLISHED | OS_DEAD

record outbox_row =
  ob_outbox_id :: uuid
  ob_tenant_id :: tenant
  ob_partition_key :: string
  ob_sequence :: int
  ob_envelope :: envelope
  ob_state :: outbox_status
  ob_priority :: string
  ob_attempts :: int
  ob_max_attempts :: int
  ob_available_at :: timestamp
  ob_claimed_by :: "string option"
  ob_claimed_at :: "timestamp option"
  ob_claim_expires_at :: "timestamp option"
  ob_published_at :: "timestamp option"
  ob_last_error_code :: "string option"
  ob_created_at :: timestamp
  ob_updated_at :: timestamp

record outbox_message =
  om_outbox_id :: uuid
  om_tenant_id :: tenant
  om_envelope :: envelope
  om_created_at :: timestamp
  om_available_at :: timestamp
  om_published_at :: "timestamp option"
  om_attempts :: int
  om_max_attempts :: int
  om_claimed_at :: "timestamp option"
  om_claim_expires_at :: "timestamp option"
  om_published_cursor :: "int option"

type_synonym outbox_table = "outbox_row list"

definition row_partition :: "outbox_row \<Rightarrow> tenant \<times> string" where
  "row_partition r = (ob_tenant_id r, ob_partition_key r)"

text \<open>The check and unique constraints of the table that the operations rely on.\<close>

definition valid_row :: "outbox_row \<Rightarrow> bool" where
  "valid_row r \<longleftrightarrow> 0 \<le> ob_sequence r \<and> 0 \<le> ob_attempts r \<and> ob_attempts r \<le> ob_max_attempts r
     \<and> 1 \<le> ob_max_attempts r \<and> ob_max_attempts r \<le> 16
     \<and> (ob_claimed_by r = None \<longleftrightarrow> ob_claimed_at r = None)
     \<and> (ob_claimed_by r = None \<longleftrightarrow> ob_claim_expires_at r = None)
     \<and> (ob_state r = OS_PUBLISHED \<longrightarrow> ob_published_at r \<noteq> None)"

definition valid_outbox :: "outbox_table \<Rightarrow> bool" where
  "valid_outbox tbl \<longleftrightarrow> list_all valid_row tbl \<and> distinct (map ob_outbox_id tbl)
     \<and> distinct (map (\<lambda>r. (row_partition r, ob_sequence r)) tbl)"

record dispatcher_repo =
  or_claim_lease :: int
  or_recovery_interval :: rat
  or_next_recovery_at :: rat
  or_rows :: outbox_table

definition new_dispatcher_repo :: "rat \<Rightarrow> int \<Rightarrow> outbox_table \<Rightarrow> app_error + dispatcher_repo" where
  "new_dispatcher_repo claim_lease_seconds claim_lease rows =
     (if claim_lease_seconds \<le> 0 then Inl (Foreign_error ''claim_lease_seconds must be positive'')
      else Inr \<lparr>or_claim_lease = claim_lease,
                or_recovery_interval = min 1 (max (fl (1 / 10)) (fdiv claim_lease_seconds 2)),
                or_next_recovery_at = 0, or_rows = rows\<rparr>)"

text \<open>\<^verbatim>\<open>UPDATE ... WHERE\<close>: the table and the row count.\<close>

definition update_rows :: "(outbox_row \<Rightarrow> bool) \<Rightarrow> (outbox_row \<Rightarrow> outbox_row) \<Rightarrow> outbox_table \<Rightarrow> nat \<times> outbox_table"
where
  "update_rows cond f tbl = (length (filter cond tbl), map (\<lambda>r. if cond r then f r else r) tbl)"

definition claim_conflict :: app_error where
  "claim_conflict = liyan ''LIYAN-DATABASE-TRANSACTION-STATE'' EC_MESSAGING True 409"

subsection \<open>Recovery and the published cursor\<close>

definition expired_claim :: "timestamp \<Rightarrow> outbox_row \<Rightarrow> bool" where
  "expired_claim now r \<longleftrightarrow> ob_state r = OS_CLAIMED
     \<and> (case ob_claim_expires_at r of None \<Rightarrow> False | Some t \<Rightarrow> t \<le> now)"

definition recover_expired_claims :: "timestamp \<Rightarrow> outbox_table \<Rightarrow> outbox_table" where
  "recover_expired_claims now tbl =
     snd (update_rows (\<lambda>r. expired_claim now r \<and> 0 \<le> ob_attempts r)
       (\<lambda>r. r\<lparr>ob_state := (if ob_max_attempts r \<le> ob_attempts r then OS_DEAD else OS_PENDING),
              ob_claimed_by := None, ob_claimed_at := None, ob_claim_expires_at := None,
              ob_updated_at := now\<rparr>) tbl)"

text \<open>\<^verbatim>\<open>coalesce(max(sequence) + 1, 0)\<close> over the published rows of the partition.\<close>

definition published_cursor :: "tenant \<times> string \<Rightarrow> outbox_table \<Rightarrow> int" where
  "published_cursor p tbl =
     (case map ob_sequence (filter (\<lambda>r. row_partition r = p \<and> ob_state r = OS_PUBLISHED) tbl) of
        [] \<Rightarrow> 0
      | n # ns \<Rightarrow> foldl max n ns + 1)"

definition published_cursor_of :: "tenant \<Rightarrow> string \<Rightarrow> outbox_table \<Rightarrow> app_error + int" where
  "published_cursor_of tenant_id partition_key tbl =
     (if tenant_id = [] \<or> partition_key = []
      then Inl (Foreign_error ''tenant_id and partition_key are required'')
      else Inr (published_cursor (tenant_id, partition_key) tbl))"

subsection \<open>Claiming a batch\<close>

definition validate_claim_request :: "string \<Rightarrow> int \<Rightarrow> app_error + unit" where
  "validate_claim_request worker_id limit =
     (if \<not> len_between 1 128 worker_id
      then Inl (Foreign_error ''worker_id must contain between one and 128 characters'')
      else if \<not> (1 \<le> limit \<and> limit \<le> 1000)
      then Inl (Foreign_error ''outbox claim limit must be between one and 1000'')
      else Inr ())"

definition priority_order :: "string \<Rightarrow> nat" where
  "priority_order p = (if p = ''CRITICAL'' then 0 else if p = ''HIGH'' then 1
     else if p = ''NORMAL'' then 2 else 3)"

definition candidate_key ::
  "outbox_row \<Rightarrow> nat \<times> timestamp \<times> timestamp \<times> string \<times> string \<times> int" where
  "candidate_key r = (priority_order (ob_priority r), ob_available_at r, ob_created_at r,
     ob_tenant_id r, ob_partition_key r, ob_sequence r)"

definition candidate_limit :: "int \<Rightarrow> int" where
  "candidate_limit limit = min 10000 (max limit (limit * 8))"

definition is_candidate :: "timestamp \<Rightarrow> outbox_row \<Rightarrow> bool" where
  "is_candidate now r \<longleftrightarrow> ob_state r = OS_PENDING \<and> ob_available_at r \<le> now
     \<and> ob_attempts r < ob_max_attempts r"

definition candidates :: "(uuid \<Rightarrow> bool) \<Rightarrow> timestamp \<Rightarrow> int \<Rightarrow> outbox_table \<Rightarrow> outbox_row list" where
  "candidates locked now limit tbl =
     take (nat (candidate_limit limit))
       (sort_key candidate_key (filter (\<lambda>r. is_candidate now r \<and> \<not> locked (ob_outbox_id r)) tbl))"

text \<open>The keys of \<^verbatim>\<open>grouped\<close> in the order of their first insertion.\<close>

definition group_keys :: "outbox_row list \<Rightarrow> (tenant \<times> string) list" where
  "group_keys rows = rev (remdups (rev (map row_partition rows)))"

fun contiguous :: "int \<Rightarrow> outbox_row list \<Rightarrow> outbox_row list" where
  "contiguous expected [] = []"
| "contiguous expected (r # rs) =
     (if ob_sequence r < expected then contiguous expected rs
      else if ob_sequence r \<noteq> expected then []
      else r # contiguous (expected + 1) rs)"

definition ready_rows :: "outbox_table \<Rightarrow> outbox_row list \<Rightarrow> tenant \<times> string \<Rightarrow> outbox_row list" where
  "ready_rows tbl cands p =
     contiguous (published_cursor p tbl)
       (sort_key ob_sequence (filter (\<lambda>r. row_partition r = p) cands))"

definition partition_order :: "outbox_row list \<Rightarrow> nat \<times> timestamp \<times> timestamp" where
  "partition_order rows = (priority_order (ob_priority (hd rows)), ob_available_at (hd rows),
     ob_created_at (hd rows))"

definition ready_partitions :: "outbox_table \<Rightarrow> outbox_row list \<Rightarrow> outbox_row list list" where
  "ready_partitions tbl cands =
     sort_key partition_order
       (filter (\<lambda>rows. rows \<noteq> []) (map (ready_rows tbl cands) (group_keys cands)))"

text \<open>One pass of the round robin over the partitions, and the passes until the limit or no progress.\<close>

fun robin_pass :: "nat \<Rightarrow> 'r list \<Rightarrow> 'r list list \<Rightarrow> 'r list \<times> 'r list list" where
  "robin_pass limit rows [] = (rows, [])"
| "robin_pass limit rows (p # ps) =
     (case p of
        x # xs \<Rightarrow>
          if length rows < limit
          then (case robin_pass limit (rows @ [x]) ps of (rows', ps') \<Rightarrow> (rows', xs # ps'))
          else (case robin_pass limit rows ps of (rows', ps') \<Rightarrow> (rows', p # ps'))
      | [] \<Rightarrow> (case robin_pass limit rows ps of (rows', ps') \<Rightarrow> (rows', p # ps')))"

lemma robin_pass_size:
  "robin_pass limit rows ps = (rows', ps') \<Longrightarrow>
     length rows' + sum_list (map length ps') = length rows + sum_list (map length ps)
     \<and> length rows \<le> length rows'"
proof (induction ps arbitrary: rows rows' ps')
  case Nil
  then show ?case by simp
next
  case (Cons p ps)
  then show ?case by (cases p) (fastforce split: prod.splits if_splits)+
qed

lemma robin_progress:
  "robin_pass limit rows ps = (rows', ps') \<Longrightarrow> length rows < limit \<Longrightarrow> length rows' \<noteq> length rows \<Longrightarrow>
     limit - length rows' < limit - length rows"
  using robin_pass_size [of limit rows ps rows' ps'] by linarith

function round_robin :: "nat \<Rightarrow> 'r list \<Rightarrow> 'r list list \<Rightarrow> 'r list" where
  "round_robin limit rows ps =
     (if length rows < limit
      then case robin_pass limit rows ps of
             (rows', ps') \<Rightarrow> if length rows' = length rows then rows' else round_robin limit rows' ps'
      else rows)"
  by pat_completeness auto

termination
proof (relation "measure (\<lambda>(limit, rows, _). limit - length rows)", goal_cases)
  case (2 limit rows ps rows' ps')
  then have "robin_pass limit rows ps = (rows', ps')" by simp
  from robin_progress [OF this 2(1,3)] show ?case by simp
qed simp

declare round_robin.simps [simp del]

definition to_message :: "outbox_row \<Rightarrow> int option \<Rightarrow> outbox_message" where
  "to_message r cursor =
     \<lparr>om_outbox_id = ob_outbox_id r, om_tenant_id = ob_tenant_id r, om_envelope = ob_envelope r,
      om_created_at = ob_created_at r, om_available_at = ob_available_at r,
      om_published_at = ob_published_at r, om_attempts = ob_attempts r,
      om_max_attempts = ob_max_attempts r, om_claimed_at = ob_claimed_at r,
      om_claim_expires_at = ob_claim_expires_at r, om_published_cursor = cursor\<rparr>"

definition claimed :: "string \<Rightarrow> timestamp \<Rightarrow> int \<Rightarrow> outbox_row \<Rightarrow> outbox_row" where
  "claimed worker_id now lease r =
     r\<lparr>ob_state := OS_CLAIMED, ob_claimed_by := Some worker_id, ob_claimed_at := Some now,
       ob_claim_expires_at := Some (now + lease), ob_attempts := ob_attempts r + 1,
       ob_updated_at := now\<rparr>"

text \<open>\<^verbatim>\<open>published_cursors\<close>: the position of a row in its contiguous block.\<close>

definition row_cursors :: "outbox_table \<Rightarrow> outbox_row list \<Rightarrow> uuid \<rightharpoonup> int" where
  "row_cursors tbl cands =
     map_of (concat (map (\<lambda>p. case ready_rows tbl cands p of rows \<Rightarrow>
         map (\<lambda>i. (ob_outbox_id (rows ! i), published_cursor p tbl + int i)) [0..<length rows])
       (group_keys cands)))"

definition selected_rows :: "(uuid \<Rightarrow> bool) \<Rightarrow> timestamp \<Rightarrow> int \<Rightarrow> outbox_table \<Rightarrow> outbox_row list" where
  "selected_rows locked now limit tbl =
     round_robin (nat limit) [] (ready_partitions tbl (candidates locked now limit tbl))"

text \<open>
  \<^verbatim>\<open>claim_batch\<close>; \<open>mono1\<close> and \<open>mono2\<close> are its readings of the monotonic clock.
\<close>

definition claim_batch ::
  "(uuid \<Rightarrow> bool) \<Rightarrow> timestamp \<Rightarrow> rat \<Rightarrow> rat \<Rightarrow> string \<Rightarrow> int \<Rightarrow> dispatcher_repo
     \<Rightarrow> app_error + (outbox_message list \<times> dispatcher_repo)" where
  "claim_batch locked now mono1 mono2 worker_id limit repo =
     rbind (validate_claim_request worker_id limit) (\<lambda>_.
       let repo1 = (if or_next_recovery_at repo \<le> mono1 \<or> list_ex (expired_claim now) (or_rows repo)
                    then repo\<lparr>or_rows := recover_expired_claims now (or_rows repo),
                              or_next_recovery_at := fadd mono2 (or_recovery_interval repo)\<rparr>
                    else repo);
           tbl = or_rows repo1;
           rows = selected_rows locked now limit tbl;
           mark = claimed worker_id now (or_claim_lease repo);
           cursors = row_cursors tbl (candidates locked now limit tbl)
       in Inr (map (\<lambda>r. to_message (mark r) (cursors (ob_outbox_id r))) rows,
               repo1\<lparr>or_rows := snd (update_rows
                 (\<lambda>r. ob_outbox_id r \<in> ob_outbox_id ` set rows) mark tbl)\<rparr>))"

subsection \<open>Settling a claim\<close>

definition owns_claim :: "string \<Rightarrow> outbox_row \<Rightarrow> bool" where
  "owns_claim worker_id r \<longleftrightarrow> ob_state r = OS_CLAIMED \<and> ob_claimed_by r = Some worker_id"

definition mark_published ::
  "uuid \<Rightarrow> string \<Rightarrow> timestamp \<Rightarrow> outbox_table \<Rightarrow> (app_error + unit) \<times> outbox_table" where
  "mark_published outbox_id worker_id published_at tbl =
     (case update_rows (\<lambda>r. ob_outbox_id r = outbox_id \<and> owns_claim worker_id r)
        (\<lambda>r. r\<lparr>ob_state := OS_PUBLISHED, ob_published_at := Some published_at, ob_claimed_by := None,
               ob_claimed_at := None, ob_claim_expires_at := None, ob_last_error_code := None,
               ob_updated_at := published_at\<rparr>) tbl of
        (rowcount, tbl') \<Rightarrow> (if rowcount \<noteq> 1 then Inl claim_conflict else Inr (), tbl'))"

definition released :: "timestamp \<Rightarrow> string option \<Rightarrow> bool \<Rightarrow> timestamp \<Rightarrow> outbox_row \<Rightarrow> outbox_row" where
  "released available_at error_code restore_attempt now r =
     (let r1 = (if restore_attempt then r\<lparr>ob_attempts := max 0 (ob_attempts r - 1)\<rparr> else r)
      in r1\<lparr>ob_state := (if ob_max_attempts r1 \<le> ob_attempts r1 then OS_DEAD else OS_PENDING),
            ob_available_at := available_at, ob_claimed_by := None, ob_claimed_at := None,
            ob_claim_expires_at := None, ob_last_error_code := error_code, ob_updated_at := now\<rparr>)"

definition release_claim ::
  "uuid \<Rightarrow> string \<Rightarrow> timestamp \<Rightarrow> string option \<Rightarrow> bool \<Rightarrow> timestamp \<Rightarrow> outbox_table
     \<Rightarrow> (app_error + unit) \<times> outbox_table" where
  "release_claim outbox_id worker_id available_at error_code restore_attempt now tbl =
     (case update_rows (\<lambda>r. ob_outbox_id r = outbox_id \<and> owns_claim worker_id r)
        (released available_at error_code restore_attempt now) tbl of
        (0, _) \<Rightarrow> (Inl claim_conflict, tbl)
      | (Suc _, tbl') \<Rightarrow> (Inr (), tbl'))"

definition renew_claims ::
  "uuid list \<Rightarrow> string \<Rightarrow> timestamp \<Rightarrow> dispatcher_repo \<Rightarrow> (app_error + timestamp) \<times> dispatcher_repo" where
  "renew_claims outbox_ids worker_id now repo =
     (let unique_ids = remdups outbox_ids; expires = now + or_claim_lease repo
      in if unique_ids = [] \<or> 1000 < length unique_ids
         then (Inl (Foreign_error ''outbox_ids must contain between one and 1000 unique values''), repo)
         else if length unique_ids \<noteq> length outbox_ids
         then (Inl (Foreign_error ''outbox_ids cannot contain duplicates''), repo)
         else if \<not> len_between 1 128 worker_id
         then (Inl (Foreign_error ''worker_id must contain between one and 128 characters''), repo)
         else case update_rows (\<lambda>r. ob_outbox_id r \<in> set unique_ids \<and> owns_claim worker_id r)
                (\<lambda>r. r\<lparr>ob_claim_expires_at := Some expires, ob_updated_at := now\<rparr>) (or_rows repo) of
            (rowcount, tbl') \<Rightarrow>
              (if rowcount \<noteq> length unique_ids then Inl claim_conflict else Inr expires,
               repo\<lparr>or_rows := tbl'\<rparr>))"

definition list_tenant_ids ::
  "string \<Rightarrow> tenant option \<Rightarrow> int \<Rightarrow> outbox_table \<Rightarrow> app_error + tenant list" where
  "list_tenant_ids event_type after_tenant_id limit tbl =
     (if \<not> len_between 1 128 event_type
      then Inl (Foreign_error ''event_type must contain between one and 128 characters'')
      else if \<not> (1 \<le> limit \<and> limit \<le> 1000)
      then Inl (Foreign_error ''tenant catalog limit must be between one and 1000'')
      else Inr (take (nat limit) (sorted_set (map ob_tenant_id (filter
        (\<lambda>r. en_event_type (ob_envelope r) = event_type
           \<and> (case after_tenant_id of None \<Rightarrow> True | Some t \<Rightarrow> t < ob_tenant_id r)) tbl)))))"

subsection \<open>Contiguous blocks and the round robin\<close>

lemma contiguous_set: "set (contiguous n rs) \<subseteq> set rs"
  by (induction n rs rule: contiguous.induct) auto

lemma contiguous_sequences: "map ob_sequence (contiguous n rs) = [n .. n + int (length (contiguous n rs)) - 1]"
  by (induction n rs rule: contiguous.induct) (simp_all add: upto_rec1 algebra_simps)

fun separated :: "('r \<Rightarrow> 'c) \<Rightarrow> 'r list list \<Rightarrow> bool" where
  "separated cls [] = True"
| "separated cls (q # qs) =
     ((\<forall>x\<in>set q. \<forall>y\<in>set q. cls x = cls y) \<and> (\<forall>x\<in>set q. \<forall>y\<in>set (concat qs). cls x \<noteq> cls y)
      \<and> separated cls qs)"

lemma filter_class_empty: "(\<And>y. y \<in> set ys \<Longrightarrow> cls y \<noteq> c) \<Longrightarrow> filter (\<lambda>x. cls x = c) ys = []"
  by (induction ys) auto

lemma robin_pass_prefix:
  assumes "robin_pass limit rows ps = (rows', ps')" "separated cls ps"
  shows "separated cls ps' \<and> set (concat ps') \<subseteq> set (concat ps)
     \<and> (\<exists>new. rows' = rows @ new \<and> set new \<subseteq> set (concat ps)
        \<and> (\<forall>c. filter (\<lambda>x. cls x = c) (concat ps)
             = filter (\<lambda>x. cls x = c) new @ filter (\<lambda>x. cls x = c) (concat ps')))"
  using assms
proof (induction ps arbitrary: rows rows' ps')
  case Nil
  then show ?case by simp
next
  case (Cons q ps)
  have same: "cls x = cls y" if "x \<in> set q" "y \<in> set q" for x y
    using Cons.prems(2) that unfolding separated.simps by blast
  have diff: "cls x \<noteq> cls y" if "x \<in> set q" "y \<in> set (concat ps)" for x y
    using Cons.prems(2) that unfolding separated.simps by blast
  have sep: "separated cls ps" using Cons.prems(2) by simp
  show ?case
  proof (cases "q \<noteq> [] \<and> length rows < limit")
    case True
    then obtain x xs where q: "q = x # xs" by (cases q) auto
    obtain rows1 ps1 where rec: "robin_pass limit (rows @ [x]) ps = (rows1, ps1)" by fastforce
    have res: "rows' = rows1" "ps' = xs # ps1" using Cons.prems(1) True by (auto simp: q rec)
    from Cons.IH [OF rec sep] obtain new where
      IH: "separated cls ps1" "set (concat ps1) \<subseteq> set (concat ps)" "rows1 = (rows @ [x]) @ new"
        "set new \<subseteq> set (concat ps)"
        "\<And>c. filter (\<lambda>x. cls x = c) (concat ps)
           = filter (\<lambda>x. cls x = c) new @ filter (\<lambda>x. cls x = c) (concat ps1)" by blast
    have "filter (\<lambda>x. cls x = c) (concat (q # ps))
        = filter (\<lambda>x. cls x = c) (x # new) @ filter (\<lambda>x. cls x = c) (concat ps')" for c
    proof (cases "cls x = c")
      case True
      then have "filter (\<lambda>x. cls x = c) (concat ps) = []"
        using diff [of x] q by (intro filter_class_empty) force
      with IH(5) [of c] True show ?thesis by (simp add: q res)
    next
      case False
      have "filter (\<lambda>x. cls x = c) xs = []"
      proof (rule filter_class_empty)
        fix y
        assume "y \<in> set xs"
        with same [of x y] False show "cls y \<noteq> c" by (simp add: q)
      qed
      with IH(5) [of c] False show ?thesis by (simp add: q res)
    qed
    moreover have "separated cls ps'"
    proof -
      have "cls y \<noteq> cls z" if "y \<in> set xs" "z \<in> set (concat ps1)" for y z
        using diff [of y z] that IH(2) by (force simp: q)
      moreover have "cls y = cls z" if "y \<in> set xs" "z \<in> set xs" for y z
        using same [of y z] that by (simp add: q)
      ultimately show ?thesis unfolding res separated.simps using IH(1) by blast
    qed
    moreover have "set (concat ps') \<subseteq> set (concat (q # ps))" using IH(2) by (auto simp: res q)
    moreover have "rows' = rows @ x # new" "set (x # new) \<subseteq> set (concat (q # ps))"
      using IH(3,4) by (auto simp: res q)
    ultimately show ?thesis by blast
  next
    case False
    obtain rows1 ps1 where rec: "robin_pass limit rows ps = (rows1, ps1)" by fastforce
    have res: "rows' = rows1" "ps' = q # ps1" using Cons.prems(1) False by (cases q; auto simp: rec)+
    from Cons.IH [OF rec sep] obtain new where
      IH: "separated cls ps1" "set (concat ps1) \<subseteq> set (concat ps)" "rows1 = rows @ new"
        "set new \<subseteq> set (concat ps)"
        "\<And>c. filter (\<lambda>x. cls x = c) (concat ps)
           = filter (\<lambda>x. cls x = c) new @ filter (\<lambda>x. cls x = c) (concat ps1)" by blast
    have "filter (\<lambda>x. cls x = c) (concat (q # ps))
        = filter (\<lambda>x. cls x = c) new @ filter (\<lambda>x. cls x = c) (concat ps')" for c
    proof (cases "filter (\<lambda>x. cls x = c) q = []")
      case True
      with IH(5) [of c] show ?thesis by (simp add: res)
    next
      case False
      then obtain x where x: "x \<in> set q" "cls x = c" by (auto simp: filter_empty_conv)
      then have "filter (\<lambda>x. cls x = c) (concat ps) = []"
        using diff [OF x(1)] by (intro filter_class_empty) force
      with IH(5) [of c] show ?thesis by (simp add: res)
    qed
    moreover have "separated cls ps'"
    proof -
      have "cls y \<noteq> cls z" if "y \<in> set q" "z \<in> set (concat ps1)" for y z
        using diff [of y z] that IH(2) by force
      then show ?thesis unfolding res separated.simps using IH(1) same by blast
    qed
    moreover have "set (concat ps') \<subseteq> set (concat (q # ps))" using IH(2) by (auto simp: res)
    moreover have "rows' = rows @ new" "set new \<subseteq> set (concat (q # ps))"
      using IH(3,4) by (auto simp: res)
    ultimately show ?thesis by blast
  qed
qed

lemma round_robin_prefix:
  assumes "separated cls ps"
  shows "\<exists>new. round_robin limit rows ps = rows @ new \<and> set new \<subseteq> set (concat ps)
     \<and> (\<forall>c. \<exists>rest. filter (\<lambda>x. cls x = c) (concat ps) = filter (\<lambda>x. cls x = c) new @ rest)"
  using assms
proof (induction limit rows ps rule: round_robin.induct)
  case (1 limit rows ps)
  obtain rows1 ps1 where pass: "robin_pass limit rows ps = (rows1, ps1)" by fastforce
  show ?case
  proof (cases "length rows < limit")
    case False
    then show ?thesis by (simp add: round_robin.simps [of limit rows ps])
  next
    case True
    from robin_pass_prefix [OF pass "1.prems"] obtain new where
      P: "separated cls ps1" "set (concat ps1) \<subseteq> set (concat ps)" "rows1 = rows @ new"
        "set new \<subseteq> set (concat ps)"
        "\<And>c. filter (\<lambda>x. cls x = c) (concat ps)
           = filter (\<lambda>x. cls x = c) new @ filter (\<lambda>x. cls x = c) (concat ps1)" by blast
    show ?thesis
    proof (cases "length rows1 = length rows")
      case same: True
      then have "round_robin limit rows ps = rows @ []"
        using P(3) True by (simp add: round_robin.simps [of limit rows ps] pass)
      then show ?thesis by (intro exI [of _ "[]"]) simp
    next
      case False
      from "1.IH" [OF True pass [symmetric] False P(1)] obtain new1 where
        I: "round_robin limit rows1 ps1 = rows1 @ new1" "set new1 \<subseteq> set (concat ps1)"
          "\<And>c. \<exists>rest. filter (\<lambda>x. cls x = c) (concat ps1) = filter (\<lambda>x. cls x = c) new1 @ rest"
        by blast
      have "round_robin limit rows ps = rows @ new @ new1"
        using True False I(1) P(3) by (simp add: round_robin.simps [of limit rows ps] pass)
      moreover have "\<exists>rest. filter (\<lambda>x. cls x = c) (concat ps) = filter (\<lambda>x. cls x = c) (new @ new1) @ rest" for c
        using P(5) [of c] I(3) [of c] by auto
      ultimately show ?thesis using P(2,4) I(2) by (intro exI [of _ "new @ new1"]) auto
    qed
  qed
qed

lemma round_robin_length:
  "length rows \<le> limit \<Longrightarrow> length (round_robin limit rows ps) \<le> limit"
proof (induction limit rows ps rule: round_robin.induct)
  case (1 limit rows ps)
  obtain rows1 ps1 where pass: "robin_pass limit rows ps = (rows1, ps1)" by fastforce
  have "length rows1 \<le> limit" using pass "1.prems"
  proof (induction ps arbitrary: rows ps1)
    case (Cons q ps)
    then show ?case by (cases q) (fastforce split: prod.splits if_splits)+
  qed simp
  with "1.IH" [OF _ pass [symmetric]] "1.prems" show ?case
    by (simp add: round_robin.simps [of limit rows ps] pass)
qed

subsection \<open>What a claim selects\<close>

lemma insort_key_map: "insort_key f (g x) (map g xs) = map g (insort_key (\<lambda>x. f (g x)) x xs)"
  by (induction xs) auto

lemma sort_key_map: "sort_key f (map g xs) = map g (sort_key (\<lambda>x. f (g x)) xs)"
  by (induction xs) (simp_all add: insort_key_map)

lemma group_keys_props: "distinct (group_keys rows)" "set (group_keys rows) = row_partition ` set rows"
  by (simp_all add: group_keys_def)

lemma ready_rows_partition: "r \<in> set (ready_rows tbl cands p) \<Longrightarrow> row_partition r = p \<and> r \<in> set cands"
  using contiguous_set by (fastforce simp: ready_rows_def)

lemma separated_map:
  assumes "\<And>k x. x \<in> set (g k) \<Longrightarrow> cls x = k" "distinct ks"
  shows "separated cls (map g ks)"
    and "filter (\<lambda>x. cls x = k) (concat (map g ks)) = (if k \<in> set ks then g k else [])"
proof -
  show "separated cls (map g ks)"
    using assms(2) assms(1) by (induction ks) (simp_all, metis)
  show "filter (\<lambda>x. cls x = k) (concat (map g ks)) = (if k \<in> set ks then g k else [])"
    using assms(2)
  proof (induction ks)
    case (Cons k' ks)
    have "filter (\<lambda>x. cls x = k) (g k') = (if k = k' then g k' else [])"
      using assms(1) by (auto simp: filter_id_conv filter_empty_conv)
    with Cons show ?case by auto
  qed simp
qed

lemma selected_rows_props:
  shows "set (selected_rows locked now limit tbl) \<subseteq> set (candidates locked now limit tbl)"
    and "\<exists>rest. ready_rows tbl (candidates locked now limit tbl) p
       = filter (\<lambda>r. row_partition r = p) (selected_rows locked now limit tbl) @ rest"
    and "length (selected_rows locked now limit tbl) \<le> nat limit"
proof -
  let ?c = "candidates locked now limit tbl"
  let ?g = "ready_rows tbl ?c"
  define ks where "ks = sort_key (\<lambda>p. partition_order (?g p)) (filter (\<lambda>p. ?g p \<noteq> []) (group_keys ?c))"
  have ready: "ready_partitions tbl ?c = map ?g ks"
    by (simp add: ready_partitions_def ks_def sort_key_map filter_map comp_def)
  have ks: "distinct ks" "set ks = {p \<in> row_partition ` set ?c. ?g p \<noteq> []}"
    by (simp_all add: ks_def group_keys_props)
  have cls: "row_partition r = k" if "r \<in> set (?g k)" for r k using ready_rows_partition [OF that] ..
  have sep: "separated row_partition (ready_partitions tbl ?c)"
    unfolding ready by (rule separated_map(1) [OF cls ks(1)])
  from round_robin_prefix [OF sep, of "nat limit" "[]"] obtain new where
    new: "selected_rows locked now limit tbl = new" "set new \<subseteq> set (concat (ready_partitions tbl ?c))"
      "\<And>p. \<exists>rest. filter (\<lambda>r. row_partition r = p) (concat (ready_partitions tbl ?c))
         = filter (\<lambda>r. row_partition r = p) new @ rest"
    by (auto simp: selected_rows_def)
  have "set (concat (ready_partitions tbl ?c)) \<subseteq> set ?c"
    by (auto simp: ready dest: ready_rows_partition)
  with new(1,2) show "set (selected_rows locked now limit tbl) \<subseteq> set ?c" by blast
  have "?g p = (if p \<in> set ks then ?g p else [])"
  proof (cases "?g p = []")
    case False
    then obtain r where r: "r \<in> set (?g p)" by (cases "?g p") auto
    from ready_rows_partition [OF r] have "p \<in> row_partition ` set ?c" by blast
    with False show ?thesis by (simp add: ks)
  qed simp
  moreover have "filter (\<lambda>r. row_partition r = p) (concat (ready_partitions tbl ?c))
      = (if p \<in> set ks then ?g p else [])"
    unfolding ready by (rule separated_map(2) [OF cls ks(1)])
  ultimately have "filter (\<lambda>r. row_partition r = p) (concat (ready_partitions tbl ?c)) = ?g p" by simp
  with new(3) [of p] show "\<exists>rest. ?g p
       = filter (\<lambda>r. row_partition r = p) (selected_rows locked now limit tbl) @ rest"
    by (simp add: new(1))
  show "length (selected_rows locked now limit tbl) \<le> nat limit"
    unfolding selected_rows_def by (rule round_robin_length) simp
qed

lemma candidates_props:
  "r \<in> set (candidates locked now limit tbl) \<Longrightarrow>
     r \<in> set tbl \<and> is_candidate now r \<and> \<not> locked (ob_outbox_id r)"
  unfolding candidates_def by (auto dest!: in_set_takeD)

text \<open>The selected rows of a partition continue its published prefix without a gap.\<close>

lemma selected_sequences:
  "map ob_sequence (filter (\<lambda>r. row_partition r = p) (selected_rows locked now limit tbl))
     = [published_cursor p tbl .. published_cursor p tbl
          + int (length (filter (\<lambda>r. row_partition r = p) (selected_rows locked now limit tbl))) - 1]"
proof -
  let ?s = "filter (\<lambda>r. row_partition r = p) (selected_rows locked now limit tbl)"
  let ?c = "published_cursor p tbl"
  obtain rest where rest: "ready_rows tbl (candidates locked now limit tbl) p = ?s @ rest"
    using selected_rows_props(2) by blast
  have "map ob_sequence (?s @ rest) = [?c .. ?c + int (length (?s @ rest)) - 1]"
    using contiguous_sequences [of ?c] rest unfolding ready_rows_def by metis
  then have "map ob_sequence ?s @ map ob_sequence rest
      = [?c .. ?c + int (length ?s) - 1] @ [?c + int (length ?s) .. ?c + int (length (?s @ rest)) - 1]"
    by (cases "rest = []") (simp_all add: upto_split1 [of ?c "?c + int (length ?s)"])
  then show ?thesis by (simp add: append_eq_append_conv)
qed

subsection \<open>Rows by identifier\<close>

lemma recover_no_expired:
  "\<not> list_ex (expired_claim now) tbl \<Longrightarrow> recover_expired_claims now tbl = tbl"
  by (auto simp: recover_expired_claims_def update_rows_def list_ex_iff intro!: map_idI)

lemma published_cursor_map:
  assumes "\<And>r. r \<in> set tbl \<Longrightarrow> row_partition (f r) = row_partition r \<and> ob_sequence (f r) = ob_sequence r
     \<and> (ob_state (f r) = OS_PUBLISHED \<longleftrightarrow> ob_state r = OS_PUBLISHED)"
  shows "published_cursor p (map f tbl) = published_cursor p tbl"
proof -
  have "map ob_sequence (filter (\<lambda>r. row_partition r = p \<and> ob_state r = OS_PUBLISHED) (map f tbl))
     = map ob_sequence (filter (\<lambda>r. row_partition r = p \<and> ob_state r = OS_PUBLISHED) tbl)"
    using assms by (induction tbl) auto
  then show ?thesis by (simp add: published_cursor_def)
qed

lemma published_cursor_recover: "published_cursor p (recover_expired_claims now tbl) = published_cursor p tbl"
  unfolding recover_expired_claims_def update_rows_def snd_conv
  by (rule published_cursor_map) (auto simp: row_partition_def expired_claim_def)

lemma recover_fields:
  "map ob_outbox_id (recover_expired_claims now tbl) = map ob_outbox_id tbl"
  "map (\<lambda>r. (row_partition r, ob_sequence r)) (recover_expired_claims now tbl)
     = map (\<lambda>r. (row_partition r, ob_sequence r)) tbl"
  by (simp_all add: recover_expired_claims_def update_rows_def row_partition_def)

lemma recover_valid: "valid_outbox tbl \<Longrightarrow> valid_outbox (recover_expired_claims now tbl)"
  unfolding valid_outbox_def recover_fields
  by (auto simp: recover_expired_claims_def update_rows_def list_all_iff valid_row_def expired_claim_def
      split: if_splits)

lemma valid_outbox_inj:
  assumes "valid_outbox tbl" "r \<in> set tbl" "r' \<in> set tbl"
  shows "ob_outbox_id r = ob_outbox_id r' \<Longrightarrow> r = r'"
    and "row_partition r = row_partition r' \<Longrightarrow> ob_sequence r = ob_sequence r' \<Longrightarrow> r = r'"
  using assms by (auto simp: valid_outbox_def distinct_map inj_on_def)

text \<open>The repository after the recovery step of \<^verbatim>\<open>claim_batch\<close>.\<close>

lemma claim_batch_parts:
  assumes "claim_batch locked now mono1 mono2 w limit repo = Inr (msgs, repo')"
  shows "let tbl = recover_expired_claims now (or_rows repo); rows = selected_rows locked now limit tbl;
      mark = claimed w now (or_claim_lease repo)
    in validate_claim_request w limit = Inr ()
     \<and> msgs = map (\<lambda>r. to_message (mark r)
          (row_cursors tbl (candidates locked now limit tbl) (ob_outbox_id r))) rows
     \<and> or_rows repo' = map (\<lambda>r. if ob_outbox_id r \<in> ob_outbox_id ` set rows then mark r else r) tbl
     \<and> or_claim_lease repo' = or_claim_lease repo"
  using assms recover_no_expired [of now "or_rows repo"]
  by (auto simp: claim_batch_def Let_def rbind_Inr_iff update_rows_def split: if_splits)

lemma ready_rows_sequences:
  "map ob_sequence (ready_rows tbl cands p)
     = [published_cursor p tbl .. published_cursor p tbl + int (length (ready_rows tbl cands p)) - 1]"
  unfolding ready_rows_def by (rule contiguous_sequences)

lemma row_cursors_sequence:
  assumes valid: "valid_outbox tbl" and r: "r \<in> set (selected_rows locked now limit tbl)"
  shows "row_cursors tbl (candidates locked now limit tbl) (ob_outbox_id r) = Some (ob_sequence r)"
proof -
  let ?c = "candidates locked now limit tbl"
  let ?all = "concat (map (ready_rows tbl ?c) (group_keys ?c))"
  have "map (\<lambda>i. (ob_outbox_id (rows ! i), published_cursor p tbl + int i)) [0..<length rows]
      = map (\<lambda>r. (ob_outbox_id r, ob_sequence r)) rows" if rows: "rows = ready_rows tbl ?c p" for p rows
  proof (rule nth_equalityI)
    fix i
    assume "i < length (map (\<lambda>i. (ob_outbox_id (rows ! i), published_cursor p tbl + int i)) [0..<length rows])"
    then have i: "i < length rows" by simp
    have "map ob_sequence rows ! i = published_cursor p tbl + int i"
      unfolding rows ready_rows_sequences using i rows by (subst nth_upto) auto
    with i show "map (\<lambda>i. (ob_outbox_id (rows ! i), published_cursor p tbl + int i)) [0..<length rows] ! i
        = map (\<lambda>r. (ob_outbox_id r, ob_sequence r)) rows ! i" by simp
  qed simp
  then have cursors: "row_cursors tbl ?c = map_of (map (\<lambda>r. (ob_outbox_id r, ob_sequence r)) ?all)"
    by (simp add: row_cursors_def map_concat comp_def)
  have "r \<in> set (filter (\<lambda>x. row_partition x = row_partition r) (selected_rows locked now limit tbl))"
    using r by simp
  with selected_rows_props(2) [of tbl locked now limit "row_partition r"]
  have mem: "r \<in> set (ready_rows tbl ?c (row_partition r))" by auto
  with ready_rows_partition [OF mem] have all: "r \<in> set ?all" by (auto simp: group_keys_props)
  then have "(ob_outbox_id r, ob_sequence r) \<in> set (map (\<lambda>r. (ob_outbox_id r, ob_sequence r)) ?all)"
    unfolding set_map by (rule imageI)
  from weak_map_of_SomeI [OF this] obtain v where v: "row_cursors tbl ?c (ob_outbox_id r) = Some v"
    unfolding cursors by blast
  from map_of_SomeD [OF v [unfolded cursors]]
  have "(ob_outbox_id r, v) \<in> (\<lambda>r. (ob_outbox_id r, ob_sequence r)) ` set ?all" unfolding set_map .
  then obtain r' where r': "(ob_outbox_id r, v) = (ob_outbox_id r', ob_sequence r')" "r' \<in> set ?all" by (rule imageE)
  have sub: "set ?all \<subseteq> set tbl"
  proof
    fix x
    assume "x \<in> set ?all"
    then obtain p where "x \<in> set (ready_rows tbl ?c p)" unfolding set_concat set_map by blast
    with ready_rows_partition candidates_props show "x \<in> set tbl" by blast
  qed
  from r'(2) all sub have "r' \<in> set tbl" "r \<in> set tbl" by blast+
  from valid_outbox_inj(1) [OF valid this] r'(1) have "r' = r" by simp
  with v r'(1) show ?thesis by simp
qed

lemma distinct_by_class:
  "(\<And>c. distinct (map g (filter (\<lambda>x. cls x = c) xs))) \<Longrightarrow> distinct xs"
proof (induction xs)
  case (Cons x xs)
  have "distinct (map g (filter (\<lambda>y. cls y = c) xs))" for c
    using Cons.prems [of c] by (auto split: if_splits)
  moreover have "x \<notin> set xs" using Cons.prems [of "cls x"] by auto
  ultimately show ?case using Cons.IH by simp
qed simp

lemma claim_batch_spec:
  assumes valid: "valid_outbox (or_rows repo)"
    and claim: "claim_batch locked now mono1 mono2 w limit repo = Inr (msgs, repo')"
  shows "\<exists>rows. set rows \<subseteq> set (recover_expired_claims now (or_rows repo)) \<and> distinct rows
     \<and> list_all (\<lambda>r. is_candidate now r \<and> \<not> locked (ob_outbox_id r)) rows \<and> int (length rows) \<le> limit
     \<and> (\<forall>p. \<exists>n. map ob_sequence (filter (\<lambda>r. row_partition r = p) rows)
          = [published_cursor p (or_rows repo) .. published_cursor p (or_rows repo) + int n - 1])
     \<and> msgs = map (\<lambda>r. to_message (claimed w now (or_claim_lease repo) r) (Some (ob_sequence r))) rows
     \<and> or_rows repo' = map (\<lambda>r. if r \<in> set rows then claimed w now (or_claim_lease repo) r else r)
         (recover_expired_claims now (or_rows repo))"
proof -
  define tbl where "tbl = recover_expired_claims now (or_rows repo)"
  define rows where "rows = selected_rows locked now limit tbl"
  note parts = claim_batch_parts [OF claim, unfolded Let_def, folded tbl_def, folded rows_def]
  have valid': "valid_outbox tbl" unfolding tbl_def by (rule recover_valid [OF valid])
  have cands: "set rows \<subseteq> set (candidates locked now limit tbl)"
    unfolding rows_def by (rule selected_rows_props)
  then have sub: "set rows \<subseteq> set tbl"
    and ok: "list_all (\<lambda>r. is_candidate now r \<and> \<not> locked (ob_outbox_id r)) rows"
    using candidates_props by (fastforce simp: list_all_iff)+
  have seqs: "\<exists>n. map ob_sequence (filter (\<lambda>r. row_partition r = p) rows)
          = [published_cursor p (or_rows repo) .. published_cursor p (or_rows repo) + int n - 1]" for p
  proof -
    have "published_cursor p tbl = published_cursor p (or_rows repo)"
      by (simp add: tbl_def published_cursor_recover)
    with selected_sequences [of p locked now limit tbl, folded rows_def] show ?thesis
      by (intro exI) simp
  qed
  have dist: "distinct rows"
    by (rule distinct_by_class [of ob_sequence row_partition]) (metis distinct_upto seqs)
  have "int (length rows) \<le> limit"
    using selected_rows_props(3) [of locked now limit tbl] parts
    by (auto simp: rows_def validate_claim_request_def split: if_splits)
  moreover have "msgs = map (\<lambda>r. to_message (claimed w now (or_claim_lease repo) r) (Some (ob_sequence r))) rows"
    using parts row_cursors_sequence [OF valid'] by (auto simp: rows_def)
  moreover have "ob_outbox_id r \<in> ob_outbox_id ` set rows \<longleftrightarrow> r \<in> set rows" if "r \<in> set tbl" for r
    using valid_outbox_inj(1) [OF valid' that] sub by auto
  then have "or_rows repo' = map (\<lambda>r. if r \<in> set rows then claimed w now (or_claim_lease repo) r else r) tbl"
    using parts by simp
  ultimately show ?thesis using sub dist ok seqs unfolding tbl_def by blast
qed

text \<open>
  C23.  Claims respect the order of partitions.  A claimed batch holds at most \<open>limit\<close> distinct
  rows, each pending, due, within its attempt budget and not locked; in every partition they are
  exactly the next sequences after the published ones, in order and without a gap; each becomes
  claimed by the worker with one more attempt, its message carries the cursor at which it will be
  published, and no other row changes except for the recovery of expired claims.
\<close>

theorem claim_batch_contiguous:
  assumes "valid_outbox (or_rows repo)"
    and "claim_batch locked now mono1 mono2 w limit repo = Inr (msgs, repo')"
  shows "\<exists>rows. set rows \<subseteq> set (recover_expired_claims now (or_rows repo)) \<and> distinct rows
     \<and> list_all (\<lambda>r. is_candidate now r \<and> \<not> locked (ob_outbox_id r)) rows \<and> int (length rows) \<le> limit
     \<and> (\<forall>p. \<exists>n. map ob_sequence (filter (\<lambda>r. row_partition r = p) rows)
          = [published_cursor p (or_rows repo) .. published_cursor p (or_rows repo) + int n - 1])
     \<and> msgs = map (\<lambda>r. to_message (claimed w now (or_claim_lease repo) r) (Some (ob_sequence r))) rows
     \<and> or_rows repo' = map (\<lambda>r. if r \<in> set rows then claimed w now (or_claim_lease repo) r else r)
         (recover_expired_claims now (or_rows repo))"
  using assms by (rule claim_batch_spec)

subsection \<open>A blocked backlog\<close>

lemma contiguous_none: "(\<And>r. r \<in> set rs \<Longrightarrow> ob_sequence r \<noteq> n) \<Longrightarrow> contiguous n rs = []"
  by (induction n rs rule: contiguous.induct) auto

lemma take_sorted_low:
  assumes low: "\<And>x y. x \<in> set xs \<Longrightarrow> y \<in> set xs \<Longrightarrow> P x \<Longrightarrow> \<not> P y \<Longrightarrow> f x < (f y :: 'k :: linorder)"
    and n: "n \<le> length (filter P xs)" and mem: "x \<in> set (take n (sort_key f xs))"
  shows "P x"
proof (rule ccontr)
  let ?l = "sort_key f xs"
  assume not: "\<not> P x"
  from mem obtain i where i: "i < n" "i < length ?l" "x = ?l ! i"
    by (auto simp: in_set_conv_nth)
  have sorted: "sorted (map f ?l)" by simp
  have "\<not> P y" if y: "y \<in> set (drop i ?l)" for y
  proof
    assume "P y"
    obtain j where j: "j < length (drop i ?l)" "y = ?l ! (i + j)" using y by (auto simp: in_set_conv_nth)
    have "f x \<le> f y"
      using sorted_nth_mono [OF sorted, of i "i + j"] i j by simp
    moreover have "y \<in> set xs" "x \<in> set xs"
      using y mem by (metis in_set_dropD in_set_takeD set_sort)+
    then have "f y < f x" using low \<open>P y\<close> not by blast
    ultimately show False by simp
  qed
  then have "filter P (drop i ?l) = []" by (simp add: filter_empty_conv)
  then have "filter P ?l = filter P (take i ?l)"
    by (metis append_Nil2 append_take_drop_id filter_append)
  then have "length (filter P ?l) \<le> i" by (metis i(2) length_filter_le length_take min.absorb4)
  moreover have "length (filter P ?l) = length (filter P xs)"
    by (simp add: filter_sort)
  ultimately show False using n i by simp
qed

text \<open>A partition whose next message is dead is never claimed from again.\<close>

lemma ready_rows_dead:
  assumes "valid_outbox tbl" "dead \<in> set tbl" "ob_state dead = OS_DEAD"
    and "ob_sequence dead = published_cursor (row_partition dead) tbl"
  shows "ready_rows tbl (candidates locked now limit tbl) (row_partition dead) = []"
  unfolding ready_rows_def
proof (rule contiguous_none)
  fix r
  assume r: "r \<in> set (sort_key ob_sequence (filter (\<lambda>r. row_partition r = row_partition dead)
      (candidates locked now limit tbl)))"
  then have "r \<in> set tbl" "is_candidate now r" "row_partition r = row_partition dead"
    using candidates_props by auto
  then show "ob_sequence r \<noteq> published_cursor (row_partition dead) tbl"
    using valid_outbox_inj(2) [OF assms(1) _ assms(2)] assms(3,4) by (force simp: is_candidate_def)
qed

text \<open>
  C25.  One dead message can stop the whole dispatcher.  When the next message of a partition is
  dead and that partition has as many pending, due rows as a claim looks at, all of which sort
  before the pending rows of the other partitions, then every claim comes back empty, although
  messages of other partitions and tenants are ready.
\<close>

theorem blocked_backlog_starves_dispatch:
  assumes "valid_outbox (or_rows repo)" "validate_claim_request w limit = Inr ()"
    and "tbl = recover_expired_claims now (or_rows repo)"
    and "dead \<in> set tbl" "ob_state dead = OS_DEAD"
    and "ob_sequence dead = published_cursor (row_partition dead) tbl"
    and "backlog = filter (\<lambda>r. is_candidate now r \<and> \<not> locked (ob_outbox_id r)
           \<and> row_partition r = row_partition dead) tbl"
    and "candidate_limit limit \<le> int (length backlog)"
    and "\<forall>b\<in>set backlog. \<forall>r\<in>set tbl. is_candidate now r \<and> row_partition r \<noteq> row_partition dead
           \<longrightarrow> candidate_key b < candidate_key r"
  shows "\<exists>repo'. claim_batch locked now mono1 mono2 w limit repo = Inr ([], repo')"
proof -
  let ?c = "candidates locked now limit tbl"
  let ?elig = "filter (\<lambda>r. is_candidate now r \<and> \<not> locked (ob_outbox_id r)) tbl"
  have valid: "valid_outbox tbl" unfolding assms(3) by (rule recover_valid [OF assms(1)])
  have backlog: "backlog = filter (\<lambda>r. row_partition r = row_partition dead) ?elig"
    unfolding assms(7) filter_filter by (rule filter_cong) auto
  have all: "row_partition r = row_partition dead" if "r \<in> set ?c" for r
  proof (rule take_sorted_low [where P = "\<lambda>r. row_partition r = row_partition dead" and f = candidate_key
        and xs = ?elig and n = "nat (candidate_limit limit)" and x = r])
    show "nat (candidate_limit limit) \<le> length (filter (\<lambda>r. row_partition r = row_partition dead) ?elig)"
      using assms(8) by (simp add: backlog)
    show "r \<in> set (take (nat (candidate_limit limit)) (sort_key candidate_key ?elig))"
      using that by (simp add: candidates_def)
  qed (use assms(9) in \<open>simp add: backlog\<close>)
  have "filter (\<lambda>rows. rows \<noteq> []) (map (ready_rows tbl ?c) (group_keys ?c)) = []"
    using ready_rows_dead [OF valid assms(4-6)] all
    by (auto simp: filter_empty_conv group_keys_props)
  then have "selected_rows locked now limit tbl = []"
    by (simp add: selected_rows_def ready_partitions_def round_robin.simps)
  then show ?thesis
    using assms(2) recover_no_expired [of now "or_rows repo"]
    by (auto simp: claim_batch_def Let_def assms(3))
qed

subsection \<open>Protected rows\<close>

datatype outbox_operation =
    Claim_batch "uuid \<Rightarrow> bool" timestamp rat rat string int
  | Mark_published uuid string timestamp
  | Release_claim uuid string timestamp "string option" bool timestamp
  | Renew_claims "uuid list" string timestamp

fun outbox_call :: "outbox_operation \<Rightarrow> dispatcher_repo \<Rightarrow> dispatcher_repo" where
  "outbox_call (Claim_batch locked now mono1 mono2 w limit) repo =
     (case claim_batch locked now mono1 mono2 w limit repo of Inl _ \<Rightarrow> repo | Inr (_, repo') \<Rightarrow> repo')"
| "outbox_call (Mark_published i w t) repo = repo\<lparr>or_rows := snd (mark_published i w t (or_rows repo))\<rparr>"
| "outbox_call (Release_claim i w t err restore now) repo =
     repo\<lparr>or_rows := snd (release_claim i w t err restore now (or_rows repo))\<rparr>"
| "outbox_call (Renew_claims ids w now) repo = snd (renew_claims ids w now repo)"

text \<open>Published and dead rows, and live claims of another worker.\<close>

fun foreign_to :: "outbox_row \<Rightarrow> outbox_operation \<Rightarrow> bool" where
  "foreign_to r (Claim_batch _ now _ _ _ _) = (\<exists>l. ob_claim_expires_at r = Some l \<and> now < l)"
| "foreign_to r (Mark_published _ w _) = (ob_claimed_by r \<noteq> Some w)"
| "foreign_to r (Release_claim _ w _ _ _ _) = (ob_claimed_by r \<noteq> Some w)"
| "foreign_to r (Renew_claims _ w _) = (ob_claimed_by r \<noteq> Some w)"

definition protected_from :: "outbox_row \<Rightarrow> outbox_operation \<Rightarrow> bool" where
  "protected_from r c \<longleftrightarrow> ob_state r = OS_PUBLISHED \<or> ob_state r = OS_DEAD
     \<or> ob_state r = OS_CLAIMED \<and> foreign_to r c"

text \<open>An update that keeps keys and validity and leaves the protected rows alone.\<close>

definition row_update :: "(outbox_row \<Rightarrow> bool) \<Rightarrow> outbox_table \<Rightarrow> outbox_table \<Rightarrow> bool" where
  "row_update keep tbl tbl' \<longleftrightarrow> (\<exists>g. tbl' = map g tbl
     \<and> (\<forall>r\<in>set tbl. ob_outbox_id (g r) = ob_outbox_id r \<and> row_partition (g r) = row_partition r
          \<and> ob_sequence (g r) = ob_sequence r \<and> ob_envelope (g r) = ob_envelope r \<and> (valid_row r \<longrightarrow> valid_row (g r)) \<and> (keep r \<longrightarrow> g r = r)))"

lemma row_update_refl: "row_update keep tbl tbl"
  unfolding row_update_def by (rule exI [of _ id]) simp

lemma row_update_map:
  assumes "\<And>r. r \<in> set tbl \<Longrightarrow> cond r \<Longrightarrow> ob_outbox_id (f r) = ob_outbox_id r
      \<and> row_partition (f r) = row_partition r \<and> ob_sequence (f r) = ob_sequence r
      \<and> ob_envelope (f r) = ob_envelope r \<and> (valid_row r \<longrightarrow> valid_row (f r)) \<and> \<not> keep r"
  shows "row_update keep tbl (map (\<lambda>r. if cond r then f r else r) tbl)"
  unfolding row_update_def
  by (rule exI [of _ "\<lambda>r. if cond r then f r else r"]) (use assms in auto)

lemma row_update_trans:
  assumes "row_update keep tbl1 tbl2" "row_update keep tbl2 tbl3"
  shows "row_update keep tbl1 tbl3"
proof -
  from assms(1) obtain g where g: "tbl2 = map g tbl1" "\<forall>r\<in>set tbl1. ob_outbox_id (g r) = ob_outbox_id r
      \<and> row_partition (g r) = row_partition r \<and> ob_sequence (g r) = ob_sequence r
      \<and> ob_envelope (g r) = ob_envelope r \<and> (valid_row r \<longrightarrow> valid_row (g r)) \<and> (keep r \<longrightarrow> g r = r)" unfolding row_update_def by blast
  from assms(2) obtain k where k: "tbl3 = map k tbl2" "\<forall>r\<in>set tbl2. ob_outbox_id (k r) = ob_outbox_id r
      \<and> row_partition (k r) = row_partition r \<and> ob_sequence (k r) = ob_sequence r
      \<and> ob_envelope (k r) = ob_envelope r \<and> (valid_row r \<longrightarrow> valid_row (k r)) \<and> (keep r \<longrightarrow> k r = r)" unfolding row_update_def by blast
  show ?thesis unfolding row_update_def by (rule exI [of _ "k \<circ> g"]) (use g k in auto)
qed

lemma row_update_valid:
  assumes "row_update keep tbl tbl'" "valid_outbox tbl"
  shows "valid_outbox tbl'" "r \<in> set tbl \<Longrightarrow> keep r \<Longrightarrow> r \<in> set tbl'"
proof -
  from assms(1) obtain g where g: "tbl' = map g tbl" "\<forall>r\<in>set tbl. ob_outbox_id (g r) = ob_outbox_id r
      \<and> row_partition (g r) = row_partition r \<and> ob_sequence (g r) = ob_sequence r
      \<and> ob_envelope (g r) = ob_envelope r \<and> (valid_row r \<longrightarrow> valid_row (g r)) \<and> (keep r \<longrightarrow> g r = r)" unfolding row_update_def by blast
  have "map ob_outbox_id tbl' = map ob_outbox_id tbl"
    "map (\<lambda>r. (row_partition r, ob_sequence r)) tbl' = map (\<lambda>r. (row_partition r, ob_sequence r)) tbl"
    using g by simp_all
  moreover have "list_all valid_row tbl'"
    using assms(2) g by (auto simp: valid_outbox_def list_all_iff)
  ultimately show "valid_outbox tbl'"
    using assms(2) unfolding valid_outbox_def by simp
  show "r \<in> set tbl'" if "r \<in> set tbl" "keep r" using that g by force
qed

lemma outbox_call_update:
  assumes valid: "valid_outbox (or_rows repo)"
  shows "row_update (\<lambda>r. protected_from r c) (or_rows repo) (or_rows (outbox_call c repo))"
proof (cases c)
  case (Claim_batch locked now mono1 mono2 w limit)
  let ?rec = "recover_expired_claims now (or_rows repo)"
  have rec: "row_update (\<lambda>r. protected_from r c) (or_rows repo) ?rec"
    unfolding recover_expired_claims_def update_rows_def snd_conv
    by (rule row_update_map)
      (auto simp: Claim_batch protected_from_def expired_claim_def valid_row_def row_partition_def)
  show ?thesis
  proof (cases "claim_batch locked now mono1 mono2 w limit repo")
    case (Inl err)
    then show ?thesis by (simp add: Claim_batch row_update_refl)
  next
    case (Inr res)
    obtain msgs repo' where res: "res = (msgs, repo')" by fastforce
    from claim_batch_spec [OF valid Inr [unfolded res]] obtain rows where
      rows: "set rows \<subseteq> set ?rec" "list_all (\<lambda>r. is_candidate now r \<and> \<not> locked (ob_outbox_id r)) rows"
        "or_rows repo' = map (\<lambda>r. if r \<in> set rows then claimed w now (or_claim_lease repo) r else r) ?rec"
      by blast
    have "row_update (\<lambda>r. protected_from r c) ?rec (or_rows repo')"
      unfolding rows(3)
    proof (rule row_update_map)
      fix r
      assume "r \<in> set rows"
      then have "is_candidate now r" using rows(2) by (simp add: list_all_iff)
      then show "ob_outbox_id (claimed w now (or_claim_lease repo) r) = ob_outbox_id r
          \<and> row_partition (claimed w now (or_claim_lease repo) r) = row_partition r
          \<and> ob_sequence (claimed w now (or_claim_lease repo) r) = ob_sequence r
          \<and> ob_envelope (claimed w now (or_claim_lease repo) r) = ob_envelope r
          \<and> (valid_row r \<longrightarrow> valid_row (claimed w now (or_claim_lease repo) r)) \<and> \<not> protected_from r c"
        by (auto simp: is_candidate_def claimed_def valid_row_def protected_from_def row_partition_def)
    qed
    from row_update_trans [OF rec this] show ?thesis by (simp add: Claim_batch Inr res)
  qed
next
  case (Mark_published i w t)
  show ?thesis
    unfolding Mark_published by (simp add: mark_published_def update_rows_def)
      (rule row_update_map,
        auto simp: Mark_published protected_from_def owns_claim_def valid_row_def row_partition_def)
next
  case (Release_claim i w t err restore now)
  let ?cond = "\<lambda>r. ob_outbox_id r = i \<and> owns_claim w r"
  have "row_update (\<lambda>r. protected_from r c) (or_rows repo)
      (map (\<lambda>r. if ?cond r then released t err restore now r else r) (or_rows repo))"
    by (rule row_update_map)
      (auto simp: Release_claim protected_from_def owns_claim_def valid_row_def row_partition_def
        released_def Let_def)
  then show ?thesis
    using row_update_refl by (auto simp: Release_claim release_claim_def update_rows_def split: nat.split)
next
  case (Renew_claims ids w now)
  let ?cond = "\<lambda>r. ob_outbox_id r \<in> set ids \<and> owns_claim w r"
  have "row_update (\<lambda>r. protected_from r c) (or_rows repo)
      (map (\<lambda>r. if ?cond r then r\<lparr>ob_claim_expires_at := Some (now + or_claim_lease repo),
         ob_updated_at := now\<rparr> else r) (or_rows repo))"
    by (rule row_update_map)
      (auto simp: Renew_claims protected_from_def owns_claim_def valid_row_def row_partition_def)
  then show ?thesis
    using row_update_refl by (simp add: Renew_claims renew_claims_def update_rows_def Let_def)
qed

lemma outbox_calls_keep:
  assumes "valid_outbox (or_rows repo)" "r \<in> set (or_rows repo)" "list_all (protected_from r) cs"
  shows "valid_outbox (or_rows (fold outbox_call cs repo)) \<and> r \<in> set (or_rows (fold outbox_call cs repo))"
  using assms
proof (induction cs arbitrary: repo)
  case (Cons c cs)
  note upd = outbox_call_update [OF Cons.prems(1), of c]
  show ?case
    using Cons.IH [of "outbox_call c repo"] row_update_valid [OF upd Cons.prems(1)] Cons.prems
    by simp
qed simp

text \<open>
  C24.  Claims exclude other workers, and settled rows stay settled.  Through any sequence of
  claims, markings, releases and renewals the constraints of the table hold, a published or dead row
  never changes, and a claimed row does not change while its lease runs, unless its own worker
  acts on it.
\<close>

theorem outbox_rows_protected:
  assumes "valid_outbox (or_rows repo)" "r \<in> set (or_rows repo)" "list_all (protected_from r) cs"
  shows "valid_outbox (or_rows (fold outbox_call cs repo)) \<and> r \<in> set (or_rows (fold outbox_call cs repo))"
  using assms by (rule outbox_calls_keep)

subsection \<open>A concrete outbox\<close>

definition sample_message :: envelope where
  "sample_message =
     \<lparr>en_envelope_id = ''e'', en_event_type = ''demo.event'', en_message_kind = MK_EVENT,
      en_tenant_id = ''tenant-1'', en_session_id = ''s'', en_subject_ref = ''subject'',
      en_correlation_id = ''c'', en_causation_id = None, en_sequence = 0, en_partition_key = ''p'',
      en_producer = \<lparr>pm_agent = None, pm_service = ''svc'', pm_instance_id = ''i'', pm_build_version = ''v1''\<rparr>,
      en_delivery = \<lparr>dm_idempotency_key = ''key-000000000000'', dm_attempt = 1, dm_max_attempts = 3,
                     dm_priority = MP_NORMAL, dm_available_at = 0, dm_expires_at = None\<rparr>,
      en_resource = None, en_trace_id = replicate 16 (CHR ''a''), en_span_id = None, en_created_at = 0,
      en_error = None, en_payload = DObj []\<rparr>"

definition outbox_row_at :: "uuid \<Rightarrow> tenant \<Rightarrow> int \<Rightarrow> outbox_status \<Rightarrow> timestamp \<Rightarrow> outbox_row" where
  "outbox_row_at i tenant_id n st available_at =
     \<lparr>ob_outbox_id = i, ob_tenant_id = tenant_id, ob_partition_key = ''p'', ob_sequence = n,
      ob_envelope = sample_message, ob_state = st, ob_priority = ''NORMAL'',
      ob_attempts = (if st = OS_DEAD then 3 else 0), ob_max_attempts = 3, ob_available_at = available_at,
      ob_claimed_by = None, ob_claimed_at = None, ob_claim_expires_at = None,
      ob_published_at = (if st = OS_PUBLISHED then Some 0 else None), ob_last_error_code = None,
      ob_created_at = 0, ob_updated_at = 0\<rparr>"

definition sample_repo :: dispatcher_repo where
  "sample_repo =
     \<lparr>or_claim_lease = 30, or_recovery_interval = 1, or_next_recovery_at = 0,
      or_rows = [outbox_row_at ''a0'' ''tenant-1'' 0 OS_PUBLISHED 0, outbox_row_at ''a2'' ''tenant-1'' 2 OS_PENDING 0,
                 outbox_row_at ''a1'' ''tenant-1'' 1 OS_PENDING 0, outbox_row_at ''a4'' ''tenant-1'' 4 OS_PENDING 0]\<rparr>"

text \<open>A dead message with eight messages behind it, and a ready message of another tenant.\<close>

definition blocked_repo :: dispatcher_repo where
  "blocked_repo =
     \<lparr>or_claim_lease = 30, or_recovery_interval = 1, or_next_recovery_at = 0,
      or_rows = outbox_row_at ''d'' ''tenant-1'' 0 OS_DEAD 0 # outbox_row_at ''x'' ''tenant-2'' 0 OS_PENDING 1
        # map (\<lambda>n. outbox_row_at (replicate (nat n) CHR ''r'') ''tenant-1'' n OS_PENDING 0) [1..8]\<rparr>"

lemma sample_repo_valid: "valid_outbox (or_rows sample_repo)"
  by code_simp

lemma blocked_repo_valid: "valid_outbox (or_rows blocked_repo)"
  by code_simp

lemma sample_claim_result:
  "map_sum id (map om_outbox_id \<circ> fst) (claim_batch (\<lambda>_. False) 10 0 0 ''worker'' 32 sample_repo)
     = Inr [''a1'', ''a2'']"
  by code_simp

theorem claim_batch_contiguous_witness:
  "\<exists>msgs repo'. claim_batch (\<lambda>_. False) 10 0 0 ''worker'' 32 sample_repo = Inr (msgs, repo')
     \<and> map om_outbox_id msgs = [''a1'', ''a2'']
     \<and> (\<exists>rows. distinct rows \<and> msgs = map (\<lambda>r. to_message (claimed ''worker'' 10 30 r) (Some (ob_sequence r))) rows)"
proof -
  obtain msgs repo' where c: "claim_batch (\<lambda>_. False) 10 0 0 ''worker'' 32 sample_repo = Inr (msgs, repo')"
      and i: "map om_outbox_id msgs = [''a1'', ''a2'']"
    using sample_claim_result
    by (cases "claim_batch (\<lambda>_. False) 10 0 0 ''worker'' 32 sample_repo") auto
  have "or_claim_lease sample_repo = 30" by (simp add: sample_repo_def)
  with claim_batch_contiguous [OF sample_repo_valid c] c i show ?thesis by auto
qed

theorem outbox_rows_protected_witness:
  "outbox_row_at ''a0'' ''tenant-1'' 0 OS_PUBLISHED 0 \<in> set (or_rows (fold outbox_call
     [Claim_batch (\<lambda>_. False) 10 0 0 ''worker'' 32, Mark_published ''a1'' ''worker'' 11,
      Release_claim ''a0'' ''worker'' 12 None False 12] sample_repo))"
proof -
  have "outbox_row_at ''a0'' ''tenant-1'' 0 OS_PUBLISHED 0 \<in> set (or_rows sample_repo)"
    by (simp add: sample_repo_def)
  from outbox_rows_protected [OF sample_repo_valid this, of
      "[Claim_batch (\<lambda>_. False) 10 0 0 ''worker'' 32, Mark_published ''a1'' ''worker'' 11,
        Release_claim ''a0'' ''worker'' 12 None False 12]"]
  show ?thesis by (simp add: protected_from_def outbox_row_at_def)
qed

lemma blocked_recover: "recover_expired_claims 10 (or_rows blocked_repo) = or_rows blocked_repo"
  by (rule recover_no_expired) (simp add: blocked_repo_def outbox_row_at_def expired_claim_def list_ex_iff)

lemma blocked_facts:
  "ob_sequence (outbox_row_at ''d'' ''tenant-1'' 0 OS_DEAD 0)
     = published_cursor (row_partition (outbox_row_at ''d'' ''tenant-1'' 0 OS_DEAD 0)) (or_rows blocked_repo)
   \<and> candidate_limit 1 \<le> int (length (filter (\<lambda>r. is_candidate 10 r \<and> \<not> False
        \<and> row_partition r = row_partition (outbox_row_at ''d'' ''tenant-1'' 0 OS_DEAD 0)) (or_rows blocked_repo)))
   \<and> (\<forall>b\<in>set (filter (\<lambda>r. is_candidate 10 r \<and> \<not> False
        \<and> row_partition r = row_partition (outbox_row_at ''d'' ''tenant-1'' 0 OS_DEAD 0)) (or_rows blocked_repo)).
      \<forall>r\<in>set (or_rows blocked_repo). is_candidate 10 r
        \<and> row_partition r \<noteq> row_partition (outbox_row_at ''d'' ''tenant-1'' 0 OS_DEAD 0)
        \<longrightarrow> candidate_key b < candidate_key r)"
  by code_simp

theorem blocked_backlog_starves_dispatch_witness:
  "(\<exists>repo'. claim_batch (\<lambda>_. False) 10 0 0 ''worker'' 1 blocked_repo = Inr ([], repo'))
     \<and> is_candidate 10 (outbox_row_at ''x'' ''tenant-2'' 0 OS_PENDING 1)"
proof
  show "\<exists>repo'. claim_batch (\<lambda>_. False) 10 0 0 ''worker'' 1 blocked_repo = Inr ([], repo')"
  proof (rule blocked_backlog_starves_dispatch [OF blocked_repo_valid _ blocked_recover [symmetric]])
    show "validate_claim_request ''worker'' 1 = Inr ()"
      by (simp add: validate_claim_request_def len_between_def)
    show "outbox_row_at ''d'' ''tenant-1'' 0 OS_DEAD 0 \<in> set (or_rows blocked_repo)"
      by (simp add: blocked_repo_def)
  qed (use blocked_facts in \<open>blast | simp add: outbox_row_at_def\<close>)+
qed (simp add: is_candidate_def outbox_row_at_def)

end
