(* ===== verification/OutboxPublisher.thy ===== *)
theory OutboxPublisher
  imports Outbox MessageBus Resilience
begin

text \<open>
  The outbox publisher of \<^verbatim>\<open>backend/src/liyans/infrastructure/persistence/outbox_publisher.py\<close>: delivery of a
  claimed batch, partition by partition and in sequence order, with renewal of leases, release of
  failed and of blocked messages, and the sink that hands a message to the bus.  A sink ends
  normally, with an exception (a timeout of \<^verbatim>\<open>wait_for\<close> is one) or cancelled.  Metrics and logging are
  left out.  The partitions of a batch are processed one after another; they touch
  different rows.
\<close>

subsection \<open>Configuration and environment\<close>

record publisher =
  pb_worker_id :: string
  pb_batch_size :: int
  pb_poll_interval :: rat
  pb_delivery_timeout :: rat
  pb_retry_base :: rat
  pb_retry_max :: rat

definition valid_publisher :: "publisher \<Rightarrow> bool" where
  "valid_publisher c \<longleftrightarrow> len_between 1 128 (pb_worker_id c)
     \<and> 1 \<le> pb_batch_size c \<and> pb_batch_size c \<le> 1000
     \<and> 0 < min (min (min (pb_poll_interval c) (pb_delivery_timeout c)) (pb_retry_base c)) (pb_retry_max c)"

datatype sink_exit = Sink_ok | Sink_raises app_error | Sink_cancelled

type_synonym 'w sink = "outbox_message \<Rightarrow> 'w \<Rightarrow> sink_exit \<times> 'w"

text \<open>Clock readings while a message is handled, and \<^verbatim>\<open>type(exc).__name__\<close>.\<close>

record publisher_env =
  pe_check :: "uuid \<Rightarrow> timestamp"
  pe_renew :: "uuid \<Rightarrow> timestamp"
  pe_published :: "uuid \<Rightarrow> timestamp"
  pe_failed :: "uuid \<Rightarrow> timestamp"
  pe_tail :: "uuid \<Rightarrow> timestamp"
  pe_row :: "uuid \<Rightarrow> timestamp"
  pe_class_name :: "app_error \<Rightarrow> string"

text \<open>\<^verbatim>\<open>timedelta(seconds=s)\<close> in microseconds, for a non-negative float.\<close>

definition timedelta_us :: "rat \<Rightarrow> int" where
  "timedelta_us s = \<lfloor>s\<rfloor> * 1000000 + rhe (fmul (s - of_int \<lfloor>s\<rfloor>) 1000000)"

definition claim_renewal_required :: "publisher \<Rightarrow> timestamp \<Rightarrow> timestamp option \<Rightarrow> bool" where
  "claim_renewal_required c now claim_expires_at =
     (case claim_expires_at of
        None \<Rightarrow> False
      | Some t \<Rightarrow>
          let safety = min 1 (max (fl (1 / 10)) (fmul (pb_delivery_timeout c) (fl (1 / 10))))
          in t \<le> now + timedelta_us (fadd (pb_delivery_timeout c) safety))"

definition retry_delay :: "publisher \<Rightarrow> int \<Rightarrow> rat" where
  "retry_delay c attempts =
     min (pb_retry_max c) (fmul (pb_retry_base c) (fl (2 ^ nat (max 0 (attempts - 1)))))"

definition failure_code :: "publisher_env \<Rightarrow> app_error \<Rightarrow> string" where
  "failure_code env e = (case e of Liyan l \<Rightarrow> le_code l | Foreign_error _ \<Rightarrow> pe_class_name env e)"

subsection \<open>Delivering one message\<close>

datatype process_exit = Delivered | Not_delivered | Process_cancelled

text \<open>\<^verbatim>\<open>_release_claim_safely\<close> swallows every exception of the repository.\<close>

definition release_safely ::
  "publisher \<Rightarrow> publisher_env \<Rightarrow> outbox_message \<Rightarrow> timestamp \<Rightarrow> string \<Rightarrow> outbox_table \<Rightarrow> outbox_table" where
  "release_safely c env m available_at code tbl =
     snd (release_claim (om_outbox_id m) (pb_worker_id c) available_at (Some code) False
       (pe_row env (om_outbox_id m)) tbl)"

definition delivery_failed ::
  "publisher \<Rightarrow> publisher_env \<Rightarrow> outbox_message \<Rightarrow> app_error \<Rightarrow> outbox_table \<Rightarrow> outbox_table" where
  "delivery_failed c env m e tbl =
     release_safely c env m
       (pe_failed env (om_outbox_id m) + timedelta_us (retry_delay c (om_attempts m)))
       (take 128 (failure_code env e)) tbl"

definition process_message ::
  "publisher \<Rightarrow> publisher_env \<Rightarrow> 'w sink \<Rightarrow> outbox_message \<Rightarrow> outbox_table \<Rightarrow> 'w
     \<Rightarrow> process_exit \<times> outbox_table \<times> 'w" where
  "process_message c env sink m tbl w =
     (case sink m w of
        (Sink_ok, w') \<Rightarrow>
          (case mark_published (om_outbox_id m) (pb_worker_id c) (pe_published env (om_outbox_id m)) tbl of
             (Inr _, tbl') \<Rightarrow> (Delivered, tbl', w')
           | (Inl e, tbl') \<Rightarrow> (Not_delivered, delivery_failed c env m e tbl', w'))
      | (Sink_raises e, w') \<Rightarrow> (Not_delivered, delivery_failed c env m e tbl, w')
      | (Sink_cancelled, w') \<Rightarrow>
          (Process_cancelled,
           release_safely c env m (pe_failed env (om_outbox_id m)) ''CancelledError'' tbl, w'))"

subsection \<open>A partition and a batch\<close>

definition release_partition_tail ::
  "publisher \<Rightarrow> publisher_env \<Rightarrow> outbox_message list \<Rightarrow> string \<Rightarrow> outbox_table \<Rightarrow> outbox_table" where
  "release_partition_tail c env ms code tbl =
     (case ms of [] \<Rightarrow> tbl
      | first # _ \<Rightarrow> fold (\<lambda>m tbl. snd (release_claim (om_outbox_id m) (pb_worker_id c)
            (pe_tail env (om_outbox_id first)) (Some code) True (pe_row env (om_outbox_id m)) tbl)) ms tbl)"

datatype partition_exit = Partition_done | Partition_raised app_error | Partition_cancelled

fun process_ordered ::
  "publisher \<Rightarrow> publisher_env \<Rightarrow> 'w sink \<Rightarrow> timestamp option \<Rightarrow> outbox_message list
     \<Rightarrow> dispatcher_repo \<Rightarrow> 'w \<Rightarrow> partition_exit \<times> dispatcher_repo \<times> 'w" where
  "process_ordered c env sink lease [] repo w = (Partition_done, repo, w)"
| "process_ordered c env sink lease (m # ms) repo w =
     (let i = om_outbox_id m;
          (renewal, repo1) = (if claim_renewal_required c (pe_check env i) lease
            then (case renew_claims (map om_outbox_id (m # ms)) (pb_worker_id c) (pe_renew env i) repo of
                    (Inl e, repo') \<Rightarrow> (Inl e, repo') | (Inr t, repo') \<Rightarrow> (Inr (Some t), repo'))
            else (Inr lease, repo))
      in case renewal of
           Inl e \<Rightarrow> (Partition_raised e, repo1\<lparr>or_rows :=
               release_partition_tail c env (m # ms) ''LeaseRenewalFailed'' (or_rows repo1)\<rparr>, w)
         | Inr lease1 \<Rightarrow>
             (case process_message c env sink m (or_rows repo1) w of
                (Delivered, tbl, w') \<Rightarrow>
                  process_ordered c env sink lease1 ms (repo1\<lparr>or_rows := tbl\<rparr>) w'
              | (Not_delivered, tbl, w') \<Rightarrow>
                  (Partition_done,
                   repo1\<lparr>or_rows := release_partition_tail c env ms ''PartitionBlocked'' tbl\<rparr>, w')
              | (Process_cancelled, tbl, w') \<Rightarrow>
                  (Partition_cancelled,
                   repo1\<lparr>or_rows := release_partition_tail c env ms ''CancelledError'' tbl\<rparr>, w')))"

definition earliest_lease :: "outbox_message list \<Rightarrow> timestamp option" where
  "earliest_lease ms =
     (case concat (map (\<lambda>m. case om_claim_expires_at m of None \<Rightarrow> [] | Some t \<Rightarrow> [t]) ms) of
        [] \<Rightarrow> None | t # ts \<Rightarrow> Some (foldl min t ts))"

definition message_sequence :: "outbox_message \<Rightarrow> int" where
  "message_sequence m = en_sequence (om_envelope m)"

definition process_partition ::
  "publisher \<Rightarrow> publisher_env \<Rightarrow> 'w sink \<Rightarrow> outbox_message list \<Rightarrow> dispatcher_repo \<Rightarrow> 'w
     \<Rightarrow> partition_exit \<times> dispatcher_repo \<times> 'w" where
  "process_partition c env sink ms repo w =
     (let ordered = sort_key message_sequence ms
      in process_ordered c env sink (earliest_lease ordered) ordered repo w)"

definition message_partition :: "outbox_message \<Rightarrow> tenant \<times> string" where
  "message_partition m = (om_tenant_id m, en_partition_key (om_envelope m))"

definition partitions_of :: "outbox_message list \<Rightarrow> outbox_message list list" where
  "partitions_of ms =
     map (\<lambda>p. filter (\<lambda>m. message_partition m = p) ms)
       (rev (remdups (rev (map message_partition ms))))"

fun process_partitions ::
  "publisher \<Rightarrow> publisher_env \<Rightarrow> 'w sink \<Rightarrow> outbox_message list list \<Rightarrow> dispatcher_repo \<Rightarrow> 'w
     \<Rightarrow> partition_exit list \<times> dispatcher_repo \<times> 'w" where
  "process_partitions c env sink [] repo w = ([], repo, w)"
| "process_partitions c env sink (ms # mss) repo w =
     (case process_partition c env sink ms repo w of
        (exit, repo1, w1) \<Rightarrow>
          (case process_partitions c env sink mss repo1 w1 of
             (exits, repo2, w2) \<Rightarrow> (exit # exits, repo2, w2)))"

definition run_once ::
  "publisher \<Rightarrow> publisher_env \<Rightarrow> 'w sink \<Rightarrow> (uuid \<Rightarrow> bool) \<Rightarrow> timestamp \<Rightarrow> rat \<Rightarrow> rat \<Rightarrow> dispatcher_repo \<Rightarrow> 'w
     \<Rightarrow> (partition_exit + nat) \<times> dispatcher_repo \<times> 'w" where
  "run_once c env sink locked now mono1 mono2 repo w =
     (case claim_batch locked now mono1 mono2 (pb_worker_id c) (pb_batch_size c) repo of
        Inl e \<Rightarrow> (Inl (Partition_raised e), repo, w)
      | Inr (msgs, repo1) \<Rightarrow>
          if msgs = [] then (Inr 0, repo1, w)
          else (case process_partitions c env sink (partitions_of msgs) repo1 w of
                  (exits, repo2, w2) \<Rightarrow>
                    ((case filter (\<lambda>x. x \<noteq> Partition_done) exits of
                        [] \<Rightarrow> Inr (length msgs) | x # _ \<Rightarrow> Inl x), repo2, w2)))"

subsection \<open>The sink of the message bus\<close>

text \<open>
  \<^verbatim>\<open>MessageBusOutboxSink.__call__\<close>; \<open>ops\<close> are the operations of the idempotency store in the tenant's
  scope, \<open>lookup\<close> is what \<^verbatim>\<open>repository.published_cursor\<close> would return.
\<close>

definition bus_sink ::
  "(tenant \<Rightarrow> 's idempotency) \<Rightarrow> hash_env \<Rightarrow> timestamp \<Rightarrow> app_error + int \<Rightarrow> ('s, 'w) bus sink" where
  "bus_sink ops h now lookup m b =
     (let e = om_envelope m;
          gap = Sink_raises (liyan ''LIYAN-MESSAGE-SEQUENCE-GAP'' EC_MESSAGING True 409)
      in if en_tenant_id e \<noteq> om_tenant_id m
         then (Sink_raises (Foreign_error ''Outbox and Envelope tenant identities do not match''), b)
         else case (case om_published_cursor m of None \<Rightarrow> lookup | Some n \<Rightarrow> Inr n) of
           Inl err \<Rightarrow> (Sink_raises err, b)
         | Inr cursor \<Rightarrow>
             if en_sequence e \<noteq> cursor then (gap, b)
             else (case restore_partition_cursor (om_tenant_id m) (en_partition_key e) cursor b of
                Inl err \<Rightarrow> (Sink_raises err, b)
              | Inr b1 \<Rightarrow>
                 (case publish (ops (om_tenant_id m)) h now e b1 of
                    (Inl (Raised err), b2) \<Rightarrow> (Sink_raises err, b2)
                  | (Inl Cancelled, b2) \<Rightarrow> (Sink_cancelled, b2)
                  | (Inr res, b2) \<Rightarrow>
                      (if dr_status res \<in> {DS_BUFFERED, DS_IN_FLIGHT} then gap else Sink_ok, b2))))"

subsection \<open>The table by identifier\<close>

definition row_of :: "outbox_table \<Rightarrow> uuid \<rightharpoonup> outbox_row" where
  "row_of tbl = map_of (map (\<lambda>r. (ob_outbox_id r, r)) tbl)"

abbreviation distinct_ids :: "outbox_table \<Rightarrow> bool" where
  "distinct_ids tbl \<equiv> distinct (map ob_outbox_id tbl)"

lemma row_of_id: "row_of tbl i = Some r \<Longrightarrow> ob_outbox_id r = i \<and> r \<in> set tbl"
  by (auto simp: row_of_def dest!: map_of_SomeD)

lemma row_of_mem: "distinct_ids tbl \<Longrightarrow> r \<in> set tbl \<Longrightarrow> row_of tbl (ob_outbox_id r) = Some r"
  unfolding row_of_def by (rule map_of_is_SomeI) (simp_all add: comp_def)

lemma row_of_map:
  assumes "\<And>r. ob_outbox_id (f r) = ob_outbox_id r"
  shows "row_of (map f tbl) i = map_option f (row_of tbl i)"
    and "map ob_outbox_id (map f tbl) = map ob_outbox_id tbl"
  using assms by (induction tbl) (simp_all add: row_of_def)

lemma count_owned:
  assumes "distinct_ids tbl" "row_of tbl i = Some r" "owns_claim w r"
  shows "length (filter (\<lambda>r. ob_outbox_id r = i \<and> owns_claim w r) tbl) = 1"
  using assms
proof (induction tbl)
  case (Cons x tbl)
  show ?case
  proof (cases "ob_outbox_id x = i")
    case True
    have "filter (\<lambda>r. ob_outbox_id r = i \<and> owns_claim w r) tbl = []"
    proof (rule filter_False, intro ballI)
      fix y
      assume "y \<in> set tbl"
      then have "ob_outbox_id y \<in> ob_outbox_id ` set tbl" by (rule imageI)
      then show "\<not> (ob_outbox_id y = i \<and> owns_claim w y)" using Cons.prems(1) True by auto
    qed
    moreover have "x = r" using Cons.prems(2) True by (simp add: row_of_def)
    ultimately show ?thesis using True Cons.prems(3) by simp
  next
    case False
    then show ?thesis using Cons by (simp add: row_of_def)
  qed
qed (simp add: row_of_def)

lemma update_one:
  assumes "row_of tbl i = Some r" "owns_claim w r" "\<And>r. ob_outbox_id (f r) = ob_outbox_id r"
  shows "row_of (map (\<lambda>r. if ob_outbox_id r = i \<and> owns_claim w r then f r else r) tbl) = (row_of tbl)(i \<mapsto> f r)"
proof
  fix j
  show "row_of (map (\<lambda>r. if ob_outbox_id r = i \<and> owns_claim w r then f r else r) tbl) j
      = ((row_of tbl)(i \<mapsto> f r)) j"
    using assms row_of_id [of tbl j] by (subst row_of_map) (auto simp: map_option_case split: option.split)
qed

definition marked :: "timestamp \<Rightarrow> outbox_row \<Rightarrow> outbox_row" where
  "marked t r = r\<lparr>ob_state := OS_PUBLISHED, ob_published_at := Some t, ob_claimed_by := None,
     ob_claimed_at := None, ob_claim_expires_at := None, ob_last_error_code := None, ob_updated_at := t\<rparr>"

lemma update_distinct:
  assumes "\<And>r. ob_outbox_id (f r) = ob_outbox_id r"
  shows "distinct_ids (map (\<lambda>r. if P r then f r else r) tbl) = distinct_ids tbl"
proof -
  have "map ob_outbox_id (map (\<lambda>r. if P r then f r else r) tbl) = map ob_outbox_id tbl"
    by (rule row_of_map(2)) (simp add: assms)
  then show ?thesis by (simp only:)
qed

lemma mark_published_owned:
  assumes "distinct_ids tbl" "row_of tbl i = Some r" "owns_claim w r"
  shows "\<exists>tbl'. mark_published i w t tbl = (Inr (), tbl') \<and> row_of tbl' = (row_of tbl)(i \<mapsto> marked t r)
     \<and> distinct_ids tbl'"
proof -
  have id: "ob_outbox_id (marked t r) = ob_outbox_id r" for r by (simp add: marked_def)
  let ?tbl = "map (\<lambda>r. if ob_outbox_id r = i \<and> owns_claim w r then marked t r else r) tbl"
  have "distinct_ids ?tbl"
    using update_distinct [where f = "marked t" and P = "\<lambda>r. ob_outbox_id r = i \<and> owns_claim w r", OF id] assms(1)
    by (simp only:)
  moreover have "mark_published i w t tbl = (Inr (), ?tbl)"
    using count_owned [OF assms] by (simp add: mark_published_def update_rows_def marked_def)
  ultimately show ?thesis using update_one [OF assms(2,3) id] by (intro exI [of _ ?tbl] conjI)
qed

lemma release_claim_owned:
  assumes "distinct_ids tbl" "row_of tbl i = Some r" "owns_claim w r"
  shows "\<exists>tbl'. release_claim i w t err restore now tbl = (Inr (), tbl')
     \<and> row_of tbl' = (row_of tbl)(i \<mapsto> released t err restore now r) \<and> distinct_ids tbl'"
proof -
  have id: "ob_outbox_id (released t err restore now r) = ob_outbox_id r" for r
    by (simp add: released_def Let_def)
  let ?tbl = "map (\<lambda>r. if ob_outbox_id r = i \<and> owns_claim w r then released t err restore now r else r) tbl"
  have "distinct_ids ?tbl"
    using update_distinct [where f = "released t err restore now" and P = "\<lambda>r. ob_outbox_id r = i \<and> owns_claim w r", OF id] assms(1)
    by (simp only:)
  moreover have "release_claim i w t err restore now tbl = (Inr (), ?tbl)"
    using count_owned [OF assms] by (simp add: release_claim_def update_rows_def)
  ultimately show ?thesis using update_one [OF assms(2,3) id] by (intro exI [of _ ?tbl] conjI)
qed

text \<open>The claims of a batch: each message stands for a row that the worker owns.\<close>

definition owned :: "string \<Rightarrow> outbox_message list \<Rightarrow> outbox_table \<Rightarrow> bool" where
  "owned w ms tbl \<longleftrightarrow> distinct_ids tbl \<and> distinct (map om_outbox_id ms)
     \<and> (\<forall>m\<in>set ms. \<exists>r. row_of tbl (om_outbox_id m) = Some r \<and> owns_claim w r)"

lemma owned_Cons:
  "owned w (m # ms) tbl \<longleftrightarrow> owned w ms tbl \<and> om_outbox_id m \<notin> om_outbox_id ` set ms
     \<and> (\<exists>r. row_of tbl (om_outbox_id m) = Some r \<and> owns_claim w r)"
  by (auto simp: owned_def)

lemma owned_other:
  assumes "owned w ms tbl" "row_of tbl' = (row_of tbl)(i \<mapsto> r)" "distinct_ids tbl'"
    and "i \<notin> om_outbox_id ` set ms"
  shows "owned w ms tbl'"
  unfolding owned_def
proof (intro conjI ballI)
  fix m
  assume m: "m \<in> set ms"
  then have "om_outbox_id m \<noteq> i" using assms(4) by blast
  then show "\<exists>r. row_of tbl' (om_outbox_id m) = Some r \<and> owns_claim w r"
    using assms(1,2) m by (simp add: owned_def)
qed (use assms in \<open>simp_all add: owned_def\<close>)

lemma fold_release:
  assumes "owned w ms tbl"
  shows "\<exists>tbl'. fold (\<lambda>m tbl. snd (release_claim (om_outbox_id m) w (t m) (e m) True (u m) tbl)) ms tbl = tbl'
     \<and> distinct_ids tbl'
     \<and> (\<forall>m\<in>set ms. \<exists>r. row_of tbl (om_outbox_id m) = Some r
          \<and> row_of tbl' (om_outbox_id m) = Some (released (t m) (e m) True (u m) r))
     \<and> (\<forall>i. i \<notin> om_outbox_id ` set ms \<longrightarrow> row_of tbl' i = row_of tbl i)"
  using assms
proof (induction ms arbitrary: tbl)
  case Nil
  then show ?case by (simp add: owned_def)
next
  case (Cons m ms)
  from Cons.prems obtain r where r: "row_of tbl (om_outbox_id m) = Some r" "owns_claim w r"
    and rest: "owned w ms tbl" "om_outbox_id m \<notin> om_outbox_id ` set ms" by (auto simp: owned_Cons)
  have "distinct_ids tbl" using rest(1) by (simp add: owned_def)
  from release_claim_owned [OF this r] obtain tbl1 where
    rel: "release_claim (om_outbox_id m) w (t m) (e m) True (u m) tbl = (Inr (), tbl1)"
      "row_of tbl1 = (row_of tbl)(om_outbox_id m \<mapsto> released (t m) (e m) True (u m) r)" "distinct_ids tbl1"
    by blast
  from Cons.IH [OF owned_other [OF rest(1) rel(2,3) rest(2)]] obtain tbl2 where
    IH: "fold (\<lambda>m tbl. snd (release_claim (om_outbox_id m) w (t m) (e m) True (u m) tbl)) ms tbl1 = tbl2"
      "distinct_ids tbl2"
      "\<forall>m\<in>set ms. \<exists>r. row_of tbl1 (om_outbox_id m) = Some r
          \<and> row_of tbl2 (om_outbox_id m) = Some (released (t m) (e m) True (u m) r)"
      "\<forall>i. i \<notin> om_outbox_id ` set ms \<longrightarrow> row_of tbl2 i = row_of tbl1 i" by blast
  have "row_of tbl2 (om_outbox_id m) = Some (released (t m) (e m) True (u m) r)"
    using IH(4) rest(2) rel(2) by simp
  moreover have "row_of tbl1 (om_outbox_id m') = row_of tbl (om_outbox_id m')" if "m' \<in> set ms" for m'
    using rel(2) rest(2) that by (auto simp: image_iff)
  moreover have "row_of tbl2 i = row_of tbl i" if "i \<notin> om_outbox_id ` set (m # ms)" for i
    using IH(4) rel(2) that by simp
  ultimately show ?case using IH(1-3) r(1) rel(1) by simp
qed

subsection \<open>What happens to a message\<close>

definition same_key :: "outbox_row \<Rightarrow> outbox_row \<Rightarrow> bool" where
  "same_key r r' \<longleftrightarrow> ob_outbox_id r' = ob_outbox_id r \<and> row_partition r' = row_partition r
     \<and> ob_sequence r' = ob_sequence r \<and> ob_max_attempts r' = ob_max_attempts r"

definition row_published :: "outbox_row \<Rightarrow> outbox_row \<Rightarrow> bool" where
  "row_published r r' \<longleftrightarrow> ob_state r' = OS_PUBLISHED \<and> ob_claimed_by r' = None"

text \<open>A failed message keeps the attempt that the claim counted, a message behind it gets it back.\<close>

definition row_failed :: "outbox_row \<Rightarrow> outbox_row \<Rightarrow> bool" where
  "row_failed r r' \<longleftrightarrow> ob_claimed_by r' = None \<and> ob_attempts r' = ob_attempts r
     \<and> ob_state r' = (if ob_max_attempts r \<le> ob_attempts r then OS_DEAD else OS_PENDING)"

definition row_returned :: "outbox_row \<Rightarrow> outbox_row \<Rightarrow> bool" where
  "row_returned r r' \<longleftrightarrow> ob_claimed_by r' = None \<and> ob_attempts r' = max 0 (ob_attempts r - 1)
     \<and> ob_state r' = (if ob_max_attempts r \<le> max 0 (ob_attempts r - 1) then OS_DEAD else OS_PENDING)"

definition row_kept :: "outbox_row \<Rightarrow> outbox_row \<Rightarrow> bool" where
  "row_kept r r' \<longleftrightarrow> ob_attempts r' = ob_attempts r"

lemmas row_changes = same_key_def row_published_def row_failed_def row_returned_def row_kept_def

definition outcome ::
  "(outbox_row \<Rightarrow> outbox_row \<Rightarrow> bool) \<Rightarrow> outbox_table \<Rightarrow> outbox_table \<Rightarrow> outbox_message \<Rightarrow> bool" where
  "outcome change tbl tbl' m \<longleftrightarrow>
     (\<exists>r r'. row_of tbl (om_outbox_id m) = Some r \<and> row_of tbl' (om_outbox_id m) = Some r'
        \<and> same_key r r' \<and> change r r')"

lemma outcomeI:
  "row_of tbl (om_outbox_id m) = Some r \<Longrightarrow> row_of tbl' (om_outbox_id m) = Some r' \<Longrightarrow> same_key r r'
     \<Longrightarrow> change r r' \<Longrightarrow> outcome change tbl tbl' m"
  unfolding outcome_def by blast

lemma outcome_kept:
  assumes "outcome row_kept tbl tbl1 m" "outcome change tbl1 tbl2 m"
    and "change \<in> {row_published, row_failed, row_returned, row_kept}"
  shows "outcome change tbl tbl2 m"
proof -
  from assms(1) obtain r r1 where a: "row_of tbl (om_outbox_id m) = Some r"
    "row_of tbl1 (om_outbox_id m) = Some r1" "same_key r r1" "row_kept r r1" unfolding outcome_def by blast
  from assms(2) a(2) obtain r2 where b: "row_of tbl2 (om_outbox_id m) = Some r2" "same_key r1 r2"
    "change r1 r2" unfolding outcome_def by auto
  have "same_key r r2" "change r r2" using a(3,4) b(2,3) assms(3) by (auto simp: row_changes)
  with a(1) b(1) show ?thesis by (rule outcomeI)
qed

lemma outcome_frame:
  "outcome change tbl1 tbl2 m \<Longrightarrow> row_of tbl (om_outbox_id m) = row_of tbl1 (om_outbox_id m)
     \<Longrightarrow> row_of tbl' (om_outbox_id m) = row_of tbl2 (om_outbox_id m) \<Longrightarrow> outcome change tbl tbl' m"
  by (simp add: outcome_def)

definition frame :: "uuid set \<Rightarrow> outbox_table \<Rightarrow> outbox_table \<Rightarrow> bool" where
  "frame ids tbl tbl' \<longleftrightarrow> distinct_ids tbl' \<and> (\<forall>i. i \<notin> ids \<longrightarrow> row_of tbl' i = row_of tbl i)"

abbreviation ids_of :: "outbox_message list \<Rightarrow> uuid set" where
  "ids_of ms \<equiv> om_outbox_id ` set ms"

lemma released_changes:
  "same_key r (released t e b u r)" "row_failed r (released t e False u r)"
  "row_returned r (released t e True u r)"
  by (simp_all add: released_def row_changes Let_def row_partition_def)

lemma release_tail_outcome:
  assumes "owned (pb_worker_id c) ms tbl" "tbl' = release_partition_tail c env ms code tbl"
  shows "frame (ids_of ms) tbl tbl' \<and> (\<forall>m\<in>set ms. outcome row_returned tbl tbl' m)"
proof (cases ms)
  case Nil
  with assms show ?thesis by (simp add: release_partition_tail_def frame_def owned_def)
next
  case (Cons first rest)
  from fold_release [OF assms(1), of "\<lambda>_. pe_tail env (om_outbox_id first)" "\<lambda>_. Some code"
      "\<lambda>m. pe_row env (om_outbox_id m)"] assms(2) Cons
  show ?thesis
    by (simp add: release_partition_tail_def frame_def) (blast intro: outcomeI released_changes)
qed

lemma release_safely_outcome:
  assumes "owned (pb_worker_id c) (m # ms) tbl" "tbl' = release_safely c env m t code tbl"
  shows "frame {om_outbox_id m} tbl tbl' \<and> outcome row_failed tbl tbl' m \<and> owned (pb_worker_id c) ms tbl'"
proof -
  from assms(1) obtain r where r: "row_of tbl (om_outbox_id m) = Some r" "owns_claim (pb_worker_id c) r"
    and rest: "owned (pb_worker_id c) ms tbl" "om_outbox_id m \<notin> ids_of ms" and d: "distinct_ids tbl"
    by (auto simp: owned_Cons owned_def)
  from release_claim_owned [OF d r] obtain tbl1 where
    "release_claim (om_outbox_id m) (pb_worker_id c) t (Some code) False (pe_row env (om_outbox_id m)) tbl = (Inr (), tbl1)"
    and t1: "row_of tbl1 = (row_of tbl)(om_outbox_id m \<mapsto> released t (Some code) False (pe_row env (om_outbox_id m)) r)"
      "distinct_ids tbl1" by blast
  with assms(2) have tbl': "tbl' = tbl1" by (simp add: release_safely_def)
  have "outcome row_failed tbl tbl1 m"
    by (rule outcomeI [where change = row_failed, OF r(1) _ released_changes(1,2)]) (simp add: t1(1))
  with t1 owned_other [OF rest(1) t1 rest(2)] show ?thesis by (simp add: tbl' frame_def)
qed

lemma process_message_outcome:
  assumes own: "owned (pb_worker_id c) (m # ms) tbl"
    and proc: "process_message c env sink m tbl w = (exit, tbl', w')"
  shows "frame {om_outbox_id m} tbl tbl' \<and> owned (pb_worker_id c) ms tbl' \<and> w' = snd (sink m w)
     \<and> outcome (if exit = Delivered then row_published else row_failed) tbl tbl' m
     \<and> (exit = Delivered \<longleftrightarrow> fst (sink m w) = Sink_ok)"
proof -
  obtain x w1 where sink: "sink m w = (x, w1)" by fastforce
  have fail: ?thesis if "exit \<noteq> Delivered" "x \<noteq> Sink_ok" "w' = w1" "tbl' = release_safely c env m t code tbl" for t code
    using release_safely_outcome [OF own that(4)] that by (simp add: sink)
  show ?thesis
  proof (cases x)
    case Sink_ok
    from own obtain r where r: "row_of tbl (om_outbox_id m) = Some r" "owns_claim (pb_worker_id c) r"
      and rest: "owned (pb_worker_id c) ms tbl" "om_outbox_id m \<notin> ids_of ms" and d: "distinct_ids tbl"
      by (auto simp: owned_Cons owned_def)
    from mark_published_owned [OF d r] obtain tbl1 where
      mark: "mark_published (om_outbox_id m) (pb_worker_id c) (pe_published env (om_outbox_id m)) tbl = (Inr (), tbl1)"
      and t1: "row_of tbl1 = (row_of tbl)(om_outbox_id m \<mapsto> marked (pe_published env (om_outbox_id m)) r)"
        "distinct_ids tbl1" by blast
    have res: "exit = Delivered" "tbl' = tbl1" "w' = w1"
      using proc by (simp_all add: process_message_def sink Sink_ok mark)
    have "outcome row_published tbl tbl1 m"
      by (rule outcomeI [where change = row_published and
            r' = "marked (pe_published env (om_outbox_id m)) r", OF r(1)])
        (simp_all add: t1(1) marked_def row_changes row_partition_def)
    with t1 owned_other [OF rest(1) t1 rest(2)] show ?thesis by (simp add: res frame_def sink Sink_ok)
  next
    case (Sink_raises e)
    then show ?thesis
      using proc by (intro fail [of "pe_failed env (om_outbox_id m) + timedelta_us (retry_delay c (om_attempts m))"
            "take 128 (failure_code env e)"]) (auto simp: process_message_def sink delivery_failed_def)
  next
    case Sink_cancelled
    then show ?thesis
      using proc by (intro fail [of "pe_failed env (om_outbox_id m)" "''CancelledError''"])
        (auto simp: process_message_def sink)
  qed
qed

subsection \<open>A partition\<close>

lemma renew_claims_owned:
  assumes own: "owned w ms (or_rows repo)" and "ms \<noteq> []" "length ms \<le> 1000" "len_between 1 128 w"
    and renew: "renew_claims (map om_outbox_id ms) w now repo = (res, repo1)"
  shows "res = Inr (now + or_claim_lease repo) \<and> owned w ms (or_rows repo1)
     \<and> frame (ids_of ms) (or_rows repo) (or_rows repo1)
     \<and> (\<forall>m\<in>set ms. outcome row_kept (or_rows repo) (or_rows repo1) m)"
proof -
  let ?tbl = "or_rows repo"
  let ?cond = "\<lambda>r. ob_outbox_id r \<in> ids_of ms \<and> owns_claim w r"
  let ?f = "\<lambda>r. r\<lparr>ob_claim_expires_at := Some (now + or_claim_lease repo), ob_updated_at := now\<rparr>"
  from own have d: "distinct_ids ?tbl" "distinct (map om_outbox_id ms)" by (simp_all add: owned_def)
  have "ob_outbox_id ` set (filter ?cond ?tbl) = ids_of ms"
  proof
    show "ids_of ms \<subseteq> ob_outbox_id ` set (filter ?cond ?tbl)"
    proof
      fix i
      assume i: "i \<in> ids_of ms"
      with own obtain r where r: "row_of ?tbl i = Some r" "owns_claim w r" by (auto simp: owned_def)
      from row_of_id [OF r(1)] i r(2) have "r \<in> set (filter ?cond ?tbl)" "ob_outbox_id r = i" by auto
      then show "i \<in> ob_outbox_id ` set (filter ?cond ?tbl)" by blast
    qed
  qed auto
  moreover have "distinct (map ob_outbox_id (filter ?cond ?tbl))" using d(1) by (simp add: distinct_map_filter)
  ultimately have count: "length (filter ?cond ?tbl) = length ms"
    using d(2) distinct_card [of "map om_outbox_id ms"] distinct_card [of "map ob_outbox_id (filter ?cond ?tbl)"]
    by (simp del: set_filter)
  have id: "ob_outbox_id (?f r) = ob_outbox_id r" for r by simp
  let ?rows = "map (\<lambda>r. if ?cond r then ?f r else r) ?tbl"
  have res: "res = Inr (now + or_claim_lease repo)" "or_rows repo1 = ?rows"
    using renew assms(2-4) d(2) count
    by (auto simp: renew_claims_def Let_def update_rows_def distinct_remdups_id)
  have row: "row_of ?rows i = map_option (\<lambda>r. if ?cond r then ?f r else r) (row_of ?tbl i)" for i
    by (rule row_of_map) simp
  have dist: "distinct_ids ?rows"
    using update_distinct [where f = ?f and P = ?cond, OF id] d(1) by (simp only:)
  have mem: "\<exists>r. row_of ?tbl (om_outbox_id m) = Some r \<and> row_of ?rows (om_outbox_id m) = Some (?f r)
      \<and> owns_claim w r" if "m \<in> set ms" for m
  proof -
    from own that obtain r where r: "row_of ?tbl (om_outbox_id m) = Some r" "owns_claim w r"
      by (auto simp: owned_def)
    with row_of_id [OF r(1)] that have "?cond r" by blast
    with r row show ?thesis by simp
  qed
  have "owned w ms ?rows"
    unfolding owned_def
  proof (intro conjI ballI)
    fix m
    assume "m \<in> set ms"
    from mem [OF this] show "\<exists>r. row_of ?rows (om_outbox_id m) = Some r \<and> owns_claim w r"
      by (auto simp: owns_claim_def)
  qed (rule dist, rule d(2))
  moreover have "frame (ids_of ms) ?tbl ?rows"
    unfolding frame_def
  proof (intro conjI allI impI)
    fix i
    assume i: "i \<notin> ids_of ms"
    show "row_of ?rows i = row_of ?tbl i"
      using row [of i] row_of_id [of ?tbl i] i by (cases "row_of ?tbl i") auto
  qed (rule dist)
  moreover have "outcome row_kept ?tbl ?rows m" if "m \<in> set ms" for m
    using mem [OF that] by (auto simp: outcome_def row_changes row_partition_def)
  ultimately show ?thesis unfolding res by blast
qed

lemma frame_trans: "frame A t1 t2 \<Longrightarrow> frame B t2 t3 \<Longrightarrow> frame (A \<union> B) t1 t3"
  by (simp add: frame_def)

text \<open>The deliveries of an ordered partition: the messages that the sink accepts before it first refuses one.\<close>

fun accepted :: "'w sink \<Rightarrow> outbox_message list \<Rightarrow> 'w \<Rightarrow> outbox_message list" where
  "accepted sink [] w = []"
| "accepted sink (m # ms) w =
     (if fst (sink m w) = Sink_ok then m # accepted sink ms (snd (sink m w)) else [])"

definition refused :: "'w sink \<Rightarrow> outbox_message list \<Rightarrow> 'w \<Rightarrow> outbox_message list" where
  "refused sink ms w = drop (length (accepted sink ms w)) ms"

lemma accepted_refused: "ms = accepted sink ms w @ refused sink ms w"
  by (induction ms arbitrary: w) (simp_all add: refused_def)

lemma accepted_take: "accepted sink ms w = take (length (accepted sink ms w)) ms"
  by (induction ms arbitrary: w) simp_all

lemma refused_Cons:
  "refused sink (m # ms) w = (if fst (sink m w) = Sink_ok then refused sink ms (snd (sink m w)) else m # ms)"
  by (simp add: refused_def)

definition run_sink :: "'w sink \<Rightarrow> outbox_message list \<Rightarrow> 'w \<Rightarrow> 'w" where
  "run_sink sink ms w = fold (\<lambda>m w. snd (sink m w)) ms w"

text \<open>
  The messages of a partition split into a published prefix, at most one failure, and the
  messages behind it.
\<close>

definition settled ::
  "outbox_message list \<Rightarrow> outbox_message list \<Rightarrow> outbox_table \<Rightarrow> outbox_table \<Rightarrow> bool" where
  "settled sent rest tbl tbl' \<longleftrightarrow> (\<forall>m\<in>set sent. outcome row_published tbl tbl' m)
     \<and> (case rest of [] \<Rightarrow> True
        | f # behind \<Rightarrow> outcome row_failed tbl tbl' f \<and> (\<forall>m\<in>set behind. outcome row_returned tbl tbl' m))"

lemma settled_cong:
  assumes "settled sent rest tbl1 tbl2"
    and "\<And>m. m \<in> set (sent @ rest) \<Longrightarrow> row_of tbl (om_outbox_id m) = row_of tbl1 (om_outbox_id m)
      \<and> row_of tbl' (om_outbox_id m) = row_of tbl2 (om_outbox_id m)"
  shows "settled sent rest tbl tbl'"
  using assms unfolding settled_def outcome_def by (cases rest) auto

lemma settled_kept:
  assumes "\<forall>m\<in>set (sent @ rest). outcome row_kept tbl tbl1 m" "settled sent rest tbl1 tbl2"
  shows "settled sent rest tbl tbl2"
  using assms outcome_kept [of tbl tbl1 _ _ tbl2] unfolding settled_def
  by (auto split: list.splits)

lemma process_ordered_settles:
  assumes "owned (pb_worker_id c) ms (or_rows repo)" "valid_publisher c" "length ms \<le> 1000"
    and "process_ordered c env sink lease ms repo w = (exit, repo', w')"
  shows "settled (accepted sink ms w) (refused sink ms w) (or_rows repo) (or_rows repo')
     \<and> frame (ids_of ms) (or_rows repo) (or_rows repo')
     \<and> w' = run_sink sink (accepted sink ms w @ take 1 (refused sink ms w)) w
     \<and> exit \<in> {Partition_done, Partition_cancelled} \<and> (refused sink ms w = [] \<longrightarrow> exit = Partition_done)"
  using assms
proof (induction ms arbitrary: lease repo w)
  case Nil
  then show ?case by (simp add: settled_def frame_def owned_def run_sink_def refused_def)
next
  case (Cons m ms)
  let ?i = "om_outbox_id m" and ?tbl = "or_rows repo"
  have worker: "len_between 1 128 (pb_worker_id c)" using Cons.prems(2) by (simp add: valid_publisher_def)
  obtain lease1 repo1 where ren: "(if claim_renewal_required c (pe_check env ?i) lease
            then (case renew_claims (map om_outbox_id (m # ms)) (pb_worker_id c) (pe_renew env ?i) repo of
                    (Inl e, repo') \<Rightarrow> (Inl e, repo') | (Inr t, repo') \<Rightarrow> (Inr (Some t), repo'))
            else (Inr lease, repo)) = (Inr lease1, repo1)"
    and own1: "owned (pb_worker_id c) (m # ms) (or_rows repo1)"
    and fr1: "frame (ids_of (m # ms)) ?tbl (or_rows repo1)"
    and kept1: "\<forall>x\<in>set (m # ms). outcome row_kept ?tbl (or_rows repo1) x"
  proof (cases "claim_renewal_required c (pe_check env ?i) lease")
    case True
    obtain res repo1 where r: "renew_claims (map om_outbox_id (m # ms)) (pb_worker_id c) (pe_renew env ?i) repo = (res, repo1)"
      by fastforce
    note R = renew_claims_owned [OF Cons.prems(1) list.distinct(2) Cons.prems(3) worker r]
    then have res: "res = Inr (pe_renew env ?i + or_claim_lease repo)" by blast
    show ?thesis
    proof (rule that [of "Some (pe_renew env ?i + or_claim_lease repo)" repo1])
      show "(if claim_renewal_required c (pe_check env ?i) lease
            then (case renew_claims (map om_outbox_id (m # ms)) (pb_worker_id c) (pe_renew env ?i) repo of
                    (Inl e, repo') \<Rightarrow> (Inl e, repo') | (Inr t, repo') \<Rightarrow> (Inr (Some t), repo'))
            else (Inr lease, repo)) = (Inr (Some (pe_renew env ?i + or_claim_lease repo)), repo1)"
        unfolding r res using True by simp
    qed (use R in blast)+
  next
    case False
    have "outcome row_kept ?tbl ?tbl x" if "x \<in> set (m # ms)" for x
      using Cons.prems(1) that unfolding owned_def outcome_def by (fastforce simp: row_changes)
    then show ?thesis using False Cons.prems(1) that [of lease repo] by (auto simp: frame_def owned_def)
  qed
  obtain x tbl2 w2 where proc: "process_message c env sink m (or_rows repo1) w = (x, tbl2, w2)"
    by (cases "process_message c env sink m (or_rows repo1) w") auto
  note P = process_message_outcome [OF own1 proc]
  have step: "process_ordered c env sink lease (m # ms) repo w =
      (case x of Delivered \<Rightarrow> process_ordered c env sink lease1 ms (repo1\<lparr>or_rows := tbl2\<rparr>) w2
       | Not_delivered \<Rightarrow> (Partition_done,
           repo1\<lparr>or_rows := release_partition_tail c env ms ''PartitionBlocked'' tbl2\<rparr>, w2)
       | Process_cancelled \<Rightarrow> (Partition_cancelled,
           repo1\<lparr>or_rows := release_partition_tail c env ms ''CancelledError'' tbl2\<rparr>, w2))"
    unfolding process_ordered.simps Let_def ren by (simp add: proc split: process_exit.split)
  have fresh: "?i \<notin> ids_of ms" using Cons.prems(1) by (simp add: owned_Cons)
  show ?case
  proof (cases "x = Delivered")
    case True
    have own2: "owned (pb_worker_id c) ms (or_rows (repo1\<lparr>or_rows := tbl2\<rparr>))" using P by simp
    have len: "length ms \<le> 1000" using Cons.prems(3) by simp
    have rec: "process_ordered c env sink lease1 ms (repo1\<lparr>or_rows := tbl2\<rparr>) w2 = (exit, repo', w')"
      using Cons.prems(4) True unfolding step by simp
    let ?sent = "accepted sink ms w2" and ?rest = "refused sink ms w2"
    note IH = Cons.IH [OF own2 Cons.prems(2) len rec, simplified] and ms = accepted_refused [of ms sink w2]
    have ok: "fst (sink m w) = Sink_ok" "w2 = snd (sink m w)" using P True by blast+
    have kept2: "\<forall>y\<in>set (?sent @ ?rest). outcome row_kept ?tbl tbl2 y"
    proof
      fix y
      assume "y \<in> set (?sent @ ?rest)"
      then have y: "y \<in> set ms" using ms by simp
      then have "outcome row_kept ?tbl (or_rows repo1) y" using kept1 by simp
      moreover have "om_outbox_id y \<noteq> ?i" using y fresh by (metis imageI)
      then have "row_of tbl2 (om_outbox_id y) = row_of (or_rows repo1) (om_outbox_id y)"
        using P by (simp add: frame_def)
      ultimately show "outcome row_kept ?tbl tbl2 y" by (simp add: outcome_def)
    qed
    have "outcome row_published ?tbl (or_rows repo') m"
    proof (rule outcome_kept)
      show "outcome row_kept ?tbl (or_rows repo1) m" using kept1 by simp
      show "outcome row_published (or_rows repo1) (or_rows repo') m"
        by (rule outcome_frame [of _ "or_rows repo1" tbl2]) (use P True IH fresh in \<open>simp_all add: frame_def\<close>)
    qed simp
    moreover have "settled ?sent ?rest tbl2 (or_rows repo')" using IH by blast
    ultimately have "settled (m # ?sent) ?rest ?tbl (or_rows repo')"
      using settled_kept [OF kept2] by (simp add: settled_def)
    moreover have "frame (ids_of (m # ms)) ?tbl (or_rows repo')"
      using fr1 P IH by (auto simp: frame_def)
    ultimately show ?thesis using IH ok by (simp add: refused_Cons run_sink_def)
  next
    case False
    then obtain code where res: "or_rows repo' = release_partition_tail c env ms code tbl2" "w' = w2"
        "exit \<in> {Partition_done, Partition_cancelled}"
      using Cons.prems(4) unfolding step by (cases x) auto
    from P have own2: "owned (pb_worker_id c) ms tbl2" by blast
    note T = release_tail_outcome [OF own2 res(1)]
    have "outcome row_failed ?tbl (or_rows repo') m"
    proof (rule outcome_kept)
      show "outcome row_kept ?tbl (or_rows repo1) m" using kept1 by simp
      show "outcome row_failed (or_rows repo1) (or_rows repo') m"
        by (rule outcome_frame [of _ "or_rows repo1" tbl2]) (use P False T fresh in \<open>simp_all add: frame_def\<close>)
    qed simp
    moreover have "outcome row_returned ?tbl (or_rows repo') y" if y: "y \<in> set ms" for y
    proof (rule outcome_kept)
      show "outcome row_kept ?tbl (or_rows repo1) y" using kept1 y by simp
      have "om_outbox_id y \<noteq> ?i" using y fresh by (metis imageI)
      then have same: "row_of (or_rows repo1) (om_outbox_id y) = row_of tbl2 (om_outbox_id y)"
        using P by (simp add: frame_def)
      from T y have "outcome row_returned tbl2 (or_rows repo') y" by blast
      from outcome_frame [OF this same refl] show "outcome row_returned (or_rows repo1) (or_rows repo') y" .
    qed simp
    ultimately have "settled [] (m # ms) ?tbl (or_rows repo')" by (simp add: settled_def)
    moreover have "frame (ids_of (m # ms)) ?tbl (or_rows repo')"
      using fr1 P T by (auto simp: frame_def)
    moreover have "fst (sink m w) \<noteq> Sink_ok" "w2 = snd (sink m w)" using P False by blast+
    ultimately show ?thesis using res(2,3) by (simp add: refused_Cons run_sink_def)
  qed
qed

lemma owned_subset:
  "owned w ms tbl \<Longrightarrow> set ms' \<subseteq> set ms \<Longrightarrow> distinct (map om_outbox_id ms') \<Longrightarrow> owned w ms' tbl"
  unfolding owned_def by blast

lemma process_partition_settles:
  assumes "owned (pb_worker_id c) ms (or_rows repo)" "valid_publisher c" "length ms \<le> 1000"
    and "process_partition c env sink ms repo w = (exit, repo', w')" "ordered = sort_key message_sequence ms"
  shows "settled (accepted sink ordered w) (refused sink ordered w) (or_rows repo) (or_rows repo')
     \<and> frame (ids_of ms) (or_rows repo) (or_rows repo')
     \<and> w' = run_sink sink (accepted sink ordered w @ take 1 (refused sink ordered w)) w
     \<and> exit \<in> {Partition_done, Partition_cancelled} \<and> (refused sink ordered w = [] \<longrightarrow> exit = Partition_done)"
proof -
  have "owned (pb_worker_id c) ordered (or_rows repo)"
    using assms(1) by (simp add: owned_def assms(5) distinct_map)
  from process_ordered_settles [OF this assms(2), of env sink "earliest_lease ordered" w exit repo' w'] assms(3,4)
  show ?thesis by (simp add: process_partition_def assms(5) Let_def)
qed

subsection \<open>A batch\<close>

text \<open>The state of the sink when each partition is reached.\<close>

fun partition_worlds :: "'w sink \<Rightarrow> outbox_message list list \<Rightarrow> 'w \<Rightarrow> (outbox_message list \<times> 'w) list" where
  "partition_worlds sink [] w = []"
| "partition_worlds sink (ms # mss) w =
     (let ordered = sort_key message_sequence ms
      in (ordered, w) # partition_worlds sink mss
           (run_sink sink (accepted sink ordered w @ take 1 (refused sink ordered w)) w))"

lemma partition_worlds_sets: "fst ` set (partition_worlds sink mss w) = sort_key message_sequence ` set mss"
  by (induction mss arbitrary: w) (simp_all add: Let_def)

lemma process_partitions_settles:
  assumes "owned (pb_worker_id c) (concat mss) (or_rows repo)" "valid_publisher c" "length (concat mss) \<le> 1000"
    and "process_partitions c env sink mss repo w = (exits, repo', w')"
  shows "(\<forall>(ms, u)\<in>set (partition_worlds sink mss w).
       settled (accepted sink ms u) (refused sink ms u) (or_rows repo) (or_rows repo'))
     \<and> frame (ids_of (concat mss)) (or_rows repo) (or_rows repo')
     \<and> set exits \<subseteq> {Partition_done, Partition_cancelled}
     \<and> ((\<forall>(ms, u)\<in>set (partition_worlds sink mss w). refused sink ms u = []) \<longrightarrow> set exits \<subseteq> {Partition_done})"
  using assms
proof (induction mss arbitrary: repo w exits repo' w')
  case Nil
  then show ?case by (simp add: frame_def owned_def)
next
  case (Cons ms mss)
  let ?o = "sort_key message_sequence ms"
  obtain exit repo1 w1 where first: "process_partition c env sink ms repo w = (exit, repo1, w1)"
    by (cases "process_partition c env sink ms repo w") auto
  obtain exits2 repo2 w2 where rest: "process_partitions c env sink mss repo1 w1 = (exits2, repo2, w2)"
    by (cases "process_partitions c env sink mss repo1 w1") auto
  have res: "exits = exit # exits2" "repo' = repo2" using Cons.prems(4) by (simp_all add: first rest)
  have own: "owned (pb_worker_id c) ms (or_rows repo)" "owned (pb_worker_id c) (concat mss) (or_rows repo)"
    and disj: "ids_of ms \<inter> ids_of (concat mss) = {}"
    using Cons.prems(1) owned_subset [OF Cons.prems(1)] by (auto simp: owned_def)
  have len: "length ms \<le> 1000" "length (concat mss) \<le> 1000" using Cons.prems(3) by simp_all
  note F = process_partition_settles [OF own(1) Cons.prems(2) len(1) first refl]
  then have fr1: "frame (ids_of ms) (or_rows repo) (or_rows repo1)" by blast
  have "owned (pb_worker_id c) (concat mss) (or_rows repo1)"
    using own(2) fr1 disj unfolding owned_def frame_def by (metis IntI empty_iff imageI)
  note R = Cons.IH [OF this Cons.prems(2) len(2) rest]
  then have fr2: "frame (ids_of (concat mss)) (or_rows repo1) (or_rows repo2)" by blast
  have "settled (accepted sink ?o w) (refused sink ?o w) (or_rows repo) (or_rows repo2)"
  proof (rule settled_cong)
    show "settled (accepted sink ?o w) (refused sink ?o w) (or_rows repo) (or_rows repo1)" using F by blast
    fix m
    assume "m \<in> set (accepted sink ?o w @ refused sink ?o w)"
    then have "m \<in> set ms" unfolding accepted_refused [of ?o sink w, symmetric] by simp
    then show "row_of (or_rows repo) (om_outbox_id m) = row_of (or_rows repo) (om_outbox_id m)
        \<and> row_of (or_rows repo2) (om_outbox_id m) = row_of (or_rows repo1) (om_outbox_id m)"
      using disj fr2 unfolding frame_def by blast
  qed
  moreover have "settled (accepted sink qs u) (refused sink qs u) (or_rows repo) (or_rows repo2)"
    if q: "(qs, u) \<in> set (partition_worlds sink mss w1)" for qs u
  proof (rule settled_cong)
    show "settled (accepted sink qs u) (refused sink qs u) (or_rows repo1) (or_rows repo2)" using R q by blast
    fix m
    assume "m \<in> set (accepted sink qs u @ refused sink qs u)"
    then have "m \<in> set qs" unfolding accepted_refused [of qs sink u, symmetric] .
    moreover have "qs \<in> sort_key message_sequence ` set mss"
      using q partition_worlds_sets [of sink mss w1] by force
    ultimately have "m \<in> set (concat mss)" by auto
    then have "om_outbox_id m \<in> ids_of (concat mss)" by (rule imageI)
    then have "om_outbox_id m \<notin> ids_of ms" using disj by blast
    then show "row_of (or_rows repo) (om_outbox_id m) = row_of (or_rows repo1) (om_outbox_id m)
        \<and> row_of (or_rows repo2) (om_outbox_id m) = row_of (or_rows repo2) (om_outbox_id m)"
      using fr1 by (simp add: frame_def)
  qed
  moreover have "frame (ids_of (concat (ms # mss))) (or_rows repo) (or_rows repo2)"
    using frame_trans [OF fr1 fr2] by (simp add: image_Un)
  moreover have "set exits2 \<subseteq> {Partition_done, Partition_cancelled}" "exit \<in> {Partition_done, Partition_cancelled}"
    "refused sink ?o w = [] \<longrightarrow> exit = Partition_done"
    "(\<forall>(ms, u)\<in>set (partition_worlds sink mss w1). refused sink ms u = []) \<longrightarrow> set exits2 \<subseteq> {Partition_done}"
    using F R by blast+
  moreover have worlds: "partition_worlds sink (ms # mss) w = (?o, w) # partition_worlds sink mss w1"
    using F by (simp add: Let_def)
  ultimately show ?case unfolding res worlds by (simp add: Ball_def)
qed

lemma partitions_of_props:
  shows "set (concat (partitions_of ms)) = set ms"
    and "distinct (map om_outbox_id ms) \<Longrightarrow> distinct (map om_outbox_id (concat (partitions_of ms)))"
    and "length (concat (partitions_of ms)) = length ms"
    and "qs \<in> set (partitions_of ms) \<Longrightarrow> \<exists>p. qs = filter (\<lambda>m. message_partition m = p) ms"
    and "m \<in> set ms \<Longrightarrow> filter (\<lambda>x. message_partition x = message_partition m) ms \<in> set (partitions_of ms)"
proof -
  show sets: "set (concat (partitions_of ms)) = set ms" by (auto simp: partitions_of_def)
  have count: "length (concat (map (\<lambda>p. filter (\<lambda>m. message_partition m = p) xs) ps))
      = length (filter (\<lambda>m. message_partition m \<in> set ps) xs)" if "distinct ps" for ps and xs
    using that
  proof (induction ps)
    case (Cons p ps)
    have "length (filter (\<lambda>m. message_partition m \<in> set (p # ps)) xs)
        = length (filter (\<lambda>m. message_partition m = p) xs)
          + length (filter (\<lambda>m. message_partition m \<in> set ps) xs)"
      using Cons.prems by (induction xs) auto
    with Cons show ?case by simp
  qed simp
  show len: "length (concat (partitions_of ms)) = length ms"
    unfolding partitions_of_def by (subst count) simp_all
  show "distinct (map om_outbox_id (concat (partitions_of ms)))" if d: "distinct (map om_outbox_id ms)"
  proof (rule card_distinct)
    show "card (set (map om_outbox_id (concat (partitions_of ms))))
        = length (map om_outbox_id (concat (partitions_of ms)))"
      using distinct_card [OF d] len sets by (simp del: set_concat length_concat add: image_set [symmetric])
  qed
  show "qs \<in> set (partitions_of ms) \<Longrightarrow> \<exists>p. qs = filter (\<lambda>m. message_partition m = p) ms"
    by (auto simp: partitions_of_def)
  show "m \<in> set ms \<Longrightarrow> filter (\<lambda>x. message_partition x = message_partition m) ms \<in> set (partitions_of ms)"
    by (auto simp: partitions_of_def)
qed

lemma claim_batch_owned:
  assumes valid: "valid_outbox (or_rows repo)"
    and claim: "claim_batch locked now mono1 mono2 w limit repo = Inr (msgs, repo1)"
  shows "owned w msgs (or_rows repo1)" "valid_outbox (or_rows repo1)" "int (length msgs) \<le> limit"
proof -
  let ?rec = "recover_expired_claims now (or_rows repo)" and ?mark = "claimed w now (or_claim_lease repo)"
  from claim_batch_spec [OF assms] obtain rows where rows: "set rows \<subseteq> set ?rec" "distinct rows"
      "int (length rows) \<le> limit" "msgs = map (\<lambda>r. to_message (?mark r) (Some (ob_sequence r))) rows"
      "or_rows repo1 = map (\<lambda>r. if r \<in> set rows then ?mark r else r) ?rec" by blast
  have "row_update (\<lambda>r. protected_from r (Claim_batch locked now mono1 mono2 w limit)) (or_rows repo) (or_rows repo1)"
    using outbox_call_update [OF valid, of "Claim_batch locked now mono1 mono2 w limit"] claim by simp
  from row_update_valid(1) [OF this valid] show v1: "valid_outbox (or_rows repo1)" .
  have inj: "inj_on ob_outbox_id (set ?rec)"
    using recover_valid [OF valid, of now] by (simp add: valid_outbox_def distinct_map)
  have ids: "map om_outbox_id msgs = map ob_outbox_id rows" by (simp add: rows(4) to_message_def claimed_def)
  have "distinct (map om_outbox_id msgs)"
    unfolding ids using rows(2) inj_on_subset [OF inj rows(1)] by (simp add: distinct_map)
  moreover have "\<exists>r. row_of (or_rows repo1) (om_outbox_id m) = Some r \<and> owns_claim w r" if "m \<in> set msgs" for m
  proof -
    from that obtain r where r: "r \<in> set rows" "m = to_message (?mark r) (Some (ob_sequence r))"
      unfolding rows(4) by auto
    then have "?mark r \<in> set (or_rows repo1)" using rows(1) unfolding rows(5) by force
    with v1 have "row_of (or_rows repo1) (ob_outbox_id (?mark r)) = Some (?mark r)"
      by (intro row_of_mem) (simp add: valid_outbox_def)
    then show ?thesis by (simp add: r(2) to_message_def owns_claim_def) (simp add: claimed_def)
  qed
  ultimately show "owned w msgs (or_rows repo1)" using v1 by (simp add: owned_def valid_outbox_def)
  show "int (length msgs) \<le> limit" using rows(3,4) by simp
qed

lemma run_once_settles:
  assumes "valid_outbox (or_rows repo)" "valid_publisher c"
    and claim: "claim_batch locked now mono1 mono2 (pb_worker_id c) (pb_batch_size c) repo = Inr (msgs, repo1)"
    and run: "run_once c env sink locked now mono1 mono2 repo w = (res, repo', w')"
  shows "(\<forall>(ms, u)\<in>set (partition_worlds sink (partitions_of msgs) w).
       settled (accepted sink ms u) (refused sink ms u) (or_rows repo1) (or_rows repo'))
     \<and> frame (ids_of msgs) (or_rows repo1) (or_rows repo')
     \<and> res \<in> {Inr (length msgs), Inl Partition_cancelled}
     \<and> ((\<forall>(ms, u)\<in>set (partition_worlds sink (partitions_of msgs) w). refused sink ms u = [])
          \<longrightarrow> res = Inr (length msgs))"
proof -
  let ?mss = "partitions_of msgs"
  note C = claim_batch_owned [OF assms(1) claim]
  show ?thesis
  proof (cases "msgs = []")
    case True
    then show ?thesis
      using run C(1) by (auto simp: run_once_def claim partitions_of_def frame_def owned_def)
  next
    case False
    obtain exits repo2 w2 where proc: "process_partitions c env sink ?mss repo1 w = (exits, repo2, w2)"
      by (cases "process_partitions c env sink ?mss repo1 w") auto
    have res: "res = (case filter (\<lambda>x. x \<noteq> Partition_done) exits of [] \<Rightarrow> Inr (length msgs) | x # _ \<Rightarrow> Inl x)"
        "repo' = repo2"
      using run False by (simp_all add: run_once_def claim proc)
    have "owned (pb_worker_id c) (concat ?mss) (or_rows repo1)"
      using C(1) partitions_of_props(1,2) [of msgs] unfolding owned_def by blast
    moreover have "length (concat ?mss) \<le> 1000"
      using C(3) assms(2) partitions_of_props(3) [of msgs] by (simp add: valid_publisher_def)
    ultimately have P: "(\<forall>(ms, u)\<in>set (partition_worlds sink ?mss w).
       settled (accepted sink ms u) (refused sink ms u) (or_rows repo1) (or_rows repo2))
     \<and> frame (ids_of (concat ?mss)) (or_rows repo1) (or_rows repo2)
     \<and> set exits \<subseteq> {Partition_done, Partition_cancelled}
     \<and> ((\<forall>(ms, u)\<in>set (partition_worlds sink ?mss w). refused sink ms u = []) \<longrightarrow> set exits \<subseteq> {Partition_done})"
      using assms(2) proc by (intro process_partitions_settles)
    have "res \<in> {Inr (length msgs), Inl Partition_cancelled}"
    proof (cases "filter (\<lambda>x. x \<noteq> Partition_done) exits")
      case (Cons x xs)
      then have "x \<in> set (filter (\<lambda>x. x \<noteq> Partition_done) exits)" by simp
      then have "x = Partition_cancelled" using P by auto
      then show ?thesis by (simp add: res Cons)
    qed (simp add: res)
    moreover have "res = Inr (length msgs)" if "set exits \<subseteq> {Partition_done}"
    proof -
      have "filter (\<lambda>x. x \<noteq> Partition_done) exits = []" using that by (auto simp: filter_empty_conv)
      then show ?thesis by (simp add: res)
    qed
    ultimately show ?thesis using P unfolding partitions_of_props(1) res(2) by blast
  qed
qed

lemma world_of_partition:
  assumes "m \<in> set msgs"
  shows "\<exists>u. (sort_key message_sequence (filter (\<lambda>x. message_partition x = message_partition m) msgs), u)
      \<in> set (partition_worlds sink (partitions_of msgs) w)"
proof -
  have "sort_key message_sequence (filter (\<lambda>x. message_partition x = message_partition m) msgs)
      \<in> fst ` set (partition_worlds sink (partitions_of msgs) w)"
    unfolding partition_worlds_sets using partitions_of_props(5) [OF assms] by (rule imageI)
  then show ?thesis by force
qed

lemma world_of_message:
  assumes "m \<in> set msgs"
  shows "\<exists>(ms, u)\<in>set (partition_worlds sink (partitions_of msgs) w). m \<in> set ms"
proof -
  have "m \<in> set (sort_key message_sequence (filter (\<lambda>x. message_partition x = message_partition m) msgs))"
    using assms by simp
  with world_of_partition [OF assms, of sink w] show ?thesis by blast
qed

subsection \<open>Rounds\<close>

text \<open>Every step of the publisher acts on the table through the operations of the repository.\<close>

definition evolves :: "outbox_table \<Rightarrow> outbox_table \<Rightarrow> bool" where
  "evolves tbl tbl' \<longleftrightarrow> (valid_outbox tbl \<longrightarrow> row_update (\<lambda>_. False) tbl tbl')"

lemma evolves_refl [simp]: "evolves tbl tbl"
  by (simp add: evolves_def row_update_refl)

lemma evolves_trans [trans]: "evolves t1 t2 \<Longrightarrow> evolves t2 t3 \<Longrightarrow> evolves t1 t3"
  unfolding evolves_def using row_update_trans row_update_valid(1) by blast

lemma evolves_call: "evolves (or_rows repo) (or_rows (outbox_call c repo))"
proof -
  have "row_update (\<lambda>_. False) t t'" if "row_update keep t t'" for keep t t'
    using that unfolding row_update_def by blast
  then show ?thesis unfolding evolves_def using outbox_call_update by blast
qed

lemma evolves_operations [intro]:
  "evolves tbl (snd (release_claim i w t err restore now tbl))"
  "evolves tbl (snd (mark_published i w t tbl))"
  "renew_claims ids w now repo = (r, repo') \<Longrightarrow> evolves (or_rows repo) (or_rows repo')"
  "claim_batch locked now mono1 mono2 w limit repo = Inr (msgs, repo') \<Longrightarrow> evolves (or_rows repo) (or_rows repo')"
  using evolves_call [of "repo\<lparr>or_rows := tbl\<rparr>" "Release_claim i w t err restore now"]
    evolves_call [of "repo\<lparr>or_rows := tbl\<rparr>" "Mark_published i w t"]
    evolves_call [of repo "Renew_claims ids w now"]
    evolves_call [of repo "Claim_batch locked now mono1 mono2 w limit"] by simp_all

lemma evolves_release_safely [intro]: "evolves tbl (release_safely c env m t code tbl)"
  unfolding release_safely_def by (rule evolves_operations)

lemma evolves_tail [intro]: "evolves tbl (release_partition_tail c env ms code tbl)"
proof -
  have "evolves tbl (fold (\<lambda>m tbl. snd (release_claim (om_outbox_id m) w t e b (u m) tbl)) xs tbl)" for xs w t e b u
    by (induction xs arbitrary: tbl) (auto intro: evolves_trans)
  then show ?thesis
    unfolding release_partition_tail_def by (cases ms) (simp_all only: list.case evolves_refl)
qed

lemma evolves_message:
  assumes "process_message c env sink m tbl w = (exit, tbl', w')"
  shows "evolves tbl tbl'"
proof -
  obtain r tbl1 where mark: "mark_published (om_outbox_id m) (pb_worker_id c) (pe_published env (om_outbox_id m)) tbl
      = (r, tbl1)" by fastforce
  have "evolves tbl tbl1" using evolves_operations(2) [of tbl] mark by (metis snd_conv)
  then show ?thesis
    using assms evolves_trans [OF _ evolves_release_safely] unfolding process_message_def mark delivery_failed_def
    by (auto split: prod.splits sink_exit.splits sum.splits)
qed

lemma evolves_ordered:
  "process_ordered c env sink lease ms repo w = (exit, repo', w') \<Longrightarrow> evolves (or_rows repo) (or_rows repo')"
proof (induction ms arbitrary: lease repo w)
  case (Cons m ms)
  let ?i = "om_outbox_id m"
  let ?renew = "if claim_renewal_required c (pe_check env ?i) lease
            then (case renew_claims (map om_outbox_id (m # ms)) (pb_worker_id c) (pe_renew env ?i) repo of
                    (Inl e, repo') \<Rightarrow> (Inl e, repo') | (Inr t, repo') \<Rightarrow> (Inr (Some t), repo'))
            else (Inr lease, repo)"
  obtain renewal repo1 where ren: "?renew = (renewal, repo1)" by fastforce
  have e1: "evolves (or_rows repo) (or_rows repo1)"
    using ren by (auto split: if_splits prod.splits sum.splits intro: evolves_operations)
  show ?case
  proof (cases renewal)
    case (Inl e)
    have "or_rows repo' = release_partition_tail c env (m # ms) ''LeaseRenewalFailed'' (or_rows repo1)"
      using Cons.prems unfolding process_ordered.simps Let_def ren by (auto simp: Inl)
    with evolves_trans [OF e1 evolves_tail] show ?thesis by simp
  next
    case (Inr lease1)
    obtain x tbl2 w2 where proc: "process_message c env sink m (or_rows repo1) w = (x, tbl2, w2)"
      by (cases "process_message c env sink m (or_rows repo1) w") auto
    have e2: "evolves (or_rows repo) tbl2" by (rule evolves_trans [OF e1 evolves_message [OF proc]])
    have "process_ordered c env sink lease (m # ms) repo w = (case x of Delivered \<Rightarrow> process_ordered c env sink lease1 ms (repo1\<lparr>or_rows := tbl2\<rparr>) w2
       | Not_delivered \<Rightarrow> (Partition_done,
           repo1\<lparr>or_rows := release_partition_tail c env ms ''PartitionBlocked'' tbl2\<rparr>, w2)
       | Process_cancelled \<Rightarrow> (Partition_cancelled,
           repo1\<lparr>or_rows := release_partition_tail c env ms ''CancelledError'' tbl2\<rparr>, w2))"
      unfolding process_ordered.simps Let_def ren by (simp add: Inr proc split: process_exit.split)
    then show ?thesis
      using Cons.prems evolves_trans [OF e2 evolves_tail] evolves_trans [OF e2] Cons.IH [of lease1 "repo1\<lparr>or_rows := tbl2\<rparr>" w2]
      by (cases x) auto
  qed
qed simp

lemma evolves_partitions:
  "process_partitions c env sink mss repo w = (exits, repo', w') \<Longrightarrow> evolves (or_rows repo) (or_rows repo')"
proof (induction mss arbitrary: repo w exits)
  case (Cons ms mss)
  obtain exit repo1 w1 where first: "process_partition c env sink ms repo w = (exit, repo1, w1)"
    by (cases "process_partition c env sink ms repo w") auto
  obtain exits2 repo2 w2 where rest: "process_partitions c env sink mss repo1 w1 = (exits2, repo2, w2)"
    by (cases "process_partitions c env sink mss repo1 w1") auto
  have res: "repo2 = repo'" "w2 = w'" using Cons.prems by (simp_all add: first rest)
  have "evolves (or_rows repo) (or_rows repo1)"
    by (rule evolves_ordered [OF first [unfolded process_partition_def Let_def]])
  also have "evolves (or_rows repo1) (or_rows repo')" by (rule Cons.IH [OF rest [unfolded res]])
  finally show ?case .
qed simp

lemma evolves_run_once:
  assumes "run_once c env sink locked now mono1 mono2 repo w = (res, repo', w')"
  shows "evolves (or_rows repo) (or_rows repo')"
proof (cases "claim_batch locked now mono1 mono2 (pb_worker_id c) (pb_batch_size c) repo")
  case (Inl e)
  then show ?thesis using assms by (simp add: run_once_def)
next
  case (Inr r)
  obtain msgs repo1 where r: "r = (msgs, repo1)" by fastforce
  have e1: "evolves (or_rows repo) (or_rows repo1)" using Inr unfolding r by (rule evolves_operations)
  obtain exits repo2 w2 where proc: "process_partitions c env sink (partitions_of msgs) repo1 w = (exits, repo2, w2)"
    by (cases "process_partitions c env sink (partitions_of msgs) repo1 w") auto
  have "repo' = (if msgs = [] then repo1 else repo2)"
    using assms by (auto simp: run_once_def Inr r proc split: if_splits)
  then show ?thesis using e1 evolves_trans [OF e1 evolves_partitions [OF proc]] by simp
qed

text \<open>
  A batch is settled completely.  When a worker runs one round over a valid outbox, every
  partition of the batch it claims ends as a published prefix (the messages the sink accepts, in
  sequence order, up to its first refusal), the refused message back to pending or dead when its
  attempts are used up, and the messages behind it returned with their attempt given back; no other
  row changes, and the round reports the size of the batch unless the sink was cancelled.
\<close>

theorem batch_settled:
  assumes "valid_outbox (or_rows repo)" "valid_publisher c"
    and "claim_batch locked now mono1 mono2 (pb_worker_id c) (pb_batch_size c) repo = Inr (msgs, repo1)"
    and "run_once c env sink locked now mono1 mono2 repo w = (res, repo', w')"
  shows "(\<forall>(ms, u)\<in>set (partition_worlds sink (partitions_of msgs) w).
       ms = accepted sink ms u @ refused sink ms u
       \<and> settled (accepted sink ms u) (refused sink ms u) (or_rows repo1) (or_rows repo'))
     \<and> (\<forall>m\<in>set msgs. \<exists>(ms, u)\<in>set (partition_worlds sink (partitions_of msgs) w). m \<in> set ms)
     \<and> frame (ids_of msgs) (or_rows repo1) (or_rows repo')
     \<and> res \<in> {Inr (length msgs), Inl Partition_cancelled}
     \<and> ((\<forall>(ms, u)\<in>set (partition_worlds sink (partitions_of msgs) w). refused sink ms u = [])
          \<longrightarrow> res = Inr (length msgs))"
proof (intro conjI)
  note R = run_once_settles [OF assms]
  show "\<forall>(ms, u)\<in>set (partition_worlds sink (partitions_of msgs) w). ms = accepted sink ms u @ refused sink ms u
      \<and> settled (accepted sink ms u) (refused sink ms u) (or_rows repo1) (or_rows repo')"
    using conjunct1 [OF R] by (simp add: Ball_def accepted_refused [symmetric])
  show "\<forall>m\<in>set msgs. \<exists>(ms, u)\<in>set (partition_worlds sink (partitions_of msgs) w). m \<in> set ms"
    by (intro ballI world_of_message)
qed (rule conjunct1 [OF conjunct2 [OF run_once_settles [OF assms]]]
    conjunct1 [OF conjunct2 [OF conjunct2 [OF run_once_settles [OF assms]]]]
    conjunct2 [OF conjunct2 [OF conjunct2 [OF run_once_settles [OF assms]]]])+

subsection \<open>Publication in order\<close>

definition published_sequences :: "tenant \<times> string \<Rightarrow> outbox_table \<Rightarrow> int set" where
  "published_sequences p tbl = ob_sequence ` {r \<in> set tbl. row_partition r = p \<and> ob_state r = OS_PUBLISHED}"

text \<open>A row is staged with the sequence and the partition of its envelope.\<close>

definition row_agrees :: "outbox_row \<Rightarrow> bool" where
  "row_agrees r \<longleftrightarrow> en_partition_key (ob_envelope r) = ob_partition_key r \<and> en_sequence (ob_envelope r) = ob_sequence r"

lemma published_cursor_prefix:
  assumes "published_sequences p tbl = {0..<n}" "0 \<le> n"
  shows "published_cursor p tbl = n"
proof -
  let ?l = "map ob_sequence (filter (\<lambda>r. row_partition r = p \<and> ob_state r = OS_PUBLISHED) tbl)"
  have l: "set ?l = {0..<n}" using assms(1) by (auto simp: published_sequences_def)
  show ?thesis
  proof (cases ?l)
    case Nil
    with l assms(2) have "n = 0" by (cases "0 < n") auto
    then show ?thesis using Nil by (simp add: published_cursor_def)
  next
    case (Cons x xs)
    have "foldl max x xs = Max (set (x # xs))"
      by (simp add: Max.set_eq_fold [symmetric] foldl_conv_fold max.commute cong: fold_cong)
    also have "\<dots> = Max {0..<n}" using l Cons by simp
    also have "\<dots> = n - 1"
    proof (rule Max_eqI)
      have "x \<in> {0..<n}" using l Cons by (metis list.set_intros(1))
      then show "n - 1 \<in> {0..<n}" by simp
    qed auto
    finally show ?thesis using Cons by (simp add: published_cursor_def)
  qed
qed

lemma published_sequences_map:
  assumes "\<And>r. r \<in> set tbl \<Longrightarrow> row_partition (g r) = row_partition r \<and> ob_sequence (g r) = ob_sequence r
      \<and> (ob_state (g r) = OS_PUBLISHED \<longleftrightarrow> ob_state r = OS_PUBLISHED)"
  shows "published_sequences p (map g tbl) = published_sequences p tbl"
proof -
  have "{r \<in> set (map g tbl). row_partition r = p \<and> ob_state r = OS_PUBLISHED}
      = g ` {r \<in> set tbl. row_partition r = p \<and> ob_state r = OS_PUBLISHED}" using assms by auto
  then show ?thesis using assms by (auto simp: published_sequences_def image_image intro!: image_cong)
qed

lemma claim_batch_sequences:
  assumes valid: "valid_outbox (or_rows repo)" and agrees: "list_all row_agrees (or_rows repo)"
    and claim: "claim_batch locked now mono1 mono2 w limit repo = Inr (msgs, repo1)"
  shows "published_sequences p (or_rows repo1) = published_sequences p (or_rows repo)"
    and "\<exists>n. map message_sequence (filter (\<lambda>m. message_partition m = p) msgs)
      = [published_cursor p (or_rows repo) .. published_cursor p (or_rows repo) + int n - 1]"
    and "m \<in> set msgs \<Longrightarrow> row_of (or_rows repo1) (om_outbox_id m) = Some r
      \<Longrightarrow> row_partition r = message_partition m \<and> ob_sequence r = message_sequence m \<and> ob_state r = OS_CLAIMED"
proof -
  let ?rec = "recover_expired_claims now (or_rows repo)" and ?mark = "claimed w now (or_claim_lease repo)"
  from claim_batch_spec [OF valid claim] obtain rows where rows: "set rows \<subseteq> set ?rec"
      "list_all (\<lambda>r. is_candidate now r \<and> \<not> locked (ob_outbox_id r)) rows"
      "\<And>p. \<exists>n. map ob_sequence (filter (\<lambda>r. row_partition r = p) rows)
          = [published_cursor p (or_rows repo) .. published_cursor p (or_rows repo) + int n - 1]"
      "msgs = map (\<lambda>r. to_message (?mark r) (Some (ob_sequence r))) rows"
      "or_rows repo1 = map (\<lambda>r. if r \<in> set rows then ?mark r else r) ?rec" by blast
  have rec: "published_sequences p ?rec = published_sequences p (or_rows repo)"
    unfolding recover_expired_claims_def update_rows_def snd_conv
    by (rule published_sequences_map) (auto simp: row_partition_def expired_claim_def)
  have "published_sequences p (or_rows repo1) = published_sequences p ?rec"
    unfolding rows(5)
    by (rule published_sequences_map)
      (use rows(2) in \<open>auto simp: row_partition_def claimed_def is_candidate_def list_all_iff\<close>)
  with rec show "published_sequences p (or_rows repo1) = published_sequences p (or_rows repo)" by simp
  have "list_all row_agrees ?rec"
    using agrees by (auto simp: recover_expired_claims_def update_rows_def list_all_iff row_agrees_def)
  then have ok: "row_agrees r" if "r \<in> set rows" for r using rows(1) that by (auto simp: list_all_iff)
  have msg: "message_partition (to_message (?mark r) n) = row_partition r"
    "message_sequence (to_message (?mark r) n) = ob_sequence r" if "r \<in> set rows" for r n
    using ok [OF that]
    by (simp_all add: row_agrees_def message_partition_def message_sequence_def to_message_def claimed_def
        row_partition_def)
  have "map message_sequence (filter (\<lambda>m. message_partition m = p) msgs)
      = map ob_sequence (filter (\<lambda>r. row_partition r = p) rows)"
    unfolding rows(4) using msg by (induction rows) auto
  with rows(3) [of p] show "\<exists>n. map message_sequence (filter (\<lambda>m. message_partition m = p) msgs)
      = [published_cursor p (or_rows repo) .. published_cursor p (or_rows repo) + int n - 1]" by simp
  assume m: "m \<in> set msgs" and r: "row_of (or_rows repo1) (om_outbox_id m) = Some r"
  from m obtain r0 where r0: "r0 \<in> set rows" "m = to_message (?mark r0) (Some (ob_sequence r0))"
    unfolding rows(4) by auto
  then have "?mark r0 \<in> set (or_rows repo1)" using rows(1) unfolding rows(5) by force
  then have "row_of (or_rows repo1) (ob_outbox_id (?mark r0)) = Some (?mark r0)"
    using claim_batch_owned(2) [OF valid claim] by (intro row_of_mem) (simp add: valid_outbox_def)
  with r r0(2) have "r = ?mark r0" by (simp add: to_message_def)
  then show "row_partition r = message_partition m \<and> ob_sequence r = message_sequence m \<and> ob_state r = OS_CLAIMED"
    using msg [OF r0(1)] r0(2) by (simp add: claimed_def row_partition_def)
qed

lemma not_published_outcome:
  assumes "outcome change tbl1 tbl' m" "change \<in> {row_failed, row_returned}" "row_of tbl' (om_outbox_id m) = Some r'"
  shows "ob_state r' \<noteq> OS_PUBLISHED"
  using assms by (auto simp: outcome_def row_changes split: if_splits)

lemma settled_published:
  assumes "settled sent rest tbl1 tbl'" "m \<in> set (sent @ rest)" "row_of tbl' (om_outbox_id m) = Some r'"
    and "ob_state r' = OS_PUBLISHED"
  shows "m \<in> set sent"
proof (rule ccontr)
  assume "m \<notin> set sent"
  then have "m \<in> set rest" using assms(2) by simp
  then obtain change where "outcome change tbl1 tbl' m" "change \<in> {row_failed, row_returned}"
    using assms(1) unfolding settled_def by (cases rest) auto
  from not_published_outcome [OF this assms(3)] assms(4) show False by simp
qed

lemma settled_same_key:
  assumes "settled sent rest tbl1 tbl'" "m \<in> set (sent @ rest)"
  shows "\<exists>r r'. row_of tbl1 (om_outbox_id m) = Some r \<and> row_of tbl' (om_outbox_id m) = Some r' \<and> same_key r r'"
proof -
  obtain change where "outcome change tbl1 tbl' m"
    using assms unfolding settled_def by (cases rest) auto
  then show ?thesis unfolding outcome_def by blast
qed

lemma take_upto_int: "take k [i .. i + int n - 1] = [i .. i + int (min k n) - 1]"
proof (rule nth_equalityI)
  fix j
  assume "j < length (take k [i .. i + int n - 1])"
  then have "j < k" "j < n" by simp_all
  then show "take k [i .. i + int n - 1] ! j = [i .. i + int (min k n) - 1] ! j" by simp
qed simp

text \<open>The published sequences of a partition grow by the settled messages of the partition.\<close>

lemma published_grows:
  assumes tbl1: "distinct_ids tbl1" and fr: "frame (ids_of msgs) tbl1 tbl'"
    and row: "\<And>m r. m \<in> set msgs \<Longrightarrow> row_of tbl1 (om_outbox_id m) = Some r
      \<Longrightarrow> row_partition r = message_partition m \<and> ob_sequence r = message_sequence m \<and> ob_state r = OS_CLAIMED"
    and key: "\<And>m. m \<in> set msgs \<Longrightarrow> \<exists>r r'. row_of tbl1 (om_outbox_id m) = Some r
      \<and> row_of tbl' (om_outbox_id m) = Some r' \<and> same_key r r'"
    and sent: "settled sent rest tbl1 tbl'" "filter (\<lambda>m. message_partition m = p) msgs = sent @ rest"
  shows "published_sequences p tbl' = published_sequences p tbl1 \<union> message_sequence ` set sent"
proof (intro equalityI subsetI)
  have mem: "m \<in> set (sent @ rest) \<longleftrightarrow> m \<in> set msgs \<and> message_partition m = p" for m
    unfolding sent(2) [symmetric] by simp
  fix x
  {
    assume "x \<in> published_sequences p tbl'"
    then obtain r' where r': "r' \<in> set tbl'" "row_partition r' = p" "ob_state r' = OS_PUBLISHED" "x = ob_sequence r'"
      by (auto simp: published_sequences_def)
    have row': "row_of tbl' (ob_outbox_id r') = Some r'" using fr r'(1) by (simp add: row_of_mem frame_def)
    show "x \<in> published_sequences p tbl1 \<union> message_sequence ` set sent"
    proof (cases "ob_outbox_id r' \<in> ids_of msgs")
      case False
      with fr row' have "row_of tbl1 (ob_outbox_id r') = Some r'" by (simp add: frame_def)
      then have "r' \<in> set tbl1" by (blast dest: row_of_id)
      with r' show ?thesis by (auto simp: published_sequences_def)
    next
      case True
      then obtain m where m: "m \<in> set msgs" "om_outbox_id m = ob_outbox_id r'" by auto
      obtain r where r: "row_of tbl1 (om_outbox_id m) = Some r" "same_key r r'"
        using key [OF m(1)] row' m(2) by auto
      from row [OF m(1) r(1)] r(2) r'(2) have mp: "message_partition m = p" "message_sequence m = x"
        by (simp_all add: same_key_def r'(4))
      have "m \<in> set sent"
        by (rule settled_published [OF sent(1) _ _ r'(3)]) (use m mp mem row' in simp_all)
      with mp(2) show ?thesis by blast
    qed
  next
    assume "x \<in> published_sequences p tbl1 \<union> message_sequence ` set sent"
    then consider r where "r \<in> set tbl1" "row_partition r = p" "ob_state r = OS_PUBLISHED" "x = ob_sequence r"
      | m where "m \<in> set sent" "x = message_sequence m" by (auto simp: published_sequences_def)
    then show "x \<in> published_sequences p tbl'"
    proof cases
      case 1
      have row1: "row_of tbl1 (ob_outbox_id r) = Some r" using tbl1 1(1) by (simp add: row_of_mem)
      have "ob_outbox_id r \<notin> ids_of msgs"
      proof
        assume "ob_outbox_id r \<in> ids_of msgs"
        then obtain m where "m \<in> set msgs" "om_outbox_id m = ob_outbox_id r" by auto
        with row [of m r] row1 1(3) show False by simp
      qed
      with fr row1 have "row_of tbl' (ob_outbox_id r) = Some r" by (simp add: frame_def)
      then have "r \<in> set tbl'" by (blast dest: row_of_id)
      with 1 show ?thesis by (auto simp: published_sequences_def)
    next
      case 2
      then have mq: "m \<in> set msgs" "message_partition m = p" using mem [of m] by simp_all
      from sent(1) 2(1) have "outcome row_published tbl1 tbl' m" unfolding settled_def by blast
      then obtain r r' where r: "row_of tbl1 (om_outbox_id m) = Some r" "row_of tbl' (om_outbox_id m) = Some r'"
        "same_key r r'" "row_published r r'" unfolding outcome_def by blast
      have "r' \<in> set tbl'" using row_of_id [OF r(2)] by blast
      moreover have "row_partition r' = p" "ob_sequence r' = x" "ob_state r' = OS_PUBLISHED"
        using r(3,4) row [OF mq(1) r(1)] mq(2) 2(2) by (simp_all add: same_key_def row_published_def)
      ultimately show ?thesis by (auto simp: published_sequences_def)
    qed
  }
qed

lemma run_once_published:
  assumes valid: "valid_outbox (or_rows repo)" "valid_publisher c" and agrees: "list_all row_agrees (or_rows repo)"
    and claim: "claim_batch locked now mono1 mono2 (pb_worker_id c) (pb_batch_size c) repo = Inr (msgs, repo1)"
    and run: "run_once c env sink locked now mono1 mono2 repo w = (res, repo', w')"
  shows "\<exists>k. published_sequences p (or_rows repo') = published_sequences p (or_rows repo)
      \<union> {published_cursor p (or_rows repo) ..< published_cursor p (or_rows repo) + int k}"
proof -
  let ?tbl1 = "or_rows repo1" and ?tbl' = "or_rows repo'" and ?cur = "published_cursor p (or_rows repo)"
  let ?q = "\<lambda>p. filter (\<lambda>m. message_partition m = p) msgs"
  note S = claim_batch_sequences [OF valid(1) agrees claim] and R = run_once_settles [OF valid claim run]
  have fr: "frame (ids_of msgs) ?tbl1 ?tbl'" using R by blast
  have settled: "\<exists>sent rest. settled sent rest ?tbl1 ?tbl' \<and> ?q p = sent @ rest" for p
  proof (cases "?q p = []")
    case True
    then show ?thesis by (intro exI [of _ "[]"]) (simp add: settled_def)
  next
    case False
    then obtain m where m: "m \<in> set msgs" "message_partition m = p" by (auto simp: filter_empty_conv)
    from S(2) obtain n where "map message_sequence (?q p)
        = [published_cursor p (or_rows repo) .. published_cursor p (or_rows repo) + int n - 1]" by blast
    then have "sort_key message_sequence (?q p) = ?q p" by (simp add: sort_key_id_if_sorted)
    with world_of_partition [OF m(1), of sink w] m(2) obtain u
      where "(?q p, u) \<in> set (partition_worlds sink (partitions_of msgs) w)" by auto
    with conjunct1 [OF R] have "settled (accepted sink (?q p) u) (refused sink (?q p) u) ?tbl1 ?tbl'" by blast
    then show ?thesis using accepted_refused [of "?q p" sink u] by blast
  qed
  have key: "\<exists>r r'. row_of ?tbl1 (om_outbox_id m) = Some r \<and> row_of ?tbl' (om_outbox_id m) = Some r'
      \<and> same_key r r'" if m: "m \<in> set msgs" for m
  proof -
    from settled obtain sent rest where "settled sent rest ?tbl1 ?tbl'" "?q (message_partition m) = sent @ rest"
      by blast
    moreover have "m \<in> set (?q (message_partition m))" using m by simp
    ultimately show ?thesis using settled_same_key by metis
  qed
  from settled obtain sent rest where sent: "settled sent rest ?tbl1 ?tbl'" "?q p = sent @ rest" by blast
  from S(2) obtain n where n: "map message_sequence (?q p) = [?cur .. ?cur + int n - 1]" by blast
  have "map message_sequence sent = take (length sent) (map message_sequence (?q p))"
    by (simp add: sent(2))
  then have "map message_sequence sent = [?cur .. ?cur + int (min (length sent) n) - 1]"
    unfolding n by (simp only: take_upto_int)
  then have "set (map message_sequence sent) = {?cur .. ?cur + int (min (length sent) n) - 1}"
    by (simp only: set_upto)
  also have "\<dots> = {?cur ..< ?cur + int (min (length sent) n)}" by auto
  finally have "message_sequence ` set sent = {?cur ..< ?cur + int (min (length sent) n)}" by simp
  moreover have "distinct_ids ?tbl1"
    using claim_batch_owned(2) [OF valid(1) claim] by (simp add: valid_outbox_def)
  then have "published_sequences p ?tbl' = published_sequences p ?tbl1 \<union> message_sequence ` set sent"
    using fr S(3) key sent by (rule published_grows)
  ultimately have "published_sequences p ?tbl'
      = published_sequences p (or_rows repo) \<union> {?cur ..< ?cur + int (min (length sent) n)}"
    by (simp only: S(1))
  then show ?thesis by (rule exI)
qed

text \<open>Rounds of any workers, one after the other.\<close>

record round =
  ro_publisher :: publisher
  ro_env :: publisher_env
  ro_locked :: "uuid \<Rightarrow> bool"
  ro_now :: timestamp
  ro_mono :: "rat \<times> rat"

fun rounds :: "'w sink \<Rightarrow> round list \<Rightarrow> dispatcher_repo \<Rightarrow> 'w \<Rightarrow> dispatcher_repo \<times> 'w" where
  "rounds sink [] repo w = (repo, w)"
| "rounds sink (x # xs) repo w =
     (case run_once (ro_publisher x) (ro_env x) sink (ro_locked x) (ro_now x) (fst (ro_mono x)) (snd (ro_mono x)) repo w of
        (_, repo', w') \<Rightarrow> rounds sink xs repo' w')"

definition published_in_order :: "outbox_table \<Rightarrow> bool" where
  "published_in_order tbl \<longleftrightarrow> (\<forall>p. published_sequences p tbl = {0 ..< published_cursor p tbl} \<and> 0 \<le> published_cursor p tbl)"

lemma published_in_orderI:
  assumes "\<And>p. \<exists>n\<ge>0. published_sequences p tbl = {0 ..< n}"
  shows "published_in_order tbl"
  unfolding published_in_order_def
proof
  fix p
  from assms obtain n where "0 \<le> n" "published_sequences p tbl = {0 ..< n}" by blast
  with published_cursor_prefix [OF this(2,1)]
  show "published_sequences p tbl = {0 ..< published_cursor p tbl} \<and> 0 \<le> published_cursor p tbl" by simp
qed

lemma run_once_in_order:
  assumes valid: "valid_outbox (or_rows repo)" "valid_publisher c" and agrees: "list_all row_agrees (or_rows repo)"
    and order: "published_in_order (or_rows repo)"
    and run: "run_once c env sink locked now mono1 mono2 repo w = (res, repo', w')"
  shows "valid_outbox (or_rows repo') \<and> list_all row_agrees (or_rows repo') \<and> published_in_order (or_rows repo')
     \<and> (\<forall>p. published_cursor p (or_rows repo) \<le> published_cursor p (or_rows repo'))"
proof -
  have upd: "row_update (\<lambda>_. False) (or_rows repo) (or_rows repo')"
    using evolves_run_once [OF run] valid(1) by (simp add: evolves_def)
  have "list_all row_agrees (or_rows repo')"
    using upd agrees unfolding row_update_def by (auto simp: list_all_iff row_agrees_def row_partition_def)
  moreover have "published_sequences p (or_rows repo') = {0 ..< published_cursor p (or_rows repo')}
      \<and> published_cursor p (or_rows repo) \<le> published_cursor p (or_rows repo')" for p
  proof (cases "claim_batch locked now mono1 mono2 (pb_worker_id c) (pb_batch_size c) repo")
    case (Inl e)
    then have "repo' = repo" using run by (simp add: run_once_def)
    then show ?thesis using order unfolding published_in_order_def by blast
  next
    case (Inr r)
    obtain msgs repo1 where r: "r = (msgs, repo1)" by fastforce
    let ?cur = "published_cursor p (or_rows repo)"
    from run_once_published [OF valid agrees Inr [unfolded r] run, of p] obtain k where
      "published_sequences p (or_rows repo') = published_sequences p (or_rows repo) \<union> {?cur ..< ?cur + int k}" by blast
    moreover have cur: "published_sequences p (or_rows repo) = {0 ..< ?cur}" "0 \<le> ?cur"
      using order unfolding published_in_order_def by blast+
    ultimately have seqs: "published_sequences p (or_rows repo') = {0 ..< ?cur + int k}"
      using ivl_disj_un_two(3) [of 0 ?cur "?cur + int k"] by simp
    from published_cursor_prefix [OF this] cur(2) have "published_cursor p (or_rows repo') = ?cur + int k" by simp
    with seqs show ?thesis by simp
  qed
  ultimately show ?thesis
    using row_update_valid(1) [OF upd valid(1)] order unfolding published_in_order_def by (meson order_trans)
qed

text \<open>
  C26.  Publication is in order.  Let any workers run rounds over a valid outbox whose rows
  carry the sequence and partition of their envelopes and whose published sequences are 0, 1, 2, ...
  without a gap in every partition, whatever the sink does.  Then the table stays valid, the published
  sequences of every partition stay without a gap, and no published cursor ever moves back.
\<close>

theorem publication_in_order:
  assumes "valid_outbox (or_rows repo)" "list_all row_agrees (or_rows repo)" "published_in_order (or_rows repo)"
    and "list_all (\<lambda>x. valid_publisher (ro_publisher x)) xs" "rounds sink xs repo w = (repo', w')"
  shows "valid_outbox (or_rows repo') \<and> published_in_order (or_rows repo')
     \<and> (\<forall>p. published_cursor p (or_rows repo) \<le> published_cursor p (or_rows repo'))"
  using assms
proof (induction xs arbitrary: repo w)
  case (Cons x xs)
  obtain res repo1 w1 where step: "run_once (ro_publisher x) (ro_env x) sink (ro_locked x) (ro_now x)
      (fst (ro_mono x)) (snd (ro_mono x)) repo w = (res, repo1, w1)" by (rule prod_cases3)
  have "valid_publisher (ro_publisher x)" "list_all (\<lambda>x. valid_publisher (ro_publisher x)) xs"
    using Cons.prems(4) by simp_all
  note R = run_once_in_order [OF Cons.prems(1) this(1) Cons.prems(2,3) step]
  have "rounds sink xs repo1 w1 = (repo', w')" using Cons.prems(5) by (simp add: step)
  with R Cons.IH [of repo1 w1] \<open>list_all _ xs\<close> show ?case by (meson order_trans)
qed simp

subsection \<open>A delivery that could not be marked\<close>

lemma drain_expected: "drain_partition ops p b = (r, b') \<Longrightarrow> bs_expected b q \<le> bs_expected b' q"
proof (induction ops p b arbitrary: r b' rule: drain_partition.induct)
  case (1 ops p b)
  show ?case
  proof (cases "map_of (bs_pending b p) (bs_expected b p)")
    case None
    then show ?thesis using 1(2) by (simp add: drain_partition.simps [of ops p b])
  next
    case (Some x)
    obtain e d where x: "x = (e, d)" by fastforce
    obtain r1 b1 where ex: "execute_reserved ops e d (take_pending p (bs_expected b p) b) = (r1, b1)" by fastforce
    have b1: "bs_expected b1 = bs_expected b" using execute_reserved_frame(2) [OF ex] by (simp add: take_pending_def)
    show ?thesis
    proof (cases r1)
      case (Inl y)
      then have "b' = b1" using 1(2) by (cases y) (simp_all add: drain_partition.simps [of ops p b] Some x ex)
      with b1 show ?thesis by simp
    next
      case (Inr u)
      have "drain_partition ops p (advance p b1) = (r, b')"
        using 1(2) by (simp add: drain_partition.simps [of ops p b] Some x ex Inr)
      from 1(1) [OF Some x [symmetric] ex [symmetric] Inr this] b1 show ?thesis
        by (cases "q = p") (simp_all add: advance_def)
    qed
  qed
qed

lemma publish_expected:
  assumes "publish ops h now e b = (r, b')"
  shows "bs_expected b q \<le> bs_expected b' q
     \<and> (\<forall>res. r = Inr res \<longrightarrow> dr_status res = DS_PROCESSED \<longrightarrow> en_sequence e < bs_expected b' (partition_of e))"
proof -
  let ?p = "partition_of e" and ?d = "delivery_digest h e"
  obtain r0 s where res: "io_reserve ops (key_of e) ?d (bs_store b) = (r0, s)" by fastforce
  let ?b1 = "b\<lparr>bs_store := s\<rparr>"
  obtain r1 b2 where ex: "execute_reserved ops e ?d ?b1 = (r1, b2)" by fastforce
  have b2: "bs_expected b2 = bs_expected b" using execute_reserved_frame(2) [OF ex] by simp
  obtain r2 b3 where dr: "drain_partition ops ?p (advance ?p b2) = (r2, b3)" by fastforce
  have b3: "bs_expected b q \<le> bs_expected b3 q" "bs_expected b ?p + 1 \<le> bs_expected b3 ?p" for q
    using drain_expected [OF dr, of q] drain_expected [OF dr, of ?p] by (simp_all add: advance_def b2 split: if_splits)
  have ab: "bs_expected b4 = bs_expected b" "r' = Inr y \<Longrightarrow> False"
    if "abort_and_raise ops e ?d err ?b1 = (r', b4)" for err r' b4 y
    using that by (auto simp: abort_and_raise_def split: prod.splits sum.splits)
  show ?thesis
    using assms b2 b3
    by (auto dest: ab simp: publish_def Let_def res ex dr dispatch_result_of_def split: sum.splits if_splits)
qed

lemma bus_call_expected: "bs_expected b q \<le> bs_expected (bus_call ops h c b) q"
proof (cases c)
  case (Publish now e)
  then show ?thesis using publish_expected [of ops h now e b] by (metis bus_call.simps(1) prod.collapse)
qed (auto simp: restore_partition_cursor_def register_handler_def close_bus_def)

lemma bus_calls_expected: "bs_expected b q \<le> bs_expected (fold (\<lambda>(ops, c). bus_call ops h c) calls b) q"
proof (induction calls arbitrary: b)
  case (Cons x calls)
  obtain ops c where x: "x = (ops, c)" by fastforce
  show ?case using order_trans [OF bus_call_expected [of b q ops h c] Cons.IH] by (simp add: x)
qed simp

text \<open>
  C27.  A delivery that could not be marked cannot be acknowledged.  Suppose the bus has processed a
  message, and the outbox still has the cursor at its sequence, because marking it published failed.
  Then whatever calls the bus receives afterwards, the sink rejects every further delivery of the
  message, does not change the bus, and the publisher counts a failed attempt (and at last declares
  the message dead, although it was processed).
\<close>

theorem unmarked_delivery_wedges:
  assumes "publish ops0 h now0 (om_envelope m) b0 = (Inr res, b1)" "dr_status res = DS_PROCESSED"
    and "om_published_cursor m = Some (en_sequence (om_envelope m))"
    and "b2 = fold (\<lambda>(ops, c). bus_call ops h c) calls b1"
  shows "(\<exists>err. bus_sink ops h now lookup m b2 = (Sink_raises err, b2))
     \<and> fst (process_message c env (bus_sink ops h now lookup) m tbl b2) = Not_delivered"
proof -
  let ?p = "partition_of (om_envelope m)"
  have less: "en_sequence (om_envelope m) < bs_expected b2 ?p"
    using publish_expected [OF assms(1)] bus_calls_expected [of b1 ?p h calls] assms(2,4)
    by (metis order_less_le_trans)
  have "\<exists>err. bus_sink ops h now lookup m b2 = (Sink_raises err, b2)"
    using less assms(3) by (auto simp: bus_sink_def Let_def restore_partition_cursor_def partition_of_def)
  then show ?thesis by (auto simp: process_message_def)
qed

subsection \<open>A concrete publisher\<close>

definition sample_publisher :: publisher where
  "sample_publisher =
     \<lparr>pb_worker_id = ''worker'', pb_batch_size = 32, pb_poll_interval = 1 / 2, pb_delivery_timeout = 25,
      pb_retry_base = 1 / 4, pb_retry_max = 30\<rparr>"

definition sample_publisher_env :: publisher_env where
  "sample_publisher_env =
     \<lparr>pe_check = (\<lambda>_. 10), pe_renew = (\<lambda>_. 11), pe_published = (\<lambda>_. 12), pe_failed = (\<lambda>_. 13), pe_tail = (\<lambda>_. 14),
      pe_row = (\<lambda>_. 15), pe_class_name = (\<lambda>_. ''ValueError'')\<rparr>"

text \<open>A sink that accepts one message and then refuses.\<close>

definition sample_sink :: "nat sink" where
  "sample_sink m n = (if n < 1 then (Sink_ok, n + 1) else (Sink_raises (Foreign_error ''down''), n))"

definition sample_round :: round where
  "sample_round = \<lparr>ro_publisher = sample_publisher, ro_env = sample_publisher_env, ro_locked = (\<lambda>_. False),
     ro_now = 10, ro_mono = (0, 0)\<rparr>"

text \<open>The sample outbox with envelopes that agree with their rows.\<close>

definition agreeing_repo :: dispatcher_repo where
  "agreeing_repo = sample_repo\<lparr>or_rows := map (\<lambda>r. r\<lparr>ob_envelope := (ob_envelope r)
     \<lparr>en_sequence := ob_sequence r, en_partition_key := ob_partition_key r\<rparr>\<rparr>) (or_rows sample_repo)\<rparr>"

lemma sample_publisher_valid: "valid_publisher sample_publisher"
  by (simp add: valid_publisher_def sample_publisher_def len_between_def)

lemma agreeing_repo_valid: "valid_outbox (or_rows agreeing_repo)"
  by code_simp

lemma agreeing_repo_agrees: "list_all row_agrees (or_rows agreeing_repo)"
  by code_simp

lemma agreeing_repo_keys:
  "map (\<lambda>r. (row_partition r, ob_state r, ob_sequence r)) (or_rows agreeing_repo)
     = [((''tenant-1'', ''p''), OS_PUBLISHED, 0), ((''tenant-1'', ''p''), OS_PENDING, 2),
        ((''tenant-1'', ''p''), OS_PENDING, 1), ((''tenant-1'', ''p''), OS_PENDING, 4)]"
  by code_simp

lemma agreeing_repo_order: "published_in_order (or_rows agreeing_repo)"
proof (rule published_in_orderI)
  fix p
  have "published_sequences p (or_rows agreeing_repo)
      = set (map (snd \<circ> snd) (filter (\<lambda>x. fst x = p \<and> fst (snd x) = OS_PUBLISHED)
          (map (\<lambda>r. (row_partition r, ob_state r, ob_sequence r)) (or_rows agreeing_repo))))"
    by (simp add: published_sequences_def filter_map comp_def)
  also have "\<dots> = {0 ..< (if p = (''tenant-1'', ''p'') then 1 else 0)}"
    unfolding agreeing_repo_keys by (cases "p = (''tenant-1'', ''p'')") auto
  finally have "published_sequences p (or_rows agreeing_repo) = {0 ..< (if p = (''tenant-1'', ''p'') then 1 else 0)}" .
  then show "\<exists>n\<ge>0. published_sequences p (or_rows agreeing_repo) = {0 ..< n}"
    by (intro exI [of _ "if p = (''tenant-1'', ''p'') then 1 else 0"]) simp
qed

lemma agreeing_repo_claim:
  "map_sum id (map om_outbox_id \<circ> fst) (claim_batch (\<lambda>_. False) 10 0 0 ''worker'' 32 agreeing_repo)
     = Inr [''a1'', ''a2'']"
  by code_simp

lemma agreeing_repo_run:
  "map (\<lambda>r. (ob_outbox_id r, ob_state r, ob_attempts r)) (or_rows (fst (rounds sample_sink [sample_round] agreeing_repo 0)))
     = [(''a0'', OS_PUBLISHED, 0), (''a2'', OS_PENDING, 1), (''a1'', OS_PUBLISHED, 1), (''a4'', OS_PENDING, 0)]"
  by code_simp

theorem batch_settled_witness:
  "\<exists>msgs repo1 res repo' w'. claim_batch (\<lambda>_. False) 10 0 0 ''worker'' 32 agreeing_repo = Inr (msgs, repo1)
     \<and> length msgs = 2 \<and> run_once sample_publisher sample_publisher_env sample_sink (\<lambda>_. False) 10 0 0 agreeing_repo 0
         = (res, repo', w')
     \<and> res \<in> {Inr 2, Inl Partition_cancelled} \<and> frame (ids_of msgs) (or_rows repo1) (or_rows repo')"
proof -
  have c: "pb_worker_id sample_publisher = ''worker''" "pb_batch_size sample_publisher = 32"
    by (simp_all add: sample_publisher_def)
  obtain msgs repo1 where m: "claim_batch (\<lambda>_. False) 10 0 0 ''worker'' 32 agreeing_repo = Inr (msgs, repo1)"
      and i: "map om_outbox_id msgs = [''a1'', ''a2'']"
    using agreeing_repo_claim
    by (cases "claim_batch (\<lambda>_. False) 10 0 0 ''worker'' 32 agreeing_repo") auto
  have len: "length msgs = 2" using i by auto
  obtain res repo' w' where r: "run_once sample_publisher sample_publisher_env sample_sink (\<lambda>_. False) 10 0 0
      agreeing_repo 0 = (res, repo', w')" by (rule prod_cases3)
  note B = batch_settled [OF agreeing_repo_valid sample_publisher_valid m [folded c] r]
  have "res \<in> {Inr 2, Inl Partition_cancelled}" "frame (ids_of msgs) (or_rows repo1) (or_rows repo')"
    using B len by simp_all
  with m r len show ?thesis by (intro exI conjI)
qed

theorem publication_in_order_witness:
  "published_in_order (or_rows (fst (rounds sample_sink [sample_round] agreeing_repo 0)))
     \<and> map (\<lambda>r. (ob_outbox_id r, ob_state r, ob_attempts r)) (or_rows (fst (rounds sample_sink [sample_round] agreeing_repo 0)))
       = [(''a0'', OS_PUBLISHED, 0), (''a2'', OS_PENDING, 1), (''a1'', OS_PUBLISHED, 1), (''a4'', OS_PENDING, 0)]"
proof -
  have "list_all (\<lambda>x. valid_publisher (ro_publisher x)) [sample_round]"
    using sample_publisher_valid by (simp add: sample_round_def)
  from publication_in_order [OF agreeing_repo_valid agreeing_repo_agrees agreeing_repo_order this
      prod.collapse [symmetric], of sample_sink 0] agreeing_repo_run
  show ?thesis by simp
qed

text \<open>The first message of the sample bus, processed and then offered again.\<close>

definition unmarked_message :: outbox_message where
  "unmarked_message =
     \<lparr>om_outbox_id = ''m0'', om_tenant_id = ''tenant-1'', om_envelope = sample_envelope 0 ''key-000000000000'',
      om_created_at = 0, om_available_at = 0, om_published_at = None, om_attempts = 1, om_max_attempts = 3,
      om_claimed_at = Some 0, om_claim_expires_at = Some 30, om_published_cursor = Some 0\<rparr>"

definition registered_bus :: "(memory_store, unit) bus" where
  "registered_bus = bus_run mem_ops sample_hash_env [Register ''demo.event'' (''ok'', \<lambda>_ w. (Inr (), w))] sample_bus"

lemma unmarked_first:
  "map_sum (\<lambda>_. ()) dr_status (fst (publish mem_ops sample_hash_env 0 (om_envelope unmarked_message) registered_bus))
     = Inr DS_PROCESSED"
  by code_simp

theorem unmarked_delivery_wedges_witness:
  "\<exists>b1 res. publish mem_ops sample_hash_env 0 (om_envelope unmarked_message) registered_bus = (Inr res, b1)
     \<and> (\<exists>err. bus_sink (\<lambda>_. mem_ops) sample_hash_env 20 (Inr 0) unmarked_message b1 = (Sink_raises err, b1))"
proof -
  obtain res b1 where p: "publish mem_ops sample_hash_env 0 (om_envelope unmarked_message) registered_bus = (Inr res, b1)"
      "dr_status res = DS_PROCESSED"
    using unmarked_first
    by (cases "publish mem_ops sample_hash_env 0 (om_envelope unmarked_message) registered_bus";
        cases "fst (publish mem_ops sample_hash_env 0 (om_envelope unmarked_message) registered_bus)") auto
  have "om_published_cursor unmarked_message = Some (en_sequence (om_envelope unmarked_message))"
    by (simp add: unmarked_message_def sample_envelope_def)
  from unmarked_delivery_wedges [OF p this, of b1 "[]" "\<lambda>_. mem_ops" 20 "Inr 0"] p(1) show ?thesis
    by auto
qed

end
