(* ===== verification/PyText.thy ===== *)
theory PyText
  imports CoreErrors "HOL-Library.Word"
begin

text \<open>
  Python's text: a string is a list of code points, \<^verbatim>\<open>str.encode("utf-8")\<close> fails on surrogates, and
  pydantic's \<^verbatim>\<open>str_strip_whitespace\<close> (set by \<^verbatim>\<open>FROZEN_MODEL_CONFIG\<close> in
  \<^verbatim>\<open>packages/contracts-python/src/liyans_contracts/common.py\<close>) removes Unicode white space from both
  ends of a field before it is checked.
\<close>

type_synonym code_point = int
type_synonym unicode_text = "code_point list"
type_synonym bytes = "8 word list"

definition unicode_encode_error :: app_error where
  "unicode_encode_error = Foreign_error ''UnicodeEncodeError''"

definition is_surrogate :: "code_point \<Rightarrow> bool" where
  "is_surrogate c \<longleftrightarrow> 0xD800 \<le> c \<and> c \<le> 0xDFFF"

definition utf8_size :: "code_point \<Rightarrow> nat" where
  "utf8_size c = (if c < 0x80 then 1 else if c < 0x800 then 2 else if c < 0x10000 then 3 else 4)"

text \<open>The continuation byte that carries the six bits of \<open>c\<close> from bit \<open>6 * k\<close> on.\<close>

definition continuation :: "nat \<Rightarrow> code_point \<Rightarrow> 8 word" where
  "continuation k c = of_int (0x80 + c div 64 ^ k mod 64)"

definition utf8_bytes :: "code_point \<Rightarrow> bytes" where
  "utf8_bytes c =
     (if c < 0x80 then [of_int c]
      else if c < 0x800 then [of_int (0xC0 + c div 64), continuation 0 c]
      else if c < 0x10000 then [of_int (0xE0 + c div 64 ^ 2), continuation 1 c, continuation 0 c]
      else [of_int (0xF0 + c div 64 ^ 3), continuation 2 c, continuation 1 c, continuation 0 c])"

definition encode_char :: "code_point \<Rightarrow> app_error + bytes" where
  "encode_char c = (if is_surrogate c \<or> c < 0 \<or> 0x110000 \<le> c then Inl unicode_encode_error else Inr (utf8_bytes c))"

definition utf8_encode :: "unicode_text \<Rightarrow> app_error + bytes" where
  "utf8_encode s = rbind (map_ok encode_char s) (\<lambda>bs. Inr (concat bs))"

lemma length_utf8_bytes [simp]: "length (utf8_bytes c) = utf8_size c"
  by (simp add: utf8_bytes_def utf8_size_def)

lemma utf8_size_bounds: "1 \<le> utf8_size c" "utf8_size c \<le> 4"
  by (simp_all add: utf8_size_def)

definition encodable :: "unicode_text \<Rightarrow> bool" where
  "encodable s \<longleftrightarrow> (\<forall>c\<in>set s. \<not> is_surrogate c \<and> 0 \<le> c \<and> c < 0x110000)"

lemma utf8_encode_iff:
  "utf8_encode s = Inr b \<longleftrightarrow> encodable s \<and> b = concat (map utf8_bytes s)"
proof (induction s arbitrary: b)
  case Nil
  then show ?case by (auto simp: utf8_encode_def encodable_def)
next
  case (Cons c s)
  have "utf8_encode (c # s) = rbind (encode_char c) (\<lambda>x. rbind (utf8_encode s) (\<lambda>y. Inr (x @ y)))"
    by (cases "encode_char c"; cases "map_ok encode_char s") (simp_all add: utf8_encode_def)
  then show ?case using Cons by (auto simp: rbind_Inr_iff encode_char_def encodable_def)
qed

subsection \<open>White space\<close>

text \<open>
  Stripping is done by pydantic, which is not part of the repository; \<open>ws\<close> is its class of white space.
\<close>

definition strip_text :: "(code_point \<Rightarrow> bool) \<Rightarrow> unicode_text \<Rightarrow> unicode_text" where
  "strip_text ws s = rev (dropWhile ws (rev (dropWhile ws s)))"

lemma strip_text_Nil [simp]: "strip_text ws [] = []"
  by (simp add: strip_text_def)

lemma strip_text_id_iff:
  "strip_text ws s = s \<longleftrightarrow> s = [] \<or> \<not> ws (hd s) \<and> \<not> ws (last s)"
proof -
  have keep: "dropWhile P xs = xs" if "xs = [] \<or> \<not> P (hd xs)" for P and xs :: "code_point list"
    using that by (cases xs) auto
  have shrink: "length (dropWhile P xs) < length xs" if "xs \<noteq> []" "P (hd xs)" for P and xs :: "code_point list"
    using that length_dropWhile_le [of P "tl xs"] by (cases xs) auto
  show ?thesis
  proof
    assume eq: "strip_text ws s = s"
    have le: "length (strip_text ws s) \<le> length (dropWhile ws s)"
      using length_dropWhile_le [of ws "rev (dropWhile ws s)"] by (simp add: strip_text_def)
    {
      assume ne: "s \<noteq> []"
      have first: "\<not> ws (hd s)" using shrink [OF ne] le unfolding eq by fastforce
      then have "strip_text ws s = rev (dropWhile ws (rev s))" using keep by (simp add: strip_text_def)
      then have "length (dropWhile ws (rev s)) = length (rev s)" using eq by (metis length_rev)
      then have "\<not> ws (last s)" using shrink [of "rev s" ws] ne by (auto simp: hd_rev)
      note this first
    }
    then show "s = [] \<or> \<not> ws (hd s) \<and> \<not> ws (last s)" by blast
  next
    assume "s = [] \<or> \<not> ws (hd s) \<and> \<not> ws (last s)"
    then show "strip_text ws s = s"
      using keep [of s ws] keep [of "rev s" ws] by (auto simp: strip_text_def hd_rev)
  qed
qed

end
