(* ===== verification/Streams.thy ===== *)
theory Streams
  imports PyText Contracts
begin

text \<open>
  Streamed text fragments: splitting and assembly in
  \<^verbatim>\<open>backend/src/liyans/infrastructure/streaming/sse.py\<close> and the fragment contract \<^verbatim>\<open>SSEChunkV1\<close> of
  \<^verbatim>\<open>packages/contracts-python/src/liyans_contracts/topic3.py\<close>.  SHA-256 over bytes and the white
  space that pydantic strips are parameters; \<^verbatim>\<open>uuid4\<close> and the clock give a value per fragment.
\<close>

subsection \<open>The fragment contract\<close>

datatype stream_fragment_type = SF_START | SF_DELTA | SF_END | SF_SNAPSHOT

record text_env =
  te_sha :: "bytes \<Rightarrow> digest"
  te_white_space :: "code_point \<Rightarrow> bool"

abbreviation strip :: "text_env \<Rightarrow> unicode_text \<Rightarrow> unicode_text" where
  "strip v \<equiv> strip_text (te_white_space v)"

record sse_chunk =
  sc_stream_id :: uuid
  sc_fragment_id :: uuid
  sc_candidate_id :: uuid
  sc_candidate_version :: int
  sc_block_id :: "unicode_text option"
  sc_fragment_type :: stream_fragment_type
  sc_chunk_index :: int
  sc_is_final :: bool
  sc_data_encoding :: string
  sc_data :: unicode_text
  sc_data_sha256 :: digest
  sc_emitted_at :: timestamp

definition valid_chunk :: "text_env \<Rightarrow> sse_chunk \<Rightarrow> bool" where
  "valid_chunk v c \<longleftrightarrow> 1 \<le> sc_candidate_version c
     \<and> (case sc_block_id c of None \<Rightarrow> True | Some b \<Rightarrow> int (length b) \<le> 128)
     \<and> 0 \<le> sc_chunk_index c \<and> sc_data_encoding c \<in> {''utf-8-json'', ''utf-8-text''}
     \<and> int (length (sc_data c)) \<le> 65536 \<and> is_sha256_hex (sc_data_sha256 c)
     \<and> (case utf8_encode (sc_data c) of Inl _ \<Rightarrow> False | Inr b \<Rightarrow> te_sha v b = sc_data_sha256 c)
     \<and> (sc_fragment_type c = SF_START \<longrightarrow> sc_chunk_index c = 0)
     \<and> (sc_fragment_type c = SF_END \<longrightarrow> sc_is_final c)
     \<and> (sc_is_final c \<longrightarrow> sc_fragment_type c \<in> {SF_END, SF_SNAPSHOT})"

text \<open>Construction: the string fields are stripped, then checked.\<close>

definition build_chunk :: "text_env \<Rightarrow> sse_chunk \<Rightarrow> app_error + sse_chunk" where
  "build_chunk v values =
     (let c = values\<lparr>sc_block_id := map_option (strip v) (sc_block_id values), sc_data := strip v (sc_data values)\<rparr>
      in if valid_chunk v c then Inr c else Inl (Foreign_error ''ValidationError''))"

subsection \<open>Splitting\<close>

fun split_loop :: "int \<Rightarrow> unicode_text list \<Rightarrow> unicode_text \<Rightarrow> int \<Rightarrow> unicode_text \<Rightarrow> app_error + unicode_text list" where
  "split_loop max_bytes chunks current used [] =
     Inr (if current \<noteq> [] then chunks @ [current] else chunks)"
| "split_loop max_bytes chunks current used (c # cs) =
     rbind (encode_char c) (\<lambda>b.
       if current \<noteq> [] \<and> max_bytes < used + int (length b)
       then split_loop max_bytes (chunks @ [current]) [c] (int (length b)) cs
       else split_loop max_bytes chunks (current @ [c]) (used + int (length b)) cs)"

definition split_utf8_safely :: "unicode_text \<Rightarrow> int \<Rightarrow> app_error + unicode_text list" where
  "split_utf8_safely source max_bytes =
     (if max_bytes < 4 then Inl (Foreign_error ''max_bytes must be at least four'')
      else if source = [] then Inr [[]]
      else split_loop max_bytes [] [] 0 source)"

definition fragment_role :: "nat \<Rightarrow> nat \<Rightarrow> stream_fragment_type \<times> bool" where
  "fragment_role n i =
     (if n = 1 then (SF_SNAPSHOT, True)
      else if i = 0 then (SF_START, False)
      else if i = n - 1 then (SF_END, True)
      else (SF_DELTA, False))"

definition text_chunk ::
  "text_env \<Rightarrow> (nat \<Rightarrow> uuid) \<Rightarrow> (nat \<Rightarrow> timestamp) \<Rightarrow> uuid \<Rightarrow> uuid \<Rightarrow> int \<Rightarrow> unicode_text option
     \<Rightarrow> unicode_text list \<Rightarrow> nat \<Rightarrow> app_error + sse_chunk" where
  "text_chunk v fragment_id now stream_id candidate_id version block_id fragments i =
     (let content = fragments ! i; (kind, final) = fragment_role (length fragments) i
      in rbind (utf8_encode content) (\<lambda>b. build_chunk v
        \<lparr>sc_stream_id = stream_id, sc_fragment_id = fragment_id i, sc_candidate_id = candidate_id,
         sc_candidate_version = version, sc_block_id = block_id, sc_fragment_type = kind,
         sc_chunk_index = int i, sc_is_final = final, sc_data_encoding = ''utf-8-text'',
         sc_data = content, sc_data_sha256 = te_sha v b, sc_emitted_at = now i\<rparr>))"

definition make_text_chunks ::
  "text_env \<Rightarrow> (nat \<Rightarrow> uuid) \<Rightarrow> (nat \<Rightarrow> timestamp) \<Rightarrow> unicode_text \<Rightarrow> uuid \<Rightarrow> uuid \<Rightarrow> int \<Rightarrow> unicode_text option
     \<Rightarrow> int \<Rightarrow> app_error + sse_chunk list" where
  "make_text_chunks v fragment_id now source stream_id candidate_id version block_id max_bytes =
     rbind (split_utf8_safely source max_bytes) (\<lambda>fragments.
       map_ok (text_chunk v fragment_id now stream_id candidate_id version block_id fragments)
         [0..<length fragments])"

subsection \<open>Assembly\<close>

record assembly_state =
  as_expected_index :: int
  as_pending :: "(int \<times> sse_chunk) list"
  as_index_digests :: "int \<rightharpoonup> digest"
  as_fragment_digests :: "uuid \<rightharpoonup> digest"
  as_parts :: "unicode_text list"
  as_closed :: bool

definition new_assembly :: assembly_state where
  "new_assembly = \<lparr>as_expected_index = 0, as_pending = [], as_index_digests = Map.empty,
     as_fragment_digests = Map.empty, as_parts = [], as_closed = False\<rparr>"

type_synonym stream_key = "uuid \<times> uuid \<times> int \<times> unicode_text option"

record assembler =
  am_max_gap_buffer :: int
  am_states :: "stream_key \<rightharpoonup> assembly_state"

definition new_assembler :: "int \<Rightarrow> app_error + assembler" where
  "new_assembler max_gap =
     (if max_gap < 1 then Inl (Foreign_error ''max_gap_buffer must be positive'')
      else Inr \<lparr>am_max_gap_buffer = max_gap, am_states = Map.empty\<rparr>)"

definition stream_key_of :: "sse_chunk \<Rightarrow> stream_key" where
  "stream_key_of c = (sc_stream_id c, sc_candidate_id c, sc_candidate_version c, sc_block_id c)"

definition fragment_conflict :: app_error where
  "fragment_conflict = message_sequence_error ''LIYAN-SSE-FRAGMENT-CONFLICT''"

definition remember :: "sse_chunk \<Rightarrow> assembly_state \<Rightarrow> assembly_state" where
  "remember c st = st\<lparr>as_index_digests := (as_index_digests st)(sc_chunk_index c \<mapsto> sc_data_sha256 c),
     as_fragment_digests := (as_fragment_digests st)(sc_fragment_id c \<mapsto> sc_data_sha256 c)\<rparr>"

definition append_fragment :: "sse_chunk \<Rightarrow> assembly_state \<Rightarrow> assembly_state" where
  "append_fragment c st = st\<lparr>as_parts := as_parts st @ [sc_data c],
     as_expected_index := as_expected_index st + 1, as_closed := sc_is_final c\<rparr>"

definition accept_chunk :: "bool \<Rightarrow> sse_chunk \<Rightarrow> assembly_state \<Rightarrow> app_error + assembly_state" where
  "accept_chunk identifiers_recorded c st =
     (let opening = sc_fragment_type c \<in> {SF_START, SF_SNAPSHOT}
      in if as_expected_index st = 0 \<and> \<not> opening then Inl fragment_conflict
         else if 0 < as_expected_index st \<and> opening then Inl fragment_conflict
         else Inr (append_fragment c (if identifiers_recorded then st else remember c st)))"

definition pop_pending :: "int \<Rightarrow> assembly_state \<Rightarrow> assembly_state" where
  "pop_pending i st = st\<lparr>as_pending := filter (\<lambda>x. fst x \<noteq> i) (as_pending st)\<rparr>"

lemma accept_chunk_frame:
  "accept_chunk b c st = Inr st' \<Longrightarrow> as_pending st' = as_pending st
     \<and> as_expected_index st' = as_expected_index st + 1"
  by (auto simp: accept_chunk_def append_fragment_def remember_def Let_def split: if_splits)

lemma pop_pending_less:
  "map_of (as_pending st) i = Some c \<Longrightarrow> length (as_pending (pop_pending i st)) < length (as_pending st)"
  unfolding pop_pending_def by (auto dest!: map_of_SomeD intro: length_filter_less)

text \<open>An exception leaves the state as it is at that moment.\<close>

function drain_pending :: "assembly_state \<Rightarrow> (app_error + unit) \<times> assembly_state" where
  "drain_pending st =
     (case map_of (as_pending st) (as_expected_index st) of
        None \<Rightarrow> (Inr (), st)
      | Some c \<Rightarrow>
          if as_closed st then (Inr (), st)
          else let st1 = pop_pending (as_expected_index st) st
               in case accept_chunk True c st1 of
                    Inl e \<Rightarrow> (Inl e, st1)
                  | Inr st2 \<Rightarrow> drain_pending st2)"
  by pat_completeness auto

termination
  by (relation "measure (\<lambda>st. length (as_pending st))") (auto simp: pop_pending_less dest: accept_chunk_frame)

declare drain_pending.simps [simp del]

definition add_fragment :: "int \<Rightarrow> sse_chunk \<Rightarrow> assembly_state \<Rightarrow> (app_error + bool) \<times> assembly_state" where
  "add_fragment max_gap c st =
     (case as_fragment_digests st (sc_fragment_id c) of
        Some d \<Rightarrow> (if d \<noteq> sc_data_sha256 c then Inl fragment_conflict else Inr False, st)
      | None \<Rightarrow>
     (case as_index_digests st (sc_chunk_index c) of
        Some d \<Rightarrow>
          if d \<noteq> sc_data_sha256 c then (Inl fragment_conflict, st)
          else (Inr False, st\<lparr>as_fragment_digests := (as_fragment_digests st)(sc_fragment_id c \<mapsto> sc_data_sha256 c)\<rparr>)
      | None \<Rightarrow>
          if as_closed st then (Inl (message_sequence_error ''LIYAN-SSE-STREAM-CLOSED''), st)
          else if sc_chunk_index c < as_expected_index st then (Inl fragment_conflict, st)
          else if as_expected_index st < sc_chunk_index c
          then if max_gap \<le> int (length (as_pending st))
               then (Inl (liyan ''LIYAN-MESSAGE-BUFFER-FULL'' EC_MESSAGING True 503), st)
               else (Inr True, (remember c st)\<lparr>as_pending := as_pending st @ [(sc_chunk_index c, c)]\<rparr>)
          else (case accept_chunk False c st of
                  Inl e \<Rightarrow> (Inl e, st)
                | Inr st1 \<Rightarrow>
                    (case drain_pending st1 of
                       (Inl e, st2) \<Rightarrow> (Inl e, st2)
                     | (Inr _, st2) \<Rightarrow>
                         (if as_closed st2 \<and> as_pending st2 \<noteq> [] then Inl fragment_conflict else Inr True, st2)))))"

definition add_chunk :: "sse_chunk \<Rightarrow> assembler \<Rightarrow> (app_error + bool) \<times> assembler" where
  "add_chunk c a =
     (let k = stream_key_of c
      in case add_fragment (am_max_gap_buffer a) c (case am_states a k of None \<Rightarrow> new_assembly | Some st \<Rightarrow> st) of
           (r, st) \<Rightarrow> (r, a\<lparr>am_states := (am_states a)(k \<mapsto> st)\<rparr>))"

definition assembled_text :: "stream_key \<Rightarrow> assembler \<Rightarrow> app_error + unicode_text" where
  "assembled_text k a =
     (let incomplete = liyan ''LIYAN-MESSAGE-SEQUENCE-GAP'' EC_MESSAGING False 409
      in case am_states a k of
           None \<Rightarrow> Inl incomplete
         | Some st \<Rightarrow> if as_closed st then Inr (concat (as_parts st)) else Inl incomplete)"

text \<open>A sequence of deliveries, with the answer to each.\<close>

fun add_chunks :: "sse_chunk list \<Rightarrow> assembler \<Rightarrow> (app_error + bool) list \<times> assembler" where
  "add_chunks [] a = ([], a)"
| "add_chunks (c # cs) a =
     (case add_chunk c a of (r, a1) \<Rightarrow> (case add_chunks cs a1 of (rs, a2) \<Rightarrow> (r # rs, a2)))"

subsection \<open>Splitting keeps the text\<close>

definition text_bytes :: "unicode_text \<Rightarrow> bytes" where
  "text_bytes s = concat (map utf8_bytes s)"

lemma text_bytes_simps [simp]:
  "text_bytes [] = []" "text_bytes (c # s) = utf8_bytes c @ text_bytes s" "text_bytes (s @ t) = text_bytes s @ text_bytes t"
  by (simp_all add: text_bytes_def)

lemma split_loop_spec:
  assumes "split_loop m chunks current used source = Inr out" "used = int (length (text_bytes current))" "4 \<le> m"
    and "current \<noteq> [] \<longrightarrow> used \<le> m"
  shows "concat out = concat chunks @ current @ source \<and> encodable source
     \<and> (\<forall>x\<in>set out. x \<in> set chunks \<or> x \<noteq> [] \<and> int (length (text_bytes x)) \<le> m)"
  using assms
proof (induction m chunks current used source rule: split_loop.induct)
  case (1 m chunks current used)
  then show ?case by (auto simp: encodable_def split: if_splits)
next
  case (2 m chunks current used c cs)
  from 2(3) obtain b where b: "encode_char c = Inr b" by (auto simp: rbind_Inr_iff)
  then have c: "\<not> is_surrogate c" "0 \<le> c \<and> c < 0x110000" "b = utf8_bytes c" by (auto simp: encode_char_def split: if_splits)
  have size: "length (utf8_bytes c) \<le> 4" using utf8_size_bounds by simp
  show ?case
  proof (cases "current \<noteq> [] \<and> m < used + int (length b)")
    case True
    have "split_loop m (chunks @ [current]) [c] (int (length b)) cs = Inr out" using 2(3) b True by simp
    from 2(1) [OF True this] c(3) size 2(4,5,6) True show ?thesis using c(1,2) by (auto simp: encodable_def)
  next
    case False
    have "split_loop m chunks (current @ [c]) (used + int (length b)) cs = Inr out" using 2(3) b False by auto
    from 2(2) [OF False this] c(3) size 2(4,5,6) False show ?thesis
      using c(1,2) by (auto simp: encodable_def)
  qed
qed

lemma split_spec:
  assumes "split_utf8_safely source m = Inr out"
  shows "concat out = source" "out \<noteq> []" "encodable source" "x \<in> set out \<Longrightarrow> encodable x \<and> int (length (text_bytes x)) \<le> m"
proof -
  have "concat out = source \<and> out \<noteq> [] \<and> encodable source \<and> (\<forall>x\<in>set out. int (length (text_bytes x)) \<le> m)"
  proof (cases "source = []")
    case True
    then show ?thesis using assms by (auto simp: split_utf8_safely_def encodable_def split: if_splits)
  next
    case False
    then have "split_loop m [] [] 0 source = Inr out" "4 \<le> m"
      using assms by (auto simp: split_utf8_safely_def split: if_splits)
    from split_loop_spec [OF this(1) _ this(2)] False show ?thesis by auto
  qed
  then show "concat out = source" "out \<noteq> []" "encodable source"
    and "x \<in> set out \<Longrightarrow> encodable x \<and> int (length (text_bytes x)) \<le> m"
    by (auto simp: encodable_def)
qed

subsection \<open>The fragments of a text\<close>

text \<open>SHA-256 tells a fragment from its stripped text.\<close>

definition separates :: "text_env \<Rightarrow> unicode_text list \<Rightarrow> bool" where
  "separates v fragments \<longleftrightarrow> (\<forall>x\<in>set fragments.
     te_sha v (text_bytes (strip v x)) = te_sha v (text_bytes x) \<longrightarrow> strip v x = x)"

definition fragment_stream :: "sse_chunk list \<Rightarrow> bool" where
  "fragment_stream cs \<longleftrightarrow> cs \<noteq> [] \<and> distinct (map sc_fragment_id cs)
     \<and> (\<forall>i<length cs. sc_chunk_index (cs ! i) = int i \<and> (sc_is_final (cs ! i) \<longleftrightarrow> i = length cs - 1)
          \<and> (sc_fragment_type (cs ! i) \<in> {SF_START, SF_SNAPSHOT} \<longleftrightarrow> i = 0))"

lemma text_chunk_spec:
  assumes "text_chunk v fid now s ca ver b fragments i = Inr c" "separates v fragments" "i < length fragments"
  shows "c = \<lparr>sc_stream_id = s, sc_fragment_id = fid i, sc_candidate_id = ca,
         sc_candidate_version = ver, sc_block_id = map_option (strip v) b,
         sc_fragment_type = fst (fragment_role (length fragments) i),
         sc_chunk_index = int i, sc_is_final = snd (fragment_role (length fragments) i),
         sc_data_encoding = ''utf-8-text'',
         sc_data = fragments ! i, sc_data_sha256 = te_sha v (text_bytes (fragments ! i)), sc_emitted_at = now i\<rparr>"
    and "strip v (fragments ! i) = fragments ! i"
proof -
  obtain kind final where role: "fragment_role (length fragments) i = (kind, final)" by fastforce
  from assms(1) obtain bs where bs: "utf8_encode (fragments ! i) = Inr bs"
    and c: "build_chunk v
        \<lparr>sc_stream_id = s, sc_fragment_id = fid i, sc_candidate_id = ca,
         sc_candidate_version = ver, sc_block_id = b, sc_fragment_type = kind,
         sc_chunk_index = int i, sc_is_final = final, sc_data_encoding = ''utf-8-text'',
         sc_data = fragments ! i, sc_data_sha256 = te_sha v bs, sc_emitted_at = now i\<rparr> = Inr c"
    by (auto simp: text_chunk_def rbind_Inr_iff role Let_def)
  have bytes: "bs = text_bytes (fragments ! i)" using bs by (simp add: utf8_encode_iff text_bytes_def)
  have "te_sha v (text_bytes (strip v (fragments ! i))) = te_sha v bs"
    using c by (auto simp: build_chunk_def valid_chunk_def Let_def utf8_encode_iff text_bytes_def
        split: if_splits sum.splits)
  then show strip: "strip v (fragments ! i) = fragments ! i"
    using assms(2,3) by (simp add: separates_def bytes)
  show "c = \<lparr>sc_stream_id = s, sc_fragment_id = fid i, sc_candidate_id = ca,
         sc_candidate_version = ver, sc_block_id = map_option (strip v) b,
         sc_fragment_type = fst (fragment_role (length fragments) i),
         sc_chunk_index = int i, sc_is_final = snd (fragment_role (length fragments) i),
         sc_data_encoding = ''utf-8-text'',
         sc_data = fragments ! i, sc_data_sha256 = te_sha v (text_bytes (fragments ! i)), sc_emitted_at = now i\<rparr>"
    using c by (auto simp: build_chunk_def Let_def strip role bytes split: if_splits)
qed

lemma make_text_chunks_spec:
  assumes "make_text_chunks v fid now source s ca ver b m = Inr cs" "split_utf8_safely source m = Inr fragments"
    and "separates v fragments" "inj_on fid {..<length cs}"
  shows "fragment_stream cs" "map sc_data cs = fragments"
    and "c \<in> set cs \<Longrightarrow> stream_key_of c = (s, ca, ver, map_option (strip v) b)"
proof -
  from assms(1,2) have "list_all2 (\<lambda>i c. text_chunk v fid now s ca ver b fragments i = Inr c) [0..<length fragments] cs"
    by (simp add: make_text_chunks_def map_ok_Inr_iff)
  then have len: "length cs = length fragments"
    and nth: "\<And>i. i < length cs \<Longrightarrow> text_chunk v fid now s ca ver b fragments i = Inr (cs ! i)"
    by (auto simp: list_all2_conv_all_nth)
  note C = text_chunk_spec(1) [OF nth assms(3)]
  have "cs \<noteq> []" using split_spec(2) [OF assms(2)] len by auto
  moreover have "distinct (map sc_fragment_id cs)"
    using assms(4) C by (auto simp: distinct_conv_nth len inj_on_def)
  moreover have "sc_chunk_index (cs ! i) = int i \<and> (sc_is_final (cs ! i) \<longleftrightarrow> i = length cs - 1)
      \<and> (sc_fragment_type (cs ! i) \<in> {SF_START, SF_SNAPSHOT} \<longleftrightarrow> i = 0)" if "i < length cs" for i
    using C [OF that] that len by (simp add: fragment_role_def)
  ultimately show "fragment_stream cs" unfolding fragment_stream_def by blast
  show "map sc_data cs = fragments" by (rule nth_equalityI) (simp_all add: len C)
  assume "c \<in> set cs"
  then obtain i where "i < length cs" "c = cs ! i" by (auto simp: in_set_conv_nth)
  with C [of i] len show "stream_key_of c = (s, ca, ver, map_option (strip v) b)" by (simp add: stream_key_of_def)
qed

subsection \<open>Assembly in any order\<close>

text \<open>The state after the fragments with indices \<open>R\<close>, of which the first \<open>k\<close> are assembled.\<close>

definition assembly_inv :: "sse_chunk list \<Rightarrow> nat set \<Rightarrow> nat \<Rightarrow> assembly_state \<Rightarrow> bool" where
  "assembly_inv cs R k st \<longleftrightarrow> R \<subseteq> {..<length cs} \<and> {..<k} \<subseteq> R
     \<and> as_expected_index st = int k \<and> as_parts st = map sc_data (take k cs) \<and> (as_closed st \<longleftrightarrow> k = length cs)
     \<and> distinct (map fst (as_pending st))
     \<and> set (as_pending st) = {(int i, cs ! i) |i. i \<in> R \<and> k \<le> i}
     \<and> (\<forall>i<length cs. as_index_digests st (int i) = (if i \<in> R then Some (sc_data_sha256 (cs ! i)) else None))
     \<and> (\<forall>i<length cs. as_fragment_digests st (sc_fragment_id (cs ! i))
          = (if i \<in> R then Some (sc_data_sha256 (cs ! i)) else None))"

lemma assembly_inv_bound:
  assumes "assembly_inv cs R k st"
  shows "k \<le> length cs"
proof -
  have "R \<subseteq> {..<length cs}" "{..<k} \<subseteq> R" using assms by (simp_all add: assembly_inv_def)
  then have "{..<k} \<subseteq> {..<length cs}" by (rule subset_trans [rotated])
  then show ?thesis by simp
qed

lemma assembly_closed_empty:
  assumes "assembly_inv cs R k st" "as_closed st"
  shows "as_pending st = []"
proof -
  have "R \<subseteq> {..<k}" "set (as_pending st) = {(int i, cs ! i) |i. i \<in> R \<and> k \<le> i}"
    using assms by (simp_all add: assembly_inv_def)
  then have "set (as_pending st) = {}" by auto
  then show ?thesis by simp
qed

lemma new_assembly_inv: "cs \<noteq> [] \<Longrightarrow> assembly_inv cs {} 0 new_assembly"
  by (simp add: assembly_inv_def new_assembly_def)

lemma accept_stream:
  assumes "fragment_stream cs" "k < length cs" "as_expected_index st = int k"
  shows "accept_chunk rec (cs ! k) st = Inr (append_fragment (cs ! k) (if rec then st else remember (cs ! k) st))"
proof -
  have "sc_fragment_type (cs ! k) \<in> {SF_START, SF_SNAPSHOT} \<longleftrightarrow> k = 0"
    using assms(1,2) unfolding fragment_stream_def by blast
  then show ?thesis using assms(3) by (cases "k = 0") (simp_all add: accept_chunk_def Let_def)
qed

lemma drain_stream:
  assumes "fragment_stream cs" "assembly_inv cs R k st"
  shows "\<exists>k' st'. drain_pending st = (Inr (), st') \<and> assembly_inv cs R k' st' \<and> k' \<notin> R"
  using assms
proof (induction st arbitrary: k rule: drain_pending.induct)
  case (1 st)
  note inv = 1(3) [unfolded assembly_inv_def]
  show ?case
  proof (cases "k \<in> R")
    case False
    then have "map_of (as_pending st) (int k) = None"
      using inv by (auto simp: map_of_eq_None_iff)
    then have "drain_pending st = (Inr (), st)" using inv by (simp add: drain_pending.simps)
    with 1(3) False show ?thesis by blast
  next
    case True
    then have k: "k < length cs" "\<not> as_closed st" using inv by auto
    have "(int k, cs ! k) \<in> set (as_pending st)" using inv True by auto
    then have found: "map_of (as_pending st) (as_expected_index st) = Some (cs ! k)" using inv by simp
    let ?st1 = "pop_pending (as_expected_index st) st"
    define st2 where "st2 = append_fragment (cs ! k) ?st1"
    have final: "sc_is_final (cs ! k) \<longleftrightarrow> k = length cs - 1"
      using 1(2) k(1) unfolding fragment_stream_def by blast
    note simps = st2_def append_fragment_def pop_pending_def final
    have acc: "accept_chunk True (cs ! k) ?st1 = Inr st2"
      using accept_stream [OF 1(2) k(1), of ?st1 True] inv by (simp add: simps)
    have pend: "set (as_pending st2) = {(int i, cs ! i) |i. i \<in> R \<and> Suc k \<le> i}"
    proof -
      have "set (as_pending st2) = {x \<in> set (as_pending st). fst x \<noteq> int k}"
        using inv by (simp add: simps)
      also have "\<dots> = {(int i, cs ! i) |i. i \<in> R \<and> Suc k \<le> i}" using inv by (auto simp: Suc_le_eq)
      finally show ?thesis .
    qed
    have "assembly_inv cs R (Suc k) st2"
      unfolding assembly_inv_def
    proof (intro conjI pend)
      show "as_parts st2 = map sc_data (take (Suc k) cs)"
        using inv k(1) by (simp add: simps take_Suc_conv_app_nth)
      show "distinct (map fst (as_pending st2))"
        using inv by (simp add: simps distinct_map_filter)
      show "{..<Suc k} \<subseteq> R" using inv True by (auto simp: less_Suc_eq)
      show "as_closed st2 = (Suc k = length cs)" using k(1) by (auto simp: simps)
    qed (use inv in \<open>simp_all add: simps\<close>)
    from 1(1) [OF found k(2) refl acc 1(2) this] show ?thesis
      by (simp add: drain_pending.simps [of st] found k(2) acc)
  qed
qed

lemma add_fragment_again:
  assumes "assembly_inv cs R k st" "i \<in> R"
  shows "add_fragment gap (cs ! i) st = (Inr False, st)"
  using assms unfolding assembly_inv_def by (auto simp: add_fragment_def)

text \<open>The fragments received ahead of a missing one, which the buffer holds.\<close>

definition waiting :: "nat set \<Rightarrow> nat set" where
  "waiting R = {i \<in> R. \<exists>j<i. j \<notin> R}"

lemma waiting_from:
  assumes "{..<k} \<subseteq> R" "k \<notin> R"
  shows "waiting R = {i \<in> R. k \<le> i}"
proof -
  have "(\<exists>j<i. j \<notin> R) \<longleftrightarrow> k \<le> i" if "i \<in> R" for i
  proof
    assume "\<exists>j<i. j \<notin> R"
    then show "k \<le> i" by (meson assms(1) lessThan_iff not_le order.strict_trans subsetD)
  next
    assume "k \<le> i"
    then have "k < i" using that assms(2) by (metis le_less)
    with assms(2) show "\<exists>j<i. j \<notin> R" by blast
  qed
  then show ?thesis by (auto simp: waiting_def)
qed

lemma waiting_insert:
  assumes "{..<k} \<subseteq> R" "k \<notin> R" "k < j"
  shows "waiting (insert j R) = insert j (waiting R)"
proof -
  have "{..<k} \<subseteq> insert j R" "k \<notin> insert j R" using assms by auto
  with assms show ?thesis by (auto simp: waiting_from)
qed

lemma waiting_insert_next:
  assumes "{..<k} \<subseteq> R" "k \<notin> R" "finite R"
  shows "card (waiting (insert k R)) \<le> card (waiting R)"
proof -
  have "waiting (insert k R) \<subseteq> waiting R" using assms(1) unfolding waiting_def by auto
  moreover have "finite (waiting R)" using assms(3) by (simp add: waiting_def)
  ultimately show ?thesis by (intro card_mono)
qed

lemma pending_card:
  assumes "assembly_inv cs R k st" "k \<notin> R"
  shows "length (as_pending st) = card (waiting R)"
proof -
  have "waiting R = {i \<in> R. k \<le> i}" using assms waiting_from [of k R] by (simp add: assembly_inv_def)
  moreover have "set (as_pending st) = (\<lambda>i. (int i, cs ! i)) ` {i \<in> R. k \<le> i}"
    using assms(1) unfolding assembly_inv_def by auto
  moreover have "inj_on (\<lambda>i. (int i, cs ! i)) {i \<in> R. k \<le> i}" by (auto simp: inj_on_def)
  moreover have "length (as_pending st) = card (set (as_pending st))"
    using assms(1) unfolding assembly_inv_def by (metis distinct_card distinct_map)
  ultimately show ?thesis by (simp add: card_image)
qed

lemma add_fragment_new:
  assumes stream: "fragment_stream cs" and inv: "assembly_inv cs R k st" and k: "k \<notin> R"
    and j: "j \<notin> R" "j < length cs" and gap: "j \<noteq> k \<Longrightarrow> int (card (waiting R)) < gap"
  shows "\<exists>k' st'. add_fragment gap (cs ! j) st = (Inr True, st') \<and> assembly_inv cs (insert j R) k' st' \<and> k' \<notin> insert j R"
proof -
  note I = inv [unfolded assembly_inv_def]
  have index: "sc_chunk_index (cs ! i) = int i" if "i < length cs" for i
    using stream that by (simp add: fragment_stream_def)
  have fid: "sc_fragment_id (cs ! i) = sc_fragment_id (cs ! j) \<longleftrightarrow> i = j" if "i < length cs" for i
    using stream that j(2) unfolding fragment_stream_def
    by (metis distinct_conv_nth length_map nth_map)
  have fresh: "as_fragment_digests st (sc_fragment_id (cs ! j)) = None" "as_index_digests st (sc_chunk_index (cs ! j)) = None"
    using I j index by auto
  have kj: "k \<le> j" using I j(1) by (metis lessThan_iff not_le subsetD)
  have still_open: "\<not> as_closed st" using I kj j(2) by auto
  show ?thesis
  proof (cases "j = k")
    case False
    with kj have less: "k < j" by simp
    let ?st = "(remember (cs ! j) st)\<lparr>as_pending := as_pending st @ [(int j, cs ! j)]\<rparr>"
    have "int (length (as_pending st)) < gap" using pending_card [OF inv k] gap False by simp
    then have add: "add_fragment gap (cs ! j) st = (Inr True, ?st)"
      using fresh still_open less I index [OF j(2)] by (simp add: add_fragment_def)
    have "assembly_inv cs (insert j R) k ?st"
      unfolding assembly_inv_def
    proof (intro conjI)
      show "set (as_pending ?st) = {(int i, cs ! i) |i. i \<in> insert j R \<and> k \<le> i}" using I kj by auto
      show "distinct (map fst (as_pending ?st))" using I j(1) by auto
      show "\<forall>i<length cs. as_fragment_digests ?st (sc_fragment_id (cs ! i))
          = (if i \<in> insert j R then Some (sc_data_sha256 (cs ! i)) else None)"
        using I fid by (auto simp: remember_def)
    qed (use I j index [OF j(2)] in \<open>auto simp: remember_def\<close>)
    with add less k show ?thesis by blast
  next
    case True
    let ?st1 = "remember (cs ! j) st"
    define st2 where "st2 = append_fragment (cs ! j) ?st1"
    have final: "sc_is_final (cs ! j) \<longleftrightarrow> j = length cs - 1"
      using stream j(2) unfolding fragment_stream_def by blast
    note simps = st2_def append_fragment_def remember_def final
    have exp: "as_expected_index st = int j" using I True by simp
    have acc: "accept_chunk False (cs ! j) st = Inr st2"
      using accept_stream [OF stream j(2) exp, of False] by (simp add: st2_def)
    have "assembly_inv cs (insert j R) (Suc j) st2"
      unfolding assembly_inv_def
    proof (intro conjI)
      show "set (as_pending st2) = {(int i, cs ! i) |i. i \<in> insert j R \<and> Suc j \<le> i}"
        using I True j(1) by (auto simp: simps Suc_le_eq order_le_less)
      show "as_parts st2 = map sc_data (take (Suc j) cs)"
        using I True j(2) by (simp add: simps take_Suc_conv_app_nth)
      show "{..<Suc j} \<subseteq> insert j R" using I True by (auto simp: less_Suc_eq)
      show "as_closed st2 = (Suc j = length cs)" using j(2) by (auto simp: simps)
      show "\<forall>i<length cs. as_fragment_digests st2 (sc_fragment_id (cs ! i))
          = (if i \<in> insert j R then Some (sc_data_sha256 (cs ! i)) else None)"
        using I fid by (auto simp: simps)
    qed (use I True j index [OF j(2)] in \<open>auto simp: simps\<close>)
    from drain_stream [OF stream this] obtain k' st' where drain: "drain_pending st2 = (Inr (), st')"
      and inv': "assembly_inv cs (insert j R) k' st'" and k': "k' \<notin> insert j R" by blast
    have "as_pending st' = []" if "as_closed st'"
      by (rule assembly_closed_empty [OF inv' that])
    then have "add_fragment gap (cs ! j) st = (Inr True, st')"
      using fresh still_open exp index [OF j(2)] acc drain by (auto simp: add_fragment_def)
    with inv' k' show ?thesis by blast
  qed
qed

lemma add_fragment_full:
  assumes stream: "fragment_stream cs" and inv: "assembly_inv cs R k st" and k: "k \<notin> R"
    and j: "j \<notin> R" "j < length cs" "j \<noteq> k" and gap: "gap \<le> int (card (waiting R))"
  shows "\<exists>e st'. add_fragment gap (cs ! j) st = (Inl e, st')"
proof -
  note I = inv [unfolded assembly_inv_def]
  have "k < j" using I j by (metis lessThan_iff not_less_iff_gr_or_eq subsetD)
  moreover have "gap \<le> int (length (as_pending st))" using pending_card [OF inv k] gap by simp
  moreover have "sc_chunk_index (cs ! j) = int j" using stream j(2) by (simp add: fragment_stream_def)
  moreover have "as_fragment_digests st (sc_fragment_id (cs ! j)) = None" "as_index_digests st (int j) = None" "\<not> as_closed st"
    using I j \<open>k < j\<close> by auto
  ultimately show ?thesis using I by (auto simp: add_fragment_def)
qed

text \<open>The assembler after any deliveries of fragments of one stream.\<close>

definition assembler_inv :: "sse_chunk list \<Rightarrow> stream_key \<Rightarrow> nat set \<Rightarrow> assembler \<Rightarrow> bool" where
  "assembler_inv cs key R a \<longleftrightarrow> (\<exists>k. k \<notin> R
     \<and> assembly_inv cs R k (case am_states a key of None \<Rightarrow> new_assembly | Some st \<Rightarrow> st))
     \<and> (am_states a key = None \<longrightarrow> R = {})"

text \<open>The fragments among some deliveries, and deliveries that at no time exceed the buffer.\<close>

definition received :: "sse_chunk list \<Rightarrow> sse_chunk list \<Rightarrow> nat set" where
  "received cs ds = {i. i < length cs \<and> cs ! i \<in> set ds}"

definition fits_buffer :: "int \<Rightarrow> nat set \<Rightarrow> sse_chunk list \<Rightarrow> sse_chunk list \<Rightarrow> bool" where
  "fits_buffer gap R cs ds \<longleftrightarrow> (\<forall>n\<le>length ds. int (card (waiting (R \<union> received cs (take n ds)))) \<le> gap)"

lemma received_Nil [simp]: "received cs [] = {}"
  by (simp add: received_def)

lemma received_Cons:
  assumes "distinct cs" "j < length cs"
  shows "received cs (cs ! j # ds) = insert j (received cs ds)"
  using assms by (auto simp: received_def nth_eq_iff_index_eq)

lemma received_bound: "card (received cs ds) \<le> length cs"
  using card_mono [of "{..<length cs}" "received cs ds"] by (auto simp: received_def)

lemma fits_buffer_Cons:
  assumes "distinct cs" "j < length cs"
  shows "fits_buffer gap R cs (cs ! j # ds) \<longleftrightarrow> int (card (waiting R)) \<le> gap \<and> fits_buffer gap (insert j R) cs ds"
proof -
  have "R \<union> received cs (take (Suc n) (cs ! j # ds)) = insert j R \<union> received cs (take n ds)" for n
    using received_Cons [OF assms] by auto
  then show ?thesis
    unfolding fits_buffer_def less_Suc_eq_le [symmetric] length_Cons All_less_Suc2 [of "Suc (length ds)"] by simp
qed

lemma add_chunks_stream:
  assumes "fragment_stream cs" "\<And>c. c \<in> set cs \<Longrightarrow> stream_key_of c = key"
    and "assembler_inv cs key R a" "int (card (waiting R)) \<le> am_max_gap_buffer a"
    and "set ds \<subseteq> set cs" "add_chunks ds a = (rs, a')"
  shows "if fits_buffer (am_max_gap_buffer a) R cs ds
     then assembler_inv cs key (R \<union> received cs ds) a' \<and> set rs \<subseteq> {Inr True, Inr False}
       \<and> length (filter (\<lambda>r. r = Inr True) rs) + card R = card (R \<union> received cs ds)
     else \<exists>e. Inl e \<in> set rs"
  using assms(3-6)
proof (induction ds arbitrary: R a rs a')
  case Nil
  then show ?case by (simp add: fits_buffer_def)
next
  case (Cons d ds)
  let ?st = "case am_states a key of None \<Rightarrow> new_assembly | Some st \<Rightarrow> st" and ?gap = "am_max_gap_buffer a"
  from Cons.prems(1) obtain k where k: "k \<notin> R" "assembly_inv cs R k ?st" unfolding assembler_inv_def by blast
  from Cons.prems(3) obtain j where j: "j < length cs" "d = cs ! j" by (auto simp: in_set_conv_nth)
  have dist: "distinct cs" using assms(1) by (auto simp: fragment_stream_def distinct_map)
  have key: "stream_key_of d = key" using assms(2) j by simp
  have R: "R \<subseteq> {..<length cs}" "{..<k} \<subseteq> R" using k(2) by (simp_all add: assembly_inv_def)
  then have fin: "finite R" by (auto intro: finite_subset)
  obtain r st' where step: "add_fragment ?gap d ?st = (r, st')" by fastforce
  let ?a1 = "a\<lparr>am_states := (am_states a)(key \<mapsto> st')\<rparr>"
  obtain rs2 a2 where rest: "add_chunks ds ?a1 = (rs2, a2)" by fastforce
  have res: "rs = r # rs2" "a' = a2"
    using Cons.prems(4) by (simp_all add: add_chunk_def key step rest Let_def)
  have union: "insert j R \<union> received cs ds = R \<union> received cs (d # ds)" using received_Cons [OF dist j(1)] j(2) by auto
  have fits: "fits_buffer ?gap R cs (d # ds) \<longleftrightarrow> fits_buffer ?gap (insert j R) cs ds"
    using fits_buffer_Cons [OF dist j(1)] j(2) Cons.prems(2) by simp
  show ?case
  proof (cases "int (card (waiting (insert j R))) \<le> ?gap")
    case False
    then have "\<not> fits_buffer ?gap (insert j R) cs ds" unfolding fits_buffer_def by (metis le0 received_Nil sup_bot_right take0)
    moreover have new: "j \<notin> R" using False Cons.prems(2) by (auto simp: insert_absorb)
    moreover have "j \<noteq> k" using False Cons.prems(2) waiting_insert_next [OF R(2) k(1) fin] by auto
    moreover have "k < j" using R(2) new \<open>j \<noteq> k\<close> by (metis lessThan_iff not_less_iff_gr_or_eq subsetD)
    then have "waiting (insert j R) = insert j (waiting R)" by (rule waiting_insert [OF R(2) k(1)])
    then have "?gap \<le> int (card (waiting R))" using False fin new by (simp add: waiting_def card_insert_if split: if_splits)
    ultimately show ?thesis using add_fragment_full [OF assms(1) k(2,1) new j(1)] step fits by (fastforce simp: res j(2))
  next
    case True
    have "\<exists>k'. assembly_inv cs (insert j R) k' st' \<and> k' \<notin> insert j R \<and> r = Inr (j \<notin> R)"
    proof (cases "j \<in> R")
      case True
      then show ?thesis using add_fragment_again [OF k(2) True] step j(2) k by (auto simp: insert_absorb)
    next
      case False
      have "int (card (waiting R)) < ?gap" if "j \<noteq> k"
      proof -
        have "k < j" using R(2) False that by (metis lessThan_iff not_less_iff_gr_or_eq subsetD)
        then have "waiting (insert j R) = insert j (waiting R)" by (rule waiting_insert [OF R(2) k(1)])
        with True fin False show ?thesis by (simp add: waiting_def)
      qed
      from add_fragment_new [OF assms(1) k(2,1) False j(1) this] step j(2) False show ?thesis by auto
    qed
    then obtain k' where k': "assembly_inv cs (insert j R) k' st'" "k' \<notin> insert j R" "r = Inr (j \<notin> R)" by blast
    have "assembler_inv cs key (insert j R) ?a1" using k' by (auto simp: assembler_inv_def)
    note IH = Cons.IH [OF this _ _ rest]
    have "length (filter (\<lambda>r. r = Inr True) rs) + card R
        = length (filter (\<lambda>r. r = Inr True) rs2) + card (insert j R)"
      using fin by (simp add: res k'(3) card_insert_if)
    with IH True Cons.prems(3) show ?thesis unfolding union fits res by (auto simp: k'(3) split: if_splits)
  qed
qed

lemma assembled_stream:
  assumes "fragment_stream cs" "assembler_inv cs key {..<length cs} a"
  shows "assembled_text key a = Inr (concat (map sc_data cs))"
proof -
  have "cs \<noteq> []" using assms(1) by (simp add: fragment_stream_def)
  with assms(2) obtain st k where st: "am_states a key = Some st" "assembly_inv cs {..<length cs} k st" "k \<notin> {..<length cs}"
    unfolding assembler_inv_def by (cases "am_states a key") auto
  then have "k = length cs" using assembly_inv_bound [OF st(2)] by simp
  with st show ?thesis by (simp add: assembled_text_def assembly_inv_def)
qed

text \<open>
  C28.  Streamed text round-trips.  Whenever a text can be made into fragments, each of them
  holds at most \<open>max_bytes\<close> bytes, and an assembler that receives every fragment at least once, in any
  order and with any repetitions, rejects none exactly if at no time more fragments are ahead of a missing one than its
  buffer holds.  Then it reports exactly the first deliveries as new and in the end gives back the text.  A stream of no more fragments
  than the buffer has places fits in every order.
\<close>

theorem stream_roundtrip:
  assumes "make_text_chunks v fragment_id now source s ca ver b max_bytes = Inr cs"
    and "split_utf8_safely source max_bytes = Inr fragments" "separates v fragments"
    and "inj_on fragment_id {..<length cs}"
    and "new_assembler max_gap = Inr a"
    and "set deliveries = set cs" "add_chunks deliveries a = (rs, a')"
  shows "(if fits_buffer max_gap {} cs deliveries
        then assembled_text (s, ca, ver, map_option (strip v) b) a' = Inr source
          \<and> set rs \<subseteq> {Inr True, Inr False} \<and> length (filter (\<lambda>r. r = Inr True) rs) = length cs
        else \<exists>e. Inl e \<in> set rs)
     \<and> (int (length cs) \<le> max_gap \<longrightarrow> fits_buffer max_gap {} cs deliveries)
     \<and> (\<forall>c\<in>set cs. int (length (text_bytes (sc_data c))) \<le> max_bytes)"
proof -
  note M = make_text_chunks_spec [OF assms(1-4)]
  let ?key = "(s, ca, ver, map_option (strip v) b)"
  have a: "am_states a = Map.empty" "am_max_gap_buffer a = max_gap" "0 < max_gap"
    using assms(5) by (auto simp: new_assembler_def split: if_splits)
  have "cs \<noteq> []" using M(1) by (simp add: fragment_stream_def)
  then have start: "assembler_inv cs ?key {} a" using new_assembly_inv by (auto simp: assembler_inv_def a)
  have room: "int (card (waiting {})) \<le> am_max_gap_buffer a" "set deliveries \<subseteq> set cs" using a(2,3) assms(6) by (simp_all add: waiting_def)
  have R: "if fits_buffer max_gap {} cs deliveries
     then assembler_inv cs ?key (received cs deliveries) a' \<and> set rs \<subseteq> {Inr True, Inr False}
       \<and> length (filter (\<lambda>r. r = Inr True) rs) = card (received cs deliveries)
     else \<exists>e. Inl e \<in> set rs"
    using add_chunks_stream [OF M(1) M(3) start room assms(7)] unfolding a(2) Un_empty_left card.empty add_0_right .
  have all: "received cs deliveries = {..<length cs}" unfolding received_def assms(6) by auto
  have "assembled_text ?key a' = Inr source" if "assembler_inv cs ?key {..<length cs} a'"
    using assembled_stream [OF M(1) that] split_spec(1) [OF assms(2)] by (simp add: M(2))
  moreover have "\<forall>c\<in>set cs. int (length (text_bytes (sc_data c))) \<le> max_bytes"
    using split_spec(4) [OF assms(2)] M(2) by auto
  moreover have "fits_buffer max_gap {} cs deliveries" if "int (length cs) \<le> max_gap"
  proof -
    have "card (waiting (received cs ds)) \<le> length cs" for ds
      using card_mono [of "received cs ds" "waiting (received cs ds)"] received_bound [of cs ds]
      by (force simp: waiting_def received_def)
    with that show ?thesis unfolding fits_buffer_def by (auto intro: order_trans [rotated])
  qed
  ultimately show ?thesis using R unfolding all by auto
qed

text \<open>
  White space at the edge of a fragment makes a stream impossible.  If one of the fragments
  into which a text is split begins or ends with white space, no fragments are made: the contract
  strips the data before it compares their digest, so the digest of the whole fragment does not fit.
\<close>

theorem padded_fragment_rejected:
  assumes "split_utf8_safely source max_bytes = Inr fragments" "separates v fragments"
    and "x \<in> set fragments" "x \<noteq> []" "te_white_space v (hd x) \<or> te_white_space v (last x)"
  shows "\<exists>e. make_text_chunks v fragment_id now source s ca ver b max_bytes = Inl e"
proof (rule ccontr)
  assume "\<not> ?thesis"
  then obtain cs where "make_text_chunks v fragment_id now source s ca ver b max_bytes = Inr cs"
    by (cases "make_text_chunks v fragment_id now source s ca ver b max_bytes") auto
  with assms(1) have all2: "list_all2 (\<lambda>i c. text_chunk v fragment_id now s ca ver b fragments i = Inr c)
      [0..<length fragments] cs"
    by (simp add: make_text_chunks_def map_ok_Inr_iff)
  from assms(3) obtain i where i: "i < length fragments" "x = fragments ! i" by (auto simp: in_set_conv_nth)
  with all2 have "text_chunk v fragment_id now s ca ver b fragments i = Inr (cs ! i)"
    by (auto simp: list_all2_conv_all_nth)
  from text_chunk_spec(2) [OF this assms(2) i(1)] have "strip v x = x" by (simp add: i(2))
  with assms(4,5) show False by (auto simp: strip_text_id_iff)
qed

subsection \<open>Concrete streams\<close>

text \<open>A text environment whose digest is a text of 64 hexadecimal digits that depends on the length.\<close>

definition sample_text_env :: text_env where
  "sample_text_env = \<lparr>te_sha = (\<lambda>b. replicate (64 - length b mod 65) (CHR ''0'') @ replicate (length b mod 65) (CHR ''1'')),
     te_white_space = (\<lambda>c. c = 32)\<rparr>"

text \<open>Ten characters of three bytes each.\<close>

definition sample_text :: unicode_text where
  "sample_text = [0x63A7 .. 0x63B0]"

definition sample_fragment_id :: "nat \<Rightarrow> uuid" where
  "sample_fragment_id i = replicate i (CHR ''f'')"

definition sample_chunks :: "sse_chunk list" where
  "sample_chunks = projr (make_text_chunks sample_text_env sample_fragment_id (\<lambda>_. 0) sample_text ''s'' ''c'' 1 None 6)"

lemma sample_chunks_made:
  "make_text_chunks sample_text_env sample_fragment_id (\<lambda>_. 0) sample_text ''s'' ''c'' 1 None 6 = Inr sample_chunks
     \<and> split_utf8_safely sample_text 6 = Inr (map sc_data sample_chunks) \<and> length sample_chunks = 5"
  by code_simp

lemma sample_fragments_separated: "separates sample_text_env (map sc_data sample_chunks)"
  by code_simp

theorem stream_roundtrip_witness:
  "assembled_text (''s'', ''c'', 1, None) (snd (add_chunks (rev sample_chunks @ sample_chunks)
      (projr (new_assembler 8)))) = Inr sample_text"
proof -
  have inj: "inj_on sample_fragment_id {..<length sample_chunks}"
    by (auto simp: inj_on_def sample_fragment_id_def dest: arg_cong [of _ _ length])
  have new: "new_assembler 8 = Inr (projr (new_assembler 8))" by (simp add: new_assembler_def)
  have len: "int (length sample_chunks) \<le> 8" using sample_chunks_made by simp
  have all: "set (rev sample_chunks @ sample_chunks) = set sample_chunks" by auto
  have made: "make_text_chunks sample_text_env sample_fragment_id (\<lambda>_. 0) sample_text ''s'' ''c'' 1 None 6 = Inr sample_chunks"
    "split_utf8_safely sample_text 6 = Inr (map sc_data sample_chunks)" using sample_chunks_made by simp_all
  note result = stream_roundtrip [OF made sample_fragments_separated inj new all prod.collapse [symmetric]]
  then have "fits_buffer 8 {} sample_chunks (rev sample_chunks @ sample_chunks)" using len by blast
  with result show ?thesis by (simp only: if_True option.map)
qed

theorem padded_fragment_rejected_witness:
  "\<exists>e. make_text_chunks sample_text_env sample_fragment_id (\<lambda>_. 0) [72, 105, 33, 32, 72, 105] ''s'' ''c'' 1 None 4 = Inl e"
proof -
  have "split_utf8_safely [72, 105, 33, 32, 72, 105] 4 = Inr [[72, 105, 33, 32], [72, 105]]" by code_simp
  then show ?thesis
  proof (rule padded_fragment_rejected)
    show "separates sample_text_env [[72, 105, 33, 32], [72, 105]]" by code_simp
    show "[72, 105, 33, 32] \<in> set [[72, 105, 33, 32 :: int], [72, 105]]" by simp
  qed (simp_all add: sample_text_env_def)
qed

end
