(* ===== verification/ReplayLog.thy ===== *)
theory ReplayLog
  imports PyText Envelope "HOL-Library.Sublist"
begin

text \<open>
  Streamed events and their replay logs: the event, its validation and its frame and the in-memory
  log of \<^verbatim>\<open>backend/src/liyans/infrastructure/streaming/sse.py\<close>, and the PostgreSQL log of
  \<^verbatim>\<open>postgres_replay.py\<close> in the same directory.  Python's JSON text of a document and the digest of a
  document are parameters.  The locale \<open>replay_log\<close> states what both logs promise: a replay is the
  end of the tenant's history, complete and in order, or an error.
\<close>

subsection \<open>Events\<close>

record event_env =
  ee_dumps :: "doc \<Rightarrow> app_error + unicode_text"
  ee_sha :: "doc \<Rightarrow> digest"

record sse_event =
  se_tenant_id :: tenant
  se_sequence :: int
  se_event_type :: string
  se_data :: doc
  se_emitted_at :: timestamp

definition sse_event_invalid :: "int \<Rightarrow> app_error" where
  "sse_event_invalid status = liyan ''LIYAN-SSE-EVENT-INVALID'' EC_CONTRACT False status"

text \<open>\<^verbatim>\<open>^[A-Za-z0-9][A-Za-z0-9._:-]{0,127}$\<close>, matched against the whole text.\<close>

definition is_event_type :: "string \<Rightarrow> bool" where
  "is_event_type s \<longleftrightarrow>
     (s \<noteq> [] \<and> int (length s) \<le> 128 \<and> is_alnum (hd s)
         \<and> list_all (\<lambda>c. is_alnum c \<or> c \<in> {CHR ''.'', CHR ''_'', CHR '':'', CHR ''-''}) (tl s))"

definition validate_sse_event :: "event_env \<Rightarrow> string \<Rightarrow> doc \<Rightarrow> int \<Rightarrow> app_error + unit" where
  "validate_sse_event v event_type payload max_event_bytes =
     (if \<not> is_event_type event_type then Inl (sse_event_invalid 422)
      else case rbind (ee_dumps v payload) utf8_encode of
             Inl _ \<Rightarrow> Inl (sse_event_invalid 422)
           | Inr encoded \<Rightarrow> guard (int (length encoded) \<le> max_event_bytes) (sse_event_invalid 413))"

subsection \<open>Frames\<close>

definition code_points :: "string \<Rightarrow> unicode_text" where
  "code_points s = map (\<lambda>c. of_char c) s"

text \<open>The line boundaries of Python's \<^verbatim>\<open>str.splitlines\<close>.\<close>

definition is_line_boundary :: "code_point \<Rightarrow> bool" where
  "is_line_boundary c \<longleftrightarrow> c \<in> {10, 11, 12, 13, 0x1C, 0x1D, 0x1E, 0x85, 0x2028, 0x2029}"

function split_lines :: "unicode_text \<Rightarrow> unicode_text \<Rightarrow> unicode_text list" where
  "split_lines line [] = (if line = [] then [] else [line])"
| "split_lines line (c # cs) =
     (if is_line_boundary c
      then line # split_lines [] (if c = 13 \<and> cs \<noteq> [] \<and> hd cs = 10 then tl cs else cs)
      else split_lines (line @ [c]) cs)"
  by pat_completeness auto

termination
  by (relation "measure (\<lambda>(_, cs). length cs)") auto

definition data_lines :: "unicode_text \<Rightarrow> unicode_text list" where
  "data_lines encoded = (case split_lines [] encoded of [] \<Rightarrow> [[]] | ls \<Rightarrow> ls)"

fun join_lines :: "unicode_text list \<Rightarrow> unicode_text" where
  "join_lines [] = []"
| "join_lines [l] = l"
| "join_lines (l # ls) = l @ 10 # join_lines ls"

definition frame_text :: "string \<Rightarrow> unicode_text \<Rightarrow> unicode_text" where
  "frame_text event_type encoded =
     join_lines ((code_points ''event: '' @ code_points event_type)
       # map (\<lambda>line. code_points ''data: '' @ line) (data_lines encoded)) @ [10, 10]"

definition frame_body :: "event_env \<Rightarrow> sse_event \<Rightarrow> app_error + bytes" where
  "frame_body v e = rbind (ee_dumps v (se_data e)) (\<lambda>encoded. utf8_encode (frame_text (se_event_type e) encoded))"

definition size_bytes :: "event_env \<Rightarrow> sse_event \<Rightarrow> app_error + int" where
  "size_bytes v e = rbind (ee_dumps v (se_data e)) (\<lambda>encoded. rbind (utf8_encode encoded) (\<lambda>b.
     Inr (int (length (se_event_type e)) + int (length b))))"

definition encode_sse_frame :: "event_env \<Rightarrow> sse_event \<Rightarrow> unicode_text \<Rightarrow> app_error + bytes" where
  "encode_sse_frame v e cursor =
     rbind (guard (list_all (\<lambda>c. c < 128) cursor) unicode_encode_error) (\<lambda>_.
     rbind (utf8_encode (code_points ''id: '' @ cursor @ [10])) (\<lambda>head.
     rbind (frame_body v e) (\<lambda>body. Inr (head @ body))))"

subsection \<open>The log in memory\<close>

record memory_log =
  ml_capacity :: int
  ml_max_event_bytes :: int
  ml_events :: "tenant \<rightharpoonup> sse_event list"
  ml_next_sequence :: "tenant \<Rightarrow> int"

definition new_memory_log :: "int \<Rightarrow> int \<Rightarrow> app_error + memory_log" where
  "new_memory_log capacity max_event_bytes =
     (if capacity < 1 then Inl (Foreign_error ''capacity_per_tenant must be positive'')
      else if max_event_bytes < 1 then Inl (Foreign_error ''max_event_bytes must be positive'')
      else Inr \<lparr>ml_capacity = capacity, ml_max_event_bytes = max_event_bytes, ml_events = Map.empty,
                ml_next_sequence = (\<lambda>_. 0)\<rparr>)"

text \<open>\<^verbatim>\<open>deque(maxlen=n)\<close> drops from its front.\<close>

definition deque_append :: "int \<Rightarrow> 'a list \<Rightarrow> 'a \<Rightarrow> 'a list" where
  "deque_append maxlen xs x = drop (length (xs @ [x]) - nat maxlen) (xs @ [x])"

definition memory_append ::
  "event_env \<Rightarrow> timestamp \<Rightarrow> tenant \<Rightarrow> string \<Rightarrow> doc \<Rightarrow> memory_log \<Rightarrow> (app_error + sse_event) \<times> memory_log" where
  "memory_append v now t event_type payload lg =
     (case validate_sse_event v event_type payload (ml_max_event_bytes lg) of
        Inl e \<Rightarrow> (Inl e, lg)
      | Inr _ \<Rightarrow>
          let n = ml_next_sequence lg t;
              event = \<lparr>se_tenant_id = t, se_sequence = n, se_event_type = event_type, se_data = payload,
                       se_emitted_at = now\<rparr>;
              events = (case ml_events lg t of None \<Rightarrow> [] | Some es \<Rightarrow> es)
          in (Inr event, lg\<lparr>ml_events := (ml_events lg)(t \<mapsto> deque_append (ml_capacity lg) events event),
                             ml_next_sequence := (ml_next_sequence lg)(t := n + 1)\<rparr>))"

definition replay_cursor_stale :: app_error where
  "replay_cursor_stale = liyan ''LIYAN-SSE-REPLAY-CURSOR-INVALID'' EC_MESSAGING False 409"

definition memory_replay :: "tenant \<Rightarrow> int option \<Rightarrow> memory_log \<Rightarrow> app_error + sse_event list" where
  "memory_replay t after_sequence lg =
     (let events = (case ml_events lg t of None \<Rightarrow> [] | Some es \<Rightarrow> es)
      in case after_sequence of
           None \<Rightarrow> Inr events
         | Some n \<Rightarrow>
             if events \<noteq> [] \<and> n < se_sequence (hd events) - 1 then Inl replay_cursor_stale
             else Inr (filter (\<lambda>e. n < se_sequence e) events))"

definition memory_latest :: "tenant \<Rightarrow> memory_log \<Rightarrow> int option" where
  "memory_latest t lg = (if ml_next_sequence lg t \<noteq> 0 then Some (ml_next_sequence lg t - 1) else None)"

subsection \<open>The log in PostgreSQL\<close>

record event_row =
  er_row_tenant :: tenant
  er_row_sequence :: int
  er_row_event_type :: string
  er_row_data :: doc
  er_row_data_sha256 :: digest
  er_row_emitted_at :: timestamp
  er_row_expires_at :: timestamp

type_synonym event_table = "event_row list"

record pg_log =
  pl_retention :: int
  pl_max_event_bytes :: int
  pl_max_replay_events :: int

definition valid_pg_log :: "pg_log \<Rightarrow> bool" where
  "valid_pg_log c \<longleftrightarrow> 0 < pl_retention c \<and> 1 \<le> pl_max_event_bytes c
     \<and> 1 \<le> pl_max_replay_events c \<and> pl_max_replay_events c \<le> 10000"

definition list_max :: "int list \<Rightarrow> int option" where
  "list_max ns = (case ns of [] \<Rightarrow> None | n # ms \<Rightarrow> Some (foldl max n ms))"

definition list_min :: "int list \<Rightarrow> int option" where
  "list_min ns = (case ns of [] \<Rightarrow> None | n # ms \<Rightarrow> Some (foldl min n ms))"

definition tenant_rows :: "tenant \<Rightarrow> event_table \<Rightarrow> event_row list" where
  "tenant_rows t tbl = filter (\<lambda>r. er_row_tenant r = t) tbl"

definition max_sequence :: "tenant \<Rightarrow> event_table \<Rightarrow> int option" where
  "max_sequence t tbl = list_max (map er_row_sequence (tenant_rows t tbl))"

text \<open>The advisory lock makes the transaction of one tenant's append run alone.\<close>

definition pg_append ::
  "event_env \<Rightarrow> pg_log \<Rightarrow> tenant option \<Rightarrow> timestamp \<Rightarrow> tenant \<Rightarrow> string \<Rightarrow> doc \<Rightarrow> event_table
     \<Rightarrow> (app_error + sse_event) \<times> event_table" where
  "pg_append v c ctx now t event_type payload tbl =
     (case rbind (validate_sse_event v event_type payload (pl_max_event_bytes c)) (\<lambda>_. assert_tenant ctx t) of
        Inl e \<Rightarrow> (Inl e, tbl)
      | Inr _ \<Rightarrow>
          let n = (case max_sequence t tbl of None \<Rightarrow> 0 | Some m \<Rightarrow> m + 1);
              event = \<lparr>se_tenant_id = t, se_sequence = n, se_event_type = event_type, se_data = payload,
                       se_emitted_at = now\<rparr>
          in (Inr event, tbl @ [\<lparr>er_row_tenant = t, er_row_sequence = n, er_row_event_type = event_type,
                er_row_data = payload, er_row_data_sha256 = ee_sha v payload, er_row_emitted_at = now,
                er_row_expires_at = now + pl_retention c\<rparr>]))"

definition validate_cursor :: "int option \<Rightarrow> int option \<Rightarrow> int option \<Rightarrow> app_error + unit" where
  "validate_cursor after_sequence minimum_retained maximum_seen =
     (case after_sequence of
        None \<Rightarrow> Inr ()
      | Some n \<Rightarrow>
          (case maximum_seen of
             None \<Rightarrow> Inl replay_cursor_stale
           | Some m \<Rightarrow>
               if m < n then Inl replay_cursor_stale
               else guard (\<not> (case minimum_retained of Some k \<Rightarrow> n < k - 1 | None \<Rightarrow> n < m)) replay_cursor_stale))"

definition row_to_event :: "event_env \<Rightarrow> event_row \<Rightarrow> app_error + sse_event" where
  "row_to_event v r =
     (if ee_sha v (er_row_data r) \<noteq> er_row_data_sha256 r
      then Inl (liyan ''LIYAN-SSE-EVENT-INTEGRITY-FAILED'' EC_DATABASE False 500)
      else Inr \<lparr>se_tenant_id = er_row_tenant r, se_sequence = er_row_sequence r, se_event_type = er_row_event_type r,
                se_data = er_row_data r, se_emitted_at = er_row_emitted_at r\<rparr>)"

definition retained_rows :: "timestamp \<Rightarrow> tenant \<Rightarrow> event_table \<Rightarrow> event_row list" where
  "retained_rows now t tbl = filter (\<lambda>r. now < er_row_expires_at r) (tenant_rows t tbl)"

definition pg_replay ::
  "event_env \<Rightarrow> pg_log \<Rightarrow> tenant option \<Rightarrow> timestamp \<Rightarrow> tenant \<Rightarrow> int option \<Rightarrow> event_table
     \<Rightarrow> app_error + sse_event list" where
  "pg_replay v c ctx now t after_sequence tbl =
     rbind (assert_tenant ctx t) (\<lambda>_.
       let retained = retained_rows now t tbl; budget = nat (pl_max_replay_events c)
       in rbind (validate_cursor after_sequence (list_min (map er_row_sequence retained)) (max_sequence t tbl)) (\<lambda>_.
       case after_sequence of
         Some n \<Rightarrow>
           let rows = take (budget + 1) (sort_key er_row_sequence (filter (\<lambda>r. n < er_row_sequence r) retained))
           in if budget < length rows then Inl replay_cursor_stale else map_ok (row_to_event v) rows
       | None \<Rightarrow> map_ok (row_to_event v) (rev (take budget (rev (sort_key er_row_sequence retained))))))"

definition pg_latest :: "tenant option \<Rightarrow> tenant \<Rightarrow> event_table \<Rightarrow> app_error + int option" where
  "pg_latest ctx t tbl = rbind (assert_tenant ctx t) (\<lambda>_. Inr (max_sequence t tbl))"

definition expired_rows :: "timestamp \<Rightarrow> tenant \<Rightarrow> int \<Rightarrow> event_table \<Rightarrow> event_row list" where
  "expired_rows now t limit tbl =
     take (nat limit) (sort_key er_row_expires_at
       (filter (\<lambda>r. er_row_expires_at r \<le> now
                    \<and> (case max_sequence t tbl of None \<Rightarrow> False | Some m \<Rightarrow> er_row_sequence r < m)) (tenant_rows t tbl)))"

text \<open>A row is known by its tenant and sequence, which are unique.\<close>

definition delete_expired ::
  "tenant option \<Rightarrow> timestamp \<Rightarrow> tenant \<Rightarrow> int \<Rightarrow> event_table \<Rightarrow> (app_error + nat) \<times> event_table" where
  "delete_expired ctx now t limit tbl =
     (if \<not> (1 \<le> limit \<and> limit \<le> 10000)
      then (Inl (Foreign_error ''SSE expiry delete limit must be between one and 10000''), tbl)
      else case assert_tenant ctx t of
             Inl e \<Rightarrow> (Inl e, tbl)
           | Inr _ \<Rightarrow>
               let gone = map er_row_sequence (expired_rows now t limit tbl);
                   cond = (\<lambda>r. er_row_tenant r = t \<and> er_row_sequence r \<in> set gone)
               in (Inr (length (filter cond tbl)), filter (\<lambda>r. \<not> cond r) tbl))"

subsection \<open>Splitting a text into lines\<close>

lemma split_lines_plain:
  "\<forall>c\<in>set s. \<not> is_line_boundary c \<Longrightarrow> split_lines line s = (if line @ s = [] then [] else [line @ s])"
  by (induction s arbitrary: line) auto

lemma split_lines_first:
  "\<forall>c\<in>set a. \<not> is_line_boundary c \<Longrightarrow> is_line_boundary c \<Longrightarrow> c \<noteq> 13
     \<Longrightarrow> split_lines line (a @ c # b) = (line @ a) # split_lines [] b"
  by (induction a arbitrary: line) auto

lemma split_lines_free:
  "\<forall>c\<in>set line. \<not> is_line_boundary c \<Longrightarrow> l \<in> set (split_lines line s) \<Longrightarrow> c \<in> set l \<Longrightarrow> \<not> is_line_boundary c"
proof (induction line s rule: split_lines.induct)
  case (2 line c' cs)
  show ?case
  proof (cases "is_line_boundary c'")
    case True
    with 2(1) [OF True] 2(3-5) show ?thesis by auto
  next
    case False
    with 2(2) [OF False] 2(3-5) show ?thesis by auto
  qed
qed (auto split: if_splits)

lemma data_lines_free: "l \<in> set (data_lines s) \<Longrightarrow> c \<in> set l \<Longrightarrow> \<not> is_line_boundary c"
  using split_lines_free [of "[]" l s c] by (auto simp: data_lines_def split: list.splits)

subsection \<open>The contract of a replay log\<close>

record 's replay_operations =
  rp_append :: "timestamp \<Rightarrow> tenant \<Rightarrow> string \<Rightarrow> doc \<Rightarrow> 's \<Rightarrow> (app_error + sse_event) \<times> 's"
  rp_replay :: "timestamp \<Rightarrow> tenant \<Rightarrow> int option \<Rightarrow> 's \<Rightarrow> app_error + sse_event list"
  rp_latest :: "tenant \<Rightarrow> 's \<Rightarrow> app_error + int option"
  rp_expire :: "timestamp \<Rightarrow> tenant \<Rightarrow> int \<Rightarrow> 's \<Rightarrow> 's"

type_synonym history = "tenant \<Rightarrow> sse_event list"

definition numbered :: "history \<Rightarrow> bool" where
  "numbered H \<longleftrightarrow> (\<forall>t i. i < length (H t) \<longrightarrow> se_sequence (H t ! i) = int i \<and> se_tenant_id (H t ! i) = t)"

text \<open>\<open>rel now H s\<close>: at the time \<open>now\<close> the state \<open>s\<close> represents the complete histories \<open>H\<close>.\<close>

locale replay_log =
  fixes rel :: "timestamp \<Rightarrow> history \<Rightarrow> 's \<Rightarrow> bool" and ops :: "'s replay_operations"
  assumes rel_numbered: "rel now H s \<Longrightarrow> numbered H"
    and rel_later: "rel now H s \<Longrightarrow> now \<le> now' \<Longrightarrow> rel now' H s"
    and append_ok: "rel now H s \<Longrightarrow> rp_append ops now t ty d s = (Inr e, s')
      \<Longrightarrow> rel now (H(t := H t @ [e])) s' \<and> se_event_type e = ty \<and> se_data e = d"
    and append_error: "rel now H s \<Longrightarrow> rp_append ops now t ty d s = (Inl x, s') \<Longrightarrow> s' = s"
    and expire: "rel now H s \<Longrightarrow> rel now H (rp_expire ops now t limit s)"
    and replay_after: "rel now H s \<Longrightarrow> rp_replay ops now t (Some n) s = Inr es \<Longrightarrow> es = drop (nat (n + 1)) (H t)"
    and replay_all: "rel now H s \<Longrightarrow> rp_replay ops now t None s = Inr es \<Longrightarrow> suffix es (H t)"
    and latest: "rel now H s \<Longrightarrow> rp_latest ops t s = Inr l
      \<Longrightarrow> l = (if H t = [] then None else Some (int (length (H t)) - 1))"

text \<open>
  A log in use, with a consumer that follows one tenant: it asks for the events after the last one
  it has seen.  The second component collects the events appended for the tenant.
\<close>

datatype log_operation =
    Append_event tenant string doc
  | Expire_events tenant int
  | Poll

definition consumer_position :: "sse_event list \<Rightarrow> int" where
  "consumer_position seen = (if seen = [] then - 1 else se_sequence (last seen))"

fun log_step ::
  "'s replay_operations \<Rightarrow> tenant \<Rightarrow> timestamp \<times> log_operation \<Rightarrow> 's \<times> sse_event list \<times> sse_event list
     \<Rightarrow> 's \<times> sse_event list \<times> sse_event list" where
  "log_step ops t (now, Append_event t' ty d) (s, appended, seen) =
     (case rp_append ops now t' ty d s of
        (Inl _, s') \<Rightarrow> (s', appended, seen)
      | (Inr e, s') \<Rightarrow> (s', if t' = t then appended @ [e] else appended, seen))"
| "log_step ops t (now, Expire_events t' limit) (s, appended, seen) =
     (rp_expire ops now t' limit s, appended, seen)"
| "log_step ops t (now, Poll) (s, appended, seen) =
     (case rp_replay ops now t (Some (consumer_position seen)) s of
        Inl _ \<Rightarrow> (s, appended, seen)
      | Inr es \<Rightarrow> (s, appended, seen @ es))"

definition log_run ::
  "'s replay_operations \<Rightarrow> tenant \<Rightarrow> (timestamp \<times> log_operation) list \<Rightarrow> 's \<Rightarrow> 's \<times> sse_event list \<times> sse_event list" where
  "log_run ops t calls s = fold (log_step ops t) calls (s, [], [])"

text \<open>The consumer has seen the first events of the history, and they are what was appended.\<close>

definition follows :: "tenant \<Rightarrow> history \<Rightarrow> sse_event list \<Rightarrow> sse_event list \<Rightarrow> bool" where
  "follows t H appended seen \<longleftrightarrow> H t = appended \<and> prefix seen appended"

lemma consumer_position_prefix:
  assumes "numbered H" "prefix seen (H t)"
  shows "consumer_position seen = int (length seen) - 1"
proof (cases "seen = []")
  case False
  then have n: "length seen - 1 < length seen" by simp
  moreover have "length seen \<le> length (H t)" using assms(2) by (rule prefix_length_le)
  moreover have "last seen = H t ! (length seen - 1)"
    using assms(2) False n by (auto simp: last_conv_nth prefix_def nth_append)
  ultimately have "se_sequence (last seen) = int (length seen - 1)" using assms(1) by (simp add: numbered_def)
  then show ?thesis using False n by (simp add: consumer_position_def)
qed (simp add: consumer_position_def)

context replay_log
begin

lemma poll_completes:
  assumes "rel now H s" "prefix seen (H t)" "rp_replay ops now t (Some (consumer_position seen)) s = Inr es"
  shows "seen @ es = H t"
proof -
  have "es = drop (length seen) (H t)"
    using replay_after [OF assms(1,3)] consumer_position_prefix [OF rel_numbered [OF assms(1)] assms(2)] by simp
  moreover have "seen = take (length seen) (H t)" using assms(2) by (auto simp: prefix_def)
  ultimately show ?thesis by (metis append_take_drop_id)
qed

lemma log_step_follows:
  assumes "rel now H s" "follows t H appended seen" "log_step ops t (now, c) (s, appended, seen) = (s', appended', seen')"
  shows "\<exists>H'. rel now H' s' \<and> follows t H' appended' seen'"
proof (cases c)
  case (Append_event t' ty d)
  show ?thesis
  proof (cases "rp_append ops now t' ty d s")
    case (Pair r s1)
    show ?thesis
    proof (cases r)
      case (Inl x)
      then have "s1 = s" using append_error [OF assms(1)] Pair by blast
      then show ?thesis using assms Append_event Pair Inl by auto
    next
      case (Inr e)
      have "rel now (H(t' := H t' @ [e])) s1" using append_ok [OF assms(1)] Pair Inr by blast
      moreover have "follows t (H(t' := H t' @ [e])) appended' seen'"
        using assms(2,3) Append_event Pair Inr by (auto simp: follows_def)
      moreover have "s' = s1" using assms(3) Append_event Pair Inr by simp
      ultimately show ?thesis by blast
    qed
  qed
next
  case (Expire_events t' limit)
  then show ?thesis using assms expire [OF assms(1)] by auto
next
  case Poll
  have pre: "prefix seen (H t)" using assms(2) by (simp add: follows_def)
  show ?thesis
  proof (cases "rp_replay ops now t (Some (consumer_position seen)) s")
    case (Inl x)
    then show ?thesis using assms Poll by auto
  next
    case (Inr es)
    from poll_completes [OF assms(1) pre Inr] have "follows t H appended (seen @ es)"
      using assms(2) by (simp add: follows_def)
    then show ?thesis using assms Poll Inr by auto
  qed
qed

lemma log_steps_follow:
  assumes "rel now H s" "follows t H appended seen" "sorted (now # map fst calls)"
    and "fold (log_step ops t) calls (s, appended, seen) = (s', appended', seen')"
  shows "\<exists>H' now'. rel now' H' s' \<and> follows t H' appended' seen' \<and> now \<le> now' \<and> (\<forall>x\<in>set calls. fst x \<le> now')
     \<and> (now' = now \<or> now' \<in> fst ` set calls)"
  using assms
proof (induction calls arbitrary: now H s appended seen)
  case (Cons x calls)
  obtain u c where x: "x = (u, c)" by fastforce
  obtain s1 a1 k1 where step: "log_step ops t (u, c) (s, appended, seen) = (s1, a1, k1)" by (rule prod_cases3)
  have "now \<le> u" using Cons.prems(3) by (simp add: x)
  from log_step_follows [OF rel_later [OF Cons.prems(1) this] Cons.prems(2) step] obtain H1 where
    H1: "rel u H1 s1" "follows t H1 a1 k1" by blast
  have "sorted (u # map fst calls)" using Cons.prems(3) by (simp add: x)
  from Cons.IH [OF H1 this] Cons.prems(4) obtain H' now' where
    "rel now' H' s'" "follows t H' appended' seen'" "u \<le> now'" "\<forall>x\<in>set calls. fst x \<le> now'"
    "now' = u \<or> now' \<in> fst ` set calls" by (auto simp: x step)
  with \<open>now \<le> u\<close> show ?case by (intro exI [of _ H'] exI [of _ now']) (auto simp: x)
qed auto

lemma consumer_complete:
  assumes "rel start (\<lambda>_. []) s" "sorted (start # map fst calls)" "log_run ops t calls s = (s', appended, seen)"
  shows "prefix seen appended"
    and "(\<And>x. x \<in> set calls \<Longrightarrow> fst x \<le> now) \<Longrightarrow> start \<le> now
      \<Longrightarrow> rp_replay ops now t (Some (consumer_position seen)) s' = Inr es \<Longrightarrow> seen @ es = appended"
proof -
  have "follows t (\<lambda>_. []) [] []" by (simp add: follows_def)
  from log_steps_follow [OF assms(1) this assms(2) assms(3) [unfolded log_run_def]] obtain H' now' where
    H': "rel now' H' s'" "follows t H' appended seen" "now' = start \<or> now' \<in> fst ` set calls" by blast
  then show pre: "prefix seen appended" by (simp add: follows_def)
  assume later: "\<And>x. x \<in> set calls \<Longrightarrow> fst x \<le> now" "start \<le> now"
    and poll: "rp_replay ops now t (Some (consumer_position seen)) s' = Inr es"
  have "now' \<le> now" using H'(3) later by auto
  from poll_completes [OF rel_later [OF H'(1) this] _ poll] H'(2) pre show "seen @ es = appended"
    by (simp add: follows_def)
qed

end

subsection \<open>The log in memory keeps the contract\<close>

definition memory_operations :: "event_env \<Rightarrow> memory_log replay_operations" where
  "memory_operations v =
     \<lparr>rp_append = memory_append v, rp_replay = (\<lambda>_ t n lg. memory_replay t n lg),
      rp_latest = (\<lambda>t lg. Inr (memory_latest t lg)), rp_expire = (\<lambda>_ _ _ lg. lg)\<rparr>"

definition memory_rel :: "timestamp \<Rightarrow> history \<Rightarrow> memory_log \<Rightarrow> bool" where
  "memory_rel now H lg \<longleftrightarrow> numbered H \<and> 1 \<le> ml_capacity lg
     \<and> (\<forall>t. ml_next_sequence lg t = int (length (H t))
          \<and> (case ml_events lg t of None \<Rightarrow> [] | Some es \<Rightarrow> es) = drop (length (H t) - nat (ml_capacity lg)) (H t))"

lemma numbered_append:
  assumes "numbered H" "se_sequence e = int (length (H t))" "se_tenant_id e = t"
  shows "numbered (H(t := H t @ [e]))"
  using assms by (auto simp: numbered_def nth_append less_Suc_eq)

lemma deque_append_drop:
  assumes "1 \<le> n"
  shows "deque_append n (drop (length xs - nat n) xs) x = drop (length (xs @ [x]) - nat n) (xs @ [x])"
proof (cases "length xs < nat n")
  case True
  then show ?thesis by (simp add: deque_append_def)
next
  case False
  moreover have "0 < nat n" using assms by simp
  ultimately show ?thesis by (simp add: deque_append_def Suc_diff_le drop_Suc tl_drop [symmetric] drop_drop)
qed

lemma filter_after:
  assumes "\<And>i. i < length es \<Longrightarrow> se_sequence (es ! i) = int (k + i)"
  shows "filter (\<lambda>e. n < se_sequence e) es = drop (nat (n + 1) - k) es"
  using assms
proof (induction es arbitrary: k)
  case (Cons e es)
  have e: "se_sequence e = int k" using Cons.prems [of 0] by simp
  have "filter (\<lambda>e. n < se_sequence e) es = drop (nat (n + 1) - Suc k) es"
    by (rule Cons.IH) (use Cons.prems [of "Suc _"] in simp)
  moreover have "nat (n + 1) - k = (if n < int k then 0 else Suc (nat (n + 1) - Suc k))" by auto
  ultimately show ?case
  proof (cases "n < int k")
    case True
    then have "nat (n + 1) - Suc k = 0" "nat (n + 1) - k = 0" by auto
    with \<open>filter _ es = _\<close> True e show ?thesis by simp
  qed (simp add: e)
qed simp

interpretation mem_log: replay_log memory_rel "memory_operations v" for v
proof unfold_locales
  fix now H lg t ty d e lg'
  assume rel: "memory_rel now H lg" and app: "rp_append (memory_operations v) now t ty d lg = (Inr e, lg')"
  from app have e: "e = \<lparr>se_tenant_id = t, se_sequence = ml_next_sequence lg t, se_event_type = ty, se_data = d,
      se_emitted_at = now\<rparr>"
    and lg': "lg' = lg\<lparr>ml_events := (ml_events lg)(t \<mapsto> deque_append (ml_capacity lg)
        (case ml_events lg t of None \<Rightarrow> [] | Some es \<Rightarrow> es) e), ml_next_sequence := (ml_next_sequence lg)(t := ml_next_sequence lg t + 1)\<rparr>"
    by (auto simp: memory_operations_def memory_append_def Let_def split: sum.splits)
  have "numbered (H(t := H t @ [e]))" by (rule numbered_append) (use rel in \<open>simp_all add: memory_rel_def e\<close>)
  moreover have "deque_append (ml_capacity lg) (case ml_events lg t of None \<Rightarrow> [] | Some es \<Rightarrow> es) e
      = drop (length (H t @ [e]) - nat (ml_capacity lg)) (H t @ [e])"
    using rel deque_append_drop [of "ml_capacity lg" "H t" e] unfolding memory_rel_def by simp
  ultimately show "memory_rel now (H(t := H t @ [e])) lg' \<and> se_event_type e = ty \<and> se_data e = d"
    using rel by (simp add: memory_rel_def lg' e)
next
  fix now H lg t n es
  assume rel: "memory_rel now H lg" and rep: "rp_replay (memory_operations v) now t (Some n) lg = Inr es"
  let ?k = "length (H t) - nat (ml_capacity lg)"
  let ?es = "drop ?k (H t)"
  have evs: "(case ml_events lg t of None \<Rightarrow> [] | Some es \<Rightarrow> es) = ?es" using rel by (simp add: memory_rel_def)
  have seq: "se_sequence (?es ! i) = int (?k + i)" if "i < length ?es" for i
    using rel that unfolding memory_rel_def numbered_def by simp
  have hd: "?es \<noteq> [] \<Longrightarrow> se_sequence (hd ?es) = int ?k" using seq [of 0] by (simp add: hd_conv_nth)
  from rep have es: "es = filter (\<lambda>e. n < se_sequence e) ?es" and ok: "?es \<noteq> [] \<Longrightarrow> int ?k - 1 \<le> n"
    using hd by (auto simp: memory_operations_def memory_replay_def evs Let_def split: if_splits)
  have "es = drop (nat (n + 1) - ?k) ?es" unfolding es by (rule filter_after) (rule seq)
  also have "\<dots> = drop (nat (n + 1)) (H t)"
  proof (cases "?es = []")
    case True
    then have "length (H t) \<le> length (H t) - nat (ml_capacity lg)" by (simp only: drop_eq_Nil)
    moreover have "0 < nat (ml_capacity lg)" using rel by (simp add: memory_rel_def)
    ultimately have "H t = []" by (cases "length (H t)") (simp, linarith)
    then show ?thesis by simp
  next
    case False
    from ok [OF this] have "?k \<le> nat (n + 1)" by linarith
    then show ?thesis by simp
  qed
  finally show "es = drop (nat (n + 1)) (H t)" .
qed (auto simp: memory_rel_def memory_operations_def memory_append_def memory_replay_def memory_latest_def Let_def
    suffix_drop split: sum.splits)

subsection \<open>The log in PostgreSQL keeps the contract\<close>

text \<open>The operations of a correctly scoped caller.\<close>

definition pg_operations :: "event_env \<Rightarrow> pg_log \<Rightarrow> event_table replay_operations" where
  "pg_operations v c =
     \<lparr>rp_append = (\<lambda>now t. pg_append v c (Some t) now t), rp_replay = (\<lambda>now t. pg_replay v c (Some t) now t),
      rp_latest = (\<lambda>t. pg_latest (Some t) t), rp_expire = (\<lambda>now t limit tbl. snd (delete_expired (Some t) now t limit tbl))\<rparr>"

definition event_to_row :: "event_env \<Rightarrow> pg_log \<Rightarrow> sse_event \<Rightarrow> event_row" where
  "event_to_row v c e =
     \<lparr>er_row_tenant = se_tenant_id e, er_row_sequence = se_sequence e, er_row_event_type = se_event_type e,
      er_row_data = se_data e, er_row_data_sha256 = ee_sha v (se_data e), er_row_emitted_at = se_emitted_at e,
      er_row_expires_at = se_emitted_at e + pl_retention c\<rparr>"

definition unexpired :: "pg_log \<Rightarrow> timestamp \<Rightarrow> sse_event \<Rightarrow> bool" where
  "unexpired c now e \<longleftrightarrow> now < se_emitted_at e + pl_retention c"

definition pg_rel :: "event_env \<Rightarrow> pg_log \<Rightarrow> timestamp \<Rightarrow> history \<Rightarrow> event_table \<Rightarrow> bool" where
  "pg_rel v c now H tbl \<longleftrightarrow> numbered H \<and> valid_pg_log c
     \<and> (\<forall>t. sorted (map se_emitted_at (H t)) \<and> (\<forall>e\<in>set (H t). se_emitted_at e \<le> now))
     \<and> distinct (map (\<lambda>r. (er_row_tenant r, er_row_sequence r)) tbl)
     \<and> (\<forall>r\<in>set tbl. \<exists>e\<in>set (H (er_row_tenant r)). r = event_to_row v c e)
     \<and> (\<forall>t e. e \<in> set (H t) \<longrightarrow> e = last (H t) \<or> unexpired c now e \<longrightarrow> event_to_row v c e \<in> set tbl)"

lemma row_to_event_row [simp]: "row_to_event v (event_to_row v c e) = Inr e"
  by (simp add: row_to_event_def event_to_row_def)

lemma event_to_row_fields [simp]:
  "er_row_tenant (event_to_row v c e) = se_tenant_id e" "er_row_sequence (event_to_row v c e) = se_sequence e"
  "er_row_expires_at (event_to_row v c e) = se_emitted_at e + pl_retention c"
  by (simp_all add: event_to_row_def)

lemma numbered_in:
  assumes "numbered H" "e \<in> set (H t)"
  shows "se_tenant_id e = t" "0 \<le> se_sequence e" "se_sequence e < int (length (H t))" "H t ! nat (se_sequence e) = e"
  using assms unfolding numbered_def in_set_conv_nth by auto

lemma numbered_sequences: "numbered H \<Longrightarrow> map se_sequence (H t) = map int [0..<length (H t)]"
  by (rule nth_equalityI) (simp_all add: numbered_def)

lemma foldl_max_spec: "foldl max n ms \<in> insert n (set ms) \<and> (\<forall>x\<in>insert n (set ms). x \<le> foldl max (n :: int) ms)"
proof (induction ms arbitrary: n)
  case (Cons m ms)
  from Cons [of "max n m"] show ?case by (auto simp: max_def split: if_splits)
qed simp

lemma foldl_min_spec: "foldl min n ms \<in> insert n (set ms) \<and> (\<forall>x\<in>insert n (set ms). foldl min (n :: int) ms \<le> x)"
proof (induction ms arbitrary: n)
  case (Cons m ms)
  from Cons [of "min n m"] show ?case by (auto simp: min_def split: if_splits)
qed simp

lemma list_max_iff: "list_max ns = Some m \<longleftrightarrow> m \<in> set ns \<and> (\<forall>x\<in>set ns. x \<le> m)"
proof (cases ns)
  case (Cons n ms)
  then show ?thesis using foldl_max_spec [of n ms] by (fastforce simp: list_max_def)
qed (simp add: list_max_def)

lemma list_min_iff: "list_min ns = Some m \<longleftrightarrow> m \<in> set ns \<and> (\<forall>x\<in>set ns. m \<le> x)"
proof (cases ns)
  case (Cons n ms)
  then show ?thesis using foldl_min_spec [of n ms] by (fastforce simp: list_min_def)
qed (simp add: list_min_def)

lemma list_extremes_None [simp]: "list_max [] = None" "list_min [] = None"
  by (simp_all add: list_max_def list_min_def)

lemma max_sequence_history:
  assumes "pg_rel v c now H tbl"
  shows "max_sequence t tbl = (if H t = [] then None else Some (int (length (H t)) - 1))"
proof -
  note rel = assms [unfolded pg_rel_def]
  have rows: "r \<in> set (tenant_rows t tbl) \<Longrightarrow> \<exists>e\<in>set (H t). r = event_to_row v c e" for r
    using rel unfolding tenant_rows_def by auto
  show ?thesis
  proof (cases "H t = []")
    case True
    with rows have "tenant_rows t tbl = []" by (cases "tenant_rows t tbl") auto
    then show ?thesis by (simp add: max_sequence_def True)
  next
    case False
    then have "last (H t) \<in> set (H t)" by simp
    with rel have mem: "event_to_row v c (last (H t)) \<in> set tbl" by blast
    have num: "numbered H" using rel by blast
    note l = numbered_in [OF num \<open>last (H t) \<in> set (H t)\<close>]
    have seq: "se_sequence (last (H t)) = int (length (H t)) - 1"
      using num False by (simp add: numbered_def last_conv_nth of_nat_diff Suc_le_eq)
    have "event_to_row v c (last (H t)) \<in> set (tenant_rows t tbl)" using mem l(1) by (simp add: tenant_rows_def)
    then have "int (length (H t)) - 1 \<in> set (map er_row_sequence (tenant_rows t tbl))"
      using seq by (metis event_to_row_fields(2) image_eqI set_map)
    moreover have "x \<le> int (length (H t)) - 1" if "x \<in> set (map er_row_sequence (tenant_rows t tbl))" for x
      using that rows numbered_in(3) [OF num] by fastforce
    ultimately have "max_sequence t tbl = Some (int (length (H t)) - 1)"
      unfolding max_sequence_def list_max_iff by blast
    with False show ?thesis by simp
  qed
qed

lemma sorted_filter_drop:
  "sorted (map f xs) \<Longrightarrow> \<exists>m \<le> length xs. filter (\<lambda>x. a < f x) xs = drop m xs" for f :: "'a \<Rightarrow> int"
proof (induction xs)
  case (Cons x xs)
  show ?case
  proof (cases "a < f x")
    case True
    then have "filter (\<lambda>x. a < f x) (x # xs) = drop 0 (x # xs)"
      using Cons.prems by (auto simp: filter_id_conv intro: less_le_trans)
    then show ?thesis by (intro exI [of _ 0]) simp
  next
    case False
    from Cons obtain m where "m \<le> length xs" "filter (\<lambda>x. a < f x) xs = drop m xs" by auto
    then show ?thesis using False by (intro exI [of _ "Suc m"]) simp
  qed
qed simp

text \<open>The retained rows in sequence order are the end of the history.\<close>

lemma retained_rows_history:
  assumes "pg_rel v c now H tbl"
  shows "\<exists>m \<le> length (H t). sort_key er_row_sequence (filter P (retained_rows now t tbl))
      = filter P (map (event_to_row v c) (drop m (H t)))
    \<and> (set (retained_rows now t tbl) = event_to_row v c ` set (drop m (H t)))"
proof -
  note rel = assms [unfolded pg_rel_def]
  have num: "numbered H" using rel by blast
  have "sorted (map se_emitted_at (H t))" using rel by blast
  from sorted_filter_drop [OF this, of "now - pl_retention c"] obtain m where
    m: "m \<le> length (H t)" "filter (unexpired c now) (H t) = drop m (H t)"
    by (auto simp: unexpired_def [abs_def] less_diff_eq diff_less_eq)
  have set_rows: "set (retained_rows now t tbl) = event_to_row v c ` set (drop m (H t))"
  proof (intro equalityI subsetI)
    fix r
    assume "r \<in> set (retained_rows now t tbl)"
    then have r: "r \<in> set tbl" "er_row_tenant r = t" "now < er_row_expires_at r"
      by (simp_all add: retained_rows_def tenant_rows_def)
    with rel obtain e where e: "e \<in> set (H t)" "r = event_to_row v c e" by blast
    then have "e \<in> set (filter (unexpired c now) (H t))" using r(3) by (simp add: unexpired_def)
    with e(2) show "r \<in> event_to_row v c ` set (drop m (H t))" unfolding m(2) by blast
  next
    fix r
    assume "r \<in> event_to_row v c ` set (drop m (H t))"
    then obtain e where e: "e \<in> set (H t)" "unexpired c now e" "r = event_to_row v c e"
      unfolding m(2) [symmetric] by auto
    then have "r \<in> set tbl" using rel by blast
    with e numbered_in(1) [OF num e(1)] show "r \<in> set (retained_rows now t tbl)"
      by (simp add: retained_rows_def tenant_rows_def unexpired_def)
  qed
  let ?xs = "sort_key er_row_sequence (filter P (retained_rows now t tbl))"
  let ?ys = "filter P (map (event_to_row v c) (drop m (H t)))"
  have inj: "inj_on er_row_sequence (event_to_row v c ` set (H t))"
  proof (rule inj_onI)
    fix r r'
    assume "r \<in> event_to_row v c ` set (H t)" "r' \<in> event_to_row v c ` set (H t)" "er_row_sequence r = er_row_sequence r'"
    then obtain e e' where e: "e \<in> set (H t)" "r = event_to_row v c e" "e' \<in> set (H t)" "r' = event_to_row v c e'"
      "se_sequence e = se_sequence e'" by auto
    have "e = H t ! nat (se_sequence e)" by (rule numbered_in(4) [OF num e(1), symmetric])
    also have "\<dots> = e'" unfolding e(5) by (rule numbered_in(4) [OF num e(3)])
    finally show "r = r'" unfolding e(2,4) by (rule arg_cong)
  qed
  have distinct_rows: "distinct (map er_row_sequence (tenant_rows t tbl))"
  proof -
    have "distinct tbl" "inj_on (\<lambda>r. (er_row_tenant r, er_row_sequence r)) (set tbl)"
      using rel by (auto simp: distinct_map)
    then show ?thesis by (auto simp: distinct_map tenant_rows_def inj_on_def)
  qed
  have seqs: "map er_row_sequence (map (event_to_row v c) (drop m (H t))) = map int [m..<length (H t)]"
  proof -
    have "map er_row_sequence (map (event_to_row v c) (H t)) = map int [0..<length (H t)]"
      using numbered_sequences [OF num, of t] by (simp add: comp_def)
    then have "drop m (map er_row_sequence (map (event_to_row v c) (H t))) = drop m (map int [0..<length (H t)])" by simp
    then show ?thesis by (simp add: drop_map)
  qed
  have "?xs = ?ys"
  proof (rule map_sorted_distinct_set_unique [of er_row_sequence])
    have "set ?xs \<union> set ?ys \<subseteq> event_to_row v c ` set (H t)"
      using set_rows set_drop_subset [of m "H t"] by auto
    then show "inj_on er_row_sequence (set ?xs \<union> set ?ys)" using inj inj_on_subset by blast
    show "sorted (map er_row_sequence ?xs)" by simp
    have "distinct (map er_row_sequence (filter P (retained_rows now t tbl)))"
      unfolding retained_rows_def by (intro distinct_map_filter distinct_rows)
    then show "distinct (map er_row_sequence ?xs)" by (simp add: distinct_map)
    have "sorted (map er_row_sequence (map (event_to_row v c) (drop m (H t))))" unfolding seqs
      by (simp add: sorted_iff_nth_mono)
    then show "sorted (map er_row_sequence ?ys)" by (rule sorted_filter)
    have "distinct (map er_row_sequence (map (event_to_row v c) (drop m (H t))))" unfolding seqs
      by (simp add: distinct_map)
    then show "distinct (map er_row_sequence ?ys)" by (rule distinct_map_filter)
    show "set ?xs = set ?ys" using set_rows by auto
  qed
  with m(1) set_rows show ?thesis by blast
qed

lemma map_ok_events: "map_ok (row_to_event v) (map (event_to_row v c) es) = Inr es"
  by (induction es) simp_all

lemma pg_replay_sound:
  assumes rel: "pg_rel v c now H tbl" and rep: "pg_replay v c (Some t) now t after tbl = Inr es"
  shows "case after of None \<Rightarrow> suffix es (H t) | Some n \<Rightarrow> es = drop (nat (n + 1)) (H t)"
proof -
  let ?budget = "nat (pl_max_replay_events c)" and ?row = "event_to_row v c"
  from retained_rows_history [OF rel, of t "\<lambda>_. True"] obtain m where m: "m \<le> length (H t)"
    "sort_key er_row_sequence (retained_rows now t tbl) = map ?row (drop m (H t))"
    "set (retained_rows now t tbl) = ?row ` set (drop m (H t))" by auto
  have num: "numbered H" using rel by (simp add: pg_rel_def)
  show ?thesis
  proof (cases after)
    case None
    have "map_ok (row_to_event v) (rev (take ?budget (rev (map ?row (drop m (H t)))))) = Inr es"
      using rep by (simp add: pg_replay_def None assert_tenant_def current_tenant_def m(2) Let_def validate_cursor_def)
    moreover have "rev (take ?budget (rev (map ?row (drop m (H t)))))
        = map ?row (rev (take ?budget (rev (drop m (H t)))))"
      by (simp add: rev_map take_map)
    ultimately have "es = rev (take ?budget (rev (drop m (H t))))" by (simp only: map_ok_events sum.inject)
    then have "suffix es (drop m (H t))" by (simp add: suffix_to_prefix take_is_prefix)
    then have "suffix es (H t)" using suffix_drop suffix_order.trans by blast
    then show ?thesis by (simp add: None)
  next
    case (Some n)
    from retained_rows_history [OF rel, of t "\<lambda>r. n < er_row_sequence r"] obtain k where
      k: "k \<le> length (H t)" "sort_key er_row_sequence (filter (\<lambda>r. n < er_row_sequence r) (retained_rows now t tbl))
        = filter (\<lambda>r. n < er_row_sequence r) (map ?row (drop k (H t)))"
        "set (retained_rows now t tbl) = ?row ` set (drop k (H t))" by blast
    let ?rows = "filter (\<lambda>r. n < er_row_sequence r) (map ?row (drop k (H t)))"
    have length_rows: "length (filter (\<lambda>r. n < er_row_sequence r) (retained_rows now t tbl)) = length ?rows"
      unfolding k(2) [symmetric] by simp
    have rep': "validate_cursor (Some n) (list_min (map er_row_sequence (retained_rows now t tbl))) (max_sequence t tbl) = Inr ()"
      "\<not> ?budget < length (take (?budget + 1) ?rows)" "map_ok (row_to_event v) (take (?budget + 1) ?rows) = Inr es"
      using rep length_rows
      by (auto simp: pg_replay_def Some assert_tenant_def current_tenant_def k(2) Let_def rbind_Inr_iff split: if_splits)
    have "take (?budget + 1) ?rows = ?rows" using rep'(2) by simp
    also have "?rows = map ?row (filter (\<lambda>e. n < se_sequence e) (drop k (H t)))" by (simp add: filter_map comp_def)
    also have "filter (\<lambda>e. n < se_sequence e) (drop k (H t)) = drop (nat (n + 1) - k) (drop k (H t))"
      by (rule filter_after) (use num in \<open>simp add: numbered_def\<close>)
    finally have es: "es = drop (nat (n + 1) - k) (drop k (H t))" using rep'(3) by (simp only: map_ok_events sum.inject)
    have hist: "H t \<noteq> []" "n \<le> int (length (H t)) - 1"
      using rep'(1) max_sequence_history [OF rel, of t] by (auto simp: validate_cursor_def split: if_splits)
    have "k \<le> nat (n + 1)"
    proof (cases "drop k (H t) = []")
      case True
      then have "retained_rows now t tbl = []" using k(3) by simp
      with rep'(1) max_sequence_history [OF rel, of t] hist(1) have "\<not> n < int (length (H t)) - 1"
        by (simp add: validate_cursor_def guard_Inr_iff split: if_splits)
      then show ?thesis using k(1) by linarith
    next
      case False
      then have "k < length (H t)" by simp
      then have "H t ! k \<in> set (drop k (H t))" "se_sequence (H t ! k) = int k"
        using num by (auto simp: numbered_def in_set_conv_nth intro!: exI [of _ 0])
      then have "int k \<in> set (map er_row_sequence (retained_rows now t tbl))"
        using k(3) by (metis event_to_row_fields(2) image_eqI set_map)
      moreover have "int k \<le> x" if "x \<in> set (map er_row_sequence (retained_rows now t tbl))" for x
        using that k(3) num by (auto simp: in_set_conv_nth numbered_def)
      ultimately have "list_min (map er_row_sequence (retained_rows now t tbl)) = Some (int k)"
        unfolding list_min_iff by blast
      with rep'(1) max_sequence_history [OF rel, of t] hist(1) have "\<not> n < int k - 1"
        by (simp add: validate_cursor_def guard_Inr_iff split: if_splits)
      then show ?thesis by linarith
    qed
    with es show ?thesis by (simp add: Some)
  qed
qed

lemma pg_append_keeps:
  assumes rel: "pg_rel v c now H tbl" and app: "pg_append v c (Some t) now t ty d tbl = (Inr e, tbl')"
  shows "pg_rel v c now (H(t := H t @ [e])) tbl' \<and> se_event_type e = ty \<and> se_data e = d"
proof -
  let ?H = "H(t := H t @ [e])"
  note R = rel [unfolded pg_rel_def]
  have num: "numbered H" using R by blast
  have e: "e = \<lparr>se_tenant_id = t, se_sequence = int (length (H t)), se_event_type = ty, se_data = d, se_emitted_at = now\<rparr>"
    and tbl': "tbl' = tbl @ [event_to_row v c e]"
    using app max_sequence_history [OF rel, of t]
    by (auto simp: pg_append_def Let_def event_to_row_def split: sum.splits)
  have fields: "se_tenant_id e = t" "se_sequence e = int (length (H t))" "se_emitted_at e = now" by (simp_all add: e)
  have "numbered ?H" by (rule numbered_append [OF num fields(2,1)])
  moreover have "sorted (map se_emitted_at (?H t')) \<and> (\<forall>x\<in>set (?H t'). se_emitted_at x \<le> now)" for t'
    using R fields(3) by (auto simp: sorted_append)
  moreover have "distinct (map (\<lambda>r. (er_row_tenant r, er_row_sequence r)) tbl')"
  proof -
    have "(t, int (length (H t))) \<noteq> (er_row_tenant r, er_row_sequence r)" if "r \<in> set tbl" for r
    proof -
      from R that obtain x where x: "x \<in> set (H (er_row_tenant r))" "r = event_to_row v c x" by blast
      from numbered_in(3) [OF num x(1)] show ?thesis using x(2) by auto
    qed
    then show ?thesis using R by (auto simp: tbl' fields)
  qed
  moreover have "\<exists>x\<in>set (?H (er_row_tenant r)). r = event_to_row v c x" if "r \<in> set tbl'" for r
    using that R by (auto simp: tbl' fields)
  moreover have "event_to_row v c x \<in> set tbl'" if "x \<in> set (?H t')" "x = last (?H t') \<or> unexpired c now x" for t' x
  proof (cases "x = e \<and> t' = t")
    case False
    then have x: "x \<in> set (H t')" using that(1) by (auto split: if_splits)
    have "x = last (H t') \<or> unexpired c now x" using that(2) False by (auto split: if_splits)
    then have "event_to_row v c x \<in> set tbl" using R x by blast
    then show ?thesis by (simp add: tbl')
  qed (simp add: tbl')
  ultimately have "pg_rel v c now ?H tbl'" using R unfolding pg_rel_def by blast
  then show ?thesis by (simp add: e)
qed

lemma pg_expire_keeps:
  assumes rel: "pg_rel v c now H tbl"
  shows "pg_rel v c now H (snd (delete_expired (Some t) now t limit tbl))"
proof -
  note R = rel [unfolded pg_rel_def]
  have num: "numbered H" using R by blast
  let ?gone = "\<lambda>r. er_row_tenant r = t \<and> er_row_sequence r \<in> set (map er_row_sequence (expired_rows now t limit tbl))"
  let ?tbl = "filter (\<lambda>r. \<not> ?gone r) tbl"
  have kept: "event_to_row v c e \<in> set ?tbl" if e: "e \<in> set (H t')" "e = last (H t') \<or> unexpired c now e" for t' e
  proof -
    have mem: "event_to_row v c e \<in> set tbl" using R e by blast
    have "\<not> ?gone (event_to_row v c e)"
    proof
      assume gone: "?gone (event_to_row v c e)"
      then obtain r where r: "r \<in> set (expired_rows now t limit tbl)" "er_row_sequence r = se_sequence e" by auto
      then have "r \<in> set (filter (\<lambda>r. er_row_expires_at r \<le> now
          \<and> (case max_sequence t tbl of None \<Rightarrow> False | Some m \<Rightarrow> er_row_sequence r < m)) (tenant_rows t tbl))"
        unfolding expired_rows_def by (metis in_set_takeD set_sort)
      then have r': "r \<in> set tbl" "er_row_tenant r = t" "er_row_expires_at r \<le> now"
        "case max_sequence t tbl of None \<Rightarrow> False | Some m \<Rightarrow> er_row_sequence r < m"
        by (simp_all add: tenant_rows_def)
      have tt: "t' = t" using gone numbered_in(1) [OF num e(1)] by simp
      from R r'(1,2) obtain x where x: "x \<in> set (H t)" "r = event_to_row v c x" by blast
      have "x = H t ! nat (se_sequence x)" by (rule numbered_in(4) [OF num x(1), symmetric])
      also have "\<dots> = e" using numbered_in(4) [OF num e(1)] r(2) x(2) tt by simp
      finally have xe: "x = e" .
      have "\<not> unexpired c now e" using r'(3) by (simp add: x(2) xe unexpired_def)
      then have last: "e = last (H t)" using e(2) tt by blast
      have "H t \<noteq> []" using x(1) by auto
      then have "se_sequence e = int (length (H t)) - 1"
        using num by (simp add: last last_conv_nth numbered_def of_nat_diff Suc_le_eq)
      with r'(4) max_sequence_history [OF rel, of t] \<open>H t \<noteq> []\<close> r(2) show False by simp
    qed
    with mem show ?thesis by simp
  qed
  have "distinct (map (\<lambda>r. (er_row_tenant r, er_row_sequence r)) ?tbl)" using R by (intro distinct_map_filter) blast
  then have "pg_rel v c now H ?tbl" using R kept unfolding pg_rel_def by auto
  then show ?thesis
    using rel by (auto simp: delete_expired_def assert_tenant_def current_tenant_def Let_def)
qed

interpretation pg_log: replay_log "pg_rel v c" "pg_operations v c" for v c
proof unfold_locales
  fix now now' :: timestamp and H and tbl
  assume rel: "pg_rel v c now H tbl" and later: "now \<le> now'"
  have "unexpired c now e" if "unexpired c now' e" for e using that later by (simp add: unexpired_def)
  moreover have "se_emitted_at e \<le> now'" if "e \<in> set (H t)" for t e
    using rel later that unfolding pg_rel_def by (blast intro: order_trans)
  ultimately show "pg_rel v c now' H tbl" using rel unfolding pg_rel_def by blast
next
  fix now H tbl t n es
  assume "pg_rel v c now H tbl" "rp_replay (pg_operations v c) now t (Some n) tbl = Inr es"
  then show "es = drop (nat (n + 1)) (H t)"
    using pg_replay_sound [of v c now H tbl t "Some n" es] by (simp add: pg_operations_def)
next
  fix now H tbl t es
  assume "pg_rel v c now H tbl" "rp_replay (pg_operations v c) now t None tbl = Inr es"
  then show "suffix es (H t)"
    using pg_replay_sound [of v c now H tbl t None es] by (simp add: pg_operations_def)
next
  fix now H tbl t ty d e tbl'
  assume "pg_rel v c now H tbl" "rp_append (pg_operations v c) now t ty d tbl = (Inr e, tbl')"
  then show "pg_rel v c now (H(t := H t @ [e])) tbl' \<and> se_event_type e = ty \<and> se_data e = d"
    unfolding pg_operations_def by (intro pg_append_keeps) simp_all
next
  fix now H tbl t l
  assume "pg_rel v c now H tbl" "rp_latest (pg_operations v c) t tbl = Inr l"
  then show "l = (if H t = [] then None else Some (int (length (H t)) - 1))"
    using max_sequence_history [of v c now H tbl t]
    by (simp add: pg_operations_def pg_latest_def assert_tenant_def current_tenant_def)
next
  fix now H tbl t limit
  assume "pg_rel v c now H tbl"
  then show "pg_rel v c now H (rp_expire (pg_operations v c) now t limit tbl)"
    by (simp add: pg_operations_def pg_expire_keeps)
next
  fix now H tbl t ty d x tbl'
  assume "rp_append (pg_operations v c) now t ty d tbl = (Inl x, tbl')"
  then show "tbl' = tbl" by (auto simp: pg_operations_def pg_append_def Let_def split: sum.splits)
qed (simp add: pg_rel_def)

lemma pg_rel_empty: "valid_pg_log c \<Longrightarrow> pg_rel v c now (\<lambda>_. []) []"
  by (simp add: pg_rel_def numbered_def)

lemma memory_rel_new: "new_memory_log capacity max_bytes = Inr lg \<Longrightarrow> memory_rel now (\<lambda>_. []) lg"
  by (auto simp: new_memory_log_def memory_rel_def numbered_def split: if_splits)

text \<open>
  C31.  A follower of the stream misses nothing.  Use a new log, in memory or in PostgreSQL, in any
  way at times that do not go back: events appended by anyone, expired events deleted, and a consumer that polls
  for the events after the last it has seen.  What the consumer has seen is always a prefix of the
  events appended for its tenant, and a poll that does not raise completes it.
\<close>

theorem consumer_misses_nothing:
  assumes "sorted (start # map fst calls)" "\<And>x. x \<in> set calls \<Longrightarrow> fst x \<le> now" "start \<le> now"
    and "new_memory_log capacity max_bytes = Inr lg" "log_run (memory_operations v) t calls lg = (lg', appended, seen)"
    and "valid_pg_log c" "log_run (pg_operations v c) t calls [] = (tbl, pg_appended, pg_seen)"
  shows "prefix seen appended
     \<and> (\<forall>es. memory_replay t (Some (consumer_position seen)) lg' = Inr es \<longrightarrow> seen @ es = appended)
     \<and> prefix pg_seen pg_appended
     \<and> (\<forall>es. pg_replay v c (Some t) now t (Some (consumer_position pg_seen)) tbl = Inr es
          \<longrightarrow> pg_seen @ es = pg_appended)"
proof (intro conjI allI impI)
  note mem = mem_log.consumer_complete [OF memory_rel_new [OF assms(4)] assms(1,5)]
  note pg = pg_log.consumer_complete [OF pg_rel_empty [OF assms(6)] assms(1,7)]
  show "prefix seen appended" by (rule mem(1))
  show "prefix pg_seen pg_appended" by (rule pg(1))
  show "seen @ es = appended" if "memory_replay t (Some (consumer_position seen)) lg' = Inr es" for es
    by (rule mem(2) [OF assms(2,3)]) (use that in \<open>simp_all add: memory_operations_def\<close>)
  show "pg_seen @ es = pg_appended"
    if "pg_replay v c (Some t) now t (Some (consumer_position pg_seen)) tbl = Inr es" for es
    by (rule pg(2) [OF assms(2,3)]) (use that in \<open>simp_all add: pg_operations_def\<close>)
qed

subsection \<open>A concrete log\<close>

definition sample_event_env :: event_env where
  "sample_event_env = \<lparr>ee_dumps = (\<lambda>_. Inr [123, 125]), ee_sha = (\<lambda>_. replicate 64 (CHR ''0''))\<rparr>"

definition sample_pg_log :: pg_log where
  "sample_pg_log = \<lparr>pl_retention = 10, pl_max_event_bytes = 100, pl_max_replay_events = 3\<rparr>"

definition sample_log_calls :: "(timestamp \<times> log_operation) list" where
  "sample_log_calls = [(1, Append_event ''t'' ''a'' (DObj [])), (2, Append_event ''u'' ''b'' (DObj [])), (3, Poll),
     (4, Append_event ''t'' ''c'' (DObj [])), (15, Append_event ''t'' ''d'' (DObj [])), (16, Expire_events ''t'' 5)]"

text \<open>The clock of an append is read before its lock is taken.  When the order of the locks differs, a poll skips an event.\<close>

definition late_clock_table :: event_table where
  "late_clock_table = (let ops = pg_operations sample_event_env sample_pg_log
     in snd (rp_append ops 6 ''t'' ''c'' (DObj []) (snd (rp_append ops 3 ''t'' ''b'' (DObj [])
          (snd (rp_append ops 5 ''t'' ''a'' (DObj []) []))))))"

lemma late_clock_skips_event:
  "map_sum id (map se_sequence) (pg_replay sample_event_env sample_pg_log (Some ''t'') 14 ''t'' (Some 0) late_clock_table)
     = Inr [2]"
  by code_simp

lemma sample_log_result:
  "map_sum id (map se_event_type) (pg_replay sample_event_env sample_pg_log (Some ''t'') 16 ''t''
      (Some (consumer_position (snd (snd (log_run (pg_operations sample_event_env sample_pg_log) ''t'' sample_log_calls [])))))
      (fst (log_run (pg_operations sample_event_env sample_pg_log) ''t'' sample_log_calls [])))
    = Inl replay_cursor_stale"
  "map se_event_type (snd (snd (log_run (pg_operations sample_event_env sample_pg_log) ''t'' sample_log_calls []))) = [''a'']"
  by code_simp+

theorem consumer_misses_nothing_witness:
  "prefix (snd (snd (log_run (pg_operations sample_event_env sample_pg_log) ''t'' sample_log_calls [])))
     (fst (snd (log_run (pg_operations sample_event_env sample_pg_log) ''t'' sample_log_calls [])))"
proof -
  have new: "new_memory_log 4 100 = Inr (projr (new_memory_log 4 100))" by (simp add: new_memory_log_def)
  have valid: "valid_pg_log sample_pg_log" by (simp add: valid_pg_log_def sample_pg_log_def)
  obtain lg' a k where m: "log_run (memory_operations sample_event_env) ''t'' sample_log_calls (projr (new_memory_log 4 100))
      = (lg', a, k)" by (rule prod_cases3)
  obtain tbl pa pk where p: "log_run (pg_operations sample_event_env sample_pg_log) ''t'' sample_log_calls [] = (tbl, pa, pk)"
    by (rule prod_cases3)
  have "sorted (0 # map fst sample_log_calls)" "\<And>x. x \<in> set sample_log_calls \<Longrightarrow> fst x \<le> 20"
    by (auto simp: sample_log_calls_def)
  from consumer_misses_nothing [OF this _ new m valid p] show ?thesis by (simp add: p)
qed

end
