(* ===== verification/ReplayCursor.thy ===== *)
theory ReplayCursor
  imports PyText
begin

text \<open>
  The signed replay cursor of \<^verbatim>\<open>ReplayCursorCodec\<close> in
  \<^verbatim>\<open>backend/src/liyans/infrastructure/streaming/sse.py\<close>, over Python's URL-safe base64 (CPython's
  tolerant decoder), strict UTF-8 decoding and \<^verbatim>\<open>int\<close> of a text.  HMAC-SHA-256 and the character
  classes of Unicode are parameters; bytes inside the base64 routines are integers from 0 to 255.
  CPython's limit on the digits of a number is left out.
\<close>

subsection \<open>URL-safe base64\<close>

definition b64_alphabet :: "code_point list" where
  "b64_alphabet = [65 .. 90] @ [97 .. 122] @ [48 .. 57] @ [45, 95]"

definition b64_char :: "int \<Rightarrow> code_point" where
  "b64_char v = b64_alphabet ! nat v"

fun b64_encode :: "int list \<Rightarrow> code_point list" where
  "b64_encode [] = []"
| "b64_encode [a] = [b64_char (a div 4), b64_char (a mod 4 * 16), 61, 61]"
| "b64_encode [a, b] = [b64_char (a div 4), b64_char (a mod 4 * 16 + b div 16), b64_char (b mod 16 * 4), 61]"
| "b64_encode (a # b # c # bs) =
     [b64_char (a div 4), b64_char (a mod 4 * 16 + b div 16), b64_char (b mod 16 * 4 + c div 64), b64_char (c mod 64)]
       @ b64_encode bs"

text \<open>The decoder's table: both spellings of the last two characters are known.\<close>

definition b64_value :: "code_point \<Rightarrow> int option" where
  "b64_value c =
     (if 65 \<le> c \<and> c \<le> 90 then Some (c - 65)
      else if 97 \<le> c \<and> c \<le> 122 then Some (c - 71)
      else if 48 \<le> c \<and> c \<le> 57 then Some (c + 4)
      else if c = 43 \<or> c = 45 then Some 62
      else if c = 47 \<or> c = 95 then Some 63
      else None)"

definition binascii_error :: app_error where
  "binascii_error = Foreign_error ''binascii.Error''"

fun b64_decode_loop :: "int \<Rightarrow> int \<Rightarrow> int \<Rightarrow> code_point list \<Rightarrow> app_error + int list" where
  "b64_decode_loop quad left pads [] = (if quad = 0 then Inr [] else Inl binascii_error)"
| "b64_decode_loop quad left pads (c # cs) =
     (if c = 61
      then if 2 \<le> quad \<and> 4 \<le> quad + pads + 1 then Inr []
           else b64_decode_loop quad left (if 2 \<le> quad then pads + 1 else pads) cs
      else case b64_value c of
             None \<Rightarrow> b64_decode_loop quad left pads cs
           | Some v \<Rightarrow>
               if quad = 0 then b64_decode_loop 1 v 0 cs
               else if quad = 1
               then rbind (b64_decode_loop 2 (v mod 16) 0 cs) (\<lambda>out. Inr ((left * 4 + v div 16) # out))
               else if quad = 2
               then rbind (b64_decode_loop 3 (v mod 4) 0 cs) (\<lambda>out. Inr ((left * 16 + v div 4) # out))
               else rbind (b64_decode_loop 0 0 0 cs) (\<lambda>out. Inr ((left * 64 + v) # out)))"

lemma b64_alphabet_values:
  "list_all (\<lambda>v. b64_value (b64_char v) = Some v \<and> b64_char v \<noteq> 61 \<and> 0 \<le> b64_char v \<and> b64_char v < 128) [0 .. 63]"
  by code_simp

lemma b64_char_value:
  assumes "0 \<le> v" "v < 64"
  shows "b64_value (b64_char v) = Some v" "b64_char v \<noteq> 61" "0 \<le> b64_char v" "b64_char v < 128"
proof -
  have "v \<in> set [0 .. 63]" using assms by simp
  with b64_alphabet_values show "b64_value (b64_char v) = Some v" "b64_char v \<noteq> 61" "0 \<le> b64_char v" "b64_char v < 128"
    unfolding list_all_iff by blast+
qed

definition is_byte :: "int \<Rightarrow> bool" where
  "is_byte x \<longleftrightarrow> 0 \<le> x \<and> x < 256"

lemma byte_parts:
  assumes "is_byte a"
  shows "0 \<le> a div 4" "a div 4 < 64" "0 \<le> a div 16" "a div 16 < 16" "0 \<le> a div 64" "a div 64 < 4"
    "0 \<le> a mod 4" "a mod 4 < 4" "0 \<le> a mod 16" "a mod 16 < 16" "0 \<le> a mod 64" "a mod 64 < 64"
  using assms by (auto simp: is_byte_def)

lemma byte_sextets:
  assumes "is_byte a" "is_byte b"
  shows "0 \<le> a div 4" "a div 4 < 64" "0 \<le> a mod 4 * 16" "a mod 4 * 16 < 64"
    "0 \<le> a mod 4 * 16 + b div 16" "a mod 4 * 16 + b div 16 < 64"
    "0 \<le> a mod 16 * 4" "a mod 16 * 4 < 64"
    "0 \<le> a mod 16 * 4 + b div 64" "a mod 16 * 4 + b div 64 < 64" "0 \<le> a mod 64" "a mod 64 < 64"
  using byte_parts [OF assms(1)] byte_parts [OF assms(2)] by linarith+

lemma sextet_joins:
  assumes "is_byte a" "is_byte b"
  shows "(a mod 4 * 16 + b div 16) div 16 = a mod 4" "(a mod 4 * 16 + b div 16) mod 16 = b div 16"
    "(a mod 16 * 4 + b div 64) div 4 = a mod 16" "(a mod 16 * 4 + b div 64) mod 4 = b div 64"
  using byte_parts(3-6) [OF assms(2)] by simp_all

definition sextet :: "int \<Rightarrow> bool" where
  "sextet v \<longleftrightarrow> 0 \<le> v \<and> v < 64"

lemma decode_quad:
  assumes "sextet w" "sextet x" "sextet y" "sextet z"
  shows "b64_decode_loop 0 l p (b64_char w # b64_char x # b64_char y # b64_char z # rest)
      = rbind (b64_decode_loop 0 0 0 rest)
          (\<lambda>out. Inr ((w * 4 + x div 16) # (x mod 16 * 16 + y div 4) # (y mod 4 * 64 + z) # out))"
  using assms by (cases "b64_decode_loop 0 0 0 rest") (simp_all add: sextet_def b64_char_value)

lemma decode_three:
  assumes "sextet w" "sextet x" "sextet y"
  shows "b64_decode_loop 0 l p [b64_char w, b64_char x, b64_char y, 61]
      = Inr [w * 4 + x div 16, x mod 16 * 16 + y div 4]"
  using assms by (simp add: sextet_def b64_char_value)

lemma decode_two:
  assumes "sextet w" "sextet x"
  shows "b64_decode_loop 0 l p [b64_char w, b64_char x, 61, 61] = Inr [w * 4 + x div 16]"
  using assms by (simp add: sextet_def b64_char_value)

lemma byte_sextet:
  assumes "is_byte a" "is_byte b"
  shows "sextet (a div 4)" "sextet (a mod 4 * 16 + b div 16)" "sextet (a mod 16 * 4 + b div 64)" "sextet (b mod 64)"
    "sextet (a mod 4 * 16)" "sextet (a mod 16 * 4)"
  unfolding sextet_def using byte_sextets [OF assms] byte_parts [OF assms(2)] by blast+

lemma b64_roundtrip: "list_all is_byte bs \<Longrightarrow> b64_decode_loop 0 l p (b64_encode bs) = Inr bs"
proof (induction bs arbitrary: l p rule: b64_encode.induct)
  case (2 a)
  then have a: "is_byte a" by simp
  show ?case unfolding b64_encode.simps decode_two [OF byte_sextet(1,5) [OF a a]] by simp
next
  case (3 a b)
  then have b: "is_byte a" "is_byte b" by simp_all
  show ?case
    unfolding b64_encode.simps decode_three [OF byte_sextet(1,2) [OF b] byte_sextet(6) [OF b(2,2)]]
      sextet_joins [OF b] by simp
next
  case (4 a b c bs)
  then have b: "is_byte a" "is_byte b" "is_byte c" "list_all is_byte bs" by simp_all
  show ?case
    unfolding b64_encode.simps append_Cons append_Nil
      decode_quad [OF byte_sextet(1,2) [OF b(1,2)] byte_sextet(3) [OF b(2,3)] byte_sextet(4) [OF b(3,3)]]
      sextet_joins [OF b(1,2)] sextet_joins [OF b(2,3)] 4(1) [OF b(4)] by simp
qed simp

lemma sextet_char:
  assumes "sextet v"
  shows "b64_char v \<noteq> 61" "0 \<le> b64_char v" "b64_char v < 128"
  using b64_char_value(2-4) assms by (simp_all add: sextet_def)

text \<open>Padding is determined by the length, so stripping it loses nothing.\<close>

definition strip_padding :: "code_point list \<Rightarrow> code_point list" where
  "strip_padding s = rev (dropWhile (\<lambda>c. c = 61) (rev s))"

definition add_padding :: "code_point list \<Rightarrow> code_point list" where
  "add_padding s = s @ replicate (nat (- int (length s) mod 4)) 61"

lemma four_dvd: "4 dvd Suc (Suc (Suc (Suc 0)))"
  by (rule dvdI [of _ _ 1]) simp

lemma b64_encode_shape:
  assumes "list_all is_byte bs"
  shows "\<exists>s k. b64_encode bs = s @ replicate k 61 \<and> k < 3 \<and> (s = [] \<or> last s \<noteq> 61) \<and> 4 dvd (length s + k)
     \<and> list_all (\<lambda>c. 0 \<le> c \<and> c < 128) s \<and> (s = [] \<longrightarrow> k = 0)"
  using assms
proof (induction bs rule: b64_encode.induct)
  case (2 a)
  then have a: "is_byte a" by simp
  note c = sextet_char [OF byte_sextet(1) [OF a a]] sextet_char [OF byte_sextet(5) [OF a a]]
  show ?case
    by (intro exI [of _ "[b64_char (a div 4), b64_char (a mod 4 * 16)]"] exI [of _ 2])
      (simp only: b64_encode.simps, simp add: c numeral_2_eq_2, rule four_dvd)
next
  case (3 a b)
  then have b: "is_byte a" "is_byte b" by simp_all
  note c = sextet_char [OF byte_sextet(1) [OF b]] sextet_char [OF byte_sextet(2) [OF b]]
    sextet_char [OF byte_sextet(6) [OF b(2,2)]]
  show ?case
    by (intro exI [of _ "[b64_char (a div 4), b64_char (a mod 4 * 16 + b div 16), b64_char (b mod 16 * 4)]"] exI [of _ 1])
      (simp only: b64_encode.simps, simp add: c, rule four_dvd)
next
  case (4 a b c bs)
  then have b: "is_byte a" "is_byte b" "is_byte c" "list_all is_byte bs" by simp_all
  note v = sextet_char [OF byte_sextet(1) [OF b(1,2)]] sextet_char [OF byte_sextet(2) [OF b(1,2)]]
    sextet_char [OF byte_sextet(3) [OF b(2,3)]] sextet_char [OF byte_sextet(4) [OF b(3,3)]]
  from 4(1) [OF b(4)] obtain s k where s: "b64_encode bs = s @ replicate k 61" "k < 3" "s = [] \<or> last s \<noteq> 61"
    "4 dvd (length s + k)" "list_all (\<lambda>c. 0 \<le> c \<and> c < 128) s" "s = [] \<longrightarrow> k = 0" by blast
  let ?q = "[b64_char (a div 4), b64_char (a mod 4 * 16 + b div 16), b64_char (b mod 16 * 4 + c div 64), b64_char (c mod 64)]"
  show ?case
  proof (intro exI [of _ "?q @ s"] exI [of _ k] conjI)
    show "b64_encode (a # b # c # bs) = (?q @ s) @ replicate k 61" by (simp add: s(1))
    show "?q @ s = [] \<or> last (?q @ s) \<noteq> 61" using s(3) v by (cases "s = []") simp_all
    show "4 dvd (length (?q @ s) + k)" using s(4) by (simp, presburger)
    show "list_all (\<lambda>c. 0 \<le> c \<and> c < 128) (?q @ s)" using s(5) v by simp
  qed (use s in simp_all)
qed simp

lemma add_strip_padding:
  assumes "list_all is_byte bs"
  shows "add_padding (strip_padding (b64_encode bs)) = b64_encode bs"
    and "list_all (\<lambda>c. 0 \<le> c \<and> c < 128) (strip_padding (b64_encode bs))"
proof -
  from b64_encode_shape [OF assms] obtain s k where s: "b64_encode bs = s @ replicate k 61" "k < 3"
    "s = [] \<or> last s \<noteq> 61" "4 dvd (length s + k)" "list_all (\<lambda>c. 0 \<le> c \<and> c < 128) s" by blast
  have "dropWhile (\<lambda>c. c = 61) (replicate k 61 @ rev s) = rev s"
    using s(3) by (induction k) (cases "rev s"; auto simp: hd_rev [symmetric])+
  then have strip: "strip_padding (b64_encode bs) = s" by (simp add: strip_padding_def s(1))
  have "- int (length s) mod 4 = int k"
    using s(2,4) by presburger
  then show "add_padding (strip_padding (b64_encode bs)) = b64_encode bs"
    unfolding strip by (simp add: add_padding_def s(1))
  show "list_all (\<lambda>c. 0 \<le> c \<and> c < 128) (strip_padding (b64_encode bs))" using s(5) unfolding strip .
qed

subsection \<open>Strict UTF-8 decoding\<close>

definition is_continuation :: "8 word \<Rightarrow> bool" where
  "is_continuation b \<longleftrightarrow> 0x80 \<le> uint b \<and> uint b < 0xC0"

definition low_bits :: "8 word \<Rightarrow> int" where
  "low_bits b = uint b - 0x80"

definition utf8_step :: "bytes \<Rightarrow> (code_point \<times> bytes) option" where
  "utf8_step bs =
     (case bs of [] \<Rightarrow> None
      | b0 # r0 \<Rightarrow>
          let x = uint b0
          in if x < 0x80 then Some (x, r0)
             else if 0xC2 \<le> x \<and> x \<le> 0xDF
             then (case r0 of
                     b1 # r1 \<Rightarrow> if is_continuation b1 then Some ((x - 0xC0) * 64 + low_bits b1, r1) else None
                   | _ \<Rightarrow> None)
             else if 0xE0 \<le> x \<and> x \<le> 0xEF
             then (case r0 of
                     b1 # b2 # r2 \<Rightarrow>
                       let c = (x - 0xE0) * 4096 + low_bits b1 * 64 + low_bits b2
                       in if is_continuation b1 \<and> is_continuation b2 \<and> 0x800 \<le> c \<and> \<not> is_surrogate c
                          then Some (c, r2) else None
                   | _ \<Rightarrow> None)
             else if 0xF0 \<le> x \<and> x \<le> 0xF4
             then (case r0 of
                     b1 # b2 # b3 # r3 \<Rightarrow>
                       let c = (x - 0xF0) * 262144 + low_bits b1 * 4096 + low_bits b2 * 64 + low_bits b3
                       in if is_continuation b1 \<and> is_continuation b2 \<and> is_continuation b3
                             \<and> 0x10000 \<le> c \<and> c < 0x110000
                          then Some (c, r3) else None
                   | _ \<Rightarrow> None)
             else None)"

lemma utf8_step_shrinks: "utf8_step bs = Some (c, r) \<Longrightarrow> length r < length bs"
  by (auto simp: utf8_step_def Let_def split: list.splits if_splits)

function utf8_decode :: "bytes \<Rightarrow> app_error + unicode_text" where
  "utf8_decode bs =
     (if bs = [] then Inr []
      else case utf8_step bs of
             None \<Rightarrow> Inl (Foreign_error ''UnicodeDecodeError'')
           | Some (c, r) \<Rightarrow> rbind (utf8_decode r) (\<lambda>s. Inr (c # s)))"
  by pat_completeness auto

termination
  by (relation "measure length") (auto simp: utf8_step_shrinks)

declare utf8_decode.simps [simp del]

lemma uint_byte: "0 \<le> x \<Longrightarrow> x < 256 \<Longrightarrow> uint (of_int x :: 8 word) = x"
  by (simp add: unsigned_of_int take_bit_int_eq_self)

lemma continuation_bits:
  "is_continuation (continuation k c)" "low_bits (continuation k c) = c div 64 ^ k mod 64"
proof -
  have "0 \<le> c div 64 ^ k mod 64" "c div 64 ^ k mod 64 < 64" by simp_all
  then have "uint (continuation k c) = 0x80 + c div 64 ^ k mod 64"
    unfolding continuation_def by (intro uint_byte) simp_all
  then show "is_continuation (continuation k c)" "low_bits (continuation k c) = c div 64 ^ k mod 64"
    by (simp_all add: is_continuation_def low_bits_def)
qed

lemma div_64_steps:
  fixes c :: int
  shows "c = c div 64 * 64 + c mod 64" "c div 64 = c div 4096 * 64 + c div 64 mod 64"
    "c div 4096 = c div 262144 * 64 + c div 4096 mod 64"
proof -
  have a: "c div 64 div 64 = c div 4096" "c div 4096 div 64 = c div 262144"
    by (simp_all add: zdiv_zmult2_eq [symmetric])
  show "c = c div 64 * 64 + c mod 64" by simp
  show "c div 64 = c div 4096 * 64 + c div 64 mod 64" using div_mult_mod_eq [of "c div 64" 64] unfolding a by simp
  show "c div 4096 = c div 262144 * 64 + c div 4096 mod 64"
    using div_mult_mod_eq [of "c div 4096" 64] unfolding a by simp
qed

lemma utf8_steps:
  "uint b0 = 0xC0 + q \<Longrightarrow> 2 \<le> q \<Longrightarrow> q < 32 \<Longrightarrow> is_continuation b1 \<Longrightarrow> c = q * 64 + low_bits b1
     \<Longrightarrow> utf8_step (b0 # b1 # r) = Some (c, r)"
  "uint b0 = 0xE0 + q \<Longrightarrow> 0 \<le> q \<Longrightarrow> q < 16 \<Longrightarrow> is_continuation b1 \<Longrightarrow> is_continuation b2
     \<Longrightarrow> c = q * 4096 + low_bits b1 * 64 + low_bits b2 \<Longrightarrow> 0x800 \<le> c \<Longrightarrow> \<not> is_surrogate c
     \<Longrightarrow> utf8_step (b0 # b1 # b2 # r) = Some (c, r)"
  "uint b0 = 0xF0 + q \<Longrightarrow> 0 \<le> q \<Longrightarrow> q < 5 \<Longrightarrow> is_continuation b1 \<Longrightarrow> is_continuation b2 \<Longrightarrow> is_continuation b3
     \<Longrightarrow> c = q * 262144 + low_bits b1 * 4096 + low_bits b2 * 64 + low_bits b3 \<Longrightarrow> 0x10000 \<le> c \<Longrightarrow> c < 0x110000
     \<Longrightarrow> utf8_step (b0 # b1 # b2 # b3 # r) = Some (c, r)"
  by (simp_all add: utf8_step_def)

lemma utf8_step_char:
  assumes "\<not> is_surrogate c" "0 \<le> c" "c < 0x110000"
  shows "utf8_step (utf8_bytes c @ r) = Some (c, r)"
proof -
  note steps = div_64_steps [of c]
  have low: "low_bits (continuation 0 c) = c mod 64" "low_bits (continuation 1 c) = c div 64 mod 64"
    "low_bits (continuation 2 c) = c div 4096 mod 64"
    by (simp_all add: continuation_bits)
  consider "c < 0x80" | "0x80 \<le> c" "c < 0x800" | "0x800 \<le> c" "c < 0x10000" | "0x10000 \<le> c" by linarith
  then show ?thesis
  proof cases
    case 1
    then show ?thesis using assms by (simp add: utf8_step_def utf8_bytes_def uint_byte)
  next
    case 2
    then have hi: "2 \<le> c div 64" "c div 64 < 32" by auto
    then have "uint (of_int (0xC0 + c div 64) :: 8 word) = 0xC0 + c div 64" by (intro uint_byte) simp_all
    from utf8_steps(1) [OF this hi continuation_bits(1)] steps 2 show ?thesis
      by (simp add: utf8_bytes_def low)
  next
    case 3
    then have hi: "0 \<le> c div 4096" "c div 4096 < 16" by auto
    then have "uint (of_int (0xE0 + c div 4096) :: 8 word) = 0xE0 + c div 4096" by (intro uint_byte) simp_all
    moreover have "c = c div 4096 * 4096 + low_bits (continuation 1 c) * 64 + low_bits (continuation 0 c)"
      unfolding low using steps by linarith
    ultimately have "utf8_step (of_int (0xE0 + c div 4096) # continuation 1 c # continuation 0 c # r) = Some (c, r)"
      using hi 3(1) assms(1) by (intro utf8_steps(2) continuation_bits(1))
    then show ?thesis using 3 by (simp add: utf8_bytes_def)
  next
    case 4
    then have hi: "0 \<le> c div 262144" "c div 262144 < 5" using assms(3) by auto
    then have "uint (of_int (0xF0 + c div 262144) :: 8 word) = 0xF0 + c div 262144" by (intro uint_byte) simp_all
    moreover have "c = c div 262144 * 262144 + low_bits (continuation 2 c) * 4096
        + low_bits (continuation 1 c) * 64 + low_bits (continuation 0 c)"
      unfolding low using steps by linarith
    ultimately have "utf8_step (of_int (0xF0 + c div 262144) # continuation 2 c # continuation 1 c # continuation 0 c # r)
        = Some (c, r)"
      using hi 4 assms(3) by (intro utf8_steps(3) continuation_bits(1))
    then show ?thesis using 4 by (simp add: utf8_bytes_def)
  qed
qed

lemma utf8_decode_encode: "utf8_encode s = Inr b \<Longrightarrow> utf8_decode b = Inr s"
proof (induction s arbitrary: b)
  case Nil
  then show ?case by (simp add: utf8_encode_iff utf8_decode.simps)
next
  case (Cons c s)
  then have c: "\<not> is_surrogate c" "0 \<le> c" "c < 0x110000" "encodable s"
    and b: "b = utf8_bytes c @ concat (map utf8_bytes s)" by (auto simp: utf8_encode_iff encodable_def)
  have "utf8_decode (concat (map utf8_bytes s)) = Inr s" by (rule Cons.IH) (simp add: utf8_encode_iff c(4))
  moreover have "utf8_bytes c \<noteq> []" by (simp add: utf8_bytes_def)
  ultimately show ?case
    using utf8_step_char [OF c(1-3)] by (subst utf8_decode.simps) (simp add: b)
qed

subsection \<open>Numbers as text\<close>

function decimal :: "int \<Rightarrow> unicode_text" where
  "decimal n = (if n < 10 then [48 + n] else decimal (n div 10) @ [48 + n mod 10])"
  by pat_completeness auto

termination
  by (relation "measure nat") auto

declare decimal.simps [simp del]

text \<open>White space and the value of decimal digits come from the Unicode character data.\<close>

record unicode_data =
  ud_space :: "code_point \<Rightarrow> bool"
  ud_decimal :: "code_point \<Rightarrow> int option"

definition ascii_digits :: "unicode_data \<Rightarrow> bool" where
  "ascii_digits db \<longleftrightarrow> (\<forall>d. 0 \<le> d \<and> d \<le> 9 \<longrightarrow> ud_decimal db (48 + d) = Some d \<and> \<not> ud_space db (48 + d))"

text \<open>Digits with single underscores between them.\<close>

fun digits_value :: "unicode_data \<Rightarrow> bool \<Rightarrow> int \<Rightarrow> unicode_text \<Rightarrow> int option" where
  "digits_value db after_digit acc [] = (if after_digit then Some acc else None)"
| "digits_value db after_digit acc (c # cs) =
     (if c = 95 then if after_digit then digits_value db False acc cs else None
      else case ud_decimal db c of None \<Rightarrow> None | Some d \<Rightarrow> digits_value db True (acc * 10 + d) cs)"

definition py_int :: "unicode_data \<Rightarrow> unicode_text \<Rightarrow> app_error + int" where
  "py_int db s =
     (let body = strip_text (ud_space db) s;
          (sign, digits) = (case body of
              [] \<Rightarrow> (1, [])
            | c # cs \<Rightarrow> if c = 45 then (- 1, cs) else if c = 43 then (1, cs) else (1, body))
      in case digits_value db False 0 digits of
           None \<Rightarrow> Inl (Foreign_error ''invalid literal for int()'')
         | Some n \<Rightarrow> Inr (sign * n))"

definition digit_points :: "unicode_text \<Rightarrow> bool" where
  "digit_points s \<longleftrightarrow> (\<forall>c\<in>set s. 48 \<le> c \<and> c \<le> 57)"

lemma decimal_digits: "0 \<le> n \<Longrightarrow> digit_points (decimal n) \<and> decimal n \<noteq> []"
proof (induction n rule: decimal.induct)
  case (1 n)
  show ?case
  proof (cases "n < 10")
    case True
    with 1(2) show ?thesis by (simp add: decimal.simps [of n] digit_points_def)
  next
    case False
    then have "0 \<le> n div 10" "0 \<le> n mod 10" "n mod 10 < 10" by simp_all
    with 1(1) [OF False] False show ?thesis by (auto simp: decimal.simps [of n] digit_points_def)
  qed
qed

lemma digits_value_snoc:
  assumes "ascii_digits db" "digit_points s" "0 \<le> d" "d \<le> 9" "s \<noteq> [] \<or> b"
  shows "digits_value db b acc (s @ [48 + d]) = map_option (\<lambda>x. x * 10 + d) (digits_value db b acc s)"
  using assms(2,5)
proof (induction s arbitrary: b acc)
  case Nil
  with assms(1,3,4) show ?case by (auto simp: ascii_digits_def)
next
  case (Cons c s)
  then have "0 \<le> c - 48" "c - 48 \<le> 9" "digit_points s" by (simp_all add: digit_points_def)
  with assms(1) have "ud_decimal db (48 + (c - 48)) = Some (c - 48)" unfolding ascii_digits_def by blast
  then have "ud_decimal db c = Some (c - 48)" "c \<noteq> 95" using Cons.prems(1) by (simp_all add: digit_points_def)
  then show ?case using Cons.IH [of True] \<open>digit_points s\<close> by simp
qed

lemma digits_value_decimal:
  assumes "ascii_digits db" "0 \<le> n"
  shows "digits_value db False 0 (decimal n) = Some n"
  using assms(2)
proof (induction n rule: decimal.induct)
  case (1 n)
  show ?case
  proof (cases "n < 10")
    case True
    have "ud_decimal db (48 + n) = Some n" using assms(1) 1(2) True unfolding ascii_digits_def by simp
    with True show ?thesis by (simp add: decimal.simps [of n])
  next
    case False
    have d: "0 \<le> n mod 10" "n mod 10 \<le> 9" "0 \<le> n div 10" using False by simp_all
    from decimal_digits [OF d(3)] have s: "digit_points (decimal (n div 10))" "decimal (n div 10) \<noteq> []" by simp_all
    have "digits_value db False 0 (decimal n) = map_option (\<lambda>x. x * 10 + n mod 10) (Some (n div 10))"
      using digits_value_snoc [OF assms(1) s(1) d(1,2), of False 0] s(2) 1(1) [OF False d(3)] False
      by (simp add: decimal.simps [of n])
    then show ?thesis by simp
  qed
qed

lemma py_int_decimal:
  assumes "ascii_digits db" "0 \<le> n"
  shows "py_int db (decimal n) = Inr n"
proof -
  have s: "digit_points (decimal n)" "decimal n \<noteq> []" using decimal_digits [OF assms(2)] by simp_all
  have ns: "\<not> ud_space db c" if "c \<in> set (decimal n)" for c
  proof -
    have "0 \<le> c - 48" "c - 48 \<le> 9" using s(1) that by (auto simp: digit_points_def)
    with assms(1) have "\<not> ud_space db (48 + (c - 48))" unfolding ascii_digits_def by blast
    then show ?thesis by simp
  qed
  then have "strip_text (ud_space db) (decimal n) = decimal n" using s(2) by (simp add: strip_text_id_iff)
  moreover obtain c cs where c: "decimal n = c # cs" using s(2) by (cases "decimal n") auto
  moreover have "c \<noteq> 45" "c \<noteq> 43" using s(1) c by (simp_all add: digit_points_def)
  ultimately show ?thesis using digits_value_decimal [OF assms] by (simp add: py_int_def)
qed

subsection \<open>The codec\<close>

text \<open>The cache is kept in the order of its last use.\<close>

record cursor_codec =
  cc_secret :: bytes
  cc_cache_size :: int
  cc_encoded :: "((unicode_text \<times> int) \<times> unicode_text) list"

type_synonym hmac = "bytes \<Rightarrow> bytes \<Rightarrow> bytes"

definition new_cursor_codec :: "bytes \<Rightarrow> int \<Rightarrow> app_error + cursor_codec" where
  "new_cursor_codec secret cache_size =
     (if int (length secret) < 32 then Inl (Foreign_error ''SSE cursor secret must contain at least 32 bytes'')
      else if \<not> (1 \<le> cache_size \<and> cache_size \<le> 100000)
      then Inl (Foreign_error ''SSE cursor cache_size must be between one and 100000'')
      else Inr \<lparr>cc_secret = secret, cc_cache_size = cache_size, cc_encoded = []\<rparr>)"

definition cursor_payload :: "unicode_text \<Rightarrow> int \<Rightarrow> unicode_text" where
  "cursor_payload tenant_id n = tenant_id @ [58] @ decimal n"

definition sign_cursor :: "hmac \<Rightarrow> bytes \<Rightarrow> bytes \<Rightarrow> unicode_text" where
  "sign_cursor hm secret payload = strip_padding (b64_encode (map uint (payload @ [0x2E] @ hm secret payload)))"

definition encode_cursor ::
  "hmac \<Rightarrow> unicode_text \<Rightarrow> int \<Rightarrow> cursor_codec \<Rightarrow> (app_error + unicode_text) \<times> cursor_codec" where
  "encode_cursor hm tenant_id n codec =
     (if tenant_id = [] \<or> n < 0
      then (Inl (Foreign_error ''SSE cursor tenant and nonnegative sequence are required''), codec)
      else let key = (tenant_id, n); others = filter (\<lambda>x. fst x \<noteq> key) (cc_encoded codec)
      in case map_of (cc_encoded codec) key of
           Some cached \<Rightarrow> (Inr cached, codec\<lparr>cc_encoded := others @ [(key, cached)]\<rparr>)
         | None \<Rightarrow>
             (case utf8_encode (cursor_payload tenant_id n) of
                Inl e \<Rightarrow> (Inl e, codec)
              | Inr payload \<Rightarrow>
                  let cursor = sign_cursor hm (cc_secret codec) payload;
                      entries = others @ [(key, cursor)];
                      excess = int (length entries) - cc_cache_size codec
                  in (Inr cursor, codec\<lparr>cc_encoded := drop (nat excess) entries\<rparr>)))"

definition rsplit_colon :: "unicode_text \<Rightarrow> (unicode_text \<times> unicode_text) option" where
  "rsplit_colon s =
     (case dropWhile (\<lambda>c. c \<noteq> 58) (rev s) of
        [] \<Rightarrow> None
      | _ # before \<Rightarrow> Some (rev before, rev (takeWhile (\<lambda>c. c \<noteq> 58) (rev s))))"

text \<open>\<^verbatim>\<open>raw[:-33]\<close>, the separator and \<^verbatim>\<open>raw[-32:]\<close> of the decoded bytes.\<close>

definition cursor_parts :: "unicode_text \<Rightarrow> app_error + (bytes \<times> bytes)" where
  "cursor_parts cursor =
     rbind (guard (list_all (\<lambda>c. c < 128) cursor) unicode_encode_error) (\<lambda>_.
     rbind (b64_decode_loop 0 0 0 (add_padding cursor)) (\<lambda>ints.
       let raw = map of_int ints :: bytes; n = length raw
       in if n < 34 \<or> raw ! (n - 33) \<noteq> 0x2E then Inl (Foreign_error ''ValueError'')
          else Inr (take (n - 33) raw, drop (n - 32) raw)))"

definition cursor_invalid :: app_error where
  "cursor_invalid = liyan ''LIYAN-SSE-REPLAY-CURSOR-INVALID'' EC_MESSAGING False 400"

definition verified_sequence :: "unicode_data \<Rightarrow> unicode_text \<Rightarrow> bytes \<Rightarrow> app_error + int" where
  "verified_sequence db tenant_id payload =
     rbind (utf8_decode payload) (\<lambda>s.
       case rsplit_colon s of
         None \<Rightarrow> Inl (Foreign_error ''not enough values to unpack'')
       | Some (cursor_tenant, digits) \<Rightarrow>
           if cursor_tenant \<noteq> tenant_id then Inl (Foreign_error ''ValueError'')
           else rbind (py_int db digits) (\<lambda>n. if n < 0 then Inl (Foreign_error ''ValueError'') else Inr n))"

definition decode_cursor ::
  "hmac \<Rightarrow> unicode_data \<Rightarrow> unicode_text \<Rightarrow> unicode_text \<Rightarrow> cursor_codec \<Rightarrow> app_error + int" where
  "decode_cursor hm db cursor tenant_id codec =
     (case rbind (cursor_parts cursor) (\<lambda>(payload, signature).
             if signature \<noteq> hm (cc_secret codec) payload then Inl (Foreign_error ''ValueError'')
             else verified_sequence db tenant_id payload) of
        Inl _ \<Rightarrow> Inl cursor_invalid
      | Inr n \<Rightarrow> Inr n)"

subsection \<open>Round trip and binding\<close>

lemma is_byte_uint: "list_all is_byte (map uint (bs :: bytes))"
proof -
  have "uint (b :: 8 word) < 256" for b using uint_lt2p [of b] by simp
  then show ?thesis by (simp add: list_all_iff is_byte_def)
qed

lemma cursor_parts_sign:
  assumes "payload \<noteq> []" "length (hm secret payload) = 32"
  shows "cursor_parts (sign_cursor hm secret payload) = Inr (payload, hm secret payload)"
proof -
  let ?bs = "payload @ [0x2E] @ hm secret payload"
  note pad = add_strip_padding [OF is_byte_uint [of ?bs]]
  have ascii: "list_all (\<lambda>c. c < 128) (sign_cursor hm secret payload)"
    using pad(2) unfolding sign_cursor_def list_all_iff by blast
  have dec: "b64_decode_loop 0 0 0 (add_padding (sign_cursor hm secret payload)) = Inr (map uint ?bs)"
    unfolding sign_cursor_def pad(1) by (rule b64_roundtrip [OF is_byte_uint])
  have raw: "map of_int (map uint ?bs) = ?bs" by (simp add: comp_def)
  have n: "length ?bs = length payload + 33" using assms(2) by simp
  have "\<not> length ?bs < 34" "?bs ! (length ?bs - 33) = 0x2E" "take (length ?bs - 33) ?bs = payload"
    "drop (length ?bs - 32) ?bs = hm secret payload"
    using assms(1) unfolding n by (simp_all add: nth_append)
  then show ?thesis unfolding cursor_parts_def dec Let_def rbind_simps raw using ascii by simp
qed

lemma rsplit_colon_payload:
  assumes "0 \<le> n"
  shows "rsplit_colon (cursor_payload tenant_id n) = Some (tenant_id, decimal n)"
proof -
  have d: "c \<noteq> 58" if "c \<in> set (rev (decimal n))" for c
    using decimal_digits [OF assms] that by (auto simp: digit_points_def)
  then have "dropWhile (\<lambda>c. c \<noteq> 58) (rev (decimal n) @ 58 # rev tenant_id) = 58 # rev tenant_id"
    "takeWhile (\<lambda>c. c \<noteq> 58) (rev (decimal n) @ 58 # rev tenant_id) = rev (decimal n)"
    by (simp_all add: dropWhile_append2 takeWhile_append2 del: set_rev)
  then show ?thesis by (simp add: rsplit_colon_def cursor_payload_def)
qed

lemma verified_payload:
  assumes "ascii_digits db" "0 \<le> n" "utf8_encode (cursor_payload t n) = Inr payload"
  shows "verified_sequence db tenant_id payload = (if t = tenant_id then Inr n else Inl (Foreign_error ''ValueError''))"
  using utf8_decode_encode [OF assms(3)] rsplit_colon_payload [OF assms(2)] py_int_decimal [OF assms(1,2)] assms(2)
  by (simp add: verified_sequence_def)

text \<open>A codec in use: the cursors that were asked for.\<close>

definition encode_all :: "hmac \<Rightarrow> (unicode_text \<times> int) list \<Rightarrow> cursor_codec \<Rightarrow> cursor_codec" where
  "encode_all hm calls codec = fold (\<lambda>(t, n) c. snd (encode_cursor hm t n c)) calls codec"

definition codec_inv :: "hmac \<Rightarrow> cursor_codec \<Rightarrow> bool" where
  "codec_inv hm codec \<longleftrightarrow> 1 \<le> cc_cache_size codec \<and> int (length (cc_encoded codec)) \<le> cc_cache_size codec
     \<and> distinct (map fst (cc_encoded codec))
     \<and> (\<forall>((t, n), cursor)\<in>set (cc_encoded codec). t \<noteq> [] \<and> 0 \<le> n
          \<and> (\<exists>payload. utf8_encode (cursor_payload t n) = Inr payload \<and> cursor = sign_cursor hm (cc_secret codec) payload))"

lemma encode_cursor_spec:
  assumes inv: "codec_inv hm codec" and enc: "encode_cursor hm t n codec = (r, codec')"
  shows "codec_inv hm codec' \<and> cc_secret codec' = cc_secret codec \<and> cc_cache_size codec' = cc_cache_size codec
     \<and> (\<forall>cursor. r = Inr cursor \<longrightarrow> t \<noteq> [] \<and> 0 \<le> n \<and> (\<exists>payload. utf8_encode (cursor_payload t n) = Inr payload
          \<and> cursor = sign_cursor hm (cc_secret codec) payload))"
proof (cases "t = [] \<or> n < 0")
  case True
  then show ?thesis using enc inv by (auto simp: encode_cursor_def)
next
  case False
  let ?others = "filter (\<lambda>x. fst x \<noteq> (t, n)) (cc_encoded codec)"
  have o: "distinct (map fst ?others)" "(t, n) \<notin> fst ` set ?others" "set ?others \<subseteq> set (cc_encoded codec)"
    using inv by (auto simp: codec_inv_def distinct_map_filter)
  show ?thesis
  proof (cases "map_of (cc_encoded codec) (t, n)")
    case (Some cached)
    have mem: "((t, n), cached) \<in> set (cc_encoded codec)" by (rule map_of_SomeD [OF Some])
    have "length ?others < length (cc_encoded codec)" by (rule length_filter_less [OF mem]) simp
    moreover have res: "r = Inr cached" "codec' = codec\<lparr>cc_encoded := ?others @ [((t, n), cached)]\<rparr>"
      using enc False Some by (simp_all add: encode_cursor_def Let_def)
    ultimately show ?thesis using inv mem o unfolding codec_inv_def by auto
  next
    case None
    show ?thesis
    proof (cases "utf8_encode (cursor_payload t n)")
      case (Inl e)
      then show ?thesis using enc False None inv by (auto simp: encode_cursor_def)
    next
      case (Inr payload)
      let ?cursor = "sign_cursor hm (cc_secret codec) payload"
      let ?entries = "?others @ [((t, n), ?cursor)]"
      let ?k = "nat (int (length ?entries) - cc_cache_size codec)"
      have res: "r = Inr ?cursor" "codec' = codec\<lparr>cc_encoded := drop ?k ?entries\<rparr>"
        using enc False None Inr by (simp_all add: encode_cursor_def Let_def)
      have "0 \<le> cc_cache_size codec" using inv by (simp add: codec_inv_def)
      then have "int (length (drop ?k xs)) \<le> cc_cache_size codec" if "length xs = length ?entries" for xs :: "((unicode_text \<times> int) \<times> unicode_text) list"
        using that by (simp only: length_drop)
      then have "int (length (drop ?k ?entries)) \<le> cc_cache_size codec" by blast
      moreover have "distinct (map fst (drop ?k ?entries))"
        using o(1,2) by (simp only: drop_map [symmetric]) (intro distinct_drop, simp)
      moreover have "set (drop ?k ?entries) \<subseteq> insert ((t, n), ?cursor) (set (cc_encoded codec))"
        using o(3) set_drop_subset [of ?k ?entries] by auto
      ultimately show ?thesis using inv False Inr unfolding res codec_inv_def by auto
    qed
  qed
qed

lemma encode_all_inv:
  "codec_inv hm codec \<Longrightarrow> codec_inv hm (encode_all hm calls codec)
     \<and> cc_secret (encode_all hm calls codec) = cc_secret codec
     \<and> cc_cache_size (encode_all hm calls codec) = cc_cache_size codec"
proof (induction calls arbitrary: codec)
  case (Cons x calls)
  obtain t n where x: "x = (t, n)" by fastforce
  obtain r codec' where e: "encode_cursor hm t n codec = (r, codec')" by fastforce
  have "encode_all hm (x # calls) codec = encode_all hm calls codec'" by (simp add: encode_all_def x e)
  with encode_cursor_spec [OF Cons.prems e] Cons.IH [of codec'] show ?case by simp
qed (simp add: encode_all_def)

lemma new_codec_inv: "new_cursor_codec secret n = Inr codec \<Longrightarrow> codec_inv hm codec \<and> cc_secret codec = secret
    \<and> cc_cache_size codec = n"
  by (auto simp: new_cursor_codec_def codec_inv_def split: if_splits)

text \<open>
  C29.  Replay cursors round-trip.  After any use of a codec, every cursor it hands out for a
  tenant and a sequence is decoded to that sequence for that tenant and rejected for every other
  tenant, whether it came from the cache or not, and the cache stays within its size.
\<close>

theorem cursor_roundtrip:
  assumes "new_cursor_codec secret cache_size = Inr codec0" "codec = encode_all hm calls codec0"
    and "encode_cursor hm t n codec = (Inr cursor, codec')"
    and "ascii_digits db" "\<forall>b. length (hm secret b) = 32"
  shows "decode_cursor hm db cursor t' codec' = (if t = t' then Inr n else Inl cursor_invalid)
     \<and> int (length (cc_encoded codec')) \<le> cache_size"
proof -
  note N = new_codec_inv [OF assms(1), of hm]
  have inv: "codec_inv hm codec" "cc_secret codec = secret" "cc_cache_size codec = cache_size"
    using encode_all_inv [of hm codec0 calls] N by (simp_all add: assms(2))
  from encode_cursor_spec [OF inv(1) assms(3)] obtain payload where
    p: "utf8_encode (cursor_payload t n) = Inr payload" "cursor = sign_cursor hm secret payload" "0 \<le> n"
    and inv': "codec_inv hm codec'" "cc_secret codec' = secret" "cc_cache_size codec' = cache_size"
    by (auto simp: inv(2,3))
  have "utf8_decode payload = Inr (cursor_payload t n)" by (rule utf8_decode_encode [OF p(1)])
  then have "payload \<noteq> []" by (auto simp: cursor_payload_def utf8_decode.simps)
  with assms(5) have "cursor_parts cursor = Inr (payload, hm secret payload)"
    unfolding p(2) by (intro cursor_parts_sign) simp_all
  then have "decode_cursor hm db cursor t' codec' = (if t = t' then Inr n else Inl cursor_invalid)"
    using verified_payload [OF assms(4) p(3,1), of t'] by (simp add: decode_cursor_def inv'(2))
  with inv' show ?thesis by (simp add: codec_inv_def)
qed

text \<open>
  Only issued cursors are accepted.  Assume that nobody but the codec can produce a right
  signature: whatever signature a presented cursor carries for its payload, it is right only when
  the codec has signed that payload for a request.  Then a cursor that decodes to a sequence for a tenant was issued
  for exactly that tenant and sequence, however the text of the cursor was altered.
\<close>

theorem accepted_cursor_issued:
  assumes "decode_cursor hm db cursor t codec = Inr n" "ascii_digits db"
    and "\<And>payload. cursor_parts cursor = Inr (payload, hm (cc_secret codec) payload)
      \<Longrightarrow> \<exists>(t0, n0)\<in>issued. 0 \<le> n0 \<and> utf8_encode (cursor_payload t0 n0) = Inr payload"
  shows "(t, n) \<in> issued"
proof -
  from assms(1) obtain payload where parts: "cursor_parts cursor = Inr (payload, hm (cc_secret codec) payload)"
    and seq: "verified_sequence db t payload = Inr n"
    by (auto simp: decode_cursor_def rbind_Inr_iff split: sum.splits prod.splits if_splits)
  from assms(3) [OF parts] obtain t0 n0 where issued: "(t0, n0) \<in> issued" "0 \<le> n0"
    "utf8_encode (cursor_payload t0 n0) = Inr payload" by blast
  from verified_payload [OF assms(2) issued(2,3), of t] seq have "t0 = t" "n0 = n" by (simp_all split: if_splits)
  with issued(1) show ?thesis by simp
qed

subsection \<open>A concrete codec\<close>

text \<open>A signature that is the padded sum of the payload.\<close>

definition sample_hmac :: hmac where
  "sample_hmac secret payload = sum_list payload # replicate 31 0x2E"

definition sample_unicode :: unicode_data where
  "sample_unicode = \<lparr>ud_space = (\<lambda>c. c = 32), ud_decimal = (\<lambda>c. if 48 \<le> c \<and> c \<le> 57 then Some (c - 48) else None)\<rparr>"

definition sample_codec :: cursor_codec where
  "sample_codec = projr (new_cursor_codec (replicate 32 7) 2)"

text \<open>The tenant \<^verbatim>\<open>t:1\<close> and sequence 42.\<close>

definition sample_cursor :: unicode_text where
  "sample_cursor = projr (fst (encode_cursor sample_hmac [116, 58, 49] 42 sample_codec))"

lemma sample_codec_new: "new_cursor_codec (replicate 32 7) 2 = Inr sample_codec"
  by (simp add: sample_codec_def new_cursor_codec_def)

lemma sample_unicode_digits: "ascii_digits sample_unicode"
  by (auto simp: ascii_digits_def sample_unicode_def)

lemma sample_cursor_made:
  "encode_cursor sample_hmac [116, 58, 49] 42 sample_codec
     = (Inr sample_cursor, snd (encode_cursor sample_hmac [116, 58, 49] 42 sample_codec))"
  "cursor_parts sample_cursor = Inr ([116, 58, 49, 58, 52, 50], sample_hmac (cc_secret sample_codec) [116, 58, 49, 58, 52, 50])"
  "decode_cursor sample_hmac sample_unicode sample_cursor [116, 58, 49] sample_codec = Inr 42"
  "utf8_encode (cursor_payload [116, 58, 49] 42) = Inr [116, 58, 49, 58, 52, 50]"
  by code_simp+

theorem cursor_roundtrip_witness:
  "decode_cursor sample_hmac sample_unicode sample_cursor [116, 58, 49]
     (snd (encode_cursor sample_hmac [116, 58, 49] 42 sample_codec)) = Inr 42"
proof -
  have "sample_codec = encode_all sample_hmac [] sample_codec" by (simp add: encode_all_def)
  moreover have "\<forall>b. length (sample_hmac (replicate 32 7) b) = 32" by (simp add: sample_hmac_def)
  ultimately show ?thesis
    using cursor_roundtrip [where t' = "[116, 58, 49]", OF sample_codec_new _ sample_cursor_made(1) sample_unicode_digits]
    by simp
qed

theorem accepted_cursor_issued_witness:
  "([116, 58, 49], 42) \<in> {([116, 58, 49 :: int], 42 :: int)}"
proof (rule accepted_cursor_issued [OF sample_cursor_made(3) sample_unicode_digits])
  fix payload
  assume "cursor_parts sample_cursor = Inr (payload, sample_hmac (cc_secret sample_codec) payload)"
  then have "payload = [116, 58, 49, 58, 52, 50]" using sample_cursor_made(2) by simp
  then show "\<exists>(t0, n0)\<in>{([116, 58, 49], 42)}. 0 \<le> n0 \<and> utf8_encode (cursor_payload t0 n0) = Inr payload"
    using sample_cursor_made(4) by simp
qed

end
