(* ===== verification/ReplayFrame.thy ===== *)
theory ReplayFrame
  imports ReplayLog ReplayCursor
begin

text \<open>
  What a client reads from a frame of \<^verbatim>\<open>encode_sse_frame\<close> in \<^verbatim>\<open>backend/src/liyans/infrastructure/streaming/sse.py\<close>.  The reader follows
  the specification of the event stream format: UTF-8; a line ends with a carriage return, a line feed, or both; a line is the name of a field,
  a colon, an optional space and a value; an empty line dispatches the event.
\<close>

subsection \<open>The reader\<close>

function stream_lines :: "unicode_text \<Rightarrow> unicode_text \<Rightarrow> unicode_text list" where
  "stream_lines line [] = [line]"
| "stream_lines line (c # cs) =
     (if c = 10 then line # stream_lines [] cs
      else if c = 13 then line # stream_lines [] (if cs \<noteq> [] \<and> hd cs = 10 then tl cs else cs)
      else stream_lines (line @ [c]) cs)"
  by pat_completeness auto

termination
  by (relation "measure (\<lambda>(_, cs). length cs)") auto

definition line_field :: "unicode_text \<Rightarrow> unicode_text \<times> unicode_text" where
  "line_field line =
     (let value = drop (Suc (length (takeWhile (\<lambda>c. c \<noteq> 58) line))) line
      in (takeWhile (\<lambda>c. c \<noteq> 58) line, if value \<noteq> [] \<and> hd value = 32 then tl value else value))"

record received_event =
  rv_id :: unicode_text
  rv_type :: unicode_text
  rv_data :: "unicode_text list"

definition read_line :: "unicode_text \<Rightarrow> received_event \<Rightarrow> received_event" where
  "read_line line r =
     (case line_field line of (name, value) \<Rightarrow>
        if name = code_points ''event'' then r\<lparr>rv_type := value\<rparr>
        else if name = code_points ''data'' then r\<lparr>rv_data := rv_data r @ [value]\<rparr>
        else if name = code_points ''id'' \<and> 0 \<notin> set value then r\<lparr>rv_id := value\<rparr>
        else r)"

text \<open>The event of the first frame of a stream: its identifier, type and data.\<close>

definition read_frame :: "bytes \<Rightarrow> (unicode_text \<times> unicode_text \<times> unicode_text) option" where
  "read_frame bs =
     (case utf8_decode bs of
        Inl _ \<Rightarrow> None
      | Inr s \<Rightarrow>
          let ls = butlast (stream_lines [] s)
          in if [] \<notin> set ls then None
             else let r = fold read_line (takeWhile (\<lambda>l. l \<noteq> []) ls) \<lparr>rv_id = [], rv_type = [], rv_data = []\<rparr>
                  in Some (rv_id r, rv_type r, join_lines (rv_data r)))"

subsection \<open>Lines of a frame\<close>

definition one_line :: "unicode_text \<Rightarrow> bool" where
  "one_line l \<longleftrightarrow> 10 \<notin> set l \<and> 13 \<notin> set l"

lemma stream_lines_plain: "one_line l \<Longrightarrow> stream_lines line (l @ 10 # r) = (line @ l) # stream_lines [] r"
  by (induction l arbitrary: line) (auto simp: one_line_def)

lemma stream_lines_join:
  "\<forall>l\<in>set ls. one_line l \<Longrightarrow> ls \<noteq> [] \<Longrightarrow> stream_lines [] (join_lines ls @ 10 # r) = ls @ stream_lines [] r"
proof (induction ls rule: join_lines.induct)
  case (2 l)
  then show ?case by (simp add: stream_lines_plain)
next
  case (3 l l' ls)
  then show ?case by (simp add: stream_lines_plain)
qed simp

lemma line_field_name:
  assumes "58 \<notin> set name"
  shows "line_field (name @ 58 # 32 # value) = (name, value)"
proof -
  have "takeWhile (\<lambda>c. c \<noteq> 58) (name @ 58 # 32 # value) = name" using assms by (induction name) auto
  then show ?thesis by (simp add: line_field_def)
qed

lemma read_named_line:
  "read_line (code_points ''id: '' @ x) r = (if 0 \<notin> set x then r\<lparr>rv_id := x\<rparr> else r)"
  "read_line (code_points ''event: '' @ x) r = r\<lparr>rv_type := x\<rparr>"
  "read_line (code_points ''data: '' @ x) r = r\<lparr>rv_data := rv_data r @ [x]\<rparr>"
proof -
  have "line_field (code_points ''id: '' @ x) = (code_points ''id'', x)" "line_field (code_points ''event: '' @ x) = (code_points ''event'', x)"
    "line_field (code_points ''data: '' @ x) = (code_points ''data'', x)"
    using line_field_name [of "code_points ''id''" x] line_field_name [of "code_points ''event''" x] line_field_name [of "code_points ''data''" x]
    by (simp_all add: code_points_def)
  then show "read_line (code_points ''id: '' @ x) r = (if 0 \<notin> set x then r\<lparr>rv_id := x\<rparr> else r)"
      "read_line (code_points ''event: '' @ x) r = r\<lparr>rv_type := x\<rparr>" "read_line (code_points ''data: '' @ x) r = r\<lparr>rv_data := rv_data r @ [x]\<rparr>"
    by (simp_all add: read_line_def) (simp_all add: code_points_def)
qed

lemma read_data_lines:
  "fold read_line (map (\<lambda>l. code_points ''data: '' @ l) ls) r = r\<lparr>rv_data := rv_data r @ ls\<rparr>"
  by (induction ls arbitrary: r) (simp_all add: read_named_line)

lemma event_type_plain:
  assumes "is_event_type t"
  shows "one_line (code_points t)"
proof -
  have plain: "\<forall>c\<in>set t. c \<noteq> CHR 0x0A \<and> c \<noteq> CHR 0x0D"
    using assms by (cases t) (auto simp: is_event_type_def is_alnum_def char_in_def list_all_iff)
  have code: "(of_char c :: int) = of_char d \<longleftrightarrow> c = d" for c d by (rule of_char_eq_iff)
  have "(of_char c :: int) \<noteq> 10 \<and> (of_char c :: int) \<noteq> 13" if "c \<in> set t" for c
    using bspec [OF plain that] code [of c "CHR 0x0A"] code [of c "CHR 0x0D"] by simp
  then show ?thesis by (force simp: one_line_def code_points_def)
qed

text \<open>A cursor is printable ASCII.\<close>

lemma b64_alphabet_printable: "list_all (\<lambda>v. 32 < b64_char v) [0 .. 63]"
  by code_simp

lemma b64_char_printable: "sextet v \<Longrightarrow> 32 < b64_char v"
  using b64_alphabet_printable by (auto simp: list_all_iff sextet_def)

lemma b64_encode_printable: "list_all is_byte bs \<Longrightarrow> c \<in> set (b64_encode bs) \<Longrightarrow> 32 < c"
proof (induction bs rule: b64_encode.induct)
  case (2 a)
  then have "sextet (a div 4)" "sextet (a mod 4 * 16)" using byte_sextet [of a a] by simp_all
  with 2 show ?case by (auto simp: b64_char_printable)
next
  case (3 a b)
  then have "sextet (a div 4)" "sextet (a mod 4 * 16 + b div 16)" "sextet (b mod 16 * 4)"
    using byte_sextet [of a b] byte_sextet [of b b] by simp_all
  with 3 show ?case by (auto simp: b64_char_printable)
next
  case (4 a b c' bs)
  then have "sextet (a div 4)" "sextet (a mod 4 * 16 + b div 16)" "sextet (b mod 16 * 4 + c' div 64)" "sextet (c' mod 64)"
    using byte_sextet [of a b] byte_sextet [of b c'] by simp_all
  with 4 show ?case by (auto simp: b64_char_printable)
qed simp

lemma sign_cursor_printable:
  assumes "c \<in> set (sign_cursor hm secret payload)"
  shows "32 < c"
proof -
  from assms have "c \<in> set (b64_encode (map uint (payload @ [0x2E] @ hm secret payload)))"
    by (auto simp: sign_cursor_def strip_padding_def dest: set_dropWhileD)
  then show ?thesis by (rule b64_encode_printable [OF is_byte_uint])
qed

lemma takeWhile_filled: "\<forall>l\<in>set ls. l \<noteq> [] \<Longrightarrow> takeWhile (\<lambda>l. l \<noteq> []) (ls @ [[]]) = ls"
  by (induction ls) auto

subsection \<open>The round trip\<close>

lemma join_lines_feed: "2 \<le> length ls \<Longrightarrow> 10 \<in> set (join_lines ls)"
  by (cases ls rule: join_lines.cases) auto

lemma data_lines_first:
  assumes "\<forall>c\<in>set a. \<not> is_line_boundary c" "is_line_boundary c" "c \<noteq> 13"
  shows "data_lines (a @ c # b) = a # split_lines [] b"
  using split_lines_first [OF assms, of "[]"] by (simp add: data_lines_def)

lemma read_encoded_frame:
  assumes "is_event_type (se_event_type e)" "ee_dumps v (se_data e) = Inr encoded"
    and "encode_sse_frame v e cursor = Inr frame" "\<forall>c\<in>set cursor. 32 < c"
  shows "read_frame frame = Some (cursor, code_points (se_event_type e), join_lines (data_lines encoded))"
proof -
  let ?t = "code_points (se_event_type e)"
  let ?data = "map (\<lambda>l. code_points ''data: '' @ l) (data_lines encoded)"
  let ?ls = "(code_points ''id: '' @ cursor) # (code_points ''event: '' @ ?t) # ?data"
  have "one_line cursor" using assms(4) by (auto simp: one_line_def)
  moreover have "one_line l" if "l \<in> set (data_lines encoded)" for l
    using data_lines_free [OF that] by (force simp: one_line_def is_line_boundary_def)
  ultimately have plain: "\<forall>l\<in>set ?ls. one_line l"
    using event_type_plain [OF assms(1)] by (auto simp: one_line_def code_points_def)
  have "code_points ''id: '' @ cursor @ [10] @ frame_text (se_event_type e) encoded = join_lines ?ls @ 10 # [10]"
    by (simp add: frame_text_def)
  moreover have "utf8_encode (code_points ''id: '' @ cursor @ [10] @ frame_text (se_event_type e) encoded) = Inr frame"
    using assms(2,3) by (auto simp: encode_sse_frame_def frame_body_def rbind_Inr_iff utf8_encode_iff encodable_def)
  ultimately have decoded: "utf8_decode frame = Inr (join_lines ?ls @ 10 # [10])" using utf8_decode_encode by metis
  have lines: "stream_lines [] (join_lines ?ls @ 10 # [10]) = ?ls @ [[], []]" using stream_lines_join [OF plain, of "[10]"] by simp
  have filled: "\<forall>l\<in>set ?ls. l \<noteq> []" by (auto simp: code_points_def)
  then have "takeWhile (\<lambda>l. l \<noteq> []) (?ls @ [[]]) = ?ls" by (rule takeWhile_filled)
  moreover have "butlast (?ls @ [[], []]) = ?ls @ [[]]" by (simp add: butlast_append)
  moreover have "0 \<notin> set cursor" using assms(4) by auto
  ultimately show ?thesis
    by (simp only: read_frame_def decoded sum.case lines Let_def) (simp add: read_named_line read_data_lines)
qed

lemma data_lines_identity:
  assumes "encoded \<noteq> []" "\<forall>c\<in>set encoded. 32 \<le> c"
  shows "join_lines (data_lines encoded) = encoded \<longleftrightarrow> (\<forall>c\<in>set encoded. c \<notin> {0x85, 0x2028, 0x2029})"
proof -
  have boundary: "is_line_boundary c \<longleftrightarrow> c \<in> {0x85, 0x2028, 0x2029}" if "c \<in> set encoded" for c
    using assms(2) that by (fastforce simp: is_line_boundary_def)
  show ?thesis
  proof
    assume "\<forall>c\<in>set encoded. c \<notin> {0x85, 0x2028, 0x2029}"
    with boundary have "split_lines [] encoded = [encoded]" using split_lines_plain [of encoded "[]"] assms(1) by simp
    then show "join_lines (data_lines encoded) = encoded" by (simp add: data_lines_def)
  next
    assume same: "join_lines (data_lines encoded) = encoded"
    show "\<forall>c\<in>set encoded. c \<notin> {0x85, 0x2028, 0x2029}"
    proof (rule ccontr)
      assume "\<not> ?thesis"
      then obtain a c b where s: "encoded = a @ c # b" "is_line_boundary c" "\<forall>x\<in>set a. \<not> is_line_boundary x"
        using boundary split_list_first_prop [of encoded is_line_boundary] by blast
      have "c \<noteq> 13" using assms(2) s(1) by auto
      note lines = data_lines_first [OF s(3,2) this, of b, folded s(1)]
      have "10 \<notin> set encoded" using assms(2) by auto
      then have "\<not> 2 \<le> length (data_lines encoded)" using join_lines_feed same by metis
      then have "split_lines [] b = []" unfolding lines by (cases "split_lines [] b") auto
      then have "join_lines (data_lines encoded) = a" by (simp add: lines)
      with same s(1) show False by simp
    qed
  qed
qed

text \<open>
  C30.  Which events survive their frame.  A client that reads the frame of an event by the specification of the format receives
  the cursor as identifier and the type of the event, and as data the JSON text if and only if the text contains none of the
  separators U+0085, U+2028 and U+2029, at which \<^verbatim>\<open>splitlines\<close> breaks it as well; JSON text contains no control characters.
  The cursor comes from the codec, which was used before in any way.
\<close>

theorem frame_roundtrip:
  assumes "new_cursor_codec secret cache_size = Inr codec0"
    and "encode_cursor hm t n (encode_all hm calls codec0) = (Inr cursor, codec')"
    and "is_event_type (se_event_type e)" "ee_dumps v (se_data e) = Inr encoded"
    and "encoded \<noteq> []" "\<forall>c\<in>set encoded. 32 \<le> c"
    and "encode_sse_frame v e cursor = Inr frame"
  shows "\<exists>data. read_frame frame = Some (cursor, code_points (se_event_type e), data)
     \<and> (data = encoded \<longleftrightarrow> (\<forall>c\<in>set encoded. c \<notin> {0x85, 0x2028, 0x2029}))"
proof -
  have "codec_inv hm (encode_all hm calls codec0)"
    using encode_all_inv [of hm codec0 calls] new_codec_inv [OF assms(1), of hm] by simp
  from encode_cursor_spec [OF this assms(2)] obtain s payload where "cursor = sign_cursor hm s payload" by auto
  then have "\<forall>c\<in>set cursor. 32 < c" using sign_cursor_printable by blast
  from read_encoded_frame [OF assms(3,4,7) this] data_lines_identity [OF assms(5,6)] show ?thesis by blast
qed

text \<open>An event whose JSON text holds a line separator, and one without.\<close>

definition sample_event :: sse_event where
  "sample_event = \<lparr>se_tenant_id = ''t'', se_sequence = 0, se_event_type = ''demo'', se_data = DNull, se_emitted_at = 0\<rparr>"

definition sample_frame :: "unicode_text \<Rightarrow> app_error + bytes" where
  "sample_frame encoded = encode_sse_frame \<lparr>ee_dumps = (\<lambda>_. Inr encoded), ee_sha = (\<lambda>_. [])\<rparr> sample_event sample_cursor"

theorem frame_roundtrip_witness:
  "\<exists>frame frame' data. sample_frame [123, 125] = Inr frame \<and> read_frame frame = Some (sample_cursor, code_points ''demo'', [123, 125])
     \<and> sample_frame [123, 0x2028, 125] = Inr frame' \<and> read_frame frame' = Some (sample_cursor, code_points ''demo'', data)
     \<and> data \<noteq> [123, 0x2028, 125]"
proof -
  have made: "encode_cursor sample_hmac [116, 58, 49] 42 (encode_all sample_hmac [] sample_codec)
      = (Inr sample_cursor, snd (encode_cursor sample_hmac [116, 58, 49] 42 sample_codec))"
    using sample_cursor_made(1) by (simp add: encode_all_def)
  have t: "is_event_type (se_event_type sample_event)" by code_simp
  have "\<not> isl (sample_frame [123, 125])" "\<not> isl (sample_frame [123, 0x2028, 125])" by code_simp+
  then obtain frame frame' where f: "sample_frame [123, 125] = Inr frame" "sample_frame [123, 0x2028, 125] = Inr frame'"
    by (auto simp: isl_def sum.split_sel) (metis sum.exhaust)
  note fits = frame_roundtrip [OF sample_codec_new made t _ _ _ f(1) [unfolded sample_frame_def]]
    frame_roundtrip [OF sample_codec_new made t _ _ _ f(2) [unfolded sample_frame_def]]
  with f show ?thesis by (auto simp: sample_event_def)
qed

end
