(* ===== verification/Learners.thy ===== *)
theory Learners
  imports Contracts
begin

text \<open>
  The records of the learning side: knowledge points and prerequisites of
  \<^verbatim>\<open>packages/contracts-python/src/liyans_contracts/topic1.py\<close>, and the profile, memory and path records
  of \<^verbatim>\<open>backend/src/liyans/domains/topic2/entities.py\<close>, with their validators.  Of the content of a graph snapshot only the two lists
  that the planner reads are represented.  Every \<^verbatim>\<open>datetime\<close> carries a time zone, so the check
  \<^verbatim>\<open>_aware\<close> always passes.
\<close>

subsection \<open>Knowledge graphs\<close>

datatype knowledge_point_status = KS_DRAFT | KS_ACTIVE | KS_DEPRECATED

datatype prerequisite_type = PT_REQUIRED | PT_RECOMMENDED | PT_SUPPORTING

fun prerequisite_type_value :: "prerequisite_type \<Rightarrow> string" where
  "prerequisite_type_value PT_REQUIRED = ''REQUIRED''"
| "prerequisite_type_value PT_RECOMMENDED = ''RECOMMENDED''"
| "prerequisite_type_value PT_SUPPORTING = ''SUPPORTING''"

definition is_upper_or_digit :: "char \<Rightarrow> bool" where
  "is_upper_or_digit c \<longleftrightarrow> char_in (CHR ''A'') (CHR ''Z'') c \<or> char_in (CHR ''0'') (CHR ''9'') c"

definition is_course_id :: "string \<Rightarrow> bool" where
  "is_course_id s \<longleftrightarrow> len_between 7 64 s \<and> take 4 s = ''CRS_''
     \<and> list_all (\<lambda>c. is_upper_or_digit c \<or> c = CHR ''_'') (drop 4 s)"

definition is_kp_id :: "string \<Rightarrow> bool" where
  "is_kp_id s \<longleftrightarrow> len_between 6 120 s \<and> take 3 s = ''KP_'' \<and> list_all (\<lambda>c. \<not> is_space c) (drop 3 s)"

definition is_topic1_id :: "string \<Rightarrow> bool" where
  "is_topic1_id s \<longleftrightarrow> len_between 6 128 s \<and> char_in (CHR ''A'') (CHR ''Z'') (hd s)
     \<and> list_all (\<lambda>c. is_upper_or_digit c \<or> c \<in> set ''_:-'') (tl s)"

record authority_source =
  au_source_id :: string
  au_source_version :: string
  au_locator :: string
  au_content_sha256 :: "digest option"

definition valid_authority_source :: "authority_source \<Rightarrow> bool" where
  "valid_authority_source a \<longleftrightarrow> len_between 1 128 (au_source_id a) \<and> len_between 1 128 (au_source_version a)
     \<and> len_between 1 512 (au_locator a) \<and> (\<forall>d\<in>set_option (au_content_sha256 a). is_sha256_hex d)"

record knowledge_point =
  kn_kp_id :: string
  kn_course_id :: string
  kn_revision :: int
  kn_title :: string
  kn_aliases :: "string list"
  kn_summary :: string
  kn_learning_objectives :: "string list"
  kn_category :: string
  kn_difficulty_level :: int
  kn_difficulty_score :: rat
  kn_topology_level :: int
  kn_topology_weight :: rat
  kn_estimated_minutes :: int
  kn_formula_signatures :: "string list"
  kn_tags :: "string list"
  kn_status :: knowledge_point_status
  kn_authority_sources :: "authority_source list"
  kn_created_at :: timestamp
  kn_updated_at :: timestamp

definition unit_score :: "rat \<Rightarrow> bool" where
  "unit_score x \<longleftrightarrow> 0 \<le> x \<and> x \<le> 1"

definition valid_knowledge_point :: "knowledge_point \<Rightarrow> bool" where
  "valid_knowledge_point k \<longleftrightarrow>
     is_kp_id (kn_kp_id k) \<and> is_course_id (kn_course_id k) \<and> 1 \<le> kn_revision k \<and> len_between 1 255 (kn_title k)
     \<and> length (kn_aliases k) \<le> 32 \<and> len_between 1 4000 (kn_summary k) \<and> len_between 1 32 (kn_learning_objectives k)
     \<and> len_between 1 128 (kn_category k) \<and> 1 \<le> kn_difficulty_level k \<and> kn_difficulty_level k \<le> 5
     \<and> unit_score (kn_difficulty_score k) \<and> 0 \<le> kn_topology_level k \<and> unit_score (kn_topology_weight k)
     \<and> 1 \<le> kn_estimated_minutes k \<and> kn_estimated_minutes k \<le> 2400 \<and> length (kn_formula_signatures k) \<le> 64
     \<and> length (kn_tags k) \<le> 64 \<and> length (kn_authority_sources k) \<le> 64
     \<and> list_all valid_authority_source (kn_authority_sources k)"

record prerequisite =
  pq_edge_id :: string
  pq_course_id :: string
  pq_prerequisite_kp_id :: string
  pq_dependent_kp_id :: string
  pq_relation_type :: prerequisite_type
  pq_strength :: rat
  pq_rationale :: string
  pq_revision :: int
  pq_created_at :: timestamp
  pq_updated_at :: timestamp

definition valid_prerequisite :: "prerequisite \<Rightarrow> bool" where
  "valid_prerequisite e \<longleftrightarrow>
     is_topic1_id (pq_edge_id e) \<and> is_course_id (pq_course_id e) \<and> is_kp_id (pq_prerequisite_kp_id e)
     \<and> is_kp_id (pq_dependent_kp_id e) \<and> unit_score (pq_strength e) \<and> len_between 1 2000 (pq_rationale e)
     \<and> 1 \<le> pq_revision e \<and> pq_prerequisite_kp_id e \<noteq> pq_dependent_kp_id e"

record graph_snapshot =
  gs_snapshot_id :: uuid
  gs_course_id :: string
  gs_graph_version :: int
  gs_knowledge_points :: "knowledge_point list"
  gs_prerequisites :: "prerequisite list"

subsection \<open>Profiles and memory\<close>

datatype profile_dimension =
    PD_KNOWLEDGE_MASTERY | PD_PROBLEM_SOLVING_PROFICIENCY | PD_MISCONCEPTION_PREFERENCE | PD_LEARNING_PACE
  | PD_FORGETTING_RATE | PD_LEARNING_GOAL_TENDENCY

datatype memory_risk_level = ML_LOW | ML_MEDIUM | ML_HIGH | ML_CRITICAL

datatype path_plan_type = PP_INITIAL | PP_REPLANNED | PP_MANUAL_OVERRIDE | PP_RESTORED

datatype path_change_type =
    PC_INITIALIZED | PC_MEMORY_RISK | PC_MASTERY_DEFICIT | PC_MISCONCEPTION | PC_GOAL_CHANGED
  | PC_MANUAL_OVERRIDE | PC_TOPOLOGY_REPAIRED | PC_RESTORED

record profile_feature =
  pf_feature_id :: uuid
  pf_dimension :: profile_dimension
  pf_feature_key :: string
  pf_value_document :: "(string \<times> doc) list"
  pf_normalized_score :: rat
  pf_confidence :: rat
  pf_evidence_count :: int
  pf_source_event_ids :: "string list"
  pf_computed_at :: timestamp

definition valid_profile_feature :: "profile_feature \<Rightarrow> bool" where
  "valid_profile_feature f \<longleftrightarrow>
     unit_score (pf_normalized_score f) \<and> unit_score (pf_confidence f) \<and> len_between 1 160 (pf_feature_key f)
     \<and> 0 \<le> pf_evidence_count f"

record student_profile =
  sp_profile_id :: uuid
  sp_learner_ref :: string
  sp_course_id :: string
  sp_profile_version :: int
  sp_parent_profile_id :: "uuid option"
  sp_policy_version :: string
  sp_knowledge_mastery :: rat
  sp_problem_solving_proficiency :: rat
  sp_misconception_preference :: rat
  sp_learning_pace :: rat
  sp_forgetting_rate :: rat
  sp_learning_goal_tendency :: rat
  sp_confidence_score :: rat
  sp_activity_count :: int
  sp_last_event_at :: "timestamp option"
  sp_source_window_start :: "timestamp option"
  sp_source_window_end :: "timestamp option"
  sp_profile_document :: doc
  sp_content_sha256 :: digest
  sp_frozen_at :: timestamp
  sp_features :: "profile_feature list"

definition valid_profile :: "student_profile \<Rightarrow> bool" where
  "valid_profile p \<longleftrightarrow>
     1 \<le> sp_profile_version p \<and> 0 \<le> sp_activity_count p
     \<and> unit_score (sp_knowledge_mastery p) \<and> unit_score (sp_problem_solving_proficiency p)
     \<and> unit_score (sp_misconception_preference p) \<and> unit_score (sp_learning_pace p)
     \<and> unit_score (sp_forgetting_rate p) \<and> unit_score (sp_learning_goal_tendency p)
     \<and> unit_score (sp_confidence_score p)
     \<and> (case (sp_source_window_start p, sp_source_window_end p) of
          (Some s, Some e) \<Rightarrow> s \<le> e | _ \<Rightarrow> True)
     \<and> pf_dimension ` set (sp_features p) =
         {PD_KNOWLEDGE_MASTERY, PD_PROBLEM_SOLVING_PROFICIENCY, PD_MISCONCEPTION_PREFERENCE, PD_LEARNING_PACE,
          PD_FORGETTING_RATE, PD_LEARNING_GOAL_TENDENCY}
     \<and> list_all valid_profile_feature (sp_features p) \<and> is_sha256_hex (sp_content_sha256 p)"

record memory_state =
  my_memory_state_id :: uuid
  my_learner_ref :: string
  my_course_id :: string
  my_kp_id :: string
  my_state_version :: int
  my_parent_memory_state_id :: "uuid option"
  my_model_version :: string
  my_stability_days :: rat
  my_effective_stability_days :: rat
  my_elapsed_days :: rat
  my_retrievability :: rat
  my_forgetting_rate :: rat
  my_difficulty_factor :: rat
  my_review_gain :: rat
  my_review_count :: int
  my_lapse_count :: int
  my_last_reviewed_at :: "timestamp option"
  my_last_activity_at :: timestamp
  my_next_review_at :: timestamp
  my_risk_level :: memory_risk_level
  my_model_parameters :: doc
  my_content_sha256 :: digest
  my_computed_at :: timestamp

definition valid_memory_state :: "memory_state \<Rightarrow> bool" where
  "valid_memory_state m \<longleftrightarrow>
     1 \<le> my_state_version m \<and> 0 < my_stability_days m \<and> my_stability_days m \<le> 36500
     \<and> 0 < my_effective_stability_days m \<and> my_effective_stability_days m \<le> 36500
     \<and> 0 \<le> my_elapsed_days m \<and> unit_score (my_retrievability m) \<and> unit_score (my_forgetting_rate m)
     \<and> fl (25/100) \<le> my_difficulty_factor m \<and> my_difficulty_factor m \<le> 4
     \<and> 0 \<le> my_review_gain m \<and> my_review_gain m \<le> 16
     \<and> 0 \<le> my_review_count m \<and> 0 \<le> my_lapse_count m \<and> my_lapse_count m \<le> my_review_count m
     \<and> is_sha256_hex (my_content_sha256 m)"

subsection \<open>Learning paths\<close>

record path_snapshot =
  ls_path_snapshot_id :: uuid
  ls_learner_ref :: string
  ls_course_id :: string
  ls_path_version :: int
  ls_parent_path_snapshot_id :: "uuid option"
  ls_topic1_graph_snapshot_id :: uuid
  ls_topic1_graph_version :: int
  ls_profile_id :: uuid
  ls_plan_type :: path_plan_type
  ls_trigger_reason :: string
  ls_target_goal :: string
  ls_policy_version :: string
  ls_path_document :: "(string \<times> doc) list"
  ls_decision_document :: "(string \<times> doc) list"
  ls_node_count :: int
  ls_estimated_minutes :: int
  ls_manual_override :: bool
  ls_content_sha256 :: digest
  ls_frozen_at :: timestamp

definition valid_path_snapshot :: "path_snapshot \<Rightarrow> bool" where
  "valid_path_snapshot s \<longleftrightarrow>
     1 \<le> ls_path_version s \<and> 1 \<le> ls_topic1_graph_version s \<and> 0 \<le> ls_node_count s \<and> 0 \<le> ls_estimated_minutes s
     \<and> len_between 1 128 (ls_trigger_reason s) \<and> len_between 1 512 (ls_target_goal s)
     \<and> is_sha256_hex (ls_content_sha256 s)"

record path_change =
  ph_change_id :: uuid
  ph_learner_ref :: string
  ph_course_id :: string
  ph_from_path_snapshot_id :: "uuid option"
  ph_to_path_snapshot_id :: uuid
  ph_change_type :: path_change_type
  ph_reason :: string
  ph_policy_version :: string
  ph_change_document :: "(string \<times> doc) list"
  ph_occurred_at :: timestamp

definition valid_path_change :: "path_change \<Rightarrow> bool" where
  "valid_path_change c \<longleftrightarrow>
     ph_from_path_snapshot_id c \<noteq> Some (ph_to_path_snapshot_id c) \<and> len_between 1 2000 (ph_reason c)"

end
