(* ===== verification/Topology.thy ===== *)
theory Topology
  imports PyFloat "HOL-Library.Product_Lexorder"
begin

text \<open>
  The topology of a course, \<^verbatim>\<open>backend/src/liyans/domains/topic1/topology.py\<close>: the layering of the
  prerequisite graph with its weights, the search for a cycle when there is none, the
  classification of difficulty and the ranking of misconceptions.  A dictionary whose keys decide
  the run of a loop is an association list, one that is read only at known keys is a function, and
  a set is a list where the code sorts it.  The recursion of the cycle search is limited by a fuel that the number
  of nodes bounds; the recursion limit of the interpreter is not represented.
\<close>

subsection \<open>The program\<close>

type_synonym kp_id = string

datatype topology_error = Topology_value_error | Topology_cycle "kp_id list"

record topology_edge =
  tg_prerequisite_kp_id :: kp_id
  tg_dependent_kp_id :: kp_id

type_synonym adjacency = "kp_id \<Rightarrow> kp_id list"

text \<open>\<^verbatim>\<open>indegree[d] += x\<close>, at a key that is present.\<close>

definition add_at :: "'k \<Rightarrow> int \<Rightarrow> ('k \<times> int) list \<Rightarrow> ('k \<times> int) list" where
  "add_at d x al = map (\<lambda>(k, n). (k, if k = d then n + x else n)) al"

lemma keys_add_at [simp]: "map fst (add_at d x al) = map fst al"
  by (induction al) (auto simp: add_at_def)

lemma map_of_add_at [simp]:
  "map_of (add_at d x al) k = map_option (\<lambda>n. if k = d then n + x else n) (map_of al k)"
  by (induction al) (auto simp: add_at_def)

definition positives :: "('k \<times> int) list \<Rightarrow> nat" where
  "positives al = length (filter (\<lambda>kn. 0 < snd kn) al)"

lemma positives_decrement:
  "positives (add_at d (- 1) al) + (if map_of al d = Some 1 then 1 else 0) \<le> positives al"
  by (induction al) (auto simp: positives_def add_at_def)

fun add_edges ::
  "kp_id set \<Rightarrow> topology_edge list \<Rightarrow> adjacency \<Rightarrow> (kp_id \<times> int) list
     \<Rightarrow> topology_error + (adjacency \<times> (kp_id \<times> int) list)" where
  "add_edges nodes [] adj indegree = Inr (adj, indegree)"
| "add_edges nodes (e # es) adj indegree =
     (let p = tg_prerequisite_kp_id e; d = tg_dependent_kp_id e
      in if p \<notin> nodes \<or> d \<notin> nodes then Inl Topology_value_error
         else if p = d then Inl (Topology_cycle [p, d])
         else if d \<in> set (adj p) then add_edges nodes es adj indegree
         else add_edges nodes es (adj(p := adj p @ [d]))
                (add_at d 1 indegree))"

record kahn =
  kh_ready :: "kp_id list"
  kh_order :: "kp_id list"
  kh_levels :: "kp_id \<Rightarrow> int"
  kh_indegree :: "(kp_id \<times> int) list"

definition release :: "kp_id \<Rightarrow> kp_id \<Rightarrow> kahn \<Rightarrow> kahn" where
  "release current d s =
     (let indegree = add_at d (- 1) (kh_indegree s)
      in s\<lparr>kh_levels := (kh_levels s)(d := max (kh_levels s d) (kh_levels s current + 1)),
           kh_indegree := indegree,
           kh_ready := (if map_of indegree d = Some 0 then kh_ready s @ [d] else kh_ready s)\<rparr>)"

definition kahn_size :: "kahn \<Rightarrow> nat" where
  "kahn_size s = length (kh_ready s) + positives (kh_indegree s)"

lemma release_size: "kahn_size (release c d s) \<le> kahn_size s"
  using positives_decrement [of d "kh_indegree s"]
  by (auto simp: kahn_size_def release_def Let_def split: if_splits)

lemma release_all_size: "kahn_size (fold (release c) ds s) \<le> kahn_size s"
  by (induction ds arbitrary: s) (auto intro: order_trans release_size)

function kahn_loop :: "adjacency \<Rightarrow> kahn \<Rightarrow> kahn" where
  "kahn_loop adj s =
     (case kh_ready s of
        [] \<Rightarrow> s
      | current # rest \<Rightarrow>
          kahn_loop adj (fold (release current) (sorted_set (adj current))
                           (s\<lparr>kh_ready := rest, kh_order := kh_order s @ [current]\<rparr>)))"
  by pat_completeness auto
termination
proof (relation "measure (\<lambda>(adj, s). kahn_size s)", goal_cases)
  case (2 adj s c rest)
  have "kahn_size (s\<lparr>kh_ready := rest, kh_order := kh_order s @ [c]\<rparr>) < kahn_size s"
    using 2 by (simp add: kahn_size_def)
  with release_all_size [of c "sorted_set (adj c)" "s\<lparr>kh_ready := rest, kh_order := kh_order s @ [c]\<rparr>"]
  show ?case by simp
qed simp

declare kahn_loop.simps [simp del]

text \<open>
  The depth-first search for a cycle.  \<open>ds_state\<close> is 1 while a node is on the stack and 2 when it
  is done; the outer option is \<^const>\<open>None\<close> when the fuel does not suffice.
\<close>

record dfs_state =
  ds_state :: "kp_id \<rightharpoonup> nat"
  ds_stack :: "kp_id list"

fun visit :: "adjacency \<Rightarrow> kp_id set \<Rightarrow> nat \<Rightarrow> kp_id \<Rightarrow> dfs_state \<Rightarrow> (kp_id list option \<times> dfs_state) option"
  and visit_dependents ::
    "adjacency \<Rightarrow> kp_id set \<Rightarrow> nat \<Rightarrow> kp_id \<Rightarrow> kp_id list \<Rightarrow> dfs_state \<Rightarrow> (kp_id list option \<times> dfs_state) option" where
  "visit adj cands 0 n s = None"
| "visit adj cands (Suc fuel) n s =
     visit_dependents adj cands fuel n (sorted_set (adj n))
       (s\<lparr>ds_state := (ds_state s)(n \<mapsto> 1), ds_stack := ds_stack s @ [n]\<rparr>)"
| "visit_dependents adj cands fuel n [] s =
     Some (None, s\<lparr>ds_stack := butlast (ds_stack s), ds_state := (ds_state s)(n \<mapsto> 2)\<rparr>)"
| "visit_dependents adj cands fuel n (d # ds) s =
     (if d \<notin> cands then visit_dependents adj cands fuel n ds s
      else case ds_state s d of
             None \<Rightarrow>
               (case visit adj cands fuel d s of
                  None \<Rightarrow> None
                | Some (Some cycle, s') \<Rightarrow> Some (Some cycle, s')
                | Some (None, s') \<Rightarrow> visit_dependents adj cands fuel n ds s')
           | Some m \<Rightarrow>
               if m = 1 then Some (Some (dropWhile (\<lambda>k. k \<noteq> d) (ds_stack s) @ [d]), s)
               else visit_dependents adj cands fuel n ds s)"

fun visit_roots :: "adjacency \<Rightarrow> kp_id set \<Rightarrow> nat \<Rightarrow> kp_id list \<Rightarrow> dfs_state \<Rightarrow> (kp_id list option \<times> dfs_state) option" where
  "visit_roots adj cands fuel [] s = Some (None, s)"
| "visit_roots adj cands fuel (n # ns) s =
     (if ds_state s n \<noteq> None then visit_roots adj cands fuel ns s
      else case visit adj cands fuel n s of
             None \<Rightarrow> None
           | Some (Some cycle, s') \<Rightarrow> Some (Some cycle, s')
           | Some (None, s') \<Rightarrow> visit_roots adj cands fuel ns s')"

definition find_cycle :: "adjacency \<Rightarrow> kp_id list \<Rightarrow> kp_id list option" where
  "find_cycle adj candidates =
     (case visit_roots adj (set candidates) (Suc (length candidates)) (sorted_set candidates)
             \<lparr>ds_state = Map.empty, ds_stack = []\<rparr> of
        None \<Rightarrow> None
      | Some (Some cycle, _) \<Rightarrow> Some cycle
      | Some (None, _) \<Rightarrow> Some (sorted_set candidates))"

definition add_descendants :: "adjacency \<Rightarrow> kp_id \<Rightarrow> (kp_id \<Rightarrow> kp_id set) \<Rightarrow> kp_id \<Rightarrow> kp_id set" where
  "add_descendants adj n sets = fold (\<lambda>d sets. sets(n := insert d (sets n) \<union> sets d)) (adj n) sets"

definition descendant_sets :: "adjacency \<Rightarrow> kp_id list \<Rightarrow> kp_id \<Rightarrow> kp_id set" where
  "descendant_sets adj order = fold (add_descendants adj) (rev order) (\<lambda>_. {})"

record topology_metrics =
  tm_topological_order :: "kp_id list"
  tm_levels :: "kp_id \<Rightarrow> int"
  tm_weights :: "kp_id \<Rightarrow> rat"
  tm_descendant_counts :: "kp_id \<Rightarrow> int"

definition max_level :: "kp_id list \<Rightarrow> (kp_id \<Rightarrow> int) \<Rightarrow> int" where
  "max_level ns levels = (case map levels ns of [] \<Rightarrow> 0 | l # ls \<Rightarrow> foldl max l ls)"

definition node_weight :: "kp_id list \<Rightarrow> (kp_id \<Rightarrow> int) \<Rightarrow> (kp_id \<Rightarrow> int) \<Rightarrow> kp_id \<Rightarrow> rat" where
  "node_weight ns levels descendants n =
     (if length ns = 1 then 1
      else let influence = fdiv (of_int (descendants n)) (of_int (max 1 (int (length ns) - 1)));
               depth = fdiv (of_int (levels n)) (of_int (max 1 (max_level ns levels)))
           in py_round (min 1 (fadd (fmul (fl (55/100)) influence) (fmul (fl (45/100)) depth))) 6)"

definition new_kahn :: "(kp_id \<times> int) list \<Rightarrow> kahn" where
  "new_kahn indegree =
     \<lparr>kh_ready = sort (map fst (filter (\<lambda>(k, n). n = 0) indegree)), kh_order = [], kh_levels = (\<lambda>_. 0),
      kh_indegree = indegree\<rparr>"

text \<open>The given list stands for the set of node identifiers.\<close>

definition analyze_topology :: "kp_id list \<Rightarrow> topology_edge list \<Rightarrow> topology_error + topology_metrics" where
  "analyze_topology node_ids edges =
     (let ns = remdups node_ids in
      rbind (add_edges (set ns) edges (\<lambda>_. []) (map (\<lambda>n. (n, 0)) ns)) (\<lambda>(adj, indegree).
      let s = kahn_loop adj (new_kahn indegree); order = kh_order s
      in if length order \<noteq> length ns
         then Inl (Topology_cycle (the (find_cycle adj (filter (\<lambda>n. n \<notin> set order) ns))))
         else let counts = (\<lambda>n. int (card (descendant_sets adj order n)))
              in Inr \<lparr>tm_topological_order = order, tm_levels = kh_levels s,
                      tm_weights = node_weight ns (kh_levels s) counts, tm_descendant_counts = counts\<rparr>))"

text \<open>The classification of the difficulty of a point.\<close>

record difficulty_assessment =
  da_level :: int
  da_score :: rat
  da_structural_score :: rat

definition classify_difficulty ::
  "rat \<Rightarrow> int \<Rightarrow> int \<Rightarrow> int \<Rightarrow> int \<Rightarrow> topology_error + difficulty_assessment" where
  "classify_difficulty declared_score prerequisite_count formula_count objective_count estimated_minutes =
     (if \<not> (0 \<le> declared_score \<and> declared_score \<le> 1) then Inl Topology_value_error
      else if min (min prerequisite_count formula_count) objective_count < 0 \<or> estimated_minutes < 1
      then Inl Topology_value_error
      else let part = (\<lambda>w n d. fmul (fl w) (min 1 (fdiv (of_int n) d)));
               structural = fadd (fadd (fadd (part (35/100) prerequisite_count 5) (part (30/100) formula_count 8))
                                       (part (20/100) objective_count 6)) (part (15/100) estimated_minutes 240);
               score = py_round (fadd (fmul (fl (4/10)) declared_score) (fmul (fl (6/10)) structural)) 6
           in Inr \<lparr>da_level = max 1 (min 5 \<lceil>fmul score 5\<rceil>), da_score = score,
                   da_structural_score = py_round structural 6\<rparr>)"

text \<open>
  The ranking of misconceptions by the Jaccard similarity of tags.  The normalisation of a tag
  (Unicode case folding and white space) is a parameter; \<open>blank\<close> says that stripping leaves nothing.
\<close>

record misconception =
  mc_misconception_id :: string
  mc_diagnosis_tags :: "string list"

definition normalized_tags :: "(string \<Rightarrow> bool) \<Rightarrow> (string \<Rightarrow> string) \<Rightarrow> string list \<Rightarrow> string list" where
  "normalized_tags blank fold_tag tags = remdups (map fold_tag (filter (\<lambda>t. \<not> blank t) tags))"

definition tag_score :: "string list \<Rightarrow> string list \<Rightarrow> rat" where
  "tag_score observed tags =
     (let union = length (remdups (observed @ tags))
      in if union \<noteq> 0 then fdiv (of_nat (length (filter (\<lambda>t. t \<in> set tags) observed))) (of_nat union) else 0)"

definition rank_misconceptions ::
  "(string \<Rightarrow> bool) \<Rightarrow> (string \<Rightarrow> string) \<Rightarrow> string list \<Rightarrow> misconception list \<Rightarrow> string list" where
  "rank_misconceptions blank fold_tag observed_tags candidates =
     (let observed = normalized_tags blank fold_tag observed_tags;
          ranked = filter (\<lambda>(score, _). 0 < score)
            (map (\<lambda>c. (tag_score observed (normalized_tags blank fold_tag (mc_diagnosis_tags c)), mc_misconception_id c)) candidates)
      in map snd (sort_key (\<lambda>(score, i). (- score, i)) ranked))"

subsection \<open>The graph of the edges\<close>

definition edge_rel :: "topology_edge list \<Rightarrow> (kp_id \<times> kp_id) set" where
  "edge_rel es = (\<lambda>e. (tg_prerequisite_kp_id e, tg_dependent_kp_id e)) ` set es"

definition succs :: "adjacency \<Rightarrow> (kp_id \<times> kp_id) set" where
  "succs adj = {(p, d). d \<in> set (adj p)}"

lemma in_succs [simp]: "(p, d) \<in> succs adj \<longleftrightarrow> d \<in> set (adj p)"
  by (simp add: succs_def)

definition adj_inv :: "kp_id list \<Rightarrow> adjacency \<Rightarrow> (kp_id \<times> int) list \<Rightarrow> bool" where
  "adj_inv ns adj indegree \<longleftrightarrow>
     succs adj \<subseteq> set ns \<times> set ns \<and> (\<forall>n. n \<notin> set (adj n)) \<and> map fst indegree = ns
     \<and> (\<forall>n\<in>set ns. map_of indegree n = Some (int (card {p \<in> set ns. n \<in> set (adj p)})))"

lemma add_edges_adj:
  assumes "add_edges (set ns) es adj I = Inr (adj', I')" "adj_inv ns adj I"
  shows "adj_inv ns adj' I' \<and> succs adj' = succs adj \<union> edge_rel es \<and> edge_rel es \<subseteq> set ns \<times> set ns"
  using assms
proof (induction es arbitrary: adj I)
  case Nil
  then show ?case by (simp add: edge_rel_def)
next
  case (Cons e es)
  let ?p = "tg_prerequisite_kp_id e" and ?d = "tg_dependent_kp_id e"
  have ok: "?p \<in> set ns" "?d \<in> set ns" "?p \<noteq> ?d"
    using Cons.prems(1) by (auto simp: Let_def split: if_splits)
  have rel: "edge_rel (e # es) = insert (?p, ?d) (edge_rel es)" by (simp add: edge_rel_def)
  show ?case
  proof (cases "?d \<in> set (adj ?p)")
    case True
    with Cons.prems(1) ok have "add_edges (set ns) es adj I = Inr (adj', I')" by (simp add: Let_def)
    from Cons.IH [OF this Cons.prems(2)] True ok show ?thesis by (auto simp: rel)
  next
    case False
    let ?adj = "adj(?p := adj ?p @ [?d])" and ?I = "add_at ?d 1 I"
    from False Cons.prems(1) ok have run: "add_edges (set ns) es ?adj ?I = Inr (adj', I')" by (simp add: Let_def)
    have sub: "succs ?adj = insert (?p, ?d) (succs adj)" by (auto simp: succs_def split: if_splits)
    have preds: "{p \<in> set ns. n \<in> set (?adj p)}
        = (if n = ?d then insert ?p {p \<in> set ns. n \<in> set (adj p)} else {p \<in> set ns. n \<in> set (adj p)})" for n
      using ok by auto
    have "adj_inv ns ?adj ?I"
      using Cons.prems(2) ok False unfolding adj_inv_def sub preds by auto
    from Cons.IH [OF run this] ok show ?thesis unfolding sub rel by auto
  qed
qed

lemma add_edges_error:
  assumes "add_edges nodes es adj I = Inl err"
  shows "err = Topology_value_error \<and> \<not> edge_rel es \<subseteq> nodes \<times> nodes
    \<or> (\<exists>n. err = Topology_cycle [n, n] \<and> (n, n) \<in> edge_rel es)"
  using assms
proof (induction es arbitrary: adj I)
  case (Cons e es)
  have rel: "edge_rel (e # es) = insert (tg_prerequisite_kp_id e, tg_dependent_kp_id e) (edge_rel es)"
    by (simp add: edge_rel_def)
  show ?case using Cons unfolding rel by (auto simp: Let_def split: if_splits)
qed simp

subsection \<open>The layering\<close>

definition topological :: "('n \<times> 'n) set \<Rightarrow> 'n list \<Rightarrow> bool" where
  "topological E order \<longleftrightarrow> distinct order \<and> (\<forall>xs n ys. order = xs @ n # ys \<longrightarrow> E\<inverse> `` {n} \<subseteq> set xs)"

lemma topological_Nil [simp]: "topological E []"
  by (simp add: topological_def)

lemma topologicalD: "topological E (xs @ n # ys) \<Longrightarrow> (p, n) \<in> E \<Longrightarrow> p \<in> set xs"
  by (auto simp: topological_def)

lemma topological_snoc: "topological E (order @ [n]) \<longleftrightarrow> topological E order \<and> n \<notin> set order \<and> E\<inverse> `` {n} \<subseteq> set order"
  unfolding topological_def by (auto simp: append_eq_append_conv2 append_eq_Cons_conv Cons_eq_append_conv) blast+

definition remaining_preds :: "kp_id list \<Rightarrow> adjacency \<Rightarrow> kp_id list \<Rightarrow> kp_id \<Rightarrow> kp_id set" where
  "remaining_preds ns adj order n = {p \<in> set ns - set order. n \<in> set (adj p)}"

definition longest_levels :: "adjacency \<Rightarrow> kp_id list \<Rightarrow> (kp_id \<Rightarrow> int) \<Rightarrow> bool" where
  "longest_levels adj order levels \<longleftrightarrow>
     (\<forall>n. levels n = Max (insert 0 ((\<lambda>p. levels p + 1) ` {p \<in> set order. n \<in> set (adj p)})))"

definition kahn_inv :: "kp_id list \<Rightarrow> adjacency \<Rightarrow> kahn \<Rightarrow> bool" where
  "kahn_inv ns adj s \<longleftrightarrow>
     map fst (kh_indegree s) = ns \<and> distinct (kh_order s @ kh_ready s) \<and> set (kh_order s @ kh_ready s) \<subseteq> set ns
     \<and> (\<forall>n\<in>set ns. map_of (kh_indegree s) n = Some (int (card (remaining_preds ns adj (kh_order s) n))))
     \<and> (\<forall>n\<in>set ns. n \<in> set (kh_order s @ kh_ready s) \<longleftrightarrow> remaining_preds ns adj (kh_order s) n = {})
     \<and> topological (succs adj) (kh_order s)
     \<and> longest_levels adj (kh_order s) (kh_levels s)"

lemma release_all:
  assumes "distinct ds" "c \<notin> set ds"
  shows "kh_order (fold (release c) ds s) = kh_order s
    \<and> kh_levels (fold (release c) ds s) = (\<lambda>n. if n \<in> set ds then max (kh_levels s n) (kh_levels s c + 1) else kh_levels s n)
    \<and> map fst (kh_indegree (fold (release c) ds s)) = map fst (kh_indegree s)
    \<and> map_of (kh_indegree (fold (release c) ds s)) n
        = map_option (\<lambda>k. if n \<in> set ds then k - 1 else k) (map_of (kh_indegree s) n)
    \<and> kh_ready (fold (release c) ds s) = kh_ready s @ filter (\<lambda>d. map_of (kh_indegree s) d = Some 1) ds"
  using assms
proof (induction ds arbitrary: s)
  case (Cons d ds)
  let ?s = "release c d s"
  have first: "kh_order ?s = kh_order s" "kh_levels ?s = (kh_levels s)(d := max (kh_levels s d) (kh_levels s c + 1))"
    "kh_indegree ?s = add_at d (- 1) (kh_indegree s)"
    "kh_ready ?s = kh_ready s @ (if map_of (kh_indegree s) d = Some 1 then [d] else [])"
    by (auto simp: release_def Let_def)
  have same: "filter (\<lambda>x. map_of (kh_indegree ?s) x = Some 1) ds = filter (\<lambda>x. map_of (kh_indegree s) x = Some 1) ds"
    using Cons.prems(1) by (intro filter_cong) (auto simp: first(3))
  have rest: "distinct ds" "c \<notin> set ds" using Cons.prems by simp_all
  from Cons.IH [OF rest, of ?s] Cons.prems show ?case
    unfolding same by (cases "map_of (kh_indegree s) n") (auto simp: first fun_eq_iff)
qed (simp add: option.map_ident)

lemma card_one_iff: "x \<in> A \<Longrightarrow> card A = 1 \<longleftrightarrow> A - {x} = {}"
  by (auto simp: card_1_singleton_iff)

lemma kahn_step:
  assumes inv: "kahn_inv ns adj s" and ready: "kh_ready s = c # rest"
    and adj: "succs adj \<subseteq> set ns \<times> set ns"
  shows "kahn_inv ns adj (fold (release c) (sorted_set (adj c)) (s\<lparr>kh_ready := rest, kh_order := kh_order s @ [c]\<rparr>))"
    (is "kahn_inv ns adj ?s'")
proof -
  let ?order = "kh_order s" and ?L = "kh_levels s"
  have c: "c \<in> set ns" "c \<notin> set ?order" "c \<notin> set rest" and none: "remaining_preds ns adj ?order c = {}"
    using inv ready by (auto simp: kahn_inv_def)
  then have no_loop: "c \<notin> set (adj c)" by (auto simp: remaining_preds_def)
  have preds: "remaining_preds ns adj (?order @ [c]) n = remaining_preds ns adj ?order n - {c}" for n
    by (auto simp: remaining_preds_def)
  have member: "c \<in> remaining_preds ns adj ?order n \<longleftrightarrow> n \<in> set (adj c)" for n
    using c by (auto simp: remaining_preds_def)
  have fin: "finite (remaining_preds ns adj ?order n)" for n by (simp add: remaining_preds_def)
  have keys: "map fst (kh_indegree s) = ns" using inv by (simp add: kahn_inv_def)
  have s': "kh_order ?s' = ?order @ [c]"
    "kh_levels ?s' = (\<lambda>n. if n \<in> set (adj c) then max (?L n) (?L c + 1) else ?L n)"
    "map fst (kh_indegree ?s') = ns"
    "map_of (kh_indegree ?s') n = map_option (\<lambda>k. if n \<in> set (adj c) then k - 1 else k) (map_of (kh_indegree s) n)"
    "kh_ready ?s' = rest @ filter (\<lambda>d. map_of (kh_indegree s) d = Some 1) (sorted_set (adj c))" for n
    using release_all [of "sorted_set (adj c)" c "s\<lparr>kh_ready := rest, kh_order := ?order @ [c]\<rparr>" n] no_loop keys
    by (simp_all cong: if_cong)
  have degree: "map_of (kh_indegree s) n = Some (int (card (remaining_preds ns adj ?order n)))" if "n \<in> set ns" for n
    using inv that by (simp add: kahn_inv_def)
  have enabled: "n \<in> set ?order \<or> n = c \<or> n \<in> set rest \<longleftrightarrow> remaining_preds ns adj ?order n = {}" if "n \<in> set ns" for n
    using inv ready that by (auto simp: kahn_inv_def)
  have deps: "n \<in> set ns \<and> n \<notin> set ?order \<and> n \<notin> set rest \<and> n \<noteq> c" if "n \<in> set (adj c)" for n
  proof -
    from that adj have "n \<in> set ns" by (auto simp: succs_def)
    with enabled member [of n] that show ?thesis by blast
  qed
  have new: "map_of (kh_indegree s) n = Some 1 \<longleftrightarrow> remaining_preds ns adj (?order @ [c]) n = {}" if "n \<in> set (adj c)" for n
  proof -
    from that member have "c \<in> remaining_preds ns adj ?order n" by simp
    then have "card (remaining_preds ns adj ?order n) = 1 \<longleftrightarrow> remaining_preds ns adj ?order n - {c} = {}"
      by (rule card_one_iff)
    then show ?thesis using degree deps [OF that] by (simp add: preds)
  qed
  have "distinct (kh_order ?s' @ kh_ready ?s')" "set (kh_order ?s' @ kh_ready ?s') \<subseteq> set ns"
    using inv ready deps by (auto simp: s' kahn_inv_def)
  moreover have "map_of (kh_indegree ?s') n = Some (int (card (remaining_preds ns adj (kh_order ?s') n)))"
    if "n \<in> set ns" for n
  proof (cases "n \<in> set (adj c)")
    case True
    with member fin have "card (remaining_preds ns adj ?order n) = Suc (card (remaining_preds ns adj ?order n - {c}))"
      by (metis card.remove)
    then show ?thesis using True degree [OF that] unfolding s' preds by simp
  next
    case False
    with member show ?thesis using degree [OF that] unfolding s' preds by simp
  qed
  moreover have "n \<in> set (kh_order ?s' @ kh_ready ?s') \<longleftrightarrow> remaining_preds ns adj (kh_order ?s') n = {}"
    if "n \<in> set ns" for n
  proof (cases "n \<in> set (adj c)")
    case True
    with new [OF True] deps [OF True] show ?thesis unfolding s' by auto
  next
    case False
    then have "remaining_preds ns adj (?order @ [c]) n = remaining_preds ns adj ?order n"
      using member unfolding preds by blast
    with False enabled [OF that] show ?thesis unfolding s' by auto
  qed
  moreover have "topological (succs adj) (kh_order ?s')"
  proof -
    have "p \<in> set ?order" if "c \<in> set (adj p)" for p
      using that none adj by (auto simp: remaining_preds_def succs_def)
    then show ?thesis using inv c unfolding s' topological_snoc by (auto simp: kahn_inv_def)
  qed
  moreover have "longest_levels adj (kh_order ?s') (kh_levels ?s')"
    unfolding longest_levels_def
  proof
    fix n
    let ?A = "{p \<in> set ?order. n \<in> set (adj p)}"
    have same: "kh_levels ?s' p = ?L p" if "p \<in> set ?order \<or> p = c" for p
      using that deps [of p] no_loop unfolding s' by auto
    have set: "{p \<in> set (kh_order ?s'). n \<in> set (adj p)} = (if n \<in> set (adj c) then insert c ?A else ?A)"
      unfolding s' by auto
    have img: "(\<lambda>p. kh_levels ?s' p + 1) ` ?A = (\<lambda>p. ?L p + 1) ` ?A" by (rule image_cong) (use same in auto)
    have "?L n = Max (insert 0 ((\<lambda>p. ?L p + 1) ` ?A))" using inv unfolding kahn_inv_def longest_levels_def by blast
    moreover have "(\<lambda>p. kh_levels ?s' p + 1) ` {p \<in> set (kh_order ?s'). n \<in> set (adj p)}
        = (if n \<in> set (adj c) then insert (?L c + 1) ((\<lambda>p. ?L p + 1) ` ?A) else (\<lambda>p. ?L p + 1) ` ?A)"
      unfolding set by (simp only: image_insert img same [of c] if_distrib [of "image _"] if_cancel simp_thms)
    moreover have "kh_levels ?s' n = (if n \<in> set (adj c) then max (?L n) (?L c + 1) else ?L n)" by (simp only: s'(2))
    ultimately show "kh_levels ?s' n = Max (insert 0 ((\<lambda>p. kh_levels ?s' p + 1) ` {p \<in> set (kh_order ?s'). n \<in> set (adj p)}))"
      by (cases "n \<in> set (adj c)") (simp_all only: if_True if_False insert_commute [of 0] Max_insert finite_insert
          finite_imageI finite_set finite_Collect_conjI List.finite_set max.commute insert_not_empty simp_thms, simp_all)
  qed
  ultimately show ?thesis using s'(3) by (simp add: kahn_inv_def)
qed

lemma kahn_loop_inv:
  assumes "kahn_inv ns adj s" "succs adj \<subseteq> set ns \<times> set ns"
  shows "kahn_inv ns adj (kahn_loop adj s) \<and> kh_ready (kahn_loop adj s) = []"
  using assms
proof (induction adj s rule: kahn_loop.induct)
  case (1 adj s)
  show ?case
  proof (cases "kh_ready s")
    case Nil
    with 1 show ?thesis by (simp add: kahn_loop.simps [of adj s])
  next
    case (Cons c rest)
    from 1(1) [OF Cons kahn_step [OF 1(2) Cons 1(3)] 1(3)] Cons show ?thesis
      by (simp add: kahn_loop.simps [of adj s])
  qed
qed

lemma new_kahn_inv:
  assumes "adj_inv ns adj indegree" "distinct ns"
  shows "kahn_inv ns adj (new_kahn indegree)"
proof -
  have keys: "map fst indegree = ns" and no_loops: "\<And>n. n \<notin> set (adj n)" and sub: "succs adj \<subseteq> set ns \<times> set ns"
    and degree: "\<And>n. n \<in> set ns \<Longrightarrow> map_of indegree n = Some (int (card (remaining_preds ns adj [] n)))"
    using assms(1) by (auto simp: adj_inv_def remaining_preds_def)
  have ready: "set (kh_ready (new_kahn indegree)) = {n \<in> set ns. map_of indegree n = Some 0}"
    using assms(2) unfolding keys [symmetric] by (force simp: new_kahn_def)
  have "finite (remaining_preds ns adj [] n)" for n by (simp add: remaining_preds_def)
  then have "n \<in> set (kh_ready (new_kahn indegree)) \<longleftrightarrow> remaining_preds ns adj [] n = {}" if "n \<in> set ns" for n
    using that degree [OF that] by (simp add: ready)
  moreover have "distinct (map fst (filter (\<lambda>(k, n). n = 0) indegree))"
    using assms(2) keys by (metis distinct_map_filter)
  ultimately show ?thesis
    using degree keys ready by (simp add: kahn_inv_def new_kahn_def longest_levels_def)
qed

text \<open>The loop consumes every node, or every node that is left has a predecessor that is left.\<close>

lemma kahn_result:
  assumes "adj_inv ns adj indegree" "distinct ns" "s = kahn_loop adj (new_kahn indegree)"
  shows "topological (succs adj) (kh_order s) \<and> set (kh_order s) \<subseteq> set ns
    \<and> (\<forall>n\<in>set ns - set (kh_order s). \<exists>p\<in>set ns - set (kh_order s). n \<in> set (adj p))
    \<and> longest_levels adj (kh_order s) (kh_levels s)"
proof -
  have sub: "succs adj \<subseteq> set ns \<times> set ns" using assms(1) by (simp add: adj_inv_def)
  from kahn_loop_inv [OF new_kahn_inv [OF assms(1,2)] sub] have "kahn_inv ns adj s" "kh_ready s = []"
    by (simp_all add: assms(3))
  then show ?thesis unfolding kahn_inv_def remaining_preds_def by (simp only: append_Nil2) blast
qed

subsection \<open>What the layering means\<close>

text \<open>A chain is a path through the graph, given by its nodes.\<close>

definition chain_to :: "('n \<times> 'n) set \<Rightarrow> 'n \<Rightarrow> 'n list \<Rightarrow> bool" where
  "chain_to E n xs \<longleftrightarrow> xs \<noteq> [] \<and> last xs = n \<and> successively (\<lambda>x y. (x, y) \<in> E) xs"

lemma chain_to_single [simp]: "chain_to E n [n]"
  by (simp add: chain_to_def)

lemma chain_to_snoc: "chain_to E n (xs @ [m]) \<longleftrightarrow> m = n \<and> (xs = [] \<or> chain_to E (last xs) xs \<and> (last xs, n) \<in> E)"
  by (auto simp: chain_to_def successively_append_iff)

lemma level_longest_chain:
  fixes levels :: "'n \<Rightarrow> int"
  assumes "E \<subseteq> S \<times> S" "finite S"
    and level: "\<And>n. levels n = Max (insert 0 ((\<lambda>p. levels p + 1) ` {p \<in> S. (p, n) \<in> E}))"
  shows "\<exists>xs. chain_to E n xs \<and> int (length xs) = levels n + 1"
    and "chain_to E n xs \<Longrightarrow> int (length xs) \<le> levels n + 1"
proof -
  have fin: "finite (insert 0 ((\<lambda>p. levels p + 1) ` {p \<in> S. (p, n) \<in> E}))" for n using assms(2) by simp
  have nonneg: "0 \<le> levels n" for n using Max_ge [OF fin, of 0 n] by (simp add: level [of n])
  have step: "levels p + 1 \<le> levels n" if "(p, n) \<in> E" for p n
    using Max_ge [OF fin, of "levels p + 1" n] that assms(1) by (subst level [of n]) blast
  have "\<exists>xs. chain_to E n xs \<and> length xs = k + 1" if "levels n = int k" for k n
    using that
  proof (induction k arbitrary: n)
    case 0
    show ?case by (rule exI [of _ "[n]"]) simp
  next
    case (Suc k)
    have "levels n \<in> insert 0 ((\<lambda>p. levels p + 1) ` {p \<in> S. (p, n) \<in> E})"
      using Max_in [OF fin] by (subst level [of n]) blast
    with Suc.prems obtain p where p: "(p, n) \<in> E" "levels p = int k" by auto
    from Suc.IH [OF p(2)] obtain xs where xs: "chain_to E p xs" "length xs = k + 1" by blast
    then have "last xs = p" by (simp add: chain_to_def)
    with xs p show ?case by (intro exI [of _ "xs @ [n]"]) (simp add: chain_to_snoc)
  qed
  from this [of n "nat (levels n)"] nonneg [of n]
  show "\<exists>xs. chain_to E n xs \<and> int (length xs) = levels n + 1" by auto
  show "int (length xs) \<le> levels n + 1" if "chain_to E n xs" for n xs
    using that
  proof (induction xs arbitrary: n rule: rev_induct)
    case (snoc m xs)
    show ?case
    proof (cases "xs = []")
      case False
      with snoc.prems have "chain_to E (last xs) xs" "(last xs, n) \<in> E" by (simp_all add: chain_to_snoc)
      from snoc.IH [OF this(1)] step [OF this(2)] show ?thesis by simp
    qed (use nonneg in simp)
  qed (simp add: chain_to_def)
qed

lemma topological_acyclic:
  assumes "topological E order" "E \<subseteq> set order \<times> set order"
  shows "acyclic E"
proof -
  have "length (takeWhile (\<lambda>x. x \<noteq> p) order) < length (takeWhile (\<lambda>x. x \<noteq> n) order)" if "(p, n) \<in> E" for p n
  proof -
    from that assms(2) have "n \<in> set order" by blast
    then obtain xs ys where order: "order = xs @ n # ys" "n \<notin> set xs" by (meson split_list_first)
    with assms(1) that have "p \<in> set xs" by (auto simp: topological_def)
    then obtain us vs where xs: "xs = us @ p # vs" "p \<notin> set us" by (meson split_list_first)
    have "takeWhile (\<lambda>x. x \<noteq> n) order = xs" "takeWhile (\<lambda>x. x \<noteq> p) order = us"
      using order xs by (auto simp: takeWhile_append)
    then show ?thesis using xs(1) by simp
  qed
  then show ?thesis
    by (intro acyclicI_order [where f = "\<lambda>n. - int (length (takeWhile (\<lambda>x. x \<noteq> n) order))"]) simp
qed

text \<open>The descendants of a node are the nodes reachable from it by a path of at least one edge.\<close>

lemma fold_descendants:
  assumes "n \<notin> set ds"
  shows "fold (\<lambda>d sets. sets(n := insert d (sets n) \<union> sets d)) ds sets
    = sets(n := sets n \<union> set ds \<union> (\<Union>d\<in>set ds. sets d))"
  using assms
proof (induction ds arbitrary: sets)
  case (Cons d ds)
  have "(\<Union>x\<in>set ds. (sets(n := insert d (sets n) \<union> sets d)) x) = (\<Union>x\<in>set ds. sets x)"
    using Cons.prems by (intro SUP_cong) auto
  with Cons show ?case by (auto simp: fun_eq_iff)
qed simp

lemma trancl_successors: "E\<^sup>+ `` {n} = E `` {n} \<union> (\<Union>d\<in>E `` {n}. E\<^sup>+ `` {d})"
  by (auto intro: trancl_into_trancl2 elim: converse_tranclE)

lemma topological_append: "topological E (xs @ ys) \<Longrightarrow> topological E xs"
  by (induction ys rule: rev_induct) (simp_all add: topological_snoc flip: append_assoc)

lemma descendant_sets_suffix:
  assumes "topological (succs adj) (xs @ ys)" "succs adj \<subseteq> set (xs @ ys) \<times> set (xs @ ys)"
    and "sets = fold (add_descendants adj) (rev ys) (\<lambda>_. {})"
  shows "sets n = (if n \<in> set ys then (succs adj)\<^sup>+ `` {n} else {})"
  using assms
proof (induction ys arbitrary: xs sets n)
  case (Cons y ys)
  obtain S where S: "S = fold (add_descendants adj) (rev ys) (\<lambda>_. {})" by blast
  have top: "topological (succs adj) ((xs @ [y]) @ ys)" and sub: "succs adj \<subseteq> set ((xs @ [y]) @ ys) \<times> set ((xs @ [y]) @ ys)"
    using Cons.prems by simp_all
  note IH = Cons.IH [OF top sub S]
  from topological_append [OF top] have y: "y \<notin> set xs" "y \<notin> set ys" "\<And>p. y \<in> set (adj p) \<Longrightarrow> p \<in> set xs"
    using top by (auto simp: topological_snoc) (auto simp: topological_def)
  have late: "d \<in> set ys" if "d \<in> set (adj y)" for d
  proof (rule ccontr)
    assume "d \<notin> set ys"
    moreover have "d \<in> set (xs @ y # ys)" using that Cons.prems(2) by (auto simp: succs_def)
    moreover have "d \<noteq> y" using that y by blast
    ultimately have "d \<in> set xs" by simp
    then obtain us vs where "xs = us @ d # vs" by (meson split_list)
    with topologicalD [of "succs adj" us d "vs @ y # ys" y] Cons.prems(1) that have "y \<in> set us" by simp
    with y(1) \<open>xs = us @ d # vs\<close> show False by simp
  qed
  have step: "sets = add_descendants adj y S" by (simp add: Cons.prems(3) S)
  have sets: "sets = S(y := S y \<union> set (adj y) \<union> (\<Union>d\<in>set (adj y). S d))"
    using fold_descendants [of y "adj y" S] late y(2) by (auto simp: step add_descendants_def)
  have "(\<Union>d\<in>set (adj y). S d) = (\<Union>d\<in>succs adj `` {y}. (succs adj)\<^sup>+ `` {d})"
    using IH late by (intro SUP_cong) (simp_all add: succs_def)
  then have "S y \<union> set (adj y) \<union> (\<Union>d\<in>set (adj y). S d) = (succs adj)\<^sup>+ `` {y}"
    using IH [of y] y(2) by (subst trancl_successors) (simp add: succs_def)
  then show ?case using IH unfolding sets by auto
qed simp

lemma descendant_sets_reach:
  assumes "topological (succs adj) order" "succs adj \<subseteq> set order \<times> set order" "n \<in> set order"
  shows "descendant_sets adj order n = (succs adj)\<^sup>+ `` {n}"
  using descendant_sets_suffix [of adj "[]" order _ n] assms by (simp add: descendant_sets_def)

subsection \<open>The cycle search\<close>

definition closed_walk :: "('n \<times> 'n) set \<Rightarrow> 'n list \<Rightarrow> bool" where
  "closed_walk E xs \<longleftrightarrow> 2 \<le> length xs \<and> hd xs = last xs \<and> distinct (butlast xs) \<and> successively (\<lambda>x y. (x, y) \<in> E) xs"

lemma closed_walk_cycle:
  assumes "closed_walk E xs"
  shows "(hd xs, hd xs) \<in> E\<^sup>+"
proof -
  have "(hd ys, last ys) \<in> E\<^sup>+" if "2 \<le> length ys" "successively (\<lambda>x y. (x, y) \<in> E) ys" for ys
    using that
  proof (induction ys rule: induct_list012)
    case (3 x y zs)
    then have "(x, y) \<in> E" "successively (\<lambda>x y. (x, y) \<in> E) (y # zs)" by simp_all
    then have "zs \<noteq> [] \<Longrightarrow> (hd (y # zs), last (y # zs)) \<in> E\<^sup>+" by (intro "3.IH"(2)) (cases zs, simp_all)
    with \<open>(x, y) \<in> E\<close> show ?case by (cases "zs = []") (simp_all add: trancl_into_trancl2)
  qed simp_all
  from this [of xs] assms show ?thesis by (simp add: closed_walk_def)
qed

text \<open>
  The nodes that are done, in the order in which they were finished: every successor of a node comes
  before it.
\<close>

definition finished_order :: "adjacency \<Rightarrow> kp_id set \<Rightarrow> kp_id list \<Rightarrow> bool" where
  "finished_order adj cands order \<longleftrightarrow> topological {(d, n). d \<in> set (adj n) \<inter> cands} order"

lemma finished_order_snoc:
  "finished_order adj cands (order @ [n]) \<longleftrightarrow>
     finished_order adj cands order \<and> n \<notin> set order \<and> set (adj n) \<inter> cands \<subseteq> set order"
  unfolding finished_order_def topological_snoc by blast

definition dfs_inv :: "adjacency \<Rightarrow> kp_id set \<Rightarrow> kp_id list \<Rightarrow> dfs_state \<Rightarrow> bool" where
  "dfs_inv adj cands done_nodes s \<longleftrightarrow>
     finished_order adj cands done_nodes
     \<and> ds_state s = (\<lambda>n. if n \<in> set (ds_stack s) then Some 1 else if n \<in> set done_nodes then Some 2 else None)
     \<and> distinct (ds_stack s) \<and> set (ds_stack s) \<inter> set done_nodes = {}
     \<and> set (ds_stack s) \<union> set done_nodes \<subseteq> cands
     \<and> successively (\<lambda>x y. y \<in> set (adj x)) (ds_stack s)"

definition search_outcome ::
  "adjacency \<Rightarrow> kp_id set \<Rightarrow> kp_id list \<Rightarrow> kp_id list \<Rightarrow> kp_id set \<Rightarrow> (kp_id list option \<times> dfs_state) option \<Rightarrow> bool" where
  "search_outcome adj cands before stack reached r \<longleftrightarrow>
     (\<exists>c s'. r = Some (Some c, s') \<and> closed_walk (succs adj) c \<and> set c \<subseteq> cands)
     \<or> (\<exists>s' after. r = Some (None, s') \<and> dfs_inv adj cands (before @ after) s' \<and> ds_stack s' = stack \<and> reached \<subseteq> set after)"

lemma search_outcome_later:
  assumes "search_outcome adj cands (before @ after) stack reached r" "reached' \<subseteq> reached \<union> set after"
  shows "search_outcome adj cands before stack reached' r"
  using assms(1) unfolding search_outcome_def
proof (elim disjE exE conjE)
  fix s' later
  assume "r = Some (None, s')" "dfs_inv adj cands ((before @ after) @ later) s'" "ds_stack s' = stack" "reached \<subseteq> set later"
  moreover from this(4) assms(2) have "reached' \<subseteq> set (after @ later)" by auto
  ultimately have "\<exists>s' after. r = Some (None, s') \<and> dfs_inv adj cands (before @ after) s' \<and> ds_stack s' = stack \<and> reached' \<subseteq> set after"
    unfolding append_assoc by blast
  then show "(\<exists>c s'. r = Some (Some c, s') \<and> closed_walk (succs adj) c \<and> set c \<subseteq> cands)
     \<or> (\<exists>s' after. r = Some (None, s') \<and> dfs_inv adj cands (before @ after) s' \<and> ds_stack s' = stack \<and> reached' \<subseteq> set after)" ..
qed blast

lemma stack_cycle:
  assumes "dfs_inv adj cands D s" "d \<in> set (ds_stack s)" "d \<in> set (adj (last (ds_stack s)))"
  shows "closed_walk (succs adj) (dropWhile (\<lambda>k. k \<noteq> d) (ds_stack s) @ [d])
    \<and> set (dropWhile (\<lambda>k. k \<noteq> d) (ds_stack s) @ [d]) \<subseteq> cands"
proof -
  from assms(2) obtain us vs where st: "ds_stack s = us @ d # vs" "d \<notin> set us" by (meson split_list_first)
  then have cyc: "dropWhile (\<lambda>k. k \<noteq> d) (ds_stack s) = d # vs" by (auto simp: dropWhile_append)
  have "distinct (d # vs)" "set (d # vs) \<subseteq> cands" "successively (\<lambda>x y. y \<in> set (adj x)) (d # vs)"
    using assms(1) st by (auto simp: dfs_inv_def successively_append_iff)
  moreover have "last (ds_stack s) = last (d # vs)" using st by simp
  ultimately show ?thesis using assms(3) successively_append_iff [of "\<lambda>x y. y \<in> set (adj x)" "d # vs" "[d]"]
    unfolding closed_walk_def cyc by simp
qed

lemma push_inv:
  assumes "dfs_inv adj cands D s" "ds_state s n = None" "n \<in> cands" "ds_stack s = [] \<or> n \<in> set (adj (last (ds_stack s)))"
  shows "dfs_inv adj cands D (s\<lparr>ds_state := (ds_state s)(n \<mapsto> 1), ds_stack := ds_stack s @ [n]\<rparr>)"
  using assms unfolding dfs_inv_def
  by (auto simp: fun_eq_iff successively_append_iff split: if_splits)

lemma pop_inv:
  assumes inv: "dfs_inv adj cands D s" and st: "ds_stack s = st @ [n]" and "set (adj n) \<inter> cands \<subseteq> set D"
  shows "dfs_inv adj cands (D @ [n]) (s\<lparr>ds_stack := butlast (ds_stack s), ds_state := (ds_state s)(n \<mapsto> 2)\<rparr>)"
  using assms unfolding dfs_inv_def finished_order_snoc
  by (auto simp: fun_eq_iff successively_append_iff)

lemma dfs_state_cases:
  assumes "dfs_inv adj cands D s"
  shows "ds_state s d = None \<longleftrightarrow> d \<notin> set (ds_stack s) \<and> d \<notin> set D"
    and "ds_state s d = Some m \<Longrightarrow> m = 1 \<and> d \<in> set (ds_stack s) \<or> m \<noteq> 1 \<and> d \<in> set D"
  using assms by (auto simp: dfs_inv_def split: if_splits)

lemma visit_correct:
  "\<lbrakk> dfs_inv adj cands D s; ds_state s n = None; n \<in> cands; ds_stack s = [] \<or> n \<in> set (adj (last (ds_stack s)));
     finite cands; card cands \<le> fuel + length (ds_stack s) \<rbrakk>
   \<Longrightarrow> search_outcome adj cands D (ds_stack s) {n} (visit adj cands fuel n s)"
  "\<lbrakk> dfs_inv adj cands D s; ds_stack s = st @ [n]; set ds \<subseteq> set (adj n); set (adj n) \<inter> cands \<subseteq> set ds \<union> set D;
     finite cands; card cands \<le> fuel + length (ds_stack s) \<rbrakk>
   \<Longrightarrow> search_outcome adj cands D st {n} (visit_dependents adj cands fuel n ds s)"
proof (induction adj cands fuel n s and adj cands fuel n ds s arbitrary: D and D st rule: visit_visit_dependents.induct)
  case (1 adj cands n s)
  have "set (ds_stack s) \<subseteq> cands - {n}" "distinct (ds_stack s)"
    using 1(1-3) dfs_state_cases(1) [OF 1(1), of n] by (auto simp: dfs_inv_def)
  then have "length (ds_stack s) \<le> card (cands - {n})"
    using card_mono [of "cands - {n}" "set (ds_stack s)"] 1(5) by (simp add: distinct_card)
  also have "\<dots> < card cands" using 1(3,5) by (rule card_Diff1_less [rotated])
  finally show ?case using 1(6) by simp
next
  case (2 adj cands fuel n s)
  show ?case
    using "2.IH" [OF push_inv [OF 2(2-5)], of "ds_stack s"] 2(6,7) by auto
next
  case (3 adj cands fuel n s)
  from pop_inv [OF 3(1,2)] 3(2,4) show ?case by (auto simp: search_outcome_def)
next
  case (4 adj cands fuel n d ds s)
  note inv = "4.prems"(1) and stack = "4.prems"(2) and fin = "4.prems"(5,6)
  have dep: "set ds \<subseteq> set (adj n)" "d \<in> set (adj n)" using "4.prems"(3) by simp_all
  consider (outside) "d \<notin> cands" | (fresh) "d \<in> cands" "ds_state s d = None"
    | (active) "d \<in> cands" "ds_state s d = Some 1" "d \<in> set (ds_stack s)"
    | (finished) m where "d \<in> cands" "ds_state s d = Some m" "m \<noteq> 1" "d \<in> set D"
    using dfs_state_cases [OF inv, of d] by (cases "ds_state s d") auto
  then show ?case
  proof cases
    case outside
    from "4.IH"(1) [OF this inv stack dep(1) _ fin] "4.prems"(4) outside show ?thesis by auto
  next
    case fresh
    have "ds_stack s = [] \<or> d \<in> set (adj (last (ds_stack s)))" using stack dep(2) by simp
    from "4.IH"(2) [OF _ fresh(2) inv fresh(2,1) this fin] fresh(1)
    have first: "search_outcome adj cands D (ds_stack s) {d} (visit adj cands fuel d s)" by simp
    then consider (cycle) c s' where "visit adj cands fuel d s = Some (Some c, s')" "closed_walk (succs adj) c" "set c \<subseteq> cands"
      | (through) s' after where "visit adj cands fuel d s = Some (None, s')" "dfs_inv adj cands (D @ after) s'"
        "ds_stack s' = ds_stack s" "d \<in> set after"
      by (auto simp: search_outcome_def)
    then show ?thesis
    proof cases
      case cycle
      with fresh show ?thesis by (simp add: search_outcome_def)
    next
      case through
      have "set (adj n) \<inter> cands \<subseteq> set ds \<union> set (D @ after)" using "4.prems"(4) through(4) by auto
      moreover have "ds_stack s' = st @ [n]" "card cands \<le> fuel + length (ds_stack s')" using through(3) stack fin by simp_all
      ultimately have "search_outcome adj cands (D @ after) st {n} (visit_dependents adj cands fuel n ds s')"
        using "4.IH"(3) [OF _ fresh(2) through(1) refl refl through(2) _ dep(1) _ fin(1)] fresh(1) by simp
      with through(1) fresh show ?thesis by (fastforce simp: search_outcome_def)
    qed
  next
    case active
    with stack_cycle [OF inv active(3)] stack dep(2) show ?thesis by (simp add: search_outcome_def)
  next
    case finished
    have "set (adj n) \<inter> cands \<subseteq> set ds \<union> set D" using "4.prems"(4) finished(4) by auto
    from "4.IH"(4) [OF _ finished(2,3) inv stack dep(1) this fin] finished show ?thesis by simp
  qed
qed

lemma visit_roots_correct:
  assumes "dfs_inv adj cands D s" "ds_stack s = []" "set ns \<subseteq> cands" "finite cands" "card cands \<le> fuel"
  shows "search_outcome adj cands D [] (set ns - set D) (visit_roots adj cands fuel ns s)"
  using assms(1-3)
proof (induction ns arbitrary: D s)
  case Nil
  then show ?case by (auto simp: search_outcome_def intro: exI [of _ "[]"])
next
  case (Cons n ns)
  show ?case
  proof (cases "ds_state s n")
    case None
    have fuel: "card cands \<le> fuel + length (ds_stack s)" using assms(5) by simp
    have "search_outcome adj cands D (ds_stack s) {n} (visit adj cands fuel n s)"
      by (rule visit_correct(1) [OF Cons.prems(1) None _ _ assms(4) fuel]) (use Cons.prems in simp_all)
    then consider (cycle) c s' where "visit adj cands fuel n s = Some (Some c, s')" "closed_walk (succs adj) c" "set c \<subseteq> cands"
      | (through) s' after where "visit adj cands fuel n s = Some (None, s')" "dfs_inv adj cands (D @ after) s'"
        "ds_stack s' = []" "n \<in> set after"
      using Cons.prems(2) by (auto simp: search_outcome_def)
    then show ?thesis
    proof cases
      case cycle
      with None show ?thesis by (simp add: search_outcome_def)
    next
      case through
      have "set ns \<subseteq> cands" using Cons.prems(3) by simp
      moreover have "set (n # ns) - set D \<subseteq> (set ns - set (D @ after)) \<union> set after" using through(4) by auto
      ultimately show ?thesis
        using search_outcome_later [OF Cons.IH [OF through(2,3)]] through(1) None by simp
    qed
  next
    case (Some m)
    then have "n \<in> set D" using dfs_state_cases(2) [OF Cons.prems(1) Some] Cons.prems(2) by auto
    with Cons.IH [OF Cons.prems(1,2)] Cons.prems(3) Some show ?thesis by (simp add: insert_absorb insert_Diff_if)
  qed
qed

lemma find_cycle_correct:
  assumes "candidates \<noteq> []" and pred: "\<And>n. n \<in> set candidates \<Longrightarrow> \<exists>p\<in>set candidates. n \<in> set (adj p)"
  shows "\<exists>c. find_cycle adj candidates = Some c \<and> closed_walk (succs adj) c \<and> set c \<subseteq> set candidates"
proof -
  let ?s = "\<lparr>ds_state = Map.empty, ds_stack = []\<rparr>" and ?cands = "set candidates"
  let ?run = "visit_roots adj ?cands (Suc (length candidates)) (sorted_set candidates) ?s"
  have "search_outcome adj ?cands [] [] (?cands - set []) ?run"
    using visit_roots_correct [of adj ?cands "[]" ?s "sorted_set candidates" "Suc (length candidates)"] card_length [of candidates]
    by (simp add: dfs_inv_def finished_order_def le_SucI)
  then consider (cycle) c s' where "?run = Some (Some c, s')" "closed_walk (succs adj) c" "set c \<subseteq> ?cands"
    | (none) s' after where "dfs_inv adj ?cands after s'" "?cands \<subseteq> set after"
    by (auto simp: search_outcome_def)
  then show ?thesis
  proof cases
    case cycle
    then show ?thesis by (simp add: find_cycle_def)
  next
    case none
    have order: "topological {(d, n). d \<in> set (adj n) \<inter> ?cands} after" "set after = ?cands"
      using none by (auto simp: dfs_inv_def finished_order_def)
    with assms(1) have "after \<noteq> []" by auto
    then have "last after \<in> ?cands" using order(2) last_in_set by blast
    with pred obtain q where q: "q \<in> ?cands" "last after \<in> set (adj q)" by blast
    with order(2) obtain us vs where after: "after = us @ q # vs" by (metis split_list)
    have "last after \<in> set us"
      by (rule topologicalD [OF order(1) [unfolded after]]) (use q \<open>last after \<in> ?cands\<close> after in simp)
    moreover have "distinct after" using order(1) by (simp add: topological_def)
    moreover have "last after = last (q # vs)" by (simp add: after)
    ultimately show ?thesis using last_in_set [of "q # vs"] by (auto simp: after)
  qed
qed

subsection \<open>The analysis\<close>

lemma add_edges_start: "adj_inv ns (\<lambda>_. []) (map (\<lambda>n. (n, 0)) ns)"
proof -
  have "map_of (map (\<lambda>n. (n, 0 :: int)) ns) n = Some 0" if "n \<in> set ns" for n
    using that by (induction ns) auto
  then show ?thesis by (auto simp: adj_inv_def succs_def o_def)
qed

lemma weight_unit:
  assumes "\<And>m. m \<in> set ns \<Longrightarrow> 0 \<le> counts m" "\<And>m. m \<in> set ns \<Longrightarrow> 0 \<le> levels m" "n \<in> set ns"
  shows "0 \<le> node_weight ns levels counts n \<and> node_weight ns levels counts n \<le> 1"
proof (cases "length ns = 1")
  case False
  let ?influence = "fdiv (of_int (counts n)) (of_int (max 1 (int (length ns) - 1)))"
  let ?depth = "fdiv (of_int (levels n)) (of_int (max 1 (max_level ns levels)))"
  have "0 \<le> ?influence" "0 \<le> ?depth"
    using assms by (auto simp: fdiv_def intro!: fl_nonneg divide_nonneg_nonneg)
  then have "0 \<le> fadd (fmul (fl (55/100)) ?influence) (fmul (fl (45/100)) ?depth)"
    by (auto simp: fadd_def fmul_def intro!: fl_nonneg add_nonneg_nonneg mult_nonneg_nonneg)
  then have "0 \<le> min 1 (fadd (fmul (fl (55/100)) ?influence) (fmul (fl (45/100)) ?depth))" by simp
  from py_round_unit [OF this, of 6] False show ?thesis by (simp add: node_weight_def)
qed (simp add: node_weight_def)

lemma analyze_topology_cases:
  fixes node_ids edges
  defines "S \<equiv> set node_ids" and "E \<equiv> edge_rel edges"
  shows "(\<exists>m. analyze_topology node_ids edges = Inr m \<and> E \<subseteq> S \<times> S \<and> topological E (tm_topological_order m)
        \<and> set (tm_topological_order m) = S
        \<and> (\<forall>n. tm_levels m n = Max (insert 0 ((\<lambda>p. tm_levels m p + 1) ` {p \<in> S. (p, n) \<in> E})))
        \<and> (\<forall>n\<in>S. tm_descendant_counts m n = int (card (E\<^sup>+ `` {n})))
        \<and> (\<forall>n\<in>S. 0 \<le> tm_weights m n \<and> tm_weights m n \<le> 1))
    \<or> (\<exists>c. analyze_topology node_ids edges = Inl (Topology_cycle c) \<and> closed_walk E c)
    \<or> analyze_topology node_ids edges = Inl Topology_value_error \<and> \<not> E \<subseteq> S \<times> S"
proof -
  let ?ns = "remdups node_ids"
  let ?run = "add_edges (set ?ns) edges (\<lambda>_. []) (map (\<lambda>n. (n, 0)) ?ns)"
  have S: "set ?ns = S" by (simp add: S_def)
  show ?thesis
  proof (cases ?run)
    case (Inl e)
    from add_edges_error [OF this] have "e = Topology_value_error \<and> \<not> E \<subseteq> S \<times> S
        \<or> (\<exists>n. e = Topology_cycle [n, n] \<and> closed_walk E [n, n])"
      by (auto simp: S_def E_def closed_walk_def)
    moreover have "analyze_topology node_ids edges = Inl e" using Inl by (simp add: analyze_topology_def)
    ultimately show ?thesis by auto
  next
    case (Inr r)
    obtain adj I where r: "r = (adj, I)" by force
    from add_edges_adj [OF Inr [unfolded r] add_edges_start]
    have inv: "adj_inv ?ns adj I" and E: "succs adj = E" and sub: "E \<subseteq> S \<times> S"
      by (auto simp: E_def succs_def S_def)
    let ?s = "kahn_loop adj (new_kahn I)"
    note K = kahn_result [OF inv distinct_remdups refl]
    have order: "topological E (kh_order ?s)" "set (kh_order ?s) \<subseteq> S" "distinct (kh_order ?s)"
      using K by (simp_all add: E S_def topological_def)
    show ?thesis
    proof (cases "length (kh_order ?s) = length ?ns")
      case True
      then have all: "set (kh_order ?s) = S"
        using order(2,3) card_subset_eq [of S "set (kh_order ?s)"] by (simp add: S_def distinct_card length_remdups_card_conv)
      have levels: "kh_levels ?s n = Max (insert 0 ((\<lambda>p. kh_levels ?s p + 1) ` {p \<in> S. (p, n) \<in> E}))" for n
        using K unfolding longest_levels_def all in_succs [symmetric] E by blast
      have pos: "0 \<le> kh_levels ?s n" for n
        by (subst levels) (simp add: S_def)
      have "descendant_sets adj (kh_order ?s) n = E\<^sup>+ `` {n}" if "n \<in> S" for n
        using descendant_sets_reach [of adj "kh_order ?s" n] order sub that by (simp add: E all)
      then have counts: "int (card (descendant_sets adj (kh_order ?s) n)) = int (card (E\<^sup>+ `` {n}))" if "n \<in> S" for n
        using that by simp
      let ?counts = "\<lambda>n. int (card (descendant_sets adj (kh_order ?s) n))"
      define m where "m = \<lparr>tm_topological_order = kh_order ?s, tm_levels = kh_levels ?s,
        tm_weights = node_weight ?ns (kh_levels ?s) ?counts, tm_descendant_counts = ?counts\<rparr>"
      have m: "analyze_topology node_ids edges = Inr m" "tm_topological_order m = kh_order ?s"
        "tm_levels m = kh_levels ?s" "tm_descendant_counts m = ?counts"
        "tm_weights m = node_weight ?ns (kh_levels ?s) ?counts"
        using True Inr by (simp_all add: analyze_topology_def r Let_def m_def)
      have "0 \<le> tm_weights m n \<and> tm_weights m n \<le> 1" if "n \<in> S" for n
        unfolding m(5) by (rule weight_unit) (use pos that in \<open>simp_all add: S_def\<close>)
      then have "\<forall>n\<in>S. 0 \<le> tm_weights m n \<and> tm_weights m n \<le> 1" by blast
      moreover have "\<forall>n\<in>S. tm_descendant_counts m n = int (card (E\<^sup>+ `` {n}))" unfolding m(4) using counts by blast
      moreover have "\<forall>n. tm_levels m n = Max (insert 0 ((\<lambda>p. tm_levels m p + 1) ` {p \<in> S. (p, n) \<in> E}))"
        unfolding m(3) using levels by blast
      ultimately show ?thesis using m(1) order(1) sub all unfolding m(2) [symmetric] by blast
    next
      case False
      let ?rest = "filter (\<lambda>n. n \<notin> set (kh_order ?s)) ?ns"
      have rest: "set ?rest = set ?ns - set (kh_order ?s)" by auto
      have "?rest \<noteq> []"
      proof
        assume "?rest = []"
        then have "set (kh_order ?s) = set ?ns" using order(2) S by (auto simp: filter_empty_conv)
        with order(3) have "length (kh_order ?s) = length ?ns" by (metis distinct_card distinct_remdups)
        with False show False by simp
      qed
      moreover have "\<exists>p\<in>set ?rest. n \<in> set (adj p)" if "n \<in> set ?rest" for n
        using K that unfolding rest by blast
      ultimately obtain c where "find_cycle adj ?rest = Some c" "closed_walk E c"
        using find_cycle_correct [of ?rest adj] E by blast
      then show ?thesis using False Inr by (simp add: analyze_topology_def r Let_def)
    qed
  qed
qed

text \<open>
  C35.  The layering of a course.  When the analysis returns, its order lists every knowledge point
  once, each after all its prerequisites; the level of a point is the number of edges of the longest
  chain that leads to it; the descendant count is the number of points reachable from it; and every
  weight lies between zero and one.
\<close>

theorem topology_sound:
  assumes "analyze_topology node_ids edges = Inr m"
  shows "topological (edge_rel edges) (tm_topological_order m) \<and> set (tm_topological_order m) = set node_ids
    \<and> (\<forall>n. (\<exists>xs. chain_to (edge_rel edges) n xs \<and> int (length xs) = tm_levels m n + 1)
           \<and> (\<forall>xs. chain_to (edge_rel edges) n xs \<longrightarrow> int (length xs) \<le> tm_levels m n + 1))
    \<and> (\<forall>n\<in>set node_ids. tm_descendant_counts m n = int (card ((edge_rel edges)\<^sup>+ `` {n}))
           \<and> 0 \<le> tm_weights m n \<and> tm_weights m n \<le> 1)"
proof -
  have R: "edge_rel edges \<subseteq> set node_ids \<times> set node_ids" "topological (edge_rel edges) (tm_topological_order m)"
    "set (tm_topological_order m) = set node_ids"
    "\<And>n. tm_levels m n = Max (insert 0 ((\<lambda>p. tm_levels m p + 1) ` {p \<in> set node_ids. (p, n) \<in> edge_rel edges}))"
    "\<And>n. n \<in> set node_ids \<Longrightarrow> tm_descendant_counts m n = int (card ((edge_rel edges)\<^sup>+ `` {n}))"
    "\<And>n. n \<in> set node_ids \<Longrightarrow> 0 \<le> tm_weights m n \<and> tm_weights m n \<le> 1"
    using analyze_topology_cases [of node_ids edges] unfolding assms sum.inject by blast+
  from level_longest_chain [OF R(1) _ R(4)] R(2,3,5,6) show ?thesis by blast
qed

text \<open>
  When the layering fails.  The analysis returns exactly for a graph whose edges connect known points and form no
  cycle; a \<^verbatim>\<open>TopologyCycleError\<close> carries a cycle of the graph, from a point back to itself and
  through no other point twice, and a \<^verbatim>\<open>ValueError\<close> means an unknown point.
\<close>

theorem topology_outcome:
  "case analyze_topology node_ids edges of
     Inr m \<Rightarrow> edge_rel edges \<subseteq> set node_ids \<times> set node_ids \<and> acyclic (edge_rel edges)
   | Inl Topology_value_error \<Rightarrow> \<not> edge_rel edges \<subseteq> set node_ids \<times> set node_ids
   | Inl (Topology_cycle c) \<Rightarrow> closed_walk (edge_rel edges) c \<and> \<not> acyclic (edge_rel edges)"
proof -
  have "\<not> acyclic (edge_rel edges)" if "closed_walk (edge_rel edges) c" for c
    using closed_walk_cycle [OF that] by (auto simp: acyclic_def)
  moreover have "acyclic (edge_rel edges)"
    if "topological (edge_rel edges) order" "edge_rel edges \<subseteq> set node_ids \<times> set node_ids" "set order = set node_ids" for order
    using topological_acyclic [OF that(1)] that(2,3) by simp
  ultimately show ?thesis
    using analyze_topology_cases [of node_ids edges] by (elim disjE exE conjE) simp_all
qed

subsection \<open>Difficulty and misconceptions\<close>

lemma difficulty_bounds:
  assumes "classify_difficulty declared p f j minutes = Inr a"
  shows "1 \<le> da_level a \<and> da_level a \<le> 5 \<and> 0 \<le> da_score a \<and> da_score a \<le> 1
    \<and> 0 \<le> da_structural_score a \<and> da_structural_score a \<le> 1"
proof -
  define part where "part w n d = fmul (fl w) (min 1 (fdiv (of_int n) d))" for w d :: rat and n
  have part: "0 \<le> part w n d" "part w n d \<le> fl w" if "0 \<le> n" "0 < d" "0 \<le> w" for w d :: rat and n
  proof -
    have x: "0 \<le> min 1 (fdiv (of_int n) d)" "min 1 (fdiv (of_int n) d) \<le> 1"
      using that by (simp_all add: fdiv_def fl_nonneg)
    with that show "0 \<le> part w n d" by (simp add: part_def fmul_def fl_nonneg)
    have "fl w * min 1 (fdiv (of_int n) d) \<le> fl w * 1" using x that by (intro mult_left_mono) (simp_all add: fl_nonneg)
    from fl_mono [OF this] show "part w n d \<le> fl w" by (simp add: part_def fmul_def)
  qed
  have bounds: "0 \<le> declared" "declared \<le> 1" "0 \<le> p" "0 \<le> f" "0 \<le> j" "1 \<le> minutes"
    using assms by (auto simp: classify_difficulty_def split: if_splits)
  let ?structural = "fadd (fadd (fadd (part (35/100) p 5) (part (30/100) f 8)) (part (20/100) j 6)) (part (15/100) minutes 240)"
  let ?score = "fadd (fmul (fl (4/10)) declared) (fmul (fl (6/10)) ?structural)"
  have add: "fadd a b \<le> fadd c d" if "a \<le> c" "b \<le> d" for a b c d using that by (simp add: fadd_def fl_mono)
  have mul: "fmul (fl c) a \<le> fmul (fl c) b" if "a \<le> b" "0 \<le> c" for a b c
    using that by (simp add: fmul_def fl_mono fl_nonneg mult_left_mono)
  let ?top = "fadd (fadd (fadd (fl (35/100)) (fl (30/100))) (fl (20/100))) (fl (15/100))"
  let ?top_score = "fadd (fmul (fl (4/10)) 1) (fmul (fl (6/10)) ?top)"
  have structural: "0 \<le> ?structural" "?structural \<le> ?top"
    using part bounds by (simp add: fadd_def fl_nonneg, intro add part(2)) (use bounds in simp_all)
  have "0 \<le> fadd a b" "0 \<le> fmul a b" if "0 \<le> a" "0 \<le> b" for a b
    using that by (simp_all add: fadd_def fmul_def fl_nonneg)
  then have "0 \<le> ?score" using structural(1) bounds fl_nonneg by simp
  moreover have "?score \<le> ?top_score" by (rule add [OF mul mul]) (use structural(2) bounds in simp_all)
  moreover have "py_round ?top 6 = 1" "py_round ?top_score 6 = 1" by code_simp+
  moreover have "py_round 0 6 = 0" using py_round_of_int [of 0 6] by simp
  ultimately have "0 \<le> py_round ?score 6 \<and> py_round ?score 6 \<le> 1"
    "0 \<le> py_round ?structural 6 \<and> py_round ?structural 6 \<le> 1"
    using structural py_round_mono by metis+
  moreover have "a = \<lparr>da_level = max 1 (min 5 \<lceil>fmul (py_round ?score 6) 5\<rceil>), da_score = py_round ?score 6,
      da_structural_score = py_round ?structural 6\<rparr>"
  proof -
    have "\<not> \<not> (0 \<le> declared \<and> declared \<le> 1)" "\<not> (min (min p f) j < 0 \<or> minutes < 1)" using bounds by simp_all
    with assms have "Inr a = classify_difficulty declared p f j minutes"
      "classify_difficulty declared p f j minutes = Inr \<lparr>da_level = max 1 (min 5 \<lceil>fmul (py_round ?score 6) 5\<rceil>),
        da_score = py_round ?score 6, da_structural_score = py_round ?structural 6\<rparr>"
      unfolding classify_difficulty_def Let_def part_def by (simp_all only: if_False not_False_eq_True)
    then show ?thesis by (simp only: sum.inject)
  qed
  ultimately show ?thesis by simp
qed

lemma ranked_misconceptions_share_tags:
  assumes "i \<in> set (rank_misconceptions blank fold_tag observed candidates)"
  shows "\<exists>c\<in>set candidates. mc_misconception_id c = i
    \<and> set (normalized_tags blank fold_tag observed) \<inter> set (normalized_tags blank fold_tag (mc_diagnosis_tags c)) \<noteq> {}"
proof -
  have "set xs \<inter> set ys \<noteq> {}" if "0 < tag_score xs ys" for xs ys
  proof
    assume "set xs \<inter> set ys = {}"
    then have "filter (\<lambda>t. t \<in> set ys) xs = []" by (auto simp: filter_empty_conv)
    with that show False by (simp add: tag_score_def fdiv_def Let_def split: if_splits)
  qed
  with assms show ?thesis by (fastforce simp: rank_misconceptions_def Let_def)
qed

subsection \<open>A concrete course\<close>

definition sample_nodes :: "kp_id list" where
  "sample_nodes = [''model'', ''transfer'', ''response'', ''stability'']"

definition sample_edges :: "topology_edge list" where
  "sample_edges = map (\<lambda>(p, d). \<lparr>tg_prerequisite_kp_id = p, tg_dependent_kp_id = d\<rparr>)
     [(''model'', ''transfer''), (''transfer'', ''response''), (''transfer'', ''stability'')]"

lemma sample_analysis:
  "case analyze_topology sample_nodes sample_edges of
     Inl _ \<Rightarrow> False
   | Inr m \<Rightarrow> tm_topological_order m = [''model'', ''transfer'', ''response'', ''stability'']
       \<and> tm_levels m ''response'' = 2 \<and> tm_descendant_counts m ''model'' = 3"
  by code_simp

theorem topology_sound_witness:
  "card ((edge_rel sample_edges)\<^sup>+ `` {''model''}) = 3
   \<and> (\<exists>xs. chain_to (edge_rel sample_edges) ''response'' xs \<and> length xs = 3)"
proof -
  obtain m where m: "analyze_topology sample_nodes sample_edges = Inr m" "tm_levels m ''response'' = 2"
    "tm_descendant_counts m ''model'' = 3"
    using sample_analysis by (auto split: sum.splits)
  have "''model'' \<in> set sample_nodes" by (simp add: sample_nodes_def)
  with topology_sound [OF m(1)] m(2,3) show ?thesis by force
qed

end
