(* ===== verification/PathGraph.thy ===== *)
theory PathGraph
  imports Learners Topology "HOL-Library.Multiset"
begin

text \<open>
  The graph work of the path planner, \<^verbatim>\<open>backend/src/liyans/domains/topic2/path_planning.py\<close>: repair of the
  knowledge graph (\<^verbatim>\<open>sanitize_graph\<close>), the points a target needs (\<^verbatim>\<open>_select_nodes\<close>) and their order
  (\<^verbatim>\<open>_ordered_nodes\<close>).  A heap of the source is a sorted list: it is only pushed to and popped.
\<close>

subsection \<open>Repair of the graph\<close>

datatype path_error = Path_value_error | Path_runtime_error | Path_key_error | Path_type_error

record graph_repair =
  gp_code :: string
  gp_edge_id :: "string option"
  gp_detail :: string

record sanitized_graph =
  sg_knowledge_points :: "knowledge_point list"
  sg_prerequisites :: "prerequisite list"
  sg_levels :: "kp_id \<Rightarrow> int"
  sg_topology_weights :: "kp_id \<Rightarrow> rat"
  sg_repairs :: "graph_repair list"

text \<open>The dictionary of a graph's points: its keys, and the point of a key.\<close>

definition kp_ids :: "sanitized_graph \<Rightarrow> kp_id list" where
  "kp_ids g = map kn_kp_id (sg_knowledge_points g)"

definition point_of :: "sanitized_graph \<Rightarrow> kp_id \<Rightarrow> knowledge_point option" where
  "point_of g = dict_by kn_kp_id (sg_knowledge_points g)"

definition active_points :: "graph_snapshot \<Rightarrow> knowledge_point list" where
  "active_points gs = filter (\<lambda>k. kn_status k = KS_ACTIVE) (gs_knowledge_points gs)"

fun join_comma :: "string list \<Rightarrow> string" where
  "join_comma [] = ''''"
| "join_comma [s] = s"
| "join_comma (s # t # ss) = s @ '','' @ join_comma (t # ss)"

fun screen_edges :: "kp_id list \<Rightarrow> prerequisite list \<Rightarrow> prerequisite list \<times> graph_repair list" where
  "screen_edges active [] = ([], [])"
| "screen_edges active (e # es) =
     (let p = pq_prerequisite_kp_id e; d = pq_dependent_kp_id e; missing = filter (\<lambda>k. k \<notin> set active) [p, d];
          (edges, repairs) = screen_edges active es
      in if p = d
         then (edges, \<lparr>gp_code = ''SELF_EDGE_REMOVED'', gp_edge_id = Some (pq_edge_id e), gp_detail = p\<rparr> # repairs)
         else if missing \<noteq> []
         then (edges, \<lparr>gp_code = ''UNKNOWN_ENDPOINT_REMOVED'', gp_edge_id = Some (pq_edge_id e),
                       gp_detail = join_comma (sorted_set missing)\<rparr> # repairs)
         else (e # edges, repairs))"

definition topology_edge_of :: "prerequisite \<Rightarrow> topology_edge" where
  "topology_edge_of e = \<lparr>tg_prerequisite_kp_id = pq_prerequisite_kp_id e, tg_dependent_kp_id = pq_dependent_kp_id e\<rparr>"

fun relation_rank :: "prerequisite_type \<Rightarrow> int" where
  "relation_rank PT_SUPPORTING = 0"
| "relation_rank PT_RECOMMENDED = 1"
| "relation_rank PT_REQUIRED = 2"

definition edge_removal_key :: "prerequisite \<Rightarrow> int \<times> rat \<times> string" where
  "edge_removal_key e = (relation_rank (pq_relation_type e), pq_strength e, pq_edge_id e)"

definition cycle_candidates :: "kp_id list \<Rightarrow> prerequisite list \<Rightarrow> prerequisite list" where
  "cycle_candidates cycle edges =
     filter (\<lambda>e. pq_prerequisite_kp_id e \<in> set cycle \<and> pq_dependent_kp_id e \<in> set cycle) edges"

lemma least_candidate:
  assumes "sort_key edge_removal_key (cycle_candidates cycle edges) = e # es"
  shows "e \<in> set edges \<and> pq_prerequisite_kp_id e \<in> set cycle \<and> pq_dependent_kp_id e \<in> set cycle
    \<and> (\<forall>e'\<in>set (cycle_candidates cycle edges). edge_removal_key e \<le> edge_removal_key e')"
proof -
  have "set (cycle_candidates cycle edges) = set (e # es)" by (metis assms set_sort)
  moreover have "sorted (map edge_removal_key (e # es))" by (metis assms sorted_sort_key)
  ultimately show ?thesis by (auto simp: cycle_candidates_def)
qed

function break_cycles ::
  "kp_id list \<Rightarrow> prerequisite list \<Rightarrow> graph_repair list
     \<Rightarrow> path_error + (prerequisite list \<times> topology_metrics \<times> graph_repair list)" where
  "break_cycles active edges repairs =
     (case analyze_topology active (map topology_edge_of edges) of
        Inr metrics \<Rightarrow> Inr (edges, metrics, repairs)
      | Inl Topology_value_error \<Rightarrow> Inl Path_value_error
      | Inl (Topology_cycle cycle) \<Rightarrow>
          (case sort_key edge_removal_key (cycle_candidates cycle edges) of
             [] \<Rightarrow> Inl Path_runtime_error
           | removed # _ \<Rightarrow>
               break_cycles active (remove1 removed edges)
                 (repairs @ [\<lparr>gp_code = ''CYCLE_EDGE_REMOVED'', gp_edge_id = Some (pq_edge_id removed),
                    gp_detail = pq_prerequisite_kp_id removed @ ''->'' @ pq_dependent_kp_id removed\<rparr>])))"
  by pat_completeness auto

termination
proof (relation "measure (\<lambda>(_, edges, _). length edges)", goal_cases)
  case (2 active edges repairs err cycle removed rest)
  then show ?case using least_candidate [of cycle edges removed rest]
    by (auto simp: length_remove1 length_greater_0_conv intro: diff_less dest: length_pos_if_in_set)
qed simp

declare break_cycles.simps [simp del]

definition sanitize_graph :: "graph_snapshot \<Rightarrow> path_error + sanitized_graph" where
  "sanitize_graph gs =
     (let points = active_points gs; active = map kn_kp_id points
      in if points = [] then Inl Path_value_error
         else let (edges, repairs) = screen_edges active (sort_key pq_edge_id (gs_prerequisites gs))
              in rbind (break_cycles active edges repairs) (\<lambda>(kept, metrics, all_repairs).
                 Inr \<lparr>sg_knowledge_points = points, sg_prerequisites = kept, sg_levels = tm_levels metrics,
                      sg_topology_weights = tm_weights metrics, sg_repairs = all_repairs\<rparr>))"

subsection \<open>The points a target needs\<close>

definition incoming_edges :: "prerequisite list \<Rightarrow> kp_id list \<Rightarrow> kp_id \<Rightarrow> prerequisite list" where
  "incoming_edges edges selected kp =
     sort_key (\<lambda>e. (prerequisite_type_value (pq_relation_type e), pq_edge_id e))
       (filter (\<lambda>e. pq_dependent_kp_id e = kp
                  \<and> pq_prerequisite_kp_id e \<in> set selected \<and> pq_dependent_kp_id e \<in> set selected) edges)"

definition select_edge :: "prerequisite \<Rightarrow> kp_id list \<times> kp_id list \<Rightarrow> kp_id list \<times> kp_id list" where
  "select_edge e sq =
     (if pq_relation_type e = PT_SUPPORTING then sq
      else if pq_prerequisite_kp_id e \<notin> set (fst sq)
      then (fst sq @ [pq_prerequisite_kp_id e], snd sq @ [pq_prerequisite_kp_id e])
      else sq)"

definition unselected :: "prerequisite list \<Rightarrow> kp_id list \<Rightarrow> nat" where
  "unselected edges selected = length (filter (\<lambda>e. pq_prerequisite_kp_id e \<notin> set selected) edges)"

lemma select_edges_size:
  assumes "set es \<subseteq> set edges"
  shows "unselected edges (fst (fold select_edge es sq)) + length (snd (fold select_edge es sq))
    \<le> unselected edges (fst sq) + length (snd sq)"
  using assms
proof (induction es arbitrary: sq)
  case (Cons e es)
  let ?p = "pq_prerequisite_kp_id e"
  have "unselected edges (fst (select_edge e sq)) + length (snd (select_edge e sq)) \<le> unselected edges (fst sq) + length (snd sq)"
  proof (cases "pq_relation_type e = PT_SUPPORTING \<or> ?p \<in> set (fst sq)")
    case False
    have "filter (\<lambda>x. pq_prerequisite_kp_id x \<notin> set (fst sq @ [?p])) edges
        = filter (\<lambda>x. pq_prerequisite_kp_id x \<noteq> ?p) (filter (\<lambda>x. pq_prerequisite_kp_id x \<notin> set (fst sq)) edges)"
      unfolding filter_filter by (rule filter_cong) auto
    moreover have "e \<in> set (filter (\<lambda>x. pq_prerequisite_kp_id x \<notin> set (fst sq)) edges)" using Cons.prems False by auto
    ultimately have "unselected edges (fst sq @ [?p]) < unselected edges (fst sq)"
      unfolding unselected_def by (metis (mono_tags, lifting) length_filter_less)
    with False show ?thesis by (simp add: select_edge_def)
  qed (auto simp: select_edge_def)
  with Cons.IH [of "select_edge e sq"] Cons.prems show ?case by simp
qed simp

function select_loop :: "prerequisite list \<Rightarrow> kp_id list \<Rightarrow> kp_id list \<Rightarrow> kp_id list \<Rightarrow> kp_id list" where
  "select_loop edges points selected queue =
     (case queue of
        [] \<Rightarrow> selected
      | current # rest \<Rightarrow>
          (case fold select_edge (incoming_edges edges points current) (selected, rest) of
             (selected', queue') \<Rightarrow> select_loop edges points selected' queue'))"
  by pat_completeness auto
termination
proof (relation "measure (\<lambda>(edges, _, selected, queue). unselected edges selected + length queue)", goal_cases)
  case (2 edges points selected queue current rest selected' queue')
  have "set (incoming_edges edges points current) \<subseteq> set edges" by (auto simp: incoming_edges_def)
  from select_edges_size [OF this, of "(selected, rest)"] show ?case using 2 by (simp add: case_prod_unfold)
qed simp

declare select_loop.simps [simp del]

definition select_nodes :: "sanitized_graph \<Rightarrow> kp_id list option \<Rightarrow> path_error + kp_id list" where
  "select_nodes g target_kp_ids =
     (case target_kp_ids of
        None \<Rightarrow> Inr (remdups (kp_ids g))
      | Some ts \<Rightarrow>
          if \<not> set ts \<subseteq> set (kp_ids g) then Inl Path_value_error
          else Inr (select_loop (sg_prerequisites g) (kp_ids g) (sorted_set ts) (sorted_set ts)))"

subsection \<open>The order of the path\<close>

datatype learning_tier = LT_FOUNDATION | LT_REINFORCEMENT | LT_EXTENSION

fun tier_value :: "learning_tier \<Rightarrow> string" where
  "tier_value LT_FOUNDATION = ''FOUNDATION''"
| "tier_value LT_REINFORCEMENT = ''REINFORCEMENT''"
| "tier_value LT_EXTENSION = ''EXTENSION''"

fun tier_rank :: "learning_tier \<Rightarrow> int" where
  "tier_rank LT_REINFORCEMENT = 0"
| "tier_rank LT_FOUNDATION = 1"
| "tier_rank LT_EXTENSION = 2"

type_synonym order_key = "int \<times> int \<times> rat \<times> string"

definition position :: "kp_id list \<Rightarrow> kp_id \<Rightarrow> nat" where
  "position xs k = length (takeWhile (\<lambda>x. x \<noteq> k) xs)"

definition order_key_of ::
  "kp_id list \<Rightarrow> kp_id list \<Rightarrow> (kp_id \<Rightarrow> learning_tier) \<Rightarrow> (kp_id \<Rightarrow> rat) \<Rightarrow> kp_id \<Rightarrow> order_key" where
  "order_key_of selected manual tiers score k =
     (if k \<in> set manual then int (position manual k) else int (length selected) + 1, tier_rank (tiers k), - score k, k)"

record schedule =
  su_ready :: "(order_key \<times> kp_id) list"
  su_ordered :: "kp_id list"
  su_indegree :: "(kp_id \<times> int) list"

definition schedule_release :: "(kp_id \<Rightarrow> order_key) \<Rightarrow> kp_id \<Rightarrow> schedule \<Rightarrow> schedule" where
  "schedule_release key d s =
     (let indegree = add_at d (- 1) (su_indegree s)
      in s\<lparr>su_indegree := indegree,
           su_ready := (if map_of indegree d = Some 0 then insort (key d, d) (su_ready s) else su_ready s)\<rparr>)"

definition schedule_size :: "schedule \<Rightarrow> nat" where
  "schedule_size s = length (su_ready s) + positives (su_indegree s)"

lemma schedule_release_size: "schedule_size (fold (schedule_release key) ds s) \<le> schedule_size s"
proof (induction ds arbitrary: s)
  case (Cons d ds)
  have "schedule_size (schedule_release key d s) \<le> schedule_size s"
    using positives_decrement [of d "su_indegree s"]
    by (auto simp: schedule_size_def schedule_release_def Let_def split: if_splits)
  with Cons.IH [of "schedule_release key d s"] show ?case by simp
qed simp

function schedule_loop :: "(kp_id \<Rightarrow> kp_id list) \<Rightarrow> (kp_id \<Rightarrow> order_key) \<Rightarrow> schedule \<Rightarrow> schedule" where
  "schedule_loop outgoing key s =
     (case su_ready s of
        [] \<Rightarrow> s
      | (_, k) # rest \<Rightarrow>
          schedule_loop outgoing key
            (fold (schedule_release key) (sort (outgoing k)) (s\<lparr>su_ready := rest, su_ordered := su_ordered s @ [k]\<rparr>)))"
  by pat_completeness auto
termination
proof (relation "measure (\<lambda>(_, _, s). schedule_size s)", goal_cases)
  case (2 outgoing key s kk rest i k)
  have "schedule_size (s\<lparr>su_ready := rest, su_ordered := su_ordered s @ [k]\<rparr>) < schedule_size s"
    using 2 by (simp add: schedule_size_def)
  with schedule_release_size [of key "sort (outgoing k)" "s\<lparr>su_ready := rest, su_ordered := su_ordered s @ [k]\<rparr>"]
  show ?case by simp
qed simp

declare schedule_loop.simps [simp del]

definition edges_within :: "kp_id list \<Rightarrow> prerequisite list \<Rightarrow> prerequisite list" where
  "edges_within selected edges =
     filter (\<lambda>e. pq_prerequisite_kp_id e \<in> set selected \<and> pq_dependent_kp_id e \<in> set selected) edges"

definition outgoing_of :: "prerequisite list \<Rightarrow> kp_id \<Rightarrow> kp_id list" where
  "outgoing_of edges k = map pq_dependent_kp_id (filter (\<lambda>e. pq_prerequisite_kp_id e = k) edges)"

definition new_schedule :: "(kp_id \<Rightarrow> order_key) \<Rightarrow> kp_id list \<Rightarrow> prerequisite list \<Rightarrow> schedule" where
  "new_schedule key selected edges =
     (let indegree = fold (\<lambda>e. add_at (pq_dependent_kp_id e) 1) edges (map (\<lambda>k. (k, 0)) selected)
      in \<lparr>su_ready = sort (map (\<lambda>(k, _). (key k, k)) (filter (\<lambda>(_, degree). degree = 0) indegree)), su_ordered = [],
          su_indegree = indegree\<rparr>)"

definition manual_repair :: graph_repair where
  "manual_repair = \<lparr>gp_code = ''MANUAL_ORDER_TOPOLOGY_REPAIRED'', gp_edge_id = None,
     gp_detail = ''Prerequisite constraints took precedence over manual ordering.''\<rparr>"

definition ordered_nodes ::
  "kp_id list \<Rightarrow> prerequisite list \<Rightarrow> (kp_id \<Rightarrow> rat) \<Rightarrow> (kp_id \<Rightarrow> learning_tier) \<Rightarrow> kp_id list option
     \<Rightarrow> path_error + (kp_id list \<times> graph_repair list)" where
  "ordered_nodes selected edges score tiers manual_order =
     (let inner = edges_within selected edges;
          manual = (case manual_order of None \<Rightarrow> [] | Some ms \<Rightarrow> ms)
      in if \<not> set manual \<subseteq> set selected then Inl Path_value_error
         else if \<not> distinct manual then Inl Path_value_error
         else let key = order_key_of selected manual tiers score;
                  ordered = su_ordered (schedule_loop (outgoing_of inner) key (new_schedule key selected inner))
              in if length ordered \<noteq> length selected then Inl Path_runtime_error
                 else let requested = filter (\<lambda>k. k \<in> set selected) manual
                      in Inr (ordered,
                           (if manual_order \<noteq> None
                              \<and> list_ex (\<lambda>(l, r). position ordered r < position ordered l) (zip requested (tl requested))
                           then [manual_repair] else [])))"

subsection \<open>What the repair does\<close>

definition prerequisite_rel :: "prerequisite list \<Rightarrow> (kp_id \<times> kp_id) set" where
  "prerequisite_rel es = (\<lambda>e. (pq_prerequisite_kp_id e, pq_dependent_kp_id e)) ` set es"

lemma edge_rel_topology: "edge_rel (map topology_edge_of es) = prerequisite_rel es"
  by (auto simp: edge_rel_def prerequisite_rel_def topology_edge_of_def image_image)

definition usable_edges :: "graph_snapshot \<Rightarrow> prerequisite list" where
  "usable_edges gs =
     (let active = kn_kp_id ` set (active_points gs)
      in filter (\<lambda>e. pq_prerequisite_kp_id e \<noteq> pq_dependent_kp_id e
                     \<and> pq_prerequisite_kp_id e \<in> active \<and> pq_dependent_kp_id e \<in> active)
           (sort_key pq_edge_id (gs_prerequisites gs)))"

text \<open>
  One step of the repair: an edge goes that joins two points of a cycle and is the weakest of the edges that
  do.
\<close>

definition breaks_cycle :: "prerequisite list \<Rightarrow> prerequisite list \<Rightarrow> bool" where
  "breaks_cycle es es' \<longleftrightarrow>
     (\<exists>cycle e. closed_walk (prerequisite_rel es) cycle \<and> e \<in> set (cycle_candidates cycle es)
        \<and> (\<forall>e'\<in>set (cycle_candidates cycle es). edge_removal_key e \<le> edge_removal_key e') \<and> es' = remove1 e es)"

lemma screen_edges_spec:
  "fst (screen_edges active es) = filter (\<lambda>e. pq_prerequisite_kp_id e \<noteq> pq_dependent_kp_id e
      \<and> pq_prerequisite_kp_id e \<in> set active \<and> pq_dependent_kp_id e \<in> set active) es
   \<and> length (fst (screen_edges active es)) + length (snd (screen_edges active es)) = length es"
  by (induction es) (auto simp: Let_def split: prod.splits)

lemma prerequisite_rel_remove1: "prerequisite_rel (remove1 e es) \<subseteq> prerequisite_rel es"
  using set_remove1_subset [of e es] by (auto simp: prerequisite_rel_def)

lemma closed_walk_candidate:
  assumes "closed_walk (prerequisite_rel es) c"
  shows "cycle_candidates c es \<noteq> []"
proof -
  from assms obtain x y zs where c: "c = x # y # zs" by (cases c; cases "tl c") (auto simp: closed_walk_def)
  have "successively (\<lambda>x y. (x, y) \<in> prerequisite_rel es) (x # y # zs)" using assms unfolding closed_walk_def c by blast
  then have "(x, y) \<in> prerequisite_rel es" by simp
  with c show ?thesis by (auto simp: prerequisite_rel_def cycle_candidates_def filter_empty_conv)
qed

lemma break_cycles_spec:
  assumes "prerequisite_rel es \<subseteq> set active \<times> set active"
  shows "\<exists>kept m rs. break_cycles active es repairs = Inr (kept, m, rs) \<and> breaks_cycle\<^sup>*\<^sup>* es kept
    \<and> acyclic (prerequisite_rel kept) \<and> analyze_topology active (map topology_edge_of kept) = Inr m
    \<and> length rs + length kept = length repairs + length es"
  using assms
proof (induction active es repairs rule: break_cycles.induct)
  case (1 active es repairs)
  note cases = analyze_topology_cases [of active "map topology_edge_of es", unfolded edge_rel_topology]
  show ?case
  proof (cases "analyze_topology active (map topology_edge_of es)")
    case (Inr m)
    with cases have "topological (prerequisite_rel es) (tm_topological_order m)" "set (tm_topological_order m) = set active"
      by auto
    then have "acyclic (prerequisite_rel es)" using topological_acyclic 1(2) by metis
    with Inr show ?thesis by (simp add: break_cycles.simps [of active es])
  next
    case (Inl err)
    with cases 1(2) obtain c where c: "err = Topology_cycle c" "closed_walk (prerequisite_rel es) c" by auto
    obtain e rest where srt: "sort_key edge_removal_key (cycle_candidates c es) = e # rest"
      using closed_walk_candidate [OF c(2)] by (metis neq_Nil_conv set_empty set_sort)
    note least = least_candidate [OF srt]
    have step: "breaks_cycle es (remove1 e es)"
      unfolding breaks_cycle_def using least c(2)
      by (intro exI [of _ c] exI [of _ e]) (auto simp: cycle_candidates_def)
    have "prerequisite_rel (remove1 e es) \<subseteq> set active \<times> set active" using prerequisite_rel_remove1 1(2) by blast
    from 1(1) [OF Inl c(1) srt this] obtain kept m rs where
      R: "break_cycles active (remove1 e es) (repairs @ [\<lparr>gp_code = ''CYCLE_EDGE_REMOVED'', gp_edge_id = Some (pq_edge_id e),
            gp_detail = pq_prerequisite_kp_id e @ ''->'' @ pq_dependent_kp_id e\<rparr>]) = Inr (kept, m, rs)"
        "breaks_cycle\<^sup>*\<^sup>* (remove1 e es) kept" "acyclic (prerequisite_rel kept)"
        "analyze_topology active (map topology_edge_of kept) = Inr m"
        "length rs + length kept = length repairs + 1 + length (remove1 e es)" by auto
    have "break_cycles active es repairs = Inr (kept, m, rs)"
      using R(1) Inl c(1) srt by (simp add: break_cycles.simps [of active es])
    moreover have "breaks_cycle\<^sup>*\<^sup>* es kept" using step R(2) by (rule converse_rtranclp_into_rtranclp)
    moreover have "length (remove1 e es) + 1 = length es" using least length_pos_if_in_set [of e es] by (simp add: length_remove1)
    ultimately show ?thesis using R(3-5) by auto
  qed
qed

lemma breaks_cycle_mset: "breaks_cycle\<^sup>*\<^sup>* es kept \<Longrightarrow> set kept \<subseteq> set es"
  by (induction rule: rtranclp_induct) (auto simp: breaks_cycle_def dest: notin_set_remove1)

lemma acyclic_unbroken:
  assumes "breaks_cycle\<^sup>*\<^sup>* es kept" "acyclic (prerequisite_rel es)"
  shows "kept = es"
  using assms(1)
proof (cases rule: converse_rtranclpE)
  case (step es')
  then obtain c where "closed_walk (prerequisite_rel es) c" by (auto simp: breaks_cycle_def)
  from closed_walk_cycle [OF this] assms(2) show ?thesis by (auto simp: acyclic_def)
qed simp

lemma sanitize_graph_spec:
  "active_points gs = [] \<and> sanitize_graph gs = Inl Path_value_error
   \<or> (\<exists>g m. sanitize_graph gs = Inr g \<and> active_points gs \<noteq> [] \<and> sg_knowledge_points g = active_points gs
        \<and> breaks_cycle\<^sup>*\<^sup>* (usable_edges gs) (sg_prerequisites g) \<and> acyclic (prerequisite_rel (sg_prerequisites g))
        \<and> analyze_topology (kp_ids g) (map topology_edge_of (sg_prerequisites g)) = Inr m
        \<and> sg_levels g = tm_levels m \<and> sg_topology_weights g = tm_weights m
        \<and> length (sg_repairs g) + length (sg_prerequisites g) = length (gs_prerequisites gs))"
proof (cases "active_points gs = []")
  case False
  let ?active = "map kn_kp_id (active_points gs)"
  let ?screened = "screen_edges ?active (sort_key pq_edge_id (gs_prerequisites gs))"
  have screened: "fst ?screened = usable_edges gs" "length (fst ?screened) + length (snd ?screened) = length (gs_prerequisites gs)"
    using screen_edges_spec [of ?active "sort_key pq_edge_id (gs_prerequisites gs)"]
    by (simp add: usable_edges_def Let_def, metis length_sort)
  have "prerequisite_rel (usable_edges gs) \<subseteq> set ?active \<times> set ?active"
    by (auto simp: prerequisite_rel_def usable_edges_def Let_def)
  from break_cycles_spec [OF this, of "snd ?screened"] obtain kept m rs where
    R: "break_cycles ?active (usable_edges gs) (snd ?screened) = Inr (kept, m, rs)" "breaks_cycle\<^sup>*\<^sup>* (usable_edges gs) kept"
      "acyclic (prerequisite_rel kept)" "analyze_topology ?active (map topology_edge_of kept) = Inr m"
      "length rs + length kept = length (snd ?screened) + length (usable_edges gs)" by blast
  let ?g = "\<lparr>sg_knowledge_points = active_points gs, sg_prerequisites = kept, sg_levels = tm_levels m,
    sg_topology_weights = tm_weights m, sg_repairs = rs\<rparr>"
  have "sanitize_graph gs = Inr ?g"
    using False R(1) by (simp add: sanitize_graph_def Let_def case_prod_unfold screened(1))
  with False R(2-5) screened show ?thesis
    by (intro disjI2 exI [of _ ?g] exI [of _ m]) (simp add: kp_ids_def)
qed (simp add: sanitize_graph_def)

subsection \<open>What a selection holds\<close>

definition needs :: "prerequisite list \<Rightarrow> (kp_id \<times> kp_id) set" where
  "needs es = prerequisite_rel (filter (\<lambda>e. pq_relation_type e \<noteq> PT_SUPPORTING) es)"

lemma select_edges_spec:
  "\<exists>new. fold select_edge es (selected, queue) = (selected @ new, queue @ new) \<and> distinct new
     \<and> set new = {p. \<exists>e\<in>set es. pq_relation_type e \<noteq> PT_SUPPORTING \<and> p = pq_prerequisite_kp_id e} - set selected"
proof (induction es arbitrary: selected queue)
  case (Cons e es)
  let ?p = "pq_prerequisite_kp_id e"
  show ?case
  proof (cases "pq_relation_type e = PT_SUPPORTING \<or> ?p \<in> set selected")
    case True
    then have "select_edge e (selected, queue) = (selected, queue)" by (auto simp: select_edge_def)
    with Cons.IH [of selected queue] True show ?thesis by auto
  next
    case False
    then have e: "select_edge e (selected, queue) = (selected @ [?p], queue @ [?p])" by (simp add: select_edge_def)
    from Cons.IH [of "selected @ [?p]" "queue @ [?p]"] obtain new where
      "fold select_edge es (selected @ [?p], queue @ [?p]) = ((selected @ [?p]) @ new, (queue @ [?p]) @ new)" "distinct new"
      "set new = {p. \<exists>e\<in>set es. pq_relation_type e \<noteq> PT_SUPPORTING \<and> p = pq_prerequisite_kp_id e} - set (selected @ [?p])"
      by blast
    with e False show ?thesis by (intro exI [of _ "?p # new"]) auto
  qed
qed simp

lemma select_loop_spec:
  assumes "set queue \<subseteq> set selected" "distinct selected"
    and "\<forall>n\<in>set selected - set queue. (needs (edges_within points edges))\<inverse> `` {n} \<subseteq> set selected"
  shows "distinct (select_loop edges points selected queue)
    \<and> set (select_loop edges points selected queue) = ((needs (edges_within points edges))\<inverse>)\<^sup>* `` set selected"
  using assms
proof (induction edges points selected queue rule: select_loop.induct)
  case (1 edges points selected queue)
  let ?R = "(needs (edges_within points edges))\<inverse>"
  show ?case
  proof (cases queue)
    case Nil
    have "?R\<^sup>* `` set selected = set selected"
    proof
      show "?R\<^sup>* `` set selected \<subseteq> set selected"
      proof
        fix n assume "n \<in> ?R\<^sup>* `` set selected"
        then obtain t where "(t, n) \<in> ?R\<^sup>*" "t \<in> set selected" by blast
        then show "n \<in> set selected" using 1(4) Nil by (induction rule: rtrancl_induct) auto
      qed
    qed auto
    with 1(3) Nil show ?thesis by (simp add: select_loop.simps [of edges points selected "[]"])
  next
    case (Cons current rest)
    from select_edges_spec [of "incoming_edges edges points current" selected rest] obtain new where
      new: "fold select_edge (incoming_edges edges points current) (selected, rest) = (selected @ new, rest @ new)" "distinct new"
      "set new = {p. \<exists>e\<in>set (incoming_edges edges points current). pq_relation_type e \<noteq> PT_SUPPORTING \<and> p = pq_prerequisite_kp_id e} - set selected"
      by blast
    have step: "set new = ?R `` {current} - set selected"
      unfolding new(3) by (auto simp: incoming_edges_def needs_def edges_within_def prerequisite_rel_def)
    have "set (rest @ new) \<subseteq> set (selected @ new)" using 1(2) Cons by auto
    moreover have "distinct (selected @ new)" using 1(3) new(2) step by auto
    moreover have "\<forall>n\<in>set (selected @ new) - set (rest @ new). ?R `` {n} \<subseteq> set (selected @ new)"
      using 1(4) Cons step by (auto simp del: converse_iff)
    ultimately have "distinct (select_loop edges points (selected @ new) (rest @ new))
      \<and> set (select_loop edges points (selected @ new) (rest @ new)) = ?R\<^sup>* `` set (selected @ new)"
      by (rule 1(1) [OF Cons new(1) [symmetric]])
    moreover have "?R\<^sup>* `` set (selected @ new) = ?R\<^sup>* `` set selected"
    proof -
      have "current \<in> set selected" using 1(2) Cons by simp
      then have "set new \<subseteq> ?R\<^sup>* `` set selected" unfolding step by blast
      then have "?R\<^sup>* `` set new \<subseteq> ?R\<^sup>* `` set selected" using rtrancl_trans [of _ _ ?R] by fast
      then show ?thesis by (auto simp: Image_Un)
    qed
    ultimately show ?thesis using Cons new(1) by (simp add: select_loop.simps [of edges points selected "current # rest"])
  qed
qed

lemma select_nodes_spec:
  "case select_nodes g targets of
     Inl e \<Rightarrow> e = Path_value_error \<and> (\<exists>ts. targets = Some ts \<and> \<not> set ts \<subseteq> set (kp_ids g))
   | Inr selected \<Rightarrow> distinct selected
       \<and> (case targets of
            None \<Rightarrow> set selected = set (kp_ids g)
          | Some ts \<Rightarrow> set ts \<subseteq> set (kp_ids g)
              \<and> set selected = ((needs (edges_within (kp_ids g) (sg_prerequisites g)))\<inverse>)\<^sup>* `` set ts)"
  using select_loop_spec [of "sorted_set ts" "sorted_set ts" for ts]
  by (auto simp: select_nodes_def split: option.splits)

subsection \<open>What the order guarantees\<close>

lemma schedule_release_all:
  assumes "\<forall>d\<in>set ds. \<forall>k. map_of (su_indegree s) d = Some k \<longrightarrow> int (count_list ds d) \<le> k"
  shows "su_ordered (fold (schedule_release key) ds s) = su_ordered s
    \<and> map fst (su_indegree (fold (schedule_release key) ds s)) = map fst (su_indegree s)
    \<and> (\<forall>n. map_of (su_indegree (fold (schedule_release key) ds s)) n
         = map_option (\<lambda>k. k - int (count_list ds n)) (map_of (su_indegree s) n))
    \<and> (sorted (su_ready s) \<longrightarrow> sorted (su_ready (fold (schedule_release key) ds s)))
    \<and> (\<exists>new. mset (su_ready (fold (schedule_release key) ds s)) = mset (su_ready s) + mset (map (\<lambda>d. (key d, d)) new)
         \<and> distinct new \<and> set new = {d \<in> set ds. map_of (su_indegree s) d = Some (int (count_list ds d))})"
  using assms
proof (induction ds arbitrary: s)
  case Nil
  then show ?case by (auto simp: option.map_ident intro: exI [of _ "[]"])
next
  case (Cons d ds)
  let ?s = "schedule_release key d s"
  let ?last = "map_of (su_indegree s) d = Some 1"
  have s: "su_ordered ?s = su_ordered s" "su_indegree ?s = add_at d (- 1) (su_indegree s)"
    "su_ready ?s = (if ?last then insort (key d, d) (su_ready s) else su_ready s)"
    by (auto simp: schedule_release_def Let_def)
  have prem: "\<forall>x\<in>set ds. \<forall>k. map_of (su_indegree ?s) x = Some k \<longrightarrow> int (count_list ds x) \<le> k"
    using Cons.prems by (fastforce simp: s split: if_splits)
  from Cons.IH [OF prem] obtain new where IH:
    "su_ordered (fold (schedule_release key) ds ?s) = su_ordered s"
    "map fst (su_indegree (fold (schedule_release key) ds ?s)) = map fst (su_indegree s)"
    "\<forall>n. map_of (su_indegree (fold (schedule_release key) ds ?s)) n = map_option (\<lambda>k. k - int (count_list ds n)) (map_of (su_indegree ?s) n)"
    "sorted (su_ready ?s) \<longrightarrow> sorted (su_ready (fold (schedule_release key) ds ?s))"
    "mset (su_ready (fold (schedule_release key) ds ?s)) = mset (su_ready ?s) + mset (map (\<lambda>d. (key d, d)) new)" "distinct new"
    "set new = {x \<in> set ds. map_of (su_indegree ?s) x = Some (int (count_list ds x))}"
    by (auto simp: s(1,2))
  have degrees: "map_of (su_indegree (fold (schedule_release key) (d # ds) s)) n
      = map_option (\<lambda>k. k - int (count_list (d # ds) n)) (map_of (su_indegree s) n)" for n
    using IH(3) by (cases "map_of (su_indegree s) n") (simp_all add: s(2))
  have absent: "d \<notin> set ds" if ?last
    using Cons.prems that by (force simp: count_list_0_iff)
  have ready: "mset (su_ready (fold (schedule_release key) (d # ds) s))
      = mset (su_ready s) + mset (map (\<lambda>d. (key d, d)) (if ?last then d # new else new))"
    using IH(5) by (simp add: s(3) mset_insort)
  have "distinct (if ?last then d # new else new)"
    using IH(6,7) absent by auto
  moreover have "set (if ?last then d # new else new)
      = {x \<in> set (d # ds). map_of (su_indegree s) x = Some (int (count_list (d # ds) x))}"
  proof -
    have eq: "map_of (su_indegree ?s) x = Some (int (count_list ds x))
        \<longleftrightarrow> map_of (su_indegree s) x = Some (int (count_list (d # ds) x))" for x
      by (cases "map_of (su_indegree s) x") (auto simp: s(2))
    show ?thesis
    proof (cases ?last)
      case True
      with absent have "count_list (d # ds) d = 1" by (simp add: count_list_0_iff)
      with True show ?thesis using IH(7) unfolding eq by auto
    next
      case False
      then have "d \<notin> set ds \<Longrightarrow> map_of (su_indegree s) d \<noteq> Some (int (count_list (d # ds) d))"
        by (simp add: count_list_0_iff)
      with False show ?thesis using IH(7) unfolding eq by auto
    qed
  qed
  moreover have "sorted (su_ready s) \<longrightarrow> sorted (su_ready (fold (schedule_release key) (d # ds) s))"
    using IH(4) by (auto simp: s(3) sorted_insort split: if_splits)
  moreover have "su_ordered (fold (schedule_release key) (d # ds) s) = su_ordered s"
    "map fst (su_indegree (fold (schedule_release key) (d # ds) s)) = map fst (su_indegree s)" using IH(1,2) by simp_all
  ultimately show ?case using degrees ready by (intro conjI allI exI [of _ "if ?last then d # new else new"])
qed

definition open_degree :: "prerequisite list \<Rightarrow> kp_id list \<Rightarrow> kp_id \<Rightarrow> nat" where
  "open_degree es ordered n = length (filter (\<lambda>e. pq_dependent_kp_id e = n \<and> pq_prerequisite_kp_id e \<notin> set ordered) es)"

lemma open_degree_0_iff: "open_degree es ordered n = 0 \<longleftrightarrow> (prerequisite_rel es)\<inverse> `` {n} \<subseteq> set ordered"
  by (auto simp: open_degree_def prerequisite_rel_def filter_empty_conv)

lemma open_degree_snoc:
  assumes "k \<notin> set ordered"
  shows "open_degree es (ordered @ [k]) n + count_list (sort (outgoing_of es k)) n = open_degree es ordered n"
  using assms
proof (induction es)
  case (Cons e es)
  have "count_list (sort xs) n = count_list xs n" for xs :: "string list"
    by (metis count_mset mset_sort)
  with Cons show ?case by (auto simp: open_degree_def outgoing_of_def)
qed (simp add: open_degree_def outgoing_of_def)

text \<open>Every point is the best of those whose prerequisites are already placed.\<close>

definition greedy :: "('n \<times> 'n) set \<Rightarrow> 'n set \<Rightarrow> ('n \<Rightarrow> 'k::linorder) \<Rightarrow> 'n list \<Rightarrow> bool" where
  "greedy E nodes key order \<longleftrightarrow>
     (\<forall>xs n ys. order = xs @ n # ys \<longrightarrow> (\<forall>m\<in>nodes - set xs. E\<inverse> `` {m} \<subseteq> set xs \<longrightarrow> key n \<le> key m))"

lemma greedy_snoc:
  "greedy E nodes key (order @ [n]) \<longleftrightarrow> greedy E nodes key order
     \<and> (\<forall>m\<in>nodes - set order. E\<inverse> `` {m} \<subseteq> set order \<longrightarrow> key n \<le> key m)"
  unfolding greedy_def by (auto simp: append_eq_append_conv2 append_eq_Cons_conv Cons_eq_append_conv) blast+

definition schedule_inv :: "kp_id list \<Rightarrow> prerequisite list \<Rightarrow> (kp_id \<Rightarrow> order_key) \<Rightarrow> schedule \<Rightarrow> bool" where
  "schedule_inv nodes es key s \<longleftrightarrow>
     map fst (su_indegree s) = nodes
     \<and> distinct (su_ordered s @ map snd (su_ready s)) \<and> set (su_ordered s @ map snd (su_ready s)) \<subseteq> set nodes
     \<and> (\<forall>n\<in>set nodes. map_of (su_indegree s) n = Some (int (open_degree es (su_ordered s) n)))
     \<and> (\<forall>n\<in>set nodes. n \<in> set (su_ordered s @ map snd (su_ready s)) \<longleftrightarrow> open_degree es (su_ordered s) n = 0)
     \<and> sorted (su_ready s) \<and> (\<forall>ik\<in>set (su_ready s). fst ik = key (snd ik))
     \<and> topological (prerequisite_rel es) (su_ordered s) \<and> greedy (prerequisite_rel es) (set nodes) key (su_ordered s)"

lemma pair_le_fst: "(a :: 'a :: linorder, b :: 'b :: linorder) \<le> (c, d) \<Longrightarrow> a \<le> c"
  by (auto simp: less_eq_prod_def)

lemma schedule_step:
  assumes inv: "schedule_inv nodes es key s" and ready: "su_ready s = (i, k) # rest"
    and within: "prerequisite_rel es \<subseteq> set nodes \<times> set nodes"
  shows "schedule_inv nodes es key
     (fold (schedule_release key) (sort (outgoing_of es k)) (s\<lparr>su_ready := rest, su_ordered := su_ordered s @ [k]\<rparr>))"
    (is "schedule_inv nodes es key (fold _ ?ds ?s)")
proof -
  let ?order = "su_ordered s" and ?s' = "fold (schedule_release key) ?ds ?s"
  have k: "k \<in> set nodes" "k \<notin> set ?order" "k \<notin> snd ` set rest" "i = key k" "open_degree es ?order k = 0"
    using inv ready by (auto simp: schedule_inv_def)
  have degree: "map_of (su_indegree s) n = Some (int (open_degree es ?order n))" if "n \<in> set nodes" for n
    using inv that by (simp add: schedule_inv_def)
  note less = open_degree_snoc [OF k(2), of es]
  have succ: "d \<in> set nodes" if "d \<in> set ?ds" for d
    using that within by (auto simp: outgoing_of_def prerequisite_rel_def)
  have "\<forall>d\<in>set ?ds. \<forall>m. map_of (su_indegree ?s) d = Some m \<longrightarrow> int (count_list ?ds d) \<le> m"
    using degree succ less by (auto simp del: set_sort) (metis le_add2 zle_int)
  from schedule_release_all [OF this, of key] obtain new where
    s': "su_ordered ?s' = ?order @ [k]" "map fst (su_indegree ?s') = nodes"
      "\<And>n. map_of (su_indegree ?s') n = map_option (\<lambda>m. m - int (count_list ?ds n)) (map_of (su_indegree s) n)"
      "sorted rest \<longrightarrow> sorted (su_ready ?s')" "mset (su_ready ?s') = mset rest + mset (map (\<lambda>d. (key d, d)) new)"
      "distinct new" "set new = {d \<in> set ?ds. map_of (su_indegree s) d = Some (int (count_list ?ds d))}"
    using inv by (auto simp: schedule_inv_def)
  have new: "set new = {d \<in> set ?ds. open_degree es (?order @ [k]) d = 0}"
    unfolding s'(7) using degree succ less by (auto simp del: set_sort) (metis add_cancel_left_left nat_int)+
  have members: "set (su_ready ?s') = set rest \<union> (\<lambda>d. (key d, d)) ` set new"
    using arg_cong [OF s'(5), of set_mset] by simp
  have placed: "n \<in> set ?order \<or> n = k \<or> n \<in> snd ` set rest \<longleftrightarrow> open_degree es ?order n = 0" if "n \<in> set nodes" for n
    using inv ready that by (auto simp: schedule_inv_def)
  have fresh: "d \<notin> set ?order \<and> d \<noteq> k \<and> d \<notin> snd ` set rest" if "d \<in> set ?ds" for d
  proof -
    from that have "0 < count_list ?ds d" by (metis count_list_0_iff gr0I)
    with less [of d] have "open_degree es ?order d \<noteq> 0" by simp
    with placed [OF succ [OF that]] show ?thesis by blast
  qed
  have items: "mset (map snd (su_ready ?s')) = mset (map snd rest @ new)"
    using arg_cong [OF s'(5), of "image_mset snd"] by (simp add: multiset.map_comp o_def)
  have names: "set (map snd (su_ready ?s')) = snd ` set rest \<union> set new"
    using mset_eq_setD [OF items] by simp
  have "distinct (map snd rest)" "set ?order \<inter> snd ` set rest = {}" "distinct ?order"
    and sub: "set ?order \<union> snd ` set rest \<subseteq> set nodes"
    using inv ready by (auto simp: schedule_inv_def)
  moreover have apart: "set new \<inter> (set ?order \<union> {k} \<union> snd ` set rest) = {}" using fresh unfolding new by blast
  ultimately have distinct: "distinct (su_ordered ?s' @ map snd (su_ready ?s'))"
    using s'(6) k(2,3) mset_eq_imp_distinct_iff [OF items] unfolding s'(1) distinct_append names by auto
  have "set new \<subseteq> set nodes" using succ unfolding new by blast
  with sub k(1) have nodes: "set (su_ordered ?s' @ map snd (su_ready ?s')) \<subseteq> set nodes"
    unfolding s'(1) set_append names by auto
  have degrees: "map_of (su_indegree ?s') n = Some (int (open_degree es (su_ordered ?s') n))" if "n \<in> set nodes" for n
    using less [of n] unfolding s'(1,3) degree [OF that] by (simp del: sort_key_simps set_sort)
  have available: "n \<in> set (su_ordered ?s' @ map snd (su_ready ?s')) \<longleftrightarrow> open_degree es (su_ordered ?s') n = 0"
    if "n \<in> set nodes" for n
  proof (cases "n \<in> set ?ds")
    case True
    then show ?thesis using fresh [OF True] unfolding set_append names s'(1) new by auto
  next
    case False
    then have "count_list ?ds n = 0" by (simp add: count_list_0_iff del: set_sort)
    with less [of n] have "open_degree es (?order @ [k]) n = open_degree es ?order n" by simp
    with placed [OF that] False show ?thesis unfolding set_append names s'(1) new by auto
  qed
  have best: "key k \<le> key m" if m: "m \<in> set nodes - set ?order" "(prerequisite_rel es)\<inverse> `` {m} \<subseteq> set ?order" for m
  proof -
    have "m = k \<or> m \<in> snd ` set rest" using placed [of m] m open_degree_0_iff [of es ?order m] by simp
    then show ?thesis
    proof
      assume "m \<in> snd ` set rest"
      then obtain j where j: "(j, m) \<in> set rest" by auto
      have "sorted (su_ready s)" "\<forall>ik\<in>set (su_ready s). fst ik = key (snd ik)"
        using inv by (simp_all add: schedule_inv_def)
      with j ready have "(i, k) \<le> (j, m)" "j = key m" by auto
      then show ?thesis using k(4) pair_le_fst by simp
    qed simp
  qed
  have "topological (prerequisite_rel es) (su_ordered ?s')" "greedy (prerequisite_rel es) (set nodes) key (su_ordered ?s')"
    using inv k(2,5) best unfolding s'(1) topological_snoc greedy_snoc schedule_inv_def open_degree_0_iff by blast+
  moreover have "sorted (su_ready ?s')" using inv ready s'(4) by (simp add: schedule_inv_def)
  moreover have "\<forall>ik\<in>set (su_ready ?s'). fst ik = key (snd ik)"
    using inv ready unfolding members by (auto simp: schedule_inv_def)
  ultimately show ?thesis using distinct nodes degrees available s'(2) unfolding schedule_inv_def by blast
qed

lemma schedule_loop_inv:
  assumes "schedule_inv nodes es key s" "prerequisite_rel es \<subseteq> set nodes \<times> set nodes"
  shows "schedule_inv nodes es key (schedule_loop (outgoing_of es) key s) \<and> su_ready (schedule_loop (outgoing_of es) key s) = []"
  using assms
proof (induction "outgoing_of es" key s rule: schedule_loop.induct)
  case (1 key s)
  show ?case
  proof (cases "su_ready s")
    case Nil
    with 1 show ?thesis by (simp add: schedule_loop.simps [of _ key s])
  next
    case (Cons ik rest)
    obtain i k where ik: "ik = (i, k)" by (rule prod.exhaust)
    from 1(1) [OF Cons ik [symmetric] schedule_step [OF 1(2) Cons [unfolded ik] 1(3)] 1(3)] Cons ik show ?thesis
      by (simp add: schedule_loop.simps [of _ key s])
  qed
qed

lemma distinct_map_sort: "distinct (map f (sort xs)) \<longleftrightarrow> distinct (map f xs)"
  by (rule mset_eq_imp_distinct_iff) (simp only: mset_map mset_sort)

lemma new_schedule_inv:
  assumes "prerequisite_rel es \<subseteq> set nodes \<times> set nodes" "distinct nodes"
  shows "schedule_inv nodes es key (new_schedule key nodes es)"
proof -
  define I where "I = fold (\<lambda>e. add_at (pq_dependent_kp_id e) 1) es (map (\<lambda>k. (k, 0)) nodes)"
  have run: "map fst (fold (\<lambda>e. add_at (pq_dependent_kp_id e) 1) xs al) = map fst al
      \<and> map_of (fold (\<lambda>e. add_at (pq_dependent_kp_id e) 1) xs al) n
        = map_option (\<lambda>k. k + int (open_degree xs [] n)) (map_of al n)" for xs al n
    by (induction xs arbitrary: al) (auto simp: open_degree_def option.map_comp o_def option.map_ident ac_simps)
  have zero: "map_of (map (\<lambda>k. (k, 0 :: int)) nodes) n = Some 0" if "n \<in> set nodes" for n
    using that by (induction nodes) auto
  have keys: "map fst I = nodes" using run by (simp add: I_def o_def)
  have degree: "map_of I n = Some (int (open_degree es [] n))" if "n \<in> set nodes" for n
    using run zero [OF that] by (simp add: I_def)
  have members: "(n, m) \<in> set I \<longleftrightarrow> n \<in> set nodes \<and> m = int (open_degree es [] n)" for n m
  proof -
    have "(n, m) \<in> set I \<longleftrightarrow> map_of I n = Some m" using assms(2) keys by (simp add: map_of_eq_Some_iff)
    moreover have "map_of I n = None" if "n \<notin> set nodes"
      using that keys by (simp add: map_of_eq_None_iff flip: set_map)
    ultimately show ?thesis using degree [of n] by (cases "n \<in> set nodes") auto
  qed
  let ?ready = "map (\<lambda>(k, _). (key k, k)) (filter (\<lambda>(_, degree). degree = 0) I)"
  have names: "map snd ?ready = map fst (filter (\<lambda>(_, degree). degree = 0) I)"
    by (simp add: o_def case_prod_unfold)
  have "distinct (map snd ?ready)" unfolding names using assms(2) keys by (metis distinct_map_filter)
  then have "distinct (map snd (sort ?ready))" by (simp only: distinct_map_sort)
  moreover have "set (map snd (sort ?ready)) = {n \<in> set nodes. open_degree es [] n = 0}"
  proof -
    have "set (map snd (sort ?ready)) = set (map snd ?ready)" by (simp only: set_map set_sort)
    also have "\<dots> = fst ` {x \<in> set I. snd x = 0}" unfolding names by (simp add: case_prod_unfold)
    also have "\<dots> = {n. (n, 0) \<in> set I}" by (auto simp: image_iff Bex_def)
    also have "\<dots> = {n \<in> set nodes. open_degree es [] n = 0}" by (auto simp: members)
    finally show ?thesis .
  qed
  ultimately show ?thesis
    using degree keys by (auto simp: schedule_inv_def new_schedule_def Let_def greedy_def simp flip: I_def)
qed

lemma acyclic_minimal:
  assumes "finite E" "acyclic E" "S \<noteq> {}"
  shows "\<exists>n\<in>S. E\<inverse> `` {n} \<inter> S = {}"
proof -
  have "wf E" using assms(1,2) by (rule finite_acyclic_wf)
  with assms(3) obtain n where "n \<in> S" "\<And>p. (p, n) \<in> E \<Longrightarrow> p \<notin> S" by (metis ex_in_conv wfE_min)
  then show ?thesis by blast
qed

lemma schedule_complete:
  assumes "prerequisite_rel es \<subseteq> set nodes \<times> set nodes" "distinct nodes" "acyclic (prerequisite_rel es)"
    and "ordered = su_ordered (schedule_loop (outgoing_of es) key (new_schedule key nodes es))"
  shows "set ordered = set nodes \<and> length ordered = length nodes \<and> topological (prerequisite_rel es) ordered
    \<and> greedy (prerequisite_rel es) (set nodes) key ordered"
proof -
  let ?s = "schedule_loop (outgoing_of es) key (new_schedule key nodes es)"
  from schedule_loop_inv [OF new_schedule_inv [OF assms(1,2)] assms(1)]
  have inv: "schedule_inv nodes es key ?s" and ready: "su_ready ?s = []" by simp_all
  have all: "set ordered = set nodes"
  proof (rule ccontr)
    assume "set ordered \<noteq> set nodes"
    moreover have "set ordered \<subseteq> set nodes" using inv ready by (simp add: schedule_inv_def assms(4))
    ultimately have "set nodes - set ordered \<noteq> {}" by blast
    from acyclic_minimal [OF _ assms(3) this] obtain n where
      n: "n \<in> set nodes" "n \<notin> set ordered" "(prerequisite_rel es)\<inverse> `` {n} \<inter> (set nodes - set ordered) = {}"
      by (auto simp: prerequisite_rel_def)
    with assms(1) have "(prerequisite_rel es)\<inverse> `` {n} \<subseteq> set ordered" by blast
    then have "open_degree es ordered n = 0" by (simp add: open_degree_0_iff)
    with inv ready n(1,2) show False by (simp add: schedule_inv_def assms(4))
  qed
  moreover have "distinct ordered" using inv by (simp add: schedule_inv_def assms(4))
  ultimately show ?thesis using inv assms(2) distinct_card [of ordered] distinct_card [of nodes]
    by (simp add: schedule_inv_def assms(4))
qed

text \<open>Positions in a list without repetition.\<close>

lemma position_Cons: "position (x # xs) k = (if x = k then 0 else Suc (position xs k))"
  by (simp add: position_def)

lemma position_nth: "distinct xs \<Longrightarrow> i < length xs \<Longrightarrow> position xs (xs ! i) = i"
proof (induction xs arbitrary: i)
  case (Cons x xs)
  then show ?case by (cases i) (auto simp: position_Cons nth_eq_iff_index_eq)
qed simp

lemma position_in: "k \<in> set xs \<Longrightarrow> position xs k < length xs \<and> xs ! position xs k = k"
  by (induction xs) (auto simp: position_Cons)

lemma map_position: "distinct xs \<Longrightarrow> map (position xs) xs = [0..<length xs]"
  by (rule nth_equalityI) (simp_all add: position_nth)

lemma neighbours_sorted:
  "(\<forall>(l, r) \<in> set (zip xs (tl xs)). f l \<le> f r) \<longleftrightarrow> sorted (map f xs)" for f :: "'a \<Rightarrow> nat"
proof (induction xs)
  case (Cons x xs)
  then show ?case by (cases xs) (auto intro: order_trans)
qed simp

lemma in_relative_order:
  assumes "distinct order" "distinct ms" "set ms \<subseteq> set order"
  shows "sorted (map (position order) ms) \<longleftrightarrow> filter (\<lambda>k. k \<in> set ms) order = ms"
proof
  let ?kept = "filter (\<lambda>k. k \<in> set ms) order"
  have inj: "inj_on (position order) (set order)" by (metis inj_onI position_in)
  have "sorted (map (position order) order)" unfolding map_position [OF assms(1)] by simp
  then have kept: "sorted (map (position order) ?kept)" by (rule sorted_filter)
  show "?kept = ms" if "sorted (map (position order) ms)"
  proof -
    have sets: "set ?kept = set ms" using assms(3) by auto
    have "map (position order) ?kept = map (position order) ms"
    proof (rule sorted_distinct_set_unique [OF kept _ that])
      show "distinct (map (position order) ?kept)" "distinct (map (position order) ms)"
        using assms inj by (auto simp: distinct_map intro: inj_on_subset)
      show "set (map (position order) ?kept) = set (map (position order) ms)" using sets by simp
    qed
    moreover have "inj_on (position order) (set ?kept \<union> set ms)" using inj assms(3) by (rule_tac inj_on_subset) auto
    ultimately show ?thesis by (rule map_inj_on)
  qed
  show "sorted (map (position order) ms)" if "?kept = ms" using kept that by simp
qed

lemma manual_order_followed:
  assumes "topological E ms" "set ms \<subseteq> set selected" "distinct selected" "distinct order" "set order = set selected"
    and "greedy E (set selected) (order_key_of selected ms tiers score) order"
  shows "take (length ms) order = ms"
proof -
  have ms: "distinct ms" using assms(1) by (simp add: topological_def)
  have len: "length ms \<le> length order" "length order = length selected"
    using assms(2-5) ms by (metis card_mono distinct_card List.finite_set)+
  have "take i order = take i ms" if "i \<le> length ms" for i
    using that
  proof (induction i)
    case (Suc i)
    then have i: "i < length ms" "i < length order" "take i order = take i ms" using len(1) by simp_all
    let ?n = "order ! i" and ?m = "ms ! i"
    have order: "order = take i ms @ ?n # drop (Suc i) order" using id_take_nth_drop [OF i(2)] i(3) by simp
    have "ms = take i ms @ ?m # drop (Suc i) ms" using id_take_nth_drop [OF i(1)] .
    then have avail: "E\<inverse> `` {?m} \<subseteq> set (take i ms)" "?m \<notin> set (take i ms)"
      using assms(1) ms unfolding topological_def by (metis, metis disjoint_insert(1) distinct_append list.simps(15))
    have "?m \<in> set selected" using assms(2) i(1) by auto
    with assms(6) order avail have key: "order_key_of selected ms tiers score ?n \<le> order_key_of selected ms tiers score ?m"
      unfolding greedy_def by blast
    have m: "order_key_of selected ms tiers score ?m = (int i, tier_rank (tiers ?m), - score ?m, ?m)"
      using position_nth [OF ms i(1)] i(1) by (simp add: order_key_of_def)
    have "?n = ?m"
    proof (cases "?n \<in> set ms")
      case True
      with key m have "position ms ?n \<le> i" by (auto simp: order_key_of_def dest!: pair_le_fst)
      moreover have "?n \<notin> set (take i ms)" using assms(4) order by (metis disjoint_insert(1) distinct_append list.simps(15))
      then have "i \<le> position ms ?n" using position_in [OF True] by (metis in_set_conv_nth length_take min_less_iff_conj not_le nth_take)
      ultimately show ?thesis using position_in [OF True] by simp
    next
      case False
      with key m have "int (length selected) + 1 \<le> int i" by (auto simp: order_key_of_def dest!: pair_le_fst)
      with i len show ?thesis by simp
    qed
    with i show ?case by (simp add: take_Suc_conv_app_nth)
  qed simp
  from this [of "length ms"] show ?thesis by simp
qed

lemma acyclic_within:
  assumes "acyclic (prerequisite_rel es)"
  shows "acyclic (prerequisite_rel (edges_within selected es))"
    and "prerequisite_rel (edges_within selected es) \<subseteq> set selected \<times> set selected"
  using acyclic_subset [OF assms, of "prerequisite_rel (edges_within selected es)"]
  by (auto simp: prerequisite_rel_def edges_within_def)

lemma ordered_nodes_spec:
  assumes "distinct selected" "acyclic (prerequisite_rel edges)"
  defines "E \<equiv> prerequisite_rel (edges_within selected edges)"
  shows "case ordered_nodes selected edges score tiers manual_order of
      Inl e \<Rightarrow> e = Path_value_error \<and> (\<exists>ms. manual_order = Some ms \<and> \<not> (distinct ms \<and> set ms \<subseteq> set selected))
    | Inr (order, repairs) \<Rightarrow>
        topological E order \<and> set order = set selected
        \<and> (case manual_order of
             None \<Rightarrow> greedy E (set selected) (order_key_of selected [] tiers score) order \<and> repairs = []
           | Some ms \<Rightarrow> greedy E (set selected) (order_key_of selected ms tiers score) order
               \<and> (take (length ms) order = ms \<longleftrightarrow> topological E ms)
               \<and> (repairs = [] \<longleftrightarrow> filter (\<lambda>k. k \<in> set ms) order = ms))"
proof -
  let ?manual = "case manual_order of None \<Rightarrow> [] | Some ms \<Rightarrow> ms"
  let ?key = "order_key_of selected ?manual tiers score" and ?inner = "edges_within selected edges"
  let ?order = "su_ordered (schedule_loop (outgoing_of ?inner) ?key (new_schedule ?key selected ?inner))"
  note within = acyclic_within [OF assms(2), of selected]
  have R: "set ?order = set selected" "length ?order = length selected" "topological E ?order"
    "greedy E (set selected) ?key ?order"
    using schedule_complete [OF within(2) assms(1) within(1) refl] by (simp_all add: E_def)
  then have dist: "distinct ?order" by (simp add: topological_def)
  show ?thesis
  proof (cases "set ?manual \<subseteq> set selected \<and> distinct ?manual")
    case False
    then show ?thesis by (cases manual_order) (auto simp: ordered_nodes_def Let_def)
  next
    case True
    have requested: "filter (\<lambda>k. k \<in> set selected) ?manual = ?manual" using True by (auto simp: filter_id_conv)
    have order: "ordered_nodes selected edges score tiers manual_order = Inr (?order,
        if manual_order \<noteq> None \<and> \<not> sorted (map (position ?order) ?manual) then [manual_repair] else [])"
      using True R(2) neighbours_sorted [of ?manual "position ?order"]
      by (auto simp: ordered_nodes_def Let_def requested list_ex_iff not_less)
    show ?thesis
    proof (cases manual_order)
      case None
      with order R show ?thesis by simp
    next
      case (Some ms)
      have "take (length ms) ?order = ms" if "topological E ms"
        using manual_order_followed [OF that _ assms(1) dist R(1)] True R(4) Some by simp
      moreover have "topological E ms" if "take (length ms) ?order = ms"
        using R(3) that topological_append append_take_drop_id by metis
      moreover have "sorted (map (position ?order) ms) \<longleftrightarrow> filter (\<lambda>k. k \<in> set ms) ?order = ms"
        using in_relative_order [OF dist, of ms] True Some R(1) by simp
      ultimately show ?thesis using Some order R by auto
    qed
  qed
qed

subsection \<open>What the repair reports\<close>

text \<open>The edges that a repair removes one after another, each the weakest of a cycle.\<close>

fun removal_sequence :: "prerequisite list \<Rightarrow> prerequisite list \<Rightarrow> prerequisite list \<Rightarrow> bool" where
  "removal_sequence es [] kept \<longleftrightarrow> kept = es"
| "removal_sequence es (e # removed) kept \<longleftrightarrow>
     (\<exists>cycle. closed_walk (prerequisite_rel es) cycle \<and> e \<in> set (cycle_candidates cycle es)
        \<and> (\<forall>e'\<in>set (cycle_candidates cycle es). edge_removal_key e \<le> edge_removal_key e'))
     \<and> removal_sequence (remove1 e es) removed kept"

lemma removal_sequence_mset: "removal_sequence es removed kept \<Longrightarrow> mset removed + mset kept = mset es"
proof (induction removed arbitrary: es)
  case (Cons e removed)
  then have "e \<in># mset es" by (auto simp: cycle_candidates_def)
  moreover have "mset removed + mset kept = mset (remove1 e es)" using Cons.prems by (intro Cons.IH) simp
  then have "mset removed + mset kept = mset es - {#e#}" by simp
  ultimately show ?case by (simp add: insert_DiffM)
qed simp

text \<open>The reports: of an edge that was not usable, and of one that was removed from a cycle.\<close>

definition dropped_repair :: "kp_id set \<Rightarrow> prerequisite \<Rightarrow> graph_repair" where
  "dropped_repair active e = (let p = pq_prerequisite_kp_id e; d = pq_dependent_kp_id e in
     if p = d then \<lparr>gp_code = ''SELF_EDGE_REMOVED'', gp_edge_id = Some (pq_edge_id e), gp_detail = p\<rparr>
     else \<lparr>gp_code = ''UNKNOWN_ENDPOINT_REMOVED'', gp_edge_id = Some (pq_edge_id e),
            gp_detail = join_comma (sorted_list_of_set ({p, d} - active))\<rparr>)"

definition cycle_repair :: "prerequisite \<Rightarrow> graph_repair" where
  "cycle_repair e = \<lparr>gp_code = ''CYCLE_EDGE_REMOVED'', gp_edge_id = Some (pq_edge_id e),
     gp_detail = pq_prerequisite_kp_id e @ ''->'' @ pq_dependent_kp_id e\<rparr>"

lemma screen_edges_repairs:
  "snd (screen_edges active es) = map (dropped_repair (set active)) (filter (\<lambda>e. \<not> (pq_prerequisite_kp_id e \<noteq> pq_dependent_kp_id e
     \<and> pq_prerequisite_kp_id e \<in> set active \<and> pq_dependent_kp_id e \<in> set active)) es)"
proof (induction es)
  case (Cons e es)
  let ?p = "pq_prerequisite_kp_id e" and ?d = "pq_dependent_kp_id e"
  have "set (filter (\<lambda>k. k \<notin> set active) [?p, ?d]) = {?p, ?d} - set active" by auto
  then have "sorted_set (filter (\<lambda>k. k \<notin> set active) [?p, ?d]) = sorted_list_of_set ({?p, ?d} - set active)"
    by (metis set_sorted_set sorted_sorted_set distinct_sorted_set sorted_list_of_set.idem_if_sorted_distinct)
  with Cons show ?case by (auto simp: Let_def dropped_repair_def split: prod.splits)
qed simp

lemma break_cycles_repairs:
  assumes "prerequisite_rel es \<subseteq> set active \<times> set active" "break_cycles active es repairs = Inr (kept, m, rs)"
  shows "\<exists>removed. removal_sequence es removed kept \<and> rs = repairs @ map cycle_repair removed"
  using assms
proof (induction active es repairs rule: break_cycles.induct)
  case (1 active es repairs)
  note cases = analyze_topology_cases [of active "map topology_edge_of es", unfolded edge_rel_topology]
  show ?case
  proof (cases "analyze_topology active (map topology_edge_of es)")
    case (Inr m')
    with 1(3) show ?thesis by (intro exI [of _ "[]"]) (simp add: break_cycles.simps [of active es])
  next
    case (Inl err)
    with cases 1(2) obtain c where c: "err = Topology_cycle c" "closed_walk (prerequisite_rel es) c" by auto
    obtain e rest where srt: "sort_key edge_removal_key (cycle_candidates c es) = e # rest"
      using closed_walk_candidate [OF c(2)] by (metis neq_Nil_conv set_empty set_sort)
    have "prerequisite_rel (remove1 e es) \<subseteq> set active \<times> set active" using prerequisite_rel_remove1 1(2) by blast
    moreover have "break_cycles active (remove1 e es) (repairs @ [cycle_repair e]) = Inr (kept, m, rs)"
      using 1(3) Inl c(1) srt by (simp add: break_cycles.simps [of active es] cycle_repair_def)
    ultimately obtain removed where "removal_sequence (remove1 e es) removed kept" "rs = (repairs @ [cycle_repair e]) @ map cycle_repair removed"
      using 1(1) [OF Inl c(1) srt] unfolding cycle_repair_def by blast
    with least_candidate [OF srt] c(2) show ?thesis
      by (intro exI [of _ "e # removed"]) (auto simp: cycle_candidates_def)
  qed
qed

lemma sanitize_graph_repairs:
  assumes "sanitize_graph gs = Inr g"
  shows "\<exists>removed. removal_sequence (usable_edges gs) removed (sg_prerequisites g)
    \<and> sg_repairs g = map (dropped_repair (kn_kp_id ` set (active_points gs)))
        (filter (\<lambda>e. e \<notin> set (usable_edges gs)) (sort_key pq_edge_id (gs_prerequisites gs))) @ map cycle_repair removed"
proof -
  let ?active = "map kn_kp_id (active_points gs)" and ?es = "sort_key pq_edge_id (gs_prerequisites gs)"
  have screened: "fst (screen_edges ?active ?es) = usable_edges gs"
    using screen_edges_spec [of ?active ?es] by (simp add: usable_edges_def Let_def)
  have "prerequisite_rel (usable_edges gs) \<subseteq> set ?active \<times> set ?active"
    by (auto simp: prerequisite_rel_def usable_edges_def Let_def)
  moreover from assms obtain m where "break_cycles ?active (usable_edges gs) (snd (screen_edges ?active ?es))
      = Inr (sg_prerequisites g, m, sg_repairs g)"
    by (auto simp: sanitize_graph_def Let_def case_prod_unfold screened rbind_Inr_iff split: if_splits)
  ultimately obtain removed where "removal_sequence (usable_edges gs) removed (sg_prerequisites g)"
      "sg_repairs g = snd (screen_edges ?active ?es) @ map cycle_repair removed" using break_cycles_repairs by blast
  moreover have "filter (\<lambda>e. \<not> (pq_prerequisite_kp_id e \<noteq> pq_dependent_kp_id e
     \<and> pq_prerequisite_kp_id e \<in> set ?active \<and> pq_dependent_kp_id e \<in> set ?active)) ?es = filter (\<lambda>e. e \<notin> set (usable_edges gs)) ?es"
    by (rule filter_cong) (auto simp: usable_edges_def Let_def)
  then have "snd (screen_edges ?active ?es) = map (dropped_repair (kn_kp_id ` set (active_points gs))) (filter (\<lambda>e. e \<notin> set (usable_edges gs)) ?es)"
    unfolding screen_edges_repairs by (simp only: set_map)
  ultimately show ?thesis by (intro exI [of _ removed]) simp
qed

text \<open>
  C34.  Repair of the knowledge graph.  The repair succeeds for every graph with an active point and
  returns an acyclic graph.  It gets there by removing edges one at a time, each time the weakest (supporting
  before recommended before required, then by strength) of the edges that join two points of some cycle; it
  removes nothing if and only if the usable edges form no cycle.  Its repairs report exactly the edges that it drops, each with its
  identifier, the reason and the points: first the unusable edges in the order of their identifiers, then those removed from cycles, in
  the order of removal.
\<close>

theorem path_graph_repaired:
  "case sanitize_graph gs of
     Inl e \<Rightarrow> e = Path_value_error \<and> active_points gs = []
   | Inr g \<Rightarrow> active_points gs \<noteq> [] \<and> sg_knowledge_points g = active_points gs
       \<and> acyclic (prerequisite_rel (sg_prerequisites g)) \<and> breaks_cycle\<^sup>*\<^sup>* (usable_edges gs) (sg_prerequisites g)
       \<and> (sg_prerequisites g = usable_edges gs \<longleftrightarrow> acyclic (prerequisite_rel (usable_edges gs)))
       \<and> (\<exists>removed. removal_sequence (usable_edges gs) removed (sg_prerequisites g)
            \<and> mset removed + mset (sg_prerequisites g) = mset (usable_edges gs)
            \<and> sg_repairs g = map (dropped_repair (kn_kp_id ` set (active_points gs)))
                (filter (\<lambda>e. e \<notin> set (usable_edges gs)) (sort_key pq_edge_id (gs_prerequisites gs))) @ map cycle_repair removed)"
proof (cases "sanitize_graph gs")
  case (Inl e)
  with sanitize_graph_spec [of gs] show ?thesis by auto
next
  case (Inr g)
  with sanitize_graph_spec [of gs] have g: "active_points gs \<noteq> []" "sg_knowledge_points g = active_points gs"
      "acyclic (prerequisite_rel (sg_prerequisites g))" "breaks_cycle\<^sup>*\<^sup>* (usable_edges gs) (sg_prerequisites g)" by fastforce+
  obtain removed where removed: "removal_sequence (usable_edges gs) removed (sg_prerequisites g)"
      "sg_repairs g = map (dropped_repair (kn_kp_id ` set (active_points gs)))
         (filter (\<lambda>e. e \<notin> set (usable_edges gs)) (sort_key pq_edge_id (gs_prerequisites gs))) @ map cycle_repair removed"
    using sanitize_graph_repairs [OF Inr] by blast
  have "sg_prerequisites g = usable_edges gs \<longleftrightarrow> acyclic (prerequisite_rel (usable_edges gs))"
    using acyclic_unbroken [OF g(4)] g(3) by auto
  with g removed removal_sequence_mset [OF removed(1)] show ?thesis unfolding Inr sum.case by (intro conjI exI [of _ removed])
qed

end
