(* ===== verification/PathPlanning.thy ===== *)
theory PathPlanning
  imports PathGraph
begin

text \<open>
  The adaptive path planner, \<^verbatim>\<open>AdaptivePathPlanner\<close> of
  \<^verbatim>\<open>backend/src/liyans/domains/topic2/path_planning.py\<close>: the policy, the score and tier of a point, the
  nodes of a path, and the path snapshot and change record that a plan returns.  The identifiers that the code draws
  with \<^verbatim>\<open>uuid4\<close> are arguments; the hash of a document is a parameter.
\<close>

subsection \<open>Policy, scores and tiers\<close>

record path_policy =
  po_version :: string
  po_prerequisite_mastery_threshold :: rat
  po_extension_mastery_threshold :: rat
  po_reinforcement_memory_risk :: rat
  po_weights :: "(string \<times> rat) list"

definition default_path_policy :: path_policy where
  "default_path_policy =
     \<lparr>po_version = ''topic2.path-policy.v1'', po_prerequisite_mastery_threshold = fl (6/10),
      po_extension_mastery_threshold = fl (8/10), po_reinforcement_memory_risk = fl (3/10),
      po_weights = [(''mastery_deficit'', fl (25/100)), (''memory_risk'', fl (20/100)),
        (''misconception_severity'', fl (15/100)), (''goal_alignment'', fl (15/100)),
        (''topology_weight'', fl (10/100)), (''difficulty_pace_fit'', fl (8/100)),
        (''prerequisite_readiness'', fl (7/100))]\<rparr>"

definition valid_path_policy :: "path_policy \<Rightarrow> bool" where
  "valid_path_policy p \<longleftrightarrow>
     unit_score (po_prerequisite_mastery_threshold p) \<and> unit_score (po_extension_mastery_threshold p)
     \<and> unit_score (po_reinforcement_memory_risk p)
     \<and> \<not> fl (1 / 10 ^ 12) < \<bar>fsub (fsum (map snd (po_weights p))) 1\<bar> \<and> distinct (map fst (po_weights p))"

record score_components =
  sn_mastery_deficit :: rat
  sn_memory_risk :: rat
  sn_misconception_severity :: rat
  sn_goal_alignment :: rat
  sn_topology_weight :: rat
  sn_difficulty_pace_fit :: rat
  sn_prerequisite_readiness :: rat

definition component_items :: "score_components \<Rightarrow> (string \<times> rat) list" where
  "component_items c =
     [(''mastery_deficit'', sn_mastery_deficit c), (''memory_risk'', sn_memory_risk c),
      (''misconception_severity'', sn_misconception_severity c), (''goal_alignment'', sn_goal_alignment c),
      (''topology_weight'', sn_topology_weight c), (''difficulty_pace_fit'', sn_difficulty_pace_fit c),
      (''prerequisite_readiness'', sn_prerequisite_readiness c)]"

definition mastery_prefix :: string where "mastery_prefix = ''kp:''"
definition mastery_suffix :: string where "mastery_suffix = '':mastery''"

definition mastery_by_kp :: "student_profile \<Rightarrow> kp_id \<rightharpoonup> rat" where
  "mastery_by_kp p =
     fold (\<lambda>f result.
         let key = pf_feature_key f
         in if pf_dimension f = PD_KNOWLEDGE_MASTERY \<and> take (length mastery_prefix) key = mastery_prefix
               \<and> length mastery_suffix \<le> length key
               \<and> drop (length key - length mastery_suffix) key = mastery_suffix
            then result(drop (length mastery_prefix) (take (length key - length mastery_suffix) key)
                          \<mapsto> pf_normalized_score f)
            else result)
       (sp_features p) Map.empty"

definition misconception_by_kp :: "student_profile \<Rightarrow> kp_id \<rightharpoonup> rat" where
  "misconception_by_kp p =
     fold (\<lambda>f result.
         if pf_dimension f \<noteq> PD_MISCONCEPTION_PREFERENCE then result
         else case map_of (pf_value_document f) ''kp_id'' of
                Some (DStr k) \<Rightarrow>
                  result(k \<mapsto> max (case result k of None \<Rightarrow> 0 | Some s \<Rightarrow> s) (pf_normalized_score f))
              | _ \<Rightarrow> result)
       (sp_features p) Map.empty"

definition get_or :: "('k \<rightharpoonup> 'v) \<Rightarrow> 'k \<Rightarrow> 'v \<Rightarrow> 'v" where
  "get_or m k d = (case m k of None \<Rightarrow> d | Some v \<Rightarrow> v)"

definition readiness_value :: "student_profile \<Rightarrow> (kp_id \<rightharpoonup> rat) \<Rightarrow> (kp_id \<rightharpoonup> memory_state) \<Rightarrow> kp_id \<Rightarrow> rat" where
  "readiness_value profile mastery memory k =
     fadd (fmul (fl (7/10)) (get_or mastery k (sp_knowledge_mastery profile)))
          (fmul (fl (3/10)) (case memory k of Some m \<Rightarrow> my_retrievability m | None \<Rightarrow> 0))"

definition score_components_of ::
  "sanitized_graph \<Rightarrow> student_profile \<Rightarrow> (kp_id \<rightharpoonup> rat) \<Rightarrow> (kp_id \<rightharpoonup> memory_state) \<Rightarrow> (kp_id \<rightharpoonup> rat)
     \<Rightarrow> kp_id list option \<Rightarrow> kp_id list \<Rightarrow> kp_id \<Rightarrow> knowledge_point \<Rightarrow> score_components" where
  "score_components_of g profile mastery memory misconception targets selected k point =
     (let memory_risk = (case memory k of Some m \<Rightarrow> fsub 1 (my_retrievability m) | None \<Rightarrow> 1);
          required = filter (\<lambda>e. pq_relation_type e = PT_REQUIRED) (incoming_edges (sg_prerequisites g) selected k);
          readiness_values = map (\<lambda>e. readiness_value profile mastery memory (pq_prerequisite_kp_id e)) required;
          readiness = (if readiness_values = [] then 1
                       else fdiv (fsum readiness_values) (of_nat (length readiness_values)));
          capability = fadd (fmul (fl (6/10)) (sp_problem_solving_proficiency profile))
                            (fmul (fl (4/10)) (sp_learning_pace profile));
          goal_alignment = (if (case targets of Some ts \<Rightarrow> k \<in> set ts | None \<Rightarrow> False) then 1
                            else fsub 1 \<bar>fsub (kn_difficulty_score point) (sp_learning_goal_tendency profile)\<bar>)
      in \<lparr>sn_mastery_deficit = py_round (fsub 1 (get_or mastery k (sp_knowledge_mastery profile))) 12,
          sn_memory_risk = py_round memory_risk 12,
          sn_misconception_severity = py_round (get_or misconception k 0) 12,
          sn_goal_alignment = py_round goal_alignment 12,
          sn_topology_weight = py_round (if k \<in> set (kp_ids g) then sg_topology_weights g k else 0) 12,
          sn_difficulty_pace_fit = py_round (fsub 1 \<bar>fsub (kn_difficulty_score point) capability\<bar>) 12,
          sn_prerequisite_readiness = py_round readiness 12\<rparr>)"

definition total_score :: "path_policy \<Rightarrow> score_components \<Rightarrow> path_error + rat" where
  "total_score policy c =
     rbind (map_ok (\<lambda>(name, value). case map_of (rev (po_weights policy)) name of
                      None \<Rightarrow> Inl Path_key_error
                    | Some weight \<Rightarrow> Inr (fmul weight value)) (component_items c))
       (\<lambda>products. Inr (py_round (fsum products) 12))"

definition tier_of :: "path_policy \<Rightarrow> knowledge_point \<Rightarrow> score_components \<Rightarrow> student_profile \<Rightarrow> learning_tier" where
  "tier_of policy point c profile =
     (let mastery = fsub 1 (sn_mastery_deficit c)
      in if po_reinforcement_memory_risk policy \<le> sn_memory_risk c \<or> fl (4/10) \<le> sn_misconception_severity c
            \<or> fl (4/10) \<le> mastery \<and> mastery < po_extension_mastery_threshold policy
         then LT_REINFORCEMENT
         else if po_extension_mastery_threshold policy \<le> mastery \<and> fl (65/100) \<le> sp_learning_goal_tendency profile
                 \<and> po_prerequisite_mastery_threshold policy \<le> sn_prerequisite_readiness c
                 \<and> fl (55/100) \<le> kn_difficulty_score point
         then LT_EXTENSION
         else LT_FOUNDATION)"

definition rationale_codes :: "score_components \<Rightarrow> learning_tier \<Rightarrow> string list" where
  "rationale_codes c tier =
     [''TIER_'' @ tier_value tier]
     @ (if fl (3/10) \<le> sn_memory_risk c then [''MEMORY_REVIEW_DUE''] else [])
     @ (if fl (4/10) \<le> sn_mastery_deficit c then [''MASTERY_DEFICIT''] else [])
     @ (if fl (4/10) \<le> sn_misconception_severity c then [''MISCONCEPTION_RISK''] else [])
     @ (if fl (8/10) \<le> sn_goal_alignment c then [''GOAL_ALIGNED''] else [])
     @ (if sn_prerequisite_readiness c < fl (6/10) then [''PREREQUISITE_GAP''] else [])"

subsection \<open>The nodes of a path\<close>

record path_node =
  pn_order :: int
  pn_kp_id :: kp_id
  pn_title :: string
  pn_tier :: learning_tier
  pn_priority_score :: rat
  pn_score_components :: score_components
  pn_prerequisite_kp_ids :: "kp_id list"
  pn_estimated_minutes :: int
  pn_rationale_codes :: "string list"

record plan_request =
  pt_graph_snapshot :: graph_snapshot
  pt_profile :: student_profile
  pt_memory_states :: "memory_state list"
  pt_generated_at :: timestamp
  pt_target_goal :: string
  pt_target_kp_ids :: "kp_id list option"
  pt_previous_path :: "path_snapshot option"
  pt_change_type :: path_change_type
  pt_trigger_reason :: string
  pt_manual_order :: "kp_id list option"

text \<open>What the loop over the selected points computes for one of them.\<close>

record scored_point =
  st_point :: knowledge_point
  st_components :: score_components
  st_total :: rat
  st_tier :: learning_tier

definition score_point ::
  "path_policy \<Rightarrow> plan_request \<Rightarrow> sanitized_graph \<Rightarrow> kp_id list \<Rightarrow> kp_id \<Rightarrow> path_error + scored_point" where
  "score_point policy r g selected k =
     (case point_of g k of
        None \<Rightarrow> Inl Path_key_error
      | Some point \<Rightarrow>
          let profile = pt_profile r;
              c = score_components_of g profile (mastery_by_kp profile) (dict_by my_kp_id (pt_memory_states r))
                    (misconception_by_kp profile) (pt_target_kp_ids r) selected k point
          in rbind (total_score policy c) (\<lambda>score. Inr
               \<lparr>st_point = point, st_components = c, st_total = score, st_tier = tier_of policy point c profile\<rparr>))"

definition path_node_of :: "prerequisite list \<Rightarrow> kp_id list \<Rightarrow> int \<Rightarrow> kp_id \<Rightarrow> scored_point \<Rightarrow> path_node" where
  "path_node_of edges selected i k s =
     \<lparr>pn_order = i, pn_kp_id = k, pn_title = kn_title (st_point s), pn_tier = st_tier s,
      pn_priority_score = st_total s, pn_score_components = st_components s,
      pn_prerequisite_kp_ids = map pq_prerequisite_kp_id (incoming_edges edges selected k),
      pn_estimated_minutes = kn_estimated_minutes (st_point s),
      pn_rationale_codes = rationale_codes (st_components s) (st_tier s)\<rparr>"

definition path_nodes ::
  "path_policy \<Rightarrow> plan_request \<Rightarrow> path_error + (path_node list \<times> kp_id list \<times> graph_repair list)" where
  "path_nodes policy r =
     rbind (sanitize_graph (pt_graph_snapshot r)) (\<lambda>g.
     rbind (select_nodes g (pt_target_kp_ids r)) (\<lambda>selected.
     rbind (map_ok (score_point policy r g selected) selected) (\<lambda>scored.
     let entry = (\<lambda>k. the (map_of (zip selected scored) k))
     in rbind (ordered_nodes selected (sg_prerequisites g) (\<lambda>k. st_total (entry k)) (\<lambda>k. st_tier (entry k))
                 (pt_manual_order r)) (\<lambda>(order, repairs).
        Inr (map (\<lambda>(i, k). path_node_of (sg_prerequisites g) selected (int i) k (entry k)) (enumerate 0 order),
             selected, sg_repairs g @ repairs)))))"

subsection \<open>Documents\<close>

definition strings_doc :: "string list \<Rightarrow> doc" where
  "strings_doc ss = DList (map DStr ss)"

definition node_doc :: "path_node \<Rightarrow> (string \<times> doc) list" where
  "node_doc n =
     [(''order'', DInt (pn_order n)), (''kp_id'', DStr (pn_kp_id n)), (''title'', DStr (pn_title n)),
      (''tier'', DStr (tier_value (pn_tier n))), (''priority_score'', DFloat (pn_priority_score n)),
      (''score_components'', DObj (map (\<lambda>(name, v). (name, DFloat v))
         (component_items (pn_score_components n) @ [(''total'', pn_priority_score n)]))),
      (''prerequisite_kp_ids'', strings_doc (pn_prerequisite_kp_ids n)),
      (''estimated_minutes'', DInt (pn_estimated_minutes n)),
      (''rationale_codes'', strings_doc (pn_rationale_codes n))]"

definition path_document :: "path_node list \<Rightarrow> (string \<times> doc) list" where
  "path_document nodes =
     [(''schema_version'', DStr ''topic2.learning-path.v1''), (''nodes'', DList (map (DObj \<circ> node_doc) nodes)),
      (''tiers'', DObj (map (\<lambda>t. (tier_value t, strings_doc (map pn_kp_id (filter (\<lambda>n. pn_tier n = t) nodes))))
         [LT_FOUNDATION, LT_REINFORCEMENT, LT_EXTENSION]))]"

definition repair_document :: "graph_repair \<Rightarrow> doc" where
  "repair_document p =
     DObj [(''code'', DStr (gp_code p)), (''edge_id'', opt_doc DStr (gp_edge_id p)), (''detail'', DStr (gp_detail p))]"

definition decision_document ::
  "path_policy \<Rightarrow> plan_request \<Rightarrow> kp_id list \<Rightarrow> graph_repair list \<Rightarrow> (string \<times> doc) list" where
  "decision_document policy r selected repairs =
     [(''schema_version'', DStr ''topic2.path-decision.v1''), (''policy_version'', DStr (po_version policy)),
      (''weights'', DObj (map (\<lambda>(name, w). (name, DFloat w)) (po_weights policy))),
      (''target_kp_ids'', strings_doc (sort (case pt_target_kp_ids r of
          None \<Rightarrow> selected | Some ts \<Rightarrow> if ts = [] then selected else ts))),
      (''profile_id'', DStr (sp_profile_id (pt_profile r))),
      (''topic1_graph_snapshot_id'', DStr (gs_snapshot_id (pt_graph_snapshot r))),
      (''topic1_graph_version'', DInt (gs_graph_version (pt_graph_snapshot r))),
      (''memory_state_ids'', strings_doc (map my_memory_state_id (sort_key my_kp_id (pt_memory_states r)))),
      (''repairs'', DList (map repair_document repairs)),
      (''manual_order_requested'', opt_doc strings_doc (pt_manual_order r))]"

fun plan_type_value :: "path_plan_type \<Rightarrow> string" where
  "plan_type_value PP_INITIAL = ''INITIAL''"
| "plan_type_value PP_REPLANNED = ''REPLANNED''"
| "plan_type_value PP_MANUAL_OVERRIDE = ''MANUAL_OVERRIDE''"
| "plan_type_value PP_RESTORED = ''RESTORED''"

definition path_hash_document :: "path_snapshot \<Rightarrow> doc" where
  "path_hash_document s =
     DObj [(''schema_version'', DStr ''topic2.learning-path-snapshot.v1''),
       (''path_snapshot_id'', DStr (ls_path_snapshot_id s)), (''learner_ref'', DStr (ls_learner_ref s)),
       (''course_id'', DStr (ls_course_id s)), (''path_version'', DInt (ls_path_version s)),
       (''parent_path_snapshot_id'', opt_doc DStr (ls_parent_path_snapshot_id s)),
       (''topic1_graph_snapshot_id'', DStr (ls_topic1_graph_snapshot_id s)),
       (''topic1_graph_version'', DInt (ls_topic1_graph_version s)), (''profile_id'', DStr (ls_profile_id s)),
       (''plan_type'', DStr (plan_type_value (ls_plan_type s))), (''trigger_reason'', DStr (ls_trigger_reason s)),
       (''target_goal'', DStr (ls_target_goal s)), (''policy_version'', DStr (ls_policy_version s)),
       (''path_document'', DObj (ls_path_document s)), (''decision_document'', DObj (ls_decision_document s)),
       (''node_count'', DInt (ls_node_count s)), (''estimated_minutes'', DInt (ls_estimated_minutes s)),
       (''manual_override'', DBool (ls_manual_override s)), (''frozen_at'', DTime (ls_frozen_at s))]"

subsection \<open>The change against the previous path\<close>

text \<open>\<^verbatim>\<open>!=\<close> on document values: integers, floats and booleans compare by their number.\<close>

definition doc_differs :: "doc \<Rightarrow> doc \<Rightarrow> bool" where
  "doc_differs a b = (case (number_of a, number_of b) of (Some x, Some y) \<Rightarrow> x \<noteq> y | _ \<Rightarrow> a \<noteq> b)"

text \<open>The nodes of an earlier path, keyed: entries that are not objects with a textual \<^verbatim>\<open>kp_id\<close> are skipped.\<close>

fun keyed_node :: "doc \<Rightarrow> (kp_id \<times> (string \<times> doc) list) option" where
  "keyed_node (DObj kvs) = (case map_of kvs ''kp_id'' of Some (DStr k) \<Rightarrow> Some (k, kvs) | _ \<Rightarrow> None)"
| "keyed_node d = None"

definition previous_nodes :: "path_snapshot option \<Rightarrow> path_error + (kp_id \<times> (string \<times> doc) list) list" where
  "previous_nodes previous =
     (case previous of
        None \<Rightarrow> Inr []
      | Some s \<Rightarrow>
          (case map_of (ls_path_document s) ''nodes'' of
             None \<Rightarrow> Inr []
           | Some (DList ds) \<Rightarrow> Inr (List.map_filter keyed_node ds)
           | Some (DStr _) \<Rightarrow> Inr []
           | Some (DObj _) \<Rightarrow> Inr []
           | Some _ \<Rightarrow> Inl Path_type_error))"

definition change_lines ::
  "string \<Rightarrow> string \<Rightarrow> string \<Rightarrow> (kp_id \<rightharpoonup> (string \<times> doc) list) \<Rightarrow> (kp_id \<rightharpoonup> (string \<times> doc) list)
     \<Rightarrow> kp_id list \<Rightarrow> doc list" where
  "change_lines name from_name to_name before after ids =
     map (\<lambda>k. DObj [(''kp_id'', DStr k), (from_name, field name (the (before k))), (to_name, field name (the (after k)))])
       (filter (\<lambda>k. doc_differs (field name (the (before k))) (field name (the (after k)))) ids)"

definition change_document ::
  "path_snapshot option \<Rightarrow> path_node list \<Rightarrow> graph_repair list \<Rightarrow> path_error + (string \<times> doc) list" where
  "change_document previous nodes repairs =
     rbind (previous_nodes previous) (\<lambda>old.
     let current = map (\<lambda>n. (pn_kp_id n, node_doc n)) nodes;
         before = map_of (rev old); after = map_of (rev current);
         common = filter (\<lambda>k. k \<in> set (map fst old)) (sorted_set (map fst current))
     in Inr [(''added_kp_ids'', strings_doc (filter (\<lambda>k. k \<notin> set (map fst old)) (sorted_set (map fst current)))),
             (''removed_kp_ids'', strings_doc (filter (\<lambda>k. k \<notin> set (map fst current)) (sorted_set (map fst old)))),
             (''moved'', DList (change_lines ''order'' ''from_order'' ''to_order'' before after common)),
             (''tier_changes'', DList (change_lines ''tier'' ''from_tier'' ''to_tier'' before after common)),
             (''repairs'', DList (map repair_document repairs))])"

subsection \<open>Planning\<close>

definition plan_inputs_ok :: "plan_request \<Rightarrow> bool" where
  "plan_inputs_ok r \<longleftrightarrow>
     len_between 1 512 (pt_target_goal r)
     \<and> sp_course_id (pt_profile r) = gs_course_id (pt_graph_snapshot r)
     \<and> (\<forall>s\<in>set_option (pt_previous_path r). ls_learner_ref s = sp_learner_ref (pt_profile r)
          \<and> ls_course_id s = sp_course_id (pt_profile r))
     \<and> list_all (\<lambda>m. my_learner_ref m = sp_learner_ref (pt_profile r) \<and> my_course_id m = sp_course_id (pt_profile r))
         (pt_memory_states r)"

definition draft_path ::
  "path_policy \<Rightarrow> plan_request \<Rightarrow> uuid \<Rightarrow> path_node list \<Rightarrow> kp_id list \<Rightarrow> graph_repair list \<Rightarrow> path_snapshot" where
  "draft_path policy r path_id nodes selected repairs =
     \<lparr>ls_path_snapshot_id = path_id, ls_learner_ref = sp_learner_ref (pt_profile r),
      ls_course_id = sp_course_id (pt_profile r),
      ls_path_version = (case pt_previous_path r of None \<Rightarrow> 1 | Some s \<Rightarrow> ls_path_version s + 1),
      ls_parent_path_snapshot_id = map_option ls_path_snapshot_id (pt_previous_path r),
      ls_topic1_graph_snapshot_id = gs_snapshot_id (pt_graph_snapshot r),
      ls_topic1_graph_version = gs_graph_version (pt_graph_snapshot r), ls_profile_id = sp_profile_id (pt_profile r),
      ls_plan_type = (if pt_manual_order r \<noteq> None then PP_MANUAL_OVERRIDE
                      else if pt_previous_path r = None then PP_INITIAL else PP_REPLANNED),
      ls_trigger_reason = pt_trigger_reason r, ls_target_goal = pt_target_goal r, ls_policy_version = po_version policy,
      ls_path_document = path_document nodes, ls_decision_document = decision_document policy r selected repairs,
      ls_node_count = int (length nodes), ls_estimated_minutes = sum_list (map pn_estimated_minutes nodes),
      ls_manual_override = (pt_manual_order r \<noteq> None), ls_content_sha256 = replicate 64 (CHR ''0''),
      ls_frozen_at = pt_generated_at r\<rparr>"

definition plan ::
  "(doc \<Rightarrow> digest) \<Rightarrow> path_policy \<Rightarrow> uuid \<Rightarrow> uuid \<Rightarrow> plan_request \<Rightarrow> path_error + (path_snapshot \<times> path_change)" where
  "plan sha policy path_id change_id r =
     rbind (guard (plan_inputs_ok r) Path_value_error) (\<lambda>_.
     rbind (path_nodes policy r) (\<lambda>(nodes, selected, repairs).
     let draft = draft_path policy r path_id nodes selected repairs;
         snapshot = draft\<lparr>ls_content_sha256 := sha (path_hash_document draft)\<rparr>
     in rbind (guard (valid_path_snapshot draft) Path_value_error) (\<lambda>_.
        rbind (guard (valid_path_snapshot snapshot) Path_value_error) (\<lambda>_.
        rbind (change_document (pt_previous_path r) nodes repairs) (\<lambda>document.
        let change = \<lparr>ph_change_id = change_id, ph_learner_ref = ls_learner_ref snapshot,
              ph_course_id = ls_course_id snapshot, ph_from_path_snapshot_id = ls_parent_path_snapshot_id snapshot,
              ph_to_path_snapshot_id = path_id, ph_change_type = pt_change_type r, ph_reason = pt_trigger_reason r,
              ph_policy_version = po_version policy, ph_change_document = document,
              ph_occurred_at = pt_generated_at r\<rparr>
        in rbind (guard (valid_path_change change) Path_value_error) (\<lambda>_. Inr (snapshot, change)))))))"

subsection \<open>What a plan holds\<close>

definition component_names :: "string list" where
  "component_names = [''mastery_deficit'', ''memory_risk'', ''misconception_severity'', ''goal_alignment'',
     ''topology_weight'', ''difficulty_pace_fit'', ''prerequisite_readiness'']"

definition weighs_all :: "path_policy \<Rightarrow> bool" where
  "weighs_all policy \<longleftrightarrow> set component_names \<subseteq> fst ` set (po_weights policy)"

lemma component_items_names: "map fst (component_items c) = component_names"
  by (simp add: component_items_def component_names_def)

lemma total_score_Inr:
  assumes "weighs_all policy"
  shows "total_score policy c = Inr (py_round (fsum (map (\<lambda>(name, value).
    fmul (the (map_of (rev (po_weights policy)) name)) value) (component_items c))) 12)"
proof -
  let ?w = "map_of (rev (po_weights policy))"
  have covered: "fst ` set (component_items c) \<subseteq> fst ` set (po_weights policy)"
    using assms component_items_names [of c] by (metis weighs_all_def list.set_map)
  have "(case x of (name, value) \<Rightarrow> (case ?w name of None \<Rightarrow> Inl Path_key_error | Some w \<Rightarrow> Inr (fmul w value)))
      = Inr (case x of (name, value) \<Rightarrow> fmul (the (?w name)) value)" if "x \<in> set (component_items c)" for x
  proof -
    have "fst x \<in> dom ?w" using covered that by (auto simp: dom_map_of_conv_image_fst)
    then show ?thesis by (auto split: prod.splits option.splits)
  qed
  from map_ok_total [of _ _ "\<lambda>x. case x of (name, value) \<Rightarrow> fmul (the (?w name)) value", OF this]
  show ?thesis by (simp add: total_score_def)
qed

lemma score_point_Inr:
  assumes "weighs_all policy" "k \<in> set (kp_ids g)"
  shows "\<exists>s. score_point policy r g selected k = Inr s"
proof -
  from assms(2) obtain p where "point_of g k = Some p" using dict_by_ex [of k kn_kp_id] by (auto simp: kp_ids_def point_of_def)
  then show ?thesis by (simp add: score_point_def Let_def total_score_Inr [OF assms(1)])
qed

text \<open>The points that a path must have: the target and what it needs, directly or through others.\<close>

definition path_scope :: "sanitized_graph \<Rightarrow> kp_id list option \<Rightarrow> kp_id set" where
  "path_scope g targets =
     (case targets of None \<Rightarrow> set (kp_ids g)
      | Some ts \<Rightarrow> ((needs (edges_within (kp_ids g) (sg_prerequisites g)))\<inverse>)\<^sup>* `` set ts)"

definition scope_ok :: "plan_request \<Rightarrow> sanitized_graph \<Rightarrow> bool" where
  "scope_ok r g \<longleftrightarrow>
     (\<forall>ts. pt_target_kp_ids r = Some ts \<longrightarrow> set ts \<subseteq> set (kp_ids g))
     \<and> (\<forall>ms. pt_manual_order r = Some ms \<longrightarrow> distinct ms \<and> set ms \<subseteq> path_scope g (pt_target_kp_ids r))"

lemma path_scope_known:
  assumes "\<forall>ts. targets = Some ts \<longrightarrow> set ts \<subseteq> set (kp_ids g)"
  shows "path_scope g targets \<subseteq> set (kp_ids g)"
proof (cases targets)
  case (Some ts)
  have "n \<in> set (kp_ids g)" if "(t, n) \<in> ((needs (edges_within (kp_ids g) (sg_prerequisites g)))\<inverse>)\<^sup>*" "t \<in> set ts" for t n
    using that assms Some
    by (induction rule: rtrancl_induct) (auto simp: needs_def edges_within_def prerequisite_rel_def)
  with Some show ?thesis by (auto simp: path_scope_def)
qed (simp add: path_scope_def)

lemma select_nodes_scope:
  assumes "select_nodes g targets = Inr selected"
  shows "distinct selected" "set selected = path_scope g targets" "set selected \<subseteq> set (kp_ids g)"
    "targets = Some ts \<Longrightarrow> set ts \<subseteq> set (kp_ids g)"
  using select_nodes_spec [where g = g and targets = targets] assms path_scope_known [where g = g and targets = targets]
  by (auto simp: path_scope_def split: option.splits)

lemma select_nodes_Inr:
  assumes "\<forall>ts. targets = Some ts \<longrightarrow> set ts \<subseteq> set (kp_ids g)"
  shows "\<exists>selected. select_nodes g targets = Inr selected"
  using select_nodes_spec [where g = g and targets = targets] assms by (cases "select_nodes g targets") auto

lemma path_nodes_cases:
  assumes "weighs_all policy"
  shows "case path_nodes policy r of
      Inl e \<Rightarrow> e = Path_value_error \<and> \<not> (\<exists>g. sanitize_graph (pt_graph_snapshot r) = Inr g \<and> scope_ok r g)
    | Inr (nodes, selected, repairs) \<Rightarrow> (\<exists>g entry new.
        sanitize_graph (pt_graph_snapshot r) = Inr g \<and> scope_ok r g \<and> select_nodes g (pt_target_kp_ids r) = Inr selected
        \<and> (\<forall>k\<in>set selected. score_point policy r g selected k = Inr (entry k))
        \<and> ordered_nodes selected (sg_prerequisites g) (\<lambda>k. st_total (entry k)) (\<lambda>k. st_tier (entry k)) (pt_manual_order r)
            = Inr (map pn_kp_id nodes, new) \<and> repairs = sg_repairs g @ new
        \<and> nodes = map (\<lambda>(i, k). path_node_of (sg_prerequisites g) selected (int i) k (entry k))
            (enumerate 0 (map pn_kp_id nodes)))"
proof (cases "sanitize_graph (pt_graph_snapshot r)")
  case (Inl e)
  with sanitize_graph_spec [of "pt_graph_snapshot r"] show ?thesis by (auto simp: path_nodes_def)
next
  case g: (Inr g)
  then have acyclic: "acyclic (prerequisite_rel (sg_prerequisites g))" using sanitize_graph_spec [of "pt_graph_snapshot r"] by auto
  show ?thesis
  proof (cases "select_nodes g (pt_target_kp_ids r)")
    case (Inl e)
    with select_nodes_spec [where g = g and targets = "pt_target_kp_ids r"] g show ?thesis by (auto simp: path_nodes_def scope_ok_def)
  next
    case (Inr selected)
    note sel = select_nodes_scope [OF Inr]
    obtain scored where scored: "map_ok (score_point policy r g selected) selected = Inr scored"
      using map_ok_total_ex [of selected "score_point policy r g selected"] score_point_Inr [OF assms] sel(3) by blast
    from map_ok_Inr_map [OF this] obtain f where
      f: "\<forall>k\<in>set selected. score_point policy r g selected k = Inr (f k)" "scored = map f selected" by blast
    define entry where "entry k = the (map_of (zip selected scored) k)" for k
    have entry: "entry k = f k" if "k \<in> set selected" for k using that f(2) by (simp add: entry_def map_of_zip_map)
    let ?node = "\<lambda>(i, k). path_node_of (sg_prerequisites g) selected (int i) k (entry k)"
    let ?ordered = "ordered_nodes selected (sg_prerequisites g) (\<lambda>k. st_total (entry k)) (\<lambda>k. st_tier (entry k)) (pt_manual_order r)"
    have run: "path_nodes policy r = rbind ?ordered (\<lambda>(order, new). Inr (map ?node (enumerate 0 order), selected, sg_repairs g @ new))"
      using g Inr scored by (simp add: path_nodes_def Let_def entry_def)
    have spec: "case ?ordered of Inl e \<Rightarrow> e = Path_value_error \<and> \<not> scope_ok r g | Inr _ \<Rightarrow> scope_ok r g"
    proof (cases ?ordered)
      case (Inl e)
      with ordered_nodes_spec [OF sel(1) acyclic, where score = "\<lambda>k. st_total (entry k)" and tiers = "\<lambda>k. st_tier (entry k)"
            and manual_order = "pt_manual_order r"] sel(2)
      show ?thesis by (auto simp: scope_ok_def)
    next
      case (Inr x)
      then have "distinct ms \<and> set ms \<subseteq> set selected" if "pt_manual_order r = Some ms" for ms
        using that by (auto simp: ordered_nodes_def Let_def split: if_splits)
      with Inr sel(2,4) show ?thesis by (auto simp: scope_ok_def)
    qed
    have names: "map pn_kp_id (map ?node (enumerate 0 order)) = order" for order
      by (simp add: path_node_of_def case_prod_unfold o_def)
    show ?thesis
    proof (cases ?ordered)
      case (Inl e)
      with run spec g show ?thesis by simp
    next
      case ord: (Inr x)
      obtain order new where x: "x = (order, new)" by (rule prod.exhaust)
      have "\<forall>k\<in>set selected. score_point policy r g selected k = Inr (entry k)" using f(1) entry by simp
      with ord x run spec g Inr names [of order] show ?thesis
        by (auto intro!: exI [of _ entry])
    qed
  qed
qed

lemma planE:
  assumes "plan sha policy path_id change_id r = Inr (s, c)"
  obtains nodes selected repairs where "plan_inputs_ok r" "path_nodes policy r = Inr (nodes, selected, repairs)"
    "s = (draft_path policy r path_id nodes selected repairs)
       \<lparr>ls_content_sha256 := sha (path_hash_document (draft_path policy r path_id nodes selected repairs))\<rparr>"
    "valid_path_snapshot s" "valid_path_change c"
    "change_document (pt_previous_path r) nodes repairs = Inr (ph_change_document c)"
    "ph_change_id c = change_id" "ph_learner_ref c = sp_learner_ref (pt_profile r)"
    "ph_course_id c = sp_course_id (pt_profile r)"
    "ph_from_path_snapshot_id c = map_option ls_path_snapshot_id (pt_previous_path r)"
    "ph_to_path_snapshot_id c = path_id" "ph_change_type c = pt_change_type r" "ph_reason c = pt_trigger_reason r"
    "ph_policy_version c = po_version policy" "ph_occurred_at c = pt_generated_at r"
  using assms
  by (auto simp: plan_def Let_def draft_path_def elim!: rbind_InrE simp: guard_Inr_iff split: prod.splits)

text \<open>The order of nodes that are both free to come next: the tier, then the score, then the identifier.\<close>

definition node_key :: "path_node \<Rightarrow> int \<times> rat \<times> string" where
  "node_key n = (tier_rank (pn_tier n), - pn_priority_score n, pn_kp_id n)"

text \<open>What a list of nodes must be for a repaired graph, a target and a manual order.\<close>

definition good_path :: "sanitized_graph \<Rightarrow> kp_id list option \<Rightarrow> kp_id list option \<Rightarrow> path_node list \<Rightarrow> bool" where
  "good_path g targets manual_order nodes \<longleftrightarrow>
     (let order = map pn_kp_id nodes; E = prerequisite_rel (edges_within order (sg_prerequisites g))
      in set order = path_scope g targets \<and> topological E order
         \<and> (\<forall>i<length nodes. pn_order (nodes ! i) = int i
              \<and> set (pn_prerequisite_kp_ids (nodes ! i)) = E\<inverse> `` {pn_kp_id (nodes ! i)})
         \<and> (case manual_order of
              Some ms \<Rightarrow> take (length ms) order = ms \<longleftrightarrow> topological E ms
            | None \<Rightarrow> (\<forall>i<length nodes. \<forall>n\<in>set nodes. pn_kp_id n \<notin> set (take i order)
                \<longrightarrow> E\<inverse> `` {pn_kp_id n} \<subseteq> set (take i order) \<longrightarrow> node_key (nodes ! i) \<le> node_key n)))"

lemma path_nodes_good:
  assumes "weighs_all policy" "path_nodes policy r = Inr (nodes, selected, repairs)"
  shows "\<exists>g. sanitize_graph (pt_graph_snapshot r) = Inr g \<and> good_path g (pt_target_kp_ids r) (pt_manual_order r) nodes"
proof -
  from path_nodes_cases [OF assms(1), of r] assms(2) obtain g entry new where
    g: "sanitize_graph (pt_graph_snapshot r) = Inr g" and select: "select_nodes g (pt_target_kp_ids r) = Inr selected"
    and ord: "ordered_nodes selected (sg_prerequisites g) (\<lambda>k. st_total (entry k)) (\<lambda>k. st_tier (entry k)) (pt_manual_order r)
      = Inr (map pn_kp_id nodes, new)"
    and nodes: "nodes = map (\<lambda>(i, k). path_node_of (sg_prerequisites g) selected (int i) k (entry k))
      (enumerate 0 (map pn_kp_id nodes))" by auto
  define order where "order = map pn_kp_id nodes"
  define E where "E = prerequisite_rel (edges_within selected (sg_prerequisites g))"
  note sel = select_nodes_scope [OF select]
  have acyclic: "acyclic (prerequisite_rel (sg_prerequisites g))" using g sanitize_graph_spec [of "pt_graph_snapshot r"] by auto
  have spec: "topological E order" "set order = set selected"
    "pt_manual_order r = None \<Longrightarrow> greedy E (set selected) (order_key_of selected [] (\<lambda>k. st_tier (entry k)) (\<lambda>k. st_total (entry k))) order"
    "pt_manual_order r = Some ms \<Longrightarrow> take (length ms) order = ms \<longleftrightarrow> topological E ms" for ms
    using ordered_nodes_spec [OF sel(1) acyclic, where score = "\<lambda>k. st_total (entry k)" and tiers = "\<lambda>k. st_tier (entry k)"
        and manual_order = "pt_manual_order r"] ord by (auto simp: order_def E_def split: option.splits)
  have len: "length order = length nodes" by (simp add: order_def)
  have node: "nodes ! i = path_node_of (sg_prerequisites g) selected (int i) (order ! i) (entry (order ! i))"
    if "i < length nodes" for i
    by (rule trans [OF arg_cong [OF nodes, of "\<lambda>x. x ! i"]]) (simp add: that order_def nth_enumerate_eq)
  have E: "E = prerequisite_rel (edges_within order (sg_prerequisites g))"
    using spec(2) by (simp add: E_def edges_within_def)
  have key: "node_key (nodes ! i) = (tier_rank (st_tier (entry (order ! i))), - st_total (entry (order ! i)), order ! i)"
    if "i < length nodes" for i using node [OF that] by (simp add: node_key_def path_node_of_def)
  have least: "node_key (nodes ! i) \<le> node_key n"
    if "pt_manual_order r = None" "i < length nodes" "n \<in> set nodes" "pn_kp_id n \<notin> set (take i order)"
      "E\<inverse> `` {pn_kp_id n} \<subseteq> set (take i order)" for i n
  proof -
    from that(3) obtain j where j: "j < length nodes" "nodes ! j = n" by (auto simp: in_set_conv_nth)
    then have n: "pn_kp_id n = order ! j" by (auto simp: order_def)
    have split: "order = take i order @ order ! i # drop (Suc i) order"
      using that(2) by (intro id_take_nth_drop) (simp add: len)
    have "order ! j \<in> set selected" using nth_mem [of j order] j(1) len spec(2) by simp
    with that(4) n have "order ! j \<in> set selected - set (take i order)" by simp
    with spec(3) [OF that(1)] split that(5) n
    have "order_key_of selected [] (\<lambda>k. st_tier (entry k)) (\<lambda>k. st_total (entry k)) (order ! i)
        \<le> order_key_of selected [] (\<lambda>k. st_tier (entry k)) (\<lambda>k. st_total (entry k)) (order ! j)"
      unfolding greedy_def by metis
    then show ?thesis using key [OF that(2)] key [OF j(1)] j(2) by (simp add: order_key_of_def)
  qed
  have "set (pn_prerequisite_kp_ids (nodes ! i)) = E\<inverse> `` {pn_kp_id (nodes ! i)}" if "i < length nodes" for i
    using node [OF that] by (auto simp: path_node_of_def E_def incoming_edges_def prerequisite_rel_def edges_within_def)
  with spec(1,2,4) sel(2) node least have "good_path g (pt_target_kp_ids r) (pt_manual_order r) nodes"
    unfolding good_path_def Let_def order_def [symmetric] E [symmetric]
    by (auto split: option.splits simp: path_node_of_def)
  with g show ?thesis by blast
qed

text \<open>What the request itself must satisfy.\<close>

definition acceptable :: "plan_request \<Rightarrow> bool" where
  "acceptable r \<longleftrightarrow> plan_inputs_ok r \<and> len_between 1 128 (pt_trigger_reason r)
     \<and> (\<exists>g. sanitize_graph (pt_graph_snapshot r) = Inr g \<and> scope_ok r g)"

text \<open>What the planner relies on: the records it reads are valid, and the new identifier is new.\<close>

definition stored_path :: "uuid \<Rightarrow> path_snapshot \<Rightarrow> bool" where
  "stored_path path_id s \<longleftrightarrow> valid_path_snapshot s \<and> ls_path_snapshot_id s \<noteq> path_id
     \<and> (\<exists>ds. map_of (ls_path_document s) ''nodes'' = Some (DList ds))"

lemma scored_point_member:
  assumes "score_point policy r g selected k = Inr s"
  shows "st_point s \<in> set (sg_knowledge_points g)" "kn_kp_id (st_point s) = k"
    "st_components s = score_components_of g (pt_profile r) (mastery_by_kp (pt_profile r))
       (dict_by my_kp_id (pt_memory_states r)) (misconception_by_kp (pt_profile r)) (pt_target_kp_ids r) selected k (st_point s)"
    "total_score policy (st_components s) = Inr (st_total s)"
  using assms dict_by_SomeD [of kn_kp_id "sg_knowledge_points g" k]
  by (auto simp: score_point_def point_of_def Let_def rbind_Inr_iff split: option.splits)

lemma path_nodes_points:
  assumes "weighs_all policy" "path_nodes policy r = Inr (nodes, selected, repairs)" "n \<in> set nodes"
  shows "\<exists>g k s. sanitize_graph (pt_graph_snapshot r) = Inr g \<and> k \<in> set (kp_ids g)
    \<and> score_point policy r g selected k = Inr s \<and> n = path_node_of (sg_prerequisites g) selected (pn_order n) k s"
proof -
  from path_nodes_cases [OF assms(1), of r] assms(2) obtain g entry new where
    g: "sanitize_graph (pt_graph_snapshot r) = Inr g" and select: "select_nodes g (pt_target_kp_ids r) = Inr selected"
    and scored: "\<forall>k\<in>set selected. score_point policy r g selected k = Inr (entry k)"
    and ord: "ordered_nodes selected (sg_prerequisites g) (\<lambda>k. st_total (entry k)) (\<lambda>k. st_tier (entry k)) (pt_manual_order r)
      = Inr (map pn_kp_id nodes, new)"
    and nodes: "nodes = map (\<lambda>(i, k). path_node_of (sg_prerequisites g) selected (int i) k (entry k))
      (enumerate 0 (map pn_kp_id nodes))" by auto
  note sel = select_nodes_scope [OF select]
  have "acyclic (prerequisite_rel (sg_prerequisites g))" using g sanitize_graph_spec [of "pt_graph_snapshot r"] by auto
  from ordered_nodes_spec [OF sel(1) this, where score = "\<lambda>k. st_total (entry k)" and tiers = "\<lambda>k. st_tier (entry k)"
        and manual_order = "pt_manual_order r"] ord
  have "pn_kp_id ` set nodes = set selected" by simp
  then have k: "pn_kp_id n \<in> set selected" using assms(3) by auto
  define ks where "ks = map pn_kp_id nodes"
  from assms(3) have "n \<in> set (map (\<lambda>(i, k). path_node_of (sg_prerequisites g) selected (int i) k (entry k)) (enumerate 0 ks))"
    using nodes by (simp add: ks_def)
  then obtain i k where "n = path_node_of (sg_prerequisites g) selected (int i) k (entry k)" by auto
  then have n: "n = path_node_of (sg_prerequisites g) selected (pn_order n) (pn_kp_id n) (entry (pn_kp_id n))"
    by (simp add: path_node_of_def)
  have "pn_kp_id n \<in> set (kp_ids g)" "score_point policy r g selected (pn_kp_id n) = Inr (entry (pn_kp_id n))"
    using k scored sel(3) by auto
  with g n show ?thesis by blast
qed

lemma path_nodes_minutes:
  assumes "weighs_all policy" "path_nodes policy r = Inr (nodes, selected, repairs)"
    and "list_all (\<lambda>k. 0 \<le> kn_estimated_minutes k) (gs_knowledge_points (pt_graph_snapshot r))"
  shows "0 \<le> sum_list (map pn_estimated_minutes nodes)"
proof (rule sum_list_nonneg)
  fix x assume "x \<in> set (map pn_estimated_minutes nodes)"
  then obtain n where n: "n \<in> set nodes" "x = pn_estimated_minutes n" by auto
  from path_nodes_points [OF assms(1,2) n(1)] obtain g k s where
    R: "sanitize_graph (pt_graph_snapshot r) = Inr g" "score_point policy r g selected k = Inr s"
      "n = path_node_of (sg_prerequisites g) selected (pn_order n) k s" by blast
  from R(3) have minutes: "pn_estimated_minutes n = kn_estimated_minutes (st_point s)"
    by (metis path_node_of_def path_node.select_convs(8))
  from R(1) sanitize_graph_spec [of "pt_graph_snapshot r"]
  have "sg_knowledge_points g = active_points (pt_graph_snapshot r)" by auto
  with scored_point_member(1) [OF R(2)] have "st_point s \<in> set (gs_knowledge_points (pt_graph_snapshot r))"
    by (simp add: active_points_def)
  with assms(3) minutes n(2) show "0 \<le> x" by (simp add: list_all_iff)
qed

lemma blank_digest: "is_sha256_hex (replicate 64 (CHR ''0''))"
  by code_simp

lemma change_document_Inr:
  assumes "\<forall>s\<in>set_option previous. \<exists>ds. map_of (ls_path_document s) ''nodes'' = Some (DList ds)"
  shows "\<exists>d. change_document previous nodes repairs = Inr d"
  using assms by (auto simp: change_document_def previous_nodes_def Let_def split: option.splits)

lemma plan_cases:
  assumes "weighs_all policy" "\<forall>d. is_sha256_hex (sha d)" "1 \<le> gs_graph_version (pt_graph_snapshot r)"
    and "list_all valid_knowledge_point (gs_knowledge_points (pt_graph_snapshot r))"
    and "\<forall>s\<in>set_option (pt_previous_path r). stored_path path_id s"
  shows "case plan sha policy path_id change_id r of Inl e \<Rightarrow> e = Path_value_error \<and> \<not> acceptable r | Inr _ \<Rightarrow> acceptable r"
proof (cases "plan_inputs_ok r")
  case False
  then show ?thesis by (simp add: plan_def acceptable_def)
next
  case inputs: True
  show ?thesis
  proof (cases "path_nodes policy r")
    case (Inl e)
    with path_nodes_cases [OF assms(1), of r] inputs show ?thesis by (auto simp: plan_def acceptable_def)
  next
    case (Inr x)
    obtain nodes selected repairs where x: "x = (nodes, selected, repairs)" by (metis prod_cases3)
    have scope: "\<exists>g. sanitize_graph (pt_graph_snapshot r) = Inr g \<and> scope_ok r g"
      using path_nodes_cases [OF assms(1), of r] Inr x by auto
    have "list_all (\<lambda>k. 0 \<le> kn_estimated_minutes k) (gs_knowledge_points (pt_graph_snapshot r))"
      using assms(4) by (auto simp: list_all_iff valid_knowledge_point_def)
    from path_nodes_minutes [OF assms(1) Inr [unfolded x] this]
    have minutes: "0 \<le> sum_list (map pn_estimated_minutes nodes)" .
    have version: "0 \<le> ls_path_version s" "ls_path_snapshot_id s \<noteq> path_id" if "pt_previous_path r = Some s" for s
      using assms(5) that by (auto simp: stored_path_def valid_path_snapshot_def)
    obtain d where "change_document (pt_previous_path r) nodes repairs = Inr d"
      using change_document_Inr assms(5) unfolding stored_path_def by meson
    with inputs scope Inr x minutes version assms(2,3) blank_digest
    show ?thesis
      by (auto simp: plan_def acceptable_def Let_def draft_path_def valid_path_snapshot_def valid_path_change_def
          plan_inputs_ok_def guard_def len_between_def split: option.splits)
  qed
qed

subsection \<open>The scores lie in the unit interval\<close>

lemma fl_unit: "0 \<le> x \<Longrightarrow> x \<le> 1 \<Longrightarrow> unit_score (fl x)"
  using fl_mono [of x 1] by (simp add: unit_score_def fl_nonneg)

lemma unit_complement: "unit_score x \<Longrightarrow> unit_score (fsub 1 x)"
  by (auto simp: fsub_def unit_score_def intro!: fl_unit [unfolded unit_score_def])

lemma unit_distance:
  assumes "unit_score x" "unit_score y"
  shows "unit_score \<bar>fsub x y\<bar>"
proof -
  have "\<bar>fl z\<bar> = fl \<bar>z\<bar>" for z :: rat
    using fl_nonneg [of z] fl_mono [of z 0] by (cases "0 \<le> z") (simp_all add: fl_minus)
  with assms show ?thesis by (auto simp: fsub_def unit_score_def intro!: fl_unit [unfolded unit_score_def])
qed

lemma unit_round: "unit_score x \<Longrightarrow> unit_score (py_round x n)"
  by (auto simp: unit_score_def intro: py_round_unit)

lemma unit_blend:
  assumes "unit_score x" "unit_score y" "0 \<le> a" "0 \<le> b" "fadd (fl a) (fl b) \<le> 1"
  shows "unit_score (fadd (fmul (fl a) x) (fmul (fl b) y))"
proof -
  have mul: "0 \<le> fmul (fl c) z \<and> fmul (fl c) z \<le> fl c" if "unit_score z" "0 \<le> c" for c z
    using that fl_mono [of "fl c * z" "fl c"] by (auto simp: unit_score_def fmul_def fl_nonneg mult_left_le)
  have "fadd (fmul (fl a) x) (fmul (fl b) y) \<le> fadd (fl a) (fl b)"
    using mul assms by (simp add: fadd_def fl_mono add_mono)
  with assms(5) mul [OF assms(1,3)] mul [OF assms(2,4)] show ?thesis by (simp add: unit_score_def fadd_def fl_nonneg)
qed

lemma fsum_ones: "int n \<le> 2 ^ 53 \<Longrightarrow> fsum (replicate n 1) = of_nat n"
proof (induction n)
  case (Suc n)
  then have "fsum (replicate n 1 @ [1]) = fl (of_int (int n + 1))" by (simp add: fsum_fold)
  also have "\<dots> = of_nat (Suc n)" using Suc.prems fl_of_int [of "int n + 1"] by simp
  finally show ?case by (simp add: replicate_append_same)
qed (simp add: fsum_fold)

lemma unit_mean:
  assumes "\<forall>x\<in>set xs. unit_score x" "xs \<noteq> []" "int (length xs) \<le> 2 ^ 53"
  shows "unit_score (fdiv (fsum xs) (of_nat (length xs)))"
proof -
  have "fsum xs \<le> fsum (replicate (length xs) 1)"
    by (rule fsum_mono) (use assms(1) in \<open>auto simp: list_all2_conv_all_nth unit_score_def\<close>)
  then have "fsum xs \<le> of_nat (length xs)" using fsum_ones assms(3) by simp
  moreover have "0 \<le> fsum xs" using assms(1) by (intro fsum_nonneg) (simp add: unit_score_def)
  ultimately show ?thesis using assms(2) by (auto simp: fdiv_def intro!: fl_unit)
qed

lemma mastery_by_kp_unit:
  assumes "list_all valid_profile_feature (sp_features p)" "mastery_by_kp p k = Some x"
  shows "unit_score x"
proof -
  let ?add = "\<lambda>f result. let key = pf_feature_key f
         in if pf_dimension f = PD_KNOWLEDGE_MASTERY \<and> take (length mastery_prefix) key = mastery_prefix
               \<and> length mastery_suffix \<le> length key
               \<and> drop (length key - length mastery_suffix) key = mastery_suffix
            then result(drop (length mastery_prefix) (take (length key - length mastery_suffix) key)
                          \<mapsto> pf_normalized_score f)
            else result"
  have "fold ?add fs m k = Some x \<Longrightarrow> list_all valid_profile_feature fs \<Longrightarrow> (\<And>k x. m k = Some x \<Longrightarrow> unit_score x)
      \<Longrightarrow> unit_score x" for fs m
  proof (induction fs arbitrary: m)
    case (Cons f fs)
    have "unit_score y" if "?add f m j = Some y" for j y
      using that Cons.prems(2,3) by (auto simp: Let_def valid_profile_feature_def split: if_splits)
    with Cons.IH [of "?add f m"] Cons.prems(1,2) show ?case by simp
  qed simp
  from this [OF assms(2) [unfolded mastery_by_kp_def] assms(1)] show ?thesis by simp
qed

lemma misconception_by_kp_unit:
  assumes "list_all valid_profile_feature (sp_features p)" "misconception_by_kp p k = Some x"
  shows "unit_score x"
proof -
  let ?add = "\<lambda>f result. if pf_dimension f \<noteq> PD_MISCONCEPTION_PREFERENCE then result
         else case map_of (pf_value_document f) ''kp_id'' of
                Some (DStr k) \<Rightarrow>
                  result(k \<mapsto> max (case result k of None \<Rightarrow> 0 | Some s \<Rightarrow> s) (pf_normalized_score f))
              | _ \<Rightarrow> result"
  have "fold ?add fs m k = Some x \<Longrightarrow> list_all valid_profile_feature fs \<Longrightarrow> (\<And>k x. m k = Some x \<Longrightarrow> unit_score x)
      \<Longrightarrow> unit_score x" for fs m
  proof (induction fs arbitrary: m)
    case (Cons f fs)
    have "unit_score y" if "?add f m j = Some y" for j y
      using that Cons.prems(2,3)
      by (auto simp: valid_profile_feature_def unit_score_def le_max_iff_disj split: if_splits option.splits doc.splits)
    with Cons.IH [of "?add f m"] Cons.prems(1,2) show ?case by simp
  qed simp
  from this [OF assms(2) [unfolded misconception_by_kp_def] assms(1)] show ?thesis by simp
qed

text \<open>The records that the planner reads, as the validators of their types leave them.\<close>

definition valid_request :: "plan_request \<Rightarrow> bool" where
  "valid_request r \<longleftrightarrow> valid_profile (pt_profile r) \<and> list_all valid_memory_state (pt_memory_states r)
     \<and> list_all valid_knowledge_point (gs_knowledge_points (pt_graph_snapshot r))
     \<and> int (length (gs_prerequisites (pt_graph_snapshot r))) \<le> 2 ^ 53"

lemma readiness_value_unit:
  assumes "unit_score (sp_knowledge_mastery p)" "\<And>k x. mastery k = Some x \<Longrightarrow> unit_score x"
    and "\<And>k m. memory k = Some m \<Longrightarrow> unit_score (my_retrievability m)"
  shows "unit_score (readiness_value p mastery memory k)"
proof -
  have "fadd (fl (7/10)) (fl (3/10)) \<le> 1" by code_simp
  moreover have "unit_score (get_or mastery k (sp_knowledge_mastery p))" using assms by (auto simp: get_or_def split: option.splits)
  moreover have "unit_score (case memory k of Some m \<Rightarrow> my_retrievability m | None \<Rightarrow> 0)"
    using assms(3) by (auto simp: unit_score_def split: option.splits)
  ultimately show ?thesis unfolding readiness_value_def by (intro unit_blend) simp_all
qed

lemma components_unit:
  assumes "valid_request r" "sanitize_graph (pt_graph_snapshot r) = Inr g" "k \<in> set (kp_ids g)"
    and "score_point policy r g selected k = Inr s" "x \<in> set (component_items (st_components s))"
  shows "unit_score (snd x)"
proof -
  let ?p = "pt_profile r" and ?mastery = "mastery_by_kp (pt_profile r)" and ?memory = "dict_by my_kp_id (pt_memory_states r)"
  let ?required = "filter (\<lambda>e. pq_relation_type e = PT_REQUIRED) (incoming_edges (sg_prerequisites g) selected k)"
  let ?readiness = "map (\<lambda>e. readiness_value ?p ?mastery ?memory (pq_prerequisite_kp_id e)) ?required"
  have p: "unit_score (sp_knowledge_mastery ?p)" "unit_score (sp_problem_solving_proficiency ?p)"
    "unit_score (sp_learning_pace ?p)" "unit_score (sp_learning_goal_tendency ?p)"
    "list_all valid_profile_feature (sp_features ?p)"
    using assms(1) by (simp_all add: valid_request_def valid_profile_def)
  note mastery = mastery_by_kp_unit [OF p(5)] and misconception = misconception_by_kp_unit [OF p(5)]
  have memory: "unit_score (my_retrievability m)" if "?memory j = Some m" for j m
    using dict_by_SomeD [OF that] assms(1) by (auto simp: valid_request_def list_all_iff valid_memory_state_def)
  note graph = sanitize_graph_spec [of "pt_graph_snapshot r", unfolded assms(2)]
  have "length ?required \<le> length (sg_prerequisites g)"
    by (rule order_trans [OF length_filter_le]) (simp add: incoming_edges_def)
  moreover have "length (sg_prerequisites g) \<le> length (gs_prerequisites (pt_graph_snapshot r))" using graph by auto
  ultimately have len: "int (length ?readiness) \<le> 2 ^ 53" using assms(1) by (simp add: valid_request_def)
  have "unit_score (kn_difficulty_score (st_point s))"
    using graph scored_point_member(1) [OF assms(4)] assms(1)
    by (auto simp: valid_request_def list_all_iff active_points_def valid_knowledge_point_def)
  moreover have "unit_score (sg_topology_weights g k)"
    using graph assms(3) analyze_topology_cases [of "kp_ids g" "map topology_edge_of (sg_prerequisites g)"]
    by (auto simp: unit_score_def)
  moreover have "unit_score (get_or ?mastery k (sp_knowledge_mastery ?p))" "unit_score (get_or (misconception_by_kp ?p) k 0)"
    using mastery misconception p(1) by (auto simp: get_or_def unit_score_def split: option.splits)
  moreover have "unit_score (case ?memory k of Some m \<Rightarrow> fsub 1 (my_retrievability m) | None \<Rightarrow> 1)"
    using unit_complement [OF memory] by (simp add: unit_score_def split: option.splits)
  moreover have "unit_score (if ?readiness = [] then 1 else fdiv (fsum ?readiness) (of_nat (length ?readiness)))"
    using unit_mean [OF _ _ len] readiness_value_unit [OF p(1) mastery memory] by (auto simp: unit_score_def)
  moreover have "unit_score (fadd (fmul (fl (6/10)) (sp_problem_solving_proficiency ?p)) (fmul (fl (4/10)) (sp_learning_pace ?p)))"
    by (rule unit_blend [OF p(2,3)]) (simp_all, code_simp)
  moreover have "unit_score 1" by (simp add: unit_score_def)
  ultimately have "unit_score (sn_mastery_deficit (st_components s)) \<and> unit_score (sn_memory_risk (st_components s))
    \<and> unit_score (sn_misconception_severity (st_components s)) \<and> unit_score (sn_goal_alignment (st_components s))
    \<and> unit_score (sn_topology_weight (st_components s)) \<and> unit_score (sn_difficulty_pace_fit (st_components s))
    \<and> unit_score (sn_prerequisite_readiness (st_components s))"
    using assms(3) p(4) unfolding scored_point_member(3) [OF assms(4)]
    by (simp add: score_components_of_def Let_def unit_round unit_complement unit_distance)
  then show ?thesis using assms(5) by (auto simp: component_items_def)
qed

lemma default_weights:
  "map_of (rev (po_weights default_path_policy)) ` set component_names \<subseteq> Some ` {w. 0 \<le> w \<and> fl w = w}"
  "map (\<lambda>name. the (map_of (rev (po_weights default_path_policy)) name)) component_names
    = map snd (po_weights default_path_policy)"
  "py_round (fsum (map snd (po_weights default_path_policy))) 12 = 1"
  by (auto simp: default_path_policy_def component_names_def fl_nonneg) code_simp

lemma default_weighs_all: "weighs_all default_path_policy"
  by (simp add: weighs_all_def default_path_policy_def component_names_def)

lemma total_score_unit:
  assumes "total_score default_path_policy c = Inr t" "\<forall>x\<in>set (component_items c). unit_score (snd x)"
  shows "unit_score t"
proof -
  let ?w = "\<lambda>name. the (map_of (rev (po_weights default_path_policy)) name)"
  let ?products = "map (\<lambda>(name, value). fmul (?w name) value) (component_items c)"
  have t: "t = py_round (fsum ?products) 12" using assms(1) total_score_Inr [OF default_weighs_all, of c] by simp
  have product: "0 \<le> fmul (?w (fst x)) (snd x) \<and> fmul (?w (fst x)) (snd x) \<le> ?w (fst x)"
    if "x \<in> set (component_items c)" for x
  proof -
    have "fst x \<in> set component_names" using that component_items_names [of c] by (metis image_eqI list.set_map)
    then have w: "0 \<le> ?w (fst x)" "fl (?w (fst x)) = ?w (fst x)" using default_weights(1) by fastforce+
    have "unit_score (snd x)" using assms(2) that by blast
    with w fl_mono [of "?w (fst x) * snd x" "?w (fst x)"] show ?thesis
      by (simp add: unit_score_def fmul_def fl_nonneg mult_left_le)
  qed
  have "list_all2 (\<le>) ?products (map ?w (map fst (component_items c)))"
    using product by (auto simp: list_all2_conv_all_nth case_prod_unfold)
  from fsum_mono [OF this] have "fsum ?products \<le> fsum (map snd (po_weights default_path_policy))"
    unfolding component_items_names default_weights(2) .
  then have "t \<le> 1" using py_round_mono default_weights(3) t by metis
  moreover have "0 \<le> fsum ?products" using product by (intro fsum_nonneg) (auto simp: case_prod_unfold)
  then have "0 \<le> t" using py_round_mono [of 0 _ 12] py_round_of_int [of 0 12] t by simp
  ultimately show ?thesis by (simp add: unit_score_def)
qed

text \<open>
  C36.  Bounds of the scores.  In a path planned with the default policy from valid records, every
  component and the priority score of every node lie between zero and one, although each is a sum or a mean of rounded
  floating-point numbers.
\<close>

theorem plan_scores_bounded:
  assumes "plan sha default_path_policy path_id change_id r = Inr (s, c)" "valid_request r"
  shows "\<exists>nodes. ls_path_document s = path_document nodes
    \<and> (\<forall>n\<in>set nodes. unit_score (pn_priority_score n)
         \<and> (\<forall>x\<in>set (component_items (pn_score_components n)). unit_score (snd x)))"
proof -
  from planE [OF assms(1)] obtain nodes selected repairs where
    run: "path_nodes default_path_policy r = Inr (nodes, selected, repairs)"
      "s = (draft_path default_path_policy r path_id nodes selected repairs)
        \<lparr>ls_content_sha256 := sha (path_hash_document (draft_path default_path_policy r path_id nodes selected repairs))\<rparr>"
    by metis
  have "unit_score (pn_priority_score n) \<and> (\<forall>x\<in>set (component_items (pn_score_components n)). unit_score (snd x))"
    if n: "n \<in> set nodes" for n
  proof -
    from path_nodes_points [OF default_weighs_all run(1) n] obtain g k sp where
      R: "sanitize_graph (pt_graph_snapshot r) = Inr g" "k \<in> set (kp_ids g)"
        "score_point default_path_policy r g selected k = Inr sp"
        "n = path_node_of (sg_prerequisites g) selected (pn_order n) k sp" by blast
    note unit = components_unit [OF assms(2) R(1-3)]
    have "unit_score (st_total sp)"
      using total_score_unit [OF scored_point_member(4) [OF R(3)]] unit by blast
    moreover have "pn_priority_score n = st_total sp" "pn_score_components n = st_components sp"
      by (subst R(4), simp add: path_node_of_def)+
    ultimately show ?thesis using unit by simp
  qed
  with run(2) show ?thesis by (intro exI [of _ nodes]) (simp add: draft_path_def)
qed

text \<open>
  C32.  What a path holds.  A plan's nodes are the target points and everything they need through
  required or recommended prerequisites (all active points without a target), each once and after every prerequisite of the
  repaired graph, which its node names; the order numbers count from zero, the node count is the size of that set, and
  the path's minutes are the sum over the nodes.  Without a manual order the next node is always the best by tier, score and identifier
  of those whose prerequisites are done; a manual order is followed to the letter exactly when it respects the prerequisites.
\<close>

theorem plan_path:
  assumes "weighs_all policy" "plan sha policy path_id change_id r = Inr (s, c)"
  shows "\<exists>g nodes. sanitize_graph (pt_graph_snapshot r) = Inr g \<and> ls_path_document s = path_document nodes
    \<and> good_path g (pt_target_kp_ids r) (pt_manual_order r) nodes
    \<and> ls_node_count s = int (card (path_scope g (pt_target_kp_ids r)))
    \<and> ls_estimated_minutes s = sum_list (map pn_estimated_minutes nodes)"
proof -
  from planE [OF assms(2)] obtain nodes selected repairs where
    run: "path_nodes policy r = Inr (nodes, selected, repairs)"
      "s = (draft_path policy r path_id nodes selected repairs)
        \<lparr>ls_content_sha256 := sha (path_hash_document (draft_path policy r path_id nodes selected repairs))\<rparr>"
    by metis
  from path_nodes_good [OF assms(1) run(1)] obtain g where
    g: "sanitize_graph (pt_graph_snapshot r) = Inr g" "good_path g (pt_target_kp_ids r) (pt_manual_order r) nodes" by blast
  then have "set (map pn_kp_id nodes) = path_scope g (pt_target_kp_ids r)" "distinct (map pn_kp_id nodes)"
    unfolding good_path_def Let_def topological_def by blast+
  then have "length nodes = card (path_scope g (pt_target_kp_ids r))" by (metis distinct_card length_map)
  with g run(2) show ?thesis by (intro exI [of _ g] exI [of _ nodes]) (simp add: draft_path_def)
qed

text \<open>
  The records of a plan.  A returned snapshot satisfies the validators of its type, carries
  the hash of its own content, and continues the learner's history: the next version, with the previous path as its parent, for the
  same learner and course.  The change record is valid and leads from that parent to the snapshot.
\<close>

theorem plan_well_typed:
  assumes "plan sha policy path_id change_id r = Inr (s, c)"
  shows "valid_path_snapshot s \<and> ls_content_sha256 s = sha (path_hash_document s)
    \<and> (case pt_previous_path r of
         None \<Rightarrow> ls_path_version s = 1 \<and> ls_parent_path_snapshot_id s = None
       | Some p \<Rightarrow> ls_path_version s = ls_path_version p + 1 \<and> ls_parent_path_snapshot_id s = Some (ls_path_snapshot_id p)
           \<and> ls_learner_ref s = ls_learner_ref p \<and> ls_course_id s = ls_course_id p)
    \<and> valid_path_change c \<and> ph_from_path_snapshot_id c = ls_parent_path_snapshot_id s
    \<and> ph_to_path_snapshot_id c = ls_path_snapshot_id s \<and> ph_learner_ref c = ls_learner_ref s
    \<and> ph_course_id c = ls_course_id s \<and> ph_occurred_at c = ls_frozen_at s"
  by (rule planE [OF assms])
    (auto simp: draft_path_def path_hash_document_def plan_inputs_ok_def split: option.splits)

lemma previous_nodes_self:
  assumes "ls_path_document s = path_document nodes"
  shows "previous_nodes (Some s) = Inr (map (\<lambda>n. (pn_kp_id n, node_doc n)) nodes)"
proof -
  have "keyed_node ((DObj \<circ> node_doc) n) = Some (pn_kp_id n, node_doc n)" for n by (simp add: node_doc_def)
  then have "List.map_filter keyed_node (map (DObj \<circ> node_doc) ns) = map (\<lambda>n. (pn_kp_id n, node_doc n)) ns" for ns
    by (induction ns) (simp_all add: map_filter_simps)
  then show ?thesis using assms by (simp add: previous_nodes_def path_document_def)
qed

lemma change_lines_same: "change_lines name from_name to_name m m ids = []"
  by (auto simp: change_lines_def filter_empty_conv doc_differs_def split: option.splits)

lemma path_nodes_previous:
  "path_nodes policy (r\<lparr>pt_previous_path := q, pt_change_type := t, pt_trigger_reason := reason, pt_generated_at := now\<rparr>)
    = path_nodes policy r"
proof -
  have "score_point policy (r\<lparr>pt_previous_path := q, pt_change_type := t, pt_trigger_reason := reason, pt_generated_at := now\<rparr>)
      = score_point policy r"
    by (intro ext) (simp add: score_point_def split: option.splits)
  then show ?thesis by (simp add: path_nodes_def)
qed

lemma change_document_self:
  assumes "ls_path_document s = path_document nodes"
  shows "change_document (Some s) nodes repairs = Inr [(''added_kp_ids'', DList []), (''removed_kp_ids'', DList []),
    (''moved'', DList []), (''tier_changes'', DList []), (''repairs'', DList (map repair_document repairs))]"
  using previous_nodes_self [OF assms]
  by (simp add: change_document_def Let_def strings_doc_def change_lines_same filter_empty_conv o_def image_image)

text \<open>
  Planning is stable.  Planning again from the same inputs, with the first path as the
  previous one, succeeds and returns the same path document as the next version; its change record reports nothing added,
  removed, moved or placed in another tier.
\<close>

theorem replan_stable:
  assumes "plan sha policy path_id change_id r = Inr (s, c)" "\<forall>d. is_sha256_hex (sha d)"
    and "path_id' \<noteq> path_id" "len_between 1 128 reason"
  shows "\<exists>s' c'. plan sha policy path_id' change_id'
        (r\<lparr>pt_previous_path := Some s, pt_change_type := t, pt_trigger_reason := reason, pt_generated_at := now\<rparr>) = Inr (s', c')
    \<and> ls_path_document s' = ls_path_document s \<and> ls_path_version s' = ls_path_version s + 1
    \<and> list_all (\<lambda>name. map_of (ph_change_document c') name = Some (DList []))
        [''added_kp_ids'', ''removed_kp_ids'', ''moved'', ''tier_changes'']"
proof -
  let ?r = "r\<lparr>pt_previous_path := Some s, pt_change_type := t, pt_trigger_reason := reason, pt_generated_at := now\<rparr>"
  from planE [OF assms(1)] obtain nodes selected repairs where
    run: "plan_inputs_ok r" "path_nodes policy r = Inr (nodes, selected, repairs)"
      "s = (draft_path policy r path_id nodes selected repairs)
        \<lparr>ls_content_sha256 := sha (path_hash_document (draft_path policy r path_id nodes selected repairs))\<rparr>"
      "valid_path_snapshot s" by metis
  have s: "ls_path_document s = path_document nodes" "ls_learner_ref s = sp_learner_ref (pt_profile r)"
    "ls_course_id s = sp_course_id (pt_profile r)" "ls_path_snapshot_id s = path_id"
    by (simp_all add: run(3) draft_path_def)
  have "plan_inputs_ok ?r" using run(1) s by (auto simp: plan_inputs_ok_def list_all_iff)
  moreover have "path_nodes policy ?r = Inr (nodes, selected, repairs)" unfolding path_nodes_previous by (rule run(2))
  moreover have "valid_path_snapshot ((draft_path policy ?r path_id' nodes selected repairs)\<lparr>ls_content_sha256 := d\<rparr>)"
    if "is_sha256_hex d" for d
    using run(4) assms(4) that by (simp add: valid_path_snapshot_def run(3) draft_path_def)
  moreover have "draft_path policy ?r path_id' nodes selected repairs
      = (draft_path policy ?r path_id' nodes selected repairs)\<lparr>ls_content_sha256 := replicate 64 (CHR ''0'')\<rparr>"
    by (simp add: draft_path_def)
  ultimately show ?thesis
    using assms(2-4) blank_digest change_document_self [OF s(1)] s
    by (simp add: plan_def Let_def guard_def valid_path_change_def draft_path_def len_between_def)
qed

text \<open>
  C33.  When planning succeeds.  For valid stored records and a policy that weighs every
  component, the planner returns a path for every request whose texts have the permitted lengths, whose records belong
  to one learner and course, whose graph has an active point, whose target names active points only, and whose manual order
  names points of the path without repetition; and it raises \<^verbatim>\<open>ValueError\<close>, nothing else, for every other request.
\<close>

theorem plan_succeeds:
  assumes "weighs_all policy" "\<forall>d. is_sha256_hex (sha d)" "1 \<le> gs_graph_version (pt_graph_snapshot r)"
    and "list_all valid_knowledge_point (gs_knowledge_points (pt_graph_snapshot r))"
    and "\<forall>s\<in>set_option (pt_previous_path r). stored_path path_id s"
  shows "case plan sha policy path_id change_id r of Inl e \<Rightarrow> e = Path_value_error \<and> \<not> acceptable r | Inr _ \<Rightarrow> acceptable r"
  by (rule plan_cases [OF assms])

subsection \<open>A concrete plan\<close>

definition sample_point :: "kp_id \<Rightarrow> rat \<Rightarrow> knowledge_point" where
  "sample_point k d =
     \<lparr>kn_kp_id = k, kn_course_id = ''CRS_CTRL'', kn_revision = 1, kn_title = k, kn_aliases = [], kn_summary = ''summary'',
      kn_learning_objectives = [''objective''], kn_category = ''control'', kn_difficulty_level = 2, kn_difficulty_score = fl d,
      kn_topology_level = 0, kn_topology_weight = 0, kn_estimated_minutes = 45, kn_formula_signatures = [], kn_tags = [],
      kn_status = KS_ACTIVE, kn_authority_sources = [], kn_created_at = 0, kn_updated_at = 0\<rparr>"

definition sample_edge :: "string \<Rightarrow> kp_id \<Rightarrow> kp_id \<Rightarrow> prerequisite_type \<Rightarrow> prerequisite" where
  "sample_edge e p d t =
     \<lparr>pq_edge_id = e, pq_course_id = ''CRS_CTRL'', pq_prerequisite_kp_id = p, pq_dependent_kp_id = d, pq_relation_type = t,
      pq_strength = 1, pq_rationale = ''rationale'', pq_revision = 1, pq_created_at = 0, pq_updated_at = 0\<rparr>"

text \<open>Response needs transfer, transfer needs the model; a supporting edge closes a cycle; stability is not a target.\<close>

definition sample_graph :: graph_snapshot where
  "sample_graph =
     \<lparr>gs_snapshot_id = ''graph'', gs_course_id = ''CRS_CTRL'', gs_graph_version = 3,
      gs_knowledge_points = [sample_point ''KP_response'' (7/10), sample_point ''KP_model'' (2/10),
        sample_point ''KP_transfer'' (5/10), sample_point ''KP_stability'' (8/10)],
      gs_prerequisites = [sample_edge ''EDGE_1'' ''KP_model'' ''KP_transfer'' PT_REQUIRED,
        sample_edge ''EDGE_2'' ''KP_transfer'' ''KP_response'' PT_REQUIRED,
        sample_edge ''EDGE_3'' ''KP_response'' ''KP_model'' PT_SUPPORTING]\<rparr>"

definition sample_feature :: "profile_dimension \<Rightarrow> string \<Rightarrow> profile_feature" where
  "sample_feature d key =
     \<lparr>pf_feature_id = key, pf_dimension = d, pf_feature_key = key, pf_value_document = [], pf_normalized_score = fl (5/10),
      pf_confidence = 1, pf_evidence_count = 1, pf_source_event_ids = [], pf_computed_at = 0\<rparr>"

definition sample_profile :: student_profile where
  "sample_profile =
     \<lparr>sp_profile_id = ''profile'', sp_learner_ref = ''learner'', sp_course_id = ''CRS_CTRL'', sp_profile_version = 1,
      sp_parent_profile_id = None, sp_policy_version = ''v1'', sp_knowledge_mastery = fl (5/10),
      sp_problem_solving_proficiency = fl (5/10), sp_misconception_preference = 0, sp_learning_pace = fl (5/10),
      sp_forgetting_rate = fl (5/10), sp_learning_goal_tendency = fl (5/10), sp_confidence_score = 1, sp_activity_count = 1,
      sp_last_event_at = None, sp_source_window_start = None, sp_source_window_end = None, sp_profile_document = DObj [],
      sp_content_sha256 = replicate 64 (CHR ''a''), sp_frozen_at = 0,
      sp_features = map (\<lambda>d. sample_feature d ''kp:KP_model:mastery'')
        [PD_KNOWLEDGE_MASTERY, PD_PROBLEM_SOLVING_PROFICIENCY, PD_MISCONCEPTION_PREFERENCE, PD_LEARNING_PACE,
         PD_FORGETTING_RATE, PD_LEARNING_GOAL_TENDENCY]\<rparr>"

definition sample_request :: plan_request where
  "sample_request =
     \<lparr>pt_graph_snapshot = sample_graph, pt_profile = sample_profile, pt_memory_states = [], pt_generated_at = 1000,
      pt_target_goal = ''goal'', pt_target_kp_ids = Some [''KP_response''], pt_previous_path = None,
      pt_change_type = PC_INITIALIZED, pt_trigger_reason = ''INITIAL_PROFILE_READY'', pt_manual_order = None\<rparr>"

definition sample_sha :: "doc \<Rightarrow> digest" where
  "sample_sha d = replicate 64 (CHR ''b'')"

lemma sample_sha_hex: "is_sha256_hex (sample_sha d)"
  unfolding sample_sha_def by code_simp

lemma sample_request_valid: "valid_request sample_request"
  by code_simp

lemma sample_sanitized:
  "case sanitize_graph sample_graph of
     Inl _ \<Rightarrow> False
   | Inr g \<Rightarrow> map pq_edge_id (sg_prerequisites g) = [''EDGE_1'', ''EDGE_2''] \<and> map gp_edge_id (sg_repairs g) = [Some ''EDGE_3'']
       \<and> select_nodes g (Some [''KP_response'']) = Inr [''KP_response'', ''KP_transfer'', ''KP_model'']"
  by code_simp

lemma sample_scope:
  "\<exists>g. sanitize_graph sample_graph = Inr g \<and> scope_ok sample_request g
     \<and> path_scope g (pt_target_kp_ids sample_request) = {''KP_response'', ''KP_transfer'', ''KP_model''}"
proof -
  from sample_sanitized obtain g where g: "sanitize_graph sample_graph = Inr g"
    "select_nodes g (Some [''KP_response'']) = Inr [''KP_response'', ''KP_transfer'', ''KP_model'']"
    by (auto split: sum.splits)
  have r: "pt_target_kp_ids sample_request = Some [''KP_response'']" "pt_manual_order sample_request = None"
    by (simp_all add: sample_request_def)
  from select_nodes_scope [OF g(2)] g(1) show ?thesis by (intro exI [of _ g]) (simp add: r scope_ok_def)
qed

lemma sample_ready:
  "acceptable sample_request" "pt_previous_path sample_request = None" "1 \<le> gs_graph_version (pt_graph_snapshot sample_request)"
  "list_all valid_knowledge_point (gs_knowledge_points (pt_graph_snapshot sample_request))"
proof -
  have "plan_inputs_ok sample_request" "len_between 1 128 (pt_trigger_reason sample_request)" by code_simp+
  moreover have "pt_graph_snapshot sample_request = sample_graph" by (simp add: sample_request_def)
  ultimately show "acceptable sample_request" using sample_scope by (auto simp: acceptable_def)
  show "pt_previous_path sample_request = None" "1 \<le> gs_graph_version (pt_graph_snapshot sample_request)"
    by (simp_all add: sample_request_def sample_graph_def)
  show "list_all valid_knowledge_point (gs_knowledge_points (pt_graph_snapshot sample_request))"
    using sample_request_valid by (simp add: valid_request_def)
qed

lemma sample_plan:
  obtains s c where "plan sample_sha default_path_policy ''path-1'' ''change-1'' sample_request = Inr (s, c)"
proof -
  have "case plan sample_sha default_path_policy ''path-1'' ''change-1'' sample_request of
      Inl e \<Rightarrow> e = Path_value_error \<and> \<not> acceptable sample_request | Inr _ \<Rightarrow> acceptable sample_request"
    by (rule plan_cases) (simp_all add: default_weighs_all sample_sha_hex sample_ready)
  with sample_ready(1) that show ?thesis by (auto split: sum.splits)
qed

theorem plan_succeeds_witness:
  "\<exists>x. plan sample_sha default_path_policy ''path-1'' ''change-1'' sample_request = Inr x"
proof -
  have "\<forall>d. is_sha256_hex (sample_sha d)" by (simp add: sample_sha_hex)
  from plan_succeeds [OF default_weighs_all this sample_ready(3,4), of "''path-1''" "''change-1''"] sample_ready(1,2)
  show ?thesis by (auto split: sum.splits)
qed

theorem plan_scores_bounded_witness:
  "\<exists>s c nodes. plan sample_sha default_path_policy ''path-1'' ''change-1'' sample_request = Inr (s, c)
     \<and> ls_path_document s = path_document nodes \<and> list_all (\<lambda>n. unit_score (pn_priority_score n)) nodes"
proof -
  obtain s c where run: "plan sample_sha default_path_policy ''path-1'' ''change-1'' sample_request = Inr (s, c)"
    by (rule sample_plan)
  from plan_scores_bounded [OF run sample_request_valid] run show ?thesis by (auto simp: list_all_iff)
qed

theorem plan_path_witness:
  "\<exists>s c. plan sample_sha default_path_policy ''path-1'' ''change-1'' sample_request = Inr (s, c) \<and> ls_node_count s = 3"
proof -
  obtain s c where run: "plan sample_sha default_path_policy ''path-1'' ''change-1'' sample_request = Inr (s, c)"
    by (rule sample_plan)
  obtain g where g: "sanitize_graph (pt_graph_snapshot sample_request) = Inr g"
    "path_scope g (pt_target_kp_ids sample_request) = {''KP_response'', ''KP_transfer'', ''KP_model''}"
    using sample_scope by (auto simp: sample_request_def)
  have "ls_node_count s = int (card (path_scope g (pt_target_kp_ids sample_request)))"
    using plan_path [OF default_weighs_all run] unfolding g(1) sum.inject by blast
  then have "ls_node_count s = 3" unfolding g(2) by simp
  with run show ?thesis by blast
qed

theorem plan_well_typed_witness:
  "\<exists>s c. plan sample_sha default_path_policy ''path-1'' ''change-1'' sample_request = Inr (s, c)
     \<and> valid_path_snapshot s \<and> ls_path_version s = 1 \<and> ph_from_path_snapshot_id c = None"
proof -
  obtain s c where run: "plan sample_sha default_path_policy ''path-1'' ''change-1'' sample_request = Inr (s, c)"
    by (rule sample_plan)
  from plan_well_typed [OF run] run sample_ready(2) show ?thesis by auto
qed

theorem replan_stable_witness:
  "\<exists>s c s' c'. plan sample_sha default_path_policy ''path-1'' ''change-1'' sample_request = Inr (s, c)
     \<and> plan sample_sha default_path_policy ''path-2'' ''change-2'' (sample_request\<lparr>pt_previous_path := Some s,
          pt_change_type := PC_MEMORY_RISK, pt_trigger_reason := ''MEMORY_RISK'', pt_generated_at := 2000\<rparr>) = Inr (s', c')
     \<and> ls_path_document s' = ls_path_document s \<and> map_of (ph_change_document c') ''moved'' = Some (DList [])"
proof -
  obtain s c where run: "plan sample_sha default_path_policy ''path-1'' ''change-1'' sample_request = Inr (s, c)"
    by (rule sample_plan)
  have "\<forall>d. is_sha256_hex (sample_sha d)" "len_between 1 128 ''MEMORY_RISK''"
    by (simp_all add: sample_sha_hex len_between_def)
  from replan_stable [OF run this(1) _ this(2), of "''path-2''" "''change-2''" 2000 PC_MEMORY_RISK] run
  show ?thesis by fastforce
qed

end
