(* ===== verification/Contents.thy ===== *)
theory Contents
  imports Contracts PyFloat
begin

text \<open>
  The frozen content schemas of generated blocks, \<^verbatim>\<open>packages/contracts-python/src/liyans_contracts/topic3.py\<close>.
  The revision engine accepts a content only when it parses and dumps back to an equal document; the
  predicates below say when that is so: every field is present, none is unknown, every text is stripped, and the
  constraints and validators of the model hold.  A number may be written as an integer or a Boolean where a float is expected (and the
  other way round for a flag), because Python compares \<^verbatim>\<open>1 == 1.0 == True\<close>.
\<close>

subsection \<open>Exact schemas\<close>

datatype schema =
    SText
  | SStr int int
  | SPattern "string \<Rightarrow> bool"
  | SLit "string list"
  | SFloat "rat \<Rightarrow> bool"
  | SBool
  | SList int int schema
  | SOpt schema
  | SDict
  | SRec "(string \<times> schema) list"

definition stripped :: "string \<Rightarrow> bool" where
  "stripped s \<longleftrightarrow> s = [] \<or> \<not> is_space (hd s) \<and> \<not> is_space (last s)"

fun stripped_text :: "doc \<Rightarrow> bool" where
  "stripped_text (DStr s) = stripped s"
| "stripped_text d = False"

definition bounded :: "int \<Rightarrow> int \<Rightarrow> 'a list \<Rightarrow> bool" where
  "bounded lo hi xs \<longleftrightarrow> lo \<le> int (length xs) \<and> int (length xs) \<le> hi"

fun conforms :: "schema \<Rightarrow> doc \<Rightarrow> bool" and conforms_fields :: "(string \<times> schema) list \<Rightarrow> (string \<times> doc) list \<Rightarrow> bool" where
  "conforms SText d = stripped_text d"
| "conforms (SStr lo hi) d = (case d of DStr s \<Rightarrow> stripped s \<and> bounded lo hi s | _ \<Rightarrow> False)"
| "conforms (SPattern p) d = (case d of DStr s \<Rightarrow> stripped s \<and> p s | _ \<Rightarrow> False)"
| "conforms (SLit ss) d = (case d of DStr s \<Rightarrow> s \<in> set ss | _ \<Rightarrow> False)"
| "conforms (SFloat p) d = (case number_of d of Some x \<Rightarrow> fl x = x \<and> p x | None \<Rightarrow> False)"
| "conforms SBool d = (case number_of d of Some x \<Rightarrow> x = 0 \<or> x = 1 | None \<Rightarrow> False)"
| "conforms (SList lo hi s) d = (case d of DList ds \<Rightarrow> bounded lo hi ds \<and> list_all (conforms s) ds | _ \<Rightarrow> False)"
| "conforms (SOpt s) d = (d = DNull \<or> conforms s d)"
| "conforms SDict d =
     (case d of DObj kvs \<Rightarrow> list_all (\<lambda>(k, v). stripped k \<and> stripped_text v) kvs \<and> distinct (map fst kvs) | _ \<Rightarrow> False)"
| "conforms (SRec fs) d =
     (case d of DObj kvs \<Rightarrow> distinct (map fst kvs) \<and> set (map fst kvs) = set (map fst fs) \<and> conforms_fields fs kvs
      | _ \<Rightarrow> False)"
| "conforms_fields [] kvs = True"
| "conforms_fields ((name, s) # fs) kvs = (conforms s (field name kvs) \<and> conforms_fields fs kvs)"

text \<open>Reading a checked document.\<close>

definition text_at :: "string \<Rightarrow> (string \<times> doc) list \<Rightarrow> string" where
  "text_at name kvs = (case field name kvs of DStr s \<Rightarrow> s | _ \<Rightarrow> [])"

definition float_at :: "string \<Rightarrow> (string \<times> doc) list \<Rightarrow> rat" where
  "float_at name kvs = (case number_of (field name kvs) of Some x \<Rightarrow> x | None \<Rightarrow> 0)"

definition texts_at :: "string \<Rightarrow> (string \<times> doc) list \<Rightarrow> string list" where
  "texts_at name kvs =
     (case field name kvs of DList ds \<Rightarrow> map (\<lambda>d. case d of DStr s \<Rightarrow> s | _ \<Rightarrow> []) ds | _ \<Rightarrow> [])"

definition objects_at :: "string \<Rightarrow> (string \<times> doc) list \<Rightarrow> (string \<times> doc) list list" where
  "objects_at name kvs =
     (case field name kvs of DList ds \<Rightarrow> map (\<lambda>d. case d of DObj o' \<Rightarrow> o' | _ \<Rightarrow> []) ds | _ \<Rightarrow> [])"

subsection \<open>The content models\<close>

definition lecturer_section :: schema where
  "lecturer_section = SRec [(''section_id'', SStr 1 128), (''title'', SStr 1 256),
     (''depth'', SLit [''FOUNDATION'', ''EXAM_FOCUS'', ''POSTGRADUATE'', ''ENGINEERING'']),
     (''markdown'', SStr 1 65536), (''target_kp_ids'', SList 1 64 SText)]"

definition lecturer_content :: schema where
  "lecturer_content = SRec [(''schema_version'', SLit [''topic3.lecturer-content.v1'']), (''title'', SStr 1 256),
     (''learning_objectives'', SList 1 16 SText), (''sections'', SList 1 32 lecturer_section),
     (''summary'', SList 1 32 SText), (''misconception_alerts'', SList 0 32 SText),
     (''personalization_notes'', SList 0 32 SText)]"

definition is_node_id :: "string \<Rightarrow> bool" where
  "is_node_id s \<longleftrightarrow> len_between 1 64 s
     \<and> (char_in (CHR ''A'') (CHR ''Z'') (hd s) \<or> char_in (CHR ''a'') (CHR ''z'') (hd s))
     \<and> list_all (\<lambda>c. is_alnum c \<or> c = CHR ''_'') (tl s)"

definition mindmap_node :: schema where
  "mindmap_node = SRec [(''node_id'', SPattern is_node_id), (''kp_id'', SStr 1 120), (''label'', SStr 1 128),
     (''mastery'', SFloat (\<lambda>x. 0 \<le> x \<and> x \<le> 1)),
     (''state'', SLit [''PREREQUISITE'', ''CURRENT'', ''MASTERED'', ''WEAK'', ''FUTURE'']), (''collapsed'', SBool)]"

definition mindmap_edge :: schema where
  "mindmap_edge = SRec [(''source_node_id'', SPattern is_node_id), (''target_node_id'', SPattern is_node_id),
     (''relation'', SLit [''PREREQUISITE'', ''CONTAINS'', ''REINFORCES''])]"

definition mindmap_content :: schema where
  "mindmap_content = SRec [(''schema_version'', SLit [''topic3.mindmap-content.v1'']), (''direction'', SLit [''TD'', ''LR'']),
     (''nodes'', SList 1 512 mindmap_node), (''edges'', SList 0 2048 mindmap_edge), (''mermaid'', SStr 1 65536)]"

definition lower_char :: "char \<Rightarrow> char" where
  "lower_char c = (if char_in (CHR ''A'') (CHR ''Z'') c then char_of ((of_char c :: nat) + 32) else c)"

definition valid_mindmap_graph :: "(string \<times> doc) list \<Rightarrow> bool" where
  "valid_mindmap_graph kvs \<longleftrightarrow>
     (let node_ids = map (text_at ''node_id'') (objects_at ''nodes'' kvs); mermaid = text_at ''mermaid'' kvs
      in distinct node_ids
         \<and> list_all (\<lambda>e. text_at ''source_node_id'' e \<noteq> text_at ''target_node_id'' e
             \<and> text_at ''source_node_id'' e \<in> set node_ids \<and> text_at ''target_node_id'' e \<in> set node_ids)
             (objects_at ''edges'' kvs)
         \<and> starts_with (''graph '' @ text_at ''direction'' kvs) mermaid
         \<and> \<not> list_ex (\<lambda>token. contains_substring token (map lower_char mermaid)) [''<script'', ''javascript:'', ''click ''])"

definition tester_question :: schema where
  "tester_question = SRec [(''question_id'', SStr 1 128),
     (''question_type'', SLit [''CONCEPT'', ''DISCRIMINATION'', ''CALCULATION'', ''ENGINEERING'', ''MISCONCEPTION'']),
     (''difficulty'', SFloat (\<lambda>x. 0 \<le> x \<and> x \<le> 1)), (''target_kp_ids'', SList 1 16 SText),
     (''prompt_markdown'', SStr 1 8192), (''standard_answer'', SStr 1 8192), (''solution_steps'', SList 1 32 SText),
     (''misconception_diagnostics'', SList 0 16 SText), (''score'', SFloat (\<lambda>x. 0 < x \<and> x \<le> 100))]"

definition tester_content :: schema where
  "tester_content = SRec [(''schema_version'', SLit [''topic3.tester-content.v1'']), (''title'', SStr 1 256),
     (''total_score'', SFloat (\<lambda>x. 0 < x \<and> x \<le> 1000)), (''questions'', SList 1 100 tester_question),
     (''diagnostic_dimensions'', SList 1 16 SText)]"

definition valid_questions :: "(string \<times> doc) list \<Rightarrow> bool" where
  "valid_questions kvs \<longleftrightarrow>
     (let questions = objects_at ''questions'' kvs
      in distinct (map (text_at ''question_id'') questions)
         \<and> \<bar>fsub (fsum (map (float_at ''score'') questions)) (float_at ''total_score'' kvs)\<bar> \<le> fl (1 / 10 ^ 6))"

definition is_code_path :: "string \<Rightarrow> bool" where
  "is_code_path s \<longleftrightarrow> len_between 1 256 s \<and> list_all (\<lambda>c. is_alnum c \<or> c \<in> set ''_./-'') s"

definition code_file :: schema where
  "code_file = SRec [(''path'', SPattern is_code_path), (''language'', SLit [''python'', ''matlab'']),
     (''content'', SStr 1 65536), (''entrypoint'', SBool)]"

definition code_sandbox_content :: schema where
  "code_sandbox_content = SRec [(''schema_version'', SLit [''topic3.code-sandbox-content.v1'']), (''title'', SStr 1 256),
     (''objective'', SStr 1 1024), (''files'', SList 1 32 code_file), (''parameters'', SDict),
     (''expected_observations'', SList 1 32 SText), (''result_analysis'', SStr 1 8192), (''safety_notes'', SList 0 16 SText)]"

definition valid_code_files :: "(string \<times> doc) list \<Rightarrow> bool" where
  "valid_code_files kvs \<longleftrightarrow>
     (let files = objects_at ''files'' kvs
      in distinct (map (text_at ''path'') files) \<and> length (filter (\<lambda>f. float_at ''entrypoint'' f = 1) files) = 1)"

definition extension_resource :: schema where
  "extension_resource = SRec [(''resource_id'', SStr 1 128),
     (''resource_kind'', SLit [''ENGINEERING'', ''PAPER'', ''RESEARCH'', ''INDUSTRY'', ''COMPETITION'']),
     (''title'', SStr 1 512), (''summary'', SStr 1 8192), (''relevance_to_kp_ids'', SList 1 32 SText),
     (''citation_text'', SStr 1 2048), (''source_url'', SOpt (SStr 0 2048))]"

definition extension_content :: schema where
  "extension_content = SRec [(''schema_version'', SLit [''topic3.extension-content.v1'']), (''title'', SStr 1 256),
     (''resources'', SList 1 32 extension_resource), (''recommended_sequence'', SList 1 32 SText)]"

definition valid_resources :: "(string \<times> doc) list \<Rightarrow> bool" where
  "valid_resources kvs \<longleftrightarrow>
     (let resource_ids = map (text_at ''resource_id'') (objects_at ''resources'' kvs)
      in distinct resource_ids \<and> set (texts_at ''recommended_sequence'' kvs) = set resource_ids)"

datatype block_type = BT_MARKDOWN | BT_MERMAID | BT_QUIZ | BT_CODE | BT_EXTENSION | BT_METADATA

text \<open>\<^verbatim>\<open>CONTENT_MODELS\<close> and \<^verbatim>\<open>BLOCK_SCHEMA_TYPES\<close> of \<^verbatim>\<open>domains/revision/engine.py\<close>.\<close>

definition content_models :: "(string \<times> ((string \<times> doc) list \<Rightarrow> bool)) list" where
  "content_models =
     [(''topic3.lecturer-content.v1'', \<lambda>kvs. conforms lecturer_content (DObj kvs)),
      (''topic3.mindmap-content.v1'', \<lambda>kvs. conforms mindmap_content (DObj kvs) \<and> valid_mindmap_graph kvs),
      (''topic3.tester-content.v1'', \<lambda>kvs. conforms tester_content (DObj kvs) \<and> valid_questions kvs),
      (''topic3.code-sandbox-content.v1'', \<lambda>kvs. conforms code_sandbox_content (DObj kvs) \<and> valid_code_files kvs),
      (''topic3.extension-content.v1'', \<lambda>kvs. conforms extension_content (DObj kvs) \<and> valid_resources kvs)]"

definition block_schema_types :: "(string \<times> block_type) list" where
  "block_schema_types =
     [(''topic3.lecturer-content.v1'', BT_MARKDOWN), (''topic3.mindmap-content.v1'', BT_MERMAID),
      (''topic3.tester-content.v1'', BT_QUIZ), (''topic3.code-sandbox-content.v1'', BT_CODE),
      (''topic3.extension-content.v1'', BT_EXTENSION)]"

end
