(* ===== verification/Candidates.thy ===== *)
theory Candidates
  imports Contents Envelope
begin

text \<open>
  Generated candidates, \<^verbatim>\<open>BlockV1\<close>, \<^verbatim>\<open>CandidateProvenanceV1\<close> and \<^verbatim>\<open>CandidateV1\<close> of
  \<^verbatim>\<open>packages/contracts-python/src/liyans_contracts/topic3.py\<close>: the fields, the validators and the documents that their hashes cover.
\<close>

datatype block_status = BS_COMPLETE | BS_FAILED | BS_SUPERSEDED

datatype candidate_status = CS_GENERATING | CS_COMPLETE | CS_FAILED | CS_SUPERSEDED

datatype provider_alias = PA_spark_text | PA_xfyun_code | PA_seedance | PA_local

fun block_type_value :: "block_type \<Rightarrow> string" where
  "block_type_value BT_MARKDOWN = ''MARKDOWN''"
| "block_type_value BT_MERMAID = ''MERMAID''"
| "block_type_value BT_QUIZ = ''QUIZ''"
| "block_type_value BT_CODE = ''CODE''"
| "block_type_value BT_EXTENSION = ''EXTENSION''"
| "block_type_value BT_METADATA = ''METADATA''"

fun block_status_value :: "block_status \<Rightarrow> string" where
  "block_status_value BS_COMPLETE = ''COMPLETE''"
| "block_status_value BS_FAILED = ''FAILED''"
| "block_status_value BS_SUPERSEDED = ''SUPERSEDED''"

fun candidate_status_value :: "candidate_status \<Rightarrow> string" where
  "candidate_status_value CS_GENERATING = ''GENERATING''"
| "candidate_status_value CS_COMPLETE = ''COMPLETE''"
| "candidate_status_value CS_FAILED = ''FAILED''"
| "candidate_status_value CS_SUPERSEDED = ''SUPERSEDED''"

fun provider_alias_value :: "provider_alias \<Rightarrow> string" where
  "provider_alias_value PA_spark_text = ''spark_text''"
| "provider_alias_value PA_xfyun_code = ''xfyun_code''"
| "provider_alias_value PA_seedance = ''seedance''"
| "provider_alias_value PA_local = ''local''"

fun agent_resources :: "source_agent \<Rightarrow> resource_type list" where
  "agent_resources SA_LECTURER = [RT_LECTURER_DOC]"
| "agent_resources SA_MIND_MAP = [RT_MIND_MAP]"
| "agent_resources SA_TESTER = [RT_GRADIENT_QUIZ]"
| "agent_resources SA_CODE_SANDBOX = [RT_SIMULATION_CODE]"
| "agent_resources SA_EXTENSION = [RT_EXTENSION_MATERIAL]"

record block =
  bk_block_id :: string
  bk_block_type :: block_type
  bk_ordinal :: int
  bk_title :: "string option"
  bk_content_schema_version :: string
  bk_content :: "(string \<times> doc) list"
  bk_content_sha256 :: digest
  bk_dependency_block_ids :: "string list"
  bk_status :: block_status
  bk_created_at :: timestamp

definition block_doc :: "block \<Rightarrow> doc" where
  "block_doc b = DObj
     [(''schema_version'', DStr ''topic3.block.v1''), (''block_id'', DStr (bk_block_id b)),
      (''block_type'', DStr (block_type_value (bk_block_type b))), (''ordinal'', DInt (bk_ordinal b)),
      (''title'', opt_doc DStr (bk_title b)), (''content_schema_version'', DStr (bk_content_schema_version b)),
      (''content'', DObj (bk_content b)), (''content_sha256'', DStr (bk_content_sha256 b)),
      (''dependency_block_ids'', DList (map DStr (bk_dependency_block_ids b))),
      (''status'', DStr (block_status_value (bk_status b))), (''created_at'', DTime (bk_created_at b))]"

definition valid_block :: "hash_env \<Rightarrow> block \<Rightarrow> bool" where
  "valid_block h b \<longleftrightarrow>
     len_between 1 128 (bk_block_id b) \<and> 0 \<le> bk_ordinal b \<and> (\<forall>t\<in>set_option (bk_title b). length t \<le> 256)
     \<and> is_version_string (bk_content_schema_version b) \<and> is_sha256_hex (bk_content_sha256 b)
     \<and> length (bk_dependency_block_ids b) \<le> 128
     \<and> c_sha h (DObj (bk_content b)) = bk_content_sha256 b
     \<and> bk_block_id b \<notin> set (bk_dependency_block_ids b) \<and> distinct (bk_dependency_block_ids b)"

record provenance =
  pv_agent :: source_agent
  pv_agent_build_version :: string
  pv_prompt_bundle_version :: string
  pv_provider_alias :: provider_alias
  pv_provider_request_ids :: "string list"

definition provenance_doc :: "provenance \<Rightarrow> doc" where
  "provenance_doc p = DObj
     [(''agent'', DStr (source_agent_value (pv_agent p))), (''agent_build_version'', DStr (pv_agent_build_version p)),
      (''prompt_bundle_version'', DStr (pv_prompt_bundle_version p)),
      (''provider_alias'', DStr (provider_alias_value (pv_provider_alias p))),
      (''provider_request_ids'', DList (map DStr (pv_provider_request_ids p)))]"

definition valid_provenance :: "provenance \<Rightarrow> bool" where
  "valid_provenance p \<longleftrightarrow> is_version_string (pv_agent_build_version p) \<and> is_version_string (pv_prompt_bundle_version p)
     \<and> length (pv_provider_request_ids p) \<le> 256"

record candidate =
  ca_candidate_id :: uuid
  ca_candidate_version :: int
  ca_parent_candidate_version :: "int option"
  ca_blueprint_id :: uuid
  ca_blueprint_version :: string
  ca_blueprint_sha256 :: digest
  ca_resource_type :: resource_type
  ca_status :: candidate_status
  ca_blocks :: "block list"
  ca_provenance :: provenance
  ca_personalization_policy_digest :: digest
  ca_candidate_sha256 :: digest
  ca_created_at :: timestamp

text \<open>\<^verbatim>\<open>model_dump(mode="json", exclude={"candidate_sha256"})\<close>, and the whole dump.\<close>

definition candidate_fields :: "candidate \<Rightarrow> (string \<times> doc) list" where
  "candidate_fields c =
     [(''schema_version'', DStr ''topic3.candidate.v1''), (''candidate_id'', DStr (ca_candidate_id c)),
      (''candidate_version'', DInt (ca_candidate_version c)),
      (''parent_candidate_version'', opt_doc DInt (ca_parent_candidate_version c)),
      (''blueprint_id'', DStr (ca_blueprint_id c)), (''blueprint_version'', DStr (ca_blueprint_version c)),
      (''blueprint_sha256'', DStr (ca_blueprint_sha256 c)),
      (''resource_type'', DStr (resource_type_value (ca_resource_type c))),
      (''status'', DStr (candidate_status_value (ca_status c))), (''blocks'', DList (map block_doc (ca_blocks c))),
      (''provenance'', provenance_doc (ca_provenance c)),
      (''personalization_policy_digest'', DStr (ca_personalization_policy_digest c)),
      (''created_at'', DTime (ca_created_at c))]"

definition candidate_doc :: "candidate \<Rightarrow> doc" where
  "candidate_doc c = DObj (candidate_fields c)"

definition full_candidate_doc :: "candidate \<Rightarrow> doc" where
  "full_candidate_doc c = DObj (candidate_fields c @ [(''candidate_sha256'', DStr (ca_candidate_sha256 c))])"

definition block_ids :: "candidate \<Rightarrow> string list" where
  "block_ids c = map bk_block_id (ca_blocks c)"

definition valid_candidate :: "hash_env \<Rightarrow> candidate \<Rightarrow> bool" where
  "valid_candidate h c \<longleftrightarrow>
     1 \<le> ca_candidate_version c \<and> (\<forall>p\<in>set_option (ca_parent_candidate_version c). 1 \<le> p)
     \<and> is_version_string (ca_blueprint_version c) \<and> is_sha256_hex (ca_blueprint_sha256 c)
     \<and> ca_blocks c \<noteq> [] \<and> int (length (ca_blocks c)) \<le> 2048 \<and> list_all (valid_block h) (ca_blocks c)
     \<and> valid_provenance (ca_provenance c)
     \<and> is_sha256_hex (ca_personalization_policy_digest c) \<and> is_sha256_hex (ca_candidate_sha256 c)
     \<and> (ca_candidate_version c = 1 \<longrightarrow> ca_parent_candidate_version c = None)
     \<and> (1 < ca_candidate_version c \<longrightarrow> ca_parent_candidate_version c = Some (ca_candidate_version c - 1))
     \<and> distinct (block_ids c)
     \<and> sort (map bk_ordinal (ca_blocks c)) = map int [0..<length (ca_blocks c)]
     \<and> list_all (\<lambda>b. set (bk_dependency_block_ids b) \<subseteq> set (block_ids c)) (ca_blocks c)
     \<and> ca_resource_type c \<in> set (agent_resources (pv_agent (ca_provenance c)))
     \<and> c_sha h (candidate_doc c) = ca_candidate_sha256 c"

lemma candidate_doc_without_hash: "candidate_doc (c\<lparr>ca_candidate_sha256 := d\<rparr>) = candidate_doc c"
  by (simp add: candidate_doc_def candidate_fields_def)

text \<open>A stored candidate, \<^verbatim>\<open>CandidateRecord\<close> of \<^verbatim>\<open>backend/src/liyans/domains/topic3/entities.py\<close>.\<close>

record candidate_record =
  cn_candidate_record_id :: uuid
  cn_candidate :: candidate
  cn_frozen_at :: timestamp

end
