(* ===== verification/Artifacts.thy ===== *)
theory Artifacts
  imports Contracts PyText "HOL-Library.Sublist"
begin

text \<open>
  The artifact object store, \<^verbatim>\<open>FileSystemArtifactObjectStore\<close> of
  \<^verbatim>\<open>backend/src/liyans/infrastructure/persistence/filesystem_artifacts.py\<close>.  The state is the files below the
  root, by the components of their paths; a directory exists when a file lies below it.  The digest of bytes is a parameter.  Only the store writes
  below its root, so there are no symbolic links, and the names are ones that the file system accepts.
\<close>

datatype artifact_error =
  Artifact_path_invalid | Artifact_conflict | Artifact_not_found | Artifact_integrity_failed | Artifact_os_error

type_synonym file_path = "string list"

record artifact_store =
  ao_max_object_bytes :: int
  ao_objects :: "(file_path \<times> bytes) list"

record stored_object =
  so_tenant_id :: tenant
  so_storage_namespace :: string
  so_object_key :: string
  so_byte_size :: int
  so_sha256 :: digest
  so_created :: bool

subsection \<open>Paths\<close>

text \<open>\<^verbatim>\<open>NAMESPACE_PATTERN\<close>.\<close>

definition is_namespace :: "string \<Rightarrow> bool" where
  "is_namespace s \<longleftrightarrow> len_between 1 128 s \<and> is_alnum (hd s) \<and> list_all (\<lambda>c. is_alnum c \<or> c \<in> set ''._-'') (tl s)"

text \<open>\<^verbatim>\<open>PurePosixPath(key).parts\<close> and \<^verbatim>\<open>as_posix()\<close> of a relative path.\<close>

definition posix_parts :: "string \<Rightarrow> string list" where
  "posix_parts key = filter (\<lambda>p. p \<noteq> '''' \<and> p \<noteq> ''.'') (split_slash key)"

fun join_slash :: "string list \<Rightarrow> string" where
  "join_slash [] = ''''"
| "join_slash [s] = s"
| "join_slash (s # t # ss) = s @ ''/'' @ join_slash (t # ss)"

definition as_posix :: "string list \<Rightarrow> string" where
  "as_posix parts = (if parts = [] then ''.'' else join_slash parts)"

definition encoded :: "string \<Rightarrow> bytes" where
  "encoded s = concat (map (\<lambda>c. utf8_bytes (of_char c)) s)"

definition target_path :: "(bytes \<Rightarrow> digest) \<Rightarrow> tenant \<Rightarrow> string \<Rightarrow> string \<Rightarrow> artifact_error + file_path" where
  "target_path sha tenant_id namespace object_key =
     (let parts = posix_parts object_key
      in if tenant_id = [] \<or> 128 < int (length tenant_id) then Inl Artifact_path_invalid
         else if \<not> is_namespace namespace then Inl Artifact_path_invalid
         else if object_key = [] \<or> 1024 < int (length object_key) \<or> CHR 0x5C \<in> set object_key then Inl Artifact_path_invalid
         else if starts_with ''/'' object_key \<or> as_posix parts \<noteq> object_key \<or> ''..'' \<in> set parts
              \<or> list_ex (\<lambda>p. CHR '':'' \<in> set p) parts
         then Inl Artifact_path_invalid
         else Inr (sha (encoded tenant_id) # namespace # parts))"

subsection \<open>Operations\<close>

text \<open>A component of the path above the target is a file: \<^verbatim>\<open>mkdir\<close> raises an \<^verbatim>\<open>OSError\<close>.\<close>

definition blocked_parent :: "(file_path \<times> bytes) list \<Rightarrow> file_path \<Rightarrow> bool" where
  "blocked_parent objects target \<longleftrightarrow> list_ex (\<lambda>(p, _). strict_prefix p target) objects"

definition is_directory :: "(file_path \<times> bytes) list \<Rightarrow> file_path \<Rightarrow> bool" where
  "is_directory objects target \<longleftrightarrow> list_ex (\<lambda>(p, _). strict_prefix target p) objects"

definition put_atomic ::
  "(bytes \<Rightarrow> digest) \<Rightarrow> file_path \<Rightarrow> bytes \<Rightarrow> artifact_store \<Rightarrow> (artifact_error + bool) \<times> artifact_store" where
  "put_atomic sha target content s =
     (if blocked_parent (ao_objects s) target then (Inl Artifact_os_error, s)
      else if is_directory (ao_objects s) target then (Inl Artifact_path_invalid, s)
      else case map_of (ao_objects s) target of
             Some existing \<Rightarrow>
               (if length existing \<noteq> length content \<or> sha existing \<noteq> sha content then (Inl Artifact_conflict, s)
                else (Inr False, s))
           | None \<Rightarrow> (Inr True, s\<lparr>ao_objects := (target, content) # ao_objects s\<rparr>))"

definition put_object ::
  "(bytes \<Rightarrow> digest) \<Rightarrow> tenant \<Rightarrow> string \<Rightarrow> string \<Rightarrow> bytes \<Rightarrow> artifact_store
     \<Rightarrow> (artifact_error + stored_object) \<times> artifact_store" where
  "put_object sha tenant_id namespace object_key content s =
     (if content = [] \<or> ao_max_object_bytes s < int (length content) then (Inl Artifact_path_invalid, s)
      else case target_path sha tenant_id namespace object_key of
             Inl e \<Rightarrow> (Inl e, s)
           | Inr target \<Rightarrow>
               (case put_atomic sha target content s of
                  (Inl e, s') \<Rightarrow> (Inl e, s')
                | (Inr created, s') \<Rightarrow>
                    (Inr \<lparr>so_tenant_id = tenant_id, so_storage_namespace = namespace, so_object_key = object_key,
                          so_byte_size = int (length content), so_sha256 = sha content, so_created = created\<rparr>, s')))"

definition read_object ::
  "(bytes \<Rightarrow> digest) \<Rightarrow> tenant \<Rightarrow> string \<Rightarrow> string \<Rightarrow> int \<Rightarrow> digest \<Rightarrow> artifact_store \<Rightarrow> artifact_error + bytes" where
  "read_object sha tenant_id namespace object_key expected_size expected_digest s =
     rbind (target_path sha tenant_id namespace object_key) (\<lambda>target.
       if expected_size < 1 \<or> \<not> is_sha256_hex expected_digest then Inl Artifact_integrity_failed
       else case map_of (ao_objects s) target of
              None \<Rightarrow> Inl Artifact_not_found
            | Some content \<Rightarrow>
                (if int (length content) \<noteq> expected_size \<or> sha content \<noteq> expected_digest
                 then Inl Artifact_integrity_failed else Inr content))"

definition new_store :: "int \<Rightarrow> artifact_store" where
  "new_store max_object_bytes = \<lparr>ao_max_object_bytes = max_object_bytes, ao_objects = []\<rparr>"

subsection \<open>What the store promises\<close>

text \<open>A request to store an object; any number of them, by any tenants, may come between a write and a read.\<close>

datatype put_request = Put tenant string string bytes

fun run_put :: "(bytes \<Rightarrow> digest) \<Rightarrow> put_request \<Rightarrow> artifact_store \<Rightarrow> artifact_store" where
  "run_put sha (Put t ns k content) s = snd (put_object sha t ns k content s)"

definition run_puts :: "(bytes \<Rightarrow> digest) \<Rightarrow> put_request list \<Rightarrow> artifact_store \<Rightarrow> artifact_store" where
  "run_puts sha = fold (run_put sha)"

lemma put_object_effect:
  "(\<exists>target. target_path sha t ns k = Inr target \<and> map_of (ao_objects s) target = None
      \<and> put_object sha t ns k content s = (Inr \<lparr>so_tenant_id = t, so_storage_namespace = ns, so_object_key = k,
           so_byte_size = int (length content), so_sha256 = sha content, so_created = True\<rparr>,
         s\<lparr>ao_objects := (target, content) # ao_objects s\<rparr>))
   \<or> (\<exists>target existing. target_path sha t ns k = Inr target \<and> map_of (ao_objects s) target = Some existing
      \<and> length existing = length content \<and> sha existing = sha content
      \<and> put_object sha t ns k content s = (Inr \<lparr>so_tenant_id = t, so_storage_namespace = ns, so_object_key = k,
           so_byte_size = int (length content), so_sha256 = sha content, so_created = False\<rparr>, s))
   \<or> (\<exists>e. put_object sha t ns k content s = (Inl e, s))"
  by (auto simp: put_object_def put_atomic_def split: sum.splits option.splits)

lemma run_put_keeps: "map_of (ao_objects s) p = Some content \<Longrightarrow> map_of (ao_objects (run_put sha r s)) p = Some content"
proof (cases r)
  case (Put t ns k c)
  assume "map_of (ao_objects s) p = Some content"
  with put_object_effect [of sha t ns k s c] Put show ?thesis by auto
qed

lemma run_puts_keep: "map_of (ao_objects s) p = Some content \<Longrightarrow> map_of (ao_objects (run_puts sha rs s)) p = Some content"
  unfolding run_puts_def by (induction rs arbitrary: s) (auto intro: run_put_keeps)

lemma put_object_stored:
  assumes "put_object sha t ns k content s = (Inr obj, s')"
  shows "\<exists>target held. target_path sha t ns k = Inr target \<and> map_of (ao_objects s') target = Some held
    \<and> length held = length content \<and> sha held = sha content \<and> (so_created obj \<longrightarrow> held = content)
    \<and> so_byte_size obj = int (length content) \<and> so_sha256 obj = sha content \<and> content \<noteq> []"
proof -
  have "content \<noteq> []" using assms by (auto simp: put_object_def)
  with put_object_effect [of sha t ns k s content] assms show ?thesis by auto
qed

text \<open>No stored file lies below another one.\<close>

definition store_ok :: "artifact_store \<Rightarrow> bool" where
  "store_ok s \<longleftrightarrow> (\<forall>(p, _)\<in>set (ao_objects s). \<forall>(q, _)\<in>set (ao_objects s). \<not> strict_prefix p q)"

lemma new_store_ok: "store_ok (new_store n)"
  by (simp add: store_ok_def new_store_def)

lemma store_ok_put:
  assumes "store_ok s"
  shows "store_ok (snd (put_object sha t ns k content s))"
  using assms
  by (auto simp: put_object_def put_atomic_def store_ok_def blocked_parent_def is_directory_def list_ex_iff split: sum.splits option.splits)

lemma store_ok_puts: "store_ok s \<Longrightarrow> store_ok (run_puts sha rs s)"
proof (induction rs arbitrary: s)
  case (Cons r rs)
  have "store_ok (run_put sha r s)" using store_ok_put [OF Cons.prems] by (cases r) simp
  with Cons.IH show ?case by (simp add: run_puts_def)
qed (simp add: run_puts_def)

text \<open>Storing the same object again succeeds and changes nothing.\<close>

lemma put_object_again:
  assumes "put_object sha t ns k content s = (Inr obj, s')" "store_ok s"
  shows "put_object sha t ns k content (run_puts sha rs s') = (Inr (obj\<lparr>so_created := False\<rparr>), run_puts sha rs s')"
proof -
  let ?later = "run_puts sha rs s'"
  from put_object_stored [OF assms(1)] obtain target held where
    R: "target_path sha t ns k = Inr target" "map_of (ao_objects s') target = Some held" "length held = length content"
      "sha held = sha content" by blast
  have max: "ao_max_object_bytes (run_puts sha rs x) = ao_max_object_bytes x" for x
  proof (induction rs arbitrary: x)
    case (Cons r rs)
    obtain t' ns' k' c' where "r = Put t' ns' k' c'" by (cases r)
    with Cons.IH [of "run_put sha r x"] put_object_effect [of sha t' ns' k' x c'] show ?case by (auto simp: run_puts_def)
  qed (simp add: run_puts_def)
  have held: "map_of (ao_objects ?later) target = Some held" by (rule run_puts_keep [OF R(2)])
  have "store_ok s'" using store_ok_put [OF assms(2), of sha t ns k content] assms(1) by simp
  then have "store_ok ?later" by (rule store_ok_puts)
  with map_of_SomeD [OF held] have "\<not> blocked_parent (ao_objects ?later) target" "\<not> is_directory (ao_objects ?later) target"
    by (fastforce simp: store_ok_def blocked_parent_def is_directory_def list_ex_iff)+
  then have put: "put_atomic sha target content ?later = (Inr False, ?later)"
    using held R(3,4) by (simp add: put_atomic_def)
  have "ao_max_object_bytes s' = ao_max_object_bytes s" using put_object_effect [of sha t ns k s content] assms(1) by auto
  with assms(1) have fits: "content \<noteq> []" "\<not> ao_max_object_bytes ?later < int (length content)"
    by (auto simp: put_object_def max split: if_splits)
  have "obj\<lparr>so_created := False\<rparr> = \<lparr>so_tenant_id = t, so_storage_namespace = ns, so_object_key = k,
      so_byte_size = int (length content), so_sha256 = sha content, so_created = False\<rparr>"
    using put_object_effect [of sha t ns k s content] assms(1) by auto
  with put fits R(1) show ?thesis by (simp add: put_object_def)
qed

lemma stored_object_read:
  assumes "put_object sha t ns k content s = (Inr obj, s')" "\<forall>b. is_sha256_hex (sha b)"
  shows "\<exists>held. read_object sha t ns k (so_byte_size obj) (so_sha256 obj) s' = Inr held \<and> sha held = sha content"
proof -
  from put_object_stored [OF assms(1)] obtain target held where
    R: "target_path sha t ns k = Inr target" "map_of (ao_objects s') target = Some held" "length held = length content"
      "sha held = sha content" "so_byte_size obj = int (length content)" "so_sha256 obj = sha content" "content \<noteq> []" by blast
  have "\<not> int (length content) < 1" using R(7) by (cases content) auto
  with R assms(2) show ?thesis by (simp add: read_object_def)
qed

text \<open>Different objects have different paths.\<close>

lemma target_path_inj:
  assumes "target_path sha t ns k = Inr p" "target_path sha t' ns' k' = Inr p"
  shows "sha (encoded t) = sha (encoded t') \<and> ns = ns' \<and> k = k'"
  using assms by (auto simp: target_path_def Let_def split: if_splits)

text \<open>
  C16.  Stored artifacts are immutable.  Whatever objects are stored afterwards, reading a stored object
  with the size and digest that the store returned succeeds and gives bytes of that length and digest, the very bytes that were
  written unless two contents have the same digest; and storing other bytes under the same key is refused and changes nothing.
\<close>

theorem stored_artifact_immutable:
  assumes "put_object sha t ns k content s = (Inr obj, s')" "is_sha256_hex (sha content)"
  defines "later \<equiv> \<lambda>rs. run_puts sha rs s'"
  shows "(\<exists>held. read_object sha t ns k (so_byte_size obj) (so_sha256 obj) (later rs) = Inr held
        \<and> length held = length content \<and> sha held = sha content
        \<and> (so_created obj \<or> (\<forall>c. sha c = sha content \<longrightarrow> c = content) \<longrightarrow> held = content))
    \<and> (sha other \<noteq> sha content \<longrightarrow> (\<exists>e. put_object sha t ns k other (later rs) = (Inl e, later rs)))"
proof -
  from put_object_stored [OF assms(1)] obtain target held where
    R: "target_path sha t ns k = Inr target" "map_of (ao_objects s') target = Some held" "length held = length content"
      "sha held = sha content" "so_created obj \<longrightarrow> held = content" "so_byte_size obj = int (length content)" "so_sha256 obj = sha content"
      "content \<noteq> []" by blast
  have kept: "map_of (ao_objects (later rs)) target = Some held" unfolding later_def by (rule run_puts_keep [OF R(2)])
  have "\<not> int (length content) < 1" using R(8) by (cases content) auto
  then have "read_object sha t ns k (so_byte_size obj) (so_sha256 obj) (later rs) = Inr held"
    using kept R assms(2) by (simp add: read_object_def)
  moreover have "\<exists>e. put_object sha t ns k other (later rs) = (Inl e, later rs)" if "sha other \<noteq> sha content"
    using put_object_effect [of sha t ns k "later rs" other] kept R(1,4) that by auto
  ultimately show ?thesis using R(3-5) by blast
qed

text \<open>
  Artifacts belong to their tenant.  In a store that began empty, an object can only be read by the
  tenant, in the name space and under the key for which it was stored, provided that the digests of the tenants differ.
\<close>

theorem artifact_tenant_isolated:
  assumes "read_object sha t ns k n_bytes digest (run_puts sha rs (new_store n)) = Inr content"
    and "\<forall>t'. sha (encoded t') = sha (encoded t) \<longrightarrow> t' = t"
  shows "Put t ns k content \<in> set rs \<and> sha content = digest"
proof -
  have origin: "\<exists>t' ns' k'. Put t' ns' k' c \<in> set rs \<and> target_path sha t' ns' k' = Inr p"
    if "map_of (ao_objects (run_puts sha rs (new_store n))) p = Some c" for p c
    using that
  proof (induction rs rule: rev_induct)
    case (snoc r rs)
    obtain t' ns' k' c' where r: "r = Put t' ns' k' c'" by (cases r)
    let ?s = "run_puts sha rs (new_store n)"
    have "run_puts sha (rs @ [r]) (new_store n) = snd (put_object sha t' ns' k' c' ?s)" by (simp add: run_puts_def r)
    with snoc.prems put_object_effect [of sha t' ns' k' ?s c']
    have "map_of (ao_objects ?s) p = Some c \<or> c = c' \<and> target_path sha t' ns' k' = Inr p"
      by (auto split: if_splits)
    then show ?case
    proof
      assume "map_of (ao_objects ?s) p = Some c"
      with snoc.IH show ?thesis by auto
    qed (auto simp: r)
  qed (simp add: run_puts_def new_store_def)
  from assms(1) obtain p where p: "target_path sha t ns k = Inr p"
    "map_of (ao_objects (run_puts sha rs (new_store n))) p = Some content" "sha content = digest"
    by (auto simp: read_object_def rbind_Inr_iff split: if_splits option.splits)
  from origin [OF p(2)] obtain t' ns' k' where "Put t' ns' k' content \<in> set rs" "target_path sha t' ns' k' = Inr p" by blast
  with target_path_inj [OF this(2) p(1)] assms(2) p(3) show ?thesis by auto
qed

text \<open>
  The key \<open>.\<close> passes the checks although it has no components: its object becomes a file in the place of the name space's
  directory, and from then on nothing else can be stored there.
\<close>

lemma dot_key_blocks_namespace:
  assumes "put_object sha t ns ''.'' content s = (Inr obj, s')" "target_path sha t ns k = Inr p" "k \<noteq> ''.''"
  shows "\<exists>e. put_object sha t ns k other (run_puts sha rs s') = (Inl e, run_puts sha rs s')"
proof -
  have dot: "posix_parts ''.'' = []" by code_simp
  from put_object_stored [OF assms(1)] obtain target held where
    R: "target_path sha t ns ''.'' = Inr target" "map_of (ao_objects s') target = Some held" by blast
  then have target: "target = [sha (encoded t), ns]" by (auto simp: target_path_def dot Let_def split: if_splits)
  have parts: "p = sha (encoded t) # ns # posix_parts k" "as_posix (posix_parts k) = k"
    using assms(2) by (auto simp: target_path_def Let_def split: if_splits)
  have "posix_parts k \<noteq> []" using parts(2) assms(3) by (auto simp: as_posix_def)
  then have "strict_prefix target p" by (simp add: target parts(1) strict_prefix_def)
  moreover have "map_of (ao_objects (run_puts sha rs s')) target = Some held" by (rule run_puts_keep [OF R(2)])
  then have "(target, held) \<in> set (ao_objects (run_puts sha rs s'))" by (rule map_of_SomeD)
  ultimately have "blocked_parent (ao_objects (run_puts sha rs s')) p" by (auto simp: blocked_parent_def list_ex_iff)
  then show ?thesis using assms(2) by (simp add: put_object_def put_atomic_def)
qed

subsection \<open>A concrete store\<close>

text \<open>A digest that reads the first byte, and the keys of two releases.\<close>

definition sample_bytes_sha :: "bytes \<Rightarrow> digest" where
  "sample_bytes_sha b = replicate 63 (CHR ''a'') @ [if b = [] then CHR ''0'' else if hd b = 1 then CHR ''1''
     else if hd b = 2 then CHR ''2'' else if b = [116] then CHR ''3'' else CHR ''4'']"

lemma sample_bytes_sha_hex: "is_sha256_hex (sample_bytes_sha b)"
  by (simp add: sample_bytes_sha_def is_sha256_hex_def is_lower_hex_def char_in_def list_all_iff)

theorem stored_artifact_immutable_witness:
  "case put_object sample_bytes_sha ''t'' ''verification-artifacts'' ''c12/a.json'' [1, 7] (new_store 100) of
     (Inl _, _) \<Rightarrow> False
   | (Inr obj, s) \<Rightarrow>
       (\<exists>held. read_object sample_bytes_sha ''t'' ''verification-artifacts'' ''c12/a.json'' 2
          (sample_bytes_sha [1, 7]) (run_puts sample_bytes_sha [Put ''u'' ''verification-artifacts'' ''c12/a.json'' [2]] s) = Inr held)"
proof -
  define run where "run = put_object sample_bytes_sha ''t'' ''verification-artifacts'' ''c12/a.json'' [1, 7] (new_store 100)"
  have "case run of (Inr obj, _) \<Rightarrow> so_byte_size obj = 2 \<and> so_sha256 obj = sample_bytes_sha [1, 7] | _ \<Rightarrow> False"
    unfolding run_def by code_simp
  then obtain obj s where run: "run = (Inr obj, s)" "so_byte_size obj = 2" "so_sha256 obj = sample_bytes_sha [1, 7]"
    by (auto split: prod.splits sum.splits)
  from stored_artifact_immutable [OF run(1) [unfolded run_def] sample_bytes_sha_hex,
      of "[Put ''u'' ''verification-artifacts'' ''c12/a.json'' [2]]"] run(2,3)
  show ?thesis unfolding run_def [symmetric] by (auto simp: run(1))
qed

lemma sample_tenant_digest: "sample_bytes_sha (encoded t') = sample_bytes_sha (encoded ''t'') \<Longrightarrow> t' = ''t''"
proof -
  assume same: "sample_bytes_sha (encoded t') = sample_bytes_sha (encoded ''t'')"
  have "encoded ''t'' = [116]" by code_simp
  with same have enc: "encoded t' = [116]" by (auto simp: sample_bytes_sha_def split: if_splits)
  then obtain c cs where t': "t' = c # cs" by (cases t') (auto simp: encoded_def)
  have nonempty: "utf8_bytes x \<noteq> []" for x by (simp add: utf8_bytes_def)
  from enc t' have "utf8_bytes (of_char c) @ encoded cs = [116]" by (simp add: encoded_def)
  with nonempty have c: "utf8_bytes (of_char c) = [116]" "encoded cs = []" by (auto simp: append_eq_Cons_conv)
  have "cs = []" using c(2) nonempty by (cases cs) (auto simp: encoded_def)
  define n :: int where "n = of_char c"
  have "n < 128" "(of_int n :: 8 word) = 116" using c(1) by (auto simp: utf8_bytes_def n_def split: if_splits)
  moreover have "0 \<le> n" unfolding n_def by (metis of_nat_of_char of_nat_0_le_iff)
  moreover have "uint (of_int x :: 8 word) = x" if "0 \<le> x" "x < 128" for x :: int
    using that by (simp add: unsigned_of_int take_bit_int_eq_self)
  ultimately have "n = uint (116 :: 8 word)" by metis
  then have "of_char c = (of_char (CHR ''t'') :: int)" by (simp add: n_def)
  then have "c = CHR ''t''" by (simp only: of_char_eq_iff)
  with \<open>cs = []\<close> show ?thesis by (simp add: t')
qed

theorem artifact_tenant_isolated_witness:
  "\<exists>content. read_object sample_bytes_sha ''t'' ''ns'' ''a'' 1 (sample_bytes_sha [2])
       (run_puts sample_bytes_sha [Put ''u'' ''ns'' ''a'' [1], Put ''t'' ''ns'' ''a'' [2]] (new_store 100)) = Inr content
     \<and> Put ''t'' ''ns'' ''a'' content \<in> set [Put ''u'' ''ns'' ''a'' [1], Put ''t'' ''ns'' ''a'' [2]]"
proof -
  let ?puts = "[Put ''u'' ''ns'' ''a'' [1], Put ''t'' ''ns'' ''a'' [2]]"
  have run: "read_object sample_bytes_sha ''t'' ''ns'' ''a'' 1 (sample_bytes_sha [2])
      (run_puts sample_bytes_sha ?puts (new_store 100)) = Inr [2]" by code_simp
  have "\<forall>t'. sample_bytes_sha (encoded t') = sample_bytes_sha (encoded ''t'') \<longrightarrow> t' = ''t''"
    using sample_tenant_digest by blast
  from artifact_tenant_isolated [OF run this] run show ?thesis by blast
qed

end
