(* ===== verification/Release.thy ===== *)
theory Release
  imports Candidates ContractsC1 Artifacts
begin

text \<open>
  C12, the release of verified candidates: \<^verbatim>\<open>backend/src/liyans/domains/release/engine.py\<close> with its contracts from
  \<^verbatim>\<open>verification.py\<close> and \<^verbatim>\<open>topic4_c1.py\<close>.  The service runs over the repository in memory and the file
  system store of the theory Artifacts; the JSON text of a document, the digest of bytes and \<^verbatim>\<open>uuid5\<close> are parameters.  A call
  returns its outcome and the new state; the lock of the repository makes each of its operations one step.
\<close>

record codec =
  cd_json :: "doc \<Rightarrow> bytes"
  cd_sha :: "bytes \<Rightarrow> digest"
  cd_uuid5 :: "uuid \<Rightarrow> string \<Rightarrow> uuid"

definition hashes :: "codec \<Rightarrow> hash_env" where
  "hashes cd = \<lparr>c_sha = (\<lambda>d. cd_sha cd (cd_json cd d)), c_uuid5 = cd_uuid5 cd\<rparr>"

datatype release_error =
    Authorization_conflict | Authorization_expired | Authorization_replay | Publication_integrity
  | Release_context app_error | Release_artifact artifact_error | Release_contract

subsection \<open>Contracts\<close>

datatype release_mode = RM_FULL | RM_FULL_WITH_DISCLOSURE

fun release_mode_value :: "release_mode \<Rightarrow> string" where
  "release_mode_value RM_FULL = ''FULL''"
| "release_mode_value RM_FULL_WITH_DISCLOSURE = ''FULL_WITH_DISCLOSURE''"

record authorization = topic4_record +
  ra_authorization_id :: uuid
  ra_verification_id :: uuid
  ra_report_id :: uuid
  ra_candidate_id :: uuid
  ra_candidate_version :: int
  ra_candidate_sha256 :: digest
  ra_release_mode :: release_mode
  ra_allowed_block_ids :: "string list"
  ra_disclosure_codes :: "string list"
  ra_report_sha256 :: digest
  ra_issued_at :: timestamp
  ra_expires_at :: timestamp

definition authorization_doc :: "authorization \<Rightarrow> doc" where
  "authorization_doc a = DObj (header_doc a @
     [(''schema_version'', DStr ''release.authorization.v1''), (''authorization_id'', DStr (ra_authorization_id a)),
      (''verification_id'', DStr (ra_verification_id a)), (''report_id'', DStr (ra_report_id a)),
      (''candidate_id'', DStr (ra_candidate_id a)), (''candidate_version'', DInt (ra_candidate_version a)),
      (''candidate_sha256'', DStr (ra_candidate_sha256 a)),
      (''release_mode'', DStr (release_mode_value (ra_release_mode a))),
      (''allowed_block_ids'', DList (map DStr (ra_allowed_block_ids a))),
      (''disclosure_codes'', DList (map DStr (ra_disclosure_codes a))), (''report_sha256'', DStr (ra_report_sha256 a)),
      (''issued_at'', DTime (ra_issued_at a)), (''expires_at'', DTime (ra_expires_at a)), (''one_time_use'', DBool True)])"

definition valid_authorization :: "authorization \<Rightarrow> bool" where
  "valid_authorization a \<longleftrightarrow> valid_topic4_record a \<and> 1 \<le> ra_candidate_version a \<and> is_sha256_hex (ra_candidate_sha256 a)
     \<and> len_between 1 2048 (ra_allowed_block_ids a) \<and> length (ra_disclosure_codes a) \<le> 32
     \<and> is_sha256_hex (ra_report_sha256 a) \<and> ra_issued_at a < ra_expires_at a"

record report = topic4_record +
  vr_report_id :: uuid
  vr_verification_id :: uuid
  vr_candidate_id :: uuid
  vr_candidate_version :: int
  vr_candidate_sha256 :: digest
  vr_knowledge_base_version :: string
  vr_aggregation_result_id :: uuid
  vr_decision :: aggregate_decision
  vr_claim_verdict_ids :: "uuid list"
  vr_evidence_chain_manifest_id :: uuid
  vr_report_artifact :: artifact_ref
  vr_report_sha256 :: digest
  vr_policy_version :: string
  vr_completed_at :: timestamp

definition report_doc :: "report \<Rightarrow> doc" where
  "report_doc r = DObj (header_doc r @
     [(''schema_version'', DStr ''verification.report.v1''), (''report_id'', DStr (vr_report_id r)),
      (''verification_id'', DStr (vr_verification_id r)), (''candidate_id'', DStr (vr_candidate_id r)),
      (''candidate_version'', DInt (vr_candidate_version r)), (''candidate_sha256'', DStr (vr_candidate_sha256 r)),
      (''knowledge_base_version'', DStr (vr_knowledge_base_version r)),
      (''aggregation_result_id'', DStr (vr_aggregation_result_id r)),
      (''decision'', DStr (decision_value (vr_decision r))),
      (''claim_verdict_ids'', DList (map DStr (vr_claim_verdict_ids r))),
      (''evidence_chain_manifest_id'', DStr (vr_evidence_chain_manifest_id r)),
      (''report_artifact'', artifact_ref_doc (vr_report_artifact r)), (''report_sha256'', DStr (vr_report_sha256 r)),
      (''policy_version'', DStr (vr_policy_version r)), (''completed_at'', DTime (vr_completed_at r))])"

definition valid_report :: "report \<Rightarrow> bool" where
  "valid_report r \<longleftrightarrow> valid_topic4_record r \<and> 1 \<le> vr_candidate_version r \<and> is_sha256_hex (vr_candidate_sha256 r)
     \<and> is_version_string (vr_knowledge_base_version r) \<and> len_between 1 4096 (vr_claim_verdict_ids r)
     \<and> valid_artifact_ref (vr_report_artifact r) \<and> is_sha256_hex (vr_report_sha256 r)
     \<and> is_version_string (vr_policy_version r)"

datatype publication_state = PS_PENDING | PS_COMMITTED | PS_FAILED

fun publication_state_value :: "publication_state \<Rightarrow> string" where
  "publication_state_value PS_PENDING = ''PENDING''"
| "publication_state_value PS_COMMITTED = ''COMMITTED''"
| "publication_state_value PS_FAILED = ''FAILED''"

record publication_batch = topic4_record +
  bt_publication_batch_id :: uuid
  bt_authorization_id :: uuid
  bt_verification_id :: uuid
  bt_report_id :: uuid
  bt_candidate_id :: uuid
  bt_candidate_version :: int
  bt_candidate_sha256 :: digest
  bt_state :: publication_state
  bt_public_artifacts :: "artifact_ref list"
  bt_outbox_event_ids :: "uuid list"
  bt_public_stream_event_ids :: "uuid list"
  bt_committed_at :: "timestamp option"
  bt_failure_code :: "string option"

definition publication_batch_doc :: "publication_batch \<Rightarrow> doc" where
  "publication_batch_doc b = DObj (header_doc b @
     [(''schema_version'', DStr ''publication-batch.v1''), (''publication_batch_id'', DStr (bt_publication_batch_id b)),
      (''authorization_id'', DStr (bt_authorization_id b)), (''verification_id'', DStr (bt_verification_id b)),
      (''report_id'', DStr (bt_report_id b)), (''candidate_id'', DStr (bt_candidate_id b)),
      (''candidate_version'', DInt (bt_candidate_version b)), (''candidate_sha256'', DStr (bt_candidate_sha256 b)),
      (''state'', DStr (publication_state_value (bt_state b))),
      (''public_artifacts'', DList (map artifact_ref_doc (bt_public_artifacts b))),
      (''outbox_event_ids'', DList (map DStr (bt_outbox_event_ids b))),
      (''public_stream_event_ids'', DList (map DStr (bt_public_stream_event_ids b))),
      (''committed_at'', opt_doc DTime (bt_committed_at b)), (''failure_code'', opt_doc DStr (bt_failure_code b))])"

definition valid_publication_batch :: "publication_batch \<Rightarrow> bool" where
  "valid_publication_batch b \<longleftrightarrow> valid_topic4_record b \<and> 1 \<le> bt_candidate_version b \<and> is_sha256_hex (bt_candidate_sha256 b)
     \<and> list_all valid_artifact_ref (bt_public_artifacts b) \<and> int (length (bt_public_artifacts b)) \<le> 2048
     \<and> int (length (bt_outbox_event_ids b)) \<le> 2048 \<and> int (length (bt_public_stream_event_ids b)) \<le> 4096
     \<and> (\<forall>c\<in>set_option (bt_failure_code b). is_reason_code c)
     \<and> \<not> (bt_state b = PS_COMMITTED \<and> (bt_committed_at b = None \<or> bt_public_artifacts b = []))
     \<and> \<not> (bt_state b = PS_FAILED \<and> bt_failure_code b = None)"

record public_event = topic4_record +
  px_public_event_id :: uuid
  px_publication_batch_id :: uuid
  px_authorization_id :: uuid
  px_stream_id :: uuid
  px_sequence :: int
  px_event_type :: string
  px_payload_artifact :: artifact_ref
  px_payload_sha256 :: digest
  px_emitted_at :: timestamp

definition public_event_doc :: "public_event \<Rightarrow> doc" where
  "public_event_doc e = DObj (header_doc e @
     [(''schema_version'', DStr ''public.stream.event.v1''), (''public_event_id'', DStr (px_public_event_id e)),
      (''publication_batch_id'', DStr (px_publication_batch_id e)), (''authorization_id'', DStr (px_authorization_id e)),
      (''stream_id'', DStr (px_stream_id e)), (''sequence'', DInt (px_sequence e)), (''event_type'', DStr (px_event_type e)),
      (''payload_artifact'', artifact_ref_doc (px_payload_artifact e)), (''payload_sha256'', DStr (px_payload_sha256 e)),
      (''emitted_at'', DTime (px_emitted_at e))])"

definition is_event_type :: "string \<Rightarrow> bool" where
  "is_event_type s \<longleftrightarrow> 2 \<le> length s \<and> length s \<le> 128 \<and> char_in (CHR ''a'') (CHR ''z'') (hd s)
     \<and> list_all (\<lambda>c. char_in (CHR ''a'') (CHR ''z'') c \<or> char_in (CHR ''0'') (CHR ''9'') c \<or> c \<in> set ''_.-'') (tl s)"

definition valid_public_event :: "public_event \<Rightarrow> bool" where
  "valid_public_event e \<longleftrightarrow> valid_topic4_record e \<and> 0 \<le> px_sequence e \<and> is_event_type (px_event_type e)
     \<and> valid_artifact_ref (px_payload_artifact e) \<and> is_sha256_hex (px_payload_sha256 e)"

interpretation authorization_seal: sealed_document authorization_doc
  by unfold_locales (simp add: authorization_doc_def header_doc_def)

interpretation report_seal: sealed_document report_doc
  by unfold_locales (simp add: report_doc_def header_doc_def)

interpretation publication_batch_seal: sealed_document publication_batch_doc
  by unfold_locales (simp add: publication_batch_doc_def header_doc_def)

interpretation public_event_seal: sealed_document public_event_doc
  by unfold_locales (simp add: public_event_doc_def header_doc_def)

record publication_request =
  rq_authorization :: authorization
  rq_report :: report
  rq_candidate :: candidate
  rq_request_document :: "(string \<times> doc) list"
  rq_request_sha256 :: digest
  rq_subject_ref :: string

record publication_result =
  pu_batch :: publication_batch
  pu_public_event :: public_event
  pu_public_artifact :: artifact_ref

subsection \<open>The policy\<close>

text \<open>Of \<^verbatim>\<open>TenantContext\<close> the policy reads two fields.\<close>

record tenant_context =
  cx_tenant_id :: tenant
  cx_subject_ref :: string

text \<open>\<^verbatim>\<open>==\<close> of documents: the order of keys is irrelevant and numbers compare by value.\<close>

fun same_doc :: "doc \<Rightarrow> doc \<Rightarrow> bool" and same_docs :: "doc list \<Rightarrow> doc list \<Rightarrow> bool"
  and same_fields :: "(string \<times> doc) list \<Rightarrow> (string \<times> doc) list \<Rightarrow> bool" where
  "same_doc (DList xs) d = (case d of DList ys \<Rightarrow> same_docs xs ys | _ \<Rightarrow> False)"
| "same_doc (DObj a) d = (case d of DObj b \<Rightarrow> set (map fst a) = set (map fst b) \<and> same_fields a b | _ \<Rightarrow> False)"
| "same_doc (DStr s) d = (d = DStr s)"
| "same_doc (DTime t) d = (d = DTime t)"
| "same_doc DNull d = (d = DNull)"
| "same_doc (DInt i) d = (number_of d = Some (of_int i))"
| "same_doc (DFloat x) d = (number_of d = Some x)"
| "same_doc (DBool b) d = (number_of d = Some (if b then 1 else 0))"
| "same_docs [] ys = (ys = [])"
| "same_docs (x # xs) ys = (case ys of [] \<Rightarrow> False | y # ys' \<Rightarrow> same_doc x y \<and> same_docs xs ys')"
| "same_fields [] b = True"
| "same_fields ((k, v) # a) b = ((case map_of b k of None \<Rightarrow> False | Some w \<Rightarrow> same_doc v w) \<and> same_fields a b)"

definition lift_context :: "app_error + 'a \<Rightarrow> release_error + 'a" where
  "lift_context r = (case r of Inl e \<Rightarrow> Inl (Release_context e) | Inr x \<Rightarrow> Inr x)"

definition max_authorization_ttl :: int where
  "max_authorization_ttl = 300 * 1000000"

definition validate_authorization ::
  "hash_env \<Rightarrow> authorization \<Rightarrow> tenant_context \<Rightarrow> timestamp \<Rightarrow> release_error + unit" where
  "validate_authorization h a context now =
     rbind (lift_context (assert_tenant (Some (cx_tenant_id context)) (t4_tenant_id a))) (\<lambda>_.
     rbind (guard (record_integrity_valid h authorization_doc a) Publication_integrity) (\<lambda>_.
     rbind (guard (\<not> ra_expires_at a \<le> ra_issued_at a) Publication_integrity) (\<lambda>_.
     rbind (guard (\<not> max_authorization_ttl < ra_expires_at a - ra_issued_at a) Publication_integrity) (\<lambda>_.
     rbind (guard (\<not> ra_expires_at a \<le> now) Authorization_expired) (\<lambda>_.
     rbind (guard (ra_allowed_block_ids a \<noteq> []) Publication_integrity) (\<lambda>_.
     rbind (guard (\<not> (ra_release_mode a = RM_FULL_WITH_DISCLOSURE \<and> ra_disclosure_codes a = [])) Publication_integrity) (\<lambda>_.
     rbind (guard (\<not> (ra_release_mode a = RM_FULL \<and> ra_disclosure_codes a \<noteq> [])) Publication_integrity) (\<lambda>_.
     guard (cx_subject_ref context \<noteq> []) Publication_integrity))))))))"

definition expected_document :: "authorization \<Rightarrow> doc" where
  "expected_document a = DObj
     [(''authorization_id'', DStr (ra_authorization_id a)), (''verification_id'', DStr (ra_verification_id a)),
      (''report_id'', DStr (ra_report_id a)), (''candidate_id'', DStr (ra_candidate_id a)),
      (''candidate_version'', DInt (ra_candidate_version a)), (''candidate_sha256'', DStr (ra_candidate_sha256 a)),
      (''report_sha256'', DStr (ra_report_sha256 a)),
      (''allowed_block_ids'', DList (map DStr (ra_allowed_block_ids a)))]"

definition nonempty_text :: "doc \<Rightarrow> bool" where
  "nonempty_text d = (case d of DStr s \<Rightarrow> s \<noteq> [] | _ \<Rightarrow> False)"

definition expected_request_sha :: "hash_env \<Rightarrow> authorization \<Rightarrow> (string \<times> doc) list \<Rightarrow> release_error + digest" where
  "expected_request_sha h a document =
     (let expected = expected_document a
      in if same_doc (DObj document) expected then Inr (c_sha h expected)
         else if same_doc (field ''publication'' document) expected
         then if set (map fst document) \<noteq> {''publication'', ''commit_command_id'', ''idempotency_key_sha256''}
              then Inl Publication_integrity
              else if \<not> list_all (\<lambda>key. nonempty_text (field key document)) [''commit_command_id'', ''idempotency_key_sha256'']
              then Inl Publication_integrity
              else Inr (c_sha h (DObj document))
         else Inl Publication_integrity)"

definition release_decision :: "release_mode \<Rightarrow> aggregate_decision" where
  "release_decision m = (if m = RM_FULL then AD_RELEASE else AD_RELEASE_WITH_DISCLOSURE)"

definition validate_request ::
  "hash_env \<Rightarrow> publication_request \<Rightarrow> tenant_context \<Rightarrow> timestamp \<Rightarrow> release_error + unit" where
  "validate_request h r context now =
     (let a = rq_authorization r; rep = rq_report r; c = rq_candidate r; allowed = ra_allowed_block_ids a
      in rbind (validate_authorization h a context now) (\<lambda>_.
         rbind (guard (record_integrity_valid h report_doc rep) Publication_integrity) (\<lambda>_.
         rbind (guard (rq_subject_ref r = cx_subject_ref context) Publication_integrity) (\<lambda>_.
         rbind (guard (c_sha h (DObj (rq_request_document r)) = rq_request_sha256 r) Publication_integrity) (\<lambda>_.
         rbind (guard (af_sha256 (vr_report_artifact rep) = vr_report_sha256 rep) Publication_integrity) (\<lambda>_.
         rbind (guard (c_sha h (candidate_doc c) = ca_candidate_sha256 c) Publication_integrity) (\<lambda>_.
         rbind (guard (ra_verification_id a = vr_verification_id rep \<and> ra_report_id a = vr_report_id rep
             \<and> ra_candidate_id a = ca_candidate_id c \<and> ra_candidate_version a = ca_candidate_version c
             \<and> ra_candidate_sha256 a = ca_candidate_sha256 c \<and> ra_report_sha256 a = vr_report_sha256 rep)
             Publication_integrity) (\<lambda>_.
         rbind (guard (vr_verification_id rep = ra_verification_id a \<and> vr_candidate_id rep = ca_candidate_id c
             \<and> vr_candidate_version rep = ca_candidate_version c \<and> vr_candidate_sha256 rep = ca_candidate_sha256 c)
             Publication_integrity) (\<lambda>_.
         rbind (guard (distinct allowed \<and> set allowed \<subseteq> set (block_ids c)) Publication_integrity) (\<lambda>_.
         rbind (guard (\<not> (ra_release_mode a = RM_FULL \<and> set allowed \<noteq> set (block_ids c))) Publication_integrity) (\<lambda>_.
         rbind (guard (vr_decision rep = release_decision (ra_release_mode a)) Publication_integrity) (\<lambda>_.
         rbind (expected_request_sha h a (rq_request_document r)) (\<lambda>expected.
         guard (rq_request_sha256 r = expected) Publication_integrity)))))))))))))"

definition public_document :: "candidate \<Rightarrow> string list \<Rightarrow> doc" where
  "public_document c allowed = DObj
     [(''schema_version'', DStr ''topic4.public-candidate.v1''), (''candidate_id'', DStr (ca_candidate_id c)),
      (''candidate_version'', DInt (ca_candidate_version c)), (''candidate_sha256'', DStr (ca_candidate_sha256 c)),
      (''resource_type'', DStr (resource_type_value (ca_resource_type c))),
      (''blocks'', DList (map block_doc (filter (\<lambda>b. bk_block_id b \<in> set allowed) (ca_blocks c))))]"

subsection \<open>The repository\<close>

record release_repo =
  rs_authorizations :: "uuid \<rightharpoonup> authorization \<times> doc"
  rs_consumed :: "uuid \<rightharpoonup> digest \<times> publication_result"

definition empty_repo :: release_repo where
  "empty_repo = \<lparr>rs_authorizations = Map.empty, rs_consumed = Map.empty\<rparr>"

definition repo_issue ::
  "hash_env \<Rightarrow> authorization \<Rightarrow> doc \<Rightarrow> release_repo \<Rightarrow> (release_error + authorization) \<times> release_repo" where
  "repo_issue h a document s =
     (case rs_authorizations s (ra_authorization_id a) of
        Some (stored, stored_document) \<Rightarrow>
          if c_sha h stored_document \<noteq> c_sha h document then (Inl Authorization_conflict, s) else (Inr stored, s)
      | None \<Rightarrow> (Inr a, s\<lparr>rs_authorizations := (rs_authorizations s)(ra_authorization_id a \<mapsto> (a, document))\<rparr>))"

definition get_authorization :: "uuid \<Rightarrow> release_repo \<Rightarrow> authorization option" where
  "get_authorization k s = map_option fst (rs_authorizations s k)"

definition lift_contract :: "contract_error + 'a \<Rightarrow> release_error + 'a" where
  "lift_contract r = (case r of Inl _ \<Rightarrow> Inl Release_contract | Inr x \<Rightarrow> Inr x)"

definition committed_batch ::
  "hash_env \<Rightarrow> publication_request \<Rightarrow> artifact_ref \<Rightarrow> timestamp \<Rightarrow> publication_batch" where
  "committed_batch h r public_artifact now =
     (let a = rq_authorization r; c = rq_candidate r;
          batch_id = c_uuid5 h (ra_authorization_id a) (''batch:'' @ rq_request_sha256 r)
      in \<lparr>t4_trace_id = t4_trace_id a, t4_tenant_id = t4_tenant_id a, t4_version_cas = 2, t4_record_sha256 = [],
          t4_created_at = ca_created_at c, bt_publication_batch_id = batch_id, bt_authorization_id = ra_authorization_id a,
          bt_verification_id = ra_verification_id a, bt_report_id = ra_report_id a, bt_candidate_id = ca_candidate_id c,
          bt_candidate_version = ca_candidate_version c, bt_candidate_sha256 = ca_candidate_sha256 c,
          bt_state = PS_COMMITTED, bt_public_artifacts = [public_artifact], bt_outbox_event_ids = [c_uuid5 h batch_id ''outbox''],
          bt_public_stream_event_ids = [c_uuid5 h batch_id ''public-event''], bt_committed_at = Some now,
          bt_failure_code = None\<rparr>)"

definition committed_event ::
  "hash_env \<Rightarrow> publication_request \<Rightarrow> artifact_ref \<Rightarrow> timestamp \<Rightarrow> public_event" where
  "committed_event h r event_artifact now =
     (let a = rq_authorization r; batch_id = c_uuid5 h (ra_authorization_id a) (''batch:'' @ rq_request_sha256 r)
      in \<lparr>t4_trace_id = t4_trace_id a, t4_tenant_id = t4_tenant_id a, t4_version_cas = 1, t4_record_sha256 = [],
          t4_created_at = ca_created_at (rq_candidate r), px_public_event_id = c_uuid5 h batch_id ''public-event'',
          px_publication_batch_id = batch_id, px_authorization_id = ra_authorization_id a,
          px_stream_id = c_uuid5 h batch_id ''public-stream'', px_sequence = 0,
          px_event_type = ''topic4.publication.committed'', px_payload_artifact = event_artifact,
          px_payload_sha256 = af_sha256 event_artifact, px_emitted_at = now\<rparr>)"

definition consume_and_publish ::
  "hash_env \<Rightarrow> publication_request \<Rightarrow> artifact_ref \<Rightarrow> artifact_ref \<Rightarrow> timestamp \<Rightarrow> release_repo
     \<Rightarrow> (release_error + publication_result) \<times> release_repo" where
  "consume_and_publish h r public_artifact event_artifact clock s =
     (let a = rq_authorization r; k = ra_authorization_id a
      in case rs_authorizations s k of
           None \<Rightarrow> (Inl Authorization_conflict, s)
         | Some (stored, stored_document) \<Rightarrow>
             if c_sha h stored_document \<noteq> c_sha h (full_doc authorization_doc a) \<or> stored \<noteq> a
             then (Inl Authorization_conflict, s)
             else case rs_consumed s k of
                    Some (request_sha, result) \<Rightarrow>
                      if request_sha \<noteq> rq_request_sha256 r then (Inl Authorization_replay, s) else (Inr result, s)
                  | None \<Rightarrow>
                      if ra_expires_at a \<le> clock then (Inl Authorization_expired, s)
                      else case rbind (lift_contract (build_topic4_record h publication_batch_doc valid_publication_batch
                                    (committed_batch h r public_artifact clock))) (\<lambda>batch.
                                rbind (lift_contract (build_topic4_record h public_event_doc valid_public_event
                                    (committed_event h r event_artifact clock))) (\<lambda>event.
                                Inr \<lparr>pu_batch = batch, pu_public_event = event, pu_public_artifact = public_artifact\<rparr>)) of
                             Inl e \<Rightarrow> (Inl e, s)
                           | Inr result \<Rightarrow>
                               (Inr result, s\<lparr>rs_consumed := (rs_consumed s)(k \<mapsto> (rq_request_sha256 r, result))\<rparr>))"

subsection \<open>The service\<close>

definition put_document ::
  "codec \<Rightarrow> publication_request \<Rightarrow> doc \<Rightarrow> string \<Rightarrow> artifact_store \<Rightarrow> (release_error + artifact_ref) \<times> artifact_store" where
  "put_document cd r document prefix_text store =
     (let content = cd_json cd document; digest = c_sha (hashes cd) document; a = rq_authorization r;
          object_key = prefix_text @ ''/'' @ ra_verification_id a @ ''/'' @ ra_authorization_id a @ ''/'' @ digest @ ''.json''
      in case put_object (cd_sha cd) (t4_tenant_id a) ''verification-artifacts'' object_key content store of
           (Inl e, store') \<Rightarrow> (Inl (Release_artifact e), store')
         | (Inr stored, store') \<Rightarrow>
             if so_sha256 stored \<noteq> digest \<or> so_byte_size stored \<noteq> int (length content)
             then (Inl Publication_integrity, store')
             else let artifact = \<lparr>af_object_key = object_key, af_media_type = MT_json, af_content_encoding = CE_identity,
                        af_byte_size = so_byte_size stored, af_sha256 = so_sha256 stored,
                        af_created_at = ca_created_at (rq_candidate r)\<rparr>
                  in (if valid_artifact_ref artifact then Inr artifact else Inl Release_contract, store'))"

definition event_document :: "publication_request \<Rightarrow> artifact_ref \<Rightarrow> doc" where
  "event_document r public_artifact =
     (let a = rq_authorization r; c = rq_candidate r
      in DObj [(''schema_version'', DStr ''topic4.publication.event.v1''), (''authorization_id'', DStr (ra_authorization_id a)),
               (''verification_id'', DStr (ra_verification_id a)), (''candidate_id'', DStr (ca_candidate_id c)),
               (''candidate_version'', DInt (ca_candidate_version c)), (''candidate_sha256'', DStr (ca_candidate_sha256 c)),
               (''report_sha256'', DStr (vr_report_sha256 (rq_report r))),
               (''public_artifact'', artifact_ref_doc public_artifact)])"

text \<open>The state that the service works on, and its two operations.\<close>

record release_world =
  rw_repo :: release_repo
  rw_store :: artifact_store

definition tenant_of :: "tenant_context option \<Rightarrow> release_error + tenant_context" where
  "tenant_of ctx = (case ctx of Some c \<Rightarrow> Inr c
     | None \<Rightarrow> Inl (Release_context (liyan ''LIYAN-TENANT-CONTEXT-MISSING'' EC_TENANT False 403)))"

definition issue_authorization ::
  "codec \<Rightarrow> tenant_context option \<Rightarrow> timestamp \<Rightarrow> authorization \<Rightarrow> doc option \<Rightarrow> release_world
     \<Rightarrow> (release_error + authorization) \<times> release_world" where
  "issue_authorization cd ctx now a document w =
     (let h = hashes cd; dump = full_doc authorization_doc a;
          chosen = (case document of None \<Rightarrow> dump | Some d \<Rightarrow> if d = DObj [] then dump else d)
      in case rbind (tenant_of ctx) (\<lambda>context.
              rbind (validate_authorization h a context now) (\<lambda>_.
              guard (c_sha h chosen = c_sha h dump) Publication_integrity)) of
           Inl e \<Rightarrow> (Inl e, w)
         | Inr _ \<Rightarrow> (case repo_issue h a chosen (rw_repo w) of (r, repo) \<Rightarrow> (r, w\<lparr>rw_repo := repo\<rparr>)))"

definition publish_release ::
  "codec \<Rightarrow> tenant_context option \<Rightarrow> timestamp \<Rightarrow> timestamp \<Rightarrow> publication_request \<Rightarrow> release_world
     \<Rightarrow> (release_error + publication_result) \<times> release_world" where
  "publish_release cd ctx now clock r w =
     (let h = hashes cd
      in case rbind (tenant_of ctx) (\<lambda>context. validate_request h r context now) of
           Inl e \<Rightarrow> (Inl e, w)
         | Inr _ \<Rightarrow>
             (case put_document cd r (public_document (rq_candidate r) (ra_allowed_block_ids (rq_authorization r)))
                     ''c12/public'' (rw_store w) of
                (Inl e, store) \<Rightarrow> (Inl e, w\<lparr>rw_store := store\<rparr>)
              | (Inr public_artifact, store) \<Rightarrow>
                  (case put_document cd r (event_document r public_artifact) ''c12/events'' store of
                     (Inl e, store') \<Rightarrow> (Inl e, w\<lparr>rw_store := store'\<rparr>)
                   | (Inr event_artifact, store') \<Rightarrow>
                       (case consume_and_publish h r public_artifact event_artifact clock (rw_repo w) of
                          (res, repo) \<Rightarrow> (res, \<lparr>rw_repo = repo, rw_store = store'\<rparr>)))))"

subsection \<open>Runs of the service\<close>

datatype release_call =
    Issue_call "tenant_context option" timestamp authorization "doc option"
  | Publish_call "tenant_context option" timestamp timestamp publication_request

type_synonym publications = "(publication_request \<times> publication_result) list"

fun release_call_step :: "codec \<Rightarrow> release_call \<Rightarrow> publications \<times> release_world \<Rightarrow> publications \<times> release_world" where
  "release_call_step cd (Issue_call ctx now a document) (done_so_far, w) =
     (done_so_far, snd (issue_authorization cd ctx now a document w))"
| "release_call_step cd (Publish_call ctx now clock r) (done_so_far, w) =
     (case publish_release cd ctx now clock r w of
        (Inl _, w') \<Rightarrow> (done_so_far, w')
      | (Inr res, w') \<Rightarrow> ((r, res) # done_so_far, w'))"

definition release_run :: "codec \<Rightarrow> release_call list \<Rightarrow> int \<Rightarrow> publications \<times> release_world" where
  "release_run cd calls max_bytes =
     fold (release_call_step cd) calls ([], \<lparr>rw_repo = empty_repo, rw_store = new_store max_bytes\<rparr>)"

lemma put_document_Inr:
  assumes "put_document cd r d pre store = (Inr art, store')"
  shows "\<exists>obj k. put_object (cd_sha cd) (t4_tenant_id (rq_authorization r)) ''verification-artifacts'' k (cd_json cd d) store = (Inr obj, store')
    \<and> af_object_key art = k \<and> af_byte_size art = so_byte_size obj \<and> af_sha256 art = so_sha256 obj
    \<and> af_sha256 art = cd_sha cd (cd_json cd d) \<and> valid_artifact_ref art"
  using assms by (auto simp: put_document_def Let_def hashes_def split: prod.splits sum.splits if_splits)

lemma put_document_store: "\<exists>rs. snd (put_document cd r d pre store) = run_puts (cd_sha cd) rs store"
proof -
  let ?k = "pre @ ''/'' @ ra_verification_id (rq_authorization r) @ ''/'' @ ra_authorization_id (rq_authorization r) @ ''/''
    @ c_sha (hashes cd) d @ ''.json''"
  have "snd (put_document cd r d pre store)
      = run_puts (cd_sha cd) [Put (t4_tenant_id (rq_authorization r)) ''verification-artifacts'' ?k (cd_json cd d)] store"
    by (simp add: put_document_def Let_def run_puts_def split: prod.splits sum.splits)
  then show ?thesis by blast
qed

lemma run_puts_append: "run_puts sha rs' (run_puts sha rs s) = run_puts sha (rs @ rs') s"
  by (simp add: run_puts_def)

lemma put_document_again:
  assumes "put_document cd r d pre store = (Inr art, store')" "store_ok store"
  shows "put_document cd r d pre (run_puts (cd_sha cd) rs store') = (Inr art, run_puts (cd_sha cd) rs store')"
proof -
  let ?k = "pre @ ''/'' @ ra_verification_id (rq_authorization r) @ ''/'' @ ra_authorization_id (rq_authorization r) @ ''/''
    @ c_sha (hashes cd) d @ ''.json''"
  from assms(1) obtain obj where
    put: "put_object (cd_sha cd) (t4_tenant_id (rq_authorization r)) ''verification-artifacts'' ?k (cd_json cd d) store = (Inr obj, store')"
    by (auto simp: put_document_def Let_def split: prod.splits sum.splits if_splits)
  from put_object_again [OF this assms(2), of rs] put assms(1) show ?thesis
    by (auto simp: put_document_def Let_def split: prod.splits sum.splits if_splits)
qed

definition request_key :: "publication_request \<Rightarrow> uuid" where
  "request_key r = ra_authorization_id (rq_authorization r)"

text \<open>What the policy has established for a request, whenever it was checked.\<close>

definition bound_request :: "hash_env \<Rightarrow> publication_request \<Rightarrow> bool" where
  "bound_request h r \<longleftrightarrow>
     (let a = rq_authorization r; rep = rq_report r; c = rq_candidate r; allowed = ra_allowed_block_ids a
      in record_integrity_valid h authorization_doc a \<and> record_integrity_valid h report_doc rep
         \<and> c_sha h (candidate_doc c) = ca_candidate_sha256 c
         \<and> ra_candidate_sha256 a = ca_candidate_sha256 c \<and> vr_candidate_sha256 rep = ca_candidate_sha256 c
         \<and> ra_report_sha256 a = vr_report_sha256 rep
         \<and> vr_decision rep = release_decision (ra_release_mode a)
         \<and> allowed \<noteq> [] \<and> distinct allowed \<and> set allowed \<subseteq> set (block_ids c)
         \<and> (ra_release_mode a = RM_FULL \<longrightarrow> set allowed = set (block_ids c) \<and> ra_disclosure_codes a = [])
         \<and> (ra_release_mode a = RM_FULL_WITH_DISCLOSURE \<longrightarrow> ra_disclosure_codes a \<noteq> []))"

lemma validate_request_bound:
  assumes "validate_request h r context now = Inr u"
  shows "bound_request h r" "now < ra_expires_at (rq_authorization r)"
    "cx_tenant_id context = t4_tenant_id (rq_authorization r)"
  using assms
  by (auto simp: validate_request_def validate_authorization_def bound_request_def Let_def rbind_Inr_iff guard_Inr_iff
      lift_context_def assert_tenant_def current_tenant_def split: if_splits)

definition documents_stored :: "codec \<Rightarrow> publication_request \<Rightarrow> artifact_ref \<Rightarrow> artifact_store \<Rightarrow> bool" where
  "documents_stored cd r art store \<longleftrightarrow>
     put_document cd r (public_document (rq_candidate r) (ra_allowed_block_ids (rq_authorization r))) ''c12/public'' store
       = (Inr art, store)
     \<and> (\<exists>event. put_document cd r (event_document r art) ''c12/events'' store = (Inr event, store))"

lemma documents_stay:
  assumes "documents_stored cd r art store" "store_ok store"
  shows "documents_stored cd r art (run_puts (cd_sha cd) rs store)"
  using assms put_document_again by (auto simp: documents_stored_def)

text \<open>The record that a publication leaves, and the result that it has.\<close>

definition committed_result :: "codec \<Rightarrow> publication_request \<Rightarrow> publication_result \<Rightarrow> bool" where
  "committed_result cd r res \<longleftrightarrow>
     record_integrity_valid (hashes cd) publication_batch_doc (pu_batch res) \<and> valid_publication_batch (pu_batch res)
     \<and> bt_state (pu_batch res) = PS_COMMITTED \<and> bt_authorization_id (pu_batch res) = request_key r
     \<and> bt_candidate_sha256 (pu_batch res) = ca_candidate_sha256 (rq_candidate r)
     \<and> bt_public_artifacts (pu_batch res) = [pu_public_artifact res]
     \<and> record_integrity_valid (hashes cd) public_event_doc (pu_public_event res) \<and> valid_public_event (pu_public_event res)
     \<and> px_authorization_id (pu_public_event res) = request_key r
     \<and> bt_public_stream_event_ids (pu_batch res) = [px_public_event_id (pu_public_event res)]"

definition recorded :: "codec \<Rightarrow> release_world \<Rightarrow> publication_request \<Rightarrow> publication_result \<Rightarrow> bool" where
  "recorded cd w r res \<longleftrightarrow> bound_request (hashes cd) r
     \<and> rs_consumed (rw_repo w) (request_key r) = Some (rq_request_sha256 r, res)
     \<and> (\<exists>d. rs_authorizations (rw_repo w) (request_key r) = Some (rq_authorization r, d)
          \<and> c_sha (hashes cd) d = c_sha (hashes cd) (full_doc authorization_doc (rq_authorization r)))
     \<and> (\<exists>art. documents_stored cd r art (rw_store w))"

definition traced :: "codec \<Rightarrow> publications \<Rightarrow> release_world \<Rightarrow> uuid \<Rightarrow> publication_result \<Rightarrow> bool" where
  "traced cd hist w k res \<longleftrightarrow> (\<exists>r. (r, res) \<in> set hist \<and> request_key r = k \<and> committed_result cd r res
     \<and> documents_stored cd r (pu_public_artifact res) (rw_store w))"

definition release_inv :: "codec \<Rightarrow> publications \<Rightarrow> release_world \<Rightarrow> bool" where
  "release_inv cd hist w \<longleftrightarrow> store_ok (rw_store w) \<and> (\<forall>x\<in>set hist. recorded cd w (fst x) (snd x))
     \<and> (\<forall>k request_sha res. rs_consumed (rw_repo w) k = Some (request_sha, res) \<longrightarrow> traced cd hist w k res)"

text \<open>A state is later than another one when nothing recorded in the first is lost.\<close>

definition later :: "codec \<Rightarrow> release_world \<Rightarrow> release_world \<Rightarrow> bool" where
  "later cd w w' \<longleftrightarrow> (\<exists>rs. rw_store w' = run_puts (cd_sha cd) rs (rw_store w))
     \<and> (\<forall>k v. rs_authorizations (rw_repo w) k = Some v \<longrightarrow> rs_authorizations (rw_repo w') k = Some v)
     \<and> (\<forall>k v. rs_consumed (rw_repo w) k = Some v \<longrightarrow> rs_consumed (rw_repo w') k = Some v)"

lemma recorded_later:
  assumes "later cd w w'" "store_ok (rw_store w)" "recorded cd w r res"
  shows "recorded cd w' r res"
proof -
  from assms(1) obtain rs where rs: "rw_store w' = run_puts (cd_sha cd) rs (rw_store w)" by (auto simp: later_def)
  from assms(3) obtain d art where "documents_stored cd r art (rw_store w)"
    "rs_authorizations (rw_repo w) (request_key r) = Some (rq_authorization r, d)"
    "c_sha (hashes cd) d = c_sha (hashes cd) (full_doc authorization_doc (rq_authorization r))"
    by (auto simp: recorded_def)
  moreover from documents_stay [OF this(1) assms(2), of rs] have "documents_stored cd r art (rw_store w')" by (simp add: rs)
  moreover have "rs_consumed (rw_repo w') (request_key r) = Some (rq_request_sha256 r, res)" "bound_request (hashes cd) r"
    using assms(1,3) by (simp_all add: later_def recorded_def)
  ultimately show ?thesis using assms(1) by (auto simp: recorded_def later_def)
qed

lemma traced_later:
  assumes "later cd w w'" "store_ok (rw_store w)" "traced cd hist w k res" "set hist \<subseteq> set hist'"
  shows "traced cd hist' w' k res"
proof -
  from assms(1) obtain rs where rs: "rw_store w' = run_puts (cd_sha cd) rs (rw_store w)" by (auto simp: later_def)
  from assms(3) obtain r where r: "(r, res) \<in> set hist" "request_key r = k" "committed_result cd r res"
    "documents_stored cd r (pu_public_artifact res) (rw_store w)" unfolding traced_def by blast
  from documents_stay [OF r(4) assms(2), of rs] r(1-3) assms(4) show ?thesis unfolding traced_def rs by blast
qed

lemma later_store_ok: "later cd w w' \<Longrightarrow> store_ok (rw_store w) \<Longrightarrow> store_ok (rw_store w')"
  using store_ok_puts by (auto simp: later_def)

lemma publish_releaseE:
  assumes "publish_release cd ctx now clock r w = (Inr res, w')"
  obtains tcx art event rs where
    "ctx = Some tcx" "validate_request (hashes cd) r tcx now = Inr ()"
    "rw_store w' = run_puts (cd_sha cd) rs (rw_store w)"
    "store_ok (rw_store w) \<Longrightarrow> documents_stored cd r art (rw_store w')"
    "consume_and_publish (hashes cd) r art event clock (rw_repo w) = (Inr res, rw_repo w')"
proof -
  let ?public = "put_document cd r (public_document (rq_candidate r) (ra_allowed_block_ids (rq_authorization r))) ''c12/public''"
  from assms obtain tcx art store event store' where
    R: "ctx = Some tcx" "validate_request (hashes cd) r tcx now = Inr ()" "?public (rw_store w) = (Inr art, store)"
      "put_document cd r (event_document r art) ''c12/events'' store = (Inr event, store')" "rw_store w' = store'"
      "consume_and_publish (hashes cd) r art event clock (rw_repo w) = (Inr res, rw_repo w')"
    by (cases ctx) (auto simp: publish_release_def tenant_of_def Let_def split: sum.splits prod.splits)
  from put_document_store [of cd r _ _ "rw_store w"] R(3) obtain rs1 where s1: "store = run_puts (cd_sha cd) rs1 (rw_store w)"
    by (metis snd_conv)
  from put_document_store [of cd r _ _ store] R(4) obtain rs2 where s2: "store' = run_puts (cd_sha cd) rs2 store"
    by (metis snd_conv)
  have "documents_stored cd r art store'" if "store_ok (rw_store w)"
  proof -
    have "store_ok store" unfolding s1 by (rule store_ok_puts [OF that])
    from put_document_again [OF R(3) that, of rs2] put_document_again [OF R(4) this, of "[]"] show ?thesis
      by (auto simp: documents_stored_def s2 run_puts_def)
  qed
  with R s1 s2 show ?thesis by (intro that) (auto simp: run_puts_append)
qed

lemma consume_cases:
  assumes "consume_and_publish (hashes cd) r art event clock s = (Inr res, s')"
  shows "\<exists>d. rs_authorizations s (request_key r) = Some (rq_authorization r, d) \<and> rs_authorizations s' = rs_authorizations s
    \<and> c_sha (hashes cd) d = c_sha (hashes cd) (full_doc authorization_doc (rq_authorization r))
    \<and> (s' = s \<and> rs_consumed s (request_key r) = Some (rq_request_sha256 r, res)
       \<or> rs_consumed s (request_key r) = None \<and> clock < ra_expires_at (rq_authorization r)
         \<and> rs_consumed s' = (rs_consumed s)(request_key r \<mapsto> (rq_request_sha256 r, res))
         \<and> committed_result cd r res \<and> pu_public_artifact res = art)"
proof -
  have sealed: "committed_result cd r \<lparr>pu_batch = b, pu_public_event = e, pu_public_artifact = art\<rparr>"
    if "build_topic4_record (hashes cd) publication_batch_doc valid_publication_batch (committed_batch (hashes cd) r art clock) = Inr b"
      "build_topic4_record (hashes cd) public_event_doc valid_public_event (committed_event (hashes cd) r event clock) = Inr e" for b e
    using publication_batch_seal.build_seals [OF that(1)] public_event_seal.build_seals [OF that(2)]
    by (auto simp: committed_result_def committed_batch_def committed_event_def request_key_def Let_def)
  show ?thesis using assms sealed
    by (auto simp: consume_and_publish_def Let_def lift_contract_def request_key_def rbind_Inr_iff
        split: option.splits if_splits sum.splits)
qed

lemma issue_effect:
  "rw_store (snd (issue_authorization cd ctx now a document w)) = rw_store w
   \<and> rs_consumed (rw_repo (snd (issue_authorization cd ctx now a document w))) = rs_consumed (rw_repo w)
   \<and> (\<forall>k v. rs_authorizations (rw_repo w) k = Some v
        \<longrightarrow> rs_authorizations (rw_repo (snd (issue_authorization cd ctx now a document w))) k = Some v)"
  by (auto simp: issue_authorization_def repo_issue_def Let_def split: sum.splits option.splits prod.splits)

lemma later_refl_issue: "later cd w (snd (issue_authorization cd ctx now a document w))"
  using issue_effect [of cd ctx now a document w]
  by (auto simp: later_def run_puts_def intro: exI [of _ "[]"])

lemma later_failed:
  assumes "publish_release cd ctx now clock r w = (Inl e, w')"
  shows "later cd w w'"
proof -
  have puts: "\<exists>rs. x = run_puts (cd_sha cd) rs (rw_store w)"
    if "y = run_puts (cd_sha cd) rs1 (rw_store w)" "x = snd (put_document cd r d pre y)" for x y rs1 d pre
    using put_document_store [of cd r d pre y] that run_puts_append by metis
  define public where "public = put_document cd r (public_document (rq_candidate r) (ra_allowed_block_ids (rq_authorization r))) ''c12/public'' (rw_store w)"
  obtain rs1 where s1: "snd public = run_puts (cd_sha cd) rs1 (rw_store w)" unfolding public_def using put_document_store by blast
  have "run_puts (cd_sha cd) [] (rw_store w) = rw_store w" by (simp add: run_puts_def)
  then have store: "\<exists>rs. rw_store w' = run_puts (cd_sha cd) rs (rw_store w)"
    using assms s1 puts [OF s1] unfolding publish_release_def Let_def public_def [symmetric]
    by (auto split: sum.splits prod.splits) (metis snd_conv)+
  have "rw_repo w' = rw_repo w" using assms
    by (auto simp: publish_release_def consume_and_publish_def Let_def split: sum.splits prod.splits option.splits if_splits)
  with store show ?thesis by (simp add: later_def)
qed

lemma release_inv_later:
  assumes "release_inv cd hist w" "later cd w w'" "rs_consumed (rw_repo w') = rs_consumed (rw_repo w)"
  shows "release_inv cd hist w'"
  using assms recorded_later [OF assms(2)] traced_later [OF assms(2)] later_store_ok [OF assms(2)]
  unfolding release_inv_def by (metis order_refl)

lemma release_inv_publish:
  assumes inv: "release_inv cd hist w" and run: "publish_release cd ctx now clock r w = (Inr res, w')"
  shows "release_inv cd ((r, res) # hist) w'"
proof -
  from publish_releaseE [OF run] obtain tcx art event rs where
    P: "validate_request (hashes cd) r tcx now = Inr ()" "rw_store w' = run_puts (cd_sha cd) rs (rw_store w)"
      "store_ok (rw_store w) \<Longrightarrow> documents_stored cd r art (rw_store w')"
      "consume_and_publish (hashes cd) r art event clock (rw_repo w) = (Inr res, rw_repo w')" by metis
  have ok: "store_ok (rw_store w)" using inv by (simp add: release_inv_def)
  note bound = validate_request_bound(1) [OF P(1)] and stored = P(3) [OF ok]
  from consume_cases [OF P(4)] obtain d where
    C: "rs_authorizations (rw_repo w) (request_key r) = Some (rq_authorization r, d)"
      "rs_authorizations (rw_repo w') = rs_authorizations (rw_repo w)"
      "c_sha (hashes cd) d = c_sha (hashes cd) (full_doc authorization_doc (rq_authorization r))"
    and cases: "rw_repo w' = rw_repo w \<and> rs_consumed (rw_repo w) (request_key r) = Some (rq_request_sha256 r, res)
       \<or> rs_consumed (rw_repo w) (request_key r) = None
         \<and> rs_consumed (rw_repo w') = (rs_consumed (rw_repo w))(request_key r \<mapsto> (rq_request_sha256 r, res))
         \<and> committed_result cd r res \<and> pu_public_artifact res = art" by blast
  have later: "later cd w w'" using P(2) C(2) cases by (auto simp: later_def)
  have consumed: "rs_consumed (rw_repo w') (request_key r) = Some (rq_request_sha256 r, res)" using cases by auto
  with C bound stored have now_recorded: "recorded cd w' r res" unfolding recorded_def by metis
  have "traced cd ((r, res) # hist) w' k res'" if k: "rs_consumed (rw_repo w') k = Some (request_sha, res')" for k request_sha res'
  proof (cases "rs_consumed (rw_repo w) k = Some (request_sha, res')")
    case True
    with inv have before: "traced cd hist w k res'" by (simp add: release_inv_def)
    show ?thesis by (rule traced_later [OF later ok before]) auto
  next
    case False
    with k cases have "k = request_key r" "res' = res" "committed_result cd r res" "pu_public_artifact res = art"
      by (auto split: if_splits)
    with stored show ?thesis by (auto simp: traced_def)
  qed
  moreover have "recorded cd w' (fst x) (snd x)" if "x \<in> set ((r, res) # hist)" for x
    using that now_recorded recorded_later [OF later ok] inv by (auto simp: release_inv_def)
  ultimately show ?thesis using later_store_ok [OF later ok] unfolding release_inv_def by blast
qed

lemma release_run_inv:
  assumes "release_run cd calls n = (hist, w)"
  shows "release_inv cd hist w"
proof -
  have step: "release_inv cd (fst (release_call_step cd call hw)) (snd (release_call_step cd call hw))"
    if "release_inv cd (fst hw) (snd hw)" for call hw
  proof (cases call)
    case (Issue_call ctx now a document)
    have "rs_consumed (rw_repo (snd (issue_authorization cd ctx now a document (snd hw)))) = rs_consumed (rw_repo (snd hw))"
      using issue_effect by blast
    from release_inv_later [OF that later_refl_issue this] Issue_call show ?thesis by (cases hw) simp
  next
    case (Publish_call ctx now clock r)
    obtain hist w where hw: "hw = (hist, w)" by (rule prod.exhaust)
    obtain out w' where out: "publish_release cd ctx now clock r w = (out, w')" by (rule prod.exhaust)
    show ?thesis
    proof (cases out)
      case (Inl e)
      then have "rs_consumed (rw_repo w') = rs_consumed (rw_repo w)" using out
        by (auto simp: publish_release_def consume_and_publish_def Let_def split: sum.splits prod.splits option.splits if_splits)
      with release_inv_later [OF _ later_failed [OF out [unfolded Inl]]] that Inl out hw Publish_call show ?thesis by simp
    next
      case (Inr res)
      with release_inv_publish [OF _ out [unfolded Inr]] that out hw Publish_call show ?thesis by simp
    qed
  qed
  define init where "init = ([] :: publications, \<lparr>rw_repo = empty_repo, rw_store = new_store n\<rparr>)"
  have "release_inv cd (fst (fold (release_call_step cd) calls hw)) (snd (fold (release_call_step cd) calls hw))"
    if "release_inv cd (fst hw) (snd hw)" for hw
    using that
  proof (induction calls arbitrary: hw)
    case (Cons c cs)
    from Cons.IH [OF step [OF Cons.prems]] show ?case by simp
  qed simp
  from this [of init] show ?thesis using assms
    by (simp add: release_run_def init_def release_inv_def empty_repo_def new_store_ok)
qed

subsection \<open>What is published\<close>

text \<open>
  C10.  One authorization, one publication, of verified blocks only.  In every run of the service, every
  successful publication used an issued authorization that agrees with a sealed report: the report decided
  to release, in full or with disclosure as authorized, and the allowed blocks are blocks of the candidate (all of them in full).  All
  successful publications under one authorization return the same result; its batch and event are sealed and committed, and the
  public artifact can be read from the store and is the document of exactly the allowed blocks of a candidate with the authorized hash.
\<close>

theorem released_once_and_as_allowed:
  assumes "release_run cd calls n = (hist, w)" "(r, res) \<in> set hist" "\<forall>b. is_sha256_hex (cd_sha cd b)"
  shows "bound_request (hashes cd) r
    \<and> get_authorization (request_key r) (rw_repo w) = Some (rq_authorization r)
    \<and> (\<forall>(r', res')\<in>set hist. request_key r' = request_key r
         \<longrightarrow> res' = res \<and> rq_authorization r' = rq_authorization r \<and> rq_request_sha256 r' = rq_request_sha256 r)
    \<and> committed_result cd r res
    \<and> (\<exists>c held. ca_candidate_sha256 c = ra_candidate_sha256 (rq_authorization r)
         \<and> c_sha (hashes cd) (candidate_doc c) = ca_candidate_sha256 c
         \<and> read_object (cd_sha cd) (t4_tenant_id (rq_authorization r)) ''verification-artifacts''
             (af_object_key (pu_public_artifact res)) (af_byte_size (pu_public_artifact res))
             (af_sha256 (pu_public_artifact res)) (rw_store w) = Inr held
         \<and> cd_sha cd held = c_sha (hashes cd) (public_document c (ra_allowed_block_ids (rq_authorization r))))"
proof -
  have inv: "release_inv cd hist w" by (rule release_run_inv [OF assms(1)])
  then have R: "recorded cd w r' res'" if "(r', res') \<in> set hist" for r' res' using that by (fastforce simp: release_inv_def)
  note rec = R [OF assms(2)]
  then have consumed: "rs_consumed (rw_repo w) (request_key r) = Some (rq_request_sha256 r, res)" by (simp add: recorded_def)
  from rec obtain d where issued: "rs_authorizations (rw_repo w) (request_key r) = Some (rq_authorization r, d)"
    by (auto simp: recorded_def)
  have same: "res' = res \<and> rq_authorization r' = rq_authorization r \<and> rq_request_sha256 r' = rq_request_sha256 r"
    if "(r', res') \<in> set hist" "request_key r' = request_key r" for r' res'
    using R [OF that(1)] consumed issued that(2) by (auto simp: recorded_def)
  from inv consumed have "traced cd hist w (request_key r) res" by (simp add: release_inv_def)
  then obtain r0 where r0: "(r0, res) \<in> set hist" "request_key r0 = request_key r" "committed_result cd r0 res"
    "documents_stored cd r0 (pu_public_artifact res) (rw_store w)" unfolding traced_def by blast
  note eq = same [OF r0(1,2)]
  have bound0: "bound_request (hashes cd) r0" and bound: "bound_request (hashes cd) r"
    using R [OF r0(1)] rec by (simp_all add: recorded_def)
  have "ca_candidate_sha256 (rq_candidate r0) = ca_candidate_sha256 (rq_candidate r)"
    using bound0 bound eq by (simp add: bound_request_def Let_def)
  with r0(2,3) have committed: "committed_result cd r res" by (simp add: committed_result_def)
  let ?d = "public_document (rq_candidate r0) (ra_allowed_block_ids (rq_authorization r0))"
  from r0(4) have "put_document cd r0 ?d ''c12/public'' (rw_store w) = (Inr (pu_public_artifact res), rw_store w)"
    by (simp add: documents_stored_def)
  from put_document_Inr [OF this] obtain obj where put: "put_object (cd_sha cd) (t4_tenant_id (rq_authorization r)) ''verification-artifacts''
      (af_object_key (pu_public_artifact res)) (cd_json cd ?d) (rw_store w) = (Inr obj, rw_store w)"
      "af_byte_size (pu_public_artifact res) = so_byte_size obj" "af_sha256 (pu_public_artifact res) = so_sha256 obj"
    using eq by auto
  from stored_object_read [OF put(1)] assms(3) put(2,3) obtain held where
    "read_object (cd_sha cd) (t4_tenant_id (rq_authorization r)) ''verification-artifacts''
       (af_object_key (pu_public_artifact res)) (af_byte_size (pu_public_artifact res)) (af_sha256 (pu_public_artifact res)) (rw_store w) = Inr held"
    "cd_sha cd held = cd_sha cd (cd_json cd ?d)" by auto
  moreover have "ca_candidate_sha256 (rq_candidate r0) = ra_candidate_sha256 (rq_authorization r)"
    "c_sha (hashes cd) (candidate_doc (rq_candidate r0)) = ca_candidate_sha256 (rq_candidate r0)"
    using bound0 eq by (simp_all add: bound_request_def Let_def)
  moreover have "cd_sha cd (cd_json cd ?d) = c_sha (hashes cd) (public_document (rq_candidate r0) (ra_allowed_block_ids (rq_authorization r)))"
    using eq by (simp add: hashes_def)
  ultimately have "\<exists>c held. ca_candidate_sha256 c = ra_candidate_sha256 (rq_authorization r)
      \<and> c_sha (hashes cd) (candidate_doc c) = ca_candidate_sha256 c
      \<and> read_object (cd_sha cd) (t4_tenant_id (rq_authorization r)) ''verification-artifacts''
          (af_object_key (pu_public_artifact res)) (af_byte_size (pu_public_artifact res))
          (af_sha256 (pu_public_artifact res)) (rw_store w) = Inr held
      \<and> cd_sha cd held = c_sha (hashes cd) (public_document c (ra_allowed_block_ids (rq_authorization r)))"
    by (intro exI [of _ "rq_candidate r0"] exI [of _ held]) simp
  with bound committed issued same show ?thesis by (auto simp: get_authorization_def)
qed

text \<open>
  A publication can be repeated.  When a request that was published comes again while it
  passes the policy, the service returns the same result and changes neither the repository nor the store, whatever happened in between.
\<close>

theorem publication_replayed:
  assumes "release_run cd calls n = (hist, w)" "(r, res) \<in> set hist"
    and "validate_request (hashes cd) r tcx now = Inr ()"
  shows "publish_release cd (Some tcx) now clock r w = (Inr res, w)"
proof -
  have "recorded cd w r res" using release_run_inv [OF assms(1)] assms(2) by (fastforce simp: release_inv_def)
  then obtain d art event where
    "rs_authorizations (rw_repo w) (ra_authorization_id (rq_authorization r)) = Some (rq_authorization r, d)"
    "c_sha (hashes cd) d = c_sha (hashes cd) (full_doc authorization_doc (rq_authorization r))"
    "rs_consumed (rw_repo w) (ra_authorization_id (rq_authorization r)) = Some (rq_request_sha256 r, res)"
    "put_document cd r (public_document (rq_candidate r) (ra_allowed_block_ids (rq_authorization r))) ''c12/public'' (rw_store w)
       = (Inr art, rw_store w)"
    "put_document cd r (event_document r art) ''c12/events'' (rw_store w) = (Inr event, rw_store w)"
    by (auto simp: recorded_def documents_stored_def request_key_def)
  then show ?thesis using assms(3)
    by (simp add: publish_release_def tenant_of_def consume_and_publish_def Let_def)
qed

text \<open>
  Nothing is consumed by a failure.  A publication that raises, for whatever reason, leaves the issued
  authorizations and the record of what was consumed as they were, so that the authorization can still be used.
\<close>

theorem failed_publish_consumes_nothing:
  assumes "publish_release cd ctx now clock r w = (Inl e, w')"
  shows "rw_repo w' = rw_repo w"
  using assms
  by (auto simp: publish_release_def consume_and_publish_def Let_def split: sum.splits prod.splits option.splits if_splits)

subsection \<open>A concrete release\<close>

definition sample_digest :: digest where
  "sample_digest = replicate 64 (CHR ''a'')"

definition sample_codec :: codec where
  "sample_codec = \<lparr>cd_json = (\<lambda>_. [1]), cd_sha = (\<lambda>_. sample_digest), cd_uuid5 = (\<lambda>ns name. ns @ name)\<rparr>"

lemma sample_codec_hex: "is_sha256_hex (cd_sha sample_codec b)"
  by (simp add: sample_codec_def sample_digest_def is_sha256_hex_def is_lower_hex_def char_in_def list_all_iff)

definition sample_block :: "string \<Rightarrow> int \<Rightarrow> block" where
  "sample_block k i =
     \<lparr>bk_block_id = k, bk_block_type = BT_MARKDOWN, bk_ordinal = i, bk_title = None,
      bk_content_schema_version = ''topic3.lecturer-content.v1'', bk_content = [(''body'', DStr k)],
      bk_content_sha256 = sample_digest, bk_dependency_block_ids = [], bk_status = BS_COMPLETE, bk_created_at = 0\<rparr>"

definition sample_candidate :: candidate where
  "sample_candidate =
     \<lparr>ca_candidate_id = ''candidate'', ca_candidate_version = 1, ca_parent_candidate_version = None,
      ca_blueprint_id = ''blueprint'', ca_blueprint_version = ''v1'', ca_blueprint_sha256 = sample_digest,
      ca_resource_type = RT_LECTURER_DOC, ca_status = CS_COMPLETE, ca_blocks = [sample_block ''b0'' 0, sample_block ''b1'' 1],
      ca_provenance = \<lparr>pv_agent = SA_LECTURER, pv_agent_build_version = ''v1'', pv_prompt_bundle_version = ''v1'',
        pv_provider_alias = PA_local, pv_provider_request_ids = []\<rparr>,
      ca_personalization_policy_digest = sample_digest, ca_candidate_sha256 = sample_digest, ca_created_at = 0\<rparr>"

definition sample_artifact :: artifact_ref where
  "sample_artifact = \<lparr>af_object_key = ''r.json'', af_media_type = MT_json, af_content_encoding = CE_identity,
     af_byte_size = 1, af_sha256 = sample_digest, af_created_at = 0\<rparr>"

definition sample_authorization :: authorization where
  "sample_authorization =
     \<lparr>t4_trace_id = replicate 16 (CHR ''a''), t4_tenant_id = ''tenant'', t4_version_cas = 1, t4_record_sha256 = sample_digest,
      t4_created_at = 0, ra_authorization_id = ''auth'', ra_verification_id = ''ver'', ra_report_id = ''rep'',
      ra_candidate_id = ''candidate'', ra_candidate_version = 1, ra_candidate_sha256 = sample_digest,
      ra_release_mode = RM_FULL_WITH_DISCLOSURE, ra_allowed_block_ids = [''b1''], ra_disclosure_codes = [''PARTIAL''],
      ra_report_sha256 = sample_digest, ra_issued_at = 0, ra_expires_at = 1000\<rparr>"

definition sample_report :: report where
  "sample_report =
     \<lparr>t4_trace_id = replicate 16 (CHR ''a''), t4_tenant_id = ''tenant'', t4_version_cas = 1, t4_record_sha256 = sample_digest,
      t4_created_at = 0, vr_report_id = ''rep'', vr_verification_id = ''ver'', vr_candidate_id = ''candidate'',
      vr_candidate_version = 1, vr_candidate_sha256 = sample_digest, vr_knowledge_base_version = ''kb'',
      vr_aggregation_result_id = ''agg'', vr_decision = AD_RELEASE_WITH_DISCLOSURE, vr_claim_verdict_ids = [''v''],
      vr_evidence_chain_manifest_id = ''m'', vr_report_artifact = sample_artifact, vr_report_sha256 = sample_digest,
      vr_policy_version = ''v1'', vr_completed_at = 0\<rparr>"

definition sample_publication :: publication_request where
  "sample_publication =
     \<lparr>rq_authorization = sample_authorization, rq_report = sample_report, rq_candidate = sample_candidate,
      rq_request_document = [(''publication'', expected_document sample_authorization), (''commit_command_id'', DStr ''c''),
        (''idempotency_key_sha256'', DStr ''i'')],
      rq_request_sha256 = sample_digest, rq_subject_ref = ''operator''\<rparr>"

definition sample_tenant :: tenant_context where
  "sample_tenant = \<lparr>cx_tenant_id = ''tenant'', cx_subject_ref = ''operator''\<rparr>"

definition sample_release_calls :: "release_call list" where
  "sample_release_calls =
     [Publish_call (Some sample_tenant) 1 1 sample_publication, Issue_call (Some sample_tenant) 2 sample_authorization None,
      Publish_call None 3 3 sample_publication, Publish_call (Some sample_tenant) 4 4 sample_publication,
      Publish_call (Some sample_tenant) 5 5 sample_publication]"

lemma sample_release_run:
  "map fst (fst (release_run sample_codec sample_release_calls 100)) = [sample_publication, sample_publication]
   \<and> validate_request (hashes sample_codec) sample_publication sample_tenant 6 = Inr ()
   \<and> (case publish_release sample_codec None 3 3 sample_publication (snd (release_run sample_codec sample_release_calls 100)) of
        (Inl _, _) \<Rightarrow> True | _ \<Rightarrow> False)"
  by code_simp

lemma sample_published:
  obtains hist w res where "release_run sample_codec sample_release_calls 100 = (hist, w)" "(sample_publication, res) \<in> set hist"
proof -
  obtain hist w where run: "release_run sample_codec sample_release_calls 100 = (hist, w)" by (rule prod.exhaust)
  with sample_release_run have "sample_publication \<in> fst ` set hist" by (metis fst_conv image_set list.set_intros(1))
  then obtain res where "(sample_publication, res) \<in> set hist" by auto
  with run that show ?thesis by blast
qed

theorem released_once_and_as_allowed_witness:
  "\<exists>hist w res held. release_run sample_codec sample_release_calls 100 = (hist, w) \<and> (sample_publication, res) \<in> set hist
     \<and> bt_state (pu_batch res) = PS_COMMITTED
     \<and> read_object (cd_sha sample_codec) ''tenant'' ''verification-artifacts'' (af_object_key (pu_public_artifact res))
         (af_byte_size (pu_public_artifact res)) (af_sha256 (pu_public_artifact res)) (rw_store w) = Inr held"
proof -
  obtain hist w res where run: "release_run sample_codec sample_release_calls 100 = (hist, w)" "(sample_publication, res) \<in> set hist"
    by (rule sample_published)
  have "\<forall>b. is_sha256_hex (cd_sha sample_codec b)" by (simp add: sample_codec_hex)
  note published = released_once_and_as_allowed [OF run this]
  then obtain held where "read_object (cd_sha sample_codec) ''tenant'' ''verification-artifacts'' (af_object_key (pu_public_artifact res))
      (af_byte_size (pu_public_artifact res)) (af_sha256 (pu_public_artifact res)) (rw_store w) = Inr held"
    by (auto simp: sample_publication_def sample_authorization_def)
  moreover have "bt_state (pu_batch res) = PS_COMMITTED" using published by (simp add: committed_result_def)
  ultimately show ?thesis using run by blast
qed

theorem publication_replayed_witness:
  "\<exists>hist w res. release_run sample_codec sample_release_calls 100 = (hist, w)
     \<and> publish_release sample_codec (Some sample_tenant) 6 7 sample_publication w = (Inr res, w)"
proof -
  obtain hist w res where run: "release_run sample_codec sample_release_calls 100 = (hist, w)" "(sample_publication, res) \<in> set hist"
    by (rule sample_published)
  have "validate_request (hashes sample_codec) sample_publication sample_tenant 6 = Inr ()" using sample_release_run by blast
  from publication_replayed [OF run this] run show ?thesis by blast
qed

theorem failed_publish_consumes_nothing_witness:
  "\<exists>e w w'. publish_release sample_codec None 3 3 sample_publication w = (Inl e, w') \<and> rw_repo w' = rw_repo w"
proof -
  let ?w = "snd (release_run sample_codec sample_release_calls 100)"
  obtain e w' where fail: "publish_release sample_codec None 3 3 sample_publication ?w = (Inl e, w')"
    using sample_release_run by (auto split: prod.splits sum.splits)
  from failed_publish_consumes_nothing [OF fail] fail show ?thesis by blast
qed

end
