(* ===== verification/Revision.thy ===== *)
theory Revision
  imports Release
begin

text \<open>
  C8, the revision of rejected candidates: \<^verbatim>\<open>backend/src/liyans/domains/revision/engine.py\<close> over the tables of
  \<^verbatim>\<open>postgres_repository.py\<close>, with the contracts of \<^verbatim>\<open>topic4_c8.py\<close>.  The caller's transaction and the advisory lock
  make a revision one step; when it raises, the transaction is rolled back, and only the artifact store may have changed.  Parsing
  the JSON of a replacement block into typed fields is a parameter; documents of stored records are the records themselves.
\<close>

datatype revision_error =
    Revision_conflict | Revision_limit | Revision_integrity | Revision_value | Revision_assertion | Revision_contract
  | Revision_database | Revision_context app_error | Revision_artifact artifact_error

subsection \<open>Contracts\<close>

datatype cycle_state = CY_PLANNED | CY_LOCKED | CY_GENERATING | CY_COMPLETED | CY_FAILED | CY_CANCELLED

datatype revision_operation = RO_REPLACE_BLOCK | RO_REMOVE_BLOCK

fun cycle_state_value :: "cycle_state \<Rightarrow> string" where
  "cycle_state_value CY_PLANNED = ''PLANNED''"
| "cycle_state_value CY_LOCKED = ''LOCKED''"
| "cycle_state_value CY_GENERATING = ''GENERATING''"
| "cycle_state_value CY_COMPLETED = ''COMPLETED''"
| "cycle_state_value CY_FAILED = ''FAILED''"
| "cycle_state_value CY_CANCELLED = ''CANCELLED''"

fun revision_operation_value :: "revision_operation \<Rightarrow> string" where
  "revision_operation_value RO_REPLACE_BLOCK = ''REPLACE_BLOCK''"
| "revision_operation_value RO_REMOVE_BLOCK = ''REMOVE_BLOCK''"

record revision_cycle = topic4_record +
  cy_revision_cycle_id :: uuid
  cy_verification_id :: uuid
  cy_parent_verification_id :: uuid
  cy_candidate_id :: uuid
  cy_base_candidate_version :: int
  cy_base_candidate_sha256 :: digest
  cy_revision_round :: int
  cy_state :: cycle_state
  cy_lock_token :: uuid
  cy_lock_owner :: string
  cy_lock_expires_at :: timestamp
  cy_completed_at :: "timestamp option"

definition revision_cycle_doc :: "revision_cycle \<Rightarrow> doc" where
  "revision_cycle_doc y = DObj (header_doc y @
     [(''schema_version'', DStr ''revision-cycle.v1''), (''revision_cycle_id'', DStr (cy_revision_cycle_id y)),
      (''verification_id'', DStr (cy_verification_id y)), (''parent_verification_id'', DStr (cy_parent_verification_id y)),
      (''candidate_id'', DStr (cy_candidate_id y)), (''base_candidate_version'', DInt (cy_base_candidate_version y)),
      (''base_candidate_sha256'', DStr (cy_base_candidate_sha256 y)), (''revision_round'', DInt (cy_revision_round y)),
      (''state'', DStr (cycle_state_value (cy_state y))), (''lock_token'', DStr (cy_lock_token y)),
      (''lock_owner'', DStr (cy_lock_owner y)), (''lock_expires_at'', DTime (cy_lock_expires_at y)),
      (''completed_at'', opt_doc DTime (cy_completed_at y))])"

definition valid_revision_cycle :: "revision_cycle \<Rightarrow> bool" where
  "valid_revision_cycle y \<longleftrightarrow> valid_topic4_record y \<and> 1 \<le> cy_base_candidate_version y
     \<and> is_sha256_hex (cy_base_candidate_sha256 y) \<and> 1 \<le> cy_revision_round y \<and> cy_revision_round y \<le> 2
     \<and> len_between 1 128 (cy_lock_owner y) \<and> \<not> cy_lock_expires_at y \<le> t4_created_at y
     \<and> \<not> (cy_state y = CY_COMPLETED \<and> cy_completed_at y = None)"

record revision_plan = topic4_record +
  rn_revision_plan_id :: uuid
  rn_revision_cycle_id :: uuid
  rn_verification_id :: uuid
  rn_candidate_id :: uuid
  rn_base_candidate_version :: int
  rn_base_candidate_sha256 :: digest
  rn_revision_round :: int
  rn_target_agent :: source_agent
  rn_affected_claim_ids :: "uuid list"
  rn_affected_block_ids :: "string list"
  rn_patch_ids :: "uuid list"
  rn_instructions_artifact :: artifact_ref
  rn_instructions_sha256 :: digest
  rn_prompt_bundle_version :: string

definition revision_plan_doc :: "revision_plan \<Rightarrow> doc" where
  "revision_plan_doc p = DObj (header_doc p @
     [(''schema_version'', DStr ''revision-plan.v1''), (''revision_plan_id'', DStr (rn_revision_plan_id p)),
      (''revision_cycle_id'', DStr (rn_revision_cycle_id p)), (''verification_id'', DStr (rn_verification_id p)),
      (''candidate_id'', DStr (rn_candidate_id p)), (''base_candidate_version'', DInt (rn_base_candidate_version p)),
      (''base_candidate_sha256'', DStr (rn_base_candidate_sha256 p)), (''revision_round'', DInt (rn_revision_round p)),
      (''target_agent'', DStr (source_agent_value (rn_target_agent p))),
      (''affected_claim_ids'', DList (map DStr (rn_affected_claim_ids p))),
      (''affected_block_ids'', DList (map DStr (rn_affected_block_ids p))), (''patch_ids'', DList (map DStr (rn_patch_ids p))),
      (''instructions_artifact'', artifact_ref_doc (rn_instructions_artifact p)),
      (''instructions_sha256'', DStr (rn_instructions_sha256 p)),
      (''prompt_bundle_version'', DStr (rn_prompt_bundle_version p))])"

definition valid_revision_plan :: "revision_plan \<Rightarrow> bool" where
  "valid_revision_plan p \<longleftrightarrow> valid_topic4_record p \<and> 1 \<le> rn_base_candidate_version p
     \<and> is_sha256_hex (rn_base_candidate_sha256 p) \<and> 1 \<le> rn_revision_round p \<and> rn_revision_round p \<le> 2
     \<and> bounded 1 4096 (rn_affected_claim_ids p) \<and> bounded 1 2048 (rn_affected_block_ids p)
     \<and> list_all is_block_id (rn_affected_block_ids p) \<and> bounded 1 2048 (rn_patch_ids p)
     \<and> valid_artifact_ref (rn_instructions_artifact p) \<and> is_sha256_hex (rn_instructions_sha256 p)
     \<and> is_version_string (rn_prompt_bundle_version p)"

record revision_patch = topic4_record +
  rt_revision_patch_id :: uuid
  rt_revision_plan_id :: uuid
  rt_block_id :: string
  rt_operation :: revision_operation
  rt_base_block_sha256 :: digest
  rt_replacement_artifact :: "artifact_ref option"
  rt_replacement_sha256 :: "digest option"
  rt_target_content_schema_version :: string
  rt_reason_claim_ids :: "uuid list"

definition revision_patch_doc :: "revision_patch \<Rightarrow> doc" where
  "revision_patch_doc p = DObj (header_doc p @
     [(''schema_version'', DStr ''revision-patch.v1''), (''revision_patch_id'', DStr (rt_revision_patch_id p)),
      (''revision_plan_id'', DStr (rt_revision_plan_id p)), (''block_id'', DStr (rt_block_id p)),
      (''operation'', DStr (revision_operation_value (rt_operation p))), (''base_block_sha256'', DStr (rt_base_block_sha256 p)),
      (''replacement_artifact'', opt_doc artifact_ref_doc (rt_replacement_artifact p)),
      (''replacement_sha256'', opt_doc DStr (rt_replacement_sha256 p)),
      (''target_content_schema_version'', DStr (rt_target_content_schema_version p)),
      (''reason_claim_ids'', DList (map DStr (rt_reason_claim_ids p)))])"

definition valid_revision_patch :: "revision_patch \<Rightarrow> bool" where
  "valid_revision_patch p \<longleftrightarrow> valid_topic4_record p \<and> is_block_id (rt_block_id p) \<and> is_sha256_hex (rt_base_block_sha256 p)
     \<and> (\<forall>a\<in>set_option (rt_replacement_artifact p). valid_artifact_ref a)
     \<and> (\<forall>d\<in>set_option (rt_replacement_sha256 p). is_sha256_hex d)
     \<and> is_version_string (rt_target_content_schema_version p) \<and> bounded 1 4096 (rt_reason_claim_ids p)
     \<and> (if rt_operation p = RO_REPLACE_BLOCK
         then rt_replacement_artifact p \<noteq> None \<and> rt_replacement_sha256 p \<noteq> None
         else rt_replacement_artifact p = None \<and> rt_replacement_sha256 p = None)"

record revision_request = topic4_record +
  vq_revision_request_id :: uuid
  vq_verification_id :: uuid
  vq_parent_verification_id :: uuid
  vq_original_candidate_id :: uuid
  vq_original_candidate_version :: int
  vq_original_candidate_sha256 :: digest
  vq_target_agent :: source_agent
  vq_revision_round :: int
  vq_block_ids :: "string list"
  vq_claim_ids :: "uuid list"
  vq_instructions_artifact :: artifact_ref
  vq_instructions_sha256 :: digest
  vq_deadline_at :: timestamp

definition valid_revision_request :: "revision_request \<Rightarrow> bool" where
  "valid_revision_request q \<longleftrightarrow> valid_topic4_record q \<and> 1 \<le> vq_original_candidate_version q
     \<and> is_sha256_hex (vq_original_candidate_sha256 q) \<and> 1 \<le> vq_revision_round q \<and> vq_revision_round q \<le> 2
     \<and> bounded 1 2048 (vq_block_ids q) \<and> list_all is_block_id (vq_block_ids q) \<and> bounded 1 4096 (vq_claim_ids q)
     \<and> valid_artifact_ref (vq_instructions_artifact q) \<and> is_sha256_hex (vq_instructions_sha256 q)
     \<and> \<not> vq_deadline_at q \<le> t4_created_at q"

record revision_response = topic4_record +
  vw_revision_response_id :: uuid
  vw_revision_request_id :: uuid
  vw_child_verification_id :: uuid
  vw_revised_candidate_id :: uuid
  vw_revised_candidate_version :: int
  vw_revised_candidate_sha256 :: digest
  vw_changed_block_ids :: "string list"
  vw_response_artifact :: artifact_ref
  vw_response_sha256 :: digest
  vw_completed_at :: timestamp

definition revision_response_doc :: "revision_response \<Rightarrow> doc" where
  "revision_response_doc r = DObj (header_doc r @
     [(''schema_version'', DStr ''revision.response.v1''), (''revision_response_id'', DStr (vw_revision_response_id r)),
      (''revision_request_id'', DStr (vw_revision_request_id r)),
      (''child_verification_id'', DStr (vw_child_verification_id r)),
      (''revised_candidate_id'', DStr (vw_revised_candidate_id r)),
      (''revised_candidate_version'', DInt (vw_revised_candidate_version r)),
      (''revised_candidate_sha256'', DStr (vw_revised_candidate_sha256 r)),
      (''changed_block_ids'', DList (map DStr (vw_changed_block_ids r))),
      (''response_artifact'', artifact_ref_doc (vw_response_artifact r)), (''response_sha256'', DStr (vw_response_sha256 r)),
      (''completed_at'', DTime (vw_completed_at r))])"

definition valid_revision_response :: "revision_response \<Rightarrow> bool" where
  "valid_revision_response r \<longleftrightarrow> valid_topic4_record r \<and> 2 \<le> vw_revised_candidate_version r
     \<and> is_sha256_hex (vw_revised_candidate_sha256 r) \<and> bounded 1 2048 (vw_changed_block_ids r)
     \<and> list_all is_block_id (vw_changed_block_ids r) \<and> valid_artifact_ref (vw_response_artifact r)
     \<and> is_sha256_hex (vw_response_sha256 r) \<and> \<not> vw_completed_at r < t4_created_at r"

interpretation revision_cycle_seal: sealed_document revision_cycle_doc
  by unfold_locales (simp add: revision_cycle_doc_def header_doc_def)

interpretation revision_plan_seal: sealed_document revision_plan_doc
  by unfold_locales (simp add: revision_plan_doc_def header_doc_def)

interpretation revision_patch_seal: sealed_document revision_patch_doc
  by unfold_locales (simp add: revision_patch_doc_def header_doc_def)

interpretation revision_response_seal: sealed_document revision_response_doc
  by unfold_locales (simp add: revision_response_doc_def header_doc_def)

record reverification =
  vc_verification_id :: uuid
  vc_parent_verification_id :: uuid
  vc_candidate_id :: uuid
  vc_candidate_version :: int
  vc_candidate_sha256 :: digest
  vc_revision_round :: int
  vc_trace_id :: string
  vc_tenant_id :: tenant

definition reverification_doc :: "reverification \<Rightarrow> doc" where
  "reverification_doc v = DObj
     [(''schema_version'', DStr ''topic4.reverification.command.v1''), (''verification_id'', DStr (vc_verification_id v)),
      (''parent_verification_id'', DStr (vc_parent_verification_id v)), (''candidate_id'', DStr (vc_candidate_id v)),
      (''candidate_version'', DInt (vc_candidate_version v)), (''candidate_sha256'', DStr (vc_candidate_sha256 v)),
      (''revision_round'', DInt (vc_revision_round v)), (''trace_id'', DStr (vc_trace_id v)),
      (''tenant_id'', DStr (vc_tenant_id v)), (''trigger'', DStr ''REVISION_REVERIFY'')]"

record revision_outcome =
  vo_cycle :: revision_cycle
  vo_plan :: revision_plan
  vo_patches :: "revision_patch list"
  vo_candidate :: candidate_record
  vo_response :: revision_response
  vo_reverification :: reverification

subsection \<open>The tables\<close>

text \<open>The document of a completed cycle, next to the cycle itself.\<close>

record completion =
  vk_revision_request_id :: uuid
  vk_plan :: revision_plan
  vk_patches :: "revision_patch list"
  vk_candidate :: candidate
  vk_response :: revision_response
  vk_reverification :: reverification

record revision_db =
  rd_cycles :: "(tenant \<times> revision_cycle \<times> completion option) list"
  rd_plans :: "(tenant \<times> revision_plan) list"
  rd_patches :: "(tenant \<times> revision_patch) list"
  rd_candidates :: "(tenant \<times> candidate_record) list"

definition find_completed_request :: "tenant \<Rightarrow> uuid \<Rightarrow> revision_db \<Rightarrow> (revision_cycle \<times> completion) option" where
  "find_completed_request tenant_id request_id db =
     (case sort_key (\<lambda>(y, _). - t4_version_cas y)
             (List.map_filter (\<lambda>(t, y, k). case k of None \<Rightarrow> None
                | Some k' \<Rightarrow> if t = tenant_id \<and> cy_state y = CY_COMPLETED \<and> vk_revision_request_id k' = request_id
                            then Some (y, k') else None) (rd_cycles db)) of
        [] \<Rightarrow> None | row # _ \<Rightarrow> Some row)"

definition snapshot_id :: "hash_env \<Rightarrow> revision_cycle \<Rightarrow> uuid" where
  "snapshot_id h y = c_uuid5 h (cy_revision_cycle_id y) (''cycle-snapshot:'' @ str_of_int (t4_version_cas y))"

text \<open>Inserts fail when a unique key is taken or, for a cycle, when its base candidate is not stored.\<close>

definition append_cycle ::
  "hash_env \<Rightarrow> tenant \<Rightarrow> revision_cycle \<Rightarrow> completion option \<Rightarrow> revision_db \<Rightarrow> revision_error + revision_db" where
  "append_cycle h tenant_id y k db =
     (if list_ex (\<lambda>(t, y', _). snapshot_id h y' = snapshot_id h y
          \<or> t = tenant_id \<and> t4_version_cas y' = t4_version_cas y
             \<and> (cy_revision_cycle_id y' = cy_revision_cycle_id y
                \<or> cy_verification_id y' = cy_verification_id y \<and> cy_revision_round y' = cy_revision_round y)) (rd_cycles db)
         \<or> \<not> list_ex (\<lambda>(t, c). t = tenant_id \<and> ca_candidate_id (cn_candidate c) = cy_candidate_id y
              \<and> ca_candidate_version (cn_candidate c) = cy_base_candidate_version y) (rd_candidates db)
      then Inl Revision_database
      else Inr (db\<lparr>rd_cycles := rd_cycles db @ [(tenant_id, y, k)]\<rparr>))"

definition append_plan :: "hash_env \<Rightarrow> tenant \<Rightarrow> revision_plan \<Rightarrow> revision_db \<Rightarrow> revision_error + revision_db" where
  "append_plan h tenant_id p db =
     (if list_ex (\<lambda>(t, p'). c_uuid5 h (rn_revision_plan_id p') ''plan-record'' = c_uuid5 h (rn_revision_plan_id p) ''plan-record''
          \<or> t = tenant_id \<and> (rn_revision_plan_id p' = rn_revision_plan_id p
             \<or> rn_revision_cycle_id p' = rn_revision_cycle_id p \<and> t4_version_cas p' = t4_version_cas p)) (rd_plans db)
      then Inl Revision_database
      else Inr (db\<lparr>rd_plans := rd_plans db @ [(tenant_id, p)]\<rparr>))"

definition append_patch :: "hash_env \<Rightarrow> tenant \<Rightarrow> revision_patch \<Rightarrow> revision_db \<Rightarrow> revision_error + revision_db" where
  "append_patch h tenant_id p db =
     (if list_ex (\<lambda>(t, p'). c_uuid5 h (rt_revision_patch_id p') ''patch-record'' = c_uuid5 h (rt_revision_patch_id p) ''patch-record''
          \<or> t = tenant_id \<and> (rt_revision_patch_id p' = rt_revision_patch_id p
             \<or> rt_revision_plan_id p' = rt_revision_plan_id p \<and> rt_block_id p' = rt_block_id p)) (rd_patches db)
      then Inl Revision_database
      else Inr (db\<lparr>rd_patches := rd_patches db @ [(tenant_id, p)]\<rparr>))"

fun append_patches :: "hash_env \<Rightarrow> tenant \<Rightarrow> revision_patch list \<Rightarrow> revision_db \<Rightarrow> revision_error + revision_db" where
  "append_patches h tenant_id [] db = Inr db"
| "append_patches h tenant_id (p # ps) db = rbind (append_patch h tenant_id p db) (append_patches h tenant_id ps)"

definition append_candidate :: "tenant \<Rightarrow> candidate_record \<Rightarrow> revision_db \<Rightarrow> revision_error + revision_db" where
  "append_candidate tenant_id r db =
     (if list_ex (\<lambda>(t, r'). cn_candidate_record_id r' = cn_candidate_record_id r
          \<or> t = tenant_id \<and> ca_candidate_id (cn_candidate r') = ca_candidate_id (cn_candidate r)
             \<and> ca_candidate_version (cn_candidate r') = ca_candidate_version (cn_candidate r)) (rd_candidates db)
      then Inl Revision_database
      else Inr (db\<lparr>rd_candidates := rd_candidates db @ [(tenant_id, r)]\<rparr>))"

subsection \<open>The checks\<close>

definition validate_request_binding :: "tenant \<Rightarrow> revision_request \<Rightarrow> candidate \<Rightarrow> timestamp \<Rightarrow> revision_error + unit" where
  "validate_request_binding tenant_id q c now =
     rbind (guard (t4_tenant_id q = tenant_id) Revision_integrity) (\<lambda>_.
     rbind (guard (vq_original_candidate_id q = ca_candidate_id c) Revision_conflict) (\<lambda>_.
     rbind (guard (vq_original_candidate_version q = ca_candidate_version c) Revision_conflict) (\<lambda>_.
     rbind (guard (vq_original_candidate_sha256 q = ca_candidate_sha256 c) Revision_integrity) (\<lambda>_.
     rbind (guard (vq_target_agent q = pv_agent (ca_provenance c)) Revision_integrity) (\<lambda>_.
     rbind (guard (\<not> vq_deadline_at q \<le> now) Revision_conflict) (\<lambda>_.
     guard (ca_status c = CS_COMPLETE) Revision_conflict))))))"

definition validate_round_budget :: "revision_request \<Rightarrow> candidate \<Rightarrow> revision_error + unit" where
  "validate_round_budget q c =
     rbind (guard (vq_revision_round q = ca_candidate_version c) Revision_conflict) (\<lambda>_.
     guard (\<not> 2 < vq_revision_round q) Revision_limit)"

definition validate_patch_set :: "revision_request \<Rightarrow> revision_patch list \<Rightarrow> revision_error + unit" where
  "validate_patch_set q patches =
     rbind (guard (patches \<noteq> []) Revision_integrity) (\<lambda>_.
     rbind (guard (distinct (map rt_block_id patches)) Revision_integrity) (\<lambda>_.
     rbind (guard (set (map rt_block_id patches) = set (vq_block_ids q)) Revision_integrity) (\<lambda>_.
     guard (list_all (\<lambda>p. t4_tenant_id p = t4_tenant_id q \<and> t4_trace_id p = t4_trace_id q
         \<and> rt_revision_plan_id p = rt_revision_plan_id (hd patches)
         \<and> set (rt_reason_claim_ids p) \<subseteq> set (vq_claim_ids q)) patches) Revision_integrity)))"

definition lift_artifact :: "artifact_error + 'a \<Rightarrow> revision_error + 'a" where
  "lift_artifact r = (case r of Inl e \<Rightarrow> Inl (Revision_artifact e) | Inr x \<Rightarrow> Inr x)"

definition read_artifact :: "codec \<Rightarrow> tenant \<Rightarrow> artifact_ref \<Rightarrow> artifact_store \<Rightarrow> revision_error + bytes" where
  "read_artifact cd tenant_id a store = lift_artifact
     (read_object (cd_sha cd) tenant_id ''verification-artifacts'' (af_object_key a) (af_byte_size a) (af_sha256 a) store)"

definition verify_artifact :: "codec \<Rightarrow> tenant \<Rightarrow> artifact_ref \<Rightarrow> digest \<Rightarrow> artifact_store \<Rightarrow> revision_error + unit" where
  "verify_artifact cd tenant_id a expected store =
     rbind (guard (af_sha256 a = expected) Revision_integrity) (\<lambda>_.
     rbind (read_artifact cd tenant_id a store) (\<lambda>_. Inr ()))"

definition validate_replacement_block :: "block \<Rightarrow> block \<Rightarrow> revision_patch \<Rightarrow> revision_error + unit" where
  "validate_replacement_block base new p =
     rbind (guard (bk_block_id new = bk_block_id base \<and> bk_block_type new = bk_block_type base) Revision_integrity) (\<lambda>_.
     rbind (guard (bk_content_schema_version new = rt_target_content_schema_version p) Revision_integrity) (\<lambda>_.
     rbind (guard (bk_content_schema_version new = bk_content_schema_version base) Revision_integrity) (\<lambda>_.
     rbind (guard (map_of block_schema_types (bk_content_schema_version new) = Some (bk_block_type new)) Revision_integrity) (\<lambda>_.
     rbind (case map_of content_models (bk_content_schema_version new) of
              None \<Rightarrow> Inl Revision_integrity | Some model \<Rightarrow> guard (model (bk_content new)) Revision_integrity) (\<lambda>_.
     rbind (guard (rt_replacement_sha256 p = Some (bk_content_sha256 new)) Revision_integrity) (\<lambda>_.
     guard (bk_dependency_block_ids new = bk_dependency_block_ids base) Revision_integrity))))))"

definition load_replacement ::
  "codec \<Rightarrow> (bytes \<Rightarrow> block option) \<Rightarrow> tenant \<Rightarrow> artifact_store \<Rightarrow> candidate \<Rightarrow> revision_patch
     \<Rightarrow> revision_error + (string \<times> block) option" where
  "load_replacement cd parse tenant_id store c p =
     (case dict_by bk_block_id (ca_blocks c) (rt_block_id p) of
        None \<Rightarrow> Inl Revision_conflict
      | Some base \<Rightarrow>
          if bk_content_sha256 base \<noteq> rt_base_block_sha256 p then Inl Revision_conflict
          else if rt_operation p = RO_REMOVE_BLOCK
          then rbind (guard (bk_status base \<in> {BS_FAILED, BS_SUPERSEDED}) Revision_integrity) (\<lambda>_.
               rbind (guard (\<not> list_ex (\<lambda>other. rt_block_id p \<in> set (bk_dependency_block_ids other)) (ca_blocks c))
                   Revision_integrity) (\<lambda>_. Inr None))
          else (case (rt_replacement_artifact p, rt_replacement_sha256 p) of
                  (Some a, Some _) \<Rightarrow>
                    rbind (read_artifact cd tenant_id a store) (\<lambda>raw.
                    case parse raw of
                      None \<Rightarrow> Inl Revision_integrity
                    | Some new \<Rightarrow>
                        if \<not> valid_block (hashes cd) new then Inl Revision_integrity
                        else rbind (validate_replacement_block base new p) (\<lambda>_. Inr (Some (rt_block_id p, new))))
                | _ \<Rightarrow> Inl Revision_assertion))"

definition load_replacement_blocks ::
  "codec \<Rightarrow> (bytes \<Rightarrow> block option) \<Rightarrow> tenant \<Rightarrow> artifact_store \<Rightarrow> candidate \<Rightarrow> revision_patch list
     \<Rightarrow> revision_error + (string \<times> block) list" where
  "load_replacement_blocks cd parse tenant_id store c patches =
     rbind (map_ok (load_replacement cd parse tenant_id store c) patches) (\<lambda>found. Inr (List.map_filter id found))"

subsection \<open>The revised candidate\<close>

definition revise_block ::
  "revision_patch list \<Rightarrow> (string \<times> block) list \<Rightarrow> timestamp \<Rightarrow> block \<Rightarrow> block list \<Rightarrow> block list" where
  "revise_block patches replacements now b blocks =
     (if (case dict_by rt_block_id patches (bk_block_id b) of Some p \<Rightarrow> rt_operation p = RO_REMOVE_BLOCK | None \<Rightarrow> False)
      then blocks
      else blocks @ [(case map_of replacements (bk_block_id b) of Some new \<Rightarrow> new | None \<Rightarrow> b)
             \<lparr>bk_ordinal := int (length blocks), bk_title := bk_title b,
              bk_dependency_block_ids := bk_dependency_block_ids b, bk_status := BS_COMPLETE, bk_created_at := now\<rparr>])"

definition build_candidate ::
  "hash_env \<Rightarrow> candidate \<Rightarrow> revision_patch list \<Rightarrow> (string \<times> block) list \<Rightarrow> timestamp \<Rightarrow> revision_error + candidate" where
  "build_candidate h c patches replacements now =
     (let blocks = fold (revise_block patches replacements now) (ca_blocks c) []
      in if blocks = [] then Inl Revision_integrity
         else let draft = c\<lparr>ca_candidate_version := ca_candidate_version c + 1,
                    ca_parent_candidate_version := Some (ca_candidate_version c), ca_status := CS_COMPLETE,
                    ca_blocks := blocks, ca_created_at := now, ca_candidate_sha256 := replicate 64 (CHR ''0'')\<rparr>;
                  revised = draft\<lparr>ca_candidate_sha256 := c_sha h (candidate_doc draft)\<rparr>
              in if valid_candidate h revised then Inr revised else Inl Revision_contract)"

subsection \<open>The engine\<close>

record revision_engine =
  ve_codec :: codec
  ve_parse :: "bytes \<Rightarrow> block option"
  ve_lock_ttl :: int

definition valid_engine :: "revision_engine \<Rightarrow> bool" where
  "valid_engine e \<longleftrightarrow> 1000000 \<le> ve_lock_ttl e \<and> ve_lock_ttl e \<le> 3600 * 1000000"

text \<open>The arguments of \<^verbatim>\<open>revise\<close>; the token of the lock is the \<^verbatim>\<open>uuid4\<close> that the call draws.\<close>

record revision_call =
  vv_tenant_id :: tenant
  vv_request :: revision_request
  vv_candidate :: candidate
  vv_patches :: "revision_patch list"
  vv_lock_owner :: string
  vv_prompt_bundle_version :: string
  vv_lock_token :: uuid
  vv_now :: timestamp

definition revise_checks :: "tenant option \<Rightarrow> revision_call \<Rightarrow> revision_error + unit" where
  "revise_checks ctx call =
     rbind (case assert_tenant ctx (vv_tenant_id call) of Inl e \<Rightarrow> Inl (Revision_context e) | Inr _ \<Rightarrow> Inr ()) (\<lambda>_.
     rbind (guard (len_between 1 128 (vv_lock_owner call)) Revision_value) (\<lambda>_.
     rbind (guard (vv_prompt_bundle_version call \<noteq> []) Revision_value) (\<lambda>_.
     rbind (validate_request_binding (vv_tenant_id call) (vv_request call) (vv_candidate call) (vv_now call)) (\<lambda>_.
     validate_patch_set (vv_request call) (vv_patches call)))))"

definition lift_sealed :: "contract_error + 'a \<Rightarrow> revision_error + 'a" where
  "lift_sealed r = (case r of Inl _ \<Rightarrow> Inl Revision_contract | Inr x \<Rightarrow> Inr x)"

definition cycle_id_of :: "hash_env \<Rightarrow> revision_request \<Rightarrow> uuid" where
  "cycle_id_of h q = c_uuid5 h (vq_revision_request_id q) ''topic4-c8-cycle''"

definition make_cycle ::
  "revision_engine \<Rightarrow> revision_call \<Rightarrow> cycle_state \<Rightarrow> int \<Rightarrow> timestamp option \<Rightarrow> revision_error + revision_cycle" where
  "make_cycle e call state version completed_at =
     (let h = hashes (ve_codec e); q = vv_request call; c = vv_candidate call
      in lift_sealed (build_topic4_record h revision_cycle_doc valid_revision_cycle
        \<lparr>t4_trace_id = t4_trace_id q, t4_tenant_id = t4_tenant_id q, t4_version_cas = version, t4_record_sha256 = [],
         t4_created_at = vv_now call, cy_revision_cycle_id = cycle_id_of h q, cy_verification_id = vq_verification_id q,
         cy_parent_verification_id = vq_parent_verification_id q, cy_candidate_id = ca_candidate_id c,
         cy_base_candidate_version = ca_candidate_version c, cy_base_candidate_sha256 = ca_candidate_sha256 c,
         cy_revision_round = vq_revision_round q, cy_state = state, cy_lock_token = vv_lock_token call,
         cy_lock_owner = vv_lock_owner call, cy_lock_expires_at = vv_now call + ve_lock_ttl e,
         cy_completed_at = completed_at\<rparr>))"

definition make_plan :: "revision_engine \<Rightarrow> revision_call \<Rightarrow> revision_error + revision_plan" where
  "make_plan e call =
     (let h = hashes (ve_codec e); q = vv_request call; c = vv_candidate call; cycle_id = cycle_id_of h q
      in lift_sealed (build_topic4_record h revision_plan_doc valid_revision_plan
        \<lparr>t4_trace_id = t4_trace_id q, t4_tenant_id = vv_tenant_id call, t4_version_cas = 1, t4_record_sha256 = [],
         t4_created_at = vv_now call, rn_revision_plan_id = c_uuid5 h cycle_id ''topic4-c8-plan'',
         rn_revision_cycle_id = cycle_id, rn_verification_id = vq_verification_id q, rn_candidate_id = ca_candidate_id c,
         rn_base_candidate_version = ca_candidate_version c, rn_base_candidate_sha256 = ca_candidate_sha256 c,
         rn_revision_round = vq_revision_round q, rn_target_agent = vq_target_agent q,
         rn_affected_claim_ids = sort (vq_claim_ids q), rn_affected_block_ids = sort (vq_block_ids q),
         rn_patch_ids = map rt_revision_patch_id (vv_patches call),
         rn_instructions_artifact = vq_instructions_artifact q, rn_instructions_sha256 = vq_instructions_sha256 q,
         rn_prompt_bundle_version = vv_prompt_bundle_version call\<rparr>))"

definition record_of :: "revision_engine \<Rightarrow> candidate \<Rightarrow> timestamp \<Rightarrow> candidate_record" where
  "record_of e c frozen_at =
     \<lparr>cn_candidate_record_id = c_uuid5 (hashes (ve_codec e)) (ca_candidate_id c)
        (''candidate-record-v'' @ str_of_int (ca_candidate_version c)), cn_candidate = c, cn_frozen_at = frozen_at\<rparr>"

definition reverification_of :: "revision_engine \<Rightarrow> revision_call \<Rightarrow> candidate \<Rightarrow> reverification" where
  "reverification_of e call c =
     (let q = vv_request call
      in \<lparr>vc_verification_id = c_uuid5 (hashes (ve_codec e)) (vq_verification_id q)
            (''topic4-c8-reverify:'' @ str_of_int (ca_candidate_version c) @ '':'' @ ca_candidate_sha256 c),
          vc_parent_verification_id = vq_verification_id q, vc_candidate_id = ca_candidate_id c,
          vc_candidate_version = ca_candidate_version c, vc_candidate_sha256 = ca_candidate_sha256 c,
          vc_revision_round = vq_revision_round q, vc_trace_id = t4_trace_id q, vc_tenant_id = vv_tenant_id call\<rparr>)"

text \<open>Everything up to the new candidate's row; it reads the store and changes the tables only.\<close>

definition prepare_revision ::
  "revision_engine \<Rightarrow> revision_call \<Rightarrow> revision_db \<Rightarrow> artifact_store
     \<Rightarrow> revision_error + (revision_plan \<times> candidate_record \<times> revision_db)" where
  "prepare_revision e call db store =
     (let cd = ve_codec e; h = hashes cd; t = vv_tenant_id call; q = vv_request call; c = vv_candidate call;
          patches = vv_patches call
      in rbind (validate_round_budget q c) (\<lambda>_.
         rbind (verify_artifact cd t (vq_instructions_artifact q) (vq_instructions_sha256 q) store) (\<lambda>_.
         rbind (load_replacement_blocks cd (ve_parse e) t store c patches) (\<lambda>replacements.
         rbind (build_candidate h c patches replacements (vv_now call)) (\<lambda>revised.
         rbind (make_cycle e call CY_LOCKED 1 None) (\<lambda>locked.
         rbind (append_cycle h t locked None db) (\<lambda>db1.
         rbind (make_plan e call) (\<lambda>plan.
         rbind (guard (list_all (\<lambda>p. rt_revision_plan_id p = rn_revision_plan_id plan) patches) Revision_integrity) (\<lambda>_.
         rbind (append_plan h t plan db1) (\<lambda>db2.
         rbind (append_patches h t patches db2) (\<lambda>db3.
         rbind (make_cycle e call CY_GENERATING 2 None) (\<lambda>generating.
         rbind (append_cycle h t generating None db3) (\<lambda>db4.
         rbind (append_candidate t (record_of e revised (vv_now call)) db4) (\<lambda>db5.
         Inr (plan, record_of e revised (vv_now call), db5)))))))))))))))"

definition response_payload ::
  "revision_call \<Rightarrow> candidate_record \<Rightarrow> revision_plan \<Rightarrow> reverification \<Rightarrow> doc" where
  "response_payload call r plan v = DObj
     [(''schema_version'', DStr ''topic4.revision-response-artifact.v1''),
      (''revision_request_id'', DStr (vq_revision_request_id (vv_request call))),
      (''plan'', full_doc revision_plan_doc plan), (''patches'', DList (map (full_doc revision_patch_doc) (vv_patches call))),
      (''candidate'', full_candidate_doc (cn_candidate r)), (''reverification'', reverification_doc v)]"

definition build_response ::
  "revision_engine \<Rightarrow> revision_call \<Rightarrow> candidate_record \<Rightarrow> revision_plan \<Rightarrow> reverification \<Rightarrow> artifact_store
     \<Rightarrow> (revision_error + revision_response) \<times> artifact_store" where
  "build_response e call r plan v store =
     (let cd = ve_codec e; c = cn_candidate r; q = vv_request call;
          content = cd_json cd (response_payload call r plan v); digest = cd_sha cd content;
          object_key = ''c8/revisions/'' @ ca_candidate_id c @ ''/'' @ str_of_int (ca_candidate_version c) @ ''/'' @ digest @ ''.json''
      in case put_object (cd_sha cd) (vv_tenant_id call) ''verification-artifacts'' object_key content store of
           (Inl err, store') \<Rightarrow> (Inl (Revision_artifact err), store')
         | (Inr stored, store') \<Rightarrow>
             (if so_sha256 stored \<noteq> digest \<or> so_byte_size stored \<noteq> int (length content) then Inl Revision_integrity
              else let artifact = \<lparr>af_object_key = so_object_key stored, af_media_type = MT_json,
                         af_content_encoding = CE_identity, af_byte_size = so_byte_size stored, af_sha256 = so_sha256 stored,
                         af_created_at = vv_now call\<rparr>
                   in if \<not> valid_artifact_ref artifact then Inl Revision_contract
                      else lift_sealed (build_topic4_record (hashes cd) revision_response_doc valid_revision_response
                        \<lparr>t4_trace_id = t4_trace_id q, t4_tenant_id = vv_tenant_id call, t4_version_cas = vq_revision_round q,
                         t4_record_sha256 = [], t4_created_at = vv_now call,
                         vw_revision_response_id = c_uuid5 (hashes cd) (vq_revision_request_id q) ''topic4-c8-response'',
                         vw_revision_request_id = vq_revision_request_id q, vw_child_verification_id = vc_verification_id v,
                         vw_revised_candidate_id = ca_candidate_id c, vw_revised_candidate_version = ca_candidate_version c,
                         vw_revised_candidate_sha256 = ca_candidate_sha256 c,
                         vw_changed_block_ids = sorted_set (map rt_block_id (vv_patches call)),
                         vw_response_artifact = artifact, vw_response_sha256 = so_sha256 stored,
                         vw_completed_at = vv_now call\<rparr>),
              store'))"

definition completion_of ::
  "revision_call \<Rightarrow> candidate_record \<Rightarrow> revision_plan \<Rightarrow> reverification \<Rightarrow> revision_response \<Rightarrow> completion" where
  "completion_of call r plan v response =
     \<lparr>vk_revision_request_id = vq_revision_request_id (vv_request call), vk_plan = plan, vk_patches = vv_patches call,
      vk_candidate = cn_candidate r, vk_response = response, vk_reverification = v\<rparr>"

definition replay_outcome :: "revision_engine \<Rightarrow> revision_cycle \<times> completion \<Rightarrow> revision_error + revision_outcome" where
  "replay_outcome e row =
     (let h = hashes (ve_codec e); (y, k) = row
      in if \<not> (valid_revision_plan (vk_plan k) \<and> list_all valid_revision_patch (vk_patches k)
               \<and> valid_candidate h (vk_candidate k) \<and> valid_revision_response (vk_response k))
         then Inl Revision_integrity
         else if \<not> valid_revision_cycle y then Inl Revision_contract
         else if \<not> (record_integrity_valid h revision_cycle_doc y \<and> record_integrity_valid h revision_plan_doc (vk_plan k)
               \<and> list_all (record_integrity_valid h revision_patch_doc) (vk_patches k)
               \<and> record_integrity_valid h revision_response_doc (vk_response k))
         then Inl Revision_integrity
         else Inr \<lparr>vo_cycle = y, vo_plan = vk_plan k, vo_patches = vk_patches k,
                   vo_candidate = record_of e (vk_candidate k) (ca_created_at (vk_candidate k)),
                   vo_response = vk_response k, vo_reverification = vk_reverification k\<rparr>)"

definition revise ::
  "revision_engine \<Rightarrow> tenant option \<Rightarrow> revision_call \<Rightarrow> revision_db \<Rightarrow> artifact_store
     \<Rightarrow> (revision_error + revision_outcome \<times> revision_db) \<times> artifact_store" where
  "revise e ctx call db store =
     (let h = hashes (ve_codec e); t = vv_tenant_id call; q = vv_request call
      in case revise_checks ctx call of
           Inl err \<Rightarrow> (Inl err, store)
         | Inr _ \<Rightarrow>
             (case find_completed_request t (vq_revision_request_id q) db of
                Some row \<Rightarrow> (rbind (replay_outcome e row) (\<lambda>outcome. Inr (outcome, db)), store)
              | None \<Rightarrow>
                  (case prepare_revision e call db store of
                     Inl err \<Rightarrow> (Inl err, store)
                   | Inr (plan, r, db5) \<Rightarrow>
                       let v = reverification_of e call (cn_candidate r)
                       in (case build_response e call r plan v store of
                             (Inl err, store') \<Rightarrow> (Inl err, store')
                           | (Inr response, store') \<Rightarrow>
                               (rbind (make_cycle e call CY_COMPLETED 3 (Some (vv_now call))) (\<lambda>completed.
                                rbind (append_cycle h t completed (Some (completion_of call r plan v response)) db5) (\<lambda>db6.
                                Inr (\<lparr>vo_cycle = completed, vo_plan = plan, vo_patches = vv_patches call, vo_candidate = r,
                                      vo_response = response, vo_reverification = v\<rparr>, db6))), store')))))"

subsection \<open>What a revision changes\<close>

text \<open>The patch that names a block, if there is one, and the blocks that a list of patches removes.\<close>

definition removes :: "revision_patch list \<Rightarrow> block \<Rightarrow> bool" where
  "removes patches b \<longleftrightarrow> (\<exists>p\<in>set patches. rt_block_id p = bk_block_id b \<and> rt_operation p = RO_REMOVE_BLOCK)"

definition renewed :: "(string \<times> block) list \<Rightarrow> timestamp \<Rightarrow> nat \<times> block \<Rightarrow> block" where
  "renewed replacements now ib =
     (case map_of replacements (bk_block_id (snd ib)) of Some new \<Rightarrow> new | None \<Rightarrow> snd ib)
       \<lparr>bk_ordinal := int (fst ib), bk_title := bk_title (snd ib),
        bk_dependency_block_ids := bk_dependency_block_ids (snd ib), bk_status := BS_COMPLETE, bk_created_at := now\<rparr>"

lemma revise_blocks_map:
  assumes "distinct (map rt_block_id patches)"
  shows "fold (revise_block patches replacements now) bs acc
    = acc @ map (renewed replacements now) (enumerate (length acc) (filter (\<lambda>b. \<not> removes patches b) bs))"
proof (induction bs arbitrary: acc)
  case (Cons b bs)
  have removed: "(case dict_by rt_block_id patches (bk_block_id b) of Some p \<Rightarrow> rt_operation p = RO_REMOVE_BLOCK | None \<Rightarrow> False)
      \<longleftrightarrow> removes patches b"
  proof (cases "dict_by rt_block_id patches (bk_block_id b)")
    case None
    then have "bk_block_id b \<notin> rt_block_id ` set patches" using dom_dict_by [of rt_block_id patches] by (metis domIff)
    with None show ?thesis by (auto simp: removes_def image_iff)
  next
    case (Some p)
    from dict_by_SomeD [OF this] have p: "p \<in> set patches" "rt_block_id p = bk_block_id b" by simp_all
    with assms have only: "q = p" if "q \<in> set patches" "rt_block_id q = bk_block_id b" for q
      using that by (metis distinct_map inj_onD)
    have "removes patches b \<longleftrightarrow> rt_operation p = RO_REMOVE_BLOCK" unfolding removes_def using p only by blast
    with Some show ?thesis by simp
  qed
  show ?case
  proof (cases "removes patches b")
    case True
    with removed have "revise_block patches replacements now b acc = acc" unfolding revise_block_def by (simp only: if_True)
    with True Cons.IH [of acc] show ?thesis by simp
  next
    case False
    with removed have "revise_block patches replacements now b acc = acc @ [renewed replacements now (length acc, b)]"
      unfolding revise_block_def renewed_def by (simp only: if_False fst_conv snd_conv)
    with False Cons.IH [of "acc @ [renewed replacements now (length acc, b)]"] show ?thesis by simp
  qed
qed simp

lemma build_candidate_Inr:
  assumes "build_candidate h c patches replacements now = Inr c'" "distinct (map rt_block_id patches)"
  shows "valid_candidate h c' \<and> ca_candidate_id c' = ca_candidate_id c \<and> ca_candidate_version c' = ca_candidate_version c + 1
    \<and> ca_provenance c' = ca_provenance c \<and> ca_resource_type c' = ca_resource_type c \<and> ca_created_at c' = now
    \<and> ca_blocks c' = map (renewed replacements now) (enumerate 0 (filter (\<lambda>b. \<not> removes patches b) (ca_blocks c)))"
  using assms(1) revise_blocks_map [OF assms(2), of replacements now "ca_blocks c" "[]"]
  by (auto simp: build_candidate_def Let_def split: if_splits)

text \<open>What a loaded replacement has been checked for.\<close>

lemma load_replacement_Inr:
  assumes "load_replacement cd parse t store c p = Inr x"
  shows "\<exists>base. base \<in> set (ca_blocks c) \<and> bk_block_id base = rt_block_id p \<and> bk_content_sha256 base = rt_base_block_sha256 p
    \<and> (case x of
         None \<Rightarrow> rt_operation p = RO_REMOVE_BLOCK \<and> bk_status base \<noteq> BS_COMPLETE
           \<and> (\<forall>b\<in>set (ca_blocks c). rt_block_id p \<notin> set (bk_dependency_block_ids b))
       | Some (k, new) \<Rightarrow> rt_operation p = RO_REPLACE_BLOCK \<and> k = rt_block_id p \<and> bk_block_id new = rt_block_id p
           \<and> bk_block_type new = bk_block_type base \<and> bk_content_schema_version new = bk_content_schema_version base
           \<and> rt_replacement_sha256 p = Some (bk_content_sha256 new) \<and> valid_block (hashes cd) new
           \<and> (\<exists>model. map_of content_models (bk_content_schema_version new) = Some model \<and> model (bk_content new)))"
proof -
  from assms obtain base where base: "dict_by bk_block_id (ca_blocks c) (rt_block_id p) = Some base"
    by (auto simp: load_replacement_def split: option.splits)
  note found = dict_by_SomeD [OF this]
  show ?thesis
  proof (cases "rt_operation p")
    case RO_REMOVE_BLOCK
    with assms base have "x = None \<and> bk_content_sha256 base = rt_base_block_sha256 p \<and> bk_status base \<noteq> BS_COMPLETE
        \<and> (\<forall>b\<in>set (ca_blocks c). rt_block_id p \<notin> set (bk_dependency_block_ids b))"
      by (auto simp: load_replacement_def rbind_Inr_iff guard_Inr_iff list_ex_iff split: if_splits)
    with found RO_REMOVE_BLOCK show ?thesis by (intro exI [of _ base]) simp
  next
    case RO_REPLACE_BLOCK
    with assms base have "bk_content_sha256 base = rt_base_block_sha256 p"
      by (auto simp: load_replacement_def split: if_splits)
    moreover from assms base RO_REPLACE_BLOCK this obtain new where "x = Some (rt_block_id p, new)" "valid_block (hashes cd) new"
      "validate_replacement_block base new p = Inr ()"
      by (auto simp: load_replacement_def rbind_Inr_iff split: option.splits if_splits)
    ultimately show ?thesis using found RO_REPLACE_BLOCK
      by (intro exI [of _ base])
        (auto simp: validate_replacement_block_def rbind_Inr_iff guard_Inr_iff split: option.splits)
  qed
qed

lemma append_frames:
  "append_cycle h t y k db = Inr db' \<Longrightarrow> db' = db\<lparr>rd_cycles := rd_cycles db @ [(t, y, k)]\<rparr>"
  "append_plan h t p db = Inr db' \<Longrightarrow> rd_cycles db' = rd_cycles db \<and> rd_candidates db' = rd_candidates db"
  "append_patches h t ps db = Inr db' \<Longrightarrow> rd_cycles db' = rd_cycles db \<and> rd_candidates db' = rd_candidates db"
proof -
  show "append_cycle h t y k db = Inr db' \<Longrightarrow> db' = db\<lparr>rd_cycles := rd_cycles db @ [(t, y, k)]\<rparr>"
    by (auto simp: append_cycle_def split: if_splits)
  show "append_plan h t p db = Inr db' \<Longrightarrow> rd_cycles db' = rd_cycles db \<and> rd_candidates db' = rd_candidates db"
    by (auto simp: append_plan_def split: if_splits)
  show "append_patches h t ps db = Inr db' \<Longrightarrow> rd_cycles db' = rd_cycles db \<and> rd_candidates db' = rd_candidates db"
    by (induction ps arbitrary: db) (auto simp: append_patch_def rbind_Inr_iff split: if_splits)
qed

lemma append_candidate_Inr:
  assumes "append_candidate t r db = Inr db'"
  shows "db' = db\<lparr>rd_candidates := rd_candidates db @ [(t, r)]\<rparr>"
    "\<forall>r'. (t, r') \<in> set (rd_candidates db) \<longrightarrow> ca_candidate_id (cn_candidate r') = ca_candidate_id (cn_candidate r)
       \<longrightarrow> ca_candidate_version (cn_candidate r') \<noteq> ca_candidate_version (cn_candidate r)"
  using assms by (auto simp: append_candidate_def list_ex_iff split: if_splits)

lemma make_cycle_Inr:
  assumes "make_cycle e call state version done_at = Inr y"
  shows "valid_revision_cycle y \<and> record_integrity_valid (hashes (ve_codec e)) revision_cycle_doc y \<and> cy_state y = state
    \<and> cy_candidate_id y = ca_candidate_id (vv_candidate call) \<and> cy_base_candidate_version y = ca_candidate_version (vv_candidate call)"
proof -
  from assms obtain v0 where b: "build_topic4_record (hashes (ve_codec e)) revision_cycle_doc valid_revision_cycle v0 = Inr y"
    "cy_state v0 = state" "cy_candidate_id v0 = ca_candidate_id (vv_candidate call)"
    "cy_base_candidate_version v0 = ca_candidate_version (vv_candidate call)"
    by (auto simp: make_cycle_def Let_def lift_sealed_def split: sum.splits)
  from revision_cycle_seal.build_seals [OF b(1)] b(2-4) show ?thesis by simp
qed

lemma make_plan_Inr:
  assumes "make_plan e call = Inr p"
  shows "valid_revision_plan p \<and> record_integrity_valid (hashes (ve_codec e)) revision_plan_doc p"
proof -
  from assms obtain v0 where "build_topic4_record (hashes (ve_codec e)) revision_plan_doc valid_revision_plan v0 = Inr p"
    by (auto simp: make_plan_def Let_def lift_sealed_def split: sum.splits)
  from revision_plan_seal.build_seals [OF this] show ?thesis by simp
qed

lemma build_response_Inr:
  assumes "build_response e call r plan v store = (Inr response, store')"
  shows "valid_revision_response response \<and> record_integrity_valid (hashes (ve_codec e)) revision_response_doc response"
proof -
  from assms obtain v0 where
    "build_topic4_record (hashes (ve_codec e)) revision_response_doc valid_revision_response v0 = Inr response"
    by (auto simp: build_response_def Let_def lift_sealed_def split: sum.splits prod.splits if_splits)
  from revision_response_seal.build_seals [OF this] show ?thesis by simp
qed

text \<open>What a revision that is not a replay has done.\<close>

definition fresh_revision ::
  "revision_engine \<Rightarrow> revision_call \<Rightarrow> revision_db \<Rightarrow> artifact_store \<Rightarrow> revision_outcome \<Rightarrow> revision_db \<Rightarrow> bool" where
  "fresh_revision e call db store outcome db' \<longleftrightarrow>
     (let h = hashes (ve_codec e); t = vv_tenant_id call; c = vv_candidate call; c' = cn_candidate (vo_candidate outcome)
      in ca_candidate_version c = vq_revision_round (vv_request call) \<and> vq_revision_round (vv_request call) \<le> 2
         \<and> (\<exists>replacements. load_replacement_blocks (ve_codec e) (ve_parse e) t store c (vv_patches call) = Inr replacements
              \<and> build_candidate h c (vv_patches call) replacements (vv_now call) = Inr c')
         \<and> vo_candidate outcome = record_of e c' (vv_now call) \<and> vo_patches outcome = vv_patches call
         \<and> valid_revision_plan (vo_plan outcome) \<and> record_integrity_valid h revision_plan_doc (vo_plan outcome)
         \<and> valid_revision_response (vo_response outcome) \<and> record_integrity_valid h revision_response_doc (vo_response outcome)
         \<and> valid_revision_cycle (vo_cycle outcome) \<and> record_integrity_valid h revision_cycle_doc (vo_cycle outcome)
         \<and> cy_state (vo_cycle outcome) = CY_COMPLETED \<and> cy_candidate_id (vo_cycle outcome) = ca_candidate_id c
         \<and> cy_base_candidate_version (vo_cycle outcome) = ca_candidate_version c
         \<and> rd_candidates db' = rd_candidates db @ [(t, vo_candidate outcome)]
         \<and> (\<forall>r'. (t, r') \<in> set (rd_candidates db) \<longrightarrow> ca_candidate_id (cn_candidate r') = ca_candidate_id c'
              \<longrightarrow> ca_candidate_version (cn_candidate r') \<noteq> ca_candidate_version c')
         \<and> (\<exists>locked generating. rd_cycles db' = rd_cycles db @ [(t, locked, None), (t, generating, None),
              (t, vo_cycle outcome, Some \<lparr>vk_revision_request_id = vq_revision_request_id (vv_request call),
                 vk_plan = vo_plan outcome, vk_patches = vv_patches call, vk_candidate = c',
                 vk_response = vo_response outcome, vk_reverification = vo_reverification outcome\<rparr>)]))"

lemma prepare_Inr:
  assumes "prepare_revision e call db store = Inr (plan, r, db5)"
  shows "\<exists>c' replacements locked generating.
    ca_candidate_version (vv_candidate call) = vq_revision_round (vv_request call) \<and> vq_revision_round (vv_request call) \<le> 2
    \<and> load_replacement_blocks (ve_codec e) (ve_parse e) (vv_tenant_id call) store (vv_candidate call) (vv_patches call) = Inr replacements
    \<and> build_candidate (hashes (ve_codec e)) (vv_candidate call) (vv_patches call) replacements (vv_now call) = Inr c'
    \<and> r = record_of e c' (vv_now call) \<and> make_plan e call = Inr plan
    \<and> rd_cycles db5 = rd_cycles db @ [(vv_tenant_id call, locked, None), (vv_tenant_id call, generating, None)]
    \<and> rd_candidates db5 = rd_candidates db @ [(vv_tenant_id call, r)]
    \<and> (\<forall>r'. (vv_tenant_id call, r') \<in> set (rd_candidates db) \<longrightarrow> ca_candidate_id (cn_candidate r') = ca_candidate_id c'
         \<longrightarrow> ca_candidate_version (cn_candidate r') \<noteq> ca_candidate_version c')"
proof -
  let ?t = "vv_tenant_id call" and ?h = "hashes (ve_codec e)"
  from assms obtain replacements c' locked db1 db2 db3 generating db4 where
    P: "validate_round_budget (vv_request call) (vv_candidate call) = Inr ()"
      "load_replacement_blocks (ve_codec e) (ve_parse e) ?t store (vv_candidate call) (vv_patches call) = Inr replacements"
      "build_candidate ?h (vv_candidate call) (vv_patches call) replacements (vv_now call) = Inr c'"
      "make_plan e call = Inr plan" "r = record_of e c' (vv_now call)"
      "append_cycle ?h ?t locked None db = Inr db1" "append_plan ?h ?t plan db1 = Inr db2"
      "append_patches ?h ?t (vv_patches call) db2 = Inr db3" "append_cycle ?h ?t generating None db3 = Inr db4"
      "append_candidate ?t r db4 = Inr db5"
    by (auto simp: prepare_revision_def Let_def elim!: rbind_InrE)
  note f = append_frames(1) [OF P(6)] append_frames(2) [OF P(7)] append_frames(3) [OF P(8)] append_frames(1) [OF P(9)]
    append_candidate_Inr [OF P(10)]
  have "cn_candidate r = c'" by (simp add: P(5) record_of_def)
  with f have "rd_cycles db5 = rd_cycles db @ [(?t, locked, None), (?t, generating, None)]"
    "rd_candidates db5 = rd_candidates db @ [(?t, r)]"
    "\<forall>r'. (?t, r') \<in> set (rd_candidates db) \<longrightarrow> ca_candidate_id (cn_candidate r') = ca_candidate_id c'
       \<longrightarrow> ca_candidate_version (cn_candidate r') \<noteq> ca_candidate_version c'" by simp_all
  moreover have "ca_candidate_version (vv_candidate call) = vq_revision_round (vv_request call)" "vq_revision_round (vv_request call) \<le> 2"
    using P(1) by (auto simp: validate_round_budget_def rbind_Inr_iff guard_Inr_iff)
  ultimately show ?thesis using P(2-5) by blast
qed

lemma revise_cases:
  assumes "revise e ctx call db store = (Inr (outcome, db'), store')"
  shows "revise_checks ctx call = Inr ()"
    and "(\<exists>row. find_completed_request (vv_tenant_id call) (vq_revision_request_id (vv_request call)) db = Some row
          \<and> replay_outcome e row = Inr outcome \<and> db' = db \<and> store' = store)
      \<or> find_completed_request (vv_tenant_id call) (vq_revision_request_id (vv_request call)) db = None
        \<and> fresh_revision e call db store outcome db'"
proof -
  show "revise_checks ctx call = Inr ()" using assms by (auto simp: revise_def Let_def split: sum.splits)
  show "(\<exists>row. find_completed_request (vv_tenant_id call) (vq_revision_request_id (vv_request call)) db = Some row
          \<and> replay_outcome e row = Inr outcome \<and> db' = db \<and> store' = store)
      \<or> find_completed_request (vv_tenant_id call) (vq_revision_request_id (vv_request call)) db = None
        \<and> fresh_revision e call db store outcome db'"
  proof (cases "find_completed_request (vv_tenant_id call) (vq_revision_request_id (vv_request call)) db")
    case (Some row)
    with assms show ?thesis by (auto simp: revise_def Let_def rbind_Inr_iff split: sum.splits)
  next
    case None
    let ?t = "vv_tenant_id call" and ?h = "hashes (ve_codec e)"
    from assms None obtain plan r db5 response completed where
      P: "prepare_revision e call db store = Inr (plan, r, db5)"
        "build_response e call r plan (reverification_of e call (cn_candidate r)) store = (Inr response, store')"
        "make_cycle e call CY_COMPLETED 3 (Some (vv_now call)) = Inr completed"
        "append_cycle ?h ?t completed (Some (completion_of call r plan (reverification_of e call (cn_candidate r)) response)) db5 = Inr db'"
        "outcome = \<lparr>vo_cycle = completed, vo_plan = plan, vo_patches = vv_patches call, vo_candidate = r,
           vo_response = response, vo_reverification = reverification_of e call (cn_candidate r)\<rparr>"
      by (auto simp: revise_def Let_def rbind_Inr_iff split: sum.splits prod.splits)
    from prepare_Inr [OF P(1)] obtain c' replacements locked generating where
      Q: "ca_candidate_version (vv_candidate call) = vq_revision_round (vv_request call)" "vq_revision_round (vv_request call) \<le> 2"
        "load_replacement_blocks (ve_codec e) (ve_parse e) ?t store (vv_candidate call) (vv_patches call) = Inr replacements"
        "build_candidate ?h (vv_candidate call) (vv_patches call) replacements (vv_now call) = Inr c'"
        "r = record_of e c' (vv_now call)" "make_plan e call = Inr plan"
        "rd_cycles db5 = rd_cycles db @ [(?t, locked, None), (?t, generating, None)]"
        "rd_candidates db5 = rd_candidates db @ [(?t, r)]"
        "\<forall>r'. (?t, r') \<in> set (rd_candidates db) \<longrightarrow> ca_candidate_id (cn_candidate r') = ca_candidate_id c'
           \<longrightarrow> ca_candidate_version (cn_candidate r') \<noteq> ca_candidate_version c'" by blast
    have c': "cn_candidate r = c'" by (simp add: Q(5) record_of_def)
    note db' = append_frames(1) [OF P(4)]
    have row: "rd_cycles db' = rd_cycles db @ [(?t, locked, None), (?t, generating, None),
        (?t, completed, Some (completion_of call r plan (reverification_of e call c') response))]"
      "rd_candidates db' = rd_candidates db @ [(?t, r)]" using Q(7,8) by (simp_all add: db' c')
    have "fresh_revision e call db store outcome db'"
      unfolding fresh_revision_def Let_def P(5) revision_outcome.select_convs c'
      by (intro conjI Q(1,2,5,9) exI [of _ replacements] Q(3,4) row(2) exI [of _ locked] exI [of _ generating] refl)
        (use make_cycle_Inr [OF P(3)] make_plan_Inr [OF Q(6)] build_response_Inr [OF P(2)] in
          \<open>simp_all only: row(1) completion_of_def c'\<close>)
    with None show ?thesis by blast
  qed
qed

lemma load_replacement_blocks_Inr:
  assumes "load_replacement_blocks cd parse t store c patches = Inr replacements"
  shows "\<forall>p\<in>set patches. \<exists>x. load_replacement cd parse t store c p = Inr x \<and> set_option x \<subseteq> set replacements"
    and "\<forall>kb\<in>set replacements. \<exists>p\<in>set patches. load_replacement cd parse t store c p = Inr (Some kb)"
proof -
  from assms obtain found where "map_ok (load_replacement cd parse t store c) patches = Inr found"
    and r: "replacements = List.map_filter id found"
    by (auto simp: load_replacement_blocks_def rbind_Inr_iff)
  from map_ok_Inr_map [OF this(1)] obtain g where
    g: "\<forall>p\<in>set patches. load_replacement cd parse t store c p = Inr (g p)" "found = map g patches" by blast
  have set_r: "set replacements = {kb. Some kb \<in> set found}" unfolding r by (induction found) (auto simp: map_filter_simps split: option.splits)
  show "\<forall>p\<in>set patches. \<exists>x. load_replacement cd parse t store c p = Inr x \<and> set_option x \<subseteq> set replacements"
    using g set_r by (auto simp: image_iff) metis
  show "\<forall>kb\<in>set replacements. \<exists>p\<in>set patches. load_replacement cd parse t store c p = Inr (Some kb)"
    using g set_r by auto
qed

text \<open>How the block at a place of the new candidate comes from the block of the old one that it stands for.\<close>

definition revised_from :: "revision_patch list \<Rightarrow> timestamp \<Rightarrow> nat \<times> block \<Rightarrow> block \<Rightarrow> bool" where
  "revised_from patches now = (\<lambda>(i, b) b'.
     if bk_block_id b \<in> rt_block_id ` set patches
     then bk_block_id b' = bk_block_id b \<and> bk_ordinal b' = int i \<and> bk_block_type b' = bk_block_type b
       \<and> bk_title b' = bk_title b \<and> bk_content_schema_version b' = bk_content_schema_version b
       \<and> bk_dependency_block_ids b' = bk_dependency_block_ids b \<and> bk_status b' = BS_COMPLETE \<and> bk_created_at b' = now
       \<and> (\<exists>p\<in>set patches. rt_block_id p = bk_block_id b \<and> rt_operation p = RO_REPLACE_BLOCK
            \<and> rt_base_block_sha256 p = bk_content_sha256 b \<and> rt_replacement_sha256 p = Some (bk_content_sha256 b')
            \<and> (\<exists>model. map_of content_models (bk_content_schema_version b') = Some model \<and> model (bk_content b')))
     else b' = b\<lparr>bk_ordinal := int i, bk_status := BS_COMPLETE, bk_created_at := now\<rparr>)"

lemma revised_from_id: "revised_from patches now ib b' \<Longrightarrow> bk_block_id b' = bk_block_id (snd ib)"
  by (cases ib) (auto simp: revised_from_def split: if_splits)

lemma renewed_revised_from:
  assumes load: "load_replacement_blocks cd parse t store c patches = Inr replacements"
    and b: "b \<in> set (ca_blocks c)" "distinct (block_ids c)" "\<not> removes patches b"
  shows "revised_from patches now (i, b) (renewed replacements now (i, b))"
proof (cases "map_of replacements (bk_block_id b)")
  case None
  have "bk_block_id b \<notin> rt_block_id ` set patches"
  proof
    assume "bk_block_id b \<in> rt_block_id ` set patches"
    then obtain p where p: "p \<in> set patches" "rt_block_id p = bk_block_id b" by auto
    with load_replacement_blocks_Inr(1) [OF load] obtain x where
      x: "load_replacement cd parse t store c p = Inr x" "set_option x \<subseteq> set replacements" by blast
    have "rt_operation p \<noteq> RO_REMOVE_BLOCK" using b(3) p by (auto simp: removes_def)
    with load_replacement_Inr [OF x(1)] obtain new where "x = Some (rt_block_id p, new)" by (auto split: option.splits)
    with x(2) p(2) have "(bk_block_id b, new) \<in> set replacements" by simp
    with None show False by (force simp: map_of_eq_None_iff)
  qed
  with None show ?thesis unfolding revised_from_def renewed_def by simp
next
  case (Some new)
  from map_of_SomeD [OF this] load_replacement_blocks_Inr(2) [OF load] obtain p where
    p: "p \<in> set patches" "load_replacement cd parse t store c p = Inr (Some (bk_block_id b, new))" by blast
  from load_replacement_Inr [OF p(2), unfolded option.case prod.case] obtain base where
    base: "base \<in> set (ca_blocks c)" "bk_block_id base = rt_block_id p" "bk_content_sha256 base = rt_base_block_sha256 p"
    and new: "rt_operation p = RO_REPLACE_BLOCK" "bk_block_id b = rt_block_id p" "bk_block_id new = rt_block_id p"
      "bk_block_type new = bk_block_type base" "bk_content_schema_version new = bk_content_schema_version base"
      "rt_replacement_sha256 p = Some (bk_content_sha256 new)"
      "\<exists>model. map_of content_models (bk_content_schema_version new) = Some model \<and> model (bk_content new)" by blast
  have "base = b" using base(1,2) b(1,2) new(2) by (metis block_ids_def distinct_map inj_onD)
  then have sha: "rt_base_block_sha256 p = bk_content_sha256 b" using base(3) by simp
  have named: "bk_block_id b \<in> rt_block_id ` set patches" unfolding new(2) by (rule imageI [OF p(1)])
  have "\<exists>q\<in>set patches. rt_block_id q = bk_block_id b \<and> rt_operation q = RO_REPLACE_BLOCK
       \<and> rt_base_block_sha256 q = bk_content_sha256 b \<and> rt_replacement_sha256 q = Some (bk_content_sha256 new)
       \<and> (\<exists>model. map_of content_models (bk_content_schema_version new) = Some model \<and> model (bk_content new))"
    by (rule bexI [OF _ p(1)], intro conjI new(2) [symmetric] new(1) sha new(6) new(7))
  moreover have "bk_block_type new = bk_block_type b" "bk_content_schema_version new = bk_content_schema_version b"
    using new(4,5) \<open>base = b\<close> by simp_all
  ultimately show ?thesis unfolding revised_from_def renewed_def using Some named new(2,3) by (simp add: if_P)
qed

lemma list_all2_enumerate:
  "(\<And>x i. x \<in> set xs \<Longrightarrow> P (i, x) (f (i, x))) \<Longrightarrow> list_all2 P (enumerate n xs) (map f (enumerate n xs))"
  by (induction xs arbitrary: n) auto

text \<open>
  C7.  A revision changes what it was asked to change.  The candidate that a revision produces is
  valid, is the next version of the same candidate from the same agent, and its blocks stand, in order, for the blocks of the old
  candidate that no patch removes: a block that no patch names is the old block with its place, the status complete (whatever it was) and
  the time of the revision, and nothing else changed; a block that a patch replaces has the hash the
  patch promises and a content of its own schema, and keeps identity, type, title and dependencies.  Every patch was
  made for the block as it was, and only failed or superseded blocks on which nothing depends are removed.
\<close>

theorem revision_faithful:
  assumes "revise e ctx call db store = (Inr (outcome, db'), store')"
    and "find_completed_request (vv_tenant_id call) (vq_revision_request_id (vv_request call)) db = None"
    and "valid_candidate (hashes (ve_codec e)) (vv_candidate call)"
  shows "valid_candidate (hashes (ve_codec e)) (cn_candidate (vo_candidate outcome))
    \<and> ca_candidate_id (cn_candidate (vo_candidate outcome)) = ca_candidate_id (vv_candidate call)
    \<and> ca_candidate_version (cn_candidate (vo_candidate outcome)) = ca_candidate_version (vv_candidate call) + 1
    \<and> ca_provenance (cn_candidate (vo_candidate outcome)) = ca_provenance (vv_candidate call)
    \<and> ca_resource_type (cn_candidate (vo_candidate outcome)) = ca_resource_type (vv_candidate call)
    \<and> list_all2 (revised_from (vv_patches call) (vv_now call))
        (enumerate 0 (filter (\<lambda>b. \<not> removes (vv_patches call) b) (ca_blocks (vv_candidate call))))
        (ca_blocks (cn_candidate (vo_candidate outcome)))
    \<and> list_all (\<lambda>p. list_ex (\<lambda>b. bk_block_id b = rt_block_id p \<and> bk_content_sha256 b = rt_base_block_sha256 p
            \<and> (rt_operation p = RO_REPLACE_BLOCK \<or> bk_status b \<in> {BS_FAILED, BS_SUPERSEDED})) (ca_blocks (vv_candidate call))
          \<and> (rt_operation p = RO_REPLACE_BLOCK
             \<or> list_all (\<lambda>b. rt_block_id p \<notin> set (bk_dependency_block_ids b)) (ca_blocks (vv_candidate call))))
        (vv_patches call)"
proof -
  let ?c = "vv_candidate call" and ?c' = "cn_candidate (vo_candidate outcome)" and ?ps = "vv_patches call"
  note R = revise_cases [OF assms(1)]
  from R(1) have unique: "distinct (map rt_block_id ?ps)"
    by (auto simp: revise_checks_def validate_patch_set_def rbind_Inr_iff guard_Inr_iff)
  from R(2) assms(2) have "fresh_revision e call db store outcome db'" by simp
  then obtain replacements where
    load: "load_replacement_blocks (ve_codec e) (ve_parse e) (vv_tenant_id call) store ?c ?ps = Inr replacements"
    and build: "build_candidate (hashes (ve_codec e)) ?c ?ps replacements (vv_now call) = Inr ?c'"
    unfolding fresh_revision_def Let_def by blast
  note new = build_candidate_Inr [OF build unique]
  have ids: "distinct (block_ids ?c)" using assms(3) by (simp add: valid_candidate_def)
  have "list_all2 (revised_from ?ps (vv_now call)) (enumerate 0 (filter (\<lambda>b. \<not> removes ?ps b) (ca_blocks ?c))) (ca_blocks ?c')"
    unfolding new [THEN conjunct2, THEN conjunct2, THEN conjunct2, THEN conjunct2, THEN conjunct2, THEN conjunct2]
    by (rule list_all2_enumerate) (use renewed_revised_from [OF load _ ids] in simp)
  moreover have "list_ex (\<lambda>b. bk_block_id b = rt_block_id p \<and> bk_content_sha256 b = rt_base_block_sha256 p
        \<and> (rt_operation p = RO_REPLACE_BLOCK \<or> bk_status b \<in> {BS_FAILED, BS_SUPERSEDED})) (ca_blocks ?c)
      \<and> (rt_operation p = RO_REPLACE_BLOCK \<or> list_all (\<lambda>b. rt_block_id p \<notin> set (bk_dependency_block_ids b)) (ca_blocks ?c))"
    if "p \<in> set ?ps" for p
  proof -
    from that load_replacement_blocks_Inr(1) [OF load] obtain x where
      "load_replacement (ve_codec e) (ve_parse e) (vv_tenant_id call) store ?c p = Inr x" by blast
    from load_replacement_Inr [OF this] obtain base where base: "base \<in> set (ca_blocks ?c)" "bk_block_id base = rt_block_id p"
        "bk_content_sha256 base = rt_base_block_sha256 p"
      and op: "rt_operation p = RO_REPLACE_BLOCK \<or> bk_status base \<noteq> BS_COMPLETE
         \<and> (\<forall>b\<in>set (ca_blocks ?c). rt_block_id p \<notin> set (bk_dependency_block_ids b))"
      by (cases x) auto
    then show ?thesis by (cases "bk_status base") (auto simp: list_ex_iff list_all_iff)
  qed
  ultimately show ?thesis using new by (simp add: list_all_iff)
qed

subsection \<open>Runs of revisions\<close>

text \<open>A call that raises rolls the tables back.\<close>

fun revision_step ::
  "revision_engine \<Rightarrow> tenant option \<times> revision_call \<Rightarrow> revision_db \<times> artifact_store \<Rightarrow> revision_db \<times> artifact_store" where
  "revision_step e (ctx, call) (db, store) =
     (case revise e ctx call db store of
        (Inl _, store') \<Rightarrow> (db, store')
      | (Inr (_, db'), store') \<Rightarrow> (db', store'))"

definition revision_run ::
  "revision_engine \<Rightarrow> (tenant option \<times> revision_call) list \<Rightarrow> revision_db \<times> artifact_store \<Rightarrow> revision_db \<times> artifact_store" where
  "revision_run e calls w = fold (revision_step e) calls w"

lemma revision_step_cases:
  obtains "fst (revision_step e cc (db, store)) = db"
  | outcome db' store' where "revise e (fst cc) (snd cc) db store = (Inr (outcome, db'), store')"
      "find_completed_request (vv_tenant_id (snd cc)) (vq_revision_request_id (vv_request (snd cc))) db = None"
      "revise_checks (fst cc) (snd cc) = Inr ()"
      "fresh_revision e (snd cc) db store outcome db'" "revision_step e cc (db, store) = (db', store')"
proof -
  obtain ctx call where cc: "cc = (ctx, call)" by (rule prod.exhaust)
  obtain r store' where run: "revise e ctx call db store = (r, store')" by (rule prod.exhaust)
  show ?thesis
  proof (cases r)
    case (Inl err)
    with that(1) run cc show ?thesis by simp
  next
    case (Inr odb)
    obtain outcome db' where odb: "odb = (outcome, db')" by (rule prod.exhaust)
    note ran = run [unfolded Inr odb]
    from revise_cases(2) [OF ran] that(1) that(2) [of outcome db' store'] revise_cases(1) [OF ran] ran cc show ?thesis
      by fastforce
  qed
qed

text \<open>The completed cycles of a candidate, each with the version that it revised, and those of a request.\<close>

definition completed_revisions :: "tenant \<Rightarrow> uuid \<Rightarrow> revision_db \<Rightarrow> (int \<times> completion) list" where
  "completed_revisions t candidate_id db = List.map_filter (\<lambda>(t', y, k). case k of None \<Rightarrow> None
     | Some k' \<Rightarrow> if t' = t \<and> cy_candidate_id y = candidate_id then Some (cy_base_candidate_version y, k') else None) (rd_cycles db)"

definition completed_requests :: "tenant \<Rightarrow> uuid \<Rightarrow> revision_db \<Rightarrow> (revision_cycle \<times> completion) list" where
  "completed_requests t request_id db = List.map_filter (\<lambda>(t', y, k). case k of None \<Rightarrow> None
     | Some k' \<Rightarrow> if t' = t \<and> cy_state y = CY_COMPLETED \<and> vk_revision_request_id k' = request_id
                 then Some (y, k') else None) (rd_cycles db)"

lemma map_filter_append [simp]: "List.map_filter f (xs @ ys) = List.map_filter f xs @ List.map_filter f ys"
  by (simp add: List.map_filter_def)

lemma find_completed_request_rows:
  "find_completed_request t k db = None \<longleftrightarrow> completed_requests t k db = []"
  "completed_requests t k db = [row] \<Longrightarrow> find_completed_request t k db = Some row"
proof -
  show "find_completed_request t k db = None \<longleftrightarrow> completed_requests t k db = []"
    unfolding find_completed_request_def completed_requests_def [symmetric]
    by (metis (no_types, lifting) length_0_conv length_sort list.case_eq_if option.distinct(1))
  show "completed_requests t k db = [row] \<Longrightarrow> find_completed_request t k db = Some row"
    unfolding find_completed_request_def completed_requests_def [symmetric] by simp
qed

lemma map_filter_row:
  "List.map_filter f [(t, l, None), (t, g, None), row] = (case f row of None \<Rightarrow> [] | Some x \<Rightarrow> [x])"
  if "\<And>y. f (t, y, None) = None"
  using that by (simp add: map_filter_simps List.map_filter_def split: option.split)

text \<open>The rows that a fresh revision adds.\<close>

lemma fresh_rows:
  assumes "fresh_revision e call db store outcome db'"
  shows "completed_revisions t k db' = completed_revisions t k db
      @ (if vv_tenant_id call = t \<and> ca_candidate_id (vv_candidate call) = k
         then [(ca_candidate_version (vv_candidate call),
            \<lparr>vk_revision_request_id = vq_revision_request_id (vv_request call), vk_plan = vo_plan outcome,
              vk_patches = vv_patches call, vk_candidate = cn_candidate (vo_candidate outcome),
              vk_response = vo_response outcome, vk_reverification = vo_reverification outcome\<rparr>)] else [])"
    and "completed_requests t k db' = completed_requests t k db
      @ (if vv_tenant_id call = t \<and> vq_revision_request_id (vv_request call) = k
         then [(vo_cycle outcome,
            \<lparr>vk_revision_request_id = vq_revision_request_id (vv_request call), vk_plan = vo_plan outcome,
              vk_patches = vv_patches call, vk_candidate = cn_candidate (vo_candidate outcome),
              vk_response = vo_response outcome, vk_reverification = vo_reverification outcome\<rparr>)] else [])"
proof -
  define k' where "k' = \<lparr>vk_revision_request_id = vq_revision_request_id (vv_request call), vk_plan = vo_plan outcome,
    vk_patches = vv_patches call, vk_candidate = cn_candidate (vo_candidate outcome),
    vk_response = vo_response outcome, vk_reverification = vo_reverification outcome\<rparr>"
  from assms obtain l g where rows: "rd_cycles db' = rd_cycles db @ [(vv_tenant_id call, l, None), (vv_tenant_id call, g, None),
      (vv_tenant_id call, vo_cycle outcome, Some k')]"
    and y: "cy_state (vo_cycle outcome) = CY_COMPLETED" "cy_candidate_id (vo_cycle outcome) = ca_candidate_id (vv_candidate call)"
      "cy_base_candidate_version (vo_cycle outcome) = ca_candidate_version (vv_candidate call)"
    unfolding fresh_revision_def Let_def k'_def by blast
  have request: "vk_revision_request_id k' = vq_revision_request_id (vv_request call)" by (simp add: k'_def)
  show "completed_revisions t k db' = completed_revisions t k db
      @ (if vv_tenant_id call = t \<and> ca_candidate_id (vv_candidate call) = k
         then [(ca_candidate_version (vv_candidate call),
            \<lparr>vk_revision_request_id = vq_revision_request_id (vv_request call), vk_plan = vo_plan outcome,
              vk_patches = vv_patches call, vk_candidate = cn_candidate (vo_candidate outcome),
              vk_response = vo_response outcome, vk_reverification = vo_reverification outcome\<rparr>)] else [])"
    unfolding k'_def [symmetric] using y by (simp add: completed_revisions_def rows map_filter_row)
  show "completed_requests t k db' = completed_requests t k db
      @ (if vv_tenant_id call = t \<and> vq_revision_request_id (vv_request call) = k
         then [(vo_cycle outcome,
            \<lparr>vk_revision_request_id = vq_revision_request_id (vv_request call), vk_plan = vo_plan outcome,
              vk_patches = vv_patches call, vk_candidate = cn_candidate (vo_candidate outcome),
              vk_response = vo_response outcome, vk_reverification = vo_reverification outcome\<rparr>)] else [])"
    unfolding k'_def [symmetric] using y request by (simp add: completed_requests_def rows map_filter_row)
qed

text \<open>Every completed revision of a candidate is of its first or second version, and its result is stored.\<close>

definition revisions_ok :: "tenant \<Rightarrow> uuid \<Rightarrow> revision_db \<Rightarrow> bool" where
  "revisions_ok t k db \<longleftrightarrow> distinct (map fst (completed_revisions t k db))
     \<and> (\<forall>vk\<in>set (completed_revisions t k db). fst vk \<in> {1, 2} \<and> ca_candidate_id (vk_candidate (snd vk)) = k
          \<and> ca_candidate_version (vk_candidate (snd vk)) = fst vk + 1
          \<and> (\<exists>r. (t, r) \<in> set (rd_candidates db) \<and> cn_candidate r = vk_candidate (snd vk)))"

lemma fresh_revision_numbers:
  assumes "fresh_revision e call db store outcome db'" "revise_checks ctx call = Inr ()"
  shows "ca_candidate_id (cn_candidate (vo_candidate outcome)) = ca_candidate_id (vv_candidate call)"
    "ca_candidate_version (cn_candidate (vo_candidate outcome)) = ca_candidate_version (vv_candidate call) + 1"
    "ca_candidate_version (vv_candidate call) \<in> {1, 2}"
    "valid_candidate (hashes (ve_codec e)) (cn_candidate (vo_candidate outcome))"
    "ca_created_at (cn_candidate (vo_candidate outcome)) = vv_now call"
proof -
  have unique: "distinct (map rt_block_id (vv_patches call))"
    using assms(2) by (auto simp: revise_checks_def validate_patch_set_def rbind_Inr_iff guard_Inr_iff)
  from assms(1) obtain replacements where
    "build_candidate (hashes (ve_codec e)) (vv_candidate call) (vv_patches call) replacements (vv_now call)
       = Inr (cn_candidate (vo_candidate outcome))" unfolding fresh_revision_def Let_def by blast
  note new = build_candidate_Inr [OF this unique]
  then show "ca_candidate_id (cn_candidate (vo_candidate outcome)) = ca_candidate_id (vv_candidate call)"
    "ca_candidate_version (cn_candidate (vo_candidate outcome)) = ca_candidate_version (vv_candidate call) + 1"
    "valid_candidate (hashes (ve_codec e)) (cn_candidate (vo_candidate outcome))"
    "ca_created_at (cn_candidate (vo_candidate outcome)) = vv_now call" by blast+
  from assms(1) have "valid_revision_cycle (vo_cycle outcome)" "ca_candidate_version (vv_candidate call) \<le> 2"
    "cy_base_candidate_version (vo_cycle outcome) = ca_candidate_version (vv_candidate call)"
    unfolding fresh_revision_def Let_def by simp_all
  then show "ca_candidate_version (vv_candidate call) \<in> {1, 2}" by (auto simp: valid_revision_cycle_def)
qed

lemma revisions_ok_fresh:
  assumes "fresh_revision e call db store outcome db'" "revise_checks ctx call = Inr ()" "revisions_ok t k db"
  shows "revisions_ok t k db'"
proof -
  let ?v = "ca_candidate_version (vv_candidate call)" and ?c' = "cn_candidate (vo_candidate outcome)"
  have F: "rd_candidates db' = rd_candidates db @ [(vv_tenant_id call, vo_candidate outcome)]"
    "\<And>r. (vv_tenant_id call, r) \<in> set (rd_candidates db) \<Longrightarrow> ca_candidate_id (cn_candidate r) = ca_candidate_id ?c'
       \<Longrightarrow> ca_candidate_version (cn_candidate r) \<noteq> ca_candidate_version ?c'"
    using assms(1) unfolding fresh_revision_def Let_def by simp_all
  note n = fresh_revision_numbers [OF assms(1,2)]
  show ?thesis
  proof (cases "vv_tenant_id call = t \<and> ca_candidate_id (vv_candidate call) = k")
    case False
    then have "completed_revisions t k db' = completed_revisions t k db" using fresh_rows(1) [OF assms(1), of t k] by simp
    with assms(3) F(1) show ?thesis unfolding revisions_ok_def by auto
  next
    case True
    with fresh_rows(1) [OF assms(1), of t k] obtain x where
      rows: "completed_revisions t k db' = completed_revisions t k db @ [(?v, x)]" and x: "vk_candidate x = ?c'" by simp
    have "?v \<notin> fst ` set (completed_revisions t k db)"
    proof
      assume "?v \<in> fst ` set (completed_revisions t k db)"
      then obtain vk where "vk \<in> set (completed_revisions t k db)" "fst vk = ?v" by auto
      with assms(3) obtain r where "(t, r) \<in> set (rd_candidates db)" "ca_candidate_id (cn_candidate r) = k"
        "ca_candidate_version (cn_candidate r) = ?v + 1" unfolding revisions_ok_def by metis
      with F(2) n(1,2) True show False by simp
    qed
    moreover have "(t, vo_candidate outcome) \<in> set (rd_candidates db')" using F(1) True by simp
    ultimately show ?thesis using assms(3) n(1-3) F(1) x True unfolding revisions_ok_def rows by auto
  qed
qed

lemma revisions_ok_run:
  assumes "revisions_ok t k (fst w)"
  shows "revisions_ok t k (fst (revision_run e calls w))"
  unfolding revision_run_def using assms
proof (induction calls arbitrary: w)
  case (Cons cc ccs)
  obtain db store where w: "w = (db, store)" by (rule prod.exhaust)
  have "revisions_ok t k (fst (revision_step e cc w))"
  proof (cases rule: revision_step_cases [of e cc db store])
    case 1
    with Cons.prems w show ?thesis by simp
  next
    case (2 outcome db' store')
    with revisions_ok_fresh [OF 2(4,3)] Cons.prems w show ?thesis by simp
  qed
  from Cons.IH [OF this] show ?case by simp
qed simp

text \<open>
  C8.  At most two revisions per candidate.  Whatever is called, in whatever order, on tables without cycles,
  a candidate has at most two completed revisions, of its versions one and two, each at most once; each has
  produced and stored the version that follows.
\<close>

theorem revised_at_most_twice:
  assumes "revision_run e calls (db, store) = (db', store')" "rd_cycles db = []"
  shows "length (completed_revisions t k db') \<le> 2 \<and> distinct (map fst (completed_revisions t k db'))
    \<and> (\<forall>(v, x)\<in>set (completed_revisions t k db'). v \<in> {1, 2} \<and> ca_candidate_id (vk_candidate x) = k
         \<and> ca_candidate_version (vk_candidate x) = v + 1 \<and> vk_candidate x \<in> cn_candidate ` snd ` set (rd_candidates db'))"
proof -
  have "revisions_ok t k db" using assms(2) by (simp add: revisions_ok_def completed_revisions_def List.map_filter_def)
  with revisions_ok_run [of t k "(db, store)" e calls] assms(1) have ok: "revisions_ok t k db'" by simp
  then have "fst ` set (completed_revisions t k db') \<subseteq> {1, 2}" "distinct (map fst (completed_revisions t k db'))"
    by (auto simp: revisions_ok_def)
  then have "length (map fst (completed_revisions t k db')) \<le> card {1::int, 2}"
    by (metis card_mono distinct_card finite.emptyI finite.insertI set_map)
  with ok show ?thesis by (force simp: revisions_ok_def)
qed

text \<open>A later run keeps the one completed row of a request.\<close>

lemma completed_request_stays:
  assumes "completed_requests t k (fst w) = [row]"
  shows "completed_requests t k (fst (revision_run e calls w)) = [row]"
  unfolding revision_run_def using assms
proof (induction calls arbitrary: w)
  case (Cons cc ccs)
  obtain db store where w: "w = (db, store)" by (rule prod.exhaust)
  have "completed_requests t k (fst (revision_step e cc w)) = [row]"
  proof (cases rule: revision_step_cases [of e cc db store])
    case 1
    with Cons.prems w show ?thesis by simp
  next
    case (2 outcome db' store')
    have "\<not> (vv_tenant_id (snd cc) = t \<and> vq_revision_request_id (vv_request (snd cc)) = k)"
      using 2(2) Cons.prems w by (auto simp: find_completed_request_rows(1))
    with fresh_rows(2) [OF 2(4), of t k] 2(5) Cons.prems w show ?thesis by simp
  qed
  from Cons.IH [OF this] show ?case by simp
qed simp

text \<open>
  C9.  A revision can be repeated, if its patches are sealed.  After a revision has succeeded and any calls
  have followed, the same request under the same tenant is answered from the tables: with the same outcome when
  every patch carries its own hash, and with an integrity error otherwise, although the first call accepted the patches.  Neither the
  tables nor the store change.
\<close>

theorem revision_replayed:
  assumes "revise e ctx call db store = (Inr (outcome, db1), store1)"
    and "find_completed_request (vv_tenant_id call) (vq_revision_request_id (vv_request call)) db = None"
    and "list_all valid_revision_patch (vv_patches call)"
    and "revision_run e calls (db1, store1) = (db2, store2)"
    and "vv_tenant_id call' = vv_tenant_id call"
      "vq_revision_request_id (vv_request call') = vq_revision_request_id (vv_request call)"
      "revise_checks ctx' call' = Inr ()"
  shows "revise e ctx' call' db2 store2 =
    (if list_all (record_integrity_valid (hashes (ve_codec e)) revision_patch_doc) (vv_patches call)
     then Inr (outcome, db2) else Inl Revision_integrity, store2)"
proof -
  let ?t = "vv_tenant_id call" and ?k = "vq_revision_request_id (vv_request call)"
  define x where "x = \<lparr>vk_revision_request_id = ?k, vk_plan = vo_plan outcome,
    vk_patches = vv_patches call, vk_candidate = cn_candidate (vo_candidate outcome),
    vk_response = vo_response outcome, vk_reverification = vo_reverification outcome\<rparr>"
  from revise_cases [OF assms(1)] assms(2) have checks: "revise_checks ctx call = Inr ()"
    and fresh: "fresh_revision e call db store outcome db1" by simp_all
  have "completed_requests ?t ?k db = []" using assms(2) by (simp add: find_completed_request_rows(1))
  with fresh_rows(2) [OF fresh, of ?t ?k] have "completed_requests ?t ?k (fst (db1, store1)) = [(vo_cycle outcome, x)]"
    by (simp add: x_def)
  from completed_request_stays [OF this, of e calls] assms(4) have "completed_requests ?t ?k db2 = [(vo_cycle outcome, x)]" by simp
  then have row: "find_completed_request (vv_tenant_id call') (vq_revision_request_id (vv_request call')) db2
      = Some (vo_cycle outcome, x)"
    unfolding assms(5,6) by (rule find_completed_request_rows(2))
  note n = fresh_revision_numbers [OF fresh checks]
  have F: "vo_candidate outcome = record_of e (cn_candidate (vo_candidate outcome)) (vv_now call)" "vo_patches outcome = vv_patches call"
    "valid_revision_plan (vo_plan outcome)" "record_integrity_valid (hashes (ve_codec e)) revision_plan_doc (vo_plan outcome)"
    "valid_revision_response (vo_response outcome)"
    "record_integrity_valid (hashes (ve_codec e)) revision_response_doc (vo_response outcome)"
    "valid_revision_cycle (vo_cycle outcome)" "record_integrity_valid (hashes (ve_codec e)) revision_cycle_doc (vo_cycle outcome)"
    using fresh unfolding fresh_revision_def Let_def by blast+
  have "\<lparr>vo_cycle = vo_cycle outcome, vo_plan = vo_plan outcome, vo_patches = vv_patches call,
      vo_candidate = record_of e (cn_candidate (vo_candidate outcome)) (vv_now call), vo_response = vo_response outcome,
      vo_reverification = vo_reverification outcome\<rparr> = outcome"
    unfolding F(1) [symmetric] F(2) [symmetric] by simp
  then have "replay_outcome e (vo_cycle outcome, x) =
      (if list_all (record_integrity_valid (hashes (ve_codec e)) revision_patch_doc) (vv_patches call)
       then Inr outcome else Inl Revision_integrity)"
    using F(3-8) n(4,5) assms(3) by (simp add: replay_outcome_def x_def)
  with row assms(7) show ?thesis by (simp add: revise_def Let_def)
qed


subsection \<open>A concrete revision\<close>

text \<open>A candidate with three blocks: \<^verbatim>\<open>b1\<close> is replaced, the failed \<^verbatim>\<open>b2\<close> is removed.\<close>

definition sample_lecture :: "string \<Rightarrow> int \<Rightarrow> block_status \<Rightarrow> string \<Rightarrow> block" where
  "sample_lecture k i status body = (sample_block k i)\<lparr>bk_status := status, bk_content :=
     [(''schema_version'', DStr ''topic3.lecturer-content.v1''), (''title'', DStr ''T''),
      (''learning_objectives'', DList [DStr ''o'']),
      (''sections'', DList [DObj [(''section_id'', DStr ''s''), (''title'', DStr ''S''), (''depth'', DStr ''FOUNDATION''),
         (''markdown'', DStr body), (''target_kp_ids'', DList [DStr ''kp''])]]),
      (''summary'', DList [DStr ''y'']), (''misconception_alerts'', DList []), (''personalization_notes'', DList [])]\<rparr>"

definition sample_rejected :: candidate where
  "sample_rejected = sample_candidate\<lparr>ca_blocks :=
     [sample_lecture ''b0'' 0 BS_COMPLETE ''x'', sample_lecture ''b1'' 1 BS_COMPLETE ''y'', sample_lecture ''b2'' 2 BS_FAILED ''z'']\<rparr>"

definition sample_engine :: revision_engine where
  "sample_engine = \<lparr>ve_codec = sample_codec, ve_parse = (\<lambda>_. Some (sample_lecture ''b1'' 1 BS_COMPLETE ''new'')), ve_lock_ttl = 60000000\<rparr>"

definition sample_request :: revision_request where
  "sample_request =
     \<lparr>t4_trace_id = replicate 16 (CHR ''a''), t4_tenant_id = ''tenant'', t4_version_cas = 1, t4_record_sha256 = sample_digest,
      t4_created_at = 0, vq_revision_request_id = ''request'', vq_verification_id = ''ver'', vq_parent_verification_id = ''parent'',
      vq_original_candidate_id = ''candidate'', vq_original_candidate_version = 1, vq_original_candidate_sha256 = sample_digest,
      vq_target_agent = SA_LECTURER, vq_revision_round = 1, vq_block_ids = [''b1'', ''b2''], vq_claim_ids = [''claim''],
      vq_instructions_artifact = sample_artifact, vq_instructions_sha256 = sample_digest, vq_deadline_at = 1000\<rparr>"

definition sample_patch :: "digest \<Rightarrow> string \<Rightarrow> revision_operation \<Rightarrow> revision_patch" where
  "sample_patch seal k op =
     \<lparr>t4_trace_id = replicate 16 (CHR ''a''), t4_tenant_id = ''tenant'', t4_version_cas = 1, t4_record_sha256 = seal,
      t4_created_at = 0, rt_revision_patch_id = ''patch-'' @ k, rt_revision_plan_id = ''requesttopic4-c8-cycletopic4-c8-plan'',
      rt_block_id = k, rt_operation = op, rt_base_block_sha256 = sample_digest,
      rt_replacement_artifact = (if op = RO_REPLACE_BLOCK then Some sample_artifact else None),
      rt_replacement_sha256 = (if op = RO_REPLACE_BLOCK then Some sample_digest else None),
      rt_target_content_schema_version = ''topic3.lecturer-content.v1'', rt_reason_claim_ids = [''claim'']\<rparr>"

definition sample_revision :: "digest \<Rightarrow> revision_call" where
  "sample_revision seal =
     \<lparr>vv_tenant_id = ''tenant'', vv_request = sample_request, vv_candidate = sample_rejected,
      vv_patches = [sample_patch sample_digest ''b1'' RO_REPLACE_BLOCK, sample_patch seal ''b2'' RO_REMOVE_BLOCK],
      vv_lock_owner = ''worker'', vv_prompt_bundle_version = ''v1'', vv_lock_token = ''token'', vv_now = 10\<rparr>"

definition sample_tables :: revision_db where
  "sample_tables = \<lparr>rd_cycles = [], rd_plans = [], rd_patches = [],
     rd_candidates = [(''tenant'', \<lparr>cn_candidate_record_id = ''base'', cn_candidate = sample_rejected, cn_frozen_at = 0\<rparr>)]\<rparr>"

definition sample_store :: artifact_store where
  "sample_store = snd (put_object (cd_sha sample_codec) ''tenant'' ''verification-artifacts'' ''r.json'' [1] (new_store 100))"

definition other_digest :: digest where
  "other_digest = replicate 64 (CHR ''b'')"

lemma sample_revision_runs:
  "(case revise sample_engine (Some ''tenant'') (sample_revision other_digest) sample_tables sample_store of
      (Inr _, _) \<Rightarrow> True | _ \<Rightarrow> False)"
  by code_simp

lemma sample_revised:
  obtains outcome db store where
    "revise sample_engine (Some ''tenant'') (sample_revision other_digest) sample_tables sample_store = (Inr (outcome, db), store)"
  using sample_revision_runs that by (auto split: prod.splits sum.splits)

lemma sample_revision_checks:
  "valid_candidate (hashes (ve_codec sample_engine)) (vv_candidate (sample_revision other_digest))
   \<and> list_all valid_revision_patch (vv_patches (sample_revision other_digest))
   \<and> \<not> list_all (record_integrity_valid (hashes (ve_codec sample_engine)) revision_patch_doc) (vv_patches (sample_revision other_digest))
   \<and> revise_checks (Some ''tenant'') (sample_revision other_digest) = Inr ()"
  by code_simp

lemma sample_tables_fresh: "find_completed_request t k sample_tables = None"
  by (simp add: find_completed_request_def sample_tables_def List.map_filter_def)

theorem revision_faithful_witness:
  "\<exists>outcome db store. revise sample_engine (Some ''tenant'') (sample_revision other_digest) sample_tables sample_store
       = (Inr (outcome, db), store)
     \<and> ca_candidate_version (cn_candidate (vo_candidate outcome)) = 2
     \<and> map bk_block_id (ca_blocks (cn_candidate (vo_candidate outcome))) = [''b0'', ''b1'']"
proof -
  obtain outcome db store where run:
    "revise sample_engine (Some ''tenant'') (sample_revision other_digest) sample_tables sample_store = (Inr (outcome, db), store)"
    by (rule sample_revised)
  note faithful = revision_faithful [OF run sample_tables_fresh conjunct1 [OF sample_revision_checks]]
  then have "list_all2 (revised_from (vv_patches (sample_revision other_digest)) (vv_now (sample_revision other_digest)))
      [(0, sample_lecture ''b0'' 0 BS_COMPLETE ''x''), (1, sample_lecture ''b1'' 1 BS_COMPLETE ''y'')] (ca_blocks (cn_candidate (vo_candidate outcome)))"
    by (simp add: sample_revision_def sample_rejected_def removes_def sample_patch_def sample_lecture_def sample_block_def)
  then have "map bk_block_id (ca_blocks (cn_candidate (vo_candidate outcome))) = [''b0'', ''b1'']"
    by (auto simp: list_all2_Cons1 sample_lecture_def sample_block_def dest!: revised_from_id)
  moreover have "ca_candidate_version (cn_candidate (vo_candidate outcome)) = 2"
    using faithful by (simp add: sample_revision_def sample_rejected_def sample_candidate_def)
  ultimately show ?thesis using run by (intro exI conjI)
qed

theorem revised_at_most_twice_witness:
  "\<exists>db store. revision_run sample_engine [(None, sample_revision other_digest), (Some ''tenant'', sample_revision other_digest),
       (Some ''tenant'', sample_revision other_digest)] (sample_tables, sample_store) = (db, store)
     \<and> length (completed_revisions ''tenant'' ''candidate'' db) \<le> 2"
proof -
  obtain db store where run: "revision_run sample_engine [(None, sample_revision other_digest), (Some ''tenant'', sample_revision other_digest),
      (Some ''tenant'', sample_revision other_digest)] (sample_tables, sample_store) = (db, store)" by (rule prod.exhaust)
  have "rd_cycles sample_tables = []" by (simp add: sample_tables_def)
  from revised_at_most_twice [OF run this, of "''tenant''" "''candidate''"] run show ?thesis by blast
qed

theorem revision_replayed_witness:
  "\<exists>outcome db store. revise sample_engine (Some ''tenant'') (sample_revision other_digest) sample_tables sample_store
       = (Inr (outcome, db), store)
     \<and> revise sample_engine (Some ''tenant'') (sample_revision other_digest) db store = (Inl Revision_integrity, store)"
proof -
  obtain outcome db store where run:
    "revise sample_engine (Some ''tenant'') (sample_revision other_digest) sample_tables sample_store = (Inr (outcome, db), store)"
    by (rule sample_revised)
  have "revision_run sample_engine [] (db, store) = (db, store)" by (simp add: revision_run_def)
  from revision_replayed [OF run sample_tables_fresh _ this refl refl, of "Some ''tenant''"] sample_revision_checks run
  show ?thesis by auto
qed

end
