(* ===== verification/AuditTrail.thy ===== *)
theory AuditTrail
  imports ReplayLog
begin

text \<open>
  The audit trail, \<^verbatim>\<open>backend/src/liyans/infrastructure/observability/audit.py\<close>: the hash chain of a tenant's
  records, the store in memory, the store in a file with one JSON document per line, and the service.  The hash of a document, its JSON text and
  the parser of JSON are parameters; a document of our model is one that the hash accepts, so its text can be encoded.  The lock
  of a store makes an append one step; an append to the file may fail after any number of characters.
\<close>

datatype audit_error = Audit_json | Audit_field | Audit_chain | Audit_os_error

definition genesis_hash :: digest where
  "genesis_hash = replicate 64 (CHR ''0'')"

record audit_draft =
  ad_tenant_id :: tenant
  ad_category :: string
  ad_action :: string
  ad_outcome :: string
  ad_actor_ref :: string
  ad_target_ref :: "string option"
  ad_trace_id :: "string option"
  ad_envelope_id :: "string option"
  ad_metadata :: "(string \<times> doc) list"
  ad_occurred_at :: timestamp

record audit_record =
  au_event_id :: uuid
  au_sequence :: int
  au_draft :: audit_draft
  au_previous_hash :: digest
  au_event_hash :: digest

text \<open>The fields that the hash covers, and \<^verbatim>\<open>to_document\<close>; the keys of JSON text are sorted, so their order is irrelevant.\<close>

definition audit_fields :: "audit_record \<Rightarrow> (string \<times> doc) list" where
  "audit_fields r = (let d = au_draft r in
     [(''event_id'', DStr (au_event_id r)), (''tenant_id'', DStr (ad_tenant_id d)), (''sequence'', DInt (au_sequence r)),
      (''category'', DStr (ad_category d)), (''action'', DStr (ad_action d)), (''outcome'', DStr (ad_outcome d)),
      (''actor_ref'', DStr (ad_actor_ref d)), (''target_ref'', opt_doc DStr (ad_target_ref d)),
      (''trace_id'', opt_doc DStr (ad_trace_id d)), (''envelope_id'', opt_doc DStr (ad_envelope_id d)),
      (''metadata'', DObj (ad_metadata d)), (''occurred_at'', DTime (ad_occurred_at d)),
      (''previous_hash'', DStr (au_previous_hash r))])"

definition record_document :: "audit_record \<Rightarrow> doc" where
  "record_document r = DObj (audit_fields r @ [(''event_hash'', DStr (au_event_hash r))])"

definition record_hash :: "hash_env \<Rightarrow> audit_record \<Rightarrow> digest" where
  "record_hash h r = c_sha h (DObj (audit_fields r))"

text \<open>The identifier is the \<^verbatim>\<open>uuid4\<close> that the call draws.\<close>

definition build_audit_record :: "hash_env \<Rightarrow> uuid \<Rightarrow> audit_draft \<Rightarrow> int \<Rightarrow> digest \<Rightarrow> audit_record" where
  "build_audit_record h event_id draft sequence previous_hash =
     (let r = \<lparr>au_event_id = event_id, au_sequence = sequence, au_draft = draft, au_previous_hash = previous_hash,
               au_event_hash = []\<rparr>
      in r\<lparr>au_event_hash := record_hash h r\<rparr>)"

fun verify_from :: "hash_env \<Rightarrow> int \<Rightarrow> digest \<Rightarrow> audit_record list \<Rightarrow> bool" where
  "verify_from h expected_sequence previous_hash [] = True"
| "verify_from h expected_sequence previous_hash (r # rs) =
     (if au_sequence r \<noteq> expected_sequence \<or> au_previous_hash r \<noteq> previous_hash then False
      else if record_hash h r \<noteq> au_event_hash r then False
      else verify_from h (expected_sequence + 1) (au_event_hash r) rs)"

definition verify_audit_chain :: "hash_env \<Rightarrow> audit_record list \<Rightarrow> bool" where
  "verify_audit_chain h records = verify_from h 0 genesis_hash records"

subsection \<open>The stores\<close>

type_synonym audit_records = "tenant \<rightharpoonup> audit_record list"

definition records_of :: "audit_records \<Rightarrow> tenant \<Rightarrow> audit_record list" where
  "records_of s t = (case s t of None \<Rightarrow> [] | Some rs \<Rightarrow> rs)"

definition next_record :: "hash_env \<Rightarrow> uuid \<Rightarrow> audit_draft \<Rightarrow> audit_record list \<Rightarrow> audit_record" where
  "next_record h event_id draft rs =
     build_audit_record h event_id draft (int (length rs)) (if rs = [] then genesis_hash else au_event_hash (last rs))"

definition audit_append :: "hash_env \<Rightarrow> uuid \<Rightarrow> audit_draft \<Rightarrow> audit_records \<Rightarrow> audit_record \<times> audit_records" where
  "audit_append h event_id draft s =
     (let rs = records_of s (ad_tenant_id draft); r = next_record h event_id draft rs
      in (r, s(ad_tenant_id draft \<mapsto> rs @ [r])))"

record json_codec =
  js_dumps :: "doc \<Rightarrow> unicode_text"
  js_loads :: "unicode_text \<Rightarrow> doc option"

record jsonl_store =
  jl_records :: audit_records
  jl_file :: unicode_text

text \<open>How a write ends: completely, or with an \<^verbatim>\<open>OSError\<close> (of \<^verbatim>\<open>fsync\<close>, for instance) after some of the line is in the file.\<close>

datatype disk_outcome = Disk_ok | Disk_fails nat

definition record_line :: "json_codec \<Rightarrow> audit_record \<Rightarrow> unicode_text" where
  "record_line js r = js_dumps js (record_document r) @ [10]"

definition jsonl_append ::
  "hash_env \<Rightarrow> json_codec \<Rightarrow> disk_outcome \<Rightarrow> uuid \<Rightarrow> audit_draft \<Rightarrow> jsonl_store \<Rightarrow> (audit_error + audit_record) \<times> jsonl_store" where
  "jsonl_append h js disk event_id draft s =
     (let t = ad_tenant_id draft; rs = records_of (jl_records s) t; r = next_record h event_id draft rs; line = record_line js r
      in case disk of
           Disk_fails k \<Rightarrow> (Inl Audit_os_error, \<lparr>jl_records = (jl_records s)(t \<mapsto> rs), jl_file = jl_file s @ take k line\<rparr>)
         | Disk_ok \<Rightarrow> (Inr r, \<lparr>jl_records = (jl_records s)(t \<mapsto> rs @ [r]), jl_file = jl_file s @ line\<rparr>))"

subsection \<open>Loading a file\<close>

text \<open>Text files are read with universal newlines; \<^verbatim>\<open>str.isspace\<close> of one character.\<close>

fun universal_newlines :: "unicode_text \<Rightarrow> unicode_text" where
  "universal_newlines [] = []"
| "universal_newlines [c] = (if c = 13 then [10] else [c])"
| "universal_newlines (c # c' # cs) =
     (if c = 13 then (if c' = 10 then universal_newlines (c' # cs) else 10 # universal_newlines (c' # cs))
      else c # universal_newlines (c' # cs))"

definition is_py_space :: "code_point \<Rightarrow> bool" where
  "is_py_space c \<longleftrightarrow> 9 \<le> c \<and> c \<le> 13 \<or> 28 \<le> c \<and> c \<le> 32 \<or> 0x2000 \<le> c \<and> c \<le> 0x200A
     \<or> c \<in> {0x85, 0xA0, 0x1680, 0x2028, 0x2029, 0x202F, 0x205F, 0x3000}"

fun text_option :: "doc \<Rightarrow> string option option" where
  "text_option DNull = Some None"
| "text_option (DStr s) = Some (Some s)"
| "text_option d = None"

text \<open>The record of a parsed line; a missing or unfit field raises.\<close>

definition read_record :: "doc \<Rightarrow> audit_error + audit_record" where
  "read_record d =
     (case d of DObj kvs \<Rightarrow>
        (case (map_of kvs ''event_id'', map_of kvs ''tenant_id'', map_of kvs ''sequence'', map_of kvs ''category'',
               map_of kvs ''action'', map_of kvs ''outcome'', map_of kvs ''actor_ref'', map_of kvs ''occurred_at'',
               map_of kvs ''previous_hash'', map_of kvs ''event_hash'') of
           (Some (DStr event_id), Some (DStr tenant_id), Some (DInt sequence), Some (DStr category), Some (DStr action),
            Some (DStr outcome), Some (DStr actor_ref), Some (DTime occurred_at), Some (DStr previous_hash),
            Some (DStr event_hash)) \<Rightarrow>
             (case (text_option (field ''target_ref'' kvs), text_option (field ''trace_id'' kvs),
                    text_option (field ''envelope_id'' kvs),
                    case map_of kvs ''metadata'' of None \<Rightarrow> Some [] | Some (DObj m) \<Rightarrow> Some m | _ \<Rightarrow> None) of
                (Some target_ref, Some trace_id, Some envelope_id, Some metadata) \<Rightarrow>
                  Inr \<lparr>au_event_id = event_id, au_sequence = sequence,
                       au_draft = \<lparr>ad_tenant_id = tenant_id, ad_category = category, ad_action = action,
                         ad_outcome = outcome, ad_actor_ref = actor_ref, ad_target_ref = target_ref,
                         ad_trace_id = trace_id, ad_envelope_id = envelope_id, ad_metadata = metadata,
                         ad_occurred_at = occurred_at\<rparr>,
                       au_previous_hash = previous_hash, au_event_hash = event_hash\<rparr>
              | _ \<Rightarrow> Inl Audit_field)
         | _ \<Rightarrow> Inl Audit_field)
      | _ \<Rightarrow> Inl Audit_field)"

definition load_line :: "json_codec \<Rightarrow> unicode_text \<Rightarrow> audit_records \<Rightarrow> audit_error + audit_records" where
  "load_line js line s =
     (if list_all is_py_space line then Inr s
      else case js_loads js line of
             None \<Rightarrow> Inl Audit_json
           | Some d \<Rightarrow> rbind (read_record d) (\<lambda>r.
               let t = ad_tenant_id (au_draft r) in Inr (s(t \<mapsto> records_of s t @ [r]))))"

fun load_lines :: "json_codec \<Rightarrow> unicode_text list \<Rightarrow> audit_records \<Rightarrow> audit_error + audit_records" where
  "load_lines js [] s = Inr s"
| "load_lines js (line # lines) s = rbind (load_line js line s) (load_lines js lines)"

text \<open>The constructor; the tenants of the file are those of its records.\<close>

definition tenants_of :: "json_codec \<Rightarrow> unicode_text list \<Rightarrow> tenant list" where
  "tenants_of js lines = List.map_filter (\<lambda>line. case js_loads js line of None \<Rightarrow> None
     | Some d \<Rightarrow> (case read_record d of Inl _ \<Rightarrow> None | Inr r \<Rightarrow> Some (ad_tenant_id (au_draft r)))) lines"

definition load_existing :: "hash_env \<Rightarrow> json_codec \<Rightarrow> unicode_text \<Rightarrow> audit_error + jsonl_store" where
  "load_existing h js text =
     (let lines = split_lines [] (universal_newlines text)
      in rbind (load_lines js lines Map.empty) (\<lambda>s.
         if list_all (\<lambda>t. verify_audit_chain h (records_of s t)) (tenants_of js lines)
         then Inr \<lparr>jl_records = s, jl_file = text\<rparr> else Inl Audit_chain))"

text \<open>\<^verbatim>\<open>AuditService.record\<close> over either store.\<close>

definition service_result :: "bool \<Rightarrow> (audit_error + audit_record) \<Rightarrow> app_error + audit_record option" where
  "service_result critical r =
     (case r of
        Inr record \<Rightarrow> Inr (Some record)
      | Inl _ \<Rightarrow> if critical then Inl (liyan ''LIYAN-AUDIT-WRITE-FAILED'' EC_AUDIT False 503) else Inr None)"


subsection \<open>The chain\<close>

lemma verify_from_snoc:
  "verify_from h n p (rs @ [r]) \<longleftrightarrow> verify_from h n p rs \<and> au_sequence r = n + int (length rs)
     \<and> au_previous_hash r = (if rs = [] then p else au_event_hash (last rs)) \<and> record_hash h r = au_event_hash r"
  by (induction rs arbitrary: n p) auto

lemma next_record_verifies:
  assumes "verify_audit_chain h rs"
  shows "verify_audit_chain h (rs @ [next_record h i d rs])"
  using assms
  by (simp add: verify_audit_chain_def verify_from_snoc next_record_def build_audit_record_def record_hash_def audit_fields_def Let_def)

lemma next_record_fields [simp]: "au_draft (next_record h i d rs) = d" "au_event_id (next_record h i d rs) = i"
  "au_sequence (next_record h i d rs) = int (length rs)"
  by (simp_all add: next_record_def build_audit_record_def Let_def)

definition audit_run :: "hash_env \<Rightarrow> (uuid \<times> audit_draft) list \<Rightarrow> audit_records" where
  "audit_run h calls = fold (\<lambda>(i, d) s. snd (audit_append h i d s)) calls Map.empty"

text \<open>
  The chain is never broken.  After any appends for any tenants, the records of a tenant pass the verification, and they are,
  in order, exactly what was appended for that tenant.
\<close>

theorem audit_chain_unbroken:
  "verify_audit_chain h (records_of (audit_run h calls) t)
   \<and> map (\<lambda>r. (au_event_id r, au_draft r)) (records_of (audit_run h calls) t)
       = filter (\<lambda>(i, d). ad_tenant_id d = t) calls"
proof (induction calls rule: rev_induct)
  case Nil
  show ?case by (simp add: audit_run_def records_of_def verify_audit_chain_def)
next
  case (snoc c calls)
  obtain i d where c: "c = (i, d)" by (rule prod.exhaust)
  have run: "audit_run h (calls @ [c]) = snd (audit_append h i d (audit_run h calls))" by (simp add: audit_run_def c)
  show ?case
  proof (cases "ad_tenant_id d = t")
    case True
    then have "records_of (audit_run h (calls @ [c])) t
        = records_of (audit_run h calls) t @ [next_record h i d (records_of (audit_run h calls) t)]"
      unfolding run by (simp add: audit_append_def Let_def records_of_def)
    with snoc True show ?thesis by (simp add: next_record_verifies c)
  next
    case False
    then have "records_of (audit_run h (calls @ [c])) t = records_of (audit_run h calls) t"
      unfolding run by (simp add: audit_append_def Let_def records_of_def)
    with snoc False show ?thesis by (simp add: c)
  qed
qed

lemma audit_fields_inj:
  assumes "DObj (audit_fields r) = DObj (audit_fields r')" "au_event_hash r = au_event_hash r'"
  shows "r = r'"
proof -
  have "opt_doc DStr x = opt_doc DStr y \<Longrightarrow> x = y" for x y by (cases x; cases y) (simp_all add: opt_doc_def)
  with assms show ?thesis by (cases r; cases r'; cases "au_draft r"; cases "au_draft r'") (auto simp: audit_fields_def)
qed

lemma verified_split:
  assumes "verify_audit_chain h (rs @ [r])"
  shows "verify_audit_chain h rs" "au_sequence r = int (length rs)" "record_hash h r = au_event_hash r"
    "rs \<noteq> [] \<Longrightarrow> au_previous_hash r = au_event_hash (last rs)"
  using assms by (simp_all add: verify_audit_chain_def verify_from_snoc)

text \<open>
  C37.  Tampering shows.  Two chains that pass the verification and end in the same hash are the same chain, record by record,
  unless two of their records have different contents with the same hash.
\<close>

theorem audit_tamper_evident:
  assumes "verify_audit_chain h rs" "verify_audit_chain h rs'" "rs \<noteq> []" "rs' \<noteq> []"
    and "au_event_hash (last rs) = au_event_hash (last rs')"
    and "\<forall>r\<in>set rs. \<forall>r'\<in>set rs'. record_hash h r = record_hash h r' \<longrightarrow> audit_fields r = audit_fields r'"
  shows "rs = rs'"
  using assms
proof (induction rs arbitrary: rs' rule: rev_induct)
  case (snoc r rs)
  from snoc.prems(4) obtain r' qs where rs': "rs' = qs @ [r']" by (metis rev_exhaust)
  note v = verified_split [OF snoc.prems(1)] and v' = verified_split [OF snoc.prems(2) [unfolded rs']]
  have "au_event_hash r = au_event_hash r'" using snoc.prems(5) by (simp add: rs')
  then have fields: "audit_fields r = audit_fields r'" using snoc.prems(6) v(3) v'(3) by (auto simp: rs')
  with \<open>au_event_hash r = au_event_hash r'\<close> have eq: "r = r'" by (intro audit_fields_inj) simp_all
  then have len: "length rs = length qs" using v(2) v'(2) by simp
  show ?case
  proof (cases "rs = []")
    case True
    with len eq show ?thesis by (simp add: rs')
  next
    case False
    with len have "qs \<noteq> []" by auto
    with v(4) v'(4) False eq have "au_event_hash (last rs) = au_event_hash (last qs)" by simp
    from snoc.IH [OF v(1) v'(1) False \<open>qs \<noteq> []\<close> this] snoc.prems(6) eq show ?thesis by (simp add: rs')
  qed
qed simp

subsection \<open>The file\<close>

definition jsonl_run :: "hash_env \<Rightarrow> json_codec \<Rightarrow> (disk_outcome \<times> uuid \<times> audit_draft) list \<Rightarrow> jsonl_store" where
  "jsonl_run h js calls =
     fold (\<lambda>(disk, i, d) s. snd (jsonl_append h js disk i d s)) calls \<lparr>jl_records = Map.empty, jl_file = []\<rparr>"

text \<open>A write that fails before the first character leaves nothing behind.\<close>

definition clean_writes :: "(disk_outcome \<times> uuid \<times> audit_draft) list \<Rightarrow> bool" where
  "clean_writes calls = list_all (\<lambda>(disk, _). disk = Disk_ok \<or> disk = Disk_fails 0) calls"

text \<open>What is known of the JSON text of an object: it is parsed back, it has no control character, it begins with a
brace, and no proper beginning of it is JSON.\<close>

definition json_text :: "json_codec \<Rightarrow> doc \<Rightarrow> bool" where
  "json_text js d \<longleftrightarrow> (\<exists>s. js_dumps js d = 123 # s) \<and> (\<forall>c\<in>set (js_dumps js d). 32 \<le> c) \<and> js_loads js (js_dumps js d) = Some d
     \<and> (\<forall>p q. js_dumps js d = p @ q \<longrightarrow> q \<noteq> [] \<longrightarrow> js_loads js p = None)"

definition plain_text :: "unicode_text \<Rightarrow> bool" where
  "plain_text s = list_all (\<lambda>c. c \<notin> {0x85, 0x2028, 0x2029}) s"

lemma plain_text_boundary:
  assumes "json_text js d"
  shows "plain_text (js_dumps js d) \<longleftrightarrow> (\<forall>c\<in>set (js_dumps js d). \<not> is_line_boundary c)"
proof -
  have "is_line_boundary c \<longleftrightarrow> c \<in> {0x85, 0x2028, 0x2029}" if "c \<in> set (js_dumps js d)" for c
    using assms that by (fastforce simp: is_line_boundary_def json_text_def)
  then show ?thesis by (auto simp: plain_text_def list_all_iff)
qed

lemma universal_newlines_id: "13 \<notin> set s \<Longrightarrow> universal_newlines s = s"
  by (induction s rule: universal_newlines.induct) auto

lemma read_record_document [simp]: "read_record (record_document r) = Inr r"
proof -
  have "text_option (opt_doc DStr x) = Some x" for x by (cases x) (simp_all add: opt_doc_def)
  then show ?thesis
    by (cases r; cases "au_draft r") (simp add: read_record_def record_document_def audit_fields_def field_def Let_def)
qed

definition file_of :: "json_codec \<Rightarrow> audit_record list \<Rightarrow> unicode_text" where
  "file_of js w = concat (map (record_line js) w)"

definition of_tenant :: "tenant \<Rightarrow> audit_record list \<Rightarrow> audit_record list" where
  "of_tenant t w = filter (\<lambda>r. ad_tenant_id (au_draft r) = t) w"

text \<open>The records in the file, whole and in order, are those in memory.\<close>

definition mirrors :: "hash_env \<Rightarrow> json_codec \<Rightarrow> audit_record list \<Rightarrow> jsonl_store \<Rightarrow> bool" where
  "mirrors h js w s \<longleftrightarrow> jl_file s = file_of js w
     \<and> (\<forall>t. records_of (jl_records s) t = of_tenant t w \<and> verify_audit_chain h (of_tenant t w))"

lemma mirrors_append:
  assumes "mirrors h js w s" "disk = Disk_ok \<or> disk = Disk_fails 0"
  shows "\<exists>w'. mirrors h js w' (snd (jsonl_append h js disk i d s))"
proof (cases "disk = Disk_ok")
  case False
  with assms have "mirrors h js w (snd (jsonl_append h js disk i d s))"
    by (auto simp: mirrors_def jsonl_append_def Let_def records_of_def of_tenant_def)
  then show ?thesis by blast
next
  case True
  let ?rs = "records_of (jl_records s) (ad_tenant_id d)"
  have rs: "?rs = of_tenant (ad_tenant_id d) w" and "verify_audit_chain h ?rs" using assms(1) by (simp_all add: mirrors_def)
  then have v: "verify_audit_chain h (?rs @ [next_record h i d ?rs])" by (intro next_record_verifies)
  have "mirrors h js (w @ [next_record h i d ?rs]) (snd (jsonl_append h js disk i d s))"
    using assms(1) v True by (auto simp: mirrors_def jsonl_append_def Let_def file_of_def of_tenant_def records_of_def)
  then show ?thesis by blast
qed

lemma clean_run_mirrors:
  assumes "clean_writes calls"
  shows "\<exists>w. mirrors h js w (jsonl_run h js calls)"
  using assms
proof (induction calls rule: rev_induct)
  case Nil
  have "mirrors h js [] (jsonl_run h js [])"
    by (simp add: mirrors_def jsonl_run_def file_of_def of_tenant_def records_of_def verify_audit_chain_def)
  then show ?case by blast
next
  case (snoc c calls)
  obtain disk i d where c: "c = (disk, i, d)" by (rule prod_cases3)
  with snoc obtain w where "mirrors h js w (jsonl_run h js calls)" by (auto simp: clean_writes_def)
  from mirrors_append [OF this, of disk i d] snoc.prems c show ?case by (simp add: jsonl_run_def clean_writes_def)
qed

lemma file_control_free:
  assumes "\<forall>r\<in>set w. json_text js (record_document r)"
  shows "13 \<notin> set (file_of js w)"
proof
  assume "13 \<in> set (file_of js w)"
  then obtain r where "r \<in> set w" "13 \<in> set (js_dumps js (record_document r))"
    by (auto simp: file_of_def record_line_def split: if_splits)
  with assms have "32 \<le> (13 :: int)" unfolding json_text_def by blast
  then show False by simp
qed

lemma split_file:
  assumes "\<forall>r\<in>set w. \<forall>c\<in>set (js_dumps js (record_document r)). \<not> is_line_boundary c"
  shows "split_lines [] (file_of js w @ rest) = map (\<lambda>r. js_dumps js (record_document r)) w @ split_lines [] rest"
  using assms
proof (induction w)
  case (Cons r w)
  have "split_lines [] (js_dumps js (record_document r) @ 10 # (file_of js w @ rest))
      = ([] @ js_dumps js (record_document r)) # split_lines [] (file_of js w @ rest)"
    using Cons.prems by (intro split_lines_first) (simp_all add: is_line_boundary_def)
  with Cons show ?case by (simp add: file_of_def record_line_def)
qed (simp add: file_of_def)

lemma json_text_not_blank: "json_text js d \<Longrightarrow> \<not> list_all is_py_space (js_dumps js d)"
  by (auto simp: json_text_def is_py_space_def)

lemma load_lines_append: "load_lines js (ls @ ls') s = rbind (load_lines js ls s) (load_lines js ls')"
proof (induction ls arbitrary: s)
  case (Cons l ls)
  then show ?case by (cases "load_line js l s") simp_all
qed simp


lemma load_written:
  assumes "\<forall>r\<in>set w. json_text js (record_document r)"
  shows "\<exists>s'. load_lines js (map (\<lambda>r. js_dumps js (record_document r)) w) s = Inr s'
    \<and> (\<forall>t. records_of s' t = records_of s t @ of_tenant t w)"
  using assms
proof (induction w arbitrary: s)
  case Nil
  show ?case by (simp add: of_tenant_def)
next
  case (Cons r w)
  let ?t = "ad_tenant_id (au_draft r)"
  let ?s = "s(?t \<mapsto> records_of s ?t @ [r])"
  have "json_text js (record_document r)" using Cons.prems by simp
  then have "load_line js (js_dumps js (record_document r)) s = Inr ?s"
    using json_text_not_blank [of js "record_document r"] by (simp add: load_line_def json_text_def Let_def)
  moreover obtain s' where "load_lines js (map (\<lambda>r. js_dumps js (record_document r)) w) ?s = Inr s'"
    "\<forall>t. records_of s' t = records_of ?s t @ of_tenant t w" using Cons.IH [of ?s] Cons.prems by (metis list.set_intros(2))
  moreover have "records_of ?s t @ of_tenant t w = records_of s t @ of_tenant t (r # w)" for t
    by (simp add: records_of_def of_tenant_def)
  ultimately show ?case by simp
qed

lemma tenants_written:
  assumes "\<forall>r\<in>set w. json_text js (record_document r)"
  shows "set (tenants_of js (map (\<lambda>r. js_dumps js (record_document r)) w)) = (\<lambda>r. ad_tenant_id (au_draft r)) ` set w"
  using assms by (induction w) (auto simp: tenants_of_def List.map_filter_def json_text_def)

text \<open>What the file of some records loads to, whoever wrote them.\<close>

lemma load_file:
  assumes "\<forall>r\<in>set w. json_text js (record_document r) \<and> plain_text (js_dumps js (record_document r))"
  shows "\<exists>s'. (\<forall>t. records_of s' t = of_tenant t w)
    \<and> load_existing h js (file_of js w) = (if \<forall>t. verify_audit_chain h (of_tenant t w)
        then Inr \<lparr>jl_records = s', jl_file = file_of js w\<rparr> else Inl Audit_chain)"
proof -
  let ?ls = "map (\<lambda>r. js_dumps js (record_document r)) w"
  have json: "\<forall>r\<in>set w. json_text js (record_document r)" using assms by blast
  have "\<forall>r\<in>set w. \<forall>c\<in>set (js_dumps js (record_document r)). \<not> is_line_boundary c"
    using assms plain_text_boundary by blast
  from split_file [OF this, of "[]"] have lines: "split_lines [] (universal_newlines (file_of js w)) = ?ls"
    using universal_newlines_id [OF file_control_free [OF json]] by simp
  from load_written [OF json, of Map.empty] obtain s' where s': "load_lines js ?ls Map.empty = Inr s'"
    "\<forall>t. records_of s' t = of_tenant t w" by (auto simp: records_of_def)
  have "of_tenant t w = []" if "t \<notin> (\<lambda>r. ad_tenant_id (au_draft r)) ` set w" for t
    using that by (auto simp: of_tenant_def filter_empty_conv)
  then have "list_all (\<lambda>t. verify_audit_chain h (records_of s' t)) (tenants_of js ?ls)
      \<longleftrightarrow> (\<forall>t. verify_audit_chain h (of_tenant t w))"
    unfolding list_all_iff tenants_written [OF json] s'(2) [rule_format]
    by (metis verify_audit_chain_def verify_from.simps(1))
  with s' show ?thesis by (auto simp: load_existing_def lines Let_def)
qed

text \<open>
  C38.  What a restart finds.  After any appends, some of which may have failed without writing, the file loads again to the records
  that were in memory, if no text of a record contains one of the separators U+0085, U+2028 and U+2029.  If one does, the file cannot be
  loaded any more, because lines are split at these characters as well.
\<close>

theorem jsonl_reload:
  assumes "clean_writes calls" "jsonl_run h js calls = s"
    and "\<forall>t. list_all (\<lambda>r. json_text js (record_document r)) (records_of (jl_records s) t)"
  shows "if \<forall>t. list_all (\<lambda>r. plain_text (js_dumps js (record_document r))) (records_of (jl_records s) t)
    then \<exists>s'. load_existing h js (jl_file s) = Inr s' \<and> jl_file s' = jl_file s
           \<and> (\<forall>t. records_of (jl_records s') t = records_of (jl_records s) t)
    else load_existing h js (jl_file s) = Inl Audit_json"
proof -
  from clean_run_mirrors [OF assms(1)] assms(2) obtain w where w: "mirrors h js w s" by blast
  then have held: "jl_file s = file_of js w" and recs: "\<And>t. records_of (jl_records s) t = of_tenant t w"
    and chain: "\<And>t. verify_audit_chain h (of_tenant t w)" by (simp_all add: mirrors_def)
  have every: "(\<forall>t. list_all P (of_tenant t w)) \<longleftrightarrow> (\<forall>r\<in>set w. P r)" for P
    by (auto simp: of_tenant_def list_all_iff)
  have json: "\<forall>r\<in>set w. json_text js (record_document r)" using assms(3) by (simp add: recs every)
  let ?text = "\<lambda>r. js_dumps js (record_document r)"
  show ?thesis
  proof (cases "\<forall>r\<in>set w. plain_text (?text r)")
    case True
    with load_file [of w js h] json chain obtain s' where "\<forall>t. records_of s' t = of_tenant t w"
      "load_existing h js (file_of js w) = Inr \<lparr>jl_records = s', jl_file = file_of js w\<rparr>" by auto
    with True show ?thesis by (simp add: recs every held)
  next
    case False
    then obtain w1 r w2 where split: "w = w1 @ r # w2" "\<not> plain_text (?text r)" "\<forall>r\<in>set w1. plain_text (?text r)"
      using split_list_first_prop [of w "\<lambda>r. \<not> plain_text (?text r)"] by blast
    have jr: "json_text js (record_document r)" using json split(1) by simp
    with split(2) plain_text_boundary have "\<exists>c\<in>set (?text r). is_line_boundary c" by blast
    then obtain a c b where t: "?text r = a @ c # b" "is_line_boundary c" "\<forall>x\<in>set a. \<not> is_line_boundary x"
      using split_list_first_prop [of "?text r" is_line_boundary] by blast
    have c13: "c \<noteq> 13" using jr t(1) by (auto simp: json_text_def)
    have pre: "\<forall>r\<in>set w1. \<forall>c\<in>set (?text r). \<not> is_line_boundary c" using plain_text_boundary json split(1,3) by auto
    have "file_of js w = file_of js w1 @ a @ c # (b @ 10 # file_of js w2)"
      by (simp add: split(1) file_of_def record_line_def t(1))
    then have "split_lines [] (universal_newlines (file_of js w)) = map ?text w1 @ a # split_lines [] (b @ 10 # file_of js w2)"
      using universal_newlines_id [OF file_control_free [OF json]] split_file [OF pre] split_lines_first [OF t(3,2) c13, of "[]"]
      by simp
    moreover have "js_loads js a = None" using jr t(1) unfolding json_text_def by blast
    moreover have "\<not> list_all is_py_space a"
    proof -
      obtain s0 where "a @ c # b = 123 # s0" using jr t(1) by (auto simp: json_text_def)
      then show ?thesis using t(2) by (cases a) (auto simp: is_line_boundary_def is_py_space_def)
    qed
    moreover have "\<exists>s1. load_lines js (map ?text w1) Map.empty = Inr s1" using load_written [of w1 js Map.empty] json split(1) by auto
    ultimately have "load_existing h js (file_of js w) = Inl Audit_json"
      by (auto simp: load_existing_def Let_def load_lines_append load_line_def)
    with False show ?thesis by (auto simp: recs every held)
  qed
qed

text \<open>
  C39.  A failed flush breaks the log.  When an append writes its line and then fails, the next append for the tenant succeeds with the
  same sequence number and previous hash as the record that was lost, both lines are in the file, and the file cannot be loaded at
  the next start.
\<close>

theorem unsynced_append_breaks_restart:
  assumes "clean_writes calls" "jsonl_run h js calls = s"
    and "jsonl_append h js (Disk_fails k) i d s = (failed, s1)" "jsonl_append h js Disk_ok i' d' s1 = (answer, s2)"
    and "ad_tenant_id d' = ad_tenant_id d"
    and "length (record_line js (next_record h i d (records_of (jl_records s) (ad_tenant_id d)))) \<le> k"
    and "list_all (\<lambda>r. json_text js (record_document r) \<and> plain_text (js_dumps js (record_document r)))
       [next_record h i d (records_of (jl_records s) (ad_tenant_id d)), next_record h i' d' (records_of (jl_records s) (ad_tenant_id d))]"
    and "\<forall>t. list_all (\<lambda>r. json_text js (record_document r) \<and> plain_text (js_dumps js (record_document r)))
       (records_of (jl_records s) t)"
  shows "failed = Inl Audit_os_error
    \<and> (let lost = next_record h i d (records_of (jl_records s) (ad_tenant_id d))
       in \<exists>r. answer = Inr r \<and> au_sequence r = au_sequence lost \<and> au_previous_hash r = au_previous_hash lost
            \<and> jl_file s2 = jl_file s @ record_line js lost @ record_line js r)
    \<and> load_existing h js (jl_file s2) = Inl Audit_chain"
proof -
  from clean_run_mirrors [OF assms(1)] assms(2) obtain w where w: "mirrors h js w s" by blast
  define rs where "rs = of_tenant (ad_tenant_id d) w"
  have recs: "\<And>t. records_of (jl_records s) t = of_tenant t w" and held: "jl_file s = file_of js w" using w by (simp_all add: mirrors_def)
  define r where "r = next_record h i d rs"
  define r' where "r' = next_record h i' d' rs"
  have s1: "failed = Inl Audit_os_error" "jl_file s1 = file_of js (w @ [r])" "records_of (jl_records s1) (ad_tenant_id d) = rs"
    using assms(3,6) by (auto simp: jsonl_append_def Let_def recs held rs_def r_def file_of_def records_of_def [of "_(_ \<mapsto> _)"])
  have s2: "answer = Inr r'" "jl_file s2 = file_of js (w @ [r, r'])"
    using assms(4,5) s1(2,3) by (auto simp: jsonl_append_def Let_def r'_def file_of_def)
  have tenants: "of_tenant (ad_tenant_id d) (w @ [r, r']) = (rs @ [r]) @ [r']"
    using assms(5) by (simp add: of_tenant_def rs_def r_def r'_def)
  have "\<not> verify_audit_chain h ((rs @ [r]) @ [r'])"
    unfolding verify_audit_chain_def verify_from_snoc [of h 0 genesis_hash "rs @ [r]" r'] by (simp add: r'_def)
  with tenants have broken: "\<not> (\<forall>t. verify_audit_chain h (of_tenant t (w @ [r, r'])))" by metis
  have "\<forall>x\<in>set w. json_text js (record_document x) \<and> plain_text (js_dumps js (record_document x))"
    using assms(8) by (auto simp: recs of_tenant_def list_all_iff)
  moreover have "json_text js (record_document x) \<and> plain_text (js_dumps js (record_document x))" if "x \<in> {r, r'}" for x
    using assms(7) that unfolding recs rs_def [symmetric] r_def [symmetric] r'_def [symmetric] by auto
  ultimately have "\<forall>x\<in>set (w @ [r, r']). json_text js (record_document x) \<and> plain_text (js_dumps js (record_document x))" by auto
  from load_file [OF this, of h] broken s2(2) have "load_existing h js (jl_file s2) = Inl Audit_chain" by auto
  moreover have "au_sequence r' = au_sequence r" "au_previous_hash r' = au_previous_hash r"
    by (simp_all add: r_def r'_def next_record_def build_audit_record_def Let_def)
  moreover have "jl_file s2 = jl_file s @ record_line js r @ record_line js r'" using s2(2) held by (simp add: file_of_def)
  ultimately show ?thesis using s1(1) s2(1) by (simp add: recs flip: rs_def r_def)
qed


subsection \<open>A concrete log\<close>

definition sample_draft :: audit_draft where
  "sample_draft = \<lparr>ad_tenant_id = ''t'', ad_category = ''TOPIC3'', ad_action = ''AGENT_TASK_STARTED'', ad_outcome = ''SUCCEEDED'',
     ad_actor_ref = ''worker'', ad_target_ref = Some ''task'', ad_trace_id = None, ad_envelope_id = None, ad_metadata = [],
     ad_occurred_at = 7\<rparr>"

definition sample_audit_env :: hash_env where
  "sample_audit_env = \<lparr>c_sha = (\<lambda>d. case d of DObj ((_, DStr i) # _) \<Rightarrow> i | _ \<Rightarrow> []), c_uuid5 = (\<lambda>ns name. ns @ name)\<rparr>"

definition sample_record :: "uuid \<Rightarrow> audit_record" where
  "sample_record i = next_record sample_audit_env i sample_draft []"

definition sample_json :: json_codec where
  "sample_json = \<lparr>js_dumps = (\<lambda>d. if d = record_document (sample_record ''a'') then [123, 97, 125] else [123, 98, 125]),
     js_loads = (\<lambda>s. if s = [123, 97, 125] then Some (record_document (sample_record ''a''))
                   else if s = [123, 98, 125] then Some (record_document (sample_record ''b'')) else None)\<rparr>"

lemma sample_texts:
  "json_text sample_json (record_document (sample_record ''a''))" "json_text sample_json (record_document (sample_record ''b''))"
  "plain_text (js_dumps sample_json d)"
proof -
  have dumps: "js_dumps sample_json (record_document (sample_record ''a'')) = [123, 97, 125]"
    "js_dumps sample_json (record_document (sample_record ''b'')) = [123, 98, 125]"
    by (simp_all add: sample_json_def sample_record_def next_record_def build_audit_record_def record_document_def
        audit_fields_def Let_def)
  have "js_loads sample_json p = None" if "s = p @ q" "q \<noteq> []" "length s = 3" for s p q
  proof -
    have "length p < 3" using that by (metis append_eq_conv_conj drop_eq_Nil length_append less_add_same_cancel1 linorder_not_less)
    then have "p \<noteq> [123, 97, 125]" "p \<noteq> [123, 98, 125]" by auto
    then show ?thesis by (simp add: sample_json_def)
  qed
  then show "json_text sample_json (record_document (sample_record ''a''))" "json_text sample_json (record_document (sample_record ''b''))"
    unfolding json_text_def dumps by (auto simp: sample_json_def)
  show "plain_text (js_dumps sample_json d)" by (simp add: sample_json_def plain_text_def)
qed

theorem audit_tamper_evident_witness:
  "verify_audit_chain sample_audit_env [sample_record ''a'']
   \<and> [sample_record ''a''] = [next_record sample_audit_env ''a'' sample_draft []]"
proof -
  have v: "verify_audit_chain sample_audit_env [sample_record ''a'']" by code_simp
  then have "verify_audit_chain sample_audit_env [next_record sample_audit_env ''a'' sample_draft []]" by (simp add: sample_record_def)
  from audit_tamper_evident [OF v this] v show ?thesis by (simp add: sample_record_def)
qed

theorem jsonl_reload_witness:
  "\<exists>s. load_existing sample_audit_env sample_json
      (jl_file (jsonl_run sample_audit_env sample_json [(Disk_fails 0, ''b'', sample_draft), (Disk_ok, ''a'', sample_draft)])) = Inr s
    \<and> records_of (jl_records s) ''t'' = [sample_record ''a'']"
proof -
  let ?calls = "[(Disk_fails 0, ''b'', sample_draft), (Disk_ok, ''a'', sample_draft)]"
  have recs: "records_of (jl_records (jsonl_run sample_audit_env sample_json ?calls)) t
      = (if t = ''t'' then [sample_record ''a''] else [])" for t
    by (simp add: jsonl_run_def jsonl_append_def records_of_def sample_record_def sample_draft_def Let_def)
  let ?recs = "\<lambda>t. records_of (jl_records (jsonl_run sample_audit_env sample_json ?calls)) t"
  have clean: "clean_writes ?calls" by (simp add: clean_writes_def)
  have json: "\<forall>t. list_all (\<lambda>r. json_text sample_json (record_document r)) (?recs t)" unfolding recs using sample_texts(1) by simp
  have plain: "\<forall>t. list_all (\<lambda>r. plain_text (js_dumps sample_json (record_document r))) (?recs t)"
    unfolding recs using sample_texts(3) by simp
  from jsonl_reload [OF clean refl json, unfolded if_P [OF plain]] recs show ?thesis by auto
qed

theorem unsynced_append_breaks_restart_witness:
  "\<exists>s1 s2. jsonl_append sample_audit_env sample_json (Disk_fails 4) ''a'' sample_draft (jsonl_run sample_audit_env sample_json [])
       = (Inl Audit_os_error, s1)
     \<and> jsonl_append sample_audit_env sample_json Disk_ok ''b'' sample_draft s1 = (Inr (sample_record ''b''), s2)
     \<and> load_existing sample_audit_env sample_json (jl_file s2) = Inl Audit_chain"
proof -
  let ?s = "jsonl_run sample_audit_env sample_json []"
  have recs: "records_of (jl_records ?s) t = []" for t by (simp add: jsonl_run_def records_of_def)
  obtain s1 where s1: "jsonl_append sample_audit_env sample_json (Disk_fails 4) ''a'' sample_draft ?s = (Inl Audit_os_error, s1)"
    by (simp add: jsonl_append_def Let_def)
  obtain s2 where s2: "jsonl_append sample_audit_env sample_json Disk_ok ''b'' sample_draft s1 = (Inr (sample_record ''b''), s2)"
    using s1 by (auto simp: jsonl_append_def Let_def records_of_def jsonl_run_def sample_record_def)
  have four: "length (record_line sample_json (next_record sample_audit_env ''a'' sample_draft (records_of (jl_records ?s) (ad_tenant_id sample_draft)))) \<le> 4"
    by (simp add: record_line_def sample_json_def)
  have "clean_writes []" by (simp add: clean_writes_def)
  from unsynced_append_breaks_restart [OF this refl s1 s2 refl four] sample_texts s1 s2 show ?thesis
    by (simp add: recs sample_record_def)
qed

end
