(* ===== verification/Blueprint.thy ===== *)
theory Blueprint
  imports Candidates Learners
begin

text \<open>
  The planning of a generation workflow, \<^verbatim>\<open>ImmutableBlueprintPlanner\<close> of
  \<^verbatim>\<open>backend/src/liyans/domains/topic3/blueprint.py\<close>, with the command, the steps and the blueprint of
  \<^verbatim>\<open>packages/contracts-python/src/liyans_contracts/topic3.py\<close>.  The planner assembles its records with
  \<^verbatim>\<open>model_construct\<close>, which runs no validator.  Of the personalization context the fields that the planner reads are represented.
\<close>

datatype lecturer_depth = LD_FOUNDATION | LD_EXAM_FOCUS | LD_POSTGRADUATE | LD_ENGINEERING

record generation_command =
  gc_operation_id :: uuid
  gc_generation_session_id :: uuid
  gc_learner_ref :: string
  gc_course_id :: string
  gc_target_kp_ids :: "string list"
  gc_requested_resources :: "resource_type list"
  gc_lecturer_depth :: lecturer_depth
  gc_learning_goal :: string
  gc_locale :: string
  gc_max_parallelism :: int
  gc_allow_partial :: bool
  gc_requested_at :: timestamp

definition valid_command :: "generation_command \<Rightarrow> bool" where
  "valid_command c \<longleftrightarrow>
     bounded 1 256 (gc_learner_ref c) \<and> bounded 1 64 (gc_course_id c) \<and> bounded 1 128 (gc_target_kp_ids c)
     \<and> bounded 1 5 (gc_requested_resources c) \<and> bounded 1 512 (gc_learning_goal c)
     \<and> gc_locale c \<in> {''zh-CN'', ''en-US''} \<and> 1 \<le> gc_max_parallelism c \<and> gc_max_parallelism c \<le> 5
     \<and> distinct (gc_target_kp_ids c) \<and> distinct (gc_requested_resources c)"

record blueprint_step =
  gp_task_id :: uuid
  gp_ordinal :: int
  gp_agent :: source_agent
  gp_resource_type :: resource_type
  gp_dependency_task_ids :: "uuid list"
  gp_provider_alias :: provider_alias
  gp_prompt_bundle_version :: string
  gp_timeout_seconds :: rat
  gp_max_attempts :: int
  gp_activation_reasons :: "string list"

definition valid_step :: "blueprint_step \<Rightarrow> bool" where
  "valid_step s \<longleftrightarrow>
     0 \<le> gp_ordinal s \<and> gp_ordinal s \<le> 4 \<and> bounded 0 4 (gp_dependency_task_ids s)
     \<and> is_version_string (gp_prompt_bundle_version s) \<and> 1 \<le> gp_timeout_seconds s \<and> gp_timeout_seconds s \<le> 120
     \<and> 1 \<le> gp_max_attempts s \<and> gp_max_attempts s \<le> 8 \<and> bounded 1 16 (gp_activation_reasons s)
     \<and> gp_resource_type s \<in> set (agent_resources (gp_agent s))
     \<and> gp_task_id s \<notin> set (gp_dependency_task_ids s) \<and> distinct (gp_dependency_task_ids s)"

definition step_doc :: "blueprint_step \<Rightarrow> doc" where
  "step_doc s = DObj
     [(''schema_version'', DStr ''topic3.blueprint-step.v1''), (''task_id'', DStr (gp_task_id s)),
      (''ordinal'', DInt (gp_ordinal s)), (''agent'', DStr (source_agent_value (gp_agent s))),
      (''resource_type'', DStr (resource_type_value (gp_resource_type s))),
      (''dependency_task_ids'', DList (map DStr (gp_dependency_task_ids s))),
      (''provider_alias'', DStr (provider_alias_value (gp_provider_alias s))),
      (''prompt_bundle_version'', DStr (gp_prompt_bundle_version s)), (''timeout_seconds'', DFloat (gp_timeout_seconds s)),
      (''max_attempts'', DInt (gp_max_attempts s)), (''activation_reasons'', DList (map DStr (gp_activation_reasons s)))]"

record blueprint =
  gb_blueprint_id :: uuid
  gb_blueprint_version :: string
  gb_generation_session_id :: uuid
  gb_generation_session_version :: int
  gb_topic1_graph_snapshot_id :: uuid
  gb_topic1_graph_version :: int
  gb_topic1_graph_sha256 :: digest
  gb_topic2_profile_id :: uuid
  gb_topic2_profile_version :: int
  gb_topic2_path_snapshot_id :: uuid
  gb_topic2_path_version :: int
  gb_personalization_policy_digest :: digest
  gb_target_kp_ids :: "string list"
  gb_max_parallelism :: int
  gb_allow_partial :: bool
  gb_activation_policy_version :: string
  gb_steps :: "blueprint_step list"
  gb_blueprint_sha256 :: digest
  gb_created_at :: timestamp

text \<open>The document without the hash.\<close>

definition blueprint_doc :: "blueprint \<Rightarrow> doc" where
  "blueprint_doc b = DObj
     [(''schema_version'', DStr ''topic3.execution-blueprint.v1''), (''blueprint_id'', DStr (gb_blueprint_id b)),
      (''blueprint_version'', DStr (gb_blueprint_version b)), (''generation_session_id'', DStr (gb_generation_session_id b)),
      (''generation_session_version'', DInt (gb_generation_session_version b)),
      (''topic1_graph_snapshot_id'', DStr (gb_topic1_graph_snapshot_id b)),
      (''topic1_graph_version'', DInt (gb_topic1_graph_version b)),
      (''topic1_graph_sha256'', DStr (gb_topic1_graph_sha256 b)), (''topic2_profile_id'', DStr (gb_topic2_profile_id b)),
      (''topic2_profile_version'', DInt (gb_topic2_profile_version b)),
      (''topic2_path_snapshot_id'', DStr (gb_topic2_path_snapshot_id b)),
      (''topic2_path_version'', DInt (gb_topic2_path_version b)),
      (''personalization_policy_digest'', DStr (gb_personalization_policy_digest b)),
      (''target_kp_ids'', DList (map DStr (gb_target_kp_ids b))), (''max_parallelism'', DInt (gb_max_parallelism b)),
      (''allow_partial'', DBool (gb_allow_partial b)),
      (''activation_policy_version'', DStr (gb_activation_policy_version b)),
      (''steps'', DList (map step_doc (gb_steps b))), (''created_at'', DTime (gb_created_at b))]"

text \<open>The loop of the validator over the steps in the order of their ordinals.\<close>

fun known_dependencies :: "uuid set \<Rightarrow> blueprint_step list \<Rightarrow> bool" where
  "known_dependencies known [] = True"
| "known_dependencies known (s # ss) =
     (set (gp_dependency_task_ids s) \<subseteq> known \<and> known_dependencies (insert (gp_task_id s) known) ss)"

definition valid_blueprint :: "hash_env \<Rightarrow> blueprint \<Rightarrow> bool" where
  "valid_blueprint h b \<longleftrightarrow>
     is_version_string (gb_blueprint_version b) \<and> 1 \<le> gb_generation_session_version b \<and> 1 \<le> gb_topic1_graph_version b
     \<and> is_sha256_hex (gb_topic1_graph_sha256 b) \<and> 1 \<le> gb_topic2_profile_version b \<and> 1 \<le> gb_topic2_path_version b
     \<and> is_sha256_hex (gb_personalization_policy_digest b) \<and> bounded 1 128 (gb_target_kp_ids b)
     \<and> 1 \<le> gb_max_parallelism b \<and> gb_max_parallelism b \<le> 5 \<and> is_version_string (gb_activation_policy_version b)
     \<and> bounded 1 5 (gb_steps b) \<and> list_all valid_step (gb_steps b) \<and> is_sha256_hex (gb_blueprint_sha256 b)
     \<and> distinct (map gp_task_id (gb_steps b))
     \<and> sort (map gp_ordinal (gb_steps b)) = map int [0..<length (gb_steps b)]
     \<and> known_dependencies {} (sort_key gp_ordinal (gb_steps b))
     \<and> c_sha h (blueprint_doc b) = gb_blueprint_sha256 b"

subsection \<open>The planner\<close>

record frozen_graph = graph_snapshot +
  gs_content_sha256 :: digest

record agent_context =
  ac_learner_ref :: string
  ac_course_id :: string
  ac_profile :: student_profile
  ac_memory_states :: "memory_state list"
  ac_path_snapshot :: path_snapshot
  ac_personalization_policy_digest :: digest

fun agent_by_resource :: "resource_type \<Rightarrow> source_agent" where
  "agent_by_resource RT_LECTURER_DOC = SA_LECTURER"
| "agent_by_resource RT_MIND_MAP = SA_MIND_MAP"
| "agent_by_resource RT_GRADIENT_QUIZ = SA_TESTER"
| "agent_by_resource RT_SIMULATION_CODE = SA_CODE_SANDBOX"
| "agent_by_resource RT_EXTENSION_MATERIAL = SA_EXTENSION"

fun provider_by_agent :: "source_agent \<Rightarrow> provider_alias" where
  "provider_by_agent SA_LECTURER = PA_spark_text"
| "provider_by_agent SA_MIND_MAP = PA_local"
| "provider_by_agent SA_TESTER = PA_spark_text"
| "provider_by_agent SA_CODE_SANDBOX = PA_xfyun_code"
| "provider_by_agent SA_EXTENSION = PA_spark_text"

fun prompt_version_by_agent :: "source_agent \<Rightarrow> string" where
  "prompt_version_by_agent SA_LECTURER = ''lecturer-prompt-v1''"
| "prompt_version_by_agent SA_MIND_MAP = ''mindmap-deterministic-v1''"
| "prompt_version_by_agent SA_TESTER = ''tester-prompt-v1''"
| "prompt_version_by_agent SA_CODE_SANDBOX = ''code-sandbox-prompt-v1''"
| "prompt_version_by_agent SA_EXTENSION = ''extension-prompt-v1''"

fun timeout_by_agent :: "source_agent \<Rightarrow> rat" where
  "timeout_by_agent SA_LECTURER = 60"
| "timeout_by_agent SA_MIND_MAP = 10"
| "timeout_by_agent SA_TESTER = 60"
| "timeout_by_agent SA_CODE_SANDBOX = 90"
| "timeout_by_agent SA_EXTENSION = 60"

fun resource_order :: "resource_type \<Rightarrow> int" where
  "resource_order RT_LECTURER_DOC = 0"
| "resource_order RT_MIND_MAP = 1"
| "resource_order RT_GRADIENT_QUIZ = 2"
| "resource_order RT_SIMULATION_CODE = 3"
| "resource_order RT_EXTENSION_MATERIAL = 4"

definition lecturer_dependent_agents :: "source_agent list" where
  "lecturer_dependent_agents = [SA_TESTER, SA_CODE_SANDBOX, SA_EXTENSION]"

definition task_id_of :: "hash_env \<Rightarrow> generation_command \<Rightarrow> source_agent \<Rightarrow> uuid" where
  "task_id_of h c agent = c_uuid5 h (gc_operation_id c) (''topic3-task:'' @ source_agent_value agent)"

definition validate_bindings :: "generation_command \<Rightarrow> frozen_graph \<Rightarrow> agent_context \<Rightarrow> app_error + unit" where
  "validate_bindings c g p =
     (let bad = liyan ''LIYAN-CONTRACT-INVALID'' EC_CONTRACT False 422;
          active_ids = map kn_kp_id (filter (\<lambda>k. kn_status k = KS_ACTIVE) (gs_knowledge_points g))
      in rbind (guard (gs_course_id g = gc_course_id c) bad) (\<lambda>_.
         rbind (guard (ac_course_id p = gc_course_id c \<and> ac_learner_ref p = gc_learner_ref c) bad) (\<lambda>_.
         guard (set (gc_target_kp_ids c) \<subseteq> set active_ids) bad)))"

definition activation_signals :: "generation_command \<Rightarrow> agent_context \<Rightarrow> source_agent \<Rightarrow> string list" where
  "activation_signals c p agent =
     (let profile = ac_profile p;
          target_memory = filter (\<lambda>m. my_kp_id m \<in> set (gc_target_kp_ids c)) (ac_memory_states p);
          high_memory_risk = list_ex (\<lambda>m. my_risk_level m \<in> {ML_HIGH, ML_CRITICAL}) target_memory;
          low_retrievability = list_ex (\<lambda>m. my_retrievability m < fl (6/10)) target_memory;
          signals =
            (if sp_knowledge_mastery profile < fl (6/10)
             then [(SA_LECTURER, ''low-knowledge-mastery''), (SA_TESTER, ''diagnose-mastery-deficit'')] else [])
            @ (if high_memory_risk \<or> low_retrievability
               then [(SA_LECTURER, ''memory-reinforcement-required''), (SA_TESTER, ''retrieval-practice-required''),
                     (SA_MIND_MAP, ''highlight-memory-risk'')] else [])
            @ (if fl (5/10) \<le> sp_misconception_preference profile
               then [(SA_LECTURER, ''misconception-remediation''), (SA_TESTER, ''misconception-diagnostics'')] else [])
            @ (if gc_lecturer_depth c = LD_ENGINEERING
               then [(SA_CODE_SANDBOX, ''engineering-depth-selected''), (SA_EXTENSION, ''industry-extension-selected'')] else [])
            @ (if fl (65/100) \<le> sp_learning_goal_tendency profile then [(SA_EXTENSION, ''advanced-goal-tendency'')] else [])
            @ (if sp_learning_pace profile < fl (4/10) then [(SA_LECTURER, ''slower-pacing'')] else [])
      in map snd (filter (\<lambda>(a, _). a = agent) signals))"

definition make_step ::
  "hash_env \<Rightarrow> generation_command \<Rightarrow> agent_context \<Rightarrow> source_agent list \<Rightarrow> nat \<times> resource_type \<Rightarrow> blueprint_step" where
  "make_step h c p agents = (\<lambda>(ordinal, resource).
     let agent = agent_by_resource resource
     in \<lparr>gp_task_id = task_id_of h c agent, gp_ordinal = int ordinal, gp_agent = agent, gp_resource_type = resource,
         gp_dependency_task_ids =
           (if SA_LECTURER \<in> set agents \<and> agent \<in> set lecturer_dependent_agents then [task_id_of h c SA_LECTURER] else []),
         gp_provider_alias = provider_by_agent agent, gp_prompt_bundle_version = prompt_version_by_agent agent,
         gp_timeout_seconds = timeout_by_agent agent, gp_max_attempts = 3,
         gp_activation_reasons = ''explicit-resource-request'' # activation_signals c p agent\<rparr>)"

definition all_agents :: "source_agent list" where
  "all_agents = [SA_LECTURER, SA_MIND_MAP, SA_TESTER, SA_CODE_SANDBOX, SA_EXTENSION]"

definition activation_document :: "generation_command \<Rightarrow> agent_context \<Rightarrow> blueprint \<Rightarrow> doc" where
  "activation_document c p b = DObj
     [(''policy_version'', DStr ''topic3-activation-v1''),
      (''signals'', DObj (map (\<lambda>a. (source_agent_value a, DList (map DStr (activation_signals c p a)))) all_agents)),
      (''requested_resources'', DList (map (\<lambda>r. DStr (resource_type_value r)) (gc_requested_resources c))),
      (''selected_agents'', DList (map (\<lambda>s. DStr (source_agent_value (gp_agent s))) (gb_steps b))),
      (''max_parallelism'', DInt (gb_max_parallelism b)), (''allow_partial'', DBool (gb_allow_partial b))]"

definition build_blueprint ::
  "hash_env \<Rightarrow> generation_command \<Rightarrow> frozen_graph \<Rightarrow> agent_context \<Rightarrow> app_error + blueprint \<times> doc" where
  "build_blueprint h c g p =
     rbind (validate_bindings c g p) (\<lambda>_.
     let ordered = sort_key resource_order (gc_requested_resources c);
         steps = map (make_step h c p (map agent_by_resource ordered)) (enumerate 0 ordered);
         unvalidated =
           \<lparr>gb_blueprint_id = c_uuid5 h (gc_operation_id c) ''topic3-blueprint'', gb_blueprint_version = ''topic3-blueprint-v1'',
            gb_generation_session_id = gc_generation_session_id c, gb_generation_session_version = 1,
            gb_topic1_graph_snapshot_id = gs_snapshot_id g, gb_topic1_graph_version = gs_graph_version g,
            gb_topic1_graph_sha256 = gs_content_sha256 g, gb_topic2_profile_id = sp_profile_id (ac_profile p),
            gb_topic2_profile_version = sp_profile_version (ac_profile p),
            gb_topic2_path_snapshot_id = ls_path_snapshot_id (ac_path_snapshot p),
            gb_topic2_path_version = ls_path_version (ac_path_snapshot p),
            gb_personalization_policy_digest = ac_personalization_policy_digest p, gb_target_kp_ids = gc_target_kp_ids c,
            gb_max_parallelism = min (gc_max_parallelism c) (int (length steps)), gb_allow_partial = gc_allow_partial c,
            gb_activation_policy_version = ''topic3-activation-v1'', gb_steps = steps,
            gb_blueprint_sha256 = replicate 64 (CHR ''0''), gb_created_at = gc_requested_at c\<rparr>;
         built = unvalidated\<lparr>gb_blueprint_sha256 := c_sha h (blueprint_doc unvalidated)\<rparr>
     in Inr (built, activation_document c p built))"

subsection \<open>The blueprint is one that the contract accepts\<close>

lemma agent_by_resource_inj: "agent_by_resource r = agent_by_resource r' \<longleftrightarrow> r = r'"
  by (cases r; cases r') simp_all

lemma resource_order_inj: "resource_order r = resource_order r' \<longleftrightarrow> r = r'"
  by (cases r; cases r') simp_all

lemma known_dependencies_subset: "(\<forall>s\<in>set ss. set (gp_dependency_task_ids s) \<subseteq> known) \<Longrightarrow> known_dependencies known ss"
  by (induction ss arbitrary: known) (simp, meson known_dependencies.simps(2) list.set_intros subset_insertI2)

lemma activation_signals_few: "length (activation_signals c p a) \<le> 11"
  unfolding activation_signals_def Let_def length_map
  by (rule order_trans [OF length_filter_le]) (simp add: if_distrib [of length])

lemma blueprint_doc_without_hash: "blueprint_doc (b\<lparr>gb_blueprint_sha256 := d\<rparr>) = blueprint_doc b"
  by (simp add: blueprint_doc_def)

lemma make_step_fields:
  "gp_task_id (make_step h c p as (i, r)) = task_id_of h c (agent_by_resource r)"
  "gp_ordinal (make_step h c p as (i, r)) = int i"
  "gp_agent (make_step h c p as (i, r)) = agent_by_resource r"
  "gp_resource_type (make_step h c p as (i, r)) = r"
  "gp_dependency_task_ids (make_step h c p as (i, r)) =
     (if SA_LECTURER \<in> set as \<and> agent_by_resource r \<in> set lecturer_dependent_agents then [task_id_of h c SA_LECTURER] else [])"
  by (simp_all add: make_step_def Let_def)

lemma make_step_valid:
  assumes "i < 5" "distinct (map (task_id_of h c) all_agents)"
  shows "valid_step (make_step h c p as (i, r))"
proof -
  have reasons: "bounded 1 16 (''explicit-resource-request'' # activation_signals c p (agent_by_resource r))"
    using activation_signals_few [of c p "agent_by_resource r"] by (simp add: bounded_def)
  have version: "is_version_string (prompt_version_by_agent (agent_by_resource r))" by (cases r) (simp_all, code_simp+)
  have "task_id_of h c (agent_by_resource r) \<noteq> task_id_of h c SA_LECTURER"
    if "agent_by_resource r \<in> set lecturer_dependent_agents"
    using that assms(2) by (cases r) (auto simp: lecturer_dependent_agents_def all_agents_def)
  with reasons version assms(1) show ?thesis
    unfolding valid_step_def make_step_fields by (cases r) (auto simp: make_step_def Let_def bounded_def)
qed

text \<open>
  C40.  The planner never needs the validator.  For a valid command over consistent snapshots the blueprint that the planner assembles
  without validation satisfies every constraint of its contract, the hash included, so that it can be read back; it has one step
  per requested resource, in the fixed order, and the steps of the dependent agents wait for the lecturer exactly when there is one.
\<close>

theorem blueprint_valid:
  assumes "build_blueprint h c g p = Inr (b, activation)" "valid_command c"
    and "1 \<le> gs_graph_version g" "is_sha256_hex (gs_content_sha256 g)" "1 \<le> sp_profile_version (ac_profile p)"
      "1 \<le> ls_path_version (ac_path_snapshot p)" "is_sha256_hex (ac_personalization_policy_digest p)"
    and "distinct (map (task_id_of h c) all_agents)" "is_sha256_hex (c_sha h (blueprint_doc b))"
  shows "valid_blueprint h b
    \<and> map gp_resource_type (gb_steps b) = sort_key resource_order (gc_requested_resources c)
    \<and> list_all (\<lambda>s. gp_agent s = agent_by_resource (gp_resource_type s) \<and> gp_dependency_task_ids s =
        (if RT_LECTURER_DOC \<in> set (gc_requested_resources c) \<and> gp_agent s \<in> {SA_TESTER, SA_CODE_SANDBOX, SA_EXTENSION}
         then [task_id_of h c SA_LECTURER] else [])) (gb_steps b)"
proof -
  define ordered where "ordered = sort_key resource_order (gc_requested_resources c)"
  define agents where "agents = map agent_by_resource ordered"
  define steps where "steps = map (make_step h c p agents) (enumerate 0 ordered)"
  have req: "distinct ordered" "bounded 1 5 ordered" "set ordered = set (gc_requested_resources c)"
    using assms(2) by (simp_all add: ordered_def valid_command_def bounded_def)
  have steps_b: "gb_steps b = steps" using assms(1) by (auto simp: build_blueprint_def rbind_Inr_iff Let_def steps_def agents_def ordered_def)
  have len: "length steps = length ordered" by (simp add: steps_def)
  have nth: "steps ! i = make_step h c p agents (i, ordered ! i)" if "i < length ordered" for i
    using that by (simp add: steps_def nth_enumerate_eq)
  have steps_in: "\<exists>i r. s = make_step h c p agents (i, r) \<and> i < length ordered \<and> r \<in> set ordered" if "s \<in> set steps" for s
    using that nth len by (metis in_set_conv_nth nth_mem)
  have resources: "map gp_resource_type steps = ordered" using nth len by (intro nth_equalityI) (simp_all add: make_step_fields)
  have ordinals: "map gp_ordinal steps = map int [0..<length steps]" using nth len by (intro nth_equalityI) (simp_all add: make_step_fields)
  have ids: "map gp_task_id steps = map (\<lambda>r. task_id_of h c (agent_by_resource r)) ordered"
    using nth len by (intro nth_equalityI) (simp_all add: make_step_fields)
  have "inj_on (task_id_of h c) (set all_agents)" using assms(8) by (simp add: distinct_map)
  moreover have "a \<in> set all_agents" for a by (cases a) (simp_all add: all_agents_def)
  ultimately have "task_id_of h c a = task_id_of h c a' \<Longrightarrow> a = a'" for a a' by (meson inj_onD)
  then have "inj_on (\<lambda>r. task_id_of h c (agent_by_resource r)) (set ordered)"
    by (intro inj_onI) (metis agent_by_resource_inj)
  with req(1) have distinct_ids: "distinct (map gp_task_id steps)" by (simp add: ids distinct_map)
  have lecturer: "SA_LECTURER \<in> set agents \<longleftrightarrow> RT_LECTURER_DOC \<in> set ordered"
    unfolding agents_def using agent_by_resource_inj [of RT_LECTURER_DOC] by (auto simp: image_iff)
  have sorted_steps: "sort_key gp_ordinal steps = steps"
    by (rule sort_key_id_if_sorted) (simp add: ordinals sorted_map)
  have five: "int (length ordered) \<le> 5" "ordered \<noteq> []" using req(2) by (auto simp: bounded_def)
  have valid: "list_all valid_step steps"
    unfolding list_all_iff using steps_in five(1) make_step_valid [OF _ assms(8)] by fastforce
  have deps: "gp_dependency_task_ids s = (if RT_LECTURER_DOC \<in> set ordered \<and> gp_agent s \<in> {SA_TESTER, SA_CODE_SANDBOX, SA_EXTENSION}
      then [task_id_of h c SA_LECTURER] else [])" "gp_agent s = agent_by_resource (gp_resource_type s)" if "s \<in> set steps" for s
    using steps_in [OF that] lecturer by (auto simp: make_step_fields lecturer_dependent_agents_def)
  have known: "known_dependencies {} steps"
  proof (cases "RT_LECTURER_DOC \<in> set ordered")
    case False
    then show ?thesis using deps by (intro known_dependencies_subset) simp
  next
    case True
    obtain r rest where o: "ordered = r # rest" using five(2) by (cases ordered) auto
    have "sorted (map resource_order ordered)" by (simp add: ordered_def)
    with True o have "resource_order r \<le> resource_order RT_LECTURER_DOC" by auto
    then have r: "r = RT_LECTURER_DOC" by (cases r) simp_all
    have "steps = make_step h c p agents (0, r) # tl steps" using nth [of 0] len o by (cases steps) auto
    moreover have "known_dependencies {task_id_of h c SA_LECTURER} (tl steps)"
    proof (intro known_dependencies_subset ballI)
      fix s
      assume "s \<in> set (tl steps)"
      then have "s \<in> set steps" by (cases steps) simp_all
      from deps(1) [OF this] show "set (gp_dependency_task_ids s) \<subseteq> {task_id_of h c SA_LECTURER}" by (auto split: if_splits)
    qed
    moreover have "gp_dependency_task_ids (make_step h c p agents (0, r)) = []"
      "gp_task_id (make_step h c p agents (0, r)) = task_id_of h c SA_LECTURER"
      unfolding make_step_fields r by (simp_all add: lecturer_dependent_agents_def)
    ultimately show ?thesis by (metis empty_subsetI known_dependencies.simps(2) list.set(1))
  qed
  have versions: "is_version_string ''topic3-blueprint-v1''" "is_version_string ''topic3-activation-v1''" by code_simp+
  have "1 \<le> min (gc_max_parallelism c) (int (length steps))" "min (gc_max_parallelism c) (int (length steps)) \<le> 5"
    using assms(2) five len by (auto simp: valid_command_def Suc_le_eq)
  moreover from assms(1) have "gb_blueprint_version b = ''topic3-blueprint-v1''" "gb_activation_policy_version b = ''topic3-activation-v1''"
    "gb_generation_session_version b = 1" "gb_topic1_graph_version b = gs_graph_version g"
    "gb_topic1_graph_sha256 b = gs_content_sha256 g" "gb_topic2_profile_version b = sp_profile_version (ac_profile p)"
    "gb_topic2_path_version b = ls_path_version (ac_path_snapshot p)"
    "gb_personalization_policy_digest b = ac_personalization_policy_digest p" "gb_target_kp_ids b = gc_target_kp_ids c"
    "gb_max_parallelism b = min (gc_max_parallelism c) (int (length steps))"
    unfolding steps_def agents_def ordered_def
    by (auto simp: build_blueprint_def rbind_Inr_iff Let_def)
  moreover obtain u where "b = u\<lparr>gb_blueprint_sha256 := c_sha h (blueprint_doc u)\<rparr>"
    using assms(1) unfolding build_blueprint_def rbind_Inr_iff Let_def by blast
  then have "c_sha h (blueprint_doc b) = gb_blueprint_sha256 b" by (simp add: blueprint_doc_without_hash)
  moreover have "bounded 1 128 (gc_target_kp_ids c)" using assms(2) by (simp add: valid_command_def)
  moreover have "bounded 1 5 steps" using req(2) len by (simp add: bounded_def)
  moreover have "sort (map gp_ordinal steps) = map int [0..<length steps]"
    unfolding ordinals by (rule sort_key_id_if_sorted) (simp add: sorted_map)
  ultimately have "valid_blueprint h b"
    using assms(3-7,9) valid distinct_ids known versions unfolding valid_blueprint_def steps_b sorted_steps by simp
  moreover have "list_all (\<lambda>s. gp_agent s = agent_by_resource (gp_resource_type s) \<and> gp_dependency_task_ids s =
        (if RT_LECTURER_DOC \<in> set (gc_requested_resources c) \<and> gp_agent s \<in> {SA_TESTER, SA_CODE_SANDBOX, SA_EXTENSION}
         then [task_id_of h c SA_LECTURER] else [])) steps"
    unfolding list_all_iff using deps req(3) by auto
  ultimately show ?thesis using resources steps_b by (simp add: ordered_def)
qed

subsection \<open>A concrete plan\<close>

definition sample_plan_env :: hash_env where
  "sample_plan_env = \<lparr>c_sha = (\<lambda>_. replicate 64 (CHR ''a'')), c_uuid5 = (\<lambda>ns name. ns @ name)\<rparr>"

definition sample_command :: generation_command where
  "sample_command =
     \<lparr>gc_operation_id = ''op'', gc_generation_session_id = ''session'', gc_learner_ref = ''learner'', gc_course_id = ''course'',
      gc_target_kp_ids = [''kp1''], gc_requested_resources = [RT_GRADIENT_QUIZ, RT_MIND_MAP, RT_LECTURER_DOC],
      gc_lecturer_depth = LD_FOUNDATION, gc_learning_goal = ''goal'', gc_locale = ''en-US'', gc_max_parallelism = 2,
      gc_allow_partial = False, gc_requested_at = 0\<rparr>"

definition planned_point :: knowledge_point where
  "planned_point =
     \<lparr>kn_kp_id = ''kp1'', kn_course_id = ''course'', kn_revision = 1, kn_title = ''T'', kn_aliases = [], kn_summary = ''S'',
      kn_learning_objectives = [''o''], kn_category = ''control'', kn_difficulty_level = 2, kn_difficulty_score = fl (1/2),
      kn_topology_level = 0, kn_topology_weight = 0, kn_estimated_minutes = 45, kn_formula_signatures = [], kn_tags = [],
      kn_status = KS_ACTIVE, kn_authority_sources = [], kn_created_at = 0, kn_updated_at = 0\<rparr>"

definition planned_graph :: frozen_graph where
  "planned_graph = \<lparr>gs_snapshot_id = ''graph'', gs_course_id = ''course'', gs_graph_version = 1,
     gs_knowledge_points = [planned_point], gs_prerequisites = [], gs_content_sha256 = replicate 64 (CHR ''a'')\<rparr>"

definition planned_context :: agent_context where
  "planned_context =
     \<lparr>ac_learner_ref = ''learner'', ac_course_id = ''course'',
      ac_profile = \<lparr>sp_profile_id = ''profile'', sp_learner_ref = ''learner'', sp_course_id = ''course'', sp_profile_version = 1,
        sp_parent_profile_id = None, sp_policy_version = ''v1'', sp_knowledge_mastery = fl (1/2),
        sp_problem_solving_proficiency = fl (1/2), sp_misconception_preference = 0, sp_learning_pace = fl (1/2),
        sp_forgetting_rate = fl (1/2), sp_learning_goal_tendency = fl (1/2), sp_confidence_score = 1, sp_activity_count = 1,
        sp_last_event_at = None, sp_source_window_start = None, sp_source_window_end = None, sp_profile_document = DObj [],
        sp_content_sha256 = replicate 64 (CHR ''a''), sp_frozen_at = 0, sp_features = []\<rparr>,
      ac_memory_states = [],
      ac_path_snapshot = \<lparr>ls_path_snapshot_id = ''path'', ls_learner_ref = ''learner'', ls_course_id = ''course'', ls_path_version = 1,
        ls_parent_path_snapshot_id = None, ls_topic1_graph_snapshot_id = ''graph'', ls_topic1_graph_version = 1,
        ls_profile_id = ''profile'', ls_plan_type = PP_INITIAL, ls_trigger_reason = ''r'', ls_target_goal = ''g'',
        ls_policy_version = ''v1'', ls_path_document = [], ls_decision_document = [], ls_node_count = 1, ls_estimated_minutes = 45,
        ls_manual_override = False, ls_content_sha256 = replicate 64 (CHR ''a''), ls_frozen_at = 0\<rparr>,
      ac_personalization_policy_digest = replicate 64 (CHR ''a'')\<rparr>"

lemma planned_built: "\<exists>b activation. build_blueprint sample_plan_env sample_command planned_graph planned_context = Inr (b, activation)"
  by (simp add: build_blueprint_def validate_bindings_def planned_graph_def planned_context_def sample_command_def planned_point_def
      guard_def Let_def)

theorem blueprint_valid_witness:
  "\<exists>b activation. build_blueprint sample_plan_env sample_command planned_graph planned_context = Inr (b, activation)
     \<and> valid_blueprint sample_plan_env b
     \<and> map gp_resource_type (gb_steps b) = [RT_LECTURER_DOC, RT_MIND_MAP, RT_GRADIENT_QUIZ]"
proof -
  obtain b activation where build: "build_blueprint sample_plan_env sample_command planned_graph planned_context = Inr (b, activation)"
    using planned_built by blast
  have checks: "valid_command sample_command" "1 \<le> gs_graph_version planned_graph" "is_sha256_hex (gs_content_sha256 planned_graph)"
    "1 \<le> sp_profile_version (ac_profile planned_context)" "1 \<le> ls_path_version (ac_path_snapshot planned_context)"
    "is_sha256_hex (ac_personalization_policy_digest planned_context)"
    "distinct (map (task_id_of sample_plan_env sample_command) all_agents)" by code_simp+
  have "is_sha256_hex (c_sha sample_plan_env (blueprint_doc b))"
    by (simp add: sample_plan_env_def is_sha256_hex_def is_lower_hex_def char_in_def list_all_iff)
  from blueprint_valid [OF build checks this] build show ?thesis by (auto simp: sample_command_def)
qed

end
