(* ===== verification/Generation.thy ===== *)
theory Generation
  imports Blueprint AuditTrail
begin

text \<open>
  The tables of a generation workflow and the transactions of \<^verbatim>\<open>Topic3Service\<close> on them
  (\<^verbatim>\<open>backend/src/liyans/domains/topic3/service.py\<close>, \<^verbatim>\<open>entities.py\<close>, \<^verbatim>\<open>postgres_repository.py\<close>, \<^verbatim>\<open>models.py\<close>).

  A transaction reserves its idempotency key, checks its guards, appends an audit record, the new rows and an outbox event.
  It may also fail without effect, or its commit may go unconfirmed; the faults of a run are a list in the state, one entry per
  transaction.  The state holds the tables of one tenant.  Clocks, identifiers drawn at random, and the audit records that other services write in
  between are an environment.  The envelope around the payload of an event is left out.
\<close>

datatype generation_error =
    Generation_stale | Generation_not_found | Generation_conflict | Generation_duplicate | Generation_contract
  | Generation_forbidden | Generation_key_error | Generation_database | Generation_failed

datatype task_state = TS_PENDING | TS_RUNNING | TS_SUCCEEDED | TS_FAILED | TS_SKIPPED | TS_CANCELLED

datatype session_state = SS_PLANNED | SS_RUNNING | SS_COMPLETED | SS_PARTIAL | SS_FAILED | SS_CANCELLED

fun task_state_value :: "task_state \<Rightarrow> string" where
  "task_state_value TS_PENDING = ''PENDING''"
| "task_state_value TS_RUNNING = ''RUNNING''"
| "task_state_value TS_SUCCEEDED = ''SUCCEEDED''"
| "task_state_value TS_FAILED = ''FAILED''"
| "task_state_value TS_SKIPPED = ''SKIPPED''"
| "task_state_value TS_CANCELLED = ''CANCELLED''"

fun session_state_value :: "session_state \<Rightarrow> string" where
  "session_state_value SS_PLANNED = ''PLANNED''"
| "session_state_value SS_RUNNING = ''RUNNING''"
| "session_state_value SS_COMPLETED = ''COMPLETED''"
| "session_state_value SS_PARTIAL = ''PARTIAL''"
| "session_state_value SS_FAILED = ''FAILED''"
| "session_state_value SS_CANCELLED = ''CANCELLED''"

fun category_value :: "error_category \<Rightarrow> string" where
  "category_value EC_CONTRACT = ''CONTRACT''"
| "category_value EC_AUTH = ''AUTH''"
| "category_value EC_TENANT = ''TENANT''"
| "category_value EC_MESSAGING = ''MESSAGING''"
| "category_value EC_TASK = ''TASK''"
| "category_value EC_TIMEOUT = ''TIMEOUT''"
| "category_value EC_RATE_LIMIT = ''RATE_LIMIT''"
| "category_value EC_CIRCUIT = ''CIRCUIT''"
| "category_value EC_PROVIDER = ''PROVIDER''"
| "category_value EC_AUDIT = ''AUDIT''"
| "category_value EC_CONFIG = ''CONFIG''"
| "category_value EC_DATABASE = ''DATABASE''"
| "category_value EC_INTERNAL = ''INTERNAL''"

subsection \<open>Tasks\<close>

text \<open>The result and error documents of a task, when they are not empty.\<close>

record accepted_result =
  tr_candidate_id :: uuid
  tr_candidate_version :: int
  tr_candidate_sha256 :: digest
  tr_stream_ids :: "uuid list"
  tr_fragment_ids :: "uuid list"

record task_failure =
  tf_error_code :: string
  tf_category :: error_category
  tf_retriable :: bool
  tf_safe_message :: string

definition result_doc :: "accepted_result \<Rightarrow> doc" where
  "result_doc r = DObj
     [(''candidate_id'', DStr (tr_candidate_id r)), (''candidate_version'', DInt (tr_candidate_version r)),
      (''candidate_sha256'', DStr (tr_candidate_sha256 r)), (''stream_ids'', DList (map DStr (tr_stream_ids r))),
      (''fragment_ids'', DList (map DStr (tr_fragment_ids r)))]"

definition failure_doc :: "task_failure \<Rightarrow> doc" where
  "failure_doc f = DObj [(''error_code'', DStr (tf_error_code f)), (''category'', DStr (category_value (tf_category f))),
     (''retriable'', DBool (tf_retriable f)), (''safe_message'', DStr (tf_safe_message f))]"

record agent_task =
  gt_task_record_id :: uuid
  gt_task_id :: uuid
  gt_task_version :: int
  gt_blueprint_id :: uuid
  gt_blueprint_version :: string
  gt_agent :: source_agent
  gt_resource_type :: resource_type
  gt_state :: task_state
  gt_dependency_task_ids :: "uuid list"
  gt_attempt :: int
  gt_max_attempts :: int
  gt_timeout_seconds :: rat
  gt_request_document :: doc
  gt_result :: "accepted_result option"
  gt_failure :: "task_failure option"
  gt_request_sha256 :: digest
  gt_result_sha256 :: "digest option"
  gt_started_at :: "timestamp option"
  gt_completed_at :: "timestamp option"

text \<open>\<^verbatim>\<open>Topic3AgentTaskSnapshotV1\<close>: what it accepts, and its document.\<close>

definition valid_snapshot :: "agent_task \<Rightarrow> bool" where
  "valid_snapshot t \<longleftrightarrow>
     1 \<le> gt_task_version t \<and> is_version_string (gt_blueprint_version t) \<and> 0 \<le> gt_attempt t \<and> gt_attempt t \<le> 8
     \<and> 1 \<le> gt_max_attempts t \<and> gt_max_attempts t \<le> 8 \<and> is_sha256_hex (gt_request_sha256 t)
     \<and> (\<forall>d\<in>set_option (gt_result_sha256 t). is_sha256_hex d)
     \<and> (\<forall>r\<in>set_option (gt_result t). 1 \<le> tr_candidate_version r)
     \<and> (\<forall>f\<in>set_option (gt_failure t). bounded 0 128 (tf_error_code f))
     \<and> gt_attempt t \<le> gt_max_attempts t \<and> (gt_state t = TS_SUCCEEDED \<longrightarrow> gt_result t \<noteq> None)
     \<and> (gt_state t = TS_FAILED \<longrightarrow> gt_failure t \<noteq> None \<and> tf_error_code (the (gt_failure t)) \<noteq> [])"

definition snapshot_fields :: "agent_task \<Rightarrow> (string \<times> doc) list" where
  "snapshot_fields t =
     [(''schema_version'', DStr ''topic3.agent-task-snapshot.v1''), (''task_id'', DStr (gt_task_id t)),
      (''task_version'', DInt (gt_task_version t)), (''blueprint_id'', DStr (gt_blueprint_id t)),
      (''blueprint_version'', DStr (gt_blueprint_version t)), (''agent'', DStr (source_agent_value (gt_agent t))),
      (''resource_type'', DStr (resource_type_value (gt_resource_type t))), (''state'', DStr (task_state_value (gt_state t))),
      (''attempt'', DInt (gt_attempt t)), (''max_attempts'', DInt (gt_max_attempts t)),
      (''request_sha256'', DStr (gt_request_sha256 t)), (''result_sha256'', opt_doc DStr (gt_result_sha256 t)),
      (''candidate_id'', opt_doc (\<lambda>r. DStr (tr_candidate_id r)) (gt_result t)),
      (''candidate_version'', opt_doc (\<lambda>r. DInt (tr_candidate_version r)) (gt_result t)),
      (''error_code'', opt_doc (\<lambda>f. DStr (tf_error_code f)) (gt_failure t)),
      (''started_at'', opt_doc DTime (gt_started_at t)), (''completed_at'', opt_doc DTime (gt_completed_at t))]"

definition task_document :: "agent_task \<Rightarrow> generation_error + (string \<times> doc) list" where
  "task_document t = (if valid_snapshot t then Inr (snapshot_fields t) else Inl Generation_contract)"

subsection \<open>The environment and the tables\<close>

record stream_chunk =
  sk_stream_id :: uuid
  sk_fragment_id :: uuid
  sk_data_sha256 :: digest
  sk_document :: doc

text \<open>How a call of an agent ends: a candidate (and whether a model was invoked), a timeout, an error (and whether
it is an \<^verbatim>\<open>AgentExecutionFailure\<close>, which carries an invocation).\<close>

datatype agent_reply = Agent_candidate candidate bool | Agent_timeout | Agent_error app_error bool

record generation_env =
  ge_hash :: hash_env
  ge_tenant :: tenant
  ge_subject :: string
  ge_scopes :: "string list"
  ge_trace :: string
  ge_agent :: "uuid \<Rightarrow> int \<Rightarrow> candidate list \<Rightarrow> agent_reply"
  ge_chunks :: "candidate \<Rightarrow> stream_chunk list"
  ge_safe_message :: "liyan_error \<Rightarrow> string"
  ge_graph_sha256 :: "uuid \<Rightarrow> digest option"
  ge_clock :: "uuid \<Rightarrow> int \<Rightarrow> timestamp"
  ge_started_at :: timestamp
  ge_completed_at :: timestamp
  ge_audit_id :: "nat \<Rightarrow> uuid"
  ge_audit_clock :: "nat \<Rightarrow> timestamp"
  ge_other_audits :: "nat \<Rightarrow> (uuid \<times> audit_draft) list"

record generation_session =
  se_session_snapshot_id :: uuid
  se_generation_session_id :: uuid
  se_session_version :: int
  se_parent_session_snapshot_id :: "uuid option"
  se_learner_ref :: string
  se_course_id :: string
  se_topic1_graph_snapshot_id :: uuid
  se_topic1_graph_version :: int
  se_topic2_profile_id :: uuid
  se_topic2_profile_version :: int
  se_topic2_path_snapshot_id :: uuid
  se_topic2_path_version :: int
  se_personalization_policy_digest :: digest
  se_requested_resources :: "resource_type list"
  se_state :: session_state
  se_request_document :: "(string \<times> doc) list"
  se_result_document :: "(string \<times> doc) list"
  se_content_sha256 :: digest
  se_created_by_subject :: string
  se_frozen_at :: timestamp

record blueprint_record =
  br_blueprint_snapshot_id :: uuid
  br_blueprint :: blueprint
  br_activation_document :: doc
  br_created_by_subject :: string
  br_frozen_at :: timestamp

text \<open>The idempotency keys \<^verbatim>\<open>topic3:<id>:start:<version>\<close> and so on, kept structured: rendering them is injective on UUIDs.  The key
of a client is taken not to have this form.\<close>

datatype task_operation = Op_start | Op_complete | Op_fail | Op_skip

datatype mutation_key =
    Task_key task_operation uuid int
  | Session_start_key uuid
  | Session_finalize_key uuid
  | Client_key string

text \<open>How a transaction ends: as written, refused without effect, or committed without confirmation.\<close>

datatype fault = Confirmed | Refused | Unconfirmed

text \<open>The state: the tables, the audit trail of the tenant, the events in the outbox, the faults to come, and the calls of
agents so far (task, attempt, candidates of the dependencies), which the code does not keep.  A task row carries the number of the
transaction that wrote it, which orders rows by creation.\<close>

record generation_world =
  gn_sessions :: "generation_session list"
  gn_blueprints :: "blueprint_record list"
  gn_tasks :: "(nat \<times> agent_task) list"
  gn_candidates :: "candidate_record list"
  gn_invocations :: "uuid list"
  gn_fragments :: "uuid list"
  gn_keys :: "(mutation_key \<times> string \<times> digest \<times> (string \<times> doc) list) list"
  gn_audit :: "audit_record list"
  gn_events :: "(string \<times> (string \<times> doc) list) list"
  gn_faults :: "fault list"
  gn_calls :: "(uuid \<times> int \<times> candidate list) list"

definition empty_world :: "fault list \<Rightarrow> generation_world" where
  "empty_world faults = \<lparr>gn_sessions = [], gn_blueprints = [], gn_tasks = [], gn_candidates = [], gn_invocations = [],
     gn_fragments = [], gn_keys = [], gn_audit = [], gn_events = [], gn_faults = faults, gn_calls = []\<rparr>"

subsection \<open>Reading\<close>

text \<open>The rows of a blueprint with the highest version of their task, by creation and identifier.\<close>

definition blueprint_rows :: "generation_world \<Rightarrow> uuid \<Rightarrow> string \<Rightarrow> (nat \<times> agent_task) list" where
  "blueprint_rows w b v = filter (\<lambda>(_, t). gt_blueprint_id t = b \<and> gt_blueprint_version t = v) (gn_tasks w)"

definition latest_rows :: "(nat \<times> agent_task) list \<Rightarrow> (nat \<times> agent_task) list" where
  "latest_rows rows = filter (\<lambda>(_, t). list_all (\<lambda>(_, r). gt_task_id r = gt_task_id t \<longrightarrow> gt_task_version r \<le> gt_task_version t) rows) rows"

definition latest_tasks :: "generation_world \<Rightarrow> uuid \<Rightarrow> string \<Rightarrow> agent_task list" where
  "latest_tasks w b v = map snd (sort_key fst (sort_key (\<lambda>(_, t). gt_task_id t) (latest_rows (blueprint_rows w b v))))"

definition session_rows :: "generation_world \<Rightarrow> uuid \<Rightarrow> generation_session list" where
  "session_rows w i = filter (\<lambda>s. se_generation_session_id s = i) (gn_sessions w)"

definition latest_session :: "generation_world \<Rightarrow> uuid \<Rightarrow> generation_session option" where
  "latest_session w i = find (\<lambda>s. list_all (\<lambda>r. se_session_version r \<le> se_session_version s) (session_rows w i)) (session_rows w i)"

definition get_session :: "generation_world \<Rightarrow> uuid \<Rightarrow> int \<Rightarrow> generation_session option" where
  "get_session w i v = find (\<lambda>s. se_session_version s = v) (session_rows w i)"

text \<open>\<^verbatim>\<open>get_blueprint\<close> validates the document that it reads.\<close>

definition get_blueprint :: "hash_env \<Rightarrow> generation_world \<Rightarrow> uuid \<Rightarrow> string \<Rightarrow> generation_error + blueprint_record option" where
  "get_blueprint h w b v =
     (case find (\<lambda>r. gb_blueprint_id (br_blueprint r) = b \<and> gb_blueprint_version (br_blueprint r) = v) (gn_blueprints w) of
        None \<Rightarrow> Inr None
      | Some r \<Rightarrow> if valid_blueprint h (br_blueprint r) then Inr (Some r) else Inl Generation_contract)"

definition list_candidates :: "generation_world \<Rightarrow> uuid \<Rightarrow> string \<Rightarrow> candidate list" where
  "list_candidates w b v = filter (\<lambda>c. ca_blueprint_id c = b \<and> ca_blueprint_version c = v) (map cn_candidate (gn_candidates w))"

subsection \<open>Transactions\<close>

definition next_fault :: "generation_world \<Rightarrow> fault \<times> generation_world" where
  "next_fault w = (case gn_faults w of [] \<Rightarrow> (Confirmed, w) | f # fs \<Rightarrow> (f, w\<lparr>gn_faults := fs\<rparr>))"

text \<open>\<^verbatim>\<open>_execute_mutation\<close>; the record of a committed key is always complete.\<close>

definition mutate ::
  "generation_env \<Rightarrow> string \<Rightarrow> mutation_key \<Rightarrow> doc
     \<Rightarrow> (generation_world \<Rightarrow> generation_error + ((string \<times> doc) list \<times> generation_world))
     \<Rightarrow> generation_world \<Rightarrow> (generation_error + (string \<times> doc) list) \<times> generation_world" where
  "mutate e operation key request callback w =
     (let digest = c_sha (ge_hash e) (DObj [(''operation'', DStr operation), (''request'', request)]);
          (fault, w0) = next_fault w
      in case map_of (gn_keys w0) key of
           Some (operation', digest', payload) \<Rightarrow>
             (if digest' \<noteq> digest \<or> operation' \<noteq> operation then Inl Generation_duplicate
              else if fault = Confirmed then Inr payload else Inl Generation_database, w0)
         | None \<Rightarrow>
             (case callback w0 of
                Inl err \<Rightarrow> (Inl err, w0)
              | Inr (payload, w1) \<Rightarrow>
                  let w2 = w1\<lparr>gn_keys := (key, operation, digest, payload) # gn_keys w1\<rparr>
                  in (case fault of
                        Confirmed \<Rightarrow> (Inr payload, w2)
                      | Refused \<Rightarrow> (Inl Generation_database, w0)
                      | Unconfirmed \<Rightarrow> (Inl Generation_database, w2))))"

definition extend_audit :: "hash_env \<Rightarrow> (uuid \<times> audit_draft) list \<Rightarrow> audit_record list \<Rightarrow> audit_record list" where
  "extend_audit h drafts rs = fold (\<lambda>(i, d) rs. rs @ [next_record h i d rs]) drafts rs"

definition append_audit ::
  "generation_env \<Rightarrow> string \<Rightarrow> string \<Rightarrow> (string \<times> doc) list \<Rightarrow> generation_world \<Rightarrow> generation_world" where
  "append_audit e action target_ref metadata w =
     (let n = length (gn_audit w);
          draft = \<lparr>ad_tenant_id = ge_tenant e, ad_category = ''TOPIC3'', ad_action = action, ad_outcome = ''SUCCEEDED'',
            ad_actor_ref = ge_subject e, ad_target_ref = Some target_ref, ad_trace_id = Some (ge_trace e), ad_envelope_id = None,
            ad_metadata = metadata, ad_occurred_at = ge_audit_clock e n\<rparr>
      in w\<lparr>gn_audit := extend_audit (ge_hash e) (ge_other_audits e n @ [(ge_audit_id e n, draft)]) (gn_audit w)\<rparr>)"

definition append_event :: "string \<Rightarrow> (string \<times> doc) list \<Rightarrow> generation_world \<Rightarrow> generation_world" where
  "append_event event_type payload w = w\<lparr>gn_events := gn_events w @ [(event_type, payload)]\<rparr>"

text \<open>The appends raise a conflict on a unique key and a contract error on the other constraints of the table.  Keys of
records that are derived from unique identifiers are covered by these, except where they are checked.\<close>

definition append_session :: "generation_session \<Rightarrow> generation_world \<Rightarrow> generation_error + generation_world" where
  "append_session s w =
     (if list_ex (\<lambda>r. se_session_snapshot_id r = se_session_snapshot_id s
          \<or> se_generation_session_id r = se_generation_session_id s \<and> se_session_version r = se_session_version s) (gn_sessions w)
      then Inl Generation_conflict
      else if \<not> (1 \<le> se_session_version s \<and> 1 \<le> se_topic1_graph_version s \<and> 1 \<le> se_topic2_profile_version s
          \<and> 1 \<le> se_topic2_path_version s \<and> is_sha256_hex (se_personalization_policy_digest s) \<and> is_sha256_hex (se_content_sha256 s)
          \<and> (case se_parent_session_snapshot_id s of None \<Rightarrow> True | Some p \<Rightarrow> p \<in> se_session_snapshot_id ` set (gn_sessions w)))
      then Inl Generation_contract
      else Inr (w\<lparr>gn_sessions := gn_sessions w @ [s]\<rparr>))"

definition append_blueprint :: "blueprint_record \<Rightarrow> generation_world \<Rightarrow> generation_error + generation_world" where
  "append_blueprint r w =
     (let b = br_blueprint r
      in if list_ex (\<lambda>q. br_blueprint_snapshot_id q = br_blueprint_snapshot_id r
            \<or> gb_blueprint_id (br_blueprint q) = gb_blueprint_id b \<and> gb_blueprint_version (br_blueprint q) = gb_blueprint_version b)
            (gn_blueprints w)
         then Inl Generation_conflict
         else if \<not> (1 \<le> gb_generation_session_version b \<and> 1 \<le> gb_max_parallelism b \<and> gb_max_parallelism b \<le> 5
             \<and> bounded 1 5 (gb_steps b) \<and> is_sha256_hex (gb_blueprint_sha256 b) \<and> is_sha256_hex (gb_personalization_policy_digest b)
             \<and> list_ex (\<lambda>s. se_generation_session_id s = gb_generation_session_id b
                 \<and> se_session_version s = gb_generation_session_version b) (gn_sessions w))
         then Inl Generation_contract
         else Inr (w\<lparr>gn_blueprints := gn_blueprints w @ [r]\<rparr>))"

definition append_task :: "agent_task \<Rightarrow> generation_world \<Rightarrow> generation_error + generation_world" where
  "append_task t w =
     (if list_ex (\<lambda>(_, r). gt_task_record_id r = gt_task_record_id t
          \<or> gt_task_id r = gt_task_id t \<and> gt_task_version r = gt_task_version t) (gn_tasks w)
      then Inl Generation_conflict
      else if \<not> (1 \<le> gt_task_version t \<and> 0 \<le> gt_attempt t \<and> gt_attempt t \<le> gt_max_attempts t
          \<and> 1 \<le> gt_max_attempts t \<and> gt_max_attempts t \<le> 8 \<and> is_sha256_hex (gt_request_sha256 t)
          \<and> (case gt_result_sha256 t of None \<Rightarrow> True | Some d \<Rightarrow> is_sha256_hex d)
          \<and> list_ex (\<lambda>q. gb_blueprint_id (br_blueprint q) = gt_blueprint_id t
              \<and> gb_blueprint_version (br_blueprint q) = gt_blueprint_version t) (gn_blueprints w))
      then Inl Generation_contract
      else Inr (w\<lparr>gn_tasks := gn_tasks w @ [(length (gn_keys w), t)]\<rparr>))"

definition store_candidate :: "candidate_record \<Rightarrow> generation_world \<Rightarrow> generation_error + generation_world" where
  "store_candidate r w =
     (let c = cn_candidate r
      in if list_ex (\<lambda>q. cn_candidate_record_id q = cn_candidate_record_id r
            \<or> ca_candidate_id (cn_candidate q) = ca_candidate_id c
               \<and> ca_candidate_version (cn_candidate q) = ca_candidate_version c) (gn_candidates w)
         then Inl Generation_conflict
         else if \<not> (1 \<le> ca_candidate_version c \<and> is_sha256_hex (ca_candidate_sha256 c)
             \<and> is_sha256_hex (ca_personalization_policy_digest c)
             \<and> list_ex (\<lambda>q. gb_blueprint_id (br_blueprint q) = ca_blueprint_id c
                 \<and> gb_blueprint_version (br_blueprint q) = ca_blueprint_version c) (gn_blueprints w))
         then Inl Generation_contract
         else Inr (w\<lparr>gn_candidates := gn_candidates w @ [r]\<rparr>))"

definition store_invocation :: "uuid option \<Rightarrow> generation_world \<Rightarrow> generation_error + generation_world" where
  "store_invocation invocation w =
     (case invocation of
        None \<Rightarrow> Inr w
      | Some i \<Rightarrow> if i \<in> set (gn_invocations w) then Inl Generation_conflict
                 else Inr (w\<lparr>gn_invocations := gn_invocations w @ [i]\<rparr>))"

definition store_chunks :: "stream_chunk list \<Rightarrow> generation_world \<Rightarrow> generation_error + generation_world" where
  "store_chunks chunks w =
     (if \<not> distinct (map sk_fragment_id chunks) \<or> list_ex (\<lambda>k. sk_fragment_id k \<in> set (gn_fragments w)) chunks
      then Inl Generation_conflict
      else Inr (w\<lparr>gn_fragments := gn_fragments w @ map sk_fragment_id chunks\<rparr>))"

definition assert_latest_task :: "agent_task \<Rightarrow> generation_world \<Rightarrow> generation_error + unit" where
  "assert_latest_task expected w =
     (case find (\<lambda>t. gt_task_id t = gt_task_id expected)
         (latest_tasks w (gt_blueprint_id expected) (gt_blueprint_version expected)) of
        None \<Rightarrow> Inl Generation_not_found
      | Some t \<Rightarrow> if gt_task_version t \<noteq> gt_task_version expected \<or> gt_state t \<noteq> gt_state expected
                 then Inl Generation_stale else Inr ())"

subsection \<open>Transitions of a task\<close>

definition successor :: "generation_env \<Rightarrow> agent_task \<Rightarrow> agent_task" where
  "successor e t = t\<lparr>gt_task_record_id := c_uuid5 (ge_hash e) (gt_task_id t) (''task-version:'' @ str_of_int (gt_task_version t + 1)),
     gt_task_version := gt_task_version t + 1\<rparr>"

definition transition_now :: "generation_env \<Rightarrow> agent_task \<Rightarrow> timestamp" where
  "transition_now e t = ge_clock e (gt_task_id t) (gt_task_version t + 1)"

text \<open>What the transitions share: the names, the additional metadata and payload, the request that the key covers, and what is stored
besides the row of the task.\<close>

record transition_plan =
  tp_operation :: string
  tp_key :: task_operation
  tp_action :: string
  tp_event :: string
  tp_metadata :: "(string \<times> doc) list"
  tp_payload :: "(string \<times> doc) list"
  tp_request :: "(string \<times> doc) list \<Rightarrow> doc"
  tp_store :: "generation_world \<Rightarrow> generation_error + generation_world"

definition transition ::
  "generation_env \<Rightarrow> transition_plan \<Rightarrow> agent_task \<Rightarrow> agent_task \<Rightarrow> generation_world
     \<Rightarrow> (generation_error + agent_task) \<times> generation_world" where
  "transition e p current target w =
     (case task_document current of
        Inl err \<Rightarrow> (Inl err, w)
      | Inr current_doc \<Rightarrow>
          (case mutate e (tp_operation p) (Task_key (tp_key p) (gt_task_id current) (gt_task_version target))
             (tp_request p current_doc)
             (\<lambda>w0. rbind (assert_latest_task current w0) (\<lambda>_.
                  rbind (task_document target) (\<lambda>fields.
                  rbind (tp_store p (append_audit e (tp_action p) (gt_task_id current) (fields @ tp_metadata p) w0)) (\<lambda>w1.
                  rbind (append_task target w1) (\<lambda>w2.
                  Inr (fields @ tp_payload p, append_event (tp_event p) (fields @ tp_payload p) w2)))))) w of
             (Inl err, w') \<Rightarrow> (Inl err, w')
           | (Inr _, w') \<Rightarrow> (Inr target, w')))"

definition running_record :: "generation_env \<Rightarrow> agent_task \<Rightarrow> agent_task" where
  "running_record e t = (successor e t)\<lparr>gt_state := TS_RUNNING, gt_attempt := gt_attempt t + 1, gt_result := None,
     gt_failure := None, gt_result_sha256 := None, gt_started_at := Some (transition_now e t), gt_completed_at := None\<rparr>"

definition mark_task_running ::
  "generation_env \<Rightarrow> agent_task \<Rightarrow> generation_world \<Rightarrow> (generation_error + agent_task) \<times> generation_world" where
  "mark_task_running e current = transition e
     \<lparr>tp_operation = ''topic3.task.start'', tp_key = Op_start, tp_action = ''AGENT_TASK_STARTED'',
      tp_event = ''topic3.agent-task.started'', tp_metadata = [], tp_payload = [], tp_request = DObj, tp_store = Inr\<rparr>
     current (running_record e current)"

definition accepted_result_of :: "candidate \<Rightarrow> stream_chunk list \<Rightarrow> accepted_result" where
  "accepted_result_of c chunks = \<lparr>tr_candidate_id = ca_candidate_id c, tr_candidate_version = ca_candidate_version c,
     tr_candidate_sha256 = ca_candidate_sha256 c, tr_stream_ids = sort (remdups (map sk_stream_id chunks)),
     tr_fragment_ids = map sk_fragment_id chunks\<rparr>"

definition succeeded_record :: "generation_env \<Rightarrow> candidate \<Rightarrow> stream_chunk list \<Rightarrow> agent_task \<Rightarrow> agent_task" where
  "succeeded_record e c chunks t = (let r = accepted_result_of c chunks
     in (successor e t)\<lparr>gt_state := TS_SUCCEEDED, gt_result := Some r, gt_failure := None,
          gt_result_sha256 := Some (c_sha (ge_hash e) (result_doc r)), gt_completed_at := Some (transition_now e t)\<rparr>)"

definition complete_task ::
  "generation_env \<Rightarrow> candidate \<Rightarrow> stream_chunk list \<Rightarrow> uuid option \<Rightarrow> agent_task \<Rightarrow> generation_world
     \<Rightarrow> (generation_error + agent_task) \<times> generation_world" where
  "complete_task e c chunks invocation current = transition e
     \<lparr>tp_operation = ''topic3.task.complete'', tp_key = Op_complete, tp_action = ''AGENT_TASK_COMPLETED'',
      tp_event = ''topic3.agent-task.completed'',
      tp_metadata = [(''candidate_sha256'', DStr (ca_candidate_sha256 c)), (''stream_chunk_count'', DInt (int (length chunks)))],
      tp_payload = [(''candidate'', full_candidate_doc c), (''stream_chunks'', DList (map sk_document chunks))],
      tp_request = (\<lambda>task. DObj [(''task'', DObj task), (''candidate_sha256'', DStr (ca_candidate_sha256 c)),
        (''fragment_digests'', DList (map (\<lambda>k. DStr (sk_data_sha256 k)) chunks))]),
      tp_store = (\<lambda>w. rbind (store_candidate \<lparr>cn_candidate_record_id = c_uuid5 (ge_hash e) (ca_candidate_id c) ''candidate-record-v1'',
          cn_candidate = c, cn_frozen_at = transition_now e current\<rparr> w) (\<lambda>w.
        rbind (store_invocation invocation w) (store_chunks chunks)))\<rparr>
     current (succeeded_record e c chunks current)"

definition failed_record :: "generation_env \<Rightarrow> task_state \<Rightarrow> task_failure \<Rightarrow> agent_task \<Rightarrow> agent_task" where
  "failed_record e s f t = (successor e t)\<lparr>gt_state := s, gt_result := None, gt_failure := Some f,
     gt_result_sha256 := Some (c_sha (ge_hash e) (failure_doc f)), gt_completed_at := Some (transition_now e t)\<rparr>"

definition failure_of :: "generation_env \<Rightarrow> liyan_error \<Rightarrow> task_failure" where
  "failure_of e error = \<lparr>tf_error_code = le_code error, tf_category = le_category error, tf_retriable = le_retriable error,
     tf_safe_message = ge_safe_message e error\<rparr>"

definition fail_task ::
  "generation_env \<Rightarrow> liyan_error \<Rightarrow> uuid option \<Rightarrow> agent_task \<Rightarrow> generation_world
     \<Rightarrow> (generation_error + agent_task) \<times> generation_world" where
  "fail_task e error invocation current = (let f = failure_of e error in transition e
     \<lparr>tp_operation = ''topic3.task.fail'', tp_key = Op_fail, tp_action = ''AGENT_TASK_FAILED'',
      tp_event = ''topic3.agent-task.failed'', tp_metadata = [(''error'', failure_doc f)], tp_payload = [(''error'', failure_doc f)],
      tp_request = (\<lambda>task. DObj [(''task'', DObj task), (''error'', failure_doc f)]), tp_store = store_invocation invocation\<rparr>
     current (failed_record e TS_FAILED f current))"

definition skip_task ::
  "generation_env \<Rightarrow> string \<Rightarrow> agent_task \<Rightarrow> generation_world \<Rightarrow> (generation_error + agent_task) \<times> generation_world" where
  "skip_task e reason current = (let f = \<lparr>tf_error_code = ''LIYAN-TOPIC3-DEPENDENCY-FAILED'', tf_category = EC_TASK,
       tf_retriable = False, tf_safe_message = reason\<rparr> in transition e
     \<lparr>tp_operation = ''topic3.task.skip'', tp_key = Op_skip, tp_action = ''AGENT_TASK_SKIPPED'',
      tp_event = ''topic3.agent-task.skipped'', tp_metadata = [(''reason'', DStr reason)], tp_payload = [(''reason'', DStr reason)],
      tp_request = (\<lambda>task. DObj [(''task'', DObj task), (''reason'', DStr reason)]), tp_store = Inr\<rparr>
     current (failed_record e TS_SKIPPED f current))"

subsection \<open>Sessions\<close>

definition learner_access :: "generation_env \<Rightarrow> string \<Rightarrow> bool" where
  "learner_access e learner_ref \<longleftrightarrow> learner_ref = ge_subject e \<or> ''topic3:learner:any'' \<in> set (ge_scopes e) \<or> ''topic3:admin'' \<in> set (ge_scopes e)"

text \<open>\<^verbatim>\<open>{**xs, **ys}\<close>\<close>

definition dict_merge :: "(string \<times> 'val) list \<Rightarrow> (string \<times> 'val) list \<Rightarrow> (string \<times> 'val) list" where
  "dict_merge xs ys = map (\<lambda>(k, v). (k, case map_of ys k of None \<Rightarrow> v | Some v' \<Rightarrow> v')) xs
     @ filter (\<lambda>(k, _). map_of xs k = None) ys"

definition session_document :: "generation_session \<Rightarrow> (string \<times> doc) list" where
  "session_document s =
     [(''generation_session_id'', DStr (se_generation_session_id s)), (''session_version'', DInt (se_session_version s)),
      (''learner_ref'', DStr (se_learner_ref s)), (''course_id'', DStr (se_course_id s)),
      (''state'', DStr (session_state_value (se_state s))),
      (''requested_resources'', DList (map (\<lambda>r. DStr (resource_type_value r)) (se_requested_resources s))),
      (''result'', DObj (se_result_document s)), (''content_sha256'', DStr (se_content_sha256 s)), (''frozen_at'', DTime (se_frozen_at s))]"

definition hash_document :: "uuid \<Rightarrow> int \<Rightarrow> session_state \<Rightarrow> (string \<times> doc) list \<Rightarrow> (string \<times> doc) list \<Rightarrow> doc" where
  "hash_document i v s request result = DObj
     [(''generation_session_id'', DStr i), (''session_version'', DInt v), (''state'', DStr (session_state_value s)),
      (''request'', DObj request), (''result'', DObj result)]"

definition session_snapshot_id :: "hash_env \<Rightarrow> uuid \<Rightarrow> int \<Rightarrow> uuid" where
  "session_snapshot_id h i v = c_uuid5 h i (''session-version:'' @ str_of_int v)"

definition lecturer_depth_value :: "lecturer_depth \<Rightarrow> string" where
  "lecturer_depth_value d = (case d of LD_FOUNDATION \<Rightarrow> ''FOUNDATION'' | LD_EXAM_FOCUS \<Rightarrow> ''EXAM_FOCUS''
     | LD_POSTGRADUATE \<Rightarrow> ''POSTGRADUATE'' | LD_ENGINEERING \<Rightarrow> ''ENGINEERING'')"

definition command_doc :: "generation_command \<Rightarrow> doc" where
  "command_doc c = DObj
     [(''schema_version'', DStr ''topic3.generation-command.v1''), (''operation_id'', DStr (gc_operation_id c)),
      (''generation_session_id'', DStr (gc_generation_session_id c)), (''learner_ref'', DStr (gc_learner_ref c)),
      (''course_id'', DStr (gc_course_id c)), (''target_kp_ids'', DList (map DStr (gc_target_kp_ids c))),
      (''requested_resources'', DList (map (\<lambda>r. DStr (resource_type_value r)) (gc_requested_resources c))),
      (''lecturer_depth'', DStr (lecturer_depth_value (gc_lecturer_depth c))), (''learning_goal'', DStr (gc_learning_goal c)),
      (''locale'', DStr (gc_locale c)), (''max_parallelism'', DInt (gc_max_parallelism c)),
      (''allow_partial'', DBool (gc_allow_partial c)), (''requested_at'', DTime (gc_requested_at c))]"

definition full_blueprint_doc :: "blueprint \<Rightarrow> doc" where
  "full_blueprint_doc b = (case blueprint_doc b of DObj entries \<Rightarrow> DObj (entries @ [(''blueprint_sha256'', DStr (gb_blueprint_sha256 b))])
     | d \<Rightarrow> d)"

definition pending_task :: "hash_env \<Rightarrow> blueprint \<Rightarrow> generation_command \<Rightarrow> blueprint_step \<Rightarrow> agent_task" where
  "pending_task h b c s =
     (let request = DObj [(''generation_session_id'', DStr (gc_generation_session_id c)), (''command'', command_doc c), (''step'', step_doc s)]
      in \<lparr>gt_task_record_id = c_uuid5 h (gp_task_id s) ''task-version:1'', gt_task_id = gp_task_id s, gt_task_version = 1,
          gt_blueprint_id = gb_blueprint_id b, gt_blueprint_version = gb_blueprint_version b, gt_agent = gp_agent s,
          gt_resource_type = gp_resource_type s, gt_state = TS_PENDING, gt_dependency_task_ids = gp_dependency_task_ids s,
          gt_attempt = 0, gt_max_attempts = gp_max_attempts s, gt_timeout_seconds = gp_timeout_seconds s,
          gt_request_document = request, gt_result = None, gt_failure = None, gt_request_sha256 = c_sha h request,
          gt_result_sha256 = None, gt_started_at = None, gt_completed_at = None\<rparr>)"

definition planned_session ::
  "generation_env \<Rightarrow> generation_command \<Rightarrow> frozen_graph \<Rightarrow> agent_context \<Rightarrow> (string \<times> doc) list \<Rightarrow> (string \<times> doc) list
     \<Rightarrow> generation_session" where
  "planned_session e c g p request result =
     (let i = gc_generation_session_id c
      in \<lparr>se_session_snapshot_id = session_snapshot_id (ge_hash e) i 1, se_generation_session_id = i, se_session_version = 1,
          se_parent_session_snapshot_id = None, se_learner_ref = gc_learner_ref c, se_course_id = gc_course_id c,
          se_topic1_graph_snapshot_id = gs_snapshot_id g, se_topic1_graph_version = gs_graph_version g,
          se_topic2_profile_id = sp_profile_id (ac_profile p), se_topic2_profile_version = sp_profile_version (ac_profile p),
          se_topic2_path_snapshot_id = ls_path_snapshot_id (ac_path_snapshot p),
          se_topic2_path_version = ls_path_version (ac_path_snapshot p),
          se_personalization_policy_digest = ac_personalization_policy_digest p, se_requested_resources = gc_requested_resources c,
          se_state = SS_PLANNED, se_request_document = request, se_result_document = result,
          se_content_sha256 = c_sha (ge_hash e) (hash_document i 1 SS_PLANNED request result),
          se_created_by_subject = ge_subject e, se_frozen_at = ge_started_at e\<rparr>)"

fun append_all :: "('item \<Rightarrow> generation_world \<Rightarrow> generation_error + generation_world) \<Rightarrow> 'item list \<Rightarrow> generation_world
    \<Rightarrow> generation_error + generation_world" where
  "append_all add [] w = Inr w"
| "append_all add (x # xs) w = rbind (add x w) (append_all add xs)"

text \<open>\<^verbatim>\<open>create_workflow\<close>, with the callback of its transaction apart; the document of the personalization is an argument.\<close>

definition create_body ::
  "generation_env \<Rightarrow> generation_command \<Rightarrow> frozen_graph \<Rightarrow> agent_context \<Rightarrow> (string \<times> doc) list \<Rightarrow> blueprint \<times> doc
     \<Rightarrow> generation_world \<Rightarrow> generation_error + (string \<times> doc) list \<times> generation_world" where
  "create_body e c g p request decision w0 =
     (let (b, activation) = decision; i = gc_generation_session_id c; h = ge_hash e;
          identity = [(''blueprint_id'', DStr (gb_blueprint_id b)), (''blueprint_version'', DStr (gb_blueprint_version b))];
          tasks = map (pending_task h b c) (gb_steps b)
      in rbind (guard (latest_session w0 i = None) Generation_conflict) (\<lambda>_.
         rbind (append_session (planned_session e c g p request (identity @ [(''candidate_ids'', DList []), (''failed_agents'', DList [])]))
           (append_audit e ''GENERATION_WORKFLOW_CREATED'' i (identity @
              [(''requested_resources'', DList (map (\<lambda>r. DStr (resource_type_value r)) (gc_requested_resources c)))]) w0)) (\<lambda>w1.
         rbind (append_blueprint \<lparr>br_blueprint_snapshot_id = c_uuid5 h (gb_blueprint_id b) ''snapshot-v1'', br_blueprint = b,
           br_activation_document = activation, br_created_by_subject = ge_subject e, br_frozen_at = ge_started_at e\<rparr> w1) (\<lambda>w2.
         rbind (append_all append_task tasks w2) (\<lambda>w3.
         rbind (map_ok task_document tasks) (\<lambda>docs.
         let payload = [(''generation_session_id'', DStr i), (''session_version'', DInt 1), (''state'', DStr ''PLANNED''),
               (''blueprint'', full_blueprint_doc b), (''tasks'', DList (map DObj docs))]
         in Inr (payload, append_event ''topic3.workflow.created'' payload w3)))))))"

definition create_workflow ::
  "generation_env \<Rightarrow> generation_command \<Rightarrow> frozen_graph \<Rightarrow> agent_context \<Rightarrow> doc \<Rightarrow> blueprint \<times> doc \<Rightarrow> string
     \<Rightarrow> generation_world \<Rightarrow> (generation_error + (string \<times> doc) list) \<times> generation_world" where
  "create_workflow e c g p personalization decision key w =
     (let request = [(''command'', command_doc c), (''personalization'', personalization)]
      in if \<not> learner_access e (gc_learner_ref c) then (Inl Generation_forbidden, w)
         else if \<not> bounded 16 160 key then (Inl Generation_contract, w)
         else mutate e ''topic3.workflow.create'' (Client_key key) (DObj request) (create_body e c g p request decision) w)"

definition start_body :: "generation_env \<Rightarrow> uuid \<Rightarrow> generation_world \<Rightarrow> generation_error + (string \<times> doc) list \<times> generation_world" where
  "start_body e i w0 =
     (case latest_session w0 i of
        None \<Rightarrow> Inl Generation_not_found
      | Some current \<Rightarrow>
          if se_state current \<noteq> SS_PLANNED then Inr (session_document current, w0)
          else
            let v = se_session_version current + 1;
                result = dict_merge (se_result_document current) [(''state'', DStr ''RUNNING''), (''started_at'', DTime (ge_started_at e))];
                running = current\<lparr>se_session_snapshot_id := session_snapshot_id (ge_hash e) i v, se_session_version := v,
                  se_parent_session_snapshot_id := Some (se_session_snapshot_id current), se_state := SS_RUNNING,
                  se_result_document := result,
                  se_content_sha256 := c_sha (ge_hash e) (hash_document i v SS_RUNNING (se_request_document current) result),
                  se_frozen_at := ge_started_at e\<rparr>
            in rbind (append_session running (append_audit e ''GENERATION_WORKFLOW_STARTED'' i (session_document running) w0)) (\<lambda>w1.
               Inr (session_document running, append_event ''topic3.workflow.started'' (session_document running) w1)))"

definition start_workflow :: "generation_env \<Rightarrow> uuid \<Rightarrow> generation_world \<Rightarrow> (generation_error + generation_session) \<times> generation_world" where
  "start_workflow e i w =
     (case mutate e ''topic3.workflow.start'' (Session_start_key i) (DObj [(''generation_session_id'', DStr i)]) (start_body e i) w of
        (Inl err, w') \<Rightarrow> (Inl err, w')
      | (Inr _, w') \<Rightarrow> ((case latest_session w' i of None \<Rightarrow> Inl Generation_not_found | Some s \<Rightarrow> Inr s), w'))"

record generation_result =
  rz_generation_session_id :: uuid
  rz_session_version :: int
  rz_state :: session_state
  rz_blueprint :: blueprint
  rz_tasks :: "agent_task list"
  rz_candidates :: "candidate list"
  rz_failed_agents :: "source_agent list"
  rz_completed_at :: timestamp

definition valid_result :: "generation_result \<Rightarrow> bool" where
  "valid_result r \<longleftrightarrow> 1 \<le> rz_session_version r \<and> bounded 1 64 (rz_tasks r) \<and> list_all valid_snapshot (rz_tasks r)
     \<and> bounded 0 64 (rz_candidates r) \<and> bounded 0 5 (rz_failed_agents r)"

text \<open>The final state and what it is decided from.\<close>

definition agents_in :: "task_state list \<Rightarrow> agent_task list \<Rightarrow> source_agent list" where
  "agents_in states tasks = map gt_agent (filter (\<lambda>t. gt_state t \<in> set states) tasks)"

definition final_state :: "blueprint \<Rightarrow> agent_task list \<Rightarrow> session_state" where
  "final_state b tasks =
     (let incomplete = agents_in [TS_FAILED] tasks @ agents_in [TS_SKIPPED, TS_CANCELLED] tasks
      in if incomplete \<noteq> [] \<and> gb_allow_partial b \<and> list_ex (\<lambda>t. gt_state t = TS_SUCCEEDED) tasks then SS_PARTIAL
         else if incomplete \<noteq> [] then SS_FAILED else SS_COMPLETED)"

definition session_over :: "session_state \<Rightarrow> bool" where
  "session_over s \<longleftrightarrow> s \<in> {SS_COMPLETED, SS_PARTIAL, SS_FAILED, SS_CANCELLED}"

definition finalize_body ::
  "generation_env \<Rightarrow> uuid \<Rightarrow> blueprint \<Rightarrow> agent_task list \<Rightarrow> candidate list \<Rightarrow> generation_world
     \<Rightarrow> generation_error + (string \<times> doc) list \<times> generation_world" where
  "finalize_body e i b tasks candidates w0 =
     (case latest_session w0 i of
        None \<Rightarrow> Inl Generation_not_found
      | Some current \<Rightarrow>
          if session_over (se_state current)
          then Inr (dict_merge [(''session_version'', DInt (se_session_version current))] (se_result_document current), w0)
          else
            let v = se_session_version current + 1; state = final_state b tasks;
                result = [(''session_version'', DInt v), (''blueprint_id'', DStr (gb_blueprint_id b)),
                  (''blueprint_version'', DStr (gb_blueprint_version b)),
                  (''candidate_ids'', DList (map (\<lambda>c. DStr (ca_candidate_id c)) candidates)),
                  (''failed_agents'', DList (map (\<lambda>a. DStr (source_agent_value a)) (agents_in [TS_FAILED] tasks))),
                  (''completed_at'', DTime (ge_completed_at e)), (''state'', DStr (session_state_value state))];
                final = current\<lparr>se_session_snapshot_id := session_snapshot_id (ge_hash e) i v, se_session_version := v,
                  se_parent_session_snapshot_id := Some (se_session_snapshot_id current), se_state := state,
                  se_result_document := result, se_content_sha256 := c_sha (ge_hash e) (DObj result),
                  se_created_by_subject := ge_subject e, se_frozen_at := ge_completed_at e\<rparr>
            in rbind (append_session final (append_audit e ''GENERATION_WORKFLOW_FINALIZED'' i result w0)) (\<lambda>w1.
               Inr (result, append_event ''topic3.workflow.finalized'' ((''generation_session_id'', DStr i) # result) w1)))"

definition finalize_workflow ::
  "generation_env \<Rightarrow> uuid \<Rightarrow> blueprint \<Rightarrow> agent_task list \<Rightarrow> candidate list \<Rightarrow> generation_world
     \<Rightarrow> (generation_error + generation_result) \<times> generation_world" where
  "finalize_workflow e i b tasks candidates w =
     (if list_ex (\<lambda>t. gt_state t \<in> {TS_PENDING, TS_RUNNING}) tasks then (Inl Generation_conflict, w)
      else case map_ok task_document tasks of
          Inl err \<Rightarrow> (Inl err, w)
        | Inr docs \<Rightarrow>
            (case mutate e ''topic3.workflow.finalize'' (Session_finalize_key i)
               (DObj [(''blueprint_sha256'', DStr (gb_blueprint_sha256 b)), (''tasks'', DList (map DObj docs)),
                 (''candidate_hashes'', DList (map (\<lambda>c. DStr (ca_candidate_sha256 c)) candidates))])
               (finalize_body e i b tasks candidates) w of
               (Inl err, w') \<Rightarrow> (Inl err, w')
             | (Inr persisted, w') \<Rightarrow>
                 ((case map_of persisted ''session_version'' of
                     Some (DInt v) \<Rightarrow>
                       let r = \<lparr>rz_generation_session_id = i, rz_session_version = v, rz_state = final_state b tasks, rz_blueprint = b,
                         rz_tasks = tasks, rz_candidates = candidates, rz_failed_agents = agents_in [TS_FAILED] tasks,
                         rz_completed_at = ge_completed_at e\<rparr>
                       in if valid_result r then Inr r else Inl Generation_contract
                   | _ \<Rightarrow> Inl Generation_key_error), w')))"

text \<open>What \<^verbatim>\<open>load_runtime\<close> returns besides the command and the personalization, which are read back from documents that were
dumped from valid models.\<close>

definition load_runtime ::
  "generation_env \<Rightarrow> uuid \<Rightarrow> generation_world
     \<Rightarrow> generation_error + generation_session \<times> blueprint \<times> agent_task list \<times> candidate list" where
  "load_runtime e i w =
     (case latest_session w i of
        None \<Rightarrow> Inl Generation_not_found
      | Some current \<Rightarrow>
          rbind (guard (learner_access e (se_learner_ref current)) Generation_forbidden) (\<lambda>_.
          case get_session w i 1 of
            None \<Rightarrow> Inl Generation_not_found
          | Some initial \<Rightarrow>
              (case (map_of (se_result_document initial) ''blueprint_id'', map_of (se_result_document initial) ''blueprint_version'') of
                 (Some (DStr b), Some (DStr v)) \<Rightarrow>
                   rbind (get_blueprint (ge_hash e) w b v) (\<lambda>found.
                   case found of
                     None \<Rightarrow> Inl Generation_not_found
                   | Some r \<Rightarrow> Inr (current, br_blueprint r, latest_tasks w b v, list_candidates w b v))
               | _ \<Rightarrow> Inl Generation_key_error)))"

end
