(* ===== verification/GenerationRun.thy ===== *)
theory GenerationRun
  imports Generation
begin

text \<open>
  The execution of a workflow, \<^verbatim>\<open>Topic3Orchestrator\<close> of \<^verbatim>\<open>backend/src/liyans/domains/topic3/orchestrator.py\<close>: the attempts
  of a task, the rounds over the graph of tasks, and the execution from start to final state.

  The advisory lock makes the executions of a session exclusive.  The tasks of a batch do not depend on each
  other and touch different rows, so they are run one after another; when one raises, the others run to their end.  A process that
  dies is one whose transactions are all refused from then on.  Messages to live streams are left out; their errors are logged only.
\<close>

definition find_task :: "agent_task list \<Rightarrow> uuid \<Rightarrow> agent_task option" where
  "find_task tasks i = find (\<lambda>t. gt_task_id t = i) tasks"

definition put_task :: "agent_task \<Rightarrow> agent_task list \<Rightarrow> agent_task list" where
  "put_task t tasks = map (\<lambda>s. if gt_task_id s = gt_task_id t then t else s) tasks"

definition actionable :: "agent_task \<Rightarrow> bool" where
  "actionable t \<longleftrightarrow> gt_state t \<in> {TS_PENDING, TS_RUNNING}
     \<or> gt_state t = TS_FAILED \<and> (case gt_failure t of None \<Rightarrow> False | Some f \<Rightarrow> tf_retriable f) \<and> gt_attempt t < gt_max_attempts t"

subsection \<open>The attempts of a task\<close>

definition normalize_error :: "app_error \<Rightarrow> liyan_error" where
  "normalize_error error = (case error of
     Liyan l \<Rightarrow> l
   | Foreign_error _ \<Rightarrow> \<lparr>le_code = ''LIYAN-TOPIC3-GENERATION-FAILED'', le_category = EC_INTERNAL, le_retriable = False,
       le_status_code = 500\<rparr>)"

type_synonym candidate_map = "(uuid \<times> candidate) list"

definition dependency_candidates :: "agent_task list \<Rightarrow> candidate_map \<Rightarrow> agent_task \<Rightarrow> candidate list option" where
  "dependency_candidates tasks cs t = those (map (\<lambda>d.
     case find_task tasks d of
       None \<Rightarrow> None
     | Some s \<Rightarrow> (case gt_result s of None \<Rightarrow> None | Some r \<Rightarrow> map_of cs (tr_candidate_id r))) (gt_dependency_task_ids t))"

datatype attempt_outcome = Attempt_raised generation_error | Attempt_retry agent_task | Attempt_over agent_task "candidate option"

definition after_failure ::
  "generation_env \<Rightarrow> liyan_error \<Rightarrow> bool \<Rightarrow> uuid option \<Rightarrow> agent_task \<Rightarrow> generation_world \<Rightarrow> attempt_outcome \<times> generation_world" where
  "after_failure e error retry invocation current w =
     (case fail_task e error invocation current w of
        (Inl err, w') \<Rightarrow> (Attempt_raised err, w')
      | (Inr failed, w') \<Rightarrow>
          (if retry \<and> gt_attempt failed < gt_max_attempts failed then Attempt_retry failed else Attempt_over failed None, w'))"

definition call_agent ::
  "generation_env \<Rightarrow> agent_task list \<Rightarrow> candidate_map \<Rightarrow> agent_task \<Rightarrow> generation_world \<Rightarrow> attempt_outcome \<times> generation_world" where
  "call_agent e tasks cs current w =
     (case dependency_candidates tasks cs current of
        None \<Rightarrow> (Attempt_raised Generation_key_error, w)
      | Some deps \<Rightarrow>
          let w1 = w\<lparr>gn_calls := gn_calls w @ [(gt_task_id current, gt_attempt current, deps)]\<rparr>;
              invocation = (\<lambda>invoked. if invoked then Some (c_uuid5 (ge_hash e) (gt_task_id current)
                (''invocation:'' @ str_of_int (gt_attempt current))) else None)
          in case ge_agent e (gt_task_id current) (gt_attempt current) deps of
               Agent_timeout \<Rightarrow> after_failure e (normalize_error operation_timeout_error) True None current w1
             | Agent_error error invoked \<Rightarrow>
                 after_failure e (normalize_error error) (le_retriable (normalize_error error)) (invocation invoked) current w1
             | Agent_candidate c invoked \<Rightarrow>
                 (case complete_task e c (ge_chunks e c) (invocation invoked) current w1 of
                    (Inl err, w') \<Rightarrow> (Attempt_raised err, w')
                  | (Inr t, w') \<Rightarrow> (Attempt_over t (Some c), w')))"

definition try_task ::
  "generation_env \<Rightarrow> agent_task list \<Rightarrow> candidate_map \<Rightarrow> agent_task \<Rightarrow> generation_world \<Rightarrow> attempt_outcome \<times> generation_world" where
  "try_task e tasks cs t w =
     (if gt_state t = TS_RUNNING then call_agent e tasks cs t w
      else case mark_task_running e t w of
             (Inl err, w') \<Rightarrow> (Attempt_raised err, w')
           | (Inr current, w') \<Rightarrow> call_agent e tasks cs current w')"

lemma transition_Inr: "transition e p t t' w = (Inr s, w') \<Longrightarrow> s = t'"
  by (auto simp: transition_def split: sum.splits prod.splits)

lemma successor_fields [simp]:
  "gt_task_id (successor e t) = gt_task_id t" "gt_task_version (successor e t) = gt_task_version t + 1"
  "gt_blueprint_id (successor e t) = gt_blueprint_id t" "gt_blueprint_version (successor e t) = gt_blueprint_version t"
  "gt_state (successor e t) = gt_state t" "gt_attempt (successor e t) = gt_attempt t"
  "gt_max_attempts (successor e t) = gt_max_attempts t" "gt_dependency_task_ids (successor e t) = gt_dependency_task_ids t"
  "gt_agent (successor e t) = gt_agent t" "gt_result (successor e t) = gt_result t" "gt_failure (successor e t) = gt_failure t"
  by (simp_all add: successor_def)

lemma fail_task_Inr: "fail_task e error i t w = (Inr s, w') \<Longrightarrow> s = failed_record e TS_FAILED (failure_of e error) t"
  unfolding fail_task_def Let_def by (rule transition_Inr)

lemma mark_task_running_Inr: "mark_task_running e t w = (Inr s, w') \<Longrightarrow> s = running_record e t"
  unfolding mark_task_running_def by (rule transition_Inr)

text \<open>The fields of the successor rows.\<close>

lemma running_record_fields [simp]:
  "gt_task_id (running_record e t) = gt_task_id t" "gt_task_version (running_record e t) = gt_task_version t + 1"
  "gt_blueprint_id (running_record e t) = gt_blueprint_id t" "gt_blueprint_version (running_record e t) = gt_blueprint_version t"
  "gt_state (running_record e t) = TS_RUNNING" "gt_attempt (running_record e t) = gt_attempt t + 1"
  "gt_max_attempts (running_record e t) = gt_max_attempts t" "gt_agent (running_record e t) = gt_agent t"
  "gt_dependency_task_ids (running_record e t) = gt_dependency_task_ids t"
  by (simp_all add: running_record_def)

lemma failed_record_fields [simp]:
  "gt_task_id (failed_record e s f t) = gt_task_id t" "gt_task_version (failed_record e s f t) = gt_task_version t + 1"
  "gt_blueprint_id (failed_record e s f t) = gt_blueprint_id t" "gt_blueprint_version (failed_record e s f t) = gt_blueprint_version t"
  "gt_state (failed_record e s f t) = s" "gt_attempt (failed_record e s f t) = gt_attempt t"
  "gt_max_attempts (failed_record e s f t) = gt_max_attempts t" "gt_agent (failed_record e s f t) = gt_agent t"
  "gt_dependency_task_ids (failed_record e s f t) = gt_dependency_task_ids t" "gt_failure (failed_record e s f t) = Some f"
  by (simp_all add: failed_record_def)

lemma succeeded_record_fields [simp]:
  "gt_task_id (succeeded_record e c ks t) = gt_task_id t" "gt_task_version (succeeded_record e c ks t) = gt_task_version t + 1"
  "gt_blueprint_id (succeeded_record e c ks t) = gt_blueprint_id t"
  "gt_blueprint_version (succeeded_record e c ks t) = gt_blueprint_version t"
  "gt_state (succeeded_record e c ks t) = TS_SUCCEEDED" "gt_attempt (succeeded_record e c ks t) = gt_attempt t"
  "gt_max_attempts (succeeded_record e c ks t) = gt_max_attempts t" "gt_agent (succeeded_record e c ks t) = gt_agent t"
  "gt_dependency_task_ids (succeeded_record e c ks t) = gt_dependency_task_ids t"
  "gt_result (succeeded_record e c ks t) = Some (accepted_result_of c ks)"
  by (simp_all add: succeeded_record_def Let_def)

lemma after_failure_retry:
  assumes "after_failure e error retry i t w = (Attempt_retry t', w')"
  shows "t' = failed_record e TS_FAILED (failure_of e error) t" "retry" "gt_attempt t < gt_max_attempts t"
proof -
  obtain s where s: "fail_task e error i t w = (Inr s, w')" "t' = s" "retry" "gt_attempt s < gt_max_attempts s"
    using assms by (auto simp: after_failure_def split: sum.splits prod.splits if_splits)
  with fail_task_Inr [OF s(1)] show "t' = failed_record e TS_FAILED (failure_of e error) t" "retry" "gt_attempt t < gt_max_attempts t"
    by simp_all
qed

lemma call_agent_retry:
  assumes "call_agent e tasks cs t w = (Attempt_retry t', w')"
  obtains f where "t' = failed_record e TS_FAILED f t" "tf_retriable f" "gt_attempt t < gt_max_attempts t"
proof -
  obtain error retry i w1 where "after_failure e error retry i t w1 = (Attempt_retry t', w')" "retry \<longrightarrow> le_retriable error"
    using assms by (auto simp: call_agent_def Let_def normalize_error_def operation_timeout_error_def liyan_def
        split: option.splits agent_reply.splits sum.splits prod.splits)
  from after_failure_retry [OF this(1)] this(2) show ?thesis by (intro that [of "failure_of e error"]) (simp_all add: failure_of_def)
qed

lemma call_agent_over:
  assumes "call_agent e tasks cs t w = (Attempt_over t' c, w')"
  shows "(\<exists>f. t' = failed_record e TS_FAILED f t \<and> (tf_retriable f \<longrightarrow> gt_max_attempts t \<le> gt_attempt t) \<and> c = None)
    \<or> (\<exists>x ks. t' = succeeded_record e x ks t \<and> c = Some x)"
proof -
  have after: "\<exists>f. t' = failed_record e TS_FAILED f t \<and> (tf_retriable f \<longrightarrow> gt_max_attempts t \<le> gt_attempt t) \<and> c = None"
    if a: "after_failure e error retry i t w1 = (Attempt_over t' c, w')" "le_retriable error \<longrightarrow> retry" for error retry i w1
  proof -
    obtain s where s: "fail_task e error i t w1 = (Inr s, w')" "t' = s" "c = None" "\<not> (retry \<and> gt_attempt s < gt_max_attempts s)"
      using a(1) by (auto simp: after_failure_def split: sum.splits prod.splits if_splits)
    from fail_task_Inr [OF s(1)] s a(2) show ?thesis by (intro exI [of _ "failure_of e error"]) (auto simp: failure_of_def)
  qed
  have finished: "t' = succeeded_record e x (ge_chunks e x) t" if "complete_task e x (ge_chunks e x) i t w1 = (Inr t', w')" for x i w1
    using that unfolding complete_task_def by (rule transition_Inr)
  from assms consider (fails) error retry i w1 where "after_failure e error retry i t w1 = (Attempt_over t' c, w')" "le_retriable error \<longrightarrow> retry"
    | (succeeds) x i w1 where "complete_task e x (ge_chunks e x) i t w1 = (Inr t', w')" "c = Some x"
    by (auto simp: call_agent_def Let_def split: option.splits agent_reply.splits sum.splits prod.splits)
  then show ?thesis
    using after finished by cases blast+
qed

lemma try_task_retry:
  assumes "try_task e tasks cs t w = (Attempt_retry t', w')"
  shows "gt_state t' = TS_FAILED" "gt_max_attempts t' = gt_max_attempts t" "gt_attempt t' < gt_max_attempts t'"
    "gt_attempt t' = (if gt_state t = TS_RUNNING then gt_attempt t else gt_attempt t + 1)"
proof -
  obtain s w1 where s: "call_agent e tasks cs s w1 = (Attempt_retry t', w')"
      "s = (if gt_state t = TS_RUNNING then t else running_record e t)"
    using assms by (auto simp: try_task_def dest: mark_task_running_Inr split: if_splits sum.splits prod.splits)
  from call_agent_retry [OF s(1)] obtain f where "t' = failed_record e TS_FAILED f s" "gt_attempt s < gt_max_attempts s" by blast
  with s(2) show "gt_state t' = TS_FAILED" "gt_max_attempts t' = gt_max_attempts t" "gt_attempt t' < gt_max_attempts t'"
    "gt_attempt t' = (if gt_state t = TS_RUNNING then gt_attempt t else gt_attempt t + 1)" by simp_all
qed

function run_task ::
  "generation_env \<Rightarrow> agent_task list \<Rightarrow> candidate_map \<Rightarrow> agent_task \<Rightarrow> generation_world
     \<Rightarrow> (generation_error + agent_task \<times> candidate option) \<times> generation_world" where
  "run_task e tasks cs t w =
     (case try_task e tasks cs t w of
        (Attempt_raised err, w') \<Rightarrow> (Inl err, w')
      | (Attempt_over t' c, w') \<Rightarrow> (Inr (t', c), w')
      | (Attempt_retry t', w') \<Rightarrow> run_task e tasks cs t' w')"
  by pat_completeness auto

termination
proof (relation "measure (\<lambda>(e, tasks, cs, t, w). 2 * nat (gt_max_attempts t - gt_attempt t) + (if gt_state t = TS_RUNNING then 1 else 0))",
    goal_cases)
  case (2 e tasks cs t w outcome w' t')
  then have "try_task e tasks cs t w = (Attempt_retry t', w')" by simp
  from try_task_retry [OF this] show ?case by (auto split: if_splits)
qed simp

declare run_task.simps [simp del]

subsection \<open>The rounds\<close>

fun run_batch ::
  "generation_env \<Rightarrow> agent_task list \<Rightarrow> candidate_map \<Rightarrow> agent_task list \<Rightarrow> generation_world
     \<Rightarrow> (generation_error + (agent_task \<times> candidate option) list) \<times> generation_world" where
  "run_batch e tasks cs [] w = (Inr [], w)"
| "run_batch e tasks cs (t # ts) w =
     (let (r, w1) = run_task e tasks cs t w; (rs, w2) = run_batch e tasks cs ts w1
      in (rbind r (\<lambda>x. rbind rs (\<lambda>xs. Inr (x # xs))), w2))"

definition upstream_reason :: string where
  "upstream_reason = ''A required upstream Agent did not produce an accepted candidate.''"

definition stuck_reason :: string where
  "stuck_reason = ''The immutable Blueprint dependency graph could not make progress.''"

definition blocking :: "task_state \<Rightarrow> bool" where
  "blocking s \<longleftrightarrow> s \<in> {TS_FAILED, TS_SKIPPED, TS_CANCELLED}"

fun skip_blocked ::
  "generation_env \<Rightarrow> agent_task list \<Rightarrow> agent_task list \<Rightarrow> generation_world
     \<Rightarrow> (generation_error + agent_task list) \<times> generation_world" where
  "skip_blocked e [] tasks w = (Inr tasks, w)"
| "skip_blocked e (t # ts) tasks w =
     (case those (map (find_task tasks) (gt_dependency_task_ids t)) of
        None \<Rightarrow> (Inl Generation_key_error, w)
      | Some ds \<Rightarrow>
          if list_ex (\<lambda>d. blocking (gt_state d)) ds
          then (case skip_task e upstream_reason t w of
                  (Inl err, w') \<Rightarrow> (Inl err, w')
                | (Inr s, w') \<Rightarrow> skip_blocked e ts (put_task s tasks) w')
          else skip_blocked e ts tasks w)"

fun skip_stuck ::
  "generation_env \<Rightarrow> agent_task list \<Rightarrow> generation_world \<Rightarrow> (generation_error + unit) \<times> generation_world" where
  "skip_stuck e [] w = (Inr (), w)"
| "skip_stuck e (t # ts) w =
     (case skip_task e stuck_reason t w of
        (Inl err, w') \<Rightarrow> (Inl err, w')
      | (Inr _, w') \<Rightarrow> skip_stuck e ts w')"

definition task_ready :: "agent_task list \<Rightarrow> agent_task \<Rightarrow> bool" where
  "task_ready tasks t \<longleftrightarrow> actionable t
     \<and> list_all (\<lambda>d. map_option gt_state (find_task tasks d) = Some TS_SUCCEEDED) (gt_dependency_task_ids t)"

definition step_of :: "blueprint \<Rightarrow> uuid \<Rightarrow> blueprint_step option" where
  "step_of b i = find (\<lambda>s. gp_task_id s = i) (gb_steps b)"

definition ordinal_of :: "blueprint \<Rightarrow> agent_task \<Rightarrow> int" where
  "ordinal_of b t = (case step_of b (gt_task_id t) of None \<Rightarrow> 0 | Some s \<Rightarrow> gp_ordinal s)"

definition put_outcome :: "agent_task \<times> candidate option \<Rightarrow> agent_task list \<times> candidate_map \<Rightarrow> agent_task list \<times> candidate_map" where
  "put_outcome = (\<lambda>(t, c) (tasks, cs).
     (put_task t tasks, case c of None \<Rightarrow> cs | Some x \<Rightarrow> (ca_candidate_id x, x) # cs))"

datatype dag_progress = Dag_done | Dag_more "agent_task list" candidate_map

definition dag_round ::
  "generation_env \<Rightarrow> blueprint \<Rightarrow> agent_task list \<Rightarrow> candidate_map \<Rightarrow> generation_world
     \<Rightarrow> (generation_error + dag_progress) \<times> generation_world" where
  "dag_round e b tasks cs w =
     (let todo = filter actionable tasks
      in if todo = [] then (Inr Dag_done, w)
         else case skip_blocked e todo tasks w of
                (Inl err, w1) \<Rightarrow> (Inl err, w1)
              | (Inr tasks1, w1) \<Rightarrow>
                  let ready = filter (task_ready tasks1) tasks1
                  in if ready = []
                     then (case skip_stuck e (filter (\<lambda>t. gt_state t \<in> {TS_PENDING, TS_RUNNING}) tasks1) w1 of
                             (Inl err, w2) \<Rightarrow> (Inl err, w2)
                           | (Inr _, w2) \<Rightarrow> (Inr Dag_done, w2))
                     else if list_ex (\<lambda>t. step_of b (gt_task_id t) = None) ready then (Inl Generation_key_error, w1)
                     else
                       let batch = take (nat (gb_max_parallelism b)) (sort_key (ordinal_of b) ready)
                       in case run_batch e tasks1 cs batch w1 of
                            (Inl err, w2) \<Rightarrow> (Inl err, w2)
                          | (Inr outcomes, w2) \<Rightarrow>
                              let (tasks2, cs2) = fold put_outcome outcomes (tasks1, cs) in (Inr (Dag_more tasks2 cs2), w2))"

partial_function (option) execute_dag ::
  "generation_env \<Rightarrow> blueprint \<Rightarrow> agent_task list \<Rightarrow> candidate_map \<Rightarrow> generation_world
     \<Rightarrow> ((generation_error + unit) \<times> generation_world) option" where
  "execute_dag e b tasks cs w =
     (case dag_round e b tasks cs w of
        (Inl err, w') \<Rightarrow> Some (Inl err, w')
      | (Inr Dag_done, w') \<Rightarrow> Some (Inr (), w')
      | (Inr (Dag_more tasks' cs'), w') \<Rightarrow> execute_dag e b tasks' cs' w')"

declare execute_dag.simps [code]

subsection \<open>The execution\<close>

text \<open>\<^verbatim>\<open>_result_from_runtime\<close>\<close>

definition result_from_runtime :: "int \<Rightarrow> session_state \<Rightarrow> blueprint \<Rightarrow> agent_task list \<Rightarrow> candidate list \<Rightarrow> generation_error + generation_result" where
  "result_from_runtime v s b tasks candidates =
     (let times = List.map_filter gt_completed_at tasks;
          r = \<lparr>rz_generation_session_id = gb_generation_session_id b, rz_session_version = v, rz_state = s, rz_blueprint = b,
            rz_tasks = tasks, rz_candidates = candidates, rz_failed_agents = agents_in [TS_FAILED] tasks,
            rz_completed_at = (if times = [] then gb_created_at b else foldl max (hd times) (tl times))\<rparr>
      in if valid_result r then Inr r else Inl Generation_contract)"

definition candidate_map_of :: "candidate list \<Rightarrow> candidate_map" where
  "candidate_map_of cs = rev (map (\<lambda>c. (ca_candidate_id c, c)) cs)"

definition execute_workflow ::
  "generation_env \<Rightarrow> uuid \<Rightarrow> generation_world \<Rightarrow> ((generation_error + generation_result) \<times> generation_world) option" where
  "execute_workflow e i w =
     (case start_workflow e i w of
        (Inl err, w1) \<Rightarrow> Some (Inl err, w1)
      | (Inr _, w1) \<Rightarrow>
          (case load_runtime e i w1 of
             Inl err \<Rightarrow> Some (Inl err, w1)
           | Inr (session, b, tasks, candidates) \<Rightarrow>
               if session_over (se_state session)
               then Some (result_from_runtime (se_session_version session) (se_state session) b tasks candidates, w1)
               else case ge_graph_sha256 e (gb_topic1_graph_snapshot_id b) of
                      None \<Rightarrow> Some (Inl Generation_not_found, w1)
                    | Some d \<Rightarrow>
                        if d \<noteq> gb_topic1_graph_sha256 b then Some (Inl Generation_failed, w1)
                        else case execute_dag e b tasks (candidate_map_of candidates) w1 of
                               None \<Rightarrow> None
                             | Some (Inl err, w2) \<Rightarrow> Some (Inl err, w2)
                             | Some (Inr _, w2) \<Rightarrow>
                                 (case load_runtime e i w2 of
                                    Inl err \<Rightarrow> Some (Inl err, w2)
                                  | Inr (_, _, tasks', candidates') \<Rightarrow>
                                      Some (finalize_workflow e i b tasks' candidates' w2))))"

subsection \<open>Every execution ends\<close>

text \<open>A task that was run or skipped is not actionable any more, so that every round leaves fewer actionable tasks.\<close>

lemma run_task_over:
  "run_task e tasks cs t w = (Inr (t', c), w') \<Longrightarrow> gt_task_id t' = gt_task_id t \<and> \<not> actionable t'"
proof (induction e tasks cs t w rule: run_task.induct)
  case (1 e tasks cs t w)
  obtain outcome w1 where attempt: "try_task e tasks cs t w = (outcome, w1)" by (rule prod.exhaust)
  show ?case
  proof (cases outcome)
    case (Attempt_raised err)
    with 1(2) attempt show ?thesis by (simp add: run_task.simps [of e tasks cs t w])
  next
    case (Attempt_retry s)
    note att = attempt [unfolded Attempt_retry]
    have "gt_task_id s = gt_task_id t"
    proof -
      obtain r w2 where r: "call_agent e tasks cs r w2 = (Attempt_retry s, w1)" "gt_task_id r = gt_task_id t"
        using att by (auto simp: try_task_def dest: mark_task_running_Inr split: if_splits sum.splits prod.splits)
      from call_agent_retry [OF r(1)] obtain f where "s = failed_record e TS_FAILED f r" by blast
      with r(2) show ?thesis by simp
    qed
    moreover have "run_task e tasks cs s w1 = (Inr (t', c), w')"
      using 1(2) att by (simp add: run_task.simps [of e tasks cs t w])
    ultimately show ?thesis using 1(1) [OF att [symmetric] refl] by simp
  next
    case (Attempt_over s c')
    note att = attempt [unfolded Attempt_over]
    have res: "t' = s" using 1(2) att by (simp add: run_task.simps [of e tasks cs t w])
    obtain r w2 where r: "call_agent e tasks cs r w2 = (Attempt_over s c', w1)" "gt_task_id r = gt_task_id t"
      using att by (auto simp: try_task_def dest: mark_task_running_Inr split: if_splits sum.splits prod.splits)
    have "gt_task_id s = gt_task_id r \<and> \<not> actionable s" using call_agent_over [OF r(1)] by (auto simp: actionable_def)
    with r(2) res show ?thesis by simp
  qed
qed

lemma skip_task_Inr: "skip_task e reason t w = (Inr s, w') \<Longrightarrow> gt_task_id s = gt_task_id t \<and> gt_state s = TS_SKIPPED"
  unfolding skip_task_def Let_def by (drule transition_Inr) simp

lemma actionable_skipped: "gt_state t = TS_SKIPPED \<Longrightarrow> \<not> actionable t"
  by (simp add: actionable_def)

definition todo_count :: "agent_task list \<Rightarrow> nat" where
  "todo_count tasks = length (filter actionable tasks)"

lemma todo_count_put:
  assumes "\<not> actionable t"
  shows "todo_count (put_task t tasks) \<le> todo_count tasks"
    "s \<in> set tasks \<Longrightarrow> actionable s \<Longrightarrow> gt_task_id s = gt_task_id t \<Longrightarrow> todo_count (put_task t tasks) < todo_count tasks"
proof -
  show le: "todo_count (put_task t ts) \<le> todo_count ts" for ts
    using assms by (induction ts) (auto simp: todo_count_def put_task_def)
  show "s \<in> set tasks \<Longrightarrow> actionable s \<Longrightarrow> gt_task_id s = gt_task_id t \<Longrightarrow> todo_count (put_task t tasks) < todo_count tasks"
  proof (induction tasks)
    case (Cons u us)
    from le [of us] Cons assms show ?case by (auto simp: todo_count_def put_task_def)
  qed simp
qed

lemma skip_blocked_count:
  "skip_blocked e ts tasks w = (Inr tasks', w') \<Longrightarrow> todo_count tasks' \<le> todo_count tasks"
proof (induction ts arbitrary: tasks w)
  case (Cons t ts)
  from Cons.prems consider (pass) "skip_blocked e ts tasks w = (Inr tasks', w')"
    | (skip) s w1 where "skip_task e upstream_reason t w = (Inr s, w1)" "skip_blocked e ts (put_task s tasks) w1 = (Inr tasks', w')"
    by (auto split: option.splits if_splits sum.splits prod.splits)
  then show ?case
  proof cases
    case pass
    then show ?thesis by (rule Cons.IH)
  next
    case skip
    have "\<not> actionable s" using skip_task_Inr [OF skip(1)] actionable_skipped by blast
    from Cons.IH [OF skip(2)] todo_count_put(1) [OF this, of tasks] show ?thesis by simp
  qed
qed simp

lemma run_batch_over:
  "run_batch e tasks cs ts w = (Inr outcomes, w')
     \<Longrightarrow> list_all2 (\<lambda>t (t', c). gt_task_id t' = gt_task_id t \<and> \<not> actionable t') ts outcomes"
  by (induction ts arbitrary: w outcomes)
    (auto simp: Let_def rbind_Inr_iff split: prod.splits dest!: run_task_over)

lemma put_outcomes_count:
  assumes "list_all2 (\<lambda>t (t', c). gt_task_id t' = gt_task_id t \<and> \<not> actionable t') ts outcomes"
  shows "todo_count (fst (fold put_outcome outcomes (tasks, cs))) \<le> todo_count tasks"
  using assms
proof (induction arbitrary: tasks cs rule: list_all2_induct)
  case (Cons t ts x outcomes)
  obtain t' c where x: "x = (t', c)" by (rule prod.exhaust)
  obtain cs' where put: "put_outcome x (tasks, cs) = (put_task t' tasks, cs')" by (simp add: put_outcome_def x)
  from Cons(1) x have "\<not> actionable t'" by simp
  with Cons.IH [of "put_task t' tasks" cs'] todo_count_put(1) [of t' tasks] show ?case by (simp add: put)
qed simp

lemma dag_round_count:
  assumes "dag_round e b tasks cs w = (Inr (Dag_more tasks' cs'), w')" "1 \<le> gb_max_parallelism b"
  shows "todo_count tasks' < todo_count tasks"
proof -
  obtain tasks1 w1 ready batch outcomes where r:
      "skip_blocked e (filter actionable tasks) tasks w = (Inr tasks1, w1)" "ready = filter (task_ready tasks1) tasks1" "ready \<noteq> []"
      "batch = take (nat (gb_max_parallelism b)) (sort_key (ordinal_of b) ready)"
      "run_batch e tasks1 cs batch w1 = (Inr outcomes, w')" "fold put_outcome outcomes (tasks1, cs) = (tasks', cs')"
    using assms(1) by (auto simp: dag_round_def Let_def split: if_splits sum.splits prod.splits)
  have over: "list_all2 (\<lambda>t (t', c). gt_task_id t' = gt_task_id t \<and> \<not> actionable t') batch outcomes"
    by (rule run_batch_over [OF r(5)])
  have "length batch = min (length ready) (nat (gb_max_parallelism b))" by (simp add: r(4))
  with r(3) assms(2) have "batch \<noteq> []" by (cases ready) auto
  then obtain t rest where batch: "batch = t # rest" by (cases batch) auto
  then have "t \<in> set ready" unfolding r(4) by (metis in_set_takeD list.set_intros(1) set_sort)
  then have t: "t \<in> set tasks1" "actionable t" by (auto simp: r(2) task_ready_def)
  from over batch obtain t' c outcomes' where o: "outcomes = (t', c) # outcomes'" "gt_task_id t' = gt_task_id t" "\<not> actionable t'"
      "list_all2 (\<lambda>t (t', c). gt_task_id t' = gt_task_id t \<and> \<not> actionable t') rest outcomes'"
    by (cases outcomes) auto
  obtain cs1 where put: "put_outcome (t', c) (tasks1, cs) = (put_task t' tasks1, cs1)" by (simp add: put_outcome_def)
  have "tasks' = fst (fold put_outcome outcomes' (put_task t' tasks1, cs1))" using r(6) by (simp add: o(1) put)
  then have "todo_count tasks' \<le> todo_count (put_task t' tasks1)" using put_outcomes_count [OF o(4)] by simp
  also have "\<dots> < todo_count tasks1" using o(2,3) t by (intro todo_count_put(2) [of t' t]) simp_all
  also have "\<dots> \<le> todo_count tasks" by (rule skip_blocked_count [OF r(1)])
  finally show ?thesis .
qed

lemma execute_dag_returns: "1 \<le> gb_max_parallelism b \<Longrightarrow> \<exists>r w'. execute_dag e b tasks cs w = Some (r, w')"
proof (induction "todo_count tasks" arbitrary: tasks cs w rule: less_induct)
  case less
  obtain r w1 where round: "dag_round e b tasks cs w = (r, w1)" by (rule prod.exhaust)
  show ?case
  proof (cases "\<exists>tasks' cs'. r = Inr (Dag_more tasks' cs')")
    case True
    then obtain tasks' cs' where "r = Inr (Dag_more tasks' cs')" by blast
    note round = round [unfolded this]
    from less.hyps [OF dag_round_count [OF round less.prems] less.prems] show ?thesis
      by (subst execute_dag.simps) (simp add: round)
  next
    case False
    then show ?thesis by (subst execute_dag.simps) (auto simp: round split: sum.splits dag_progress.splits)
  qed
qed

text \<open>
  C13.  An execution always returns: whatever the agents answer and whichever transactions fail, the rounds over the graph come to an end
  with a result or an exception.
\<close>

theorem workflow_execution_returns: "\<exists>r w'. execute_workflow e i w = Some (r, w')"
proof -
  have "\<exists>r w'. execute_dag e b tasks cs w1 = Some (r, w')"
    if "load_runtime e i w2 = Inr (session, b, tasks', candidates)" for session b tasks tasks' candidates cs w1 w2
  proof (rule execute_dag_returns)
    have "valid_blueprint (ge_hash e) b"
      using that by (auto simp: load_runtime_def rbind_Inr_iff get_blueprint_def split: option.splits doc.splits if_splits)
    then show "1 \<le> gb_max_parallelism b" by (simp add: valid_blueprint_def)
  qed
  then show ?thesis
    by (auto simp: execute_workflow_def split: sum.splits prod.splits option.splits)
      (metis not_None_eq option.distinct(1) prod.exhaust)+
qed

end
