(* ===== verification/GenerationHistory.thy ===== *)
theory GenerationHistory
  imports GenerationRun
begin

text \<open>
  What holds after any creations and executions of workflows, with any answers of agents and any failing transactions: the rows of a task are
  a legal history, agents are called with accepted candidates of all dependencies and within the budget of attempts, every
  transition is in the audit trail, and the trail is unbroken.  An execution that returns a result leaves every task settled.
  The last part shows how an execution that is resumed skips tasks too early.
\<close>

subsection \<open>Histories\<close>

definition rows_of :: "generation_world \<Rightarrow> uuid \<Rightarrow> agent_task list" where
  "rows_of w i = filter (\<lambda>t. gt_task_id t = i) (map snd (gn_tasks w))"

definition legal_successor :: "agent_task \<Rightarrow> agent_task \<Rightarrow> bool" where
  "legal_successor a b \<longleftrightarrow>
     gt_task_id b = gt_task_id a \<and> gt_task_version b = gt_task_version a + 1 \<and> gt_blueprint_id b = gt_blueprint_id a
     \<and> gt_blueprint_version b = gt_blueprint_version a \<and> gt_dependency_task_ids b = gt_dependency_task_ids a
     \<and> gt_max_attempts b = gt_max_attempts a
     \<and> (actionable a \<and> gt_state a \<noteq> TS_RUNNING \<and> gt_state b = TS_RUNNING \<and> gt_attempt b = gt_attempt a + 1
        \<or> gt_state a = TS_RUNNING \<and> gt_state b \<in> {TS_SUCCEEDED, TS_FAILED} \<and> gt_attempt b = gt_attempt a
        \<or> actionable a \<and> gt_state b = TS_SKIPPED \<and> gt_attempt b = gt_attempt a)"

definition initial_row :: "agent_task \<Rightarrow> bool" where
  "initial_row t \<longleftrightarrow> gt_task_version t = 1 \<and> gt_state t = TS_PENDING \<and> gt_attempt t = 0"

definition legal_history :: "agent_task list \<Rightarrow> bool" where
  "legal_history ts \<longleftrightarrow> (ts \<noteq> [] \<longrightarrow> initial_row (hd ts)) \<and> successively legal_successor ts"

lemma legal_history_snoc:
  "legal_history (ts @ [t]) \<longleftrightarrow> (if ts = [] then initial_row t else legal_history ts \<and> legal_successor (last ts) t)"
  by (auto simp: legal_history_def successively_append_iff)

lemma legal_history_single [simp]: "legal_history [t] = initial_row t"
  by (simp add: legal_history_def)

lemma legal_history_version:
  "legal_history ts \<Longrightarrow> k < length ts \<Longrightarrow> gt_task_version (ts ! k) = int k + 1"
proof (induction k)
  case 0
  then show ?case by (cases ts) (auto simp: legal_history_def initial_row_def)
next
  case (Suc k)
  then have "legal_successor (ts ! k) (ts ! Suc k)" by (simp add: legal_history_def successively_conv_nth)
  with Suc show ?case by (simp add: legal_successor_def)
qed

lemma legal_history_last:
  "legal_history ts \<Longrightarrow> ts \<noteq> [] \<Longrightarrow> gt_task_version (last ts) = int (length ts)"
  using legal_history_version [of ts "length ts - 1"] by (cases "length ts") (auto simp: last_conv_nth)

lemma legal_history_bound:
  "legal_history ts \<Longrightarrow> t \<in> set ts \<Longrightarrow> 1 \<le> gt_task_version t \<and> gt_task_version t \<le> int (length ts)"
  by (auto simp: in_set_conv_nth legal_history_version)

lemma legal_history_newest:
  assumes "legal_history ts" "t \<in> set ts" "int (length ts) \<le> gt_task_version t"
  shows "t = last ts"
proof -
  from assms(2) obtain k where k: "k < length ts" "t = ts ! k" by (auto simp: in_set_conv_nth)
  with legal_history_version [OF assms(1) k(1)] assms(3) have "k = length ts - 1" by simp
  with k show ?thesis by (simp add: last_conv_nth flip: length_greater_0_conv)
qed

lemma legal_history_same:
  "legal_history ts \<Longrightarrow> t \<in> set ts
     \<Longrightarrow> gt_blueprint_id t = gt_blueprint_id (last ts) \<and> gt_blueprint_version t = gt_blueprint_version (last ts)"
proof (induction ts rule: rev_induct)
  case (snoc x xs)
  then show ?case by (cases "xs = []") (auto simp: legal_history_snoc legal_successor_def)
qed simp

text \<open>Nothing follows a success or a skip.\<close>

lemma legal_history_final:
  assumes "legal_history (xs @ t # ys)" "\<not> actionable t"
  shows "ys = []"
proof (rule ccontr)
  assume "ys \<noteq> []"
  then obtain y zs where "ys = y # zs" by (cases ys) auto
  with assms(1) have "legal_successor t y" by (auto simp: legal_history_def successively_append_iff)
  with assms(2) show False by (auto simp: legal_successor_def actionable_def)
qed

subsection \<open>The invariant\<close>

definition accepted :: "generation_world \<Rightarrow> agent_task \<Rightarrow> candidate \<Rightarrow> bool" where
  "accepted w t c \<longleftrightarrow> gt_state t = TS_SUCCEEDED \<and> c \<in> cn_candidate ` set (gn_candidates w)
     \<and> map_option tr_candidate_id (gt_result t) = Some (ca_candidate_id c)"

definition call_safe :: "generation_world \<Rightarrow> uuid \<times> int \<times> candidate list \<Rightarrow> bool" where
  "call_safe w = (\<lambda>(i, attempt, deps). \<exists>t\<in>set (rows_of w i). gt_state t = TS_RUNNING \<and> gt_attempt t = attempt
     \<and> list_all2 (\<lambda>d c. \<exists>s\<in>set (rows_of w d). accepted w s c) (gt_dependency_task_ids t) deps)"

definition audited :: "generation_world \<Rightarrow> agent_task \<Rightarrow> bool" where
  "audited w t \<longleftrightarrow> (\<exists>a\<in>set (gn_audit w). ad_target_ref (au_draft a) = Some (gt_task_id t)
     \<and> (\<exists>more. ad_metadata (au_draft a) = snapshot_fields t @ more))"

definition finished :: "generation_world \<Rightarrow> uuid \<Rightarrow> bool" where
  "finished w i = (case latest_session w i of None \<Rightarrow> False | Some s \<Rightarrow> session_over (se_state s))"

lemma finished_iff: "finished w i \<longleftrightarrow> (\<exists>s. latest_session w i = Some s \<and> session_over (se_state s))"
  by (simp add: finished_def split: option.split)

definition key_used :: "generation_world \<Rightarrow> mutation_key \<Rightarrow> bool" where
  "key_used w k \<longleftrightarrow> (case k of Task_key _ i v \<Rightarrow> v \<le> int (length (rows_of w i)) | Session_finalize_key i \<Rightarrow> finished w i | _ \<Rightarrow> True)"

definition row_ok :: "generation_world \<Rightarrow> agent_task \<Rightarrow> bool" where
  "row_ok w t \<longleftrightarrow> 0 \<le> gt_attempt t \<and> gt_attempt t \<le> gt_max_attempts t
     \<and> (gt_state t = TS_SUCCEEDED \<longrightarrow> (\<exists>c. accepted w t c)) \<and> (gt_task_version t \<noteq> 1 \<longrightarrow> audited w t)"

definition gen_inv :: "hash_env \<Rightarrow> generation_world \<Rightarrow> bool" where
  "gen_inv h w \<longleftrightarrow> (\<forall>i. legal_history (rows_of w i)) \<and> (\<forall>t\<in>snd ` set (gn_tasks w). row_ok w t)
     \<and> (\<forall>k\<in>fst ` set (gn_keys w). key_used w k) \<and> (\<forall>c\<in>set (gn_calls w). call_safe w c) \<and> verify_audit_chain h (gn_audit w)"

lemma rows_of_empty [simp]: "rows_of (empty_world faults) i = []"
  by (simp add: rows_of_def empty_world_def)

lemma gen_inv_empty: "gen_inv h (empty_world faults)"
  by (auto simp: gen_inv_def legal_history_def verify_audit_chain_def) (simp_all add: empty_world_def)

lemma in_rows_of: "t \<in> set (rows_of w i) \<longleftrightarrow> t \<in> snd ` set (gn_tasks w) \<and> gt_task_id t = i"
  by (auto simp: rows_of_def)

text \<open>The world grows: rows, candidates, audit records and keys are only added.\<close>

definition grown :: "generation_world \<Rightarrow> generation_world \<Rightarrow> bool" where
  "grown w w' \<longleftrightarrow> (\<exists>new. gn_tasks w' = gn_tasks w @ new) \<and> set (gn_candidates w) \<subseteq> set (gn_candidates w')
     \<and> set (gn_audit w) \<subseteq> set (gn_audit w') \<and> (\<forall>i. finished w i \<longrightarrow> latest_session w' i = latest_session w i)"

lemma latest_session_cong: "gn_sessions w' = gn_sessions w \<Longrightarrow> latest_session w' i = latest_session w i"
  by (simp add: latest_session_def session_rows_def)

lemma finished_cong: "latest_session w' i = latest_session w i \<Longrightarrow> finished w' i = finished w i"
  by (simp add: finished_iff)

lemma grownI:
  "gn_tasks w' = gn_tasks w @ new \<Longrightarrow> set (gn_candidates w) \<subseteq> set (gn_candidates w') \<Longrightarrow> set (gn_audit w) \<subseteq> set (gn_audit w')
     \<Longrightarrow> gn_sessions w' = gn_sessions w \<Longrightarrow> grown w w'"
  unfolding grown_def using latest_session_cong by blast

lemma grown_refl: "grown w w"
  by (simp add: grown_def)

lemma grown_finished:
  assumes "grown w w'" "finished w i"
  shows "latest_session w' i = latest_session w i" "finished w' i"
proof -
  from assms show "latest_session w' i = latest_session w i" by (simp add: grown_def)
  with assms(2) show "finished w' i" by (simp add: finished_iff)
qed

lemma grown_trans:
  assumes "grown w w'" "grown w' w''"
  shows "grown w w''"
proof -
  have "latest_session w'' i = latest_session w i" if "finished w i" for i
    using grown_finished [OF assms(1) that] grown_finished(1) [OF assms(2)] by simp
  moreover have "\<exists>new. gn_tasks w'' = gn_tasks w @ new" "set (gn_candidates w) \<subseteq> set (gn_candidates w'')"
    "set (gn_audit w) \<subseteq> set (gn_audit w'')" using assms unfolding grown_def by (metis append.assoc, blast, blast)
  ultimately show ?thesis unfolding grown_def by blast
qed

lemma grown_rows: "grown w w' \<Longrightarrow> \<exists>new. rows_of w' i = rows_of w i @ new"
  by (auto simp: grown_def rows_of_def)

lemma grown_mono:
  assumes "grown w w'"
  shows "t \<in> set (rows_of w i) \<Longrightarrow> t \<in> set (rows_of w' i)" "accepted w t c \<Longrightarrow> accepted w' t c" "audited w t \<Longrightarrow> audited w' t"
    "row_ok w t \<Longrightarrow> row_ok w' t" "key_used w k \<Longrightarrow> key_used w' k"
proof -
  from assms show rows: "t \<in> set (rows_of w i) \<Longrightarrow> t \<in> set (rows_of w' i)" for t i by (auto simp: grown_def rows_of_def)
  from assms show acc: "accepted w t c \<Longrightarrow> accepted w' t c" for t c by (auto simp: grown_def accepted_def)
  from assms show aud: "audited w t \<Longrightarrow> audited w' t" for t by (auto simp: grown_def audited_def)
  from acc aud show "row_ok w t \<Longrightarrow> row_ok w' t" by (auto simp: row_ok_def)
  note grown_finished(2) [OF assms]
  then show "key_used w k \<Longrightarrow> key_used w' k"
    by (cases k) (use grown_rows [OF assms] in \<open>auto simp: key_used_def\<close>,
      metis (no_types, lifting) length_append le_add1 of_nat_le_iff order_trans)
qed

lemma grown_call_safe:
  assumes "grown w w'" "call_safe w c"
  shows "call_safe w' c"
proof -
  obtain i attempt deps where c: "c = (i, attempt, deps)" by (rule prod_cases3)
  from assms(2) obtain t where t: "t \<in> set (rows_of w i)" "gt_state t = TS_RUNNING" "gt_attempt t = attempt"
    "list_all2 (\<lambda>d c. \<exists>s\<in>set (rows_of w d). accepted w s c) (gt_dependency_task_ids t) deps" by (auto simp: call_safe_def c)
  have "list_all2 (\<lambda>d c. \<exists>s\<in>set (rows_of w' d). accepted w' s c) (gt_dependency_task_ids t) deps"
    by (rule list_all2_mono [OF t(4)]) (use grown_mono(1,2) [OF assms(1)] in blast)
  with t(2,3) grown_mono(1) [OF assms(1) t(1)] show ?thesis by (auto simp: call_safe_def c)
qed

text \<open>A world with one more row, key and some audit records.\<close>

lemma gen_inv_extend:
  assumes inv: "gen_inv h w" and grow: "grown w w'"
    and tasks: "gn_tasks w' = gn_tasks w @ map (Pair n) new"
    and legal: "\<And>i. legal_history (rows_of w i @ filter (\<lambda>t. gt_task_id t = i) new)"
    and rows: "\<And>t. t \<in> set new \<Longrightarrow> row_ok w' t"
    and keys: "\<And>k. k \<in> fst ` set (gn_keys w') \<Longrightarrow> k \<in> fst ` set (gn_keys w) \<or> key_used w' k"
    and calls: "\<And>c. c \<in> set (gn_calls w') \<Longrightarrow> c \<in> set (gn_calls w) \<or> call_safe w' c"
    and audit: "verify_audit_chain h (gn_audit w')"
  shows "gen_inv h w'"
proof -
  have "rows_of w' i = rows_of w i @ filter (\<lambda>t. gt_task_id t = i) new" for i
    by (simp add: rows_of_def tasks) (simp add: comp_def)
  with legal have "legal_history (rows_of w' i)" for i by simp
  moreover have "row_ok w' t" if "t \<in> snd ` set (gn_tasks w')" for t
    using that rows grown_mono(4) [OF grow] inv by (auto simp: tasks gen_inv_def)
  moreover have "key_used w' k" if "k \<in> fst ` set (gn_keys w')" for k
    using keys [OF that] grown_mono(5) [OF grow] inv by (auto simp: gen_inv_def)
  moreover have "call_safe w' c" if "c \<in> set (gn_calls w')" for c
    using calls [OF that] grown_call_safe [OF grow] inv unfolding gen_inv_def by blast
  ultimately show ?thesis using audit by (simp add: gen_inv_def)
qed

lemma extend_audit_snoc: "extend_audit h (ds @ [(i, d)]) rs = extend_audit h ds rs @ [next_record h i d (extend_audit h ds rs)]"
  by (simp add: extend_audit_def)

lemma extend_audit_keeps:
  "verify_audit_chain h rs \<Longrightarrow> verify_audit_chain h (extend_audit h ds rs) \<and> set rs \<subseteq> set (extend_audit h ds rs)"
proof (induction ds rule: rev_induct)
  case (snoc x ds)
  then show ?case by (cases x) (auto simp: extend_audit_snoc intro: next_record_verifies)
qed (simp add: extend_audit_def)

subsection \<open>Transitions keep the invariant\<close>

definition current :: "generation_world \<Rightarrow> agent_task \<Rightarrow> bool" where
  "current w t \<longleftrightarrow> rows_of w (gt_task_id t) \<noteq> [] \<and> last (rows_of w (gt_task_id t)) = t"

text \<open>What a step may do that moves the tasks with identifiers in a set.\<close>

definition moved :: "hash_env \<Rightarrow> generation_world \<Rightarrow> uuid set \<Rightarrow> generation_world \<Rightarrow> bool" where
  "moved h w I w' \<longleftrightarrow> gen_inv h w' \<and> grown w w' \<and> (\<forall>i. i \<notin> I \<longrightarrow> rows_of w' i = rows_of w i)
     \<and> gn_sessions w' = gn_sessions w \<and> gn_blueprints w' = gn_blueprints w"

lemma moved_refl: "gen_inv h w \<Longrightarrow> moved h w I w"
  by (simp add: moved_def grown_refl)

lemma moved_trans: "moved h w I w' \<Longrightarrow> moved h w' I w'' \<Longrightarrow> moved h w I w''"
  by (auto simp: moved_def intro: grown_trans)

lemma moved_mono: "moved h w I w' \<Longrightarrow> I \<subseteq> J \<Longrightarrow> moved h w J w'"
  by (auto simp: moved_def)

lemma moved_current: "moved h w I w' \<Longrightarrow> gt_task_id t \<notin> I \<Longrightarrow> current w t \<Longrightarrow> current w' t"
  by (simp add: moved_def current_def)

lemma rows_of_faults [simp]: "rows_of (w\<lparr>gn_faults := fs\<rparr>) i = rows_of w i"
  by (simp add: rows_of_def)

lemma grown_faults: "grown w (w\<lparr>gn_faults := fs\<rparr>)"
  by (rule grownI [of _ _ "[]"]) simp_all

lemma gen_inv_faults: "gen_inv h w \<Longrightarrow> gen_inv h (w\<lparr>gn_faults := fs\<rparr>)"
  by (rule gen_inv_extend [OF _ grown_faults, of h w fs 0 "[]"]) (simp_all add: gen_inv_def)

lemma moved_faults: "gen_inv h w \<Longrightarrow> moved h w I (w\<lparr>gn_faults := fs\<rparr>)"
  by (simp add: moved_def grown_faults gen_inv_faults)

lemma mutate_cases:
  assumes "mutate e operation key request callback w = (r, w')"
  obtains (known) fs payload where "map_of (gn_keys w) key = Some payload" "w' = w\<lparr>gn_faults := fs\<rparr>"
    | (rejected) fs err where "r = Inl err" "w' = w\<lparr>gn_faults := fs\<rparr>"
    | (committed) fs payload digest w1 where "map_of (gn_keys w) key = None" "callback (w\<lparr>gn_faults := fs\<rparr>) = Inr (payload, w1)"
        "w' = w1\<lparr>gn_keys := (key, operation, digest, payload) # gn_keys w1\<rparr>" "r = Inr payload \<or> r = Inl Generation_database"
proof -
  obtain f fs where first: "next_fault w = (f, w\<lparr>gn_faults := fs\<rparr>)"
    using that [of _ "tl (gn_faults w)"] by (cases w; cases "gn_faults w") (auto simp: next_fault_def)
  show ?thesis
  proof (cases "map_of (gn_keys w) key")
    case None
    show ?thesis
    proof (cases "callback (w\<lparr>gn_faults := fs\<rparr>)")
      case (Inl err)
      with assms first None show ?thesis by (intro rejected) (auto simp: mutate_def Let_def)
    next
      case (Inr x)
      obtain payload w1 where x: "x = (payload, w1)" by (rule prod.exhaust)
      show ?thesis
      proof (cases "f = Refused")
        case True
        with assms first None Inr x show ?thesis by (intro rejected) (auto simp: mutate_def Let_def)
      next
        case False
        with assms first None Inr x show ?thesis
          by (intro committed [OF None Inr [unfolded x]]) (cases f; auto simp: mutate_def Let_def)+
      qed
    qed
  next
    case (Some p)
    with assms first show ?thesis by (intro known [OF Some]) (auto simp: mutate_def Let_def split: prod.splits)
  qed
qed

lemma append_audit_fields:
  "gn_tasks (append_audit e a i m w) = gn_tasks w" "gn_keys (append_audit e a i m w) = gn_keys w"
  "gn_calls (append_audit e a i m w) = gn_calls w" "gn_candidates (append_audit e a i m w) = gn_candidates w"
  "gn_sessions (append_audit e a i m w) = gn_sessions w" "gn_blueprints (append_audit e a i m w) = gn_blueprints w"
  by (simp_all add: append_audit_def Let_def)

lemma append_audit_records:
  assumes "verify_audit_chain (ge_hash e) (gn_audit w)"
  shows "verify_audit_chain (ge_hash e) (gn_audit (append_audit e a i m w))"
    "set (gn_audit w) \<subseteq> set (gn_audit (append_audit e a i m w))"
    "\<exists>r\<in>set (gn_audit (append_audit e a i m w)). ad_target_ref (au_draft r) = Some i \<and> ad_metadata (au_draft r) = m"
proof -
  show "verify_audit_chain (ge_hash e) (gn_audit (append_audit e a i m w))"
    "set (gn_audit w) \<subseteq> set (gn_audit (append_audit e a i m w))"
    using extend_audit_keeps [OF assms] by (simp_all add: append_audit_def Let_def)
  show "\<exists>r\<in>set (gn_audit (append_audit e a i m w)). ad_target_ref (au_draft r) = Some i \<and> ad_metadata (au_draft r) = m"
    by (simp add: append_audit_def Let_def extend_audit_snoc)
qed

text \<open>What the stores of the transitions do.\<close>

definition stores :: "(generation_world \<Rightarrow> generation_error + generation_world) \<Rightarrow> candidate option \<Rightarrow> bool" where
  "stores s c \<longleftrightarrow> (\<forall>w w'. s w = Inr w' \<longrightarrow> gn_tasks w' = gn_tasks w \<and> gn_keys w' = gn_keys w \<and> gn_calls w' = gn_calls w
     \<and> gn_audit w' = gn_audit w \<and> gn_sessions w' = gn_sessions w \<and> gn_blueprints w' = gn_blueprints w
     \<and> set (gn_candidates w) \<subseteq> set (gn_candidates w') \<and> (\<forall>x. c = Some x \<longrightarrow> x \<in> cn_candidate ` set (gn_candidates w')))"

lemma append_task_Inr:
  assumes "append_task t w = Inr w'"
  shows "w' = w\<lparr>gn_tasks := gn_tasks w @ [(length (gn_keys w), t)]\<rparr>" "0 \<le> gt_attempt t" "gt_attempt t \<le> gt_max_attempts t"
    "r \<in> set (rows_of w (gt_task_id t)) \<Longrightarrow> gt_task_version r \<noteq> gt_task_version t"
  using assms by (auto simp: append_task_def list_ex_iff rows_of_def split: if_splits)

lemma transition_moves:
  assumes inv: "gen_inv (ge_hash e) w" and cur: "current w t" and legal: "legal_successor t t'"
    and store: "stores (tp_store p) c"
    and accept: "gt_state t' = TS_SUCCEEDED \<Longrightarrow> \<exists>x. c = Some x \<and> map_option tr_candidate_id (gt_result t') = Some (ca_candidate_id x)"
    and run: "transition e p t t' w = (r, w')"
  shows "moved (ge_hash e) w {gt_task_id t} w'" "gn_calls w' = gn_calls w"
    "r = Inr s \<Longrightarrow> s = t' \<and> current w' t' \<and> (\<forall>x. c = Some x \<longrightarrow> x \<in> cn_candidate ` set (gn_candidates w'))"
proof -
  have ids: "gt_task_id t' = gt_task_id t" "gt_task_version t' = gt_task_version t + 1" using legal by (simp_all add: legal_successor_def)
  have hist: "legal_history (rows_of w (gt_task_id t))" using inv by (simp add: gen_inv_def)
  have version: "gt_task_version t = int (length (rows_of w (gt_task_id t)))"
    using legal_history_last [OF hist] cur by (simp add: current_def)
  let ?key = "Task_key (tp_key p) (gt_task_id t) (gt_task_version t')"
  have fresh: "map_of (gn_keys w) ?key = None"
  proof (rule ccontr)
    assume "map_of (gn_keys w) ?key \<noteq> None"
    then have "?key \<in> fst ` set (gn_keys w)" by (simp add: map_of_eq_None_iff)
    then have "key_used w ?key" using inv unfolding gen_inv_def by blast
    then show False by (simp add: key_used_def version ids)
  qed
  have "moved (ge_hash e) w {gt_task_id t} w' \<and> gn_calls w' = gn_calls w
    \<and> (\<forall>s. r = Inr s \<longrightarrow> s = t' \<and> current w' t' \<and> (\<forall>x. c = Some x \<longrightarrow> x \<in> cn_candidate ` set (gn_candidates w')))"
  proof (cases "task_document t")
    case (Inl err)
    with run inv show ?thesis by (auto simp: transition_def moved_refl)
  next
    case (Inr doc)
    obtain q where q: "mutate e (tp_operation p) ?key (tp_request p doc)
       (\<lambda>w0. rbind (assert_latest_task t w0) (\<lambda>_. rbind (task_document t') (\<lambda>fields.
          rbind (tp_store p (append_audit e (tp_action p) (gt_task_id t) (fields @ tp_metadata p) w0)) (\<lambda>w1.
          rbind (append_task t' w1) (\<lambda>w2.
          Inr (fields @ tp_payload p, append_event (tp_event p) (fields @ tp_payload p) w2)))))) w = (q, w')"
        "r = (case q of Inl err \<Rightarrow> Inl err | Inr _ \<Rightarrow> Inr t')"
      using run Inr by (auto simp: transition_def split: prod.splits sum.splits)
    from q(1) show ?thesis
    proof (cases rule: mutate_cases)
      case (known fs payload)
      with fresh show ?thesis by simp
    next
      case (rejected fs err)
      with q(2) inv show ?thesis by (simp add: moved_faults)
    next
      case (committed fs payload digest w1)
      let ?w0 = "w\<lparr>gn_faults := fs\<rparr>"
      from committed(2) obtain w2 w3 where
          doc: "task_document t' = Inr (snapshot_fields t')" and
          w2: "tp_store p (append_audit e (tp_action p) (gt_task_id t) (snapshot_fields t' @ tp_metadata p) ?w0) = Inr w2" and
          w3: "append_task t' w2 = Inr w3" and
          w1: "w1 = append_event (tp_event p) (snapshot_fields t' @ tp_payload p) w3"
        by (auto simp: rbind_Inr_iff task_document_def split: if_splits)
      note audit = append_audit_records [of e ?w0 "tp_action p" "gt_task_id t" "snapshot_fields t' @ tp_metadata p"]
      from inv have chain: "verify_audit_chain (ge_hash e) (gn_audit ?w0)" by (simp add: gen_inv_def)
      note stored = store [unfolded stores_def, rule_format, OF w2, unfolded append_audit_fields]
      have tasks: "gn_tasks w' = gn_tasks w @ map (Pair (length (gn_keys w))) [t']"
        and keys: "fst ` set (gn_keys w') = insert ?key (fst ` set (gn_keys w))" and calls: "gn_calls w' = gn_calls w"
        and auds: "gn_audit w' = gn_audit w2" and cands: "gn_candidates w' = gn_candidates w2"
        and frame: "gn_sessions w' = gn_sessions w" "gn_blueprints w' = gn_blueprints w"
        using stored committed(3) w1 append_task_Inr(1) [OF w3] by (auto simp: append_event_def)
      have grow: "grown w w'" by (rule grownI [OF tasks]) (use stored audit(2) [OF chain] frame in \<open>auto simp: auds cands\<close>)
      have rows: "rows_of w' i = rows_of w i @ (if i = gt_task_id t then [t'] else [])" for i
        by (simp add: rows_of_def tasks ids)
      have accepts: "accepted w' t' x" if "gt_state t' = TS_SUCCEEDED" "c = Some x"
          "map_option tr_candidate_id (gt_result t') = Some (ca_candidate_id x)" for x
        using that stored by (simp add: accepted_def cands)
      have "audited w' t'" using audit(3) [OF chain] stored by (auto simp: audited_def auds ids)
      then have ok: "row_ok w' t'" using append_task_Inr(2,3) [OF w3] accept accepts by (auto simp: row_ok_def)
      have "gen_inv (ge_hash e) w'"
      proof (rule gen_inv_extend [OF inv grow tasks])
        show "legal_history (rows_of w i @ filter (\<lambda>t. gt_task_id t = i) [t'])" for i
          using inv legal cur by (auto simp: gen_inv_def legal_history_snoc current_def ids)
        show "row_ok w' s" if "s \<in> set [t']" for s using that ok by simp
        show "k \<in> fst ` set (gn_keys w) \<or> key_used w' k" if "k \<in> fst ` set (gn_keys w')" for k
          using that by (auto simp: keys key_used_def rows version ids)
        show "x \<in> set (gn_calls w) \<or> call_safe w' x" if "x \<in> set (gn_calls w')" for x using that by (simp add: calls)
        show "verify_audit_chain (ge_hash e) (gn_audit w')" using audit(1) [OF chain] stored by (simp add: auds)
      qed
      moreover have "current w' t'" by (simp add: current_def ids rows)
      ultimately show ?thesis using q(2) grow frame calls stored
        by (auto simp: moved_def rows cands split: sum.splits)
    qed
  qed
  then show "moved (ge_hash e) w {gt_task_id t} w'" "gn_calls w' = gn_calls w"
    "r = Inr s \<Longrightarrow> s = t' \<and> current w' t' \<and> (\<forall>x. c = Some x \<longrightarrow> x \<in> cn_candidate ` set (gn_candidates w'))" by blast+
qed

text \<open>The transitions of the service.\<close>

lemma store_invocation_stores: "stores (store_invocation i) None"
  by (auto simp: stores_def store_invocation_def split: option.splits if_splits)

lemma complete_stores:
  "stores (\<lambda>w. rbind (store_candidate r w) (\<lambda>w. rbind (store_invocation i w) (store_chunks ks))) (Some (cn_candidate r))"
  by (auto simp: stores_def store_candidate_def store_invocation_def store_chunks_def rbind_Inr_iff Let_def
      split: option.splits if_splits)

lemma mark_task_running_moves:
  assumes "gen_inv (ge_hash e) w" "current w t" "actionable t" "gt_state t \<noteq> TS_RUNNING" "mark_task_running e t w = (r, w')"
  shows "moved (ge_hash e) w {gt_task_id t} w'" "gn_calls w' = gn_calls w" "r = Inr s \<Longrightarrow> s = running_record e t \<and> current w' s"
proof -
  have legal: "legal_successor t (running_record e t)" using assms(3,4) by (simp add: legal_successor_def)
  have "stores Inr None" by (simp add: stores_def)
  then have st: "stores (tp_store \<lparr>tp_operation = ''topic3.task.start'', tp_key = Op_start, tp_action = ''AGENT_TASK_STARTED'',
      tp_event = ''topic3.agent-task.started'', tp_metadata = [], tp_payload = [], tp_request = DObj, tp_store = Inr\<rparr>) None" by simp
  from transition_moves [OF assms(1,2) legal st _ assms(5) [unfolded mark_task_running_def]]
  show "moved (ge_hash e) w {gt_task_id t} w'" "gn_calls w' = gn_calls w" "r = Inr s \<Longrightarrow> s = running_record e t \<and> current w' s"
    by simp_all
qed

lemma skip_task_moves:
  assumes "gen_inv (ge_hash e) w" "current w t" "actionable t" "skip_task e reason t w = (r, w')"
  shows "moved (ge_hash e) w {gt_task_id t} w'" "gn_calls w' = gn_calls w" "r = Inr s \<Longrightarrow> current w' s"
proof -
  have legal: "legal_successor t (failed_record e TS_SKIPPED f t)" for f using assms(3) by (simp add: legal_successor_def)
  have st: "stores Inr None" by (simp add: stores_def)
  note run = assms(4) [unfolded skip_task_def Let_def]
  note moves = transition_moves [OF assms(1,2) legal _ _ run, of None, unfolded transition_plan.simps, OF st]
  from moves show "moved (ge_hash e) w {gt_task_id t} w'" "gn_calls w' = gn_calls w" "r = Inr s \<Longrightarrow> current w' s"
    by simp_all
qed

lemma fail_task_moves:
  assumes "gen_inv (ge_hash e) w" "current w t" "gt_state t = TS_RUNNING" "fail_task e error i t w = (r, w')"
  shows "moved (ge_hash e) w {gt_task_id t} w'" "gn_calls w' = gn_calls w" "r = Inr s \<Longrightarrow> current w' s"
proof -
  have legal: "legal_successor t (failed_record e TS_FAILED f t)" for f using assms(3) by (simp add: legal_successor_def)
  note run = assms(4) [unfolded fail_task_def Let_def]
  note moves = transition_moves [OF assms(1,2) legal _ _ run, of None, unfolded transition_plan.simps, OF store_invocation_stores]
  from moves show "moved (ge_hash e) w {gt_task_id t} w'" "gn_calls w' = gn_calls w" "r = Inr s \<Longrightarrow> current w' s"
    by simp_all
qed

lemma complete_task_moves:
  assumes "gen_inv (ge_hash e) w" "current w t" "gt_state t = TS_RUNNING" "complete_task e x ks i t w = (r, w')"
  shows "moved (ge_hash e) w {gt_task_id t} w'" "gn_calls w' = gn_calls w"
    "r = Inr s \<Longrightarrow> current w' s \<and> x \<in> cn_candidate ` set (gn_candidates w')"
proof -
  have legal: "legal_successor t (succeeded_record e x ks t)" using assms(3) by (simp add: legal_successor_def)
  note run = assms(4) [unfolded complete_task_def]
  note moves = transition_moves [OF assms(1,2) legal _ _ run, unfolded transition_plan.simps, OF complete_stores]
  from moves show "moved (ge_hash e) w {gt_task_id t} w'" "gn_calls w' = gn_calls w"
    "r = Inr s \<Longrightarrow> current w' s \<and> x \<in> cn_candidate ` set (gn_candidates w')"
    by (simp_all add: accepted_result_of_def)
qed

subsection \<open>A task runs on accepted candidates\<close>

definition candidates_ok :: "generation_world \<Rightarrow> candidate_map \<Rightarrow> bool" where
  "candidates_ok w cs \<longleftrightarrow> (\<forall>(k, c)\<in>set cs. k = ca_candidate_id c \<and> c \<in> cn_candidate ` set (gn_candidates w))"

definition dependencies_ok :: "generation_world \<Rightarrow> agent_task list \<Rightarrow> agent_task \<Rightarrow> bool" where
  "dependencies_ok w tasks t \<longleftrightarrow> (\<forall>d\<in>set (gt_dependency_task_ids t).
     \<exists>s. find_task tasks d = Some s \<and> gt_state s = TS_SUCCEEDED \<and> s \<in> set (rows_of w d))"

lemma moved_keeps:
  assumes "moved h w I w'"
  shows "candidates_ok w cs \<Longrightarrow> candidates_ok w' cs" "dependencies_ok w tasks t \<Longrightarrow> dependencies_ok w' tasks t"
    "x \<in> cn_candidate ` set (gn_candidates w) \<Longrightarrow> x \<in> cn_candidate ` set (gn_candidates w')"
proof -
  from assms have grow: "grown w w'" by (simp add: moved_def)
  then show "candidates_ok w cs \<Longrightarrow> candidates_ok w' cs" by (fastforce simp: candidates_ok_def grown_def)
  show "dependencies_ok w tasks t \<Longrightarrow> dependencies_ok w' tasks t"
    unfolding dependencies_ok_def using grown_mono(1) [OF grow] by blast
  show "x \<in> cn_candidate ` set (gn_candidates w) \<Longrightarrow> x \<in> cn_candidate ` set (gn_candidates w')"
    using grow by (auto simp: grown_def)
qed

lemma those_map: "those (map f xs) = Some ys \<longleftrightarrow> list_all2 (\<lambda>x y. f x = Some y) xs ys"
proof (induction xs arbitrary: ys)
  case (Cons x xs)
  then show ?case by (cases ys) (auto split: option.splits)
qed auto

lemma dependency_accepted:
  assumes "dependency_candidates tasks cs t = Some deps" "candidates_ok w cs" "dependencies_ok w tasks t"
  shows "list_all2 (\<lambda>d c. \<exists>s\<in>set (rows_of w d). accepted w s c) (gt_dependency_task_ids t) deps"
proof (rule list_all2_all_nthI)
  have all: "list_all2 (\<lambda>d c. (case find_task tasks d of None \<Rightarrow> None
      | Some s \<Rightarrow> (case gt_result s of None \<Rightarrow> None | Some r \<Rightarrow> map_of cs (tr_candidate_id r))) = Some c)
      (gt_dependency_task_ids t) deps"
    using assms(1) by (simp add: dependency_candidates_def those_map)
  then show "length (gt_dependency_task_ids t) = length deps" by (rule list_all2_lengthD)
  fix n assume n: "n < length (gt_dependency_task_ids t)"
  let ?d = "gt_dependency_task_ids t ! n"
  from assms(3) nth_mem [OF n] obtain s where s: "find_task tasks ?d = Some s" "gt_state s = TS_SUCCEEDED" "s \<in> set (rows_of w ?d)"
    unfolding dependencies_ok_def by blast
  with list_all2_nthD [OF all n] obtain r where r: "gt_result s = Some r" "map_of cs (tr_candidate_id r) = Some (deps ! n)"
    by (auto split: option.splits)
  from map_of_SomeD [OF r(2)] assms(2) have "accepted w s (deps ! n)" by (auto simp: candidates_ok_def accepted_def s(2) r(1))
  with s(3) show "\<exists>s\<in>set (rows_of w ?d). accepted w s (deps ! n)" by blast
qed

lemma call_recorded:
  assumes "gen_inv h w" "call_safe w c"
  shows "moved h w I (w\<lparr>gn_calls := gn_calls w @ [c]\<rparr>)"
proof -
  let ?w = "w\<lparr>gn_calls := gn_calls w @ [c]\<rparr>"
  have grow: "grown w ?w" by (rule grownI [of _ _ "[]"]) simp_all
  have "gen_inv h ?w"
    by (rule gen_inv_extend [OF assms(1) grow, of 0 "[]"]) (use assms grown_call_safe [OF grow] in \<open>auto simp: gen_inv_def\<close>)
  with grow show ?thesis by (simp add: moved_def rows_of_def)
qed

lemma after_failure_moves:
  assumes "gen_inv (ge_hash e) w" "current w t" "gt_state t = TS_RUNNING" "after_failure e error retry i t w = (r, w')"
  shows "moved (ge_hash e) w {gt_task_id t} w'" "r = Attempt_retry s \<Longrightarrow> current w' s"
    "r = Attempt_over s c \<Longrightarrow> current w' s \<and> c = None"
proof -
  obtain q where q: "fail_task e error i t w = (q, w')" by (rule prod.exhaust [of "fail_task e error i t w"])
    (use assms(4) in \<open>auto simp: after_failure_def split: sum.splits\<close>)
  note moves = fail_task_moves [OF assms(1-3) q]
  show "moved (ge_hash e) w {gt_task_id t} w'" by (rule moves(1))
  show "r = Attempt_retry s \<Longrightarrow> current w' s" "r = Attempt_over s c \<Longrightarrow> current w' s \<and> c = None"
    using assms(4) moves(3) by (auto simp: after_failure_def q split: sum.splits if_splits)
qed

lemma call_agent_moves:
  assumes inv: "gen_inv (ge_hash e) w" "current w t" "gt_state t = TS_RUNNING" "candidates_ok w cs" "dependencies_ok w tasks t"
    and run: "call_agent e tasks cs t w = (r, w')"
  shows "moved (ge_hash e) w {gt_task_id t} w' \<and> (\<forall>s. r = Attempt_retry s \<longrightarrow> current w' s)
    \<and> (\<forall>s c. r = Attempt_over s c \<longrightarrow> current w' s \<and> (\<forall>x. c = Some x \<longrightarrow> x \<in> cn_candidate ` set (gn_candidates w')))"
proof (cases "dependency_candidates tasks cs t")
  case None
  with run inv(1) show ?thesis by (auto simp: call_agent_def moved_refl)
next
  case (Some deps)
  let ?w = "w\<lparr>gn_calls := gn_calls w @ [(gt_task_id t, gt_attempt t, deps)]\<rparr>"
  have "t \<in> set (rows_of w (gt_task_id t))" using inv(2) by (metis current_def last_in_set)
  then have "call_safe w (gt_task_id t, gt_attempt t, deps)"
    using dependency_accepted [OF Some inv(4,5)] inv(3) by (auto simp: call_safe_def)
  note rec = call_recorded [OF inv(1) this, of "{gt_task_id t}"]
  then have w: "gen_inv (ge_hash e) ?w" by (simp add: moved_def)
  have cur: "current ?w t" using inv(2) by (simp add: current_def rows_of_def)
  note join = moved_trans [OF rec]
  from run Some consider (failed) error retry i where "after_failure e error retry i t ?w = (r, w')"
    | (completed) x i q where "complete_task e x (ge_chunks e x) i t ?w = (q, w')"
        "r = (case q of Inl err \<Rightarrow> Attempt_raised err | Inr s \<Rightarrow> Attempt_over s (Some x))"
    by (auto simp: call_agent_def Let_def split: agent_reply.splits sum.splits prod.splits)
  then show ?thesis
  proof cases
    case failed
    note moves = after_failure_moves [OF w cur inv(3) failed]
    show ?thesis using join [OF moves(1)] moves(2,3) by blast
  next
    case completed
    note moves = complete_task_moves [OF w cur inv(3) completed(1)]
    show ?thesis using join [OF moves(1)] moves(3) completed(2) by (auto split: sum.splits)
  qed
qed

lemma try_task_moves:
  assumes inv: "gen_inv (ge_hash e) w" "current w t" "actionable t" "candidates_ok w cs" "dependencies_ok w tasks t"
    and run: "try_task e tasks cs t w = (r, w')"
  shows "moved (ge_hash e) w {gt_task_id t} w'"
    "r = Attempt_retry s \<Longrightarrow> current w' s \<and> actionable s \<and> gt_task_id s = gt_task_id t
       \<and> gt_dependency_task_ids s = gt_dependency_task_ids t"
    "r = Attempt_over s c \<Longrightarrow> current w' s \<and> gt_task_id s = gt_task_id t \<and> (\<forall>x. c = Some x \<longrightarrow> x \<in> cn_candidate ` set (gn_candidates w'))"
proof -
  have called: "moved (ge_hash e) w1 {gt_task_id t} w'
      \<and> (r = Attempt_retry s \<longrightarrow> current w' s \<and> actionable s \<and> gt_task_id s = gt_task_id t \<and> gt_dependency_task_ids s = gt_dependency_task_ids t)
      \<and> (r = Attempt_over s c \<longrightarrow> current w' s \<and> gt_task_id s = gt_task_id t \<and> (\<forall>x. c = Some x \<longrightarrow> x \<in> cn_candidate ` set (gn_candidates w')))"
    if c: "gen_inv (ge_hash e) w1" "current w1 q" "gt_state q = TS_RUNNING" "candidates_ok w1 cs" "dependencies_ok w1 tasks q"
      "call_agent e tasks cs q w1 = (r, w')" "gt_task_id q = gt_task_id t" "gt_dependency_task_ids q = gt_dependency_task_ids t" for q w1
  proof -
    note moves = call_agent_moves [OF c(1-6), unfolded c(7)]
    have "actionable s \<and> gt_task_id s = gt_task_id t \<and> gt_dependency_task_ids s = gt_dependency_task_ids t" if retry: "r = Attempt_retry s"
    proof -
      from call_agent_retry [OF c(6) [unfolded retry]] obtain f
        where f: "s = failed_record e TS_FAILED f q" "tf_retriable f" "gt_attempt q < gt_max_attempts q" .
      show ?thesis unfolding f(1) using f(2,3) c(7,8) by (simp add: actionable_def)
    qed
    moreover have "gt_task_id s = gt_task_id t" if over: "r = Attempt_over s c"
      using call_agent_over [OF c(6) [unfolded over]] c(7) by (elim disjE exE conjE) simp_all
    ultimately show ?thesis using moves by blast
  qed
  have "moved (ge_hash e) w {gt_task_id t} w'
      \<and> (r = Attempt_retry s \<longrightarrow> current w' s \<and> actionable s \<and> gt_task_id s = gt_task_id t \<and> gt_dependency_task_ids s = gt_dependency_task_ids t)
      \<and> (r = Attempt_over s c \<longrightarrow> current w' s \<and> gt_task_id s = gt_task_id t \<and> (\<forall>x. c = Some x \<longrightarrow> x \<in> cn_candidate ` set (gn_candidates w')))"
  proof (cases "gt_state t = TS_RUNNING")
    case True
    with called [OF inv(1,2) True inv(4,5)] run show ?thesis by (simp add: try_task_def)
  next
    case False
    obtain q w1 where q: "mark_task_running e t w = (q, w1)" by (rule prod.exhaust)
    note moves = mark_task_running_moves [OF inv(1-3) False q]
    show ?thesis
    proof (cases q)
      case (Inl err)
      with run False q moves(1) show ?thesis by (auto simp: try_task_def)
    next
      case (Inr u)
      from moves(3) [OF Inr] have u: "u = running_record e t" "current w1 u" by blast+
      have w1: "gen_inv (ge_hash e) w1" using moves(1) by (simp add: moved_def)
      have deps: "dependencies_ok w1 tasks u" using moved_keeps(2) [OF moves(1) inv(5)] by (simp add: dependencies_ok_def u(1))
      have call: "call_agent e tasks cs u w1 = (r, w')" using run False q Inr by (simp add: try_task_def)
      have "gt_state u = TS_RUNNING" "gt_task_id u = gt_task_id t" "gt_dependency_task_ids u = gt_dependency_task_ids t"
        by (simp_all add: u(1))
      note called [OF w1 u(2) this(1) moved_keeps(1) [OF moves(1) inv(4)] deps call this(2,3)]
      with moved_trans [OF moves(1)] show ?thesis by blast
    qed
  qed
  then show "moved (ge_hash e) w {gt_task_id t} w'"
    "r = Attempt_retry s \<Longrightarrow> current w' s \<and> actionable s \<and> gt_task_id s = gt_task_id t
       \<and> gt_dependency_task_ids s = gt_dependency_task_ids t"
    "r = Attempt_over s c \<Longrightarrow> current w' s \<and> gt_task_id s = gt_task_id t \<and> (\<forall>x. c = Some x \<longrightarrow> x \<in> cn_candidate ` set (gn_candidates w'))"
    by blast+
qed

text \<open>What holds when a task has been run to its end.\<close>

definition task_over :: "generation_world \<Rightarrow> agent_task \<Rightarrow> agent_task \<times> candidate option \<Rightarrow> bool" where
  "task_over w t = (\<lambda>(s, c). current w s \<and> gt_task_id s = gt_task_id t \<and> \<not> actionable s
     \<and> (\<forall>x. c = Some x \<longrightarrow> x \<in> cn_candidate ` set (gn_candidates w)))"

lemma run_task_moves:
  assumes "run_task e tasks cs t w = (r, w')"
    and "gen_inv (ge_hash e) w" "current w t" "actionable t" "candidates_ok w cs" "dependencies_ok w tasks t"
  shows "moved (ge_hash e) w {gt_task_id t} w' \<and> (\<forall>x. r = Inr x \<longrightarrow> task_over w' t x)"
  using assms
proof (induction e tasks cs t w arbitrary: r rule: run_task.induct)
  case (1 e tasks cs t w)
  obtain outcome w1 where attempt: "try_task e tasks cs t w = (outcome, w1)" by (rule prod.exhaust)
  note moves = try_task_moves [OF 1(3-7) attempt]
  note unfolded = run_task.simps [of e tasks cs t w]
  show ?case
  proof (cases outcome)
    case (Attempt_raised err)
    with 1(2) attempt moves(1) show ?thesis by (auto simp: unfolded)
  next
    case (Attempt_retry s)
    note att = attempt [unfolded Attempt_retry] and s = moves(2) [OF Attempt_retry]
    have rest: "run_task e tasks cs s w1 = (r, w')" using 1(2) att by (simp add: unfolded)
    have "dependencies_ok w1 tasks s" using moved_keeps(2) [OF moves(1) 1(7)] s by (simp add: dependencies_ok_def)
    moreover have "gen_inv (ge_hash e) w1" using moves(1) by (simp add: moved_def)
    ultimately have "moved (ge_hash e) w1 {gt_task_id s} w' \<and> (\<forall>x. r = Inr x \<longrightarrow> task_over w' s x)"
      using 1(1) [OF att [symmetric] refl rest] s moved_keeps(1) [OF moves(1) 1(6)] by blast
    with s moved_trans [OF moves(1)] show ?thesis by (auto simp: task_over_def)
  next
    case (Attempt_over s c)
    note att = attempt [unfolded Attempt_over]
    have res: "r = Inr (s, c)" "w' = w1" using 1(2) att by (simp_all add: unfolded)
    then have "\<not> actionable s" using run_task_over [OF 1(2) [unfolded res]] by blast
    with moves(1,3) Attempt_over res show ?thesis by (simp add: task_over_def)
  qed
qed

subsection \<open>Rounds\<close>

text \<open>The dictionary of tasks in memory agrees with the table, except for some identifiers.\<close>

definition memory_except :: "generation_world \<Rightarrow> uuid set \<Rightarrow> agent_task list \<Rightarrow> bool" where
  "memory_except w I tasks \<longleftrightarrow> distinct (map gt_task_id tasks) \<and> (\<forall>t\<in>set tasks. gt_task_id t \<notin> I \<longrightarrow> current w t)"

abbreviation memory_ok :: "generation_world \<Rightarrow> agent_task list \<Rightarrow> bool" where
  "memory_ok w tasks \<equiv> memory_except w {} tasks"

lemma put_task_ids [simp]: "map gt_task_id (put_task t tasks) = map gt_task_id tasks"
  by (simp add: put_task_def)

lemma in_put_task: "s \<in> set (put_task t tasks) \<Longrightarrow> s = t \<or> s \<in> set tasks \<and> gt_task_id s \<noteq> gt_task_id t"
  by (auto simp: put_task_def split: if_splits)

lemma put_task_memory:
  "memory_except w (insert (gt_task_id s) I) tasks \<Longrightarrow> current w s \<Longrightarrow> memory_except w I (put_task s tasks)"
  by (auto simp: memory_except_def dest: in_put_task)

lemma moved_memory:
  "moved h w I w' \<Longrightarrow> memory_ok w tasks \<Longrightarrow> memory_except w' I tasks"
  by (auto simp: memory_except_def dest: moved_current)

lemma find_task_Some: "find_task tasks d = Some s \<Longrightarrow> s \<in> set tasks \<and> gt_task_id s = d"
  by (auto simp: find_task_def find_Some_iff)

lemma find_task_present: "distinct (map gt_task_id tasks) \<Longrightarrow> t \<in> set tasks \<Longrightarrow> find_task tasks (gt_task_id t) = Some t"
  by (induction tasks) (auto simp: find_task_def)

lemma current_row: "current w t \<Longrightarrow> t \<in> set (rows_of w (gt_task_id t))"
  by (metis current_def last_in_set)

lemma task_over_moved:
  assumes "task_over w t x" "moved h w I w'" "gt_task_id t \<notin> I"
  shows "task_over w' t x"
  using assms moved_current [OF assms(2)] moved_keeps(3) [OF assms(2)] by (auto simp: task_over_def)

lemma other_id: "distinct (map gt_task_id (t # ts)) \<Longrightarrow> s \<in> set ts \<Longrightarrow> gt_task_id s \<noteq> gt_task_id t"
  by simp (metis imageI)

lemma run_batch_moves:
  assumes "run_batch e tasks cs ts w = (r, w')"
    and "gen_inv (ge_hash e) w" "distinct (map gt_task_id ts)" "candidates_ok w cs"
      "\<forall>t\<in>set ts. current w t \<and> actionable t \<and> dependencies_ok w tasks t"
  shows "moved (ge_hash e) w (gt_task_id ` set ts) w' \<and> (\<forall>xs. r = Inr xs \<longrightarrow> list_all2 (task_over w') ts xs)"
  using assms
proof (induction ts arbitrary: w r)
  case Nil
  then show ?case by (auto simp: moved_refl)
next
  case (Cons t ts)
  obtain q w1 where q: "run_task e tasks cs t w = (q, w1)" by (rule prod.exhaust)
  obtain qs where qs: "run_batch e tasks cs ts w1 = (qs, w')" and r: "r = rbind q (\<lambda>x. rbind qs (\<lambda>xs. Inr (x # xs)))"
    using Cons.prems(1) q by (auto simp: Let_def split: prod.splits)
  have "moved (ge_hash e) w {gt_task_id t} w1 \<and> (\<forall>x. q = Inr x \<longrightarrow> task_over w1 t x)"
    using Cons.prems by (intro run_task_moves [OF q]) simp_all
  then have one: "moved (ge_hash e) w {gt_task_id t} w1" and over: "\<And>x. q = Inr x \<Longrightarrow> task_over w1 t x" by blast+
  have rest: "moved (ge_hash e) w1 (gt_task_id ` set ts) w' \<and> (\<forall>xs. qs = Inr xs \<longrightarrow> list_all2 (task_over w') ts xs)"
  proof (rule Cons.IH [OF qs])
    show "gen_inv (ge_hash e) w1" using one by (simp add: moved_def)
    show "distinct (map gt_task_id ts)" using Cons.prems(3) by simp
    show "candidates_ok w1 cs" by (rule moved_keeps(1) [OF one Cons.prems(4)])
    show "\<forall>s\<in>set ts. current w1 s \<and> actionable s \<and> dependencies_ok w1 tasks s"
    proof
      fix s assume s: "s \<in> set ts"
      have "gt_task_id s \<noteq> gt_task_id t" by (rule other_id [OF Cons.prems(3) s])
      with s Cons.prems(5) moved_current [OF one, of s] moved_keeps(2) [OF one, of tasks s]
      show "current w1 s \<and> actionable s \<and> dependencies_ok w1 tasks s" by simp
    qed
  qed
  have all: "moved (ge_hash e) w (gt_task_id ` set (t # ts)) w'"
    by (rule moved_trans [OF moved_mono [OF one] moved_mono [OF conjunct1 [OF rest]]]) auto
  have "task_over w' t x" if "q = Inr x" for x
    using task_over_moved [OF over [OF that] conjunct1 [OF rest]] Cons.prems(3) by simp
  with all rest show ?case by (auto simp: r rbind_Inr_iff)
qed

lemma put_outcomes_memory:
  assumes "list_all2 (task_over w) ts outcomes"
    and "memory_except w (I \<union> gt_task_id ` set ts) tasks" "candidates_ok w cs"
    and "fold put_outcome outcomes (tasks, cs) = (tasks', cs')"
  shows "memory_except w I tasks' \<and> candidates_ok w cs' \<and> map gt_task_id tasks' = map gt_task_id tasks"
  using assms
proof (induction arbitrary: tasks cs rule: list_all2_induct)
  case (Cons t ts x outcomes)
  obtain s c where x: "x = (s, c)" by (rule prod.exhaust)
  define cs1 where "cs1 = (case c of None \<Rightarrow> cs | Some y \<Rightarrow> (ca_candidate_id y, y) # cs)"
  have put: "put_outcome x (tasks, cs) = (put_task s tasks, cs1)" by (simp add: put_outcome_def x cs1_def)
  from Cons.hyps(1) x have s: "current w s" "gt_task_id s = gt_task_id t"
    and c: "\<And>y. c = Some y \<Longrightarrow> y \<in> cn_candidate ` set (gn_candidates w)" by (simp_all add: task_over_def)
  have "candidates_ok w cs1" using Cons.prems(2) c by (auto simp: cs1_def candidates_ok_def split: option.splits)
  moreover have "memory_except w (I \<union> gt_task_id ` set ts) (put_task s tasks)"
    using Cons.prems(1) s by (intro put_task_memory) simp_all
  ultimately show ?case using Cons.IH [of "put_task s tasks" cs1] Cons.prems(3) by (simp add: put)
qed simp

lemma skip_blocked_moves:
  assumes "skip_blocked e ts tasks w = (r, w')"
    and "gen_inv (ge_hash e) w" "memory_ok w tasks" "distinct (map gt_task_id ts)" "\<forall>t\<in>set ts. current w t \<and> actionable t"
  shows "moved (ge_hash e) w (gt_task_id ` set ts) w'
    \<and> (\<forall>tasks'. r = Inr tasks' \<longrightarrow> memory_ok w' tasks' \<and> map gt_task_id tasks' = map gt_task_id tasks)"
  using assms
proof (induction ts arbitrary: w r tasks)
  case Nil
  then show ?case by (auto simp: moved_refl)
next
  case (Cons t ts)
  have ids: "gt_task_id s \<noteq> gt_task_id t" if "s \<in> set ts" for s by (rule other_id [OF Cons.prems(4) that])
  obtain q w1 where sk: "skip_task e upstream_reason t w = (q, w1)" by (rule prod.exhaust)
  from Cons.prems(1) consider (error) "r = Inl Generation_key_error" "w' = w"
    | (pass) "skip_blocked e ts tasks w = (r, w')"
    | (skip) "case q of Inl err \<Rightarrow> r = Inl err \<and> w' = w1 | Inr s \<Rightarrow> skip_blocked e ts (put_task s tasks) w1 = (r, w')"
    by (cases "those (map (find_task tasks) (gt_dependency_task_ids t))"; cases q) (simp_all add: sk split: if_splits)
  then show ?case
  proof cases
    case error
    with Cons.prems(2) show ?thesis by (simp add: moved_refl)
  next
    case pass
    have "moved (ge_hash e) w (gt_task_id ` set ts) w'
        \<and> (\<forall>tasks'. r = Inr tasks' \<longrightarrow> memory_ok w' tasks' \<and> map gt_task_id tasks' = map gt_task_id tasks)"
      using Cons.prems by (intro Cons.IH [OF pass]) simp_all
    moreover from this have "moved (ge_hash e) w (gt_task_id ` set (t # ts)) w'" by (auto intro: moved_mono)
    ultimately show ?thesis by blast
  next
    case skip
    have t: "current w t" "actionable t" using Cons.prems(5) by simp_all
    note moves = skip_task_moves [OF Cons.prems(2) t sk]
    note wide = moved_mono [OF moves(1), of "gt_task_id ` set (t # ts)", simplified]
    show ?thesis
    proof (cases q)
      case (Inl err)
      with skip wide show ?thesis by simp
    next
      case (Inr s)
      have s: "current w1 s" "gt_task_id s = gt_task_id t"
        using moves(3) [OF Inr] skip_task_Inr [OF sk [unfolded Inr]] by blast+
      have "moved (ge_hash e) w1 (gt_task_id ` set ts) w'
          \<and> (\<forall>tasks'. r = Inr tasks' \<longrightarrow> memory_ok w' tasks' \<and> map gt_task_id tasks' = map gt_task_id (put_task s tasks))"
      proof (rule Cons.IH)
        show "skip_blocked e ts (put_task s tasks) w1 = (r, w')" using skip Inr by simp
        show "gen_inv (ge_hash e) w1" using moves(1) by (simp add: moved_def)
        show "memory_ok w1 (put_task s tasks)"
          using moved_memory [OF moves(1) Cons.prems(3)] s by (intro put_task_memory) simp_all
        show "distinct (map gt_task_id ts)" using Cons.prems(4) by simp
        show "\<forall>u\<in>set ts. current w1 u \<and> actionable u"
          using Cons.prems(5) moved_current [OF moves(1)] ids by simp
      qed
      moreover from this have "moved (ge_hash e) w1 (gt_task_id ` set (t # ts)) w'" by (auto intro: moved_mono)
      ultimately show ?thesis using moved_trans [of "ge_hash e" w _ w1 w'] wide by simp
    qed
  qed
qed

lemma skip_stuck_moves:
  assumes "skip_stuck e ts w = (r, w')"
    and "gen_inv (ge_hash e) w" "distinct (map gt_task_id ts)" "\<forall>t\<in>set ts. current w t \<and> actionable t"
  shows "moved (ge_hash e) w (gt_task_id ` set ts) w'
    \<and> (r = Inr () \<longrightarrow> (\<forall>t\<in>set ts. \<exists>s. current w' s \<and> gt_task_id s = gt_task_id t \<and> gt_state s = TS_SKIPPED))"
  using assms
proof (induction ts arbitrary: w r)
  case Nil
  then show ?case by (auto simp: moved_refl)
next
  case (Cons t ts)
  have ids: "gt_task_id s \<noteq> gt_task_id t" if "s \<in> set ts" for s by (rule other_id [OF Cons.prems(3) that])
  obtain q w1 where skip: "skip_task e stuck_reason t w = (q, w1)" by (rule prod.exhaust)
  have t: "current w t" "actionable t" using Cons.prems(4) by simp_all
  note moves = skip_task_moves [OF Cons.prems(2) t skip]
  note wide = moved_mono [OF moves(1), of "gt_task_id ` set (t # ts)", simplified]
  show ?case
  proof (cases q)
    case (Inl err)
    with skip Cons.prems(1) wide show ?thesis by auto
  next
    case (Inr s)
    have s: "current w1 s" "gt_task_id s = gt_task_id t" "gt_state s = TS_SKIPPED"
      using moves(3) [OF Inr] skip_task_Inr [OF skip [unfolded Inr]] by blast+
    have rest: "moved (ge_hash e) w1 (gt_task_id ` set ts) w'
      \<and> (r = Inr () \<longrightarrow> (\<forall>t\<in>set ts. \<exists>s. current w' s \<and> gt_task_id s = gt_task_id t \<and> gt_state s = TS_SKIPPED))"
    proof (rule Cons.IH)
      show "skip_stuck e ts w1 = (r, w')" using Cons.prems(1) skip Inr by simp
      show "gen_inv (ge_hash e) w1" using moves(1) by (simp add: moved_def)
      show "distinct (map gt_task_id ts)" using Cons.prems(3) by simp
      show "\<forall>u\<in>set ts. current w1 u \<and> actionable u" using Cons.prems(4) moved_current [OF moves(1)] ids by simp
    qed
    then have "moved (ge_hash e) w1 (gt_task_id ` set (t # ts)) w'" by (auto intro: moved_mono)
    then have "moved (ge_hash e) w (gt_task_id ` set (t # ts)) w'" using moved_trans [of "ge_hash e" w _ w1 w'] wide by simp
    moreover have "gt_task_id s \<notin> gt_task_id ` set ts" using Cons.prems(3) s(2) by simp
    then have "current w' s" using moved_current [OF conjunct1 [OF rest] _ s(1)] by blast
    ultimately show ?thesis using rest s(2,3) by auto
  qed
qed

definition settled_id :: "generation_world \<Rightarrow> uuid \<Rightarrow> bool" where
  "settled_id w i \<longleftrightarrow> (\<exists>t. current w t \<and> gt_task_id t = i \<and> gt_state t \<notin> {TS_PENDING, TS_RUNNING})"

lemma distinct_ids_eq: "distinct (map gt_task_id tasks) \<Longrightarrow> s \<in> set tasks \<Longrightarrow> t \<in> set tasks \<Longrightarrow> gt_task_id s = gt_task_id t \<Longrightarrow> s = t"
  by (simp add: distinct_map inj_on_def)

lemma distinct_ids_batch: "distinct (map gt_task_id tasks) \<Longrightarrow> distinct (map gt_task_id (take n (sort_key f (filter P tasks))))"
proof -
  assume "distinct (map gt_task_id tasks)"
  then have "distinct (map gt_task_id (filter P tasks))" by (rule distinct_map_filter)
  then have "distinct (map gt_task_id (sort_key f (filter P tasks)))" by (simp add: distinct_map distinct_sort)
  then show ?thesis by (metis distinct_take take_map)
qed

lemma ready_dependencies:
  assumes "memory_ok w tasks" "task_ready tasks t"
  shows "dependencies_ok w tasks t"
  unfolding dependencies_ok_def
proof
  fix d assume "d \<in> set (gt_dependency_task_ids t)"
  with assms(2) obtain s where s: "find_task tasks d = Some s" "gt_state s = TS_SUCCEEDED" by (auto simp: task_ready_def list_all_iff)
  from find_task_Some [OF s(1)] assms(1) have "s \<in> set (rows_of w d)" using current_row [of w s] by (auto simp: memory_except_def)
  with s show "\<exists>s. find_task tasks d = Some s \<and> gt_state s = TS_SUCCEEDED \<and> s \<in> set (rows_of w d)" by blast
qed

lemma stuck_settled:
  assumes "skip_stuck e (filter (\<lambda>t. gt_state t \<in> {TS_PENDING, TS_RUNNING}) tasks) w = (r, w')"
    and "gen_inv (ge_hash e) w" "memory_ok w tasks"
  shows "moved (ge_hash e) w (gt_task_id ` set tasks) w' \<and> (r = Inr () \<longrightarrow> (\<forall>i\<in>gt_task_id ` set tasks. settled_id w' i))"
proof -
  let ?ts = "filter (\<lambda>t. gt_state t \<in> {TS_PENDING, TS_RUNNING}) tasks"
  from assms(3) have dist: "distinct (map gt_task_id tasks)" and cur: "\<And>t. t \<in> set tasks \<Longrightarrow> current w t"
    by (simp_all add: memory_except_def)
  have "\<forall>t\<in>set ?ts. current w t \<and> actionable t" using cur by (auto simp: actionable_def)
  from skip_stuck_moves [OF assms(1,2) distinct_map_filter [OF dist] this]
  have moved: "moved (ge_hash e) w (gt_task_id ` set ?ts) w'"
    and skipped: "r = Inr () \<Longrightarrow> t \<in> set ?ts \<Longrightarrow> \<exists>s. current w' s \<and> gt_task_id s = gt_task_id t \<and> gt_state s = TS_SKIPPED" for t
    by blast+
  have "settled_id w' (gt_task_id t)" if "r = Inr ()" "t \<in> set tasks" for t
  proof (cases "t \<in> set ?ts")
    case True
    with skipped [OF that(1) this] show ?thesis by (auto simp: settled_id_def)
  next
    case False
    then have "gt_task_id t \<notin> gt_task_id ` set ?ts" using distinct_ids_eq [OF dist _ that(2)] by auto
    then have "current w' t" using moved_current [OF moved] cur [OF that(2)] by blast
    with False that(2) show ?thesis by (auto simp: settled_id_def)
  qed
  moreover have "moved (ge_hash e) w (gt_task_id ` set tasks) w'" by (rule moved_mono [OF moved]) auto
  ultimately show ?thesis by blast
qed

lemma dag_round_moves:
  assumes run: "dag_round e b tasks cs w = (r, w')"
    and inv: "gen_inv (ge_hash e) w" "memory_ok w tasks" "candidates_ok w cs"
  defines "I \<equiv> gt_task_id ` set tasks"
  shows "moved (ge_hash e) w I w' \<and> (r = Inr Dag_done \<longrightarrow> (\<forall>i\<in>I. settled_id w' i))
    \<and> (\<forall>tasks1 w1. skip_blocked e (filter actionable tasks) tasks w = (Inr tasks1, w1) \<longrightarrow> grown w1 w')
    \<and> (\<forall>tasks' cs'. r = Inr (Dag_more tasks' cs') \<longrightarrow> memory_ok w' tasks' \<and> candidates_ok w' cs' \<and> map gt_task_id tasks' = map gt_task_id tasks)"
proof (cases "filter actionable tasks = []")
  case True
  then have "settled_id w i" if "i \<in> I" for i
    using that inv(2) by (fastforce simp: settled_id_def I_def memory_except_def filter_empty_conv actionable_def)
  with True run inv(1) show ?thesis by (auto simp: dag_round_def moved_refl grown_refl)
next
  case False
  from inv(2) have dist: "distinct (map gt_task_id tasks)" and cur: "\<And>t. t \<in> set tasks \<Longrightarrow> current w t"
    by (simp_all add: memory_except_def)
  obtain q w1 where q: "skip_blocked e (filter actionable tasks) tasks w = (q, w1)" by (rule prod.exhaust)
  have "\<forall>t\<in>set (filter actionable tasks). current w t \<and> actionable t" using cur by simp
  from skip_blocked_moves [OF q inv(1,2) distinct_map_filter [OF dist] this]
  have first: "moved (ge_hash e) w (gt_task_id ` set (filter actionable tasks)) w1"
    and memory: "\<And>tasks1. q = Inr tasks1 \<Longrightarrow> memory_ok w1 tasks1 \<and> map gt_task_id tasks1 = map gt_task_id tasks" by blast+
  have first: "moved (ge_hash e) w I w1" by (rule moved_mono [OF first]) (auto simp: I_def)
  then have w1: "gen_inv (ge_hash e) w1" by (simp add: moved_def)
  show ?thesis
  proof (cases q)
    case (Inl err)
    with run False q first show ?thesis by (auto simp: dag_round_def)
  next
    case (Inr tasks1)
    from memory [OF Inr] have mem1: "memory_ok w1 tasks1" and ids: "map gt_task_id tasks1 = map gt_task_id tasks" by blast+
    from ids have I: "I = gt_task_id ` set tasks1" unfolding I_def by (metis list.set_map)
    let ?ready = "filter (task_ready tasks1) tasks1"
    let ?batch = "take (nat (gb_max_parallelism b)) (sort_key (ordinal_of b) ?ready)"
    let ?stuck = "filter (\<lambda>t. gt_state t \<in> {TS_PENDING, TS_RUNNING}) tasks1"
    obtain st w2 where stuck: "skip_stuck e ?stuck w1 = (st, w2)" by (rule prod.exhaust)
    obtain bs w3 where batch: "run_batch e tasks1 cs ?batch w1 = (bs, w3)" by (rule prod.exhaust)
    let ?foreign = "list_ex (\<lambda>t. step_of b (gt_task_id t) = None) ?ready"
    have "(r, w') = (if ?ready = [] then (case st of Inl err \<Rightarrow> (Inl err, w2) | Inr _ \<Rightarrow> (Inr Dag_done, w2))
      else if ?foreign then (Inl Generation_key_error, w1)
      else (case bs of Inl err \<Rightarrow> (Inl err, w3) | Inr outcomes \<Rightarrow>
        (case fold put_outcome outcomes (tasks1, cs) of (tasks2, cs2) \<Rightarrow> (Inr (Dag_more tasks2 cs2), w3))))"
      by (simp only: run [symmetric] dag_round_def Let_def if_not_P [OF False] q Inr prod.case sum.case stuck batch)
    then consider (stuck) "r = (case st of Inl err \<Rightarrow> Inl err | Inr _ \<Rightarrow> Inr Dag_done)" "w' = w2"
      | (foreign) "r = Inl Generation_key_error" "w' = w1"
      | (batch) "r = (case bs of Inl err \<Rightarrow> Inl err | Inr outcomes \<Rightarrow>
            (case fold put_outcome outcomes (tasks1, cs) of (tasks2, cs2) \<Rightarrow> Inr (Dag_more tasks2 cs2)))" "w' = w3"
      by (cases st; cases bs; cases "?ready = []"; cases ?foreign) (simp_all split: prod.splits)
    then show ?thesis
    proof cases
      case stuck
      note st = stuck_settled [OF \<open>skip_stuck e ?stuck w1 = (st, w2)\<close> w1 mem1]
      have "moved (ge_hash e) w I w2" using moved_trans [OF first] st by (simp add: I)
      moreover have "grown w1 w2" using st by (simp add: moved_def)
      ultimately show ?thesis using st by (cases st) (auto simp: stuck I q)
    next
      case foreign
      with first show ?thesis by (simp add: q grown_refl)
    next
      case batch
      have sub: "t \<in> set tasks1 \<and> task_ready tasks1 t" if "t \<in> set ?batch" for t
        using in_set_takeD [OF that] by simp
      from mem1 have cur1: "\<And>t. t \<in> set tasks1 \<Longrightarrow> current w1 t" and dist1: "distinct (map gt_task_id tasks1)"
        by (simp_all add: memory_except_def)
      have "\<forall>t\<in>set ?batch. current w1 t \<and> actionable t \<and> dependencies_ok w1 tasks1 t"
      proof
        fix t assume "t \<in> set ?batch"
        from sub [OF this] cur1 ready_dependencies [OF mem1]
        show "current w1 t \<and> actionable t \<and> dependencies_ok w1 tasks1 t" by (simp add: task_ready_def)
      qed
      note ran = run_batch_moves [OF \<open>run_batch e tasks1 cs ?batch w1 = (bs, w3)\<close> w1 distinct_ids_batch [OF dist1]
          moved_keeps(1) [OF first inv(3)] this]
      note step = conjunct1 [OF ran] and over = mp [OF spec [OF conjunct2 [OF ran]]]
      have "gt_task_id ` set ?batch \<subseteq> I" unfolding I by (rule image_mono, rule subsetI, rule conjunct1 [OF sub])
      then have all: "moved (ge_hash e) w I w3" by (rule moved_trans [OF first moved_mono [OF step]])
      have "memory_ok w3 tasks2 \<and> candidates_ok w3 cs2 \<and> map gt_task_id tasks2 = map gt_task_id tasks1"
        if o: "bs = Inr outcomes" "fold put_outcome outcomes (tasks1, cs) = (tasks2, cs2)" for outcomes tasks2 cs2
      proof (rule put_outcomes_memory [OF over [OF o(1)] _ _ o(2)])
        show "memory_except w3 ({} \<union> gt_task_id ` set ?batch) tasks1" using moved_memory [OF step mem1] by simp
        show "candidates_ok w3 cs" by (rule moved_keeps(1) [OF all inv(3)])
      qed
      moreover have "grown w1 w3" using step by (simp add: moved_def)
      ultimately show ?thesis using all by (cases bs) (auto simp: batch ids q split: prod.splits)
    qed
  qed
qed

lemma execute_dag_moves:
  assumes "execute_dag e b tasks cs w = Some (r, w')" "1 \<le> gb_max_parallelism b"
    and "gen_inv (ge_hash e) w" "memory_ok w tasks" "candidates_ok w cs"
  shows "moved (ge_hash e) w (gt_task_id ` set tasks) w' \<and> (r = Inr () \<longrightarrow> (\<forall>i\<in>gt_task_id ` set tasks. settled_id w' i))"
  using assms
proof (induction "todo_count tasks" arbitrary: tasks cs w rule: less_induct)
  case less
  obtain q w1 where round: "dag_round e b tasks cs w = (q, w1)" by (rule prod.exhaust)
  note moves = dag_round_moves [OF round less.prems(3-5)]
  note unfolded = less.prems(1) [unfolded execute_dag.simps [of e b tasks cs w] round]
  show ?case
  proof (cases "\<exists>tasks' cs'. q = Inr (Dag_more tasks' cs')")
    case True
    then obtain tasks' cs' where q: "q = Inr (Dag_more tasks' cs')" by blast
    from moves have rest: "moved (ge_hash e) w (gt_task_id ` set tasks) w1" "memory_ok w1 tasks'" "candidates_ok w1 cs'"
      and ids: "map gt_task_id tasks' = map gt_task_id tasks" using q by blast+
    from ids have I: "gt_task_id ` set tasks' = gt_task_id ` set tasks" by (metis list.set_map)
    have run: "execute_dag e b tasks' cs' w1 = Some (r, w')" using unfolded by (simp add: q)
    have "gen_inv (ge_hash e) w1" using rest(1) by (simp add: moved_def)
    from less.hyps [OF dag_round_count [OF round [unfolded q] less.prems(2)] run less.prems(2) this rest(2,3)]
    show ?thesis using moved_trans [OF rest(1)] unfolding I by blast
  next
    case False
    with unfolded have "w' = w1" "r = Inr () \<longrightarrow> q = Inr Dag_done" by (auto split: sum.splits dag_progress.splits)
    with moves show ?thesis by blast
  qed
qed

subsection \<open>Sessions and the load of a workflow\<close>

text \<open>The transactions on sessions leave the tasks alone.\<close>

definition leaves_tasks :: "hash_env \<Rightarrow> (generation_world \<Rightarrow> generation_error + 'val \<times> generation_world) \<Rightarrow> bool" where
  "leaves_tasks h f \<longleftrightarrow> (\<forall>w p w'. f w = Inr (p, w') \<longrightarrow> verify_audit_chain h (gn_audit w) \<longrightarrow>
     gn_tasks w' = gn_tasks w \<and> gn_keys w' = gn_keys w \<and> gn_calls w' = gn_calls w \<and> gn_candidates w' = gn_candidates w
     \<and> gn_blueprints w' = gn_blueprints w \<and> verify_audit_chain h (gn_audit w') \<and> set (gn_audit w) \<subseteq> set (gn_audit w')
     \<and> (\<forall>j. finished w j \<longrightarrow> latest_session w' j = latest_session w j))"

definition plain_key :: "mutation_key \<Rightarrow> bool" where
  "plain_key k \<longleftrightarrow> (\<exists>i. k = Session_start_key i) \<or> (\<exists>c. k = Client_key c)"

lemma key_used_plain: "plain_key k \<Longrightarrow> key_used w k"
  by (auto simp: plain_key_def key_used_def)

lemma session_mutation:
  assumes "mutate e operation key request f w = (r, w')" "leaves_tasks (ge_hash e) f" "gen_inv (ge_hash e) w"
    and "plain_key key \<or> (\<exists>i. key = Session_finalize_key i \<and> (\<forall>v p v'. f v = Inr (p, v') \<longrightarrow> finished v' i))"
  shows "gen_inv (ge_hash e) w' \<and> grown w w' \<and> gn_tasks w' = gn_tasks w \<and> gn_blueprints w' = gn_blueprints w
    \<and> gn_candidates w' = gn_candidates w \<and> gn_calls w' = gn_calls w"
  using assms(1)
proof (cases rule: mutate_cases)
  case (known fs payload)
  with assms(3) show ?thesis by (simp add: gen_inv_faults grown_faults)
next
  case (rejected fs err)
  with assms(3) show ?thesis by (simp add: gen_inv_faults grown_faults)
next
  case (committed fs payload digest w1)
  have chain: "verify_audit_chain (ge_hash e) (gn_audit (w\<lparr>gn_faults := fs\<rparr>))" using assms(3) by (simp add: gen_inv_def)
  note left = assms(2) [unfolded leaves_tasks_def, rule_format, OF committed(2) chain]
  have tasks: "gn_tasks w' = gn_tasks w" using left committed(3) by simp
  have sessions: "latest_session w' j = latest_session w1 j" "latest_session (w\<lparr>gn_faults := fs\<rparr>) j = latest_session w j" for j
    by (rule latest_session_cong, simp add: committed(3))+
  have grow: "grown w w'"
    using left committed(3) sessions finished_cong [OF sessions(2)] by (simp add: grown_def)
  have used: "key_used w' key"
    using assms(4)
  proof
    assume "\<exists>i. key = Session_finalize_key i \<and> (\<forall>v p v'. f v = Inr (p, v') \<longrightarrow> finished v' i)"
    then obtain i where "key = Session_finalize_key i" "finished w1 i" using committed(2) by blast
    with finished_cong [OF sessions(1)] show ?thesis by (simp add: key_used_def)
  qed (rule key_used_plain)
  have "gen_inv (ge_hash e) w'"
  proof (rule gen_inv_extend [OF assms(3) grow, of 0 "[]"])
    show "gn_tasks w' = gn_tasks w @ map (Pair 0) []" using tasks by simp
    show "legal_history (rows_of w i @ filter (\<lambda>t. gt_task_id t = i) [])" for i using assms(3) by (simp add: gen_inv_def)
    show "k \<in> fst ` set (gn_keys w) \<or> key_used w' k" if "k \<in> fst ` set (gn_keys w')" for k
      using that left committed(3) used by auto
    show "c \<in> set (gn_calls w) \<or> call_safe w' c" if "c \<in> set (gn_calls w')" for c using that left committed(3) by simp
    show "verify_audit_chain (ge_hash e) (gn_audit w')" using left committed(3) by simp
  qed simp
  with grow tasks left committed(3) show ?thesis by simp
qed

lemma append_session_Inr: "append_session s w = Inr w' \<Longrightarrow> w' = w\<lparr>gn_sessions := gn_sessions w @ [s]\<rparr>"
  by (auto simp: append_session_def split: if_splits)

lemma latest_session_id: "latest_session w i = Some s \<Longrightarrow> se_generation_session_id s = i"
  by (auto simp: latest_session_def session_rows_def find_Some_iff in_set_conv_nth dest!: nth_mem)

lemma appended_session_other:
  "gn_sessions w' = gn_sessions w @ [s] \<Longrightarrow> se_generation_session_id s \<noteq> j \<Longrightarrow> latest_session w' j = latest_session w j"
  by (simp add: latest_session_def session_rows_def)

lemma find_snoc: "find P xs = None \<Longrightarrow> find P (xs @ [y]) = (if P y then Some y else None)"
  by (induction xs) (auto split: if_splits)

text \<open>An appended row with the next version is the latest.\<close>

lemma appended_session_latest:
  assumes "gn_sessions w' = gn_sessions w @ [s]" "latest_session w i = Some c" "se_generation_session_id s = i"
    and "se_session_version c < se_session_version s"
  shows "latest_session w' i = Some s"
proof -
  let ?rows = "session_rows w i"
  have rows: "session_rows w' i = ?rows @ [s]" using assms(1,3) by (simp add: session_rows_def)
  have "\<forall>r\<in>set ?rows. se_session_version r \<le> se_session_version c"
    using assms(2) by (auto simp: latest_session_def find_Some_iff list_all_iff)
  then have less: "\<forall>r\<in>set ?rows. se_session_version r < se_session_version s" using assms(4) by auto
  then have "find (\<lambda>q. list_all (\<lambda>r. se_session_version r \<le> se_session_version q) (?rows @ [s])) ?rows = None"
    by (auto simp: find_None_iff)
  from find_snoc [OF this] less
  have "find (\<lambda>q. list_all (\<lambda>r. se_session_version r \<le> se_session_version q) (?rows @ [s])) (?rows @ [s]) = Some s"
    by (auto simp: list_all_iff)
  then show ?thesis by (simp add: latest_session_def rows)
qed

lemma session_append_leaves:
  assumes "rbind (append_session s (append_audit e a i m w)) (\<lambda>w1. Inr (q, append_event n q' w1)) = Inr (p, w')"
    and "verify_audit_chain (ge_hash e) (gn_audit w)" "\<not> finished w (se_generation_session_id s)"
  shows "gn_tasks w' = gn_tasks w \<and> gn_keys w' = gn_keys w \<and> gn_calls w' = gn_calls w \<and> gn_candidates w' = gn_candidates w
     \<and> gn_blueprints w' = gn_blueprints w \<and> verify_audit_chain (ge_hash e) (gn_audit w') \<and> set (gn_audit w) \<subseteq> set (gn_audit w')
     \<and> (\<forall>j. finished w j \<longrightarrow> latest_session w' j = latest_session w j)"
proof -
  from assms(1) obtain w1 where "append_session s (append_audit e a i m w) = Inr w1" "w' = append_event n q' w1"
    by (auto elim: rbind_InrE)
  note w' = append_session_Inr [OF this(1)] this(2)
  have "latest_session w' j = latest_session w j" if "finished w j" for j
  proof (rule appended_session_other)
    show "gn_sessions w' = gn_sessions w @ [s]" by (simp add: w' append_event_def append_audit_fields)
    show "se_generation_session_id s \<noteq> j" using that assms(3) by blast
  qed
  with w' append_audit_records [OF assms(2), of a i m] show ?thesis
    by (simp add: append_event_def append_audit_fields)
qed

lemma start_body_leaves: "leaves_tasks (ge_hash e) (start_body e i)"
  unfolding leaves_tasks_def
proof (intro allI impI)
  fix w p w'
  assume a: "start_body e i w = Inr (p, w')" "verify_audit_chain (ge_hash e) (gn_audit w)"
  then obtain s where s: "latest_session w i = Some s" by (cases "latest_session w i") (simp_all add: start_body_def)
  show "gn_tasks w' = gn_tasks w \<and> gn_keys w' = gn_keys w \<and> gn_calls w' = gn_calls w \<and> gn_candidates w' = gn_candidates w
     \<and> gn_blueprints w' = gn_blueprints w \<and> verify_audit_chain (ge_hash e) (gn_audit w') \<and> set (gn_audit w) \<subseteq> set (gn_audit w')
     \<and> (\<forall>j. finished w j \<longrightarrow> latest_session w' j = latest_session w j)"
  proof (cases "se_state s \<noteq> SS_PLANNED")
    case True
    with a s show ?thesis by (simp add: start_body_def)
  next
    case False
    from a(1) [unfolded start_body_def s option.case Let_def if_not_P [OF False]] a(2) show ?thesis
    proof (rule session_append_leaves)
      from False have "se_state s = SS_PLANNED" by simp
      then have "\<not> finished w i" by (simp add: finished_iff s session_over_def)
      with latest_session_id [OF s] show "\<not> finished w (se_generation_session_id (s\<lparr>se_session_snapshot_id := n,
          se_session_version := k, se_parent_session_snapshot_id := q, se_state := st, se_result_document := d,
          se_content_sha256 := x, se_frozen_at := t\<rparr>))" for n k q st d x t by simp
    qed
  qed
qed

lemma finalize_body_leaves: "leaves_tasks (ge_hash e) (finalize_body e i b tasks candidates)"
  unfolding leaves_tasks_def
proof (intro allI impI)
  fix w p w'
  assume a: "finalize_body e i b tasks candidates w = Inr (p, w')" "verify_audit_chain (ge_hash e) (gn_audit w)"
  then obtain s where s: "latest_session w i = Some s" by (cases "latest_session w i") (simp_all add: finalize_body_def)
  show "gn_tasks w' = gn_tasks w \<and> gn_keys w' = gn_keys w \<and> gn_calls w' = gn_calls w \<and> gn_candidates w' = gn_candidates w
     \<and> gn_blueprints w' = gn_blueprints w \<and> verify_audit_chain (ge_hash e) (gn_audit w') \<and> set (gn_audit w) \<subseteq> set (gn_audit w')
     \<and> (\<forall>j. finished w j \<longrightarrow> latest_session w' j = latest_session w j)"
  proof (cases "session_over (se_state s)")
    case True
    with a s show ?thesis by (simp add: finalize_body_def)
  next
    case False
    from a(1) [unfolded finalize_body_def s option.case Let_def if_not_P [OF False]] a(2) show ?thesis
    proof (rule session_append_leaves)
      from False have "\<not> finished w i" by (simp add: finished_iff s)
      with latest_session_id [OF s] show "\<not> finished w (se_generation_session_id (s\<lparr>se_session_snapshot_id := n,
          se_session_version := k, se_parent_session_snapshot_id := q, se_state := st, se_result_document := d,
          se_content_sha256 := x, se_created_by_subject := u, se_frozen_at := t\<rparr>))" for n k q st d x u t by simp
    qed
  qed
qed

lemma final_state_over: "session_over (final_state b ts)"
  by (auto simp: session_over_def final_state_def Let_def)

lemma finalize_body_latest:
  assumes "finalize_body e i b tasks candidates w = Inr (p, w')"
  shows "\<exists>s. latest_session w' i = Some s \<and> session_over (se_state s)
    \<and> (\<not> finished w i \<longrightarrow> se_state s = final_state b tasks \<and> map_of p ''session_version'' = Some (DInt (se_session_version s)))"
proof -
  from assms obtain c where c: "latest_session w i = Some c" by (cases "latest_session w i") (simp_all add: finalize_body_def)
  show ?thesis
  proof (cases "session_over (se_state c)")
    case True
    with assms c show ?thesis by (auto simp: finalize_body_def finished_iff)
  next
    case False
    note run = assms [unfolded finalize_body_def c option.case Let_def if_not_P [OF False]]
    from run obtain s a m n w1 where s: "append_session s (append_audit e a i m w) = Inr w1" "w' = append_event ''topic3.workflow.finalized'' n w1"
        "se_generation_session_id s = se_generation_session_id c" "se_session_version s = se_session_version c + 1"
        "se_state s = final_state b tasks" "map_of p ''session_version'' = Some (DInt (se_session_version s))"
      by (auto elim!: rbind_InrE)
    have "gn_sessions w' = gn_sessions w @ [s]"
      by (simp add: s(2) append_event_def append_session_Inr [OF s(1)] append_audit_fields)
    from appended_session_latest [OF this c] s(3-6) latest_session_id [OF c] final_state_over show ?thesis by simp
  qed
qed

lemma finalize_body_finished: "\<forall>v p v'. finalize_body e i b tasks candidates v = Inr (p, v') \<longrightarrow> finished v' i"
  using finalize_body_latest by (fastforce simp: finished_iff)

lemma start_workflow_keeps:
  assumes "start_workflow e i w = (r, w')" "gen_inv (ge_hash e) w"
  shows "gen_inv (ge_hash e) w' \<and> grown w w' \<and> gn_tasks w' = gn_tasks w \<and> gn_blueprints w' = gn_blueprints w
    \<and> gn_candidates w' = gn_candidates w \<and> gn_calls w' = gn_calls w"
proof -
  obtain q where "mutate e ''topic3.workflow.start'' (Session_start_key i) (DObj [(''generation_session_id'', DStr i)]) (start_body e i) w
      = (q, w')" using assms(1) by (auto simp: start_workflow_def split: sum.splits prod.splits)
  from session_mutation [OF this start_body_leaves assms(2)] show ?thesis by (simp add: plain_key_def)
qed

lemma finalize_workflow_keeps:
  assumes "finalize_workflow e i b tasks candidates w = (r, w')" "gen_inv (ge_hash e) w"
  shows "gen_inv (ge_hash e) w' \<and> grown w w' \<and> gn_tasks w' = gn_tasks w \<and> gn_blueprints w' = gn_blueprints w
    \<and> gn_candidates w' = gn_candidates w \<and> gn_calls w' = gn_calls w"
proof -
  from assms(1) consider "w' = w" | q d where "mutate e ''topic3.workflow.finalize'' (Session_finalize_key i) d
      (finalize_body e i b tasks candidates) w = (q, w')"
    by (auto simp: finalize_workflow_def split: sum.splits prod.splits if_splits)
  then show ?thesis
  proof cases
    case 1
    with assms(2) show ?thesis by (simp add: grown_refl)
  next
    case 2
    from session_mutation [OF this finalize_body_leaves assms(2)] finalize_body_finished show ?thesis by blast
  qed
qed

text \<open>The tasks that a load returns are the newest rows.\<close>

lemma legal_history_distinct: "legal_history ts \<Longrightarrow> distinct (map gt_task_version ts)"
  by (auto simp: distinct_conv_nth legal_history_version)

lemma distinct_by_counts:
  "(\<And>i. length (filter (\<lambda>t. f t = i) xs) \<le> 1) \<Longrightarrow> distinct (map f xs)"
proof (induction xs)
  case (Cons x xs)
  have "length (filter (\<lambda>t. f t = i) xs) \<le> 1" for i using Cons.prems [of i] by (simp split: if_splits)
  moreover have "filter (\<lambda>t. f t = f x) xs = []" using Cons.prems [of "f x"] by simp
  ultimately show ?case using Cons.IH by (auto simp: filter_empty_conv)
qed simp

lemma latest_rows_newest:
  assumes "gen_inv h w" "(n, t) \<in> set (latest_rows (blueprint_rows w b v))"
  shows "current w t" "gt_blueprint_id t = b" "gt_blueprint_version t = v"
proof -
  let ?rows = "rows_of w (gt_task_id t)"
  have t: "(n, t) \<in> set (gn_tasks w)" "gt_blueprint_id t = b" "gt_blueprint_version t = v"
    and newest: "\<And>m r. (m, r) \<in> set (blueprint_rows w b v) \<Longrightarrow> gt_task_id r = gt_task_id t \<Longrightarrow> gt_task_version r \<le> gt_task_version t"
    using assms(2) by (auto simp: latest_rows_def blueprint_rows_def list_all_iff)
  have hist: "legal_history ?rows" using assms(1) by (simp add: gen_inv_def)
  have mem: "t \<in> set ?rows" using t(1) by (force simp: in_rows_of)
  then have ne: "?rows \<noteq> []" by auto
  then have "last ?rows \<in> set ?rows" by simp
  then obtain m where m: "(m, last ?rows) \<in> set (gn_tasks w)" "gt_task_id (last ?rows) = gt_task_id t" by (auto simp: in_rows_of)
  with legal_history_same [OF hist mem] t(2,3) have "(m, last ?rows) \<in> set (blueprint_rows w b v)" by (simp add: blueprint_rows_def)
  from newest [OF this m(2)] legal_history_last [OF hist ne] have "int (length ?rows) \<le> gt_task_version t" by simp
  from legal_history_newest [OF hist mem this] ne show "current w t" by (simp add: current_def)
  show "gt_blueprint_id t = b" "gt_blueprint_version t = v" by (fact t)+
qed

lemma latest_tasks_memory:
  assumes "gen_inv h w"
  shows "memory_ok w (latest_tasks w b v)"
proof -
  let ?rows = "latest_rows (blueprint_rows w b v)"
  have set: "set (latest_tasks w b v) = snd ` set ?rows" by (simp add: latest_tasks_def)
  have "distinct (map gt_task_id (latest_tasks w b v)) \<longleftrightarrow> distinct (map gt_task_id (map snd ?rows))"
    by (simp add: latest_tasks_def distinct_map)
  moreover have "distinct (map gt_task_id (map snd ?rows))"
  proof (rule distinct_by_counts)
    fix i
    let ?hits = "filter (\<lambda>t. gt_task_id t = i) (map snd ?rows)"
    have hist: "legal_history (rows_of w i)" using assms by (simp add: gen_inv_def)
    have P: "?hits = filter (\<lambda>t. gt_blueprint_id t = b \<and> gt_blueprint_version t = v \<and> list_all (\<lambda>(_, r).
        gt_task_id r = gt_task_id t \<longrightarrow> gt_task_version r \<le> gt_task_version t) (blueprint_rows w b v)) (rows_of w i)"
      by (simp add: latest_rows_def blueprint_rows_def rows_of_def filter_map comp_def case_prod_beta conj_ac)
    have dist: "distinct (map gt_task_version ?hits)" unfolding P by (rule distinct_map_filter [OF legal_history_distinct [OF hist]])
    have "t = last (rows_of w i)" if "t \<in> set ?hits" for t
      using that latest_rows_newest(1) [OF assms] by (auto simp: current_def)
    then have "set ?hits \<subseteq> {last (rows_of w i)}" by blast
    moreover have "distinct ?hits" using dist by (simp add: distinct_map)
    ultimately show "length ?hits \<le> 1" by (metis card_mono card.empty card_insert_disjoint distinct_card finite.emptyI finite_insert insert_absorb
      One_nat_def empty_iff)
  qed
  ultimately show ?thesis using latest_rows_newest(1) [OF assms] by (auto simp: memory_except_def set)
qed

subsection \<open>Creations and executions keep the invariant\<close>

lemma append_initial:
  assumes "append_task t w = Inr w'" "initial_row t" "\<And>i. legal_history (rows_of w i)"
  shows "legal_history (rows_of w' i)"
proof -
  have "rows_of w (gt_task_id t) = []"
  proof (rule ccontr)
    assume ne: "rows_of w (gt_task_id t) \<noteq> []"
    then have "gt_task_version (hd (rows_of w (gt_task_id t))) = 1"
      using assms(3) [of "gt_task_id t"] by (simp add: legal_history_def initial_row_def)
    with append_task_Inr(4) [OF assms(1) hd_in_set [OF ne]] assms(2) show False by (simp add: initial_row_def)
  qed
  moreover have "rows_of w' i = rows_of w i @ (if gt_task_id t = i then [t] else [])"
    by (simp add: append_task_Inr(1) [OF assms(1)] rows_of_def)
  ultimately show ?thesis using assms(2,3) by (auto simp: legal_history_def)
qed

lemma append_all_initial:
  assumes "append_all append_task ts w = Inr w'" "\<forall>t\<in>set ts. initial_row t" "\<And>i. legal_history (rows_of w i)"
  shows "w' = w\<lparr>gn_tasks := gn_tasks w @ map (Pair (length (gn_keys w))) ts\<rparr> \<and> (\<forall>i. legal_history (rows_of w' i))
    \<and> (\<forall>t\<in>set ts. 0 \<le> gt_attempt t \<and> gt_attempt t \<le> gt_max_attempts t)"
  using assms
proof (induction ts arbitrary: w)
  case (Cons t ts)
  then obtain w1 where w1: "append_task t w = Inr w1" "append_all append_task ts w1 = Inr w'" by (auto elim: rbind_InrE)
  have init: "initial_row t" using Cons.prems(2) by simp
  have "\<And>i. legal_history (rows_of w1 i)" by (rule append_initial [OF w1(1) init Cons.prems(3)])
  note Cons.IH [OF w1(2) _ this]
  then have all: "w' = w1\<lparr>gn_tasks := gn_tasks w1 @ map (Pair (length (gn_keys w1))) ts\<rparr> \<and> (\<forall>i. legal_history (rows_of w' i))
    \<and> (\<forall>s\<in>set ts. 0 \<le> gt_attempt s \<and> gt_attempt s \<le> gt_max_attempts s)" using Cons.prems(2) by (meson list.set_intros(2))
  note rest = conjunct1 [OF all] conjunct1 [OF conjunct2 [OF all]] conjunct2 [OF conjunct2 [OF all]]
  have "w' = w\<lparr>gn_tasks := gn_tasks w @ map (Pair (length (gn_keys w))) (t # ts)\<rparr>"
    by (simp add: rest(1) append_task_Inr(1) [OF w1(1)])
  with rest(2,3) append_task_Inr(2,3) [OF w1(1)] show ?case by (intro conjI) simp_all
qed simp

lemma pending_task_initial: "initial_row (pending_task h b c s)"
  by (simp add: initial_row_def pending_task_def Let_def)

lemma append_blueprint_Inr: "append_blueprint r w = Inr w' \<Longrightarrow> w' = w\<lparr>gn_blueprints := gn_blueprints w @ [r]\<rparr>"
  by (auto simp: append_blueprint_def Let_def split: if_splits)

lemma create_body_Inr:
  assumes "create_body e c g p request decision w = Inr (payload, w')" "gen_inv (ge_hash e) w"
  shows "gen_inv (ge_hash e) w' \<and> grown w w' \<and> gn_keys w' = gn_keys w \<and> gn_calls w' = gn_calls w"
proof -
  obtain b activation where decision: "decision = (b, activation)" by (rule prod.exhaust)
  define tasks where "tasks = map (pending_task (ge_hash e) b c) (gb_steps b)"
  obtain s m i r w1 w2 w3 where steps: "append_session s (append_audit e ''GENERATION_WORKFLOW_CREATED'' i m w) = Inr w1"
      "append_blueprint r w1 = Inr w2" "append_all append_task tasks w2 = Inr w3"
      "w' = append_event ''topic3.workflow.created'' payload w3" "latest_session w i = None" "se_generation_session_id s = i"
    using assms(1) unfolding create_body_def decision tasks_def
    by (auto simp: Let_def guard_def planned_session_def elim!: rbind_InrE split: if_splits)
  have chain: "verify_audit_chain (ge_hash e) (gn_audit w)" using assms(2) by (simp add: gen_inv_def)
  note aud = append_audit_records [OF chain, of "''GENERATION_WORKFLOW_CREATED''" i m]
  note w1 = append_session_Inr [OF steps(1)] and w2 = append_blueprint_Inr [OF steps(2)]
  have "legal_history (rows_of w2 j)" for j
    using assms(2) by (simp add: w2 w1 rows_of_def append_audit_fields gen_inv_def)
  from append_all_initial [OF steps(3) _ this]
  have w3: "w3 = w2\<lparr>gn_tasks := gn_tasks w2 @ map (Pair (length (gn_keys w2))) tasks\<rparr>"
    and legal: "\<And>j. legal_history (rows_of w3 j)" and bounds: "\<And>t. t \<in> set tasks \<Longrightarrow> 0 \<le> gt_attempt t \<and> gt_attempt t \<le> gt_max_attempts t"
    by (auto simp: tasks_def pending_task_initial)
  have tasks: "gn_tasks w' = gn_tasks w @ map (Pair (length (gn_keys w))) tasks" and keys: "gn_keys w' = gn_keys w"
    and calls: "gn_calls w' = gn_calls w" and cands: "gn_candidates w' = gn_candidates w"
    and auds: "gn_audit w' = gn_audit (append_audit e ''GENERATION_WORKFLOW_CREATED'' i m w)"
    and rows: "\<And>j. rows_of w' j = rows_of w3 j"
    by (simp_all add: steps(4) w3 w2 w1 append_event_def append_audit_fields rows_of_def)
  have "\<not> finished w i" "se_generation_session_id s = i" using steps(5,6) by (simp_all add: finished_iff)
  then have "latest_session w' j = latest_session w j" if "finished w j" for j
    using that by (intro appended_session_other [of _ _ s]) (auto simp: steps(4) w3 w2 w1 append_event_def append_audit_fields)
  then have grow: "grown w w'" using aud(2) by (auto simp: grown_def tasks cands auds)
  have "gen_inv (ge_hash e) w'"
  proof (rule gen_inv_extend [OF assms(2) grow tasks])
    show "legal_history (rows_of w j @ filter (\<lambda>t. gt_task_id t = j) tasks)" for j
      using legal [of j] rows [of j] by (simp add: rows_of_def tasks comp_def)
    show "row_ok w' t" if "t \<in> set tasks" for t
      using bounds [OF that] that by (auto simp: row_ok_def tasks_def pending_task_def Let_def)
    show "k \<in> fst ` set (gn_keys w) \<or> key_used w' k" if "k \<in> fst ` set (gn_keys w')" for k using that by (simp add: keys)
    show "x \<in> set (gn_calls w) \<or> call_safe w' x" if "x \<in> set (gn_calls w')" for x using that by (simp add: calls)
    show "verify_audit_chain (ge_hash e) (gn_audit w')" using aud(1) by (simp add: auds)
  qed
  with grow keys calls show ?thesis by simp
qed

lemma add_key:
  assumes "gen_inv h w" "plain_key key"
  shows "gen_inv h (w\<lparr>gn_keys := (key, v) # gn_keys w\<rparr>) \<and> grown w (w\<lparr>gn_keys := (key, v) # gn_keys w\<rparr>)"
proof -
  let ?w = "w\<lparr>gn_keys := (key, v) # gn_keys w\<rparr>"
  have grow: "grown w ?w" by (rule grownI [of _ _ "[]"]) simp_all
  have "gen_inv h ?w"
    by (rule gen_inv_extend [OF assms(1) grow, of 0 "[]"]) (use assms key_used_plain [OF assms(2)] in \<open>auto simp: gen_inv_def\<close>)
  with grow show ?thesis by simp
qed

lemma create_workflow_keeps:
  assumes "create_workflow e c g p pers decision key w = (r, w')" "gen_inv (ge_hash e) w"
  shows "gen_inv (ge_hash e) w' \<and> grown w w'"
proof -
  from assms(1) consider (same) "w' = w" | (mutated) request where
      "mutate e ''topic3.workflow.create'' (Client_key key) (DObj request) (create_body e c g p request decision) w = (r, w')"
    by (auto simp: create_workflow_def Let_def split: if_splits)
  then show ?thesis
  proof cases
    case same
    with assms(2) show ?thesis by (simp add: grown_refl)
  next
    case mutated
    then show ?thesis
    proof (cases rule: mutate_cases)
      case (known fs payload)
      with assms(2) show ?thesis by (simp add: gen_inv_faults grown_faults)
    next
      case (rejected fs err)
      with assms(2) show ?thesis by (simp add: gen_inv_faults grown_faults)
    next
      case (committed fs payload digest w1)
      have body: "gen_inv (ge_hash e) w1 \<and> grown (w\<lparr>gn_faults := fs\<rparr>) w1"
        using create_body_Inr [OF committed(2) gen_inv_faults [OF assms(2)]] by blast
      have "plain_key (Client_key key)" by (simp add: plain_key_def)
      from add_key [OF conjunct1 [OF body] this] body grown_faults committed(3) show ?thesis by (blast intro: grown_trans)
    qed
  qed
qed

lemma load_runtime_Inr:
  assumes "load_runtime e i w = Inr (s, b, tasks, candidates)"
  shows "valid_blueprint (ge_hash e) b" "tasks = latest_tasks w (gb_blueprint_id b) (gb_blueprint_version b)"
    "candidates = list_candidates w (gb_blueprint_id b) (gb_blueprint_version b)" "latest_session w i = Some s"
proof -
  have "valid_blueprint (ge_hash e) b \<and> tasks = latest_tasks w (gb_blueprint_id b) (gb_blueprint_version b)
    \<and> candidates = list_candidates w (gb_blueprint_id b) (gb_blueprint_version b) \<and> latest_session w i = Some s"
    using assms by (auto simp: load_runtime_def rbind_Inr_iff get_blueprint_def find_Some_iff split: option.splits doc.splits if_splits)
  then show "valid_blueprint (ge_hash e) b" "tasks = latest_tasks w (gb_blueprint_id b) (gb_blueprint_version b)"
    "candidates = list_candidates w (gb_blueprint_id b) (gb_blueprint_version b)" "latest_session w i = Some s" by blast+
qed

text \<open>The ways in which an execution can end.\<close>

lemma execute_workflow_cases:
  assumes "execute_workflow e i w = Some (r, w')" "start_workflow e i w = (q, w1)"
  obtains (started) "w' = w1" "\<And>x. r = Inr x \<Longrightarrow> \<exists>s b ts cs. load_runtime e i w1 = Inr (s, b, ts, cs) \<and> session_over (se_state s)
      \<and> result_from_runtime (se_session_version s) (se_state s) b ts cs = Inr x"
    | (ran) s b ts cs q' err where "load_runtime e i w1 = Inr (s, b, ts, cs)"
        "execute_dag e b ts (candidate_map_of cs) w1 = Some (q', w')" "r = Inl err"
    | (finalized) s b ts cs w2 s' b' ts' cs' where
        "load_runtime e i w1 = Inr (s, b, ts, cs)" "\<not> session_over (se_state s)"
        "execute_dag e b ts (candidate_map_of cs) w1 = Some (Inr (), w2)"
        "load_runtime e i w2 = Inr (s', b', ts', cs')" "finalize_workflow e i b ts' cs' w2 = (r, w')"
proof (cases q)
  case (Inl err)
  with assms show ?thesis by (intro started) (auto simp: execute_workflow_def)
next
  case (Inr s0)
  show ?thesis
  proof (cases "load_runtime e i w1")
    case (Inl err)
    with assms Inr show ?thesis by (intro started) (auto simp: execute_workflow_def)
  next
    case load: (Inr x)
    obtain s b ts cs where x: "x = (s, b, ts, cs)" by (rule prod_cases4)
    let ?graph = "ge_graph_sha256 e (gb_topic1_graph_snapshot_id b)"
    show ?thesis
    proof (cases "session_over (se_state s) \<or> ?graph \<noteq> Some (gb_topic1_graph_sha256 b)")
      case True
      with assms Inr load x show ?thesis
        by (intro started) (auto simp: execute_workflow_def split: if_splits option.splits)
    next
      case False
      then have over: "\<not> session_over (se_state s)" and graph: "?graph = Some (gb_topic1_graph_sha256 b)" by simp_all
      obtain q' w2 where dag: "execute_dag e b ts (candidate_map_of cs) w1 = Some (q', w2)"
        using assms(1) by (cases "execute_dag e b ts (candidate_map_of cs) w1")
          (auto simp: execute_workflow_def assms(2) Inr load x over graph)
      show ?thesis
      proof (cases "q' = Inr () \<and> \<not> isl (load_runtime e i w2)")
        case True
        then obtain s' b' ts' cs' where "load_runtime e i w2 = Inr (s', b', ts', cs')"
          by (cases "load_runtime e i w2") auto
        with True assms(1) dag over show ?thesis
          by (intro finalized [OF load [unfolded x], of w2 s' b' ts' cs']) (simp_all add: execute_workflow_def assms(2) Inr load x graph)
      next
        case False
        with assms(1) dag over have "w' = w2 \<and> (\<exists>err. r = Inl err)"
          by (cases q'; cases "load_runtime e i w2") (auto simp: execute_workflow_def assms(2) Inr load x graph)
        with dag show ?thesis by (auto intro: ran [OF load [unfolded x]])
      qed
    qed
  qed
qed

lemma candidate_map_ok: "candidates_ok w (candidate_map_of (list_candidates w b v))"
  by (auto simp: candidates_ok_def candidate_map_of_def list_candidates_def)

lemma execution_moves:
  assumes "load_runtime e i w = Inr (s, b, ts, cs)" "execute_dag e b ts (candidate_map_of cs) w = Some (r, w')" "gen_inv (ge_hash e) w"
  shows "moved (ge_hash e) w (gt_task_id ` set ts) w' \<and> (r = Inr () \<longrightarrow> (\<forall>i\<in>gt_task_id ` set ts. settled_id w' i))"
proof (rule execute_dag_moves [OF assms(2) _ assms(3)])
  note load = load_runtime_Inr [OF assms(1)]
  from load(1) show "1 \<le> gb_max_parallelism b" by (simp add: valid_blueprint_def)
  show "memory_ok w ts" unfolding load(2) by (rule latest_tasks_memory [OF assms(3)])
  show "candidates_ok w (candidate_map_of cs)" unfolding load(3) by (rule candidate_map_ok)
qed

lemma execute_workflow_keeps:
  assumes "execute_workflow e i w = Some (r, w')" "gen_inv (ge_hash e) w"
  shows "gen_inv (ge_hash e) w' \<and> grown w w'"
proof -
  obtain q w1 where start: "start_workflow e i w = (q, w1)" by (rule prod.exhaust)
  from start_workflow_keeps [OF this assms(2)] have w1: "gen_inv (ge_hash e) w1" "grown w w1" by blast+
  have dag: "gen_inv (ge_hash e) w2 \<and> grown w w2"
    if "load_runtime e i w1 = Inr (s, b, ts, cs)" "execute_dag e b ts (candidate_map_of cs) w1 = Some (q', w2)" for s b ts cs q' w2
    using execution_moves [OF that w1(1)] grown_trans [OF w1(2)] by (auto simp: moved_def)
  from assms(1) start show ?thesis
  proof (cases rule: execute_workflow_cases)
    case started
    with w1 show ?thesis by simp
  next
    case (ran s b ts cs q' err)
    from dag [OF ran(1,2)] show ?thesis .
  next
    case (finalized s b ts cs w2 s' b' ts' cs')
    from dag [OF finalized(1,3)] have w2: "gen_inv (ge_hash e) w2" "grown w w2" by blast+
    from finalize_workflow_keeps [OF finalized(5) w2(1)] grown_trans [OF w2(2)] show ?thesis by blast
  qed
qed

subsection \<open>Reachable states\<close>

inductive gen_reachable :: "hash_env \<Rightarrow> generation_world \<Rightarrow> bool" for h where
  gen_start: "gen_reachable h (empty_world faults)"
| gen_create: "gen_reachable h w \<Longrightarrow> ge_hash e = h \<Longrightarrow> create_workflow e c g p pers decision key w = (r, w') \<Longrightarrow> gen_reachable h w'"
| gen_execute: "gen_reachable h w \<Longrightarrow> ge_hash e = h \<Longrightarrow> execute_workflow e i w = Some (x, w') \<Longrightarrow> gen_reachable h w'"

lemma gen_reachable_inv: "gen_reachable h w \<Longrightarrow> gen_inv h w"
proof (induction rule: gen_reachable.induct)
  case (gen_start faults)
  show ?case by (rule gen_inv_empty)
next
  case (gen_create w e c g p pers decision key r w')
  then show ?case using create_workflow_keeps by metis
next
  case (gen_execute w e i x w')
  then show ?case using execute_workflow_keeps by metis
qed

lemma legal_history_prefix: "legal_history (xs @ ys) \<Longrightarrow> legal_history xs"
  by (auto simp: legal_history_def successively_append_iff)

text \<open>The attempt of a row counts the starts so far.\<close>

lemma attempts_started:
  "legal_history ts \<Longrightarrow> ts \<noteq> [] \<Longrightarrow> gt_attempt (last ts) = int (length (filter (\<lambda>t. gt_state t = TS_RUNNING) ts))"
proof (induction ts rule: rev_induct)
  case (snoc t ts)
  then show ?case by (cases "ts = []") (auto simp: legal_history_snoc initial_row_def legal_successor_def)
qed simp

lemma running_attempt:
  assumes "legal_history ts" "t \<in> set ts" "gt_state t = TS_RUNNING"
  shows "1 \<le> gt_attempt t"
proof -
  from assms(2) obtain xs ys where "ts = (xs @ [t]) @ ys" by (auto dest: split_list)
  with assms(1) have "legal_history (xs @ [t])" using legal_history_prefix by blast
  from attempts_started [OF this] assms(3) show ?thesis by simp
qed

lemma never_cancelled: "legal_history ts \<Longrightarrow> t \<in> set ts \<Longrightarrow> gt_state t \<noteq> TS_CANCELLED"
proof (induction ts rule: rev_induct)
  case (snoc u ts)
  then show ?case by (cases "ts = []") (auto simp: legal_history_snoc initial_row_def legal_successor_def)
qed simp

text \<open>
  C12.  The life of a task.  After any creations and executions of workflows, whatever the agents answer and whichever transactions
  fail, the rows of a task are a legal history: versions without gap from a pending row, each row a legal successor of the one before, at
  most as many starts as the budget allows, nothing after a success, a skip or a final failure; a success has its stored candidate, every
  later row is recorded in the audit trail, and the chain of the trail is unbroken.
\<close>

theorem workflow_history:
  assumes "gen_reachable h w"
  shows "legal_history (rows_of w i)
    \<and> (rows_of w i \<noteq> [] \<longrightarrow> int (length (filter (\<lambda>t. gt_state t = TS_RUNNING) (rows_of w i))) \<le> gt_max_attempts (last (rows_of w i)))
    \<and> (\<forall>xs t ys. rows_of w i = xs @ t # ys \<longrightarrow> \<not> actionable t \<longrightarrow> ys = [])
    \<and> (\<forall>t\<in>set (rows_of w i). (gt_state t = TS_SUCCEEDED \<longrightarrow> (\<exists>c. accepted w t c)) \<and> (gt_task_version t \<noteq> 1 \<longrightarrow> audited w t))
    \<and> verify_audit_chain h (gn_audit w)"
proof -
  from gen_reachable_inv [OF assms] have inv: "gen_inv h w" .
  then have hist: "legal_history (rows_of w i)" and rows: "\<And>t. t \<in> set (rows_of w i) \<Longrightarrow> row_ok w t" and "verify_audit_chain h (gn_audit w)"
    by (auto simp: gen_inv_def in_rows_of)
  moreover have "int (length (filter (\<lambda>t. gt_state t = TS_RUNNING) (rows_of w i))) \<le> gt_max_attempts (last (rows_of w i))" if "rows_of w i \<noteq> []"
    using attempts_started [OF hist that] rows [OF last_in_set [OF that]] by (simp add: row_ok_def)
  moreover have "\<forall>xs t ys. rows_of w i = xs @ t # ys \<longrightarrow> \<not> actionable t \<longrightarrow> ys = []" using hist legal_history_final by metis
  ultimately show ?thesis unfolding row_ok_def by blast
qed

text \<open>
  C11.  Agents see accepted work only.  Every call of an agent, in any execution and after any failures, belongs to a started attempt
  of its task within the budget, and is given one candidate for each dependency, in order: the stored candidate that the dependency
  succeeded with, and a success is never taken back.
\<close>

theorem agents_run_on_accepted:
  assumes "gen_reachable h w" "(i, attempt, deps) \<in> set (gn_calls w)"
  shows "\<exists>t\<in>set (rows_of w i). gt_state t = TS_RUNNING \<and> gt_attempt t = attempt \<and> 1 \<le> attempt \<and> attempt \<le> gt_max_attempts t
    \<and> list_all2 (\<lambda>d c. \<exists>s. current w s \<and> gt_task_id s = d \<and> accepted w s c) (gt_dependency_task_ids t) deps"
proof -
  from gen_reachable_inv [OF assms(1)] have inv: "gen_inv h w" .
  with assms(2) have "call_safe w (i, attempt, deps)" unfolding gen_inv_def by blast
  then obtain t where t: "t \<in> set (rows_of w i)" "gt_state t = TS_RUNNING" "gt_attempt t = attempt"
    and deps: "list_all2 (\<lambda>d c. \<exists>s\<in>set (rows_of w d). accepted w s c) (gt_dependency_task_ids t) deps" by (auto simp: call_safe_def)
  have "\<exists>s. current w s \<and> gt_task_id s = d \<and> accepted w s c" if "s \<in> set (rows_of w d)" "accepted w s c" for s d c
  proof (intro exI conjI)
    from that(1) obtain xs ys where rows: "rows_of w d = xs @ s # ys" by (auto dest: split_list)
    have "\<not> actionable s" using that(2) by (simp add: accepted_def actionable_def)
    moreover have "legal_history (xs @ s # ys)" using inv by (simp add: gen_inv_def flip: rows)
    ultimately have "ys = []" by (rule legal_history_final [rotated])
    moreover show "gt_task_id s = d" using that(1) by (simp add: in_rows_of)
    ultimately show "current w s" by (simp add: current_def rows)
  qed (rule that(2))
  with deps have "list_all2 (\<lambda>d c. \<exists>s. current w s \<and> gt_task_id s = d \<and> accepted w s c) (gt_dependency_task_ids t) deps"
    by (auto elim!: list_all2_mono)
  moreover have "1 \<le> attempt" using running_attempt [OF _ t(1,2)] inv t(3) by (simp add: gen_inv_def)
  moreover have "row_ok w t" using inv t(1) by (auto simp: gen_inv_def in_rows_of)
  then have "attempt \<le> gt_max_attempts t" using t(3) by (simp add: row_ok_def)
  ultimately show ?thesis using t by blast
qed

subsection \<open>The result of an execution\<close>

lemma start_not_finishes:
  assumes "start_workflow e i w = (q, w')"
  shows "finished w' i \<longleftrightarrow> finished w i"
proof -
  obtain q' where "mutate e ''topic3.workflow.start'' (Session_start_key i) (DObj [(''generation_session_id'', DStr i)]) (start_body e i) w
      = (q', w')" using assms by (auto simp: start_workflow_def split: sum.splits prod.splits)
  then show ?thesis
  proof (cases rule: mutate_cases)
    case (known fs payload)
    then show ?thesis by (intro finished_cong latest_session_cong) simp
  next
    case (rejected fs err)
    then show ?thesis by (intro finished_cong latest_session_cong) simp
  next
    case (committed fs payload digest w1)
    let ?w = "w\<lparr>gn_faults := fs\<rparr>"
    have eqs: "finished w' i = finished w1 i" "finished ?w i = finished w i"
      by (intro finished_cong latest_session_cong, simp add: committed(3))+
    obtain c where c: "latest_session ?w i = Some c"
      using committed(2) by (cases "latest_session ?w i") (simp_all add: start_body_def)
    have "finished w1 i = finished ?w i"
    proof (cases "se_state c = SS_PLANNED")
      case False
      with committed(2) c show ?thesis by (simp add: start_body_def)
    next
      case True
      then have planned: "\<not> (se_state c \<noteq> SS_PLANNED)" by simp
      from committed(2) [unfolded start_body_def c option.case Let_def if_not_P [OF planned]] obtain s a m n w2 where
          s: "append_session s (append_audit e a i m ?w) = Inr w2" "w1 = append_event ''topic3.workflow.started'' n w2"
          "se_generation_session_id s = se_generation_session_id c" "se_session_version s = se_session_version c + 1" "se_state s = SS_RUNNING"
        by (auto elim!: rbind_InrE)
      have "gn_sessions w1 = gn_sessions ?w @ [s]" by (simp add: s(2) append_event_def append_session_Inr [OF s(1)] append_audit_fields)
      from appended_session_latest [OF this c] s(3-5) latest_session_id [OF c] have "latest_session w1 i = Some s" by simp
      then show ?thesis using s(5) c True by (simp add: finished_iff session_over_def)
    qed
    with eqs show ?thesis by simp
  qed
qed

lemma load_runtime_cong:
  assumes "gn_sessions w' = gn_sessions w" "gn_blueprints w' = gn_blueprints w"
    and "load_runtime e i w = Inr (s, b, ts, cs)" "load_runtime e i w' = Inr (s', b', ts', cs')"
  shows "b' = b"
proof -
  have "get_session w' i 1 = get_session w i 1" by (simp add: get_session_def session_rows_def assms(1))
  moreover have "get_blueprint (ge_hash e) w' k v = get_blueprint (ge_hash e) w k v" for k v by (simp add: get_blueprint_def assms(2))
  ultimately show ?thesis using assms(3,4) latest_session_cong [OF assms(1)]
    by (auto simp: load_runtime_def rbind_Inr_iff split: option.splits doc.splits)
qed

text \<open>A finalization that returns has written the final state.\<close>

lemma finalize_workflow_Inr:
  assumes "finalize_workflow e i b ts cs w = (Inr x, w')" "gen_inv (ge_hash e) w" "\<not> finished w i"
  shows "list_all (\<lambda>t. gt_state t \<notin> {TS_PENDING, TS_RUNNING}) ts \<and> rz_tasks x = ts \<and> rz_blueprint x = b
    \<and> rz_state x = final_state b ts \<and> (\<exists>s. latest_session w' i = Some s \<and> session_over (se_state s)
       \<and> rz_state x = se_state s \<and> rz_session_version x = se_session_version s)"
proof -
  obtain d p where m: "mutate e ''topic3.workflow.finalize'' (Session_finalize_key i) d (finalize_body e i b ts cs) w = (Inr p, w')"
    and active: "\<not> list_ex (\<lambda>t. gt_state t \<in> {TS_PENDING, TS_RUNNING}) ts"
    and x: "rz_tasks x = ts" "rz_blueprint x = b" "rz_state x = final_state b ts"
      "map_of p ''session_version'' = Some (DInt (rz_session_version x))"
    using assms(1) by (auto simp: finalize_workflow_def Let_def split: sum.splits prod.splits if_splits option.splits doc.splits)
  have settled: "list_all (\<lambda>t. gt_state t \<notin> {TS_PENDING, TS_RUNNING}) ts" using active by (auto simp: list_ex_iff list_all_iff)
  from m have "\<exists>s. latest_session w' i = Some s \<and> session_over (se_state s) \<and> rz_state x = se_state s
    \<and> rz_session_version x = se_session_version s"
  proof (cases rule: mutate_cases)
    case (known fs payload)
    then have "Session_finalize_key i \<in> fst ` set (gn_keys w)" by (force dest: map_of_SomeD)
    then have "key_used w (Session_finalize_key i)" using assms(2) unfolding gen_inv_def by blast
    with assms(3) show ?thesis by (simp add: key_used_def)
  next
    case (rejected fs err)
    then show ?thesis by simp
  next
    case (committed fs payload digest w1)
    have latest: "latest_session w' i = latest_session w1 i" "latest_session (w\<lparr>gn_faults := fs\<rparr>) i = latest_session w i"
      by (rule latest_session_cong, simp add: committed(3))+
    have "\<not> finished (w\<lparr>gn_faults := fs\<rparr>) i" using assms(3) finished_cong [OF latest(2)] by simp
    with finalize_body_latest [OF committed(2)] committed(4) x(3,4) show ?thesis by (auto simp: latest(1))
  qed
  with settled x show ?thesis by blast
qed

text \<open>
  C14.  What an execution that returns has achieved.  The result is the final state of the session: if the session was over before,
  nothing has moved and no agent was called; otherwise every task of the blueprint is settled, as succeeded, failed or skipped, and the
  state follows from them: complete when all succeeded, partial when some did and the blueprint allows it, failed otherwise.
\<close>

theorem execution_result:
  assumes "gen_reachable h w" "ge_hash e = h" "execute_workflow e i w = Some (Inr x, w')"
  shows "\<exists>s. latest_session w' i = Some s \<and> session_over (se_state s) \<and> rz_state x = se_state s \<and> rz_session_version x = se_session_version s
    \<and> rz_tasks x = latest_tasks w' (gb_blueprint_id (rz_blueprint x)) (gb_blueprint_version (rz_blueprint x))
    \<and> (if finished w i then gn_tasks w' = gn_tasks w \<and> gn_calls w' = gn_calls w \<and> latest_session w i = Some s
       else list_all (\<lambda>t. current w' t \<and> gt_state t \<in> {TS_SUCCEEDED, TS_FAILED, TS_SKIPPED}) (rz_tasks x)
         \<and> rz_state x = final_state (rz_blueprint x) (rz_tasks x))"
proof -
  obtain q w1 where start: "start_workflow e i w = (q, w1)" by (rule prod.exhaust)
  have inv: "gen_inv (ge_hash e) w" using gen_reachable_inv [OF assms(1)] assms(2) by simp
  note kept = start_workflow_keeps [OF start inv]
  then have w1: "gen_inv (ge_hash e) w1" by blast
  from assms(3) start show ?thesis
  proof (cases rule: execute_workflow_cases)
    case started
    from started(2) [OF refl] obtain s b ts cs where s: "load_runtime e i w1 = Inr (s, b, ts, cs)" "session_over (se_state s)"
        "result_from_runtime (se_session_version s) (se_state s) b ts cs = Inr x" by blast
    note load = load_runtime_Inr [OF s(1)]
    have x: "rz_tasks x = ts" "rz_state x = se_state s" "rz_session_version x = se_session_version s" "rz_blueprint x = b"
      using s(3) by (auto simp: result_from_runtime_def Let_def split: if_splits)
    have "finished w1 i" using load(4) s(2) by (auto simp: finished_iff)
    then have fin: "finished w i" using start_not_finishes [OF start] by simp
    then have "latest_session w i = Some s" using grown_finished(1) [OF _ fin, of w1] kept load(4) by simp
    with fin s(2) load x kept started(1) show ?thesis by auto
  next
    case (ran s b ts cs q' err)
    then show ?thesis by simp
  next
    case (finalized s b ts cs w2 s' b' ts' cs')
    note load = load_runtime_Inr [OF finalized(1)] and load' = load_runtime_Inr [OF finalized(4)]
    have "\<not> finished w1 i" using load(4) finalized(2) by (simp add: finished_iff)
    then have unfin: "\<not> finished w i" using start_not_finishes [OF start] by simp
    have moved: "moved (ge_hash e) w1 (gt_task_id ` set ts) w2" using execution_moves [OF finalized(1,3) w1] by blast
    then have w2: "gen_inv (ge_hash e) w2" and sess: "gn_sessions w2 = gn_sessions w1" and bps: "gn_blueprints w2 = gn_blueprints w1"
      by (simp_all add: moved_def)
    have same: "b' = b" by (rule load_runtime_cong [OF sess bps finalized(1,4)])
    have "\<not> finished w2 i" using \<open>\<not> finished w1 i\<close> finished_cong [OF latest_session_cong [OF sess]] by simp
    note fin = finalize_workflow_Inr [OF finalized(5) w2 this]
    note kept2 = finalize_workflow_keeps [OF finalized(5) w2]
    have tasks: "latest_tasks w' k v = latest_tasks w2 k v" for k v using kept2 by (simp add: latest_tasks_def blueprint_rows_def)
    have rows: "rows_of w' j = rows_of w2 j" for j using kept2 by (simp add: rows_of_def)
    have "current w' t \<and> gt_state t \<in> {TS_SUCCEEDED, TS_FAILED, TS_SKIPPED}" if t: "t \<in> set ts'" for t
    proof -
      have "current w2 t" using latest_tasks_memory [OF w2, of "gb_blueprint_id b'" "gb_blueprint_version b'"] t
        by (simp add: memory_except_def load'(2))
      moreover have "gt_state t \<noteq> TS_CANCELLED" using never_cancelled [OF _ current_row [OF calculation]] w2 by (simp add: gen_inv_def)
      moreover have "gt_state t \<notin> {TS_PENDING, TS_RUNNING}" using fin t by (auto simp: list_all_iff)
      ultimately show ?thesis by (cases "gt_state t") (simp_all add: current_def rows)
    qed
    then have "list_all (\<lambda>t. current w' t \<and> gt_state t \<in> {TS_SUCCEEDED, TS_FAILED, TS_SKIPPED}) ts'" by (simp add: list_all_iff)
    with fin unfin load'(2) show ?thesis unfolding tasks same by auto
  qed
qed

subsection \<open>A resumed execution skips too early\<close>

text \<open>What is final in the table stays the newest row.\<close>

lemma final_stays:
  assumes "gen_inv h w'" "grown w w'" "current w t" "\<not> actionable t"
  shows "current w' t"
proof -
  from grown_rows [OF assms(2)] obtain new where new: "rows_of w' (gt_task_id t) = rows_of w (gt_task_id t) @ new" by blast
  have "rows_of w (gt_task_id t) = butlast (rows_of w (gt_task_id t)) @ [t]" using assms(3) by (metis append_butlast_last_id current_def)
  then have rows: "rows_of w' (gt_task_id t) = butlast (rows_of w (gt_task_id t)) @ t # new" using new by simp
  have "legal_history (rows_of w' (gt_task_id t))" using assms(1) by (simp add: gen_inv_def)
  from legal_history_final [OF this [unfolded rows] assms(4)] rows show ?thesis by (simp add: current_def)
qed

lemma find_put_task: "find_task (put_task s tasks) i = (if i = gt_task_id s \<and> i \<in> gt_task_id ` set tasks then Some s else find_task tasks i)"
  by (induction tasks) (auto simp: find_task_def put_task_def)

lemma skip_blocked_skips:
  assumes "skip_blocked e ts tasks w = (Inr tasks', w')"
    and "gen_inv (ge_hash e) w" "memory_ok w tasks" "distinct (map gt_task_id ts)" "\<forall>t\<in>set ts. current w t \<and> actionable t"
    and "d \<in> set ts" "i \<in> set (gt_dependency_task_ids d)" "\<exists>t. find_task tasks i = Some t \<and> blocking (gt_state t)"
  shows "\<exists>s. current w' s \<and> gt_task_id s = gt_task_id d \<and> gt_state s = TS_SKIPPED"
  using assms
proof (induction ts arbitrary: w tasks)
  case (Cons t ts)
  have ids: "gt_task_id s \<noteq> gt_task_id t" if "s \<in> set ts" for s by (rule other_id [OF Cons.prems(4) that])
  obtain ds where ds: "those (map (find_task tasks) (gt_dependency_task_ids t)) = Some ds"
    using Cons.prems(1) by (cases "those (map (find_task tasks) (gt_dependency_task_ids t))") simp_all
  show ?case
  proof (cases "list_ex (\<lambda>d. blocking (gt_state d)) ds")
    case True
    obtain q w1 where sk: "skip_task e upstream_reason t w = (q, w1)" by (rule prod.exhaust)
    with Cons.prems(1) ds True obtain s where q: "q = Inr s" and rest: "skip_blocked e ts (put_task s tasks) w1 = (Inr tasks', w')"
      by (cases q) simp_all
    have t: "current w t" "actionable t" using Cons.prems(5) by simp_all
    note moves = skip_task_moves [OF Cons.prems(2) t sk]
    have s: "current w1 s" "gt_task_id s = gt_task_id t" "gt_state s = TS_SKIPPED"
      using moves(3) [OF q] skip_task_Inr [OF sk [unfolded q]] by blast+
    have w1: "gen_inv (ge_hash e) w1" using moves(1) by (simp add: moved_def)
    have mem: "memory_ok w1 (put_task s tasks)" using moved_memory [OF moves(1) Cons.prems(3)] s by (intro put_task_memory) simp_all
    have dist: "distinct (map gt_task_id ts)" using Cons.prems(4) by simp
    have curs: "\<forall>u\<in>set ts. current w1 u \<and> actionable u" using Cons.prems(5) moved_current [OF moves(1)] ids by simp
    show ?thesis
    proof (cases "d = t")
      case True
      have "moved (ge_hash e) w1 (gt_task_id ` set ts) w'" using skip_blocked_moves [OF rest w1 mem dist curs] by blast
      moreover have "gt_task_id s \<notin> gt_task_id ` set ts" using Cons.prems(4) s(2) by simp
      ultimately have "current w' s" using moved_current s(1) by blast
      with True s show ?thesis by blast
    next
      case False
      with Cons.prems(6) have d: "d \<in> set ts" by simp
      have "\<exists>t. find_task (put_task s tasks) i = Some t \<and> blocking (gt_state t)"
        using Cons.prems(8) s(3) by (simp add: find_put_task blocking_def)
      from Cons.IH [OF rest w1 mem dist curs d Cons.prems(7) this] show ?thesis .
    qed
  next
    case False
    with Cons.prems(1) ds have rest: "skip_blocked e ts tasks w = (Inr tasks', w')" by simp
    have "d \<noteq> t"
    proof
      assume "d = t"
      obtain n where n: "n < length (gt_dependency_task_ids t)" "gt_dependency_task_ids t ! n = i"
        using Cons.prems(7) \<open>d = t\<close> by (auto simp: in_set_conv_nth)
      from list_all2_nthD [OF ds [unfolded those_map] n(1)] n(2) have "find_task tasks i = Some (ds ! n)" by simp
      moreover have "n < length ds" using ds n(1) by (simp add: those_map list_all2_lengthD)
      then have "ds ! n \<in> set ds" by simp
      ultimately show False using False Cons.prems(8) by (auto simp: list_ex_iff)
    qed
    with Cons.prems(6) have d: "d \<in> set ts" by simp
    have dist: "distinct (map gt_task_id ts)" and curs: "\<forall>u\<in>set ts. current w u \<and> actionable u" using Cons.prems(4,5) by simp_all
    from Cons.IH [OF rest Cons.prems(2,3) dist curs d Cons.prems(7,8)] show ?thesis .
  qed
qed simp

text \<open>
  C15.  Resuming skips too early.  When an execution begins while a dependency of an unfinished task is failed, it skips the task before it
  runs anything: also when the failure was retriable with attempts left, so that the same execution then runs the
  dependency again.  A skip is final, so an interruption between a failure and its retry costs every task downstream, which an
  execution without interruption would have run.
\<close>

theorem resumed_execution_skips:
  assumes "gen_reachable h w" "ge_hash e = h" "load_runtime e i w = Inr (s, b, tasks, cs)"
    and "execute_dag e b tasks (candidate_map_of cs) w = Some (Inr (), w')"
    and "t \<in> set tasks" "gt_state t = TS_FAILED" "d \<in> set tasks" "actionable d" "gt_task_id t \<in> set (gt_dependency_task_ids d)"
  shows "\<exists>d'. current w' d' \<and> gt_task_id d' = gt_task_id d \<and> gt_state d' = TS_SKIPPED"
proof -
  have inv: "gen_inv (ge_hash e) w" using gen_reachable_inv [OF assms(1)] assms(2) by simp
  note load = load_runtime_Inr [OF assms(3)]
  have mem: "memory_ok w tasks" unfolding load(2) by (rule latest_tasks_memory [OF inv])
  have cs: "candidates_ok w (candidate_map_of cs)" unfolding load(3) by (rule candidate_map_ok)
  have par: "1 \<le> gb_max_parallelism b" using load(1) by (simp add: valid_blueprint_def)
  from mem have dist: "distinct (map gt_task_id tasks)" and cur: "\<And>t. t \<in> set tasks \<Longrightarrow> current w t" by (simp_all add: memory_except_def)
  let ?todo = "filter actionable tasks"
  obtain q w2 where round: "dag_round e b tasks (candidate_map_of cs) w = (q, w2)" by (rule prod.exhaust)
  note moves = dag_round_moves [OF round inv mem cs]
  have todo: "?todo \<noteq> []" using assms(7,8) by (auto simp: filter_empty_conv)
  obtain p w1 where skip: "skip_blocked e ?todo tasks w = (p, w1)" by (rule prod.exhaust)
  have "\<not> isl q" using assms(4) unfolding execute_dag.simps [of e b tasks] round by (cases q) auto
  then obtain tasks1 where p: "p = Inr tasks1" using round todo skip by (cases p) (auto simp: dag_round_def)
  have "find_task tasks (gt_task_id t) = Some t" by (rule find_task_present [OF dist assms(5)])
  then have "\<exists>u. find_task tasks (gt_task_id t) = Some u \<and> blocking (gt_state u)" using assms(6) by (simp add: blocking_def)
  from skip_blocked_skips [OF skip [unfolded p] inv mem distinct_map_filter [OF dist] _ _ assms(9) this] assms(7,8) cur
  obtain d' where d': "current w1 d'" "gt_task_id d' = gt_task_id d" "gt_state d' = TS_SKIPPED" by auto
  have "grown w1 w2" using moves skip p by blast
  moreover have "grown w2 w'"
  proof (cases "\<exists>tasks' cs'. q = Inr (Dag_more tasks' cs')")
    case True
    then obtain tasks' cs' where q: "q = Inr (Dag_more tasks' cs')" by blast
    from moves q have m: "memory_ok w2 tasks'" "candidates_ok w2 cs'" and w2: "gen_inv (ge_hash e) w2" by (auto simp: moved_def)
    have "execute_dag e b tasks' cs' w2 = Some (Inr (), w')" using assms(4) unfolding execute_dag.simps [of e b tasks] round by (simp add: q)
    from execute_dag_moves [OF this par w2 m] show ?thesis by (simp add: moved_def)
  next
    case False
    then have "w' = w2" using assms(4) unfolding execute_dag.simps [of e b tasks] round by (auto split: sum.splits dag_progress.splits)
    then show ?thesis by (simp add: grown_refl)
  qed
  ultimately have "grown w1 w'" by (rule grown_trans)
  moreover have "gen_inv (ge_hash e) w'" using execution_moves [OF assms(3,4) inv] by (simp add: moved_def)
  ultimately have "current w' d'" using final_stays d'(1,3) by (metis actionable_skipped)
  with d' show ?thesis by blast
qed

end
