(* ===== verification/GenerationSamples.thy ===== *)
theory GenerationSamples
  imports GenerationHistory
begin

text \<open>
  A concrete workflow: a lecturer and a tester that depends on it.  It is executed without failures, and with a
  failing transaction between a failure of the lecturer and the retry.
\<close>

definition sample_step :: "uuid \<Rightarrow> int \<Rightarrow> source_agent \<Rightarrow> resource_type \<Rightarrow> uuid list \<Rightarrow> blueprint_step" where
  "sample_step i n a r deps = \<lparr>gp_task_id = i, gp_ordinal = n, gp_agent = a, gp_resource_type = r, gp_dependency_task_ids = deps,
     gp_provider_alias = PA_local, gp_prompt_bundle_version = ''1'', gp_timeout_seconds = 10, gp_max_attempts = 2,
     gp_activation_reasons = [''r'']\<rparr>"

definition sample_blueprint :: blueprint where
  "sample_blueprint = \<lparr>gb_blueprint_id = ''b'', gb_blueprint_version = ''1'', gb_generation_session_id = ''session'',
     gb_generation_session_version = 1, gb_topic1_graph_snapshot_id = ''g'', gb_topic1_graph_version = 1,
     gb_topic1_graph_sha256 = replicate 64 (CHR ''a''), gb_topic2_profile_id = ''p'', gb_topic2_profile_version = 1,
     gb_topic2_path_snapshot_id = ''q'', gb_topic2_path_version = 1, gb_personalization_policy_digest = replicate 64 (CHR ''a''),
     gb_target_kp_ids = [''k''], gb_max_parallelism = 1, gb_allow_partial = False, gb_activation_policy_version = ''1'',
     gb_steps = [sample_step ''l'' 0 SA_LECTURER RT_LECTURER_DOC [], sample_step ''t'' 1 SA_TESTER RT_GRADIENT_QUIZ [''l'']],
     gb_blueprint_sha256 = replicate 64 (CHR ''a''), gb_created_at = 0\<rparr>"

definition sample_generated :: "uuid \<Rightarrow> candidate" where
  "sample_generated i =
     \<lparr>ca_candidate_id = i, ca_candidate_version = 1, ca_parent_candidate_version = None, ca_blueprint_id = ''b'',
      ca_blueprint_version = ''1'', ca_blueprint_sha256 = replicate 64 (CHR ''a''), ca_resource_type = RT_LECTURER_DOC,
      ca_status = CS_COMPLETE, ca_blocks = [],
      ca_provenance = \<lparr>pv_agent = SA_LECTURER, pv_agent_build_version = ''1'', pv_prompt_bundle_version = ''1'',
        pv_provider_alias = PA_local, pv_provider_request_ids = []\<rparr>,
      ca_personalization_policy_digest = replicate 64 (CHR ''a''), ca_candidate_sha256 = replicate 64 (CHR ''a''), ca_created_at = 0\<rparr>"

text \<open>The lecturer times out in its first attempt, or not; otherwise every call gives a candidate.\<close>

definition sample_worker :: "bool \<Rightarrow> generation_env" where
  "sample_worker slow =
     \<lparr>ge_hash = sample_plan_env, ge_tenant = ''t'', ge_subject = ''learner'', ge_scopes = [''topic3:admin''], ge_trace = ''t'',
      ge_agent = (\<lambda>i attempt deps. if slow \<and> i = ''l'' \<and> attempt = 1 then Agent_timeout
        else Agent_candidate (sample_generated i) True),
      ge_chunks = (\<lambda>c. [\<lparr>sk_stream_id = ca_candidate_id c, sk_fragment_id = ca_candidate_id c, sk_data_sha256 = [], sk_document = DNull\<rparr>]),
      ge_safe_message = (\<lambda>_. ''m''), ge_graph_sha256 = (\<lambda>_. Some (replicate 64 (CHR ''a''))), ge_clock = (\<lambda>_ v. v),
      ge_started_at = 0, ge_completed_at = 9, ge_audit_id = (\<lambda>_. ''e''), ge_audit_clock = int, ge_other_audits = (\<lambda>_. [])\<rparr>"

definition created_world :: "fault list \<Rightarrow> generation_world" where
  "created_world faults = snd (create_workflow (sample_worker False) sample_command planned_graph planned_context DNull
     (sample_blueprint, DNull) ''0123456789abcdef'' (empty_world faults))"

definition interruption :: "fault list" where
  "interruption = [Confirmed, Confirmed, Confirmed, Confirmed, Refused]"

definition task_view :: "agent_task \<Rightarrow> uuid \<times> task_state \<times> int \<times> bool \<times> uuid list" where
  "task_view t = (gt_task_id t, gt_state t, gt_attempt t, actionable t, gt_dependency_task_ids t)"

lemma created_reachable: "gen_reachable sample_plan_env (created_world faults)"
  unfolding created_world_def
  by (rule gen_create [OF gen_start, of "sample_worker False"]) (simp_all add: sample_worker_def, rule prod.collapse [symmetric])

lemma sample_uninterrupted:
  "case execute_workflow (sample_worker False) ''session'' (created_world []) of
     Some (Inr x, w') \<Rightarrow> rz_state x = SS_COMPLETED
       \<and> map task_view (rz_tasks x) = [(''l'', TS_SUCCEEDED, 1, False, []), (''t'', TS_SUCCEEDED, 1, False, [''l''])]
       \<and> gn_calls w' = [(''l'', 1, []), (''t'', 1, [sample_generated ''l''])]
   | _ \<Rightarrow> False"
  by code_simp

lemma sample_interrupted:
  "case execute_workflow (sample_worker True) ''session'' (created_world interruption) of
     Some (Inl _, w) \<Rightarrow>
       (case load_runtime (sample_worker True) ''session'' w of
          Inr (s, b, ts, cs) \<Rightarrow>
            map task_view ts = [(''t'', TS_PENDING, 0, True, [''l'']), (''l'', TS_FAILED, 1, True, [])]
            \<and> (case execute_dag (sample_worker True) b ts (candidate_map_of cs) w of
                 Some (Inr _, w') \<Rightarrow> map task_view (latest_tasks w' ''b'' ''1'')
                   = [(''t'', TS_SKIPPED, 0, False, [''l'']), (''l'', TS_SUCCEEDED, 2, False, [])]
               | _ \<Rightarrow> False)
        | _ \<Rightarrow> False)
   | _ \<Rightarrow> False"
  by code_simp

lemma uninterrupted_run:
  obtains x w where "execute_workflow (sample_worker False) ''session'' (created_world []) = Some (Inr x, w)"
    "gen_reachable sample_plan_env w" "rz_state x = SS_COMPLETED" "gn_calls w = [(''l'', 1, []), (''t'', 1, [sample_generated ''l''])]"
proof -
  obtain r w where run: "execute_workflow (sample_worker False) ''session'' (created_world []) = Some (r, w)"
    using sample_uninterrupted by (cases "execute_workflow (sample_worker False) ''session'' (created_world [])") auto
  have reach: "gen_reachable sample_plan_env w"
    by (rule gen_execute [OF created_reachable _ run]) (simp add: sample_worker_def)
  from sample_uninterrupted run reach show ?thesis by (cases r) (auto intro: that)
qed

theorem workflow_history_witness:
  "\<exists>w. gen_reachable sample_plan_env w \<and> length (gn_calls w) = 2 \<and> legal_history (rows_of w ''t'')
     \<and> verify_audit_chain sample_plan_env (gn_audit w)"
proof -
  obtain x w where w: "gen_reachable sample_plan_env w" "gn_calls w = [(''l'', 1, []), (''t'', 1, [sample_generated ''l''])]"
    by (rule uninterrupted_run)
  from workflow_history [OF w(1), of "''t''"] w show ?thesis by (intro exI [of _ w]) simp
qed

theorem agents_run_on_accepted_witness:
  "\<exists>w t. gen_reachable sample_plan_env w \<and> t \<in> set (rows_of w ''t'') \<and> gt_attempt t = 1
     \<and> list_all2 (\<lambda>d c. \<exists>s. current w s \<and> gt_task_id s = d \<and> accepted w s c) (gt_dependency_task_ids t) [sample_generated ''l'']"
proof -
  obtain x w where w: "gen_reachable sample_plan_env w" "gn_calls w = [(''l'', 1, []), (''t'', 1, [sample_generated ''l''])]"
    by (rule uninterrupted_run)
  then have "(''t'', 1, [sample_generated ''l'']) \<in> set (gn_calls w)" by simp
  from agents_run_on_accepted [OF w(1) this] w(1) show ?thesis by blast
qed

theorem execution_result_witness:
  "\<exists>x w s. execute_workflow (sample_worker False) ''session'' (created_world []) = Some (Inr x, w) \<and> rz_state x = SS_COMPLETED
     \<and> latest_session w ''session'' = Some s \<and> se_state s = SS_COMPLETED"
proof -
  obtain x w where run: "execute_workflow (sample_worker False) ''session'' (created_world []) = Some (Inr x, w)" "rz_state x = SS_COMPLETED"
    by (rule uninterrupted_run)
  have "ge_hash (sample_worker False) = sample_plan_env" by (simp add: sample_worker_def)
  from execution_result [OF created_reachable this run(1)] run show ?thesis by auto
qed

theorem resumed_execution_skips_witness:
  "\<exists>w s b ts cs w' d l. execute_dag (sample_worker True) b ts (candidate_map_of cs) w = Some (Inr (), w')
     \<and> load_runtime (sample_worker True) ''session'' w = Inr (s, b, ts, cs) \<and> gen_reachable sample_plan_env w
     \<and> current w' d \<and> gt_task_id d = ''t'' \<and> gt_state d = TS_SKIPPED
     \<and> l \<in> set (latest_tasks w' ''b'' ''1'') \<and> gt_task_id l = ''l'' \<and> gt_state l = TS_SUCCEEDED"
proof -
  let ?e = "sample_worker True"
  obtain r w where run: "execute_workflow ?e ''session'' (created_world interruption) = Some (r, w)"
    using sample_interrupted by (cases "execute_workflow ?e ''session'' (created_world interruption)") auto
  have hash: "ge_hash ?e = sample_plan_env" by (simp add: sample_worker_def)
  have reach: "gen_reachable sample_plan_env w" by (rule gen_execute [OF created_reachable hash run])
  obtain err where r: "r = Inl err" using sample_interrupted run by (cases r) auto
  obtain s b ts cs where load: "load_runtime ?e ''session'' w = Inr (s, b, ts, cs)"
    using sample_interrupted run r by (cases "load_runtime ?e ''session'' w") auto
  obtain q w' where dag: "execute_dag ?e b ts (candidate_map_of cs) w = Some (q, w')"
    using sample_interrupted run r load by (cases "execute_dag ?e b ts (candidate_map_of cs) w") auto
  have q: "q = Inr ()" and ts: "map task_view ts = [(''t'', TS_PENDING, 0, True, [''l'']), (''l'', TS_FAILED, 1, True, [])]"
    and latest: "map task_view (latest_tasks w' ''b'' ''1'') = [(''t'', TS_SKIPPED, 0, False, [''l'']), (''l'', TS_SUCCEEDED, 2, False, [])]"
    using sample_interrupted run r load dag by (cases q; simp)+
  from ts obtain d l where dl: "ts = [d, l]" "gt_task_id d = ''t''" "actionable d" "gt_dependency_task_ids d = [''l'']"
      "gt_task_id l = ''l''" "gt_state l = TS_FAILED" by (auto simp: task_view_def map_eq_Cons_conv)
  then have "\<exists>d'. current w' d' \<and> gt_task_id d' = gt_task_id d \<and> gt_state d' = TS_SKIPPED"
    by (intro resumed_execution_skips [OF reach hash load dag [unfolded q], of l]) simp_all
  moreover have "\<exists>l'. l' \<in> set (latest_tasks w' ''b'' ''1'') \<and> gt_task_id l' = ''l'' \<and> gt_state l' = TS_SUCCEEDED"
    using latest by (force simp: task_view_def map_eq_Cons_conv)
  ultimately show ?thesis using dag load reach dl(2) q by fastforce
qed

end
