(* ===== verification/Spec2Isabelle.thy ===== *)
theory Spec2Isabelle
  imports VerificationState Execution Aggregation TaskQueue MessageBus OutboxPublisher
    Streams ReplayFrame PathPlanning Revision AuditTrail Blueprint GenerationSamples
begin

text \<open>
  A verification library of CyberControl, the Python backend of an education platform in which agents generate
  learning resources, a pipeline verifies them claim by claim, and only verified blocks are released.

  \<^bold>\<open>The program.\<close>  Paths are relative to the directory of the sources, the backend is \<^verbatim>\<open>backend/src/liyans\<close>, the contracts are
  \<^verbatim>\<open>packages/contracts-python/src/liyans_contracts\<close>.
  Records on the wire are pydantic models that are sealed: each carries the hash of its canonical JSON document.  A verification moves through a state
  machine (\<^verbatim>\<open>domains/verification/state_machine.py\<close>); the claims of a candidate are scored for risk (\<^verbatim>\<open>risk_scoring.py\<close>), a plan assigns
  verification modules to them (\<^verbatim>\<open>dispatch.py\<close>), the plan is executed in waves (\<^verbatim>\<open>execution.py\<close>) and the results are aggregated
  to verdicts and to one decision (\<^verbatim>\<open>aggregation.py\<close>).  A rejected candidate is revised at most twice (\<^verbatim>\<open>domains/revision\<close>), an accepted one is
  published under a one-time authorization (\<^verbatim>\<open>domains/release\<close>) into the artifact store (\<^verbatim>\<open>infrastructure/persistence\<close>).
  Below that lie the delivery of messages (an outbox whose rows a publisher hands to a bus with idempotent, ordered delivery:
  \<^verbatim>\<open>infrastructure/messaging\<close> and \<^verbatim>\<open>infrastructure/persistence\<close>), the streaming of events with resumable cursors (\<^verbatim>\<open>infrastructure/streaming\<close>),
  task queue and resilience primitives (\<^verbatim>\<open>infrastructure/tasks\<close>, \<^verbatim>\<open>infrastructure/resilience.py\<close>), and the audit trail
  (\<^verbatim>\<open>infrastructure/observability/audit.py\<close>).  Beside the pipeline stand the course topology (\<^verbatim>\<open>domains/topic1\<close>) and the
  planner of learning paths (\<^verbatim>\<open>domains/topic2\<close>); the workflow that generates the resources (\<^verbatim>\<open>domains/topic3\<close>) turns a command into
  a blueprint of tasks and runs an agent for each, in transactions that survive the end of the process.

  \<^bold>\<open>Conventions.\<close>  A UUID is its text, a \<^verbatim>\<open>datetime\<close> an integer number of microseconds, a Python integer an \<^verbatim>\<open>int\<close>, a float the rational
  number it denotes with every operation rounded (\<^verbatim>\<open>PyFloat\<close>), a text a list of characters or code points (\<^verbatim>\<open>PyText\<close>).  A
  function that may raise returns a sum whose left side is the exception.  An operation on a state returns its result and the new state; what asyncio interleaves
  is a sequence of steps, one per critical section.  Hashes (SHA-256, HMAC, \<^verbatim>\<open>uuid5\<close>), the JSON text of a document, compiled regular expressions,
  handlers of callers and readings of clocks are parameters.  A record field has a prefix of two letters for its record.

  \<^bold>\<open>Theories.\<close>
  \<^item> \<^verbatim>\<open>Prelude\<close>, \<^verbatim>\<open>PyFloat\<close>, \<^verbatim>\<open>PyText\<close>: dictionaries, sorting and the error monad; double precision with the locale \<open>rounding\<close>; text.
  \<^item> \<^verbatim>\<open>Contracts\<close>, \<^verbatim>\<open>ContractsC1\<close>, \<^verbatim>\<open>Envelope\<close>, \<^verbatim>\<open>CoreErrors\<close>: the sealed records with their validators, the locale
    \<open>sealed_document\<close> (a record that was built is sealed and valid), the envelope and the error taxonomy.
  \<^item> \<^verbatim>\<open>VerificationState\<close>: the transition table; every run keeps the revision budget, ends in states that are final, and reaches release only after
    a decision.
  \<^item> \<^verbatim>\<open>RiskScoring\<close>, \<^verbatim>\<open>Dispatch\<close>, \<^verbatim>\<open>Execution\<close>, \<^verbatim>\<open>Aggregation\<close>: the pipeline.  The lemmas show that scoring is total and marks dangerous content,
    that the plan is sound and its waves are a topological layering, that the execution of a plan gives one
    outcome per item, and that the decision follows from the latest mandatory results whatever their order.
  \<^item> \<^verbatim>\<open>Contents\<close>, \<^verbatim>\<open>Candidates\<close>, \<^verbatim>\<open>Artifacts\<close>, \<^verbatim>\<open>Release\<close>, \<^verbatim>\<open>Revision\<close>: the content models of blocks, candidates, the object store
    (immutable objects, tenants apart), the publication (one result per authorization, exactly the allowed blocks) and the revision (only patched blocks
    change, at most two per candidate, a retry is a replay when the patches are sealed).
  \<^item> \<^verbatim>\<open>Idempotency\<close>, \<^verbatim>\<open>MessageBus\<close>, \<^verbatim>\<open>Outbox\<close>, \<^verbatim>\<open>OutboxPublisher\<close>: the locale of an idempotency store with two interpretations, the bus
    that completes every message once and in order, the claims on the outbox and the publisher that keeps partitions without gaps.
  \<^item> \<^verbatim>\<open>Streams\<close>, \<^verbatim>\<open>ReplayCursor\<close>, \<^verbatim>\<open>ReplayLog\<close>, \<^verbatim>\<open>ReplayFrame\<close>: text fragments and their assembly within the gap buffer, the signed cursor,
    the two replay logs that refine the history of events (locale \<open>replay_log\<close>), and what a client reads from a frame.
  \<^item> \<^verbatim>\<open>Resilience\<close>, \<^verbatim>\<open>TaskQueue\<close>: retry, breaker and token bucket; admission, execution and settlement of tasks.
  \<^item> \<^verbatim>\<open>Topology\<close>, \<^verbatim>\<open>Learners\<close>, \<^verbatim>\<open>PathGraph\<close>, \<^verbatim>\<open>PathPlanning\<close>: the layering of a course, the records of learners, the repair of the knowledge graph
    and the planned path.
  \<^item> \<^verbatim>\<open>AuditTrail\<close>: the hash chain of audit records and its two stores; the chain is unbroken, tampering shows, and the file loads again.
  \<^item> \<^verbatim>\<open>Blueprint\<close>: the planner of a generation workflow, whose blueprint satisfies its contract.
  \<^item> \<^verbatim>\<open>Generation\<close>, \<^verbatim>\<open>GenerationRun\<close>, \<^verbatim>\<open>GenerationHistory\<close>, \<^verbatim>\<open>GenerationSamples\<close>: the workflow that runs the agents.  The tables of a
    session and the transactions on them, the attempts of a task and the rounds over the graph, the invariant of every state that creations and
    executions reach, and a concrete workflow.  The rows of a task are a legal history whatever fails, agents are called with accepted
    candidates only, an execution returns and settles every task, and a resumed execution may skip what an uninterrupted one would run.

  \<^bold>\<open>Bounds and fuel.\<close>  Loops whose recursion is not structural are functions with a measure: the waves and the layering shrink the items that are
  left, the repair of a graph removes an edge in every round, the attempts of an item or of a task approach its maximum.
  The rounds of a workflow are a partial function, shown to return because every round leaves fewer tasks that can be run.  The search for a cycle has a fuel of the
  number of nodes, which bounds the depth of a path without repetition.  Floats are bounded away from overflow by the contracts of their fields.

  \<^bold>\<open>Not modelled.\<close>  The HTTP routes, middleware, settings and wiring (\<^verbatim>\<open>api\<close>, \<^verbatim>\<open>main.py\<close>), SQLAlchemy models and migrations: declarations and
  plumbing.  The sessions of services over PostgreSQL (\<^verbatim>\<open>verification/service.py\<close>, \<^verbatim>\<open>verification/runtime.py\<close>, the services of topics 1 and
  2, knowledge, identity, compliance): they load and store rows around the operations modelled here; of the repositories,
  those whose logic decides (idempotency, outbox, replay log, revision, workflow) are translated.  Agents, which build prompts and parse
  the answers of language models, and live progress messages.  The verification modules themselves (academic formulas,
  code analysis, retrieval, quizzes, privacy and security detectors) enter the pipeline as arbitrary handlers; what rests on symbolic algebra,
  on language models or on regular expressions over natural language is not code of this repository.  Metrics, profiling, the frontend, deployment and tools.
\<close>

end
